(* ===== verification/Kucg_Prelude.thy ===== *)
theory Kucg_Prelude
  imports Main "HOL-Library.Word" "HOL-Library.Signed_Division" "HOL-Library.Monad_Syntax"
begin

text \<open>
  Shared vocabulary of the development: the status codes of \<open>src/src/ucg/api/ucg.h\<close>, C integers and
  their division, the allocator with its two outcomes, and the list lemmas that more than one
  component uses.

  C's signed integers (\<open>int\<close>, \<open>int32_t\<close>, \<open>ucg_rank_t\<close>) are HOL integers: a definition
  that computes with them is the code as long as no intermediate value leaves the 32-bit range, beyond which C says nothing.
  Ranks, counts and group sizes are far from it; where the code multiplies two of them, the k-nomial tree (\<open>Algo_Kntree\<close>,
  \<open>Kntree_Spec\<close>) and the processes per socket (\<open>Topo\<close>), the theory says for which sizes the products fit.  C's \<open>/\<close> and
  \<open>%\<close> on them truncate towards zero: \<open>sdiv\<close> and \<open>smod\<close> of \<open>HOL-Library.Signed_Division\<close>.
  Unsigned 32- and 64-bit values are machine words.
\<close>

named_theorems kucg_arith \<open>C arithmetic in terms of \<open>div\<close> and \<open>mod\<close>\<close>
named_theorems kucg_inv \<open>invariant preservation lemmas of the components\<close>

type_synonym c_int = int
type_synonym ucg_rank_t = int
type_synonym u32 = "32 word"
type_synonym u64 = "64 word"

abbreviation UCG_INVALID_RANK :: ucg_rank_t where
  "UCG_INVALID_RANK \<equiv> -1"

subsection \<open>Status codes\<close>

datatype ucg_status =
    UCG_OK | UCG_INPROGRESS
  | UCG_ERR_UNSUPPORTED | UCG_ERR_INVALID_PARAM | UCG_ERR_NO_RESOURCE | UCG_ERR_NOT_FOUND
  | UCG_ERR_NO_MEMORY | UCG_ERR_INCOMPATIBLE | UCG_ERR_IO_ERROR | UCG_ERR_TRUNCATE
  | UCG_ERR_INVALID_ADDR | UCG_ERR_UNREACHABLE

fun ucg_status_code :: "ucg_status \<Rightarrow> c_int" where
  "ucg_status_code UCG_OK = 0"
| "ucg_status_code UCG_INPROGRESS = 1"
| "ucg_status_code UCG_ERR_UNSUPPORTED = -1"
| "ucg_status_code UCG_ERR_INVALID_PARAM = -2"
| "ucg_status_code UCG_ERR_NO_RESOURCE = -3"
| "ucg_status_code UCG_ERR_NOT_FOUND = -4"
| "ucg_status_code UCG_ERR_NO_MEMORY = -5"
| "ucg_status_code UCG_ERR_INCOMPATIBLE = -6"
| "ucg_status_code UCG_ERR_IO_ERROR = -7"
| "ucg_status_code UCG_ERR_TRUNCATE = -8"
| "ucg_status_code UCG_ERR_INVALID_ADDR = -9"
| "ucg_status_code UCG_ERR_UNREACHABLE = -10"

lemma ucg_status_code_inj: "ucg_status_code a = ucg_status_code b \<longleftrightarrow> a = b"
  by (cases a; cases b) simp_all

subsection \<open>The allocator\<close>

text \<open>
  \<open>ucg_malloc\<close>, \<open>ucg_calloc\<close> and \<open>ucg_strdup\<close> succeed or return NULL.  Which of them happens is
  not the program's choice, so it is an input: \<open>h_outcomes\<close> lists the outcomes of the coming
  allocations (every later one succeeds).  \<open>h_live\<close> counts the blocks that are allocated and not
  yet freed, so that a leak is a statement about the final state.
\<close>

record ucg_heap =
  h_outcomes :: "bool list"
  h_live :: int

definition heap_alloc :: "ucg_heap \<Rightarrow> bool \<times> ucg_heap" where
  "heap_alloc h =
     (case h_outcomes h of
        [] \<Rightarrow> (True, h\<lparr>h_live := h_live h + 1\<rparr>)
      | ok # rest \<Rightarrow>
          (ok, h\<lparr>h_outcomes := rest, h_live := (if ok then h_live h + 1 else h_live h)\<rparr>))"

definition heap_free :: "ucg_heap \<Rightarrow> ucg_heap" where
  "heap_free h = h\<lparr>h_live := h_live h - 1\<rparr>"

lemma heap_alloc_live:
  "heap_alloc h = (ok, h') \<Longrightarrow> h_live h' = h_live h + (if ok then 1 else 0)"
  by (auto simp: heap_alloc_def split: list.splits)

lemma heap_free_live [simp]: "h_live (heap_free h) = h_live h - 1"
  by (simp add: heap_free_def)

lemma heap_free_outcomes [simp]: "h_outcomes (heap_free h) = h_outcomes h"
  by (simp add: heap_free_def)

lemma heap_alloc_ok:
  "h_outcomes h = [] \<Longrightarrow> heap_alloc h = (True, h\<lparr>h_live := h_live h + 1\<rparr>)"
  by (simp add: heap_alloc_def)

subsection \<open>C division\<close>

lemma sdiv_nonneg [kucg_arith]: "0 \<le> a \<Longrightarrow> 0 \<le> b \<Longrightarrow> a sdiv b = a div (b :: int)"
  by (cases "a = 0"; cases "b = 0") (auto simp: signed_divide_int_def)

lemma smod_nonneg [kucg_arith]: "0 \<le> a \<Longrightarrow> 0 \<le> b \<Longrightarrow> a smod b = a mod (b :: int)"
  by (cases "a = 0") (auto simp: signed_modulo_int_def)

subsection \<open>Pointers to arrays\<close>

text \<open>A read through a pointer: \<open>None\<close> when it is NULL or the index is out of range (undefined in C).\<close>

definition c_read :: "'a list option \<Rightarrow> nat \<Rightarrow> 'a option" where
  "c_read p i = (case p of None \<Rightarrow> None | Some xs \<Rightarrow> if i < length xs then Some (xs ! i) else None)"

subsection \<open>Lists\<close>

lemma int_sum_list: "int (\<Sum>x \<leftarrow> xs. f x) = (\<Sum>x \<leftarrow> xs. int (f x))"
  by (induction xs) simp_all

end
