(* ===== verification/Kntree_Tree.thy ===== *)
theory Kntree_Tree
  imports Kucg_Prelude
begin

text \<open>
  The k-nomial tree as a mathematical object, on virtual ranks (the root is 0): the reference that
  the iterator of \<open>Algo_Kntree\<close> is compared with.  A rank \<open>v\<close> has a level \<open>m\<close>, the
  number of sub-trees it is the root of; its children are \<open>v + d^k * j\<close> for \<open>k < m\<close> and
  \<open>1 \<le> j < d\<close>, as far as they are below the group size; its parent is \<open>v\<close> with the lowest non-zero
  digit in base \<open>d\<close> cleared.
\<close>

subsection \<open>Levels\<close>

definition kt_is_level :: "int \<Rightarrow> int \<Rightarrow> int \<Rightarrow> nat \<Rightarrow> bool" where
  "kt_is_level d n v m \<longleftrightarrow>
     d ^ m dvd v \<and> (\<forall>k < m. d ^ k < n) \<and> (n \<le> d ^ m \<or> \<not> d ^ Suc m dvd v)"

lemma pow_dvd_mono: "i \<le> j \<Longrightarrow> (d :: int) ^ j dvd v \<Longrightarrow> d ^ i dvd v"
  by (meson dvd_trans le_imp_power_dvd)

lemma kt_level_max:
  assumes "kt_is_level d n v m" and "\<forall>k < i. d ^ k < n" and "d ^ i dvd v"
  shows "i \<le> m"
proof (rule ccontr)
  assume "\<not> i \<le> m"
  then have "m < i" and "Suc m \<le> i" by simp_all
  with assms(2) have "d ^ m < n" by simp
  moreover from \<open>Suc m \<le> i\<close> assms(3) have "d ^ Suc m dvd v" by (rule pow_dvd_mono)
  ultimately show False using assms(1) by (auto simp: kt_is_level_def)
qed

lemma kt_level_unique:
  assumes "kt_is_level d n v m" and "kt_is_level d n v m'"
  shows "m = m'"
  using kt_level_max [OF assms(1), of m'] kt_level_max [OF assms(2), of m] assms
  by (simp add: kt_is_level_def)

lemma kt_level_zero:
  assumes "kt_is_level d n 0 m" shows "n \<le> d ^ m"
  using assms by (simp add: kt_is_level_def)

lemma kt_level_nonzero:
  assumes "kt_is_level d n v m" and "0 < v" and "v < n"
  shows "d ^ m < n" and "\<not> d ^ Suc m dvd v"
proof -
  have "d ^ m \<le> v" using assms(1,2) by (simp add: kt_is_level_def zdvd_imp_le)
  with assms(3) show "d ^ m < n" by simp
  with assms(1) show "\<not> d ^ Suc m dvd v" by (auto simp: kt_is_level_def)
qed

lemma kt_pow_bound: "2 \<le> d \<Longrightarrow> 0 < n \<Longrightarrow> n \<le> (d :: int) ^ nat n"
proof -
  assume "2 \<le> d" "0 < n"
  have "int k \<le> d ^ k" for k
  proof (induction k)
    case 0 show ?case by simp
  next
    case (Suc k)
    have "1 \<le> d ^ k" using \<open>2 \<le> d\<close> by simp
    then have "int (Suc k) \<le> 2 * d ^ k" using Suc by linarith
    also have "\<dots> \<le> d * d ^ k" using \<open>2 \<le> d\<close> \<open>1 \<le> d ^ k\<close> by (intro mult_right_mono) auto
    finally show ?case by simp
  qed
  from this [of "nat n"] \<open>0 < n\<close> show ?thesis by simp
qed

subsection \<open>Children\<close>

text \<open>The children of \<open>v\<close> in the sub-trees of stride \<open>s\<close>, from the \<open>j\<close>-th on.\<close>

definition kt_block :: "int \<Rightarrow> int \<Rightarrow> int \<Rightarrow> int \<Rightarrow> int \<Rightarrow> int list" where
  "kt_block n v s d j = filter (\<lambda>c. c < n) (map (\<lambda>i. v + s * i) [j..d - 1])"

fun kt_kids :: "int \<Rightarrow> int \<Rightarrow> int \<Rightarrow> nat \<Rightarrow> int list" where
  "kt_kids d n v 0 = []"
| "kt_kids d n v (Suc k) = kt_block n v (d ^ k) d 1 @ kt_kids d n v k"

lemma kt_block_step:
  "kt_block n v s d j =
     (if j < d then if v + s * j < n then (v + s * j) # kt_block n v s d (j + 1)
                    else kt_block n v s d (j + 1)
      else [])"
  by (auto simp: kt_block_def upto.simps [of j "d - 1"])

lemma set_kt_block: "set (kt_block n v s d j) = {v + s * i | i. j \<le> i \<and> i < d \<and> v + s * i < n}"
  by (auto simp: kt_block_def)

lemma distinct_kt_block: "0 < s \<Longrightarrow> distinct (kt_block n v s d j)"
  by (auto simp: kt_block_def distinct_map inj_on_def)

lemma set_kt_kids:
  "set (kt_kids d n v m) = {v + d ^ k * j | k j. k < m \<and> 1 \<le> j \<and> j < d \<and> v + d ^ k * j < n}"
proof (induction m)
  case 0 show ?case by simp
next
  case (Suc m)
  show ?case unfolding kt_kids.simps set_append Suc set_kt_block
    by (auto simp: less_Suc_eq)
qed

text \<open>A child at stride \<open>d^k\<close> has level \<open>k\<close>, and clearing its digit gives back \<open>v\<close>.\<close>

lemma kt_digit:
  fixes d :: int
  assumes "2 \<le> d" and "d ^ Suc k dvd v" and "1 \<le> j" and "j < d"
  shows "(v + d ^ k * j) mod d ^ Suc k = d ^ k * j"
proof -
  have pos: "0 < d ^ k" using assms(1) by simp
  have "0 \<le> d ^ k * j" and "d ^ k * j < d ^ Suc k"
    using assms pos by (simp_all add: mult.commute mult_strict_right_mono)
  then show ?thesis using assms(2) by (simp add: mod_add_left_eq [symmetric] mod_eq_0_iff_dvd [THEN iffD2])
qed

lemma kt_child_level:
  assumes d: "2 \<le> d" and lv: "kt_is_level d n v m" and v: "0 \<le> v" and k: "k < m"
    and j: "1 \<le> j" "j < d" and c: "v + d ^ k * j < n"
  shows "kt_is_level d n (v + d ^ k * j) k"
proof -
  from lv k have dv: "d ^ Suc k dvd v" unfolding kt_is_level_def by (meson Suc_leI pow_dvd_mono)
  have "d ^ k dvd v" using dv by (meson dvd_mult_right dvd_trans le_imp_power_dvd lessI less_imp_le_nat)
  then have 1: "d ^ k dvd v + d ^ k * j" by simp
  have 2: "\<forall>i < k. d ^ i < n" using lv k by (simp add: kt_is_level_def)
  have "0 < d ^ k * j" using d j by simp
  then have 3: "\<not> d ^ Suc k dvd v + d ^ k * j"
    using kt_digit [OF d dv j] by (metis dvd_eq_mod_eq_0 less_irrefl)
  from 1 2 3 show ?thesis by (simp add: kt_is_level_def)
qed

definition kt_parent :: "int \<Rightarrow> int \<Rightarrow> nat \<Rightarrow> int" where
  "kt_parent d v m = v div d ^ Suc m * d ^ Suc m"

lemma kt_parent_alt: "kt_parent d v m = v - v mod d ^ Suc m"
  by (simp add: kt_parent_def minus_mod_eq_div_mult)

lemma kt_parent_child:
  assumes "2 \<le> d" and "kt_is_level d n v m" and "k < m" and "1 \<le> j" and "j < d"
  shows "kt_parent d (v + d ^ k * j) k = v"
proof -
  have "d ^ Suc k dvd v" using assms(2,3) unfolding kt_is_level_def by (meson Suc_leI pow_dvd_mono)
  then show ?thesis using kt_digit [of d k v j] assms by (simp add: kt_parent_alt)
qed

lemma kt_parent_range:
  assumes "2 \<le> d" and "kt_is_level d n v m" and "0 < v" and "v < n"
  shows "0 \<le> kt_parent d v m" and "kt_parent d v m < v"
proof -
  have "0 \<le> v mod d ^ Suc m" "v mod d ^ Suc m \<noteq> 0" "v mod d ^ Suc m \<le> v"
    using assms kt_level_nonzero [OF assms(2,3,4)]
    by (auto simp: dvd_eq_mod_eq_0 zmod_le_nonneg_dividend simp del: power_Suc)
  then show "0 \<le> kt_parent d v m" and "kt_parent d v m < v" by (simp_all add: kt_parent_alt)
qed

text \<open>Every rank but 0 is a child of its parent.\<close>

lemma kt_child_of_parent:
  assumes d: "2 \<le> d" and lv: "kt_is_level d n v m" and v: "0 < v" "v < n"
    and lp: "kt_is_level d n (kt_parent d v m) m'"
  shows "v \<in> set (kt_kids d n (kt_parent d v m) m')"
proof -
  let ?r = "v mod d ^ Suc m"
  have pos: "0 < d ^ m" "0 < d ^ Suc m" using d by simp_all
  have "d ^ m dvd v" using lv by (simp add: kt_is_level_def)
  then have "d ^ m dvd ?r" by (simp add: dvd_mod)
  then obtain j where j: "?r = d ^ m * j" by (elim dvdE)
  have "?r \<noteq> 0" using kt_level_nonzero [OF lv v] by (metis dvd_eq_mod_eq_0)
  moreover have "0 \<le> ?r" "?r < d ^ Suc m" using pos by (simp_all del: power_Suc)
  ultimately have "0 < ?r" by linarith
  then have "0 < d ^ m * j" "d ^ m * j < d ^ m * d"
    using j \<open>?r < d ^ Suc m\<close> by (simp_all only: power_Suc mult.commute [of d])
  have "0 < j" using \<open>0 < d ^ m * j\<close> pos(1) by (rule zero_less_mult_pos)
  then have "1 \<le> j" by linarith
  have "j < d" using \<open>d ^ m * j < d ^ m * d\<close> pos(1) by (simp only: mult_less_cancel_left_pos)
  have "d ^ Suc m dvd kt_parent d v m" by (simp add: kt_parent_def)
  moreover have "\<forall>k < Suc m. d ^ k < n"
    using lv kt_level_nonzero(1) [OF lv v] by (auto simp: kt_is_level_def less_Suc_eq)
  ultimately have "Suc m \<le> m'" using kt_level_max [OF lp] by blast
  have "v = kt_parent d v m + d ^ m * j" using j by (simp add: kt_parent_alt)
  with \<open>1 \<le> j\<close> \<open>j < d\<close> \<open>Suc m \<le> m'\<close> v(2) show ?thesis
    unfolding set_kt_kids mem_Collect_eq by (intro exI [of _ m] exI [of _ j]) simp
qed

lemma kt_kids_range:
  "2 \<le> d \<Longrightarrow> 0 \<le> v \<Longrightarrow> c \<in> set (kt_kids d n v m) \<Longrightarrow> v < c \<and> c < n"
  by (auto simp: set_kt_kids zero_less_mult_iff)

lemma kt_kids_level_parent:
  assumes "2 \<le> d" "kt_is_level d n v m" "0 \<le> v" "c \<in> set (kt_kids d n v m)"
    and "kt_is_level d n c m'"
  shows "kt_parent d c m' = v"
proof -
  from assms(4) obtain k j where kj: "c = v + d ^ k * j" "k < m" "1 \<le> j" "j < d" "c < n"
    unfolding set_kt_kids by blast
  then have "kt_is_level d n c k" using kt_child_level assms by blast
  with assms(5) have "m' = k" by (rule kt_level_unique)
  with kj assms show ?thesis by (simp add: kt_parent_child)
qed

lemma distinct_kt_kids:
  assumes d: "2 \<le> d" and lv: "kt_is_level d n v m" and v: "0 \<le> v" and m: "i \<le> m"
  shows "distinct (kt_kids d n v i)"
  using m
proof (induction i)
  case 0 show ?case by simp
next
  case (Suc i)
  have "set (kt_block n v (d ^ i) d 1) \<inter> set (kt_kids d n v i) = {}"
  proof (rule ccontr)
    assume "\<not> ?thesis"
    then obtain c where c1: "c \<in> set (kt_block n v (d ^ i) d 1)" and c2: "c \<in> set (kt_kids d n v i)"
      by blast
    from c1 obtain j where j: "c = v + d ^ i * j" "1 \<le> j" "j < d" "c < n"
      unfolding set_kt_block by blast
    from c2 obtain k j' where k: "c = v + d ^ k * j'" "k < i" "1 \<le> j'" "j' < d"
      unfolding set_kt_kids by blast
    have "kt_is_level d n c i" using kt_child_level [OF d lv v _ j(2,3)] j Suc.prems by simp
    moreover have "kt_is_level d n c k" using kt_child_level [OF d lv v _ k(3,4)] k j Suc.prems by simp
    ultimately have "i = k" by (rule kt_level_unique)
    with k show False by simp
  qed
  moreover have "distinct (kt_block n v (d ^ i) d 1)" using d by (intro distinct_kt_block) simp
  ultimately show ?case using Suc by simp
qed

subsection \<open>Subtree sizes\<close>

text \<open>The subtree of a rank of level \<open>m\<close> is the interval \<open>{v..<v + d^m}\<close>, cut at the group size.\<close>

definition kt_weight :: "int \<Rightarrow> int \<Rightarrow> int \<Rightarrow> nat \<Rightarrow> int" where
  "kt_weight d n v m = min (d ^ m) (n - v)"

lemma kt_block_weight:
  assumes s: "0 < s" and v: "v + s \<le> n \<or> j \<le> d" and j: "1 \<le> j" "j \<le> d" and vn: "v < n"
  shows "min (s * j) (n - v) + (\<Sum>c \<leftarrow> kt_block n v s d j. min s (n - c)) = min (s * d) (n - v)"
  using j
proof (induction "nat (d - j)" arbitrary: j)
  case 0
  then have "j = d" by simp
  then show ?case by (simp add: kt_block_step [of n v s d d])
next
  case (Suc x)
  then have jd: "j < d" by simp
  have IH: "min (s * (j + 1)) (n - v) + (\<Sum>c \<leftarrow> kt_block n v s d (j + 1). min s (n - c)) = min (s * d) (n - v)"
    using Suc.hyps(1) [of "j + 1"] Suc.hyps(2) Suc.prems jd by simp
  show ?case
  proof (cases "v + s * j < n")
    case True
    have "min (s * j) (n - v) + min s (n - (v + s * j)) = min (s * (j + 1)) (n - v)"
      using True s by (simp add: distrib_left min_def)
    then show ?thesis using IH True jd by (simp add: kt_block_step [of n v s d j])
  next
    case False
    then have "min (s * j) (n - v) = n - v" "min (s * (j + 1)) (n - v) = n - v"
      using s by (simp_all add: distrib_left min_def)
    then show ?thesis using IH False jd by (simp add: kt_block_step [of n v s d j])
  qed
qed

lemma kt_kids_weight:
  assumes d: "2 \<le> d" and v: "v < n"
    and w: "\<And>k c. k < m \<Longrightarrow> c \<in> set (kt_block n v (d ^ k) d 1) \<Longrightarrow> w c = min (d ^ k) (n - c)"
  shows "1 + (\<Sum>c \<leftarrow> kt_kids d n v m. w c) = kt_weight d n v m"
  using w
proof (induction m)
  case 0
  with v show ?case by (simp add: kt_weight_def)
next
  case (Suc m)
  have IH: "1 + (\<Sum>c \<leftarrow> kt_kids d n v m. w c) = kt_weight d n v m" using Suc by simp
  have "map w (kt_block n v (d ^ m) d 1) = map (\<lambda>c. min (d ^ m) (n - c)) (kt_block n v (d ^ m) d 1)"
    using Suc.prems [of m] by (simp cong: map_cong)
  note sum_eq = arg_cong [OF this, of sum_list]
  have "(\<Sum>c \<leftarrow> kt_block n v (d ^ m) d 1. w c) + min (d ^ m) (n - v) = min (d ^ m * d) (n - v)"
    unfolding sum_eq using kt_block_weight [of "d ^ m" v n 1 d] d v by simp
  with IH show ?case by (simp add: kt_weight_def mult.commute)
qed

end
