(* ===== verification/Algo_Kntree.thy ===== *)
theory Algo_Kntree
  imports Kntree_Tree
begin

text \<open>
  The k-nomial tree iterator of \<open>src/src/util/algo/ucg_kntree.c\<close> and \<open>ucg_kntree.h\<close>.  The struct
  \<open>ucg_algo_kntree_iter_t\<close> is the record \<open>ucg_algo_kntree_iter\<close> (its fields carry the prefix
  \<open>kn_\<close>), and every function of the file is a definition of the same name.  Loops whose termination
  depends on the arguments are \<open>partial_function (option)\<close>: the value \<open>None\<close> is "does not return".

  The products of the search for the parent stay below the size times the degree (lemma
  \<open>kntree_find_parent_fits\<close> of \<open>Kntree_Spec\<close>), and all others are smaller than the last of them; the C code overflows only
  if that reaches \<open>2^31\<close>, which takes more than 46340 ranks, as the degree is at most the size.
\<close>

subsection \<open>State and operations\<close>

record ucg_algo_kntree_iter =
  kn_size :: c_int
  kn_degree :: c_int
  kn_root :: ucg_rank_t
  kn_myrank :: ucg_rank_t
  kn_leftmost :: bool
  kn_max_subsize :: c_int
  kn_subsize :: c_int
  kn_child_idx :: c_int
  kn_parent :: ucg_rank_t
  kn_child :: ucg_rank_t

text \<open>The inner \<open>for\<close> of the leftmost update: \<open>True\<close> when it returned with a child.\<close>

function kntree_leftmost_for :: "ucg_algo_kntree_iter \<Rightarrow> c_int \<Rightarrow> ucg_algo_kntree_iter \<times> bool" where
  "kntree_leftmost_for it stride =
     (if kn_child_idx it < kn_degree it then
        let child = kn_myrank it + stride * kn_child_idx it in
        if child < kn_size it
        then (it\<lparr>kn_child := (child + kn_root it) smod kn_size it\<rparr>, True)
        else kntree_leftmost_for (it\<lparr>kn_child_idx := kn_child_idx it + 1\<rparr>) stride
      else (it, False))"
  by pat_completeness auto
termination
  by (relation "measure (\<lambda>(it, stride). nat (kn_degree it - kn_child_idx it))") auto

declare kntree_leftmost_for.simps [simp del]

partial_function (option) kntree_leftmost_while ::
    "ucg_algo_kntree_iter \<Rightarrow> c_int \<Rightarrow> ucg_algo_kntree_iter option" where
  "kntree_leftmost_while it stride =
     (if stride > 0 then
        (case kntree_leftmost_for it stride of
           (it', found) \<Rightarrow>
             if found then Some it'
             else kntree_leftmost_while
                    (it'\<lparr>kn_subsize := stride, kn_child_idx := 1\<rparr>) (stride sdiv kn_degree it'))
      else Some (it\<lparr>kn_child := UCG_INVALID_RANK\<rparr>))"

definition ucg_algo_kntree_iter_update_kntree_leftmost ::
    "ucg_algo_kntree_iter \<Rightarrow> ucg_algo_kntree_iter option" where
  "ucg_algo_kntree_iter_update_kntree_leftmost it =
     kntree_leftmost_while it (kn_subsize it sdiv kn_degree it)"

text \<open>The inner \<open>for\<close> of the rightmost update, with its second counter \<open>i\<close>.\<close>

function kntree_rightmost_for ::
    "ucg_algo_kntree_iter \<Rightarrow> c_int \<Rightarrow> c_int \<Rightarrow> ucg_algo_kntree_iter \<times> bool" where
  "kntree_rightmost_for it stride i =
     (if i > 0 then
        let child = kn_myrank it + stride * i in
        if child < kn_size it
        then (it\<lparr>kn_child := (child + kn_root it) smod kn_size it\<rparr>, True)
        else kntree_rightmost_for (it\<lparr>kn_child_idx := kn_child_idx it + 1\<rparr>) stride (i - 1)
      else (it, False))"
  by pat_completeness auto
termination
  by (relation "measure (\<lambda>(it, stride, i). nat i)") auto

declare kntree_rightmost_for.simps [simp del]

partial_function (option) kntree_rightmost_while ::
    "ucg_algo_kntree_iter \<Rightarrow> c_int \<Rightarrow> ucg_algo_kntree_iter option" where
  "kntree_rightmost_while it stride =
     (if stride < kn_max_subsize it then
        (case kntree_rightmost_for it stride (kn_degree it - kn_child_idx it) of
           (it', found) \<Rightarrow>
             if found then Some it'
             else kntree_rightmost_while
                    (it'\<lparr>kn_subsize := stride * kn_degree it', kn_child_idx := 1\<rparr>)
                    (stride * kn_degree it'))
      else Some (it\<lparr>kn_child := UCG_INVALID_RANK\<rparr>))"

definition ucg_algo_kntree_iter_update_kntree_rightmost ::
    "ucg_algo_kntree_iter \<Rightarrow> ucg_algo_kntree_iter option" where
  "ucg_algo_kntree_iter_update_kntree_rightmost it = kntree_rightmost_while it (kn_subsize it)"

definition ucg_algo_kntree_iter_update :: "ucg_algo_kntree_iter \<Rightarrow> ucg_algo_kntree_iter option" where
  "ucg_algo_kntree_iter_update it =
     (if kn_leftmost it then ucg_algo_kntree_iter_update_kntree_leftmost it
      else ucg_algo_kntree_iter_update_kntree_rightmost it)"

text \<open>The search for the parent in \<open>ucg_algo_kntree_iter_init\<close>: the parent and the final \<open>subsize\<close>.\<close>

partial_function (option) kntree_find_parent ::
    "c_int \<Rightarrow> c_int \<Rightarrow> ucg_rank_t \<Rightarrow> ucg_rank_t \<Rightarrow> c_int \<Rightarrow> (ucg_rank_t \<times> c_int) option" where
  "kntree_find_parent gsize degree root v_myrank subsize =
     (if subsize < gsize then
        (let next_subsize = subsize * degree in
         if v_myrank smod next_subsize \<noteq> 0
         then Some (((v_myrank sdiv next_subsize) * next_subsize + root) smod gsize, subsize)
         else kntree_find_parent gsize degree root v_myrank next_subsize)
      else Some (UCG_INVALID_RANK, subsize))"

definition kntree_adjust_degree :: "c_int \<Rightarrow> c_int \<Rightarrow> c_int" where
  "kntree_adjust_degree gsize degree =
     (if degree \<le> 1 then 2 else if degree > gsize then gsize else degree)"

definition ucg_algo_kntree_iter_reset :: "ucg_algo_kntree_iter \<Rightarrow> ucg_algo_kntree_iter option" where
  "ucg_algo_kntree_iter_reset it =
     ucg_algo_kntree_iter_update
       (it\<lparr>kn_subsize := (if kn_leftmost it then kn_max_subsize it else 1),
           kn_child := UCG_INVALID_RANK,
           kn_child_idx := 1\<rparr>)"

definition ucg_algo_kntree_iter_init ::
    "c_int \<Rightarrow> c_int \<Rightarrow> ucg_rank_t \<Rightarrow> ucg_rank_t \<Rightarrow> bool \<Rightarrow> ucg_algo_kntree_iter option" where
  "ucg_algo_kntree_iter_init gsize degree root myrank leftmost =
     (let degree = kntree_adjust_degree gsize degree;
          v_myrank = (myrank - root + gsize) smod gsize
      in case kntree_find_parent gsize degree root v_myrank 1 of
           None \<Rightarrow> None
         | Some (parent, subsize) \<Rightarrow>
             ucg_algo_kntree_iter_update
               \<lparr>kn_size = gsize, kn_degree = degree, kn_root = root, kn_myrank = v_myrank,
                kn_leftmost = leftmost, kn_max_subsize = subsize,
                kn_subsize = (if leftmost then subsize else 1), kn_child_idx = 1,
                kn_parent = parent, kn_child = UCG_INVALID_RANK\<rparr>)"

definition ucg_algo_kntree_iter_child_inc :: "ucg_algo_kntree_iter \<Rightarrow> ucg_algo_kntree_iter option" where
  "ucg_algo_kntree_iter_child_inc it =
     ucg_algo_kntree_iter_update (it\<lparr>kn_child_idx := kn_child_idx it + 1\<rparr>)"

definition ucg_algo_kntree_iter_root_value :: "ucg_algo_kntree_iter \<Rightarrow> ucg_rank_t" where
  "ucg_algo_kntree_iter_root_value it = kn_root it"

definition ucg_algo_kntree_iter_parent_value :: "ucg_algo_kntree_iter \<Rightarrow> ucg_rank_t" where
  "ucg_algo_kntree_iter_parent_value it = kn_parent it"

definition ucg_algo_kntree_iter_child_value :: "ucg_algo_kntree_iter \<Rightarrow> ucg_rank_t" where
  "ucg_algo_kntree_iter_child_value it = kn_child it"

text \<open>
  \<open>ucg_algo_kntree_get_subtree_size\<close> and its \<open>while\<close> loop call each other; here the call is written
  out in the loop: the subtree of \<open>peer\<close> is counted by the loop on a fresh iterator for \<open>peer\<close>,
  starting from 1.
\<close>

partial_function (option) kntree_subtree_while :: "ucg_algo_kntree_iter \<Rightarrow> c_int \<Rightarrow> c_int option" where
  "kntree_subtree_while inner count =
     (if ucg_algo_kntree_iter_child_value inner = UCG_INVALID_RANK then Some count
      else Option.bind
        (ucg_algo_kntree_iter_init (kn_size inner) (kn_degree inner) (kn_root inner)
           (ucg_algo_kntree_iter_child_value inner) True)
        (\<lambda>peer_iter. Option.bind (kntree_subtree_while peer_iter 1)
        (\<lambda>peer_count. Option.bind (ucg_algo_kntree_iter_child_inc inner)
        (\<lambda>inner'. kntree_subtree_while inner' (count + peer_count)))))"

definition ucg_algo_kntree_get_subtree_size :: "ucg_algo_kntree_iter \<Rightarrow> ucg_rank_t \<Rightarrow> c_int option" where
  "ucg_algo_kntree_get_subtree_size it rank =
     Option.bind (ucg_algo_kntree_iter_init (kn_size it) (kn_degree it) (kn_root it) rank True)
       (\<lambda>inner. kntree_subtree_while inner 1)"

text \<open>
  How every collective walks its children: read the child, move on, until \<open>UCG_INVALID_RANK\<close>
  (for example the send loop of \<open>ucg_planc_ucx_bcast_kntree_op_progress\<close>).
\<close>

partial_function (option) kntree_children :: "ucg_algo_kntree_iter \<Rightarrow> ucg_rank_t list option" where
  "kntree_children it =
     (if ucg_algo_kntree_iter_child_value it = UCG_INVALID_RANK then Some []
      else Option.bind (ucg_algo_kntree_iter_child_inc it)
        (\<lambda>it'. Option.bind (kntree_children it')
        (\<lambda>cs. Some (ucg_algo_kntree_iter_child_value it # cs))))"

end
