(* ===== verification/Kntree_Walk.thy ===== *)
theory Kntree_Walk
  imports Algo_Kntree
begin

text \<open>
  The iterator of \<open>Algo_Kntree\<close> walks the children of \<open>Kntree_Tree\<close>: a state of the iterator stands
  for the list of children still to come (\<open>kn_at\<close>), one update yields its head, and
  \<open>ucg_algo_kntree_iter_init\<close> starts with all of them.
\<close>

subsection \<open>The iterator walks the tree\<close>

lemma kntree_leftmost_for_block:
  "(kt_block (kn_size it) (kn_myrank it) s (kn_degree it) (kn_child_idx it) = [] \<longrightarrow>
            (\<exists>j. kntree_leftmost_for it s = (it\<lparr>kn_child_idx := j\<rparr>, False))) \<and>
         (\<forall>c cs. kt_block (kn_size it) (kn_myrank it) s (kn_degree it) (kn_child_idx it) = c # cs \<longrightarrow>
            (\<exists>j. kntree_leftmost_for it s =
                   (it\<lparr>kn_child_idx := j, kn_child := (c + kn_root it) smod kn_size it\<rparr>, True) \<and>
                 cs = kt_block (kn_size it) (kn_myrank it) s (kn_degree it) (j + 1)))"
proof (induction it s rule: kntree_leftmost_for.induct)
  case (1 it s)
  show ?case
  proof (cases "kn_child_idx it < kn_degree it")
    case False
    then show ?thesis
      by (auto simp: kntree_leftmost_for.simps [of it] kt_block_step [of _ _ _ "kn_degree it"]
          intro!: exI [of _ "kn_child_idx it"])
  next
    case idx: True
    show ?thesis
    proof (cases "kn_myrank it + s * kn_child_idx it < kn_size it")
      case True
      with idx show ?thesis
        by (auto simp: kntree_leftmost_for.simps [of it] kt_block_step [of _ _ _ "kn_degree it" "kn_child_idx it"]
            intro!: exI [of _ "kn_child_idx it"])
    next
      case False
      with idx "1.IH" [OF idx refl] show ?thesis
        by (auto simp: kntree_leftmost_for.simps [of it] kt_block_step [of _ _ _ "kn_degree it" "kn_child_idx it"])
    qed
  qed
qed

definition kn_same_tree :: "ucg_algo_kntree_iter \<Rightarrow> ucg_algo_kntree_iter \<Rightarrow> bool" where
  "kn_same_tree it it' \<longleftrightarrow>
     (\<exists>sub idx c. it' = it\<lparr>kn_subsize := sub, kn_child_idx := idx, kn_child := c\<rparr>)"

lemma kn_same_tree_fields:
  "kn_same_tree it it' \<Longrightarrow> kn_size it' = kn_size it \<and> kn_degree it' = kn_degree it \<and>
     kn_root it' = kn_root it \<and> kn_myrank it' = kn_myrank it \<and> kn_leftmost it' = kn_leftmost it \<and>
     kn_max_subsize it' = kn_max_subsize it \<and> kn_parent it' = kn_parent it"
  by (auto simp: kn_same_tree_def)

lemma kn_same_treeI:
  "kn_size it' = kn_size it \<Longrightarrow> kn_degree it' = kn_degree it \<Longrightarrow> kn_root it' = kn_root it \<Longrightarrow>
   kn_myrank it' = kn_myrank it \<Longrightarrow> kn_leftmost it' = kn_leftmost it \<Longrightarrow>
   kn_max_subsize it' = kn_max_subsize it \<Longrightarrow> kn_parent it' = kn_parent it \<Longrightarrow> kn_same_tree it it'"
  unfolding kn_same_tree_def
  by (rule exI [of _ "kn_subsize it'"], rule exI [of _ "kn_child_idx it'"], rule exI [of _ "kn_child it'"],
      cases it; cases it'; simp)

lemma kn_same_tree_trans:
  "kn_same_tree a b \<Longrightarrow> kn_same_tree b c \<Longrightarrow> kn_same_tree a c"
  by (rule kn_same_treeI) (auto dest!: kn_same_tree_fields)

text \<open>
  The children still to come for a leftmost iterator in the sub-trees of stride \<open>d^(k-1)\<close>.
\<close>

definition kn_left_rest :: "ucg_algo_kntree_iter \<Rightarrow> nat \<Rightarrow> int list" where
  "kn_left_rest it k =
     (case k of 0 \<Rightarrow> []
      | Suc k' \<Rightarrow> kt_block (kn_size it) (kn_myrank it) (kn_degree it ^ k') (kn_degree it) (kn_child_idx it)
                  @ kt_kids (kn_degree it) (kn_size it) (kn_myrank it) k')"

lemma kn_left_rest_simps:
  "kn_left_rest it 0 = []"
  "kn_left_rest it (Suc k) =
     kt_block (kn_size it) (kn_myrank it) (kn_degree it ^ k) (kn_degree it) (kn_child_idx it)
       @ kt_kids (kn_degree it) (kn_size it) (kn_myrank it) k"
  by (simp_all add: kn_left_rest_def)

text \<open>What one update of the iterator yields, when \<open>rest\<close> is still to come.\<close>

definition kn_yields ::
    "(ucg_algo_kntree_iter \<Rightarrow> int list \<Rightarrow> bool) \<Rightarrow> ucg_algo_kntree_iter \<Rightarrow>
     ucg_algo_kntree_iter option \<Rightarrow> int list \<Rightarrow> bool" where
  "kn_yields at_rest it r rest \<longleftrightarrow>
     (\<exists>it'. r = Some it' \<and> kn_same_tree it it' \<and>
        (case rest of [] \<Rightarrow> kn_child it' = UCG_INVALID_RANK
         | c # cs \<Rightarrow> kn_child it' = (c + kn_root it) smod kn_size it \<and>
             at_rest (it'\<lparr>kn_child_idx := kn_child_idx it' + 1\<rparr>) cs))"

lemma kn_yields_same_tree:
  "kn_yields P it0 r rest \<Longrightarrow> kn_same_tree it it0 \<Longrightarrow> kn_yields P it r rest"
  by (cases rest) (auto simp: kn_yields_def kn_same_tree_fields dest: kn_same_tree_trans)

definition kn_left_at :: "ucg_algo_kntree_iter \<Rightarrow> int list \<Rightarrow> bool" where
  "kn_left_at it rest \<longleftrightarrow> (\<exists>k. kn_subsize it = kn_degree it ^ k \<and> rest = kn_left_rest it k)"

lemma kntree_leftmost_while_0 [simp]:
  "kntree_leftmost_while it 0 = Some (it\<lparr>kn_child := UCG_INVALID_RANK\<rparr>)"
  by (simp add: kntree_leftmost_while.simps)

lemma sdiv_pow_Suc: "2 \<le> d \<Longrightarrow> d ^ Suc k sdiv d = (d :: int) ^ k"
  by (simp add: sdiv_nonneg)

lemma sdiv_one_zero: "2 \<le> d \<Longrightarrow> 1 sdiv d = (0 :: int)"
  by (simp add: sdiv_nonneg)

lemma kntree_leftmost_while_walk:
  assumes "2 \<le> kn_degree it" and "kn_subsize it = kn_degree it ^ Suc k"
  shows "kn_yields kn_left_at it (kntree_leftmost_while it (kn_degree it ^ k)) (kn_left_rest it (Suc k))"
  using assms
proof (induction k arbitrary: it)
  case 0
  let ?b = "kt_block (kn_size it) (kn_myrank it) (kn_degree it ^ 0) (kn_degree it) (kn_child_idx it)"
  show ?case
  proof (cases ?b)
    case Nil
    with kntree_leftmost_for_block [of it 1] obtain j
      where "kntree_leftmost_for it 1 = (it\<lparr>kn_child_idx := j\<rparr>, False)" by auto
    with Nil 0 show ?thesis
      by (auto simp: kn_yields_def kn_left_rest_simps kntree_leftmost_while.simps [of it] sdiv_one_zero
          intro!: kn_same_treeI)
  next
    case (Cons c cs)
    with kntree_leftmost_for_block [of it 1] obtain j
      where "kntree_leftmost_for it 1 = (it\<lparr>kn_child_idx := j, kn_child := (c + kn_root it) smod kn_size it\<rparr>, True)"
        and "cs = kt_block (kn_size it) (kn_myrank it) 1 (kn_degree it) (j + 1)" by auto
    with Cons 0 show ?thesis
      by (auto simp: kn_yields_def kn_left_rest_simps kntree_leftmost_while.simps [of it] kn_left_at_def
          intro!: kn_same_treeI exI [of _ "Suc 0"])
  qed
next
  case (Suc k)
  let ?s = "kn_degree it ^ Suc k"
  let ?b = "kt_block (kn_size it) (kn_myrank it) ?s (kn_degree it) (kn_child_idx it)"
  have pos: "0 < ?s" using Suc.prems(1) by simp
  show ?case
  proof (cases ?b)
    case Nil
    with kntree_leftmost_for_block [of it ?s] obtain j
      where j: "kntree_leftmost_for it ?s = (it\<lparr>kn_child_idx := j\<rparr>, False)" by blast
    let ?it = "it\<lparr>kn_subsize := ?s, kn_child_idx := 1\<rparr>"
    have "kn_yields kn_left_at ?it (kntree_leftmost_while ?it (kn_degree it ^ k)) (kn_left_rest ?it (Suc k))"
      using Suc.IH [of ?it] Suc.prems by simp
    moreover have "kntree_leftmost_while it ?s = kntree_leftmost_while ?it (kn_degree it ^ k)"
      using j pos Suc.prems(1) by (simp add: kntree_leftmost_while.simps [of it] sdiv_pow_Suc del: power_Suc)
    moreover have "kn_left_rest ?it (Suc k) = kn_left_rest it (Suc (Suc k))"
      using Nil by (simp add: kn_left_rest_simps)
    ultimately show ?thesis
      using kn_yields_same_tree [of kn_left_at ?it _ _ it] by (simp add: kn_same_treeI del: power_Suc)
  next
    case (Cons c cs)
    with kntree_leftmost_for_block [of it ?s] obtain j
      where "kntree_leftmost_for it ?s = (it\<lparr>kn_child_idx := j, kn_child := (c + kn_root it) smod kn_size it\<rparr>, True)"
        and "cs = kt_block (kn_size it) (kn_myrank it) ?s (kn_degree it) (j + 1)" by blast
    with Cons pos Suc.prems show ?thesis
      by (auto simp: kn_yields_def kn_left_rest_simps kntree_leftmost_while.simps [of it] kn_left_at_def simp del: power_Suc
          intro!: kn_same_treeI exI [of _ "Suc (Suc k)"])
  qed
qed

lemma kn_leftmost_update:
  assumes "2 \<le> kn_degree it" and "kn_left_at it rest"
  shows "kn_yields kn_left_at it (ucg_algo_kntree_iter_update_kntree_leftmost it) rest"
proof -
  from assms(2) obtain k where k: "kn_subsize it = kn_degree it ^ k" "rest = kn_left_rest it k"
    by (auto simp: kn_left_at_def)
  show ?thesis
  proof (cases k)
    case 0
    with k assms(1) show ?thesis
      by (auto simp: ucg_algo_kntree_iter_update_kntree_leftmost_def sdiv_one_zero kn_yields_def
          kn_left_rest_simps intro!: kn_same_treeI)
  next
    case (Suc k')
    with k assms(1) kntree_leftmost_while_walk [of it k'] show ?thesis
      by (simp add: ucg_algo_kntree_iter_update_kntree_leftmost_def sdiv_pow_Suc del: power_Suc)
  qed
qed

text \<open>The rightmost walk, the mirror image: strides grow, and the digits of a stride fall.\<close>

definition kt_digits :: "int \<Rightarrow> int \<Rightarrow> int \<Rightarrow> int \<Rightarrow> int list" where
  "kt_digits n v s i = filter (\<lambda>c. c < n) (map (\<lambda>i. v + s * i) (rev [1..i]))"

lemma kt_digits_step:
  "kt_digits n v s i =
     (if 0 < i then if v + s * i < n then (v + s * i) # kt_digits n v s (i - 1) else kt_digits n v s (i - 1)
      else [])"
  by (auto simp: kt_digits_def upto_rec2 [of 1 i])

lemma kt_digits_block: "kt_digits n v s (d - 1) = rev (kt_block n v s d 1)"
  by (simp add: kt_digits_def kt_block_def rev_filter rev_map)

lemma kntree_rightmost_for_block:
  assumes "i = kn_degree it - kn_child_idx it"
  shows "(kt_digits (kn_size it) (kn_myrank it) s i = [] \<longrightarrow>
            (\<exists>j. kntree_rightmost_for it s i = (it\<lparr>kn_child_idx := j\<rparr>, False))) \<and>
         (\<forall>c cs. kt_digits (kn_size it) (kn_myrank it) s i = c # cs \<longrightarrow>
            (\<exists>j. kntree_rightmost_for it s i =
                   (it\<lparr>kn_child_idx := j, kn_child := (c + kn_root it) smod kn_size it\<rparr>, True) \<and>
                 cs = kt_digits (kn_size it) (kn_myrank it) s (kn_degree it - (j + 1))))"
  using assms
proof (induction it s i rule: kntree_rightmost_for.induct)
  case (1 it s i)
  show ?case
  proof (cases "i > 0")
    case False
    then show ?thesis
      by (auto simp: kntree_rightmost_for.simps [of it] kt_digits_step [of _ _ _ i]
          intro!: exI [of _ "kn_child_idx it"])
  next
    case idx: True
    show ?thesis
    proof (cases "kn_myrank it + s * i < kn_size it")
      case True
      have "kt_digits (kn_size it) (kn_myrank it) s i
              = (kn_myrank it + s * i) # kt_digits (kn_size it) (kn_myrank it) s (kn_degree it - (kn_child_idx it + 1))"
        using True idx "1.prems" by (subst kt_digits_step) (simp add: diff_diff_add)
      moreover have "kntree_rightmost_for it s i
              = (it\<lparr>kn_child_idx := kn_child_idx it,
                    kn_child := (kn_myrank it + s * i + kn_root it) smod kn_size it\<rparr>, True)"
        using True idx by (simp add: kntree_rightmost_for.simps [of it])
      ultimately show ?thesis by (auto intro!: exI [of _ "kn_child_idx it"])
    next
      case False
      have "kt_digits (kn_size it) (kn_myrank it) s i = kt_digits (kn_size it) (kn_myrank it) s (i - 1)"
        using False idx by (subst kt_digits_step) simp
      moreover have "kntree_rightmost_for it s i
              = kntree_rightmost_for (it\<lparr>kn_child_idx := kn_child_idx it + 1\<rparr>) s (i - 1)"
        using False idx by (simp add: kntree_rightmost_for.simps [of it])
      ultimately show ?thesis using "1.IH" [OF idx refl False] "1.prems" by auto
    qed
  qed
qed

fun kt_kids_up :: "int \<Rightarrow> int \<Rightarrow> int \<Rightarrow> nat \<Rightarrow> nat \<Rightarrow> int list" where
  "kt_kids_up d n v k 0 = []"
| "kt_kids_up d n v k (Suc l) = kt_digits n v (d ^ k) (d - 1) @ kt_kids_up d n v (Suc k) l"

lemma kt_kids_up_snoc:
  "kt_kids_up d n v k (Suc l) = kt_kids_up d n v k l @ kt_digits n v (d ^ (k + l)) (d - 1)"
  by (induction l arbitrary: k) (simp_all del: power_Suc)

lemma kt_kids_up_rev: "kt_kids_up d n v 0 m = rev (kt_kids d n v m)"
  by (induction m) (simp_all add: kt_kids_up_snoc kt_digits_block del: kt_kids_up.simps(2))

definition kn_right_rest :: "ucg_algo_kntree_iter \<Rightarrow> nat \<Rightarrow> nat \<Rightarrow> int list" where
  "kn_right_rest it k l =
     (case l of 0 \<Rightarrow> []
      | Suc l' \<Rightarrow> kt_digits (kn_size it) (kn_myrank it) (kn_degree it ^ k) (kn_degree it - kn_child_idx it)
                  @ kt_kids_up (kn_degree it) (kn_size it) (kn_myrank it) (Suc k) l')"

definition kn_right_at :: "ucg_algo_kntree_iter \<Rightarrow> int list \<Rightarrow> bool" where
  "kn_right_at it rest \<longleftrightarrow>
     (\<exists>k l. kn_subsize it = kn_degree it ^ k \<and> kn_max_subsize it = kn_degree it ^ (k + l) \<and>
        rest = kn_right_rest it k l)"

lemma kntree_rightmost_while_walk:
  assumes "2 \<le> kn_degree it" and "kn_subsize it = kn_degree it ^ k"
    and "kn_max_subsize it = kn_degree it ^ (k + l)"
  shows "kn_yields kn_right_at it (kntree_rightmost_while it (kn_degree it ^ k)) (kn_right_rest it k l)"
  using assms
proof (induction l arbitrary: it k)
  case 0
  then show ?case
    by (auto simp: kn_yields_def kn_right_rest_def kntree_rightmost_while.simps [of it] intro!: kn_same_treeI)
next
  case (Suc l)
  let ?s = "kn_degree it ^ k"
  let ?b = "kt_digits (kn_size it) (kn_myrank it) ?s (kn_degree it - kn_child_idx it)"
  have pos: "?s < kn_max_subsize it"
    using Suc.prems by (simp add: power_strict_increasing del: power_Suc)
  show ?case
  proof (cases ?b)
    case Nil
    with kntree_rightmost_for_block [OF refl, of it ?s] obtain j
      where j: "kntree_rightmost_for it ?s (kn_degree it - kn_child_idx it) = (it\<lparr>kn_child_idx := j\<rparr>, False)"
      by blast
    let ?it = "it\<lparr>kn_subsize := ?s * kn_degree it, kn_child_idx := 1\<rparr>"
    have "kn_yields kn_right_at ?it (kntree_rightmost_while ?it (kn_degree it ^ Suc k)) (kn_right_rest ?it (Suc k) l)"
      using Suc.IH [of ?it "Suc k"] Suc.prems by (simp add: mult.commute)
    moreover have "kntree_rightmost_while it ?s = kntree_rightmost_while ?it (kn_degree it ^ Suc k)"
      using j pos by (simp add: kntree_rightmost_while.simps [of it] mult.commute)
    moreover have "kn_right_rest ?it (Suc k) l = kn_right_rest it k (Suc l)"
      using Nil by (cases l) (simp_all add: kn_right_rest_def)
    ultimately show ?thesis
      using kn_yields_same_tree [of kn_right_at ?it _ _ it] by (simp add: kn_same_treeI del: power_Suc)
  next
    case (Cons c cs)
    with kntree_rightmost_for_block [OF refl, of it ?s] obtain j
      where "kntree_rightmost_for it ?s (kn_degree it - kn_child_idx it)
               = (it\<lparr>kn_child_idx := j, kn_child := (c + kn_root it) smod kn_size it\<rparr>, True)"
        and "cs = kt_digits (kn_size it) (kn_myrank it) ?s (kn_degree it - (j + 1))" by blast
    with Cons pos Suc.prems show ?thesis
      by (auto simp: kn_yields_def kn_right_rest_def kntree_rightmost_while.simps [of it] kn_right_at_def simp del: power_Suc
          intro!: kn_same_treeI exI [of _ k] exI [of _ "Suc l"])
  qed
qed

lemma kn_rightmost_update:
  assumes "2 \<le> kn_degree it" and "kn_right_at it rest"
  shows "kn_yields kn_right_at it (ucg_algo_kntree_iter_update_kntree_rightmost it) rest"
proof -
  from assms(2) obtain k l where k: "kn_subsize it = kn_degree it ^ k"
    "kn_max_subsize it = kn_degree it ^ (k + l)" "rest = kn_right_rest it k l"
    by (auto simp: kn_right_at_def)
  with kntree_rightmost_while_walk [of it k l] assms(1) show ?thesis
    by (simp add: ucg_algo_kntree_iter_update_kntree_rightmost_def)
qed

text \<open>Both directions together.\<close>

definition kn_at :: "ucg_algo_kntree_iter \<Rightarrow> int list \<Rightarrow> bool" where
  "kn_at it rest \<longleftrightarrow> (if kn_leftmost it then kn_left_at it rest else kn_right_at it rest)"

lemma kn_yields_mono:
  assumes "kn_yields P it r rest"
    and "\<And>it' cs. kn_leftmost it' = kn_leftmost it \<Longrightarrow> P it' cs \<Longrightarrow> Q it' cs"
  shows "kn_yields Q it r rest"
proof -
  from assms(1) obtain it' where r: "r = Some it'" "kn_same_tree it it'"
    and c: "case rest of [] \<Rightarrow> kn_child it' = UCG_INVALID_RANK
         | c # cs \<Rightarrow> kn_child it' = (c + kn_root it) smod kn_size it \<and>
             P (it'\<lparr>kn_child_idx := kn_child_idx it' + 1\<rparr>) cs"
    unfolding kn_yields_def by blast
  have "kn_leftmost it' = kn_leftmost it" using r(2) by (simp add: kn_same_tree_fields)
  with r c assms(2) show ?thesis unfolding kn_yields_def by (cases rest) simp_all
qed

lemma kn_update:
  assumes "2 \<le> kn_degree it" and "kn_at it rest"
  shows "kn_yields kn_at it (ucg_algo_kntree_iter_update it) rest"
proof (cases "kn_leftmost it")
  case True
  with assms have "kn_left_at it rest" by (simp add: kn_at_def)
  from kn_leftmost_update [OF assms(1) this] show ?thesis
    unfolding ucg_algo_kntree_iter_update_def if_P [OF True]
    by (rule kn_yields_mono) (simp add: kn_at_def True)
next
  case False
  with assms have "kn_right_at it rest" by (simp add: kn_at_def)
  from kn_rightmost_update [OF assms(1) this] show ?thesis
    unfolding ucg_algo_kntree_iter_update_def if_not_P [OF False]
    by (rule kn_yields_mono) (simp add: kn_at_def False)
qed

lemma kn_children_walk:
  assumes "2 \<le> kn_degree it" and "0 < kn_size it" and "0 \<le> kn_root it" and "\<forall>c \<in> set rest. 0 \<le> c"
    and "kn_yields kn_at it0 (Some it) rest" and "kn_same_tree it0 it"
  shows "kntree_children it = Some (map (\<lambda>c. (c + kn_root it) mod kn_size it) rest)"
  using assms
proof (induction rest arbitrary: it0 it)
  case Nil
  then show ?case
    by (simp add: kn_yields_def kntree_children.simps [of it] ucg_algo_kntree_iter_child_value_def)
next
  case (Cons c cs)
  have f: "kn_size it = kn_size it0" "kn_root it = kn_root it0" "kn_degree it = kn_degree it0"
    using Cons.prems(6) by (auto dest: kn_same_tree_fields)
  have child: "kn_child it = (c + kn_root it) mod kn_size it"
    and at: "kn_at (it\<lparr>kn_child_idx := kn_child_idx it + 1\<rparr>) cs"
    using Cons.prems f by (auto simp: kn_yields_def smod_nonneg)
  have "0 \<le> (c + kn_root it) mod kn_size it" using Cons.prems(2) by simp
  with child have "kn_child it \<noteq> UCG_INVALID_RANK" by linarith
  let ?it = "it\<lparr>kn_child_idx := kn_child_idx it + 1\<rparr>"
  from kn_update [OF _ at] Cons.prems(1) obtain it' where it':
    "ucg_algo_kntree_iter_update ?it = Some it'" "kn_same_tree ?it it'"
    and y: "kn_yields kn_at ?it (Some it') cs"
    by (auto simp: kn_yields_def)
  have "kntree_children it' = Some (map (\<lambda>c. (c + kn_root it') mod kn_size it') cs)"
    using Cons.IH [of it' ?it] Cons.prems kn_same_tree_fields [OF it'(2)] y it'(2) by simp
  with it' child \<open>kn_child it \<noteq> UCG_INVALID_RANK\<close> kn_same_tree_fields [OF it'(2)] show ?case
    by (simp add: kntree_children.simps [of it] ucg_algo_kntree_iter_child_value_def
        ucg_algo_kntree_iter_child_inc_def)
qed

subsection \<open>Initialisation\<close>

lemma kntree_find_parent_level:
  assumes d: "2 \<le> d" and v: "0 \<le> v" "v < n"
    and dv: "d ^ k dvd v" and lt: "\<forall>i < k. d ^ i < n"
  shows "\<exists>m. kt_is_level d n v m \<and>
           kntree_find_parent n d root v (d ^ k) =
             Some (if v = 0 then UCG_INVALID_RANK else (kt_parent d v m + root) smod n, d ^ m)"
  using dv lt
proof (induction "nat (n - d ^ k)" arbitrary: k rule: less_induct)
  case less
  have pos: "0 < d ^ k" "0 < d ^ Suc k" using d by simp_all
  show ?case
  proof (cases "d ^ k < n")
    case False
    then have "v = 0" using less.prems(1) v by (auto dest: zdvd_imp_le)
    moreover have "kt_is_level d n v k" using less.prems False by (simp add: kt_is_level_def)
    ultimately show ?thesis using False by (auto simp: kntree_find_parent.simps [of n])
  next
    case True
    show ?thesis
    proof (cases "d ^ Suc k dvd v")
      case dvd: True
      have "d ^ k < d ^ Suc k" using d by (simp add: power_strict_increasing del: power_Suc)
      then have "nat (n - d ^ Suc k) < nat (n - d ^ k)" using True by simp
      moreover have "\<forall>i < Suc k. d ^ i < n" using less.prems(2) True by (simp add: less_Suc_eq)
      ultimately obtain m where "kt_is_level d n v m"
        "kntree_find_parent n d root v (d ^ Suc k) =
             Some (if v = 0 then UCG_INVALID_RANK else (kt_parent d v m + root) smod n, d ^ m)"
        using less.hyps dvd by blast
      moreover have "v smod d ^ Suc k = 0" using dvd v pos(2) by (simp add: smod_nonneg dvd_imp_mod_0 del: power_Suc)
      then have "kntree_find_parent n d root v (d ^ k) = kntree_find_parent n d root v (d ^ Suc k)"
        using True by (subst kntree_find_parent.simps) (simp add: Let_def mult.commute [of "d ^ k"])
      ultimately show ?thesis by auto
    next
      case False
      then have "v \<noteq> 0" by auto
      moreover have "kt_is_level d n v k" using less.prems False by (simp add: kt_is_level_def)
      moreover have "v smod d ^ Suc k \<noteq> 0" using False v pos(2) by (simp add: smod_nonneg dvd_eq_mod_eq_0 del: power_Suc)
      moreover have "v sdiv d ^ Suc k * d ^ Suc k = kt_parent d v k"
        using v pos by (simp add: sdiv_nonneg kt_parent_def del: power_Suc)
      ultimately show ?thesis using True
        by (subst kntree_find_parent.simps)
          (auto simp: Let_def mult.commute [of "d ^ k"] simp del: power_Suc simp flip: power_Suc)
    qed
  qed
qed

lemma kn_left_at_full:
  assumes "kn_subsize it = kn_degree it ^ m" and "kn_child_idx it = 1"
  shows "kn_left_at it (kt_kids (kn_degree it) (kn_size it) (kn_myrank it) m)"
  unfolding kn_left_at_def kn_left_rest_def
  by (rule exI [of _ m]) (use assms in \<open>simp split: nat.splits\<close>)

lemma kn_right_at_full:
  assumes "kn_subsize it = 1" and "kn_max_subsize it = kn_degree it ^ m" and "kn_child_idx it = 1"
  shows "kn_right_at it (rev (kt_kids (kn_degree it) (kn_size it) (kn_myrank it) m))"
  unfolding kn_right_at_def kn_right_rest_def kt_kids_up_rev [symmetric]
  by (rule exI [of _ "0 :: nat"], rule exI [of _ m]) (use assms in \<open>simp split: nat.splits\<close>)

lemma kntree_init_walk:
  assumes n: "0 < n" and root: "0 \<le> root" "root < n" and r: "0 \<le> r" "r < n"
    and d: "d = kntree_adjust_degree n degree" "2 \<le> d" and v: "v = (r - root) mod n"
  shows "\<exists>it m. ucg_algo_kntree_iter_init n degree root r leftmost = Some it \<and>
           kt_is_level d n v m \<and>
           kn_parent it = (if v = 0 then UCG_INVALID_RANK else (kt_parent d v m + root) mod n) \<and>
           kntree_children it =
             Some (map (\<lambda>c. (c + root) mod n) (if leftmost then kt_kids d n v m else rev (kt_kids d n v m))) \<and>
           kn_size it = n \<and> kn_degree it = d \<and> kn_root it = root \<and>
           (leftmost \<longrightarrow> kn_yields kn_at it (Some it) (kt_kids d n v m))"
proof -
  have v': "0 \<le> v" "v < n" using v n by simp_all
  have vm: "(r - root + n) smod n = v" using root r n v by (simp add: smod_nonneg)
  obtain m where lv: "kt_is_level d n v m"
    and fp: "kntree_find_parent n d root v 1 =
             Some (if v = 0 then UCG_INVALID_RANK else (kt_parent d v m + root) smod n, d ^ m)"
    using kntree_find_parent_level [of d v n 0 root] d v' by auto
  let ?p = "if v = 0 then UCG_INVALID_RANK else (kt_parent d v m + root) smod n"
  let ?it = "\<lparr>kn_size = n, kn_degree = d, kn_root = root, kn_myrank = v,
                kn_leftmost = leftmost, kn_max_subsize = d ^ m,
                kn_subsize = (if leftmost then d ^ m else 1), kn_child_idx = 1,
                kn_parent = ?p, kn_child = UCG_INVALID_RANK\<rparr>"
  have init: "ucg_algo_kntree_iter_init n degree root r leftmost = ucg_algo_kntree_iter_update ?it"
    using fp vm d by (simp add: ucg_algo_kntree_iter_init_def Let_def)
  let ?rest = "if leftmost then kt_kids d n v m else rev (kt_kids d n v m)"
  have "kn_at ?it ?rest"
    using kn_left_at_full [of ?it m] kn_right_at_full [of ?it m]
    by (cases leftmost) (simp_all add: kn_at_def split del: if_split)
  from kn_update [OF _ this] d(2) have y: "kn_yields kn_at ?it (ucg_algo_kntree_iter_update ?it) ?rest" by simp
  then obtain it where it: "ucg_algo_kntree_iter_update ?it = Some it" "kn_same_tree ?it it"
    unfolding kn_yields_def by blast
  note f = kn_same_tree_fields [OF it(2)]
  have "0 \<le> c" if "c \<in> set (kt_kids d n v m)" for c
    using kt_kids_range [OF d(2) v'(1) that] v'(1) by linarith
  then have ge: "\<forall>c \<in> set ?rest. 0 \<le> c" by simp
  have "kntree_children it = Some (map (\<lambda>c. (c + kn_root it) mod kn_size it) ?rest)"
    using y it by (intro kn_children_walk [of _ _ ?it]) (use f d n root ge in simp_all)
  moreover have "kn_yields kn_at it (Some it) ?rest"
    using y it(1) f by (cases ?rest) (auto simp: kn_yields_def intro!: kn_same_treeI)
  moreover have "v \<noteq> 0 \<Longrightarrow> 0 \<le> kt_parent d v m"
    using kt_parent_range [OF d(2) lv] v' by simp
  ultimately show ?thesis using init it lv f root n by (auto simp: smod_nonneg)
qed

end
