(* ===== verification/Rank_Tree.thy ===== *)
theory Rank_Tree
  imports Kucg_Prelude
begin

text \<open>
  The interface between the rooted collectives (broadcast, barrier, scatterv) and the tree iterators
  they run over: for a valid configuration every rank but the root has exactly one parent, which
  lists it once among its children, and the parents lead up to the root.  The clients' facts are
  proved here once: data that starts at the root and is handed from parents to children reaches every
  rank, over exactly one message per rank.
\<close>

locale rank_tree =
  fixes valid :: "'g \<Rightarrow> bool" and ranks :: "'g \<Rightarrow> int set" and root :: "'g \<Rightarrow> int"
    and parent :: "'g \<Rightarrow> int \<Rightarrow> int" and children :: "'g \<Rightarrow> int \<Rightarrow> int list" and depth :: "'g \<Rightarrow> int \<Rightarrow> nat"
  assumes finite_ranks: "valid g \<Longrightarrow> finite (ranks g)"
    and root_rank: "valid g \<Longrightarrow> root g \<in> ranks g"
    and children_ranks: "valid g \<Longrightarrow> r \<in> ranks g \<Longrightarrow> set (children g r) \<subseteq> ranks g"
    and distinct_children: "valid g \<Longrightarrow> r \<in> ranks g \<Longrightarrow> distinct (children g r)"
    and child_iff_parent: "valid g \<Longrightarrow> r \<in> ranks g \<Longrightarrow> c \<in> ranks g \<Longrightarrow>
          c \<in> set (children g r) \<longleftrightarrow> c \<noteq> root g \<and> parent g c = r"
    and parent_rank: "valid g \<Longrightarrow> c \<in> ranks g \<Longrightarrow> c \<noteq> root g \<Longrightarrow> parent g c \<in> ranks g"
    and parent_depth: "valid g \<Longrightarrow> c \<in> ranks g \<Longrightarrow> c \<noteq> root g \<Longrightarrow> depth g (parent g c) < depth g c"
begin

text \<open>Broadcast: the ranks that hold the data, one message at a time.\<close>

inductive delivers :: "'g \<Rightarrow> int set \<Rightarrow> int set \<Rightarrow> bool" for g H where
  refl: "delivers g H H"
| send: "delivers g H H' \<Longrightarrow> r \<in> H' \<Longrightarrow> c \<in> set (children g r) \<Longrightarrow> delivers g H (insert c H')"

definition settled :: "'g \<Rightarrow> int set \<Rightarrow> bool" where
  "settled g H \<longleftrightarrow> (\<forall>r \<in> H. set (children g r) \<subseteq> H)"

lemma delivers_root: "delivers g {root g} H \<Longrightarrow> root g \<in> H"
  by (induction rule: delivers.induct) auto

lemma delivers_ranks:
  assumes "valid g" shows "delivers g {root g} H \<Longrightarrow> H \<subseteq> ranks g"
proof (induction rule: delivers.induct)
  case (refl)
  then show ?case using assms root_rank by auto
next
  case (send H' r c)
  then show ?case using assms children_ranks by blast
qed

lemma settled_all:
  assumes "valid g" and "settled g H" and "root g \<in> H" and "r \<in> ranks g"
  shows "r \<in> H"
  using assms(4)
proof (induction "depth g r" arbitrary: r rule: less_induct)
  case less
  show ?case
  proof (cases "r = root g")
    case False
    have p: "parent g r \<in> ranks g" "depth g (parent g r) < depth g r"
      using assms(1) less.prems False parent_rank parent_depth by blast+
    then have "parent g r \<in> H" using less.hyps by blast
    moreover have "r \<in> set (children g (parent g r))"
      using child_iff_parent [OF assms(1) p(1) less.prems] False by blast
    ultimately show ?thesis using assms(2) by (auto simp: settled_def)
  qed (use assms(3) in simp)
qed

lemma broadcast_complete:
  assumes "valid g" and "delivers g {root g} H" and "settled g H"
  shows "H = ranks g"
  using settled_all [OF assms(1,3) delivers_root [OF assms(2)]] delivers_ranks [OF assms(1,2)] by blast

lemma one_sender:
  assumes "valid g" and "c \<in> ranks g" and "c \<noteq> root g"
  shows "\<exists>!r. r \<in> ranks g \<and> c \<in> set (children g r)"
  using assms parent_rank child_iff_parent by metis

lemma message_count:
  assumes "valid g"
  shows "(\<Sum>r \<in> ranks g. length (children g r)) = card (ranks g) - 1"
proof -
  have "(\<Sum>r \<in> ranks g. length (children g r)) = (\<Sum>r \<in> ranks g. card (set (children g r)))"
    using distinct_children [OF assms] by (intro sum.cong) (simp_all add: distinct_card)
  also have "\<dots> = card (\<Union>r \<in> ranks g. set (children g r))"
    using child_iff_parent [OF assms] children_ranks [OF assms] finite_ranks [OF assms]
    by (intro card_UN_disjoint [symmetric]) (simp, simp, blast)
  also have "(\<Union>r \<in> ranks g. set (children g r)) = ranks g - {root g}"
  proof (intro equalityI subsetI)
    fix c assume "c \<in> (\<Union>r \<in> ranks g. set (children g r))"
    then show "c \<in> ranks g - {root g}"
      using child_iff_parent [OF assms] children_ranks [OF assms] by blast
  next
    fix c assume "c \<in> ranks g - {root g}"
    then show "c \<in> (\<Union>r \<in> ranks g. set (children g r))" using one_sender [OF assms, of c] by blast
  qed
  also have "card (ranks g - {root g}) = card (ranks g) - 1"
    using root_rank [OF assms] finite_ranks [OF assms] by simp
  finally show ?thesis .
qed

text \<open>The sub-tree below a rank.\<close>

definition edges :: "'g \<Rightarrow> (int \<times> int) set" where
  "edges g = {(r, c). r \<in> ranks g \<and> c \<in> set (children g r)}"

definition below :: "'g \<Rightarrow> int \<Rightarrow> int set" where
  "below g r = {x. (r, x) \<in> (edges g)\<^sup>*}"

lemma edges_depth: "valid g \<Longrightarrow> (r, c) \<in> edges g \<Longrightarrow> depth g r < depth g c"
  unfolding edges_def using child_iff_parent children_ranks parent_depth by blast

lemma edges_star_depth:
  assumes "valid g" shows "(r, c) \<in> (edges g)\<^sup>* \<Longrightarrow> depth g r \<le> depth g c"
  by (induction rule: rtrancl_induct) (use edges_depth [OF assms] in \<open>fastforce\<close>)+

lemma edges_parent: "valid g \<Longrightarrow> (r, c) \<in> edges g \<Longrightarrow> (r', c) \<in> edges g \<Longrightarrow> r = r'"
  unfolding edges_def using child_iff_parent children_ranks by blast

lemma root_reaches:
  assumes "valid g" and "r \<in> ranks g" shows "(root g, r) \<in> (edges g)\<^sup>*"
proof -
  have "settled g {x. (root g, x) \<in> (edges g)\<^sup>* \<and> x \<in> ranks g}"
    unfolding settled_def using children_ranks [OF assms(1)]
    by (auto simp: edges_def intro: rtrancl_into_rtrancl)
  from settled_all [OF assms(1) this _ assms(2)] root_rank [OF assms(1)] show ?thesis by simp
qed

lemma below_ranks:
  assumes "valid g" and "r \<in> ranks g" shows "below g r \<subseteq> ranks g"
proof
  fix x assume "x \<in> below g r"
  then have "(r, x) \<in> (edges g)\<^sup>*" by (simp add: below_def)
  then show "x \<in> ranks g"
    by (induction rule: rtrancl_induct) (use assms children_ranks in \<open>auto simp: edges_def\<close>)
qed

lemma ancestors_chain:
  assumes "valid g" and "(a, x) \<in> (edges g)\<^sup>*" and "(b, x) \<in> (edges g)\<^sup>*"
  shows "(a, b) \<in> (edges g)\<^sup>* \<or> (b, a) \<in> (edges g)\<^sup>*"
  using assms(2,3)
proof (induction rule: rtrancl_induct)
  case base
  then show ?case by simp
next
  case (step y z)
  from step.prems show ?case
  proof (cases rule: rtranclE)
    case base
    with step.hyps show ?thesis by (meson rtrancl.rtrancl_into_rtrancl)
  next
    case (step y')
    then have "y' = y" using edges_parent [OF assms(1)] \<open>(y, z) \<in> edges g\<close> by blast
    with step(1) \<open>(b, y) \<in> (edges g)\<^sup>* \<Longrightarrow> _\<close> show ?thesis by blast
  qed
qed

lemma below_disjoint:
  assumes v: "valid g" and c: "(r, c) \<in> edges g" "(r, c') \<in> edges g" "c \<noteq> c'"
  shows "below g c \<inter> below g c' = {}"
proof (rule ccontr)
  have no: False if "(a, b) \<in> (edges g)\<^sup>*" "(r, a) \<in> edges g" "(r, b) \<in> edges g" "a \<noteq> b" for a b
  proof -
    from that(1,4) obtain y where "(a, y) \<in> (edges g)\<^sup>*" "(y, b) \<in> edges g" by (meson rtranclE)
    then have "(a, r) \<in> (edges g)\<^sup>*" using edges_parent [OF v] that(3) by blast
    then show False using edges_star_depth [OF v] edges_depth [OF v that(2)] by fastforce
  qed
  assume "below g c \<inter> below g c' \<noteq> {}"
  then obtain x where "(c, x) \<in> (edges g)\<^sup>*" "(c', x) \<in> (edges g)\<^sup>*" by (auto simp: below_def)
  from ancestors_chain [OF v this] show False using no c by blast
qed

lemma below_step:
  assumes "r \<in> ranks g"
  shows "below g r = insert r (\<Union>c \<in> set (children g r). below g c)"
proof (intro equalityI subsetI)
  fix x assume "x \<in> below g r"
  then have "(r, x) \<in> (edges g)\<^sup>*" by (simp add: below_def)
  then show "x \<in> insert r (\<Union>c \<in> set (children g r). below g c)"
    by (cases rule: converse_rtranclE) (auto simp: edges_def below_def)
next
  fix x assume "x \<in> insert r (\<Union>c \<in> set (children g r). below g c)"
  then show "x \<in> below g r"
    using assms by (auto simp: below_def edges_def intro: converse_rtrancl_into_rtrancl)
qed

lemma card_below:
  assumes v: "valid g" and r: "r \<in> ranks g"
  shows "card (below g r) = 1 + (\<Sum>c \<leftarrow> children g r. card (below g c))"
proof -
  have e: "(r, c) \<in> edges g" if "c \<in> set (children g r)" for c using that r by (simp add: edges_def)
  have fin: "finite (below g c)" if "c \<in> set (children g r)" for c
    using finite_subset [OF below_ranks [OF v] finite_ranks [OF v]] that children_ranks [OF v r] by blast
  have "r \<notin> (\<Union>c \<in> set (children g r). below g c)"
    using edges_star_depth [OF v] edges_depth [OF v] e by (fastforce simp: below_def)
  then have "card (below g r) = 1 + card (\<Union>c \<in> set (children g r). below g c)"
    unfolding below_step [OF r] using fin by simp
  also have "card (\<Union>c \<in> set (children g r). below g c) = (\<Sum>c \<in> set (children g r). card (below g c))"
    using fin below_disjoint [OF v e e] by (intro card_UN_disjoint) auto
  also have "\<dots> = (\<Sum>c \<leftarrow> children g r. card (below g c))"
    using distinct_children [OF v r] by (simp add: sum_list_distinct_conv_sum_set)
  finally show ?thesis .
qed

text \<open>A weight that adds up over the children counts the ranks below.\<close>

lemma weight_is_card:
  assumes v: "valid g" and w: "\<And>r. r \<in> ranks g \<Longrightarrow> w r = 1 + (\<Sum>c \<leftarrow> children g r. w c)"
    and r: "r \<in> ranks g" and bound: "\<And>r. r \<in> ranks g \<Longrightarrow> depth g r \<le> b"
  shows "w r = int (card (below g r))"
  using r
proof (induction "b - depth g r" arbitrary: r rule: less_induct)
  case less
  have "w c = int (card (below g c))" if "c \<in> set (children g r)" for c
  proof (rule less.hyps)
    show c: "c \<in> ranks g" using that children_ranks [OF v less.prems] by blast
    have "depth g r < depth g c" using edges_depth [OF v] that less.prems by (simp add: edges_def)
    then show "b - depth g c < b - depth g r" using bound [OF c] by simp
  qed
  then have "(\<Sum>c \<leftarrow> children g r. w c) = (\<Sum>c \<leftarrow> children g r. int (card (below g c)))"
    by (simp cong: map_cong)
  then show ?case unfolding w [OF less.prems] card_below [OF v less.prems]
    by (simp add: int_sum_list)
qed

end

end
