(* ===== verification/Kntree_Spec.thy ===== *)
theory Kntree_Spec
  imports Kntree_Walk Rank_Tree
begin

text \<open>
  What the k-nomial iterator promises to the collectives.  \<open>kntree_children_of\<close> and \<open>kntree_parent_of\<close>
  are what a rank reads from its own iterator; the iterator of every rank is built from the same size,
  degree and root, and together they provide the interface \<open>rank_tree\<close>.
\<close>


definition kntree_children_of :: "c_int \<Rightarrow> c_int \<Rightarrow> ucg_rank_t \<Rightarrow> bool \<Rightarrow> ucg_rank_t \<Rightarrow> ucg_rank_t list option" where
  "kntree_children_of n degree root leftmost r =
     Option.bind (ucg_algo_kntree_iter_init n degree root r leftmost) kntree_children"

definition kntree_parent_of :: "c_int \<Rightarrow> c_int \<Rightarrow> ucg_rank_t \<Rightarrow> bool \<Rightarrow> ucg_rank_t \<Rightarrow> ucg_rank_t option" where
  "kntree_parent_of n degree root leftmost r =
     map_option ucg_algo_kntree_iter_parent_value (ucg_algo_kntree_iter_init n degree root r leftmost)"

definition kntree_args :: "c_int \<Rightarrow> c_int \<Rightarrow> ucg_rank_t \<Rightarrow> bool" where
  "kntree_args n degree root \<longleftrightarrow> 2 \<le> n \<and> 0 \<le> root \<and> root < n"

text \<open>
  The search for the parent with the multiplication of the code: a product that does not fit into an \<open>int\<close> ends it.  It makes
  no difference as long as size times degree fits.
\<close>

partial_function (option) kntree_find_parent_int ::
    "c_int \<Rightarrow> c_int \<Rightarrow> ucg_rank_t \<Rightarrow> ucg_rank_t \<Rightarrow> c_int \<Rightarrow> (ucg_rank_t \<times> c_int) option" where
  "kntree_find_parent_int gsize degree root v_myrank subsize =
     (if subsize < gsize then
        (let next_subsize = subsize * degree in
         if \<not> (- (2 ^ 31) \<le> next_subsize \<and> next_subsize < 2 ^ 31) then None
         else if v_myrank smod next_subsize \<noteq> 0
         then Some (((v_myrank sdiv next_subsize) * next_subsize + root) smod gsize, subsize)
         else kntree_find_parent_int gsize degree root v_myrank next_subsize)
      else Some (UCG_INVALID_RANK, subsize))"

lemma kntree_find_parent_fits:
  assumes "2 \<le> degree" and "gsize * degree \<le> 2 ^ 31" and "1 \<le> subsize"
  shows "kntree_find_parent_int gsize degree root v subsize = kntree_find_parent gsize degree root v subsize"
  using assms(3)
proof (induction "nat (gsize - subsize)" arbitrary: subsize rule: less_induct)
  case less
  note unfold = kntree_find_parent_int.simps [of gsize degree root v subsize] kntree_find_parent.simps [of gsize degree root v subsize]
  show ?case
  proof (cases "subsize < gsize")
    case True
    have "subsize * degree < gsize * degree" using True assms(1) by (simp add: mult_strict_right_mono)
    then have fits: "subsize * degree < 2 ^ 31" using assms(2) by simp
    have grows: "subsize < subsize * degree" using assms(1) less.prems by (simp add: mult_less_cancel_left1)
    then have "nat (gsize - subsize * degree) < nat (gsize - subsize)" "1 \<le> subsize * degree" using less.prems True by linarith+
    from less.hyps [OF this]
    have "kntree_find_parent_int gsize degree root v (subsize * degree) = kntree_find_parent gsize degree root v (subsize * degree)" .
    moreover have "\<not> (\<not> (- (2 ^ 31) \<le> subsize * degree \<and> subsize * degree < 2 ^ 31))" using fits grows less.prems by linarith
    ultimately show ?thesis unfolding unfold Let_def by (simp only: if_False)
  next
    case False
    then show ?thesis unfolding unfold by simp
  qed
qed

definition kntree_level :: "c_int \<Rightarrow> c_int \<Rightarrow> ucg_rank_t \<Rightarrow> ucg_rank_t \<Rightarrow> nat" where
  "kntree_level n degree root r = (THE m. kt_is_level (kntree_adjust_degree n degree) n ((r - root) mod n) m)"

subsection \<open>Virtual ranks\<close>

lemma vrank_inverse:
  fixes n :: int
  shows "0 \<le> c \<Longrightarrow> c < n \<Longrightarrow> ((c + root) mod n - root) mod n = c"
  by (simp add: mod_diff_left_eq)

lemma rank_inverse:
  fixes n :: int
  shows "0 \<le> r \<Longrightarrow> r < n \<Longrightarrow> ((r - root) mod n + root) mod n = r"
  by (simp add: mod_add_left_eq)

lemma vrank_zero:
  fixes n :: int
  assumes "0 \<le> r" "r < n" "0 \<le> root" "root < n"
  shows "(r - root) mod n = 0 \<longleftrightarrow> r = root"
proof
  assume "(r - root) mod n = 0"
  then have "n dvd r - root" by (simp add: dvd_eq_mod_eq_0)
  then show "r = root" using dvd_imp_le_int [of "r - root" n] assms by fastforce
qed simp

lemma kntree_adjust_degree_ge: "2 \<le> n \<Longrightarrow> 2 \<le> kntree_adjust_degree n degree"
  by (simp add: kntree_adjust_degree_def)

lemma kntree_adjust_degree_idem:
  "2 \<le> n \<Longrightarrow> kntree_adjust_degree n (kntree_adjust_degree n degree) = kntree_adjust_degree n degree"
  by (simp add: kntree_adjust_degree_def)

lemma kntree_init:
  assumes args: "kntree_args n degree root" and r: "0 \<le> r" "r < n"
  defines "d \<equiv> kntree_adjust_degree n degree" and "v \<equiv> (r - root) mod n" and "m \<equiv> kntree_level n degree root r"
  obtains it where "ucg_algo_kntree_iter_init n degree root r leftmost = Some it"
    and "kt_is_level d n v m"
    and "kn_parent it = (if v = 0 then UCG_INVALID_RANK else (kt_parent d v m + root) mod n)"
    and "kntree_children it =
             Some (map (\<lambda>c. (c + root) mod n) (if leftmost then kt_kids d n v m else rev (kt_kids d n v m)))"
    and "kn_size it = n" "kn_degree it = d" "kn_root it = root"
    and "leftmost \<longrightarrow> kn_yields kn_at it (Some it) (kt_kids d n v m)"
proof -
  from args have n: "0 < n" "2 \<le> n" and root: "0 \<le> root" "root < n" by (simp_all add: kntree_args_def)
  have d: "2 \<le> d" using n(2) kntree_adjust_degree_ge by (simp add: d_def)
  obtain it m' where it: "ucg_algo_kntree_iter_init n degree root r leftmost = Some it"
    and lv: "kt_is_level d n v m'"
    and props: "kn_parent it = (if v = 0 then UCG_INVALID_RANK else (kt_parent d v m' + root) mod n)"
     "kntree_children it =
             Some (map (\<lambda>c. (c + root) mod n) (if leftmost then kt_kids d n v m' else rev (kt_kids d n v m')))"
     "kn_size it = n" "kn_degree it = d" "kn_root it = root"
     "leftmost \<longrightarrow> kn_yields kn_at it (Some it) (kt_kids d n v m')"
    using kntree_init_walk [OF n(1) root r, of d degree v leftmost] d by (auto simp: d_def v_def)
  have "m = m'" using lv kt_level_unique unfolding m_def kntree_level_def
    by (intro the_equality) (auto simp: d_def v_def)
  with that it lv props show thesis by blast
qed

lemma kntree_level:
  assumes "kntree_args n degree root" and "0 \<le> r" "r < n"
  shows "kt_is_level (kntree_adjust_degree n degree) n ((r - root) mod n) (kntree_level n degree root r)"
  using kntree_init [OF assms, of True] by metis

lemma kntree_children_eq:
  assumes args: "kntree_args n degree root" and r: "0 \<le> r" "r < n"
  shows "kntree_children_of n degree root leftmost r =
     Some (map (\<lambda>c. (c + root) mod n)
       (let kids = kt_kids (kntree_adjust_degree n degree) n ((r - root) mod n) (kntree_level n degree root r)
        in if leftmost then kids else rev kids))"
  using kntree_init [OF assms, of leftmost] unfolding kntree_children_of_def Let_def by (metis bind.bind_lunit)

lemma kntree_parent_eq:
  assumes args: "kntree_args n degree root" and r: "0 \<le> r" "r < n"
  shows "kntree_parent_of n degree root leftmost r =
     Some (if r = root then UCG_INVALID_RANK
           else (kt_parent (kntree_adjust_degree n degree) ((r - root) mod n) (kntree_level n degree root r) + root) mod n)"
proof -
  have "(r - root) mod n = 0 \<longleftrightarrow> r = root"
    using vrank_zero [OF r] args by (simp add: kntree_args_def)
  moreover obtain it where "ucg_algo_kntree_iter_init n degree root r leftmost = Some it"
    "kn_parent it = (if (r - root) mod n = 0 then UCG_INVALID_RANK
       else (kt_parent (kntree_adjust_degree n degree) ((r - root) mod n) (kntree_level n degree root r) + root) mod n)"
    by (rule kntree_init [OF assms, of leftmost])
  ultimately show ?thesis
    by (simp add: kntree_parent_of_def ucg_algo_kntree_iter_parent_value_def)
qed

lemma kntree_child_iff_parent:
  assumes args: "kntree_args n degree root" and r: "0 \<le> r" "r < n" and c: "0 \<le> c" "c < n"
    and ch: "kntree_children_of n degree root leftmost r = Some cs"
    and pa: "kntree_parent_of n degree root leftmost c = Some p"
  shows "c \<in> set cs \<longleftrightarrow> p = r"
proof -
  let ?d = "kntree_adjust_degree n degree"
  let ?v = "(r - root) mod n" and ?w = "(c - root) mod n"
  let ?m = "kntree_level n degree root r" and ?k = "kntree_level n degree root c"
  have d: "2 \<le> ?d" using args kntree_adjust_degree_ge by (simp add: kntree_args_def)
  have n: "0 < n" and root: "0 \<le> root" "root < n" using args by (simp_all add: kntree_args_def)
  have v: "0 \<le> ?v" "?v < n" and w: "0 \<le> ?w" "?w < n" using n by simp_all
  note lr = kntree_level [OF args r] and lc = kntree_level [OF args c]
  have "set cs = (\<lambda>x. (x + root) mod n) ` set (kt_kids ?d n ?v ?m)"
    using ch by (simp add: kntree_children_eq [OF args r] Let_def split: if_splits) auto
  also have "c \<in> \<dots> \<longleftrightarrow> ?w \<in> set (kt_kids ?d n ?v ?m)"
  proof
    assume "c \<in> (\<lambda>x. (x + root) mod n) ` set (kt_kids ?d n ?v ?m)"
    then obtain x where x: "c = (x + root) mod n" "x \<in> set (kt_kids ?d n ?v ?m)" by blast
    then have "?w = x" using kt_kids_range [OF d v(1) x(2)] v(1) by (simp add: vrank_inverse)
    with x show "?w \<in> set (kt_kids ?d n ?v ?m)" by simp
  next
    assume "?w \<in> set (kt_kids ?d n ?v ?m)"
    moreover have "c = (?w + root) mod n" using c by (simp add: rank_inverse)
    ultimately show "c \<in> (\<lambda>x. (x + root) mod n) ` set (kt_kids ?d n ?v ?m)" by blast
  qed
  also have "\<dots> \<longleftrightarrow> p = r"
  proof (cases "c = root")
    case True
    then have "p = UCG_INVALID_RANK" and "?w = 0" using pa kntree_parent_eq [OF args c, of leftmost] by simp_all
    then show ?thesis using r kt_kids_range [OF d v(1), of ?w n ?m] v(1) by auto
  next
    case False
    then have w0: "0 < ?w" using vrank_zero [OF c root] w by linarith
    let ?p = "kt_parent ?d ?w ?k"
    have pr: "0 \<le> ?p" "?p < n" using kt_parent_range [OF d lc w0 w(2)] w by linarith+
    have p: "p = (?p + root) mod n" using pa False by (simp add: kntree_parent_eq [OF args c])
    show ?thesis
    proof
      assume "?w \<in> set (kt_kids ?d n ?v ?m)"
      then have "?p = ?v" using kt_kids_level_parent [OF d lr v(1) _ lc] by simp
      then show "p = r" using p r by (simp add: rank_inverse)
    next
      assume "p = r"
      then have "?v = ?p" using vrank_inverse [OF pr, of root] p by simp
      then show "?w \<in> set (kt_kids ?d n ?v ?m)"
        using kt_child_of_parent [OF d lc w0 w(2)] lr by simp
    qed
  qed
  finally show ?thesis .
qed

lemma kntree_children_range:
  assumes args: "kntree_args n degree root" and r: "0 \<le> r" "r < n"
    and ch: "kntree_children_of n degree root leftmost r = Some cs"
  shows "set cs \<subseteq> {0..<n}" and "distinct cs"
proof -
  let ?d = "kntree_adjust_degree n degree" and ?v = "(r - root) mod n" and ?m = "kntree_level n degree root r"
  have d: "2 \<le> ?d" using args kntree_adjust_degree_ge by (simp add: kntree_args_def)
  have n: "0 < n" using args by (simp add: kntree_args_def)
  have v: "0 \<le> ?v" "?v < n" using n by simp_all
  have cs: "cs = map (\<lambda>c. (c + root) mod n)
      (if leftmost then kt_kids ?d n ?v ?m else rev (kt_kids ?d n ?v ?m))"
    using ch by (simp add: kntree_children_eq [OF args r] Let_def)
  show "set cs \<subseteq> {0..<n}" using n unfolding cs by auto
  have "inj_on (\<lambda>c. (c + root) mod n) (set (kt_kids ?d n ?v ?m))"
  proof (rule inj_onI)
    fix a b assume a: "a \<in> set (kt_kids ?d n ?v ?m)" and b: "b \<in> set (kt_kids ?d n ?v ?m)"
      and e: "(a + root) mod n = (b + root) mod n"
    have "0 \<le> a" "a < n" "0 \<le> b" "b < n"
      using kt_kids_range [OF d v(1) a] kt_kids_range [OF d v(1) b] v(1) by linarith+
    then show "a = b" using e by (metis vrank_inverse)
  qed
  moreover have "distinct (kt_kids ?d n ?v ?m)"
    using distinct_kt_kids [OF d kntree_level [OF args r] v(1) order_refl] .
  ultimately show "distinct cs" unfolding cs by (auto simp: distinct_map)
qed

lemma kntree_parent_smaller:
  assumes args: "kntree_args n degree root" and c: "0 \<le> c" "c < n" "c \<noteq> root"
    and pa: "kntree_parent_of n degree root leftmost c = Some p"
  shows "0 \<le> p" "p < n" "(p - root) mod n < (c - root) mod n"
proof -
  let ?d = "kntree_adjust_degree n degree" and ?w = "(c - root) mod n" and ?k = "kntree_level n degree root c"
  have d: "2 \<le> ?d" using args kntree_adjust_degree_ge by (simp add: kntree_args_def)
  have n: "0 < n" and root: "0 \<le> root" "root < n" using args by (simp_all add: kntree_args_def)
  have w: "0 \<le> ?w" "?w < n" using n by simp_all
  have w0: "0 < ?w" using vrank_zero [OF c(1,2) root] w c(3) by linarith
  have pr: "0 \<le> kt_parent ?d ?w ?k" "kt_parent ?d ?w ?k < ?w"
    using kt_parent_range [OF d kntree_level [OF args c(1,2)] w0 w(2)] by simp_all
  have p: "p = (kt_parent ?d ?w ?k + root) mod n" using pa c(3) by (simp add: kntree_parent_eq [OF args c(1,2)])
  show "0 \<le> p" "p < n" using n p by simp_all
  have "(p - root) mod n = kt_parent ?d ?w ?k" using pr w p by (simp add: vrank_inverse)
  with pr show "(p - root) mod n < ?w" by simp
qed

text \<open>The iterator provides the \<open>rank_tree\<close> interface; a configuration is the argument tuple of init.\<close>

interpretation kt: rank_tree
  "\<lambda>(n, degree, root, leftmost :: bool). kntree_args n degree root"
  "\<lambda>(n, degree, root, leftmost). {0..<n}"
  "\<lambda>(n, degree, root, leftmost). root"
  "\<lambda>(n, degree, root, leftmost) r. the (kntree_parent_of n degree root leftmost r)"
  "\<lambda>(n, degree, root, leftmost) r. the (kntree_children_of n degree root leftmost r)"
  "\<lambda>(n, degree, root, leftmost) r. nat ((r - root) mod n)"
proof (unfold_locales, goal_cases)
  case (1 g) then show ?case by (simp split: prod.splits)
next
  case (2 g) then show ?case by (auto simp: kntree_args_def split: prod.splits)
next
  case (3 g r)
  then show ?case using kntree_children_range(1) by (clarsimp simp: kntree_children_eq split: prod.splits)
next
  case (4 g r) then show ?case using kntree_children_range(2) by (fastforce simp: kntree_children_eq split: prod.splits)
next
  case (5 g r c)
  obtain n degree root leftmost where g: "g = (n, degree, root, leftmost)" by (cases g)
  with 5 have a: "kntree_args n degree root" "0 \<le> r" "r < n" "0 \<le> c" "c < n" by auto
  obtain cs p where cs: "kntree_children_of n degree root leftmost r = Some cs"
    "kntree_parent_of n degree root leftmost c = Some p"
    using kntree_children_eq [OF a(1,2,3)] kntree_parent_eq [OF a(1,4,5)] by blast
  have "p = UCG_INVALID_RANK" if "c = root" using that cs(2) kntree_parent_eq [OF a(1,4,5)] by simp
  then show ?case using kntree_child_iff_parent [OF a cs] cs g a(2) by auto
next
  case (6 g c)
  obtain n degree root leftmost where g: "g = (n, degree, root, leftmost)" by (cases g)
  with 6 have a: "kntree_args n degree root" "0 \<le> c" "c < n" "c \<noteq> root" by auto
  obtain p where "kntree_parent_of n degree root leftmost c = Some p" using kntree_parent_eq [OF a(1,2,3)] by blast
  then show ?case using kntree_parent_smaller [OF a] g by auto
next
  case (7 g c)
  obtain n degree root leftmost where g: "g = (n, degree, root, leftmost)" by (cases g)
  with 7 have a: "kntree_args n degree root" "0 \<le> c" "c < n" "c \<noteq> root" by auto
  obtain p where p: "kntree_parent_of n degree root leftmost c = Some p" using kntree_parent_eq [OF a(1,2,3)] by blast
  have "0 \<le> (p - root) mod n" using a(1) by (simp add: kntree_args_def)
  then show ?case using kntree_parent_smaller(3) [OF a p] g p by (simp add: nat_less_eq_zless)
qed

subsection \<open>Subtree sizes\<close>

lemma kntree_subtree_loop:
  assumes "2 \<le> kn_degree it" and "0 < kn_size it" and "0 \<le> kn_root it" and "\<forall>c \<in> set rest. 0 \<le> c"
    and "kn_yields kn_at it0 (Some it) rest" and "kn_same_tree it0 it"
    and "\<forall>c \<in> set rest. \<exists>itc. ucg_algo_kntree_iter_init (kn_size it) (kn_degree it) (kn_root it)
             ((c + kn_root it) mod kn_size it) True = Some itc \<and>
             kntree_subtree_while itc 1 = Some (w c)"
  shows "kntree_subtree_while it count = Some (count + (\<Sum>c \<leftarrow> rest. w c))"
  using assms
proof (induction rest arbitrary: it0 it count)
  case Nil
  then show ?case
    by (simp add: kn_yields_def kntree_subtree_while.simps [of it] ucg_algo_kntree_iter_child_value_def)
next
  case (Cons c cs)
  have f: "kn_size it = kn_size it0" "kn_root it = kn_root it0" "kn_degree it = kn_degree it0"
    using Cons.prems(6) by (auto dest: kn_same_tree_fields)
  let ?it = "it\<lparr>kn_child_idx := kn_child_idx it + 1\<rparr>"
  have child: "kn_child it = (c + kn_root it) mod kn_size it" and at: "kn_at ?it cs"
    using Cons.prems f by (auto simp: kn_yields_def smod_nonneg)
  have "0 \<le> (c + kn_root it) mod kn_size it" using Cons.prems(2) by simp
  with child have "kn_child it \<noteq> UCG_INVALID_RANK" by linarith
  from kn_update [OF _ at] Cons.prems(1) obtain it' where it':
    "ucg_algo_kntree_iter_update ?it = Some it'" "kn_same_tree ?it it'"
    and y: "kn_yields kn_at ?it (Some it') cs"
    by (auto simp: kn_yields_def)
  note f' = kn_same_tree_fields [OF it'(2)]
  have "kntree_subtree_while it' (count + w c) = Some (count + w c + (\<Sum>c \<leftarrow> cs. w c))"
    using Cons.IH [of it' ?it] Cons.prems f' y it'(2) by simp
  with it' child \<open>kn_child it \<noteq> UCG_INVALID_RANK\<close> Cons.prems(7) show ?case
    by (auto simp: kntree_subtree_while.simps [of it] ucg_algo_kntree_iter_child_value_def
        ucg_algo_kntree_iter_child_inc_def)
qed

definition kntree_weight :: "c_int \<Rightarrow> c_int \<Rightarrow> ucg_rank_t \<Rightarrow> ucg_rank_t \<Rightarrow> c_int" where
  "kntree_weight n d root r = kt_weight d n ((r - root) mod n) (kntree_level n d root r)"

lemma kntree_weight_children:
  assumes args: "kntree_args n d root" and ad: "kntree_adjust_degree n d = d" and r: "0 \<le> r" "r < n"
  shows "kntree_weight n d root r =
           1 + (\<Sum>c \<leftarrow> kt_kids d n ((r - root) mod n) (kntree_level n d root r). kntree_weight n d root ((c + root) mod n))"
proof -
  let ?v = "(r - root) mod n" and ?m = "kntree_level n d root r"
  have n: "0 < n" and d: "2 \<le> d"
    using args ad kntree_adjust_degree_ge [of n d] by (simp_all add: kntree_args_def)
  have v: "0 \<le> ?v" "?v < n" using n by simp_all
  have lv: "kt_is_level d n ?v ?m" using kntree_level [OF args r] ad by simp
  have "1 + (\<Sum>c \<leftarrow> kt_kids d n ?v ?m. kntree_weight n d root ((c + root) mod n)) = kt_weight d n ?v ?m"
  proof (rule kt_kids_weight [OF d v(2)])
    fix k c assume k: "k < ?m" and c: "c \<in> set (kt_block n ?v (d ^ k) d 1)"
    then have "c \<in> set (kt_kids d n ?v ?m)" unfolding set_kt_block set_kt_kids by blast
    then have ck: "((c + root) mod n - root) mod n = c"
      using kt_kids_range [OF d v(1)] v(1) by (intro vrank_inverse) force+
    from c obtain j where "c = ?v + d ^ k * j" "1 \<le> j" "j < d" "c < n" unfolding set_kt_block by blast
    then have "kt_is_level d n c k" using kt_child_level [OF d lv v(1) k] by simp
    moreover have "kt_is_level d n c (kntree_level n d root ((c + root) mod n))"
      using kntree_level [OF args, of "(c + root) mod n"] n ck ad by simp
    ultimately have "kntree_level n d root ((c + root) mod n) = k" using kt_level_unique by blast
    then show "kntree_weight n d root ((c + root) mod n) = min (d ^ k) (n - c)"
      by (simp add: kt_weight_def kntree_weight_def ck)
  qed
  then show ?thesis by (simp add: kntree_weight_def)
qed

lemma kntree_subtree_weight:
  assumes args: "kntree_args n d root" and ad: "kntree_adjust_degree n d = d" and r: "0 \<le> r" "r < n"
  shows "\<exists>it. ucg_algo_kntree_iter_init n d root r True = Some it \<and>
           kntree_subtree_while it 1 = Some (kntree_weight n d root r)"
  using r
proof (induction "nat (n - (r - root) mod n)" arbitrary: r rule: less_induct)
  case less
  let ?v = "(r - root) mod n" and ?m = "kntree_level n d root r"
  let ?w = "\<lambda>c. kntree_weight n d root ((c + root) mod n)"
  have n: "0 < n" and root: "0 \<le> root" and d: "2 \<le> d"
    using args ad kntree_adjust_degree_ge [of n d] by (simp_all add: kntree_args_def)
  have v: "0 \<le> ?v" "?v < n" using n by simp_all
  obtain it where it: "ucg_algo_kntree_iter_init n d root r True = Some it"
    and f: "kn_size it = n" "kn_degree it = d" "kn_root it = root"
    and y: "kn_yields kn_at it (Some it) (kt_kids d n ?v ?m)"
    using kntree_init [OF args less.prems, of True] ad by (metis (full_types))
  have kid: "0 \<le> c" "?v < c" "c < n" "((c + root) mod n - root) mod n = c" if "c \<in> set (kt_kids d n ?v ?m)" for c
    using kt_kids_range [OF d v(1) that] v(1) by (simp_all add: vrank_inverse)
  have "\<exists>itc. ucg_algo_kntree_iter_init n d root ((c + root) mod n) True = Some itc \<and>
             kntree_subtree_while itc 1 = Some (?w c)" if "c \<in> set (kt_kids d n ?v ?m)" for c
    using less.hyps [of "(c + root) mod n"] kid [OF that] n by simp
  then have "kntree_subtree_while it 1 = Some (1 + (\<Sum>c \<leftarrow> kt_kids d n ?v ?m. ?w c))"
    using y d n root f kid by (intro kntree_subtree_loop [of _ _ it]) (auto intro: kn_same_treeI)
  then show ?case using it kntree_weight_children [OF args ad less.prems] by simp
qed

lemma kntree_weight_below:
  assumes args: "kntree_args n d root" and ad: "kntree_adjust_degree n d = d" and r: "0 \<le> r" "r < n"
  shows "kntree_weight n d root r = int (card (kt.below (n, d, root, True) r))"
proof (rule kt.weight_is_card [where b = "nat n"])
  show "case (n, d, root, True) of (n, degree, root, leftmost) \<Rightarrow> kntree_args n degree root" using args by simp
  show "r \<in> (case (n, d, root, True) of (n, degree, root, leftmost) \<Rightarrow> {0..<n})" using r by simp
  fix r assume "r \<in> (case (n, d, root, True) of (n, degree, root, leftmost) \<Rightarrow> {0..<n})"
  then have r: "0 \<le> r" "r < n" by simp_all
  show "kntree_weight n d root r = 1 + (\<Sum>c \<leftarrow> (case (n, d, root, True) of (n, degree, root, leftmost) \<Rightarrow>
          \<lambda>r. the (kntree_children_of n degree root leftmost r)) r. kntree_weight n d root c)"
    using kntree_weight_children [OF args ad r] ad by (simp add: kntree_children_eq [OF args r] comp_def)
  have "(r - root) mod n < n" using r by simp
  then show "(case (n, d, root, True) of (n, degree, root, leftmost) \<Rightarrow> \<lambda>r. nat ((r - root) mod n)) r \<le> nat n"
    by (simp add: nat_mono less_imp_le)
qed

subsection \<open>The tree as a relation\<close>

definition kntree_edges :: "c_int \<Rightarrow> c_int \<Rightarrow> ucg_rank_t \<Rightarrow> bool \<Rightarrow> (ucg_rank_t \<times> ucg_rank_t) set" where
  "kntree_edges n degree root leftmost =
     {(p, c). 0 \<le> p \<and> p < n \<and> (\<exists>cs. kntree_children_of n degree root leftmost p = Some cs \<and> c \<in> set cs)}"

lemma kntree_edges_kt:
  "kntree_args n degree root \<Longrightarrow> kntree_edges n degree root leftmost = kt.edges (n, degree, root, leftmost)"
  unfolding kntree_edges_def kt.edges_def by (auto simp: kntree_children_eq)

lemma kntree_leftmost_stuck:
  assumes "kntree_leftmost_while it stride = Some it'"
  shows "\<not> (stride = 1 \<and> kn_degree it = 1 \<and> kn_size it = 1 \<and> kn_myrank it = 0 \<and> 1 \<le> kn_child_idx it)"
  using assms
proof (rule kntree_leftmost_while.raw_induct [rotated], goal_cases)
  case (1 w it stride it')
  show ?case
  proof
    assume a: "stride = 1 \<and> kn_degree it = 1 \<and> kn_size it = 1 \<and> kn_myrank it = 0 \<and> 1 \<le> kn_child_idx it"
    then have "kntree_leftmost_for it stride = (it, False)" by (simp add: kntree_leftmost_for.simps)
    with 1(2) a have "w (it\<lparr>kn_subsize := 1, kn_child_idx := 1\<rparr>) (1 sdiv 1) = Some it'" by simp
    from 1(1) [OF this] a show False by simp
  qed
qed

lemma kntree_edge_count:
  assumes "kntree_args n degree root"
  shows "(\<Sum>r \<in> {0..<n}. length (the (kntree_children_of n degree root leftmost r))) = nat n - 1"
  using kt.message_count [of "(n, degree, root, leftmost)"] assms by simp

subsection \<open>Properties\<close>

text \<open>
  C2: the iterators of any two ranks agree: \<open>ucg_algo_kntree_iter_init\<close> returns on both, the children
  one rank walks are distinct ranks of the group, the other is among them exactly when its own
  iterator names the first as parent, and only the root has no parent.
\<close>

theorem kntree_parent_child_agree:
  assumes "kntree_args n degree root" and "0 \<le> r" "r < n" and "0 \<le> c" "c < n"
  shows "\<exists>cs p. kntree_children_of n degree root leftmost r = Some cs \<and>
           kntree_parent_of n degree root leftmost c = Some p \<and>
           distinct cs \<and> set cs \<subseteq> {0..<n} \<and> (c \<in> set cs \<longleftrightarrow> p = r) \<and> (p = UCG_INVALID_RANK \<longleftrightarrow> c = root)"
proof -
  obtain cs p where e: "kntree_children_of n degree root leftmost r = Some cs"
      "kntree_parent_of n degree root leftmost c = Some p"
    using kntree_children_eq [OF assms(1-3)] kntree_parent_eq [OF assms(1,4,5)] by blast
  have "p = UCG_INVALID_RANK \<longleftrightarrow> c = root"
    using kntree_parent_smaller(1) [OF assms(1,4,5) _ e(2)] e(2) kntree_parent_eq [OF assms(1,4,5), of leftmost]
    by fastforce
  with e show ?thesis
    using kntree_child_iff_parent [OF assms e] kntree_children_range [OF assms(1-3) e(1)] by blast
qed

lemma kntree_parent_child_agree_witness:
  "\<exists>cs p. kntree_children_of 7 3 2 True 2 = Some cs \<and> kntree_parent_of 7 3 2 True 5 = Some p \<and>
     distinct cs \<and> set cs \<subseteq> {0..<7} \<and> (5 \<in> set cs \<longleftrightarrow> p = 2) \<and> (p = UCG_INVALID_RANK \<longleftrightarrow> 5 = (2 :: int))"
  by (rule kntree_parent_child_agree) (simp_all add: kntree_args_def)

text \<open>
  C25: every rank of the group hangs below the root, and every rank but the root has exactly one rank
  that sends to it: a broadcast over the iterator reaches everybody once.
\<close>

theorem kntree_reaches_every_rank:
  assumes "kntree_args n degree root" and "0 \<le> r" "r < n"
  shows "(root, r) \<in> (kntree_edges n degree root leftmost)\<^sup>* \<and>
         (r \<noteq> root \<longrightarrow> (\<exists>!p. (p, r) \<in> kntree_edges n degree root leftmost))"
proof -
  let ?g = "(n, degree, root, leftmost)"
  have "(root, r) \<in> (kt.edges ?g)\<^sup>*" using kt.root_reaches [of ?g r] assms by simp
  moreover have "r \<noteq> root \<Longrightarrow> \<exists>!p. (p, r) \<in> kt.edges ?g"
    using kt.one_sender [of ?g r] assms by (simp add: kt.edges_def)
  ultimately show ?thesis using assms(1) by (simp add: kntree_edges_kt)
qed

lemma kntree_reaches_every_rank_witness:
  "(2, 5) \<in> (kntree_edges 7 3 2 False)\<^sup>* \<and> (\<exists>!p. (p, 5) \<in> kntree_edges 7 3 2 False)"
  using kntree_reaches_every_rank [of 7 3 2 5 False] by (simp add: kntree_args_def)

text \<open>
  C34: \<open>ucg_algo_kntree_get_subtree_size\<close> returns, and what it returns is the number of ranks below the
  given rank, itself included.
\<close>

theorem kntree_subtree_size_counts:
  assumes "kntree_args n degree root" and "0 \<le> rank" "rank < n" and "0 \<le> r" "r < n"
    and "ucg_algo_kntree_iter_init n degree root r leftmost = Some it"
  shows "ucg_algo_kntree_get_subtree_size it rank =
           Some (int (card {x. (rank, x) \<in> (kntree_edges n degree root True)\<^sup>*}))"
proof -
  let ?d = "kntree_adjust_degree n degree"
  have args: "kntree_args n ?d root" and ad: "kntree_adjust_degree n ?d = ?d"
    using assms(1) by (auto simp: kntree_args_def kntree_adjust_degree_idem)
  have it: "kn_size it = n" "kn_degree it = ?d" "kn_root it = root"
    using kntree_init [OF assms(1,4,5), of leftmost] assms(6) by (metis option.inject)+
  have "kntree_edges n ?d root True = kntree_edges n degree root True"
    unfolding kntree_edges_def
    by (intro Collect_cong) (auto simp: kntree_children_eq [OF args] kntree_children_eq [OF assms(1)] ad kntree_level_def)
  moreover obtain it' where "ucg_algo_kntree_iter_init n ?d root rank True = Some it'"
    "kntree_subtree_while it' 1 = Some (kntree_weight n ?d root rank)"
    using kntree_subtree_weight [OF args ad assms(2,3)] by blast
  ultimately show ?thesis
    using kntree_weight_below [OF args ad assms(2,3)] kntree_edges_kt [OF args, of True]
    by (simp add: ucg_algo_kntree_get_subtree_size_def it kt.below_def)
qed

lemma kntree_subtree_size_counts_witness:
  "\<exists>it. ucg_algo_kntree_iter_init 7 3 2 4 False = Some it \<and>
     ucg_algo_kntree_get_subtree_size it 5 = Some (int (card {x. (5, x) \<in> (kntree_edges 7 3 2 True)\<^sup>*}))"
proof -
  have args: "kntree_args 7 3 2" by (simp add: kntree_args_def)
  obtain it where it: "ucg_algo_kntree_iter_init 7 3 2 4 False = Some it"
    using kntree_init [OF args, of 4 False] by auto
  show ?thesis using it kntree_subtree_size_counts [OF args _ _ _ _ it, of 5] by simp
qed

text \<open>
  The rightmost iterator visits exactly the children of the leftmost one in the reverse order.
\<close>

theorem kntree_rightmost_mirrors:
  assumes "kntree_args n degree root" and "0 \<le> r" "r < n"
  shows "kntree_children_of n degree root False r = map_option rev (kntree_children_of n degree root True r)"
    using assms by (simp add: kntree_children_eq Let_def rev_map)

lemma kntree_rightmost_mirrors_witness:
  "kntree_children_of 7 3 2 False 2 = map_option rev (kntree_children_of 7 3 2 True 2)"
  by (rule kntree_rightmost_mirrors) (simp_all add: kntree_args_def)

text \<open>
  C37: on a group of one rank a leftmost iterator never returns from its initialisation once the
  degree is at least 2: the degree is cut to the group size 1 and the stride never shrinks.
\<close>

theorem kntree_single_rank_diverges:
  assumes "2 \<le> degree"
  shows "ucg_algo_kntree_iter_init 1 degree 0 0 True = None"
proof -
  let ?it = "\<lparr>kn_size = 1, kn_degree = 1, kn_root = 0, kn_myrank = 0, kn_leftmost = True,
     kn_max_subsize = 1, kn_subsize = 1, kn_child_idx = 1, kn_parent = UCG_INVALID_RANK,
     kn_child = UCG_INVALID_RANK\<rparr>"
  have "ucg_algo_kntree_iter_init 1 degree 0 0 True = kntree_leftmost_while ?it 1"
    using assms
    by (simp add: ucg_algo_kntree_iter_init_def kntree_adjust_degree_def kntree_find_parent.simps
        ucg_algo_kntree_iter_update_def ucg_algo_kntree_iter_update_kntree_leftmost_def kucg_arith)
  then show ?thesis using kntree_leftmost_stuck [of ?it 1] by (cases "kntree_leftmost_while ?it 1") auto
qed

lemma kntree_single_rank_diverges_witness: "ucg_algo_kntree_iter_init 1 2 0 0 True = None"
  by (rule kntree_single_rank_diverges) simp

end
