(* ===== verification/Exchange.thy ===== *)
theory Exchange
  imports Kucg_Prelude
begin

unbundle bit_operations_syntax

text \<open>
  The interface between the recursive doubling and halving iterators and the collectives that exchange
  data along them.  The members of a schedule are coded by the numbers below \<open>2^rounds\<close>; in round \<open>i\<close> a
  member talks to the one whose code differs in bit \<open>dim i\<close>, and every bit has its round.  Whoever
  folds what it receives into what it holds ends with the contribution of every member exactly once,
  whatever the (commutative) reduction is.
\<close>

lemma xor_twice: "(x XOR y) XOR y = (x :: int)"
  by (simp add: xor.assoc)

lemma bit_xor_exp: "bit (x XOR 2 ^ k) i = (if i = k then \<not> bit x i else bit (x :: int) i)"
  by (auto simp: bit_xor_iff bit_exp_iff possible_bit_def)

lemma int_lt_exp_bits:
  fixes x :: int
  assumes "0 \<le> x" and "x < 2 ^ k" and "k \<le> i"
  shows "\<not> bit x i"
proof -
  have "x < 2 ^ i" using assms(2,3) by (meson less_le_trans one_le_numeral power_increasing)
  then show ?thesis using assms(1) by (simp add: bit_iff_odd)
qed

locale exchange =
  fixes valid :: "'g \<Rightarrow> bool" and members :: "'g \<Rightarrow> int set" and rounds :: "'g \<Rightarrow> nat"
    and dim :: "'g \<Rightarrow> nat \<Rightarrow> nat" and code :: "'g \<Rightarrow> int \<Rightarrow> int" and peer :: "'g \<Rightarrow> nat \<Rightarrow> int \<Rightarrow> int"
  assumes code_bij: "valid g \<Longrightarrow> bij_betw (code g) (members g) {0..<2 ^ rounds g}"
    and dim_bij: "valid g \<Longrightarrow> bij_betw (dim g) {0..<rounds g} {0..<rounds g}"
    and peer_member: "valid g \<Longrightarrow> i < rounds g \<Longrightarrow> r \<in> members g \<Longrightarrow> peer g i r \<in> members g"
    and peer_code: "valid g \<Longrightarrow> i < rounds g \<Longrightarrow> r \<in> members g \<Longrightarrow>
          code g (peer g i r) = code g r XOR 2 ^ dim g i"
begin

lemma code_eq: "valid g \<Longrightarrow> r \<in> members g \<Longrightarrow> s \<in> members g \<Longrightarrow> code g r = code g s \<longleftrightarrow> r = s"
  using code_bij by (auto simp: bij_betw_def inj_on_def)

lemma finite_members: "valid g \<Longrightarrow> finite (members g)"
  using code_bij by (metis bij_betw_finite finite_atLeastLessThan_int)

lemma peer_symmetric:
  assumes "valid g" and "i < rounds g" and "r \<in> members g"
  shows "peer g i (peer g i r) = r" and "peer g i r \<noteq> r"
proof -
  note m = peer_member [OF assms]
  have "code g (peer g i (peer g i r)) = code g r"
    using peer_code [OF assms] peer_code [OF assms(1,2) m] by (simp add: xor_twice)
  then show "peer g i (peer g i r) = r"
    using code_eq [OF assms(1) peer_member [OF assms(1,2) m] assms(3)] by simp
  have "bit (code g (peer g i r)) (dim g i) \<noteq> bit (code g r) (dim g i)"
    using peer_code [OF assms] by (simp add: bit_xor_exp)
  then show "peer g i r \<noteq> r" by auto
qed

text \<open>The values after \<open>k\<close> rounds, when every member adds what its peer held.\<close>

fun folded :: "'g \<Rightarrow> (int \<Rightarrow> 'a :: comm_monoid_add) \<Rightarrow> nat \<Rightarrow> int \<Rightarrow> 'a" where
  "folded g v 0 r = v r"
| "folded g v (Suc k) r = folded g v k r + folded g v k (peer g k r)"

definition reached :: "'g \<Rightarrow> nat \<Rightarrow> int \<Rightarrow> int set" where
  "reached g k r = {s \<in> members g. \<forall>i. i \<notin> dim g ` {0..<k} \<longrightarrow> bit (code g s) i = bit (code g r) i}"

lemma reached_0: "valid g \<Longrightarrow> r \<in> members g \<Longrightarrow> reached g 0 r = {r}"
  unfolding reached_def using code_eq [of g _ r] bit_eqI [of "code g _" "code g r"] by auto

lemma reached_Suc:
  assumes v: "valid g" and k: "k < rounds g" and r: "r \<in> members g"
  shows "reached g (Suc k) r = reached g k r \<union> reached g k (peer g k r)"
    and "reached g k r \<inter> reached g k (peer g k r) = {}"
proof -
  have new: "dim g k \<notin> dim g ` {0..<k}"
  proof
    assume "dim g k \<in> dim g ` {0..<k}"
    then obtain x where "x < k" "dim g k = dim g x" by auto
    then have "k = x" using dim_bij [OF v] k by (simp add: bij_betw_def inj_on_def)
    with \<open>x < k\<close> show False by simp
  qed
  have ins: "dim g ` {0..<Suc k} = insert (dim g k) (dim g ` {0..<k})"
    by (simp add: atLeast0_lessThan_Suc)
  note c = peer_code [OF v k r]
  show "reached g (Suc k) r = reached g k r \<union> reached g k (peer g k r)"
  proof (intro equalityI subsetI)
    fix s assume s: "s \<in> reached g (Suc k) r"
    show "s \<in> reached g k r \<union> reached g k (peer g k r)"
    proof (cases "bit (code g s) (dim g k) = bit (code g r) (dim g k)")
      case True
      then have "s \<in> reached g k r" using s unfolding reached_def ins by auto
      then show ?thesis by simp
    next
      case False
      then have "s \<in> reached g k (peer g k r)"
        using s unfolding reached_def ins by (auto simp: c bit_xor_exp)
      then show ?thesis by simp
    qed
  next
    fix s assume "s \<in> reached g k r \<union> reached g k (peer g k r)"
    then show "s \<in> reached g (Suc k) r" unfolding reached_def ins by (auto simp: c bit_xor_exp)
  qed
  show "reached g k r \<inter> reached g k (peer g k r) = {}"
  proof (rule ccontr)
    assume "\<not> ?thesis"
    then obtain s where "bit (code g s) (dim g k) = bit (code g r) (dim g k)"
      "bit (code g s) (dim g k) = bit (code g (peer g k r)) (dim g k)"
      using new by (auto simp: reached_def)
    then show False by (simp add: c bit_xor_exp)
  qed
qed

lemma folded_reached:
  assumes v: "valid g"
  shows "k \<le> rounds g \<Longrightarrow> r \<in> members g \<Longrightarrow> folded g w k r = (\<Sum>s \<in> reached g k r. w s)"
proof (induction k arbitrary: r)
  case 0
  then show ?case by (simp add: reached_0 [OF v])
next
  case (Suc k)
  then have k: "k < rounds g" by simp
  have "finite (reached g k x)" for x
    using finite_members [OF v] by (auto simp: reached_def intro: finite_subset)
  then show ?case using Suc k reached_Suc [OF v k Suc.prems(2)] peer_member [OF v k Suc.prems(2)]
    by (simp add: sum.union_disjoint)
qed

lemma reached_all:
  assumes v: "valid g" and r: "r \<in> members g"
  shows "reached g (rounds g) r = members g"
proof -
  have "dim g ` {0..<rounds g} = {0..<rounds g}" using dim_bij [OF v] by (simp add: bij_betw_def)
  moreover have "\<not> bit (code g s) i" if "s \<in> members g" "rounds g \<le> i" for s i
  proof -
    have "code g s \<in> {0..<2 ^ rounds g}" using code_bij [OF v] that(1) by (auto simp: bij_betw_def)
    then show ?thesis using that(2) by (intro int_lt_exp_bits) auto
  qed
  ultimately show ?thesis using r unfolding reached_def by auto
qed

lemma folded_all:
  "valid g \<Longrightarrow> r \<in> members g \<Longrightarrow> folded g w (rounds g) r = (\<Sum>s \<in> members g. w s)"
  by (simp add: folded_reached reached_all)

end

end
