(* ===== verification/Algo_Rd.thy ===== *)
theory Algo_Rd
  imports Exchange
begin

text \<open>
  The recursive doubling iterator (\<open>src/src/util/algo/ucg_rd.c\<close>, \<open>ucg_rd.h\<close>), the recursive halving
  iterator (\<open>ucg_rh.c\<close>, \<open>ucg_rh.h\<close>) and the logarithm of \<open>src/src/util/ucg_math.h\<close> they rest on.
\<close>

subsection \<open>ucg_ilog2\<close>

text \<open>
  The macro tests the bits of its argument from bit 63 down; an \<open>int\<close> argument is sign extended by
  the \<open>&\<close> with an \<open>unsigned long long\<close>, but a negative one has already been answered with 0.
\<close>

fun ilog2_scan :: "nat \<Rightarrow> int \<Rightarrow> c_int" where
  "ilog2_scan 0 n = 0"
| "ilog2_scan (Suc k) n = (if n AND 2 ^ k \<noteq> 0 then int k else ilog2_scan k n)"

definition ucg_ilog2 :: "int \<Rightarrow> c_int" where
  "ucg_ilog2 n = (if n < 1 then 0 else ilog2_scan 64 n)"

abbreviation UCG_BIT :: "c_int \<Rightarrow> c_int" where
  "UCG_BIT i \<equiv> 2 ^ nat i"

lemma int_and_exp: "(n :: int) AND 2 ^ k \<noteq> 0 \<longleftrightarrow> bit n k"
  by (simp add: and_exp_eq_0_iff_not_bit)

lemma ilog2_scan_bounds:
  "1 \<le> n \<Longrightarrow> n < 2 ^ k \<Longrightarrow> 0 \<le> ilog2_scan k n \<and> 2 ^ nat (ilog2_scan k n) \<le> n \<and> n < 2 * 2 ^ nat (ilog2_scan k n)"
proof (induction k)
  case (Suc k)
  show ?case
  proof (cases "bit n k")
    case True
    have "2 ^ k \<le> n"
    proof (rule ccontr)
      assume "\<not> 2 ^ k \<le> n"
      then show False using True int_lt_exp_bits [of n k k] Suc.prems(1) by simp
    qed
    then show ?thesis using True Suc.prems by (simp add: int_and_exp del: and_exp_eq_0_iff_not_bit)
  next
    case False
    have "n < 2 ^ k"
    proof (rule ccontr)
      assume "\<not> n < 2 ^ k"
      then have "n div 2 ^ k = 1" using Suc.prems by (simp add: div_pos_geq div_pos_pos_trivial)
      then show False using False by (simp add: bit_iff_odd)
    qed
    then show ?thesis using False Suc by (simp add: int_and_exp)
  qed
qed simp

lemma ucg_ilog2_bounds:
  assumes "1 \<le> n" and "n < 2 ^ 64"
  shows "0 \<le> ucg_ilog2 n" and "UCG_BIT (ucg_ilog2 n) \<le> n" and "n < 2 * UCG_BIT (ucg_ilog2 n)"
  using ilog2_scan_bounds [OF assms] assms(1) by (simp_all add: ucg_ilog2_def)

lemma ucg_ilog2_exp:
  assumes "k < 64" shows "ucg_ilog2 (2 ^ k) = int k"
proof -
  have b: "(1 :: int) \<le> 2 ^ k" "(2 :: int) ^ k < 2 ^ 64"
    using power_strict_increasing [OF assms, of "2 :: int"] by simp_all
  let ?l = "nat (ucg_ilog2 (2 ^ k))"
  have "(2 :: int) ^ ?l \<le> 2 ^ k" "(2 :: int) ^ k < 2 ^ Suc ?l"
    using ucg_ilog2_bounds [OF b] by simp_all
  then have "?l \<le> k" "k < Suc ?l"
    using power_less_imp_less_exp [of "2 :: int" k "Suc ?l"] by simp_all
  then show ?thesis using ucg_ilog2_bounds(1) [OF b] by simp
qed

subsection \<open>Recursive doubling\<close>

datatype ucg_algo_rd_iter_type = UCG_ALGO_RD_ITER_BASE | UCG_ALGO_RD_ITER_PROXY | UCG_ALGO_RD_ITER_EXTRA

record ucg_algo_rd_iter =
  rd_type :: ucg_algo_rd_iter_type
  rd_max_idx :: c_int
  rd_n_base :: c_int
  rd_myrank :: ucg_rank_t
  rd_idx :: c_int
  rd_current :: ucg_rank_t
  rd_new_rank :: c_int
  rd_proxy_num :: c_int

definition rd_real_rank :: "c_int \<Rightarrow> c_int \<Rightarrow> ucg_rank_t" where
  "rd_real_rank proxy_num new_current =
     (if new_current < proxy_num then new_current * 2 + 1 else new_current + proxy_num)"

definition ucg_algo_rd_iter_update :: "ucg_algo_rd_iter \<Rightarrow> ucg_algo_rd_iter" where
  "ucg_algo_rd_iter_update it =
     (if rd_idx it = rd_max_idx it then it\<lparr>rd_current := UCG_INVALID_RANK\<rparr>
      else case rd_type it of
        UCG_ALGO_RD_ITER_PROXY \<Rightarrow>
          if rd_idx it = 0 \<or> rd_idx it = rd_max_idx it - 1
          then it\<lparr>rd_current := rd_myrank it - 1\<rparr>
          else it\<lparr>rd_current := rd_real_rank (rd_proxy_num it) (rd_new_rank it XOR UCG_BIT (rd_idx it - 1))\<rparr>
      | UCG_ALGO_RD_ITER_BASE \<Rightarrow>
          it\<lparr>rd_current := rd_real_rank (rd_proxy_num it) (rd_new_rank it XOR UCG_BIT (rd_idx it))\<rparr>
      | UCG_ALGO_RD_ITER_EXTRA \<Rightarrow> it\<lparr>rd_current := rd_myrank it + 1\<rparr>)"

text \<open>
  \<open>ucg_algo_rd_iter_init\<close> fills a caller's struct: an EXTRA rank keeps whatever \<open>new_rank\<close> was there,
  so the struct before the call is an argument.
\<close>

definition ucg_algo_rd_iter_init :: "ucg_algo_rd_iter \<Rightarrow> c_int \<Rightarrow> ucg_rank_t \<Rightarrow> ucg_algo_rd_iter" where
  "ucg_algo_rd_iter_init it gsize myrank =
     (let n_base = UCG_BIT (ucg_ilog2 gsize);
          proxy_num = gsize - n_base;
          max_idx = ucg_ilog2 n_base;
          it = (if myrank < proxy_num * 2 then
                  if myrank smod 2 = 0
                  then it\<lparr>rd_type := UCG_ALGO_RD_ITER_EXTRA, rd_max_idx := 2\<rparr>
                  else it\<lparr>rd_type := UCG_ALGO_RD_ITER_PROXY, rd_max_idx := max_idx + 2,
                          rd_new_rank := drop_bit 1 myrank\<rparr>
                else it\<lparr>rd_type := UCG_ALGO_RD_ITER_BASE, rd_max_idx := max_idx,
                        rd_new_rank := myrank - proxy_num\<rparr>)
      in ucg_algo_rd_iter_update
           (it\<lparr>rd_n_base := n_base, rd_myrank := myrank, rd_idx := 0, rd_proxy_num := proxy_num\<rparr>))"

definition ucg_algo_rd_iter_reset :: "ucg_algo_rd_iter \<Rightarrow> ucg_algo_rd_iter" where
  "ucg_algo_rd_iter_reset it = ucg_algo_rd_iter_update (it\<lparr>rd_idx := 0\<rparr>)"

definition ucg_algo_rd_iter_inc :: "ucg_algo_rd_iter \<Rightarrow> ucg_algo_rd_iter" where
  "ucg_algo_rd_iter_inc it = ucg_algo_rd_iter_update (it\<lparr>rd_idx := rd_idx it + 1\<rparr>)"

definition ucg_algo_rd_iter_value :: "ucg_algo_rd_iter \<Rightarrow> ucg_rank_t" where
  "ucg_algo_rd_iter_value it = rd_current it"

definition ucg_algo_rd_iter_base_value :: "ucg_algo_rd_iter \<Rightarrow> ucg_rank_t" where
  "ucg_algo_rd_iter_base_value it =
     (if (rd_type it = UCG_ALGO_RD_ITER_PROXY \<and> (rd_idx it = 0 \<or> rd_idx it = rd_max_idx it - 1))
         \<or> rd_type it = UCG_ALGO_RD_ITER_EXTRA
      then UCG_INVALID_RANK else rd_current it)"

definition ucg_algo_rd_iter_value_inc :: "ucg_algo_rd_iter \<Rightarrow> ucg_rank_t \<times> ucg_algo_rd_iter" where
  "ucg_algo_rd_iter_value_inc it = (rd_current it, ucg_algo_rd_iter_inc it)"

subsection \<open>Recursive halving\<close>

text \<open>The rank type is a bit mask: BASE 1, PROXY 2, EXTRA 4.\<close>

definition UCG_ALGO_RH_RANK_BASE :: int where "UCG_ALGO_RH_RANK_BASE = 1"
definition UCG_ALGO_RH_RANK_PROXY :: int where "UCG_ALGO_RH_RANK_PROXY = 2"
definition UCG_ALGO_RH_RANK_EXTRA :: int where "UCG_ALGO_RH_RANK_EXTRA = 4"

record ucg_algo_rh_iterator =
  rh_adjust_group_size :: c_int
  rh_my_rank :: ucg_rank_t
  rh_my_type :: int
  rh_iteration :: c_int
  rh_max_iteration :: c_int

definition ucg_algo_rh_iter_init :: "c_int \<Rightarrow> ucg_rank_t \<Rightarrow> ucg_algo_rh_iterator" where
  "ucg_algo_rh_iter_init group_size my_rank =
     (let adjust_group_size = UCG_BIT (ucg_ilog2 group_size)
      in \<lparr>rh_adjust_group_size = adjust_group_size, rh_my_rank = my_rank,
          rh_my_type =
            (if my_rank < adjust_group_size then
               if my_rank < group_size - adjust_group_size
               then UCG_ALGO_RH_RANK_BASE OR UCG_ALGO_RH_RANK_PROXY
               else UCG_ALGO_RH_RANK_BASE
             else UCG_ALGO_RH_RANK_EXTRA),
          rh_iteration = 0, rh_max_iteration = ucg_ilog2 adjust_group_size\<rparr>)"

definition ucg_algo_rh_get_extra :: "ucg_algo_rh_iterator \<Rightarrow> ucg_rank_t" where
  "ucg_algo_rh_get_extra p =
     (if rh_my_type p AND UCG_ALGO_RH_RANK_PROXY = 0 then UCG_INVALID_RANK
      else rh_my_rank p + rh_adjust_group_size p)"

definition ucg_algo_rh_get_proxy :: "ucg_algo_rh_iterator \<Rightarrow> ucg_rank_t" where
  "ucg_algo_rh_get_proxy p =
     (if rh_my_type p AND UCG_ALGO_RH_RANK_EXTRA = 0 then UCG_INVALID_RANK
      else rh_my_rank p - rh_adjust_group_size p)"

definition ucg_algo_rh_get_next_base :: "ucg_algo_rh_iterator \<Rightarrow> ucg_rank_t \<times> ucg_algo_rh_iterator" where
  "ucg_algo_rh_get_next_base p =
     (if rh_my_type p AND UCG_ALGO_RH_RANK_BASE = 0 \<or> rh_iteration p \<ge> rh_max_iteration p
      then (UCG_INVALID_RANK, p)
      else (rh_my_rank p XOR UCG_BIT (rh_max_iteration p - rh_iteration p - 1),
            p\<lparr>rh_iteration := rh_iteration p + 1\<rparr>))"

end
