(* ===== verification/Rd_Spec.thy ===== *)
theory Rd_Spec
  imports Algo_Rd
begin

text \<open>
  Recursive doubling and halving as exchange schedules: the iterators of all ranks fit together, and
  an allreduce driven by them folds the contribution of every rank exactly once.
\<close>

subsection \<open>Walking the doubling iterator\<close>

definition rd_at :: "ucg_algo_rd_iter \<Rightarrow> c_int \<Rightarrow> ucg_rank_t \<Rightarrow> nat \<Rightarrow> ucg_algo_rd_iter" where
  "rd_at it0 n r k = (ucg_algo_rd_iter_inc ^^ k) (ucg_algo_rd_iter_init it0 n r)"

text \<open>The value an update puts into \<open>current\<close>; nothing else changes.\<close>

definition rd_next :: "ucg_algo_rd_iter \<Rightarrow> ucg_rank_t" where
  "rd_next it =
     (if rd_idx it = rd_max_idx it then UCG_INVALID_RANK
      else case rd_type it of
        UCG_ALGO_RD_ITER_PROXY \<Rightarrow>
          if rd_idx it = 0 \<or> rd_idx it = rd_max_idx it - 1 then rd_myrank it - 1
          else rd_real_rank (rd_proxy_num it) (rd_new_rank it XOR UCG_BIT (rd_idx it - 1))
      | UCG_ALGO_RD_ITER_BASE \<Rightarrow> rd_real_rank (rd_proxy_num it) (rd_new_rank it XOR UCG_BIT (rd_idx it))
      | UCG_ALGO_RD_ITER_EXTRA \<Rightarrow> rd_myrank it + 1)"

lemma rd_update: "ucg_algo_rd_iter_update it = it\<lparr>rd_current := rd_next it\<rparr>"
  by (cases "rd_type it") (simp_all add: ucg_algo_rd_iter_update_def rd_next_def)

lemma rd_inc: "ucg_algo_rd_iter_inc it = it\<lparr>rd_idx := rd_idx it + 1, rd_current := rd_next (it\<lparr>rd_idx := rd_idx it + 1\<rparr>)\<rparr>"
  by (simp add: ucg_algo_rd_iter_inc_def rd_update)

lemma rd_next_current [simp]:
  "rd_next (it\<lparr>rd_idx := i, rd_current := c\<rparr>) = rd_next (it\<lparr>rd_idx := i\<rparr>)"
  "rd_next (it\<lparr>rd_current := c, rd_idx := i\<rparr>) = rd_next (it\<lparr>rd_idx := i\<rparr>)"
  by (cases "rd_type it"; simp add: rd_next_def)+

lemma rd_inc_iterate:
  "(ucg_algo_rd_iter_inc ^^ k) (it\<lparr>rd_current := rd_next it\<rparr>)
     = it\<lparr>rd_idx := rd_idx it + int k, rd_current := rd_next (it\<lparr>rd_idx := rd_idx it + int k\<rparr>)\<rparr>"
proof (induction k)
  case 0
  show ?case by simp
next
  case (Suc k)
  then show ?case by (simp add: rd_inc add.commute add.left_commute)
qed

definition rd_args :: "c_int \<Rightarrow> bool" where
  "rd_args n \<longleftrightarrow> 1 \<le> n \<and> n < 2 ^ 31"

definition rd_rounds :: "c_int \<Rightarrow> nat" where "rd_rounds n = nat (ucg_ilog2 n)"
definition rd_proxies :: "c_int \<Rightarrow> c_int" where "rd_proxies n = n - 2 ^ rd_rounds n"

lemma rd_rounds_bounds:
  assumes "rd_args n"
  shows "2 ^ rd_rounds n \<le> n" and "n < 2 * 2 ^ rd_rounds n" and "rd_rounds n < 64"
    and "0 \<le> rd_proxies n" and "rd_proxies n < 2 ^ rd_rounds n"
    and "ucg_ilog2 (UCG_BIT (ucg_ilog2 n)) = int (rd_rounds n)"
proof -
  have n: "1 \<le> n" "n < 2 ^ 64" using assms by (simp_all add: rd_args_def)
  note b = ucg_ilog2_bounds [OF n]
  show le: "2 ^ rd_rounds n \<le> n" and lt: "n < 2 * 2 ^ rd_rounds n" using b by (simp_all add: rd_rounds_def)
  have "(2 :: int) ^ rd_rounds n < 2 ^ 64" using le n(2) by linarith
  then show "rd_rounds n < 64" by (rule power_less_imp_less_exp [rotated]) simp
  then show "ucg_ilog2 (UCG_BIT (ucg_ilog2 n)) = int (rd_rounds n)"
    by (simp add: ucg_ilog2_exp flip: rd_rounds_def)
  show "0 \<le> rd_proxies n" and "rd_proxies n < 2 ^ rd_rounds n" using le lt by (simp_all add: rd_proxies_def)
qed

lemma rd_proxies_half: "rd_args n \<Longrightarrow> rd_proxies n * 2 \<le> n"
  using rd_rounds_bounds(2) [of n] by (simp add: rd_proxies_def)

text \<open>The three kinds of ranks, and the code of those that take part in the base rounds.\<close>

definition rd_extra :: "c_int \<Rightarrow> ucg_rank_t \<Rightarrow> bool" where
  "rd_extra n r \<longleftrightarrow> r < rd_proxies n * 2 \<and> even r"

definition rd_proxy :: "c_int \<Rightarrow> ucg_rank_t \<Rightarrow> bool" where
  "rd_proxy n r \<longleftrightarrow> r < rd_proxies n * 2 \<and> odd r"

definition rd_members :: "c_int \<Rightarrow> ucg_rank_t set" where
  "rd_members n = {r. 0 \<le> r \<and> r < n \<and> \<not> rd_extra n r}"

definition rd_code :: "c_int \<Rightarrow> ucg_rank_t \<Rightarrow> c_int" where
  "rd_code n r = (if r < rd_proxies n * 2 then r div 2 else r - rd_proxies n)"

lemma rd_code_bij:
  assumes "rd_args n"
  shows "bij_betw (rd_code n) (rd_members n) {0..<2 ^ rd_rounds n}"
    and "\<And>x. 0 \<le> x \<Longrightarrow> x < 2 ^ rd_rounds n \<Longrightarrow>
           rd_real_rank (rd_proxies n) x \<in> rd_members n \<and> rd_code n (rd_real_rank (rd_proxies n) x) = x"
proof -
  note b = rd_rounds_bounds [OF assms]
  have n: "n = rd_proxies n + 2 ^ rd_rounds n" by (simp add: rd_proxies_def)
  show *: "rd_real_rank (rd_proxies n) x \<in> rd_members n \<and> rd_code n (rd_real_rank (rd_proxies n) x) = x"
    if "0 \<le> x" "x < 2 ^ rd_rounds n" for x
    using that b(4,5) n
    by (auto simp: rd_real_rank_def rd_members_def rd_extra_def rd_code_def)
  show "bij_betw (rd_code n) (rd_members n) {0..<2 ^ rd_rounds n}"
  proof (rule bij_betw_byWitness [where f' = "rd_real_rank (rd_proxies n)"])
    show "\<forall>r \<in> rd_members n. rd_real_rank (rd_proxies n) (rd_code n r) = r"
      using b(4) by (auto simp: rd_real_rank_def rd_members_def rd_extra_def rd_code_def elim!: oddE)
    show "\<forall>x \<in> {0..<2 ^ rd_rounds n}. rd_code n (rd_real_rank (rd_proxies n) x) = x" using * by simp
    show "rd_code n ` rd_members n \<subseteq> {0..<2 ^ rd_rounds n}"
      using b(4,5) n by (auto simp: rd_members_def rd_extra_def rd_code_def)
    show "rd_real_rank (rd_proxies n) ` {0..<2 ^ rd_rounds n} \<subseteq> rd_members n" using * by auto
  qed
qed

text \<open>What a rank's iterator holds after \<open>k\<close> steps.\<close>

definition rd_start :: "ucg_algo_rd_iter \<Rightarrow> c_int \<Rightarrow> ucg_rank_t \<Rightarrow> ucg_algo_rd_iter" where
  "rd_start it0 n r =
     (if rd_extra n r then it0\<lparr>rd_type := UCG_ALGO_RD_ITER_EXTRA, rd_max_idx := 2\<rparr>
      else if rd_proxy n r
      then it0\<lparr>rd_type := UCG_ALGO_RD_ITER_PROXY, rd_max_idx := int (rd_rounds n) + 2, rd_new_rank := rd_code n r\<rparr>
      else it0\<lparr>rd_type := UCG_ALGO_RD_ITER_BASE, rd_max_idx := int (rd_rounds n), rd_new_rank := rd_code n r\<rparr>)
        \<lparr>rd_n_base := 2 ^ rd_rounds n, rd_myrank := r, rd_idx := 0, rd_proxy_num := rd_proxies n\<rparr>"

lemma rd_init:
  assumes "rd_args n" and "0 \<le> r"
  shows "ucg_algo_rd_iter_init it0 n r = (rd_start it0 n r)\<lparr>rd_current := rd_next (rd_start it0 n r)\<rparr>"
proof -
  have p: "n - 2 ^ rd_rounds n = rd_proxies n" by (simp add: rd_proxies_def)
  have m: "ucg_ilog2 (2 ^ rd_rounds n) = int (rd_rounds n)" "UCG_BIT (ucg_ilog2 n) = 2 ^ rd_rounds n"
    using rd_rounds_bounds(6) [OF assms(1)] by (simp_all add: rd_rounds_def)
  note d = rd_update rd_start_def rd_extra_def rd_proxy_def rd_code_def
  show ?thesis
  proof (cases "r < rd_proxies n * 2")
    case True
    then show ?thesis unfolding ucg_algo_rd_iter_init_def Let_def m p using assms(2)
      by (cases "even r") (simp_all add: d smod_nonneg drop_bit_eq_div even_iff_mod_2_eq_zero odd_iff_mod_2_eq_one)
  next
    case False
    then show ?thesis unfolding ucg_algo_rd_iter_init_def Let_def m p by (simp add: d)
  qed
qed

lemma rd_at:
  assumes "rd_args n" and "0 \<le> r"
  shows "rd_at it0 n r k = (rd_start it0 n r)\<lparr>rd_idx := int k,
           rd_current := rd_next ((rd_start it0 n r)\<lparr>rd_idx := int k\<rparr>)\<rparr>"
proof -
  have "rd_idx (rd_start it0 n r) = 0" by (simp add: rd_start_def)
  then show ?thesis unfolding rd_at_def rd_init [OF assms] rd_inc_iterate by simp
qed

lemma rd_at_extra:
  assumes "rd_args n" and "0 \<le> r" and "rd_extra n r"
  shows "rd_type (rd_at it0 n r k) = UCG_ALGO_RD_ITER_EXTRA" and "rd_max_idx (rd_at it0 n r k) = 2"
    and "rd_idx (rd_at it0 n r k) = int k"
    and "rd_current (rd_at it0 n r k) = (if k = 2 then UCG_INVALID_RANK else r + 1)"
  using assms(3) by (simp_all add: rd_at [OF assms(1,2)] rd_start_def rd_next_def)

lemma rd_at_proxy:
  assumes "rd_args n" and "0 \<le> r" and "rd_proxy n r"
  shows "rd_type (rd_at it0 n r k) = UCG_ALGO_RD_ITER_PROXY" and "rd_max_idx (rd_at it0 n r k) = int (rd_rounds n) + 2"
    and "rd_idx (rd_at it0 n r k) = int k"
    and "rd_current (rd_at it0 n r k) =
           (if k = rd_rounds n + 2 then UCG_INVALID_RANK
            else if k = 0 \<or> k = rd_rounds n + 1 then r - 1
            else rd_real_rank (rd_proxies n) (rd_code n r XOR 2 ^ (k - 1)))"
proof -
  have "\<not> rd_extra n r" using assms(3) by (simp add: rd_extra_def rd_proxy_def)
  then have s: "rd_start it0 n r = it0\<lparr>rd_type := UCG_ALGO_RD_ITER_PROXY, rd_max_idx := int (rd_rounds n) + 2,
      rd_new_rank := rd_code n r, rd_n_base := 2 ^ rd_rounds n, rd_myrank := r, rd_idx := 0, rd_proxy_num := rd_proxies n\<rparr>"
    using assms(3) by (simp add: rd_start_def)
  show "rd_type (rd_at it0 n r k) = UCG_ALGO_RD_ITER_PROXY" "rd_max_idx (rd_at it0 n r k) = int (rd_rounds n) + 2"
    "rd_idx (rd_at it0 n r k) = int k"
    by (simp_all add: rd_at [OF assms(1,2)] s)
  have "nat (int k - 1) = k - 1" "int k = int (rd_rounds n) + 2 \<longleftrightarrow> k = rd_rounds n + 2"
    "int k = int (rd_rounds n) + 1 \<longleftrightarrow> k = rd_rounds n + 1" by linarith+
  then show "rd_current (rd_at it0 n r k) =
           (if k = rd_rounds n + 2 then UCG_INVALID_RANK
            else if k = 0 \<or> k = rd_rounds n + 1 then r - 1
            else rd_real_rank (rd_proxies n) (rd_code n r XOR 2 ^ (k - 1)))"
    by (simp add: rd_at [OF assms(1,2)] s rd_next_def)
qed

lemma rd_at_base:
  assumes "rd_args n" and "0 \<le> r" and "\<not> rd_extra n r" and "\<not> rd_proxy n r"
  shows "rd_type (rd_at it0 n r k) = UCG_ALGO_RD_ITER_BASE" and "rd_max_idx (rd_at it0 n r k) = int (rd_rounds n)"
    and "rd_idx (rd_at it0 n r k) = int k"
    and "rd_current (rd_at it0 n r k) =
           (if k = rd_rounds n then UCG_INVALID_RANK
            else rd_real_rank (rd_proxies n) (rd_code n r XOR 2 ^ k))"
  using assms(3,4) by (simp_all add: rd_at [OF assms(1,2)] rd_start_def rd_next_def)


subsection \<open>Doubling is an exchange schedule\<close>

definition rd_peer :: "ucg_algo_rd_iter \<Rightarrow> c_int \<Rightarrow> nat \<Rightarrow> ucg_rank_t \<Rightarrow> ucg_rank_t" where
  "rd_peer it0 n i r =
     ucg_algo_rd_iter_base_value
       (rd_at it0 n r (if rd_type (rd_at it0 n r 0) = UCG_ALGO_RD_ITER_PROXY then Suc i else i))"

lemma rd_code_range:
  assumes "rd_args n" and "r \<in> rd_members n"
  shows "0 \<le> rd_code n r" and "rd_code n r < 2 ^ rd_rounds n"
  using rd_code_bij(1) [OF assms(1)] assms(2) by (auto simp: bij_betw_def)

lemma xor_exp_range:
  fixes x :: int
  assumes "0 \<le> x" and "x < 2 ^ k" and "i < k"
  shows "0 \<le> x XOR 2 ^ i" and "x XOR 2 ^ i < 2 ^ k"
  using assms XOR_upper [of x k "2 ^ i"] power_strict_increasing [OF assms(3), of "2 :: int"]
  by simp_all

lemma rd_peer_base:
  assumes n: "rd_args n" and r: "r \<in> rd_members n" and i: "i < rd_rounds n"
  shows "rd_peer it0 n i r = rd_real_rank (rd_proxies n) (rd_code n r XOR 2 ^ i)"
proof -
  have r': "0 \<le> r" "\<not> rd_extra n r" using r by (simp_all add: rd_members_def)
  show ?thesis
  proof (cases "rd_proxy n r")
    case True
    note p = rd_at_proxy [OF n r'(1) True]
    show ?thesis using i
      by (simp add: rd_peer_def p ucg_algo_rd_iter_base_value_def)
  next
    case False
    note p = rd_at_base [OF n r'(1,2) False]
    show ?thesis using i by (simp add: rd_peer_def p ucg_algo_rd_iter_base_value_def)
  qed
qed

interpretation rd: exchange "\<lambda>(it0 :: ucg_algo_rd_iter, n). rd_args n" "\<lambda>(it0, n). rd_members n"
  "\<lambda>(it0, n). rd_rounds n" "\<lambda>_ i. i" "\<lambda>(it0, n). rd_code n" "\<lambda>(it0, n). rd_peer it0 n"
proof (unfold_locales, goal_cases)
  case (1 g) then show ?case by (simp add: rd_code_bij split: prod.splits)
next
  case (2 g) then show ?case by (simp add: bij_betw_def)
next
  case (3 g i r)
  then show ?case
    using rd_code_bij(2) xor_exp_range [OF rd_code_range] by (simp add: rd_peer_base split: prod.splits)
next
  case (4 g i r)
  then show ?case
    using rd_code_bij(2) xor_exp_range [OF rd_code_range] by (simp add: rd_peer_base split: prod.splits)
qed

definition rd_blank :: ucg_algo_rd_iter where
  "rd_blank = \<lparr>rd_type = UCG_ALGO_RD_ITER_BASE, rd_max_idx = 0, rd_n_base = 0, rd_myrank = 0, rd_idx = 0,
     rd_current = 0, rd_new_rank = 0, rd_proxy_num = 0\<rparr>"

text \<open>
  An allreduce along the iterator: proxies first take the value of their extra rank, then the base
  ranks exchange, then the extra ranks are handed the result.
\<close>

fun rd_fold :: "ucg_algo_rd_iter \<Rightarrow> c_int \<Rightarrow> (ucg_rank_t \<Rightarrow> 'a :: comm_monoid_add) \<Rightarrow> nat \<Rightarrow> ucg_rank_t \<Rightarrow> 'a" where
  "rd_fold it0 n v 0 r = v r"
| "rd_fold it0 n v (Suc k) r = rd_fold it0 n v k r + rd_fold it0 n v k (rd_peer it0 n k r)"

definition rd_pre :: "ucg_algo_rd_iter \<Rightarrow> c_int \<Rightarrow> (ucg_rank_t \<Rightarrow> 'a :: comm_monoid_add) \<Rightarrow> ucg_rank_t \<Rightarrow> 'a" where
  "rd_pre it0 n v r =
     (if rd_type (rd_at it0 n r 0) = UCG_ALGO_RD_ITER_PROXY
      then v r + v (ucg_algo_rd_iter_value (rd_at it0 n r 0)) else v r)"

definition rd_allreduce :: "ucg_algo_rd_iter \<Rightarrow> c_int \<Rightarrow> (ucg_rank_t \<Rightarrow> 'a :: comm_monoid_add) \<Rightarrow> ucg_rank_t \<Rightarrow> 'a" where
  "rd_allreduce it0 n v r =
     rd_fold it0 n (rd_pre it0 n v) (rd_rounds n)
       (if rd_type (rd_at it0 n r 0) = UCG_ALGO_RD_ITER_EXTRA
        then ucg_algo_rd_iter_value (rd_at it0 n r 1) else r)"

lemma rd_fold_folded: "rd_fold it0 n v k r = rd.folded (it0, n) v k r"
  by (induction k arbitrary: r) simp_all

lemma rd_type_at:
  assumes "rd_args n" and "0 \<le> r"
  shows "rd_type (rd_at it0 n r k) =
           (if rd_extra n r then UCG_ALGO_RD_ITER_EXTRA
            else if rd_proxy n r then UCG_ALGO_RD_ITER_PROXY else UCG_ALGO_RD_ITER_BASE)"
  using rd_at_extra [OF assms] rd_at_proxy [OF assms] rd_at_base [OF assms] by simp

lemma rd_pre_sum:
  assumes n: "rd_args n"
  shows "(\<Sum>r \<in> rd_members n. rd_pre it0 n v r) = (\<Sum>r \<in> {0..<n}. v r)"
proof -
  note b = rd_rounds_bounds [OF n]
  let ?P = "{r. 0 \<le> r \<and> rd_proxy n r}" and ?E = "{r. 0 \<le> r \<and> rd_extra n r}"
  have le: "rd_proxies n * 2 \<le> n" by (rule rd_proxies_half [OF n])
  have fin: "finite (rd_members n)" using rd.finite_members [of "(it0, n)"] n by simp
  have PM: "?P \<subseteq> rd_members n" using le by (auto simp: rd_members_def rd_proxy_def rd_extra_def)
  have E: "?E \<subseteq> {0..<n}" using le by (auto simp: rd_extra_def)
  have split: "{0..<n} = rd_members n \<union> ?E" "rd_members n \<inter> ?E = {}" using E by (auto simp: rd_members_def)
  have bij: "bij_betw (\<lambda>r. r - 1) ?P ?E"
    by (rule bij_betw_byWitness [where f' = "\<lambda>r. r + 1"]) (auto simp: rd_proxy_def rd_extra_def, presburger)
  have pre: "rd_pre it0 n v r = v r + (if r \<in> ?P then v (r - 1) else 0)" if "r \<in> rd_members n" for r
  proof -
    have "0 \<le> r" "\<not> rd_extra n r" using that by (simp_all add: rd_members_def)
    then show ?thesis using rd_at_proxy [OF n, of r it0 0]
      by (simp add: rd_pre_def rd_type_at [OF n] ucg_algo_rd_iter_value_def)
  qed
  have "(\<Sum>r \<in> rd_members n. rd_pre it0 n v r) = (\<Sum>r \<in> rd_members n. v r) + (\<Sum>r \<in> rd_members n. if r \<in> ?P then v (r - 1) else 0)"
    by (simp only: sum.distrib [symmetric]) (rule sum.cong [OF refl pre])
  also have "(\<Sum>r \<in> rd_members n. if r \<in> ?P then v (r - 1) else 0) = (\<Sum>r \<in> ?P. v (r - 1))"
    using fin PM by (intro sum.mono_neutral_cong_right) auto
  also have "\<dots> = (\<Sum>r \<in> ?E. v r)" by (rule sum.reindex_bij_betw [OF bij])
  also have "(\<Sum>r \<in> rd_members n. v r) + \<dots> = (\<Sum>r \<in> {0..<n}. v r)"
    unfolding split(1) using fin split(2) finite_subset [OF E] by (intro sum.union_disjoint [symmetric]) auto
  finally show ?thesis .
qed

text \<open>
  C3: an allreduce that follows the recursive doubling iterators of \<open>n\<close> ranks gives every rank the
  sum of the contributions of all ranks, each counted exactly once, for every commutative reduction.
\<close>

theorem rd_allreduce_exact:
  assumes "rd_args n" and "0 \<le> r" and "r < n"
  shows "rd_allreduce it0 n v r = (\<Sum>s \<in> {0..<n}. v s)"
proof -
  let ?r = "if rd_type (rd_at it0 n r 0) = UCG_ALGO_RD_ITER_EXTRA
        then ucg_algo_rd_iter_value (rd_at it0 n r 1) else r"
  have le: "rd_proxies n * 2 \<le> n" by (rule rd_proxies_half [OF assms(1)])
  have "?r \<in> rd_members n"
  proof (cases "rd_extra n r")
    case True
    then show ?thesis using assms le rd_at_extra [OF assms(1,2) True, of it0]
      by (auto simp: ucg_algo_rd_iter_value_def rd_members_def rd_extra_def elim!: evenE)
  qed (use assms in \<open>simp add: rd_type_at rd_members_def\<close>)
  then have "rd.folded (it0, n) (rd_pre it0 n v) (rd_rounds n) ?r = (\<Sum>s \<in> rd_members n. rd_pre it0 n v s)"
    using rd.folded_all [of "(it0, n)" ?r] assms(1) by (simp split del: if_split)
  then show ?thesis unfolding rd_allreduce_def rd_fold_folded rd_pre_sum [OF assms(1)] .
qed

lemma rd_allreduce_exact_witness:
  "rd_allreduce rd_blank 5 (\<lambda>s. s * s) 2 = (\<Sum>s \<in> {0..<5}. s * (s :: int))"
  by (rule rd_allreduce_exact) (simp_all add: rd_args_def)


subsection \<open>Peers agree on who talks to whom, and when\<close>

text \<open>
  The phase of a step: 0 is the exchange of the extra ranks' values, \<open>Suc i\<close> the base round \<open>i\<close>, and the
  last one hands the result back.
\<close>

definition rd_phase :: "c_int \<Rightarrow> ucg_algo_rd_iter \<Rightarrow> nat" where
  "rd_phase n it =
     (case rd_type it of
        UCG_ALGO_RD_ITER_EXTRA \<Rightarrow> if rd_idx it = 0 then 0 else Suc (rd_rounds n)
      | UCG_ALGO_RD_ITER_PROXY \<Rightarrow> nat (rd_idx it)
      | UCG_ALGO_RD_ITER_BASE \<Rightarrow> Suc (nat (rd_idx it)))"

lemma rd_proxy_member: "rd_args n \<Longrightarrow> 0 \<le> r \<Longrightarrow> rd_proxy n r \<Longrightarrow> r \<in> rd_members n"
  using rd_proxies_half [of n] by (auto simp: rd_members_def rd_proxy_def rd_extra_def)

lemma rd_base_step:
  assumes n: "rd_args n" and r: "r \<in> rd_members n" and i: "i < rd_rounds n"
  obtains j where "int j < rd_max_idx (rd_at it0 n r j)"
    and "ucg_algo_rd_iter_value (rd_at it0 n r j) = rd_peer it0 n i r"
    and "rd_phase n (rd_at it0 n r j) = Suc i"
    and "j = (if rd_proxy n r then Suc i else i)"
proof (cases "rd_proxy n r")
  case True
  have "0 \<le> r" using r by (simp add: rd_members_def)
  note p = rd_at_proxy [OF n this True]
  show thesis
    by (rule that [of "Suc i"]) (use i True rd_peer_base [OF n r i] in \<open>simp_all add: p ucg_algo_rd_iter_value_def rd_phase_def\<close>)
next
  case False
  have "0 \<le> r" "\<not> rd_extra n r" using r by (simp_all add: rd_members_def)
  note p = rd_at_base [OF n this False]
  show thesis
    by (rule that [of i]) (use i False rd_peer_base [OF n r i] in \<open>simp_all add: p ucg_algo_rd_iter_value_def rd_phase_def\<close>)
qed

lemma rd_base_pair:
  assumes n: "rd_args n" and r: "r \<in> rd_members n" and i: "i < rd_rounds n"
    and qd: "q = rd_peer it0 n i r"
  shows "q \<in> rd_members n \<and> q \<noteq> r \<and> (\<exists>j. int j < rd_max_idx (rd_at it0 n q j) \<and>
           ucg_algo_rd_iter_value (rd_at it0 n q j) = r \<and> rd_phase n (rd_at it0 n q j) = Suc i)"
proof -
  have q: "q \<in> rd_members n" using rd.peer_member [of "(it0, n)" i r] assms by simp
  have s: "rd_peer it0 n i q = r" "q \<noteq> r" using rd.peer_symmetric [of "(it0, n)" i r] assms by simp_all
  from rd_base_step [OF n q i, of it0] q s show ?thesis by metis
qed

lemma rd_extra_pair:
  assumes n: "rd_args n" and r: "0 \<le> r" and e: "rd_extra n r" and ph: "ph = 0 \<and> j = 0 \<or> ph = Suc (rd_rounds n) \<and> j = (1 :: nat)"
  shows "ucg_algo_rd_iter_value (rd_at it0 n r j) = r + 1 \<and> rd_phase n (rd_at it0 n r j) = ph \<and>
         int j < rd_max_idx (rd_at it0 n r j)"
  using rd_at_extra [OF n r e] ph by (auto simp: ucg_algo_rd_iter_value_def rd_phase_def)

lemma rd_proxy_pair:
  assumes n: "rd_args n" and r: "0 \<le> r" and e: "rd_proxy n r" and ph: "ph = 0 \<or> ph = Suc (rd_rounds n)"
  shows "ucg_algo_rd_iter_value (rd_at it0 n r ph) = r - 1 \<and> rd_phase n (rd_at it0 n r ph) = ph \<and>
         int ph < rd_max_idx (rd_at it0 n r ph)"
  using rd_at_proxy [OF n r e] ph by (auto simp: ucg_algo_rd_iter_value_def rd_phase_def)

text \<open>
  whatever rank an iterator names at a step, that rank's own iterator names it back in the same
  phase, so every message has its partner; and the walk ends with \<open>UCG_INVALID_RANK\<close>.
\<close>

theorem rd_steps_pair:
  assumes n: "rd_args n" and r: "0 \<le> r" "r < n" and k: "int k < rd_max_idx (rd_at it0 n r k)"
  shows "\<exists>q j. ucg_algo_rd_iter_value (rd_at it0 n r k) = q \<and> 0 \<le> q \<and> q < n \<and> q \<noteq> r \<and>
           int j < rd_max_idx (rd_at it0 n q j) \<and> ucg_algo_rd_iter_value (rd_at it0 n q j) = r \<and>
           rd_phase n (rd_at it0 n q j) = rd_phase n (rd_at it0 n r k) \<and>
           ucg_algo_rd_iter_value (rd_at it0 n r (nat (rd_max_idx (rd_at it0 n r k)))) = UCG_INVALID_RANK"
proof -
  have half: "rd_proxies n * 2 \<le> n" by (rule rd_proxies_half [OF n])
  show ?thesis
  proof (cases "rd_extra n r")
    case True
    note a = rd_at_extra [OF n r(1) True, of it0]
    have p: "rd_proxy n (r + 1)" "r + 1 < n" using True half by (auto simp: rd_extra_def rd_proxy_def elim!: evenE)
    let ?j = "if k = 0 then 0 else Suc (rd_rounds n)"
    have "k = 0 \<or> k = 1" using k by (auto simp: a)
    then have "rd_phase n (rd_at it0 n r k) = ?j" using a by (auto simp: rd_phase_def)
    then show ?thesis using rd_proxy_pair [OF n _ p(1), of ?j it0] r p(2) k
      by (intro exI [of _ "r + 1"] exI [of _ ?j]) (simp add: a ucg_algo_rd_iter_value_def)
  next
    case False
    then have m: "r \<in> rd_members n" using r by (simp add: rd_members_def)
    show ?thesis
    proof (cases "rd_proxy n r")
      case True
      note a = rd_at_proxy [OF n r(1) True, of it0]
      have kl: "k < rd_rounds n + 2" using k by (simp add: a)
      show ?thesis
      proof (cases "k = 0 \<or> k = Suc (rd_rounds n)")
        case edge: True
        have e: "rd_extra n (r - 1)" "0 \<le> r - 1" using True r(1) by (auto simp: rd_extra_def rd_proxy_def elim!: oddE)
        let ?j = "if k = 0 then 0 else (1 :: nat)"
        from rd_extra_pair [OF n e(2,1), of k ?j it0] rd_proxy_pair [OF n r(1) True edge, of it0] edge r e
        show ?thesis by (intro exI [of _ "r - 1"] exI [of _ ?j]) (auto simp: a ucg_algo_rd_iter_value_def)
      next
        case inner: False
        then obtain i where i: "k = Suc i" "i < rd_rounds n" using kl by (cases k) auto
        have "ucg_algo_rd_iter_value (rd_at it0 n r k) = rd_peer it0 n i r"
          using i rd_peer_base [OF n m i(2), of it0] by (simp add: a ucg_algo_rd_iter_value_def)
        moreover have "rd_phase n (rd_at it0 n r k) = Suc i" using i by (simp add: a rd_phase_def)
        ultimately show ?thesis using rd_base_pair [OF n m i(2) refl, of it0]
          by (auto simp: rd_members_def a ucg_algo_rd_iter_value_def)
      qed
    next
      case base: False
      note a = rd_at_base [OF n r(1) False base, of it0]
      have i: "k < rd_rounds n" using k by (simp add: a)
      have "ucg_algo_rd_iter_value (rd_at it0 n r k) = rd_peer it0 n k r"
        using i rd_peer_base [OF n m i, of it0] by (simp add: a ucg_algo_rd_iter_value_def)
      moreover have "rd_phase n (rd_at it0 n r k) = Suc k" by (simp add: a rd_phase_def)
      ultimately show ?thesis using rd_base_pair [OF n m i refl, of it0]
        by (auto simp: rd_members_def a ucg_algo_rd_iter_value_def)
    qed
  qed
qed

lemma rd_steps_pair_witness:
  "\<exists>q j. ucg_algo_rd_iter_value (rd_at rd_blank 5 1 2) = q \<and> 0 \<le> q \<and> q < 5 \<and> q \<noteq> 1 \<and>
     int j < rd_max_idx (rd_at rd_blank 5 q j) \<and> ucg_algo_rd_iter_value (rd_at rd_blank 5 q j) = 1 \<and>
     rd_phase 5 (rd_at rd_blank 5 q j) = rd_phase 5 (rd_at rd_blank 5 1 2) \<and>
     ucg_algo_rd_iter_value (rd_at rd_blank 5 1 (nat (rd_max_idx (rd_at rd_blank 5 1 2)))) = UCG_INVALID_RANK"
proof (rule rd_steps_pair)
  have "rd_max_idx (rd_at rd_blank 5 1 2) = 4" by code_simp
  then show "int 2 < rd_max_idx (rd_at rd_blank 5 1 2)" by simp
qed (simp_all add: rd_args_def)

subsection \<open>Recursive halving\<close>

text \<open>The peers of a base rank, as its collective asks for them one after the other.\<close>

definition rh_at :: "c_int \<Rightarrow> ucg_rank_t \<Rightarrow> nat \<Rightarrow> ucg_algo_rh_iterator" where
  "rh_at n r k = ((\<lambda>p. snd (ucg_algo_rh_get_next_base p)) ^^ k) (ucg_algo_rh_iter_init n r)"

definition rh_peer :: "c_int \<Rightarrow> nat \<Rightarrow> ucg_rank_t \<Rightarrow> ucg_rank_t" where
  "rh_peer n i r = fst (ucg_algo_rh_get_next_base (rh_at n r i))"

definition rh_members :: "c_int \<Rightarrow> ucg_rank_t set" where
  "rh_members n = {0..<2 ^ rd_rounds n}"

lemma rh_init:
  assumes "rd_args n"
  shows "ucg_algo_rh_iter_init n r =
    \<lparr>rh_adjust_group_size = 2 ^ rd_rounds n, rh_my_rank = r,
     rh_my_type = (if r < 2 ^ rd_rounds n then if r < n - 2 ^ rd_rounds n then 3 else 1 else 4),
     rh_iteration = 0, rh_max_iteration = int (rd_rounds n)\<rparr>"
proof -
  have "UCG_BIT (ucg_ilog2 n) = 2 ^ rd_rounds n" by (simp add: rd_rounds_def)
  moreover have "ucg_ilog2 (2 ^ rd_rounds n) = int (rd_rounds n)"
    using rd_rounds_bounds(3) [OF assms] by (rule ucg_ilog2_exp)
  ultimately show ?thesis
    by (simp add: ucg_algo_rh_iter_init_def Let_def UCG_ALGO_RH_RANK_BASE_def
        UCG_ALGO_RH_RANK_PROXY_def UCG_ALGO_RH_RANK_EXTRA_def)
qed

lemma rh_at_base:
  assumes "rd_args n" and "r \<in> rh_members n"
  shows "rh_at n r k = (ucg_algo_rh_iter_init n r)\<lparr>rh_iteration := min (int k) (int (rd_rounds n))\<rparr>"
proof (induction k)
  case 0
  then show ?case by (simp add: rh_at_def rh_init [OF assms(1)])
next
  case (Suc k)
  have "rh_at n r (Suc k) = snd (ucg_algo_rh_get_next_base (rh_at n r k))" by (simp add: rh_at_def)
  also have "\<dots> = (ucg_algo_rh_iter_init n r)\<lparr>rh_iteration := min (int (Suc k)) (int (rd_rounds n))\<rparr>"
    using assms(2) unfolding Suc
    by (auto simp: ucg_algo_rh_get_next_base_def rh_init [OF assms(1)] rh_members_def UCG_ALGO_RH_RANK_BASE_def)
  finally show ?case .
qed

lemma rh_peer_base:
  assumes "rd_args n" and "r \<in> rh_members n"
  shows "rh_peer n i r = (if i < rd_rounds n then r XOR 2 ^ (rd_rounds n - 1 - i) else UCG_INVALID_RANK)"
proof -
  have "nat (int (rd_rounds n) - int i - 1) = rd_rounds n - 1 - i" by linarith
  then show ?thesis using assms(2)
    by (simp add: rh_peer_def rh_at_base [OF assms] ucg_algo_rh_get_next_base_def rh_init [OF assms(1)]
        rh_members_def UCG_ALGO_RH_RANK_BASE_def)
qed

interpretation rh: exchange rd_args rh_members rd_rounds "\<lambda>n i. rd_rounds n - 1 - i" "\<lambda>n r. r" rh_peer
proof (unfold_locales, goal_cases)
  case (1 n) then show ?case by (simp add: rh_members_def bij_betw_def)
next
  case (2 n)
  show ?case by (rule bij_betw_byWitness [where f' = "\<lambda>i. rd_rounds n - 1 - i"]) auto
next
  case (3 n i r)
  then show ?case using xor_exp_range [of r "rd_rounds n" "rd_rounds n - 1 - i"]
    by (simp add: rh_peer_base) (simp add: rh_members_def)
next
  case (4 n i r)
  then show ?case by (simp add: rh_peer_base)
qed

fun rh_fold :: "c_int \<Rightarrow> (ucg_rank_t \<Rightarrow> 'a :: comm_monoid_add) \<Rightarrow> nat \<Rightarrow> ucg_rank_t \<Rightarrow> 'a" where
  "rh_fold n v 0 r = v r"
| "rh_fold n v (Suc k) r = rh_fold n v k r + rh_fold n v k (rh_peer n k r)"

definition rh_allreduce :: "c_int \<Rightarrow> (ucg_rank_t \<Rightarrow> 'a :: comm_monoid_add) \<Rightarrow> ucg_rank_t \<Rightarrow> 'a" where
  "rh_allreduce n v r =
     rh_fold n
       (\<lambda>s. case ucg_algo_rh_get_extra (ucg_algo_rh_iter_init n s) of
              e \<Rightarrow> if e = UCG_INVALID_RANK then v s else v s + v e)
       (rd_rounds n)
       (case ucg_algo_rh_get_proxy (ucg_algo_rh_iter_init n r) of
          p \<Rightarrow> if p = UCG_INVALID_RANK then r else p)"

lemma rh_fold_folded: "rh_fold n v k r = rh.folded n v k r"
  by (induction k arbitrary: r) simp_all

lemma rh_extra_proxy:
  assumes n: "rd_args n" and r: "0 \<le> r" "r < n"
  shows "ucg_algo_rh_get_extra (ucg_algo_rh_iter_init n r) =
           (if r < n - 2 ^ rd_rounds n then r + 2 ^ rd_rounds n else UCG_INVALID_RANK)"
    and "ucg_algo_rh_get_proxy (ucg_algo_rh_iter_init n r) =
           (if r < 2 ^ rd_rounds n then UCG_INVALID_RANK else r - 2 ^ rd_rounds n)"
  using rd_rounds_bounds(2) [OF n]
  by (auto simp: ucg_algo_rh_get_extra_def ucg_algo_rh_get_proxy_def rh_init [OF n]
      UCG_ALGO_RH_RANK_PROXY_def UCG_ALGO_RH_RANK_EXTRA_def)

text \<open>
  C23: recursive halving has the same guarantee with its own rank types and bit order: after the extra
  ranks' values are folded into their proxies, the base rounds and the return, every rank holds the
  sum of all contributions, each counted once.
\<close>

theorem rh_allreduce_exact:
  assumes "rd_args n" and "0 \<le> r" and "r < n"
  shows "rh_allreduce n v r = (\<Sum>s \<in> {0..<n}. v s)"
proof -
  let ?b = "(2 :: int) ^ rd_rounds n"
  let ?w = "\<lambda>s. case ucg_algo_rh_get_extra (ucg_algo_rh_iter_init n s) of
              e \<Rightarrow> if e = UCG_INVALID_RANK then v s else v s + v e"
  let ?r = "case ucg_algo_rh_get_proxy (ucg_algo_rh_iter_init n r) of p \<Rightarrow> if p = UCG_INVALID_RANK then r else p"
  have b: "?b \<le> n" "n < 2 * ?b" "0 < ?b" using rd_rounds_bounds [OF assms(1)] by simp_all
  have "?r \<in> rh_members n" using assms b by (simp add: rh_extra_proxy(2) rh_members_def)
  then have "rh.folded n ?w (rd_rounds n) ?r = (\<Sum>s \<in> rh_members n. ?w s)"
    using rh.folded_all [of n ?r] assms(1) by (simp split del: if_split)
  also have "\<dots> = (\<Sum>s \<in> {0..<?b}. v s + (if s < n - ?b then v (s + ?b) else 0))"
    using assms(1) b unfolding rh_members_def
    by (intro sum.cong) (auto simp: rh_extra_proxy(1))
  also have "\<dots> = (\<Sum>s \<in> {0..<?b}. v s) + (\<Sum>s \<in> {0..<n - ?b}. v (s + ?b))"
    using b by (simp only: sum.distrib) (intro arg_cong2 [of _ _ _ _ "(+)"] refl sum.mono_neutral_cong_right, auto)
  also have "(\<Sum>s \<in> {0..<n - ?b}. v (s + ?b)) = (\<Sum>s \<in> {?b..<n}. v s)"
    by (rule sum.reindex_bij_witness [where i = "\<lambda>s. s - ?b" and j = "\<lambda>s. s + ?b"]) auto
  also have "(\<Sum>s \<in> {0..<?b}. v s) + \<dots> = (\<Sum>s \<in> {0..<?b} \<union> {?b..<n}. v s)"
    by (rule sum.union_disjoint [symmetric]) auto
  also have "{0..<?b} \<union> {?b..<n} = {0..<n}" using b by auto
  finally show ?thesis by (simp add: rh_allreduce_def rh_fold_folded)
qed

lemma rh_allreduce_exact_witness: "rh_allreduce 6 (\<lambda>s. s * s) 5 = (\<Sum>s \<in> {0..<6}. s * (s :: int))"
  by (rule rh_allreduce_exact) (simp_all add: rd_args_def)

end
