(* ===== verification/Algo_Ring.thy ===== *)
theory Algo_Ring
  imports Kucg_Prelude
begin

text \<open>
  The ring iterator (\<open>src/src/util/algo/ucg_ring.c\<close>, \<open>ucg_ring.h\<close>) and the rolling iterator
  (\<open>ucg_rolling.c\<close>, \<open>ucg_rolling.h\<close>).
\<close>

subsection \<open>Ring\<close>

record ucg_algo_ring_iter =
  ring_left :: ucg_rank_t
  ring_right :: ucg_rank_t
  ring_idx :: c_int
  ring_max_idx :: c_int

definition ucg_algo_ring_iter_init :: "c_int \<Rightarrow> ucg_rank_t \<Rightarrow> ucg_algo_ring_iter" where
  "ucg_algo_ring_iter_init gsize myrank =
     \<lparr>ring_left = (myrank - 1 + gsize) smod gsize, ring_right = (myrank + 1) smod gsize,
      ring_idx = 0, ring_max_idx = gsize - 1\<rparr>"

definition ucg_algo_ring_iter_reset :: "ucg_algo_ring_iter \<Rightarrow> ucg_algo_ring_iter" where
  "ucg_algo_ring_iter_reset it = it\<lparr>ring_idx := 0\<rparr>"

definition ucg_algo_ring_iter_inc :: "ucg_algo_ring_iter \<Rightarrow> ucg_algo_ring_iter" where
  "ucg_algo_ring_iter_inc it = it\<lparr>ring_idx := ring_idx it + 1\<rparr>"

definition ucg_algo_ring_iter_idx :: "ucg_algo_ring_iter \<Rightarrow> c_int" where
  "ucg_algo_ring_iter_idx it = ring_idx it"

definition ucg_algo_ring_iter_end :: "ucg_algo_ring_iter \<Rightarrow> bool" where
  "ucg_algo_ring_iter_end it = (\<not> ring_idx it < ring_max_idx it)"

definition ucg_algo_ring_iter_left_value :: "ucg_algo_ring_iter \<Rightarrow> ucg_rank_t" where
  "ucg_algo_ring_iter_left_value it =
     (if ring_idx it < ring_max_idx it then ring_left it else UCG_INVALID_RANK)"

definition ucg_algo_ring_iter_right_value :: "ucg_algo_ring_iter \<Rightarrow> ucg_rank_t" where
  "ucg_algo_ring_iter_right_value it =
     (if ring_idx it < ring_max_idx it then ring_right it else UCG_INVALID_RANK)"

subsection \<open>Rolling\<close>

text \<open>
  The steps of the rolling iterator mix \<open>ucg_rank_t\<close> with a \<open>uint32_t\<close> size, so C computes them on
  unsigned 32-bit values and converts the result back.
\<close>

record ucg_algo_rolling_iter =
  roll_left :: ucg_rank_t
  roll_right :: ucg_rank_t
  roll_left_flag :: ucg_rank_t
  roll_right_flag :: ucg_rank_t
  roll_odd_step :: bool

definition ucg_algo_rolling_iter_init :: "ucg_rank_t \<Rightarrow> ucg_algo_rolling_iter" where
  "ucg_algo_rolling_iter_init myrank =
     \<lparr>roll_left = myrank, roll_right = myrank, roll_left_flag = 0, roll_right_flag = 0, roll_odd_step = True\<rparr>"

definition ucg_algo_rolling_iter_reset :: "ucg_algo_rolling_iter \<Rightarrow> ucg_algo_rolling_iter" where
  "ucg_algo_rolling_iter_reset it = it\<lparr>roll_odd_step := True\<rparr>"

definition ucg_algo_rolling_iter_get_odd_step :: "ucg_algo_rolling_iter \<Rightarrow> bool" where
  "ucg_algo_rolling_iter_get_odd_step it = roll_odd_step it"

definition ucg_algo_rolling_iter_next :: "ucg_algo_rolling_iter \<Rightarrow> ucg_algo_rolling_iter" where
  "ucg_algo_rolling_iter_next it = it\<lparr>roll_odd_step := \<not> roll_odd_step it\<rparr>"

definition ucg_algo_rolling_iter_left_idx :: "ucg_algo_rolling_iter \<Rightarrow> c_int" where
  "ucg_algo_rolling_iter_left_idx it = roll_left it"

definition ucg_algo_rolling_iter_right_idx :: "ucg_algo_rolling_iter \<Rightarrow> c_int" where
  "ucg_algo_rolling_iter_right_idx it = roll_right it"

definition ucg_algo_rolling_iter_full :: "ucg_algo_rolling_iter \<Rightarrow> c_int \<Rightarrow> bool" where
  "ucg_algo_rolling_iter_full it gsize = (roll_left it = (roll_right it + 1) smod gsize)"

definition ucg_algo_rolling_iter_left_inc ::
    "ucg_algo_rolling_iter \<Rightarrow> u32 \<Rightarrow> c_int \<times> ucg_algo_rolling_iter" where
  "ucg_algo_rolling_iter_left_inc it gsize =
     (let left = sint ((word_of_int (roll_left it) + gsize - 1) mod gsize)
      in (left, it\<lparr>roll_left := left\<rparr>))"

definition ucg_algo_rolling_iter_right_inc ::
    "ucg_algo_rolling_iter \<Rightarrow> u32 \<Rightarrow> c_int \<times> ucg_algo_rolling_iter" where
  "ucg_algo_rolling_iter_right_inc it gsize =
     (let right = sint ((word_of_int (roll_right it) + 1) mod gsize)
      in (right, it\<lparr>roll_right := right\<rparr>))"

end
