(* ===== verification/Ring_Spec.thy ===== *)
theory Ring_Spec
  imports Algo_Ring
begin

text \<open>
  What the ring and rolling iterators promise: neighbours agree, an allgather along the ring is
  complete, and the rolling window covers the group exactly when it says so.
\<close>

subsection \<open>Neighbours\<close>

lemma ring_init:
  assumes "0 \<le> r" and "r < n"
  shows "ucg_algo_ring_iter_init n r =
    \<lparr>ring_left = (r - 1) mod n, ring_right = (r + 1) mod n, ring_idx = 0, ring_max_idx = n - 1\<rparr>"
proof -
  have "(r - 1 + n) mod n = (r - 1) mod n" by simp
  then show ?thesis using assms by (simp add: ucg_algo_ring_iter_init_def smod_nonneg)
qed

definition ring_at :: "c_int \<Rightarrow> ucg_rank_t \<Rightarrow> nat \<Rightarrow> ucg_algo_ring_iter" where
  "ring_at n r k = (ucg_algo_ring_iter_inc ^^ k) (ucg_algo_ring_iter_init n r)"

lemma ring_at:
  assumes "0 \<le> r" and "r < n"
  shows "ring_at n r k =
    \<lparr>ring_left = (r - 1) mod n, ring_right = (r + 1) mod n, ring_idx = int k, ring_max_idx = n - 1\<rparr>"
  unfolding ring_at_def by (induction k) (simp_all add: ring_init [OF assms] ucg_algo_ring_iter_inc_def)

text \<open>
  An allgather along the ring: at step \<open>k\<close> a rank sends to its right the block it got last, and
  appends the one its left neighbour sends.
\<close>

fun ring_blocks :: "c_int \<Rightarrow> nat \<Rightarrow> ucg_rank_t \<Rightarrow> ucg_rank_t list" where
  "ring_blocks n 0 r = [r]"
| "ring_blocks n (Suc k) r =
     ring_blocks n k r @ [last (ring_blocks n k (ucg_algo_ring_iter_left_value (ring_at n r k)))]"

lemma ring_blocks_eq:
  assumes "int k < n" and "0 \<le> r" and "r < n"
  shows "ring_blocks n k r = map (\<lambda>j. (r - int j) mod n) [0..<Suc k]"
  using assms
proof (induction k arbitrary: r)
  case 0
  then show ?case by simp
next
  case (Suc k)
  let ?l = "(r - 1) mod n"
  have l: "0 \<le> ?l" "?l < n" using Suc.prems by simp_all
  have "ucg_algo_ring_iter_left_value (ring_at n r k) = ?l"
    using Suc.prems by (simp add: ring_at ucg_algo_ring_iter_left_value_def)
  moreover have "last (ring_blocks n k ?l) = (r - int (Suc k)) mod n"
    using Suc.IH [OF _ l] Suc.prems(1) by (simp add: mod_diff_left_eq algebra_simps)
  ultimately show ?case using Suc.IH [of r] Suc.prems by simp
qed

text \<open>
  An allgather along the ring iterators stops after \<open>n - 1\<close> steps, my right neighbour's left is me
  at every one of them, and then each rank holds the block of every rank exactly once.
\<close>

theorem ring_allgather_complete:
  assumes "0 \<le> r" and "r < n"
  shows "distinct (ring_blocks n (nat (n - 1)) r) \<and> set (ring_blocks n (nat (n - 1)) r) = {0..<n} \<and>
         (\<forall>k. ucg_algo_ring_iter_end (ring_at n r k) \<longleftrightarrow> n - 1 \<le> int k) \<and>
         (\<forall>k. \<not> ucg_algo_ring_iter_end (ring_at n r k) \<longrightarrow>
            ucg_algo_ring_iter_left_value (ring_at n (ucg_algo_ring_iter_right_value (ring_at n r k)) k) = r)"
proof -
  have n: "0 < n" "Suc (nat (n - 1)) = nat n" using assms by simp_all
  have b: "ring_blocks n (nat (n - 1)) r = map (\<lambda>j. (r - int j) mod n) [0..<nat n]"
    using ring_blocks_eq [of "nat (n - 1)" n r] assms n by simp
  have "inj_on (\<lambda>j. (r - int j) mod n) {0..<nat n}"
  proof (rule inj_onI)
    fix i j assume ij: "i \<in> {0..<nat n}" "j \<in> {0..<nat n}" "(r - int i) mod n = (r - int j) mod n"
    then have "n dvd int j - int i" by (simp add: mod_eq_dvd_iff)
    then have "int j - int i = 0" using ij dvd_imp_le_int [of "int j - int i" n] by fastforce
    then show "i = j" by simp
  qed
  then have d: "distinct (ring_blocks n (nat (n - 1)) r)" unfolding b by (simp add: distinct_map)
  have "set (ring_blocks n (nat (n - 1)) r) \<subseteq> {0..<n}" unfolding b using n by auto
  moreover have "card (set (ring_blocks n (nat (n - 1)) r)) = card {0..<n}"
    using distinct_card [OF d] by (simp add: b)
  ultimately have s: "set (ring_blocks n (nat (n - 1)) r) = {0..<n}" by (simp add: card_subset_eq)
  have "ucg_algo_ring_iter_left_value (ring_at n ((r + 1) mod n) k) = r" if "int k < n - 1" for k
    using that assms n by (simp add: ring_at ucg_algo_ring_iter_left_value_def mod_diff_left_eq)
  with d s show ?thesis
    by (auto simp: ring_at [OF assms] ucg_algo_ring_iter_end_def ucg_algo_ring_iter_right_value_def)
qed

lemma ring_allgather_complete_witness:
  "distinct (ring_blocks 4 (nat (4 - 1)) 2) \<and> set (ring_blocks 4 (nat (4 - 1)) 2) = {0..<4} \<and>
     ucg_algo_ring_iter_end (ring_at 4 2 3) \<and>
     ucg_algo_ring_iter_left_value (ring_at 4 (ucg_algo_ring_iter_right_value (ring_at 4 2 1)) 1) = 2"
  using ring_allgather_complete [of 2 4] by simp

subsection \<open>The rolling window\<close>

lemma sint_word_of_int32: "0 \<le> x \<Longrightarrow> x < 2 ^ 31 \<Longrightarrow> sint (word_of_int x :: u32) = x"
  by (simp add: sint_sbintrunc' signed_take_bit_int_eq_self)

lemma uint_word_of_int32: "0 \<le> x \<Longrightarrow> x < 2 ^ 32 \<Longrightarrow> uint (word_of_int x :: u32) = x"
  by (simp add: uint_word_of_int)

lemma word_mod32:
  assumes "0 \<le> x" and "x < 2 ^ 32" and "0 < n" and "n < 2 ^ 31"
  shows "sint (word_of_int x mod word_of_int n :: u32) = x mod n"
proof -
  have "x mod n < 2 ^ 31" using pos_mod_bound [OF assms(3), of x] assms(4) by linarith
  moreover have "0 \<le> x mod n" using assms(3) by simp
  moreover have "word_of_int x mod word_of_int n = (word_of_int (x mod n) :: u32)"
    unfolding word_mod_def
    using uint_word_of_int32 [of x] uint_word_of_int32 [of n] assms by simp
  ultimately show ?thesis by (simp only: sint_word_of_int32)
qed

lemma rolling_left:
  assumes "0 \<le> roll_left it" "roll_left it < n" "n < 2 ^ 31"
  shows "ucg_algo_rolling_iter_left_inc it (word_of_int n) =
           ((roll_left it - 1) mod n, it\<lparr>roll_left := (roll_left it - 1) mod n\<rparr>)"
proof -
  have "(word_of_int (roll_left it) + word_of_int n - 1 :: u32) = word_of_int (roll_left it + n - 1)"
    by simp
  moreover have "(roll_left it + n - 1) mod n = (roll_left it - 1) mod n"
    using mod_add_self2 [of "roll_left it - 1" n] by (simp add: algebra_simps)
  ultimately show ?thesis
    using word_mod32 [of "roll_left it + n - 1" n] assms by (simp add: ucg_algo_rolling_iter_left_inc_def Let_def)
qed

lemma rolling_right:
  assumes "0 \<le> roll_right it" "roll_right it < n" "n < 2 ^ 31"
  shows "ucg_algo_rolling_iter_right_inc it (word_of_int n) =
           ((roll_right it + 1) mod n, it\<lparr>roll_right := (roll_right it + 1) mod n\<rparr>)"
proof -
  have "(word_of_int (roll_right it) + 1 :: u32) = word_of_int (roll_right it + 1)" by simp
  then show ?thesis
    using word_mod32 [of "roll_right it + 1" n] assms by (simp add: ucg_algo_rolling_iter_right_inc_def Let_def)
qed

text \<open>A run of the iterator: \<open>True\<close> moves the left end, \<open>False\<close> the right one.\<close>

fun rolling_run :: "c_int \<Rightarrow> bool list \<Rightarrow> ucg_algo_rolling_iter \<Rightarrow> ucg_algo_rolling_iter" where
  "rolling_run n [] it = it"
| "rolling_run n (m # ms) it =
     rolling_run n ms (snd (if m then ucg_algo_rolling_iter_left_inc it (word_of_int n)
                            else ucg_algo_rolling_iter_right_inc it (word_of_int n)))"

lemma rolling_run_ends:
  assumes "n < 2 ^ 31" and "0 \<le> roll_left it" "roll_left it < n" and "0 \<le> roll_right it" "roll_right it < n"
  shows "roll_left (rolling_run n ms it) = (roll_left it - int (count_list ms True)) mod n"
    and "roll_right (rolling_run n ms it) = (roll_right it + int (count_list ms False)) mod n"
  using assms
proof (induction ms arbitrary: it)
  case (Cons m ms)
  { case 1 with Cons show ?case
      by (cases m) (simp_all add: rolling_left rolling_right mod_diff_left_eq algebra_simps) }
  { case 2 with Cons show ?case
      by (cases m) (simp_all add: rolling_left rolling_right mod_add_left_eq mod_add_right_eq algebra_simps) }
qed simp_all

text \<open>
  After any mix of left and right moves the two ends stand where the moves put them, computed in
  wrap-around 32-bit arithmetic, and \<open>ucg_algo_rolling_iter_full\<close> answers yes exactly when the window
  has grown over the whole group.
\<close>

theorem rolling_window:
  assumes "0 \<le> r" and "r < n" and "n < 2 ^ 31"
    and "it = rolling_run n ms (ucg_algo_rolling_iter_init r)"
  shows "roll_left it = (r - int (count_list ms True)) mod n \<and>
         roll_right it = (r + int (count_list ms False)) mod n \<and>
         (ucg_algo_rolling_iter_full it n \<longleftrightarrow> n dvd int (length ms) + 1)"
proof -
  have l: "roll_left it = (r - int (count_list ms True)) mod n"
    and rr: "roll_right it = (r + int (count_list ms False)) mod n"
    using rolling_run_ends [OF assms(3), of "ucg_algo_rolling_iter_init r" ms] assms
    by (simp_all add: ucg_algo_rolling_iter_init_def)
  have len: "int (length ms) = int (count_list ms True) + int (count_list ms False)"
    by (induction ms) auto
  have "0 \<le> roll_right it + 1" using rr assms by simp
  then have "ucg_algo_rolling_iter_full it n \<longleftrightarrow> roll_left it = (roll_right it + 1) mod n"
    using assms by (simp add: ucg_algo_rolling_iter_full_def smod_nonneg)
  also have "\<dots> \<longleftrightarrow> (r - int (count_list ms True)) mod n = (r + int (count_list ms False) + 1) mod n"
    unfolding l rr by (simp add: mod_add_left_eq)
  also have "\<dots> \<longleftrightarrow> n dvd - (int (length ms) + 1)" unfolding len mod_eq_dvd_iff by (simp add: algebra_simps)
  finally show ?thesis using l rr by (simp only: dvd_minus_iff simp_thms)
qed

lemma rolling_window_witness:
  "\<exists>it. it = rolling_run 5 [True, False, True, False] (ucg_algo_rolling_iter_init 1) \<and>
     roll_left it = (1 - int (count_list [True, False, True, False] True)) mod 5 \<and>
     roll_right it = (1 + int (count_list [True, False, True, False] False)) mod 5 \<and>
     (ucg_algo_rolling_iter_full it 5 \<longleftrightarrow> 5 dvd int (length [True, False, True, False]) + 1)"
  using rolling_window [of 1 5 _ "[True, False, True, False]"] by simp

end
