(* ===== verification/Coll_Args.thy ===== *)
theory Coll_Args
  imports Kucg_Prelude
begin

text \<open>
  The collective types and arguments of \<open>src/src/core/ucg_request.h\<close>, the memory types of
  \<open>src/src/ucg/api/ucg.h\<close>, and the functions of \<open>src/src/core/ucg_request.c\<close> and \<open>ucg_plan.c\<close> that
  only read them.  The arms of the union \<open>ucg_coll_args\<close> stand side by side in one record (the code
  reads only the arm of its \<open>type\<close>); fields of the same meaning are shared by the arms.  A NULL pointer is \<open>None\<close>; a function that dereferences one has the value \<open>None\<close>.
\<close>

datatype ucg_coll_type =
    UCG_COLL_TYPE_BCAST | UCG_COLL_TYPE_ALLREDUCE | UCG_COLL_TYPE_BARRIER | UCG_COLL_TYPE_ALLTOALLV
  | UCG_COLL_TYPE_SCATTERV | UCG_COLL_TYPE_GATHERV | UCG_COLL_TYPE_ALLGATHERV | UCG_COLL_TYPE_REDUCE
  | UCG_COLL_TYPE_IBCAST | UCG_COLL_TYPE_IALLREDUCE | UCG_COLL_TYPE_IBARRIER | UCG_COLL_TYPE_IALLTOALLV
  | UCG_COLL_TYPE_ISCATTERV | UCG_COLL_TYPE_IGATHERV | UCG_COLL_TYPE_IALLGATHERV | UCG_COLL_TYPE_IREDUCE
  | UCG_COLL_TYPE_LAST

text \<open>The loop \<open>for (coll_type = 0; coll_type < UCG_COLL_TYPE_LAST; ++coll_type)\<close> visits these, in order.\<close>

definition ucg_coll_types :: "ucg_coll_type list" where
  "ucg_coll_types =
     [UCG_COLL_TYPE_BCAST, UCG_COLL_TYPE_ALLREDUCE, UCG_COLL_TYPE_BARRIER, UCG_COLL_TYPE_ALLTOALLV,
      UCG_COLL_TYPE_SCATTERV, UCG_COLL_TYPE_GATHERV, UCG_COLL_TYPE_ALLGATHERV, UCG_COLL_TYPE_REDUCE,
      UCG_COLL_TYPE_IBCAST, UCG_COLL_TYPE_IALLREDUCE, UCG_COLL_TYPE_IBARRIER, UCG_COLL_TYPE_IALLTOALLV,
      UCG_COLL_TYPE_ISCATTERV, UCG_COLL_TYPE_IGATHERV, UCG_COLL_TYPE_IALLGATHERV, UCG_COLL_TYPE_IREDUCE]"

datatype ucg_mem_type = UCG_MEM_TYPE_HOST | UCG_MEM_TYPE_ACL | UCG_MEM_TYPE_UNKNOWN

abbreviation UCG_MEM_TYPE_LAST :: ucg_mem_type where
  "UCG_MEM_TYPE_LAST \<equiv> UCG_MEM_TYPE_UNKNOWN"

definition ucg_mem_types :: "ucg_mem_type list" where
  "ucg_mem_types = [UCG_MEM_TYPE_HOST, UCG_MEM_TYPE_ACL]"

lemma set_ucg_coll_types: "set ucg_coll_types = - {UCG_COLL_TYPE_LAST}"
  by (auto simp: ucg_coll_types_def) (metis ucg_coll_type.exhaust)

lemma distinct_ucg_coll_types: "distinct ucg_coll_types"
  by (simp add: ucg_coll_types_def)

lemma set_ucg_mem_types: "set ucg_mem_types = - {UCG_MEM_TYPE_LAST}"
  by (auto simp: ucg_mem_types_def) (metis ucg_mem_type.exhaust)

text \<open>The plan container is indexed by both; \<open>ucg_slots\<close> is the order of the nested loops over it.\<close>

definition ucg_slots :: "(ucg_coll_type \<times> ucg_mem_type) list" where
  "ucg_slots = List.product ucg_coll_types ucg_mem_types"

lemma set_ucg_slots: "(c, m) \<in> set ucg_slots \<longleftrightarrow> c \<noteq> UCG_COLL_TYPE_LAST \<and> m \<noteq> UCG_MEM_TYPE_LAST"
  by (simp add: ucg_slots_def set_ucg_coll_types set_ucg_mem_types)

lemma distinct_ucg_slots: "distinct ucg_slots"
  unfolding ucg_slots_def by (intro distinct_product) (simp_all add: distinct_ucg_coll_types ucg_mem_types_def)

subsection \<open>Arguments\<close>

text \<open>
  A pointer is a number, NULL is 0.  Buffers are only compared, so that is all there is to them; an
  array of counts or displacements is its contents, and a datatype its address with the numbers the code
  reads in it, both \<open>None\<close> when the pointer is NULL.
\<close>

type_synonym c_ptr = nat

abbreviation (input) C_NULL :: c_ptr where "C_NULL \<equiv> 0"

definition UCG_IN_PLACE :: c_ptr where "UCG_IN_PLACE = 1"

record ucg_dt_arg =
  cd_addr :: c_ptr
  cd_size :: u64
  cd_extent :: int
  cd_true_lb :: int
  cd_true_extent :: int

definition UCG_REQUEST_INFO_FIELD_MEM_TYPE :: u64 where "UCG_REQUEST_INFO_FIELD_MEM_TYPE = 1"
definition UCG_REQUEST_INFO_FIELD_CB :: u64 where "UCG_REQUEST_INFO_FIELD_CB = 2"

record ucg_request_info =
  ri_field_mask :: u64
  ri_mem_type :: ucg_mem_type
  ri_complete_cb :: c_ptr

record ucg_coll_args =
  ca_type :: ucg_coll_type
  ca_info :: ucg_request_info
  ca_sendbuf :: c_ptr
  ca_recvbuf :: c_ptr
  ca_count :: c_int
  ca_dt :: "ucg_dt_arg option"
  ca_sendcounts :: "c_int list option"
  ca_sdispls :: "c_int list option"
  ca_sendtype :: "ucg_dt_arg option"
  ca_recvcounts :: "c_int list option"
  ca_rdispls :: "c_int list option"
  ca_recvtype :: "ucg_dt_arg option"
  ca_op :: c_ptr
  ca_root :: ucg_rank_t

abbreviation ca_dt_size :: "ucg_coll_args \<Rightarrow> u64 option" where "ca_dt_size args \<equiv> map_option cd_size (ca_dt args)"
abbreviation ca_sendtype_size :: "ucg_coll_args \<Rightarrow> u64 option" where "ca_sendtype_size args \<equiv> map_option cd_size (ca_sendtype args)"
abbreviation ca_recvtype_size :: "ucg_coll_args \<Rightarrow> u64 option" where "ca_recvtype_size args \<equiv> map_option cd_size (ca_recvtype args)"

abbreviation ca_mem_type :: "ucg_coll_args \<Rightarrow> ucg_mem_type" where
  "ca_mem_type args \<equiv> ri_mem_type (ca_info args)"

text \<open>\<open>ucg_coll_args_t args = { .type = type }\<close>: every other field is zero.\<close>

definition coll_args_zero :: "ucg_coll_type \<Rightarrow> ucg_coll_args" where
  "coll_args_zero type =
     \<lparr>ca_type = type, ca_info = \<lparr>ri_field_mask = 0, ri_mem_type = UCG_MEM_TYPE_HOST, ri_complete_cb = C_NULL\<rparr>,
      ca_sendbuf = C_NULL, ca_recvbuf = C_NULL, ca_count = 0, ca_dt = None,
      ca_sendcounts = None, ca_sdispls = None, ca_sendtype = None,
      ca_recvcounts = None, ca_rdispls = None, ca_recvtype = None, ca_op = C_NULL, ca_root = 0\<rparr>"

text \<open>
  \<open>ucg_request_msg_size\<close>.  Sizes are unsigned 64-bit values and a count is sign-extended into one, so
  every product and sum wraps; the average of an alltoallv is a signed 64-bit division.  A group of no
  member makes both averages divide by zero, which is \<open>None\<close> too.
\<close>

fun counts_total :: "u64 option \<Rightarrow> c_int list option \<Rightarrow> nat \<Rightarrow> u64 option" where
  "counts_total bytes counts 0 = Some 0"
| "counts_total bytes counts (Suc i) =
     do { total \<leftarrow> counts_total bytes counts i;
          b \<leftarrow> bytes;
          c \<leftarrow> c_read counts i;
          Some (total + b * word_of_int c) }"

definition alltoallv_msg_size :: "ucg_coll_args \<Rightarrow> u32 \<Rightarrow> (ucg_status \<times> u64) option" where
  "alltoallv_msg_size args gsize =
     do { total_scount \<leftarrow> counts_total (ca_sendtype_size args) (ca_sendcounts args) (unat gsize);
          total_rcount \<leftarrow> counts_total (ca_recvtype_size args) (ca_recvcounts args) (unat gsize);
          if gsize = 0 then None else
          Some (UCG_OK, word_of_int ((sint (total_scount + total_rcount) sdiv uint gsize) sdiv 2)) }"

definition allgatherv_msg_size :: "ucg_coll_args \<Rightarrow> u32 \<Rightarrow> (ucg_status \<times> u64) option" where
  "allgatherv_msg_size args gsize =
     do { dt_size \<leftarrow> (if ca_sendbuf args \<noteq> UCG_IN_PLACE then ca_sendtype_size args else ca_recvtype_size args);
          total_size \<leftarrow> counts_total (Some dt_size) (ca_recvcounts args) (unat gsize);
          if gsize = 0 then None else Some (UCG_OK, total_size div ucast gsize) }"

definition ucg_request_msg_size :: "ucg_coll_args \<Rightarrow> u32 \<Rightarrow> (ucg_status \<times> u64) option" where
  "ucg_request_msg_size args gsize =
     (let t = ca_type args in
      if t \<in> {UCG_COLL_TYPE_BCAST, UCG_COLL_TYPE_IBCAST, UCG_COLL_TYPE_ALLREDUCE, UCG_COLL_TYPE_IALLREDUCE,
              UCG_COLL_TYPE_REDUCE, UCG_COLL_TYPE_IREDUCE}
      then map_option (\<lambda>dt_size. (UCG_OK, dt_size * word_of_int (ca_count args))) (ca_dt_size args)
      else if t \<in> {UCG_COLL_TYPE_BARRIER, UCG_COLL_TYPE_IBARRIER, UCG_COLL_TYPE_SCATTERV, UCG_COLL_TYPE_ISCATTERV,
                   UCG_COLL_TYPE_GATHERV, UCG_COLL_TYPE_IGATHERV}
      then Some (UCG_OK, 0)
      else if t \<in> {UCG_COLL_TYPE_ALLTOALLV, UCG_COLL_TYPE_IALLTOALLV} then alltoallv_msg_size args gsize
      else if t \<in> {UCG_COLL_TYPE_ALLGATHERV, UCG_COLL_TYPE_IALLGATHERV} then allgatherv_msg_size args gsize
      else Some (UCG_ERR_INVALID_PARAM, 0))"

text \<open>\<open>check_need_reselect\<close> of \<open>ucg_plan.c\<close>: whether to look for a plan again, and the message size to look for.\<close>

definition check_need_reselect :: "ucg_coll_args \<Rightarrow> u64 \<Rightarrow> bool \<times> u64" where
  "check_need_reselect args msize =
     (case ca_type args of
        UCG_COLL_TYPE_ALLTOALLV \<Rightarrow> (True, 0)
      | UCG_COLL_TYPE_IALLTOALLV \<Rightarrow> (True, 0)
      | _ \<Rightarrow> (False, msize))"

definition ucg_coll_type_string :: "ucg_coll_type \<Rightarrow> string" where
  "ucg_coll_type_string t =
     (case t of
        UCG_COLL_TYPE_BCAST \<Rightarrow> ''bcast''
      | UCG_COLL_TYPE_ALLREDUCE \<Rightarrow> ''allreduce''
      | UCG_COLL_TYPE_BARRIER \<Rightarrow> ''barrier''
      | UCG_COLL_TYPE_ALLTOALLV \<Rightarrow> ''alltoallv''
      | UCG_COLL_TYPE_SCATTERV \<Rightarrow> ''scatterv''
      | UCG_COLL_TYPE_GATHERV \<Rightarrow> ''gatherv''
      | UCG_COLL_TYPE_ALLGATHERV \<Rightarrow> ''allgatherv''
      | UCG_COLL_TYPE_REDUCE \<Rightarrow> ''reduce''
      | UCG_COLL_TYPE_IBCAST \<Rightarrow> ''ibcast''
      | UCG_COLL_TYPE_IALLREDUCE \<Rightarrow> ''iallreduce''
      | UCG_COLL_TYPE_IBARRIER \<Rightarrow> ''ibarrier''
      | UCG_COLL_TYPE_IALLTOALLV \<Rightarrow> ''ialltoallv''
      | UCG_COLL_TYPE_ISCATTERV \<Rightarrow> ''iscatterv''
      | UCG_COLL_TYPE_IGATHERV \<Rightarrow> ''igatherv''
      | UCG_COLL_TYPE_IALLGATHERV \<Rightarrow> ''iallgatherv''
      | UCG_COLL_TYPE_IREDUCE \<Rightarrow> ''ireduce''
      | UCG_COLL_TYPE_LAST \<Rightarrow> ''unknown'')"

subsection \<open>Properties\<close>

text \<open>
  An in-place alltoallv, whose send counts and send type may be NULL according to the parameter
  check of \<open>ucg_request_alltoallv_init\<close>, makes \<open>ucg_request_msg_size\<close> read through NULL on every group
  that is not empty.
\<close>

theorem alltoallv_in_place_reads_null:
  assumes "ca_type args = UCG_COLL_TYPE_ALLTOALLV \<or> ca_type args = UCG_COLL_TYPE_IALLTOALLV"
    and "ca_sendcounts args = None \<or> ca_sendtype args = None" and "gsize \<noteq> 0"
  shows "ucg_request_msg_size args gsize = None"
proof -
  obtain k where k: "unat gsize = Suc k" using assms(3) by (cases "unat gsize") (auto simp: unat_eq_zero)
  have "counts_total (ca_sendtype_size args) (ca_sendcounts args) (Suc j) = None" for j
    using assms(2) by (auto simp: c_read_def split: bind_splits)
  with assms(1) show ?thesis
    by (auto simp: ucg_request_msg_size_def alltoallv_msg_size_def k Let_def)
qed

text \<open>A contiguous datatype of a few bytes, and a call with it.\<close>

definition plain_dt :: "c_ptr \<Rightarrow> u64 \<Rightarrow> ucg_dt_arg" where
  "plain_dt addr bytes =
     \<lparr>cd_addr = addr, cd_size = bytes, cd_extent = uint bytes, cd_true_lb = 0, cd_true_extent = uint bytes\<rparr>"

definition in_place_args :: ucg_coll_args where
  "in_place_args = (coll_args_zero UCG_COLL_TYPE_ALLTOALLV)
     \<lparr>ca_sendbuf := UCG_IN_PLACE, ca_recvbuf := 4096, ca_recvcounts := Some [1, 1], ca_recvtype := Some (plain_dt 64 4)\<rparr>"

lemma alltoallv_in_place_reads_null_witness: "ucg_request_msg_size in_place_args 2 = None"
  by (rule alltoallv_in_place_reads_null) (simp_all add: in_place_args_def coll_args_zero_def)

end
