(* ===== verification/Plan.thy ===== *)
theory Plan
  imports Coll_Args
begin

text \<open>
  The plan container of \<open>src/src/core/ucg_plan.c\<close>: for every collective and memory type a list of
  first-class plans with disjoint message-size ranges, each with the fallback plans for the same range.

  A plan is a value of the datatype \<open>ucg_plan\<close>; the intrusive lists of the C structures are HOL lists
  in the same order.  Function pointers (\<open>prepare\<close>) and groups (\<open>vgroup\<close>) are only copied and compared,
  so they are numbers.  Functions that allocate or free thread the heap of \<open>Kucg_Prelude\<close>; a plan owns
  three blocks (itself, its name, its domain).
\<close>

subsection \<open>Data\<close>

record ucg_plan_range =
  rg_start :: u64
  rg_end :: u64

record ucg_plan_attr =
  pa_prepare :: "nat option"
  pa_id :: c_int
  pa_name :: "string option"
  pa_domain :: "string option"
  pa_deprecated :: bool
  pa_range :: ucg_plan_range
  pa_vgroup :: nat
  pa_score :: u32

datatype ucg_plan_type = UCG_PLAN_TYPE_FIRST_CLASS | UCG_PLAN_TYPE_FALLBACK

datatype ucg_plan = Plan (plan_attr: ucg_plan_attr) (plan_type: ucg_plan_type) (plan_fallback: "ucg_plan list")

record ucg_plan_params =
  pp_mem_type :: ucg_mem_type
  pp_coll_type :: ucg_coll_type
  pp_attr :: ucg_plan_attr

type_synonym ucg_plans = "ucg_coll_type \<times> ucg_mem_type \<Rightarrow> ucg_plan list"

abbreviation pstart :: "ucg_plan \<Rightarrow> u64" where "pstart p \<equiv> rg_start (pa_range (plan_attr p))"
abbreviation pend :: "ucg_plan \<Rightarrow> u64" where "pend p \<equiv> rg_end (pa_range (plan_attr p))"
abbreviation pscore :: "ucg_plan \<Rightarrow> u32" where "pscore p \<equiv> pa_score (plan_attr p)"

definition attr_set_start :: "u64 \<Rightarrow> ucg_plan_attr \<Rightarrow> ucg_plan_attr" where
  "attr_set_start s a = a\<lparr>pa_range := (pa_range a)\<lparr>rg_start := s\<rparr>\<rparr>"

definition attr_set_end :: "u64 \<Rightarrow> ucg_plan_attr \<Rightarrow> ucg_plan_attr" where
  "attr_set_end e a = a\<lparr>pa_range := (pa_range a)\<lparr>rg_end := e\<rparr>\<rparr>"

text \<open>\<open>plan->attr.range.start = s\<close> and \<open>plan->attr.range.end = e\<close>.\<close>

definition plan_set_start :: "u64 \<Rightarrow> ucg_plan \<Rightarrow> ucg_plan" where
  "plan_set_start s p = Plan (attr_set_start s (plan_attr p)) (plan_type p) (plan_fallback p)"

definition plan_set_end :: "u64 \<Rightarrow> ucg_plan \<Rightarrow> ucg_plan" where
  "plan_set_end e p = Plan (attr_set_end e (plan_attr p)) (plan_type p) (plan_fallback p)"

subsection \<open>One plan\<close>

definition ucg_plan_attr_check :: "ucg_plan_attr \<Rightarrow> ucg_status" where
  "ucg_plan_attr_check attr =
     (if pa_prepare attr = None \<or> rg_start (pa_range attr) \<ge> rg_end (pa_range attr)
         \<or> pa_domain attr = None \<or> pa_name attr = None
      then UCG_ERR_INVALID_PARAM else UCG_OK)"

text \<open>
  \<open>ucg_plan_apply_attr\<close> on a freshly zeroed plan: \<open>deprecated\<close> is not copied, name and domain are
  duplicated, and a failure releases what was allocated.
\<close>

definition ucg_plan_apply_attr :: "ucg_plan_attr \<Rightarrow> ucg_heap \<Rightarrow> ucg_plan_attr option \<times> ucg_heap" where
  "ucg_plan_apply_attr attr h =
     (case heap_alloc h of
        (False, h) \<Rightarrow> (None, h)
      | (True, h) \<Rightarrow>
          (case heap_alloc h of
             (False, h) \<Rightarrow> (None, heap_free h)
           | (True, h) \<Rightarrow> (Some (attr\<lparr>pa_deprecated := False\<rparr>), h)))"

definition ucg_plan_free_attr :: "ucg_heap \<Rightarrow> ucg_heap" where
  "ucg_plan_free_attr h = heap_free (heap_free h)"

definition ucg_plan_create :: "ucg_plan_params \<Rightarrow> ucg_heap \<Rightarrow> ucg_plan option \<times> ucg_heap" where
  "ucg_plan_create params h =
     (case heap_alloc h of
        (False, h) \<Rightarrow> (None, h)
      | (True, h) \<Rightarrow>
          (case ucg_plan_apply_attr (pp_attr params) h of
             (None, h) \<Rightarrow> (None, heap_free h)
           | (Some attr, h) \<Rightarrow> (Some (Plan attr UCG_PLAN_TYPE_FIRST_CLASS []), h)))"

fun ucg_plan_destroy :: "ucg_plan \<Rightarrow> ucg_heap \<Rightarrow> ucg_heap"
  and ucg_plan_destroy_fallback :: "ucg_plan list \<Rightarrow> ucg_heap \<Rightarrow> ucg_heap" where
  "ucg_plan_destroy (Plan attr type fallback) h =
     heap_free (ucg_plan_free_attr
       (if type = UCG_PLAN_TYPE_FIRST_CLASS then ucg_plan_destroy_fallback fallback h else h))"
| "ucg_plan_destroy_fallback [] h = h"
| "ucg_plan_destroy_fallback (plan_fb # rest) h = ucg_plan_destroy_fallback rest (ucg_plan_destroy plan_fb h)"

text \<open>
  \<open>ucg_plan_dup\<close>.  The loop over the fallback plans returns whether it went through, with the copies
  made so far; when it did not, the partial copy is destroyed.
\<close>

fun ucg_plan_dup :: "ucg_plan \<Rightarrow> ucg_heap \<Rightarrow> ucg_plan option \<times> ucg_heap"
  and ucg_plan_dup_fallback :: "ucg_plan list \<Rightarrow> ucg_plan list \<Rightarrow> ucg_heap \<Rightarrow> bool \<times> ucg_plan list \<times> ucg_heap" where
  "ucg_plan_dup (Plan attr type fallback) h =
     (case heap_alloc h of
        (False, h) \<Rightarrow> (None, h)
      | (True, h) \<Rightarrow>
          (case ucg_plan_apply_attr attr h of
             (None, h) \<Rightarrow> (None, heap_free h)
           | (Some new_attr, h) \<Rightarrow>
               if type = UCG_PLAN_TYPE_FIRST_CLASS then
                 (case ucg_plan_dup_fallback fallback [] h of
                    (True, new_fallback, h) \<Rightarrow> (Some (Plan new_attr type new_fallback), h)
                  | (False, new_fallback, h) \<Rightarrow>
                      (None, ucg_plan_destroy (Plan new_attr type new_fallback) h))
               else (Some (Plan new_attr type []), h)))"
| "ucg_plan_dup_fallback [] new_fallback h = (True, new_fallback, h)"
| "ucg_plan_dup_fallback (plan_fb # rest) new_fallback h =
     (case ucg_plan_dup plan_fb h of
        (None, h) \<Rightarrow> (False, new_fallback, h)
      | (Some new_plan_fb, h) \<Rightarrow> ucg_plan_dup_fallback rest (new_fallback @ [new_plan_fb]) h)"

text \<open>The sorted insertion at the end of \<open>ucg_plan_add_fallback\<close>: before the first lower score.\<close>

fun fallback_insert :: "ucg_plan \<Rightarrow> ucg_plan list \<Rightarrow> ucg_plan list" where
  "fallback_insert plan_fb [] = [plan_fb]"
| "fallback_insert plan_fb (exist_plan_fb # rest) =
     (if pscore plan_fb > pscore exist_plan_fb then plan_fb # exist_plan_fb # rest
      else exist_plan_fb # fallback_insert plan_fb rest)"

fun ucg_plan_add_fallback :: "ucg_plan list \<Rightarrow> ucg_plan \<Rightarrow> ucg_plan list"
  and ucg_plan_add_fallbacks :: "ucg_plan list \<Rightarrow> ucg_plan list \<Rightarrow> ucg_plan list" where
  "ucg_plan_add_fallback fallback (Plan attr type fb_fallback) =
     (if type = UCG_PLAN_TYPE_FIRST_CLASS
      then fallback_insert (Plan attr UCG_PLAN_TYPE_FALLBACK []) (ucg_plan_add_fallbacks fallback fb_fallback)
      else fallback_insert (Plan attr type fb_fallback) fallback)"
| "ucg_plan_add_fallbacks fallback [] = fallback"
| "ucg_plan_add_fallbacks fallback (plan_fb_fb # rest) =
     ucg_plan_add_fallbacks (ucg_plan_add_fallback fallback plan_fb_fb) rest"

definition plan_with_fallback :: "ucg_plan \<Rightarrow> ucg_plan \<Rightarrow> ucg_plan" where
  "plan_with_fallback plan plan_fb =
     Plan (plan_attr plan) (plan_type plan) (ucg_plan_add_fallback (plan_fallback plan) plan_fb)"

text \<open>\<open>ucg_plan_need_split\<close>: where plan2 cuts plan1.  Without a cut \<open>*split_pos\<close> is left alone.\<close>

definition ucg_plan_need_split :: "ucg_plan \<Rightarrow> ucg_plan \<Rightarrow> u64 option" where
  "ucg_plan_need_split plan1 plan2 =
     (if pstart plan2 > pstart plan1 \<and> pstart plan2 < pend plan1 then Some (pstart plan2)
      else if pend plan2 > pstart plan1 \<and> pend plan2 < pend plan1 then Some (pend plan2)
      else None)"

text \<open>\<open>ucg_plan_split\<close>: the shortened plan and the new one.\<close>

definition ucg_plan_split :: "ucg_plan \<Rightarrow> u64 \<Rightarrow> ucg_heap \<Rightarrow> (ucg_plan \<times> ucg_plan) option \<times> ucg_heap" where
  "ucg_plan_split plan middle h =
     (case ucg_plan_dup plan h of
        (None, h) \<Rightarrow> (None, h)
      | (Some new_plan, h) \<Rightarrow>
          (Some (if plan_type plan = UCG_PLAN_TYPE_FIRST_CLASS
                 then (Plan (attr_set_end middle (plan_attr plan)) (plan_type plan)
                         (map (plan_set_end middle) (plan_fallback plan)),
                       Plan (attr_set_start middle (plan_attr new_plan)) (plan_type new_plan)
                         (map (plan_set_start middle) (plan_fallback new_plan)))
                 else (plan_set_end middle plan, plan_set_start middle new_plan)), h))"

fun ucg_plan_is_compactible :: "ucg_plan \<Rightarrow> ucg_plan \<Rightarrow> bool"
  and fallback_is_compactible :: "ucg_plan list \<Rightarrow> ucg_plan list \<Rightarrow> bool" where
  "ucg_plan_is_compactible (Plan attr1 type1 fallback1) plan2 =
     (if pa_vgroup attr1 \<noteq> pa_vgroup (plan_attr plan2) \<or> pa_prepare attr1 \<noteq> pa_prepare (plan_attr plan2)
         \<or> pa_score attr1 \<noteq> pa_score (plan_attr plan2) \<or> type1 \<noteq> plan_type plan2 then False
      else if rg_end (pa_range attr1) \<noteq> rg_start (pa_range (plan_attr plan2)) then False
      else if type1 \<noteq> UCG_PLAN_TYPE_FIRST_CLASS then True
      else if length fallback1 \<noteq> length (plan_fallback plan2) then False
      else fallback_is_compactible fallback1 (plan_fallback plan2))"
| "fallback_is_compactible (plan1_fb # rest1) (plan2_fb # rest2) =
     (if \<not> ucg_plan_is_compactible plan1_fb plan2_fb then False else fallback_is_compactible rest1 rest2)"
| "fallback_is_compactible _ _ = True"

definition ucg_plan_compact :: "ucg_plan \<Rightarrow> ucg_plan \<Rightarrow> ucg_plan" where
  "ucg_plan_compact plan1 plan2 =
     Plan (attr_set_end (pend plan2) (plan_attr plan1)) (plan_type plan1)
       (if plan_type plan1 = UCG_PLAN_TYPE_FIRST_CLASS
        then map (\<lambda>(plan1_fb, plan2_fb). plan_set_end (pend plan2_fb) plan1_fb)
               (zip (plan_fallback plan1) (plan_fallback plan2))
        else plan_fallback plan1)"

subsection \<open>One list of plans\<close>

fun ucg_plans_cleanup_one :: "ucg_plan list \<Rightarrow> ucg_heap \<Rightarrow> ucg_heap" where
  "ucg_plans_cleanup_one [] h = h"
| "ucg_plans_cleanup_one (plan # rest) h = ucg_plans_cleanup_one rest (ucg_plan_destroy plan h)"

function ucg_plans_compact_one :: "ucg_plan list \<Rightarrow> ucg_heap \<Rightarrow> ucg_plan list \<times> ucg_heap" where
  "ucg_plans_compact_one [] h = ([], h)"
| "ucg_plans_compact_one [plan] h = ([plan], h)"
| "ucg_plans_compact_one (plan # next_plan # rest) h =
     (if ucg_plan_is_compactible plan next_plan
      then ucg_plans_compact_one (ucg_plan_compact plan next_plan # rest) (ucg_plan_destroy next_plan h)
      else case ucg_plans_compact_one (next_plan # rest) h of (plans, h) \<Rightarrow> (plan # plans, h))"
  by pat_completeness auto
termination by (relation "measure (\<lambda>(ps, h). length ps)") auto

text \<open>
  \<open>ucg_plans_normalise_one\<close>.  Loop state: the plans of the list already passed, \<open>exist_plan\<close> and what
  follows it; the pieces cut off the new plan, and \<open>new_plan\<close>, the piece that is still being compared.
  The result has the list, the new plan's pieces when all went well, and the input plan as it was
  left, which its caller destroys on a failure (the other pieces are destroyed here).
\<close>

definition plan_width :: "ucg_plan \<Rightarrow> nat" where
  "plan_width p = unat (pend p) - unat (pstart p)"

definition plan_split_measure :: "ucg_plan \<Rightarrow> nat" where
  "plan_split_measure p = (if plan_width p = 0 then 1 else 2 * plan_width p - 1)"

lemma ucg_plan_dup_attr:
  "ucg_plan_dup p h = (Some q, h') \<Longrightarrow>
     plan_attr q = (plan_attr p)\<lparr>pa_deprecated := False\<rparr> \<and> plan_type q = plan_type p"
  by (cases p) (auto simp: ucg_plan_apply_attr_def split: prod.splits bool.splits option.splits if_splits)

lemma ucg_plan_split_ranges:
  assumes "ucg_plan_split p m h = (Some (p', q), h')"
  shows "pstart p' = pstart p" and "pend p' = m" and "pstart q = m" and "pend q = pend p"
  using assms ucg_plan_dup_attr [of p h]
  by (auto simp: ucg_plan_split_def attr_set_start_def attr_set_end_def plan_set_start_def plan_set_end_def
      split: prod.splits option.splits if_splits)

lemma need_split_inside:
  "ucg_plan_need_split p q = Some m \<Longrightarrow> pstart p < m \<and> m < pend p"
  by (auto simp: ucg_plan_need_split_def split: if_splits)

lemma split_measure_less:
  assumes "ucg_plan_split p m h = (Some (p', q), h')" and "pstart p < m" and "m < pend p"
  shows "plan_split_measure p' + plan_split_measure q < plan_split_measure p"
  using ucg_plan_split_ranges [OF assms(1)] assms(2,3)
  by (auto simp: plan_split_measure_def plan_width_def word_less_nat_alt)

lemma split_width_less:
  assumes "ucg_plan_split p m h = (Some (p', q), h')" and "pstart p < m" and "m < pend p"
  shows "plan_width q < plan_width p"
  using ucg_plan_split_ranges [OF assms(1)] assms(2,3)
  by (auto simp: plan_width_def word_less_nat_alt)

datatype normalise_result =
    Normalised "ucg_plan list" "ucg_plan list" ucg_heap
  | NormaliseFailed "ucg_plan list" ucg_plan ucg_heap

text \<open>The \<open>err\<close> label: every piece but the input plan (the first one) is destroyed.\<close>

definition normalise_err :: "ucg_plan list \<Rightarrow> ucg_plan list \<Rightarrow> ucg_heap \<Rightarrow> normalise_result" where
  "normalise_err head pieces h =
     NormaliseFailed head (hd pieces) (ucg_plans_cleanup_one (tl pieces) h)"

definition normalise_cut ::
    "ucg_plan \<Rightarrow> ucg_plan \<Rightarrow> ucg_heap \<Rightarrow> (ucg_plan \<times> ucg_plan list \<times> bool) option \<times> ucg_heap" where
  "normalise_cut plan1 plan2 h =
     (case ucg_plan_need_split plan1 plan2 of
        None \<Rightarrow> (Some (plan1, [], False), h)
      | Some split_pos \<Rightarrow>
          (case ucg_plan_split plan1 split_pos h of
             (None, h) \<Rightarrow> (None, h)
           | (Some (plan1, split_plan), h) \<Rightarrow> (Some (plan1, [split_plan], split_pos \<noteq> 0), h)))"

lemma normalise_cut_cases:
  assumes "normalise_cut p q h = (Some (p', s, b), h')"
  shows "(s = [] \<and> \<not> b \<and> p' = p \<and> h' = h \<and> ucg_plan_need_split p q = None) \<or>
         (\<exists>m c. s = [c] \<and> b \<and> ucg_plan_need_split p q = Some m \<and> pstart p < m \<and> m < pend p \<and>
            ucg_plan_split p m h = (Some (p', c), h'))"
  using assms need_split_inside [of p q]
  by (auto simp: normalise_cut_def split: option.splits prod.splits)

lemma normalise_cut_measure:
  assumes "normalise_cut p q h = (Some (p', s, b), h')"
  shows "plan_split_measure p' + (\<Sum>c \<leftarrow> s. plan_split_measure c) \<le> plan_split_measure p"
    and "b \<Longrightarrow> plan_split_measure p' + (\<Sum>c \<leftarrow> s. plan_split_measure c) < plan_split_measure p"
    and "s = c # cs \<Longrightarrow> plan_width c < plan_width p"
  using normalise_cut_cases [OF assms]
  by (auto dest: split_measure_less split_width_less order_less_imp_le)

function normalise_loop ::
    "ucg_plan list \<Rightarrow> ucg_plan list \<Rightarrow> ucg_plan list \<Rightarrow> ucg_plan \<Rightarrow> ucg_heap \<Rightarrow> normalise_result" where
  "normalise_loop passed [] pieces new_plan h = Normalised passed (pieces @ [new_plan]) h"
| "normalise_loop passed (exist_plan # rest) pieces new_plan h =
     (if pend new_plan \<le> pstart exist_plan
      then Normalised (passed @ exist_plan # rest) (pieces @ [new_plan]) h
      else case normalise_cut exist_plan new_plan h of
        (None, h) \<Rightarrow> normalise_err (passed @ exist_plan # rest) (pieces @ [new_plan]) h
      | (Some (exist_plan, inserted, cut1), h) \<Rightarrow>
          (case normalise_cut new_plan exist_plan h of
             (None, h) \<Rightarrow> normalise_err (passed @ exist_plan # inserted @ rest) (pieces @ [new_plan]) h
           | (Some (new_plan, [], _), h) \<Rightarrow>
               if cut1 then normalise_loop passed (exist_plan # inserted @ rest) pieces new_plan h
               else normalise_loop (passed @ exist_plan # inserted) rest pieces new_plan h
           | (Some (new_plan, tail_plan # _, cut2), h) \<Rightarrow>
               if cut2 then normalise_loop passed (exist_plan # inserted @ rest) (pieces @ [new_plan]) tail_plan h
               else normalise_loop (passed @ exist_plan # inserted) rest (pieces @ [new_plan]) tail_plan h))"
  by pat_completeness auto

lemma split_measure_pos: "0 < plan_split_measure p"
  by (simp add: plan_split_measure_def)

lemma normalise_cut_sum:
  assumes "(Some (p', s, b), h') = normalise_cut p q h"
  shows "b \<Longrightarrow> plan_split_measure p' + ((\<Sum>c \<leftarrow> s. plan_split_measure c) + n) < plan_split_measure p + n"
    and "plan_split_measure p' + ((\<Sum>c \<leftarrow> s. plan_split_measure c) + n) < plan_split_measure p + n \<or>
         plan_split_measure p' + ((\<Sum>c \<leftarrow> s. plan_split_measure c) + n) = plan_split_measure p + n"
    and "n < plan_split_measure p + n"
    and "s = c # cs \<Longrightarrow> plan_width c < plan_width p"
  using normalise_cut_measure [OF assms [symmetric]] split_measure_pos [of p'] by auto

termination normalise_loop
  by (relation "measures [\<lambda>(passed, cur, pieces, np, h). \<Sum>p \<leftarrow> cur. plan_split_measure p,
                           \<lambda>(passed, cur, pieces, np, h). plan_width np]")
    (auto dest: normalise_cut_sum(1,3,4) normalise_cut_sum(2))

text \<open>The head and the input plan as \<open>ucg_plans_add_one\<close> leaves them; on a failure the plan is the caller's.\<close>

fun add_pieces :: "ucg_plan list \<Rightarrow> ucg_plan list \<Rightarrow> ucg_plan list" where
  "add_pieces [] pieces = pieces"
| "add_pieces (exist_plan # rest) [] = exist_plan # rest"
| "add_pieces (exist_plan # rest) (new_plan # pieces) =
     (if pstart new_plan = pstart exist_plan then
        (if pscore new_plan > pscore exist_plan
         then plan_with_fallback new_plan exist_plan # add_pieces rest pieces
         else plan_with_fallback exist_plan new_plan # add_pieces rest pieces)
      else if pstart new_plan < pstart exist_plan then new_plan # add_pieces (exist_plan # rest) pieces
      else exist_plan # add_pieces rest (new_plan # pieces))"

definition ucg_plans_add_one ::
    "ucg_plan list \<Rightarrow> ucg_plan \<Rightarrow> ucg_heap \<Rightarrow> ucg_status \<times> ucg_plan list \<times> ucg_plan option \<times> ucg_heap" where
  "ucg_plans_add_one head plan h =
     (case normalise_loop [] head [] plan h of
        NormaliseFailed head plan h \<Rightarrow> (UCG_ERR_NO_MEMORY, head, Some plan, h)
      | Normalised head pieces h \<Rightarrow> (UCG_OK, add_pieces head pieces, None, h))"

fun ucg_plans_dup_one :: "ucg_plan list \<Rightarrow> ucg_plan list \<Rightarrow> ucg_heap \<Rightarrow> ucg_status \<times> ucg_plan list \<times> ucg_heap" where
  "ucg_plans_dup_one dst_head [] h = (UCG_OK, dst_head, h)"
| "ucg_plans_dup_one dst_head (plan # rest) h =
     (case ucg_plan_dup plan h of
        (None, h) \<Rightarrow> (UCG_ERR_NO_MEMORY, dst_head, h)
      | (Some new_plan, h) \<Rightarrow> ucg_plans_dup_one (dst_head @ [new_plan]) rest h)"

text \<open>
  \<open>ucg_plans_merge_one\<close>: when \<open>ucg_plans_add_one\<close> fails its copy of the plan is simply dropped.
\<close>

fun ucg_plans_merge_one :: "ucg_plan list \<Rightarrow> ucg_plan list \<Rightarrow> ucg_heap \<Rightarrow> ucg_status \<times> ucg_plan list \<times> ucg_heap" where
  "ucg_plans_merge_one head [] h = (case ucg_plans_compact_one head h of (head, h) \<Rightarrow> (UCG_OK, head, h))"
| "ucg_plans_merge_one head (new_plan # rest) h =
     (case ucg_plan_dup new_plan h of
        (None, h) \<Rightarrow> (UCG_ERR_NO_MEMORY, head, h)
      | (Some dup_plan, h) \<Rightarrow>
          (case ucg_plans_add_one head dup_plan h of
             (status, head, _, h) \<Rightarrow>
               if status \<noteq> UCG_OK then (status, head, h) else ucg_plans_merge_one head rest h))"

subsection \<open>The container\<close>

definition ucg_plans_init :: "ucg_heap \<Rightarrow> ucg_plans option \<times> ucg_heap" where
  "ucg_plans_init h =
     (case heap_alloc h of (False, h) \<Rightarrow> (None, h) | (True, h) \<Rightarrow> (Some (\<lambda>_. []), h))"

fun plans_cleanup_slots :: "ucg_plans \<Rightarrow> (ucg_coll_type \<times> ucg_mem_type) list \<Rightarrow> ucg_heap \<Rightarrow> ucg_heap" where
  "plans_cleanup_slots plans [] h = h"
| "plans_cleanup_slots plans (slot # rest) h =
     plans_cleanup_slots plans rest (ucg_plans_cleanup_one (plans slot) h)"

definition ucg_plans_cleanup :: "ucg_plans \<Rightarrow> ucg_heap \<Rightarrow> ucg_heap" where
  "ucg_plans_cleanup plans h = heap_free (plans_cleanup_slots plans ucg_slots h)"

definition ucg_plans_add :: "ucg_plans \<Rightarrow> ucg_plan_params \<Rightarrow> ucg_heap \<Rightarrow> ucg_status \<times> ucg_plans \<times> ucg_heap" where
  "ucg_plans_add plans params h =
     (if pp_coll_type params = UCG_COLL_TYPE_LAST \<or> pp_mem_type params = UCG_MEM_TYPE_LAST
         \<or> ucg_plan_attr_check (pp_attr params) \<noteq> UCG_OK
      then (UCG_ERR_INVALID_PARAM, plans, h)
      else if pa_deprecated (pp_attr params) then (UCG_OK, plans, h)
      else
        case ucg_plan_create params h of
          (None, h) \<Rightarrow> (UCG_ERR_NO_MEMORY, plans, h)
        | (Some new_plan, h) \<Rightarrow>
            (let slot = (pp_coll_type params, pp_mem_type params)
             in case ucg_plans_add_one (plans slot) new_plan h of
                  (status, head, rejected, h) \<Rightarrow>
                    if status \<noteq> UCG_OK
                    then (status, plans(slot := head),
                          (case rejected of Some new_plan \<Rightarrow> ucg_plan_destroy new_plan h | None \<Rightarrow> h))
                    else case ucg_plans_compact_one head h of
                           (head, h) \<Rightarrow> (UCG_OK, plans(slot := head), h)))"

text \<open>
  \<open>ucg_plans_merge\<close>.  \<open>same\<close> is the pointer comparison \<open>*dst == src\<close>.  The loop fills a new container
  slot by slot; \<open>*dst\<close> is replaced only when all of it went through.
\<close>

fun plans_merge_slots ::
    "ucg_plans \<Rightarrow> ucg_plans \<Rightarrow> ucg_plans \<Rightarrow> (ucg_coll_type \<times> ucg_mem_type) list \<Rightarrow> ucg_heap \<Rightarrow>
     ucg_status \<times> ucg_plans \<times> ucg_heap" where
  "plans_merge_slots dst src new_plans [] h = (UCG_OK, new_plans, h)"
| "plans_merge_slots dst src new_plans (slot # rest) h =
     (case ucg_plans_dup_one (new_plans slot) (dst slot) h of
        (status, new_head, h) \<Rightarrow>
          if status \<noteq> UCG_OK then (status, new_plans(slot := new_head), h)
          else case ucg_plans_merge_one new_head (src slot) h of
                 (status, new_head, h) \<Rightarrow>
                   if status \<noteq> UCG_OK then (status, new_plans(slot := new_head), h)
                   else plans_merge_slots dst src (new_plans(slot := new_head)) rest h)"

definition ucg_plans_merge :: "bool \<Rightarrow> ucg_plans \<Rightarrow> ucg_plans \<Rightarrow> ucg_heap \<Rightarrow> ucg_status \<times> ucg_plans \<times> ucg_heap" where
  "ucg_plans_merge same dst src h =
     (if same then (UCG_OK, dst, h)
      else case ucg_plans_init h of
        (None, h) \<Rightarrow> (UCG_ERR_NO_MEMORY, dst, h)
      | (Some new_plans, h) \<Rightarrow>
          (case plans_merge_slots dst src new_plans ucg_slots h of
             (status, new_plans, h) \<Rightarrow>
               if status = UCG_OK then (UCG_OK, new_plans, ucg_plans_cleanup dst h)
               else (status, dst, ucg_plans_cleanup new_plans h)))"

subsection \<open>Selection\<close>

text \<open>
  The \<open>prepare\<close> routines belong to the plan components.  Here they are a parameter: from the function,
  the group, the arguments and the state of the world (where the operation is created) to a status and
  the new state.
\<close>

type_synonym 's prepare_env = "nat \<Rightarrow> nat \<Rightarrow> ucg_coll_args \<Rightarrow> 's \<Rightarrow> ucg_status \<times> 's"

definition call_prepare :: "'s prepare_env \<Rightarrow> ucg_plan \<Rightarrow> ucg_coll_args \<Rightarrow> 's \<Rightarrow> ucg_status \<times> 's" where
  "call_prepare prep plan args s = prep (the (pa_prepare (plan_attr plan))) (pa_vgroup (plan_attr plan)) args s"

fun plans_find :: "ucg_plan list \<Rightarrow> u64 \<Rightarrow> ucg_plan option" where
  "plans_find [] msg_size = None"
| "plans_find (plan # rest) msg_size =
     (if msg_size < pstart plan then None
      else if msg_size \<ge> pstart plan \<and> msg_size < pend plan then Some plan
      else plans_find rest msg_size)"

fun prepare_fallback ::
    "'s prepare_env \<Rightarrow> ucg_plan \<Rightarrow> ucg_coll_args \<Rightarrow> ucg_plan list \<Rightarrow> 's \<Rightarrow> ucg_status \<times> 's" where
  "prepare_fallback prep plan args [] s = (UCG_ERR_NOT_FOUND, s)"
| "prepare_fallback prep plan args (plan_fb # rest) s =
     (if pa_prepare (plan_attr plan_fb) = pa_prepare (plan_attr plan)
      then prepare_fallback prep plan args rest s
      else case call_prepare prep plan_fb args s of
             (status, s) \<Rightarrow> if status = UCG_OK then (UCG_OK, s) else prepare_fallback prep plan args rest s)"

definition ucg_plans_prepare ::
    "'s prepare_env \<Rightarrow> ucg_plans \<Rightarrow> ucg_coll_args \<Rightarrow> u32 \<Rightarrow> 's \<Rightarrow> (ucg_status \<times> 's) option" where
  "ucg_plans_prepare prep plans args gsize s =
     (case ucg_request_msg_size args gsize of
        None \<Rightarrow> None
      | Some (status, msg_size) \<Rightarrow>
          if status \<noteq> UCG_OK then Some (status, s)
          else
            let head = plans (ca_type args, ca_mem_type args)
            in case plans_find head msg_size of
                 None \<Rightarrow> Some (UCG_ERR_NOT_FOUND, s)
               | Some plan \<Rightarrow>
                   (case call_prepare prep plan args s of
                      (status, s) \<Rightarrow>
                        if status = UCG_OK then Some (UCG_OK, s)
                        else case check_need_reselect args msg_size of
                          (False, _) \<Rightarrow> Some (prepare_fallback prep plan args (plan_fallback plan) s)
                        | (True, msg_size) \<Rightarrow>
                            (case plans_find head msg_size of
                               None \<Rightarrow> Some (UCG_ERR_NOT_FOUND, s)
                             | Some plan \<Rightarrow>
                                 (case call_prepare prep plan args s of
                                    (status, s) \<Rightarrow>
                                      if status = UCG_OK then Some (UCG_OK, s)
                                      else Some (prepare_fallback prep plan args (plan_fallback plan) s)))))"

text \<open>\<open>ucg_plan_true_domain\<close>, the name that is logged: what follows the last space is replaced, in a new block.\<close>

definition coll_suffix_map :: "(ucg_coll_type \<times> string) list" where
  "coll_suffix_map =
     [(UCG_COLL_TYPE_IBCAST, ''ibcast''), (UCG_COLL_TYPE_IALLREDUCE, ''iallreduce''),
      (UCG_COLL_TYPE_IBARRIER, ''ibarrier''), (UCG_COLL_TYPE_ISCATTERV, ''iscatterv''),
      (UCG_COLL_TYPE_IGATHERV, ''igatherv''), (UCG_COLL_TYPE_IALLGATHERV, ''iallgatherv''),
      (UCG_COLL_TYPE_IREDUCE, ''ireduce'')]"

definition ucg_plan_true_domain :: "ucg_coll_type \<Rightarrow> string \<Rightarrow> ucg_heap \<Rightarrow> string option \<times> ucg_heap" where
  "ucg_plan_true_domain coll_type domain h =
     (if CHR '' '' \<notin> set domain then (Some domain, h)
      else case heap_alloc h of
             (False, h) \<Rightarrow> (None, h)
           | (True, h) \<Rightarrow>
               (case map_of coll_suffix_map coll_type of
                  None \<Rightarrow> (Some domain, heap_free h)
                | Some suffix \<Rightarrow> (Some (rev (dropWhile (\<lambda>c. c \<noteq> CHR '' '') (rev domain)) @ suffix), h)))"

end
