(* ===== verification/Plan_Spec.thy ===== *)
theory Plan_Spec
  imports Plan "HOL-Library.Multiset"
begin

text \<open>
  The abstract view of the plan container: at every message size a list of candidates, best score
  first.  A candidate is what selection can tell apart: the prepare routine, the group and the score.
  The lemmas show that cutting, merging and compacting plans leave the view as it should be, keep the
  container well formed, and neither leak nor free too much.
\<close>

subsection \<open>Well-formed plans and the candidates they stand for\<close>

type_synonym plan_key = "nat option \<times> nat \<times> u32"

definition pkey :: "ucg_plan \<Rightarrow> plan_key" where
  "pkey p = (pa_prepare (plan_attr p), pa_vgroup (plan_attr p), pa_score (plan_attr p))"

definition plan_cands :: "ucg_plan \<Rightarrow> plan_key list" where
  "plan_cands p = pkey p # map pkey (plan_fallback p)"

definition in_range :: "u64 \<Rightarrow> ucg_plan \<Rightarrow> bool" where
  "in_range m p \<longleftrightarrow> pstart p \<le> m \<and> m < pend p"

definition cands :: "ucg_plan list \<Rightarrow> u64 \<Rightarrow> plan_key list" where
  "cands ps m = concat (map plan_cands (filter (in_range m) ps))"

definition fallback_wf :: "ucg_plan \<Rightarrow> ucg_plan \<Rightarrow> bool" where
  "fallback_wf p fb \<longleftrightarrow> plan_type fb = UCG_PLAN_TYPE_FALLBACK \<and> plan_fallback fb = [] \<and>
     pa_range (plan_attr fb) = pa_range (plan_attr p) \<and> pa_prepare (plan_attr fb) \<noteq> None"

definition plan_wf :: "ucg_plan \<Rightarrow> bool" where
  "plan_wf p \<longleftrightarrow> plan_type p = UCG_PLAN_TYPE_FIRST_CLASS \<and> pstart p < pend p \<and>
     pa_prepare (plan_attr p) \<noteq> None \<and> (\<forall>fb \<in> set (plan_fallback p). fallback_wf p fb) \<and>
     sorted_wrt (\<lambda>a b. pscore b \<le> pscore a) (p # plan_fallback p)"

definition plans_wf :: "ucg_plan list \<Rightarrow> bool" where
  "plans_wf ps \<longleftrightarrow> (\<forall>p \<in> set ps. plan_wf p) \<and> sorted_wrt (\<lambda>p q. pend p \<le> pstart q) ps"

lemma cands_append [simp]: "cands (xs @ ys) m = cands xs m @ cands ys m"
  by (simp add: cands_def)

lemma cands_Nil [simp]: "cands [] m = []"
  by (simp add: cands_def)

lemma cands_Cons: "cands (p # ps) m = (if in_range m p then plan_cands p else []) @ cands ps m"
  by (simp add: cands_def)

lemma plans_wf_Nil [simp]: "plans_wf []"
  by (simp add: plans_wf_def)

lemma plans_wf_Cons: "plans_wf (p # ps) \<longleftrightarrow> plan_wf p \<and> plans_wf ps \<and> (\<forall>q \<in> set ps. pend p \<le> pstart q)"
  by (auto simp: plans_wf_def)

lemma plans_wf_append:
  "plans_wf (xs @ ys) \<longleftrightarrow> plans_wf xs \<and> plans_wf ys \<and> (\<forall>p \<in> set xs. \<forall>q \<in> set ys. pend p \<le> pstart q)"
  by (auto simp: plans_wf_def sorted_wrt_append)

subsection \<open>Blocks\<close>

definition plan_blocks :: "ucg_plan \<Rightarrow> int" where
  "plan_blocks p = 3 * (1 + int (length (plan_fallback p)))"

definition list_blocks :: "ucg_plan list \<Rightarrow> int" where
  "list_blocks ps = (\<Sum>p \<leftarrow> ps. plan_blocks p)"

lemma list_blocks_simps [simp]:
  "list_blocks [] = 0" "list_blocks (p # ps) = plan_blocks p + list_blocks ps"
  "list_blocks (ps @ qs) = list_blocks ps + list_blocks qs"
  by (simp_all add: list_blocks_def)

definition flat_fallback :: "ucg_plan \<Rightarrow> bool" where
  "flat_fallback fb \<longleftrightarrow> plan_type fb = UCG_PLAN_TYPE_FALLBACK \<and> plan_fallback fb = []"

definition flat_plan :: "ucg_plan \<Rightarrow> bool" where
  "flat_plan p \<longleftrightarrow> plan_type p = UCG_PLAN_TYPE_FIRST_CLASS \<and> (\<forall>fb \<in> set (plan_fallback p). flat_fallback fb)"

lemma plan_wf_flat: "plan_wf p \<Longrightarrow> flat_plan p"
  by (auto simp: plan_wf_def flat_plan_def fallback_wf_def flat_fallback_def)

lemma destroy_flat_fallback: "flat_fallback fb \<Longrightarrow> h_live (ucg_plan_destroy fb h) = h_live h - 3"
  by (cases fb) (simp add: flat_fallback_def ucg_plan_free_attr_def)

lemma destroy_fallback_live:
  "\<forall>fb \<in> set fbs. flat_fallback fb \<Longrightarrow> h_live (ucg_plan_destroy_fallback fbs h) = h_live h - 3 * int (length fbs)"
  by (induction fbs arbitrary: h) (simp_all add: destroy_flat_fallback)

lemma destroy_live: "flat_plan p \<Longrightarrow> h_live (ucg_plan_destroy p h) = h_live h - plan_blocks p"
  by (cases p) (simp add: flat_plan_def destroy_fallback_live plan_blocks_def ucg_plan_free_attr_def)

lemma cleanup_one_live:
  "\<forall>p \<in> set ps. flat_plan p \<Longrightarrow> h_live (ucg_plans_cleanup_one ps h) = h_live h - list_blocks ps"
  by (induction ps arbitrary: h) (simp_all add: destroy_live)

subsection \<open>Copies\<close>

definition undeprecated :: "ucg_plan_attr \<Rightarrow> ucg_plan_attr" where
  "undeprecated a = a\<lparr>pa_deprecated := False\<rparr>"

definition dup_fb :: "ucg_plan \<Rightarrow> ucg_plan" where
  "dup_fb p = Plan (undeprecated (plan_attr p)) (plan_type p) []"

definition dup_plan :: "ucg_plan \<Rightarrow> ucg_plan" where
  "dup_plan p = Plan (undeprecated (plan_attr p)) (plan_type p) (map dup_fb (plan_fallback p))"

lemma apply_attr_live:
  assumes "ucg_plan_apply_attr a h = (r, h')"
  shows "(r = None \<and> h_live h' = h_live h) \<or> (r = Some (undeprecated a) \<and> h_live h' = h_live h + 2)"
  using assms
  by (auto simp: ucg_plan_apply_attr_def undeprecated_def split: prod.splits bool.splits dest!: heap_alloc_live)

lemma dup_flat_fallback:
  assumes "flat_fallback fb" and "ucg_plan_dup fb h = (r, h')"
  shows "(r = None \<and> h_live h' = h_live h) \<or> (r = Some (dup_fb fb) \<and> h_live h' = h_live h + 3)"
  using assms
  by (cases fb)
    (fastforce simp: flat_fallback_def dup_fb_def split: prod.splits bool.splits option.splits
      dest: heap_alloc_live apply_attr_live)

lemma dup_fallback_prefix:
  assumes "\<forall>fb \<in> set fbs. flat_fallback fb" and "ucg_plan_dup_fallback fbs acc h = (ok, out, h')"
  shows "\<exists>k \<le> length fbs. out = acc @ map dup_fb (take k fbs) \<and> h_live h' = h_live h + 3 * int k \<and>
           (ok \<longleftrightarrow> k = length fbs)"
  using assms
proof (induction fbs arbitrary: acc h)
  case Nil
  then show ?case by simp
next
  case (Cons fb fbs)
  obtain r h1 where d: "ucg_plan_dup fb h = (r, h1)" by (cases "ucg_plan_dup fb h")
  show ?case
  proof (cases r)
    case None
    then show ?thesis using Cons.prems d dup_flat_fallback [OF _ d] by (intro exI [of _ 0]) auto
  next
    case (Some q)
    then have q: "q = dup_fb fb" "h_live h1 = h_live h + 3" using Cons.prems dup_flat_fallback [OF _ d] by auto
    then obtain k where "k \<le> length fbs" "out = (acc @ [q]) @ map dup_fb (take k fbs)"
      "h_live h' = h_live h1 + 3 * int k" "ok \<longleftrightarrow> k = length fbs"
      using Cons.IH [of "acc @ [q]" h1] Cons.prems d Some by auto
    then show ?thesis using q by (intro exI [of _ "Suc k"]) simp
  qed
qed

lemma flat_dup_fb: "flat_fallback fb \<Longrightarrow> flat_fallback (dup_fb fb)"
  by (simp add: flat_fallback_def dup_fb_def)

lemma dup_flat_plan:
  assumes p: "flat_plan p" and d: "ucg_plan_dup p h = (r, h')"
  shows "(r = None \<and> h_live h' = h_live h) \<or> (r = Some (dup_plan p) \<and> h_live h' = h_live h + plan_blocks p)"
proof -
  obtain a fbs where pe: "p = Plan a UCG_PLAN_TYPE_FIRST_CLASS fbs" and flat: "\<forall>fb \<in> set fbs. flat_fallback fb"
    using p by (cases p) (auto simp: flat_plan_def)
  obtain ok h1 where h1: "heap_alloc h = (ok, h1)" by (cases "heap_alloc h")
  show ?thesis
  proof (cases ok)
    case False
    then show ?thesis using d pe h1 heap_alloc_live [OF h1] by auto
  next
    case ok: True
    obtain ra h2 where h2: "ucg_plan_apply_attr a h1 = (ra, h2)" by (cases "ucg_plan_apply_attr a h1")
    show ?thesis
    proof (cases ra)
      case None
      then show ?thesis using d pe h1 h2 ok heap_alloc_live [OF h1] apply_attr_live [OF h2] by auto
    next
      case (Some a')
      then have a': "a' = undeprecated a" "h_live h2 = h_live h + 3"
        using apply_attr_live [OF h2] heap_alloc_live [OF h1] ok by auto
      obtain all out h3 where h3: "ucg_plan_dup_fallback fbs [] h2 = (all, out, h3)"
        by (cases "ucg_plan_dup_fallback fbs [] h2")
      from dup_fallback_prefix [OF flat h3] obtain k where k: "k \<le> length fbs"
        "out = map dup_fb (take k fbs)" "h_live h3 = h_live h2 + 3 * int k" "all \<longleftrightarrow> k = length fbs" by auto
      have "\<forall>fb \<in> set out. flat_fallback fb" using k(2) flat flat_dup_fb by (auto dest: in_set_takeD)
      then have "h_live (ucg_plan_destroy (Plan a' UCG_PLAN_TYPE_FIRST_CLASS out) h3) = h_live h"
        using k a' destroy_live [of "Plan a' UCG_PLAN_TYPE_FIRST_CLASS out" h3]
        by (simp add: flat_plan_def plan_blocks_def min_absorb2)
      then show ?thesis using d pe h1 h2 h3 ok Some a' k
        by (cases all) (auto simp: dup_plan_def plan_blocks_def)
    qed
  qed
qed

lemma dup_plan_simps [simp]:
  "plan_type (dup_plan p) = plan_type p" "pa_range (plan_attr (dup_plan p)) = pa_range (plan_attr p)"
  "plan_attr (dup_plan p) = undeprecated (plan_attr p)"
  "plan_fallback (dup_plan p) = map dup_fb (plan_fallback p)"
  "plan_cands (dup_plan p) = plan_cands p" "plan_blocks (dup_plan p) = plan_blocks p"
  by (simp_all add: dup_plan_def undeprecated_def plan_cands_def pkey_def dup_fb_def plan_blocks_def)

lemma plan_wf_dup: "plan_wf p \<Longrightarrow> plan_wf (dup_plan p)"
  by (auto simp: plan_wf_def fallback_wf_def undeprecated_def dup_fb_def sorted_wrt_map)

subsection \<open>Splitting\<close>

lemma attr_set_simps [simp]:
  "pa_range (attr_set_start s a) = (pa_range a)\<lparr>rg_start := s\<rparr>"
  "pa_range (attr_set_end s a) = (pa_range a)\<lparr>rg_end := s\<rparr>"
  "pa_prepare (attr_set_start s a) = pa_prepare a" "pa_prepare (attr_set_end s a) = pa_prepare a"
  "pa_vgroup (attr_set_start s a) = pa_vgroup a" "pa_vgroup (attr_set_end s a) = pa_vgroup a"
  "pa_score (attr_set_start s a) = pa_score a" "pa_score (attr_set_end s a) = pa_score a"
  by (simp_all add: attr_set_start_def attr_set_end_def)

lemma plan_set_simps [simp]:
  "plan_attr (plan_set_start s p) = attr_set_start s (plan_attr p)"
  "plan_attr (plan_set_end s p) = attr_set_end s (plan_attr p)"
  "plan_type (plan_set_start s p) = plan_type p" "plan_type (plan_set_end s p) = plan_type p"
  "plan_fallback (plan_set_start s p) = plan_fallback p" "plan_fallback (plan_set_end s p) = plan_fallback p"
  "pkey (plan_set_start s p) = pkey p" "pkey (plan_set_end s p) = pkey p"
  by (simp_all add: plan_set_start_def plan_set_end_def pkey_def)

lemma undeprecated_simps [simp]:
  "pa_range (undeprecated a) = pa_range a" "pa_prepare (undeprecated a) = pa_prepare a"
  "pa_vgroup (undeprecated a) = pa_vgroup a" "pa_score (undeprecated a) = pa_score a"
  by (simp_all add: undeprecated_def)

lemma dup_fb_simps [simp]:
  "plan_attr (dup_fb p) = undeprecated (plan_attr p)" "plan_type (dup_fb p) = plan_type p"
  "plan_fallback (dup_fb p) = []" "pkey (dup_fb p) = pkey p"
  by (simp_all add: dup_fb_def pkey_def)

text \<open>What splitting a plan yields: two plans like it, side by side.\<close>

definition split_of :: "ucg_plan \<Rightarrow> u64 \<Rightarrow> ucg_plan \<Rightarrow> ucg_plan \<Rightarrow> bool" where
  "split_of p m p1 p2 \<longleftrightarrow> plan_wf p1 \<and> plan_wf p2 \<and> pstart p1 = pstart p \<and> pend p1 = m \<and> pstart p2 = m \<and>
     pend p2 = pend p \<and> plan_cands p1 = plan_cands p \<and> plan_cands p2 = plan_cands p \<and>
     plan_blocks p1 = plan_blocks p \<and> plan_blocks p2 = plan_blocks p"

lemma split_result:
  assumes p: "plan_wf p" and m: "pstart p < m" "m < pend p" and s: "ucg_plan_split p m h = (r, h')"
  shows "(r = None \<and> h_live h' = h_live h) \<or>
         (\<exists>p1 p2. r = Some (p1, p2) \<and> split_of p m p1 p2 \<and> h_live h' = h_live h + plan_blocks p)"
proof -
  obtain rd h1 where d: "ucg_plan_dup p h = (rd, h1)" by (cases "ucg_plan_dup p h")
  from dup_flat_plan [OF plan_wf_flat [OF p] d] show ?thesis
  proof
    assume "rd = None \<and> h_live h1 = h_live h"
    then show ?thesis using s d by (simp add: ucg_plan_split_def)
  next
    assume a: "rd = Some (dup_plan p) \<and> h_live h1 = h_live h + plan_blocks p"
    let ?p1 = "Plan (attr_set_end m (plan_attr p)) (plan_type p) (map (plan_set_end m) (plan_fallback p))"
    let ?p2 = "Plan (attr_set_start m (undeprecated (plan_attr p))) (plan_type p)
                 (map (plan_set_start m) (map dup_fb (plan_fallback p)))"
    have "r = Some (?p1, ?p2)" "h' = h1"
      using s d a p by (auto simp: ucg_plan_split_def plan_wf_def)
    moreover have "split_of p m ?p1 ?p2"
      using p m by (auto simp: split_of_def plan_wf_def fallback_wf_def sorted_wrt_map plan_cands_def pkey_def plan_blocks_def)
    ultimately show ?thesis using a by blast
  qed
qed

lemma cut_result:
  assumes p: "plan_wf p" and c: "normalise_cut p q h = (r, h')"
  shows "(r = None \<and> h_live h' = h_live h) \<or>
         (r = Some (p, [], False) \<and> ucg_plan_need_split p q = None \<and> h_live h' = h_live h) \<or>
         (\<exists>m p1 p2. r = Some (p1, [p2], True) \<and> ucg_plan_need_split p q = Some m \<and> split_of p m p1 p2 \<and>
            h_live h' = h_live h + plan_blocks p)"
proof (cases "ucg_plan_need_split p q")
  case None
  then show ?thesis using c by (simp add: normalise_cut_def)
next
  case (Some m)
  note m = need_split_inside [OF Some]
  obtain rs h1 where s: "ucg_plan_split p m h = (rs, h1)" by (cases "ucg_plan_split p m h")
  from split_result [OF p _ _ s] m c Some s show ?thesis
    by (auto simp: normalise_cut_def)
qed

subsection \<open>Normalising\<close>

definition aligned :: "ucg_plan \<Rightarrow> ucg_plan \<Rightarrow> bool" where
  "aligned x y \<longleftrightarrow> (pstart x = pstart y \<and> pend x = pend y) \<or> pend x \<le> pstart y \<or> pend y \<le> pstart x"

definition norm_inv :: "ucg_plan list \<Rightarrow> ucg_plan list \<Rightarrow> ucg_plan list \<Rightarrow> ucg_plan \<Rightarrow> bool" where
  "norm_inv passed cur pieces np \<longleftrightarrow> plans_wf (passed @ cur) \<and> plans_wf (pieces @ [np]) \<and>
     (\<forall>x \<in> set passed. \<forall>y \<in> set (pieces @ [np]). aligned x y) \<and>
     (\<forall>x \<in> set cur. \<forall>y \<in> set pieces. aligned x y)"

lemma wf_range: "plan_wf p \<Longrightarrow> pstart p < pend p"
  by (simp add: plan_wf_def)

lemma need_split_cases:
  "ucg_plan_need_split p q = Some m \<Longrightarrow>
     (m = pstart q \<and> pstart p < pstart q \<and> pstart q < pend p) \<or>
     (m = pend q \<and> \<not> (pstart p < pstart q \<and> pstart q < pend p) \<and> pstart p < pend q \<and> pend q < pend p)"
  by (auto simp: ucg_plan_need_split_def split: if_splits)

lemma need_split_none:
  "ucg_plan_need_split p q = None \<longleftrightarrow>
     \<not> (pstart p < pstart q \<and> pstart q < pend p) \<and> \<not> (pstart p < pend q \<and> pend q < pend p)"
  by (auto simp: ucg_plan_need_split_def)

lemma norm_inv_break:
  assumes "norm_inv passed (e # rest) pieces np" and "pend np \<le> pstart e"
  shows "\<forall>x \<in> set (passed @ e # rest). \<forall>y \<in> set (pieces @ [np]). aligned x y"
proof -
  have "pend np \<le> pstart x" if "x \<in> set (e # rest)" for x
  proof (cases "x = e")
    case False
    then have "pend e \<le> pstart x" "pstart e < pend e"
      using assms(1) that wf_range by (auto simp: norm_inv_def plans_wf_append plans_wf_Cons)
    with assms(2) show ?thesis by order
  qed (use assms(2) in simp)
  then show ?thesis using assms(1) unfolding norm_inv_def aligned_def by auto
qed

lemma norm_inv_cut_exist:
  assumes i: "norm_inv passed (e # rest) pieces np" and lt: "\<not> pend np \<le> pstart e"
    and n: "ucg_plan_need_split e np = Some m" and s: "split_of e m e1 e2"
  shows "norm_inv passed (e1 # e2 # rest) pieces np" and "ucg_plan_need_split e1 np = None"
    and "pstart e1 = pstart e"
proof -
  have r: "pstart e1 = pstart e" "pend e1 = m" "pstart e2 = m" "pend e2 = pend e" and w: "plan_wf e1" "plan_wf e2"
    using s by (simp_all add: split_of_def)
  show "pstart e1 = pstart e" by (rule r)
  have np: "pstart np < pend np" using i wf_range by (simp add: norm_inv_def plans_wf_append plans_wf_Cons)
  have m: "pstart e < m" "m < pend e" using need_split_inside [OF n] by simp_all
  have eq_wf: "plans_wf (passed @ e1 # e2 # rest)"
    using i w r m by (auto simp: norm_inv_def plans_wf_append plans_wf_Cons)
  have "aligned e1 y \<and> aligned e2 y" if y: "y \<in> set pieces" for y
  proof -
    have a: "aligned e y" "pend y \<le> pstart np"
      using i y by (auto simp: norm_inv_def plans_wf_append plans_wf_Cons)
    from need_split_cases [OF n] have "\<not> (pstart e = pstart y \<and> pend e = pend y)"
      using a(2) np by auto
    with a(1) show ?thesis using r m by (auto simp: aligned_def)
  qed
  with eq_wf i show "norm_inv passed (e1 # e2 # rest) pieces np" by (auto simp: norm_inv_def)
  show "ucg_plan_need_split e1 np = None"
    using need_split_cases [OF n] np by (auto simp: need_split_none r)
qed

lemma norm_inv_cut_new:
  assumes i: "norm_inv passed (e # rest) pieces np" and lt: "\<not> pend np \<le> pstart e"
    and n1: "ucg_plan_need_split e np = None"
    and n: "ucg_plan_need_split np e = Some m" and s: "split_of np m np1 np2"
  shows "norm_inv passed (e # rest) (pieces @ [np1]) np2"
proof -
  have r: "pstart np1 = pstart np" "pend np1 = m" "pstart np2 = m" "pend np2 = pend np" and w: "plan_wf np1" "plan_wf np2"
    using s by (simp_all add: split_of_def)
  have np: "pstart np < pend np" and e: "pstart e < pend e"
    using i wf_range by (simp_all add: norm_inv_def plans_wf_append plans_wf_Cons)
  have m: "pstart np < m" "m < pend np" using need_split_inside [OF n] by simp_all
  have wf: "plans_wf ((pieces @ [np1]) @ [np2])"
    using i w r m by (auto simp: norm_inv_def plans_wf_append plans_wf_Cons)
  have old: "aligned x np1 \<and> aligned x np2" if x: "x \<in> set passed" for x
  proof -
    have "aligned x np" "pend x \<le> pstart e" using i x by (auto simp: norm_inv_def plans_wf_append plans_wf_Cons)
    moreover have "\<not> (pstart x = pstart np \<and> pend x = pend np)" using calculation(2) lt by auto
    ultimately show ?thesis using r m by (auto simp: aligned_def)
  qed
  have new: "aligned x np1" if x: "x \<in> set (e # rest)" for x
  proof -
    have x': "x = e \<or> pend e \<le> pstart x" using i x by (auto simp: norm_inv_def plans_wf_append plans_wf_Cons)
    from need_split_cases [OF n] show ?thesis
    proof
      assume "m = pstart e \<and> pstart np < pstart e \<and> pstart e < pend np"
      then show ?thesis using x' e r by (auto simp: aligned_def)
    next
      assume a: "m = pend e \<and> \<not> (pstart np < pstart e \<and> pstart e < pend np) \<and> pstart np < pend e \<and> pend e < pend np"
      then have "pstart e = pstart np" using n1 e by (auto simp: need_split_none)
      then show ?thesis using x' a r by (auto simp: aligned_def)
    qed
  qed
  show ?thesis using i wf old new unfolding norm_inv_def by auto
qed

lemma norm_inv_advance:
  assumes i: "norm_inv passed (e # rest) pieces np" and lt: "\<not> pend np \<le> pstart e"
    and n1: "ucg_plan_need_split e np = None" and n2: "ucg_plan_need_split np e = None"
  shows "norm_inv (passed @ [e]) rest pieces np"
proof -
  have np: "pstart np < pend np" and e: "pstart e < pend e"
    using i wf_range by (simp_all add: norm_inv_def plans_wf_append plans_wf_Cons)
  have "aligned e np" using n1 n2 lt np e by (auto simp: need_split_none aligned_def)
  with i show ?thesis by (auto simp: norm_inv_def)
qed

text \<open>What the loop promises of its result, for a list and pieces that started with the given view.\<close>

definition norm_ok :: "ucg_plan list \<Rightarrow> ucg_plan list \<Rightarrow> ucg_heap \<Rightarrow> normalise_result \<Rightarrow> bool" where
  "norm_ok head0 pieces0 h r \<longleftrightarrow>
     (case r of
        Normalised head pieces h' \<Rightarrow>
          plans_wf head \<and> plans_wf pieces \<and> cands head = cands head0 \<and> cands pieces = cands pieces0 \<and>
          (\<forall>x \<in> set head. \<forall>y \<in> set pieces. aligned x y) \<and>
          h_live h' - list_blocks head - list_blocks pieces = h_live h - list_blocks head0 - list_blocks pieces0
      | NormaliseFailed head p h' \<Rightarrow>
          plans_wf head \<and> cands head = cands head0 \<and> flat_plan p \<and>
          h_live h' - list_blocks head - plan_blocks p = h_live h - list_blocks head0 - list_blocks pieces0)"

lemma norm_ok_err:
  assumes i: "norm_inv passed cur pieces np"
  shows "norm_ok (passed @ cur) (pieces @ [np]) h (normalise_err (passed @ cur) (pieces @ [np]) h)"
proof -
  let ?ps = "pieces @ [np]"
  have wf: "\<forall>p \<in> set ?ps. flat_plan p"
    using i by (auto simp: norm_inv_def plans_wf_def plan_wf_flat)
  have ne: "?ps = hd ?ps # tl ?ps" by (cases pieces) auto
  have "flat_plan (hd ?ps)" "\<forall>p \<in> set (tl ?ps). flat_plan p" using wf ne by (metis list.set_intros(1), metis list.set_intros(2))
  moreover have "list_blocks ?ps = plan_blocks (hd ?ps) + list_blocks (tl ?ps)" by (metis ne list_blocks_simps(2))
  ultimately show ?thesis using i cleanup_one_live [of "tl ?ps" h]
    by (simp add: norm_ok_def normalise_err_def norm_inv_def)
qed

lemma norm_ok_done:
  assumes i: "norm_inv passed cur pieces np" and a: "\<forall>x \<in> set (passed @ cur). \<forall>y \<in> set (pieces @ [np]). aligned x y"
  shows "norm_ok (passed @ cur) (pieces @ [np]) h (Normalised (passed @ cur) (pieces @ [np]) h)"
  using assms by (simp add: norm_ok_def norm_inv_def)

lemma norm_ok_trans:
  assumes "norm_ok head1 pieces1 h1 r" and "cands head1 = cands head0" and "cands pieces1 = cands pieces0"
    and "h_live h1 - list_blocks head1 - list_blocks pieces1 = h_live h - list_blocks head0 - list_blocks pieces0"
  shows "norm_ok head0 pieces0 h r"
  using assms by (auto simp: norm_ok_def split: normalise_result.splits)

lemma split_of_cands:
  assumes "split_of p m p1 p2" and "pstart p < m" and "m < pend p"
  shows "cands [p1, p2] = cands [p]"
proof
  fix x
  show "cands [p1, p2] x = cands [p] x"
    using assms by (auto simp: cands_Cons split_of_def in_range_def)
qed

lemma cands_middle: "cands ys = cands zs \<Longrightarrow> cands (xs @ ys @ ws) = cands (xs @ zs @ ws)"
  by (simp add: fun_eq_iff)

lemma first_cut:
  assumes i: "norm_inv passed (e # rest) pieces np" and lt: "\<not> pend np \<le> pstart e"
    and c: "normalise_cut e np h = (Some (e', ins, b), h')"
  shows "norm_inv passed (e' # ins @ rest) pieces np" and "pstart e' = pstart e"
    and "ucg_plan_need_split e' np = None" and "b \<longleftrightarrow> ins \<noteq> []" and "cands (e' # ins) = cands [e]"
    and "h_live h' = h_live h - plan_blocks e + list_blocks (e' # ins)"
proof -
  have we: "plan_wf e" using i by (simp add: norm_inv_def plans_wf_append plans_wf_Cons)
  note r = cut_result [OF we c]
  have "norm_inv passed (e' # ins @ rest) pieces np \<and> pstart e' = pstart e \<and>
      ucg_plan_need_split e' np = None \<and> (b \<longleftrightarrow> ins \<noteq> []) \<and> cands (e' # ins) = cands [e] \<and>
      h_live h' = h_live h - plan_blocks e + list_blocks (e' # ins)"
  proof (cases "ucg_plan_need_split e np")
    case None
    then show ?thesis using r i by auto
  next
    case (Some m)
    then obtain e2 where e: "ins = [e2]" "b" "h_live h' = h_live h + plan_blocks e" and s: "split_of e m e' e2"
      using r by auto
    note m = need_split_inside [OF Some]
    have "plan_blocks e' = plan_blocks e" "plan_blocks e2 = plan_blocks e" using s by (simp_all add: split_of_def)
    then show ?thesis
      using norm_inv_cut_exist [OF i lt Some s] split_of_cands [OF s] m e by simp
  qed
  then show "norm_inv passed (e' # ins @ rest) pieces np" and "pstart e' = pstart e"
    and "ucg_plan_need_split e' np = None" and "b \<longleftrightarrow> ins \<noteq> []" and "cands (e' # ins) = cands [e]"
    and "h_live h' = h_live h - plan_blocks e + list_blocks (e' # ins)" by blast+
qed

lemma second_cut:
  assumes i: "norm_inv passed (e # rest) pieces np" and lt: "\<not> pend np \<le> pstart e"
    and n: "ucg_plan_need_split e np = None"
    and c: "normalise_cut np e h = (Some (np', ts, b), h')"
  shows "(ts = [] \<and> np' = np \<and> h_live h' = h_live h \<and> norm_inv (passed @ [e]) rest pieces np) \<or>
         (\<exists>t. ts = [t] \<and> b \<and> norm_inv passed (e # rest) (pieces @ [np']) t \<and> cands [np', t] = cands [np] \<and>
            h_live h' = h_live h - plan_blocks np + list_blocks [np', t])"
proof -
  have wn: "plan_wf np" using i by (simp add: norm_inv_def plans_wf_append plans_wf_Cons)
  note r = cut_result [OF wn c]
  show ?thesis
  proof (cases "ucg_plan_need_split np e")
    case None
    then show ?thesis using r norm_inv_advance [OF i lt n] by auto
  next
    case (Some m)
    then obtain t where t: "ts = [t]" "b" "h_live h' = h_live h + plan_blocks np" and s: "split_of np m np' t"
      using r by auto
    note m = need_split_inside [OF Some]
    have "plan_blocks np' = plan_blocks np" "plan_blocks t = plan_blocks np" using s by (simp_all add: split_of_def)
    then show ?thesis
      using norm_inv_cut_new [OF i lt n Some s] split_of_cands [OF s] m t by simp
  qed
qed

lemma normalise_loop_ok:
  "norm_inv passed cur pieces np \<Longrightarrow> norm_ok (passed @ cur) (pieces @ [np]) h (normalise_loop passed cur pieces np h)"
proof (induction passed cur pieces np h rule: normalise_loop.induct)
  case (1 passed pieces np h)
  then show ?case using norm_ok_done [of passed "[]" pieces np h] by (auto simp: norm_inv_def)
next
  case (2 passed e rest pieces np h)
  note i = "2.prems"
  have we: "plan_wf e" and wn: "plan_wf np" using i by (simp_all add: norm_inv_def plans_wf_append plans_wf_Cons)
  obtain r1 h1 where c1: "normalise_cut e np h = (r1, h1)" by (cases "normalise_cut e np h")
  show ?case
  proof (cases "pend np \<le> pstart e")
    case True
    then show ?thesis using norm_ok_done [OF i norm_inv_break [OF i True]] by simp
  next
    case lt: False
    show ?thesis
    proof (cases r1)
      case None
      then have "h_live h1 = h_live h" using cut_result [OF we c1] by auto
      then show ?thesis using norm_ok_trans [OF norm_ok_err [OF i, of h1]] lt c1 None by simp
    next
      case (Some x)
      obtain e' ins b1 where x: "x = (e', ins, b1)" by (cases x)
      note c1' = c1 [unfolded Some x]
      note f = first_cut [OF i lt c1']
      have lt': "\<not> pend np \<le> pstart e'" using lt f(2) by simp
      have cv: "cands (passed @ e' # ins @ rest) = cands (passed @ e # rest)"
        using cands_middle [OF f(5), of passed rest] by simp
      obtain r2 h2 where c2: "normalise_cut np e' h1 = (r2, h2)" by (cases "normalise_cut np e' h1")
      show ?thesis
      proof (cases r2)
        case None
        then have "h_live h2 = h_live h1" using cut_result [OF wn c2] by auto
        then show ?thesis
          using norm_ok_trans [OF norm_ok_err [OF f(1), of h2] cv refl, of h] lt c1' c2 None f(6) by simp
      next
        case (Some y)
        obtain np' ts b2 where y: "y = (np', ts, b2)" by (cases y)
        note c2' = c2 [unfolded Some y]
        from second_cut [OF f(1) lt' f(3) c2'] show ?thesis
        proof (elim disjE exE conjE)
          assume a: "ts = []" "np' = np" "h_live h2 = h_live h1" "norm_inv (passed @ [e']) (ins @ rest) pieces np"
          show ?thesis
          proof (cases b1)
            case True
            have "norm_ok (passed @ e' # ins @ rest) (pieces @ [np]) h2 (normalise_loop passed (e' # ins @ rest) pieces np h2)"
              using "2.IH"(1) [OF lt c1' [symmetric] refl refl refl c2' [symmetric] refl refl refl a(1) True]
                f(1) a(2) by simp
            then show ?thesis
              using norm_ok_trans [OF _ cv refl, of _ h2 _ h] lt c1' c2' a True f(6) by simp
          next
            case False
            then have ins: "ins = []" using f(4) by simp
            have "norm_ok ((passed @ [e']) @ rest) (pieces @ [np]) h2 (normalise_loop (passed @ [e']) rest pieces np h2)"
              using "2.IH"(2) [OF lt c1' [symmetric] refl refl refl c2' [symmetric] refl refl refl a(1) False]
                a(2,4) ins by simp
            then show ?thesis
              using norm_ok_trans [OF _ cv refl, of _ h2 _ h] lt c1' c2' a False f(6) ins by simp
          qed
        next
          fix t
          assume a: "ts = [t]" b2 "norm_inv passed (e' # ins @ rest) (pieces @ [np']) t"
            "cands [np', t] = cands [np]" "h_live h2 = h_live h1 - plan_blocks np + list_blocks [np', t]"
          have cp: "cands ((pieces @ [np']) @ [t]) = cands (pieces @ [np])"
            using cands_middle [OF a(4), of pieces "[]"] by simp
          have "norm_ok (passed @ e' # ins @ rest) ((pieces @ [np']) @ [t]) h2
                  (normalise_loop passed (e' # ins @ rest) (pieces @ [np']) t h2)"
            using "2.IH"(3) [OF lt c1' [symmetric] refl refl refl c2' [symmetric] refl refl refl a(1,2)]
              a(3) by simp
          then show ?thesis
            using norm_ok_trans [OF _ cv cp, of h2 _ h] lt c1' c2' a f(6) by simp
        qed
      qed
    qed
  qed
qed

subsection \<open>Merging aligned lists\<close>

abbreviation by_score :: "ucg_plan \<Rightarrow> ucg_plan \<Rightarrow> bool" where
  "by_score a b \<equiv> pscore b \<le> pscore a"

lemma fallback_insert_mset [simp]: "mset (fallback_insert fb fbs) = add_mset fb (mset fbs)"
  by (induction fbs) simp_all

lemma fallback_insert_set [simp]: "set (fallback_insert fb fbs) = insert fb (set fbs)"
  using fallback_insert_mset [of fb fbs] by (metis set_mset_add_mset_insert set_mset_mset)

lemma fallback_insert_sorted: "sorted_wrt by_score fbs \<Longrightarrow> sorted_wrt by_score (fallback_insert fb fbs)"
  by (induction fbs) (auto intro: order_trans less_imp_le)

lemma add_flat_fallback:
  "flat_fallback fb \<Longrightarrow> ucg_plan_add_fallback fbs fb = fallback_insert fb fbs"
  by (cases fb) (simp add: flat_fallback_def)

lemma add_flat_fallbacks:
  assumes "\<forall>fb \<in> set xs. flat_fallback fb"
  shows "mset (ucg_plan_add_fallbacks fbs xs) = mset fbs + mset xs"
    and "sorted_wrt by_score fbs \<Longrightarrow> sorted_wrt by_score (ucg_plan_add_fallbacks fbs xs)"
  using assms by (induction xs arbitrary: fbs) (simp_all add: add_flat_fallback fallback_insert_sorted)

lemma add_flat_plan:
  assumes "flat_plan q"
  defines "q' \<equiv> Plan (plan_attr q) UCG_PLAN_TYPE_FALLBACK []"
  shows "mset (ucg_plan_add_fallback fbs q) = mset fbs + add_mset q' (mset (plan_fallback q))"
    and "sorted_wrt by_score fbs \<Longrightarrow> sorted_wrt by_score (ucg_plan_add_fallback fbs q)"
  using assms add_flat_fallbacks [of "plan_fallback q"]
  by (cases q; simp add: flat_plan_def fallback_insert_sorted)+

lemma plan_with_fallback_wf:
  assumes p: "plan_wf p" and q: "plan_wf q" and r: "pa_range (plan_attr q) = pa_range (plan_attr p)"
    and s: "pscore q \<le> pscore p"
  shows "plan_wf (plan_with_fallback p q)"
    and "mset (plan_cands (plan_with_fallback p q)) = mset (plan_cands p) + mset (plan_cands q)"
    and "plan_blocks (plan_with_fallback p q) = plan_blocks p + plan_blocks q"
    and "pa_range (plan_attr (plan_with_fallback p q)) = pa_range (plan_attr p)"
proof -
  let ?q = "Plan (plan_attr q) UCG_PLAN_TYPE_FALLBACK []"
  note a = add_flat_plan [OF plan_wf_flat [OF q], of "plan_fallback p"]
  have set: "set (ucg_plan_add_fallback (plan_fallback p) q) = insert ?q (set (plan_fallback p) \<union> set (plan_fallback q))"
    using arg_cong [OF a(1), of set_mset] by simp
  have sort: "sorted_wrt by_score (ucg_plan_add_fallback (plan_fallback p) q)"
    using a(2) p by (simp add: plan_wf_def)
  show "plan_wf (plan_with_fallback p q)"
  proof -
    have "by_score p fb" if "fb \<in> set (plan_fallback q)" for fb
    proof -
      have "by_score q fb" using q that by (simp add: plan_wf_def)
      with s show ?thesis by order
    qed
    then have top: "\<forall>fb \<in> set (ucg_plan_add_fallback (plan_fallback p) q). by_score p fb"
      using p s unfolding set by (auto simp: plan_wf_def)
    have "\<forall>fb \<in> set (ucg_plan_add_fallback (plan_fallback p) q). fallback_wf p fb"
    proof
      fix fb assume "fb \<in> set (ucg_plan_add_fallback (plan_fallback p) q)"
      then consider "fb = ?q" | "fb \<in> set (plan_fallback p)" | "fb \<in> set (plan_fallback q)" unfolding set by blast
      then show "fallback_wf p fb"
      proof cases
        case 1
        then show ?thesis using q r by (simp add: fallback_wf_def plan_wf_def)
      next
        case 2
        then show ?thesis using p by (simp add: plan_wf_def)
      next
        case 3
        then have "fallback_wf q fb" using q by (simp add: plan_wf_def)
        then show ?thesis using r unfolding fallback_wf_def by (simp only: simp_thms)
      qed
    qed
    moreover have "plan_attr (plan_with_fallback p q) = plan_attr p" "plan_type (plan_with_fallback p q) = plan_type p"
      "plan_fallback (plan_with_fallback p q) = ucg_plan_add_fallback (plan_fallback p) q"
      by (simp_all add: plan_with_fallback_def)
    moreover have "fallback_wf (plan_with_fallback p q) = fallback_wf p"
      by (simp add: fallback_wf_def plan_with_fallback_def fun_eq_iff)
    ultimately show ?thesis using p top sort unfolding plan_wf_def sorted_wrt.simps by metis
  qed
  have "size (mset (ucg_plan_add_fallback (plan_fallback p) q)) = length (plan_fallback p) + (1 + length (plan_fallback q))"
    unfolding a(1) by simp
  then show "plan_blocks (plan_with_fallback p q) = plan_blocks p + plan_blocks q"
    by (simp add: plan_blocks_def plan_with_fallback_def)
  have "pkey ?q = pkey q" by (simp add: pkey_def)
  then have "mset (map pkey (ucg_plan_add_fallback (plan_fallback p) q))
      = mset (map pkey (plan_fallback p)) + add_mset (pkey q) (mset (map pkey (plan_fallback q)))"
    using arg_cong [OF a(1), of "image_mset pkey"] by simp
  then show "mset (plan_cands (plan_with_fallback p q)) = mset (plan_cands p) + mset (plan_cands q)"
    by (simp add: plan_cands_def plan_with_fallback_def pkey_def)
  show "pa_range (plan_attr (plan_with_fallback p q)) = pa_range (plan_attr p)"
    by (simp add: plan_with_fallback_def)
qed

lemma aligned_same_start:
  "aligned x y \<Longrightarrow> plan_wf x \<Longrightarrow> plan_wf y \<Longrightarrow> pstart x = pstart y \<Longrightarrow> pend x = pend y"
  using wf_range [of x] wf_range [of y] by (auto simp: aligned_def)

lemma aligned_less:
  "aligned x y \<Longrightarrow> plan_wf x \<Longrightarrow> plan_wf y \<Longrightarrow> pstart x < pstart y \<Longrightarrow> pend x \<le> pstart y"
  using wf_range [of x] wf_range [of y] by (auto simp: aligned_def)

lemma in_range_cong: "pa_range (plan_attr p) = pa_range (plan_attr q) \<Longrightarrow> in_range m p = in_range m q"
  by (simp add: in_range_def)

lemma range_eqI: "pstart p = pstart q \<Longrightarrow> pend p = pend q \<Longrightarrow> pa_range (plan_attr p) = pa_range (plan_attr q)"
  by (cases "pa_range (plan_attr p)"; cases "pa_range (plan_attr q)") simp

lemma add_pieces_ok:
  assumes "plans_wf head" and "plans_wf pieces" and "\<forall>x \<in> set head. \<forall>y \<in> set pieces. aligned x y"
  shows "plans_wf (add_pieces head pieces) \<and>
         (\<forall>m. mset (cands (add_pieces head pieces) m) = mset (cands head m) + mset (cands pieces m)) \<and>
         list_blocks (add_pieces head pieces) = list_blocks head + list_blocks pieces \<and>
         (\<forall>r \<in> set (add_pieces head pieces). \<exists>x \<in> set head \<union> set pieces. pstart r = pstart x)"
  using assms
proof (induction head pieces rule: add_pieces.induct)
  case (1 pieces)
  then show ?case by auto
next
  case (2 e rest)
  then show ?case by auto
next
  case (3 e rest n ns)
  have w: "plan_wf e" "plan_wf n" "plans_wf rest" "plans_wf ns" and al: "aligned e n"
    and le: "\<forall>q \<in> set rest. pend e \<le> pstart q" "\<forall>q \<in> set ns. pend n \<le> pstart q"
    using "3.prems" by (auto simp: plans_wf_Cons)
  show ?case
  proof (cases "pstart n = pstart e")
    case eq: True
    have r: "pa_range (plan_attr n) = pa_range (plan_attr e)"
      using aligned_same_start [OF al w(1,2)] eq by (intro range_eqI) simp_all
    define p where "p = (if pscore n > pscore e then plan_with_fallback n e else plan_with_fallback e n)"
    have p: "plan_wf p" "mset (plan_cands p) = mset (plan_cands e) + mset (plan_cands n)"
      "plan_blocks p = plan_blocks e + plan_blocks n" "pa_range (plan_attr p) = pa_range (plan_attr e)"
      using plan_with_fallback_wf [OF w(2,1) r [symmetric]] plan_with_fallback_wf [OF w(1,2) r] r
      by (auto simp: p_def)
    have e: "add_pieces (e # rest) (n # ns) = p # add_pieces rest ns" using eq by (simp add: p_def)
    have IH: "plans_wf (add_pieces rest ns) \<and>
         (\<forall>m. mset (cands (add_pieces rest ns) m) = mset (cands rest m) + mset (cands ns m)) \<and>
         list_blocks (add_pieces rest ns) = list_blocks rest + list_blocks ns \<and>
         (\<forall>r \<in> set (add_pieces rest ns). \<exists>x \<in> set rest \<union> set ns. pstart r = pstart x)"
    proof (cases "pscore n > pscore e")
      case True
      then show ?thesis using "3.IH"(1) [OF eq True w(3,4)] "3.prems"(3) by simp
    next
      case False
      then show ?thesis using "3.IH"(2) [OF eq False w(3,4)] "3.prems"(3) by simp
    qed
    have "pend p \<le> pstart r'" if mem: "r' \<in> set (add_pieces rest ns)" for r'
    proof -
      obtain x where "x \<in> set rest \<union> set ns" "pstart r' = pstart x"
        using bspec [OF conjunct2 [OF conjunct2 [OF conjunct2 [OF IH]]] mem] by (elim bexE)
      moreover have "pend p = pend e" "pend n = pend e" by (simp_all only: p(4) r)
      ultimately show ?thesis using le by (metis Un_iff)
    qed
    then have "plans_wf (p # add_pieces rest ns)" using IH p(1) by (simp add: plans_wf_Cons)
    moreover have "mset (cands (p # add_pieces rest ns) m) = mset (cands (e # rest) m) + mset (cands (n # ns) m)" for m
      using IH p(2) in_range_cong [OF p(4), of m] in_range_cong [OF r, of m] by (simp add: cands_Cons)
    ultimately show ?thesis unfolding e using IH p(3,4) by auto
  next
    case ne: False
    show ?thesis
    proof (cases "pstart n < pstart e")
      case True
      then have e: "add_pieces (e # rest) (n # ns) = n # add_pieces (e # rest) ns" using ne by simp
      have IH: "plans_wf (add_pieces (e # rest) ns) \<and>
         (\<forall>m. mset (cands (add_pieces (e # rest) ns) m) = mset (cands (e # rest) m) + mset (cands ns m)) \<and>
         list_blocks (add_pieces (e # rest) ns) = list_blocks (e # rest) + list_blocks ns \<and>
         (\<forall>r \<in> set (add_pieces (e # rest) ns). \<exists>x \<in> set (e # rest) \<union> set ns. pstart r = pstart x)"
        using "3.IH"(3) [OF ne True "3.prems"(1) w(4)] "3.prems"(3) by simp
      have ne': "pend n \<le> pstart e" using aligned_less [of n e] al True w by (auto simp: aligned_def)
      have "pend n \<le> pstart x" if "x \<in> set (e # rest) \<union> set ns" for x
      proof -
        have "x = e \<or> pend e \<le> pstart x \<or> x \<in> set ns" using le(1) that by auto
        then show ?thesis using ne' le(2) wf_range [OF w(1)] by (elim disjE) (simp, order, simp)
      qed
      then have "\<forall>r \<in> set (add_pieces (e # rest) ns). pend n \<le> pstart r" using IH by metis
      then have "plans_wf (n # add_pieces (e # rest) ns)" using IH w(2) by (simp add: plans_wf_Cons del: add_pieces.simps)
      then show ?thesis unfolding e using IH by (auto simp: cands_Cons)
    next
      case False
      with ne have lt: "pstart e < pstart n" by simp
      have e: "add_pieces (e # rest) (n # ns) = e # add_pieces rest (n # ns)" using ne False by simp
      have IH: "plans_wf (add_pieces rest (n # ns)) \<and>
         (\<forall>m. mset (cands (add_pieces rest (n # ns)) m) = mset (cands rest m) + mset (cands (n # ns) m)) \<and>
         list_blocks (add_pieces rest (n # ns)) = list_blocks rest + list_blocks (n # ns) \<and>
         (\<forall>r \<in> set (add_pieces rest (n # ns)). \<exists>x \<in> set rest \<union> set (n # ns). pstart r = pstart x)"
        using "3.IH"(4) [OF ne False w(3) "3.prems"(2)] "3.prems"(3) by simp
      have "pend e \<le> pstart n" by (rule aligned_less [OF al w(1,2) lt])
      have "pend e \<le> pstart x" if "x \<in> set rest \<union> set (n # ns)" for x
      proof -
        have "x = n \<or> pend n \<le> pstart x \<or> x \<in> set rest" using le(2) that by auto
        then show ?thesis using \<open>pend e \<le> pstart n\<close> le(1) wf_range [OF w(2)] by (elim disjE) (simp, order, simp)
      qed
      then have "\<forall>r \<in> set (add_pieces rest (n # ns)). pend e \<le> pstart r" using IH by metis
      then have "plans_wf (e # add_pieces rest (n # ns))" using IH w(1) by (simp add: plans_wf_Cons del: add_pieces.simps)
      then show ?thesis unfolding e using IH by (auto simp: cands_Cons)
    qed
  qed
qed

subsection \<open>Compaction\<close>

lemma compactible_flat_fallback:
  "length xs = length ys \<Longrightarrow> \<forall>x \<in> set xs. flat_fallback x \<Longrightarrow>
   fallback_is_compactible xs ys \<Longrightarrow> map pkey xs = map pkey ys"
proof (induction xs ys rule: list_induct2)
  case (Cons x xs y ys)
  obtain a where x: "x = Plan a UCG_PLAN_TYPE_FALLBACK []"
    using Cons.prems(1) by (cases x) (auto simp: flat_fallback_def)
  show ?case using Cons by (auto simp: x pkey_def split: if_splits)
qed simp

lemma compact_ok:
  assumes p: "plan_wf p" and q: "plan_wf q" and c: "ucg_plan_is_compactible p q"
  shows "plan_wf (ucg_plan_compact p q)" and "pstart (ucg_plan_compact p q) = pstart p"
    and "pend (ucg_plan_compact p q) = pend q" and "plan_blocks (ucg_plan_compact p q) = plan_blocks p"
    and "cands [ucg_plan_compact p q] = cands [p, q]"
proof -
  obtain a fbs where pe: "p = Plan a UCG_PLAN_TYPE_FIRST_CLASS fbs" using p by (cases p) (auto simp: plan_wf_def)
  have l: "length fbs = length (plan_fallback q)" and k: "pkey p = pkey q" and j: "pend p = pstart q"
    and f: "fallback_is_compactible fbs (plan_fallback q)"
    using c by (auto simp: pe pkey_def split: if_splits)
  have fk: "map pkey fbs = map pkey (plan_fallback q)"
    using compactible_flat_fallback [OF l _ f] plan_wf_flat [OF p] by (simp add: pe flat_plan_def)
  let ?fbs = "map (\<lambda>(x, y). plan_set_end (pend y) x) (zip fbs (plan_fallback q))"
  have eq: "?fbs = map (plan_set_end (pend q)) fbs"
  proof (rule nth_equalityI)
    show "length ?fbs = length (map (plan_set_end (pend q)) fbs)" using l by simp
    fix i assume "i < length ?fbs"
    then have i: "i < length fbs" "plan_fallback q ! i \<in> set (plan_fallback q)" using l by simp_all
    then have "pa_range (plan_attr (plan_fallback q ! i)) = pa_range (plan_attr q)"
      using q by (simp add: plan_wf_def fallback_wf_def)
    then show "?fbs ! i = map (plan_set_end (pend q)) fbs ! i" using i l by simp
  qed
  have ce: "ucg_plan_compact p q = Plan (attr_set_end (pend q) a) UCG_PLAN_TYPE_FIRST_CLASS (map (plan_set_end (pend q)) fbs)"
    using eq by (simp add: ucg_plan_compact_def pe)
  have lt: "pstart p < pend p" "pstart q < pend q" using p q by (simp_all add: plan_wf_def)
  show r: "pstart (ucg_plan_compact p q) = pstart p" "pend (ucg_plan_compact p q) = pend q"
    and "plan_blocks (ucg_plan_compact p q) = plan_blocks p"
    unfolding ce by (simp_all add: pe plan_blocks_def)
  show "plan_wf (ucg_plan_compact p q)"
    using p lt j unfolding ce by (auto simp: plan_wf_def pe fallback_wf_def sorted_wrt_map)
  have pc: "plan_cands (ucg_plan_compact p q) = plan_cands p" "plan_cands q = plan_cands p"
    using fk k unfolding ce by (simp_all add: plan_cands_def pe pkey_def [of "Plan _ _ _"] pkey_def [of q] comp_def)
  show "cands [ucg_plan_compact p q] = cands [p, q]"
    using lt j by (intro ext) (auto simp: cands_Cons pc in_range_def r)
qed

lemma compact_one_ok:
  assumes "plans_wf ps" and "ucg_plans_compact_one ps h = (ps', h')"
  shows "plans_wf ps' \<and> cands ps' = cands ps \<and> h_live h' - list_blocks ps' = h_live h - list_blocks ps \<and>
         (\<forall>r \<in> set ps'. \<exists>x \<in> set ps. pstart r = pstart x)"
  using assms
proof (induction ps h arbitrary: ps' h' rule: ucg_plans_compact_one.induct)
  case (3 p q rest h)
  have w: "plan_wf p" "plan_wf q" "plans_wf rest" using "3.prems"(1) by (simp_all add: plans_wf_Cons)
  show ?case
  proof (cases "ucg_plan_is_compactible p q")
    case True
    note c = compact_ok [OF w(1,2) True]
    have "plans_wf (ucg_plan_compact p q # rest)" using "3.prems"(1) c by (auto simp: plans_wf_Cons)
    moreover have "cands (ucg_plan_compact p q # rest) = cands (p # q # rest)"
      using cands_middle [OF c(5), of "[]" rest] by simp
    moreover have "h_live (ucg_plan_destroy q h) = h_live h - plan_blocks q"
      by (rule destroy_live [OF plan_wf_flat [OF w(2)]])
    ultimately show ?thesis using "3.IH"(1) [OF True] "3.prems"(2) True c(2,4) by (auto simp: plan_blocks_def)
  next
    case False
    obtain qs h1 where r: "ucg_plans_compact_one (q # rest) h = (qs, h1)" by (cases "ucg_plans_compact_one (q # rest) h")
    have "plans_wf (q # rest)" using "3.prems"(1) by (simp add: plans_wf_Cons)
    note IH = "3.IH"(2) [OF False this r]
    have "\<forall>x \<in> set (q # rest). pend p \<le> pstart x" using "3.prems"(1) by (simp add: plans_wf_Cons)
    then have "plans_wf (p # qs)" using IH w(1) by (metis plans_wf_Cons)
    then show ?thesis using IH r False "3.prems"(2) by (auto simp: cands_Cons fun_eq_iff)
  qed
qed auto

end
