(* ===== verification/Plan_Store.thy ===== *)
theory Plan_Store
  imports Plan_Spec
begin

text \<open>
  The container as a whole: what \<open>ucg_plans_add\<close>, \<open>ucg_plans_merge\<close> and \<open>ucg_plans_prepare\<close> promise, and
  the interface the plan components rely on when they register their plans.
\<close>

subsection \<open>Adding to one list\<close>

lemma norm_inv_start: "plans_wf head \<Longrightarrow> plan_wf plan \<Longrightarrow> norm_inv [] head [] plan"
  by (simp add: norm_inv_def plans_wf_Cons)

lemma add_one_ok:
  assumes "plans_wf head" and "plan_wf plan" and "ucg_plans_add_one head plan h = (st, head', rej, h')"
  shows "plans_wf head' \<and>
    ((st = UCG_OK \<and> rej = None \<and> (\<forall>m. mset (cands head' m) = mset (cands head m) + mset (cands [plan] m)) \<and>
        h_live h' - list_blocks head' = h_live h - list_blocks head - plan_blocks plan) \<or>
     (st = UCG_ERR_NO_MEMORY \<and> cands head' = cands head \<and>
        (\<exists>p. rej = Some p \<and> flat_plan p \<and>
           h_live h' - list_blocks head' - plan_blocks p = h_live h - list_blocks head - plan_blocks plan)))"
proof -
  note ok = normalise_loop_ok [OF norm_inv_start [OF assms(1,2)], of h]
  show ?thesis
  proof (cases "normalise_loop [] head [] plan h")
    case (Normalised head1 pieces h1)
    then have n: "plans_wf head1" "plans_wf pieces" "cands head1 = cands head" "cands pieces = cands [plan]"
      "\<forall>x \<in> set head1. \<forall>y \<in> set pieces. aligned x y"
      "h_live h1 - list_blocks head1 - list_blocks pieces = h_live h - list_blocks head - plan_blocks plan"
      using ok by (simp_all add: norm_ok_def)
    have "st = UCG_OK" "rej = None" "h' = h1" "head' = add_pieces head1 pieces"
      using assms(3) Normalised by (simp_all add: ucg_plans_add_one_def)
    then show ?thesis using add_pieces_ok [OF n(1,2,5)] n(3,4,6) by simp
  next
    case (NormaliseFailed head1 p h1)
    then show ?thesis using ok assms(3) by (auto simp: norm_ok_def ucg_plans_add_one_def)
  qed
qed

lemma dup_list_ok:
  assumes "\<forall>p \<in> set src. plan_wf p" and "ucg_plans_dup_one dst src h = (st, dst', h')"
  shows "\<exists>k \<le> length src. dst' = dst @ map dup_plan (take k src) \<and> (st = UCG_OK \<longleftrightarrow> k = length src) \<and>
           h_live h' = h_live h + list_blocks (take k src)"
  using assms
proof (induction dst src h rule: ucg_plans_dup_one.induct)
  case (2 dst p rest h)
  obtain r h1 where d: "ucg_plan_dup p h = (r, h1)" by (cases "ucg_plan_dup p h")
  have "plan_wf p" using "2.prems"(1) by simp
  from dup_flat_plan [OF plan_wf_flat [OF this] d] show ?case
  proof
    assume a: "r = None \<and> h_live h1 = h_live h"
    then have "st = UCG_ERR_NO_MEMORY" "dst' = dst" "h' = h1" using d "2.prems"(2) by simp_all
    then show ?thesis using a by (intro exI [of _ 0]) simp
  next
    assume a: "r = Some (dup_plan p) \<and> h_live h1 = h_live h + plan_blocks p"
    then obtain k where "k \<le> length rest" "dst' = (dst @ [dup_plan p]) @ map dup_plan (take k rest)"
      "st = UCG_OK \<longleftrightarrow> k = length rest" "h_live h' = h_live h1 + list_blocks (take k rest)"
      using "2.IH" [OF d [symmetric]] "2.prems" d by auto
    then show ?thesis using a by (intro exI [of _ "Suc k"]) simp
  qed
qed auto

lemma dup_list_wf: "plans_wf ps \<Longrightarrow> plans_wf (map dup_plan (take k ps))"
  by (induction ps arbitrary: k) (auto simp: plans_wf_Cons take_Cons plan_wf_dup dest: in_set_takeD split: nat.splits)

lemma dup_list_cands: "cands (map dup_plan ps) m = cands ps m"
  by (induction ps) (auto simp: cands_Cons in_range_def)

lemma dup_list_blocks: "list_blocks (map dup_plan ps) = list_blocks ps"
  by (induction ps) simp_all

lemma merge_one_ok:
  assumes "plans_wf head" and "\<forall>p \<in> set ps. plan_wf p" and "ucg_plans_merge_one head ps h = (st, head', h')"
  shows "plans_wf head' \<and>
    (st = UCG_OK \<longrightarrow> (\<forall>m. mset (cands head' m) = mset (cands head m) + mset (cands ps m)) \<and>
       h_live h' - list_blocks head' = h_live h - list_blocks head) \<and>
    (st \<noteq> UCG_OK \<longrightarrow> st = UCG_ERR_NO_MEMORY \<and> h_live h - list_blocks head \<le> h_live h' - list_blocks head')"
  using assms
proof (induction head ps h rule: ucg_plans_merge_one.induct)
  case (1 head h)
  obtain head1 h1 where c: "ucg_plans_compact_one head h = (head1, h1)" by (cases "ucg_plans_compact_one head h")
  then show ?case using compact_one_ok [OF "1.prems"(1) c] "1.prems" by auto
next
  case (2 head p rest h)
  obtain r h1 where d: "ucg_plan_dup p h = (r, h1)" by (cases "ucg_plan_dup p h")
  have wp: "plan_wf p" using "2.prems"(2) by simp
  from dup_flat_plan [OF plan_wf_flat [OF wp] d] show ?case
  proof
    assume "r = None \<and> h_live h1 = h_live h"
    then show ?thesis using d "2.prems" by auto
  next
    assume a: "r = Some (dup_plan p) \<and> h_live h1 = h_live h + plan_blocks p"
    obtain s head1 rej h2 where ad: "ucg_plans_add_one head (dup_plan p) h1 = (s, head1, rej, h2)"
      by (cases "ucg_plans_add_one head (dup_plan p) h1")
    note o = add_one_ok [OF "2.prems"(1) plan_wf_dup [OF wp] ad]
    show ?thesis
    proof (cases "s = UCG_OK")
      case True
      have e: "ucg_plans_merge_one head1 rest h2 = (st, head', h')" using "2.prems"(3) d a ad True by simp
      have IH: "plans_wf head' \<and>
        (st = UCG_OK \<longrightarrow> (\<forall>m. mset (cands head' m) = mset (cands head1 m) + mset (cands rest m)) \<and>
           h_live h' - list_blocks head' = h_live h2 - list_blocks head1) \<and>
        (st \<noteq> UCG_OK \<longrightarrow> st = UCG_ERR_NO_MEMORY \<and> h_live h2 - list_blocks head1 \<le> h_live h' - list_blocks head')"
        using "2.IH" [OF d [symmetric] conjunct1 [OF a] ad [symmetric] refl refl] o True "2.prems"(2) e by auto
      have "\<forall>m. mset (cands head1 m) = mset (cands head m) + mset (cands [p] m)"
        using o True by (auto simp: cands_Cons in_range_def)
      moreover have "h_live h2 - list_blocks head1 = h_live h - list_blocks head" using o True a by auto
      ultimately show ?thesis using IH by (auto simp: cands_Cons [of p rest] cands_Cons [of p "[]"])
    next
      case False
      then obtain q where "st = UCG_ERR_NO_MEMORY" "head' = head1" "h' = h2" "plans_wf head1"
        "h_live h2 - list_blocks head1 - plan_blocks q = h_live h1 - list_blocks head - plan_blocks (dup_plan p)"
        using o "2.prems"(3) d a ad by auto
      moreover have "0 \<le> plan_blocks q" by (simp add: plan_blocks_def)
      ultimately show ?thesis using a by auto
    qed
  qed
qed
subsection \<open>The container\<close>

definition store_wf :: "ucg_plans \<Rightarrow> bool" where
  "store_wf plans \<longleftrightarrow> (\<forall>slot. plans_wf (plans slot))"

definition store_blocks :: "ucg_plans \<Rightarrow> int" where
  "store_blocks plans = (\<Sum>slot \<leftarrow> ucg_slots. list_blocks (plans slot))"

lemma store_blocks_upd:
  assumes "slot \<in> set ucg_slots"
  shows "store_blocks (plans(slot := ps)) = store_blocks plans - list_blocks (plans slot) + list_blocks ps"
proof -
  have "(\<Sum>s \<leftarrow> xs. list_blocks ((plans(slot := ps)) s)) =
      (\<Sum>s \<leftarrow> xs. list_blocks (plans s)) - (if slot \<in> set xs then list_blocks (plans slot) - list_blocks ps else 0)"
    if "distinct xs" for xs using that by (induction xs) auto
  from this [OF distinct_ucg_slots] show ?thesis using assms by (simp add: store_blocks_def)
qed

definition attr_key :: "ucg_plan_attr \<Rightarrow> plan_key" where
  "attr_key a = (pa_prepare a, pa_vgroup a, pa_score a)"

text \<open>What adding a plan contributes to the view.\<close>

definition params_contrib :: "ucg_plan_params \<Rightarrow> ucg_coll_type \<times> ucg_mem_type \<Rightarrow> u64 \<Rightarrow> plan_key multiset" where
  "params_contrib params slot m =
     (if \<not> pa_deprecated (pp_attr params) \<and> slot = (pp_coll_type params, pp_mem_type params)
         \<and> rg_start (pa_range (pp_attr params)) \<le> m \<and> m < rg_end (pa_range (pp_attr params))
      then {#attr_key (pp_attr params)#} else {#})"

definition store_view :: "ucg_plans \<Rightarrow> ucg_coll_type \<times> ucg_mem_type \<Rightarrow> u64 \<Rightarrow> plan_key multiset" where
  "store_view plans slot m = mset (cands (plans slot) m)"

lemma create_result:
  assumes "ucg_plan_create params h = (r, h')"
  shows "(r = None \<and> h_live h' = h_live h) \<or>
         (r = Some (Plan (undeprecated (pp_attr params)) UCG_PLAN_TYPE_FIRST_CLASS []) \<and> h_live h' = h_live h + 3)"
proof -
  obtain ok h1 where a: "heap_alloc h = (ok, h1)" by (cases "heap_alloc h")
  obtain ra h2 where b: "ucg_plan_apply_attr (pp_attr params) h1 = (ra, h2)"
    by (cases "ucg_plan_apply_attr (pp_attr params) h1")
  from apply_attr_live [OF b] heap_alloc_live [OF a] show ?thesis
    using assms a b by (cases ok) (auto simp: ucg_plan_create_def)
qed

lemma plans_add_cases:
  assumes wf: "store_wf plans" and add: "ucg_plans_add plans params h = (st, plans', h')"
  defines "slot \<equiv> (pp_coll_type params, pp_mem_type params)"
  shows "(st \<noteq> UCG_OK \<or> pa_deprecated (pp_attr params)) \<and> plans' = plans \<and> h_live h' = h_live h \<or>
    slot \<in> set ucg_slots \<and> \<not> pa_deprecated (pp_attr params) \<and>
    (\<exists>head. plans' = plans(slot := head) \<and> plans_wf head \<and>
       h_live h' - list_blocks head = h_live h - list_blocks (plans slot) \<and>
       (st = UCG_OK \<and> (\<forall>m. mset (cands head m) = mset (cands (plans slot) m) + params_contrib params slot m) \<or>
        st = UCG_ERR_NO_MEMORY \<and> cands head = cands (plans slot)))"
proof (cases "pp_coll_type params = UCG_COLL_TYPE_LAST \<or> pp_mem_type params = UCG_MEM_TYPE_LAST
         \<or> ucg_plan_attr_check (pp_attr params) \<noteq> UCG_OK \<or> pa_deprecated (pp_attr params)")
  case True
  then have "plans' = plans \<and> h' = h \<and> (st \<noteq> UCG_OK \<or> pa_deprecated (pp_attr params))"
    using add by (auto simp: ucg_plans_add_def split: if_splits)
  then show ?thesis by simp
next
  case False
  then have v: "slot \<in> set ucg_slots" "\<not> pa_deprecated (pp_attr params)"
    and ck: "pa_prepare (pp_attr params) \<noteq> None" "rg_start (pa_range (pp_attr params)) < rg_end (pa_range (pp_attr params))"
    by (auto simp: slot_def set_ucg_slots ucg_plan_attr_check_def split: if_splits)
  obtain r h1 where cr: "ucg_plan_create params h = (r, h1)" by (cases "ucg_plan_create params h")
  let ?p = "Plan (undeprecated (pp_attr params)) UCG_PLAN_TYPE_FIRST_CLASS []"
  from create_result [OF cr] show ?thesis
  proof
    assume "r = None \<and> h_live h1 = h_live h"
    then show ?thesis using False cr add by (simp add: ucg_plans_add_def)
  next
    assume c: "r = Some ?p \<and> h_live h1 = h_live h + 3"
    have wp: "plan_wf ?p" using ck by (simp add: plan_wf_def)
    have pb: "plan_blocks ?p = 3" by (simp add: plan_blocks_def)
    have pc: "mset (cands [?p] m) = params_contrib params slot m" for m
      using v by (simp add: cands_Cons in_range_def plan_cands_def pkey_def params_contrib_def attr_key_def slot_def)
    obtain s head rej h2 where a1: "ucg_plans_add_one (plans slot) ?p h1 = (s, head, rej, h2)"
      by (cases "ucg_plans_add_one (plans slot) ?p h1")
    have "plans_wf (plans slot)" using wf unfolding store_wf_def by blast
    note o = add_one_ok [OF this wp a1]
    show ?thesis
    proof (cases "s = UCG_OK")
      case True
      obtain head2 h3 where cp: "ucg_plans_compact_one head h2 = (head2, h3)" by (cases "ucg_plans_compact_one head h2")
      have e: "st = UCG_OK" "plans' = plans(slot := head2)" "h' = h3"
        using add False cr c a1 True cp by (simp_all add: ucg_plans_add_def slot_def)
      have "plans_wf head" "\<forall>m. mset (cands head m) = mset (cands (plans slot) m) + params_contrib params slot m"
        "h_live h2 - list_blocks head = h_live h - list_blocks (plans slot)"
        using o True pb pc c by auto
      then show ?thesis using compact_one_ok [OF _ cp] e v by auto
    next
      case no: False
      then obtain q where q: "s = UCG_ERR_NO_MEMORY" "rej = Some q" "flat_plan q" "plans_wf head" "cands head = cands (plans slot)"
        "h_live h2 - list_blocks head - plan_blocks q = h_live h1 - list_blocks (plans slot) - plan_blocks ?p"
        using o by auto
      then have e: "st = UCG_ERR_NO_MEMORY" "plans' = plans(slot := head)" "h' = ucg_plan_destroy q h2"
        using add False cr c a1 no by (simp_all add: ucg_plans_add_def slot_def)
      show ?thesis using e q v c pb destroy_live [OF q(3), of h2] by auto
    qed
  qed
qed

subsection \<open>Samples\<close>

definition heap_fresh :: ucg_heap where
  "heap_fresh = \<lparr>h_outcomes = [], h_live = 0\<rparr>"

definition sample_params :: "nat \<Rightarrow> u64 \<Rightarrow> u64 \<Rightarrow> u32 \<Rightarrow> ucg_plan_params" where
  "sample_params f s e score =
     \<lparr>pp_mem_type = UCG_MEM_TYPE_HOST, pp_coll_type = UCG_COLL_TYPE_BCAST,
      pp_attr = \<lparr>pa_prepare = Some f, pa_id = 1, pa_name = Some ''plan'', pa_domain = Some ''ucx'',
        pa_deprecated = False, pa_range = \<lparr>rg_start = s, rg_end = e\<rparr>, pa_vgroup = 0, pa_score = score\<rparr>\<rparr>"

definition sample_slot :: "ucg_coll_type \<times> ucg_mem_type" where
  "sample_slot = (UCG_COLL_TYPE_BCAST, UCG_MEM_TYPE_HOST)"

definition sample_plans :: "ucg_plan_params \<Rightarrow> ucg_plans" where
  "sample_plans p = fst (snd (ucg_plans_add (\<lambda>_. []) p heap_fresh))"

lemma plans_add_wf:
  "store_wf plans \<Longrightarrow> ucg_plans_add plans params h = (st, plans', h') \<Longrightarrow> store_wf plans'"
  using plans_add_cases [of plans params h st plans' h'] by (auto simp: store_wf_def)

lemma store_wf_empty: "store_wf (\<lambda>_. [])"
  by (simp add: store_wf_def)

lemma sample_plans_wf: "store_wf (sample_plans p)"
  unfolding sample_plans_def
  by (cases "ucg_plans_add (\<lambda>_. []) p heap_fresh") (auto intro: plans_add_wf [OF store_wf_empty])

subsection \<open>Properties of adding\<close>

text \<open>
  C1: \<open>ucg_plans_add\<close> refines insertion into the view: on success the new plan is one more candidate
  at exactly the message sizes of its range (none if it is deprecated), on any failure the view is what
  it was, and the container stays well formed either way.
\<close>

theorem plans_add_refines_view:
  assumes "store_wf plans" and "ucg_plans_add plans params h = (st, plans', h')"
  shows "store_wf plans' \<and>
         (\<forall>slot m. store_view plans' slot m =
            store_view plans slot m + (if st = UCG_OK then params_contrib params slot m else {#}))"
  using plans_add_cases [OF assms] assms(1)
  by (auto simp: store_wf_def store_view_def params_contrib_def)

lemma plans_add_refines_view_witness:
  "\<exists>st plans' h'. ucg_plans_add (sample_plans (sample_params 1 0 100 5)) (sample_params 2 50 200 9) heap_fresh = (st, plans', h') \<and>
     store_wf plans' \<and>
     (\<forall>slot m. store_view plans' slot m = store_view (sample_plans (sample_params 1 0 100 5)) slot m +
        (if st = UCG_OK then params_contrib (sample_params 2 50 200 9) slot m else {#}))"
  using plans_add_refines_view [OF sample_plans_wf] by (metis prod_cases3)

text \<open>
  C26: \<open>ucg_plans_add\<close> never leaks and never frees too much: whatever allocation fails, the live blocks
  change by exactly the blocks the container gained.
\<close>

theorem plans_add_no_leak:
  assumes "store_wf plans" and "ucg_plans_add plans params h = (st, plans', h')"
  shows "h_live h' - store_blocks plans' = h_live h - store_blocks plans"
  using plans_add_cases [OF assms] by (auto simp: store_blocks_upd)

lemma plans_add_no_leak_witness:
  "\<exists>st plans' h'. ucg_plans_add (sample_plans (sample_params 1 0 100 5)) (sample_params 2 50 200 9) heap_fresh = (st, plans', h') \<and>
     h_live h' - store_blocks plans' = h_live heap_fresh - store_blocks (sample_plans (sample_params 1 0 100 5))"
  using plans_add_no_leak [OF sample_plans_wf] by (metis prod_cases3)

subsection \<open>Merging containers\<close>

lemma merge_slots_ok:
  assumes "store_wf dst" and "store_wf src" and "distinct slots" and "set slots \<subseteq> set ucg_slots"
    and "\<forall>slot \<in> set slots. new slot = []" and "store_wf new"
    and "plans_merge_slots dst src new slots h = (st, new', h')"
  shows "store_wf new' \<and> (st = UCG_OK \<longrightarrow>
      (\<forall>slot m. store_view new' slot m =
         (if slot \<in> set slots then store_view dst slot m + store_view src slot m else store_view new slot m)) \<and>
      h_live h' - store_blocks new' = h_live h - store_blocks new) \<and>
    (st \<noteq> UCG_OK \<longrightarrow> st = UCG_ERR_NO_MEMORY \<and> h_live h - store_blocks new \<le> h_live h' - store_blocks new')"
  using assms(3-7)
proof (induction slots arbitrary: new h)
  case Nil
  then show ?case by simp
next
  case (Cons slot rest)
  have wd: "plans_wf (dst slot)" and ws: "plans_wf (src slot)"
    using assms(1,2) unfolding store_wf_def by blast+
  have sl: "slot \<in> set ucg_slots" and ns: "new slot = []" using Cons.prems by simp_all
  obtain s1 head1 h1 where d: "ucg_plans_dup_one [] (dst slot) h = (s1, head1, h1)"
    by (cases "ucg_plans_dup_one [] (dst slot) h")
  have dw: "\<forall>p \<in> set (dst slot). plan_wf p" using wd by (simp add: plans_wf_def)
  from dup_list_ok [OF dw d] obtain k where k: "k \<le> length (dst slot)" "head1 = map dup_plan (take k (dst slot))"
    "s1 = UCG_OK \<longleftrightarrow> k = length (dst slot)" "h_live h1 = h_live h + list_blocks head1"
    by (auto simp: dup_list_blocks)
  have w1: "plans_wf head1" using dup_list_wf [OF wd] k(2) by simp
  have upd: "store_wf (new(slot := ps))" if "plans_wf ps" for ps
    using Cons.prems(4) that unfolding store_wf_def by simp
  show ?case
  proof (cases "s1 = UCG_OK")
    case False
    have "s1 = UCG_ERR_NO_MEMORY" if "ucg_plans_dup_one dst src h = (s1, x)" "s1 \<noteq> UCG_OK" for dst src h x s1
      using that by (induction dst src h rule: ucg_plans_dup_one.induct) (auto split: option.splits prod.splits)
    then have st: "st = UCG_ERR_NO_MEMORY" "new' = new(slot := head1)" "h' = h1"
      using Cons.prems(5) ns d False by auto
    have "store_blocks new' = store_blocks new + list_blocks head1"
      using store_blocks_upd [OF sl, of new head1] ns st(2) by simp
    moreover have "store_wf new'" using upd [OF w1] st(2) by simp
    ultimately show ?thesis using k(4) st(1,3) by simp
  next
    case True
    have v1: "cands head1 m = cands (dst slot) m" for m
      using k True by (simp add: dup_list_cands)
    obtain s2 head2 h2 where m2: "ucg_plans_merge_one head1 (src slot) h1 = (s2, head2, h2)"
      by (cases "ucg_plans_merge_one head1 (src slot) h1")
    have sw: "\<forall>p \<in> set (src slot). plan_wf p" using ws by (simp add: plans_wf_def)
    note o = merge_one_ok [OF w1 sw m2]
    have b2: "store_blocks (new(slot := head2)) = store_blocks new + list_blocks head2"
      using store_blocks_upd [OF sl, of new head2] ns by simp
    show ?thesis
    proof (cases "s2 = UCG_OK")
      case False
      then have st: "st = s2" "new' = new(slot := head2)" "h' = h2" using Cons.prems(5) ns d True m2 by auto
      have "store_wf new'" "store_blocks new' = store_blocks new + list_blocks head2"
        using upd o b2 st(2) by simp_all
      moreover have "s2 = UCG_ERR_NO_MEMORY" "h_live h1 - list_blocks head1 \<le> h_live h2 - list_blocks head2"
        using o False by simp_all
      ultimately show ?thesis using k(4) st(1,3) False by simp
    next
      case ok: True
      have r: "plans_merge_slots dst src (new(slot := head2)) rest h2 = (st, new', h')"
        using Cons.prems(5) ns d True m2 ok by auto
      define n1 where "n1 = new(slot := head2)"
      have n1: "n1 slot = head2" "\<And>x. x \<noteq> slot \<Longrightarrow> n1 x = new x" by (simp_all add: n1_def)
      have pre: "distinct rest" "set rest \<subseteq> set ucg_slots" "\<forall>x \<in> set rest. n1 x = []" "store_wf n1"
        using Cons.prems(1-3) n1(2) upd [of head2] o by (auto simp: n1_def)
      note IH = Cons.IH [OF pre r [folded n1_def]]
      have v: "store_view n1 slot m = store_view dst slot m + store_view src slot m" for m
        using o ok v1 n1(1) by (simp add: store_view_def)
      have vx: "store_view n1 x m = store_view new x m" if "x \<noteq> slot" for x m
        using that n1(2) by (simp add: store_view_def)
      have ni: "slot \<notin> set rest" using Cons.prems(1) by simp
      have view: "\<forall>x m. store_view new' x m =
          (if x \<in> set (slot # rest) then store_view dst x m + store_view src x m else store_view new x m)"
        if "st = UCG_OK"
        using IH that v vx ni by (metis set_ConsD list.set_intros)
      have "h_live h2 - store_blocks n1 = h_live h - store_blocks new"
        using o ok b2 k(4) by (simp add: n1_def)
      then show ?thesis using IH view by simp
    qed
  qed
qed

lemma cleanup_slots_live:
  "store_wf plans \<Longrightarrow> h_live (plans_cleanup_slots plans slots h) = h_live h - (\<Sum>slot \<leftarrow> slots. list_blocks (plans slot))"
proof (induction slots arbitrary: h)
  case (Cons slot slots)
  have "plans_wf (plans slot)" using Cons.prems unfolding store_wf_def by blast
  then have "\<forall>p \<in> set (plans slot). flat_plan p" by (simp add: plans_wf_def plan_wf_flat)
  then show ?case using Cons by (simp add: cleanup_one_live)
qed simp

text \<open>A container that is cleaned up gives back everything it holds, and itself.\<close>

lemma cleanup_live: "store_wf plans \<Longrightarrow> h_live (ucg_plans_cleanup plans h) = h_live h - store_blocks plans - 1"
  by (simp add: ucg_plans_cleanup_def cleanup_slots_live store_blocks_def)

lemma init_result:
  assumes "ucg_plans_init h = (r, h')"
  shows "(r = None \<and> h_live h' = h_live h) \<or> (r = Some (\<lambda>_. []) \<and> h_live h' = h_live h + 1)"
proof -
  obtain ok h1 where a: "heap_alloc h = (ok, h1)" by (cases "heap_alloc h")
  then show ?thesis using assms heap_alloc_live [OF a] by (cases ok) (auto simp: ucg_plans_init_def)
qed

text \<open>
  C21: \<open>ucg_plans_merge\<close> is atomic: when it succeeds every message size of every collective and memory
  type has the candidates of both containers and no memory is lost; when it fails the destination is
  untouched.
\<close>

theorem plans_merge_atomic:
  assumes "store_wf dst" and "store_wf src" and "ucg_plans_merge False dst src h = (st, dst', h')"
  shows "store_wf dst' \<and>
    (st = UCG_OK \<longrightarrow>
      (\<forall>slot \<in> set ucg_slots. \<forall>m. store_view dst' slot m = store_view dst slot m + store_view src slot m) \<and>
      h_live h' - store_blocks dst' = h_live h - store_blocks dst) \<and>
    (st \<noteq> UCG_OK \<longrightarrow> st = UCG_ERR_NO_MEMORY \<and> dst' = dst \<and> h_live h \<le> h_live h')"
proof -
  obtain r h1 where i: "ucg_plans_init h = (r, h1)" by (cases "ucg_plans_init h")
  from init_result [OF i] show ?thesis
  proof
    assume "r = None \<and> h_live h1 = h_live h"
    then show ?thesis using assms i by (auto simp: ucg_plans_merge_def)
  next
    assume r: "r = Some (\<lambda>_. []) \<and> h_live h1 = h_live h + 1"
    obtain s new h2 where m: "plans_merge_slots dst src (\<lambda>_. []) ucg_slots h1 = (s, new, h2)"
      by (cases "plans_merge_slots dst src (\<lambda>_. []) ucg_slots h1")
    have e: "store_wf (\<lambda>_. [])" "store_blocks (\<lambda>_. []) = 0"
      by (simp_all add: store_wf_def store_blocks_def)
    note o = merge_slots_ok [OF assms(1,2) distinct_ucg_slots _ _ e(1) m]
    show ?thesis
    proof (cases "s = UCG_OK")
      case True
      then have "st = UCG_OK" "dst' = new" "h' = ucg_plans_cleanup dst h2"
        using assms(3) i r m by (auto simp: ucg_plans_merge_def)
      then show ?thesis using o True r e(2) cleanup_live [OF assms(1), of h2] by auto
    next
      case False
      then have "st = s" "dst' = dst" "h' = ucg_plans_cleanup new h2"
        using assms(3) i r m by (auto simp: ucg_plans_merge_def)
      moreover have "store_wf new" using o by auto
      ultimately show ?thesis using o False r e(2) assms(1) cleanup_live [of new h2] by auto
    qed
  qed
qed

lemma plans_merge_atomic_witness:
  "\<exists>st dst' h'. ucg_plans_merge False (sample_plans (sample_params 1 0 100 5)) (sample_plans (sample_params 2 50 200 9)) heap_fresh
      = (st, dst', h') \<and> store_wf dst' \<and>
    (st = UCG_OK \<longrightarrow>
      (\<forall>slot \<in> set ucg_slots. \<forall>m. store_view dst' slot m =
         store_view (sample_plans (sample_params 1 0 100 5)) slot m + store_view (sample_plans (sample_params 2 50 200 9)) slot m) \<and>
      h_live h' - store_blocks dst' = h_live heap_fresh - store_blocks (sample_plans (sample_params 1 0 100 5))) \<and>
    (st \<noteq> UCG_OK \<longrightarrow> st = UCG_ERR_NO_MEMORY \<and> dst' = sample_plans (sample_params 1 0 100 5) \<and> h_live heap_fresh \<le> h_live h')"
proof -
  obtain st dst' h' where m: "ucg_plans_merge False (sample_plans (sample_params 1 0 100 5))
      (sample_plans (sample_params 2 50 200 9)) heap_fresh = (st, dst', h')" by (rule prod_cases3)
  show ?thesis by (intro exI conjI, rule m) (use plans_merge_atomic [OF sample_plans_wf sample_plans_wf m] in blast)+
qed

subsection \<open>Allocation failures\<close>

text \<open>
  A merge that runs out of memory while it cuts ranges loses the copy of the plan it was adding
  (three blocks): \<open>ucg_plans_merge_one\<close> returns without destroying \<open>dup_plan\<close>.
\<close>

theorem plans_merge_leaks:
  "case ucg_plans_merge False (sample_plans (sample_params 1 0 100 5)) (sample_plans (sample_params 2 50 200 9))
          \<lparr>h_outcomes = [True, True, True, True, True, True, True, False], h_live = 6\<rparr> of
     (st, dst', h') \<Rightarrow> st = UCG_ERR_NO_MEMORY \<and> h_live h' = 9"
  by code_simp

lemma heap_alloc_good: "h_outcomes h = [] \<Longrightarrow> \<exists>h'. heap_alloc h = (True, h') \<and> h_outcomes h' = []"
  by (simp add: heap_alloc_def)

lemma free_attr_outcomes [simp]: "h_outcomes (ucg_plan_free_attr h) = h_outcomes h"
  by (simp add: ucg_plan_free_attr_def)

lemma destroy_outcomes [simp]:
  "h_outcomes (ucg_plan_destroy p h) = h_outcomes h"
  "h_outcomes (ucg_plan_destroy_fallback ps h) = h_outcomes h"
  by (induction p h and ps h rule: ucg_plan_destroy_ucg_plan_destroy_fallback.induct) simp_all

lemma cleanup_one_outcomes [simp]: "h_outcomes (ucg_plans_cleanup_one ps h) = h_outcomes h"
  by (induction ps h rule: ucg_plans_cleanup_one.induct) simp_all

lemma apply_attr_good:
  "h_outcomes h = [] \<Longrightarrow> \<exists>a' h'. ucg_plan_apply_attr a h = (Some a', h') \<and> h_outcomes h' = []"
  by (simp add: ucg_plan_apply_attr_def heap_alloc_def)

lemma dup_good:
  "h_outcomes h = [] \<longrightarrow> (\<exists>q h'. ucg_plan_dup p h = (Some q, h') \<and> h_outcomes h' = [])"
  "h_outcomes h = [] \<longrightarrow> (\<exists>out h'. ucg_plan_dup_fallback fbs acc h = (True, out, h') \<and> h_outcomes h' = [])"
proof (induction p h and fbs acc h rule: ucg_plan_dup_ucg_plan_dup_fallback.induct)
  case (1 attr type fallback h)
  show ?case
  proof
    assume h: "h_outcomes h = []"
    obtain h1 where h1: "heap_alloc h = (True, h1)" "h_outcomes h1 = []" using heap_alloc_good [OF h] by blast
    obtain a' h2 where h2: "ucg_plan_apply_attr attr h1 = (Some a', h2)" "h_outcomes h2 = []"
      using apply_attr_good [OF h1(2)] by blast
    show "\<exists>q h'. ucg_plan_dup (Plan attr type fallback) h = (Some q, h') \<and> h_outcomes h' = []"
    proof (cases "type = UCG_PLAN_TYPE_FIRST_CLASS")
      case True
      then have "\<exists>out h'. ucg_plan_dup_fallback fallback [] h2 = (True, out, h') \<and> h_outcomes h' = []"
        using 1 h1 h2 by auto
      then show ?thesis using h1 h2 True by auto
    qed (use h1 h2 in auto)
  qed
next
  case (2 acc h)
  then show ?case by simp
next
  case (3 fb rest acc h)
  then show ?case by fastforce
qed

lemma cut_good:
  "h_outcomes h = [] \<Longrightarrow> \<exists>x h'. normalise_cut p q h = (Some x, h') \<and> h_outcomes h' = []"
  using dup_good(1) [of h p]
  by (auto simp: normalise_cut_def ucg_plan_split_def split: option.splits)

lemma normalise_good:
  "h_outcomes h = [] \<Longrightarrow>
   \<exists>head ps h'. normalise_loop passed cur pieces np h = Normalised head ps h' \<and> h_outcomes h' = []"
proof (induction passed cur pieces np h rule: normalise_loop.induct)
  case (2 passed e rest pieces np h)
  show ?case
  proof (cases "pend np \<le> pstart e")
    case False
    obtain e' ins b1 h1 where c1: "normalise_cut e np h = (Some (e', ins, b1), h1)" "h_outcomes h1 = []"
      using cut_good [OF "2.prems", of e np] by auto
    obtain np' ts b2 h2 where c2: "normalise_cut np e' h1 = (Some (np', ts, b2), h2)" "h_outcomes h2 = []"
      using cut_good [OF c1(2), of np e'] by auto
    show ?thesis
      using "2.IH" [OF False c1(1) [symmetric] refl refl refl c2(1) [symmetric] refl refl refl] False c1 c2
      by (cases ts) auto
  qed (use "2.prems" in simp)
qed simp

lemma compact_outcomes: "ucg_plans_compact_one ps h = (qs, h') \<Longrightarrow> h_outcomes h' = h_outcomes h"
  by (induction ps h arbitrary: qs h' rule: ucg_plans_compact_one.induct) (auto split: if_splits prod.splits)

lemma plans_add_status:
  assumes "ucg_plans_add plans params h = (st, plans', h')" and "h_outcomes h = []"
  shows "st = (if pp_coll_type params = UCG_COLL_TYPE_LAST \<or> pp_mem_type params = UCG_MEM_TYPE_LAST \<or>
                  pa_prepare (pp_attr params) = None \<or> pa_name (pp_attr params) = None \<or>
                  pa_domain (pp_attr params) = None \<or>
                  rg_end (pa_range (pp_attr params)) \<le> rg_start (pa_range (pp_attr params))
               then UCG_ERR_INVALID_PARAM else UCG_OK) \<and> h_outcomes h' = []"
proof -
  obtain h1 where h1: "heap_alloc h = (True, h1)" "h_outcomes h1 = []" using heap_alloc_good [OF assms(2)] by blast
  obtain a' h2 where h2: "ucg_plan_apply_attr (pp_attr params) h1 = (Some a', h2)" "h_outcomes h2 = []"
    using apply_attr_good [OF h1(2)] by blast
  let ?slot = "(pp_coll_type params, pp_mem_type params)"
  obtain head ps h3 where h3: "normalise_loop [] (plans ?slot) [] (Plan a' UCG_PLAN_TYPE_FIRST_CLASS []) h2 = Normalised head ps h3" "h_outcomes h3 = []"
    using normalise_good [OF h2(2)] by blast
  obtain head2 h4 where h4: "ucg_plans_compact_one (add_pieces head ps) h3 = (head2, h4)"
    by (cases "ucg_plans_compact_one (add_pieces head ps) h3")
  show ?thesis using assms h1 h2 h3 h4 compact_outcomes [OF h4]
    by (auto simp: ucg_plans_add_def ucg_plan_attr_check_def ucg_plan_create_def ucg_plans_add_one_def Let_def
        split: if_splits)
qed

text \<open>
  \<open>ucg_plans_add\<close> fails only for a reason: the parameters are invalid or memory ran out.
\<close>

theorem plans_add_succeeds:
  assumes "ucg_plans_add plans params h = (st, plans', h')" and "h_outcomes h = []"
  shows "st = (if pp_coll_type params = UCG_COLL_TYPE_LAST \<or> pp_mem_type params = UCG_MEM_TYPE_LAST \<or>
                  pa_prepare (pp_attr params) = None \<or> pa_name (pp_attr params) = None \<or>
                  pa_domain (pp_attr params) = None \<or>
                  rg_end (pa_range (pp_attr params)) \<le> rg_start (pa_range (pp_attr params))
               then UCG_ERR_INVALID_PARAM else UCG_OK)"
  using plans_add_status [OF assms] by blast

lemma plans_add_succeeds_witness:
  "\<exists>plans' h'. ucg_plans_add (sample_plans (sample_params 1 0 100 5)) (sample_params 2 50 200 9) heap_fresh = (UCG_OK, plans', h')"
proof -
  obtain st plans' h' where a: "ucg_plans_add (sample_plans (sample_params 1 0 100 5)) (sample_params 2 50 200 9) heap_fresh
      = (st, plans', h')" by (rule prod_cases3)
  then show ?thesis using plans_add_succeeds [OF a] by (simp add: heap_fresh_def sample_params_def)
qed

subsection \<open>Selection\<close>

lemma plans_find_cands:
  assumes "plans_wf ps"
  shows "case plans_find ps m of
           None \<Rightarrow> cands ps m = []
         | Some p \<Rightarrow> p \<in> set ps \<and> plan_wf p \<and> in_range m p \<and> cands ps m = plan_cands p"
  using assms
proof (induction ps)
  case (Cons p ps)
  have w: "plan_wf p" "plans_wf ps" "\<forall>q \<in> set ps. pend p \<le> pstart q" using Cons.prems by (auto simp: plans_wf_Cons)
  consider "m < pstart p" | "in_range m p" | "pend p \<le> m" unfolding in_range_def by (metis not_le)
  then show ?case
  proof cases
    case 1
    then have "\<not> in_range m q" if "q \<in> set (p # ps)" for q
      using that w(3) wf_range [OF w(1)] by (auto simp: in_range_def)
    then have "cands (p # ps) m = []" by (simp add: cands_def)
    then show ?thesis using 1 by simp
  next
    case 2
    then have "\<not> in_range m q" if "q \<in> set ps" for q
      using that w(3) by (auto simp: in_range_def)
    then have "cands ps m = []" by (simp add: cands_def)
    then show ?thesis using 2 w by (auto simp: in_range_def cands_Cons)
  next
    case 3
    then have "\<not> in_range m p" "\<not> m < pstart p" using wf_range [OF w(1)] by (auto simp: in_range_def)
    then show ?thesis using Cons.IH [OF w(2)] 3
      by (auto simp: cands_Cons in_range_def split: option.splits)
  qed
qed simp

subsection \<open>Containers as they come about\<close>

lemma merge_view:
  assumes "store_wf dst" and "store_wf src" and "ucg_plans_merge same dst src h = (st, dst', h')"
  shows "store_wf dst'" and "store_view dst' slot m =
    (if st \<noteq> UCG_OK \<or> same then store_view dst slot m
     else if slot \<in> set ucg_slots then store_view dst slot m + store_view src slot m else {#})"
proof -
  have "store_wf dst' \<and> store_view dst' slot m =
    (if st \<noteq> UCG_OK \<or> same then store_view dst slot m
     else if slot \<in> set ucg_slots then store_view dst slot m + store_view src slot m else {#})"
  proof (cases same)
    case True
    then show ?thesis using assms by (auto simp: ucg_plans_merge_def)
  next
    case False
    obtain r h1 where i: "ucg_plans_init h = (r, h1)" by (cases "ucg_plans_init h")
    show ?thesis
    proof (cases r)
      case None
      then show ?thesis using assms False i by (auto simp: ucg_plans_merge_def)
    next
      case (Some p0)
      then have r: "r = Some (\<lambda>_. [])" using init_result [OF i] by simp
      obtain s new h2 where g: "plans_merge_slots dst src (\<lambda>_. []) ucg_slots h1 = (s, new, h2)" by (rule prod_cases3)
      note o = merge_slots_ok [OF assms(1,2) distinct_ucg_slots _ _ store_wf_empty g]
      show ?thesis using assms False i r g o by (cases slot) (auto simp: ucg_plans_merge_def store_view_def split: if_splits)
    qed
  qed
  then show "store_wf dst'" and "store_view dst' slot m =
    (if st \<noteq> UCG_OK \<or> same then store_view dst slot m
     else if slot \<in> set ucg_slots then store_view dst slot m + store_view src slot m else {#})" by blast+
qed

text \<open>
  The containers that the functions make, each with the candidates it was given: those of the plans that were added with
  success, and after a merge those of both containers.
\<close>

inductive plans_built :: "ucg_plans \<Rightarrow> (ucg_coll_type \<times> ucg_mem_type \<Rightarrow> u64 \<Rightarrow> plan_key multiset) \<Rightarrow> bool" where
  init: "ucg_plans_init h = (Some plans, h') \<Longrightarrow> plans_built plans (\<lambda>slot m. {#})"
| add: "plans_built plans given \<Longrightarrow> ucg_plans_add plans params h = (st, plans', h') \<Longrightarrow>
    plans_built plans' (\<lambda>slot m. given slot m + (if st = UCG_OK then params_contrib params slot m else {#}))"
| merge: "plans_built dst given \<Longrightarrow> plans_built src given2 \<Longrightarrow> ucg_plans_merge same dst src h = (st, dst', h') \<Longrightarrow>
    plans_built dst' (\<lambda>slot m. given slot m + (if st = UCG_OK \<and> \<not> same then given2 slot m else {#}))"

lemma plans_built_ok:
  assumes "plans_built plans given"
  shows "store_wf plans \<and> (\<forall>slot m. store_view plans slot m = given slot m) \<and> (\<forall>slot m. slot \<notin> set ucg_slots \<longrightarrow> given slot m = {#})"
  using assms
proof induction
  case (init h plans h')
  then show ?case using init_result [OF init] by (simp add: store_wf_empty store_view_def)
next
  case (add plans given params h st plans' h')
  then have c: "store_wf plans" "\<And>slot m. store_view plans slot m = given slot m" "\<And>slot m. slot \<notin> set ucg_slots \<Longrightarrow> given slot m = {#}"
    by auto
  note cases = plans_add_cases [OF c(1) add.hyps(2)]
  have "store_view plans' slot m = store_view plans slot m + (if st = UCG_OK then params_contrib params slot m else {#})" for slot m
    using cases by (auto simp: store_view_def params_contrib_def)
  moreover have "st = UCG_OK \<Longrightarrow> slot \<notin> set ucg_slots \<Longrightarrow> params_contrib params slot m = {#}" for slot m
    using cases by (auto simp: params_contrib_def)
  ultimately show ?case using plans_add_wf [OF c(1) add.hyps(2)] c(2,3) by auto
next
  case (merge dst given src given2 same h st dst' h')
  then have c: "store_wf dst" "store_wf src" by auto
  show ?case using merge_view [OF c merge.hyps(3)] merge.IH by auto
qed

text \<open>
  C35: in every container that comes about by adding and merging, whatever allocations fail, the candidates of a message size
  are exactly the plans that were added for it with success, in the order of their scores, best first; and the plan that
  selection finds for the size is the first of them.
\<close>

theorem plans_best_first:
  assumes "plans_built plans given"
  shows "mset (cands (plans slot) m) = given slot m \<and>
    sorted_wrt (\<lambda>a b. snd (snd b) \<le> snd (snd a)) (cands (plans slot) m) \<and>
    map_option pkey (plans_find (plans slot) m) = (case cands (plans slot) m of [] \<Rightarrow> None | k # ks \<Rightarrow> Some k)"
proof -
  have ok: "store_wf plans" "mset (cands (plans slot) m) = given slot m"
    using plans_built_ok [OF assms] unfolding store_view_def by blast+
  have w: "plans_wf (plans slot)" using ok(1) unfolding store_wf_def by blast
  have sorted: "sorted_wrt (\<lambda>a b. snd (snd b) \<le> snd (snd a)) (plan_cands p)" if "plan_wf p" for p
    using that by (auto simp: plan_wf_def plan_cands_def pkey_def sorted_wrt_map)
  show ?thesis
    using plans_find_cands [OF w, of m] ok(2) sorted
    by (cases "plans_find (plans slot) m") (auto simp: plan_cands_def)
qed

text \<open>Two plans for the same sizes, the better one added last.\<close>

lemma plans_best_first_witness:
  "\<exists>plans given. plans_built plans given \<and> given sample_slot 70 = {#(Some 1, 0, 5), (Some 2, 0, 9)#} \<and>
     cands (plans sample_slot) 70 = [(Some 2, 0, 9), (Some 1, 0, 5)]"
proof -
  obtain plans0 h0 where i: "ucg_plans_init heap_fresh = (Some plans0, h0)" by (simp add: ucg_plans_init_def heap_alloc_def heap_fresh_def)
  have h0: "h_outcomes h0 = []" using i by (auto simp: ucg_plans_init_def heap_alloc_def heap_fresh_def)
  obtain st1 plans1 h1 where a1: "ucg_plans_add plans0 (sample_params 1 0 100 5) h0 = (st1, plans1, h1)" by (rule prod_cases3)
  obtain st2 plans2 h2 where a2: "ucg_plans_add plans1 (sample_params 2 50 200 9) h1 = (st2, plans2, h2)" by (rule prod_cases3)
  let ?given = "\<lambda>slot m. ({#} + (if st1 = UCG_OK then params_contrib (sample_params 1 0 100 5) slot m else {#})) +
      (if st2 = UCG_OK then params_contrib (sample_params 2 50 200 9) slot m else {#})"
  have b: "plans_built plans2 ?given" by (rule plans_built.add [OF plans_built.add [OF plans_built.init [OF i] a1] a2])
  have v: "ucg_plan_attr_check (pp_attr (sample_params f s e k)) = UCG_OK" if "s < e" for f s e k
    using that by (simp add: sample_params_def ucg_plan_attr_check_def)
  have ok1: "st1 = UCG_OK" "h_outcomes h1 = []" using plans_add_status [OF a1 h0] v by (simp_all add: sample_params_def)
  have ok2: "st2 = UCG_OK" using plans_add_status [OF a2 ok1(2)] v by (simp add: sample_params_def)
  have g: "?given sample_slot 70 = {#(Some 1, 0, 5), (Some 2, 0, 9)#}"
    using ok1(1) ok2 by (simp add: params_contrib_def sample_params_def sample_slot_def attr_key_def)
  from plans_best_first [OF b, of sample_slot 70] g
  have "mset (cands (plans2 sample_slot) 70) = {#(Some 1, 0, 5), (Some 2, 0, 9)#}"
    "sorted_wrt (\<lambda>a b. snd (snd b) \<le> snd (snd a)) (cands (plans2 sample_slot) 70)" by simp_all
  then have "cands (plans2 sample_slot) 70 = [(Some 2, 0, 9), (Some 1, 0, 5)]"
    by (cases "cands (plans2 sample_slot) 70"; cases "tl (cands (plans2 sample_slot) 70)")
      (auto simp: add_eq_conv_ex)
  then show ?thesis using b g by blast
qed

text \<open>The specification of selection: try candidates in order until one can be prepared.\<close>

fun try_cands :: "'s prepare_env \<Rightarrow> ucg_coll_args \<Rightarrow> plan_key list \<Rightarrow> 's \<Rightarrow> ucg_status \<times> 's" where
  "try_cands prep args [] s = (UCG_ERR_NOT_FOUND, s)"
| "try_cands prep args ((f, g, score) # ks) s =
     (case prep (the f) g args s of
        (status, s) \<Rightarrow> if status = UCG_OK then (UCG_OK, s) else try_cands prep args ks s)"

definition other_routines :: "plan_key list \<Rightarrow> plan_key list" where
  "other_routines ks = (case ks of [] \<Rightarrow> [] | k # rest \<Rightarrow> k # filter (\<lambda>c. fst c \<noteq> fst k) rest)"

lemma prepare_fallback_cands:
  "prepare_fallback prep plan args fbs s =
     try_cands prep args (filter (\<lambda>c. fst c \<noteq> pa_prepare (plan_attr plan)) (map pkey fbs)) s"
  by (induction fbs arbitrary: s) (auto simp: pkey_def call_prepare_def split: prod.splits)

lemma plans_prepare_eq:
  assumes "store_wf plans" and "ucg_request_msg_size args gsize = Some (UCG_OK, m)"
  defines "view \<equiv> \<lambda>m. cands (plans (ca_type args, ca_mem_type args)) m"
  shows "ucg_plans_prepare prep plans args gsize s =
    Some (if ca_type args = UCG_COLL_TYPE_ALLTOALLV \<or> ca_type args = UCG_COLL_TYPE_IALLTOALLV
          then (case try_cands prep args (take 1 (view m)) s of
                  (st, s') \<Rightarrow> if st = UCG_OK \<or> view m = [] then (st, s')
                             else try_cands prep args (other_routines (view 0)) s')
          else try_cands prep args (other_routines (view m)) s)"
proof -
  let ?head = "plans (ca_type args, ca_mem_type args)"
  have w: "plans_wf ?head" using assms(1) unfolding store_wf_def by blast
  note f = plans_find_cands [OF w, of m] and f0 = plans_find_cands [OF w, of 0]
  have all: "try_cands prep args (other_routines (plan_cands p)) s =
      (case call_prepare prep p args s of
         (st, s) \<Rightarrow> if st = UCG_OK then (UCG_OK, s) else prepare_fallback prep p args (plan_fallback p) s)" for p s
    by (auto simp: plan_cands_def other_routines_def prepare_fallback_cands pkey_def [of p] call_prepare_def split: prod.splits)
  have one: "try_cands prep args (take 1 (plan_cands p)) s =
      (case call_prepare prep p args s of
         (st, s) \<Rightarrow> if st = UCG_OK then (UCG_OK, s) else (UCG_ERR_NOT_FOUND, s))" for p s
    by (auto simp: plan_cands_def pkey_def [of p] call_prepare_def split: prod.splits)
  show ?thesis
  proof (cases "plans_find ?head m")
    case None
    then show ?thesis using f assms(2)
      by (simp add: ucg_plans_prepare_def view_def other_routines_def)
  next
    case (Some p)
    then have vm: "view m = plan_cands p" "plan_cands p \<noteq> []" using f by (simp_all add: view_def plan_cands_def)
    show ?thesis
    proof (cases "ca_type args = UCG_COLL_TYPE_ALLTOALLV \<or> ca_type args = UCG_COLL_TYPE_IALLTOALLV")
      case True
      then have r: "check_need_reselect args m = (True, 0)" by (auto simp: check_need_reselect_def)
      show ?thesis
      proof (cases "plans_find ?head 0")
        case None
        then have "view 0 = []" using f0 by (simp add: view_def)
        then show ?thesis using True Some None r vm one assms(2)
          by (simp add: ucg_plans_prepare_def other_routines_def split: prod.splits)
      next
        case (Some q)
        then have "view 0 = plan_cands q" using f0 by (simp add: view_def)
        then show ?thesis using True \<open>plans_find ?head m = Some p\<close> Some r vm one all assms(2)
          by (simp add: ucg_plans_prepare_def split: prod.splits)
      qed
    next
      case False
      then have "check_need_reselect args m = (False, m)"
        by (simp add: check_need_reselect_def split: ucg_coll_type.splits)
      then show ?thesis using False Some vm all assms(2)
        by (simp add: ucg_plans_prepare_def split: prod.splits)
    qed
  qed
qed

text \<open>
  C22: \<open>ucg_plans_prepare\<close> finds exactly the candidates of the message size and tries them best score
  first, each prepare routine after the first one only if it differs from the first one, until one
  succeeds; an alltoallv whose first routine refuses starts again with the candidates of size 0.
\<close>

theorem plans_prepare_tries_in_order:
  assumes "store_wf plans" and "ucg_request_msg_size args gsize = Some (UCG_OK, m)"
  defines "view \<equiv> \<lambda>m. cands (plans (ca_type args, ca_mem_type args)) m"
  shows "ucg_plans_prepare prep plans args gsize s =
    Some (if ca_type args = UCG_COLL_TYPE_ALLTOALLV \<or> ca_type args = UCG_COLL_TYPE_IALLTOALLV
          then (case try_cands prep args (take 1 (view m)) s of
                  (st, s') \<Rightarrow> if st = UCG_OK \<or> view m = [] then (st, s')
                             else try_cands prep args (other_routines (view 0)) s')
          else try_cands prep args (other_routines (view m)) s)"
  unfolding view_def by (rule plans_prepare_eq [OF assms(1,2)])

definition sample_args :: ucg_coll_args where
  "sample_args = (coll_args_zero UCG_COLL_TYPE_BCAST)\<lparr>ca_recvbuf := 4096, ca_count := 10, ca_dt := Some (plain_dt 64 4)\<rparr>"

definition sample_prepare :: "nat list prepare_env" where
  "sample_prepare f g args s = (if f = 1 then UCG_ERR_UNSUPPORTED else UCG_OK, s @ [f])"

lemma plans_prepare_tries_in_order_witness:
  "ucg_plans_prepare sample_prepare (sample_plans (sample_params 1 0 100 5)) sample_args 4 [] =
     Some (try_cands sample_prepare sample_args
       (other_routines (cands (sample_plans (sample_params 1 0 100 5) (UCG_COLL_TYPE_BCAST, UCG_MEM_TYPE_HOST)) 40)) [])"
proof -
  have "ucg_request_msg_size sample_args 4 = Some (UCG_OK, 40)"
    by (simp add: ucg_request_msg_size_def sample_args_def plain_dt_def coll_args_zero_def)
  from plans_prepare_tries_in_order [OF sample_plans_wf [of "sample_params 1 0 100 5"] this,
      where prep = sample_prepare and s = "[]"]
  show ?thesis by (simp add: sample_args_def coll_args_zero_def)
qed

subsection \<open>The registration interface\<close>

text \<open>
  What the plan components use when they register their plans: a container to which plans are added
  one at a time, giving up at the first failure.  The client's facts follow from the two laws.
\<close>

locale plan_registry =
  fixes wf :: "'st \<Rightarrow> bool" and view :: "'st \<Rightarrow> 'slot \<Rightarrow> 'm \<Rightarrow> 'k multiset"
    and add :: "'st \<Rightarrow> 'p \<Rightarrow> 'h \<Rightarrow> ucg_status \<times> 'st \<times> 'h" and contrib :: "'p \<Rightarrow> 'slot \<Rightarrow> 'm \<Rightarrow> 'k multiset"
  assumes add_wf: "wf s \<Longrightarrow> add s p h = (st, s', h') \<Longrightarrow> wf s'"
    and add_view: "wf s \<Longrightarrow> add s p h = (st, s', h') \<Longrightarrow>
      view s' slot m = view s slot m + (if st = UCG_OK then contrib p slot m else {#})"
begin

fun register :: "'st \<Rightarrow> 'p list \<Rightarrow> 'h \<Rightarrow> ucg_status \<times> 'st \<times> 'h" where
  "register s [] h = (UCG_OK, s, h)"
| "register s (p # ps) h =
     (case add s p h of (st, s, h) \<Rightarrow> if st \<noteq> UCG_OK then (st, s, h) else register s ps h)"

lemma register_prefix:
  "wf s \<Longrightarrow> register s ps h = (st, s', h') \<Longrightarrow>
   wf s' \<and> (\<exists>k \<le> length ps. (st = UCG_OK \<longrightarrow> k = length ps) \<and>
     (\<forall>slot m. view s' slot m = view s slot m + (\<Sum>p \<leftarrow> take k ps. contrib p slot m)))"
proof (induction s ps h rule: register.induct)
  case (1 s h)
  then show ?case by simp
next
  case (2 s p ps h)
  obtain st1 s1 h1 where a: "add s p h = (st1, s1, h1)" by (rule prod_cases3)
  note w = add_wf [OF "2.prems"(1) a] and v = add_view [OF "2.prems"(1) a]
  show ?case
  proof (cases "st1 = UCG_OK")
    case False
    then have "st = st1" "s' = s1" using "2.prems"(2) a by simp_all
    then show ?thesis using w v False by (intro conjI exI [of _ 0]) simp_all
  next
    case True
    then have "register s1 ps h1 = (st, s', h')" using "2.prems"(2) a by simp
    from "2.IH" [OF a [symmetric] refl _ w this] True obtain k where
      "wf s'" "k \<le> length ps" "st = UCG_OK \<longrightarrow> k = length ps"
      "\<forall>slot m. view s' slot m = view s1 slot m + (\<Sum>p \<leftarrow> take k ps. contrib p slot m)" by auto
    then show ?thesis using v True by (intro conjI exI [of _ "Suc k"]) (simp_all add: add.assoc)
  qed
qed

lemma register_covers:
  assumes "wf s" and "register s ps h = (UCG_OK, s', h')" and "p \<in> set ps" and "contrib p slot m \<noteq> {#}"
  shows "view s' slot m \<noteq> {#}"
proof -
  have "view s' slot m = view s slot m + (\<Sum>p \<leftarrow> ps. contrib p slot m)"
    using register_prefix [OF assms(1,2)] by auto
  moreover have "(\<Sum>p \<leftarrow> ps. contrib p slot m) \<noteq> {#}"
    using assms(3,4) by (induction ps) auto
  ultimately show ?thesis by simp
qed

end

interpretation registry: plan_registry store_wf store_view ucg_plans_add params_contrib
proof
  fix plans params h st plans' h'
  assume a: "store_wf plans" "ucg_plans_add plans params h = (st, plans', h')"
  show "store_wf plans'" by (rule plans_add_wf [OF a])
  fix slot m
  show "store_view plans' slot m =
      store_view plans slot m + (if st = UCG_OK then params_contrib params slot m else {#})"
    using plans_add_cases [OF a] by (auto simp: store_view_def params_contrib_def)
qed

end
