(* ===== verification/Request_Init.thy ===== *)
theory Request_Init
  imports Plan_Store
begin

text \<open>
  Creating a request: \<open>ucg_mem_query\<close> of \<open>src/src/core/ucg_base.c\<close> and the \<open>*_init\<close> functions of
  \<open>src/src/core/ucg_request.c\<close>, which check their parameters, fill \<open>ucg_coll_args\<close>, find out the memory type
  and have a plan prepare the operation.

  Parameters of the model: whether the library is built with \<open>UCG_ENABLE_CHECK_PARAMS\<close>; the \<open>mem_query\<close>
  routines of the loaded plan components; the \<open>prepare\<close> routines, which create the operation in a state
  of their own type; and the assignment \<open>op->super.group = group\<close> on that state.  A dereferenced NULL
  pointer is the result \<open>None\<close>.  The context lock is not modelled.
\<close>

unbundle bit_operations_syntax

subsection \<open>Memory types\<close>

type_synonym mem_query_fn = "c_ptr \<Rightarrow> ucg_mem_type \<Rightarrow> ucg_status \<times> ucg_mem_type"

record 's request_env =
  re_check_params :: bool
  re_mem_query :: "mem_query_fn list"
  re_prepare :: "'s prepare_env"
  re_set_group :: "'s \<Rightarrow> 's"

fun mem_query_plancs :: "mem_query_fn list \<Rightarrow> c_ptr \<Rightarrow> ucg_mem_type \<Rightarrow> ucg_mem_type" where
  "mem_query_plancs [] p mem_type = mem_type"
| "mem_query_plancs (mem_query # rest) p mem_type =
     (case mem_query p mem_type of
        (status, mem_type) \<Rightarrow> if status = UCG_OK then mem_type else mem_query_plancs rest p mem_type)"

definition ucg_mem_query :: "'s request_env \<Rightarrow> c_ptr \<Rightarrow> ucg_status + ucg_mem_type" where
  "ucg_mem_query env p =
     (if re_check_params env \<and> p = C_NULL then Inl UCG_ERR_INVALID_PARAM
      else Inr (mem_query_plancs (re_mem_query env) p UCG_MEM_TYPE_HOST))"

fun check_mem_type_rest :: "'s request_env \<Rightarrow> ucg_mem_type \<Rightarrow> c_ptr list \<Rightarrow> ucg_status + ucg_mem_type" where
  "check_mem_type_rest env type1 [] = Inr type1"
| "check_mem_type_rest env type1 (p # rest) =
     (case ucg_mem_query env p of
        Inl status \<Rightarrow> Inl status
      | Inr type2 \<Rightarrow> if type1 \<noteq> type2 then Inl UCG_ERR_UNSUPPORTED else check_mem_type_rest env type1 rest)"

definition ucg_request_check_mem_type :: "'s request_env \<Rightarrow> c_ptr list \<Rightarrow> ucg_status + ucg_mem_type" where
  "ucg_request_check_mem_type env buffers =
     (case buffers of
        [] \<Rightarrow> Inl UCG_ERR_NOT_FOUND
      | p # rest \<Rightarrow>
          (case ucg_mem_query env p of
             Inl status \<Rightarrow> Inl status
           | Inr type1 \<Rightarrow> check_mem_type_rest env type1 rest))"

subsection \<open>Request information\<close>

definition has_field :: "ucg_request_info \<Rightarrow> u64 \<Rightarrow> bool" where
  "has_field info field = (ri_field_mask info AND field \<noteq> 0)"

definition ucg_request_apply_info :: "ucg_request_info \<Rightarrow> ucg_request_info option \<Rightarrow> ucg_request_info" where
  "ucg_request_apply_info dst src =
     (case src of
        None \<Rightarrow> dst\<lparr>ri_field_mask := 0\<rparr>
      | Some src \<Rightarrow>
          \<lparr>ri_field_mask = ri_field_mask src,
           ri_mem_type = (if has_field src UCG_REQUEST_INFO_FIELD_MEM_TYPE then ri_mem_type src else UCG_MEM_TYPE_UNKNOWN),
           ri_complete_cb = (if has_field src UCG_REQUEST_INFO_FIELD_CB then ri_complete_cb src else ri_complete_cb dst)\<rparr>)"

text \<open>The macros \<open>UCG_REQUEST_CHECK_MEM_TYPE_RETURN\<close> and \<open>UCG_REQUEST_APPLY_INFO_RETURN\<close>; \<open>Inl\<close> is their \<open>return\<close>.\<close>

definition request_check_mem_type_return ::
    "'s request_env \<Rightarrow> ucg_request_info \<Rightarrow> c_ptr list \<Rightarrow> ucg_status + ucg_request_info" where
  "request_check_mem_type_return env info buffers =
     (if \<not> has_field info UCG_REQUEST_INFO_FIELD_MEM_TYPE \<or> ri_mem_type info = UCG_MEM_TYPE_UNKNOWN
      then (case ucg_request_check_mem_type env buffers of
              Inl status \<Rightarrow> Inl status
            | Inr mem_type \<Rightarrow>
                Inr (info\<lparr>ri_field_mask := ri_field_mask info OR UCG_REQUEST_INFO_FIELD_MEM_TYPE,
                          ri_mem_type := mem_type\<rparr>))
      else Inr info)"

definition request_apply_info_return ::
    "'s request_env \<Rightarrow> ucg_coll_args \<Rightarrow> ucg_request_info option \<Rightarrow> c_ptr list \<Rightarrow> ucg_status + ucg_coll_args" where
  "request_apply_info_return env args info buffers =
     (case request_check_mem_type_return env (ucg_request_apply_info (ca_info args) info) buffers of
        Inl status \<Rightarrow> Inl status
      | Inr info \<Rightarrow> Inr (args\<lparr>ca_info := info\<rparr>))"

subsection \<open>Preparing the operation\<close>

record group_view =
  gv_plans :: ucg_plans
  gv_size :: u32
  gv_myrank :: ucg_rank_t

definition ucg_request_init ::
    "'s request_env \<Rightarrow> group_view option \<Rightarrow> ucg_coll_args \<Rightarrow> c_ptr \<Rightarrow> 's \<Rightarrow> (ucg_status \<times> 's) option" where
  "ucg_request_init env grp args request s =
     do { g \<leftarrow> grp;
          (status, s) \<leftarrow> ucg_plans_prepare (re_prepare env) (gv_plans g) args (gv_size g) s;
          if status \<noteq> UCG_OK then Some (status, s)
          else if request = C_NULL then None
          else Some (status, re_set_group env s) }"

definition apply_and_init ::
    "'s request_env \<Rightarrow> group_view option \<Rightarrow> ucg_coll_args \<Rightarrow> ucg_request_info option \<Rightarrow> c_ptr list \<Rightarrow> c_ptr \<Rightarrow>
     's \<Rightarrow> (ucg_status \<times> 's) option" where
  "apply_and_init env grp args info buffers request s =
     (case request_apply_info_return env args info buffers of
        Inl status \<Rightarrow> Some (status, s)
      | Inr args \<Rightarrow> ucg_request_init env grp args request s)"

text \<open>\<open>UCG_CHECK_NULL_INVALID\<close> on pointers, and on the pointers that the model keeps as options.\<close>

definition check_null :: "'s request_env \<Rightarrow> c_ptr list \<Rightarrow> bool list \<Rightarrow> bool" where
  "check_null env ps nonnull = (re_check_params env \<and> (C_NULL \<in> set ps \<or> False \<in> set nonnull))"

datatype ucg_request_type = UCG_REQUEST_BLOCKING | UCG_REQUEST_NONBLOCKING

abbreviation given :: "'a option \<Rightarrow> bool" where "given p \<equiv> p \<noteq> None"

subsection \<open>The collectives\<close>

definition ucg_request_bcast_init ::
    "'s request_env \<Rightarrow> c_ptr \<Rightarrow> c_int \<Rightarrow> ucg_dt_arg option \<Rightarrow> ucg_rank_t \<Rightarrow> group_view option \<Rightarrow>
     ucg_request_info option \<Rightarrow> ucg_request_type \<Rightarrow> c_ptr \<Rightarrow> 's \<Rightarrow> (ucg_status \<times> 's) option" where
  "ucg_request_bcast_init env buffer cnt dt root grp info nb request s =
     (if check_null env [buffer, request] [given dt, given grp] then Some (UCG_ERR_INVALID_PARAM, s)
      else let args = (coll_args_zero (if nb = UCG_REQUEST_NONBLOCKING then UCG_COLL_TYPE_IBCAST else UCG_COLL_TYPE_BCAST))
                        \<lparr>ca_recvbuf := buffer, ca_count := cnt, ca_dt := dt, ca_root := root\<rparr>
           in apply_and_init env grp args info [buffer] request s)"

definition ucg_request_allreduce_init ::
    "'s request_env \<Rightarrow> c_ptr \<Rightarrow> c_ptr \<Rightarrow> c_int \<Rightarrow> ucg_dt_arg option \<Rightarrow> c_ptr \<Rightarrow> group_view option \<Rightarrow>
     ucg_request_info option \<Rightarrow> ucg_request_type \<Rightarrow> c_ptr \<Rightarrow> 's \<Rightarrow> (ucg_status \<times> 's) option" where
  "ucg_request_allreduce_init env sendbuf recvbuf cnt dt op grp info nb request s =
     (if check_null env [sendbuf, recvbuf, op, request] [given dt, given grp] then Some (UCG_ERR_INVALID_PARAM, s)
      else let args = (coll_args_zero (if nb = UCG_REQUEST_NONBLOCKING then UCG_COLL_TYPE_IALLREDUCE else UCG_COLL_TYPE_ALLREDUCE))
                        \<lparr>ca_sendbuf := sendbuf, ca_recvbuf := recvbuf, ca_count := cnt, ca_dt := dt, ca_op := op\<rparr>
           in apply_and_init env grp args info [sendbuf, recvbuf] request s)"

definition ucg_request_barrier_init ::
    "'s request_env \<Rightarrow> group_view option \<Rightarrow> ucg_request_info option \<Rightarrow> ucg_request_type \<Rightarrow> c_ptr \<Rightarrow> 's \<Rightarrow>
     (ucg_status \<times> 's) option" where
  "ucg_request_barrier_init env grp info nb request s =
     (if check_null env [request] [given grp] then Some (UCG_ERR_INVALID_PARAM, s)
      else let args = coll_args_zero (if nb = UCG_REQUEST_NONBLOCKING then UCG_COLL_TYPE_IBARRIER else UCG_COLL_TYPE_BARRIER)
           in apply_and_init env grp args info [] request s)"

text \<open>The arguments of a vector collective: counts and displacements of the sender, of the receiver, datatypes.\<close>

definition ucg_request_alltoallv_init ::
    "'s request_env \<Rightarrow> c_ptr \<Rightarrow> c_int list option \<Rightarrow> c_int list option \<Rightarrow> ucg_dt_arg option \<Rightarrow>
     c_ptr \<Rightarrow> c_int list option \<Rightarrow> c_int list option \<Rightarrow> ucg_dt_arg option \<Rightarrow> group_view option \<Rightarrow>
     ucg_request_info option \<Rightarrow> ucg_request_type \<Rightarrow> c_ptr \<Rightarrow> 's \<Rightarrow> (ucg_status \<times> 's) option" where
  "ucg_request_alltoallv_init env sendbuf sendcounts sdispls sendtype recvbuf recvcounts rdispls recvtype
       grp info nb request s =
     (if (if sendbuf = UCG_IN_PLACE
          then check_null env [recvbuf, request] [given recvcounts, given rdispls, given recvtype, given grp]
          else check_null env [sendbuf, recvbuf, request]
                 [given sendcounts, given sdispls, given sendtype, given recvcounts, given rdispls,
                  given recvtype, given grp])
      then Some (UCG_ERR_INVALID_PARAM, s)
      else let args = (coll_args_zero (if nb = UCG_REQUEST_NONBLOCKING then UCG_COLL_TYPE_IALLTOALLV else UCG_COLL_TYPE_ALLTOALLV))
                        \<lparr>ca_sendbuf := sendbuf, ca_sendcounts := sendcounts, ca_sdispls := sdispls, ca_sendtype := sendtype,
                         ca_recvbuf := recvbuf, ca_recvcounts := recvcounts, ca_rdispls := rdispls, ca_recvtype := recvtype\<rparr>
           in apply_and_init env grp args info [sendbuf, recvbuf] request s)"

text \<open>
  Scatterv, gatherv and their root: the check and the buffers to look at depend on the rank, so the
  group is dereferenced first.
\<close>

definition ucg_request_scatterv_init ::
    "'s request_env \<Rightarrow> c_ptr \<Rightarrow> c_int list option \<Rightarrow> c_int list option \<Rightarrow> ucg_dt_arg option \<Rightarrow>
     c_ptr \<Rightarrow> c_int \<Rightarrow> ucg_dt_arg option \<Rightarrow> ucg_rank_t \<Rightarrow> group_view option \<Rightarrow>
     ucg_request_info option \<Rightarrow> ucg_request_type \<Rightarrow> c_ptr \<Rightarrow> 's \<Rightarrow> (ucg_status \<times> 's) option" where
  "ucg_request_scatterv_init env sendbuf sendcounts displs sendtype recvbuf recvcount recvtype root
       grp info nb request s =
     do { g \<leftarrow> grp;
          if (if gv_myrank g = root
              then (if recvbuf = UCG_IN_PLACE
                    then check_null env [sendbuf, request] [given sendcounts, given displs, given sendtype]
                    else check_null env [sendbuf, recvbuf, request]
                           [given sendcounts, given displs, given sendtype, given recvtype])
              else check_null env [recvbuf, request] [given recvtype])
          then Some (UCG_ERR_INVALID_PARAM, s)
          else let args = (coll_args_zero (if nb = UCG_REQUEST_NONBLOCKING then UCG_COLL_TYPE_ISCATTERV else UCG_COLL_TYPE_SCATTERV))
                            \<lparr>ca_sendbuf := sendbuf, ca_sendcounts := sendcounts, ca_sdispls := displs,
                             ca_sendtype := sendtype, ca_recvbuf := recvbuf, ca_count := recvcount,
                             ca_recvtype := recvtype, ca_root := root\<rparr>;
                   buffers = (if gv_myrank g = root
                              then (if recvbuf = UCG_IN_PLACE then [sendbuf] else [sendbuf, recvbuf])
                              else [recvbuf])
               in apply_and_init env grp args info buffers request s }"

definition ucg_request_gatherv_init ::
    "'s request_env \<Rightarrow> c_ptr \<Rightarrow> c_int \<Rightarrow> ucg_dt_arg option \<Rightarrow>
     c_ptr \<Rightarrow> c_int list option \<Rightarrow> c_int list option \<Rightarrow> ucg_dt_arg option \<Rightarrow> ucg_rank_t \<Rightarrow> group_view option \<Rightarrow>
     ucg_request_info option \<Rightarrow> ucg_request_type \<Rightarrow> c_ptr \<Rightarrow> 's \<Rightarrow> (ucg_status \<times> 's) option" where
  "ucg_request_gatherv_init env sendbuf sendcount sendtype recvbuf recvcounts displs recvtype root
       grp info nb request s =
     do { g \<leftarrow> grp;
          if (if gv_myrank g = root
              then (if sendbuf = UCG_IN_PLACE
                    then check_null env [recvbuf, request] [given recvcounts, given displs]
                    else check_null env [sendbuf, recvbuf, request] [given sendtype, given recvcounts, given displs])
              else check_null env [sendbuf, request] [given sendtype])
          then Some (UCG_ERR_INVALID_PARAM, s)
          else let args = (coll_args_zero (if nb = UCG_REQUEST_NONBLOCKING then UCG_COLL_TYPE_IGATHERV else UCG_COLL_TYPE_GATHERV))
                            \<lparr>ca_sendbuf := sendbuf, ca_count := sendcount, ca_sendtype := sendtype,
                             ca_recvbuf := recvbuf, ca_recvcounts := recvcounts, ca_rdispls := displs,
                             ca_recvtype := recvtype, ca_root := root\<rparr>;
                   buffers = (if gv_myrank g = root
                              then (if sendbuf = UCG_IN_PLACE then [recvbuf] else [sendbuf, recvbuf])
                              else [sendbuf])
               in apply_and_init env grp args info buffers request s }"

definition ucg_request_allgatherv_init ::
    "'s request_env \<Rightarrow> c_ptr \<Rightarrow> c_int \<Rightarrow> ucg_dt_arg option \<Rightarrow>
     c_ptr \<Rightarrow> c_int list option \<Rightarrow> c_int list option \<Rightarrow> ucg_dt_arg option \<Rightarrow> group_view option \<Rightarrow>
     ucg_request_info option \<Rightarrow> ucg_request_type \<Rightarrow> c_ptr \<Rightarrow> 's \<Rightarrow> (ucg_status \<times> 's) option" where
  "ucg_request_allgatherv_init env sendbuf sendcount sendtype recvbuf recvcounts displs recvtype
       grp info nb request s =
     (if check_null env [sendbuf, recvbuf, request]
           [given sendtype, given recvcounts, given displs, given recvtype, given grp]
      then Some (UCG_ERR_INVALID_PARAM, s)
      else let args = (coll_args_zero (if nb = UCG_REQUEST_NONBLOCKING then UCG_COLL_TYPE_IALLGATHERV else UCG_COLL_TYPE_ALLGATHERV))
                        \<lparr>ca_sendbuf := sendbuf, ca_count := sendcount, ca_sendtype := sendtype,
                         ca_recvbuf := recvbuf, ca_recvcounts := recvcounts, ca_rdispls := displs,
                         ca_recvtype := recvtype\<rparr>
           in apply_and_init env grp args info (if sendbuf = UCG_IN_PLACE then [recvbuf] else [sendbuf, recvbuf]) request s)"

subsection \<open>Properties\<close>

lemma check_mem_type_rest_Inr:
  "check_mem_type_rest env t ps = Inr t' \<longleftrightarrow> t' = t \<and> (\<forall>p \<in> set ps. ucg_mem_query env p = Inr t)"
  by (induction ps) (auto split: sum.splits)

lemma check_mem_type_Inr:
  "ucg_request_check_mem_type env ps = Inr t \<longleftrightarrow> ps \<noteq> [] \<and> (\<forall>p \<in> set ps. ucg_mem_query env p = Inr t)"
  by (cases ps) (auto simp: ucg_request_check_mem_type_def check_mem_type_rest_Inr split: sum.splits)

definition explicit_mem_type :: "ucg_request_info option \<Rightarrow> ucg_mem_type option" where
  "explicit_mem_type info =
     (case info of
        None \<Rightarrow> None
      | Some info \<Rightarrow>
          if has_field info UCG_REQUEST_INFO_FIELD_MEM_TYPE \<and> ri_mem_type info \<noteq> UCG_MEM_TYPE_UNKNOWN
          then Some (ri_mem_type info) else None)"

lemma apply_info_explicit:
  "(\<not> has_field (ucg_request_apply_info dst info) UCG_REQUEST_INFO_FIELD_MEM_TYPE \<or>
    ri_mem_type (ucg_request_apply_info dst info) = UCG_MEM_TYPE_UNKNOWN) \<longleftrightarrow> explicit_mem_type info = None"
  "explicit_mem_type info = Some t \<Longrightarrow> ri_mem_type (ucg_request_apply_info dst info) = t"
  by (auto simp: ucg_request_apply_info_def explicit_mem_type_def has_field_def UCG_REQUEST_INFO_FIELD_MEM_TYPE_def
      split: option.splits if_splits)

text \<open>
  C33: the memory type of a request is the one its caller states, and otherwise the one that every
  buffer has according to \<open>ucg_mem_query\<close>; in every other case creation stops with an error.
\<close>

theorem request_mem_type_decided:
  "(\<exists>args'. request_apply_info_return env args info buffers = Inr args' \<and> ca_mem_type args' = t) \<longleftrightarrow>
     (case explicit_mem_type info of
        Some t' \<Rightarrow> t = t'
      | None \<Rightarrow> buffers \<noteq> [] \<and> (\<forall>p \<in> set buffers. ucg_mem_query env p = Inr t))"
proof -
  let ?i = "ucg_request_apply_info (ca_info args) info"
  show ?thesis
  proof (cases "explicit_mem_type info")
    case None
    then have c: "\<not> has_field ?i UCG_REQUEST_INFO_FIELD_MEM_TYPE \<or> ri_mem_type ?i = UCG_MEM_TYPE_UNKNOWN"
      using apply_info_explicit(1) by blast
    show ?thesis
      unfolding request_apply_info_return_def request_check_mem_type_return_def if_P [OF c]
      using None by (auto simp: check_mem_type_Inr simp flip: check_mem_type_Inr split: sum.splits)
  next
    case (Some t)
    then have c: "\<not> (\<not> has_field ?i UCG_REQUEST_INFO_FIELD_MEM_TYPE \<or> ri_mem_type ?i = UCG_MEM_TYPE_UNKNOWN)"
      using apply_info_explicit(1) by (metis option.distinct(1))
    show ?thesis
      unfolding request_apply_info_return_def request_check_mem_type_return_def if_not_P [OF c]
      using Some apply_info_explicit(2) [OF Some, of "ca_info args"] by auto
  qed
qed

definition sample_env :: "nat list request_env" where
  "sample_env = \<lparr>re_check_params = True,
     re_mem_query = [\<lambda>p t. if p \<ge> 65536 then (UCG_OK, UCG_MEM_TYPE_ACL) else (UCG_ERR_NOT_FOUND, t)],
     re_prepare = sample_prepare, re_set_group = (\<lambda>s. s)\<rparr>"

lemma request_mem_type_decided_witness:
  "\<exists>args'. request_apply_info_return sample_env (coll_args_zero UCG_COLL_TYPE_ALLREDUCE) None [70000, 80000] = Inr args' \<and>
     ca_mem_type args' = UCG_MEM_TYPE_ACL"
  unfolding request_mem_type_decided by (simp add: explicit_mem_type_def ucg_mem_query_def sample_env_def)

text \<open>
  C40: an allreduce in place on device memory is refused when its memory type has to be found out: the
  marker \<open>UCG_IN_PLACE\<close> itself is queried, counts as host memory because no plan component knows it, and
  clashes with the receive buffer.
\<close>

theorem allreduce_in_place_heterogeneous:
  assumes "mem_query_plancs (re_mem_query env) UCG_IN_PLACE UCG_MEM_TYPE_HOST = UCG_MEM_TYPE_HOST"
    and "mem_query_plancs (re_mem_query env) recvbuf UCG_MEM_TYPE_HOST = UCG_MEM_TYPE_ACL"
    and "recvbuf \<noteq> C_NULL" and "op \<noteq> C_NULL" and "request \<noteq> C_NULL" and "explicit_mem_type info = None"
  shows "ucg_request_allreduce_init env UCG_IN_PLACE recvbuf cnt (Some dt) op (Some g) info nb request s =
           Some (UCG_ERR_UNSUPPORTED, s)"
proof -
  have c: "\<not> has_field (ucg_request_apply_info dst info) UCG_REQUEST_INFO_FIELD_MEM_TYPE \<or>
      ri_mem_type (ucg_request_apply_info dst info) = UCG_MEM_TYPE_UNKNOWN" for dst
    using assms(6) apply_info_explicit(1) by blast
  have m: "ucg_request_check_mem_type env [UCG_IN_PLACE, recvbuf] = Inl UCG_ERR_UNSUPPORTED"
    using assms(1-3) by (simp add: ucg_request_check_mem_type_def ucg_mem_query_def UCG_IN_PLACE_def)
  show ?thesis
    using assms(3-5) unfolding ucg_request_allreduce_init_def Let_def apply_and_init_def request_apply_info_return_def
      request_check_mem_type_return_def if_P [OF c] m by (simp add: check_null_def UCG_IN_PLACE_def)
qed

lemma allreduce_in_place_heterogeneous_witness:
  "ucg_request_allreduce_init sample_env UCG_IN_PLACE 70000 4 (Some (plain_dt 64 8)) 4096
     (Some \<lparr>gv_plans = sample_plans (sample_params 1 0 100 5), gv_size = 4, gv_myrank = 0\<rparr>) None
     UCG_REQUEST_NONBLOCKING 4096 [] = Some (UCG_ERR_UNSUPPORTED, [])"
  by (rule allreduce_in_place_heterogeneous)
    (simp_all add: sample_env_def UCG_IN_PLACE_def explicit_mem_type_def)

text \<open>The memory type of a request for one buffer: the stated one, or what the plan components say of the buffer.\<close>

definition mem_type_of :: "'s request_env \<Rightarrow> ucg_request_info option \<Rightarrow> c_ptr \<Rightarrow> ucg_mem_type" where
  "mem_type_of env info buffer =
     (case explicit_mem_type info of
        Some t \<Rightarrow> t
      | None \<Rightarrow> mem_query_plancs (re_mem_query env) buffer UCG_MEM_TYPE_HOST)"

lemma apply_info_return_one:
  assumes "buffer \<noteq> C_NULL"
  shows "\<exists>i. request_apply_info_return env args info [buffer] = Inr (args\<lparr>ca_info := i\<rparr>) \<and> ri_mem_type i = mem_type_of env info buffer"
proof -
  let ?i = "ucg_request_apply_info (ca_info args) info"
  show ?thesis
  proof (cases "explicit_mem_type info")
    case None
    then have c: "\<not> has_field ?i UCG_REQUEST_INFO_FIELD_MEM_TYPE \<or> ri_mem_type ?i = UCG_MEM_TYPE_UNKNOWN"
      using apply_info_explicit(1) by blast
    show ?thesis
      unfolding request_apply_info_return_def request_check_mem_type_return_def if_P [OF c]
      using None assms by (simp add: ucg_request_check_mem_type_def ucg_mem_query_def mem_type_of_def)
        (rule exI, rule conjI, rule refl, simp)
  next
    case (Some t)
    then have c: "\<not> (\<not> has_field ?i UCG_REQUEST_INFO_FIELD_MEM_TYPE \<or> ri_mem_type ?i = UCG_MEM_TYPE_UNKNOWN)"
      using apply_info_explicit(1) by (metis option.distinct(1))
    show ?thesis
      unfolding request_apply_info_return_def request_check_mem_type_return_def if_not_P [OF c]
      using Some apply_info_explicit(2) [OF Some, of "ca_info args"] by (simp add: mem_type_of_def) (rule exI, rule conjI, rule refl, simp)
  qed
qed

text \<open>
  C28: a broadcast request with valid parameters, whether its memory type is stated or has to be found out from the buffer, is
  created by the best plan for its message size that accepts it: creation tries the candidates of that size, collective
  and memory type in the container of the group, and links the operation to the group exactly when one of them succeeded.
\<close>

theorem bcast_init_selects_plan:
  assumes "store_wf (gv_plans g)" and "buffer \<noteq> C_NULL" and "request \<noteq> C_NULL"
    and t: "t = mem_type_of env info buffer"
    and type: "type = (if nb = UCG_REQUEST_NONBLOCKING then UCG_COLL_TYPE_IBCAST else UCG_COLL_TYPE_BCAST)"
  shows "\<exists>args. ca_type args = type \<and> ca_mem_type args = t \<and> ca_recvbuf args = buffer \<and> ca_count args = cnt \<and>
    ca_dt args = Some dt \<and> ca_root args = root \<and>
    ucg_request_bcast_init env buffer cnt (Some dt) root (Some g) info nb request s =
      (case try_cands (re_prepare env) args
              (other_routines (cands (gv_plans g (type, t)) (cd_size dt * word_of_int cnt))) s of
         (st, s') \<Rightarrow> Some (st, if st = UCG_OK then re_set_group env s' else s'))"
proof -
  let ?a0 = "(coll_args_zero type)\<lparr>ca_recvbuf := buffer, ca_count := cnt, ca_dt := Some dt, ca_root := root\<rparr>"
  obtain i where i: "request_apply_info_return env ?a0 info [buffer] = Inr (?a0\<lparr>ca_info := i\<rparr>)" "ri_mem_type i = t"
    using apply_info_return_one [OF assms(2), of env ?a0 info] unfolding t by blast
  define args where "args = ?a0\<lparr>ca_info := i\<rparr>"
  have mt: "ca_mem_type args = t" using i(2) by (simp add: args_def)
  have ty: "ca_type args = type" "type = UCG_COLL_TYPE_BCAST \<or> type = UCG_COLL_TYPE_IBCAST"
    by (auto simp: args_def coll_args_zero_def type)
  have f: "ca_count args = cnt" "ca_dt args = Some dt" "ca_recvbuf args = buffer" "ca_root args = root"
    by (simp_all add: args_def)
  have m: "ucg_request_msg_size args (gv_size g) = Some (UCG_OK, cd_size dt * word_of_int cnt)"
    using ty f by (auto simp: ucg_request_msg_size_def)
  have "ucg_request_bcast_init env buffer cnt (Some dt) root (Some g) info nb request s =
      ucg_request_init env (Some g) args request s"
    using assms(2,3) unfolding ucg_request_bcast_init_def Let_def apply_and_init_def type [symmetric] i(1)
    by (simp add: check_null_def args_def)
  also have "\<dots> = (case try_cands (re_prepare env) args (other_routines (cands (gv_plans g (type, t)) (cd_size dt * word_of_int cnt))) s of
         (st, s') \<Rightarrow> Some (st, if st = UCG_OK then re_set_group env s' else s'))"
  proof -
    have "ca_type args \<noteq> UCG_COLL_TYPE_ALLTOALLV \<and> ca_type args \<noteq> UCG_COLL_TYPE_IALLTOALLV" using ty by auto
    then have "ucg_plans_prepare (re_prepare env) (gv_plans g) args (gv_size g) s =
        Some (try_cands (re_prepare env) args (other_routines (cands (gv_plans g (type, t)) (cd_size dt * word_of_int cnt))) s)"
      using plans_prepare_eq [OF assms(1) m, of "re_prepare env" s] unfolding ty(1) mt by simp
    then show ?thesis using assms(3) by (simp add: ucg_request_init_def split: prod.splits)
  qed
  finally show ?thesis using ty mt f by blast
qed

text \<open>The memory type is found out: the buffer is on the host.\<close>

lemma bcast_init_selects_plan_witness:
  "\<exists>args. ca_type args = UCG_COLL_TYPE_BCAST \<and> ca_mem_type args = UCG_MEM_TYPE_HOST \<and> ca_recvbuf args = 4096 \<and> ca_count args = 10 \<and>
    ca_dt args = Some (plain_dt 64 4) \<and> ca_root args = 0 \<and>
    ucg_request_bcast_init sample_env 4096 10 (Some (plain_dt 64 4)) 0
      (Some \<lparr>gv_plans = sample_plans (sample_params 2 0 100 5), gv_size = 4, gv_myrank = 0\<rparr>) None UCG_REQUEST_BLOCKING 4096 [] =
      (case try_cands (re_prepare sample_env) args
              (other_routines (cands (sample_plans (sample_params 2 0 100 5) (UCG_COLL_TYPE_BCAST, UCG_MEM_TYPE_HOST))
                 (cd_size (plain_dt 64 4) * word_of_int 10))) [] of
         (st, s') \<Rightarrow> Some (st, if st = UCG_OK then re_set_group sample_env s' else s'))"
proof -
  have "mem_type_of sample_env None 4096 = UCG_MEM_TYPE_HOST"
    by (simp add: mem_type_of_def explicit_mem_type_def sample_env_def)
  then show ?thesis
    using bcast_init_selects_plan [of "\<lparr>gv_plans = sample_plans (sample_params 2 0 100 5), gv_size = 4, gv_myrank = 0\<rparr>"
      4096 4096 UCG_MEM_TYPE_HOST sample_env None UCG_COLL_TYPE_BCAST UCG_REQUEST_BLOCKING 10 "plain_dt 64 4" 0 "[]"] sample_plans_wf [of "sample_params 2 0 100 5"]
    by simp
qed

end
