(* ===== verification/Plan_Op.thy ===== *)
theory Plan_Op
  imports Coll_Args
begin

text \<open>
  Plan operations: \<open>ucg_request\<close> and \<open>ucg_plan_op\<close> (\<open>src/src/core/ucg_request.h\<close>, \<open>ucg_plan.h\<close>), their
  constructors, and the meta operation of \<open>src/src/core/ucg_plan.c\<close>, an operation that runs others in order.

  An operation is a record with the fields of \<open>ucg_plan_op_t\<close> and a private part, the fields of the
  struct that derives from it.  Its routines \<open>trigger\<close>, \<open>progress\<close> and \<open>discard\<close> are function pointers; which
  function runs is decided by the private part, so one record of functions \<open>op_funcs\<close> stands for them.
  They also act on the world (network, memory), of an arbitrary type.
\<close>

subsection \<open>Requests and operations\<close>

definition UCG_GROUP_BASE_REQ_ID :: c_int where "UCG_GROUP_BASE_REQ_ID = 0x800000"
definition UCG_GROUP_END_REQ_ID :: c_int where "UCG_GROUP_END_REQ_ID = 0xFFFFFF"

record ucg_request =
  rq_status :: ucg_status
  rq_args :: ucg_coll_args
  rq_group :: nat
  rq_id :: c_int

record 'p ucg_plan_op =
  op_super :: ucg_request
  op_vgroup :: nat
  op_priv :: 'p

record ('p, 'w) op_funcs =
  fn_trigger :: "'p ucg_plan_op \<Rightarrow> 'w \<Rightarrow> ucg_status \<times> 'p ucg_plan_op \<times> 'w"
  fn_progress :: "'p ucg_plan_op \<Rightarrow> 'w \<Rightarrow> ucg_status \<times> 'p ucg_plan_op \<times> 'w"
  fn_discard :: "'p ucg_plan_op \<Rightarrow> 'w \<Rightarrow> ucg_status \<times> 'w"

abbreviation op_status :: "'p ucg_plan_op \<Rightarrow> ucg_status" where
  "op_status op \<equiv> rq_status (op_super op)"

abbreviation op_id :: "'p ucg_plan_op \<Rightarrow> c_int" where
  "op_id op \<equiv> rq_id (op_super op)"

definition op_set_status :: "ucg_status \<Rightarrow> 'p ucg_plan_op \<Rightarrow> 'p ucg_plan_op" where
  "op_set_status st op = op\<lparr>op_super := (op_super op)\<lparr>rq_status := st\<rparr>\<rparr>"

definition op_set_id :: "c_int \<Rightarrow> 'p ucg_plan_op \<Rightarrow> 'p ucg_plan_op" where
  "op_set_id i op = op\<lparr>op_super := (op_super op)\<lparr>rq_id := i\<rparr>\<rparr>"

lemma op_set_simps [simp]:
  "op_status (op_set_status st op) = st" "op_id (op_set_status st op) = op_id op"
  "op_priv (op_set_status st op) = op_priv op" "op_status (op_set_id i op) = op_status op"
  "op_id (op_set_id i op) = i" "op_priv (op_set_id i op) = op_priv op"
  by (simp_all add: op_set_status_def op_set_id_def)

text \<open>
  \<open>ucg_request_ctor\<close> leaves the group to be set later; \<open>grp\<close> is what the memory held.  The copy of a
  reduction operator that is not persistent does not change what it computes, and is not modelled.
\<close>

definition ucg_request_ctor :: "nat \<Rightarrow> ucg_coll_args \<Rightarrow> ucg_status \<times> ucg_request" where
  "ucg_request_ctor grp args =
     (UCG_OK, \<lparr>rq_status = UCG_OK, rq_args = args, rq_group = grp, rq_id = UCG_GROUP_BASE_REQ_ID\<rparr>)"

definition ucg_plan_op_ctor :: "nat \<Rightarrow> nat \<Rightarrow> 'p \<Rightarrow> ucg_coll_args \<Rightarrow> ucg_status \<times> 'p ucg_plan_op" where
  "ucg_plan_op_ctor grp vgroup priv args =
     (case ucg_request_ctor grp args of
        (status, super) \<Rightarrow> (status, \<lparr>op_super = super, op_vgroup = vgroup, op_priv = priv\<rparr>))"

subsection \<open>The meta operation\<close>

definition UCG_PLAN_OPS_MAX :: nat where "UCG_PLAN_OPS_MAX = 8"

text \<open>\<open>mo_ops\<close> has the first \<open>n_ops\<close> entries of the array \<open>ops\<close>; the others are never set.\<close>

record 'p ucg_plan_meta_op =
  mo_n_completed_ops :: nat
  mo_triggered :: bool
  mo_ops :: "'p ucg_plan_op list"

type_synonym 'p meta_op = "'p ucg_plan_meta_op ucg_plan_op"

abbreviation mo_n_ops :: "'p ucg_plan_meta_op \<Rightarrow> nat" where "mo_n_ops m \<equiv> length (mo_ops m)"

text \<open>The element comes from a memory pool; \<open>grp\<close> is as in \<open>ucg_request_ctor\<close>.\<close>

definition ucg_plan_meta_op_new ::
    "nat \<Rightarrow> nat \<Rightarrow> ucg_coll_args \<Rightarrow> ucg_heap \<Rightarrow> 'p meta_op option \<times> ucg_heap" where
  "ucg_plan_meta_op_new grp vgroup args h =
     (case heap_alloc h of
        (False, h) \<Rightarrow> (None, h)
      | (True, h) \<Rightarrow>
          (case ucg_plan_op_ctor grp vgroup \<lparr>mo_n_completed_ops = 0, mo_triggered = False, mo_ops = []\<rparr> args of
             (status, op) \<Rightarrow> if status \<noteq> UCG_OK then (None, heap_free h) else (Some op, h)))"

definition ucg_plan_meta_op_add :: "'p meta_op \<Rightarrow> 'p ucg_plan_op \<Rightarrow> ucg_status \<times> 'p meta_op" where
  "ucg_plan_meta_op_add meta_op op =
     (let m = op_priv meta_op
      in if mo_n_ops m \<ge> UCG_PLAN_OPS_MAX then (UCG_ERR_NO_MEMORY, meta_op)
         else (UCG_OK, meta_op\<lparr>op_priv := m\<lparr>mo_ops := mo_ops m @ [op]\<rparr>\<rparr>))"

text \<open>
  The first half of a progress call triggers the current operation once, under the id of the meta
  operation.  The second half progresses it.  Reading \<open>ops\<close> behind the last operation is \<open>None\<close>.
\<close>

definition meta_op_kick ::
    "('p, 'w) op_funcs \<Rightarrow> c_int \<Rightarrow> bool \<Rightarrow> 'p ucg_plan_op \<Rightarrow> 'w \<Rightarrow> 'p ucg_plan_op \<times> 'w" where
  "meta_op_kick fs i triggered op w =
     (if triggered then (op, w) else case fn_trigger fs (op_set_id i op) w of (status, op, w) \<Rightarrow> (op, w))"

definition ucg_plan_meta_op_progress ::
    "('p, 'w) op_funcs \<Rightarrow> 'p meta_op \<Rightarrow> 'w \<Rightarrow> (ucg_status \<times> 'p meta_op \<times> 'w) option" where
  "ucg_plan_meta_op_progress fs meta_op w =
     (let m = op_priv meta_op; cur_op_idx = mo_n_completed_ops m
      in if cur_op_idx \<ge> mo_n_ops m then None
         else case meta_op_kick fs (op_id meta_op) (mo_triggered m) (mo_ops m ! cur_op_idx) w of
           (curr_op, w) \<Rightarrow>
             (case fn_progress fs curr_op w of
                (status, curr_op, w) \<Rightarrow>
                  let m = m\<lparr>mo_triggered := True, mo_ops := (mo_ops m)[cur_op_idx := curr_op]\<rparr>;
                      meta_op =
                        (if status = UCG_OK then
                           (let meta_op = meta_op\<lparr>op_priv := m\<lparr>mo_n_completed_ops := cur_op_idx + 1, mo_triggered := False\<rparr>\<rparr>
                            in if cur_op_idx + 1 = mo_n_ops m then op_set_status UCG_OK meta_op else meta_op)
                         else if status \<noteq> UCG_INPROGRESS then op_set_status status (meta_op\<lparr>op_priv := m\<rparr>)
                         else meta_op\<lparr>op_priv := m\<rparr>)
                  in Some (op_status meta_op, meta_op, w)))"

definition ucg_plan_meta_op_trigger ::
    "('p, 'w) op_funcs \<Rightarrow> 'p meta_op \<Rightarrow> 'w \<Rightarrow> (ucg_status \<times> 'p meta_op \<times> 'w) option" where
  "ucg_plan_meta_op_trigger fs meta_op w =
     (if mo_n_ops (op_priv meta_op) = 0 then Some (UCG_OK, op_set_status UCG_OK meta_op, w)
      else
        let meta_op = op_set_status UCG_INPROGRESS meta_op;
            meta_op = meta_op\<lparr>op_priv := (op_priv meta_op)\<lparr>mo_n_completed_ops := 0\<rparr>\<rparr>
        in case ucg_plan_meta_op_progress fs meta_op w of
             None \<Rightarrow> None
           | Some (status, meta_op, w) \<Rightarrow>
               Some (if status = UCG_INPROGRESS then UCG_OK else status, meta_op, w))"

fun discard_ops :: "('p, 'w) op_funcs \<Rightarrow> 'p ucg_plan_op list \<Rightarrow> 'w \<Rightarrow> 'w" where
  "discard_ops fs [] w = w"
| "discard_ops fs (op # rest) w = (case fn_discard fs op w of (status, w) \<Rightarrow> discard_ops fs rest w)"

text \<open>Discarding returns the element to its pool.\<close>

definition ucg_plan_meta_op_discard ::
    "('p, 'w) op_funcs \<Rightarrow> 'p meta_op \<Rightarrow> 'w \<Rightarrow> ucg_heap \<Rightarrow> ucg_status \<times> 'w \<times> ucg_heap" where
  "ucg_plan_meta_op_discard fs meta_op w h =
     (UCG_OK, discard_ops fs (mo_ops (op_priv meta_op)) w, heap_free h)"

end
