(* ===== verification/Meta_Op.thy ===== *)
theory Meta_Op
  imports Plan_Op
begin

text \<open>
  The meta operation runs its operations in the order in which they were added, each once and to its
  end, and it finishes when they do.
\<close>

subsection \<open>One operation\<close>

text \<open>\<open>op\<close> is what a call of \<open>trigger\<close> and then any number of unfinished \<open>progress\<close> calls made of \<open>op0\<close>.\<close>

inductive op_running :: "('p, 'w) op_funcs \<Rightarrow> 'p ucg_plan_op \<Rightarrow> 'p ucg_plan_op \<Rightarrow> bool" for fs op0 where
  kicked: "fn_trigger fs op0 w = (st, op, w') \<Longrightarrow> op_running fs op0 op"
| progressed: "op_running fs op0 op \<Longrightarrow> fn_progress fs op w = (UCG_INPROGRESS, op', w') \<Longrightarrow> op_running fs op0 op'"

text \<open>The last \<open>progress\<close> call returned \<open>st\<close>, which is not \<open>UCG_INPROGRESS\<close>.\<close>

definition op_ended :: "('p, 'w) op_funcs \<Rightarrow> 'p ucg_plan_op \<Rightarrow> ucg_status \<Rightarrow> 'p ucg_plan_op \<Rightarrow> bool" where
  "op_ended fs op0 st op \<longleftrightarrow> st \<noteq> UCG_INPROGRESS \<and>
     (\<exists>op1 w w'. op_running fs op0 op1 \<and> fn_progress fs op1 w = (st, op, w'))"

subsection \<open>The invariant\<close>

definition meta_inv ::
    "('p, 'w) op_funcs \<Rightarrow> c_int \<Rightarrow> 'p ucg_plan_op list \<Rightarrow> 'p meta_op \<Rightarrow> bool" where
  "meta_inv fs i ops meta_op \<longleftrightarrow>
     (let m = op_priv meta_op; k = mo_n_completed_ops m in
        op_id meta_op = i \<and> mo_n_ops m = length ops \<and> k \<le> length ops \<and>
        (\<forall>j < k. op_ended fs (op_set_id i (ops ! j)) UCG_OK (mo_ops m ! j)) \<and>
        (\<forall>j. k < j \<longrightarrow> j < length ops \<longrightarrow> mo_ops m ! j = ops ! j) \<and>
        (if k = length ops then op_status meta_op = UCG_OK \<and> \<not> mo_triggered m
         else op_status meta_op \<noteq> UCG_OK \<and>
           (if op_status meta_op = UCG_INPROGRESS
            then (if mo_triggered m then op_running fs (op_set_id i (ops ! k)) (mo_ops m ! k)
                  else mo_ops m ! k = ops ! k)
            else op_ended fs (op_set_id i (ops ! k)) (op_status meta_op) (mo_ops m ! k))))"

lemma meta_inv_intro:
  assumes "op_id meta_op = i" and "mo_n_ops (op_priv meta_op) = length ops"
    and "mo_n_completed_ops (op_priv meta_op) = k" and "k \<le> length ops"
    and "\<And>j. j < k \<Longrightarrow> op_ended fs (op_set_id i (ops ! j)) UCG_OK (mo_ops (op_priv meta_op) ! j)"
    and "\<And>j. k < j \<Longrightarrow> j < length ops \<Longrightarrow> mo_ops (op_priv meta_op) ! j = ops ! j"
    and "k = length ops \<Longrightarrow> op_status meta_op = UCG_OK \<and> \<not> mo_triggered (op_priv meta_op)"
    and "k \<noteq> length ops \<Longrightarrow> op_status meta_op \<noteq> UCG_OK"
    and "k \<noteq> length ops \<Longrightarrow> op_status meta_op = UCG_INPROGRESS \<Longrightarrow> mo_triggered (op_priv meta_op) \<Longrightarrow>
           op_running fs (op_set_id i (ops ! k)) (mo_ops (op_priv meta_op) ! k)"
    and "k \<noteq> length ops \<Longrightarrow> op_status meta_op = UCG_INPROGRESS \<Longrightarrow> \<not> mo_triggered (op_priv meta_op) \<Longrightarrow>
           mo_ops (op_priv meta_op) ! k = ops ! k"
    and "k \<noteq> length ops \<Longrightarrow> op_status meta_op \<noteq> UCG_INPROGRESS \<Longrightarrow>
           op_ended fs (op_set_id i (ops ! k)) (op_status meta_op) (mo_ops (op_priv meta_op) ! k)"
  shows "meta_inv fs i ops meta_op"
  unfolding meta_inv_def Let_def assms(3) using assms by (auto split del: if_split split: if_splits)

lemma meta_invD:
  assumes "meta_inv fs i ops meta_op"
  shows "op_id meta_op = i" and "mo_n_ops (op_priv meta_op) = length ops"
    and "mo_n_completed_ops (op_priv meta_op) \<le> length ops"
    and "j < mo_n_completed_ops (op_priv meta_op) \<Longrightarrow> op_ended fs (op_set_id i (ops ! j)) UCG_OK (mo_ops (op_priv meta_op) ! j)"
    and "mo_n_completed_ops (op_priv meta_op) < j \<Longrightarrow> j < length ops \<Longrightarrow> mo_ops (op_priv meta_op) ! j = ops ! j"
    and "op_status meta_op = UCG_OK \<longleftrightarrow> mo_n_completed_ops (op_priv meta_op) = length ops"
  using assms unfolding meta_inv_def Let_def by (auto split: if_splits)

lemma meta_inv_current:
  assumes "meta_inv fs i ops meta_op" and "op_status meta_op = UCG_INPROGRESS"
  defines "k \<equiv> mo_n_completed_ops (op_priv meta_op)"
  shows "k < length ops"
    and "if mo_triggered (op_priv meta_op) then op_running fs (op_set_id i (ops ! k)) (mo_ops (op_priv meta_op) ! k)
         else mo_ops (op_priv meta_op) ! k = ops ! k"
  using assms unfolding meta_inv_def Let_def by (auto split: if_splits)

lemma meta_kick_running:
  assumes "meta_op_kick fs i trig op w = (op', w')"
    and "if trig then op_running fs (op_set_id i op0) op else op = op0"
  shows "op_running fs (op_set_id i op0) op'"
  using assms by (auto simp: meta_op_kick_def split: prod.splits if_splits intro: op_running.kicked)

lemma meta_progress_inv:
  assumes inv: "meta_inv fs i ops meta_op" and "op_status meta_op = UCG_INPROGRESS"
  shows "\<exists>st meta_op' w'. ucg_plan_meta_op_progress fs meta_op w = Some (st, meta_op', w') \<and>
           meta_inv fs i ops meta_op' \<and> op_status meta_op' = st"
proof -
  define m where "m = op_priv meta_op"
  define k where "k = mo_n_completed_ops m"
  note d = meta_invD [OF inv, folded m_def, folded k_def] and c = meta_inv_current [OF assms, folded m_def, folded k_def]
  obtain op1 w1 where k1: "meta_op_kick fs (op_id meta_op) (mo_triggered m) (mo_ops m ! k) w = (op1, w1)" by fastforce
  have run: "op_running fs (op_set_id i (ops ! k)) op1" using meta_kick_running [OF k1] c(2) d(1) by simp
  obtain st op2 w2 where p: "fn_progress fs op1 w1 = (st, op2, w2)" by (rule prod_cases3)
  define m2 where "m2 = m\<lparr>mo_triggered := True, mo_ops := (mo_ops m)[k := op2]\<rparr>"
  define done2 where "done2 = meta_op\<lparr>op_priv := m2\<lparr>mo_n_completed_ops := k + 1, mo_triggered := False\<rparr>\<rparr>"
  define r where "r = (if st = UCG_OK then (if k + 1 = length ops then op_set_status UCG_OK done2 else done2)
     else if st \<noteq> UCG_INPROGRESS then op_set_status st (meta_op\<lparr>op_priv := m2\<rparr>) else meta_op\<lparr>op_priv := m2\<rparr>)"
  have e: "ucg_plan_meta_op_progress fs meta_op w = Some (op_status r, r, w2)"
    using c(1) k1 p d(2)
    unfolding ucg_plan_meta_op_progress_def Let_def m_def [symmetric] k_def [symmetric]
    by (simp add: r_def done2_def m2_def)
  have m2: "mo_n_ops m2 = length ops" "mo_ops m2 ! k = op2" "\<And>j. j \<noteq> k \<Longrightarrow> mo_ops m2 ! j = mo_ops m ! j"
    using d(2) c(1) by (simp_all add: m2_def)
  have ended: "st \<noteq> UCG_INPROGRESS \<Longrightarrow> op_ended fs (op_set_id i (ops ! k)) st op2"
    using run p by (auto simp: op_ended_def)
  have "meta_inv fs i ops r"
  proof (cases "st = UCG_OK")
    case True
    then have e1: "op_ended fs (op_set_id i (ops ! j)) UCG_OK (mo_ops m2 ! j)" if "j < k + 1" for j
      using that d(4) [of j] ended m2 by (cases "j = k") auto
    have r: "op_id r = i" "op_priv r = m2\<lparr>mo_n_completed_ops := k + 1, mo_triggered := False\<rparr>"
      "op_status r = (if k + 1 = length ops then UCG_OK else UCG_INPROGRESS)"
      using True d(1) assms(2) by (simp_all add: r_def done2_def)
    show ?thesis by (rule meta_inv_intro [where k = "k + 1"]) (use r m2 c(1) d(5) e1 in \<open>auto split: if_splits\<close>)
  next
    case False
    have r: "op_id r = i" "op_priv r = m2" "op_status r = st" "mo_triggered m2" "mo_n_completed_ops m2 = k"
      using False d(1) assms(2) by (auto simp: r_def m2_def k_def)
    show ?thesis
      by (rule meta_inv_intro [where k = k])
        (use r m2 c(1) d(4,5) ended False op_running.progressed [OF run, of w1 op2 w2] p in auto)
  qed
  then show ?thesis using e by blast
qed

lemma meta_inv_failed:
  assumes "meta_inv fs i ops meta_op" and "op_status meta_op \<noteq> UCG_OK" and "op_status meta_op \<noteq> UCG_INPROGRESS"
  defines "k \<equiv> mo_n_completed_ops (op_priv meta_op)"
  shows "op_ended fs (op_set_id i (ops ! k)) (op_status meta_op) (mo_ops (op_priv meta_op) ! k)"
  using assms unfolding meta_inv_def Let_def by (auto split: if_splits)

text \<open>A progress call kicks and progresses the current operation.\<close>

lemma meta_progress_drives:
  assumes "op_status meta_op = UCG_INPROGRESS"
  defines "k \<equiv> mo_n_completed_ops (op_priv meta_op)"
  shows "k < mo_n_ops (op_priv meta_op) \<Longrightarrow>
    \<exists>op1 w1 st op2 w2 meta_op'. meta_op_kick fs (op_id meta_op) (mo_triggered (op_priv meta_op)) (mo_ops (op_priv meta_op) ! k) w = (op1, w1) \<and>
      fn_progress fs op1 w1 = (st, op2, w2) \<and> ucg_plan_meta_op_progress fs meta_op w = Some (op_status meta_op', meta_op', w2) \<and>
      mo_ops (op_priv meta_op') = (mo_ops (op_priv meta_op))[k := op2]"
proof -
  assume k: "k < mo_n_ops (op_priv meta_op)"
  obtain op1 w1 where k1: "meta_op_kick fs (op_id meta_op) (mo_triggered (op_priv meta_op)) (mo_ops (op_priv meta_op) ! k) w = (op1, w1)"
    by fastforce
  obtain st op2 w2 where p: "fn_progress fs op1 w1 = (st, op2, w2)" by (rule prod_cases3)
  show ?thesis using k k1 p assms(1)
    unfolding ucg_plan_meta_op_progress_def Let_def k_def [symmetric] by (auto simp: op_set_status_def)
qed

definition meta_fresh :: "'p meta_op \<Rightarrow> bool" where
  "meta_fresh meta_op \<longleftrightarrow> \<not> mo_triggered (op_priv meta_op)"

lemma meta_trigger_inv:
  assumes "meta_fresh meta_op"
  shows "\<exists>st meta_op' w'. ucg_plan_meta_op_trigger fs meta_op w = Some (st, meta_op', w') \<and>
           st = (if op_status meta_op' = UCG_INPROGRESS then UCG_OK else op_status meta_op') \<and>
           (mo_n_ops (op_priv meta_op) \<noteq> 0 \<longrightarrow> meta_inv fs (op_id meta_op) (mo_ops (op_priv meta_op)) meta_op') \<and>
           (mo_n_ops (op_priv meta_op) = 0 \<longrightarrow> st = UCG_OK \<and> meta_op' = op_set_status UCG_OK meta_op)"
proof (cases "mo_n_ops (op_priv meta_op) = 0")
  case True
  then show ?thesis by (auto simp: ucg_plan_meta_op_trigger_def)
next
  case False
  define m1 where "m1 = (op_set_status UCG_INPROGRESS meta_op)
    \<lparr>op_priv := (op_priv (op_set_status UCG_INPROGRESS meta_op))\<lparr>mo_n_completed_ops := 0\<rparr>\<rparr>"
  have i: "meta_inv fs (op_id meta_op) (mo_ops (op_priv meta_op)) m1"
    by (rule meta_inv_intro [where k = 0]) (use False assms in \<open>auto simp: m1_def meta_fresh_def op_set_status_def\<close>)
  have "op_status m1 = UCG_INPROGRESS" by (simp add: m1_def op_set_status_def)
  from meta_progress_inv [OF i this, of w] obtain st m' w' where
    p: "ucg_plan_meta_op_progress fs m1 w = Some (st, m', w')" "op_status m' = st"
    and inv: "meta_inv fs (op_id meta_op) (mo_ops (op_priv meta_op)) m'" by blast
  have "ucg_plan_meta_op_trigger fs meta_op w = Some (if st = UCG_INPROGRESS then UCG_OK else st, m', w')"
    using False unfolding ucg_plan_meta_op_trigger_def Let_def m1_def [symmetric] p by simp
  then show ?thesis using False p(2) inv by auto
qed

subsection \<open>All runs\<close>

text \<open>
  A run of a meta operation: it is triggered, and progressed while it is in progress.  Between two
  calls the world may change in any way.
\<close>

inductive meta_run :: "('p, 'w) op_funcs \<Rightarrow> 'p meta_op \<Rightarrow> 'p meta_op \<Rightarrow> bool" for fs m0 where
  start: "ucg_plan_meta_op_trigger fs m0 w = Some (st, m, w') \<Longrightarrow> meta_run fs m0 m"
| step: "meta_run fs m0 m \<Longrightarrow> op_status m = UCG_INPROGRESS \<Longrightarrow>
         ucg_plan_meta_op_progress fs m w = Some (st, m', w') \<Longrightarrow> meta_run fs m0 m'"

inductive_cases meta_runE: "meta_run fs m0 m"

lemma meta_run_inv:
  assumes "meta_run fs m0 m" and "meta_fresh m0" and "mo_n_ops (op_priv m0) \<noteq> 0"
  shows "meta_inv fs (op_id m0) (mo_ops (op_priv m0)) m"
  using assms(1)
proof induction
  case (start w st m w')
  then show ?case using meta_trigger_inv [OF assms(2), of fs w] assms(3) by auto
next
  case (step m w st m' w')
  then show ?case using meta_progress_inv [OF step.IH step.hyps(2), of w] by auto
qed

subsection \<open>Order\<close>

text \<open>
  C20: at every moment of every run, whatever the operations do, the meta operation has driven exactly
  the first operations to a successful end under its own request id, has not touched any operation
  behind the current one, and is done exactly when all are.  While it is in progress the current operation is untouched or
  running, never behind the array, and the next call triggers it if it was not, and progresses it and no other; when it
  failed, the current operation ended with its status.
\<close>

theorem meta_op_runs_in_order:
  assumes "meta_run fs m0 m" and "\<not> mo_triggered (op_priv m0)" and "mo_ops (op_priv m0) \<noteq> []"
  defines "ops \<equiv> mo_ops (op_priv m0)" and "k \<equiv> mo_n_completed_ops (op_priv m)"
  shows "k \<le> length ops \<and>
    (\<forall>j < k. op_ended fs (op_set_id (op_id m0) (ops ! j)) UCG_OK (mo_ops (op_priv m) ! j)) \<and>
    (\<forall>j. k < j \<longrightarrow> j < length ops \<longrightarrow> mo_ops (op_priv m) ! j = ops ! j) \<and>
    (op_status m = UCG_OK \<longleftrightarrow> k = length ops) \<and>
    (op_status m = UCG_INPROGRESS \<longrightarrow> k < length ops \<and>
       (if mo_triggered (op_priv m) then op_running fs (op_set_id (op_id m0) (ops ! k)) (mo_ops (op_priv m) ! k)
        else mo_ops (op_priv m) ! k = ops ! k) \<and>
       (\<exists>op1 w1 st op2 w2 m'. meta_op_kick fs (op_id m0) (mo_triggered (op_priv m)) (mo_ops (op_priv m) ! k) w = (op1, w1) \<and>
          fn_progress fs op1 w1 = (st, op2, w2) \<and> ucg_plan_meta_op_progress fs m w = Some (op_status m', m', w2) \<and>
          mo_ops (op_priv m') = (mo_ops (op_priv m))[k := op2])) \<and>
    (op_status m \<noteq> UCG_OK \<and> op_status m \<noteq> UCG_INPROGRESS \<longrightarrow>
       op_ended fs (op_set_id (op_id m0) (ops ! k)) (op_status m) (mo_ops (op_priv m) ! k))"
proof -
  have i: "meta_inv fs (op_id m0) ops m"
    using meta_run_inv [OF assms(1)] assms(2,3) by (simp add: meta_fresh_def ops_def)
  note d = meta_invD [OF i, folded k_def]
  have now: "k < length ops \<and>
      (if mo_triggered (op_priv m) then op_running fs (op_set_id (op_id m0) (ops ! k)) (mo_ops (op_priv m) ! k)
       else mo_ops (op_priv m) ! k = ops ! k) \<and>
      (\<exists>op1 w1 st op2 w2 m'. meta_op_kick fs (op_id m0) (mo_triggered (op_priv m)) (mo_ops (op_priv m) ! k) w = (op1, w1) \<and>
          fn_progress fs op1 w1 = (st, op2, w2) \<and> ucg_plan_meta_op_progress fs m w = Some (op_status m', m', w2) \<and>
          mo_ops (op_priv m') = (mo_ops (op_priv m))[k := op2])" if s: "op_status m = UCG_INPROGRESS"
    using meta_inv_current [OF i s, folded k_def] meta_progress_drives [OF s, of fs w, folded k_def] d(1,2) by simp
  have "op_status m \<noteq> UCG_OK \<and> op_status m \<noteq> UCG_INPROGRESS \<longrightarrow>
      op_ended fs (op_set_id (op_id m0) (ops ! k)) (op_status m) (mo_ops (op_priv m) ! k)"
    using meta_inv_failed [OF i, folded k_def] by blast
  then show ?thesis using d now by blast
qed

text \<open>A scripted operation: its private part says how many more calls it needs, at most two once triggered.\<close>

definition scripted :: "(nat, nat list) op_funcs" where
  "scripted =
     \<lparr>fn_trigger = \<lambda>op w. (UCG_OK, op\<lparr>op_priv := min 2 (op_priv op)\<rparr>, w),
      fn_progress = \<lambda>op w. if op_priv op = 0 then (UCG_OK, op_set_status UCG_OK op, w @ [nat (op_id op)])
                           else (UCG_INPROGRESS, op\<lparr>op_priv := op_priv op - 1\<rparr>, w),
      fn_discard = \<lambda>op w. (UCG_OK, w)\<rparr>"

definition sample_op :: "'p \<Rightarrow> 'p ucg_plan_op" where
  "sample_op p = snd (ucg_plan_op_ctor 0 0 p (coll_args_zero UCG_COLL_TYPE_BARRIER))"

definition sample_meta :: "nat meta_op" where
  "sample_meta = sample_op \<lparr>mo_n_completed_ops = 0, mo_triggered = False, mo_ops = [sample_op 1, sample_op 2]\<rparr>"

lemma meta_op_runs_in_order_witness:
  "\<exists>m w'. ucg_plan_meta_op_trigger scripted sample_meta [] = Some (UCG_OK, m, w') \<and>
     op_status m = UCG_INPROGRESS \<and> mo_n_completed_ops (op_priv m) = 0 \<and>
     mo_ops (op_priv m) ! 1 = sample_op 2 \<and> ucg_plan_meta_op_progress scripted m [] \<noteq> None"
proof -
  have "case ucg_plan_meta_op_trigger scripted sample_meta [] of None \<Rightarrow> False | Some (st, m, w') \<Rightarrow>
      st = UCG_OK \<and> op_status m = UCG_INPROGRESS \<and> mo_n_completed_ops (op_priv m) = 0" by code_simp
  then obtain m w' where m: "ucg_plan_meta_op_trigger scripted sample_meta [] = Some (UCG_OK, m, w')"
    "op_status m = UCG_INPROGRESS" "mo_n_completed_ops (op_priv m) = 0" by (auto split: option.splits prod.splits)
  have s: "\<not> mo_triggered (op_priv sample_meta)" "mo_ops (op_priv sample_meta) = [sample_op 1, sample_op 2]"
    by (simp_all add: sample_meta_def sample_op_def [of "\<lparr>mo_n_completed_ops = _, mo_triggered = _, mo_ops = _\<rparr>"]
        ucg_plan_op_ctor_def ucg_request_ctor_def)
  have "mo_ops (op_priv m) ! 1 = sample_op 2 \<and> ucg_plan_meta_op_progress scripted m [] \<noteq> None"
    using meta_op_runs_in_order [OF meta_run.start [OF m(1)] s(1), of "[]"] m s(2) by auto
  then show ?thesis using m by blast
qed

subsection \<open>Termination\<close>

text \<open>Progress calls in changing worlds, as long as the operation is in progress.\<close>

fun meta_drive :: "('p, 'w) op_funcs \<Rightarrow> 'p meta_op \<Rightarrow> 'w list \<Rightarrow> 'p meta_op option" where
  "meta_drive fs m [] = Some m"
| "meta_drive fs m (w # ws) =
     (if op_status m \<noteq> UCG_INPROGRESS then Some m
      else case ucg_plan_meta_op_progress fs m w of None \<Rightarrow> None | Some (st, m', w') \<Rightarrow> meta_drive fs m' ws)"

definition op_bounded :: "('p, 'w) op_funcs \<Rightarrow> ('p ucg_plan_op \<Rightarrow> nat) \<Rightarrow> nat \<Rightarrow> bool" where
  "op_bounded fs work b \<longleftrightarrow>
     (\<forall>op w st op' w'. fn_trigger fs op w = (st, op', w') \<longrightarrow> work op' \<le> b) \<and>
     (\<forall>op w op' w'. fn_progress fs op w = (UCG_INPROGRESS, op', w') \<longrightarrow> work op' < work op)"

text \<open>The calls that are left, when an operation needs at most \<open>work\<close> more, and at most \<open>b\<close> once triggered.\<close>

definition meta_work :: "('p ucg_plan_op \<Rightarrow> nat) \<Rightarrow> nat \<Rightarrow> 'p meta_op \<Rightarrow> nat" where
  "meta_work work b meta_op =
     (let m = op_priv meta_op; k = mo_n_completed_ops m in
        (mo_n_ops m - k - 1) * Suc b + (if mo_triggered m then Suc (work (mo_ops m ! k)) else Suc b))"

lemma meta_progress_work:
  assumes "op_bounded fs work b"
    and "ucg_plan_meta_op_progress fs meta_op w = Some (UCG_INPROGRESS, meta_op', w')"
    and "op_status meta_op = UCG_INPROGRESS"
  shows "meta_work work b meta_op' < meta_work work b meta_op"
proof -
  define m where "m = op_priv meta_op"
  define k where "k = mo_n_completed_ops m"
  have kl: "k < mo_n_ops m"
    using assms(2) by (simp add: ucg_plan_meta_op_progress_def Let_def m_def k_def split: if_splits)
  obtain op1 w1 where k1: "meta_op_kick fs (op_id meta_op) (mo_triggered m) (mo_ops m ! k) w = (op1, w1)" by fastforce
  have tb: "work op' \<le> b" if "fn_trigger fs op w = (st, op', w')" for op w st op' w'
    using assms(1) that unfolding op_bounded_def by blast
  have c1: "Suc (work op1) \<le> (if mo_triggered m then Suc (work (mo_ops m ! k)) else Suc b)"
    using k1 by (auto simp: meta_op_kick_def split: prod.splits if_splits dest: tb)
  obtain st op2 w2 where p: "fn_progress fs op1 w1 = (st, op2, w2)" by (rule prod_cases3)
  have e: "ucg_plan_meta_op_progress fs meta_op w = Some (UCG_INPROGRESS, meta_op', w')" by (rule assms(2))
  show ?thesis
  proof (cases "st = UCG_OK")
    case True
    then have "k + 1 \<noteq> mo_n_ops m \<and> op_priv meta_op' =
        m\<lparr>mo_triggered := False, mo_ops := (mo_ops m)[k := op2], mo_n_completed_ops := k + 1\<rparr>"
      using e kl k1 p unfolding ucg_plan_meta_op_progress_def Let_def m_def [symmetric] k_def [symmetric]
      by (auto split: if_splits)
    moreover have "(mo_n_ops m - k - 1) * Suc b = Suc b + (mo_n_ops m - (k + 1) - 1) * Suc b"
      if "k + 1 \<noteq> mo_n_ops m"
    proof -
      have "mo_n_ops m - k - 1 = Suc (mo_n_ops m - (k + 1) - 1)" using that kl by simp
      then show ?thesis by (metis mult_Suc)
    qed
    ultimately show ?thesis by (simp add: meta_work_def Let_def m_def [symmetric] k_def [symmetric])
  next
    case False
    then have "st = UCG_INPROGRESS \<and> op_priv meta_op' = m\<lparr>mo_triggered := True, mo_ops := (mo_ops m)[k := op2]\<rparr>"
      using e kl k1 p assms(3) unfolding ucg_plan_meta_op_progress_def Let_def m_def [symmetric] k_def [symmetric]
      by (auto split: if_splits)
    moreover have "st = UCG_INPROGRESS \<Longrightarrow> work op2 < work op1" using p assms(1) unfolding op_bounded_def by blast
    ultimately show ?thesis using c1 kl
      by (simp add: meta_work_def Let_def m_def [symmetric] k_def [symmetric] del: mult_Suc_right mult_Suc split: if_splits)
  qed
qed

lemma meta_drive_ends:
  assumes "op_bounded fs work b"
  shows "meta_inv fs i ops m \<Longrightarrow> meta_work work b m < length ws \<Longrightarrow>
    \<exists>m'. meta_drive fs m ws = Some m' \<and> op_status m' \<noteq> UCG_INPROGRESS \<and> meta_inv fs i ops m'"
proof (induction ws arbitrary: m)
  case (Cons w ws)
  show ?case
  proof (cases "op_status m = UCG_INPROGRESS")
    case True
    from meta_progress_inv [OF Cons.prems(1) True, of w] obtain st m' w' where
      p: "ucg_plan_meta_op_progress fs m w = Some (st, m', w')" "op_status m' = st" and inv: "meta_inv fs i ops m'"
      by blast
    show ?thesis
    proof (cases "st = UCG_INPROGRESS")
      case True
      then have "meta_work work b m' < meta_work work b m"
        using meta_progress_work [OF assms(1), where meta_op = m] p \<open>op_status m = UCG_INPROGRESS\<close> by blast
      then show ?thesis using Cons.IH [OF inv] Cons.prems(2) p True \<open>op_status m = UCG_INPROGRESS\<close> by simp
    next
      case False
      then have "meta_drive fs m' ws = Some m'" using p(2) by (cases ws) auto
      then show ?thesis using False p inv True by simp
    qed
  qed (use Cons.prems in auto)
qed simp

text \<open>
  C24: if every operation needs at most \<open>b\<close> unfinished progress calls after it is triggered, a started
  meta operation of \<open>n\<close> operations is finished, with success or an error, after \<open>n * (b + 1)\<close> calls.
\<close>

theorem meta_op_finishes:
  assumes "op_bounded fs work b"
    and "\<not> mo_triggered (op_priv m0)" and "ucg_plan_meta_op_trigger fs m0 w = Some (st, m, w')"
    and "length ws = mo_n_ops (op_priv m0) * (b + 1)"
  shows "\<exists>m'. meta_drive fs m ws = Some m' \<and> op_status m' \<noteq> UCG_INPROGRESS"
proof (cases "mo_ops (op_priv m0) = [] \<or> op_status m \<noteq> UCG_INPROGRESS")
  case True
  then have "op_status m \<noteq> UCG_INPROGRESS" using assms(3) by (auto simp: ucg_plan_meta_op_trigger_def)
  then show ?thesis by (cases ws) auto
next
  case False
  let ?ops = "mo_ops (op_priv m0)"
  have inv: "meta_inv fs (op_id m0) ?ops m"
    using meta_trigger_inv [of m0 fs w] assms(2,3) False by (auto simp: meta_fresh_def)
  define m1 where "m1 = (op_set_status UCG_INPROGRESS m0)
    \<lparr>op_priv := (op_priv (op_set_status UCG_INPROGRESS m0))\<lparr>mo_n_completed_ops := 0\<rparr>\<rparr>"
  have p: "ucg_plan_meta_op_progress fs m1 w = Some (UCG_INPROGRESS, m, w')"
  proof -
    have "meta_inv fs (op_id m0) ?ops m1"
      by (rule meta_inv_intro [where k = 0]) (use False assms(2) in \<open>auto simp: m1_def op_set_status_def\<close>)
    from meta_progress_inv [OF this, of w] obtain st2 m2 w2 where
      q: "ucg_plan_meta_op_progress fs m1 w = Some (st2, m2, w2)" "op_status m2 = st2"
      by (auto simp: m1_def op_set_status_def)
    then show ?thesis using assms(3) False unfolding ucg_plan_meta_op_trigger_def Let_def m1_def [symmetric] by auto
  qed
  have "meta_work work b m < meta_work work b m1"
    by (rule meta_progress_work [OF assms(1) p]) (auto simp: m1_def op_set_status_def)
  also have "\<dots> = length ws"
    using False assms(2,4) by (cases ?ops) (auto simp: meta_work_def m1_def op_set_status_def Let_def)
  finally show ?thesis using meta_drive_ends [OF assms(1) inv] by blast
qed

lemma meta_op_finishes_witness:
  "\<exists>m w' m'. ucg_plan_meta_op_trigger scripted sample_meta [] = Some (UCG_OK, m, w') \<and>
     meta_drive scripted m [[], [], [], [], [], []] = Some m' \<and> op_status m' \<noteq> UCG_INPROGRESS"
proof -
  have "case ucg_plan_meta_op_trigger scripted sample_meta [] of None \<Rightarrow> False | Some (st, m, w') \<Rightarrow> st = UCG_OK"
    by code_simp
  then obtain m w' where m: "ucg_plan_meta_op_trigger scripted sample_meta [] = Some (UCG_OK, m, w')"
    by (auto split: option.splits prod.splits)
  have s: "\<not> mo_triggered (op_priv sample_meta)" "length (mo_ops (op_priv sample_meta)) = 2" by code_simp+
  have "\<exists>m'. meta_drive scripted m [[], [], [], [], [], []] = Some m' \<and> op_status m' \<noteq> UCG_INPROGRESS"
    by (rule meta_op_finishes [where b = 2 and work = op_priv, OF _ s(1) m])
      (use s in \<open>auto simp: scripted_def op_bounded_def split: if_splits\<close>)
  then show ?thesis using m by blast
qed

subsection \<open>Errors\<close>

text \<open>
  The status that a trigger returns inside the meta operation is never looked at: two sets of routines that differ in
  nothing else drive every meta operation alike, at every operation of it.  So an operation whose trigger failed is
  progressed like one that started.
\<close>

lemma meta_op_ignores_trigger_status:
  assumes "\<And>op w. snd (fn_trigger fs op w) = snd (fn_trigger fs' op w)" and "fn_progress fs = fn_progress fs'"
  shows "ucg_plan_meta_op_progress fs m w = ucg_plan_meta_op_progress fs' m w"
    and "ucg_plan_meta_op_trigger fs m w = ucg_plan_meta_op_trigger fs' m w"
proof -
  have k: "meta_op_kick fs = meta_op_kick fs'"
  proof (intro ext)
    fix i trig op w
    show "meta_op_kick fs i trig op w = meta_op_kick fs' i trig op w"
      using assms(1) [of "op_set_id i op" w] by (auto simp: meta_op_kick_def split: prod.split)
  qed
  then show p: "ucg_plan_meta_op_progress fs m w = ucg_plan_meta_op_progress fs' m w" for m w
    by (simp only: ucg_plan_meta_op_progress_def assms(2) k)
  show "ucg_plan_meta_op_trigger fs m w = ucg_plan_meta_op_trigger fs' m w" by (simp add: ucg_plan_meta_op_trigger_def p)
qed

end
