(* ===== verification/Request.thy ===== *)
theory Request
  imports Meta_Op
begin

text \<open>
  The life of requests: \<open>ucg_request_start\<close>, \<open>ucg_request_test\<close> and \<open>ucg_request_cleanup\<close> of
  \<open>src/src/core/ucg_request.c\<close>, the request ids of \<open>src/src/core/ucg_group.h\<close> and
  \<open>ucg_context_progress\<close> of \<open>src/src/core/ucg_context.c\<close>.

  The state has the operations by address, the progress list of the context, the last request id of
  every group, the completion callbacks made so far and the world.  A request that does not exist makes
  a function \<open>None\<close>.  The callbacks are the user's; the model only records that they were called.
\<close>

unbundle bit_operations_syntax

subsection \<open>Request ids\<close>

definition ucg_group_alloc_req_id :: "c_int \<Rightarrow> c_int \<times> c_int" where
  "ucg_group_alloc_req_id unique_req_id =
     (let unique_req_id = unique_req_id + 1
      in if unique_req_id = UCG_GROUP_END_REQ_ID then (UCG_GROUP_BASE_REQ_ID + 1, UCG_GROUP_BASE_REQ_ID + 1)
         else (unique_req_id, unique_req_id))"

definition ucg_group_free_req_id :: "c_int \<Rightarrow> c_int \<Rightarrow> c_int" where
  "ucg_group_free_req_id unique_req_id req_id = unique_req_id"

subsection \<open>The state\<close>

record ('p, 'w) ucg_core =
  co_ops :: "nat \<Rightarrow> 'p ucg_plan_op option"
  co_plist :: "nat list"
  co_req_ids :: "nat \<Rightarrow> c_int"
  co_callbacks :: "(nat \<times> ucg_status) list"
  co_world :: 'w

definition set_op :: "nat \<Rightarrow> 'p ucg_plan_op \<Rightarrow> ('p, 'w) ucg_core \<Rightarrow> ('p, 'w) ucg_core" where
  "set_op r op s = s\<lparr>co_ops := (co_ops s)(r \<mapsto> op)\<rparr>"

definition has_callback :: "'p ucg_plan_op \<Rightarrow> bool" where
  "has_callback op = (ri_field_mask (ca_info (rq_args (op_super op))) AND UCG_REQUEST_INFO_FIELD_CB \<noteq> 0)"

subsection \<open>Operations\<close>

definition ucg_request_complete ::
    "nat \<Rightarrow> 'p ucg_plan_op \<Rightarrow> ucg_status \<Rightarrow> ('p, 'w) ucg_core \<Rightarrow> ('p, 'w) ucg_core" where
  "ucg_request_complete r op status s =
     (let grp = rq_group (op_super op);
          s = s\<lparr>co_req_ids := (co_req_ids s)(grp := ucg_group_free_req_id (co_req_ids s grp) (op_id op))\<rparr>;
          s = set_op r (op_set_id UCG_GROUP_BASE_REQ_ID op) s
      in if has_callback op then s\<lparr>co_callbacks := co_callbacks s @ [(r, status)]\<rparr> else s)"

definition ucg_request_start ::
    "('p, 'w) op_funcs \<Rightarrow> nat \<Rightarrow> ('p, 'w) ucg_core \<Rightarrow> (ucg_status \<times> ('p, 'w) ucg_core) option" where
  "ucg_request_start fs r s =
     (case co_ops s r of
        None \<Rightarrow> None
      | Some op \<Rightarrow>
          if op_status op \<noteq> UCG_OK then Some (op_status op, s)
          else
            let grp = rq_group (op_super op)
            in case ucg_group_alloc_req_id (co_req_ids s grp) of
                 (req_id, unique_req_id) \<Rightarrow>
                   (case fn_trigger fs (op_set_id req_id op) (co_world s) of
                      (status, op, w) \<Rightarrow>
                        let s = (set_op r op s)\<lparr>co_req_ids := (co_req_ids s)(grp := unique_req_id), co_world := w\<rparr>
                        in Some (status,
                             if status = UCG_OK then
                               (if op_status op = UCG_INPROGRESS then s\<lparr>co_plist := co_plist s @ [r]\<rparr>
                                else ucg_request_complete r op (op_status op) s)
                             else s)))"

definition ucg_request_test ::
    "('p, 'w) op_funcs \<Rightarrow> nat \<Rightarrow> ('p, 'w) ucg_core \<Rightarrow> (ucg_status \<times> ('p, 'w) ucg_core) option" where
  "ucg_request_test fs r s =
     (case co_ops s r of
        None \<Rightarrow> None
      | Some op \<Rightarrow>
          if op_status op \<noteq> UCG_INPROGRESS then Some (op_status op, s)
          else case fn_progress fs op (co_world s) of
            (status, op, w) \<Rightarrow>
              let s = (set_op r op s)\<lparr>co_world := w\<rparr>
              in Some (status,
                   if status \<noteq> UCG_INPROGRESS
                   then ucg_request_complete r op status (s\<lparr>co_plist := remove1 r (co_plist s)\<rparr>)
                   else s))"

definition ucg_request_cleanup ::
    "('p, 'w) op_funcs \<Rightarrow> nat \<Rightarrow> ('p, 'w) ucg_core \<Rightarrow> (ucg_status \<times> ('p, 'w) ucg_core) option" where
  "ucg_request_cleanup fs r s =
     (case co_ops s r of
        None \<Rightarrow> None
      | Some op \<Rightarrow>
          if op_status op = UCG_INPROGRESS then Some (UCG_INPROGRESS, s)
          else case fn_discard fs op (co_world s) of
            (status, w) \<Rightarrow> Some (status, s\<lparr>co_ops := (co_ops s)(r := None), co_world := w\<rparr>))"

text \<open>
  The loop of \<open>ucg_context_progress\<close>.  It walks the list safely against the removal of the current
  request, which is the only change \<open>ucg_request_test\<close> makes, so it visits the requests that were in the
  list before.  Afterwards every plan component progresses the world.
\<close>

fun progress_requests ::
    "('p, 'w) op_funcs \<Rightarrow> nat list \<Rightarrow> ('p, 'w) ucg_core \<Rightarrow> (nat \<times> ('p, 'w) ucg_core) option" where
  "progress_requests fs [] s = Some (0, s)"
| "progress_requests fs (r # rs) s =
     do { (status, s) \<leftarrow> ucg_request_test fs r s;
          (cnt, s) \<leftarrow> progress_requests fs rs s;
          Some (if status \<noteq> UCG_INPROGRESS then cnt + 1 else cnt, s) }"

definition ucg_context_progress ::
    "('p, 'w) op_funcs \<Rightarrow> ('w \<Rightarrow> 'w) list \<Rightarrow> ('p, 'w) ucg_core \<Rightarrow> (nat \<times> ('p, 'w) ucg_core) option" where
  "ucg_context_progress fs plancs s =
     (if co_plist s = [] then Some (0, s)
      else do { (cnt, s) \<leftarrow> progress_requests fs (co_plist s) s;
                Some (cnt, s\<lparr>co_world := fold (\<lambda>context_progress w. context_progress w) plancs (co_world s)\<rparr>) })"

subsection \<open>What an operation promises\<close>

text \<open>
  The contract between the request layer and an operation: the routines change nothing of the request
  but its status (and, while it is triggered, nothing else), \<open>progress\<close> returns the status it leaves in
  the request (the assertion in \<open>ucg_request_test\<close>), and an operation whose trigger fails is not in progress.
\<close>

locale plan_op_contract =
  fixes fs :: "('p, 'w) op_funcs" and live :: "'p ucg_plan_op \<Rightarrow> bool"
  assumes trigger_ok: "live op \<Longrightarrow> op_status op = UCG_OK \<Longrightarrow> fn_trigger fs op w = (st, op', w') \<Longrightarrow>
      live op' \<and> op_super op' = (op_super op)\<lparr>rq_status := op_status op'\<rparr> \<and>
      (st \<noteq> UCG_OK \<longrightarrow> op_status op' \<noteq> UCG_INPROGRESS)"
    and progress_ok: "live op \<Longrightarrow> op_status op = UCG_INPROGRESS \<Longrightarrow> fn_progress fs op w = (st, op', w') \<Longrightarrow>
      live op' \<and> op_super op' = (op_super op)\<lparr>rq_status := st\<rparr>"
    and live_set_id: "live op \<Longrightarrow> live (op_set_id i op)"

text \<open>
  Everything that can happen to the state of one context: a request is created (by a plan that made an
  operation for it), started, tested, cleaned up; the context makes progress; the world moves.  The last
  argument counts, for every request, the starts that succeeded.
\<close>

inductive core_run ::
    "('p, 'w) op_funcs \<Rightarrow> ('p ucg_plan_op \<Rightarrow> bool) \<Rightarrow> ('p, 'w) ucg_core \<Rightarrow> (nat \<Rightarrow> nat) \<Rightarrow> bool" for fs live where
  init: "core_run fs live \<lparr>co_ops = (\<lambda>_. None), co_plist = [], co_req_ids = (\<lambda>_. UCG_GROUP_BASE_REQ_ID),
           co_callbacks = [], co_world = w\<rparr> (\<lambda>_. 0)"
| create: "core_run fs live s n \<Longrightarrow> co_ops s r = None \<Longrightarrow> n r = 0 \<Longrightarrow> live op \<Longrightarrow> op_status op = UCG_OK \<Longrightarrow>
           op_id op = UCG_GROUP_BASE_REQ_ID \<Longrightarrow> core_run fs live (set_op r op s) n"
| start: "core_run fs live s n \<Longrightarrow> co_ops s r = Some op \<Longrightarrow> ucg_request_start fs r s = Some (st, s') \<Longrightarrow>
           core_run fs live s' (if op_status op = UCG_OK \<and> st = UCG_OK then n(r := Suc (n r)) else n)"
| test: "core_run fs live s n \<Longrightarrow> ucg_request_test fs r s = Some (st, s') \<Longrightarrow> core_run fs live s' n"
| cleanup: "core_run fs live s n \<Longrightarrow> ucg_request_cleanup fs r s = Some (st, s') \<Longrightarrow> core_run fs live s' n"
| progress: "core_run fs live s n \<Longrightarrow> ucg_context_progress fs plancs s = Some (cnt, s') \<Longrightarrow> core_run fs live s' n"
| world: "core_run fs live s n \<Longrightarrow> core_run fs live (s\<lparr>co_world := w\<rparr>) n"

subsection \<open>The invariant\<close>

definition callbacks_of :: "('p, 'w) ucg_core \<Rightarrow> nat \<Rightarrow> nat" where
  "callbacks_of s r = length (filter (\<lambda>c. fst c = r) (co_callbacks s))"

definition id_ok :: "c_int \<Rightarrow> bool" where
  "id_ok i \<longleftrightarrow> UCG_GROUP_BASE_REQ_ID < i \<and> i < UCG_GROUP_END_REQ_ID"

text \<open>
  What holds of one request with \<open>c\<close> callbacks made and \<open>n\<close> successful starts: it is in the progress
  list exactly when it is in progress, then it has an id and its last start is not called back yet.
\<close>

fun req_ok :: "('p ucg_plan_op \<Rightarrow> bool) \<Rightarrow> nat \<Rightarrow> nat \<Rightarrow> bool \<Rightarrow> 'p ucg_plan_op option \<Rightarrow> bool" where
  "req_ok live c n listed None \<longleftrightarrow> \<not> listed \<and> c \<le> n"
| "req_ok live c n listed (Some op) \<longleftrightarrow> live op \<and> (listed \<longleftrightarrow> op_status op = UCG_INPROGRESS) \<and>
     (if op_status op = UCG_INPROGRESS then id_ok (op_id op) \<and> c < n \<and> (has_callback op \<longrightarrow> c + 1 = n)
      else c \<le> n \<and> (has_callback op \<longrightarrow> c = n))"

definition req_inv :: "('p ucg_plan_op \<Rightarrow> bool) \<Rightarrow> ('p, 'w) ucg_core \<Rightarrow> (nat \<Rightarrow> nat) \<Rightarrow> nat \<Rightarrow> bool" where
  "req_inv live s n r \<longleftrightarrow> req_ok live (callbacks_of s r) (n r) (r \<in> set (co_plist s)) (co_ops s r)"

definition core_inv :: "('p ucg_plan_op \<Rightarrow> bool) \<Rightarrow> ('p, 'w) ucg_core \<Rightarrow> (nat \<Rightarrow> nat) \<Rightarrow> bool" where
  "core_inv live s n \<longleftrightarrow> distinct (co_plist s) \<and>
     (\<forall>g. UCG_GROUP_BASE_REQ_ID \<le> co_req_ids s g \<and> co_req_ids s g < UCG_GROUP_END_REQ_ID) \<and>
     (\<forall>r. req_inv live s n r)"

lemma core_invD: "core_inv live s n \<Longrightarrow> req_inv live s n r"
  by (simp add: core_inv_def)

lemma alloc_req_id_ok:
  assumes "ucg_group_alloc_req_id u = (i, u')"
    and "UCG_GROUP_BASE_REQ_ID \<le> u \<and> u < UCG_GROUP_END_REQ_ID"
  shows "id_ok i" and "UCG_GROUP_BASE_REQ_ID \<le> u' \<and> u' < UCG_GROUP_END_REQ_ID"
  using assms
  by (auto simp: ucg_group_alloc_req_id_def id_ok_def Let_def UCG_GROUP_BASE_REQ_ID_def UCG_GROUP_END_REQ_ID_def
      split: if_splits)

text \<open>An operation on one request has to be looked at for that request only.\<close>

lemma core_inv_frame:
  assumes "core_inv live s n" and "distinct (co_plist s')"
    and "\<And>g. UCG_GROUP_BASE_REQ_ID \<le> co_req_ids s' g \<and> co_req_ids s' g < UCG_GROUP_END_REQ_ID"
    and "\<And>q. q \<noteq> r \<Longrightarrow> co_ops s' q = co_ops s q \<and> (q \<in> set (co_plist s') \<longleftrightarrow> q \<in> set (co_plist s)) \<and>
           callbacks_of s' q = callbacks_of s q \<and> n' q = n q"
    and "req_inv live s' n' r"
  shows "core_inv live s' n'"
proof -
  have "req_inv live s' n' q" for q
  proof (cases "q = r")
    case False
    then show ?thesis using assms(4) [OF False] core_invD [OF assms(1), of q] by (simp add: req_inv_def)
  qed (use assms(5) in simp)
  then show ?thesis using assms(2,3) by (simp add: core_inv_def)
qed

text \<open>What completion leaves: the callback is made, the id is given back.\<close>

lemma complete_simps [simp]:
  "co_ops (ucg_request_complete r op st s) = (co_ops s)(r \<mapsto> op_set_id UCG_GROUP_BASE_REQ_ID op)"
  "co_plist (ucg_request_complete r op st s) = co_plist s"
  "co_req_ids (ucg_request_complete r op st s) = co_req_ids s"
  "callbacks_of (ucg_request_complete r op st s) q =
     callbacks_of s q + (if q = r \<and> has_callback op then 1 else 0)"
  by (auto simp: ucg_request_complete_def set_op_def callbacks_of_def Let_def ucg_group_free_req_id_def)

lemma has_callback_set_id [simp]: "has_callback (op_set_id i op) = has_callback op"
  by (simp add: op_set_id_def has_callback_def)

lemma has_callback_status: "op_super op' = (op_super op)\<lparr>rq_status := st\<rparr> \<Longrightarrow> has_callback op' = has_callback op"
  by (simp add: has_callback_def)

lemma callbacks_of_update [simp]:
  "callbacks_of (s\<lparr>co_plist := x\<rparr>) q = callbacks_of s q" "callbacks_of (s\<lparr>co_world := w\<rparr>) q = callbacks_of s q"
  "callbacks_of (s\<lparr>co_ops := os\<rparr>) q = callbacks_of s q" "callbacks_of (s\<lparr>co_req_ids := ids\<rparr>) q = callbacks_of s q"
  "callbacks_of (set_op r op s) q = callbacks_of s q"
  by (simp_all add: callbacks_of_def set_op_def)

lemma set_op_simps [simp]:
  "co_ops (set_op r op s) = (co_ops s)(r \<mapsto> op)" "co_plist (set_op r op s) = co_plist s"
  "co_req_ids (set_op r op s) = co_req_ids s"
  by (simp_all add: set_op_def)

text \<open>
  What one call of \<open>progress\<close> makes of a request: the operation is progressed, in some world, and if it is done it gives
  its id back.
\<close>

definition unfinished :: "('p, 'w) ucg_core \<Rightarrow> nat \<Rightarrow> bool" where
  "unfinished s r \<longleftrightarrow> (\<exists>op. co_ops s r = Some op \<and> op_status op = UCG_INPROGRESS)"

definition request_progressed ::
    "('p, 'w) op_funcs \<Rightarrow> 'p ucg_plan_op option \<Rightarrow> 'p ucg_plan_op option \<Rightarrow> bool" where
  "request_progressed fs old new \<longleftrightarrow>
     (\<exists>op w st op' w'. old = Some op \<and> op_status op = UCG_INPROGRESS \<and> fn_progress fs op w = (st, op', w') \<and>
        new = Some (if st = UCG_INPROGRESS then op' else op_set_id UCG_GROUP_BASE_REQ_ID op') \<and> op_status op' = st)"

context plan_op_contract
begin

lemma start_inv:
  assumes inv: "core_inv live s n" and o: "co_ops s r = Some op" and st: "ucg_request_start fs r s = Some (st, s')"
  shows "core_inv live s' (if op_status op = UCG_OK \<and> st = UCG_OK then n(r := Suc (n r)) else n)"
proof (cases "op_status op = UCG_OK")
  case False
  then show ?thesis using st o inv by (simp add: ucg_request_start_def)
next
  case True
  obtain i u where a: "ucg_group_alloc_req_id (co_req_ids s (rq_group (op_super op))) = (i, u)" by fastforce
  have ids: "\<And>g. UCG_GROUP_BASE_REQ_ID \<le> co_req_ids s g \<and> co_req_ids s g < UCG_GROUP_END_REQ_ID"
    and d: "distinct (co_plist s)" using inv by (simp_all add: core_inv_def)
  note u = alloc_req_id_ok [OF a ids]
  obtain st1 op1 w1 where t: "fn_trigger fs (op_set_id i op) (co_world s) = (st1, op1, w1)" by (rule prod_cases3)
  have r0: "live op" "r \<notin> set (co_plist s)" "callbacks_of s r \<le> n r" "has_callback op \<longrightarrow> callbacks_of s r = n r"
    using core_invD [OF inv, of r] o True by (simp_all add: req_inv_def)
  have op1: "live op1" "op_super op1 = (op_super (op_set_id i op))\<lparr>rq_status := op_status op1\<rparr>"
    "st1 \<noteq> UCG_OK \<Longrightarrow> op_status op1 \<noteq> UCG_INPROGRESS"
    using trigger_ok [OF live_set_id [OF r0(1)] _ t] True by auto
  have f: "op_id op1 = i" "has_callback op1 = has_callback op"
    using arg_cong [OF op1(2), of rq_id] has_callback_status [OF op1(2)] by (simp_all add: op_set_id_def has_callback_def)
  define s1 where "s1 = (set_op r op1 s)\<lparr>co_req_ids := (co_req_ids s)(rq_group (op_super op) := u), co_world := w1\<rparr>"
  have s': "st = st1" "s' = (if st1 = UCG_OK then
      (if op_status op1 = UCG_INPROGRESS then s1\<lparr>co_plist := co_plist s1 @ [r]\<rparr>
       else ucg_request_complete r op1 (op_status op1) s1) else s1)"
    using st o True a t by (auto simp: ucg_request_start_def Let_def s1_def)
  have s1: "co_ops s1 = (co_ops s)(r \<mapsto> op1)" "co_plist s1 = co_plist s" "callbacks_of s1 q = callbacks_of s q"
    "UCG_GROUP_BASE_REQ_ID \<le> co_req_ids s1 g \<and> co_req_ids s1 g < UCG_GROUP_END_REQ_ID" for q g
    using u(2) ids by (simp_all add: s1_def)
  have n: "(if op_status op = UCG_OK \<and> st = UCG_OK then n(r := Suc (n r)) else n) =
      (if st1 = UCG_OK then n(r := Suc (n r)) else n)" using True s'(1) by simp
  consider "st1 \<noteq> UCG_OK" | "st1 = UCG_OK" "op_status op1 = UCG_INPROGRESS"
    | "st1 = UCG_OK" "op_status op1 \<noteq> UCG_INPROGRESS" by blast
  then show ?thesis
  proof cases
    case 1
    then show ?thesis unfolding n s'(2)
      by (intro core_inv_frame [OF inv, where r = r]) (use s1 d r0 op1 f in \<open>auto simp: req_inv_def\<close>)
  next
    case 2
    then show ?thesis unfolding n s'(2)
      by (intro core_inv_frame [OF inv, where r = r]) (use s1 d r0 op1 f u(1) in \<open>auto simp: req_inv_def\<close>)
  next
    case 3
    then show ?thesis unfolding n s'(2)
      by (intro core_inv_frame [OF inv, where r = r])
        (use s1 d r0 op1 f live_set_id [OF op1(1)] in \<open>auto simp: req_inv_def\<close>)
  qed
qed

lemma test_inv:
  assumes inv: "core_inv live s n" and st: "ucg_request_test fs r s = Some (st, s')"
  shows "core_inv live s' n"
proof (cases "\<exists>op. co_ops s r = Some op \<and> op_status op = UCG_INPROGRESS")
  case False
  then show ?thesis using st inv by (auto simp: ucg_request_test_def split: option.splits if_splits)
next
  case True
  then obtain op where o: "co_ops s r = Some op" "op_status op = UCG_INPROGRESS" by blast
  have ids: "\<And>g. UCG_GROUP_BASE_REQ_ID \<le> co_req_ids s g \<and> co_req_ids s g < UCG_GROUP_END_REQ_ID"
    and d: "distinct (co_plist s)" using inv by (simp_all add: core_inv_def)
  obtain st1 op1 w1 where t: "fn_progress fs op (co_world s) = (st1, op1, w1)" by (rule prod_cases3)
  have r0: "live op" "r \<in> set (co_plist s)" "id_ok (op_id op)" "callbacks_of s r < n r"
    "has_callback op \<longrightarrow> callbacks_of s r + 1 = n r"
    using core_invD [OF inv, of r] o by (simp_all add: req_inv_def)
  have op1: "live op1" "op_super op1 = (op_super op)\<lparr>rq_status := st1\<rparr>" using progress_ok [OF r0(1) o(2) t] by auto
  have f: "op_id op1 = op_id op" "has_callback op1 = has_callback op" "op_status op1 = st1"
    using op1(2) has_callback_status [OF op1(2)] by simp_all
  define s1 where "s1 = (set_op r op1 s)\<lparr>co_world := w1\<rparr>"
  have s': "s' = (if st1 \<noteq> UCG_INPROGRESS
      then ucg_request_complete r op1 st1 (s1\<lparr>co_plist := remove1 r (co_plist s1)\<rparr>) else s1)"
    using st o t by (auto simp: ucg_request_test_def Let_def s1_def)
  have s1: "co_ops s1 = (co_ops s)(r \<mapsto> op1)" "co_plist s1 = co_plist s" "callbacks_of s1 q = callbacks_of s q"
    "co_req_ids s1 = co_req_ids s" for q
    by (simp_all add: s1_def)
  show ?thesis
  proof (cases "st1 = UCG_INPROGRESS")
    case True
    then show ?thesis unfolding s'
      by (intro core_inv_frame [OF inv, where r = r]) (use s1 d ids r0 op1 f in \<open>auto simp: req_inv_def\<close>)
  next
    case False
    then show ?thesis unfolding s'
      by (intro core_inv_frame [OF inv, where r = r])
        (use s1 d ids r0 op1 f live_set_id [OF op1(1)] in \<open>auto simp: req_inv_def\<close>)
  qed
qed

lemma cleanup_inv:
  assumes inv: "core_inv live s n" and st: "ucg_request_cleanup fs r s = Some (st, s')"
  shows "core_inv live s' n"
proof (cases "\<exists>op. co_ops s r = Some op \<and> op_status op \<noteq> UCG_INPROGRESS")
  case False
  then show ?thesis using st inv by (auto simp: ucg_request_cleanup_def split: option.splits if_splits)
next
  case True
  then obtain op where o: "co_ops s r = Some op" "op_status op \<noteq> UCG_INPROGRESS" by blast
  obtain w where s': "s' = s\<lparr>co_ops := (co_ops s)(r := None), co_world := w\<rparr>"
    using st o by (auto simp: ucg_request_cleanup_def split: prod.splits)
  show ?thesis
    by (rule core_inv_frame [OF inv, where r = r])
      (use o s' inv core_invD [OF inv, of r] in \<open>auto simp: req_inv_def core_inv_def\<close>)
qed

lemma core_inv_world: "core_inv live s n \<Longrightarrow> core_inv live (s\<lparr>co_world := w\<rparr>) n"
  by (simp add: core_inv_def req_inv_def)

lemma progress_requests_inv:
  "core_inv live s n \<Longrightarrow> progress_requests fs rs s = Some (cnt, s') \<Longrightarrow> core_inv live s' n"
proof (induction rs arbitrary: s cnt)
  case (Cons r rs)
  from Cons.prems(2) obtain st s1 cnt1 where "ucg_request_test fs r s = Some (st, s1)"
    "progress_requests fs rs s1 = Some (cnt1, s')" by (auto split: bind_splits)
  then show ?case using Cons.IH test_inv [OF Cons.prems(1)] by blast
qed simp

lemma core_run_inv: "core_run fs live s n \<Longrightarrow> core_inv live s n"
proof (induction rule: core_run.induct)
  case (init w)
  show ?case by (simp add: core_inv_def req_inv_def callbacks_of_def UCG_GROUP_BASE_REQ_ID_def UCG_GROUP_END_REQ_ID_def)
next
  case (create s n r op)
  show ?case
  proof (rule core_inv_frame [OF create.IH, where r = r])
    show "req_inv live (set_op r op s) n r"
      using create.hyps(2-5) core_invD [OF create.IH, of r] by (simp add: req_inv_def)
  qed (use create.IH in \<open>auto simp: core_inv_def\<close>)
next
  case (start s n r op st s')
  then show ?case using start_inv by blast
next
  case (test s n r st s')
  then show ?case using test_inv by blast
next
  case (cleanup s n r st s')
  then show ?case using cleanup_inv by blast
next
  case (progress s n plancs cnt s')
  show ?case
  proof (cases "co_plist s = []")
    case True
    then show ?thesis using progress by (simp add: ucg_context_progress_def)
  next
    case False
    then obtain s1 w where "progress_requests fs (co_plist s) s = Some (cnt, s1)" "s' = s1\<lparr>co_world := w\<rparr>"
      using progress.hyps(2) by (auto simp: ucg_context_progress_def split: bind_splits)
    then show ?thesis using core_inv_world [OF progress_requests_inv [OF progress.IH]] by simp
  qed
next
  case (world s n w)
  show ?case by (rule core_inv_world [OF world.IH])
qed

text \<open>Progress visits requests that exist, each once, and takes those off the list that are done.\<close>

lemma test_listed:
  assumes inv: "core_inv live s n" and r: "r \<in> set (co_plist s)"
  shows "\<exists>st s'. ucg_request_test fs r s = Some (st, s') \<and> core_inv live s' n \<and>
    request_progressed fs (co_ops s r) (co_ops s' r) \<and> (unfinished s' r \<longleftrightarrow> st = UCG_INPROGRESS) \<and>
    (\<forall>q. q \<noteq> r \<longrightarrow> co_ops s' q = co_ops s q) \<and>
    co_plist s' = (if st = UCG_INPROGRESS then co_plist s else filter (\<lambda>q. q \<noteq> r) (co_plist s))"
proof -
  obtain op where o: "co_ops s r = Some op" "op_status op = UCG_INPROGRESS" "live op"
    using core_invD [OF inv, of r] r by (cases "co_ops s r") (auto simp: req_inv_def)
  have d: "remove1 r (co_plist s) = filter (\<lambda>q. q \<noteq> r) (co_plist s)"
    using inv by (simp add: core_inv_def distinct_remove1_removeAll removeAll_filter_not_eq eq_commute)
  obtain st op1 w1 where p: "fn_progress fs op (co_world s) = (st, op1, w1)" by (rule prod_cases3)
  have st: "op_status op1 = st" using progress_ok [OF o(3,2) p] by simp
  define s1 where "s1 = (set_op r op1 s)\<lparr>co_world := w1\<rparr>"
  define s' where "s' = (if st \<noteq> UCG_INPROGRESS then ucg_request_complete r op1 st (s1\<lparr>co_plist := remove1 r (co_plist s1)\<rparr>) else s1)"
  have t: "ucg_request_test fs r s = Some (st, s')"
    using o p by (simp add: ucg_request_test_def Let_def s'_def s1_def)
  have "co_ops s' = (co_ops s)(r \<mapsto> (if st = UCG_INPROGRESS then op1 else op_set_id UCG_GROUP_BASE_REQ_ID op1))"
    "co_plist s' = (if st = UCG_INPROGRESS then co_plist s else remove1 r (co_plist s))"
    by (simp_all add: s'_def s1_def)
  moreover have "request_progressed fs (Some op) (Some (if st = UCG_INPROGRESS then op1 else op_set_id UCG_GROUP_BASE_REQ_ID op1))"
    unfolding request_progressed_def using o(2) p st by blast
  ultimately show ?thesis using t test_inv [OF inv t] o(1) st d by (auto simp: unfinished_def)
qed

lemma progress_requests_total:
  "core_inv live s n \<Longrightarrow> distinct rs \<Longrightarrow> set rs \<subseteq> set (co_plist s) \<Longrightarrow>
   \<exists>s'. progress_requests fs rs s = Some (length (filter (\<lambda>r. \<not> unfinished s' r) rs), s') \<and>
     co_plist s' = filter (\<lambda>r. r \<in> set rs \<longrightarrow> unfinished s' r) (co_plist s) \<and>
     (\<forall>r \<in> set rs. request_progressed fs (co_ops s r) (co_ops s' r)) \<and>
     (\<forall>r. r \<notin> set rs \<longrightarrow> co_ops s' r = co_ops s r)"
proof (induction rs arbitrary: s)
  case (Cons r rs)
  obtain st s1 where t: "ucg_request_test fs r s = Some (st, s1)" "core_inv live s1 n"
    and p: "request_progressed fs (co_ops s r) (co_ops s1 r)" "unfinished s1 r \<longleftrightarrow> st = UCG_INPROGRESS"
      "\<And>q. q \<noteq> r \<Longrightarrow> co_ops s1 q = co_ops s q"
      "co_plist s1 = (if st = UCG_INPROGRESS then co_plist s else filter (\<lambda>q. q \<noteq> r) (co_plist s))"
    using test_listed [OF Cons.prems(1), of r] Cons.prems(3) by auto
  have r: "r \<notin> set rs" and "set rs \<subseteq> set (co_plist s1)" using p(4) Cons.prems(2,3) by auto
  from Cons.IH [OF t(2) _ this(2)] Cons.prems(2) obtain s' where
    s': "progress_requests fs rs s1 = Some (length (filter (\<lambda>r. \<not> unfinished s' r) rs), s')"
    "co_plist s' = filter (\<lambda>r. r \<in> set rs \<longrightarrow> unfinished s' r) (co_plist s1)"
    "\<forall>r \<in> set rs. request_progressed fs (co_ops s1 r) (co_ops s' r)" "\<forall>r. r \<notin> set rs \<longrightarrow> co_ops s' r = co_ops s1 r" by auto
  have same: "co_ops s' r = co_ops s1 r" using s'(4) r by simp
  then have u: "unfinished s' r \<longleftrightarrow> st = UCG_INPROGRESS" using p(2) by (simp add: unfinished_def)
  have "co_plist s' = filter (\<lambda>q. q \<in> set (r # rs) \<longrightarrow> unfinished s' q) (co_plist s)"
    unfolding s'(2) p(4) using u r by (auto intro: filter_cong)
  moreover have "\<forall>q \<in> set (r # rs). request_progressed fs (co_ops s q) (co_ops s' q)"
  proof
    fix q assume "q \<in> set (r # rs)"
    then show "request_progressed fs (co_ops s q) (co_ops s' q)"
      using s'(3) p(1) p(3) [of q] same by (cases "q = r") auto
  qed
  moreover have "\<forall>q. q \<notin> set (r # rs) \<longrightarrow> co_ops s' q = co_ops s q" using s'(4) p(3) by simp
  ultimately show ?case using t(1) s'(1) u by simp
qed simp

lemma context_progress_total:
  assumes "core_run fs live s n"
  shows "\<exists>s'. ucg_context_progress fs plancs s = Some (length (filter (\<lambda>r. \<not> unfinished s' r) (co_plist s)), s') \<and>
    co_plist s' = filter (unfinished s') (co_plist s) \<and>
    (\<forall>r \<in> set (co_plist s). request_progressed fs (co_ops s r) (co_ops s' r)) \<and>
    (\<forall>r. r \<notin> set (co_plist s) \<longrightarrow> co_ops s' r = co_ops s r)"
proof (cases "co_plist s = []")
  case False
  have inv: "core_inv live s n" by (rule core_run_inv [OF assms])
  from progress_requests_total [OF inv _ order_refl] obtain s1 where
    s1: "progress_requests fs (co_plist s) s = Some (length (filter (\<lambda>r. \<not> unfinished s1 r) (co_plist s)), s1)"
    "co_plist s1 = filter (\<lambda>r. r \<in> set (co_plist s) \<longrightarrow> unfinished s1 r) (co_plist s)"
    "\<forall>r \<in> set (co_plist s). request_progressed fs (co_ops s r) (co_ops s1 r)" "\<forall>r. r \<notin> set (co_plist s) \<longrightarrow> co_ops s1 r = co_ops s r"
    using inv by (auto simp: core_inv_def)
  have "co_plist s1 = filter (unfinished s1) (co_plist s)" unfolding s1(2) by (rule filter_cong) simp_all
  moreover have "unfinished (s1\<lparr>co_world := w\<rparr>) = unfinished s1" for w by (intro ext) (simp add: unfinished_def)
  ultimately show ?thesis using s1(1,3,4) False by (simp add: ucg_context_progress_def)
qed (simp add: ucg_context_progress_def)

end

subsection \<open>The meta operation keeps the contract\<close>

text \<open>
  The meta operation as an operation of the request layer.  A live one in progress never reads behind
  its array, so the second cases below are not reached.
\<close>

definition meta_op_funcs :: "('p, 'w) op_funcs \<Rightarrow> ('p ucg_plan_meta_op, 'w \<times> ucg_heap) op_funcs" where
  "meta_op_funcs fs =
     \<lparr>fn_trigger = \<lambda>op (w, h). case ucg_plan_meta_op_trigger fs op w of
        Some (st, op, w) \<Rightarrow> (st, op, (w, h)) | None \<Rightarrow> (UCG_ERR_INVALID_PARAM, op, (w, h)),
      fn_progress = \<lambda>op (w, h). case ucg_plan_meta_op_progress fs op w of
        Some (st, op, w) \<Rightarrow> (st, op, (w, h)) | None \<Rightarrow> (op_status op, op, (w, h)),
      fn_discard = \<lambda>op (w, h). case ucg_plan_meta_op_discard fs op w h of (st, w, h) \<Rightarrow> (st, (w, h))\<rparr>"

definition meta_live :: "'p meta_op \<Rightarrow> bool" where
  "meta_live op \<longleftrightarrow> (op_status op = UCG_INPROGRESS \<longrightarrow> mo_n_completed_ops (op_priv op) < mo_n_ops (op_priv op))"

lemma meta_progress_contract:
  assumes "mo_n_completed_ops (op_priv op) < mo_n_ops (op_priv op)" and "op_status op = UCG_INPROGRESS"
  shows "\<exists>op' w'. ucg_plan_meta_op_progress fs op w = Some (op_status op', op', w') \<and> meta_live op' \<and>
    op_super op' = (op_super op)\<lparr>rq_status := op_status op'\<rparr>"
proof -
  obtain op1 w1 where k1: "meta_op_kick fs (op_id op) (mo_triggered (op_priv op))
      (mo_ops (op_priv op) ! mo_n_completed_ops (op_priv op)) w = (op1, w1)" by fastforce
  obtain st op2 w2 where p: "fn_progress fs op1 w1 = (st, op2, w2)" by (rule prod_cases3)
  show ?thesis
    using assms k1 p by (auto simp: ucg_plan_meta_op_progress_def Let_def meta_live_def op_set_status_def)
qed

lemma meta_trigger_contract:
  assumes "meta_live op"
  shows "\<exists>st op' w'. ucg_plan_meta_op_trigger fs op w = Some (st, op', w') \<and> meta_live op' \<and>
    op_super op' = (op_super op)\<lparr>rq_status := op_status op'\<rparr> \<and> (st \<noteq> UCG_OK \<longrightarrow> op_status op' \<noteq> UCG_INPROGRESS)"
proof (cases "mo_n_ops (op_priv op) = 0")
  case True
  then show ?thesis by (simp add: ucg_plan_meta_op_trigger_def meta_live_def op_set_status_def)
next
  case False
  define op1 where "op1 = (op_set_status UCG_INPROGRESS op)
    \<lparr>op_priv := (op_priv (op_set_status UCG_INPROGRESS op))\<lparr>mo_n_completed_ops := 0\<rparr>\<rparr>"
  have o: "mo_n_completed_ops (op_priv op1) < mo_n_ops (op_priv op1)" "op_status op1 = UCG_INPROGRESS"
    "op_super op1 = (op_super op)\<lparr>rq_status := UCG_INPROGRESS\<rparr>"
    using False by (simp_all add: op1_def op_set_status_def)
  from meta_progress_contract [OF o(1,2), of fs w] obtain op' w' where
    p: "ucg_plan_meta_op_progress fs op1 w = Some (op_status op', op', w')" "meta_live op'"
      "op_super op' = (op_super op1)\<lparr>rq_status := op_status op'\<rparr>" by blast
  have "ucg_plan_meta_op_trigger fs op w =
      Some (if op_status op' = UCG_INPROGRESS then UCG_OK else op_status op', op', w')"
    using False unfolding ucg_plan_meta_op_trigger_def Let_def op1_def [symmetric] p(1) by simp
  then show ?thesis using p(2,3) o(3) by (auto split: if_splits)
qed

interpretation meta_ops: plan_op_contract "meta_op_funcs fs" meta_live for fs :: "('p, 'w) op_funcs"
proof
  fix op op' :: "'p meta_op" and w w' :: "'w \<times> ucg_heap" and st
  obtain w1 h where w: "w = (w1, h)" by fastforce
  show "meta_live op' \<and> op_super op' = (op_super op)\<lparr>rq_status := op_status op'\<rparr> \<and>
      (st \<noteq> UCG_OK \<longrightarrow> op_status op' \<noteq> UCG_INPROGRESS)"
    if "meta_live op" "fn_trigger (meta_op_funcs fs) op w = (st, op', w')"
    using meta_trigger_contract [OF that(1), of fs w1] that(2) by (auto simp: meta_op_funcs_def w)
  show "meta_live op' \<and> op_super op' = (op_super op)\<lparr>rq_status := st\<rparr>"
    if "meta_live op" "op_status op = UCG_INPROGRESS" "fn_progress (meta_op_funcs fs) op w = (st, op', w')"
  proof -
    have "mo_n_completed_ops (op_priv op) < mo_n_ops (op_priv op)" using that(1,2) by (simp add: meta_live_def)
    from meta_progress_contract [OF this that(2), of fs w1] show ?thesis
      using that(3) by (auto simp: meta_op_funcs_def w)
  qed
  show "meta_live (op_set_id i op)" if "meta_live op" for i using that by (simp add: meta_live_def)
qed

subsection \<open>Properties\<close>

text \<open>
  C19: in every history of requests over operations that keep the contract, the progress list has every
  request in progress exactly once and no other; such a request has an id strictly between the base and
  the end of the range; and a completion callback has been made once for every successful start that is
  not still in progress.
\<close>

theorem request_lifecycle:
  assumes "plan_op_contract fs live" and "core_run fs live s n"
  shows "distinct (co_plist s) \<and>
    (\<forall>r. r \<in> set (co_plist s) \<longleftrightarrow> (\<exists>op. co_ops s r = Some op \<and> op_status op = UCG_INPROGRESS)) \<and>
    (\<forall>r op. co_ops s r = Some op \<longrightarrow>
       (op_status op = UCG_INPROGRESS \<longrightarrow> UCG_GROUP_BASE_REQ_ID < op_id op \<and> op_id op < UCG_GROUP_END_REQ_ID) \<and>
       (has_callback op \<longrightarrow>
          length (filter (\<lambda>c. fst c = r) (co_callbacks s)) + (if op_status op = UCG_INPROGRESS then 1 else 0) = n r))"
proof -
  have inv: "core_inv live s n" by (rule plan_op_contract.core_run_inv [OF assms])
  have ok: "req_ok live (callbacks_of s r) (n r) (r \<in> set (co_plist s)) (co_ops s r)" for r
    using core_invD [OF inv, of r] by (simp add: req_inv_def)
  have listed: "(r \<in> set (co_plist s)) = (\<exists>op. co_ops s r = Some op \<and> op_status op = UCG_INPROGRESS)" for r
    using ok [of r] by (cases "co_ops s r") auto
  have "(op_status op = UCG_INPROGRESS \<longrightarrow> UCG_GROUP_BASE_REQ_ID < op_id op \<and> op_id op < UCG_GROUP_END_REQ_ID) \<and>
      (has_callback op \<longrightarrow> callbacks_of s r + (if op_status op = UCG_INPROGRESS then 1 else 0) = n r)"
    if "co_ops s r = Some op" for r op
    using ok [of r] unfolding that by (simp add: id_ok_def split: if_splits)
  then show ?thesis using inv listed unfolding core_inv_def callbacks_of_def by simp
qed

definition sample_request :: "nat meta_op" where
  "sample_request = sample_meta\<lparr>op_super := (op_super sample_meta)\<lparr>rq_args :=
     (coll_args_zero UCG_COLL_TYPE_BARRIER)\<lparr>ca_info := \<lparr>ri_field_mask = 2, ri_mem_type = UCG_MEM_TYPE_HOST, ri_complete_cb = 4096\<rparr>\<rparr>\<rparr>\<rparr>"

definition sample_core :: "(nat ucg_plan_meta_op, nat list \<times> ucg_heap) ucg_core" where
  "sample_core = set_op 1 sample_request \<lparr>co_ops = (\<lambda>_. None), co_plist = [], co_req_ids = (\<lambda>_. UCG_GROUP_BASE_REQ_ID),
     co_callbacks = [], co_world = ([], \<lparr>h_outcomes = [], h_live = 0\<rparr>)\<rparr>"

lemma sample_core_run: "core_run (meta_op_funcs scripted) meta_live sample_core (\<lambda>_. 0)"
proof -
  have "op_status sample_request = UCG_OK" "op_id sample_request = UCG_GROUP_BASE_REQ_ID" by code_simp+
  then show ?thesis unfolding sample_core_def
    by (intro core_run.create core_run.init) (simp_all add: meta_live_def)
qed

lemma sample_core_start:
  "\<exists>s op. core_run (meta_op_funcs scripted) meta_live s ((\<lambda>_. 0)(1 := 1)) \<and>
     ucg_request_start (meta_op_funcs scripted) 1 sample_core = Some (UCG_OK, s) \<and>
     co_ops s 1 = Some op \<and> op_status op = UCG_INPROGRESS \<and> has_callback op"
proof -
  have "case ucg_request_start (meta_op_funcs scripted) 1 sample_core of None \<Rightarrow> False | Some (st, s) \<Rightarrow>
      st = UCG_OK \<and> (case co_ops s 1 of None \<Rightarrow> False | Some op \<Rightarrow> op_status op = UCG_INPROGRESS \<and> has_callback op)"
    by code_simp
  then obtain s op where s: "ucg_request_start (meta_op_funcs scripted) 1 sample_core = Some (UCG_OK, s)"
    "co_ops s 1 = Some op" "op_status op = UCG_INPROGRESS" "has_callback op" by (auto split: option.splits prod.splits)
  have o: "co_ops sample_core 1 = Some sample_request" by (simp add: sample_core_def)
  have "op_status sample_request = UCG_OK" by code_simp
  then show ?thesis using core_run.start [OF sample_core_run o s(1)] s by auto
qed

lemma request_lifecycle_witness:
  "\<exists>s n op. core_run (meta_op_funcs scripted) meta_live s n \<and> co_ops s 1 = Some op \<and> n 1 = 1 \<and>
     op_status op = UCG_INPROGRESS \<and> distinct (co_plist s) \<and> 1 \<in> set (co_plist s) \<and>
     length (filter (\<lambda>c. fst c = 1) (co_callbacks s)) = 0"
proof -
  obtain s op where s: "core_run (meta_op_funcs scripted) meta_live s ((\<lambda>_. 0)(1 := 1))"
    "co_ops s 1 = Some op" "op_status op = UCG_INPROGRESS" "has_callback op" using sample_core_start by blast
  note l = request_lifecycle [OF meta_ops.plan_op_contract_axioms s(1)]
  have "has_callback op \<longrightarrow> length (filter (\<lambda>c. fst c = 1) (co_callbacks s)) +
      (if op_status op = UCG_INPROGRESS then 1 else 0) = ((\<lambda>_. 0)(1 := 1)) (1 :: nat)"
    using conjunct2 [OF conjunct2 [OF l], rule_format, OF s(2), THEN conjunct2] by blast
  then have "length (filter (\<lambda>c. fst c = 1) (co_callbacks s)) + 1 = 1" using s(3,4) by simp
  moreover have "1 \<in> set (co_plist s)" using conjunct1 [OF conjunct2 [OF l]] s(2,3) by blast
  ultimately show ?thesis using s conjunct1 [OF l] by (intro exI [of _ s] exI [of _ "(\<lambda>_. 0)(1 := 1)"] exI [of _ op]) simp
qed

text \<open>
  C30: \<open>ucg_progress\<close> always returns, never touching a request that does not exist: it progresses every listed request
  exactly once and no other one; afterwards the list has exactly the requests that are still in progress, in their order, and the
  number it returns is that of the others.
\<close>

theorem context_progress_counts:
  assumes "plan_op_contract fs live" and "core_run fs live s n"
  shows "\<exists>cnt s'. ucg_context_progress fs plancs s = Some (cnt, s') \<and>
    co_plist s' = filter (unfinished s') (co_plist s) \<and> cnt = length (filter (\<lambda>r. \<not> unfinished s' r) (co_plist s)) \<and>
    (\<forall>r \<in> set (co_plist s). request_progressed fs (co_ops s r) (co_ops s' r)) \<and>
    (\<forall>r. r \<notin> set (co_plist s) \<longrightarrow> co_ops s' r = co_ops s r)"
  using plan_op_contract.context_progress_total [OF assms, of plancs] by blast

text \<open>A request in progress is progressed.\<close>

lemma context_progress_counts_witness:
  "\<exists>s op cnt s'. ucg_request_start (meta_op_funcs scripted) 1 sample_core = Some (UCG_OK, s) \<and>
     co_plist s = [1] \<and> co_ops s 1 = Some op \<and> ucg_context_progress (meta_op_funcs scripted) [] s = Some (cnt, s') \<and>
     request_progressed (meta_op_funcs scripted) (Some op) (co_ops s' 1) \<and> cnt + length (co_plist s') = 1"
proof -
  obtain s op where s: "core_run (meta_op_funcs scripted) meta_live s ((\<lambda>_. 0)(1 := 1))"
    "ucg_request_start (meta_op_funcs scripted) 1 sample_core = Some (UCG_OK, s)" "co_ops s 1 = Some op" using sample_core_start by blast
  have "case ucg_request_start (meta_op_funcs scripted) 1 sample_core of None \<Rightarrow> False | Some (st, s) \<Rightarrow> co_plist s = [1]" by code_simp
  then have l: "co_plist s = [1]" using s(2) by simp
  from context_progress_counts [OF meta_ops.plan_op_contract_axioms s(1), of "[]"] obtain cnt s' where
    "ucg_context_progress (meta_op_funcs scripted) [] s = Some (cnt, s')" "co_plist s' = filter (unfinished s') [1]"
    "cnt = length (filter (\<lambda>r. \<not> unfinished s' r) [1])" "request_progressed (meta_op_funcs scripted) (Some op) (co_ops s' 1)"
    unfolding l s(3) [symmetric] by auto
  then show ?thesis using s(2,3) l by (intro exI conjI) auto
qed

end
