(* ===== verification/Plan_Parse.thy ===== *)
theory Plan_Parse
  imports Plan
begin

text \<open>
  The textual description of plan attributes (\<open>UCG_PLAN_ATTR_DESC\<close> of \<open>src/src/core/ucg_plan.h\<close>) and its
  parsers at the end of \<open>src/src/core/ucg_plan.c\<close>: \<open>ucg_plan_attr_update\<close> and \<open>ucg_plan_policy_create\<close>.

  The parsers call \<open>sscanf\<close> with the formats \<open>I:%d%n\<close>, \<open>S:%u%n\<close> and \<open>R:%lu-%lu%n\<close> only.  The model of those
  formats follows the C standard: white space and a sign are accepted before the digits, a negative
  number for an unsigned conversion is reduced modulo the width, and a number that does not fit makes the
  behaviour undefined, which is \<open>Scan_Undef\<close> here and \<open>None\<close> in the parsers.
\<close>

subsection \<open>sscanf\<close>

definition is_digit :: "char \<Rightarrow> bool" where
  "is_digit c \<longleftrightarrow> 48 \<le> (of_char c :: nat) \<and> (of_char c :: nat) \<le> 57"

definition is_space :: "char \<Rightarrow> bool" where
  "is_space c \<longleftrightarrow> (of_char c :: nat) = 32 \<or> (9 \<le> (of_char c :: nat) \<and> (of_char c :: nat) \<le> 13)"

fun scan_digits :: "nat \<Rightarrow> string \<Rightarrow> nat \<times> string" where
  "scan_digits acc [] = (acc, [])"
| "scan_digits acc (c # cs) =
     (if is_digit c then scan_digits (10 * acc + (of_char c - 48)) cs else (acc, c # cs))"

text \<open>A conversion \<open>%d\<close>, \<open>%u\<close> or \<open>%lu\<close>: the value with its sign, and what follows it.\<close>

definition scan_unsigned :: "string \<Rightarrow> (nat \<times> string) option" where
  "scan_unsigned s = (case s of [] \<Rightarrow> None | c # cs \<Rightarrow> if is_digit c then Some (scan_digits 0 s) else None)"

definition scan_number :: "string \<Rightarrow> (int \<times> string) option" where
  "scan_number s =
     (case dropWhile is_space s of
        [] \<Rightarrow> None
      | c # cs \<Rightarrow>
          if c = CHR ''-'' then map_option (\<lambda>(n, rest). (- int n, rest)) (scan_unsigned cs)
          else if c = CHR ''+'' then map_option (\<lambda>(n, rest). (int n, rest)) (scan_unsigned cs)
          else map_option (\<lambda>(n, rest). (int n, rest)) (scan_unsigned (c # cs)))"

fun scan_lit :: "string \<Rightarrow> string \<Rightarrow> string option" where
  "scan_lit [] s = Some s"
| "scan_lit (l # ls) [] = None"
| "scan_lit (l # ls) (c # cs) = (if l = c then scan_lit ls cs else None)"

datatype 'a scan = Scan_Fail | Scan_Undef | Scan_Ok 'a

definition fits_signed :: "nat \<Rightarrow> int \<Rightarrow> bool" where
  "fits_signed w n \<longleftrightarrow> - (2 ^ (w - 1)) \<le> n \<and> n < 2 ^ (w - 1)"

definition fits_unsigned :: "nat \<Rightarrow> int \<Rightarrow> bool" where
  "fits_unsigned w n \<longleftrightarrow> \<bar>n\<bar> < 2 ^ w"

text \<open>\<open>sscanf(s, "I:%d%n", &id, &skip) == 1\<close>: the id and the text after \<open>skip\<close> characters.\<close>

definition scan_id :: "string \<Rightarrow> (c_int \<times> string) scan" where
  "scan_id s =
     (case scan_lit ''I:'' s of
        None \<Rightarrow> Scan_Fail
      | Some s \<Rightarrow> (case scan_number s of
          None \<Rightarrow> Scan_Fail
        | Some (n, rest) \<Rightarrow> if fits_signed 32 n then Scan_Ok (n, rest) else Scan_Undef))"

definition scan_score :: "string \<Rightarrow> (u32 \<times> string) scan" where
  "scan_score s =
     (case scan_lit ''S:'' s of
        None \<Rightarrow> Scan_Fail
      | Some s \<Rightarrow> (case scan_number s of
          None \<Rightarrow> Scan_Fail
        | Some (n, rest) \<Rightarrow> if fits_unsigned 32 n then Scan_Ok (word_of_int n, rest) else Scan_Undef))"

text \<open>
  \<open>rc = sscanf(s, "R:%lu-%lu%n", &start, &end, &skip)\<close>: with \<open>rc = 1\<close> only \<open>start\<close> was stored and \<open>skip\<close>
  was not, with \<open>rc = 2\<close> all three.
\<close>

definition scan_range :: "string \<Rightarrow> (u64 \<times> (u64 \<times> string) option) scan" where
  "scan_range s =
     (case scan_lit ''R:'' s of
        None \<Rightarrow> Scan_Fail
      | Some s \<Rightarrow> (case scan_number s of
          None \<Rightarrow> Scan_Fail
        | Some (n, rest) \<Rightarrow>
            if \<not> fits_unsigned 64 n then Scan_Undef
            else (case scan_lit ''-'' rest of
              None \<Rightarrow> Scan_Ok (word_of_int n, None)
            | Some s \<Rightarrow> (case scan_number s of
                None \<Rightarrow> Scan_Ok (word_of_int n, None)
              | Some (n', rest) \<Rightarrow>
                  if fits_unsigned 64 n' then Scan_Ok (word_of_int n, Some (word_of_int n', rest)) else Scan_Undef))))"

text \<open>Scanning consumes text, which is why the loops below end.\<close>

lemma scan_digits_length: "length (snd (scan_digits acc s)) \<le> length s"
  by (induction acc s rule: scan_digits.induct) (auto intro: le_SucI)

lemma scan_unsigned_length: "scan_unsigned s = Some (n, rest) \<Longrightarrow> length rest < length s"
  using scan_digits_length by (auto simp: scan_unsigned_def less_Suc_eq_le split: list.splits if_splits) (metis snd_conv)

lemma scan_number_length: "scan_number s = Some (n, rest) \<Longrightarrow> length rest < length s"
proof -
  assume a: "scan_number s = Some (n, rest)"
  then obtain c cs where d: "dropWhile is_space s = c # cs" by (auto simp: scan_number_def split: list.splits)
  have "length (c # cs) \<le> length s" using length_dropWhile_le [of is_space s] by (simp add: d)
  moreover have "length rest < length (c # cs)"
    using a d by (auto simp: scan_number_def dest: scan_unsigned_length split: if_splits)
  ultimately show ?thesis by simp
qed

lemma scan_lit_length: "scan_lit l s = Some rest \<Longrightarrow> length s = length l + length rest"
  by (induction l s rule: scan_lit.induct) (auto split: if_splits)

lemma scan_id_length: "scan_id s = Scan_Ok (n, rest) \<Longrightarrow> length rest < length s"
  by (auto simp: scan_id_def dest!: scan_lit_length scan_number_length split: option.splits if_splits)

lemma scan_score_length: "scan_score s = Scan_Ok (n, rest) \<Longrightarrow> length rest < length s"
  by (auto simp: scan_score_def dest!: scan_lit_length scan_number_length split: option.splits if_splits)

lemma scan_range_length: "scan_range s = Scan_Ok (n, Some (m, rest)) \<Longrightarrow> length rest < length s"
  by (auto simp: scan_range_def dest!: scan_lit_length scan_number_length split: option.splits if_splits)

subsection \<open>Attributes\<close>

definition UCG_PLAN_SCORE_MAX :: u32 where "UCG_PLAN_SCORE_MAX = - 1"
definition UCG_PLAN_RANGE_MAX :: u64 where "UCG_PLAN_RANGE_MAX = - 1"

text \<open>
  One turn of the loop over the attributes of a plan, the same in both parsers: where it goes on, with
  the range and the score so far.
\<close>

datatype attr_step = Attr_Stop | Attr_Undef | Attr_Invalid | Attr_Next string ucg_plan_range u32

definition attr_step :: "string \<Rightarrow> ucg_plan_range \<Rightarrow> u32 \<Rightarrow> attr_step" where
  "attr_step s rng score =
     (case s of
        [] \<Rightarrow> Attr_Stop
      | c # cs \<Rightarrow>
          if c = CHR ''I'' then Attr_Stop
          else if c = CHR ''S'' then
            (case scan_score s of
               Scan_Undef \<Rightarrow> Attr_Undef
             | Scan_Fail \<Rightarrow> Attr_Invalid
             | Scan_Ok (score, rest) \<Rightarrow> Attr_Next rest rng score)
          else if c = CHR ''R'' then
            (case scan_range s of
               Scan_Undef \<Rightarrow> Attr_Undef
             | Scan_Fail \<Rightarrow> Attr_Invalid
             | Scan_Ok (start, None) \<Rightarrow> Attr_Next cs \<lparr>rg_start = start, rg_end = UCG_PLAN_RANGE_MAX\<rparr> score
             | Scan_Ok (start, Some (end, rest)) \<Rightarrow>
                 if start \<ge> end then Attr_Invalid
                 else Attr_Next rest \<lparr>rg_start = start, rg_end = end\<rparr> score)
          else Attr_Next cs rng score)"

lemma attr_step_length: "attr_step s rng score = Attr_Next rest rng' score' \<Longrightarrow> length rest < length s"
  by (auto simp: attr_step_def dest: scan_score_length scan_range_length
      split: list.splits if_splits scan.splits prod.splits option.splits)

text \<open>The loop.  \<open>None\<close> is undefined behaviour, \<open>Inl\<close> the early return.\<close>

function parse_attrs :: "string \<Rightarrow> ucg_plan_range \<Rightarrow> u32 \<Rightarrow> (ucg_status + ucg_plan_range \<times> u32) option" where
  "parse_attrs s rng score =
     (case attr_step s rng score of
        Attr_Stop \<Rightarrow> Some (Inr (rng, score))
      | Attr_Undef \<Rightarrow> None
      | Attr_Invalid \<Rightarrow> Some (Inl UCG_ERR_INVALID_PARAM)
      | Attr_Next rest rng score \<Rightarrow> parse_attrs rest rng score)"
  by pat_completeness auto
termination
  by (relation "measure (\<lambda>(s, r, sc). length s)") (auto dest: attr_step_length)

declare parse_attrs.simps [simp del]

subsection \<open>Updating an attribute\<close>

text \<open>The digit characters, and \<open>%d\<close> of \<open>snprintf\<close>.\<close>

definition digit_char :: "nat \<Rightarrow> char" where "digit_char d = char_of (48 + d)"

fun show_nat :: "nat \<Rightarrow> string" where
  "show_nat n = (if n < 10 then [digit_char n] else show_nat (n div 10) @ [digit_char (n mod 10)])"

declare show_nat.simps [simp del]

definition show_int :: "int \<Rightarrow> string" where
  "show_int n = (if n < 0 then CHR ''-'' # show_nat (nat (- n)) else show_nat (nat n))"

fun strstr :: "string \<Rightarrow> string \<Rightarrow> string option" where
  "strstr [] key = (if key = [] then Some [] else None)"
| "strstr (c # cs) key = (if take (length key) (c # cs) = key then Some (c # cs) else strstr cs key)"

lemma strstr_length: "strstr s key = Some t \<Longrightarrow> length t \<le> length s"
  by (induction s key rule: strstr.induct) (auto split: if_splits)

text \<open>
  \<open>ucg_plan_attr_update_find\<close>: the text after the first mention of the id.  The key is cut to the seven
  characters that fit into \<open>attr_key\<close>.
\<close>

function attr_find :: "string \<Rightarrow> c_int \<Rightarrow> string \<Rightarrow> string scan" where
  "attr_find key i s =
     (case strstr s key of
        None \<Rightarrow> Scan_Fail
      | Some t \<Rightarrow> (case scan_id t of
          Scan_Fail \<Rightarrow> Scan_Fail
        | Scan_Undef \<Rightarrow> Scan_Undef
        | Scan_Ok (n, rest) \<Rightarrow> if n \<noteq> i then attr_find key i rest else Scan_Ok rest))"
  by pat_completeness auto
termination
  by (relation "measure (\<lambda>(k, i, s). length s)") (auto dest!: strstr_length scan_id_length)

declare attr_find.simps [simp del]

definition ucg_plan_attr_update_find :: "ucg_plan_attr \<Rightarrow> string \<Rightarrow> string scan" where
  "ucg_plan_attr_update_find attr s = attr_find (take 7 (''I:'' @ show_int (pa_id attr))) (pa_id attr) s"

text \<open>\<open>group_size\<close> is \<open>attr->vgroup->size\<close>.\<close>

definition ucg_plan_attr_update :: "u32 \<Rightarrow> ucg_plan_attr \<Rightarrow> string option \<Rightarrow> (ucg_status \<times> ucg_plan_attr) option" where
  "ucg_plan_attr_update group_size attr update =
     (case update of
        None \<Rightarrow> Some (UCG_OK, attr)
      | Some s \<Rightarrow>
          if s = [] then Some (UCG_OK, attr)
          else case ucg_plan_attr_update_find attr s of
            Scan_Fail \<Rightarrow> Some (UCG_OK, attr)
          | Scan_Undef \<Rightarrow> None
          | Scan_Ok attr_str \<Rightarrow>
              (case parse_attrs attr_str (pa_range attr) (pa_score attr) of
                 None \<Rightarrow> None
               | Some (Inl status) \<Rightarrow> Some (status, attr)
               | Some (Inr (rng, score)) \<Rightarrow>
                   let min_group_size = 0; max_group_size = - 1;
                       attr = (if group_size < min_group_size \<or> group_size \<ge> max_group_size
                               then attr\<lparr>pa_deprecated := True\<rparr> else attr)
                   in Some (UCG_OK, attr\<lparr>pa_range := rng, pa_score := score\<rparr>)))"

subsection \<open>Policies\<close>

record ucg_plan_policy =
  po_id :: c_int
  po_range :: ucg_plan_range
  po_score :: u32

definition invalid_policy :: ucg_plan_policy where
  "invalid_policy = \<lparr>po_id = - 1, po_range = \<lparr>rg_start = 0, rg_end = 0\<rparr>, po_score = 0\<rparr>"

definition ucg_plan_desc_to_policy :: "string \<Rightarrow> (ucg_status + ucg_plan_policy) option" where
  "ucg_plan_desc_to_policy desc =
     (case scan_id desc of
        Scan_Fail \<Rightarrow> Some (Inl UCG_ERR_INVALID_PARAM)
      | Scan_Undef \<Rightarrow> None
      | Scan_Ok (i, desc_str) \<Rightarrow>
          (case parse_attrs desc_str \<lparr>rg_start = 0, rg_end = UCG_PLAN_RANGE_MAX\<rparr> UCG_PLAN_SCORE_MAX of
             None \<Rightarrow> None
           | Some (Inl status) \<Rightarrow> Some (Inl status)
           | Some (Inr (rng, score)) \<Rightarrow> Some (Inr \<lparr>po_id = i, po_range = rng, po_score = score\<rparr>)))"

definition ucg_plan_is_valid_policy_desc :: "string \<Rightarrow> bool" where
  "ucg_plan_is_valid_policy_desc desc =
     (case desc of c # d # _ \<Rightarrow> c = CHR ''I'' \<and> d = CHR '':'' | _ \<Rightarrow> False)"

fun count_policies :: "string \<Rightarrow> nat" where
  "count_policies [] = 0"
| "count_policies (c # cs) = (if ucg_plan_is_valid_policy_desc (c # cs) then 1 else 0) + count_policies cs"

definition ucg_plan_get_num_policy :: "string option \<Rightarrow> nat" where
  "ucg_plan_get_num_policy desc = (case desc of None \<Rightarrow> 0 | Some s \<Rightarrow> count_policies s)"

fun fill_policies :: "string \<Rightarrow> (ucg_status + ucg_plan_policy list) option" where
  "fill_policies [] = Some (Inr [])"
| "fill_policies (c # cs) =
     (if ucg_plan_is_valid_policy_desc (c # cs) then
        (case ucg_plan_desc_to_policy (c # cs) of
           None \<Rightarrow> None
         | Some (Inl status) \<Rightarrow> Some (Inl status)
         | Some (Inr policy) \<Rightarrow>
             (case fill_policies cs of
                Some (Inr policies) \<Rightarrow> Some (Inr (policy # policies))
              | r \<Rightarrow> r))
      else fill_policies cs)"

text \<open>
  \<open>ucg_plan_policy_create\<close>.  The result is an array that ends with the invalid policy: the static one
  (\<open>True\<close>) or an allocated one (\<open>False\<close>), and how many entries were allocated.  On a failure to allocate the
  pointer keeps its old value, \<open>None\<close>.
\<close>

record policy_array =
  par_static :: bool
  par_size :: nat
  par_entries :: "ucg_plan_policy list"

definition ucg_plan_policy_create ::
    "string option \<Rightarrow> ucg_heap \<Rightarrow> (ucg_status \<times> policy_array option \<times> ucg_heap) option" where
  "ucg_plan_policy_create desc h =
     (let static = \<lparr>par_static = True, par_size = 1, par_entries = [invalid_policy]\<rparr>;
          num_policies = ucg_plan_get_num_policy desc
      in if num_policies = 0 then Some (UCG_OK, Some static, h)
         else case heap_alloc h of
           (False, h) \<Rightarrow> Some (UCG_ERR_NO_MEMORY, None, h)
         | (True, h) \<Rightarrow>
             (case fill_policies (the desc) of
                None \<Rightarrow> None
              | Some (Inl status) \<Rightarrow> Some (status, Some static, heap_free h)
              | Some (Inr policies) \<Rightarrow>
                  Some (UCG_OK, Some \<lparr>par_static = False, par_size = num_policies + 1,
                                     par_entries = policies @ [invalid_policy]\<rparr>, h)))"

definition ucg_plan_policy_destroy :: "policy_array \<Rightarrow> ucg_heap \<Rightarrow> ucg_heap" where
  "ucg_plan_policy_destroy policy h = (if par_static policy then h else heap_free h)"

end
