(* ===== verification/Parse_Spec.thy ===== *)
theory Parse_Spec
  imports Plan_Parse
begin

text \<open>
  What the parsers of plan descriptions do: they read back what is printed, they fit their arrays, and
  an update reaches the plan whose id it names.
\<close>

subsection \<open>Numbers\<close>

definition no_digit :: "string \<Rightarrow> bool" where
  "no_digit s \<longleftrightarrow> (case s of [] \<Rightarrow> True | c # cs \<Rightarrow> \<not> is_digit c)"

lemma digit_char_value: "d < 10 \<Longrightarrow> (of_char (digit_char d) :: nat) = 48 + d"
  by (simp add: digit_char_def)

lemma digit_char_digit: "d < 10 \<Longrightarrow> is_digit (digit_char d)"
  by (simp add: is_digit_def digit_char_value)

lemma scan_digits_stop: "no_digit s \<Longrightarrow> scan_digits n s = (n, s)"
  by (cases s) (auto simp: no_digit_def)

lemma show_nat_digits: "\<forall>c \<in> set (show_nat n). is_digit c"
proof (induction n rule: show_nat.induct)
  case (1 n)
  then show ?case by (subst show_nat.simps) (auto simp: digit_char_digit)
qed

lemma show_nat_nonempty [simp]: "show_nat n \<noteq> []"
  by (subst show_nat.simps) simp

lemma scan_digits_show: "scan_digits a (show_nat n @ s) = scan_digits (a * 10 ^ length (show_nat n) + n) s"
proof (induction n arbitrary: a s rule: show_nat.induct)
  case (1 n)
  show ?case
  proof (cases "n < 10")
    case True
    then show ?thesis by (subst (1 2) show_nat.simps) (simp add: digit_char_digit digit_char_value mult.commute)
  next
    case False
    have e: "show_nat n = show_nat (n div 10) @ [digit_char (n mod 10)]" using False by (subst show_nat.simps) simp
    have "scan_digits a (show_nat n @ s) = scan_digits (a * 10 ^ length (show_nat (n div 10)) + n div 10) (digit_char (n mod 10) # s)"
      using "1.IH" [OF False] by (simp add: e)
    also have "\<dots> = scan_digits (10 * (a * 10 ^ length (show_nat (n div 10)) + n div 10) + n mod 10) s"
      by (simp add: digit_char_digit digit_char_value)
    also have "10 * (a * 10 ^ length (show_nat (n div 10)) + n div 10) + n mod 10 = a * 10 ^ length (show_nat n) + n"
      using mult_div_mod_eq [of 10 n] by (simp add: e algebra_simps)
    finally show ?thesis .
  qed
qed

lemma scan_unsigned_show: "no_digit s \<Longrightarrow> scan_unsigned (show_nat n @ s) = Some (n, s)"
proof -
  assume s: "no_digit s"
  obtain c cs where c: "show_nat n = c # cs" by (cases "show_nat n") auto
  have d: "is_digit c" using show_nat_digits [of n] c by simp
  have "scan_unsigned (show_nat n @ s) = Some (scan_digits 0 (show_nat n @ s))"
    using d c by (simp add: scan_unsigned_def del: scan_digits.simps)
  then show ?thesis using s by (simp add: scan_digits_show scan_digits_stop)
qed

lemma digit_no_sign: "is_digit c \<Longrightarrow> c \<noteq> CHR ''-'' \<and> c \<noteq> CHR ''+'' \<and> \<not> is_space c"
  by (auto simp: is_digit_def is_space_def)

lemma minus_no_space: "\<not> is_space (CHR ''-'')"
  by (simp add: is_space_def)

lemma scan_number_nat: "no_digit s \<Longrightarrow> scan_number (show_nat n @ s) = Some (int n, s)"
proof -
  assume s: "no_digit s"
  obtain c cs where c: "show_nat n = c # cs" by (cases "show_nat n") auto
  have d: "is_digit c" using show_nat_digits [of n] c by simp
  show ?thesis using scan_unsigned_show [OF s, of n] digit_no_sign [OF d]
    by (simp add: scan_number_def c)
qed

lemma scan_number_int: "no_digit s \<Longrightarrow> scan_number (show_int n @ s) = Some (n, s)"
proof (cases "n < 0")
  case True
  assume s: "no_digit s"
  have "scan_number (CHR ''-'' # (show_nat (nat (- n)) @ s)) = Some (n, s)"
    using True scan_unsigned_show [OF s, of "nat (- n)"]
    by (simp add: scan_number_def minus_no_space)
  then show ?thesis using True by (simp add: show_int_def)
qed (simp add: show_int_def scan_number_nat)

subsection \<open>Printing\<close>

definition show_policy_attrs :: "ucg_plan_policy \<Rightarrow> string" where
  "show_policy_attrs p =
     ''S:'' @ show_nat (unat (po_score p)) @
     ''R:'' @ show_nat (unat (rg_start (po_range p))) @ ''-'' @ show_nat (unat (rg_end (po_range p)))"

definition show_policy :: "ucg_plan_policy \<Rightarrow> string" where
  "show_policy p = ''I:'' @ show_int (po_id p) @ show_policy_attrs p"

definition show_policies :: "ucg_plan_policy list \<Rightarrow> string" where
  "show_policies ps = concat (map show_policy ps)"

definition policy_ok :: "ucg_plan_policy \<Rightarrow> bool" where
  "policy_ok p \<longleftrightarrow> fits_signed 32 (po_id p) \<and> rg_start (po_range p) < rg_end (po_range p)"

text \<open>What follows a printed policy: the end, or the next policy.\<close>

definition at_policy :: "string \<Rightarrow> bool" where
  "at_policy s \<longleftrightarrow> (case s of [] \<Rightarrow> True | c # cs \<Rightarrow> c = CHR ''I'')"

lemma at_policy_show: "at_policy (show_policies ps)"
  by (cases ps) (auto simp: at_policy_def show_policies_def show_policy_def)

lemma at_policy_no_digit: "at_policy s \<Longrightarrow> no_digit s"
  by (auto simp: at_policy_def no_digit_def is_digit_def split: list.splits)

lemma no_digit_letters [simp]:
  "no_digit (CHR ''S'' # s)" "no_digit (CHR ''R'' # s)" "no_digit (CHR ''-'' # s)"
  by (simp_all add: no_digit_def is_digit_def)

lemma scan_id_show:
  assumes "policy_ok p"
  shows "scan_id (show_policy p @ s) = Scan_Ok (po_id p, show_policy_attrs p @ s)"
proof -
  have "no_digit (show_policy_attrs p @ s)" by (simp add: show_policy_attrs_def)
  then show ?thesis using assms scan_number_int [of "show_policy_attrs p @ s" "po_id p"]
    by (simp add: scan_id_def show_policy_def policy_ok_def)
qed

lemma fits_unat: "fits_unsigned LENGTH('a) (int (unat (w :: 'a :: len word)))"
  using unsigned_less [of w] by (simp add: fits_unsigned_def of_nat_less_iff [symmetric] del: of_nat_less_iff)

lemma scan_score_show: "no_digit s \<Longrightarrow> scan_score (CHR ''S'' # CHR '':'' # (show_nat (unat w) @ s)) = Scan_Ok (w, s)"
  using fits_unat [of w] by (simp add: scan_score_def scan_number_nat)

lemma scan_range_show:
  assumes "no_digit s"
  shows "scan_range (CHR ''R'' # CHR '':'' # (show_nat (unat a) @ CHR ''-'' # (show_nat (unat b) @ s))) = Scan_Ok (a, Some (b, s))"
  using fits_unat [of a] fits_unat [of b] scan_number_nat [OF assms, of "unat b"]
    scan_number_nat [of "CHR ''-'' # (show_nat (unat b) @ s)" "unat a"]
  by (simp add: scan_range_def)

lemma parse_attrs_show:
  assumes "policy_ok p" and "at_policy s"
  shows "parse_attrs (show_policy_attrs p @ s) r sc = Some (Inr (po_range p, po_score p))"
proof -
  let ?r = "CHR ''R'' # CHR '':'' # (show_nat (unat (rg_start (po_range p))) @ CHR ''-'' # (show_nat (unat (rg_end (po_range p))) @ s))"
  have 1: "attr_step (show_policy_attrs p @ s) r sc = Attr_Next ?r r (po_score p)"
    using scan_score_show [of ?r "po_score p"] by (simp add: attr_step_def show_policy_attrs_def)
  have 2: "attr_step ?r r (po_score p) = Attr_Next s (po_range p) (po_score p)"
    using scan_range_show [OF at_policy_no_digit [OF assms(2)]] assms(1)
    by (simp add: attr_step_def policy_ok_def not_le)
  have 3: "attr_step s (po_range p) (po_score p) = Attr_Stop"
    using assms(2) by (auto simp: attr_step_def at_policy_def split: list.splits)
  show ?thesis by (simp add: parse_attrs.simps [of "show_policy_attrs p @ s"] 1 parse_attrs.simps [of ?r] 2 parse_attrs.simps [of s] 3)
qed

lemma desc_to_policy_show:
  "policy_ok p \<Longrightarrow> at_policy s \<Longrightarrow> ucg_plan_desc_to_policy (show_policy p @ s) = Some (Inr p)"
  by (simp add: ucg_plan_desc_to_policy_def scan_id_show parse_attrs_show)

subsection \<open>Policies\<close>

text \<open>Nothing inside a printed policy looks like another one.\<close>

definition no_I :: "string \<Rightarrow> bool" where "no_I s \<longleftrightarrow> CHR ''I'' \<notin> set s"

lemma is_digit_not_I: "is_digit c \<Longrightarrow> c \<noteq> CHR ''I''"
  by (auto simp: is_digit_def)

lemma no_I_show_nat: "no_I (show_nat n)"
  using show_nat_digits [of n] by (auto simp: no_I_def dest: is_digit_not_I)

lemma no_I_show_int: "no_I (show_int n)"
  using no_I_show_nat by (simp add: show_int_def no_I_def)

lemma no_I_append [simp]: "no_I (s @ t) \<longleftrightarrow> no_I s \<and> no_I t"
  by (auto simp: no_I_def)

lemma no_I_attrs: "no_I (show_policy_attrs p)"
  using no_I_show_nat by (simp add: show_policy_attrs_def no_I_def)

lemma count_policies_skip: "no_I s \<Longrightarrow> count_policies (s @ t) = count_policies t"
  by (induction s) (auto simp: no_I_def ucg_plan_is_valid_policy_desc_def split: list.splits)

lemma fill_policies_skip: "no_I s \<Longrightarrow> fill_policies (s @ t) = fill_policies t"
  by (induction s) (auto simp: no_I_def ucg_plan_is_valid_policy_desc_def split: list.splits)

lemma show_policy_Cons: "show_policy p = CHR ''I'' # (CHR '':'' # show_int (po_id p) @ show_policy_attrs p)"
  by (simp add: show_policy_def)

lemma no_I_tail: "no_I (CHR '':'' # show_int (po_id p) @ show_policy_attrs p)"
  using no_I_show_int no_I_attrs by (simp add: no_I_def)

lemma fill_policies_show:
  "\<forall>p \<in> set ps. policy_ok p \<Longrightarrow> fill_policies (show_policies ps) = Some (Inr ps) \<and> count_policies (show_policies ps) = length ps"
proof (induction ps)
  case (Cons p ps)
  let ?tail = "CHR '':'' # show_int (po_id p) @ show_policy_attrs p"
  have e: "show_policies (p # ps) = CHR ''I'' # (?tail @ show_policies ps)"
    by (simp add: show_policies_def show_policy_Cons)
  have v: "ucg_plan_is_valid_policy_desc (CHR ''I'' # (?tail @ show_policies ps))"
    by (simp add: ucg_plan_is_valid_policy_desc_def)
  have d: "ucg_plan_desc_to_policy (CHR ''I'' # (?tail @ show_policies ps)) = Some (Inr p)"
    using desc_to_policy_show [of p "show_policies ps"] at_policy_show Cons.prems by (simp add: show_policy_Cons)
  have "fill_policies (?tail @ show_policies ps) = fill_policies (show_policies ps)"
    and "count_policies (?tail @ show_policies ps) = count_policies (show_policies ps)"
    by (rule fill_policies_skip [OF no_I_tail], rule count_policies_skip [OF no_I_tail])
  then show ?case unfolding e using v d Cons by simp
qed (simp add: show_policies_def)

lemma fill_policies_length: "fill_policies s = Some (Inr ps) \<Longrightarrow> length ps = count_policies s"
  by (induction s arbitrary: ps) (auto split: if_splits option.splits sum.splits)

text \<open>
  C27: \<open>ucg_plan_policy_create\<close> reads back every list of policies that is printed in the documented
  syntax, in order, closed by the invalid policy.
\<close>

theorem policy_roundtrip:
  assumes "\<forall>p \<in> set ps. policy_ok p" and "ps \<noteq> []" and "heap_alloc h = (True, h')"
  shows "ucg_plan_policy_create (Some (show_policies ps)) h =
    Some (UCG_OK, Some \<lparr>par_static = False, par_size = length ps + 1, par_entries = ps @ [invalid_policy]\<rparr>, h')"
  using fill_policies_show [OF assms(1)] assms(2,3)
  by (simp add: ucg_plan_policy_create_def ucg_plan_get_num_policy_def Let_def)

definition sample_policies :: "ucg_plan_policy list" where
  "sample_policies =
     [\<lparr>po_id = 1, po_range = \<lparr>rg_start = 0, rg_end = 1024\<rparr>, po_score = 10\<rparr>,
      \<lparr>po_id = 12, po_range = \<lparr>rg_start = 1024, rg_end = 4096\<rparr>, po_score = 9\<rparr>]"

lemma policy_roundtrip_witness:
  "ucg_plan_policy_create (Some (show_policies sample_policies)) \<lparr>h_outcomes = [], h_live = 0\<rparr> =
     Some (UCG_OK, Some \<lparr>par_static = False, par_size = 3, par_entries = sample_policies @ [invalid_policy]\<rparr>,
       \<lparr>h_outcomes = [], h_live = 1\<rparr>)"
proof -
  have "heap_alloc \<lparr>h_outcomes = [], h_live = 0\<rparr> = (True, \<lparr>h_outcomes = [], h_live = 1\<rparr>)" by (simp add: heap_alloc_def)
  from policy_roundtrip [OF _ _ this, of sample_policies] show ?thesis
    by (simp add: sample_policies_def policy_ok_def fits_signed_def)
qed

text \<open>
  C36: whatever the description, the entries that \<open>ucg_plan_policy_create\<close> writes fill the array it
  allocated exactly, end with the invalid policy, and destroying the result frees what was allocated.
\<close>

theorem policy_create_fits:
  assumes "ucg_plan_policy_create desc h = Some (st, Some arr, h')"
  shows "length (par_entries arr) = par_size arr \<and> last (par_entries arr) = invalid_policy \<and>
    h_live (ucg_plan_policy_destroy arr h') = h_live h \<and> (st \<noteq> UCG_OK \<longrightarrow> par_static arr)"
proof -
  consider (static) "par_static arr" "arr = \<lparr>par_static = True, par_size = 1, par_entries = [invalid_policy]\<rparr>"
      "h_live h' = h_live h"
    | (alloc) ps where "heap_alloc h = (True, h')" "fill_policies (the desc) = Some (Inr ps)" "st = UCG_OK"
      "arr = \<lparr>par_static = False, par_size = ucg_plan_get_num_policy desc + 1, par_entries = ps @ [invalid_policy]\<rparr>"
      "desc \<noteq> None"
    using assms
    by (auto simp: ucg_plan_policy_create_def Let_def ucg_plan_get_num_policy_def
        split: if_splits prod.splits bool.splits option.splits sum.splits dest!: heap_alloc_live)
  then show ?thesis
  proof cases
    case static
    then show ?thesis by (simp add: ucg_plan_policy_destroy_def)
  next
    case alloc
    then show ?thesis using fill_policies_length [OF alloc(2)] heap_alloc_live [OF alloc(1)]
      by (auto simp: ucg_plan_policy_destroy_def ucg_plan_get_num_policy_def)
  qed
qed

lemma policy_create_fits_witness:
  "\<exists>arr h'. ucg_plan_policy_create (Some ''I:1S:xI:2'') \<lparr>h_outcomes = [], h_live = 0\<rparr> = Some (UCG_ERR_INVALID_PARAM, Some arr, h') \<and>
     length (par_entries arr) = par_size arr \<and> par_static arr"
proof -
  have "case ucg_plan_policy_create (Some ''I:1S:xI:2'') \<lparr>h_outcomes = [], h_live = 0\<rparr> of
      Some (st, Some arr, h') \<Rightarrow> st = UCG_ERR_INVALID_PARAM | _ \<Rightarrow> False" by code_simp
  then obtain arr h' where a: "ucg_plan_policy_create (Some ''I:1S:xI:2'') \<lparr>h_outcomes = [], h_live = 0\<rparr> =
      Some (UCG_ERR_INVALID_PARAM, Some arr, h')" by (auto split: option.splits prod.splits)
  then show ?thesis using policy_create_fits [OF a] by auto
qed

subsection \<open>Updates\<close>

lemma strstr_skip: "no_I s \<Longrightarrow> strstr (s @ t) (CHR ''I'' # key) = strstr t (CHR ''I'' # key)"
  by (induction s) (auto simp: no_I_def)

lemma attr_find_skip: "no_I s \<Longrightarrow> attr_find (CHR ''I'' # key) i (s @ t) = attr_find (CHR ''I'' # key) i t"
  by (subst (1 2) attr_find.simps) (simp add: strstr_skip)

definition attr_key_text :: "c_int \<Rightarrow> string" where
  "attr_key_text i = CHR ''I'' # take 6 (CHR '':'' # show_int i)"

lemma attr_find_show:
  "\<forall>p \<in> set ps. policy_ok p \<Longrightarrow>
   attr_find (attr_key_text i) i (show_policies ps) =
     (case dropWhile (\<lambda>p. po_id p \<noteq> i) ps of [] \<Rightarrow> Scan_Fail
      | p # rest \<Rightarrow> Scan_Ok (show_policy_attrs p @ show_policies rest))"
proof (induction ps)
  case Nil
  show ?case by (subst attr_find.simps) (simp add: show_policies_def attr_key_text_def)
next
  case (Cons p ps)
  let ?key = "attr_key_text i" and ?tail = "CHR '':'' # show_int (po_id p) @ show_policy_attrs p"
  have e: "show_policies (p # ps) = CHR ''I'' # (?tail @ show_policies ps)"
    by (simp add: show_policies_def show_policy_Cons)
  have sid: "scan_id (CHR ''I'' # (?tail @ show_policies ps)) = Scan_Ok (po_id p, show_policy_attrs p @ show_policies ps)"
    using scan_id_show [of p "show_policies ps"] Cons.prems by (simp add: show_policy_Cons)
  have own: "take (length ?key) (CHR ''I'' # (?tail @ show_policies ps)) = ?key" if "po_id p = i"
  proof -
    have "CHR ''I'' # (?tail @ show_policies ps) =
        (CHR ''I'' # CHR '':'' # show_int i) @ (show_policy_attrs p @ show_policies ps)" using that by simp
    moreover have "?key = take 7 (CHR ''I'' # CHR '':'' # show_int i)" by (simp add: attr_key_text_def numeral_eq_Suc)
    ultimately show ?thesis by (metis append_eq_conv_conj append_take_drop_id append.assoc)
  qed
  have skip: "attr_find ?key i (?tail @ show_policies ps) = attr_find ?key i (show_policies ps)"
    and skip2: "attr_find ?key i (show_policy_attrs p @ show_policies ps) = attr_find ?key i (show_policies ps)"
    unfolding attr_key_text_def by (rule attr_find_skip [OF no_I_tail], rule attr_find_skip [OF no_I_attrs])
  have strstr_step: "strstr (CHR ''I'' # (?tail @ show_policies ps)) ?key =
      (if take (length ?key) (CHR ''I'' # (?tail @ show_policies ps)) = ?key
       then Some (CHR ''I'' # (?tail @ show_policies ps)) else strstr (?tail @ show_policies ps) ?key)"
    by (rule strstr.simps)
  show ?case
  proof (cases "take (length ?key) (CHR ''I'' # (?tail @ show_policies ps)) = ?key")
    case True
    then have "attr_find ?key i (show_policies (p # ps)) =
        (if po_id p \<noteq> i then attr_find ?key i (show_policy_attrs p @ show_policies ps)
         else Scan_Ok (show_policy_attrs p @ show_policies ps))"
      unfolding e by (subst attr_find.simps) (simp only: strstr_step True simp_thms if_True option.case scan.case prod.case sid)
    then show ?thesis using skip2 Cons by simp
  next
    case False
    then have ne: "po_id p \<noteq> i" using own by blast
    have "attr_find ?key i (show_policies (p # ps)) = attr_find ?key i (?tail @ show_policies ps)"
      unfolding e by (subst (1 2) attr_find.simps) (simp only: strstr_step False if_False)
    then show ?thesis using skip ne Cons by simp
  qed
qed

text \<open>
  C32: \<open>ucg_plan_attr_update\<close> takes range and score from the first printed policy that has exactly the id
  of the plan, however many other ids begin with the same digits, and leaves a plan alone that no policy
  names.
\<close>

theorem attr_update_selects_id:
  assumes "\<forall>p \<in> set ps. policy_ok p" and "gsize \<noteq> - 1"
  shows "ucg_plan_attr_update gsize attr (Some (show_policies ps)) =
    Some (UCG_OK, case dropWhile (\<lambda>p. po_id p \<noteq> pa_id attr) ps of [] \<Rightarrow> attr
                  | p # rest \<Rightarrow> attr\<lparr>pa_range := po_range p, pa_score := po_score p\<rparr>)"
proof -
  have k: "take 7 (''I:'' @ show_int (pa_id attr)) = attr_key_text (pa_id attr)"
    by (simp add: attr_key_text_def numeral_eq_Suc)
  have f: "ucg_plan_attr_update_find attr (show_policies ps) =
     (case dropWhile (\<lambda>p. po_id p \<noteq> pa_id attr) ps of [] \<Rightarrow> Scan_Fail
      | p # rest \<Rightarrow> Scan_Ok (show_policy_attrs p @ show_policies rest))"
    unfolding ucg_plan_attr_update_find_def k by (rule attr_find_show [OF assms(1)])
  have g: "\<not> (gsize < 0 \<or> - 1 \<le> gsize)" using assms(2) by (simp add: word_order.extremum_unique)
  show ?thesis
  proof (cases "dropWhile (\<lambda>p. po_id p \<noteq> pa_id attr) ps")
    case Nil
    show ?thesis using f unfolding Nil by (simp add: ucg_plan_attr_update_def)
  next
    case (Cons p rest)
    then have "p \<in> set ps" by (metis list.set_intros(1) set_dropWhileD)
    then have "parse_attrs (show_policy_attrs p @ show_policies rest) (pa_range attr) (pa_score attr) =
        Some (Inr (po_range p, po_score p))" using assms(1) at_policy_show by (simp add: parse_attrs_show)
    moreover have "show_policies ps \<noteq> []" using Cons by (cases ps) (auto simp: show_policies_def show_policy_def)
    ultimately show ?thesis using f Cons g by (simp add: ucg_plan_attr_update_def Let_def)
  qed
qed

definition sample_attr :: ucg_plan_attr where
  "sample_attr = \<lparr>pa_prepare = Some 1, pa_id = 12, pa_name = Some ''ring'', pa_domain = Some ''ucx'', pa_deprecated = False,
     pa_range = \<lparr>rg_start = 0, rg_end = 7\<rparr>, pa_vgroup = 1, pa_score = 3\<rparr>"

lemma attr_update_selects_id_witness:
  "ucg_plan_attr_update 4 sample_attr (Some (show_policies sample_policies)) =
     Some (UCG_OK, sample_attr\<lparr>pa_range := \<lparr>rg_start = 1024, rg_end = 4096\<rparr>, pa_score := 9\<rparr>)"
  using attr_update_selects_id [of sample_policies 4 sample_attr]
  by (simp add: sample_policies_def sample_attr_def policy_ok_def fits_signed_def)

end
