(* ===== verification/Rank_Map.thy ===== *)
theory Rank_Map
  imports Kucg_Prelude
begin

text \<open>
  Rank maps, \<open>src/src/core/ucg_rank_map.c\<close>: how the ranks of a group map to the ranks of a context, with
  the compression of arrays to strides.

  The union of \<open>ucg_rank_map_t\<close> and its tag are one datatype.  An array is its contents, \<open>None\<close> is the NULL
  pointer, and a read outside it is undefined (\<open>None\<close> of the function).  Ranks are \<open>int\<close>s far from overflow.
  Every array is one block of the heap.
\<close>

datatype rank_mapping =
    Rank_Full
  | Rank_Array "ucg_rank_t list option"
  | Rank_Stride ucg_rank_t c_int
  | Rank_Cb "ucg_rank_t \<Rightarrow> ucg_rank_t"

record ucg_rank_map =
  rm_size :: u32
  rm_map :: rank_mapping

definition ucg_rank_map_eval :: "bool \<Rightarrow> ucg_rank_map \<Rightarrow> ucg_rank_t \<Rightarrow> ucg_rank_t option" where
  "ucg_rank_map_eval check_params m src_rank =
     (if check_params \<and> (src_rank < 0 \<or> src_rank \<ge> sint (rm_size m)) then Some UCG_INVALID_RANK
      else case rm_map m of
        Rank_Full \<Rightarrow> Some src_rank
      | Rank_Array ranks \<Rightarrow> if src_rank < 0 then None else c_read ranks (nat src_rank)
      | Rank_Stride start stride \<Rightarrow> Some (start + src_rank * stride)
      | Rank_Cb mapping \<Rightarrow> Some (mapping src_rank))"

text \<open>The loop of \<open>ucg_rank_map_optimize\<close> from \<open>i\<close> with \<open>k\<close> turns left: is every step the same stride?\<close>

fun same_stride :: "ucg_rank_t list option \<Rightarrow> c_int \<Rightarrow> nat \<Rightarrow> nat \<Rightarrow> bool option" where
  "same_stride array stride i 0 = Some True"
| "same_stride array stride i (Suc k) =
     do { a \<leftarrow> c_read array i;
          b \<leftarrow> c_read array (i - 1);
          if stride \<noteq> a - b then Some False else same_stride array stride (i + 1) k }"

text \<open>The result says whether \<open>*array\<close> was set to the original array, which the map then no longer uses.\<close>

definition ucg_rank_map_optimize :: "ucg_rank_map \<Rightarrow> (ucg_rank_map \<times> bool) option" where
  "ucg_rank_map_optimize m =
     (case rm_map m of
        Rank_Full \<Rightarrow> Some (m, False)
      | Rank_Cb mapping \<Rightarrow> Some (m, False)
      | Rank_Stride start stride \<Rightarrow>
          Some (if start = 0 \<and> stride = 1 then m\<lparr>rm_map := Rank_Full\<rparr> else m, False)
      | Rank_Array array \<Rightarrow>
          do { let sz = unat (rm_size m);
               (stride, is_same_stride) \<leftarrow>
                 (if sz > 1
                  then do { a1 \<leftarrow> c_read array 1;
                            a0 \<leftarrow> c_read array 0;
                            same \<leftarrow> same_stride array (a1 - a0) 2 (sz - 2);
                            Some (a1 - a0, same) }
                  else Some (1, True));
               if \<not> is_same_stride then Some (m, False)
               else do { a0 \<leftarrow> c_read array 0;
                         Some (m\<lparr>rm_map := if stride = 1 \<and> a0 = 0 then Rank_Full else Rank_Stride a0 stride\<rparr>, True) } })"

text \<open>\<open>ranks\<close> is what \<open>*ranks\<close> points to before and after; the old contents of the map are overwritten.\<close>

definition ucg_rank_map_init_by_array ::
    "ucg_rank_t list option \<Rightarrow> u32 \<Rightarrow> bool \<Rightarrow> ucg_heap \<Rightarrow>
     (ucg_status \<times> ucg_rank_map \<times> ucg_rank_t list option \<times> ucg_heap) option" where
  "ucg_rank_map_init_by_array ranks sz take_over h =
     do { (m, optimized) \<leftarrow> ucg_rank_map_optimize \<lparr>rm_size = sz, rm_map = Rank_Array ranks\<rparr>;
          if optimized then
            Some (if take_over then (UCG_OK, m, None, heap_free h) else (UCG_OK, m, ranks, h))
          else if take_over then Some (UCG_OK, m, None, h)
          else case heap_alloc h of
            (False, h) \<Rightarrow> Some (UCG_ERR_NO_MEMORY, m\<lparr>rm_map := Rank_Array None\<rparr>, ranks, h)
          | (True, h) \<Rightarrow>
              do { xs \<leftarrow> ranks;
                   if length xs < unat sz then None
                   else Some (UCG_OK, m\<lparr>rm_map := Rank_Array (Some (take (unat sz) xs))\<rparr>, ranks, h) } }"

definition ucg_rank_map_copy :: "ucg_rank_map \<Rightarrow> ucg_heap \<Rightarrow> (ucg_status \<times> ucg_rank_map \<times> ucg_heap) option" where
  "ucg_rank_map_copy src h =
     (case rm_map src of
        Rank_Array ranks \<Rightarrow>
          do { (status, dst, ranks, h) \<leftarrow> ucg_rank_map_init_by_array ranks (rm_size src) False h;
               Some (status, dst, h) }
      | _ \<Rightarrow> do { (dst, optimized) \<leftarrow> ucg_rank_map_optimize src; Some (UCG_OK, dst, h) })"

definition ucg_rank_map_cleanup :: "ucg_rank_map \<Rightarrow> ucg_heap \<Rightarrow> ucg_rank_map \<times> ucg_heap" where
  "ucg_rank_map_cleanup m h =
     (case rm_map m of
        Rank_Array (Some ranks) \<Rightarrow> (m\<lparr>rm_map := Rank_Array None, rm_size := 0\<rparr>, heap_free h)
      | _ \<Rightarrow> (m\<lparr>rm_size := 0\<rparr>, h))"

subsection \<open>Properties\<close>

text \<open>A map whose array, if it is one, is there and long enough; the map of an empty group is of no use.\<close>

definition rank_map_ok :: "ucg_rank_map \<Rightarrow> bool" where
  "rank_map_ok m \<longleftrightarrow> 0 < unat (rm_size m) \<and>
     (case rm_map m of Rank_Array ranks \<Rightarrow> (\<exists>xs. ranks = Some xs \<and> unat (rm_size m) \<le> length xs) | _ \<Rightarrow> True)"

definition rank_map_blocks :: "ucg_rank_map \<Rightarrow> int" where
  "rank_map_blocks m = (case rm_map m of Rank_Array (Some xs) \<Rightarrow> 1 | _ \<Rightarrow> 0)"

lemma c_read_Some: "i < length xs \<Longrightarrow> c_read (Some xs) i = Some (xs ! i)"
  by (simp add: c_read_def)

lemma same_stride_iff:
  "1 \<le> i \<Longrightarrow> i + k \<le> length xs \<Longrightarrow>
   same_stride (Some xs) stride i k = Some (\<forall>j \<in> {i..<i + k}. xs ! j - xs ! (j - 1) = stride)"
proof (induction k arbitrary: i)
  case (Suc k)
  have e: "{i..<i + Suc k} = insert i {i + 1..<(i + 1) + k}" by auto
  have r: "c_read (Some xs) i = Some (xs ! i)" "c_read (Some xs) (i - 1) = Some (xs ! (i - 1))"
    using Suc.prems by (auto intro!: c_read_Some)
  have "same_stride (Some xs) stride (i + 1) k = Some (\<forall>j \<in> {i + 1..<(i + 1) + k}. xs ! j - xs ! (j - 1) = stride)"
    by (rule Suc.IH) (use Suc.prems in simp_all)
  then show ?case unfolding e same_stride.simps r by simp blast
qed simp

lemma stride_values:
  assumes "\<forall>j \<in> {2..<n}. xs ! j - xs ! (j - 1) = xs ! 1 - xs ! 0" and "i < n"
  shows "xs ! i = xs ! 0 + int i * (xs ! 1 - (xs ! 0 :: int))"
  using assms(2)
proof (induction i)
  case (Suc i)
  show ?case
  proof (cases "i = 0")
    case False
    then have "Suc i \<in> {2..<n}" using Suc.prems by simp
    then have "xs ! Suc i - xs ! (Suc i - 1) = xs ! 1 - xs ! 0" using assms(1) by blast
    then have "xs ! Suc i = xs ! i + (xs ! 1 - xs ! 0)" by simp
    then show ?thesis using Suc by (simp add: algebra_simps)
  qed simp
qed simp

lemma optimize_array:
  assumes "0 < n" and "n \<le> length xs" and "n = unat sz"
  shows "\<exists>m opt. ucg_rank_map_optimize \<lparr>rm_size = sz, rm_map = Rank_Array (Some xs)\<rparr> = Some (m, opt) \<and>
    rm_size m = sz \<and>
    (if opt then \<exists>a d. (rm_map m = Rank_Full \<and> a = 0 \<and> d = 1 \<or> rm_map m = Rank_Stride a d) \<and> (\<forall>i < n. xs ! i = a + int i * d)
     else rm_map m = Rank_Array (Some xs) \<and> \<not> (\<exists>a d. \<forall>i < n. xs ! i = a + int i * d))"
proof (cases "1 < n")
  case True
  let ?d = "xs ! 1 - xs ! 0"
  have "0 < length xs" "1 < length xs" using assms True by linarith+
  note r = this [THEN c_read_Some]
  let ?same = "\<forall>j \<in> {2..<n}. xs ! j - xs ! (j - 1) = ?d"
  have s: "same_stride (Some xs) ?d 2 (n - 2) = Some ?same"
  proof -
    have "2 + (n - 2) = n" using True by simp
    then show ?thesis using same_stride_iff [of 2 "n - 2" xs ?d] assms(2) by simp
  qed
  show ?thesis
  proof (cases ?same)
    case same: True
    have v: "xs ! i = xs ! 0 + int i * ?d" if "i < n" for i by (rule stride_values [OF same that])
    define M where "M = (if ?d = 1 \<and> xs ! 0 = 0 then Rank_Full else Rank_Stride (xs ! 0) ?d)"
    have o: "ucg_rank_map_optimize \<lparr>rm_size = sz, rm_map = Rank_Array (Some xs)\<rparr> = Some (\<lparr>rm_size = sz, rm_map = M\<rparr>, True)"
      using True r s same by (simp add: ucg_rank_map_optimize_def assms(3) [symmetric] M_def)
    have "(M = Rank_Full \<and> xs ! 0 = 0 \<and> ?d = 1 \<or> M = Rank_Stride (xs ! 0) ?d) \<and> (\<forall>i < n. xs ! i = xs ! 0 + int i * ?d)"
      by (intro conjI allI impI v) (simp add: M_def)
    then have m: "\<exists>a d. (M = Rank_Full \<and> a = 0 \<and> d = 1 \<or> M = Rank_Stride a d) \<and> (\<forall>i < n. xs ! i = a + int i * d)"
      by (intro exI)
    show ?thesis by (intro exI [of _ "\<lparr>rm_size = sz, rm_map = M\<rparr>"] exI [of _ True]) (use o m in simp)
  next
    case False
    have "\<not> (\<exists>a d. \<forall>i < n. xs ! i = a + int i * d)"
    proof
      assume "\<exists>a d. \<forall>i < n. xs ! i = a + int i * d"
      then obtain a d where v: "\<And>i. i < n \<Longrightarrow> xs ! i = a + int i * d" by blast
      have "xs ! j - xs ! (j - 1) = ?d" if "2 \<le> j" "j < n" for j :: nat
      proof -
        have "xs ! j = a + int j * d" "xs ! (j - 1) = a + (int j - 1) * d" "xs ! 1 = a + d" "xs ! 0 = a"
          using v [of j] v [of "j - 1"] v [of 1] v [of 0] that True by (simp_all add: of_nat_diff)
        then show ?thesis by (simp add: left_diff_distrib)
      qed
      then show False using False by auto
    qed
    moreover have "ucg_rank_map_optimize \<lparr>rm_size = sz, rm_map = Rank_Array (Some xs)\<rparr> =
        Some (\<lparr>rm_size = sz, rm_map = Rank_Array (Some xs)\<rparr>, False)"
      using True r s False by (simp add: ucg_rank_map_optimize_def assms(3) [symmetric])
    ultimately show ?thesis
      by (intro exI [of _ "\<lparr>rm_size = sz, rm_map = Rank_Array (Some xs)\<rparr>"] exI [of _ False]) simp
  qed
next
  case False
  then have n: "n = 1" using assms(1) by simp
  have "0 < length xs" using assms(1,2) by linarith
  note r = this [THEN c_read_Some]
  have o: "ucg_rank_map_optimize \<lparr>rm_size = sz, rm_map = Rank_Array (Some xs)\<rparr> =
      Some (\<lparr>rm_size = sz, rm_map = if xs ! 0 = 0 then Rank_Full else Rank_Stride (xs ! 0) 1\<rparr>, True)"
    using r n assms(3) [symmetric] by (simp add: ucg_rank_map_optimize_def)
  show ?thesis unfolding o by (rule exI, rule exI, rule conjI [OF refl]) (use n in \<open>auto intro!: exI [of _ 1]\<close>)
qed

text \<open>
  C29: optimising a rank map never changes what it maps: every rank of the group evaluates as before;
  and an array is kept only if it is no arithmetic progression.
\<close>

theorem rank_map_optimize_correct:
  assumes "rank_map_ok m" and "0 \<le> r" and "r < int (unat (rm_size m))"
  shows "\<exists>m' opt. ucg_rank_map_optimize m = Some (m', opt) \<and> rm_size m' = rm_size m \<and>
    ucg_rank_map_eval chk m' r = ucg_rank_map_eval chk m r \<and>
    (\<forall>xs. rm_map m' = Rank_Array (Some xs) \<longrightarrow> \<not> opt \<and> \<not> (\<exists>a d. \<forall>i < unat (rm_size m). xs ! i = a + int i * d))"
proof (cases "rm_map m")
  case (Rank_Array ranks)
  then obtain xs where xs: "ranks = Some xs" "unat (rm_size m) \<le> length xs" and n: "0 < unat (rm_size m)"
    using assms(1) by (auto simp: rank_map_ok_def)
  have m: "m = \<lparr>rm_size = rm_size m, rm_map = Rank_Array (Some xs)\<rparr>" using Rank_Array xs by (cases m) simp
  from optimize_array [OF n xs(2) refl] obtain m' opt where
    o: "ucg_rank_map_optimize m = Some (m', opt)" "rm_size m' = rm_size m" and
    c: "if opt then \<exists>a d. (rm_map m' = Rank_Full \<and> a = 0 \<and> d = 1 \<or> rm_map m' = Rank_Stride a d) \<and>
            (\<forall>i < unat (rm_size m). xs ! i = a + int i * d)
        else rm_map m' = Rank_Array (Some xs) \<and> \<not> (\<exists>a d. \<forall>i < unat (rm_size m). xs ! i = a + int i * d)"
    using m by metis
  have i: "nat r < unat (rm_size m)" "nat r < length xs" using assms(2,3) xs(2) by linarith+
  have "ucg_rank_map_eval chk m' r = ucg_rank_map_eval chk m r"
    using c o(2) i assms(2) Rank_Array xs(1) by (auto simp: ucg_rank_map_eval_def c_read_Some split: if_splits)
  then show ?thesis using o c by (auto split: if_splits)
qed (use assms in \<open>auto simp: ucg_rank_map_optimize_def ucg_rank_map_eval_def\<close>)

lemma rank_map_optimize_correct_witness:
  "\<exists>m' opt. ucg_rank_map_optimize \<lparr>rm_size = 3, rm_map = Rank_Array (Some [4, 6, 8])\<rparr> = Some (m', opt) \<and>
     ucg_rank_map_eval False m' 2 = Some 8"
proof -
  have e: "ucg_rank_map_eval False \<lparr>rm_size = 3, rm_map = Rank_Array (Some [4, 6, 8])\<rparr> 2 = Some 8"
    by (simp add: ucg_rank_map_eval_def c_read_def)
  show ?thesis unfolding e [symmetric]
    using rank_map_optimize_correct [of "\<lparr>rm_size = 3, rm_map = Rank_Array (Some [4, 6, 8])\<rparr>" 2 False]
    by (auto simp: rank_map_ok_def)
qed

text \<open>
  C31: a copy evaluates like its source and shares nothing with it: it owns a block of its own exactly
  when it is an array, running out of memory is reported and leaves no block behind, and the source is
  untouched.
\<close>

theorem rank_map_copy_deep:
  assumes "rank_map_ok src"
  shows "\<exists>st dst h'. ucg_rank_map_copy src h = Some (st, dst, h') \<and> h_live h' = h_live h + rank_map_blocks dst \<and>
    h_live (snd (ucg_rank_map_cleanup dst h')) = h_live h \<and> (st = UCG_OK \<or> st = UCG_ERR_NO_MEMORY) \<and>
    (st = UCG_OK \<longrightarrow> (\<forall>r. 0 \<le> r \<longrightarrow> r < int (unat (rm_size src)) \<longrightarrow>
       ucg_rank_map_eval chk dst r = ucg_rank_map_eval chk src r))"
proof (cases "rm_map src")
  case (Rank_Array ranks)
  then obtain xs where xs: "ranks = Some xs" "unat (rm_size src) \<le> length xs" and n: "0 < unat (rm_size src)"
    using assms(1) by (auto simp: rank_map_ok_def)
  have src: "\<lparr>rm_size = rm_size src, rm_map = Rank_Array ranks\<rparr> = src" using Rank_Array by (cases src) simp
  from optimize_array [OF n xs(2) refl] obtain m' opt where
    o: "ucg_rank_map_optimize src = Some (m', opt)" "rm_size m' = rm_size src" and
    c: "if opt then \<exists>a d. (rm_map m' = Rank_Full \<and> a = 0 \<and> d = 1 \<or> rm_map m' = Rank_Stride a d) \<and>
            (\<forall>i < unat (rm_size src). xs ! i = a + int i * d)
        else rm_map m' = Rank_Array (Some xs)"
    using src xs(1) by metis
  have o': "ucg_rank_map_optimize \<lparr>rm_size = rm_size src, rm_map = Rank_Array ranks\<rparr> = Some (m', opt)"
    unfolding src by (rule o(1))
  show ?thesis
  proof (cases opt)
    case True
    then have cp: "ucg_rank_map_copy src h = Some (UCG_OK, m', h)"
      using o' Rank_Array by (simp add: ucg_rank_map_copy_def ucg_rank_map_init_by_array_def)
    have "ucg_rank_map_eval chk m' r = ucg_rank_map_eval chk src r" if "0 \<le> r" "r < int (unat (rm_size src))" for r
    proof -
      have "nat r < unat (rm_size src)" "nat r < length xs" using that xs(2) by linarith+
      then show ?thesis using c True o(2) that Rank_Array xs(1) by (auto simp: ucg_rank_map_eval_def c_read_Some)
    qed
    moreover have "rank_map_blocks m' = 0" "ucg_rank_map_cleanup m' h = (m'\<lparr>rm_size := 0\<rparr>, h)"
      using c True by (auto simp: rank_map_blocks_def ucg_rank_map_cleanup_def)
    ultimately show ?thesis using cp by auto
  next
    case False
    obtain ok h1 where a: "heap_alloc h = (ok, h1)" by fastforce
    define dst where "dst = m'\<lparr>rm_map := Rank_Array (if ok then Some (take (unat (rm_size src)) xs) else None)\<rparr>"
    have cp: "ucg_rank_map_copy src h = Some (if ok then UCG_OK else UCG_ERR_NO_MEMORY, dst, h1)"
      using o' o(2) Rank_Array False a xs by (auto simp: ucg_rank_map_copy_def ucg_rank_map_init_by_array_def dst_def)
    have "ucg_rank_map_eval chk dst r = ucg_rank_map_eval chk src r" if "0 \<le> r" "r < int (unat (rm_size src))" "ok" for r
    proof -
      have "nat r < unat (rm_size src)" "nat r < length xs" using that xs(2) by linarith+
      then show ?thesis using that o(2) Rank_Array xs(1) by (auto simp: ucg_rank_map_eval_def c_read_def dst_def)
    qed
    then show ?thesis using cp heap_alloc_live [OF a]
      by (auto simp: dst_def rank_map_blocks_def ucg_rank_map_cleanup_def)
  qed
next
  case (Rank_Stride a d)
  then have "ucg_rank_map_copy src h = Some (UCG_OK, if a = 0 \<and> d = 1 then src\<lparr>rm_map := Rank_Full\<rparr> else src, h)"
    by (simp add: ucg_rank_map_copy_def ucg_rank_map_optimize_def)
  then show ?thesis using Rank_Stride by (auto simp: rank_map_blocks_def ucg_rank_map_cleanup_def ucg_rank_map_eval_def)
qed (auto simp: ucg_rank_map_copy_def ucg_rank_map_optimize_def rank_map_blocks_def ucg_rank_map_cleanup_def)

lemma rank_map_copy_deep_witness:
  "\<exists>st dst h'. ucg_rank_map_copy \<lparr>rm_size = 3, rm_map = Rank_Array (Some [4, 7, 8])\<rparr> \<lparr>h_outcomes = [], h_live = 5\<rparr> = Some (st, dst, h') \<and>
     h_live h' = 5 + rank_map_blocks dst \<and> h_live (snd (ucg_rank_map_cleanup dst h')) = 5"
  using rank_map_copy_deep [of "\<lparr>rm_size = 3, rm_map = Rank_Array (Some [4, 7, 8])\<rparr>" "\<lparr>h_outcomes = [], h_live = 5\<rparr>" True]
  by (auto simp: rank_map_ok_def)

end
