(* ===== verification/C_Memory.thy ===== *)
theory C_Memory
  imports Coll_Args
begin

text \<open>
  Byte-addressed memory, for the components that move data.  Addresses are natural numbers (an object
  never wraps around the address space), NULL is 0.  \<open>memcpy\<close> between overlapping objects is undefined
  in C; the lemmas that need it assume that the ranges are disjoint.
\<close>

type_synonym byte = "8 word"
type_synonym c_mem = "c_ptr \<Rightarrow> byte"

definition bytes_at :: "c_mem \<Rightarrow> c_ptr \<Rightarrow> nat \<Rightarrow> byte list" where
  "bytes_at m p n = map m [p..<p + n]"

definition write_bytes :: "c_mem \<Rightarrow> c_ptr \<Rightarrow> byte list \<Rightarrow> c_mem" where
  "write_bytes m p bs = (\<lambda>a. if p \<le> a \<and> a < p + length bs then bs ! (a - p) else m a)"

definition memcpy :: "c_mem \<Rightarrow> c_ptr \<Rightarrow> c_ptr \<Rightarrow> nat \<Rightarrow> c_mem" where
  "memcpy m dst src n = write_bytes m dst (bytes_at m src n)"

lemma length_bytes_at [simp]: "length (bytes_at m p n) = n"
  by (simp add: bytes_at_def)

lemma nth_bytes_at [simp]: "i < n \<Longrightarrow> bytes_at m p n ! i = m (p + i)"
  by (simp add: bytes_at_def)

lemma bytes_at_cong: "(\<And>a. p \<le> a \<Longrightarrow> a < p + n \<Longrightarrow> m a = m' a) \<Longrightarrow> bytes_at m p n = bytes_at m' p n"
  by (simp add: bytes_at_def)

lemma take_bytes_at: "take k (bytes_at m p n) = bytes_at m p (min k n)"
  by (rule nth_equalityI) simp_all

lemma drop_bytes_at: "drop k (bytes_at m p n) = bytes_at m (p + k) (n - k)"
  by (rule nth_equalityI) (simp_all add: add.assoc)

lemma bytes_at_append: "bytes_at m p (n + k) = bytes_at m p n @ bytes_at m (p + n) k"
  by (rule nth_equalityI) (auto simp: nth_append)

lemma write_bytes_nil [simp]: "write_bytes m p [] = m"
  by (auto simp: write_bytes_def fun_eq_iff)

lemma write_bytes_outside: "a < p \<or> p + length bs \<le> a \<Longrightarrow> write_bytes m p bs a = m a"
  by (auto simp: write_bytes_def)

lemma bytes_at_write [simp]: "n = length bs \<Longrightarrow> bytes_at (write_bytes m p bs) p n = bs"
  by (rule nth_equalityI) (simp_all add: write_bytes_def)

text \<open>Writing two pieces, one behind the other, is writing their concatenation.\<close>

lemma write_bytes_append:
  "q = p + length bs \<Longrightarrow> write_bytes (write_bytes m p bs) q cs = write_bytes m p (bs @ cs)"
  by (auto simp: write_bytes_def fun_eq_iff nth_append)

text \<open>A write within a range, seen as the list of the bytes of the range.\<close>

definition overwrite :: "'a list \<Rightarrow> nat \<Rightarrow> 'a list \<Rightarrow> 'a list" where
  "overwrite xs k ys = take k xs @ ys @ drop (k + length ys) xs"

lemma length_overwrite [simp]: "k + length ys \<le> length xs \<Longrightarrow> length (overwrite xs k ys) = length xs"
  by (simp add: overwrite_def)

lemma overwrite_nil [simp]: "overwrite xs k [] = xs"
  by (simp add: overwrite_def)

lemma bytes_at_overwrite:
  "k + length ys \<le> n \<Longrightarrow> bytes_at (write_bytes m (p + k) ys) p n = overwrite (bytes_at m p n) k ys"
  by (rule nth_equalityI) (auto simp: overwrite_def write_bytes_def nth_append)

lemma overwrite_overwrite:
  "k + length ys + length zs \<le> length xs \<Longrightarrow>
   overwrite (overwrite xs k ys) (k + length ys) zs = overwrite xs k (ys @ zs)"
  by (simp add: overwrite_def ac_simps)

end
