(* ===== verification/Dt.thy ===== *)
theory Dt
  imports C_Memory
begin

text \<open>
  Datatypes and reduction operations, \<open>src/src/core/ucg_dt.c\<close> and \<open>ucg_dt.h\<close>.

  A convertor is the user's code: its functions are fields of a record, as in the source, and the model
  takes them as they come.  Its state is a handle of type \<open>'s\<close>.  \<open>ucg_dt_generic_t\<close> extends
  \<open>ucg_dt_t\<close>, and the code casts between them, so the model has the fields of both; \<open>dt_conv\<close> is \<open>None\<close> where
  no convertor was stored, and calling it is undefined (\<open>None\<close> of the function).
  Calls of \<open>ucg_malloc\<close>, \<open>ucg_calloc\<close> and \<open>ucg_mpool_get\<close> take blocks from the heap.  The argument \<open>chk\<close>
  says whether \<open>UCG_ENABLE_CHECK_PARAMS\<close> is on.
\<close>

unbundle bit_operations_syntax

subsection \<open>Data\<close>

datatype ucg_dt_type =
    UCG_DT_TYPE_INT8 | UCG_DT_TYPE_INT16 | UCG_DT_TYPE_INT32 | UCG_DT_TYPE_INT64
  | UCG_DT_TYPE_UINT8 | UCG_DT_TYPE_UINT16 | UCG_DT_TYPE_UINT32 | UCG_DT_TYPE_UINT64
  | UCG_DT_TYPE_FP16 | UCG_DT_TYPE_FP32 | UCG_DT_TYPE_FP64
  | UCG_DT_TYPE_PREDEFINED_LAST | UCG_DT_TYPE_USER

definition UCG_DT_FLAG_IS_PREDEFINED :: u32 where "UCG_DT_FLAG_IS_PREDEFINED = 1"
definition UCG_DT_FLAG_IS_CONTIGUOUS :: u32 where "UCG_DT_FLAG_IS_CONTIGUOUS = 2"

record 's ucg_dt_convertor =
  cv_start_pack :: "c_ptr \<Rightarrow> c_ptr \<Rightarrow> c_int \<Rightarrow> 's option"
  cv_pack :: "'s \<Rightarrow> u64 \<Rightarrow> c_ptr \<Rightarrow> u64 \<Rightarrow> c_mem \<Rightarrow> ucg_status \<times> u64 \<times> c_mem"
  cv_start_unpack :: "c_ptr \<Rightarrow> c_ptr \<Rightarrow> c_int \<Rightarrow> 's option"
  cv_unpack :: "'s \<Rightarrow> u64 \<Rightarrow> c_ptr \<Rightarrow> u64 \<Rightarrow> c_mem \<Rightarrow> ucg_status \<times> u64 \<times> c_mem"
  cv_finish :: "'s \<Rightarrow> c_mem \<Rightarrow> c_mem"

record ucg_dt_opaque =
  oq_obj :: u64
  oq_destroy :: c_ptr

record 's ucg_dt =
  dt_type :: ucg_dt_type
  dt_flags :: u32
  dt_size :: u64
  dt_extent :: int
  dt_true_lb :: int
  dt_true_extent :: int
  dt_opaque :: ucg_dt_opaque
  dt_user_dt :: c_ptr
  dt_conv :: "'s ucg_dt_convertor option"

definition ucg_dt_is_predefined :: "'s ucg_dt \<Rightarrow> bool" where
  "ucg_dt_is_predefined dt = (dt_flags dt AND UCG_DT_FLAG_IS_PREDEFINED \<noteq> 0)"

definition ucg_dt_is_contiguous :: "'s ucg_dt \<Rightarrow> bool" where
  "ucg_dt_is_contiguous dt = (dt_flags dt AND UCG_DT_FLAG_IS_CONTIGUOUS \<noteq> 0)"

definition ucg_dt_set_opaque :: "'s ucg_dt \<Rightarrow> ucg_dt_opaque \<Rightarrow> 's ucg_dt" where
  "ucg_dt_set_opaque dt opaque = dt\<lparr>dt_opaque := opaque\<rparr>"

definition UCG_DT_PREDEFINED_FLAGS :: u32 where
  "UCG_DT_PREDEFINED_FLAGS = UCG_DT_FLAG_IS_PREDEFINED OR UCG_DT_FLAG_IS_CONTIGUOUS"

text \<open>The table \<open>ucg_dt_predefined\<close>; the entries have no more fields than these five, the others are zero.\<close>

fun dt_predefined_size :: "ucg_dt_type \<Rightarrow> u64 option" where
  "dt_predefined_size UCG_DT_TYPE_INT8 = Some 1"
| "dt_predefined_size UCG_DT_TYPE_INT16 = Some 2"
| "dt_predefined_size UCG_DT_TYPE_INT32 = Some 4"
| "dt_predefined_size UCG_DT_TYPE_INT64 = Some 8"
| "dt_predefined_size UCG_DT_TYPE_UINT8 = Some 1"
| "dt_predefined_size UCG_DT_TYPE_UINT16 = Some 2"
| "dt_predefined_size UCG_DT_TYPE_UINT32 = Some 4"
| "dt_predefined_size UCG_DT_TYPE_UINT64 = Some 8"
| "dt_predefined_size UCG_DT_TYPE_FP16 = Some 2"
| "dt_predefined_size UCG_DT_TYPE_FP32 = Some 4"
| "dt_predefined_size UCG_DT_TYPE_FP64 = Some 8"
| "dt_predefined_size UCG_DT_TYPE_PREDEFINED_LAST = None"
| "dt_predefined_size UCG_DT_TYPE_USER = None"

definition ucg_dt_is_predefined_type :: "ucg_dt_type \<Rightarrow> bool" where
  "ucg_dt_is_predefined_type type = (type \<noteq> UCG_DT_TYPE_PREDEFINED_LAST \<and> type \<noteq> UCG_DT_TYPE_USER)"

definition ucg_dt_get_predefined :: "ucg_dt_type \<Rightarrow> 's ucg_dt option" where
  "ucg_dt_get_predefined type =
     map_option (\<lambda>size. \<lparr>dt_type = type, dt_flags = UCG_DT_PREDEFINED_FLAGS, dt_size = size, dt_extent = uint size,
       dt_true_lb = 0, dt_true_extent = uint size, dt_opaque = \<lparr>oq_obj = 0, oq_destroy = C_NULL\<rparr>,
       dt_user_dt = C_NULL, dt_conv = None\<rparr>) (dt_predefined_size type)"

subsection \<open>Creating and destroying\<close>

definition UCG_DT_PARAMS_FIELD_TYPE :: u64 where "UCG_DT_PARAMS_FIELD_TYPE = 0x1"
definition UCG_DT_PARAMS_FIELD_USER_DT :: u64 where "UCG_DT_PARAMS_FIELD_USER_DT = 0x2"
definition UCG_DT_PARAMS_FIELD_SIZE :: u64 where "UCG_DT_PARAMS_FIELD_SIZE = 0x4"
definition UCG_DT_PARAMS_FIELD_EXTENT :: u64 where "UCG_DT_PARAMS_FIELD_EXTENT = 0x8"
definition UCG_DT_PARAMS_FIELD_CONV :: u64 where "UCG_DT_PARAMS_FIELD_CONV = 0x10"
definition UCG_DT_PARAMS_FIELD_TRUE_LB :: u64 where "UCG_DT_PARAMS_FIELD_TRUE_LB = 0x20"
definition UCG_DT_PARAMS_FIELD_TRUE_EXTENT :: u64 where "UCG_DT_PARAMS_FIELD_TRUE_EXTENT = 0x40"

record 's ucg_dt_params =
  dp_field_mask :: u64
  dp_type :: ucg_dt_type
  dp_user_dt :: c_ptr
  dp_size :: u64
  dp_extent :: int
  dp_conv :: "'s ucg_dt_convertor"
  dp_true_lb :: int
  dp_true_extent :: int

text \<open>\<open>params->size != params->extent\<close> compares an unsigned with a signed number: the extent is converted.\<close>

definition size_is_extent :: "'s ucg_dt_params \<Rightarrow> bool" where
  "size_is_extent params = (dp_size params = word_of_int (dp_extent params))"

definition ucg_dt_create :: "'s ucg_dt_params \<Rightarrow> ucg_heap \<Rightarrow> (ucg_status + 's ucg_dt) \<times> ucg_heap" where
  "ucg_dt_create params h =
     (let field_mask = dp_field_mask params; type = dp_type params
      in if field_mask AND UCG_DT_PARAMS_FIELD_TYPE = 0 then (Inl UCG_ERR_INVALID_PARAM, h)
         else case ucg_dt_get_predefined type of
           Some dt \<Rightarrow> (Inr dt, h)
         | None \<Rightarrow>
             if type \<noteq> UCG_DT_TYPE_USER
               \<or> field_mask AND UCG_DT_PARAMS_FIELD_USER_DT = 0
               \<or> field_mask AND UCG_DT_PARAMS_FIELD_SIZE = 0
               \<or> field_mask AND UCG_DT_PARAMS_FIELD_EXTENT = 0
               \<or> field_mask AND UCG_DT_PARAMS_FIELD_TRUE_LB = 0
               \<or> field_mask AND UCG_DT_PARAMS_FIELD_TRUE_EXTENT = 0
             then (Inl UCG_ERR_INVALID_PARAM, h)
             else if \<not> size_is_extent params \<and> field_mask AND UCG_DT_PARAMS_FIELD_CONV = 0
             then (Inl UCG_ERR_INVALID_PARAM, h)
             else case heap_alloc h of
               (False, h) \<Rightarrow> (Inl UCG_ERR_NO_MEMORY, h)
             | (True, h) \<Rightarrow>
                 (Inr \<lparr>dt_type = UCG_DT_TYPE_USER,
                       dt_flags = (if size_is_extent params then UCG_DT_FLAG_IS_CONTIGUOUS else 0),
                       dt_size = dp_size params, dt_extent = dp_extent params,
                       dt_true_lb = dp_true_lb params, dt_true_extent = dp_true_extent params,
                       dt_opaque = \<lparr>oq_obj = 0, oq_destroy = C_NULL\<rparr>, dt_user_dt = dp_user_dt params,
                       dt_conv = (if size_is_extent params then None else Some (dp_conv params))\<rparr>, h))"

text \<open>The first result is the call of the opaque object's destructor, if there is one.\<close>

definition ucg_dt_destroy :: "'s ucg_dt \<Rightarrow> ucg_heap \<Rightarrow> (c_ptr \<times> u64) option \<times> ucg_heap" where
  "ucg_dt_destroy dt h =
     (if oq_destroy (dt_opaque dt) \<noteq> C_NULL then Some (oq_destroy (dt_opaque dt), oq_obj (dt_opaque dt)) else None,
      if \<not> ucg_dt_is_predefined dt then heap_free h else h)"

subsection \<open>Packing and unpacking\<close>

text \<open>The union of \<open>ucg_dt_state_t\<close>; which arm it holds follows the contiguous flag of the datatype.\<close>

datatype 's dt_state_data = Contig c_ptr | Generic 's

record 's ucg_dt_state =
  ds_dt :: "'s ucg_dt"
  ds_count :: c_int
  ds_data :: "'s dt_state_data"

text \<open>The macro \<open>UCG_DT_STATE_INIT\<close>; \<open>action\<close> selects the convertor's function.\<close>

definition dt_state_init ::
    "('s ucg_dt_convertor \<Rightarrow> c_ptr \<Rightarrow> c_ptr \<Rightarrow> c_int \<Rightarrow> 's option) \<Rightarrow> bool \<Rightarrow> c_ptr \<Rightarrow> 's ucg_dt \<Rightarrow> c_int \<Rightarrow> ucg_heap \<Rightarrow>
     ('s ucg_dt_state option \<times> ucg_heap) option" where
  "dt_state_init action chk buffer dt cnt h =
     (if chk \<and> buffer = C_NULL then Some (None, h)
      else case heap_alloc h of
        (False, h) \<Rightarrow> Some (None, h)
      | (True, h) \<Rightarrow>
          if ucg_dt_is_contiguous dt then Some (Some \<lparr>ds_dt = dt, ds_count = cnt, ds_data = Contig buffer\<rparr>, h)
          else do { cv \<leftarrow> dt_conv dt;
                    case action cv buffer (dt_user_dt dt) cnt of
                      Some gstate \<Rightarrow> Some (Some \<lparr>ds_dt = dt, ds_count = cnt, ds_data = Generic gstate\<rparr>, h)
                    | None \<Rightarrow> Some (None, heap_free h) })"

definition ucg_dt_start_pack ::
    "bool \<Rightarrow> c_ptr \<Rightarrow> 's ucg_dt \<Rightarrow> c_int \<Rightarrow> ucg_heap \<Rightarrow> ('s ucg_dt_state option \<times> ucg_heap) option" where
  "ucg_dt_start_pack = dt_state_init cv_start_pack"

definition ucg_dt_start_unpack ::
    "bool \<Rightarrow> c_ptr \<Rightarrow> 's ucg_dt \<Rightarrow> c_int \<Rightarrow> ucg_heap \<Rightarrow> ('s ucg_dt_state option \<times> ucg_heap) option" where
  "ucg_dt_start_unpack = dt_state_init cv_start_unpack"

text \<open>\<open>count * ucg_dt_size(dt)\<close>: the count is converted to 64 bits unsigned, the product wraps.\<close>

definition dt_length :: "c_int \<Rightarrow> 's ucg_dt \<Rightarrow> u64" where
  "dt_length cnt dt = word_of_int cnt * dt_size dt"

definition ucg_dt_packed_size :: "'s ucg_dt_state \<Rightarrow> u64" where
  "ucg_dt_packed_size st = dt_length (ds_count st) (ds_dt st)"

definition ucg_dt_pack_contiguous :: "c_ptr \<Rightarrow> u64 \<Rightarrow> c_ptr \<Rightarrow> u64 \<Rightarrow> c_mem \<Rightarrow> c_mem" where
  "ucg_dt_pack_contiguous buffer offset dst len m = memcpy m dst (buffer + unat offset) (unat len)"

definition ucg_dt_unpack_contiguous :: "c_ptr \<Rightarrow> u64 \<Rightarrow> c_ptr \<Rightarrow> u64 \<Rightarrow> c_mem \<Rightarrow> c_mem" where
  "ucg_dt_unpack_contiguous buffer offset src len m = memcpy m (buffer + unat offset) src (unat len)"

text \<open>The macro \<open>UCG_DT_STATE_ACTION\<close>, with the two functions an action stands for.  The result is the
  status, the new \<open>*length\<close> and the memory.\<close>

definition dt_state_action ::
    "(c_ptr \<Rightarrow> u64 \<Rightarrow> c_ptr \<Rightarrow> u64 \<Rightarrow> c_mem \<Rightarrow> c_mem) \<Rightarrow>
     ('s ucg_dt_convertor \<Rightarrow> 's \<Rightarrow> u64 \<Rightarrow> c_ptr \<Rightarrow> u64 \<Rightarrow> c_mem \<Rightarrow> ucg_status \<times> u64 \<times> c_mem) \<Rightarrow>
     bool \<Rightarrow> 's ucg_dt_state \<Rightarrow> u64 \<Rightarrow> c_ptr \<Rightarrow> u64 \<Rightarrow> c_mem \<Rightarrow> (ucg_status \<times> u64 \<times> c_mem) option" where
  "dt_state_action contiguous generic chk st offset buf want_len m =
     (if chk \<and> buf = C_NULL then Some (UCG_ERR_INVALID_PARAM, want_len, m)
      else if want_len = 0 then Some (UCG_OK, want_len, m)
      else case ds_data st of
        Contig buffer \<Rightarrow>
          let total_len = dt_length (ds_count st) (ds_dt st)
          in if offset \<ge> total_len then Some (UCG_OK, 0, m)
             else let remaining = total_len - offset;
                      max_len = (if remaining < want_len then remaining else want_len)
                  in Some (UCG_OK, max_len, contiguous buffer offset buf max_len m)
      | Generic gstate \<Rightarrow>
          do { cv \<leftarrow> dt_conv (ds_dt st); Some (generic cv gstate offset buf want_len m) })"

definition ucg_dt_pack ::
    "bool \<Rightarrow> 's ucg_dt_state \<Rightarrow> u64 \<Rightarrow> c_ptr \<Rightarrow> u64 \<Rightarrow> c_mem \<Rightarrow> (ucg_status \<times> u64 \<times> c_mem) option" where
  "ucg_dt_pack = dt_state_action ucg_dt_pack_contiguous cv_pack"

definition ucg_dt_unpack ::
    "bool \<Rightarrow> 's ucg_dt_state \<Rightarrow> u64 \<Rightarrow> c_ptr \<Rightarrow> u64 \<Rightarrow> c_mem \<Rightarrow> (ucg_status \<times> u64 \<times> c_mem) option" where
  "ucg_dt_unpack = dt_state_action ucg_dt_unpack_contiguous cv_unpack"

definition ucg_dt_finish :: "'s ucg_dt_state \<Rightarrow> c_mem \<Rightarrow> ucg_heap \<Rightarrow> (c_mem \<times> ucg_heap) option" where
  "ucg_dt_finish st m h =
     (case ds_data st of
        Contig buffer \<Rightarrow> Some (m, heap_free h)
      | Generic gstate \<Rightarrow> do { cv \<leftarrow> dt_conv (ds_dt st); Some (cv_finish cv gstate m, heap_free h) })"

subsection \<open>Copying\<close>

text \<open>
  The loops of \<open>ucg_dt_memcpy_pack\<close>, \<open>ucg_dt_memcpy_unpack\<close> and \<open>ucg_dt_memcpy_generic\<close> end when no
  more bytes come; with a convertor that never says so they do not, and have the value \<open>None\<close>.
\<close>

definition ucg_dt_memcpy_contiguous ::
    "c_ptr \<Rightarrow> c_int \<Rightarrow> 's ucg_dt \<Rightarrow> c_ptr \<Rightarrow> c_int \<Rightarrow> 's ucg_dt \<Rightarrow> c_mem \<Rightarrow> ucg_status \<times> c_mem" where
  "ucg_dt_memcpy_contiguous dst dcount dst_dt src scount src_dt m =
     (let src_len = dt_length scount src_dt; dst_len = dt_length dcount dst_dt
      in if src_len \<le> dst_len then (UCG_OK, memcpy m dst src (unat src_len))
         else (UCG_ERR_TRUNCATE, memcpy m dst src (unat dst_len)))"

partial_function (option) pack_loop ::
    "bool \<Rightarrow> 's ucg_dt_state \<Rightarrow> c_ptr \<Rightarrow> u64 \<Rightarrow> u64 \<Rightarrow> c_mem \<Rightarrow> (ucg_status \<times> c_mem) option" where
  "pack_loop chk st dst dst_len offset m =
     do { (status, len, m) \<leftarrow> ucg_dt_pack chk st offset (dst + unat offset) (dst_len - offset) m;
          if status \<noteq> UCG_OK then Some (status, m)
          else if len = 0 then Some (UCG_OK, m)
          else pack_loop chk st dst dst_len (offset + len) m }"

definition ucg_dt_memcpy_pack ::
    "bool \<Rightarrow> c_ptr \<Rightarrow> c_int \<Rightarrow> 's ucg_dt \<Rightarrow> c_ptr \<Rightarrow> c_int \<Rightarrow> 's ucg_dt \<Rightarrow> c_mem \<Rightarrow> ucg_heap \<Rightarrow>
     (ucg_status \<times> c_mem \<times> ucg_heap) option" where
  "ucg_dt_memcpy_pack chk dst dcount dst_dt src scount src_dt m h =
     do { (state, h) \<leftarrow> ucg_dt_start_pack chk src src_dt scount h;
          case state of
            None \<Rightarrow> Some (UCG_ERR_NO_RESOURCE, m, h)
          | Some st \<Rightarrow>
              do { let src_len = dt_length scount src_dt;
                   let dst_len = dt_length dcount dst_dt;
                   (status, m) \<leftarrow> pack_loop chk st dst dst_len 0 m;
                   (m, h) \<leftarrow> ucg_dt_finish st m h;
                   Some (if status \<noteq> UCG_OK then status
                         else if src_len \<le> dst_len then UCG_OK else UCG_ERR_TRUNCATE, m, h) } }"

partial_function (option) unpack_loop ::
    "bool \<Rightarrow> 's ucg_dt_state \<Rightarrow> c_ptr \<Rightarrow> u64 \<Rightarrow> u64 \<Rightarrow> c_mem \<Rightarrow> (ucg_status \<times> c_mem) option" where
  "unpack_loop chk st src src_len offset m =
     do { (status, len, m) \<leftarrow> ucg_dt_unpack chk st offset (src + unat offset) (src_len - offset) m;
          if status \<noteq> UCG_OK then Some (status, m)
          else if len = 0 then Some (UCG_OK, m)
          else unpack_loop chk st src src_len (offset + len) m }"

definition ucg_dt_memcpy_unpack ::
    "bool \<Rightarrow> c_ptr \<Rightarrow> c_int \<Rightarrow> 's ucg_dt \<Rightarrow> c_ptr \<Rightarrow> c_int \<Rightarrow> 's ucg_dt \<Rightarrow> c_mem \<Rightarrow> ucg_heap \<Rightarrow>
     (ucg_status \<times> c_mem \<times> ucg_heap) option" where
  "ucg_dt_memcpy_unpack chk dst dcount dst_dt src scount src_dt m h =
     do { (state, h) \<leftarrow> ucg_dt_start_unpack chk dst dst_dt dcount h;
          case state of
            None \<Rightarrow> Some (UCG_ERR_NO_RESOURCE, m, h)
          | Some st \<Rightarrow>
              do { let src_len = dt_length scount src_dt;
                   let dst_len = dt_length dcount dst_dt;
                   (status, m) \<leftarrow> unpack_loop chk st src src_len 0 m;
                   (m, h) \<leftarrow> ucg_dt_finish st m h;
                   Some (if status \<noteq> UCG_OK then status
                         else if src_len \<le> dst_len then UCG_OK else UCG_ERR_TRUNCATE, m, h) } }"

text \<open>Every chunk goes through a buffer of 16 KiB at the address \<open>buf\<close> that \<open>ucg_malloc\<close> returned.\<close>

partial_function (option) generic_loop ::
    "bool \<Rightarrow> 's ucg_dt_state \<Rightarrow> 's ucg_dt_state \<Rightarrow> c_ptr \<Rightarrow> u64 \<Rightarrow> u64 \<Rightarrow> u64 \<Rightarrow> c_mem \<Rightarrow> (ucg_status \<times> c_mem) option" where
  "generic_loop chk pack_state unpack_state buf buf_len pack_offset unpack_offset m =
     do { (status, max_len, m) \<leftarrow> ucg_dt_pack chk pack_state pack_offset buf buf_len m;
          if status \<noteq> UCG_OK then Some (status, m)
          else if max_len = 0 then Some (UCG_OK, m)
          else do { let pack_offset = pack_offset + max_len;
                    (status, max_len, m) \<leftarrow> ucg_dt_unpack chk unpack_state unpack_offset buf max_len m;
                    if status \<noteq> UCG_OK then Some (status, m)
                    else if max_len = 0 then Some (UCG_OK, m)
                    else generic_loop chk pack_state unpack_state buf buf_len pack_offset (unpack_offset + max_len) m } }"

definition ucg_dt_memcpy_generic ::
    "bool \<Rightarrow> c_ptr \<Rightarrow> c_ptr \<Rightarrow> c_int \<Rightarrow> 's ucg_dt \<Rightarrow> c_ptr \<Rightarrow> c_int \<Rightarrow> 's ucg_dt \<Rightarrow> c_mem \<Rightarrow> ucg_heap \<Rightarrow>
     (ucg_status \<times> c_mem \<times> ucg_heap) option" where
  "ucg_dt_memcpy_generic chk buf dst dcount dst_dt src scount src_dt m h =
     (case heap_alloc h of
        (False, h) \<Rightarrow> Some (UCG_ERR_NO_MEMORY, m, h)
      | (True, h) \<Rightarrow>
          do { (pack_state, h) \<leftarrow> ucg_dt_start_pack chk src src_dt scount h;
               case pack_state of
                 None \<Rightarrow> Some (UCG_ERR_NO_RESOURCE, m, h)
               | Some pst \<Rightarrow>
                   do { (unpack_state, h) \<leftarrow> ucg_dt_start_unpack chk dst dst_dt dcount h;
                        case unpack_state of
                          None \<Rightarrow> do { (m, h) \<leftarrow> ucg_dt_finish pst m h; Some (UCG_ERR_NO_RESOURCE, m, h) }
                        | Some ust \<Rightarrow>
                            do { (status, m) \<leftarrow> generic_loop chk pst ust buf (push_bit 10 16) 0 0 m;
                                 (m, h) \<leftarrow> ucg_dt_finish ust m h;
                                 (m, h) \<leftarrow> ucg_dt_finish pst m h;
                                 Some (if status \<noteq> UCG_OK then status
                                       else if dt_length scount src_dt \<le> dt_length dcount dst_dt
                                       then UCG_OK else UCG_ERR_TRUNCATE, m, h) } } })"

definition ucg_dt_memcpy ::
    "bool \<Rightarrow> c_ptr \<Rightarrow> c_ptr \<Rightarrow> c_int \<Rightarrow> 's ucg_dt \<Rightarrow> c_ptr \<Rightarrow> c_int \<Rightarrow> 's ucg_dt \<Rightarrow> c_mem \<Rightarrow> ucg_heap \<Rightarrow>
     (ucg_status \<times> c_mem \<times> ucg_heap) option" where
  "ucg_dt_memcpy chk buf dst dcount dst_dt src scount src_dt m h =
     (if dcount = 0 \<or> dt_size dst_dt = 0
      then Some (if scount = 0 \<or> dt_size src_dt = 0 then UCG_OK else UCG_ERR_TRUNCATE, m, h)
      else if ucg_dt_is_contiguous src_dt \<and> ucg_dt_is_contiguous dst_dt
      then case ucg_dt_memcpy_contiguous dst dcount dst_dt src scount src_dt m of (status, m) \<Rightarrow> Some (status, m, h)
      else if \<not> ucg_dt_is_contiguous src_dt \<and> ucg_dt_is_contiguous dst_dt
      then ucg_dt_memcpy_pack chk dst dcount dst_dt src scount src_dt m h
      else if ucg_dt_is_contiguous src_dt \<and> \<not> ucg_dt_is_contiguous dst_dt
      then ucg_dt_memcpy_unpack chk dst dcount dst_dt src scount src_dt m h
      else ucg_dt_memcpy_generic chk buf dst dcount dst_dt src scount src_dt m h)"

end
