(* ===== verification/Dt_Op.thy ===== *)
theory Dt_Op
  imports Dt
begin

text \<open>
  Reduction operations, the second half of \<open>src/src/core/ucg_dt.c\<close> and of \<open>ucg_dt.h\<close>.

  The predefined functions work on typed arrays; an array is its elements as machine words, whose width
  is the size of the type.  The arithmetic of floating point numbers is the implementation's: the
  record \<open>fp_arith\<close> has it, on the bits of the numbers.  Sums and products of signed integers of 32 and 64 bits that leave the
  range are undefined (\<open>None\<close>); narrower ones are computed as \<open>int\<close> and converted back, modulo the width.
\<close>

datatype ucg_op_type = UCG_OP_TYPE_MAX | UCG_OP_TYPE_MIN | UCG_OP_TYPE_SUM | UCG_OP_TYPE_PROD
  | UCG_OP_TYPE_PREDEFINED_LAST | UCG_OP_TYPE_USER

datatype dt_array = Arr8 "8 word list" | Arr16 "16 word list" | Arr32 "32 word list" | Arr64 "64 word list"

record fp_arith =
  fp_support_float16 :: bool
  fp_16 :: "ucg_op_type \<Rightarrow> 16 word \<Rightarrow> 16 word \<Rightarrow> 16 word"
  fp_32 :: "ucg_op_type \<Rightarrow> 32 word \<Rightarrow> 32 word \<Rightarrow> 32 word"
  fp_64 :: "ucg_op_type \<Rightarrow> 64 word \<Rightarrow> 64 word \<Rightarrow> 64 word"

definition UCG_OP_FLAG_IS_PREDEFINED :: u32 where "UCG_OP_FLAG_IS_PREDEFINED = 1"
definition UCG_OP_FLAG_IS_COMMUTATIVE :: u32 where "UCG_OP_FLAG_IS_COMMUTATIVE = 2"
definition UCG_OP_FLAG_IS_PERSISTENT :: u32 where "UCG_OP_FLAG_IS_PERSISTENT = 4"

subsection \<open>Elements\<close>

text \<open>\<open>target = target OP source\<close> on integers: what the C expression has as its exact value.\<close>

fun op_func_int :: "ucg_op_type \<Rightarrow> int \<Rightarrow> int \<Rightarrow> int option" where
  "op_func_int UCG_OP_TYPE_MAX target source = Some (if target > source then target else source)"
| "op_func_int UCG_OP_TYPE_MIN target source = Some (if target < source then target else source)"
| "op_func_int UCG_OP_TYPE_SUM target source = Some (target + source)"
| "op_func_int UCG_OP_TYPE_PROD target source = Some (target * source)"
| "op_func_int UCG_OP_TYPE_PREDEFINED_LAST target source = None"
| "op_func_int UCG_OP_TYPE_USER target source = None"

definition op_func_unsigned :: "ucg_op_type \<Rightarrow> 'a :: len word \<Rightarrow> 'a word \<Rightarrow> 'a word option" where
  "op_func_unsigned type target source = map_option word_of_int (op_func_int type (uint target) (uint source))"

definition op_func_signed :: "ucg_op_type \<Rightarrow> 'a :: len word \<Rightarrow> 'a word \<Rightarrow> 'a word option" where
  "op_func_signed type target source =
     do { v \<leftarrow> op_func_int type (sint target) (sint source);
          if LENGTH('a) \<ge> 32 \<and> sint (word_of_int v :: 'a word) \<noteq> v then None else Some (word_of_int v) }"

text \<open>The loop of \<open>UCG_OP_FUNC\<close>; accesses behind an array are undefined, elements from \<open>count\<close> on stay.\<close>

fun op_func_loop :: "('a \<Rightarrow> 'a \<Rightarrow> 'a option) \<Rightarrow> nat \<Rightarrow> 'a list \<Rightarrow> 'a list \<Rightarrow> 'a list option" where
  "op_func_loop f 0 source target = Some target"
| "op_func_loop f (Suc k) (s # source) (t # target) =
     do { v \<leftarrow> f t s; rest \<leftarrow> op_func_loop f k source target; Some (v # rest) }"
| "op_func_loop f (Suc k) source target = None"

text \<open>
  \<open>ucg_op_predefined_funcs_<op>[dt->type]\<close>, called on arrays of the type.  \<open>None\<close> is undefined behaviour
  (also when an array is not of the type).
\<close>

fun op_on_8 :: "(8 word \<Rightarrow> 8 word \<Rightarrow> 8 word option) \<Rightarrow> nat \<Rightarrow> dt_array \<Rightarrow> dt_array \<Rightarrow> (ucg_status \<times> dt_array) option" where
  "op_on_8 f n (Arr8 s) (Arr8 t) = do { r \<leftarrow> op_func_loop f n s t; Some (UCG_OK, Arr8 r) }"
| "op_on_8 f n s t = None"

fun op_on_16 :: "(16 word \<Rightarrow> 16 word \<Rightarrow> 16 word option) \<Rightarrow> nat \<Rightarrow> dt_array \<Rightarrow> dt_array \<Rightarrow> (ucg_status \<times> dt_array) option" where
  "op_on_16 f n (Arr16 s) (Arr16 t) = do { r \<leftarrow> op_func_loop f n s t; Some (UCG_OK, Arr16 r) }"
| "op_on_16 f n s t = None"

fun op_on_32 :: "(32 word \<Rightarrow> 32 word \<Rightarrow> 32 word option) \<Rightarrow> nat \<Rightarrow> dt_array \<Rightarrow> dt_array \<Rightarrow> (ucg_status \<times> dt_array) option" where
  "op_on_32 f n (Arr32 s) (Arr32 t) = do { r \<leftarrow> op_func_loop f n s t; Some (UCG_OK, Arr32 r) }"
| "op_on_32 f n s t = None"

fun op_on_64 :: "(64 word \<Rightarrow> 64 word \<Rightarrow> 64 word option) \<Rightarrow> nat \<Rightarrow> dt_array \<Rightarrow> dt_array \<Rightarrow> (ucg_status \<times> dt_array) option" where
  "op_on_64 f n (Arr64 s) (Arr64 t) = do { r \<leftarrow> op_func_loop f n s t; Some (UCG_OK, Arr64 r) }"
| "op_on_64 f n s t = None"

fun op_predefined_func ::
    "fp_arith \<Rightarrow> ucg_op_type \<Rightarrow> ucg_dt_type \<Rightarrow> nat \<Rightarrow> dt_array \<Rightarrow> dt_array \<Rightarrow> (ucg_status \<times> dt_array) option" where
  "op_predefined_func fp op UCG_DT_TYPE_INT8 n s t = op_on_8 (op_func_signed op) n s t"
| "op_predefined_func fp op UCG_DT_TYPE_INT16 n s t = op_on_16 (op_func_signed op) n s t"
| "op_predefined_func fp op UCG_DT_TYPE_INT32 n s t = op_on_32 (op_func_signed op) n s t"
| "op_predefined_func fp op UCG_DT_TYPE_INT64 n s t = op_on_64 (op_func_signed op) n s t"
| "op_predefined_func fp op UCG_DT_TYPE_UINT8 n s t = op_on_8 (op_func_unsigned op) n s t"
| "op_predefined_func fp op UCG_DT_TYPE_UINT16 n s t = op_on_16 (op_func_unsigned op) n s t"
| "op_predefined_func fp op UCG_DT_TYPE_UINT32 n s t = op_on_32 (op_func_unsigned op) n s t"
| "op_predefined_func fp op UCG_DT_TYPE_UINT64 n s t = op_on_64 (op_func_unsigned op) n s t"
| "op_predefined_func fp op UCG_DT_TYPE_FP16 n s t =
     (if \<not> fp_support_float16 fp then Some (UCG_ERR_UNSUPPORTED, t)
      else op_on_16 (\<lambda>b a. Some (fp_16 fp op b a)) n s t)"
| "op_predefined_func fp op UCG_DT_TYPE_FP32 n s t = op_on_32 (\<lambda>b a. Some (fp_32 fp op b a)) n s t"
| "op_predefined_func fp op UCG_DT_TYPE_FP64 n s t = op_on_64 (\<lambda>b a. Some (fp_64 fp op b a)) n s t"
| "op_predefined_func fp op UCG_DT_TYPE_PREDEFINED_LAST n s t = None"
| "op_predefined_func fp op UCG_DT_TYPE_USER n s t = None"

subsection \<open>Operations\<close>

text \<open>A user's function gets the user's operation and datatype objects; it is a parameter, as the code stores it.\<close>

type_synonym user_op_func = "c_ptr \<Rightarrow> dt_array \<Rightarrow> dt_array \<Rightarrow> c_int \<Rightarrow> c_ptr \<Rightarrow> ucg_status \<times> dt_array"

datatype ucg_op_func = Op_Func_Predefined ucg_op_type | Op_Func_User user_op_func

record ucg_op =
  uo_type :: ucg_op_type
  uo_flags :: u32
  uo_func :: ucg_op_func
  uo_user_op :: c_ptr

definition ucg_op_is_predefined :: "ucg_op \<Rightarrow> bool" where
  "ucg_op_is_predefined op = (uo_flags op AND UCG_OP_FLAG_IS_PREDEFINED \<noteq> 0)"

definition ucg_op_is_commutative :: "ucg_op \<Rightarrow> bool" where
  "ucg_op_is_commutative op = (uo_flags op AND UCG_OP_FLAG_IS_COMMUTATIVE \<noteq> 0)"

definition ucg_op_is_persistent :: "ucg_op \<Rightarrow> bool" where
  "ucg_op_is_persistent op = (uo_flags op AND UCG_OP_FLAG_IS_PERSISTENT \<noteq> 0)"

definition UCG_OP_PREDEFINED_FLAGS :: u32 where
  "UCG_OP_PREDEFINED_FLAGS =
     (UCG_OP_FLAG_IS_PREDEFINED OR UCG_OP_FLAG_IS_COMMUTATIVE) OR UCG_OP_FLAG_IS_PERSISTENT"

definition ucg_op_is_predefined_type :: "ucg_op_type \<Rightarrow> bool" where
  "ucg_op_is_predefined_type type \<longleftrightarrow> type \<noteq> UCG_OP_TYPE_PREDEFINED_LAST \<and> type \<noteq> UCG_OP_TYPE_USER"

definition ucg_op_predefined :: "ucg_op_type \<Rightarrow> ucg_op" where
  "ucg_op_predefined type =
     \<lparr>uo_type = type, uo_flags = UCG_OP_PREDEFINED_FLAGS, uo_func = Op_Func_Predefined type, uo_user_op = C_NULL\<rparr>"

definition UCG_OP_PARAMS_FIELD_TYPE :: u64 where "UCG_OP_PARAMS_FIELD_TYPE = 1"
definition UCG_OP_PARAMS_FIELD_USER_OP :: u64 where "UCG_OP_PARAMS_FIELD_USER_OP = 2"
definition UCG_OP_PARAMS_FIELD_USER_FUNC :: u64 where "UCG_OP_PARAMS_FIELD_USER_FUNC = 4"
definition UCG_OP_PARAMS_FIELD_COMMUTATIVE :: u64 where "UCG_OP_PARAMS_FIELD_COMMUTATIVE = 8"

record ucg_op_params =
  opp_field_mask :: u64
  opp_type :: ucg_op_type
  opp_user_op :: c_ptr
  opp_user_func :: user_op_func
  opp_commutative :: bool

text \<open>The checks that \<open>ucg_op_create\<close> and \<open>ucg_op_init\<close> make alike, on a type that is not predefined.\<close>

definition op_params_invalid :: "ucg_op_params \<Rightarrow> bool" where
  "op_params_invalid params \<longleftrightarrow>
     opp_type params \<noteq> UCG_OP_TYPE_USER
   \<or> opp_field_mask params AND UCG_OP_PARAMS_FIELD_USER_OP = 0
   \<or> opp_field_mask params AND UCG_OP_PARAMS_FIELD_USER_FUNC = 0
   \<or> opp_field_mask params AND UCG_OP_PARAMS_FIELD_COMMUTATIVE = 0"

definition ucg_op_create :: "ucg_op_params \<Rightarrow> ucg_heap \<Rightarrow> (ucg_status + ucg_op) \<times> ucg_heap" where
  "ucg_op_create params h =
     (if opp_field_mask params AND UCG_OP_PARAMS_FIELD_TYPE = 0 then (Inl UCG_ERR_INVALID_PARAM, h)
      else if ucg_op_is_predefined_type (opp_type params) then (Inr (ucg_op_predefined (opp_type params)), h)
      else if op_params_invalid params then (Inl UCG_ERR_INVALID_PARAM, h)
      else case heap_alloc h of
        (False, h) \<Rightarrow> (Inl UCG_ERR_NO_MEMORY, h)
      | (True, h) \<Rightarrow>
          (Inr \<lparr>uo_type = UCG_OP_TYPE_USER,
                uo_flags = UCG_OP_FLAG_IS_PERSISTENT OR (if opp_commutative params then UCG_OP_FLAG_IS_COMMUTATIVE else 0),
                uo_func = Op_Func_User (opp_user_func params), uo_user_op = opp_user_op params\<rparr>, h))"

definition ucg_op_destroy :: "ucg_op \<Rightarrow> ucg_heap \<Rightarrow> ucg_heap" where
  "ucg_op_destroy op h = (if \<not> ucg_op_is_predefined op then heap_free h else h)"

text \<open>
  \<open>ucg_op_init\<close> fills the caller's struct of \<open>op_size\<close> bytes; \<open>sizeof_op\<close> is the size of \<open>ucg_op_generic_t\<close>.  A predefined
  operation is stored without touching \<open>user_op\<close> of the struct.
\<close>

definition ucg_op_init :: "u32 \<Rightarrow> ucg_op_params \<Rightarrow> ucg_op \<Rightarrow> u32 \<Rightarrow> ucg_status \<times> ucg_op" where
  "ucg_op_init sizeof_op params op op_size =
     (if sizeof_op > op_size then (UCG_ERR_INVALID_PARAM, op)
      else if opp_field_mask params AND UCG_OP_PARAMS_FIELD_TYPE = 0 then (UCG_ERR_INVALID_PARAM, op)
      else if ucg_op_is_predefined_type (opp_type params)
      then let p = ucg_op_predefined (opp_type params)
           in (UCG_OK, p\<lparr>uo_flags := uo_flags p AND NOT UCG_OP_FLAG_IS_PERSISTENT, uo_user_op := uo_user_op op\<rparr>)
      else if op_params_invalid params then (UCG_ERR_INVALID_PARAM, op)
      else (UCG_OK, \<lparr>uo_type = UCG_OP_TYPE_USER,
                     uo_flags = (if opp_commutative params then UCG_OP_FLAG_IS_COMMUTATIVE else 0),
                     uo_func = Op_Func_User (opp_user_func params), uo_user_op = opp_user_op params\<rparr>))"

definition ucg_op_copy :: "ucg_op \<Rightarrow> ucg_op \<Rightarrow> ucg_op" where
  "ucg_op_copy dst src = (if ucg_op_is_predefined src then src\<lparr>uo_user_op := uo_user_op dst\<rparr> else src)"

text \<open>
  \<open>ucg_op_reduce\<close>; \<open>None\<close> for an array is the NULL pointer.  The assertion on the operation's type in the
  predefined functions does not matter: the table gives every operation its own function.
\<close>

definition ucg_op_reduce ::
    "fp_arith \<Rightarrow> ucg_op \<Rightarrow> dt_array option \<Rightarrow> dt_array option \<Rightarrow> c_int \<Rightarrow> 's ucg_dt \<Rightarrow>
     (ucg_status \<times> dt_array option) option" where
  "ucg_op_reduce fp op source target cnt dt =
     (if source = None \<or> target = None \<or> cnt = 0 then Some (UCG_OK, target)
      else case uo_func op of
        Op_Func_Predefined type \<Rightarrow>
          do { s \<leftarrow> source; t \<leftarrow> target;
               (status, r) \<leftarrow> op_predefined_func fp type (dt_type dt) (nat cnt) s t;
               Some (status, Some r) }
      | Op_Func_User f \<Rightarrow>
          do { s \<leftarrow> source; t \<leftarrow> target;
               let (status, r) = f (uo_user_op op) s t cnt (dt_user_dt dt);
               Some (status, Some r) })"

subsection \<open>The commutative flag\<close>

lemma op_func_int_commute: "op_func_int op a b = op_func_int op b a"
  by (cases op) (simp_all add: max_def)

lemma op_func_loop_commute:
  assumes "\<And>x y. f x y = f y x"
  shows "length s = n \<Longrightarrow> length t = n \<Longrightarrow> op_func_loop f n s t = op_func_loop f n t s"
proof (induction n arbitrary: s t)
  case (Suc n)
  obtain x xs where s: "s = x # xs" "length xs = n" using Suc.prems(1) by (cases s) auto
  obtain y ys where t: "t = y # ys" "length ys = n" using Suc.prems(2) by (cases t) auto
  show ?case using Suc.IH [OF s(2) t(2)] by (simp add: s(1) t(1) assms [of x y])
qed simp

lemma op_func_unsigned_commute: "op_func_unsigned op a b = op_func_unsigned op b a"
  unfolding op_func_unsigned_def by (simp only: op_func_int_commute [of op "uint a"])

lemma op_func_signed_commute: "op_func_signed op a b = op_func_signed op b a"
  unfolding op_func_signed_def by (simp only: op_func_int_commute [of op "sint a"])

end
