(* ===== verification/Dt_Spec.thy ===== *)
theory Dt_Spec
  imports Dt_Op
begin

text \<open>
  What moving data between datatypes promises.  A typed buffer has a \<^emph>\<open>content\<close>, the bytes it would
  have if it were packed, and an \<^emph>\<open>area\<close>, the addresses that hold it.  The two locales are the contracts of the two
  directions: a packing state hands out pieces of the content, an unpacking state overwrites pieces of
  it and touches nothing outside its area.  The contiguous states of the library fulfil them; those of a user's
  convertor do if the convertor does.
\<close>

lemma unat_min_word: "unat (if a < b then a else b :: 'a :: len word) = min (unat a) (unat b)"
  by (simp add: min_def word_less_nat_alt)

locale pack_stream =
  fixes chk :: bool and st :: "'s ucg_dt_state" and content :: "c_mem \<Rightarrow> byte list" and area :: "c_ptr set"
  assumes content_length: "length (content m) = unat (ucg_dt_packed_size st)"
    and content_local: "(\<And>a. a \<in> area \<Longrightarrow> m a = m' a) \<Longrightarrow> content m = content m'"
    and pack_piece: "dst \<noteq> C_NULL \<Longrightarrow> want \<noteq> 0 \<Longrightarrow>
      \<exists>l. ucg_dt_pack chk st off dst want m =
            Some (UCG_OK, l, write_bytes m dst (take (unat l) (drop (unat off) (content m)))) \<and>
          unat l \<le> unat want \<and> unat l \<le> length (content m) - unat off \<and> (l = 0 \<longrightarrow> length (content m) \<le> unat off)"

locale unpack_stream =
  fixes chk :: bool and st :: "'s ucg_dt_state" and content :: "c_mem \<Rightarrow> byte list" and area :: "c_ptr set"
  assumes content_length: "length (content m) = unat (ucg_dt_packed_size st)"
    and content_local: "(\<And>a. a \<in> area \<Longrightarrow> m a = m' a) \<Longrightarrow> content m = content m'"
    and unpack_piece: "src \<noteq> C_NULL \<Longrightarrow> want \<noteq> 0 \<Longrightarrow> {src..<src + unat want} \<inter> area = {} \<Longrightarrow>
      \<exists>l m'. ucg_dt_unpack chk st off src want m = Some (UCG_OK, l, m') \<and>
          unat l \<le> unat want \<and> unat l \<le> length (content m) - unat off \<and> (l = 0 \<longrightarrow> length (content m) \<le> unat off) \<and>
          content m' = overwrite (content m) (unat off) (bytes_at m src (unat l)) \<and> (\<forall>a. a \<notin> area \<longrightarrow> m' a = m a)"

text \<open>An exact unpacker takes all it is offered, as far as there is room.\<close>

locale exact_unpack_stream = unpack_stream +
  assumes unpack_all: "src \<noteq> C_NULL \<Longrightarrow> want \<noteq> 0 \<Longrightarrow> ucg_dt_unpack chk st off src want m = Some (UCG_OK, l, m') \<Longrightarrow>
      unat l = min (unat want) (length (content m) - unat off)"

subsection \<open>The loops\<close>

lemma pack_zero: "dst \<noteq> C_NULL \<Longrightarrow> ucg_dt_pack chk st off dst 0 m = Some (UCG_OK, 0, m)"
  by (simp add: ucg_dt_pack_def dt_state_action_def)

lemma unpack_zero: "src \<noteq> C_NULL \<Longrightarrow> ucg_dt_unpack chk st off src 0 m = Some (UCG_OK, 0, m)"
  by (simp add: ucg_dt_unpack_def dt_state_action_def)

lemma unat_offset:
  fixes off l len :: u64
  assumes "unat off \<le> unat len" and "unat l \<le> unat (len - off)"
  shows "unat (off + l) = unat off + unat l" and "unat (len - off) = unat len - unat off"
    and "unat (len - (off + l)) = unat len - unat off - unat l"
proof -
  show s: "unat (len - off) = unat len - unat off" using assms(1) by (simp add: unat_sub word_le_nat_alt)
  have "unat off + unat l < 2 ^ 64" using assms s unsigned_less [of len, where 'a = nat] by simp
  then show a: "unat (off + l) = unat off + unat l" by (subst unat_add_lem [symmetric]) simp
  have "off + l \<le> len" using a assms s by (simp add: word_le_nat_alt)
  then show "unat (len - (off + l)) = unat len - unat off - unat l" by (simp add: unat_sub a)
qed

lemma take_chunk:
  "l \<le> n \<Longrightarrow> take l (drop o' xs) @ take (n - l) (drop (o' + l) xs) = take n (drop o' xs)"
  using take_add [of l "n - l" "drop o' xs"] by (simp add: add.commute)

context pack_stream
begin

lemma pack_loop_copies:
  assumes "dst \<noteq> C_NULL" and "{dst..<dst + unat dst_len} \<inter> area = {}"
    and "unat off \<le> unat dst_len"
  shows "pack_loop chk st dst dst_len off m =
    Some (UCG_OK, write_bytes m (dst + unat off) (take (unat dst_len - unat off) (drop (unat off) (content m))))"
  using assms(3)
proof (induction "unat dst_len - unat off" arbitrary: off m rule: less_induct)
  case less
  note loop = pack_loop.simps [of chk st dst dst_len off m]
  have want: "unat (dst_len - off) = unat dst_len - unat off" by (rule unat_offset(2) [of _ _ 0]) (use less.prems in simp_all)
  show ?case
  proof (cases "dst_len - off = 0")
    case True
    then have "unat dst_len - unat off = 0" using want by simp
    then show ?thesis unfolding loop True using assms(1) by (simp add: pack_zero)
  next
    case False
    let ?c = "content m" and ?o = "unat off"
    from pack_piece [of "dst + ?o" "dst_len - off" off m] assms(1) False
    obtain l where l: "ucg_dt_pack chk st off (dst + ?o) (dst_len - off) m =
        Some (UCG_OK, l, write_bytes m (dst + ?o) (take (unat l) (drop ?o ?c)))"
      "unat l \<le> unat (dst_len - off)" "unat l \<le> length ?c - ?o" "l = 0 \<longrightarrow> length ?c \<le> ?o" by auto
    show ?thesis
    proof (cases "l = 0")
      case True
      then show ?thesis unfolding loop l(1) using l(4) by simp
    next
      case l0: False
      define m1 where "m1 = write_bytes m (dst + ?o) (take (unat l) (drop ?o ?c))"
      note u = unat_offset [OF less.prems l(2)]
      have lpos: "0 < unat l" using l0 by (simp add: unat_gt_0)
      have len: "length (take (unat l) (drop ?o ?c)) = unat l" using l(3) by simp
      have c1: "content m1 = ?c"
      proof (rule content_local)
        fix a assume "a \<in> area"
        then have "a \<notin> {dst..<dst + unat dst_len}" using assms(2) by blast
        then have "a < dst + ?o \<or> dst + ?o + unat l \<le> a" using l(2) u(2) less.prems by auto
        then show "m1 a = m a" unfolding m1_def by (intro write_bytes_outside) (simp only: len)
      qed
      have "pack_loop chk st dst dst_len (off + l) m1 =
          Some (UCG_OK, write_bytes m1 (dst + unat (off + l)) (take (unat dst_len - unat (off + l)) (drop (unat (off + l)) ?c)))"
        unfolding c1 [symmetric] by (rule less.hyps) (use u l(2) lpos less.prems in simp_all)
      also have "\<dots> = Some (UCG_OK, write_bytes m (dst + ?o) (take (unat dst_len - ?o) (drop ?o ?c)))"
      proof -
        have "write_bytes m1 (dst + ?o + unat l) (take (unat dst_len - ?o - unat l) (drop (?o + unat l) ?c)) =
            write_bytes m (dst + ?o) (take (unat l) (drop ?o ?c) @ take (unat dst_len - ?o - unat l) (drop (?o + unat l) ?c))"
          unfolding m1_def by (rule write_bytes_append) (simp only: len)
        also have "take (unat l) (drop ?o ?c) @ take (unat dst_len - ?o - unat l) (drop (?o + unat l) ?c) = take (unat dst_len - ?o) (drop ?o ?c)"
          by (rule take_chunk) (use l(2) u(2) in simp)
        finally show ?thesis by (simp add: u(1) add.assoc)
      qed
      finally show ?thesis unfolding loop l(1) using l0 by (simp add: m1_def)
    qed
  qed
qed

end

context unpack_stream
begin

lemma unpack_loop_copies:
  assumes "src \<noteq> C_NULL" and "{src..<src + unat src_len} \<inter> area = {}"
    and "unat off \<le> unat src_len" and "unat off \<le> length (content m)"
  shows "\<exists>m'. unpack_loop chk st src src_len off m = Some (UCG_OK, m') \<and>
    content m' = overwrite (content m) (unat off)
      (take (length (content m) - unat off) (bytes_at m (src + unat off) (unat src_len - unat off))) \<and>
    (\<forall>a. a \<notin> area \<longrightarrow> m' a = m a)"
  using assms(3,4)
proof (induction "unat src_len - unat off" arbitrary: off m rule: less_induct)
  case less
  note loop = unpack_loop.simps [of chk st src src_len off m]
  have want: "unat (src_len - off) = unat src_len - unat off" by (rule unat_offset(2) [of _ _ 0]) (use less.prems in simp_all)
  show ?case
  proof (cases "src_len - off = 0")
    case True
    then have "unat src_len - unat off = 0" using want by simp
    then show ?thesis unfolding loop True using assms(1) by (simp add: unpack_zero bytes_at_def)
  next
    case False
    let ?c = "content m" and ?o = "unat off"
    have dis: "{src + ?o..<src + ?o + unat (src_len - off)} \<inter> area = {}"
    proof -
      have "{src + ?o..<src + ?o + unat (src_len - off)} \<subseteq> {src..<src + unat src_len}" using want less.prems(1) by auto
      then show ?thesis using assms(2) by blast
    qed
    from unpack_piece [OF _ False dis, of off m] assms(1)
    obtain l m1 where l: "ucg_dt_unpack chk st off (src + ?o) (src_len - off) m = Some (UCG_OK, l, m1)"
      "unat l \<le> unat (src_len - off)" "unat l \<le> length ?c - ?o" "l = 0 \<longrightarrow> length ?c \<le> ?o"
      "content m1 = overwrite ?c ?o (bytes_at m (src + ?o) (unat l))" "\<forall>a. a \<notin> area \<longrightarrow> m1 a = m a" by auto
    note u = unat_offset [OF less.prems(1) l(2)]
    show ?thesis
    proof (cases "l = 0")
      case True
      then have "overwrite ?c ?o (take (length ?c - ?o) bs) = ?c" for bs using l(4) by simp
      then show ?thesis unfolding loop l(1) using True l(5,6) by (simp add: bytes_at_def)
    next
      case l0: False
      have lpos: "0 < unat l" using l0 by (simp add: unat_gt_0)
      have len1: "length (content m1) = length ?c" by (simp add: content_length)
      have rest: "bytes_at m1 (src + (?o + unat l)) (unat src_len - (?o + unat l)) =
          bytes_at m (src + (?o + unat l)) (unat src_len - (?o + unat l))"
      proof (rule bytes_at_cong)
        fix a assume "src + (?o + unat l) \<le> a" "a < src + (?o + unat l) + (unat src_len - (?o + unat l))"
        then have "a \<in> {src..<src + unat src_len}" using l(2) want by auto
        then show "m1 a = m a" using assms(2) l(6) by blast
      qed
      let ?o1 = "?o + unat l"
      have "\<exists>m'. unpack_loop chk st src src_len (off + l) m1 = Some (UCG_OK, m') \<and>
          content m' = overwrite (content m1) (unat (off + l)) (take (length (content m1) - unat (off + l))
            (bytes_at m1 (src + unat (off + l)) (unat src_len - unat (off + l)))) \<and> (\<forall>a. a \<notin> area \<longrightarrow> m' a = m1 a)"
        by (rule less.hyps) (use u l(2,3) lpos less.prems in \<open>simp_all add: len1\<close>)
      then obtain m2 where m2: "unpack_loop chk st src src_len (off + l) m1 = Some (UCG_OK, m2)"
        "content m2 = overwrite (content m1) ?o1 (take (length ?c - ?o1) (bytes_at m1 (src + ?o1) (unat src_len - ?o1)))"
        "\<forall>a. a \<notin> area \<longrightarrow> m2 a = m1 a"
        unfolding u(1) len1 by blast
      let ?n = "unat src_len - ?o"
      have "content m2 = overwrite ?c ?o (bytes_at m (src + ?o) (unat l) @
          take (length ?c - ?o1) (bytes_at m (src + ?o1) (unat src_len - ?o1)))"
        unfolding m2(2) l(5) rest
        using overwrite_overwrite [of ?o "bytes_at m (src + ?o) (unat l)" "take (length ?c - ?o1) (bytes_at m (src + ?o1) (unat src_len - ?o1))" ?c] l(3) less.prems(2)
        by simp
      also have "bytes_at m (src + ?o) (unat l) @ take (length ?c - ?o1) (bytes_at m (src + ?o1) (unat src_len - ?o1)) =
          take (length ?c - ?o) (bytes_at m (src + ?o) ?n)"
      proof -
        have n: "min (length ?c - ?o) (unat src_len - ?o) = unat l + min (length ?c - ?o1) (unat src_len - ?o1)"
          using l(2,3) want by (auto simp: min_def)
        show ?thesis unfolding take_bytes_at n bytes_at_append by (simp only: add.assoc)
      qed
      finally have "content m2 = overwrite ?c ?o (take (length ?c - ?o) (bytes_at m (src + ?o) ?n))" .
      then show ?thesis unfolding loop l(1) using l0 m2(1,3) l(6) by simp
    qed
  qed
qed

end

lemma generic_loop_full:
  assumes p: "pack_stream chk pst pc pa" and u: "unpack_stream chk ust uc ua"
    and buf: "buf \<noteq> C_NULL" "buf_len \<noteq> 0" "B = {buf..<buf + unat buf_len}" "B \<inter> pa = {}" "B \<inter> ua = {}"
    and full: "length (uc m) \<le> unat uo"
  shows "\<exists>m'. generic_loop chk pst ust buf buf_len po uo m = Some (UCG_OK, m') \<and>
    uc m' = uc m \<and> (\<forall>a. a \<notin> ua \<union> B \<longrightarrow> m' a = m a)"
proof -
  note loop = generic_loop.simps [of chk pst ust buf buf_len po uo m]
  from pack_stream.pack_piece [OF p buf(1,2), of po m] obtain l where
    l: "ucg_dt_pack chk pst po buf buf_len m = Some (UCG_OK, l, write_bytes m buf (take (unat l) (drop (unat po) (pc m))))"
    "unat l \<le> unat buf_len" "unat l \<le> length (pc m) - unat po" by blast
  define m1 where "m1 = write_bytes m buf (take (unat l) (drop (unat po) (pc m)))"
  have m1: "m1 a = m a" if "a \<notin> B" for a
    using that l(2,3) buf(3) unfolding m1_def by (intro write_bytes_outside) auto
  have c1: "uc m1 = uc m" using m1 buf(5) by (auto intro!: unpack_stream.content_local [OF u])
  show ?thesis
  proof (cases "l = 0")
    case True
    then show ?thesis unfolding loop l(1) by simp
  next
    case False
    have "{buf..<buf + unat l} \<inter> ua = {}" using l(2) buf(3,5) by auto
    from unpack_stream.unpack_piece [OF u buf(1) False this, of uo m1] full obtain k m2 where
      "ucg_dt_unpack chk ust uo buf l m1 = Some (UCG_OK, k, m2)" "unat k = 0"
      "uc m2 = overwrite (uc m) (unat uo) (bytes_at m1 buf (unat k))" "\<forall>a. a \<notin> ua \<longrightarrow> m2 a = m1 a"
      unfolding c1 by auto
    then show ?thesis unfolding loop l(1) m1_def [symmetric] using False m1 by (simp add: unat_eq_0 bytes_at_def)
  qed
qed

lemma len64: "LENGTH(64) = 64" by simp

lemma generic_loop_copies:
  assumes p: "pack_stream chk pst pc pa" and u: "exact_unpack_stream chk ust uc ua"
    and buf: "buf \<noteq> C_NULL" "buf_len \<noteq> 0" "B = {buf..<buf + unat buf_len}" "B \<inter> pa = {}" "B \<inter> ua = {}" "pa \<inter> ua = {}"
    and off: "unat off \<le> length (uc m)" "unat off \<le> length (pc m)"
  shows "\<exists>m'. generic_loop chk pst ust buf buf_len off off m = Some (UCG_OK, m') \<and>
    uc m' = overwrite (uc m) (unat off) (take (length (uc m) - unat off) (drop (unat off) (pc m))) \<and>
    (\<forall>a. a \<notin> ua \<union> B \<longrightarrow> m' a = m a)"
  using off
proof (induction "length (pc m) - unat off" arbitrary: off m rule: less_induct)
  case less
  note u' = exact_unpack_stream.axioms(1) [OF u]
  note loop = generic_loop.simps [of chk pst ust buf buf_len off off m]
  let ?o = "unat off"
  from pack_stream.pack_piece [OF p buf(1,2), of off m] obtain l where
    l: "ucg_dt_pack chk pst off buf buf_len m = Some (UCG_OK, l, write_bytes m buf (take (unat l) (drop ?o (pc m))))"
    "unat l \<le> unat buf_len" "unat l \<le> length (pc m) - ?o" "l = 0 \<longrightarrow> length (pc m) \<le> ?o" by blast
  show ?case
  proof (cases "l = 0")
    case True
    then show ?thesis unfolding loop l(1) using l(4) by simp
  next
    case l0: False
    define piece where "piece = take (unat l) (drop ?o (pc m))"
    define m1 where "m1 = write_bytes m buf piece"
    have len: "length piece = unat l" using l(3) by (simp add: piece_def)
    have lpos: "0 < unat l" using l0 by (simp add: unat_gt_0)
    have m1: "m1 a = m a" if "a \<notin> B" for a
      using that l(2) len buf(3) unfolding m1_def by (intro write_bytes_outside) auto
    have c1: "pc m1 = pc m" "uc m1 = uc m"
      using m1 buf(4,5) by (auto intro!: pack_stream.content_local [OF p] unpack_stream.content_local [OF u'])
    have b1: "bytes_at m1 buf (unat l) = piece" unfolding m1_def using len by simp
    have dis: "{buf..<buf + unat l} \<inter> ua = {}" using l(2) buf(3,5) by auto
    from unpack_stream.unpack_piece [OF u' buf(1) l0 dis, of off m1] obtain k m2 where
      k: "ucg_dt_unpack chk ust off buf l m1 = Some (UCG_OK, k, m2)" "unat k \<le> unat l"
      "k = 0 \<longrightarrow> length (uc m) \<le> ?o" "uc m2 = overwrite (uc m) ?o (bytes_at m1 buf (unat k))" "\<forall>a. a \<notin> ua \<longrightarrow> m2 a = m1 a"
      unfolding c1 by blast
    have kl: "unat k = min (unat l) (length (uc m) - ?o)"
      using exact_unpack_stream.unpack_all [OF u buf(1) l0 k(1)] unfolding c1 .
    have bk: "bytes_at m1 buf (unat k) = take (unat k) piece"
      using take_bytes_at [of "unat k" m1 buf "unat l"] b1 k(2) by (simp add: min_def)
    have c2: "pc m2 = pc m" using k(5) c1(1) buf(6) by (metis pack_stream.content_local [OF p] disjoint_iff)
    have lu: "length (uc m2) = length (uc m)" by (simp add: unpack_stream.content_length [OF u'])
    show ?thesis
    proof (cases "k = 0")
      case True
      then have "length (uc m) = ?o" using k(3) less.prems by simp
      then show ?thesis unfolding loop l(1) piece_def [symmetric] m1_def [symmetric] using k(1,4,5) l0 True m1
        by (simp add: bytes_at_def)
    next
      case k0: False
      show ?thesis
      proof (cases "unat k = unat l")
        case kl': True
        then have kleq: "k = l" by (simp add: word_unat_eq_iff)
        have o1: "unat (off + l) = ?o + unat l"
        proof -
          have "length (pc m) < 2 ^ 64" unfolding pack_stream.content_length [OF p] using unsigned_less [where 'a = nat and 'b = 64] by simp
          then have "?o + unat l < 2 ^ 64" using l(3) less.prems lpos by linarith
          then show ?thesis by (subst unat_add_lem [symmetric]) simp
        qed
        have "\<exists>m'. generic_loop chk pst ust buf buf_len (off + l) (off + l) m2 = Some (UCG_OK, m') \<and>
            uc m' = overwrite (uc m2) (unat (off + l)) (take (length (uc m2) - unat (off + l)) (drop (unat (off + l)) (pc m2))) \<and>
            (\<forall>a. a \<notin> ua \<union> B \<longrightarrow> m' a = m2 a)"
          by (rule less.hyps) (use o1 c2 lu l(3) lpos less.prems kl kl' in simp_all)
        then obtain m3 where m3: "generic_loop chk pst ust buf buf_len (off + l) (off + l) m2 = Some (UCG_OK, m3)"
          "uc m3 = overwrite (uc m2) (?o + unat l) (take (length (uc m) - (?o + unat l)) (drop (?o + unat l) (pc m)))"
          "\<forall>a. a \<notin> ua \<union> B \<longrightarrow> m3 a = m2 a"
          unfolding o1 c2 lu by blast
        have "uc m2 = overwrite (uc m) ?o piece" unfolding k(4) bk using len kl' by simp
        then have "uc m3 = overwrite (uc m) ?o (piece @ take (length (uc m) - (?o + unat l)) (drop (?o + unat l) (pc m)))"
          unfolding m3(2) using overwrite_overwrite [of ?o piece "take (length (uc m) - (?o + unat l)) (drop (?o + unat l) (pc m))" "uc m"]
            kl kl' len less.prems(1) by simp
        also have "piece @ take (length (uc m) - (?o + unat l)) (drop (?o + unat l) (pc m)) =
            take (length (uc m) - ?o) (drop ?o (pc m))"
          unfolding piece_def diff_diff_left [symmetric] by (rule take_chunk) (use kl kl' in simp)
        finally show ?thesis unfolding loop l(1) piece_def [symmetric] m1_def [symmetric]
          using k(1) l0 kleq m3(1,3) k(5) m1 by simp
      next
        case False
        then have kk: "unat k = length (uc m) - ?o" "unat k < unat l" using kl by auto
        have "take (unat k) piece = take (length (uc m) - ?o) (drop ?o (pc m))"
          unfolding piece_def using kk by (simp add: min_def)
        then have um2: "uc m2 = overwrite (uc m) ?o (take (length (uc m) - ?o) (drop ?o (pc m)))" unfolding k(4) bk by simp
        have o1: "unat (off + k) = length (uc m)"
        proof -
          have "?o + unat k = length (uc m)" using kk less.prems(1) by simp
          moreover have "length (uc m) < 2 ^ 64" unfolding unpack_stream.content_length [OF u'] using unsigned_less [where 'a = nat and 'b = 64] by simp
          ultimately show ?thesis by (metis len64 unat_add_lem)
        qed
        from generic_loop_full [OF p u' buf(1-5), of m2 "off + k" "off + l"] o1 lu
        obtain m3 where m3: "generic_loop chk pst ust buf buf_len (off + l) (off + k) m2 = Some (UCG_OK, m3)"
          "uc m3 = uc m2" "\<forall>a. a \<notin> ua \<union> B \<longrightarrow> m3 a = m2 a" by auto
        then show ?thesis unfolding loop l(1) piece_def [symmetric] m1_def [symmetric]
          using k(1) l0 k0 um2 k(5) m1 by simp
      qed
    qed
  qed
qed

subsection \<open>Contiguous datatypes fulfil the contracts\<close>

definition contig_state :: "'s ucg_dt \<Rightarrow> c_int \<Rightarrow> c_ptr \<Rightarrow> 's ucg_dt_state" where
  "contig_state dt cnt buffer = \<lparr>ds_dt = dt, ds_count = cnt, ds_data = Contig buffer\<rparr>"

definition contig_content :: "'s ucg_dt \<Rightarrow> c_mem \<Rightarrow> c_ptr \<Rightarrow> c_int \<Rightarrow> byte list" where
  "contig_content dt m buffer cnt = bytes_at m buffer (unat (dt_length cnt dt))"

definition contig_area :: "'s ucg_dt \<Rightarrow> c_ptr \<Rightarrow> c_int \<Rightarrow> c_ptr set" where
  "contig_area dt buffer cnt = {buffer..<buffer + unat (dt_length cnt dt)}"

lemma contig_length [simp]:
  "length (contig_content dt m buffer cnt) = unat (ucg_dt_packed_size (contig_state dt cnt buffer))"
  by (simp add: contig_content_def contig_state_def ucg_dt_packed_size_def)

lemma contig_local:
  "(\<And>a. a \<in> contig_area dt buffer cnt \<Longrightarrow> m a = m' a) \<Longrightarrow> contig_content dt m buffer cnt = contig_content dt m' buffer cnt"
  unfolding contig_content_def contig_area_def by (rule bytes_at_cong) simp

text \<open>How much a contiguous state moves.\<close>

lemma contig_move:
  fixes total off want :: u64
  assumes "\<not> total \<le> off" and "want \<noteq> 0" and "l = (if total - off < want then total - off else want)"
  shows "unat l = min (unat want) (unat total - unat off)" and "l \<noteq> 0" and "unat off + unat l \<le> unat total"
proof -
  have "unat (total - off) = unat total - unat off" using assms(1) by (simp add: unat_sub)
  then show l: "unat l = min (unat want) (unat total - unat off)" using assms(3) by (simp add: unat_min_word min.commute)
  have o: "unat off < unat total" using assms(1) by (simp add: word_le_nat_alt)
  have "0 < unat want" using assms(2) by (simp add: unat_gt_0)
  then have "0 < unat l" using l o by simp
  then show "l \<noteq> 0" by (simp add: unat_gt_0)
  show "unat off + unat l \<le> unat total" using l o by simp
qed

lemma contig_piece:
  "unat off + n \<le> unat (dt_length cnt dt) \<Longrightarrow>
   take n (drop (unat off) (contig_content dt m buffer cnt)) = bytes_at m (buffer + unat off) n"
  by (simp add: contig_content_def drop_bytes_at take_bytes_at min_absorb1)

interpretation contig_pack: pack_stream chk "contig_state dt cnt buffer"
    "\<lambda>m. contig_content dt m buffer cnt" "contig_area dt buffer cnt" for chk dt cnt buffer
proof (unfold_locales, goal_cases)
  case (1 m) show ?case by simp
next
  case (2 m m') then show ?case by (rule contig_local)
next
  case (3 dst want off m)
  let ?t = "dt_length cnt dt"
  have act: "ucg_dt_pack chk (contig_state dt cnt buffer) off dst want m =
      Some (if ?t \<le> off then (UCG_OK, 0, m)
            else let l = (if ?t - off < want then ?t - off else want)
                 in (UCG_OK, l, memcpy m dst (buffer + unat off) (unat l)))"
    using 3 by (simp add: ucg_dt_pack_def dt_state_action_def contig_state_def ucg_dt_pack_contiguous_def Let_def)
  show ?case
  proof (cases "?t \<le> off")
    case True
    then show ?thesis unfolding act by (simp add: ucg_dt_packed_size_def contig_state_def word_le_nat_alt)
  next
    case False
    define l where "l = (if ?t - off < want then ?t - off else want)"
    note c = contig_move [OF False 3(2) l_def]
    show ?thesis unfolding act using False c
      by (intro exI [of _ l]) (simp add: l_def [symmetric] Let_def memcpy_def contig_piece ucg_dt_packed_size_def contig_state_def)
  qed
qed

interpretation contig_unpack: exact_unpack_stream chk "contig_state dt cnt buffer"
    "\<lambda>m. contig_content dt m buffer cnt" "contig_area dt buffer cnt" for chk dt cnt buffer
proof -
  let ?t = "dt_length cnt dt"
  have act: "ucg_dt_unpack chk (contig_state dt cnt buffer) off src want m =
      Some (if ?t \<le> off then (UCG_OK, 0, m)
            else let l = (if ?t - off < want then ?t - off else want)
                 in (UCG_OK, l, memcpy m (buffer + unat off) src (unat l)))"
    if "src \<noteq> C_NULL" "want \<noteq> 0" for off src want m
    using that by (simp add: ucg_dt_unpack_def dt_state_action_def contig_state_def ucg_dt_unpack_contiguous_def Let_def)
  show "exact_unpack_stream chk (contig_state dt cnt buffer) (\<lambda>m. contig_content dt m buffer cnt) (contig_area dt buffer cnt)"
  proof (unfold_locales, goal_cases)
    case (1 m) show ?case by simp
  next
    case (2 m m') then show ?case by (rule contig_local)
  next
    case (3 src want off m)
    note a = act [OF 3(1,2), of off m]
    show ?case
    proof (cases "?t \<le> off")
      case True
      then show ?thesis unfolding a
        by (auto simp: ucg_dt_packed_size_def contig_state_def word_le_nat_alt bytes_at_def)
    next
      case False
      define l where "l = (if ?t - off < want then ?t - off else want)"
      note c = contig_move [OF False 3(2) l_def]
      have "contig_content dt (memcpy m (buffer + unat off) src (unat l)) buffer cnt =
          overwrite (contig_content dt m buffer cnt) (unat off) (bytes_at m src (unat l))"
        unfolding memcpy_def contig_content_def by (rule bytes_at_overwrite) (use c in simp)
      moreover have "memcpy m (buffer + unat off) src (unat l) x = m x" if "x \<notin> contig_area dt buffer cnt" for x
        unfolding memcpy_def by (rule write_bytes_outside) (use that c(3) in \<open>auto simp: contig_area_def\<close>)
      ultimately show ?thesis unfolding a using False c
        by (intro exI [of _ l] exI [of _ "memcpy m (buffer + unat off) src (unat l)"])
          (simp add: l_def [symmetric] Let_def ucg_dt_packed_size_def contig_state_def)
    qed
  next
    case (4 src want off m l m')
    then show ?case using act [OF 4(1,2), of off m] contig_move [of ?t off want l]
      by (auto simp: Let_def ucg_dt_packed_size_def contig_state_def word_le_nat_alt split: if_splits)
  qed
qed

end
