(* ===== verification/Dt_Copy.thy ===== *)
theory Dt_Copy
  imports Dt_Spec
begin

text \<open>
  \<open>ucg_dt_memcpy\<close> between typed buffers, through the contracts of \<open>Dt_Spec\<close>: what it copies, which blocks it
  leaves behind, and what happens with an unpacker that stops at element boundaries.
\<close>

type_synonym dt_content = "c_mem \<Rightarrow> c_ptr \<Rightarrow> c_int \<Rightarrow> byte list"
type_synonym dt_area = "c_ptr \<Rightarrow> c_int \<Rightarrow> c_ptr set"

text \<open>
  A datatype with its layout: contiguous, or with a convertor that keeps the contracts whenever it starts.  An unpacker may
  take less than it is offered, it says how much it took; one that \<^emph>\<open>takes all\<close> stops only where its buffer ends.
\<close>

definition generic_state :: "'s ucg_dt \<Rightarrow> c_int \<Rightarrow> 's \<Rightarrow> 's ucg_dt_state" where
  "generic_state dt cnt s = \<lparr>ds_dt = dt, ds_count = cnt, ds_data = Generic s\<rparr>"

definition convertor_ok :: "bool \<Rightarrow> 's ucg_dt \<Rightarrow> 's ucg_dt_convertor \<Rightarrow> dt_content \<Rightarrow> dt_area \<Rightarrow> bool" where
  "convertor_ok chk dt cv content area \<longleftrightarrow>
     (\<forall>buf cnt s. cv_start_pack cv buf (dt_user_dt dt) cnt = Some s \<longrightarrow>
        pack_stream chk (generic_state dt cnt s) (\<lambda>m. content m buf cnt) (area buf cnt)) \<and>
     (\<forall>buf cnt s. cv_start_unpack cv buf (dt_user_dt dt) cnt = Some s \<longrightarrow>
        unpack_stream chk (generic_state dt cnt s) (\<lambda>m. content m buf cnt) (area buf cnt)) \<and>
     (\<forall>s m. cv_finish cv s m = m)"

definition takes_all :: "bool \<Rightarrow> 's ucg_dt \<Rightarrow> dt_content \<Rightarrow> dt_area \<Rightarrow> bool" where
  "takes_all chk dt content area \<longleftrightarrow>
     (\<forall>cv buf cnt s. dt_conv dt = Some cv \<longrightarrow> cv_start_unpack cv buf (dt_user_dt dt) cnt = Some s \<longrightarrow>
        exact_unpack_stream chk (generic_state dt cnt s) (\<lambda>m. content m buf cnt) (area buf cnt))"

definition typed_ok :: "bool \<Rightarrow> 's ucg_dt \<Rightarrow> dt_content \<Rightarrow> dt_area \<Rightarrow> bool" where
  "typed_ok chk dt content area \<longleftrightarrow>
     (if ucg_dt_is_contiguous dt then content = contig_content dt \<and> area = contig_area dt
      else (\<exists>cv. dt_conv dt = Some cv \<and> convertor_ok chk dt cv content area))"

text \<open>What a copy does, up to its status: the destination takes as much of the source as fits.\<close>

definition copied :: "dt_content \<Rightarrow> dt_area \<Rightarrow> c_ptr set \<Rightarrow> byte list \<Rightarrow> c_ptr \<Rightarrow> c_int \<Rightarrow> c_mem \<Rightarrow> c_mem \<Rightarrow> bool" where
  "copied content area scratch bytes dst dcount m m' \<longleftrightarrow>
     content m' dst dcount = overwrite (content m dst dcount) 0 (take (length (content m dst dcount)) bytes) \<and>
     (\<forall>a. a \<notin> area dst dcount \<union> scratch \<longrightarrow> m' a = m a)"

definition copy_status :: "c_int \<Rightarrow> 's ucg_dt \<Rightarrow> c_int \<Rightarrow> 's ucg_dt \<Rightarrow> ucg_status" where
  "copy_status dcount dst_dt scount src_dt =
     (if dt_length scount src_dt \<le> dt_length dcount dst_dt then UCG_OK else UCG_ERR_TRUNCATE)"

lemma contig_packed_size [simp]: "ucg_dt_packed_size (contig_state dt cnt b) = dt_length cnt dt"
  by (simp add: ucg_dt_packed_size_def contig_state_def)

lemma contig_content_length [simp]: "length (contig_content dt m b c) = unat (dt_length c dt)"
  by (simp add: contig_content_def)

lemma write_copied:
  assumes "m' = write_bytes m dst (take (unat (dt_length dcount dst_dt)) bytes)"
  shows "copied (contig_content dst_dt) (contig_area dst_dt) B bytes dst dcount m m'"
proof -
  let ?n = "unat (dt_length dcount dst_dt)"
  have "bytes_at m' dst ?n = overwrite (bytes_at m dst ?n) 0 (take ?n bytes)"
    using bytes_at_overwrite [of 0 "take ?n bytes" ?n m dst] by (simp add: assms)
  moreover have "m' a = m a" if "a \<notin> contig_area dst_dt dst dcount" for a
    unfolding assms by (rule write_bytes_outside) (use that in \<open>auto simp: contig_area_def\<close>)
  ultimately show ?thesis by (simp add: copied_def contig_content_def)
qed

lemma memcpy_contiguous_copies:
  "\<exists>m'. ucg_dt_memcpy_contiguous dst dcount dst_dt src scount src_dt m = (copy_status dcount dst_dt scount src_dt, m') \<and>
     copied (contig_content dst_dt) (contig_area dst_dt) B (contig_content src_dt m src scount) dst dcount m m'"
proof -
  let ?d = "unat (dt_length dcount dst_dt)" and ?s = "unat (dt_length scount src_dt)"
  have "take ?d (contig_content src_dt m src scount) = bytes_at m src (min ?d ?s)"
    by (simp add: contig_content_def take_bytes_at)
  then have "copied (contig_content dst_dt) (contig_area dst_dt) B (contig_content src_dt m src scount) dst dcount m (memcpy m dst src (min ?d ?s))"
    by (intro write_copied) (simp add: memcpy_def)
  then show ?thesis
    by (auto simp: ucg_dt_memcpy_contiguous_def Let_def copy_status_def word_le_nat_alt min_def split: if_splits)
qed

text \<open>Starting a state: it takes a block or fails with none taken.\<close>

lemma start_pack_generic:
  assumes "typed_ok chk dt content area" and "\<not> ucg_dt_is_contiguous dt" and "buffer \<noteq> C_NULL"
  shows "\<exists>r h'. ucg_dt_start_pack chk buffer dt cnt h = Some (r, h') \<and>
    (case r of None \<Rightarrow> h_live h' = h_live h
     | Some st \<Rightarrow> h_live h' = h_live h + 1 \<and> pack_stream chk st (\<lambda>m. content m buffer cnt) (area buffer cnt) \<and>
         (\<forall>m h. ucg_dt_finish st m h = Some (m, heap_free h)))"
proof -
  from assms(1,2) obtain cv where cv: "dt_conv dt = Some cv" "convertor_ok chk dt cv content area" by (auto simp: typed_ok_def)
  obtain ok h1 where a: "heap_alloc h = (ok, h1)" by fastforce
  note l = heap_alloc_live [OF a]
  show ?thesis
  proof (cases ok)
    case True
    show ?thesis
    proof (cases "cv_start_pack cv buffer (dt_user_dt dt) cnt")
      case None
      then show ?thesis using assms(2,3) a True l by (auto simp: ucg_dt_start_pack_def dt_state_init_def cv)
    next
      case (Some s)
      then have "pack_stream chk (generic_state dt cnt s) (\<lambda>m. content m buffer cnt) (area buffer cnt)"
        "\<And>m h. ucg_dt_finish (generic_state dt cnt s) m h = Some (m, heap_free h)"
        using cv by (simp_all add: convertor_ok_def ucg_dt_finish_def generic_state_def)
      moreover have "ucg_dt_start_pack chk buffer dt cnt h = Some (Some (generic_state dt cnt s), h1)"
        using assms(2,3) a True Some by (simp add: ucg_dt_start_pack_def dt_state_init_def cv generic_state_def)
      ultimately show ?thesis using l True by simp
    qed
  qed (use assms(2,3) a l in \<open>simp add: ucg_dt_start_pack_def dt_state_init_def\<close>)
qed

lemma start_unpack_generic:
  assumes "typed_ok chk dt content area" and "\<not> ucg_dt_is_contiguous dt" and "buffer \<noteq> C_NULL"
  shows "\<exists>r h'. ucg_dt_start_unpack chk buffer dt cnt h = Some (r, h') \<and>
    (case r of None \<Rightarrow> h_live h' = h_live h
     | Some st \<Rightarrow> h_live h' = h_live h + 1 \<and> unpack_stream chk st (\<lambda>m. content m buffer cnt) (area buffer cnt) \<and>
         (takes_all chk dt content area \<longrightarrow> exact_unpack_stream chk st (\<lambda>m. content m buffer cnt) (area buffer cnt)) \<and>
         (\<forall>m h. ucg_dt_finish st m h = Some (m, heap_free h)))"
proof -
  from assms(1,2) obtain cv where cv: "dt_conv dt = Some cv" "convertor_ok chk dt cv content area" by (auto simp: typed_ok_def)
  obtain ok h1 where a: "heap_alloc h = (ok, h1)" by fastforce
  note l = heap_alloc_live [OF a]
  show ?thesis
  proof (cases ok)
    case True
    show ?thesis
    proof (cases "cv_start_unpack cv buffer (dt_user_dt dt) cnt")
      case None
      then show ?thesis using assms(2,3) a True l by (auto simp: ucg_dt_start_unpack_def dt_state_init_def cv)
    next
      case (Some s)
      then have "unpack_stream chk (generic_state dt cnt s) (\<lambda>m. content m buffer cnt) (area buffer cnt)"
        "takes_all chk dt content area \<longrightarrow> exact_unpack_stream chk (generic_state dt cnt s) (\<lambda>m. content m buffer cnt) (area buffer cnt)"
        "\<And>m h. ucg_dt_finish (generic_state dt cnt s) m h = Some (m, heap_free h)"
        using cv by (simp_all add: convertor_ok_def takes_all_def ucg_dt_finish_def generic_state_def)
      moreover have "ucg_dt_start_unpack chk buffer dt cnt h = Some (Some (generic_state dt cnt s), h1)"
        using assms(2,3) a True Some by (simp add: ucg_dt_start_unpack_def dt_state_init_def cv generic_state_def)
      ultimately show ?thesis using l True by simp
    qed
  qed (use assms(2,3) a l in \<open>simp add: ucg_dt_start_unpack_def dt_state_init_def\<close>)
qed

text \<open>The result of a variant: a failure to start changes nothing, otherwise the copy is made.\<close>

definition copy_result ::
    "dt_content \<Rightarrow> dt_area \<Rightarrow> c_ptr set \<Rightarrow> byte list \<Rightarrow> ucg_status \<Rightarrow> int \<Rightarrow> c_ptr \<Rightarrow> c_int \<Rightarrow> c_mem \<Rightarrow> ucg_heap \<Rightarrow>
     (ucg_status \<times> c_mem \<times> ucg_heap) option \<Rightarrow> bool" where
  "copy_result content area scratch bytes ok leak dst dcount m h r \<longleftrightarrow>
     (case r of None \<Rightarrow> False
      | Some (st, m', h') \<Rightarrow> h_live h' = h_live h + leak \<and>
          (st = UCG_ERR_NO_RESOURCE \<and> m' = m \<or> st = ok \<and> copied content area scratch bytes dst dcount m m'))"

lemma memcpy_pack_copies:
  assumes "typed_ok chk src_dt sc sa" and "\<not> ucg_dt_is_contiguous src_dt" and "ucg_dt_is_contiguous dst_dt"
    and "src \<noteq> C_NULL" and "dst \<noteq> C_NULL" and "contig_area dst_dt dst dcount \<inter> sa src scount = {}"
  shows "copy_result (contig_content dst_dt) (contig_area dst_dt) B (sc m src scount) (copy_status dcount dst_dt scount src_dt) 0
    dst dcount m h (ucg_dt_memcpy_pack chk dst dcount dst_dt src scount src_dt m h)"
proof -
  from start_pack_generic [OF assms(1,2,4), of scount h] obtain r h1 where
    s: "ucg_dt_start_pack chk src src_dt scount h = Some (r, h1)" and
    c: "case r of None \<Rightarrow> h_live h1 = h_live h
     | Some st \<Rightarrow> h_live h1 = h_live h + 1 \<and> pack_stream chk st (\<lambda>m. sc m src scount) (sa src scount) \<and>
         (\<forall>m h. ucg_dt_finish st m h = Some (m, heap_free h))" by blast
  show ?thesis
  proof (cases r)
    case None
    then show ?thesis using s c by (simp add: copy_result_def ucg_dt_memcpy_pack_def)
  next
    case (Some st)
    with c have p: "pack_stream chk st (\<lambda>m. sc m src scount) (sa src scount)" "h_live h1 = h_live h + 1"
      and f: "\<And>m h. ucg_dt_finish st m h = Some (m, heap_free h)" by auto
    define m1 where "m1 = write_bytes m dst (take (unat (dt_length dcount dst_dt)) (sc m src scount))"
    have "pack_loop chk st dst (dt_length dcount dst_dt) 0 m = Some (UCG_OK, m1)"
      using pack_stream.pack_loop_copies [OF p(1) assms(5), of "dt_length dcount dst_dt" 0 m] assms(6)
      by (simp add: contig_area_def m1_def)
    then show ?thesis using s Some f p(2) write_copied [OF m1_def]
      by (simp add: copy_result_def ucg_dt_memcpy_pack_def copy_status_def Let_def)
  qed
qed

lemma memcpy_unpack_copies:
  assumes "typed_ok chk dst_dt dc da" and "\<not> ucg_dt_is_contiguous dst_dt" and "ucg_dt_is_contiguous src_dt"
    and "src \<noteq> C_NULL" and "dst \<noteq> C_NULL" and "da dst dcount \<inter> contig_area src_dt src scount = {}"
  shows "copy_result dc da B (contig_content src_dt m src scount) (copy_status dcount dst_dt scount src_dt) 0
    dst dcount m h (ucg_dt_memcpy_unpack chk dst dcount dst_dt src scount src_dt m h)"
proof -
  from start_unpack_generic [OF assms(1,2,5), of dcount h] obtain r h1 where
    s: "ucg_dt_start_unpack chk dst dst_dt dcount h = Some (r, h1)" and
    c: "case r of None \<Rightarrow> h_live h1 = h_live h
     | Some st \<Rightarrow> h_live h1 = h_live h + 1 \<and> unpack_stream chk st (\<lambda>m. dc m dst dcount) (da dst dcount) \<and>
         (takes_all chk dst_dt dc da \<longrightarrow> exact_unpack_stream chk st (\<lambda>m. dc m dst dcount) (da dst dcount)) \<and>
         (\<forall>m h. ucg_dt_finish st m h = Some (m, heap_free h))" by blast
  show ?thesis
  proof (cases r)
    case None
    then show ?thesis using s c by (simp add: copy_result_def ucg_dt_memcpy_unpack_def)
  next
    case (Some st)
    with c have u: "unpack_stream chk st (\<lambda>m. dc m dst dcount) (da dst dcount)" "h_live h1 = h_live h + 1"
      and f: "\<And>m h. ucg_dt_finish st m h = Some (m, heap_free h)" by auto
    from unpack_stream.unpack_loop_copies [OF u(1) assms(4), of "dt_length scount src_dt" 0 m] assms(6) obtain m1 where
      "unpack_loop chk st src (dt_length scount src_dt) 0 m = Some (UCG_OK, m1)"
      "dc m1 dst dcount = overwrite (dc m dst dcount) 0 (take (length (dc m dst dcount)) (contig_content src_dt m src scount))"
      "\<forall>a. a \<notin> da dst dcount \<longrightarrow> m1 a = m a"
      by (auto simp: contig_area_def contig_content_def Int_commute)
    then show ?thesis using s Some f u(2)
      by (simp add: copy_result_def ucg_dt_memcpy_unpack_def copy_status_def Let_def copied_def)
  qed
qed

lemma memcpy_generic_copies:
  assumes "typed_ok chk src_dt sc sa" and "\<not> ucg_dt_is_contiguous src_dt"
    and "typed_ok chk dst_dt dc da" and "\<not> ucg_dt_is_contiguous dst_dt"
    and "src \<noteq> C_NULL" and "dst \<noteq> C_NULL" and "buf \<noteq> C_NULL" and "sa src scount \<inter> da dst dcount = {}"
    and all: "takes_all chk dst_dt dc da" and B: "B = {buf..<buf + 16384}" and "B \<inter> (sa src scount \<union> da dst dcount) = {}"
  shows "fst (heap_alloc h) \<Longrightarrow>
    copy_result dc da B (sc m src scount) (copy_status dcount dst_dt scount src_dt) 1
      dst dcount m h (ucg_dt_memcpy_generic chk buf dst dcount dst_dt src scount src_dt m h)"
    and "\<not> fst (heap_alloc h) \<Longrightarrow>
    ucg_dt_memcpy_generic chk buf dst dcount dst_dt src scount src_dt m h = Some (UCG_ERR_NO_MEMORY, m, snd (heap_alloc h))"
proof -
  obtain ok h0 where a: "heap_alloc h = (ok, h0)" by fastforce
  show "\<not> fst (heap_alloc h) \<Longrightarrow>
    ucg_dt_memcpy_generic chk buf dst dcount dst_dt src scount src_dt m h = Some (UCG_ERR_NO_MEMORY, m, snd (heap_alloc h))"
    using a by (simp add: ucg_dt_memcpy_generic_def)
  assume "fst (heap_alloc h)"
  then have ok: "heap_alloc h = (True, h0)" and l0: "h_live h0 = h_live h + 1" using a heap_alloc_live [OF a] by simp_all
  from start_pack_generic [OF assms(1,2,5), of scount h0] obtain r h1 where
    s: "ucg_dt_start_pack chk src src_dt scount h0 = Some (r, h1)" and
    c: "case r of None \<Rightarrow> h_live h1 = h_live h0
     | Some st \<Rightarrow> h_live h1 = h_live h0 + 1 \<and> pack_stream chk st (\<lambda>m. sc m src scount) (sa src scount) \<and>
         (\<forall>m h. ucg_dt_finish st m h = Some (m, heap_free h))" by blast
  show "copy_result dc da B (sc m src scount) (copy_status dcount dst_dt scount src_dt) 1
      dst dcount m h (ucg_dt_memcpy_generic chk buf dst dcount dst_dt src scount src_dt m h)"
  proof (cases r)
    case None
    then show ?thesis using ok l0 s c by (simp add: copy_result_def ucg_dt_memcpy_generic_def)
  next
    case (Some pst)
    with c have p: "pack_stream chk pst (\<lambda>m. sc m src scount) (sa src scount)" "h_live h1 = h_live h0 + 1"
      and pf: "\<And>m h. ucg_dt_finish pst m h = Some (m, heap_free h)" by auto
    from start_unpack_generic [OF assms(3,4,6), of dcount h1] obtain r' h2 where
      s': "ucg_dt_start_unpack chk dst dst_dt dcount h1 = Some (r', h2)" and
      c': "case r' of None \<Rightarrow> h_live h2 = h_live h1
     | Some st \<Rightarrow> h_live h2 = h_live h1 + 1 \<and> unpack_stream chk st (\<lambda>m. dc m dst dcount) (da dst dcount) \<and>
         (takes_all chk dst_dt dc da \<longrightarrow> exact_unpack_stream chk st (\<lambda>m. dc m dst dcount) (da dst dcount)) \<and>
         (\<forall>m h. ucg_dt_finish st m h = Some (m, heap_free h))" by blast
    show ?thesis
    proof (cases r')
      case None
      then show ?thesis using ok l0 s Some pf s' c' p(2) by (simp add: copy_result_def ucg_dt_memcpy_generic_def)
    next
      case (Some ust)
      with c' all have u: "exact_unpack_stream chk ust (\<lambda>m. dc m dst dcount) (da dst dcount)" "h_live h2 = h_live h1 + 1"
        and uf: "\<And>m h. ucg_dt_finish ust m h = Some (m, heap_free h)" by auto
      have n: "unat (push_bit 10 16 :: u64) = 16384" "(push_bit 10 16 :: u64) \<noteq> 0" by simp_all
      from generic_loop_copies [OF p(1) u(1) assms(7) n(2), of B 0 m] assms(8,11) n(1) B obtain m1 where
        "generic_loop chk pst ust buf (push_bit 10 16) 0 0 m = Some (UCG_OK, m1)"
        "dc m1 dst dcount = overwrite (dc m dst dcount) 0 (take (length (dc m dst dcount)) (sc m src scount))"
        "\<forall>a. a \<notin> da dst dcount \<union> B \<longrightarrow> m1 a = m a"
        by (auto simp: Int_Un_distrib)
      then show ?thesis using ok l0 s \<open>r = Some pst\<close> s' Some pf uf p(2) u(2)
        by (simp add: copy_result_def ucg_dt_memcpy_generic_def copy_status_def copied_def)
    qed
  qed
qed

text \<open>
  C9: a copy between two datatypes whose convertors keep the documented contract always returns, and unless memory runs out,
  the destination then holds as many bytes of the packed source as fit, nothing else changes but the scratch buffer, and the
  status says whether all of them fitted.  The contract lets an unpacker take less than it is offered; only when neither
  datatype is contiguous the one of the destination has to take everything, and \<open>memcpy_generic_drops_bytes\<close> shows that
  this is necessary.
\<close>

theorem dt_memcpy_copies:
  assumes "typed_ok chk src_dt sc sa" and "typed_ok chk dst_dt dc da"
    and "src \<noteq> C_NULL" and "dst \<noteq> C_NULL" and "buf \<noteq> C_NULL" and "dcount \<noteq> 0" and "dt_size dst_dt \<noteq> 0"
    and "sa src scount \<inter> da dst dcount = {}"
    and "B = {buf..<buf + 16384}" and "B \<inter> (sa src scount \<union> da dst dcount) = {}"
    and "gen \<longleftrightarrow> \<not> ucg_dt_is_contiguous src_dt \<and> \<not> ucg_dt_is_contiguous dst_dt"
    and "gen \<Longrightarrow> takes_all chk dst_dt dc da"
  shows "if gen \<and> \<not> fst (heap_alloc h)
    then ucg_dt_memcpy chk buf dst dcount dst_dt src scount src_dt m h = Some (UCG_ERR_NO_MEMORY, m, snd (heap_alloc h))
    else copy_result dc da B (sc m src scount) (copy_status dcount dst_dt scount src_dt) (if gen then 1 else 0)
           dst dcount m h (ucg_dt_memcpy chk buf dst dcount dst_dt src scount src_dt m h)"
proof -
  have go: "ucg_dt_memcpy chk buf dst dcount dst_dt src scount src_dt m h =
      (if ucg_dt_is_contiguous src_dt \<and> ucg_dt_is_contiguous dst_dt
       then case ucg_dt_memcpy_contiguous dst dcount dst_dt src scount src_dt m of (status, m) \<Rightarrow> Some (status, m, h)
       else if \<not> ucg_dt_is_contiguous src_dt \<and> ucg_dt_is_contiguous dst_dt
       then ucg_dt_memcpy_pack chk dst dcount dst_dt src scount src_dt m h
       else if ucg_dt_is_contiguous src_dt then ucg_dt_memcpy_unpack chk dst dcount dst_dt src scount src_dt m h
       else ucg_dt_memcpy_generic chk buf dst dcount dst_dt src scount src_dt m h)"
    using assms(6,7) by (simp add: ucg_dt_memcpy_def)
  have cs: "ucg_dt_is_contiguous src_dt \<Longrightarrow> sc = contig_content src_dt \<and> sa = contig_area src_dt"
    and cd: "ucg_dt_is_contiguous dst_dt \<Longrightarrow> dc = contig_content dst_dt \<and> da = contig_area dst_dt"
    using assms(1,2) by (simp_all add: typed_ok_def)
  consider (cc) "ucg_dt_is_contiguous src_dt" "ucg_dt_is_contiguous dst_dt"
    | (pk) "\<not> ucg_dt_is_contiguous src_dt" "ucg_dt_is_contiguous dst_dt"
    | (up) "ucg_dt_is_contiguous src_dt" "\<not> ucg_dt_is_contiguous dst_dt"
    | (ge) "\<not> ucg_dt_is_contiguous src_dt" "\<not> ucg_dt_is_contiguous dst_dt" by blast
  then show ?thesis
  proof cases
    case cc
    from memcpy_contiguous_copies [of dst dcount dst_dt src scount src_dt m B] show ?thesis
      using cc cs cd assms(11) by (auto simp: go copy_result_def)
  next
    case pk
    then show ?thesis using memcpy_pack_copies [OF assms(1) pk assms(3,4), where B = B and h = h and m = m and dcount = dcount] cd assms(8,11)
      by (simp add: go Int_commute)
  next
    case up
    then show ?thesis using memcpy_unpack_copies [OF assms(2) up(2,1) assms(3,4), where B = B and h = h and m = m and dcount = dcount] cs assms(8,11)
      by (simp add: go Int_commute)
  next
    case ge
    then show ?thesis using memcpy_generic_copies [OF assms(1) ge(1) assms(2) ge(2) assms(3-5,8) assms(12) assms(9,10), of h m] assms(11)
      by (simp add: go)
  qed
qed

subsection \<open>A convertor to try it on\<close>

text \<open>
  The user's objects are flat, and the state is their address and length.  The unpacker takes at most
  \<open>step\<close> bytes in a call; with \<open>step = 0\<close>, all of them.
\<close>

definition flat_move :: "nat \<Rightarrow> bool \<Rightarrow> c_ptr \<times> u64 \<Rightarrow> u64 \<Rightarrow> c_ptr \<Rightarrow> u64 \<Rightarrow> c_mem \<Rightarrow> ucg_status \<times> u64 \<times> c_mem" where
  "flat_move step out s off buf want m =
     (case s of (b, len) \<Rightarrow>
        if len \<le> off then (UCG_OK, 0, m)
        else let l = (if len - off < want then len - off else want);
                 l = (if step \<noteq> 0 \<and> step < unat l then of_nat step else l)
             in (UCG_OK, l, if out then memcpy m buf (b + unat off) (unat l) else memcpy m (b + unat off) buf (unat l)))"

definition flat_conv :: "nat \<Rightarrow> u64 \<Rightarrow> (c_ptr \<times> u64) ucg_dt_convertor" where
  "flat_conv step sz =
     \<lparr>cv_start_pack = (\<lambda>b dt cnt. Some (b, word_of_int cnt * sz)), cv_pack = flat_move 0 True,
      cv_start_unpack = (\<lambda>b dt cnt. Some (b, word_of_int cnt * sz)), cv_unpack = flat_move step False,
      cv_finish = (\<lambda>s m. m)\<rparr>"

definition flat_dt :: "nat \<Rightarrow> (c_ptr \<times> u64) ucg_dt" where
  "flat_dt step =
     \<lparr>dt_type = UCG_DT_TYPE_USER, dt_flags = 0, dt_size = 2, dt_extent = 4, dt_true_lb = 0, dt_true_extent = 4,
      dt_opaque = \<lparr>oq_obj = 0, oq_destroy = C_NULL\<rparr>, dt_user_dt = 7, dt_conv = Some (flat_conv step 2)\<rparr>"

lemma flat_not_contiguous [simp]: "\<not> ucg_dt_is_contiguous (flat_dt step)"
  by (simp add: flat_dt_def ucg_dt_is_contiguous_def)

lemma dt_size_flat: "dt_size (flat_dt step) = 2"
  by (simp add: flat_dt_def)

lemma flat_dt_conv [simp]: "dt_conv (flat_dt step) = Some (flat_conv step 2)"
  by (simp add: flat_dt_def)

lemma flat_pack_eq:
  "ucg_dt_pack chk (generic_state (flat_dt step) cnt (b, word_of_int cnt * 2)) = ucg_dt_pack chk (contig_state (flat_dt step) cnt b)"
  by (intro ext) (simp add: ucg_dt_pack_def dt_state_action_def generic_state_def contig_state_def flat_dt_def flat_conv_def
      flat_move_def dt_length_def ucg_dt_pack_contiguous_def Let_def)

lemma flat_unpack_eq:
  "ucg_dt_unpack chk (generic_state (flat_dt 0) cnt (b, word_of_int cnt * 2)) = ucg_dt_unpack chk (contig_state (flat_dt 0) cnt b)"
  by (intro ext) (simp add: ucg_dt_unpack_def dt_state_action_def generic_state_def contig_state_def flat_dt_def flat_conv_def
      flat_move_def dt_length_def ucg_dt_unpack_contiguous_def Let_def)

lemma flat_packed_size:
  "ucg_dt_packed_size (generic_state (flat_dt step) cnt s) = ucg_dt_packed_size (contig_state (flat_dt step) cnt b)"
  by (simp add: ucg_dt_packed_size_def generic_state_def contig_state_def)

lemma pack_stream_cong:
  "ucg_dt_pack chk st = ucg_dt_pack chk st' \<Longrightarrow> ucg_dt_packed_size st = ucg_dt_packed_size st' \<Longrightarrow>
   pack_stream chk st c a \<longleftrightarrow> pack_stream chk st' c a"
  by (simp add: pack_stream_def)

lemma exact_unpack_stream_cong:
  "ucg_dt_unpack chk st = ucg_dt_unpack chk st' \<Longrightarrow> ucg_dt_packed_size st = ucg_dt_packed_size st' \<Longrightarrow>
   exact_unpack_stream chk st c a \<longleftrightarrow> exact_unpack_stream chk st' c a"
  by (simp add: exact_unpack_stream_def exact_unpack_stream_axioms_def unpack_stream_def)

lemma flat_typed_ok:
  "typed_ok chk (flat_dt 0) (contig_content (flat_dt 0)) (contig_area (flat_dt 0))"
  "takes_all chk (flat_dt 0) (contig_content (flat_dt 0)) (contig_area (flat_dt 0))"
proof -
  let ?c = "\<lambda>buf cnt m. contig_content (flat_dt 0) m buf cnt" and ?a = "contig_area (flat_dt 0)"
  have "pack_stream chk (generic_state (flat_dt 0) cnt (b, word_of_int cnt * 2)) (?c b cnt) (?a b cnt)" for b cnt
    by (rule pack_stream_cong [OF flat_pack_eq flat_packed_size, THEN iffD2]) (rule contig_pack.pack_stream_axioms)
  moreover have "exact_unpack_stream chk (generic_state (flat_dt 0) cnt (b, word_of_int cnt * 2)) (?c b cnt) (?a b cnt)" for b cnt
    by (rule exact_unpack_stream_cong [OF flat_unpack_eq flat_packed_size, THEN iffD2]) (rule contig_unpack.exact_unpack_stream_axioms)
  ultimately show "typed_ok chk (flat_dt 0) (contig_content (flat_dt 0)) (contig_area (flat_dt 0))"
    and "takes_all chk (flat_dt 0) (contig_content (flat_dt 0)) (contig_area (flat_dt 0))"
    by (auto simp: typed_ok_def convertor_ok_def takes_all_def flat_dt_conv flat_conv_def intro!: exact_unpack_stream.axioms(1))
qed

lemma dt_memcpy_copies_witness:
  "copy_result (contig_content (flat_dt 0)) (contig_area (flat_dt 0)) {1000..<17384}
     (contig_content (flat_dt 0) of_nat 100 3) UCG_OK 1 200 4 of_nat \<lparr>h_outcomes = [], h_live = 5\<rparr>
     (ucg_dt_memcpy True 1000 200 4 (flat_dt 0) 100 3 (flat_dt 0) of_nat \<lparr>h_outcomes = [], h_live = 5\<rparr>)"
proof -
  have l: "unat (dt_length 3 (flat_dt 0)) = 6" "unat (dt_length 4 (flat_dt 0)) = 8" by (simp_all add: dt_length_def flat_dt_def)
  have st: "copy_status 4 (flat_dt 0) 3 (flat_dt 0) = UCG_OK" by (simp add: copy_status_def word_le_nat_alt l)
  show ?thesis
    using dt_memcpy_copies [OF flat_typed_ok(1) flat_typed_ok(1), of 100 200 1000 4 3 "{1000..<17384}" True True "\<lparr>h_outcomes = [], h_live = 5\<rparr>" of_nat] flat_typed_ok(2)
    by (simp add: st heap_alloc_def contig_area_def l dt_size_flat Int_Un_distrib)
qed

subsection \<open>Two faults of the copy between non-contiguous datatypes\<close>

lemma start_live:
  "dt_state_init action chk buffer dt cnt h = Some (r, h') \<Longrightarrow> h_live h' = h_live h + (if r = None then 0 else 1)"
  by (auto simp: dt_state_init_def dest!: heap_alloc_live split: if_splits prod.splits bool.splits bind_splits option.splits)

lemma finish_live: "ucg_dt_finish st m h = Some (m', h') \<Longrightarrow> h_live h' = h_live h - 1"
  by (auto simp: ucg_dt_finish_def split: dt_state_data.splits bind_splits)

text \<open>
  A copy between two non-contiguous datatypes never gives its scratch buffer back: whatever the
  convertors do, each call that got the buffer leaves one more block allocated.
\<close>

theorem memcpy_generic_leaks:
  assumes "ucg_dt_memcpy_generic chk buf dst dcount dst_dt src scount src_dt m h = Some (st, m', h')"
    and "heap_alloc h = (True, h0)"
  shows "h_live h' = h_live h + 1"
  using assms(1) heap_alloc_live [OF assms(2)]
  by (auto simp: ucg_dt_memcpy_generic_def assms(2) ucg_dt_start_pack_def ucg_dt_start_unpack_def
      dest!: start_live finish_live split: bind_splits option.splits)

lemma memcpy_generic_leaks_witness:
  "\<exists>st m' h'. ucg_dt_memcpy_generic True 1000 200 4 (flat_dt 0) 100 3 (flat_dt 0) of_nat \<lparr>h_outcomes = [], h_live = 5\<rparr> = Some (st, m', h') \<and>
     h_live h' = 6"
proof -
  have l: "unat (dt_length 3 (flat_dt 0)) = 6" "unat (dt_length 4 (flat_dt 0)) = 8" by (simp_all add: dt_length_def flat_dt_def)
  have a: "heap_alloc \<lparr>h_outcomes = [], h_live = 5\<rparr> = (True, \<lparr>h_outcomes = [], h_live = 6\<rparr>)" by (simp add: heap_alloc_def)
  obtain st m' h' where r: "ucg_dt_memcpy_generic True 1000 200 4 (flat_dt 0) 100 3 (flat_dt 0) of_nat \<lparr>h_outcomes = [], h_live = 5\<rparr> = Some (st, m', h')"
    using memcpy_generic_copies(1) [OF flat_typed_ok(1) flat_not_contiguous flat_typed_ok(1) flat_not_contiguous _ _ _ _ flat_typed_ok(2),
        of 100 200 1000 3 4 "{1000..<17384}" "\<lparr>h_outcomes = [], h_live = 5\<rparr>" of_nat True]
    by (auto simp: a copy_result_def contig_area_def l Int_Un_distrib split: option.splits)
  show ?thesis using r memcpy_generic_leaks [OF r a] by simp
qed

lemma flat_unpack_stream:
  "unpack_stream chk (generic_state (flat_dt step) cnt (b, word_of_int cnt * 2))
     (\<lambda>m. contig_content (flat_dt step) m b cnt) (contig_area (flat_dt step) b cnt)"
proof -
  let ?dt = "flat_dt step" and ?st = "generic_state (flat_dt step) cnt (b, word_of_int cnt * 2)"
  let ?t = "dt_length cnt ?dt"
  have t: "word_of_int cnt * 2 = ?t" by (simp add: dt_length_def flat_dt_def)
  show ?thesis
  proof (unfold_locales, goal_cases)
    case (1 m) show ?case by (simp add: ucg_dt_packed_size_def generic_state_def contig_state_def)
  next
    case (2 m m') then show ?case by (rule contig_local)
  next
    case (3 src want off m)
    have a: "ucg_dt_unpack chk ?st off src want m = Some (flat_move step False (b, ?t) off src want m)"
      using 3(1,2) by (simp add: ucg_dt_unpack_def dt_state_action_def generic_state_def flat_conv_def t)
    show ?case
    proof (cases "?t \<le> off")
      case True
      then show ?thesis unfolding a by (auto simp: flat_move_def word_le_nat_alt bytes_at_def)
    next
      case False
      define l0 where "l0 = (if ?t - off < want then ?t - off else want)"
      define l where "l = (if step \<noteq> 0 \<and> step < unat l0 then of_nat step else l0)"
      note c = contig_move [OF False 3(2) l0_def]
      have s: "unat (of_nat step :: u64) = step" if "step < unat l0"
        using that unsigned_less [of l0, where 'a = nat] by (simp add: unat_of_nat)
      have l: "unat l \<le> unat l0" "l \<noteq> 0" using c(2) s by (auto simp: l_def simp flip: unat_eq_0)
      have fit: "unat off + unat l \<le> unat ?t" using c(3) l(1) by linarith
      have "contig_content ?dt (memcpy m (b + unat off) src (unat l)) b cnt =
          overwrite (contig_content ?dt m b cnt) (unat off) (bytes_at m src (unat l))"
        unfolding memcpy_def contig_content_def by (rule bytes_at_overwrite) (use fit in simp)
      moreover have "memcpy m (b + unat off) src (unat l) x = m x" if "x \<notin> contig_area ?dt b cnt" for x
        unfolding memcpy_def by (rule write_bytes_outside) (use that fit in \<open>auto simp: contig_area_def\<close>)
      moreover have "flat_move step False (b, ?t) off src want m = (UCG_OK, l, memcpy m (b + unat off) src (unat l))"
        unfolding l_def l0_def using False by (simp add: flat_move_def Let_def)
      ultimately show ?thesis unfolding a using c l by auto
    qed
  qed
qed

text \<open>
  C39: with an unpacker that takes one byte at a time, which its contract allows (it says how many bytes it took),
  the copy between non-contiguous datatypes reports success but loses data: the bytes that were packed and not taken
  are never offered again.  Here two bytes are to be copied and the second one is not.
\<close>

theorem memcpy_generic_drops_bytes:
  "unpack_stream True (generic_state (flat_dt 1) 1 (200, 2)) (\<lambda>m. contig_content (flat_dt 1) m 200 1) (contig_area (flat_dt 1) 200 1) \<and>
   (\<exists>m' h'. ucg_dt_memcpy True 1000 200 1 (flat_dt 1) 100 1 (flat_dt 0) m \<lparr>h_outcomes = [], h_live = 0\<rparr> = Some (UCG_OK, m', h') \<and>
      contig_content (flat_dt 0) m 100 1 = [m 100, m 101] \<and> contig_content (flat_dt 1) m' 200 1 = [m 100, m 201])"
proof
  show "unpack_stream True (generic_state (flat_dt 1) 1 (200, 2)) (\<lambda>m. contig_content (flat_dt 1) m 200 1) (contig_area (flat_dt 1) 200 1)"
    using flat_unpack_stream [of True 1 1 200] by simp
  have [simp]: "dt_length 1 (flat_dt k) = 2" for k by (simp add: dt_length_def flat_dt_def)
  have c: "contig_content (flat_dt k) m' b 1 = [m' b, m' (b + 1)]" for k m' b
    by (simp add: contig_content_def bytes_at_def upt_rec)
  note d = ucg_dt_pack_def ucg_dt_unpack_def dt_state_action_def flat_conv_def flat_move_def memcpy_def Let_def
  define m1 where "m1 = write_bytes m 1000 (bytes_at m 100 2)"
  define m2 where "m2 = write_bytes m1 200 (bytes_at m1 1000 1)"
  let ?p = "\<lparr>ds_dt = flat_dt 0, ds_count = 1, ds_data = Generic (100, 2)\<rparr>" and ?u = "\<lparr>ds_dt = flat_dt 1, ds_count = 1, ds_data = Generic (200, 2)\<rparr>"
  have "generic_loop True ?p ?u 1000 16384 2 1 m2 = Some (UCG_OK, m2)"
    by (subst generic_loop.simps) (simp add: d)
  moreover have "generic_loop True ?p ?u 1000 16384 0 0 m = generic_loop True ?p ?u 1000 16384 2 1 m2"
    by (subst generic_loop.simps) (simp add: d m1_def m2_def)
  ultimately have "generic_loop True ?p ?u 1000 16384 0 0 m = Some (UCG_OK, m2)" by simp
  then have "\<exists>h'. ucg_dt_memcpy True 1000 200 1 (flat_dt 1) 100 1 (flat_dt 0) m \<lparr>h_outcomes = [], h_live = 0\<rparr> = Some (UCG_OK, m2, h')"
    by (simp add: ucg_dt_memcpy_def dt_size_flat ucg_dt_memcpy_generic_def heap_alloc_def ucg_dt_start_pack_def ucg_dt_start_unpack_def
        dt_state_init_def flat_conv_def [abs_def] ucg_dt_finish_def)
  moreover have "m2 200 = m 100" "m2 201 = m 201"
    by (simp_all add: m2_def m1_def write_bytes_def bytes_at_def upt_rec)
  ultimately show "\<exists>m' h'. ucg_dt_memcpy True 1000 200 1 (flat_dt 1) 100 1 (flat_dt 0) m \<lparr>h_outcomes = [], h_live = 0\<rparr> = Some (UCG_OK, m', h') \<and>
      contig_content (flat_dt 0) m 100 1 = [m 100, m 101] \<and> contig_content (flat_dt 1) m' 200 1 = [m 100, m 201]"
    by (auto simp: c)
qed

subsection \<open>Creation\<close>

text \<open>A well-formed datatype: the flags say what the other fields mean.\<close>

definition dt_wf :: "'s ucg_dt \<Rightarrow> bool" where
  "dt_wf dt \<longleftrightarrow> (ucg_dt_is_predefined dt \<longleftrightarrow> dt_type dt \<noteq> UCG_DT_TYPE_USER) \<and>
     (ucg_dt_is_contiguous dt \<longleftrightarrow> dt_size dt = word_of_int (dt_extent dt)) \<and>
     (\<not> ucg_dt_is_contiguous dt \<longrightarrow> dt_conv dt \<noteq> None) \<and> oq_destroy (dt_opaque dt) = C_NULL"

lemma predefined_wf: "ucg_dt_get_predefined type = Some dt \<Longrightarrow> dt_wf dt \<and> ucg_dt_is_predefined dt"
  by (cases type) (auto simp: ucg_dt_get_predefined_def dt_wf_def ucg_dt_is_predefined_def ucg_dt_is_contiguous_def
      UCG_DT_PREDEFINED_FLAGS_def UCG_DT_FLAG_IS_PREDEFINED_def UCG_DT_FLAG_IS_CONTIGUOUS_def)

text \<open>
  C11: whatever the parameters and the allocator do, creating a datatype gives a well-formed one that
  can be destroyed without a trace, or reports an error and leaves no block behind.
\<close>

theorem dt_create_wf:
  "case ucg_dt_create params h of
     (Inl st, h') \<Rightarrow> (st = UCG_ERR_INVALID_PARAM \<or> st = UCG_ERR_NO_MEMORY) \<and> h_live h' = h_live h
   | (Inr dt, h') \<Rightarrow> dt_wf dt \<and> dt_type dt = dp_type params \<and> fst (ucg_dt_destroy dt h') = None \<and>
       h_live (snd (ucg_dt_destroy dt h')) = h_live h"
proof (cases "ucg_dt_get_predefined (dp_type params) :: 'a ucg_dt option")
  case (Some dt)
  then have "dt_type dt = dp_type params" by (auto simp: ucg_dt_get_predefined_def)
  then show ?thesis using predefined_wf [OF Some] Some
    by (auto simp: ucg_dt_create_def ucg_dt_destroy_def dt_wf_def Let_def)
next
  case None
  obtain ok h1 where a: "heap_alloc h = (ok, h1)" by fastforce
  show ?thesis using None heap_alloc_live [OF a] a
    by (cases ok) (auto simp: ucg_dt_create_def ucg_dt_destroy_def dt_wf_def Let_def ucg_dt_is_predefined_def ucg_dt_is_contiguous_def
        UCG_DT_FLAG_IS_PREDEFINED_def UCG_DT_FLAG_IS_CONTIGUOUS_def size_is_extent_def)
qed

text \<open>The commutative flag of the predefined operations is justified for the integer types.\<close>

lemma op_predefined_commute:
  assumes "length s = n" and "length t = n"
  shows "op_func_loop (op_func_signed op) n s t = op_func_loop (op_func_signed op) n t s"
    and "op_func_loop (op_func_unsigned op) n s t = op_func_loop (op_func_unsigned op) n t s"
  using op_func_loop_commute [OF op_func_signed_commute assms] op_func_loop_commute [OF op_func_unsigned_commute assms] by simp_all

end
