(* ===== verification/P2p.thy ===== *)
theory P2p
  imports Dt Rank_Map
begin

text \<open>
  Point-to-point messages of the UCX plan component, \<open>src/src/planc/ucx/planc_ucx_p2p.c\<close> and
  \<open>planc_ucx_p2p.h\<close>, with the status conversions and flag helpers of \<open>src/src/util/ucg_helper.h\<close>.

  UCX itself is a parameter: \<open>ucx_api\<close> has the functions the code calls, on the state \<open>'w\<close> of the process's
  UCX worker.  The completion callbacks that \<open>ucp_worker_progress\<close> runs are the list it returns.
  Sends and receives carry a value of type \<open>'b\<close>, whatever identifies the buffer to UCX.
\<close>

subsection \<open>Status codes and flags\<close>

text \<open>The codes of UCS that are told apart; every other code is \<open>UCS_ERR_OTHER\<close>.\<close>

datatype ucs_status =
    UCS_OK | UCS_INPROGRESS | UCS_ERR_UNSUPPORTED | UCS_ERR_INVALID_PARAM | UCS_ERR_NO_RESOURCE
  | UCS_ERR_NO_MEMORY | UCS_ERR_IO_ERROR | UCS_ERR_INVALID_ADDR | UCS_ERR_NO_MESSAGE | UCS_ERR_BUFFER_TOO_SMALL
  | UCS_ERR_OTHER int

fun ucg_status_s2g :: "ucs_status \<Rightarrow> ucg_status" where
  "ucg_status_s2g UCS_OK = UCG_OK"
| "ucg_status_s2g UCS_INPROGRESS = UCG_INPROGRESS"
| "ucg_status_s2g UCS_ERR_UNSUPPORTED = UCG_ERR_UNSUPPORTED"
| "ucg_status_s2g UCS_ERR_INVALID_PARAM = UCG_ERR_INVALID_PARAM"
| "ucg_status_s2g UCS_ERR_NO_RESOURCE = UCG_ERR_NO_RESOURCE"
| "ucg_status_s2g UCS_ERR_NO_MEMORY = UCG_ERR_NO_MEMORY"
| "ucg_status_s2g UCS_ERR_IO_ERROR = UCG_ERR_IO_ERROR"
| "ucg_status_s2g UCS_ERR_INVALID_ADDR = UCG_ERR_INVALID_ADDR"
| "ucg_status_s2g _ = UCG_ERR_NOT_FOUND"

fun ucg_status_g2s :: "ucg_status \<Rightarrow> ucs_status" where
  "ucg_status_g2s UCG_OK = UCS_OK"
| "ucg_status_g2s UCG_INPROGRESS = UCS_INPROGRESS"
| "ucg_status_g2s UCG_ERR_UNSUPPORTED = UCS_ERR_UNSUPPORTED"
| "ucg_status_g2s UCG_ERR_INVALID_PARAM = UCS_ERR_INVALID_PARAM"
| "ucg_status_g2s UCG_ERR_NO_RESOURCE = UCS_ERR_NO_RESOURCE"
| "ucg_status_g2s UCG_ERR_NO_MEMORY = UCS_ERR_NO_MEMORY"
| "ucg_status_g2s UCG_ERR_IO_ERROR = UCS_ERR_IO_ERROR"
| "ucg_status_g2s _ = UCS_ERR_NO_MESSAGE"

definition ucg_clear_flags :: "u64 \<Rightarrow> u64 \<Rightarrow> u64" where
  "ucg_clear_flags flags bits = flags AND NOT bits"

definition ucg_test_flags :: "u64 \<Rightarrow> u64 \<Rightarrow> bool" where
  "ucg_test_flags flags bits = (flags AND bits = bits)"

definition ucg_test_and_clear_flags :: "u64 \<Rightarrow> u64 \<Rightarrow> bool \<times> u64" where
  "ucg_test_and_clear_flags flags bits =
     (if ucg_test_flags flags bits then (True, ucg_clear_flags flags bits) else (False, flags))"

text \<open>The codes that survive a round trip; the others of the library come back as \<open>UCG_ERR_NOT_FOUND\<close>.\<close>

lemma status_round_trip:
  "ucg_status_s2g (ucg_status_g2s st) =
     (if st \<in> {UCG_ERR_INCOMPATIBLE, UCG_ERR_TRUNCATE, UCG_ERR_INVALID_ADDR, UCG_ERR_UNREACHABLE}
      then UCG_ERR_NOT_FOUND else st)"
  by (cases st) simp_all

lemma s2g_OK: "ucg_status_s2g st = UCG_OK \<longleftrightarrow> st = UCS_OK"
  by (cases st) simp_all

subsection \<open>Tags\<close>

definition UCG_P2P_FLAG_ONE :: u64 where "UCG_P2P_FLAG_ONE = 1"
definition UCG_P2P_SEQ_BITS :: nat where "UCG_P2P_SEQ_BITS = 24"
definition UCG_P2P_RANK_BITS :: nat where "UCG_P2P_RANK_BITS = 20"
definition UCG_P2P_FLAG_BITS :: nat where "UCG_P2P_FLAG_BITS = 2"
definition UCG_P2P_GROUP_BITS :: nat where "UCG_P2P_GROUP_BITS = 18"

definition UCG_P2P_SEQ_BITS_OFFSET :: nat where
  "UCG_P2P_SEQ_BITS_OFFSET = UCG_P2P_RANK_BITS + UCG_P2P_FLAG_BITS + UCG_P2P_GROUP_BITS"

definition UCG_P2P_FLAG_BITS_OFFSET :: nat where "UCG_P2P_FLAG_BITS_OFFSET = UCG_P2P_GROUP_BITS"
definition UCG_P2P_ID_BITS_OFFSET :: nat where "UCG_P2P_ID_BITS_OFFSET = 0"

text \<open>\<open>tag\<close> and \<open>rank\<close> are signed and are sign extended by the casts; \<open>group_id\<close> is unsigned.\<close>

definition ucg_planc_ucx_make_tag :: "c_int \<Rightarrow> ucg_rank_t \<Rightarrow> u32 \<Rightarrow> u64" where
  "ucg_planc_ucx_make_tag tag rank group_id =
     push_bit UCG_P2P_SEQ_BITS_OFFSET (word_of_int tag) OR
     push_bit UCG_P2P_RANK_BITS (word_of_int rank) OR
     push_bit UCG_P2P_FLAG_BITS_OFFSET UCG_P2P_FLAG_ONE OR
     push_bit UCG_P2P_ID_BITS_OFFSET (ucast group_id)"

definition UCG_P2P_TAG_MASK :: u64 where "UCG_P2P_TAG_MASK = - 1"

subsection \<open>UCX and the process\<close>

text \<open>A pointer returned by UCX: NULL, an error, or a request.\<close>

datatype ucs_status_ptr = Ptr_Null | Ptr_Err ucs_status | Ptr_Req nat

datatype p2p_kind = P2p_Send | P2p_Recv

record ucx_completion =
  uc_kind :: p2p_kind
  uc_request :: nat
  uc_status :: ucs_status
  uc_user_data :: nat

text \<open>
  \<open>ucp_tag_send_nbx\<close> (endpoint, buffer, count, tag, datatype, user data) and \<open>ucp_tag_recv_nbx\<close> (buffer, count,
  tag, tag mask, datatype, user data) may run callbacks before they return, of the new request or of others.
  \<open>ep_create\<close> is what the code does to connect to a rank of the context: the address exchange and
  \<open>ucp_ep_create\<close>.
\<close>

record 'w ucx_api =
  ucp_tag_send_nbx :: "c_ptr \<Rightarrow> c_ptr \<Rightarrow> c_int \<Rightarrow> u64 \<Rightarrow> u64 \<Rightarrow> nat \<Rightarrow> 'w \<Rightarrow> ucs_status_ptr \<times> ucx_completion list \<times> 'w"
  ucp_tag_recv_nbx :: "c_ptr \<Rightarrow> c_int \<Rightarrow> u64 \<Rightarrow> u64 \<Rightarrow> u64 \<Rightarrow> nat \<Rightarrow> 'w \<Rightarrow> ucs_status_ptr \<times> ucx_completion list \<times> 'w"
  ucp_request_check_status :: "nat \<Rightarrow> 'w \<Rightarrow> ucs_status"
  ucp_request_free :: "nat \<Rightarrow> 'w \<Rightarrow> 'w"
  ucp_worker_progress :: "'w \<Rightarrow> ucx_completion list \<times> 'w"
  ucp_dt_make_contig :: "u64 \<Rightarrow> u64"
  ucp_dt_create_generic :: "c_ptr \<Rightarrow> 'w \<Rightarrow> ucs_status \<times> u64 \<times> 'w"
  ucp_dt_destroy :: c_ptr
  ep_create :: "ucg_rank_t \<Rightarrow> 'w \<Rightarrow> ucs_status \<times> c_ptr \<times> 'w"
  oob_ucp_ep :: "ucg_rank_t \<Rightarrow> c_ptr"
  oob_ucp_worker :: bool

record ucg_planc_ucx_p2p_state =
  ps_status :: ucg_status
  ps_inflight_send_cnt :: c_int
  ps_inflight_recv_cnt :: c_int

text \<open>
  What the functions read and change, by address: datatypes, endpoints, the field \<open>free_in_cb\<close> of the
  requests, and the p2p states; then the fields of the context, and the UCX worker.
\<close>

record ('s, 'w) ucx_proc =
  ux_dts :: "c_ptr \<Rightarrow> 's ucg_dt"
  ux_eps :: "ucg_rank_t \<Rightarrow> c_ptr"
  ux_free_in_cb :: "nat \<Rightarrow> bool"
  ux_states :: "nat \<Rightarrow> ucg_planc_ucx_p2p_state"
  ux_worker_set :: bool
  ux_use_oob :: bool
  ux_n_polls :: nat
  ux_world :: 'w

record ucg_group_ids =
  gr_id :: u32
  gr_myrank :: ucg_rank_t
  gr_rank_map :: ucg_rank_map

record ucg_vgroup =
  vg_myrank :: ucg_rank_t
  vg_size :: u32
  vg_rank_map :: ucg_rank_map
  vg_group :: ucg_group_ids

definition ucg_planc_ucx_p2p_state_reset :: ucg_planc_ucx_p2p_state where
  "ucg_planc_ucx_p2p_state_reset =
     \<lparr>ps_status = UCG_OK, ps_inflight_send_cnt = 0, ps_inflight_recv_cnt = 0\<rparr>"

definition set_state :: "nat \<Rightarrow> ucg_planc_ucx_p2p_state \<Rightarrow> ('s, 'w) ucx_proc \<Rightarrow> ('s, 'w) ucx_proc" where
  "set_state sid st p = p\<lparr>ux_states := (ux_states p)(sid := st)\<rparr>"

definition ucg_planc_ucx_p2p_req_init :: "nat \<Rightarrow> ('s, 'w) ucx_proc \<Rightarrow> ('s, 'w) ucx_proc" where
  "ucg_planc_ucx_p2p_req_init r p = p\<lparr>ux_free_in_cb := (ux_free_in_cb p)(r := False)\<rparr>"

definition ucg_planc_ucx_p2p_req_free :: "'w ucx_api \<Rightarrow> nat \<Rightarrow> ('s, 'w) ucx_proc \<Rightarrow> ('s, 'w) ucx_proc" where
  "ucg_planc_ucx_p2p_req_free api r p =
     p\<lparr>ux_free_in_cb := (ux_free_in_cb p)(r := False), ux_world := ucp_request_free api r (ux_world p)\<rparr>"

subsection \<open>Datatypes, endpoints, worker\<close>

definition ucg_planc_ucx_p2p_get_ucp_dt ::
    "'w ucx_api \<Rightarrow> c_ptr \<Rightarrow> ('s, 'w) ucx_proc \<Rightarrow> ucg_status \<times> u64 \<times> ('s, 'w) ucx_proc" where
  "ucg_planc_ucx_p2p_get_ucp_dt api dtp p =
     (let dt = ux_dts p dtp; obj = oq_obj (dt_opaque dt)
      in if obj \<noteq> 0 then (UCG_OK, obj, p)
         else if ucg_dt_is_contiguous dt then
           let obj = ucp_dt_make_contig api (dt_size dt)
           in (UCG_OK, obj, p\<lparr>ux_dts := (ux_dts p)(dtp := ucg_dt_set_opaque dt \<lparr>oq_obj = obj, oq_destroy = C_NULL\<rparr>)\<rparr>)
         else case ucp_dt_create_generic api dtp (ux_world p) of
           (status, obj, w) \<Rightarrow>
             if status \<noteq> UCS_OK then (ucg_status_s2g status, obj, p\<lparr>ux_world := w\<rparr>)
             else (UCG_OK, obj,
               p\<lparr>ux_dts := (ux_dts p)(dtp := ucg_dt_set_opaque dt \<lparr>oq_obj = obj, oq_destroy = ucp_dt_destroy api\<rparr>),
                 ux_world := w\<rparr>))"

text \<open>\<open>None\<close> where a rank map reads outside its array.\<close>

definition ucg_planc_ucx_p2p_get_ucp_ep ::
    "'w ucx_api \<Rightarrow> bool \<Rightarrow> ucg_vgroup \<Rightarrow> ucg_rank_t \<Rightarrow> ('s, 'w) ucx_proc \<Rightarrow> (c_ptr \<times> ('s, 'w) ucx_proc) option" where
  "ucg_planc_ucx_p2p_get_ucp_ep api chk vgroup vrank p =
     do { group_rank \<leftarrow> ucg_rank_map_eval chk (vg_rank_map vgroup) vrank;
          ctx_rank \<leftarrow> ucg_rank_map_eval chk (gr_rank_map (vg_group vgroup)) group_rank;
          if ux_eps p ctx_rank \<noteq> C_NULL then Some (ux_eps p ctx_rank, p)
          else if ux_use_oob p then
            do { let ep = oob_ucp_ep api group_rank;
                 Some (ep, p\<lparr>ux_eps := (ux_eps p)(ctx_rank := ep)\<rparr>) }
          else do { let (status, ep, w) = ep_create api ctx_rank (ux_world p);
                    if status \<noteq> UCS_OK then Some (C_NULL, p\<lparr>ux_world := w\<rparr>)
                    else Some (ep, p\<lparr>ux_eps := (ux_eps p)(ctx_rank := ep), ux_world := w\<rparr>) } }"

text \<open>The endpoint the STARS component asks for: the out-of-band one is looked up again every time.\<close>

definition ucg_planc_ucx_get_ucp_ep ::
    "'w ucx_api \<Rightarrow> bool \<Rightarrow> ucg_vgroup \<Rightarrow> ucg_rank_t \<Rightarrow> ('s, 'w) ucx_proc \<Rightarrow> (c_ptr \<times> ('s, 'w) ucx_proc) option" where
  "ucg_planc_ucx_get_ucp_ep api chk vgroup vrank p =
     do { group_rank \<leftarrow> ucg_rank_map_eval chk (vg_rank_map vgroup) vrank;
          ctx_rank \<leftarrow> ucg_rank_map_eval chk (gr_rank_map (vg_group vgroup)) group_rank;
          if ux_use_oob p then Some (oob_ucp_ep api group_rank, p)
          else if ux_eps p ctx_rank \<noteq> C_NULL then Some (ux_eps p ctx_rank, p)
          else do { let (status, ep, w) = ep_create api ctx_rank (ux_world p);
                    if status \<noteq> UCS_OK then Some (C_NULL, p\<lparr>ux_world := w\<rparr>)
                    else Some (ep, p\<lparr>ux_eps := (ux_eps p)(ctx_rank := ep), ux_world := w\<rparr>) } }"

text \<open>\<open>None\<close> is the abort of \<open>ucg_fatal\<close>; the result says whether there is a worker.\<close>

definition ucg_planc_ucx_context_get_worker ::
    "'w ucx_api \<Rightarrow> ('s, 'w) ucx_proc \<Rightarrow> (bool \<times> ('s, 'w) ucx_proc) option" where
  "ucg_planc_ucx_context_get_worker api p =
     (if \<not> ux_worker_set p \<and> ux_use_oob p then
        (if oob_ucp_worker api then Some (True, p\<lparr>ux_worker_set := True\<rparr>) else None)
      else Some (ux_worker_set p, p))"

subsection \<open>Callbacks\<close>

text \<open>\<open>ucg_planc_ucx_p2p_isend_done\<close> and \<open>ucg_planc_ucx_p2p_irecv_done\<close>.\<close>

definition count_down :: "p2p_kind \<Rightarrow> ucg_planc_ucx_p2p_state \<Rightarrow> ucg_planc_ucx_p2p_state" where
  "count_down kind st =
     (case kind of
        P2p_Send \<Rightarrow> st\<lparr>ps_inflight_send_cnt := ps_inflight_send_cnt st - 1\<rparr>
      | P2p_Recv \<Rightarrow> st\<lparr>ps_inflight_recv_cnt := ps_inflight_recv_cnt st - 1\<rparr>)"

definition count_up :: "p2p_kind \<Rightarrow> ucg_planc_ucx_p2p_state \<Rightarrow> ucg_planc_ucx_p2p_state" where
  "count_up kind st =
     (case kind of
        P2p_Send \<Rightarrow> st\<lparr>ps_inflight_send_cnt := ps_inflight_send_cnt st + 1\<rparr>
      | P2p_Recv \<Rightarrow> st\<lparr>ps_inflight_recv_cnt := ps_inflight_recv_cnt st + 1\<rparr>)"

definition p2p_done :: "'w ucx_api \<Rightarrow> ucx_completion \<Rightarrow> ('s, 'w) ucx_proc \<Rightarrow> ('s, 'w) ucx_proc" where
  "p2p_done api c p =
     (let sid = uc_user_data c; st = ux_states p sid;
          st = (if uc_status c \<noteq> UCS_OK then st\<lparr>ps_status := UCG_ERR_IO_ERROR\<rparr> else st);
          p = set_state sid (count_down (uc_kind c) st) p
      in if ux_free_in_cb p (uc_request c) then ucg_planc_ucx_p2p_req_free api (uc_request c) p else p)"

definition run_callbacks :: "'w ucx_api \<Rightarrow> ucx_completion list \<Rightarrow> ('s, 'w) ucx_proc \<Rightarrow> ('s, 'w) ucx_proc" where
  "run_callbacks api cs p = fold (p2p_done api) cs p"

definition worker_progress :: "'w ucx_api \<Rightarrow> ('s, 'w) ucx_proc \<Rightarrow> ('s, 'w) ucx_proc" where
  "worker_progress api p =
     (case ucp_worker_progress api (ux_world p) of (cs, w) \<Rightarrow> run_callbacks api cs (p\<lparr>ux_world := w\<rparr>))"

subsection \<open>Sending and receiving\<close>

text \<open>
  The parameters of a call: \<open>pp_state\<close> is the address \<open>params->state\<close>, \<open>pp_want\<close> says whether \<open>params->request\<close> is
  there, and \<open>pp_group\<close> is the group of \<open>params->ucx_group\<close>.
\<close>

record p2p_params =
  pp_group :: ucg_group_ids
  pp_state :: nat
  pp_want :: bool

text \<open>
  The end of both functions, after UCX has returned a request that is not finished.  The result is what is stored in
  \<open>*params->request\<close>, if it is there.
\<close>

definition p2p_posted ::
    "'w ucx_api \<Rightarrow> p2p_kind \<Rightarrow> p2p_params \<Rightarrow> nat \<Rightarrow> ('s, 'w) ucx_proc \<Rightarrow> nat option \<times> ('s, 'w) ucx_proc" where
  "p2p_posted api kind params r p =
     (let p = p\<lparr>ux_free_in_cb := (ux_free_in_cb p)(r := True)\<rparr>;
          p = set_state (pp_state params) (count_up kind (ux_states p (pp_state params))) p;
          req_status = ucp_request_check_status api r (ux_world p);
          p = (if req_status \<noteq> UCS_INPROGRESS then ucg_planc_ucx_p2p_req_free api r p else p)
      in if pp_want params \<and> req_status = UCS_INPROGRESS
         then (Some r, p\<lparr>ux_free_in_cb := (ux_free_in_cb p)(r := False)\<rparr>)
         else (None, p))"

definition p2p_returned ::
    "'w ucx_api \<Rightarrow> p2p_kind \<Rightarrow> p2p_params \<Rightarrow> ucs_status_ptr \<Rightarrow> ('s, 'w) ucx_proc \<Rightarrow>
     ucg_status \<times> nat option \<times> ('s, 'w) ucx_proc" where
  "p2p_returned api kind params ptr p =
     (case ptr of
        Ptr_Null \<Rightarrow> (ucg_status_s2g UCS_OK, None, p)
      | Ptr_Err e \<Rightarrow> (ucg_status_s2g e, None, p)
      | Ptr_Req r \<Rightarrow> (UCG_OK, p2p_posted api kind params r p))"

definition ucg_planc_ucx_p2p_isend ::
    "'w ucx_api \<Rightarrow> bool \<Rightarrow> c_ptr \<Rightarrow> c_int \<Rightarrow> c_ptr \<Rightarrow> ucg_rank_t \<Rightarrow> c_int \<Rightarrow> ucg_vgroup \<Rightarrow> p2p_params \<Rightarrow> ('s, 'w) ucx_proc \<Rightarrow>
     (ucg_status \<times> nat option \<times> ('s, 'w) ucx_proc) option" where
  "ucg_planc_ucx_p2p_isend api chk buffer cnt dt vrank tag vgroup params p =
     (if chk \<and> dt = C_NULL then Some (UCG_ERR_INVALID_PARAM, None, p)
      else if vrank = UCG_INVALID_RANK then Some (UCG_ERR_INVALID_PARAM, None, p)
      else case ucg_planc_ucx_p2p_get_ucp_dt api dt p of
        (status, ucp_dt, p) \<Rightarrow>
          if status \<noteq> UCG_OK then Some (status, None, p)
          else do { (ep, p) \<leftarrow> ucg_planc_ucx_p2p_get_ucp_ep api chk vgroup vrank p;
                    if ep = C_NULL then Some (UCG_ERR_NO_RESOURCE, None, p)
                    else do { let grp = pp_group params;
                              let ucp_tag = ucg_planc_ucx_make_tag tag (gr_myrank grp) (gr_id grp);
                              let (ptr, cs, w) = ucp_tag_send_nbx api ep buffer cnt ucp_tag ucp_dt (pp_state params) (ux_world p);
                              Some (p2p_returned api P2p_Send params ptr (run_callbacks api cs (p\<lparr>ux_world := w\<rparr>))) } })"

definition ucg_planc_ucx_p2p_irecv ::
    "'w ucx_api \<Rightarrow> bool \<Rightarrow> c_ptr \<Rightarrow> c_int \<Rightarrow> c_ptr \<Rightarrow> ucg_rank_t \<Rightarrow> c_int \<Rightarrow> ucg_vgroup \<Rightarrow> p2p_params \<Rightarrow> ('s, 'w) ucx_proc \<Rightarrow>
     (ucg_status \<times> nat option \<times> ('s, 'w) ucx_proc) option" where
  "ucg_planc_ucx_p2p_irecv api chk buffer cnt dt vrank tag vgroup params p =
     (if chk \<and> dt = C_NULL then Some (UCG_ERR_INVALID_PARAM, None, p)
      else if vrank = UCG_INVALID_RANK then Some (UCG_ERR_INVALID_PARAM, None, p)
      else case ucg_planc_ucx_p2p_get_ucp_dt api dt p of
        (status, ucp_dt, p) \<Rightarrow>
          if status \<noteq> UCG_OK then Some (status, None, p)
          else do { sender_group_rank \<leftarrow> ucg_rank_map_eval chk (vg_rank_map vgroup) vrank;
                    let ucp_tag = ucg_planc_ucx_make_tag tag sender_group_rank (gr_id (vg_group vgroup));
                    (worker, p) \<leftarrow> ucg_planc_ucx_context_get_worker api p;
                    if \<not> worker then Some (UCG_ERR_INVALID_PARAM, None, p)
                    else do { let (ptr, cs, w) = ucp_tag_recv_nbx api buffer cnt ucp_tag UCG_P2P_TAG_MASK ucp_dt (pp_state params) (ux_world p);
                              Some (p2p_returned api P2p_Recv params ptr (run_callbacks api cs (p\<lparr>ux_world := w\<rparr>))) } })"

subsection \<open>Testing\<close>

fun p2p_test_polls :: "'w ucx_api \<Rightarrow> nat \<Rightarrow> nat \<Rightarrow> ('s, 'w) ucx_proc \<Rightarrow> ucg_status \<times> nat option \<times> ('s, 'w) ucx_proc" where
  "p2p_test_polls api 0 r p = (UCG_INPROGRESS, Some r, p)"
| "p2p_test_polls api (Suc k) r p =
     (let status = ucp_request_check_status api r (ux_world p)
      in if status \<noteq> UCS_INPROGRESS then (ucg_status_s2g status, None, ucg_planc_ucx_p2p_req_free api r p)
         else p2p_test_polls api k r (worker_progress api p))"

definition ucg_planc_ucx_p2p_test ::
    "'w ucx_api \<Rightarrow> nat option \<Rightarrow> ('s, 'w) ucx_proc \<Rightarrow> (ucg_status \<times> nat option \<times> ('s, 'w) ucx_proc) option" where
  "ucg_planc_ucx_p2p_test api req p =
     (case req of
        None \<Rightarrow> Some (UCG_OK, None, p)
      | Some r \<Rightarrow>
          do { (worker, p) \<leftarrow> ucg_planc_ucx_context_get_worker api p;
               if \<not> worker then Some (UCG_ERR_INVALID_PARAM, Some r, p)
               else Some (p2p_test_polls api (ux_n_polls p) r p) })"

definition nothing_inflight :: "ucg_planc_ucx_p2p_state \<Rightarrow> bool" where
  "nothing_inflight st \<longleftrightarrow> ps_inflight_send_cnt st = 0 \<and> ps_inflight_recv_cnt st = 0"

fun p2p_testall_polls :: "'w ucx_api \<Rightarrow> nat \<Rightarrow> nat \<Rightarrow> ('s, 'w) ucx_proc \<Rightarrow> ucg_status \<times> ('s, 'w) ucx_proc" where
  "p2p_testall_polls api 0 sid p = (UCG_INPROGRESS, p)"
| "p2p_testall_polls api (Suc k) sid p =
     (let p = worker_progress api p
      in if nothing_inflight (ux_states p sid) then (ps_status (ux_states p sid), p)
         else p2p_testall_polls api k sid p)"

definition ucg_planc_ucx_p2p_testall ::
    "'w ucx_api \<Rightarrow> nat \<Rightarrow> ('s, 'w) ucx_proc \<Rightarrow> (ucg_status \<times> ('s, 'w) ucx_proc) option" where
  "ucg_planc_ucx_p2p_testall api sid p =
     (if nothing_inflight (ux_states p sid) then Some (ps_status (ux_states p sid), p)
      else do { (worker, p) \<leftarrow> ucg_planc_ucx_context_get_worker api p;
                if \<not> worker then Some (UCG_ERR_INVALID_PARAM, p)
                else Some (p2p_testall_polls api (ux_n_polls p) sid p) })"

subsection \<open>Progress of the context\<close>

fun progress_polls :: "'w ucx_api \<Rightarrow> nat \<Rightarrow> ('s, 'w) ucx_proc \<Rightarrow> ('s, 'w) ucx_proc" where
  "progress_polls api 0 p = p"
| "progress_polls api (Suc k) p = progress_polls api k (worker_progress api p)"

text \<open>Progressing a worker that is NULL is undefined.\<close>

definition ucg_planc_ucx_context_progress :: "'w ucx_api \<Rightarrow> ('s, 'w) ucx_proc \<Rightarrow> (c_int \<times> ('s, 'w) ucx_proc) option" where
  "ucg_planc_ucx_context_progress api p =
     do { (worker, p) \<leftarrow> ucg_planc_ucx_context_get_worker api p;
          if \<not> worker then None else Some (0, progress_polls api (ux_n_polls p) p) }"

subsection \<open>Packing for UCX\<close>

text \<open>The callbacks that UCX runs on a datatype that is not contiguous; \<open>0\<close> stands for a failure to pack.\<close>

definition ucg_planc_ucx_p2p_start_pack ::
    "bool \<Rightarrow> 's ucg_dt \<Rightarrow> c_ptr \<Rightarrow> c_int \<Rightarrow> ucg_heap \<Rightarrow> ('s ucg_dt_state option \<times> ucg_heap) option" where
  "ucg_planc_ucx_p2p_start_pack chk dt buffer cnt h = ucg_dt_start_pack chk buffer dt cnt h"

definition ucg_planc_ucx_p2p_start_unpack ::
    "bool \<Rightarrow> 's ucg_dt \<Rightarrow> c_ptr \<Rightarrow> c_int \<Rightarrow> ucg_heap \<Rightarrow> ('s ucg_dt_state option \<times> ucg_heap) option" where
  "ucg_planc_ucx_p2p_start_unpack chk dt buffer cnt h = ucg_dt_start_unpack chk buffer dt cnt h"

definition ucg_planc_ucx_p2p_packed_size :: "'s ucg_dt_state \<Rightarrow> u64" where
  "ucg_planc_ucx_p2p_packed_size st = ucg_dt_packed_size st"

definition ucg_planc_ucx_p2p_pack ::
    "bool \<Rightarrow> 's ucg_dt_state \<Rightarrow> u64 \<Rightarrow> c_ptr \<Rightarrow> u64 \<Rightarrow> c_mem \<Rightarrow> (u64 \<times> c_mem) option" where
  "ucg_planc_ucx_p2p_pack chk st offset dest max_length m =
     do { (status, len, m) \<leftarrow> ucg_dt_pack chk st offset dest max_length m;
          Some (if status \<noteq> UCG_OK then 0 else len, m) }"

definition ucg_planc_ucx_p2p_unpack ::
    "bool \<Rightarrow> 's ucg_dt_state \<Rightarrow> u64 \<Rightarrow> c_ptr \<Rightarrow> u64 \<Rightarrow> c_mem \<Rightarrow> (ucs_status \<times> c_mem) option" where
  "ucg_planc_ucx_p2p_unpack chk st offset src len0 m =
     do { (status, len, m) \<leftarrow> ucg_dt_unpack chk st offset src len0 m;
          Some (if status \<noteq> UCG_OK then UCS_ERR_NO_RESOURCE
                else if len \<noteq> len0 then UCS_ERR_BUFFER_TOO_SMALL else UCS_OK, m) }"

definition ucg_planc_ucx_p2p_finish :: "'s ucg_dt_state \<Rightarrow> c_mem \<Rightarrow> ucg_heap \<Rightarrow> (c_mem \<times> ucg_heap) option" where
  "ucg_planc_ucx_p2p_finish st m h = ucg_dt_finish st m h"

end
