(* ===== verification/P2p_Spec.thy ===== *)
theory P2p_Spec
  imports P2p
begin

text \<open>
  Properties of the point-to-point layer: tags tell messages apart, and the counters of a p2p state are
  the number of its requests that UCX has not completed.
\<close>

subsection \<open>Tags\<close>

lemma bit_make_tag:
  "bit (ucg_planc_ucx_make_tag tag rank gid) i \<longleftrightarrow>
     i < 64 \<and> (40 \<le> i \<and> bit tag (i - 40) \<or> 20 \<le> i \<and> bit rank (i - 20) \<or> i = 18 \<or> bit gid i)"
proof -
  have "bit (push_bit UCG_P2P_FLAG_BITS_OFFSET UCG_P2P_FLAG_ONE) i \<longleftrightarrow> i = 18"
    unfolding UCG_P2P_FLAG_BITS_OFFSET_def UCG_P2P_FLAG_ONE_def UCG_P2P_GROUP_BITS_def push_bit_of_1
    by (auto simp only: bit_exp_iff possible_bit_word) simp_all
  then show ?thesis
    unfolding ucg_planc_ucx_make_tag_def
    by (auto simp: bit_or_iff bit_push_bit_iff bit_unsigned_iff bit_word_of_int_iff UCG_P2P_SEQ_BITS_OFFSET_def UCG_P2P_RANK_BITS_def
        UCG_P2P_FLAG_BITS_def UCG_P2P_GROUP_BITS_def UCG_P2P_ID_BITS_OFFSET_def dest: bit_imp_le_length)
qed

lemma int_small_bit: "0 \<le> (x :: int) \<Longrightarrow> x < 2 ^ k \<Longrightarrow> bit x i \<Longrightarrow> i < k"
proof (rule ccontr)
  assume x: "0 \<le> x" "x < 2 ^ k" and b: "bit x i" and "\<not> i < k"
  then have "(2 :: int) ^ k \<le> 2 ^ i" by (simp add: power_increasing)
  then have "x < 2 ^ i" using x by linarith
  then show False using x b by (simp add: bit_iff_odd)
qed

lemma word_small_bit: "uint (g :: u32) < 2 ^ k \<Longrightarrow> bit g i \<Longrightarrow> i < k"
  using int_small_bit [of "uint g" k i] bit_imp_le_length [of g i] by (simp add: bit_uint_iff)

text \<open>What a request id, a rank and a group id have to be for the fields of a tag not to overlap.\<close>

definition tag_fields_fit :: "c_int \<Rightarrow> ucg_rank_t \<Rightarrow> u32 \<Rightarrow> bool" where
  "tag_fields_fit tag rank gid \<longleftrightarrow> 0 \<le> tag \<and> tag < 2 ^ UCG_P2P_SEQ_BITS \<and>
     0 \<le> rank \<and> rank < 2 ^ UCG_P2P_RANK_BITS \<and> uint gid < 2 ^ UCG_P2P_GROUP_BITS"

lemma tag_bits:
  assumes "tag_fields_fit tag rank gid"
  shows "bit tag i \<longleftrightarrow> bit (ucg_planc_ucx_make_tag tag rank gid) (i + 40)"
    and "bit rank i \<longleftrightarrow> i < 20 \<and> bit (ucg_planc_ucx_make_tag tag rank gid) (i + 20)"
    and "bit gid i \<longleftrightarrow> i < 18 \<and> bit (ucg_planc_ucx_make_tag tag rank gid) i"
proof -
  have b: "bit tag i \<Longrightarrow> i < 24" "bit rank i \<Longrightarrow> i < 20" "bit gid i \<Longrightarrow> i < 18" for i
    using assms int_small_bit [of tag 24 i] int_small_bit [of rank 20 i] word_small_bit [of gid 18 i]
    by (simp_all add: tag_fields_fit_def UCG_P2P_SEQ_BITS_def UCG_P2P_RANK_BITS_def UCG_P2P_GROUP_BITS_def)
  show "bit tag i \<longleftrightarrow> bit (ucg_planc_ucx_make_tag tag rank gid) (i + 40)"
    using b(1) [of i] b(2) [of "20 + i"] b(2) [of "i + 20"] b(3) [of "i + 40"] by (auto simp: bit_make_tag)
  show "bit rank i \<longleftrightarrow> i < 20 \<and> bit (ucg_planc_ucx_make_tag tag rank gid) (i + 20)"
    using b(2) [of i] b(3) [of "i + 20"] by (auto simp: bit_make_tag)
  show "bit gid i \<longleftrightarrow> i < 18 \<and> bit (ucg_planc_ucx_make_tag tag rank gid) i"
    using b(3) [of i] by (auto simp: bit_make_tag)
qed

text \<open>
  C38: as long as the request ids, ranks and group ids stay within their fields, which the request ids
  of a group and its checked id do, messages of different operations, senders or groups have different tags; the
  bound on the group id is sharp, since two ids that differ in the bit above the field share their tags.
\<close>

theorem p2p_tags_distinct:
  assumes "tag_fields_fit tag rank gid" and "tag_fields_fit tag' rank' gid'"
  shows "(ucg_planc_ucx_make_tag tag rank gid = ucg_planc_ucx_make_tag tag' rank' gid' \<longleftrightarrow>
      tag = tag' \<and> rank = rank' \<and> gid = gid') \<and>
    ucg_planc_ucx_make_tag tag rank (gid OR 2 ^ 18) = ucg_planc_ucx_make_tag tag rank gid"
proof
  show "ucg_planc_ucx_make_tag tag rank gid = ucg_planc_ucx_make_tag tag' rank' gid' \<longleftrightarrow> tag = tag' \<and> rank = rank' \<and> gid = gid'"
  proof
    assume e: "ucg_planc_ucx_make_tag tag rank gid = ucg_planc_ucx_make_tag tag' rank' gid'"
    note b = tag_bits [OF assms(1), unfolded e] tag_bits [OF assms(2)]
    have "tag = tag'" by (rule bit_eqI) (simp only: b)
    moreover have "rank = rank'" by (rule bit_eqI) (simp only: b)
    moreover have "gid = gid'" by (rule bit_word_eqI) (simp only: b)
    ultimately show "tag = tag' \<and> rank = rank' \<and> gid = gid'" by simp
  qed simp
  show "ucg_planc_ucx_make_tag tag rank (gid OR 2 ^ 18) = ucg_planc_ucx_make_tag tag rank gid"
  proof (rule bit_word_eqI)
    fix i
    have "bit (gid OR 2 ^ 18) i \<longleftrightarrow> bit gid i \<or> i = 18" by (auto simp only: bit_or_iff bit_exp_iff possible_bit_word) simp
    then show "bit (ucg_planc_ucx_make_tag tag rank (gid OR 2 ^ 18)) i \<longleftrightarrow> bit (ucg_planc_ucx_make_tag tag rank gid) i"
      by (auto simp: bit_make_tag)
  qed
qed

lemma p2p_tags_distinct_witness:
  "ucg_planc_ucx_make_tag 0x800001 3 7 \<noteq> ucg_planc_ucx_make_tag 0x800001 4 7"
  using p2p_tags_distinct [of "0x800001" 3 7 "0x800001" 4 7]
  by (simp add: tag_fields_fit_def UCG_P2P_SEQ_BITS_def UCG_P2P_RANK_BITS_def UCG_P2P_GROUP_BITS_def)

subsection \<open>What UCX promises\<close>

text \<open>
  \<open>pending w\<close> are the requests UCX has not completed, with their kind and user data; \<open>held w\<close> are the request
  objects that are allocated.  A request is handed out once, its callback runs once, in the call that
  returned it or in any later call that makes progress, and the object lives until it is freed.
\<close>

type_synonym pending_view = "nat \<Rightarrow> (p2p_kind \<times> nat) option"

fun completes :: "pending_view \<Rightarrow> ucx_completion list \<Rightarrow> pending_view option" where
  "completes V [] = Some V"
| "completes V (c # cs) =
     (if V (uc_request c) = Some (uc_kind c, uc_user_data c) then completes (V(uc_request c := None)) cs else None)"

fun started :: "p2p_kind \<Rightarrow> nat \<Rightarrow> ucs_status_ptr \<Rightarrow> pending_view \<Rightarrow> pending_view" where
  "started kind sid (Ptr_Req r) V = V(r \<mapsto> (kind, sid))"
| "started kind sid _ V = V"

fun new_requests :: "ucs_status_ptr \<Rightarrow> nat set" where
  "new_requests (Ptr_Req r) = {r}"
| "new_requests _ = {}"

definition ucx_promises :: "'w ucx_api \<Rightarrow> ('w \<Rightarrow> pending_view) \<Rightarrow> ('w \<Rightarrow> nat set) \<Rightarrow> bool" where
  "ucx_promises api pending held \<longleftrightarrow>
     (\<forall>w. finite (dom (pending w))) \<and>
     (\<forall>ep buf cnt tag dt sid w ptr cs w'. ucp_tag_send_nbx api ep buf cnt tag dt sid w = (ptr, cs, w') \<longrightarrow>
        completes (started P2p_Send sid ptr (pending w)) cs = Some (pending w') \<and>
        held w' = held w \<union> new_requests ptr \<and> new_requests ptr \<inter> held w = {}) \<and>
     (\<forall>buf cnt tag bits dt sid w ptr cs w'. ucp_tag_recv_nbx api buf cnt tag bits dt sid w = (ptr, cs, w') \<longrightarrow>
        completes (started P2p_Recv sid ptr (pending w)) cs = Some (pending w') \<and>
        held w' = held w \<union> new_requests ptr \<and> new_requests ptr \<inter> held w = {}) \<and>
     (\<forall>w cs w'. ucp_worker_progress api w = (cs, w') \<longrightarrow> completes (pending w) cs = Some (pending w') \<and> held w' = held w) \<and>
     (\<forall>r w. ucp_request_check_status api r w = UCS_INPROGRESS \<longleftrightarrow> pending w r \<noteq> None) \<and>
     (\<forall>r w. r \<in> held w \<longrightarrow> pending w r = None \<longrightarrow>
        pending (ucp_request_free api r w) = pending w \<and> held (ucp_request_free api r w) = held w - {r}) \<and>
     (\<forall>d w st obj w'. ucp_dt_create_generic api d w = (st, obj, w') \<longrightarrow> pending w' = pending w \<and> held w' = held w) \<and>
     (\<forall>rk w st ep w'. ep_create api rk w = (st, ep, w') \<longrightarrow> pending w' = pending w \<and> held w' = held w)"

lemma ucx_promisesD:
  assumes "ucx_promises api pending held"
  shows "ucp_tag_send_nbx api ep buf cnt tag dt sid w = (ptr, cs, w') \<Longrightarrow>
      completes (started P2p_Send sid ptr (pending w)) cs = Some (pending w') \<and>
      held w' = held w \<union> new_requests ptr \<and> new_requests ptr \<inter> held w = {}"
    and "ucp_tag_recv_nbx api buf cnt tag bits dt sid w = (ptr, cs, w') \<Longrightarrow>
      completes (started P2p_Recv sid ptr (pending w)) cs = Some (pending w') \<and>
      held w' = held w \<union> new_requests ptr \<and> new_requests ptr \<inter> held w = {}"
    and "ucp_worker_progress api w = (cs, w') \<Longrightarrow> completes (pending w) cs = Some (pending w') \<and> held w' = held w"
    and "ucp_request_check_status api r w = UCS_INPROGRESS \<longleftrightarrow> pending w r \<noteq> None"
    and "r \<in> held w \<Longrightarrow> pending w r = None \<Longrightarrow>
      pending (ucp_request_free api r w) = pending w \<and> held (ucp_request_free api r w) = held w - {r}"
    and "ucp_dt_create_generic api d w = (dst, obj, w') \<Longrightarrow> pending w' = pending w \<and> held w' = held w"
    and "ep_create api rk w = (est, ep, w') \<Longrightarrow> pending w' = pending w \<and> held w' = held w"
proof -
  note u = assms [unfolded ucx_promises_def]
  show "ucp_tag_send_nbx api ep buf cnt tag dt sid w = (ptr, cs, w') \<Longrightarrow>
      completes (started P2p_Send sid ptr (pending w)) cs = Some (pending w') \<and>
      held w' = held w \<union> new_requests ptr \<and> new_requests ptr \<inter> held w = {}"
    using u [THEN conjunct2, THEN conjunct1] by blast
  show "ucp_tag_recv_nbx api buf cnt tag bits dt sid w = (ptr, cs, w') \<Longrightarrow>
      completes (started P2p_Recv sid ptr (pending w)) cs = Some (pending w') \<and>
      held w' = held w \<union> new_requests ptr \<and> new_requests ptr \<inter> held w = {}"
    using u [THEN conjunct2, THEN conjunct2, THEN conjunct1] by blast
  show "ucp_worker_progress api w = (cs, w') \<Longrightarrow> completes (pending w) cs = Some (pending w') \<and> held w' = held w"
    using u [THEN conjunct2, THEN conjunct2, THEN conjunct2, THEN conjunct1] by blast
  show "ucp_request_check_status api r w = UCS_INPROGRESS \<longleftrightarrow> pending w r \<noteq> None"
    using u [THEN conjunct2, THEN conjunct2, THEN conjunct2, THEN conjunct2, THEN conjunct1] by blast
  show "r \<in> held w \<Longrightarrow> pending w r = None \<Longrightarrow>
      pending (ucp_request_free api r w) = pending w \<and> held (ucp_request_free api r w) = held w - {r}"
    using u [THEN conjunct2, THEN conjunct2, THEN conjunct2, THEN conjunct2, THEN conjunct2, THEN conjunct1] by blast
  show "ucp_dt_create_generic api d w = (dst, obj, w') \<Longrightarrow> pending w' = pending w \<and> held w' = held w"
    using u [THEN conjunct2, THEN conjunct2, THEN conjunct2, THEN conjunct2, THEN conjunct2, THEN conjunct2, THEN conjunct1] by blast
  show "ep_create api rk w = (est, ep, w') \<Longrightarrow> pending w' = pending w \<and> held w' = held w"
    using u [THEN conjunct2, THEN conjunct2, THEN conjunct2, THEN conjunct2, THEN conjunct2, THEN conjunct2, THEN conjunct2] by blast
qed

subsection \<open>The accounting invariant\<close>

definition inflight :: "ucg_planc_ucx_p2p_state \<Rightarrow> p2p_kind \<Rightarrow> c_int" where
  "inflight st kind = (case kind of P2p_Send \<Rightarrow> ps_inflight_send_cnt st | P2p_Recv \<Rightarrow> ps_inflight_recv_cnt st)"

definition outstanding :: "pending_view \<Rightarrow> p2p_kind \<Rightarrow> nat \<Rightarrow> nat" where
  "outstanding V kind sid = card {r. V r = Some (kind, sid)}"

lemma inflight_count [simp]:
  "inflight (count_down k st) k' = inflight st k' - (if k' = k then 1 else 0)"
  "inflight (count_up k st) k' = inflight st k' + (if k' = k then 1 else 0)"
  "inflight (st\<lparr>ps_status := x\<rparr>) k' = inflight st k'"
  by (cases k; cases k'; simp add: inflight_def count_down_def count_up_def)+

lemma outstanding_remove:
  assumes "finite (dom V)" and "V r = Some (k, sid)"
  shows "int (outstanding (V(r := None)) k' sid') = int (outstanding V k' sid') - (if (k', sid') = (k, sid) then 1 else 0)"
proof -
  have f: "finite {r. V r = Some x}" for x by (rule finite_subset [OF _ assms(1)]) auto
  have "{q. (V(r := None)) q = Some (k', sid')} = {q. V q = Some (k', sid')} - {r}" by auto
  moreover have "r \<in> {q. V q = Some (k, sid)}" using assms(2) by simp
  moreover have "(k', sid') \<noteq> (k, sid) \<Longrightarrow> {q. V q = Some (k', sid')} - {r} = {q. V q = Some (k', sid')}" using assms(2) by auto
  moreover have "0 < card {q. V q = Some (k, sid)}" using f assms(2) by (auto simp: card_gt_0_iff)
  ultimately show ?thesis unfolding outstanding_def
    by (cases "(k', sid') = (k, sid)") (simp_all add: card_Diff_singleton of_nat_diff)
qed

lemma outstanding_add:
  assumes "finite (dom V)" and "V r = None"
  shows "outstanding (V(r \<mapsto> (k, sid))) k' sid' = outstanding V k' sid' + (if (k', sid') = (k, sid) then 1 else 0)"
proof -
  have f: "finite {r. V r = Some x}" for x by (rule finite_subset [OF _ assms(1)]) auto
  have "{q. (V(r \<mapsto> (k, sid))) q = Some (k', sid')} = {q. V q = Some (k', sid')} \<union> (if (k', sid') = (k, sid) then {r} else {})"
    using assms(2) by auto
  then show ?thesis using f assms(2) by (simp add: outstanding_def)
qed

text \<open>
  In the middle of a call the counters may lag one behind for the request that is being posted, \<open>late\<close>,
  and \<open>V\<close> are the requests whose callbacks have not run yet.  \<open>owned\<close> are the requests that the callers of
  \<open>ucg_planc_ucx_p2p_test\<close> will free.
\<close>

definition accounts ::
    "('w \<Rightarrow> nat set) \<Rightarrow> pending_view \<Rightarrow> (p2p_kind \<times> nat) option \<Rightarrow> nat set \<Rightarrow> ('s, 'w) ucx_proc \<Rightarrow> bool" where
  "accounts held V late owned p \<longleftrightarrow> finite (dom V) \<and>
     (\<forall>k sid. inflight (ux_states p sid) k = int (outstanding V k sid) - (if late = Some (k, sid) then 1 else 0)) \<and>
     {r. ux_free_in_cb p r} \<subseteq> dom V \<and> {r. ux_free_in_cb p r} \<inter> owned = {} \<and>
     held (ux_world p) = {r. ux_free_in_cb p r} \<union> owned \<and> dom V \<subseteq> held (ux_world p)"

lemma accounts_parts:
  assumes "accounts held V late owned p"
  shows "finite (dom V)"
    and "inflight (ux_states p sid) k = int (outstanding V k sid) - (if late = Some (k, sid) then 1 else 0)"
    and "{r. ux_free_in_cb p r} \<subseteq> dom V" and "{r. ux_free_in_cb p r} \<inter> owned = {}"
    and "held (ux_world p) = {r. ux_free_in_cb p r} \<union> owned" and "dom V \<subseteq> held (ux_world p)"
  using assms unfolding accounts_def by blast+

lemma completes_mono: "completes V cs = Some V' \<Longrightarrow> V' r = Some x \<Longrightarrow> V r = Some x"
  by (induction V cs rule: completes.induct) (auto split: if_splits)

lemma completes_gone: "completes V cs = Some V' \<Longrightarrow> c \<in> set cs \<Longrightarrow> V' (uc_request c) = None"
proof (induction V cs rule: completes.induct)
  case (2 V c' cs)
  have n: "V (uc_request c') = Some (uc_kind c', uc_user_data c')" "completes (V(uc_request c' := None)) cs = Some V'"
    using 2(2) by (simp_all split: if_splits)
  show ?case
  proof (cases "c = c'")
    case True
    with n(2) show ?thesis using completes_mono [of "V(uc_request c' := None)" cs V' "uc_request c"] True
      by (cases "V' (uc_request c)") auto
  next
    case False
    then show ?thesis using 2(1) [OF n] 2(3) by simp
  qed
qed simp

lemma done_accounts:
  assumes u: "ucx_promises api pending held"
  assumes "accounts held V late owned p" and "V (uc_request c) = Some (uc_kind c, uc_user_data c)"
    and "pending (ux_world p) (uc_request c) = None"
  shows "accounts held (V(uc_request c := None)) late owned (p2p_done api c p) \<and>
    pending (ux_world (p2p_done api c p)) = pending (ux_world p)"
proof -
  let ?r = "uc_request c"
  note fin = accounts_parts(1) [OF assms(2)] and a2 = accounts_parts(2) [OF assms(2)] and a3 = accounts_parts(3) [OF assms(2)]
    and a4 = accounts_parts(4) [OF assms(2)] and a5 = accounts_parts(5) [OF assms(2)] and a6 = accounts_parts(6) [OF assms(2)]
  note o = outstanding_remove [OF fin assms(3)]
  have r: "?r \<in> held (ux_world p)" using a6 assms(3) by blast
  note fr = ucx_promisesD(5) [OF u r assms(4)]
  have cnt: "inflight (ux_states (p2p_done api c p) sid) k =
      int (outstanding (V(?r := None)) k sid) - (if late = Some (k, sid) then 1 else 0)" for k sid
    using a2 [of sid k] unfolding o by (auto simp: p2p_done_def set_state_def ucg_planc_ucx_p2p_req_free_def Let_def)
  show ?thesis
  proof (cases "ux_free_in_cb p ?r")
    case True
    have w: "ux_world (p2p_done api c p) = ucp_request_free api ?r (ux_world p)"
      "ux_free_in_cb (p2p_done api c p) = (ux_free_in_cb p)(?r := False)"
      using True by (simp_all add: p2p_done_def set_state_def ucg_planc_ucx_p2p_req_free_def Let_def)
    have "?r \<notin> owned" using a4 True by blast
    have d: "{q. ((ux_free_in_cb p)(?r := False)) q} = {q. ux_free_in_cb p q} - {?r}" "dom (V(?r := None)) = dom V - {?r}" by auto
    show ?thesis unfolding accounts_def w(1) fr [THEN conjunct1] fr [THEN conjunct2] w(2) d
    proof (intro conjI allI cnt)
      show "held (ux_world p) - {?r} = {q. ux_free_in_cb p q} - {?r} \<union> owned" using a5 \<open>?r \<notin> owned\<close> by blast
    qed (use fin a3 a4 a6 in \<open>auto\<close>)
  next
    case False
    have w: "ux_world (p2p_done api c p) = ux_world p" "ux_free_in_cb (p2p_done api c p) = ux_free_in_cb p"
      using False by (simp_all add: p2p_done_def set_state_def Let_def)
    have "{q. ux_free_in_cb p q} \<subseteq> dom (V(?r := None))" using a3 False by auto
    moreover have "dom (V(?r := None)) \<subseteq> held (ux_world p)" using a6 by auto
    ultimately show ?thesis unfolding accounts_def w using fin a4 a5 by (intro conjI allI cnt) simp_all
  qed
qed

lemma callbacks_account:
  assumes u: "ucx_promises api pending held"
  assumes "accounts held V late owned p" and "completes V cs = Some V'" and "V' = pending (ux_world p)"
  shows "accounts held V' late owned (run_callbacks api cs p) \<and> pending (ux_world (run_callbacks api cs p)) = V'"
  using assms(2-)
proof (induction cs arbitrary: V p)
  case (Cons c cs)
  have v: "V (uc_request c) = Some (uc_kind c, uc_user_data c)" and
    n: "completes (V(uc_request c := None)) cs = Some V'" using Cons.prems(2) by (simp_all split: if_splits)
  have "pending (ux_world p) (uc_request c) = None"
    using completes_gone [OF Cons.prems(2), of c] Cons.prems(3) by simp
  note d = done_accounts [OF u Cons.prems(1) v this]
  from Cons.IH [OF conjunct1 [OF d] n] d Cons.prems(3) show ?case by (simp add: run_callbacks_def)
qed (simp add: run_callbacks_def)

definition p2p_ok :: "('w \<Rightarrow> pending_view) \<Rightarrow> ('w \<Rightarrow> nat set) \<Rightarrow> nat set \<Rightarrow> ('s, 'w) ucx_proc \<Rightarrow> bool" where
  "p2p_ok pending held owned p = accounts held (pending (ux_world p)) None owned p"

text \<open>The parts of the process that the accounts do not look at.\<close>

lemma accounts_cong:
  assumes "ux_states p' = ux_states p" and "ux_free_in_cb p' = ux_free_in_cb p" and "held (ux_world p') = held (ux_world p)"
  shows "accounts held V late owned p' = accounts held V late owned p"
  by (simp add: accounts_def assms)

lemma progress_ok:
  assumes u: "ucx_promises api pending held" and "p2p_ok pending held owned p" shows "p2p_ok pending held owned (worker_progress api p)"
proof -
  obtain cs w where p: "ucp_worker_progress api (ux_world p) = (cs, w)" by fastforce
  note l = ucx_promisesD(3) [OF u p]
  have "accounts held (pending (ux_world p)) None owned (p\<lparr>ux_world := w\<rparr>)"
    using assms(2) l accounts_cong [of "p\<lparr>ux_world := w\<rparr>" p] by (simp add: p2p_ok_def)
  from callbacks_account [OF u this conjunct1 [OF l]] show ?thesis by (simp add: worker_progress_def p p2p_ok_def)
qed

lemma posted_account:
  assumes u: "ucx_promises api pending held"
  assumes "accounts held (pending (ux_world p)) (Some (kind, pp_state params)) (insert r owned) p" and "r \<notin> owned"
  shows "case p2p_posted api kind params r p of (req, p') \<Rightarrow> p2p_ok pending held (owned \<union> set_option req) p'"
proof -
  let ?sid = "pp_state params" and ?V = "pending (ux_world p)"
  note fin = accounts_parts(1) [OF assms(2)] and a2 = accounts_parts(2) [OF assms(2)] and a3 = accounts_parts(3) [OF assms(2)]
    and a4 = accounts_parts(4) [OF assms(2)] and a5 = accounts_parts(5) [OF assms(2)] and a6 = accounts_parts(6) [OF assms(2)]
  have fr: "\<not> ux_free_in_cb p r" using a4 by blast
  define p2 where "p2 = set_state ?sid (count_up kind (ux_states p ?sid)) (p\<lparr>ux_free_in_cb := (ux_free_in_cb p)(r := True)\<rparr>)"
  have p2: "ux_world p2 = ux_world p" "ux_free_in_cb p2 = (ux_free_in_cb p)(r := True)" by (simp_all add: p2_def set_state_def)
  have cnt: "inflight (ux_states p2 sid) k = int (outstanding ?V k sid)" for sid k
    using a2 [of sid k] by (auto simp: p2_def set_state_def)
  have s2: "{q. ux_free_in_cb p2 q} = insert r {q. ux_free_in_cb p q}" by (auto simp: p2)
  let ?c = "ucp_request_check_status api r (ux_world p)"
  have posted: "p2p_posted api kind params r p =
      (if ?c \<noteq> UCS_INPROGRESS then (None, ucg_planc_ucx_p2p_req_free api r p2)
       else if pp_want params then (Some r, p2\<lparr>ux_free_in_cb := (ux_free_in_cb p2)(r := False)\<rparr>) else (None, p2))"
    by (simp add: p2p_posted_def Let_def p2_def set_state_def)
  show ?thesis
  proof (cases "?c = UCS_INPROGRESS")
    case False
    then have pn: "?V r = None" using ucx_promisesD(4) [OF u, of r "ux_world p"] by blast
    have r: "r \<in> held (ux_world p)" using a5 by blast
    note f = ucx_promisesD(5) [OF u r pn]
    let ?p3 = "ucg_planc_ucx_p2p_req_free api r p2"
    have w: "ux_states ?p3 = ux_states p2" "ux_world ?p3 = ucp_request_free api r (ux_world p)" "{q. ux_free_in_cb ?p3 q} = {q. ux_free_in_cb p q}"
      using fr by (auto simp: ucg_planc_ucx_p2p_req_free_def p2)
    have "p2p_ok pending held owned ?p3"
      unfolding p2p_ok_def accounts_def w(1) w(2) w(3) f [THEN conjunct1] f [THEN conjunct2]
    proof (intro conjI allI)
      show "held (ux_world p) - {r} = {q. ux_free_in_cb p q} \<union> owned" using a5 assms(3) fr by blast
      show "dom ?V \<subseteq> held (ux_world p) - {r}" using a6 pn by blast
    qed (use fin a3 a4 cnt in auto)
    then show ?thesis using False by (simp add: posted)
  next
    case True
    then have pr: "r \<in> dom ?V" using ucx_promisesD(4) [OF u, of r "ux_world p"] by blast
    show ?thesis
    proof (cases "pp_want params")
      case want: True
      let ?p3 = "p2\<lparr>ux_free_in_cb := (ux_free_in_cb p2)(r := False)\<rparr>"
      have w: "ux_states ?p3 = ux_states p2" "ux_world ?p3 = ux_world p" "{q. ux_free_in_cb ?p3 q} = {q. ux_free_in_cb p q}"
        using fr by (auto simp: p2)
      have "p2p_ok pending held (insert r owned) ?p3"
        unfolding p2p_ok_def accounts_def w(1) w(2) w(3) by (intro conjI allI fin a3 a4 a5 a6) (simp add: cnt)
      then show ?thesis using True want by (simp add: posted)
    next
      case False
      have "p2p_ok pending held owned p2"
        unfolding p2p_ok_def accounts_def p2(1) s2
      proof (intro conjI allI)
        show "held (ux_world p) = insert r {q. ux_free_in_cb p q} \<union> owned" using a5 by blast
      qed (use fin a3 a4 a6 pr cnt assms(3) in auto)
      then show ?thesis using True False by (simp add: posted)
    qed
  qed
qed

lemma returned_account:
  assumes u: "ucx_promises api pending held"
  assumes "p2p_ok pending held owned p" and "completes (started kind (pp_state params) ptr (pending (ux_world p))) cs = Some (pending w)"
    and "held w = held (ux_world p) \<union> new_requests ptr" and "new_requests ptr \<inter> held (ux_world p) = {}"
  shows "case p2p_returned api kind params ptr (run_callbacks api cs (p\<lparr>ux_world := w\<rparr>)) of
    (st, req, p') \<Rightarrow> p2p_ok pending held (owned \<union> set_option req) p'"
proof -
  let ?V = "pending (ux_world p)" and ?p1 = "p\<lparr>ux_world := w\<rparr>" and ?k = "(kind, pp_state params)"
  note ok = assms(2) [unfolded p2p_ok_def]
  note fin = accounts_parts(1) [OF ok] and a2 = accounts_parts(2) [OF ok] and a3 = accounts_parts(3) [OF ok]
    and a4 = accounts_parts(4) [OF ok] and a5 = accounts_parts(5) [OF ok] and a6 = accounts_parts(6) [OF ok]
  show ?thesis
  proof (cases ptr)
    case (Ptr_Req r)
    then have c: "completes (?V(r \<mapsto> ?k)) cs = Some (pending w)" and h: "held w = insert r (held (ux_world p))" "r \<notin> held (ux_world p)"
      using assms(3-5) by simp_all
    have rn: "?V r = None" using h(2) a6 by blast
    have "accounts held (?V(r \<mapsto> ?k)) (Some ?k) (insert r owned) ?p1"
      unfolding accounts_def
    proof (intro conjI allI)
      fix k sid
      show "inflight (ux_states ?p1 sid) k = int (outstanding (?V(r \<mapsto> ?k)) k sid) - (if Some ?k = Some (k, sid) then 1 else 0)"
        using a2 [of sid k] outstanding_add [OF fin rn, of kind "pp_state params" k sid] by auto
      show "held (ux_world ?p1) = {q. ux_free_in_cb ?p1 q} \<union> insert r owned" using h a5 by auto
      show "{q. ux_free_in_cb ?p1 q} \<inter> insert r owned = {}" using a3 a4 rn by auto
      show "dom (?V(r \<mapsto> ?k)) \<subseteq> held (ux_world ?p1)" using a6 h by auto
    qed (use fin a3 in auto)
    note d = callbacks_account [OF u this c]
    have "r \<notin> owned" using h(2) a5 by blast
    with posted_account [OF u, of "run_callbacks api cs ?p1" kind params r owned] d show ?thesis
      by (simp add: p2p_returned_def Ptr_Req split: prod.splits)
  next
    case Ptr_Null
    then have "accounts held ?V None owned ?p1" using assms(2,4) accounts_cong [of ?p1 p] by (simp add: p2p_ok_def)
    from callbacks_account [OF u this] assms(3) Ptr_Null show ?thesis by (simp add: p2p_returned_def p2p_ok_def)
  next
    case (Ptr_Err e)
    then have "accounts held ?V None owned ?p1" using assms(2,4) accounts_cong [of ?p1 p] by (simp add: p2p_ok_def)
    from callbacks_account [OF u this] assms(3) Ptr_Err show ?thesis by (simp add: p2p_returned_def p2p_ok_def)
  qed
qed

subsection \<open>Every call keeps the accounts\<close>

lemma p2p_ok_cong:
  assumes "ux_states p' = ux_states p" and "ux_free_in_cb p' = ux_free_in_cb p"
    and "pending (ux_world p') = pending (ux_world p)" and "held (ux_world p') = held (ux_world p)"
  shows "p2p_ok pending held owned p' = p2p_ok pending held owned p"
  unfolding p2p_ok_def assms(3) by (rule accounts_cong [OF assms(1,2,4)])

lemma get_dt_ok:
  assumes u: "ucx_promises api pending held" and "p2p_ok pending held owned p" and "ucg_planc_ucx_p2p_get_ucp_dt api d p = (st, obj, p')"
  shows "p2p_ok pending held owned p'"
proof -
  obtain cst o' w where c: "ucp_dt_create_generic api d (ux_world p) = (cst, o', w)" by (metis prod_cases3)
  have w: "ux_states p' = ux_states p \<and> ux_free_in_cb p' = ux_free_in_cb p \<and> (ux_world p' = ux_world p \<or> ux_world p' = w)"
    using assms(3)
    by (cases "oq_obj (dt_opaque (ux_dts p d)) \<noteq> 0"; cases "ucg_dt_is_contiguous (ux_dts p d)"; cases "cst = UCS_OK")
      (simp_all add: ucg_planc_ucx_p2p_get_ucp_dt_def Let_def c, auto)
  then have "pending (ux_world p') = pending (ux_world p) \<and> held (ux_world p') = held (ux_world p)"
    using ucx_promisesD(6) [OF u c] by metis
  then show ?thesis by (intro iffD2 [OF p2p_ok_cong assms(2)]) (simp_all add: w)
qed

lemma get_ep_ok:
  assumes u: "ucx_promises api pending held" and "p2p_ok pending held owned p" and "ucg_planc_ucx_p2p_get_ucp_ep api chk vg vr p = Some (ep, p')"
  shows "p2p_ok pending held owned p'"
proof -
  have w: "ux_states p' = ux_states p \<and> ux_free_in_cb p' = ux_free_in_cb p \<and>
      (ux_world p' = ux_world p \<or> (\<exists>rk st e. ep_create api rk (ux_world p) = (st, e, ux_world p')))"
    using assms(3) by (auto simp: ucg_planc_ucx_p2p_get_ucp_ep_def Let_def split: bind_splits if_splits prod.splits)
  then have "pending (ux_world p') = pending (ux_world p) \<and> held (ux_world p') = held (ux_world p)"
    using ucx_promisesD(7) [OF u] by auto
  then show ?thesis by (intro iffD2 [OF p2p_ok_cong assms(2)]) (simp_all add: w)
qed

lemma get_worker_ok:
  "ucg_planc_ucx_context_get_worker api p = Some (wk, p') \<Longrightarrow>
   p2p_ok pending held owned p' = p2p_ok pending held owned p \<and> ux_states p' = ux_states p \<and> ux_world p' = ux_world p \<and>
   ux_n_polls p' = ux_n_polls p \<and> (wk \<longleftrightarrow> ux_worker_set p \<or> ux_use_oob p)"
  using p2p_ok_cong [of p' p pending held owned]
  by (auto simp: ucg_planc_ucx_context_get_worker_def split: if_splits)

lemma isend_ok:
  assumes u: "ucx_promises api pending held" and "p2p_ok pending held owned p"
    and "ucg_planc_ucx_p2p_isend api chk buf cnt dt vr tag vg params p = Some (st, req, p')"
  shows "p2p_ok pending held (owned \<union> set_option req) p'"
proof (cases "(chk \<and> dt = C_NULL) \<or> vr = UCG_INVALID_RANK")
  case False
  obtain dst obj p1 where d: "ucg_planc_ucx_p2p_get_ucp_dt api dt p = (dst, obj, p1)" by (metis prod_cases3)
  note ok1 = get_dt_ok [OF u assms(2) d]
  show ?thesis
  proof (cases "dst = UCG_OK")
    case True
    with assms(3) False d obtain ep p2 where e: "ucg_planc_ucx_p2p_get_ucp_ep api chk vg vr p1 = Some (ep, p2)"
      by (cases chk) (auto simp: ucg_planc_ucx_p2p_isend_def split: bind_splits if_splits)
    note ok2 = get_ep_ok [OF u ok1 e]
    show ?thesis
    proof (cases "ep = C_NULL")
      case True
      then show ?thesis using assms(3) False d e \<open>dst = UCG_OK\<close> ok2 by (cases chk) (auto simp: ucg_planc_ucx_p2p_isend_def)
    next
      case ep: False
      let ?tag = "ucg_planc_ucx_make_tag tag (gr_myrank (pp_group params)) (gr_id (pp_group params))"
      obtain ptr cs w where s: "ucp_tag_send_nbx api ep buf cnt ?tag obj (pp_state params) (ux_world p2) = (ptr, cs, w)" by (metis prod_cases3)
      have "p2p_returned api P2p_Send params ptr (run_callbacks api cs (p2\<lparr>ux_world := w\<rparr>)) = (st, req, p')"
        using assms(3) False d e \<open>dst = UCG_OK\<close> ep s by (cases chk) (simp_all add: ucg_planc_ucx_p2p_isend_def)
      with ucx_promisesD(1) [OF u s] returned_account [OF u ok2, of P2p_Send params ptr cs w] show ?thesis by simp
    qed
  next
    case bad: False
    have "st = dst \<and> req = None \<and> p' = p1" using assms(3) False bad d by (cases chk) (auto simp: ucg_planc_ucx_p2p_isend_def)
    then show ?thesis using ok1 by simp
  qed
next
  case True
  then have "ucg_planc_ucx_p2p_isend api chk buf cnt dt vr tag vg params p = Some (UCG_ERR_INVALID_PARAM, None, p)"
    unfolding ucg_planc_ucx_p2p_isend_def by (auto simp only: if_True if_False simp_thms if_cancel)
  then show ?thesis using assms(2,3) by simp
qed

lemma irecv_ok:
  assumes u: "ucx_promises api pending held" and "p2p_ok pending held owned p"
    and "ucg_planc_ucx_p2p_irecv api chk buf cnt dt vr tag vg params p = Some (st, req, p')"
  shows "p2p_ok pending held (owned \<union> set_option req) p'"
proof (cases "(chk \<and> dt = C_NULL) \<or> vr = UCG_INVALID_RANK")
  case False
  obtain dst obj p1 where d: "ucg_planc_ucx_p2p_get_ucp_dt api dt p = (dst, obj, p1)" by (metis prod_cases3)
  note ok1 = get_dt_ok [OF u assms(2) d]
  show ?thesis
  proof (cases "dst = UCG_OK")
    case True
    with assms(3) False d obtain sr wk p2 where e: "ucg_rank_map_eval chk (vg_rank_map vg) vr = Some sr"
      "ucg_planc_ucx_context_get_worker api p1 = Some (wk, p2)"
      by (cases chk) (auto simp: ucg_planc_ucx_p2p_irecv_def Let_def split: bind_splits if_splits)
    then have ok2: "p2p_ok pending held owned p2" using get_worker_ok [OF e(2)] ok1 by simp
    show ?thesis
    proof (cases wk)
      case False
      then show ?thesis using assms(3) \<open>\<not> (_ \<or> _)\<close> d e \<open>dst = UCG_OK\<close> ok2 by (cases chk) (auto simp: ucg_planc_ucx_p2p_irecv_def)
    next
      case wk: True
      let ?tag = "ucg_planc_ucx_make_tag tag sr (gr_id (vg_group vg))"
      obtain ptr cs w where s: "ucp_tag_recv_nbx api buf cnt ?tag UCG_P2P_TAG_MASK obj (pp_state params) (ux_world p2) = (ptr, cs, w)" by (metis prod_cases3)
      have "p2p_returned api P2p_Recv params ptr (run_callbacks api cs (p2\<lparr>ux_world := w\<rparr>)) = (st, req, p')"
        using assms(3) False d e \<open>dst = UCG_OK\<close> wk s by (cases chk) (simp_all add: ucg_planc_ucx_p2p_irecv_def)
      with ucx_promisesD(2) [OF u s] returned_account [OF u ok2, of P2p_Recv params ptr cs w] show ?thesis by simp
    qed
  next
    case bad: False
    have "st = dst \<and> req = None \<and> p' = p1" using assms(3) False bad d by (cases chk) (auto simp: ucg_planc_ucx_p2p_irecv_def)
    then show ?thesis using ok1 by simp
  qed
next
  case True
  then have "ucg_planc_ucx_p2p_irecv api chk buf cnt dt vr tag vg params p = Some (UCG_ERR_INVALID_PARAM, None, p)"
    unfolding ucg_planc_ucx_p2p_irecv_def by (auto simp only: if_True if_False simp_thms if_cancel)
  then show ?thesis using assms(2,3) by simp
qed

lemma polls_ok:
  assumes u: "ucx_promises api pending held"
  shows "p2p_ok pending held owned p \<Longrightarrow> p2p_ok pending held owned (progress_polls api k p)"
  by (induction k arbitrary: p) (simp_all add: progress_ok [OF u])

lemma test_polls_ok:
  assumes u: "ucx_promises api pending held"
  shows "p2p_ok pending held owned p \<Longrightarrow> r \<in> owned \<Longrightarrow> p2p_test_polls api k r p = (st, req, p') \<Longrightarrow>
    p2p_ok pending held (if req = None then owned - {r} else owned) p'"
proof (induction k arbitrary: p)
  case (Suc k)
  let ?c = "ucp_request_check_status api r (ux_world p)"
  show ?case
  proof (cases "?c = UCS_INPROGRESS")
    case True
    then show ?thesis using Suc.IH [OF progress_ok [OF u Suc.prems(1)] Suc.prems(2)] Suc.prems(3) by (simp add: Let_def)
  next
    case False
    let ?V = "pending (ux_world p)" and ?p = "ucg_planc_ucx_p2p_req_free api r p"
    note ok = Suc.prems(1) [unfolded p2p_ok_def]
    have pn: "?V r = None" using ucx_promisesD(4) [OF u, of r "ux_world p"] False by blast
    note a = accounts_parts [OF ok]
    have r: "r \<in> held (ux_world p)" using a(5) Suc.prems(2) by blast
    note f = ucx_promisesD(5) [OF u r pn]
    have fr: "\<not> ux_free_in_cb p r" using a(4) Suc.prems(2) by blast
    have w: "ux_states ?p = ux_states p" "ux_world ?p = ucp_request_free api r (ux_world p)" "{q. ux_free_in_cb ?p q} = {q. ux_free_in_cb p q}"
      using fr by (auto simp: ucg_planc_ucx_p2p_req_free_def)
    have "p2p_ok pending held (owned - {r}) ?p"
      unfolding p2p_ok_def accounts_def w(1) w(2) w(3) f [THEN conjunct1] f [THEN conjunct2]
    proof (intro conjI allI a(1-3))
      show "held (ux_world p) - {r} = {q. ux_free_in_cb p q} \<union> (owned - {r})" using a(5) fr by blast
      show "dom ?V \<subseteq> held (ux_world p) - {r}" using a(6) pn by blast
      show "{q. ux_free_in_cb p q} \<inter> (owned - {r}) = {}" using a(4) by blast
    qed
    then show ?thesis using Suc.prems(3) False by (auto simp: Let_def)
  qed
qed auto

text \<open>Nothing in flight means that UCX holds no request of the state; that is what \<open>testall\<close> waits for.\<close>

lemma nothing_outstanding:
  assumes "p2p_ok pending held owned p" and "nothing_inflight (ux_states p sid)"
  shows "pending (ux_world p) r \<noteq> Some (kind, sid)"
proof
  assume r: "pending (ux_world p) r = Some (kind, sid)"
  note a = accounts_parts [OF assms(1) [unfolded p2p_ok_def]]
  have "inflight (ux_states p sid) kind = 0" using assms(2) by (cases kind) (simp_all add: nothing_inflight_def inflight_def)
  then have "card {r. pending (ux_world p) r = Some (kind, sid)} = 0" using a(2) [of sid kind] by (simp add: outstanding_def)
  moreover have "finite {r. pending (ux_world p) r = Some (kind, sid)}" by (rule finite_subset [OF _ a(1)]) auto
  ultimately show False using r by auto
qed

lemma testall_polls_ok:
  assumes u: "ucx_promises api pending held"
  shows "p2p_ok pending held owned p \<Longrightarrow> p2p_testall_polls api k sid p = (st, p') \<Longrightarrow>
    p2p_ok pending held owned p' \<and>
    (st = UCG_INPROGRESS \<or> st = ps_status (ux_states p' sid) \<and> nothing_inflight (ux_states p' sid))"
proof (induction k arbitrary: p)
  case (Suc k)
  from Suc.IH [OF progress_ok [OF u Suc.prems(1)]] Suc.prems(2) progress_ok [OF u Suc.prems(1)]
  show ?case by (auto simp: Let_def split: if_splits)
qed simp

lemma testall_ok:
  assumes u: "ucx_promises api pending held" and "p2p_ok pending held owned p"
    and "ucg_planc_ucx_p2p_testall api sid p = Some (st, p')"
  shows "p2p_ok pending held owned p' \<and>
    (st = UCG_INPROGRESS \<or> st = ps_status (ux_states p' sid) \<and> nothing_inflight (ux_states p' sid) \<or>
     \<not> (ux_worker_set p \<or> ux_use_oob p))"
proof (cases "nothing_inflight (ux_states p sid)")
  case True
  then show ?thesis using assms(2,3) by (auto simp: ucg_planc_ucx_p2p_testall_def)
next
  case False
  then obtain wk p1 where w: "ucg_planc_ucx_context_get_worker api p = Some (wk, p1)"
    using assms(3) by (auto simp: ucg_planc_ucx_p2p_testall_def split: bind_splits)
  note g = get_worker_ok [OF w, of pending held owned]
  then have ok1: "p2p_ok pending held owned p1" using assms(2) by simp
  show ?thesis
  proof (cases wk)
    case True
    then have "p2p_testall_polls api (ux_n_polls p1) sid p1 = (st, p')"
      using assms(3) False w by (simp add: ucg_planc_ucx_p2p_testall_def)
    then show ?thesis using testall_polls_ok [OF u ok1] by blast
  next
    case wk: False
    then have "p' = p1" using assms(3) False w by (simp add: ucg_planc_ucx_p2p_testall_def)
    moreover have "\<not> (ux_worker_set p \<or> ux_use_oob p)" using g wk by blast
    ultimately show ?thesis using ok1 by blast
  qed
qed

subsection \<open>Runs\<close>

text \<open>
  What a process does: it posts, tests and progresses in any order, with the p2p states of any number of operations; an operation resets
  its state when nothing of it is in flight.  \<open>owned\<close> are the requests its callers hold.
\<close>

inductive p2p_run ::
    "'w ucx_api \<Rightarrow> bool \<Rightarrow> ('s, 'w) ucx_proc \<Rightarrow> ('s, 'w) ucx_proc \<Rightarrow> nat set \<Rightarrow> bool" for api chk p0 where
  start: "p2p_run api chk p0 p0 {}"
| isend: "p2p_run api chk p0 p owned \<Longrightarrow> ucg_planc_ucx_p2p_isend api chk buf cnt dt vr tag vg params p = Some (st, req, p') \<Longrightarrow>
    p2p_run api chk p0 p' (owned \<union> set_option req)"
| irecv: "p2p_run api chk p0 p owned \<Longrightarrow> ucg_planc_ucx_p2p_irecv api chk buf cnt dt vr tag vg params p = Some (st, req, p') \<Longrightarrow>
    p2p_run api chk p0 p' (owned \<union> set_option req)"
| test: "p2p_run api chk p0 p owned \<Longrightarrow> r \<in> owned \<Longrightarrow> ucg_planc_ucx_p2p_test api (Some r) p = Some (st, req, p') \<Longrightarrow>
    p2p_run api chk p0 p' (if req = None then owned - {r} else owned)"
| testall: "p2p_run api chk p0 p owned \<Longrightarrow> ucg_planc_ucx_p2p_testall api sid p = Some (st, p') \<Longrightarrow>
    p2p_run api chk p0 p' owned"
| progress: "p2p_run api chk p0 p owned \<Longrightarrow> ucg_planc_ucx_context_progress api p = Some (n, p') \<Longrightarrow>
    p2p_run api chk p0 p' owned"
| reset: "p2p_run api chk p0 p owned \<Longrightarrow> nothing_inflight (ux_states p sid) \<Longrightarrow>
    p2p_run api chk p0 (set_state sid ucg_planc_ucx_p2p_state_reset p) owned"

text \<open>A process that has not communicated yet.\<close>

definition p2p_idle :: "('w \<Rightarrow> pending_view) \<Rightarrow> ('w \<Rightarrow> nat set) \<Rightarrow> ('s, 'w) ucx_proc \<Rightarrow> bool" where
  "p2p_idle pending held p \<longleftrightarrow> pending (ux_world p) = Map.empty \<and> held (ux_world p) = {} \<and>
     (\<forall>r. \<not> ux_free_in_cb p r) \<and> (\<forall>sid. ux_states p sid = ucg_planc_ucx_p2p_state_reset)"

lemma reset_ok:
  assumes "p2p_ok pending held owned p" and "nothing_inflight (ux_states p sid)"
  shows "p2p_ok pending held owned (set_state sid ucg_planc_ucx_p2p_state_reset p)"
proof -
  note a = accounts_parts [OF assms(1) [unfolded p2p_ok_def]]
  have z: "inflight (ux_states p sid) k = 0" for k
    using assms(2) by (cases k) (simp_all add: nothing_inflight_def inflight_def)
  have "inflight ucg_planc_ucx_p2p_state_reset k = 0" for k
    by (cases k) (simp_all add: inflight_def ucg_planc_ucx_p2p_state_reset_def)
  then show ?thesis using a z a(2) [of sid]
    unfolding p2p_ok_def accounts_def by (auto simp: set_state_def)
qed

lemma run_ok:
  assumes u: "ucx_promises api pending held" and i: "p2p_idle pending held p0"
  shows "p2p_run api chk p0 p owned \<Longrightarrow> p2p_ok pending held owned p"
proof (induction rule: p2p_run.induct)
  case start
  then show ?case using i
    by (auto simp: p2p_ok_def accounts_def p2p_idle_def outstanding_def inflight_def ucg_planc_ucx_p2p_state_reset_def split: p2p_kind.splits)
next
  case (test p owned r st req p')
  from test(3) obtain wk p1 where w: "ucg_planc_ucx_context_get_worker api p = Some (wk, p1)"
    "(if \<not> wk then (UCG_ERR_INVALID_PARAM, Some r, p1) else p2p_test_polls api (ux_n_polls p1) r p1) = (st, req, p')"
    by (auto simp: ucg_planc_ucx_p2p_test_def split: bind_splits if_splits)
  have ok: "p2p_ok pending held owned p1" using get_worker_ok [OF w(1), of pending held owned] test.IH by simp
  show ?case
  proof (cases wk)
    case True
    then have "p2p_test_polls api (ux_n_polls p1) r p1 = (st, req, p')" using w(2) by simp
    then show ?thesis by (rule test_polls_ok [OF u ok test(2)])
  next
    case False
    then show ?thesis using w(2) ok by auto
  qed
next
  case (progress p owned n p')
  then obtain wk p1 where w: "ucg_planc_ucx_context_get_worker api p = Some (wk, p1)" "p' = progress_polls api (ux_n_polls p1) p1"
    by (auto simp: ucg_planc_ucx_context_progress_def split: bind_splits if_splits)
  have "p2p_ok pending held owned p1" using get_worker_ok [OF w(1), of pending held owned] progress.IH by simp
  then show ?case unfolding w(2) by (rule polls_ok [OF u])
qed (auto intro: isend_ok [OF u] irecv_ok [OF u] reset_ok dest: testall_ok [OF u])

text \<open>
  C8: whatever a process posts, tests and progresses, with any number of operations at once, a
  \<open>testall\<close> that stops saying \<open>UCG_INPROGRESS\<close> reports the status of the operation, and UCX then holds no request of it any
  more; the counters are the requests UCX still has; and every request object is owned by exactly one side, the callback that
  will free it or the caller that asked for it, so that none leaks and none is freed twice.
\<close>

theorem p2p_testall_waits:
  assumes "ucx_promises api pending held" and "p2p_idle pending held p0" and "p2p_run api chk p0 p owned"
    and "ucg_planc_ucx_p2p_testall api sid p = Some (st, p')" and "ux_worker_set p \<or> ux_use_oob p"
  shows "(st = UCG_INPROGRESS \<or> st = ps_status (ux_states p' sid) \<and> (\<forall>r kind. pending (ux_world p') r \<noteq> Some (kind, sid))) \<and>
    (\<forall>kind. inflight (ux_states p' sid) kind = int (card {r. pending (ux_world p') r = Some (kind, sid)})) \<and>
    held (ux_world p') = {r. ux_free_in_cb p' r} \<union> owned \<and> {r. ux_free_in_cb p' r} \<inter> owned = {}"
proof -
  note t = testall_ok [OF assms(1) run_ok [OF assms(1-3)] assms(4)]
  then have ok: "p2p_ok pending held owned p'" ..
  note a = accounts_parts [OF ok [unfolded p2p_ok_def]]
  have "st = UCG_INPROGRESS \<or> st = ps_status (ux_states p' sid) \<and> (\<forall>r kind. pending (ux_world p') r \<noteq> Some (kind, sid))"
    using t assms(5) nothing_outstanding [OF ok] by blast
  then show ?thesis using a(2,4,5) by (simp add: outstanding_def)
qed

text \<open>A UCX that sends at once and finishes a receive, one at a time, when it is progressed.\<close>

type_synonym small_ucx = "nat \<times> nat set \<times> (nat \<times> nat) option"

definition small_slot :: "small_ucx \<Rightarrow> (nat \<times> nat) option" where
  "small_slot w = (case w of (n, f, q) \<Rightarrow> (case q of None \<Rightarrow> None | Some (r, sid) \<Rightarrow> if r < n then q else None))"

definition small_ucx_api :: "small_ucx ucx_api" where
  "small_ucx_api =
     \<lparr>ucp_tag_send_nbx = (\<lambda>ep buf cnt tag dt sid (n, f, q).
        (Ptr_Req n, [\<lparr>uc_kind = P2p_Send, uc_request = n, uc_status = UCS_OK, uc_user_data = sid\<rparr>],
         (n + 1, insert n f, small_slot (n, f, q)))),
      ucp_tag_recv_nbx = (\<lambda>buf cnt tag bits dt sid (n, f, q).
        if small_slot (n, f, q) = None then (Ptr_Req n, [], (n + 1, insert n f, Some (n, sid)))
        else (Ptr_Err UCS_ERR_NO_RESOURCE, [], (n, f, q))),
      ucp_request_check_status = (\<lambda>r w. if map_option fst (small_slot w) = Some r then UCS_INPROGRESS else UCS_OK),
      ucp_request_free = (\<lambda>r (n, f, q). (n, f - {r}, q)),
      ucp_worker_progress = (\<lambda>(n, f, q). case small_slot (n, f, q) of None \<Rightarrow> ([], (n, f, None))
        | Some (r, sid) \<Rightarrow> ([\<lparr>uc_kind = P2p_Recv, uc_request = r, uc_status = UCS_OK, uc_user_data = sid\<rparr>], (n, f, None))),
      ucp_dt_make_contig = (\<lambda>size. push_bit 3 size OR 1), ucp_dt_create_generic = (\<lambda>d w. (UCS_OK, 2, w)), ucp_dt_destroy = 5,
      ep_create = (\<lambda>rk w. (UCS_OK, 9, w)), oob_ucp_ep = (\<lambda>rk. 9), oob_ucp_worker = True\<rparr>"

definition small_pending :: "small_ucx \<Rightarrow> pending_view" where
  "small_pending w = (case small_slot w of None \<Rightarrow> Map.empty | Some (r, sid) \<Rightarrow> [r \<mapsto> (P2p_Recv, sid)])"

definition small_held :: "small_ucx \<Rightarrow> nat set" where
  "small_held w = (case w of (n, f, q) \<Rightarrow> f \<inter> {..<n})"

lemma small_pending_fresh: "small_pending (n, f, q) n = None"
  by (auto simp: small_pending_def small_slot_def split: option.splits)

lemma small_pending_keep: "small_pending (n + 1, f', small_slot (n, f, q)) = small_pending (n, f, q)"
  by (auto simp: small_pending_def small_slot_def split: option.splits)

lemma small_ucx_promises: "ucx_promises small_ucx_api small_pending small_held"
  unfolding ucx_promises_def
proof (intro conjI allI impI, goal_cases)
  case (1 w) show ?case by (auto simp: small_pending_def split: option.splits)
next
  case (2 ep buf cnt tag dt sid w ptr cs w')
  obtain n f q where w: "w = (n, f, q)" by (cases w)
  show ?case using 2 small_pending_fresh [of n f q] small_pending_keep [of n "insert n f" f q]
    by (auto simp: small_ucx_api_def w fun_eq_iff)
next
  case (3 ep buf cnt tag dt sid w ptr cs w')
  then show ?case by (cases w) (auto simp: small_ucx_api_def small_held_def)
next
  case (4 ep buf cnt tag dt sid w ptr cs w')
  then show ?case by (cases w) (auto simp: small_ucx_api_def small_held_def)
next
  case (5 buf cnt tag bits dt sid w ptr cs w')
  then show ?case by (cases w) (auto simp: small_ucx_api_def small_pending_def small_slot_def split: if_splits option.splits)
next
  case (6 buf cnt tag bits dt sid w ptr cs w')
  then show ?case by (cases w) (auto simp: small_ucx_api_def small_held_def split: if_splits)
next
  case (7 buf cnt tag bits dt sid w ptr cs w')
  then show ?case by (cases w) (auto simp: small_ucx_api_def small_held_def split: if_splits)
next
  case (8 w cs w')
  then show ?case by (cases w) (auto simp: small_ucx_api_def small_pending_def small_slot_def split: if_splits option.splits)
next
  case (9 w cs w')
  then show ?case by (cases w) (auto simp: small_ucx_api_def small_held_def split: option.splits)
next
  case (10 r w)
  show ?case by (auto simp: small_ucx_api_def small_pending_def split: option.splits)
next
  case (11 r w)
  then show ?case by (cases w) (auto simp: small_ucx_api_def small_pending_def small_slot_def split: option.splits)
next
  case (12 r w)
  then show ?case by (cases w) (auto simp: small_ucx_api_def small_held_def)
qed (auto simp: small_ucx_api_def)

text \<open>A process with two ranks, an 8-bit datatype at address 64 and one operation at address 1.\<close>

definition small_group :: ucg_vgroup where
  "small_group = \<lparr>vg_myrank = 0, vg_size = 2, vg_rank_map = \<lparr>rm_size = 2, rm_map = Rank_Full\<rparr>,
     vg_group = \<lparr>gr_id = 3, gr_myrank = 0, gr_rank_map = \<lparr>rm_size = 2, rm_map = Rank_Full\<rparr>\<rparr>\<rparr>"

definition small_params :: p2p_params where
  "small_params = \<lparr>pp_group = vg_group small_group, pp_state = 1, pp_want = False\<rparr>"

definition small_proc :: "(unit, small_ucx) ucx_proc" where
  "small_proc = \<lparr>ux_dts = (\<lambda>a. the (ucg_dt_get_predefined UCG_DT_TYPE_UINT8)), ux_eps = (\<lambda>rk. C_NULL), ux_free_in_cb = (\<lambda>r. False),
     ux_states = (\<lambda>sid. ucg_planc_ucx_p2p_state_reset), ux_worker_set = True, ux_use_oob = False, ux_n_polls = 1,
     ux_world = (0, {}, None)\<rparr>"

text \<open>It sends a message and receives one.\<close>

definition small_run :: "(unit, small_ucx) ucx_proc option" where
  "small_run =
     do { (st1, r1, p1) \<leftarrow> ucg_planc_ucx_p2p_isend small_ucx_api False 512 1 64 1 0x800001 small_group small_params small_proc;
          (st2, r2, p2) \<leftarrow> ucg_planc_ucx_p2p_irecv small_ucx_api False 576 1 64 1 0x800001 small_group small_params p1;
          if r1 = None \<and> r2 = None then Some p2 else None }"

lemma small_run_reached: "small_run = Some p \<Longrightarrow> p2p_run small_ucx_api False small_proc p {}"
proof -
  assume "small_run = Some p"
  then obtain st1 p1 st2 where
    s: "ucg_planc_ucx_p2p_isend small_ucx_api False 512 1 64 1 0x800001 small_group small_params small_proc = Some (st1, None, p1)" and
    r: "ucg_planc_ucx_p2p_irecv small_ucx_api False 576 1 64 1 0x800001 small_group small_params p1 = Some (st2, None, p)"
    unfolding small_run_def by (auto split: bind_splits if_splits)
  show ?thesis using p2p_run.irecv [OF p2p_run.isend [OF p2p_run.start s] r] by simp
qed

lemma small_run_value:
  "case small_run of None \<Rightarrow> False
   | Some p \<Rightarrow> ux_states p 1 = \<lparr>ps_status = UCG_OK, ps_inflight_send_cnt = 0, ps_inflight_recv_cnt = 1\<rparr> \<and> ux_worker_set p \<and>
       (case ucg_planc_ucx_p2p_testall small_ucx_api 1 p of None \<Rightarrow> False | Some (st, p') \<Rightarrow> st = UCG_OK)"
  by code_simp

lemma p2p_testall_waits_witness:
  "\<exists>p p'. small_run = Some p \<and> \<not> nothing_inflight (ux_states p 1) \<and>
     ucg_planc_ucx_p2p_testall small_ucx_api 1 p = Some (UCG_OK, p') \<and> (\<forall>r kind. small_pending (ux_world p') r \<noteq> Some (kind, 1))"
proof -
  obtain p where p: "small_run = Some p" "\<not> nothing_inflight (ux_states p 1)" "ux_worker_set p" and
    t: "case ucg_planc_ucx_p2p_testall small_ucx_api 1 p of None \<Rightarrow> False | Some (st, p') \<Rightarrow> st = UCG_OK"
    using small_run_value by (auto simp: nothing_inflight_def split: option.splits)
  obtain p' where t': "ucg_planc_ucx_p2p_testall small_ucx_api 1 p = Some (UCG_OK, p')"
    using t by (auto split: option.splits)
  have idle: "p2p_idle small_pending small_held small_proc"
    by (simp add: p2p_idle_def small_proc_def small_pending_def small_slot_def small_held_def)
  from p2p_testall_waits [OF small_ucx_promises idle small_run_reached [OF p(1)] t'] p t' show ?thesis by auto
qed

end
