(* ===== verification/Ucx_Op.thy ===== *)
theory Ucx_Op
  imports P2p Plan_Op Algo_Kntree Algo_Rd Algo_Ring
begin

text \<open>
  Operations of the UCX plan component: \<open>ucg_planc_ucx_op_t\<close> and its helpers
  (\<open>src/src/planc/ucx/planc_ucx_plan.h\<close>).  An operation is a plan operation whose private part has the
  fields the struct adds.  The struct's p2p state belongs to the world on which the p2p functions act.

  An operation calls the p2p functions always with its own group and state, so \<open>'w coll_env\<close> has
  them with these arguments fixed, next to the other functions of the library that act on the world; \<open>ucx_coll_env\<close> is this
  record for the functions of \<open>P2p\<close>.  \<open>None\<close> is undefined behaviour, an abort, or a loop that does not end.
\<close>

subsection \<open>What an operation calls\<close>

record 'w coll_env =
  ce_myrank :: ucg_rank_t
  ce_size :: c_int
  ce_isend :: "c_ptr \<Rightarrow> c_int \<Rightarrow> c_ptr \<Rightarrow> ucg_rank_t \<Rightarrow> c_int \<Rightarrow> 'w \<Rightarrow> (ucg_status \<times> 'w) option"
  ce_irecv :: "c_ptr \<Rightarrow> c_int \<Rightarrow> c_ptr \<Rightarrow> ucg_rank_t \<Rightarrow> c_int \<Rightarrow> 'w \<Rightarrow> (ucg_status \<times> 'w) option"
  ce_testall :: "'w \<Rightarrow> (ucg_status \<times> 'w) option"
  ce_state_reset :: "'w \<Rightarrow> 'w"
  ce_memcpy :: "c_ptr \<Rightarrow> c_int \<Rightarrow> c_ptr \<Rightarrow> c_ptr \<Rightarrow> c_int \<Rightarrow> c_ptr \<Rightarrow> 'w \<Rightarrow> (ucg_status \<times> 'w) option"
  ce_reduce :: "c_ptr \<Rightarrow> c_ptr \<Rightarrow> c_ptr \<Rightarrow> c_int \<Rightarrow> c_ptr \<Rightarrow> 'w \<Rightarrow> (ucg_status \<times> 'w) option"
  ce_dt_uint8 :: c_ptr

text \<open>
  The record for a process: \<open>params\<close> as \<open>ucg_planc_ucx_op_set_p2p_params\<close> fills them, so without a place for a
  request.  \<open>ucg_dt_memcpy\<close> and \<open>ucg_op_reduce\<close> act on memory, which is a part of the process that the p2p
  functions do not look at, and are arguments.
\<close>

definition ucg_planc_ucx_op_set_p2p_params :: "ucg_group_ids \<Rightarrow> nat \<Rightarrow> p2p_params" where
  "ucg_planc_ucx_op_set_p2p_params ucx_group state = \<lparr>pp_group = ucx_group, pp_state = state, pp_want = False\<rparr>"

definition ucx_coll_env ::
    "'w ucx_api \<Rightarrow> bool \<Rightarrow> ucg_vgroup \<Rightarrow> ucg_group_ids \<Rightarrow> nat \<Rightarrow>
     (c_ptr \<Rightarrow> c_int \<Rightarrow> c_ptr \<Rightarrow> c_ptr \<Rightarrow> c_int \<Rightarrow> c_ptr \<Rightarrow> ('s, 'w) ucx_proc \<Rightarrow> (ucg_status \<times> ('s, 'w) ucx_proc) option) \<Rightarrow>
     (c_ptr \<Rightarrow> c_ptr \<Rightarrow> c_ptr \<Rightarrow> c_int \<Rightarrow> c_ptr \<Rightarrow> ('s, 'w) ucx_proc \<Rightarrow> (ucg_status \<times> ('s, 'w) ucx_proc) option) \<Rightarrow> c_ptr \<Rightarrow>
     ('s, 'w) ucx_proc coll_env" where
  "ucx_coll_env api chk vgroup ucx_group state dt_memcpy op_reduce uint8 =
     (let params = ucg_planc_ucx_op_set_p2p_params ucx_group state
      in \<lparr>ce_myrank = vg_myrank vgroup, ce_size = uint (vg_size vgroup),
          ce_isend = (\<lambda>buf cnt dt vrank tag p.
            map_option (\<lambda>(status, req, p). (status, p)) (ucg_planc_ucx_p2p_isend api chk buf cnt dt vrank tag vgroup params p)),
          ce_irecv = (\<lambda>buf cnt dt vrank tag p.
            map_option (\<lambda>(status, req, p). (status, p)) (ucg_planc_ucx_p2p_irecv api chk buf cnt dt vrank tag vgroup params p)),
          ce_testall = ucg_planc_ucx_p2p_testall api state,
          ce_state_reset = set_state state ucg_planc_ucx_p2p_state_reset,
          ce_memcpy = dt_memcpy, ce_reduce = op_reduce, ce_dt_uint8 = uint8\<rparr>)"

subsection \<open>Operations\<close>

record allgatherv_neighbor =
  an_loop_count :: u32
  an_loop_max :: u32
  an_send_data_from :: c_int
  an_recv_data_from :: "c_int \<times> c_int"
  an_neighbor :: "c_int \<times> c_int"
  an_offset_at_step :: "c_int \<times> c_int"

text \<open>The members of the union stand side by side; those of the same type are shared.\<close>

record ucx_coll =
  uo_tag :: c_int
  uo_flags :: u64
  uo_staging_area :: c_ptr
  uo_rd_iter :: ucg_algo_rd_iter
  uo_kntree_iter :: ucg_algo_kntree_iter
  uo_ring_iter :: ucg_algo_ring_iter
  uo_staging_area_stored :: c_ptr
  uo_recvbuf_stored :: c_ptr
  uo_neighbor :: allgatherv_neighbor
  uo_distance :: c_int
  uo_linear_idx :: c_int
  uo_send_type :: bool

type_synonym ucx_op = "ucx_coll ucg_plan_op"

definition upd_priv :: "('p \<Rightarrow> 'p) \<Rightarrow> 'p ucg_plan_op \<Rightarrow> 'p ucg_plan_op" where
  "upd_priv f op = op\<lparr>op_priv := f (op_priv op)\<rparr>"

abbreviation op_args :: "'p ucg_plan_op \<Rightarrow> ucg_coll_args" where "op_args op \<equiv> rq_args (op_super op)"
abbreviation op_flags :: "ucx_op \<Rightarrow> u64" where "op_flags op \<equiv> uo_flags (op_priv op)"
abbreviation op_tag :: "ucx_op \<Rightarrow> c_int" where "op_tag op \<equiv> uo_tag (op_priv op)"

definition set_flags :: "u64 \<Rightarrow> ucx_op \<Rightarrow> ucx_op" where
  "set_flags flags = upd_priv (\<lambda>p. p\<lparr>uo_flags := flags\<rparr>)"

lemma upd_priv_simps [simp]:
  "op_priv (upd_priv f op) = f (op_priv op)" "op_super (upd_priv f op) = op_super op"
  "op_vgroup (upd_priv f op) = op_vgroup op"
  by (simp_all add: upd_priv_def)

lemma set_flags_simps [simp]:
  "op_priv (set_flags fl op) = (op_priv op)\<lparr>uo_flags := fl\<rparr>" "op_super (set_flags fl op) = op_super op"
  by (simp_all add: set_flags_def)

definition ucg_planc_ucx_op_init :: "'w coll_env \<Rightarrow> ucx_op \<Rightarrow> 'w \<Rightarrow> ucx_op \<times> 'w" where
  "ucg_planc_ucx_op_init env op w =
     (upd_priv (\<lambda>p. p\<lparr>uo_flags := 0, uo_staging_area := C_NULL\<rparr>) op, ce_state_reset env w)"

definition ucg_planc_ucx_op_reset :: "'w coll_env \<Rightarrow> ucx_op \<Rightarrow> 'w \<Rightarrow> ucx_op \<times> 'w" where
  "ucg_planc_ucx_op_reset env op w =
     (upd_priv (\<lambda>p. p\<lparr>uo_tag := op_id op, uo_flags := 0\<rparr>) (op_set_status UCG_INPROGRESS op), ce_state_reset env w)"

text \<open>Both release the pool's element; the first also the staging area.\<close>

definition ucg_planc_ucx_op_discard :: "ucx_op \<Rightarrow> ucg_heap \<Rightarrow> ucg_status \<times> ucg_heap" where
  "ucg_planc_ucx_op_discard op h =
     (let h = (if uo_staging_area (op_priv op) \<noteq> C_NULL then heap_free h else h) in (UCG_OK, heap_free h))"

text \<open>
  The beginning of every \<open>op_new\<close>: an element of the pool, whose fields hold anything (\<open>blank\<close>), the
  constructor, \<open>ucg_planc_ucx_op_init\<close>.
\<close>

definition ucx_op_new ::
    "'w coll_env \<Rightarrow> nat \<Rightarrow> nat \<Rightarrow> ucx_coll \<Rightarrow> ucg_coll_args \<Rightarrow> ucg_heap \<Rightarrow> 'w \<Rightarrow> ucx_op option \<times> ucg_heap \<times> 'w" where
  "ucx_op_new env grp vgroup blank args h w =
     (case heap_alloc h of
        (False, h) \<Rightarrow> (None, h, w)
      | (True, h) \<Rightarrow>
          (case ucg_plan_op_ctor grp vgroup blank args of
             (status, op) \<Rightarrow>
               if status \<noteq> UCG_OK then (None, heap_free h, w)
               else case ucg_planc_ucx_op_init env op w of (op, w) \<Rightarrow> (Some op, h, w)))"

subsection \<open>Arguments of calls\<close>

definition dt_addr :: "ucg_dt_arg option \<Rightarrow> c_ptr" where
  "dt_addr dt = (case dt of None \<Rightarrow> C_NULL | Some d \<Rightarrow> cd_addr d)"

text \<open>A pointer and a number of bytes; the numbers mix signed ranks with the unsigned size of the group, so C takes them modulo $2^{32}$.\<close>

definition c_offset :: "c_ptr \<Rightarrow> int \<Rightarrow> c_ptr" where
  "c_offset p k = nat (int p + k)"

definition u32_index :: "int \<Rightarrow> c_int \<Rightarrow> c_int" where
  "u32_index a n = sint ((word_of_int a :: u32) mod word_of_int n)"

lemma u32_index_mod:
  assumes "0 < n" and "n < 2 ^ 31" and "0 \<le> a" and "a < 2 ^ 32"
  shows "u32_index a n = a mod n"
proof -
  have u: "uint (word_of_int a :: u32) = a" "uint (word_of_int n :: u32) = n"
    using assms by (simp_all add: uint_word_of_int)
  have m: "uint ((word_of_int a :: u32) mod word_of_int n) = a mod n" by (simp add: uint_mod u)
  have "a mod n < 2 ^ 31" using assms(1,2) pos_mod_bound [of n a] by linarith
  moreover have "0 \<le> a mod n" using assms(1) by simp
  ultimately show ?thesis unfolding u32_index_def by (simp add: sint_uint m signed_take_bit_int_eq_self)
qed

text \<open>\<open>p[i]\<close> for an array that may be NULL.\<close>

definition c_at :: "'a list option \<Rightarrow> int \<Rightarrow> 'a option" where
  "c_at p i = (if i < 0 then None else c_read p (nat i))"

subsection \<open>Steps of an operation\<close>

text \<open>
  The code of an operation is a sequence of calls, each followed by \<open>UCG_CHECK_GOTO (status, out)\<close>:
  a step returns a status, and a status that is not \<open>UCG_OK\<close> ends the sequence.
\<close>

type_synonym 'w step = "ucx_op \<Rightarrow> 'w \<Rightarrow> (ucg_status \<times> ucx_op \<times> 'w) option"

fun steps :: "'w step list \<Rightarrow> 'w step" where
  "steps [] op w = Some (UCG_OK, op, w)"
| "steps (f # fs) op w =
     do { (status, op, w) \<leftarrow> f op w; if status \<noteq> UCG_OK then Some (status, op, w) else steps fs op w }"

definition call_step :: "('w \<Rightarrow> (ucg_status \<times> 'w) option) \<Rightarrow> 'w step" where
  "call_step f op w = map_option (\<lambda>(status, w). (status, op, w)) (f w)"

definition op_step :: "(ucx_op \<Rightarrow> ucx_op) \<Rightarrow> 'w step" where
  "op_step f op w = Some (UCG_OK, f op, w)"

text \<open>\<open>if (cond) { ... }\<close>\<close>

definition when_step :: "bool \<Rightarrow> 'w step \<Rightarrow> 'w step" where
  "when_step cond f op w = (if cond then f op w else Some (UCG_OK, op, w))"

text \<open>\<open>if (ucg_test_and_clear_flags(&op->flags, bits)) { ... }\<close>\<close>

definition if_flag_once :: "u64 \<Rightarrow> 'w step \<Rightarrow> 'w step" where
  "if_flag_once bits f op w =
     (case ucg_test_and_clear_flags (op_flags op) bits of
        (found, flags) \<Rightarrow> if found then f (set_flags flags op) w else Some (UCG_OK, op, w))"

text \<open>\<open>if (ucg_test_flags(op->flags, bits)) { ...; ucg_clear_flags(&op->flags, bits); }\<close>\<close>

definition if_flag_until_done :: "u64 \<Rightarrow> 'w step \<Rightarrow> 'w step" where
  "if_flag_until_done bits f op w =
     (if ucg_test_flags (op_flags op) bits
      then steps [f, op_step (\<lambda>op. set_flags (ucg_clear_flags (op_flags op) bits) op)] op w
      else Some (UCG_OK, op, w))"

text \<open>Calls after each of which \<open>UCG_CHECK_ERR_GOTO\<close> follows: only negative statuses end the sequence.\<close>

fun err_steps :: "'w step list \<Rightarrow> 'w step" where
  "err_steps [] op w = Some (UCG_OK, op, w)"
| "err_steps (f # fs) op w =
     do { (status, op, w) \<leftarrow> f op w; if ucg_status_code status < 0 then Some (status, op, w) else err_steps fs op w }"

text \<open>The end of every progress routine, and of every trigger routine.\<close>

definition progress_end :: "(ucg_status \<times> ucx_op \<times> 'w) option \<Rightarrow> (ucg_status \<times> ucx_op \<times> 'w) option" where
  "progress_end r = map_option (\<lambda>(status, op, w). (status, op_set_status status op, w)) r"

definition trigger_end :: "(ucg_status \<times> ucx_op \<times> 'w) option \<Rightarrow> (ucg_status \<times> ucx_op \<times> 'w) option" where
  "trigger_end r = map_option (\<lambda>(status, op, w). (if status = UCG_INPROGRESS then UCG_OK else status, op, w)) r"

end
