(* ===== verification/Barrier_Rd.thy ===== *)
theory Barrier_Rd
  imports Ucx_Op
begin

text \<open>
  The recursive doubling barrier, \<open>src/src/planc/ucx/barrier/barrier_rd.c\<close>: a function of the same name
  for every function of the file.
\<close>

definition UCG_RD_BASE_SEND :: u64 where "UCG_RD_BASE_SEND = 0x1"
definition UCG_RD_BASE_RECV :: u64 where "UCG_RD_BASE_RECV = 0x2"
definition UCG_RD_PROXY_RECV :: u64 where "UCG_RD_PROXY_RECV = 0x4"
definition UCG_RD_PROXY_BASE :: u64 where "UCG_RD_PROXY_BASE = 0x8"
definition UCG_RD_PROXY_SEND :: u64 where "UCG_RD_PROXY_SEND = 0x10"
definition UCG_RD_EXTRA_SEND :: u64 where "UCG_RD_EXTRA_SEND = 0x20"
definition UCG_RD_EXTRA_RECV :: u64 where "UCG_RD_EXTRA_RECV = 0x40"

definition UCG_RD_BASE_FLAGS :: u64 where "UCG_RD_BASE_FLAGS = UCG_RD_BASE_SEND OR UCG_RD_BASE_RECV"
definition UCG_RD_PROXY_FLAGS :: u64 where "UCG_RD_PROXY_FLAGS = UCG_RD_PROXY_RECV OR UCG_RD_PROXY_BASE OR UCG_RD_PROXY_SEND"
definition UCG_RD_EXTRA_FLAGS :: u64 where "UCG_RD_EXTRA_FLAGS = UCG_RD_EXTRA_SEND OR UCG_RD_EXTRA_RECV"

text \<open>An empty message to or from a peer.\<close>

definition barrier_isend :: "'w coll_env \<Rightarrow> ucg_rank_t \<Rightarrow> 'w step" where
  "barrier_isend env peer op = call_step (ce_isend env C_NULL 0 (ce_dt_uint8 env) peer (op_tag op)) op"

definition barrier_irecv :: "'w coll_env \<Rightarrow> ucg_rank_t \<Rightarrow> 'w step" where
  "barrier_irecv env peer op = call_step (ce_irecv env C_NULL 0 (ce_dt_uint8 env) peer (op_tag op)) op"

text \<open>\<open>peer = ucg_algo_rd_iter_value_inc(iter)\<close>, and what follows with this peer.\<close>

definition with_next_peer :: "(ucg_rank_t \<Rightarrow> 'w step) \<Rightarrow> 'w step" where
  "with_next_peer f op w =
     (case ucg_algo_rd_iter_value_inc (uo_rd_iter (op_priv op)) of
        (peer, iter) \<Rightarrow> f peer (upd_priv (\<lambda>p. p\<lparr>uo_rd_iter := iter\<rparr>) op) w)"

definition rd_next_round :: "ucx_op \<Rightarrow> ucx_op" where
  "rd_next_round =
     upd_priv (\<lambda>p. p\<lparr>uo_rd_iter := ucg_algo_rd_iter_inc (uo_rd_iter p),
                     uo_flags := uo_flags p OR (UCG_RD_BASE_SEND OR UCG_RD_BASE_RECV)\<rparr>)"

partial_function (option) ucg_planc_ucx_barrier_rd_op_base :: "'w coll_env \<Rightarrow> 'w step" where
  "ucg_planc_ucx_barrier_rd_op_base env op w =
     (let peer = ucg_algo_rd_iter_base_value (uo_rd_iter (op_priv op))
      in if peer = UCG_INVALID_RANK then Some (UCG_OK, op, w)
         else do { (status, op, w) \<leftarrow>
                     steps [if_flag_once UCG_RD_BASE_SEND (barrier_isend env peer),
                            if_flag_once UCG_RD_BASE_RECV (barrier_irecv env peer),
                            call_step (ce_testall env)] op w;
                   if status \<noteq> UCG_OK then Some (status, op, w)
                   else ucg_planc_ucx_barrier_rd_op_base env (rd_next_round op) w })"

definition ucg_planc_ucx_barrier_rd_op_proxy :: "'w coll_env \<Rightarrow> 'w step" where
  "ucg_planc_ucx_barrier_rd_op_proxy env =
     steps [if_flag_once UCG_RD_PROXY_RECV (with_next_peer (barrier_irecv env)),
            call_step (ce_testall env),
            if_flag_until_done UCG_RD_PROXY_BASE (ucg_planc_ucx_barrier_rd_op_base env),
            if_flag_once UCG_RD_PROXY_SEND (with_next_peer (barrier_isend env)),
            call_step (ce_testall env)]"

definition ucg_planc_ucx_barrier_rd_op_extra :: "'w coll_env \<Rightarrow> 'w step" where
  "ucg_planc_ucx_barrier_rd_op_extra env =
     steps [if_flag_once UCG_RD_EXTRA_SEND (with_next_peer (barrier_isend env)),
            if_flag_once UCG_RD_EXTRA_RECV (with_next_peer (barrier_irecv env)),
            call_step (ce_testall env)]"

definition ucg_planc_ucx_barrier_rd_op_progress :: "'w coll_env \<Rightarrow> 'w step" where
  "ucg_planc_ucx_barrier_rd_op_progress env op w =
     progress_end
       (case rd_type (uo_rd_iter (op_priv op)) of
          UCG_ALGO_RD_ITER_BASE \<Rightarrow> ucg_planc_ucx_barrier_rd_op_base env op w
        | UCG_ALGO_RD_ITER_PROXY \<Rightarrow> ucg_planc_ucx_barrier_rd_op_proxy env op w
        | UCG_ALGO_RD_ITER_EXTRA \<Rightarrow> ucg_planc_ucx_barrier_rd_op_extra env op w)"

definition barrier_rd_start :: "ucx_op \<Rightarrow> ucx_op" where
  "barrier_rd_start =
     upd_priv (\<lambda>p. let iter = ucg_algo_rd_iter_reset (uo_rd_iter p)
                   in p\<lparr>uo_rd_iter := iter,
                        uo_flags := (case rd_type iter of
                            UCG_ALGO_RD_ITER_BASE \<Rightarrow> UCG_RD_BASE_FLAGS
                          | UCG_ALGO_RD_ITER_PROXY \<Rightarrow> UCG_RD_BASE_FLAGS OR UCG_RD_PROXY_FLAGS
                          | UCG_ALGO_RD_ITER_EXTRA \<Rightarrow> UCG_RD_EXTRA_FLAGS)\<rparr>)"

definition ucg_planc_ucx_barrier_rd_op_trigger :: "'w coll_env \<Rightarrow> 'w step" where
  "ucg_planc_ucx_barrier_rd_op_trigger env op w =
     (case ucg_planc_ucx_op_reset env op w of
        (op, w) \<Rightarrow> trigger_end (ucg_planc_ucx_barrier_rd_op_progress env (barrier_rd_start op) w))"

text \<open>A barrier has no staging area.\<close>

definition ucg_planc_ucx_barrier_rd_op_discard :: "ucx_op \<Rightarrow> ucg_heap \<Rightarrow> ucg_status \<times> ucg_heap" where
  "ucg_planc_ucx_barrier_rd_op_discard op h = (UCG_OK, heap_free h)"

definition ucg_planc_ucx_barrier_rd_op_new ::
    "'w coll_env \<Rightarrow> nat \<Rightarrow> nat \<Rightarrow> ucx_coll \<Rightarrow> ucg_coll_args \<Rightarrow> ucg_heap \<Rightarrow> 'w \<Rightarrow> ucx_op option \<times> ucg_heap \<times> 'w" where
  "ucg_planc_ucx_barrier_rd_op_new env grp vgroup blank args h w =
     (case ucx_op_new env grp vgroup blank args h w of
        (op, h, w) \<Rightarrow>
          (map_option (upd_priv (\<lambda>p. p\<lparr>uo_rd_iter := ucg_algo_rd_iter_init (uo_rd_iter p) (ce_size env) (ce_myrank env)\<rparr>)) op, h, w))"

text \<open>\<open>args\<close> is \<open>None\<close> for a NULL pointer; the result is \<open>*op\<close>.\<close>

definition ucg_planc_ucx_barrier_rd_prepare ::
    "bool \<Rightarrow> 'w coll_env \<Rightarrow> nat \<Rightarrow> nat \<Rightarrow> ucx_coll \<Rightarrow> ucg_coll_args option \<Rightarrow> ucg_heap \<Rightarrow> 'w \<Rightarrow>
     ((ucg_status + ucx_op) \<times> ucg_heap \<times> 'w) option" where
  "ucg_planc_ucx_barrier_rd_prepare chk env grp vgroup blank args h w =
     (case args of
        None \<Rightarrow> if chk then Some (Inl UCG_ERR_INVALID_PARAM, h, w) else None
      | Some args \<Rightarrow>
          (case ucg_planc_ucx_barrier_rd_op_new env grp vgroup blank args h w of
             (None, h, w) \<Rightarrow> Some (Inl UCG_ERR_NO_MEMORY, h, w)
           | (Some op, h, w) \<Rightarrow> Some (Inr op, h, w)))"

end
