(* ===== verification/Coll_Script.thy ===== *)
theory Coll_Script
  imports Ucx_Op
begin

text \<open>
  What an operation does, seen from outside: it performs a list of actions in order, its script.  A progress call
  performs the actions up to the first one that does not return \<open>UCG_OK\<close>; when that is the test of the outstanding messages,
  the next call goes on from there.
\<close>

type_synonym c_buf = "c_ptr \<times> c_int \<times> c_ptr"

datatype coll_act =
    Snd ucg_rank_t c_buf
  | Rcv ucg_rank_t c_buf
  | Wait
  | Cpy c_buf c_buf
  | Red c_ptr c_ptr c_ptr c_int c_ptr

fun perform :: "'w coll_env \<Rightarrow> c_int \<Rightarrow> coll_act \<Rightarrow> 'w \<Rightarrow> (ucg_status \<times> 'w) option" where
  "perform env tag (Snd p (b, n, d)) w = ce_isend env b n d p tag w"
| "perform env tag (Rcv p (b, n, d)) w = ce_irecv env b n d p tag w"
| "perform env tag Wait w = ce_testall env w"
| "perform env tag (Cpy (b, n, d) (b', n', d')) w = ce_memcpy env b n d b' n' d' w"
| "perform env tag (Red f s t n d) w = ce_reduce env f s t n d w"

text \<open>The result is the last status, and how many actions were successful.\<close>

fun run_acts :: "'w coll_env \<Rightarrow> c_int \<Rightarrow> coll_act list \<Rightarrow> 'w \<Rightarrow> (ucg_status \<times> nat \<times> 'w) option" where
  "run_acts env tag [] w = Some (UCG_OK, 0, w)"
| "run_acts env tag (a # as) w =
     do { (status, w) \<leftarrow> perform env tag a w;
          if status \<noteq> UCG_OK then Some (status, 0, w)
          else do { (status, k, w) \<leftarrow> run_acts env tag as w; Some (status, Suc k, w) } }"

lemma run_acts_status:
  "run_acts env tag as w = Some (st, k, w') \<Longrightarrow> k \<le> length as \<and> (st = UCG_OK \<longleftrightarrow> k = length as)"
  by (induction as arbitrary: w k) (auto split: bind_splits if_splits)

lemma run_acts_append:
  "run_acts env tag (as @ bs) w =
     do { (status, k, w) \<leftarrow> run_acts env tag as w;
          if status \<noteq> UCG_OK then Some (status, k, w)
          else do { (status, j, w) \<leftarrow> run_acts env tag bs w; Some (status, length as + j, w) } }"
proof (induction as arbitrary: w)
  case Nil
  then show ?case by (cases "run_acts env tag bs w") auto
next
  case (Cons a as)
  show ?case
  proof (cases "perform env tag a w")
    case (Some r)
    obtain st w1 where r: "r = (st, w1)" by (cases r)
    show ?thesis
    proof (cases "run_acts env tag as w1")
      case None
      then show ?thesis by (simp add: Some r Cons.IH)
    next
      case (Some r')
      obtain st' k w2 where "r' = (st', k, w2)" by (cases r')
      then show ?thesis by (simp add: \<open>perform env tag a w = Some r\<close> r Cons.IH Some split: option.splits Option.bind_split)
    qed
  qed simp
qed

text \<open>
  A step follows the actions \<open>as\<close>: it does what they do, and where it is left after \<open>k\<close> of them \<open>at k\<close> holds of the
  operation, if the last one was successful or the step is to be taken up again.
\<close>

definition follows ::
    "'w coll_env \<Rightarrow> c_int \<Rightarrow> coll_act list \<Rightarrow> (nat \<Rightarrow> ucx_op \<Rightarrow> bool) \<Rightarrow> 'w step \<Rightarrow> ucx_op \<Rightarrow> bool" where
  "follows env tag as at f op \<longleftrightarrow>
     (\<forall>w. case run_acts env tag as w of
            None \<Rightarrow> f op w = None
          | Some (st, k, w') \<Rightarrow>
              \<exists>op'. f op w = Some (st, op', w') \<and> (st = UCG_OK \<or> as ! k = Wait \<longrightarrow> at k op'))"

lemma followsI:
  assumes "\<And>w. run_acts env tag as w = None \<Longrightarrow> f op w = None"
    and "\<And>w st k w'. run_acts env tag as w = Some (st, k, w') \<Longrightarrow>
      \<exists>op'. f op w = Some (st, op', w') \<and> (st = UCG_OK \<or> as ! k = Wait \<longrightarrow> at k op')"
  shows "follows env tag as at f op"
  unfolding follows_def
proof
  fix w
  show "case run_acts env tag as w of None \<Rightarrow> f op w = None
    | Some (st, k, w') \<Rightarrow> \<exists>op'. f op w = Some (st, op', w') \<and> (st = UCG_OK \<or> as ! k = Wait \<longrightarrow> at k op')"
    using assms [of w] by (cases "run_acts env tag as w") auto
qed

lemma followsD:
  assumes "follows env tag as at f op" and "run_acts env tag as w = Some (st, k, w')"
  obtains op' where "f op w = Some (st, op', w')" and "st = UCG_OK \<or> as ! k = Wait \<Longrightarrow> at k op'"
proof -
  have "\<exists>op'. f op w = Some (st, op', w') \<and> (st = UCG_OK \<or> as ! k = Wait \<longrightarrow> at k op')"
    using assms by (auto simp: follows_def dest: spec [where x = w])
  then show thesis using that by blast
qed

lemma follows_none: "follows env tag as at f op \<Longrightarrow> run_acts env tag as w = None \<Longrightarrow> f op w = None"
  by (auto simp: follows_def dest: spec [where x = w])

lemma follows_mono:
  assumes "follows env tag as at f op" and "\<And>k op'. k \<le> length as \<Longrightarrow> at k op' \<Longrightarrow> at' k op'"
  shows "follows env tag as at' f op"
proof (rule followsI)
  fix w assume "run_acts env tag as w = None"
  then show "f op w = None" by (rule follows_none [OF assms(1)])
next
  fix w st k w' assume r: "run_acts env tag as w = Some (st, k, w')"
  have "k \<le> length as" using run_acts_status [OF r] by simp
  then show "\<exists>op'. f op w = Some (st, op', w') \<and> (st = UCG_OK \<or> as ! k = Wait \<longrightarrow> at' k op')"
    using assms(2) followsD [OF assms(1) r] by metis
qed

lemma follows_nil: "at 0 op \<Longrightarrow> follows env tag [] at (steps []) op"
  by (auto simp: follows_def)

lemma follows_op_step: "at 0 (f op) \<Longrightarrow> follows env tag [] at (op_step f) op"
  by (auto simp: follows_def op_step_def)

lemma follows_call:
  assumes "\<And>w. g w = perform env tag a w" and "at 1 op" and "a = Wait \<Longrightarrow> at 0 op"
  shows "follows env tag [a] at (call_step g) op"
  using assms by (intro followsI) (auto simp: call_step_def split: bind_splits if_splits)

lemma follows_seq:
  assumes f: "follows env tag as atf f op"
    and fs: "\<And>op'. atf (length as) op' \<Longrightarrow> follows env tag bs ats (steps fs) op'"
    and atf: "\<And>k op'. k < length as \<Longrightarrow> atf k op' \<Longrightarrow> at k op'" and ats: "\<And>k op'. ats k op' \<Longrightarrow> at (length as + k) op'"
  shows "follows env tag (as @ bs) at (steps (f # fs)) op"
proof (rule followsI)
  fix w assume r: "run_acts env tag (as @ bs) w = None"
  show "steps (f # fs) op w = None"
  proof (cases "run_acts env tag as w")
    case None
    then show ?thesis by (simp add: follows_none [OF f])
  next
    case (Some q)
    obtain st k w1 where q: "q = (st, k, w1)" by (cases q)
    then have st: "st = UCG_OK" "run_acts env tag bs w1 = None" using r Some by (auto simp: run_acts_append split: if_splits bind_splits)
    obtain op' where o: "f op w = Some (st, op', w1)" "atf k op'" using followsD [OF f Some [unfolded q]] st(1) by metis
    have "k = length as" using run_acts_status [OF Some [unfolded q]] st(1) by simp
    then show ?thesis using o st follows_none [OF fs st(2)] by simp
  qed
next
  fix w st k w' assume r: "run_acts env tag (as @ bs) w = Some (st, k, w')"
  then obtain st1 k1 w1 where a: "run_acts env tag as w = Some (st1, k1, w1)"
    and b: "if st1 \<noteq> UCG_OK then (st, k, w') = (st1, k1, w1)
      else \<exists>j. run_acts env tag bs w1 = Some (st, j, w') \<and> k = length as + j"
    by (auto simp: run_acts_append split: bind_splits if_splits)
  note k1 = run_acts_status [OF a]
  obtain op1 where o: "f op w = Some (st1, op1, w1)" "st1 = UCG_OK \<or> as ! k1 = Wait \<Longrightarrow> atf k1 op1" using followsD [OF f a] by metis
  show "\<exists>op'. steps (f # fs) op w = Some (st, op', w') \<and> (st = UCG_OK \<or> (as @ bs) ! k = Wait \<longrightarrow> at k op')"
  proof (cases "st1 = UCG_OK")
    case False
    then have e: "st = st1" "k = k1" "w' = w1" using b by simp_all
    moreover have "k1 < length as" using k1 False by auto
    ultimately show ?thesis using o False atf by (auto simp: nth_append)
  next
    case True
    then obtain j where j: "run_acts env tag bs w1 = Some (st, j, w')" "k = length as + j" using b by auto
    have "atf (length as) op1" using o True k1 by simp
    from followsD [OF fs [OF this] j(1)] obtain op2 where
      o2: "steps fs op1 w1 = Some (st, op2, w')" "st = UCG_OK \<or> bs ! j = Wait \<Longrightarrow> ats j op2" by metis
    then show ?thesis using o(1) True j(2) ats by (auto simp: nth_append)
  qed
qed

text \<open>Two steps that do the same follow the same actions.\<close>

lemma follows_eq:
  assumes "\<And>w. f op w = g op' w" and "follows env tag as at g op'"
  shows "follows env tag as at f op"
proof -
  have e: "f op = g op'" using assms(1) by (rule ext)
  show ?thesis using assms(2) unfolding follows_def e .
qed

lemma follows_cong:
  assumes e: "f op = g op" and "follows env tag as at g op"
  shows "follows env tag as at f op"
  using assms(2) unfolding follows_def e .

lemma follows_flag_set:
  assumes "ucg_test_flags (op_flags op) bits"
    and "follows env tag as at f (set_flags (ucg_clear_flags (op_flags op) bits) op)"
  shows "follows env tag as at (if_flag_once bits f) op"
  by (rule follows_eq [OF _ assms(2)]) (simp add: if_flag_once_def ucg_test_and_clear_flags_def assms(1))

lemma follows_flag_clear:
  assumes "\<not> ucg_test_flags (op_flags op) bits" and "at 0 op"
  shows "follows env tag [] at (if_flag_once bits f) op"
  using assms by (simp add: follows_def if_flag_once_def ucg_test_and_clear_flags_def)

lemma follows_progress_end:
  assumes "follows env tag as at f op" and "\<And>k st op'. at k op' \<Longrightarrow> at' k (op_set_status st op')"
  shows "follows env tag as at' (\<lambda>op w. progress_end (f op w)) op"
proof (rule followsI)
  fix w assume "run_acts env tag as w = None"
  then show "progress_end (f op w) = None" by (simp add: follows_none [OF assms(1)] progress_end_def)
next
  fix w st k w' assume r: "run_acts env tag as w = Some (st, k, w')"
  from followsD [OF assms(1) r] obtain op' where
    o: "f op w = Some (st, op', w')" "st = UCG_OK \<or> as ! k = Wait \<Longrightarrow> at k op'" by metis
  then show "\<exists>op'. progress_end (f op w) = Some (st, op', w') \<and> (st = UCG_OK \<or> as ! k = Wait \<longrightarrow> at' k op')"
    using assms(2) by (auto simp: progress_end_def)
qed

lemma steps_append:
  "steps (fs @ gs) op w =
     do { (status, op, w) \<leftarrow> steps fs op w; if status \<noteq> UCG_OK then Some (status, op, w) else steps gs op w }"
  by (induction fs arbitrary: op w) (auto split: Option.bind_split)

lemma steps_single: "steps [f] = f"
  by (rule ext, rule ext) (auto split: Option.bind_split)

lemma follows_until_done_set:
  assumes "ucg_test_flags (op_flags op) bits"
    and "follows env tag as at (steps [f, op_step (\<lambda>op. set_flags (ucg_clear_flags (op_flags op) bits) op)]) op"
  shows "follows env tag as at (if_flag_until_done bits f) op"
  by (rule follows_eq [OF _ assms(2)]) (simp add: if_flag_until_done_def assms(1))

lemma follows_until_done_clear:
  assumes "\<not> ucg_test_flags (op_flags op) bits" and "at 0 op"
  shows "follows env tag [] at (if_flag_until_done bits f) op"
  using assms by (simp add: follows_def if_flag_until_done_def)

lemma follows_one: "follows env tag as at f op \<Longrightarrow> follows env tag as at (steps [f]) op"
  by (simp add: steps_single)

lemma follows_comp: "follows env tag as at g (h op) \<Longrightarrow> follows env tag as at (\<lambda>op. g (h op)) op"
  by (simp add: follows_def)

text \<open>A step that does nothing may be left out.\<close>

lemma follows_none_step:
  assumes "\<And>w. f op w = Some (UCG_OK, op', w)" and "follows env tag as at (steps fs) op'"
  shows "follows env tag as at (steps (f # fs)) op"
  by (rule follows_eq [OF _ assms(2)]) (simp add: assms(1))

text \<open>What holds of the operation matters only at the tests and at the end.\<close>

lemma follows_waits:
  assumes "follows env tag as at f op" and "\<And>k op'. k = length as \<or> k < length as \<and> as ! k = Wait \<Longrightarrow> at k op' \<Longrightarrow> at' k op'"
  shows "follows env tag as at' f op"
proof (rule followsI)
  fix w assume "run_acts env tag as w = None"
  then show "f op w = None" by (rule follows_none [OF assms(1)])
next
  fix w st k w' assume r: "run_acts env tag as w = Some (st, k, w')"
  obtain op' where o: "f op w = Some (st, op', w')" "st = UCG_OK \<or> as ! k = Wait \<Longrightarrow> at k op'" using followsD [OF assms(1) r] by metis
  have "st = UCG_OK \<or> as ! k = Wait \<longrightarrow> at' k op'" using run_acts_status [OF r] o(2) assms(2) [of k op'] by auto
  then show "\<exists>op'. f op w = Some (st, op', w') \<and> (st = UCG_OK \<or> as ! k = Wait \<longrightarrow> at' k op')" using o(1) by blast
qed

text \<open>
  A step that performs one action, before others: the operation it leaves does not depend on the world.  So a script
  can be followed action by action.
\<close>

lemma follows_act:
  assumes f: "\<And>w. f op w = (case perform env tag a w of None \<Rightarrow> None | Some (st, w') \<Rightarrow> Some (st, op', w'))"
    and fs: "follows env tag as (\<lambda>k. at (Suc k)) (steps fs) op'" and "a = Wait \<Longrightarrow> at 0 op'"
  shows "follows env tag (a # as) at (steps (f # fs)) op"
proof (rule followsI)
  fix w assume r: "run_acts env tag (a # as) w = None"
  show "steps (f # fs) op w = None"
  proof (cases "perform env tag a w")
    case (Some x)
    obtain st w1 where x: "x = (st, w1)" by (cases x)
    then have "st = UCG_OK" "run_acts env tag as w1 = None" using r Some by (auto split: if_splits bind_splits)
    then show ?thesis using follows_none [OF fs] by (simp add: f Some x)
  qed (simp add: f)
next
  fix w st k w' assume r: "run_acts env tag (a # as) w = Some (st, k, w')"
  then obtain st1 w1 where a: "perform env tag a w = Some (st1, w1)" by (auto split: bind_splits)
  show "\<exists>op''. steps (f # fs) op w = Some (st, op'', w') \<and> (st = UCG_OK \<or> (a # as) ! k = Wait \<longrightarrow> at k op'')"
  proof (cases "st1 = UCG_OK")
    case True
    then obtain j where j: "run_acts env tag as w1 = Some (st, j, w')" "k = Suc j" using r a by (auto split: bind_splits)
    from followsD [OF fs j(1)] obtain op2 where "steps fs op' w1 = Some (st, op2, w')" "st = UCG_OK \<or> as ! j = Wait \<longrightarrow> at (Suc j) op2"
      by metis
    then show ?thesis using True j(2) by (auto simp: f a)
  next
    case False
    then show ?thesis using r a assms(3) by (auto simp: f)
  qed
qed

end
