(* ===== verification/Barrier_Script.thy ===== *)
theory Barrier_Script
  imports Barrier_Rd Coll_Script Rd_Spec
begin

text \<open>The recursive doubling barrier follows its script.\<close>

subsection \<open>The script\<close>

abbreviation no_data :: "'w coll_env \<Rightarrow> c_buf" where "no_data env \<equiv> (C_NULL, 0, ce_dt_uint8 env)"

definition exchange_acts :: "c_buf \<Rightarrow> ucg_rank_t \<Rightarrow> coll_act list" where
  "exchange_acts b p = [Snd p b, Rcv p b, Wait]"

definition rd_round_acts :: "c_buf \<Rightarrow> ucg_algo_rd_iter \<Rightarrow> c_int \<Rightarrow> ucg_rank_t \<Rightarrow> nat \<Rightarrow> coll_act list" where
  "rd_round_acts b it0 n r k = concat (map (\<lambda>i. exchange_acts b (rd_peer it0 n i r)) [k..<rd_rounds n])"

definition barrier_acts :: "c_buf \<Rightarrow> ucg_algo_rd_iter \<Rightarrow> c_int \<Rightarrow> ucg_rank_t \<Rightarrow> coll_act list" where
  "barrier_acts b it0 n r =
     (if rd_extra n r then [Snd (r + 1) b, Rcv (r + 1) b, Wait]
      else if rd_proxy n r then [Rcv (r - 1) b, Wait] @ rd_round_acts b it0 n r 0 @ [Snd (r - 1) b, Wait]
      else rd_round_acts b it0 n r 0)"

lemma rd_round_acts_step:
  "k < rd_rounds n \<Longrightarrow>
     rd_round_acts b it0 n r k = exchange_acts b (rd_peer it0 n k r) @ rd_round_acts b it0 n r (Suc k)"
  by (simp add: rd_round_acts_def upt_conv_Cons)

lemma rd_round_acts_end: "rd_round_acts b it0 n r (rd_rounds n) = []"
  by (simp add: rd_round_acts_def)

lemma length_rd_round_acts: "length (rd_round_acts b it0 n r k) = 3 * (rd_rounds n - k)"
  by (simp add: rd_round_acts_def exchange_acts_def length_concat comp_def sum_list_triv)

lemma drop_rd_round_acts:
  assumes "j \<le> 3 * rd_rounds n"
  shows "drop j (rd_round_acts b it0 n r 0) = drop (j mod 3) (rd_round_acts b it0 n r (j div 3))"
proof -
  have "drop (3 * k) (rd_round_acts b it0 n r 0) = rd_round_acts b it0 n r k" if "k \<le> rd_rounds n" for k
    using that
  proof (induction k)
    case (Suc k)
    have "drop (3 * Suc k) (rd_round_acts b it0 n r 0) = drop 3 (drop (3 * k) (rd_round_acts b it0 n r 0))"
      by (simp add: add.commute)
    also have "\<dots> = drop 3 (exchange_acts b (rd_peer it0 n k r) @ rd_round_acts b it0 n r (Suc k))"
      using Suc rd_round_acts_step [of k n b it0 r] by simp
    also have "\<dots> = rd_round_acts b it0 n r (Suc k)" by (simp add: exchange_acts_def numeral_eq_Suc)
    finally show ?case .
  qed simp
  from this [of "j div 3"] have "drop (3 * (j div 3)) (rd_round_acts b it0 n r 0) = rd_round_acts b it0 n r (j div 3)"
    using assms by simp
  moreover have "drop j (rd_round_acts b it0 n r 0) = drop (j mod 3) (drop (3 * (j div 3)) (rd_round_acts b it0 n r 0))"
    by (simp add: drop_drop)
  ultimately show ?thesis by simp
qed

subsection \<open>Where an operation stands\<close>

fun round_flags :: "nat \<Rightarrow> u64" where
  "round_flags 0 = 3"
| "round_flags (Suc 0) = 2"
| "round_flags (Suc (Suc _)) = 0"

text \<open>
  In round \<open>k\<close> with \<open>j\<close> of its actions done; \<open>off\<close> is 1 for a proxy, whose iterator has made one step more, and \<open>x\<close> has
  the flags that do not matter to the rounds.
\<close>

definition in_round ::
    "c_int \<Rightarrow> ucg_algo_rd_iter \<Rightarrow> c_int \<Rightarrow> ucg_rank_t \<Rightarrow> nat \<Rightarrow> u64 \<Rightarrow> nat \<Rightarrow> nat \<Rightarrow> ucx_op \<Rightarrow> bool" where
  "in_round tag it0 n r off x k j op \<longleftrightarrow> op_tag op = tag \<and> uo_rd_iter (op_priv op) = rd_at it0 n r (off + k) \<and>
     op_flags op = round_flags j OR x"

definition round_extras :: "u64 set" where "round_extras = {0, 0x18}"

lemma in_round_flags:
  assumes "in_round tag it0 n r off x k j op" and "x \<in> round_extras" and "j < 3"
  shows "ucg_test_flags (op_flags op) UCG_RD_BASE_SEND \<longleftrightarrow> j = 0"
    and "ucg_test_flags (op_flags op) UCG_RD_BASE_RECV \<longleftrightarrow> j < 2"
    and "j = 0 \<Longrightarrow> in_round tag it0 n r off x k 1 (set_flags (ucg_clear_flags (op_flags op) UCG_RD_BASE_SEND) op)"
    and "j = 1 \<Longrightarrow> in_round tag it0 n r off x k 2 (set_flags (ucg_clear_flags (op_flags op) UCG_RD_BASE_RECV) op)"
    and "j = 2 \<Longrightarrow> in_round tag it0 n r off x (Suc k) 0 (rd_next_round op)"
proof -
  note d = in_round_def round_extras_def ucg_test_flags_def ucg_clear_flags_def UCG_RD_BASE_SEND_def UCG_RD_BASE_RECV_def
    rd_next_round_def rd_at_def
  have "j = 0 \<or> j = 1 \<or> j = 2" using assms(3) by linarith
  then show "ucg_test_flags (op_flags op) UCG_RD_BASE_SEND \<longleftrightarrow> j = 0"
    "ucg_test_flags (op_flags op) UCG_RD_BASE_RECV \<longleftrightarrow> j < 2"
    using assms(1,2) by (auto simp: d numeral_2_eq_2)
  show "j = 0 \<Longrightarrow> in_round tag it0 n r off x k 1 (set_flags (ucg_clear_flags (op_flags op) UCG_RD_BASE_SEND) op)"
    "j = 1 \<Longrightarrow> in_round tag it0 n r off x k 2 (set_flags (ucg_clear_flags (op_flags op) UCG_RD_BASE_RECV) op)"
    "j = 2 \<Longrightarrow> in_round tag it0 n r off x (Suc k) 0 (rd_next_round op)"
    using assms(1,2) by (auto simp: d numeral_2_eq_2)
qed

lemma base_value_at:
  assumes n: "rd_args n" and r: "r \<in> rd_members n" and k: "k \<le> rd_rounds n"
  shows "ucg_algo_rd_iter_base_value (rd_at it0 n r ((if rd_proxy n r then 1 else 0) + k)) =
           (if k = rd_rounds n then UCG_INVALID_RANK else rd_peer it0 n k r)"
    and "k < rd_rounds n \<Longrightarrow> rd_peer it0 n k r \<noteq> UCG_INVALID_RANK"
proof -
  have r': "0 \<le> r" "\<not> rd_extra n r" using r by (simp_all add: rd_members_def)
  show "ucg_algo_rd_iter_base_value (rd_at it0 n r ((if rd_proxy n r then 1 else 0) + k)) =
           (if k = rd_rounds n then UCG_INVALID_RANK else rd_peer it0 n k r)"
  proof (cases "rd_proxy n r")
    case True
    note p = rd_at_proxy [OF n r'(1) True]
    show ?thesis using k True by (simp add: rd_peer_def p ucg_algo_rd_iter_base_value_def)
  next
    case False
    note p = rd_at_base [OF n r'(1,2) False]
    show ?thesis using k False by (simp add: rd_peer_def p ucg_algo_rd_iter_base_value_def)
  qed
  show "rd_peer it0 n k r \<noteq> UCG_INVALID_RANK" if "k < rd_rounds n"
    using rd.peer_member [of "(it0, n)" k r] n r that by (auto simp: rd_members_def)
qed

lemma rd_op_base_step:
  assumes "ucg_algo_rd_iter_base_value (uo_rd_iter (op_priv op)) = p" and "p \<noteq> UCG_INVALID_RANK"
  shows "ucg_planc_ucx_barrier_rd_op_base env op w =
     steps [if_flag_once UCG_RD_BASE_SEND (barrier_isend env p), if_flag_once UCG_RD_BASE_RECV (barrier_irecv env p),
            call_step (ce_testall env), \<lambda>op. ucg_planc_ucx_barrier_rd_op_base env (rd_next_round op)] op w"
proof -
  have "steps [if_flag_once UCG_RD_BASE_SEND (barrier_isend env p), if_flag_once UCG_RD_BASE_RECV (barrier_irecv env p),
            call_step (ce_testall env), \<lambda>op. ucg_planc_ucx_barrier_rd_op_base env (rd_next_round op)] op w =
    steps ([if_flag_once UCG_RD_BASE_SEND (barrier_isend env p), if_flag_once UCG_RD_BASE_RECV (barrier_irecv env p),
            call_step (ce_testall env)] @ [\<lambda>op. ucg_planc_ucx_barrier_rd_op_base env (rd_next_round op)]) op w" by simp
  then show ?thesis unfolding steps_append steps_single
    using assms by (subst ucg_planc_ucx_barrier_rd_op_base.simps) (simp add: Let_def)
qed

lemma follows_base_step:
  assumes "ucg_algo_rd_iter_base_value (uo_rd_iter (op_priv op)) = p" and "p \<noteq> UCG_INVALID_RANK"
    and "follows env tag as at
     (steps [if_flag_once UCG_RD_BASE_SEND (barrier_isend env p), if_flag_once UCG_RD_BASE_RECV (barrier_irecv env p),
            call_step (ce_testall env), \<lambda>op. ucg_planc_ucx_barrier_rd_op_base env (rd_next_round op)]) op"
  shows "follows env tag as at (ucg_planc_ucx_barrier_rd_op_base env) op"
  using assms(3) unfolding follows_def rd_op_base_step [OF assms(1,2)] .

lemma follows_barrier_isend:
  assumes "op_tag op = tag" and "at 1 op"
  shows "follows env tag [Snd p (no_data env)] at (barrier_isend env p) op"
  unfolding barrier_isend_def by (rule follows_eq [OF refl follows_call]) (use assms in simp_all)

lemma follows_barrier_irecv:
  assumes "op_tag op = tag" and "at 1 op"
  shows "follows env tag [Rcv p (no_data env)] at (barrier_irecv env p) op"
  unfolding barrier_irecv_def by (rule follows_eq [OF refl follows_call]) (use assms in simp_all)

text \<open>One round, from any of its actions on, before steps that follow other actions.\<close>

lemma follows_exchange:
  assumes i: "in_round tag it0 n r off x k j op" and x: "x \<in> round_extras" and j: "j < 3"
    and rest: "\<And>op'. in_round tag it0 n r off x k 2 op' \<Longrightarrow> follows env tag bs at (steps fs) op'"
  shows "follows env tag (drop j (exchange_acts (no_data env) p) @ bs)
           (\<lambda>l op'. if j + l < 3 then in_round tag it0 n r off x k (j + l) op' else at (j + l - 3) op')
           (steps (if_flag_once UCG_RD_BASE_SEND (barrier_isend env p) #
                   if_flag_once UCG_RD_BASE_RECV (barrier_irecv env p) # call_step (ce_testall env) # fs)) op"
proof -
  let ?at = "\<lambda>j l op'. if j + l < 3 then in_round tag it0 n r off x k (j + l) op' else at (j + l - 3) op'"
  let ?s1 = "if_flag_once UCG_RD_BASE_SEND (barrier_isend env p)" and ?s2 = "if_flag_once UCG_RD_BASE_RECV (barrier_irecv env p)"
  note t = in_round_def [THEN iffD1, THEN conjunct1]
  have w: "follows env tag ([Wait] @ bs) (?at 2) (steps (call_step (ce_testall env) # fs)) op'"
    if "in_round tag it0 n r off x k 2 op'" for op'
    by (rule follows_seq [where atf = "\<lambda>_. in_round tag it0 n r off x k 2", OF follows_call rest]) (use that in simp_all)
  have r1: "follows env tag ([Rcv p (no_data env)] @ [Wait] @ bs) (?at 1) (steps (?s2 # call_step (ce_testall env) # fs)) op'"
    if "in_round tag it0 n r off x k 1 op'" for op'
  proof (rule follows_seq [where atf = "\<lambda>l. in_round tag it0 n r off x k (1 + l)", OF follows_flag_set])
    note f = in_round_flags [OF that x]
    show "ucg_test_flags (op_flags op') UCG_RD_BASE_RECV" using f(2) by simp
    have g: "in_round tag it0 n r off x k 2 (set_flags (ucg_clear_flags (op_flags op') UCG_RD_BASE_RECV) op')" using f(4) by simp
    then show "follows env tag [Rcv p (no_data env)] (\<lambda>l. in_round tag it0 n r off x k (1 + l)) (barrier_irecv env p)
        (set_flags (ucg_clear_flags (op_flags op') UCG_RD_BASE_RECV) op')"
      by (intro follows_barrier_irecv t [OF g]) (simp add: numeral_2_eq_2)
    show "follows env tag ([Wait] @ bs) (?at 2) (steps (call_step (ce_testall env) # fs)) op''"
      if "in_round tag it0 n r off x k (1 + length [Rcv p (no_data env)]) op''" for op''
      using that by (intro w) (simp add: numeral_2_eq_2)
  qed (auto simp: numeral_2_eq_2)
  have r2: "follows env tag ([] @ [Wait] @ bs) (?at 2) (steps (?s2 # call_step (ce_testall env) # fs)) op'"
    if "in_round tag it0 n r off x k 2 op'" for op'
  proof (rule follows_seq [where atf = "\<lambda>_. in_round tag it0 n r off x k 2", OF follows_flag_clear])
    show "\<not> ucg_test_flags (op_flags op') UCG_RD_BASE_RECV" using in_round_flags(2) [OF that x] by simp
    show "follows env tag ([Wait] @ bs) (?at 2) (steps (call_step (ce_testall env) # fs)) op''"
      if "in_round tag it0 n r off x k 2 op''" for op'' using that by (rule w)
  qed (use that in \<open>auto simp: numeral_eq_Suc split: if_splits\<close>)
  have s0: "follows env tag ([Snd p (no_data env)] @ [Rcv p (no_data env)] @ [Wait] @ bs) (?at 0)
      (steps (?s1 # ?s2 # call_step (ce_testall env) # fs)) op" if "j = 0"
  proof (rule follows_seq [where atf = "\<lambda>l. in_round tag it0 n r off x k l", OF follows_flag_set])
    note f = in_round_flags [OF i x j]
    show "ucg_test_flags (op_flags op) UCG_RD_BASE_SEND" using f(1) that by simp
    have g: "in_round tag it0 n r off x k 1 (set_flags (ucg_clear_flags (op_flags op) UCG_RD_BASE_SEND) op)" using f(3) that by simp
    then show "follows env tag [Snd p (no_data env)] (\<lambda>l. in_round tag it0 n r off x k l) (barrier_isend env p)
        (set_flags (ucg_clear_flags (op_flags op) UCG_RD_BASE_SEND) op)"
      by (intro follows_barrier_isend t [OF g]) simp
    show "follows env tag ([Rcv p (no_data env)] @ [Wait] @ bs) (?at 1) (steps (?s2 # call_step (ce_testall env) # fs)) op''"
      if "in_round tag it0 n r off x k (length [Snd p (no_data env)]) op''" for op'' using that by (intro r1) simp
  qed (auto simp: numeral_eq_Suc split: if_splits)
  have s12: "follows env tag ([] @ drop j (exchange_acts (no_data env) p) @ bs) (?at j)
      (steps (?s1 # ?s2 # call_step (ce_testall env) # fs)) op" if "j \<noteq> 0"
  proof (rule follows_seq [where atf = "\<lambda>_. in_round tag it0 n r off x k j", OF follows_flag_clear])
    show "\<not> ucg_test_flags (op_flags op) UCG_RD_BASE_SEND" using in_round_flags(1) [OF i x j] that by simp
    show "follows env tag (drop j (exchange_acts (no_data env) p) @ bs) (?at j) (steps (?s2 # call_step (ce_testall env) # fs)) op'"
      if i': "in_round tag it0 n r off x k j op'" for op'
    proof -
      consider "j = 1" | "j = 2" using \<open>j \<noteq> 0\<close> j by linarith
      then show ?thesis
      proof cases
        case 1 show ?thesis using r1 [OF i' [unfolded 1]] unfolding 1 exchange_acts_def by simp
      next
        case 2 show ?thesis using r2 [OF i' [unfolded 2]] unfolding 2 exchange_acts_def by (simp add: numeral_2_eq_2)
      qed
    qed
  qed (use i in simp_all)
  show ?thesis
  proof (cases "j = 0")
    case True
    show ?thesis using s0 [OF True] unfolding True exchange_acts_def by (simp split del: if_split)
  next
    case False
    show ?thesis using s12 [OF False] by simp
  qed
qed

text \<open>The rounds, from any of their actions on.\<close>

lemma follows_rounds:
  assumes n: "rd_args n" and r: "r \<in> rd_members n" and off: "off = (if rd_proxy n r then 1 else 0)" and x: "x \<in> round_extras"
    and "k \<le> rd_rounds n" and "j < 3" and "k = rd_rounds n \<Longrightarrow> j = 0" and "in_round tag it0 n r off x k j op"
  shows "follows env tag (drop j (rd_round_acts (no_data env) it0 n r k))
           (\<lambda>l. in_round tag it0 n r off x (k + (j + l) div 3) ((j + l) mod 3)) (ucg_planc_ucx_barrier_rd_op_base env) op"
  using assms(5-8)
proof (induction "rd_rounds n - k" arbitrary: k j op)
  case 0
  then have k: "k = rd_rounds n" "j = 0" by simp_all
  have "ucg_algo_rd_iter_base_value (uo_rd_iter (op_priv op)) = UCG_INVALID_RANK"
    using 0 base_value_at(1) [OF n r, of k] k(1) off by (simp add: in_round_def)
  then have e: "ucg_planc_ucx_barrier_rd_op_base env op w = steps [] op w" for w
    by (subst ucg_planc_ucx_barrier_rd_op_base.simps) simp
  show ?case unfolding k rd_round_acts_end drop_Nil
    by (rule follows_eq [where f = "ucg_planc_ucx_barrier_rd_op_base env" and op = op and g = "steps []" and op' = op, OF e follows_nil])
      (use 0 k in simp)
next
  case (Suc d)
  then have k: "k < rd_rounds n" by simp
  let ?p = "rd_peer it0 n k r" and ?at = "\<lambda>k j l. in_round tag it0 n r off x (k + (j + l) div 3) ((j + l) mod 3)"
  have bv: "ucg_algo_rd_iter_base_value (uo_rd_iter (op_priv op)) = ?p"
    using Suc.prems(4) base_value_at(1) [OF n r, of k] k off by (simp add: in_round_def)
  have acts: "drop j (rd_round_acts (no_data env) it0 n r k) =
      drop j (exchange_acts (no_data env) ?p) @ rd_round_acts (no_data env) it0 n r (Suc k)"
    using Suc.prems(2) unfolding rd_round_acts_step [OF k] drop_append by (simp add: exchange_acts_def)
  have later: "follows env tag (rd_round_acts (no_data env) it0 n r (Suc k)) (?at (Suc k) 0)
      (steps [\<lambda>op. ucg_planc_ucx_barrier_rd_op_base env (rd_next_round op)]) op'"
    if "in_round tag it0 n r off x k 2 op'" for op'
  proof (rule follows_one)
    have "in_round tag it0 n r off x (Suc k) 0 (rd_next_round op')" using in_round_flags(5) [OF that x] by simp
    then have "follows env tag (drop 0 (rd_round_acts (no_data env) it0 n r (Suc k))) (?at (Suc k) 0)
        (ucg_planc_ucx_barrier_rd_op_base env) (rd_next_round op')"
      using Suc.hyps(2) k by (intro Suc.hyps(1)) simp_all
    then show "follows env tag (rd_round_acts (no_data env) it0 n r (Suc k)) (?at (Suc k) 0)
        (\<lambda>op. ucg_planc_ucx_barrier_rd_op_base env (rd_next_round op)) op'"
      unfolding drop_0 by (rule follows_comp)
  qed
  note e = follows_exchange [OF Suc.prems(4) x Suc.prems(2), where p = ?p, OF later]
  show ?case unfolding acts
  proof (rule follows_base_step [OF bv base_value_at(2) [OF n r less_imp_le [OF k] k] follows_mono [OF e]])
    fix l op'
    assume "if j + l < 3 then in_round tag it0 n r off x k (j + l) op' else ?at (Suc k) 0 (j + l - 3) op'"
    then show "?at k j l op'" by (cases "j + l < 3") (simp_all add: le_div_geq le_mod_geq)
  qed
qed

subsection \<open>The whole operation\<close>

definition barrier_at :: "c_int \<Rightarrow> ucg_algo_rd_iter \<Rightarrow> c_int \<Rightarrow> ucg_rank_t \<Rightarrow> nat \<Rightarrow> ucx_op \<Rightarrow> bool" where
  "barrier_at tag it0 n r i op \<longleftrightarrow>
     (if rd_extra n r then
        op_tag op = tag \<and> uo_rd_iter (op_priv op) = rd_at it0 n r (min i 2) \<and>
        op_flags op = (if i = 0 then 0x60 else if i = 1 then 0x40 else 0)
      else if rd_proxy n r then
        (if i = 0 then op_tag op = tag \<and> uo_rd_iter (op_priv op) = rd_at it0 n r 0 \<and> op_flags op = 0x1F
         else if i \<le> 2 + 3 * rd_rounds n then in_round tag it0 n r 1 0x18 ((i - 2) div 3) ((i - 2) mod 3) op
         else op_tag op = tag \<and> uo_rd_iter (op_priv op) = rd_at it0 n r (rd_rounds n + 2) \<and> op_flags op = 3)
      else in_round tag it0 n r 0 0 (i div 3) (i mod 3) op)"

lemma follows_with_next_peer:
  assumes "uo_rd_iter (op_priv op) = rd_at it0 n r k" and "rd_current (rd_at it0 n r k) = p"
    and "follows env tag as at (f p) (upd_priv (\<lambda>q. q\<lparr>uo_rd_iter := rd_at it0 n r (Suc k)\<rparr>) op)"
  shows "follows env tag as at (with_next_peer f) op"
proof (rule follows_eq [OF _ assms(3)])
  have "ucg_algo_rd_iter_inc (rd_at it0 n r k) = rd_at it0 n r (Suc k)" by (simp add: rd_at_def)
  then show "with_next_peer f op w = f p (upd_priv (\<lambda>q. q\<lparr>uo_rd_iter := rd_at it0 n r (Suc k)\<rparr>) op) w" for w
    by (simp add: with_next_peer_def ucg_algo_rd_iter_value_inc_def assms(1,2))
qed

text \<open>An extra rank.\<close>

lemma follows_extra:
  assumes n: "rd_args n" "0 \<le> r" and t: "rd_extra n r" and at: "barrier_at tag it0 n r i op" and i: "i \<le> 2"
  shows "follows env tag (drop i [Snd (r + 1) (no_data env), Rcv (r + 1) (no_data env), Wait])
           (\<lambda>l. barrier_at tag it0 n r (i + l)) (ucg_planc_ucx_barrier_rd_op_extra env) op"
proof -
  note fd = ucg_test_flags_def ucg_clear_flags_def UCG_RD_EXTRA_SEND_def UCG_RD_EXTRA_RECV_def ucg_test_and_clear_flags_def
  note c = rd_at_extra(4) [OF n t]
  have inc: "ucg_algo_rd_iter_inc (rd_at it0 n r k) = rd_at it0 n r (Suc k)" for k by (simp add: rd_at_def)
  have two: "rd_at it0 n r 2 = rd_at it0 n r (Suc (Suc 0))" by (simp only: numeral_2_eq_2)
  consider "i = 0" | "i = 1" | "i = 2" using i by linarith
  then show ?thesis
  proof cases
    case 3
    then show ?thesis using at t
      by (simp add: follows_def barrier_at_def ucg_planc_ucx_barrier_rd_op_extra_def if_flag_once_def fd call_step_def
        with_next_peer_def barrier_isend_def barrier_irecv_def ucg_algo_rd_iter_value_inc_def inc c two split: option.splits Option.bind_split)
  next
    case 2
    then show ?thesis using at t
      by (simp add: follows_def barrier_at_def ucg_planc_ucx_barrier_rd_op_extra_def if_flag_once_def fd call_step_def
        with_next_peer_def barrier_isend_def barrier_irecv_def ucg_algo_rd_iter_value_inc_def inc c two split: option.splits Option.bind_split)
  next
    case 1
    then show ?thesis using at t
      by (simp add: follows_def barrier_at_def ucg_planc_ucx_barrier_rd_op_extra_def if_flag_once_def fd call_step_def
        with_next_peer_def barrier_isend_def barrier_irecv_def ucg_algo_rd_iter_value_inc_def inc c two split: option.splits Option.bind_split)
  qed
qed

text \<open>A proxy, from the end of its steps to their beginning.\<close>

lemmas proxy_flag_defs = ucg_test_flags_def ucg_clear_flags_def ucg_test_and_clear_flags_def UCG_RD_PROXY_RECV_def
  UCG_RD_PROXY_BASE_def UCG_RD_PROXY_SEND_def

definition proxy_late :: "c_int \<Rightarrow> ucg_algo_rd_iter \<Rightarrow> c_int \<Rightarrow> ucg_rank_t \<Rightarrow> ucx_op \<Rightarrow> bool" where
  "proxy_late tag it0 n r op \<longleftrightarrow>
     op_tag op = tag \<and> uo_rd_iter (op_priv op) = rd_at it0 n r (rd_rounds n + 2) \<and> op_flags op = 3"

definition proxy_tail :: "'w coll_env \<Rightarrow> 'w step list" where
  "proxy_tail env = [if_flag_once UCG_RD_PROXY_SEND (with_next_peer (barrier_isend env)), call_step (ce_testall env)]"

lemma follows_proxy_late:
  assumes "proxy_late tag it0 n r op"
  shows "follows env tag [Wait] (\<lambda>_. proxy_late tag it0 n r)
           (steps (if_flag_until_done UCG_RD_PROXY_BASE f # proxy_tail env)) op"
  using assms
  by (simp add: follows_def proxy_late_def proxy_tail_def if_flag_once_def if_flag_until_done_def proxy_flag_defs call_step_def
      split: option.splits Option.bind_split)

lemma follows_proxy_tail:
  assumes n: "rd_args n" "0 \<le> r" and t: "rd_proxy n r" and at: "in_round tag it0 n r 1 0x18 (rd_rounds n) 0 op"
  shows "follows env tag [Snd (r - 1) (no_data env), Wait]
           (\<lambda>l op'. if l = 0 then in_round tag it0 n r 1 0x18 (rd_rounds n) 0 op' else proxy_late tag it0 n r op')
           (steps (op_step (\<lambda>op. set_flags (ucg_clear_flags (op_flags op) UCG_RD_PROXY_BASE) op) # proxy_tail env)) op"
proof -
  have inc: "ucg_algo_rd_iter_inc (rd_at it0 n r (Suc (rd_rounds n))) = rd_at it0 n r (rd_rounds n + 2)" by (simp add: rd_at_def)
  have c: "rd_current (rd_at it0 n r (Suc (rd_rounds n))) = r - 1" by (simp add: rd_at_proxy(4) [OF n t])
  have f: "op_tag op = tag" "uo_rd_iter (op_priv op) = rd_at it0 n r (Suc (rd_rounds n))" "op_flags op = 0x1B"
    using at by (simp_all add: in_round_def)
  show ?thesis
    by (simp add: follows_def proxy_late_def proxy_tail_def if_flag_once_def op_step_def proxy_flag_defs call_step_def f c inc
      with_next_peer_def ucg_algo_rd_iter_value_inc_def barrier_isend_def split: option.splits Option.bind_split)
qed

lemma steps_until_done:
  "ucg_test_flags (op_flags op) bits \<Longrightarrow>
     steps (if_flag_until_done bits f # fs) op w =
     steps (f # op_step (\<lambda>op. set_flags (ucg_clear_flags (op_flags op) bits) op) # fs) op w"
  by (auto simp: if_flag_until_done_def op_step_def split: Option.bind_split)

lemma follows_proxy_rounds:
  assumes n: "rd_args n" "0 \<le> r" "r < n" and t: "rd_proxy n r" and k: "k \<le> rd_rounds n" "j < 3" "k = rd_rounds n \<Longrightarrow> j = 0"
    and at: "in_round tag it0 n r 1 0x18 k j op"
  shows "follows env tag (drop j (rd_round_acts (no_data env) it0 n r k) @ [Snd (r - 1) (no_data env), Wait])
           (\<lambda>l op'. if j + l \<le> 3 * (rd_rounds n - k) then in_round tag it0 n r 1 0x18 (k + (j + l) div 3) ((j + l) mod 3) op'
                   else proxy_late tag it0 n r op')
           (steps (if_flag_until_done UCG_RD_PROXY_BASE (ucg_planc_ucx_barrier_rd_op_base env) # proxy_tail env)) op"
proof -
  have m: "r \<in> rd_members n" using n t by (simp add: rd_members_def rd_extra_def rd_proxy_def)
  let ?in = "\<lambda>l. in_round tag it0 n r 1 0x18 (k + (j + l) div 3) ((j + l) mod 3)"
  let ?acts = "drop j (rd_round_acts (no_data env) it0 n r k)"
  have len: "length ?acts = 3 * (rd_rounds n - k) - j" "j \<le> 3 * (rd_rounds n - k)"
    using k by (auto simp: length_rd_round_acts, linarith)
  have "j = 0 \<or> j = 1 \<or> j = 2" using k(2) by linarith
  then have f: "ucg_test_flags (op_flags op) UCG_RD_PROXY_BASE" using at
    by (auto simp: in_round_def ucg_test_flags_def UCG_RD_PROXY_BASE_def numeral_2_eq_2)
  have e: "j + length ?acts = 3 * (rd_rounds n - k)" using len by simp
  have "follows env tag (?acts @ [Snd (r - 1) (no_data env), Wait])
      (\<lambda>l op'. if j + l \<le> 3 * (rd_rounds n - k) then ?in l op' else proxy_late tag it0 n r op')
      (steps (ucg_planc_ucx_barrier_rd_op_base env # op_step (\<lambda>op. set_flags (ucg_clear_flags (op_flags op) UCG_RD_PROXY_BASE) op) #
        proxy_tail env)) op"
  proof (rule follows_seq [where ats = "\<lambda>l op'. if l = 0 then in_round tag it0 n r 1 0x18 (rd_rounds n) 0 op' else proxy_late tag it0 n r op'"])
    show "follows env tag ?acts ?in (ucg_planc_ucx_barrier_rd_op_base env) op"
      using t by (intro follows_rounds [OF n(1) m _ _ k at]) (simp_all add: round_extras_def)
    show "follows env tag [Snd (r - 1) (no_data env), Wait]
        (\<lambda>l op'. if l = 0 then in_round tag it0 n r 1 0x18 (rd_rounds n) 0 op' else proxy_late tag it0 n r op')
        (steps (op_step (\<lambda>op. set_flags (ucg_clear_flags (op_flags op) UCG_RD_PROXY_BASE) op) # proxy_tail env)) op'"
      if "?in (length ?acts) op'" for op'
      using that k(1) unfolding e by (intro follows_proxy_tail [OF n(1,2) t]) simp
    show "if j + l \<le> 3 * (rd_rounds n - k) then ?in l op' else proxy_late tag it0 n r op'" if "l < length ?acts" "?in l op'" for l op'
    proof -
      have "j + l \<le> 3 * (rd_rounds n - k)" using that(1) e by linarith
      then show ?thesis using that(2) by simp
    qed
    show "if j + (length ?acts + l) \<le> 3 * (rd_rounds n - k) then ?in (length ?acts + l) op' else proxy_late tag it0 n r op'"
      if "if l = 0 then in_round tag it0 n r 1 0x18 (rd_rounds n) 0 op' else proxy_late tag it0 n r op'" for l op'
    proof -
      have e': "j + (length ?acts + l) = 3 * (rd_rounds n - k) + l" using e by linarith
      show ?thesis unfolding e' using that k(1) by (cases "l = 0") simp_all
    qed
  qed
  then show ?thesis unfolding follows_def steps_until_done [OF f] .
qed

text \<open>\<open>barrier_at\<close> for a proxy, between its first message and its last.\<close>

lemma barrier_at_proxy:
  assumes "rd_proxy n r"
  shows "barrier_at tag it0 n r 0 op \<longleftrightarrow>
      op_tag op = tag \<and> uo_rd_iter (op_priv op) = rd_at it0 n r 0 \<and> op_flags op = 0x1F"
    and "barrier_at tag it0 n r 1 op \<longleftrightarrow> in_round tag it0 n r 1 0x18 0 0 op"
    and "j \<le> 3 * rd_rounds n \<Longrightarrow> barrier_at tag it0 n r (2 + j) op \<longleftrightarrow> in_round tag it0 n r 1 0x18 (j div 3) (j mod 3) op"
    and "2 + 3 * rd_rounds n < i \<Longrightarrow> barrier_at tag it0 n r i op \<longleftrightarrow> proxy_late tag it0 n r op"
  using assms by (auto simp: barrier_at_def rd_extra_def rd_proxy_def proxy_late_def)

lemma follows_proxy_first:
  assumes n: "rd_args n" "0 \<le> r" "r < n" and t: "rd_proxy n r" and at: "barrier_at tag it0 n r 0 op"
  shows "follows env tag (barrier_acts (no_data env) it0 n r) (barrier_at tag it0 n r) (ucg_planc_ucx_barrier_rd_op_proxy env) op"
proof -
  note b = barrier_at_proxy [OF t]
  let ?rest = "rd_round_acts (no_data env) it0 n r 0 @ [Snd (r - 1) (no_data env), Wait]"
  let ?base = "if_flag_until_done UCG_RD_PROXY_BASE (ucg_planc_ucx_barrier_rd_op_base env)"
  let ?in = "\<lambda>l op'. if 0 + l \<le> 3 * (rd_rounds n - 0) then in_round tag it0 n r 1 0x18 (0 + (0 + l) div 3) ((0 + l) mod 3) op'
      else proxy_late tag it0 n r op'"
  have S: "barrier_acts (no_data env) it0 n r = [Rcv (r - 1) (no_data env)] @ [Wait] @ ?rest"
    using t by (simp add: barrier_acts_def rd_extra_def rd_proxy_def)
  have late: "barrier_at tag it0 n r (2 + l) op'" if "?in l op'" for l op'
  proof (cases "l \<le> 3 * rd_rounds n")
    case True
    then show ?thesis using that b(3) [OF True] by simp
  next
    case False
    then show ?thesis using that b(4) [of "2 + l"] by simp
  qed
  have inc: "ucg_algo_rd_iter_inc (rd_at it0 n r 0) = rd_at it0 n r (Suc 0)" by (simp add: rd_at_def)
  have c: "rd_current (rd_at it0 n r 0) = r - 1" using rd_at_proxy(4) [OF n(1,2) t, of it0 0] by simp
  have A: "follows env tag [Rcv (r - 1) (no_data env)] (\<lambda>l. if l = 0 then barrier_at tag it0 n r 0 else in_round tag it0 n r 1 0x18 0 0)
      (if_flag_once UCG_RD_PROXY_RECV (with_next_peer (barrier_irecv env))) op"
    using at [unfolded b(1)]
    by (simp add: follows_def b(1) if_flag_once_def with_next_peer_def ucg_algo_rd_iter_value_inc_def barrier_irecv_def
      call_step_def proxy_flag_defs c in_round_def inc split: option.splits Option.bind_split)
  have B: "follows env tag ([Wait] @ ?rest) (\<lambda>l. barrier_at tag it0 n r (1 + l)) (steps (call_step (ce_testall env) # ?base # proxy_tail env)) op'"
    if i: "in_round tag it0 n r 1 0x18 0 0 op'" for op'
  proof (rule follows_seq [where atf = "\<lambda>_. in_round tag it0 n r 1 0x18 0 0" and ats = ?in, OF follows_call])
    show "follows env tag ?rest ?in (steps (?base # proxy_tail env)) op''" if "in_round tag it0 n r 1 0x18 0 0 op''" for op''
      using follows_proxy_rounds [OF n t _ _ _ that, of env] by simp
    show "barrier_at tag it0 n r (1 + (length [Wait] + l)) op''" if "?in l op''" for l op'' using late [OF that] by simp
    show "barrier_at tag it0 n r (1 + l) op''" if "l < length [Wait]" "in_round tag it0 n r 1 0x18 0 0 op''" for l op''
      using that b(2) by simp
  qed (use i in simp_all)
  have "follows env tag ([Rcv (r - 1) (no_data env)] @ [Wait] @ ?rest) (barrier_at tag it0 n r)
      (steps (if_flag_once UCG_RD_PROXY_RECV (with_next_peer (barrier_irecv env)) # call_step (ce_testall env) # ?base # proxy_tail env)) op"
  proof (rule follows_seq [OF A])
    show "follows env tag ([Wait] @ ?rest) (\<lambda>l. barrier_at tag it0 n r (1 + l))
        (steps (call_step (ce_testall env) # ?base # proxy_tail env)) op'"
      if "(if length [Rcv (r - 1) (no_data env)] = 0 then barrier_at tag it0 n r 0 else in_round tag it0 n r 1 0x18 0 0) op'" for op'
      using that by (intro B) simp
  qed simp_all
  then show ?thesis unfolding S ucg_planc_ucx_barrier_rd_op_proxy_def proxy_tail_def .
qed

text \<open>A proxy that is taken up again tests the messages first, also when it waits in one of the rounds.\<close>

lemma follows_proxy_again:
  assumes n: "rd_args n" "0 \<le> r" "r < n" and t: "rd_proxy n r" and i: "1 \<le> i" and at: "barrier_at tag it0 n r i op"
    and w: "i < length (barrier_acts (no_data env) it0 n r)" "barrier_acts (no_data env) it0 n r ! i = Wait"
  shows "follows env tag ([Wait] @ drop (max i 2) (barrier_acts (no_data env) it0 n r))
           (\<lambda>l. barrier_at tag it0 n r (if l = 0 then i else max i 2 + (l - 1))) (ucg_planc_ucx_barrier_rd_op_proxy env) op"
proof -
  note b = barrier_at_proxy [OF t]
  let ?S = "barrier_acts (no_data env) it0 n r" and ?R = "rd_rounds n"
  let ?B = "rd_round_acts (no_data env) it0 n r" and ?E = "[Snd (r - 1) (no_data env), Wait]"
  let ?base = "if_flag_until_done UCG_RD_PROXY_BASE (ucg_planc_ucx_barrier_rd_op_base env)"
  have S: "?S = [Rcv (r - 1) (no_data env), Wait] @ ?B 0 @ ?E" using t by (simp add: barrier_acts_def rd_extra_def rd_proxy_def)
  have len: "length ?S = 3 * ?R + 4" unfolding S by (simp add: length_rd_round_acts)
  have recv: "if_flag_once UCG_RD_PROXY_RECV g op w = Some (UCG_OK, op, w)" for g w
  proof -
    have "\<not> ucg_test_flags (op_flags op) UCG_RD_PROXY_RECV"
    proof (cases "i \<le> 2 + 3 * ?R")
      case True
      then obtain k j where "in_round tag it0 n r 1 0x18 k j op" using at i t by (auto simp: barrier_at_def rd_extra_def rd_proxy_def split: if_splits)
      moreover have "round_flags j = 3 \<or> round_flags j = 2 \<or> round_flags j = 0" by (cases j rule: round_flags.cases) simp_all
      ultimately show ?thesis by (auto simp: in_round_def ucg_test_flags_def UCG_RD_PROXY_RECV_def)
    next
      case False
      then show ?thesis using at b(4) [of i] by (simp add: proxy_late_def ucg_test_flags_def UCG_RD_PROXY_RECV_def)
    qed
    then show ?thesis by (simp add: if_flag_once_def ucg_test_and_clear_flags_def)
  qed
  have start: "ucg_planc_ucx_barrier_rd_op_proxy env op = steps (call_step (ce_testall env) # ?base # proxy_tail env) op"
    by (rule ext) (simp add: ucg_planc_ucx_barrier_rd_op_proxy_def recv proxy_tail_def)
  let ?at = "\<lambda>l. barrier_at tag it0 n r (if l = 0 then i else max i 2 + (l - 1))"
  have main: "follows env tag ([Wait] @ drop (max i 2) ?S) ?at (steps (call_step (ce_testall env) # ?base # proxy_tail env)) op"
    if rest: "\<And>op'. barrier_at tag it0 n r (max i 2) op' \<Longrightarrow>
      follows env tag (drop (max i 2) ?S) (\<lambda>l. barrier_at tag it0 n r (max i 2 + l)) (steps (?base # proxy_tail env)) op'"
  proof (rule follows_seq [where atf = "\<lambda>_. barrier_at tag it0 n r i" and ats = "\<lambda>l. barrier_at tag it0 n r (max i 2 + l)", OF follows_call])
    show "follows env tag (drop (max i 2) ?S) (\<lambda>l. barrier_at tag it0 n r (max i 2 + l)) (steps (?base # proxy_tail env)) op'"
      if "barrier_at tag it0 n r i op'" for op'
    proof (rule rest)
      show "barrier_at tag it0 n r (max i 2) op'"
      proof (cases "i = 1")
        case True
        then have two: "max i 2 = 2" by simp
        show ?thesis unfolding two using that True b(2) b(3) [of 0] by simp
      next
        case False
        then have "max i 2 = i" using i by (intro max_absorb1) linarith
        then show ?thesis using that by simp
      qed
    qed
  qed (use at in simp_all)
  have "follows env tag ([Wait] @ drop (max i 2) ?S) ?at (steps (call_step (ce_testall env) # ?base # proxy_tail env)) op"
  proof (rule main)
    fix op' assume at': "barrier_at tag it0 n r (max i 2) op'"
    show "follows env tag (drop (max i 2) ?S) (\<lambda>l. barrier_at tag it0 n r (max i 2 + l)) (steps (?base # proxy_tail env)) op'"
    proof (cases "i \<le> 2 + 3 * ?R")
      case False
      have "drop i ?S = [Wait]"
      proof -
        have "i = 3 * ?R + 3" using False w(1) len by linarith
        then have "i = length ([Rcv (r - 1) (no_data env), Wait] @ ?B 0 @ [Snd (r - 1) (no_data env)])"
          by (simp add: length_rd_round_acts)
        moreover have "?S = ([Rcv (r - 1) (no_data env), Wait] @ ?B 0 @ [Snd (r - 1) (no_data env)]) @ [Wait]" unfolding S by simp
        ultimately show ?thesis using append_eq_conv_conj by metis
      qed
      moreover have "proxy_late tag it0 n r op'" using at' False b(4) [of i] i by (simp add: max_def)
      ultimately show ?thesis
        using follows_mono [OF follows_proxy_late [where env = env and f = "ucg_planc_ucx_barrier_rd_op_base env"],
            of tag it0 n r op' "\<lambda>l. barrier_at tag it0 n r (max i 2 + l)"] False i b(4) by (simp add: max_def)
    next
      case True
      define j where "j = max i 2 - 2"
      have j: "max i 2 = 2 + j" "j \<le> 3 * ?R" using True i by (simp_all add: j_def)
      have jr: "in_round tag it0 n r 1 0x18 (j div 3) (j mod 3) op'" using at' b(3) [OF j(2)] j(1) by simp
      have d: "drop (max i 2) ?S = drop (j mod 3) (?B (j div 3)) @ ?E"
        unfolding S j(1) using drop_rd_round_acts [OF j(2), of "no_data env" it0 r] j(2)
        by (simp add: length_rd_round_acts)
      have k: "j div 3 \<le> ?R" "j mod 3 < 3" "j div 3 = ?R \<Longrightarrow> j mod 3 = 0" using j(2) by presburger+
      have pos: "j mod 3 + l \<le> 3 * (?R - j div 3) \<longleftrightarrow> j + l \<le> 3 * ?R" for l using k(1) mult_div_mod_eq [of 3 j] by linarith
      have sh: "(j + l) div 3 = j div 3 + (j mod 3 + l) div 3" "(j + l) mod 3 = (j mod 3 + l) mod 3" for l
        by (metis div_mult_self4 mult_div_mod_eq add.assoc zero_neq_numeral, simp add: mod_add_left_eq)
      show ?thesis unfolding d
      proof (rule follows_mono [OF follows_proxy_rounds [OF n t k jr]])
        fix l op''
        assume "if j mod 3 + l \<le> 3 * (?R - j div 3) then in_round tag it0 n r 1 0x18 (j div 3 + (j mod 3 + l) div 3) ((j mod 3 + l) mod 3) op''
          else proxy_late tag it0 n r op''"
        then show "barrier_at tag it0 n r (max i 2 + l) op''"
          unfolding pos j(1) using b(3) [of "j + l" tag it0 op''] b(4) [of "2 + j + l" tag it0 op''] sh [of l]
          by (simp add: add.assoc split: if_splits)
      qed
    qed
  qed
  then show ?thesis by (rule follows_cong [rotated]) (rule start)
qed

text \<open>A progress call of any rank, at the beginning or where the last call has stopped.\<close>

lemma barrier_at_set_status [simp]: "barrier_at tag it0 n r i (op_set_status st op) \<longleftrightarrow> barrier_at tag it0 n r i op"
  by (simp add: barrier_at_def in_round_def)

lemma barrier_at_iter:
  assumes "barrier_at tag it0 n r i op"
  shows "op_tag op = tag \<and> (\<exists>k. uo_rd_iter (op_priv op) = rd_at it0 n r k)"
  using assms by (auto simp: barrier_at_def in_round_def split: if_splits)

lemma barrier_progress_follows:
  assumes n: "rd_args n" "0 \<le> r" "r < n" and at: "barrier_at tag it0 n r i op"
    and w: "i = 0 \<or> i < length (barrier_acts (no_data env) it0 n r) \<and> barrier_acts (no_data env) it0 n r ! i = Wait"
  obtains ex where "ex = [] \<or> ex = [Wait] \<and> 0 < i"
    and "follows env tag (ex @ drop i (barrier_acts (no_data env) it0 n r))
           (\<lambda>l. barrier_at tag it0 n r (i + (l - length ex))) (ucg_planc_ucx_barrier_rd_op_progress env) op"
proof -
  let ?S = "barrier_acts (no_data env) it0 n r"
  obtain k where "uo_rd_iter (op_priv op) = rd_at it0 n r k" using barrier_at_iter [OF at] by blast
  then have ty: "rd_type (uo_rd_iter (op_priv op)) =
      (if rd_extra n r then UCG_ALGO_RD_ITER_EXTRA else if rd_proxy n r then UCG_ALGO_RD_ITER_PROXY else UCG_ALGO_RD_ITER_BASE)"
    using rd_type_at [OF n(1,2)] by simp
  have prog: "follows env tag as (\<lambda>l. barrier_at tag it0 n r (g l)) (ucg_planc_ucx_barrier_rd_op_progress env) op"
    if "follows env tag as (\<lambda>l. barrier_at tag it0 n r (g l)) f op"
      "\<And>w. ucg_planc_ucx_barrier_rd_op_progress env op w = progress_end (f op w)" for as g f
  proof -
    have "follows env tag as (\<lambda>l. barrier_at tag it0 n r (g l)) (\<lambda>op w. progress_end (f op w)) op"
      by (rule follows_progress_end [OF that(1)]) simp
    then show ?thesis unfolding follows_def that(2) .
  qed
  consider "rd_extra n r" | "\<not> rd_extra n r" "rd_proxy n r" | "\<not> rd_extra n r" "\<not> rd_proxy n r" by blast
  then show ?thesis
  proof cases
    case 1
    then have S: "?S = [Snd (r + 1) (no_data env), Rcv (r + 1) (no_data env), Wait]" by (simp add: barrier_acts_def)
    have "i \<le> 2" using w unfolding S by auto
    from follows_extra [OF n(1,2) 1 at this, of env] show ?thesis
      using 1 ty by (intro that [of "[]"] prog) (simp_all add: S ucg_planc_ucx_barrier_rd_op_progress_def)
  next
    case 2
    have pr: "ucg_planc_ucx_barrier_rd_op_progress env op w = progress_end (ucg_planc_ucx_barrier_rd_op_proxy env op w)" for w
      using 2 ty by (simp add: ucg_planc_ucx_barrier_rd_op_progress_def)
    consider "i = 0" | "i = 1" | "2 \<le> i" by linarith
    then show ?thesis
    proof cases
      case 1
      show ?thesis
        using follows_proxy_first [OF n 2(2) at [unfolded 1], of env] pr
        by (intro that [of "[]"] prog [where f = "ucg_planc_ucx_barrier_rd_op_proxy env"]) (simp_all add: 1)
    next
      case i: 2
      have S: "drop 1 ?S = [Wait] @ drop (max 1 2) ?S" using 2 by (simp add: barrier_acts_def)
      have "follows env tag (drop 1 ?S) (\<lambda>l. barrier_at tag it0 n r (1 + l)) (ucg_planc_ucx_barrier_rd_op_proxy env) op"
        unfolding S
        by (rule follows_mono [OF follows_proxy_again [OF n 2(2) _ at [unfolded i]]]) (use i w in \<open>auto split: if_splits\<close>)
      then show ?thesis using pr
        by (intro that [of "[]"] prog [where f = "ucg_planc_ucx_barrier_rd_op_proxy env"]) (simp_all add: i)
    next
      case i: 3
      then have m: "max i 2 = i" by simp
      have "follows env tag ([Wait] @ drop i ?S) (\<lambda>l. barrier_at tag it0 n r (i + (l - length [Wait]))) (ucg_planc_ucx_barrier_rd_op_proxy env) op"
        by (rule follows_mono [OF follows_proxy_again [OF n 2(2) _ at, unfolded m]]) (use i w in \<open>auto split: if_splits\<close>)
      then show ?thesis using pr
        by (intro that [of "[Wait]"] prog [where f = "ucg_planc_ucx_barrier_rd_op_proxy env"]) (use i in simp_all)
    qed
  next
    case 3
    have S: "?S = rd_round_acts (no_data env) it0 n r 0" using 3 by (simp add: barrier_acts_def)
    have i: "i \<le> 3 * rd_rounds n" using w unfolding S length_rd_round_acts by auto
    have k: "i div 3 \<le> rd_rounds n" "i mod 3 < 3" "i div 3 = rd_rounds n \<Longrightarrow> i mod 3 = 0" using i by presburger+
    have m: "r \<in> rd_members n" using n 3 by (simp add: rd_members_def)
    have at': "in_round tag it0 n r 0 0 (i div 3) (i mod 3) op" using at 3 by (simp add: barrier_at_def)
    have "follows env tag (drop i ?S) (\<lambda>l. barrier_at tag it0 n r (i + l)) (ucg_planc_ucx_barrier_rd_op_base env) op"
      unfolding S drop_rd_round_acts [OF i]
    proof (rule follows_mono [OF follows_rounds [OF n(1) m _ _ k at']])
      fix l op' assume "in_round tag it0 n r 0 0 (i div 3 + (i mod 3 + l) div 3) ((i mod 3 + l) mod 3) op'"
      moreover have "(i + l) div 3 = i div 3 + (i mod 3 + l) div 3" "(i + l) mod 3 = (i mod 3 + l) mod 3"
        by (metis div_mult_self4 mult_div_mod_eq add.assoc zero_neq_numeral, simp add: mod_add_left_eq)
      ultimately show "barrier_at tag it0 n r (i + l) op'" using 3 by (simp add: barrier_at_def)
    qed (use 3 in \<open>simp_all add: round_extras_def\<close>)
    then show ?thesis
      using 3 ty by (intro that [of "[]"] prog) (simp_all add: ucg_planc_ucx_barrier_rd_op_progress_def)
  qed
qed

text \<open>Triggering begins the script, also when the operation has run before.\<close>

lemma rd_iter_reset_at:
  assumes "rd_args n" and "0 \<le> r"
  shows "ucg_algo_rd_iter_reset (rd_at it0 n r k) = rd_at it0 n r 0"
  by (simp add: rd_at [OF assms] ucg_algo_rd_iter_reset_def rd_update rd_start_def)

lemma barrier_trigger_starts:
  assumes n: "rd_args n" "0 \<le> r" and it: "uo_rd_iter (op_priv op) = rd_at it0 n r k"
  shows "\<exists>op0. barrier_at (op_id op) it0 n r 0 op0 \<and> (\<forall>w. ucg_planc_ucx_barrier_rd_op_trigger env op w =
    trigger_end (ucg_planc_ucx_barrier_rd_op_progress env op0 (ce_state_reset env w)))"
proof -
  define op0 where "op0 = barrier_rd_start (fst (ucg_planc_ucx_op_reset env op undefined))"
  have iter: "uo_rd_iter (op_priv op0) = rd_at it0 n r 0"
    using it rd_iter_reset_at [OF n] by (simp add: op0_def barrier_rd_start_def ucg_planc_ucx_op_reset_def Let_def)
  have fl: "op_flags op0 = (if rd_extra n r then 0x60 else if rd_proxy n r then 0x1F else 3)"
    using it rd_iter_reset_at [OF n] rd_type_at [OF n, of it0 0]
    by (simp add: op0_def barrier_rd_start_def ucg_planc_ucx_op_reset_def Let_def UCG_RD_BASE_FLAGS_def UCG_RD_PROXY_FLAGS_def
      UCG_RD_EXTRA_FLAGS_def UCG_RD_BASE_SEND_def UCG_RD_BASE_RECV_def UCG_RD_PROXY_RECV_def UCG_RD_PROXY_BASE_def
      UCG_RD_PROXY_SEND_def UCG_RD_EXTRA_SEND_def UCG_RD_EXTRA_RECV_def)
  have "op_tag op0 = op_id op" by (simp add: op0_def barrier_rd_start_def ucg_planc_ucx_op_reset_def Let_def)
  then have "barrier_at (op_id op) it0 n r 0 op0" using iter fl by (simp add: barrier_at_def in_round_def)
  moreover have "ucg_planc_ucx_barrier_rd_op_trigger env op w =
      trigger_end (ucg_planc_ucx_barrier_rd_op_progress env op0 (ce_state_reset env w))" for w
    by (simp add: op0_def ucg_planc_ucx_barrier_rd_op_trigger_def ucg_planc_ucx_op_reset_def)
  ultimately show ?thesis by blast
qed

text \<open>An operation that has been created is ready to be triggered.\<close>

lemma barrier_new_ready:
  assumes "ucg_planc_ucx_barrier_rd_op_new env grp vgroup blank args h w = (Some op, h', w')"
  shows "uo_rd_iter (op_priv op) = rd_at (uo_rd_iter blank) (ce_size env) (ce_myrank env) 0"
  using assms
  by (auto simp: ucg_planc_ucx_barrier_rd_op_new_def ucx_op_new_def ucg_plan_op_ctor_def ucg_request_ctor_def
      ucg_planc_ucx_op_init_def rd_at_def split: prod.splits bool.splits if_splits)

end
