(* ===== verification/Coll_Cut.thy ===== *)
theory Coll_Cut
  imports Coll_Script
begin

text \<open>
  Many ranks running one collective, each following its script.  A cut says how far every rank is; it is
  consistent when no rank is behind a test of receives whose messages have not been sent.  \<open>chan_promises\<close> is what
  the ranks rely on: messages and receives of one tag between two ranks are counted, and a successful test means that there are
  no more receives than messages.
\<close>

subsection \<open>Counting\<close>

definition snd_count :: "ucg_rank_t \<Rightarrow> coll_act list \<Rightarrow> nat" where
  "snd_count p as = length (filter (\<lambda>a. case a of Snd q b \<Rightarrow> q = p | _ \<Rightarrow> False) as)"

definition rcv_count :: "ucg_rank_t \<Rightarrow> coll_act list \<Rightarrow> nat" where
  "rcv_count p as = length (filter (\<lambda>a. case a of Rcv q b \<Rightarrow> q = p | _ \<Rightarrow> False) as)"

lemma counts_append [simp]:
  "snd_count p (as @ bs) = snd_count p as + snd_count p bs" "rcv_count p (as @ bs) = rcv_count p as + rcv_count p bs"
  by (simp_all add: snd_count_def rcv_count_def)

lemma counts_nil [simp]: "snd_count p [] = 0" "rcv_count p [] = 0"
  by (simp_all add: snd_count_def rcv_count_def)

lemma counts_cons [simp]:
  "snd_count p (a # as) = (case a of Snd q b \<Rightarrow> if q = p then 1 else 0 | _ \<Rightarrow> 0) + snd_count p as"
  "rcv_count p (a # as) = (case a of Rcv q b \<Rightarrow> if q = p then 1 else 0 | _ \<Rightarrow> 0) + rcv_count p as"
  by (auto simp: snd_count_def rcv_count_def split: coll_act.splits)

lemma snd_count_take_mono: "i \<le> j \<Longrightarrow> snd_count p (take i as) \<le> snd_count p (take j as)"
proof -
  assume "i \<le> j"
  then have "take j as = take i as @ take (j - i) (drop i as)" by (metis le_add_diff_inverse take_add)
  then show ?thesis by simp
qed

lemma snd_count_0: "snd_count p as = 0 \<longleftrightarrow> (\<forall>b. Snd p b \<notin> set as)"
  by (induction as) (auto split: coll_act.splits)

lemma rcv_count_0: "rcv_count p as = 0 \<longleftrightarrow> (\<forall>b. Rcv p b \<notin> set as)"
  by (induction as) (auto split: coll_act.splits)

lemma snd_count_pos:
  assumes "i < m" and "i < length as" and "as ! i = Snd p b"
  shows "1 \<le> snd_count p (take m as)"
proof -
  have "Snd p b \<in> set (take m as)" using assms by (auto simp: in_set_conv_nth intro!: exI [where x = i])
  then have "snd_count p (take m as) \<noteq> 0" unfolding snd_count_0 by blast
  then show ?thesis by simp
qed

definition peers_of :: "coll_act list \<Rightarrow> ucg_rank_t set" where
  "peers_of as = {p. \<exists>b. Snd p b \<in> set as \<or> Rcv p b \<in> set as}"

lemma peers_of_simps [simp]:
  "peers_of [] = {}" "peers_of (as @ bs) = peers_of as \<union> peers_of bs"
  "peers_of (a # as) = (case a of Snd q b \<Rightarrow> {q} | Rcv q b \<Rightarrow> {q} | _ \<Rightarrow> {}) \<union> peers_of as"
  by (auto simp: peers_of_def split: coll_act.splits)

subsection \<open>The p2p layer\<close>

type_synonym chan_count = "ucg_rank_t \<Rightarrow> ucg_rank_t \<Rightarrow> nat"

definition bump :: "ucg_rank_t \<Rightarrow> ucg_rank_t \<Rightarrow> chan_count \<Rightarrow> chan_count" where
  "bump r p f = f(r := (f r)(p := f r p + 1))"

text \<open>
  \<open>sent w r p\<close> messages have been posted by \<open>r\<close> for \<open>p\<close>, \<open>rcvd w r p\<close> receives by \<open>r\<close> from \<open>p\<close>.  The layer keeps its
  promises as long as \<open>ok\<close> holds, which its functions preserve; the state of an operation is reset only before it has posted
  anything.
\<close>

definition chan_promises ::
    "ucg_rank_t set \<Rightarrow> (ucg_rank_t \<Rightarrow> 'w coll_env) \<Rightarrow> c_int \<Rightarrow> ('w \<Rightarrow> bool) \<Rightarrow> ('w \<Rightarrow> chan_count) \<Rightarrow> ('w \<Rightarrow> chan_count) \<Rightarrow> bool" where
  "chan_promises N E tag ok sent rcvd \<longleftrightarrow>
     (\<forall>r \<in> N. \<forall>w. ok w \<longrightarrow>
        (\<forall>b n d p st w'. p \<in> N \<longrightarrow> ce_isend (E r) b n d p tag w = Some (st, w') \<longrightarrow>
           ok w' \<and> st \<noteq> UCG_INPROGRESS \<and> sent w' = (if st = UCG_OK then bump r p (sent w) else sent w) \<and> rcvd w' = rcvd w) \<and>
        (\<forall>b n d p st w'. p \<in> N \<longrightarrow> ce_irecv (E r) b n d p tag w = Some (st, w') \<longrightarrow>
           ok w' \<and> st \<noteq> UCG_INPROGRESS \<and> rcvd w' = (if st = UCG_OK then bump r p (rcvd w) else rcvd w) \<and> sent w' = sent w) \<and>
        (\<forall>st w'. ce_testall (E r) w = Some (st, w') \<longrightarrow>
           ok w' \<and> sent w' = sent w \<and> rcvd w' = rcvd w \<and> (st = UCG_OK \<longrightarrow> (\<forall>p \<in> N. rcvd w r p \<le> sent w p r))) \<and>
        ((\<forall>p \<in> N. sent w r p = 0 \<and> rcvd w r p = 0) \<longrightarrow> ok (ce_state_reset (E r) w) \<and>
           sent (ce_state_reset (E r) w) = sent w \<and> rcvd (ce_state_reset (E r) w) = rcvd w) \<and>
        (\<forall>b n d b' n' d' st w'. ce_memcpy (E r) b n d b' n' d' w = Some (st, w') \<longrightarrow>
           ok w' \<and> st \<noteq> UCG_INPROGRESS \<and> sent w' = sent w \<and> rcvd w' = rcvd w) \<and>
        (\<forall>f s t n d st w'. ce_reduce (E r) f s t n d w = Some (st, w') \<longrightarrow>
           ok w' \<and> st \<noteq> UCG_INPROGRESS \<and> sent w' = sent w \<and> rcvd w' = rcvd w))"

lemma chan_reset:
  assumes "chan_promises N E tag ok sent rcvd" and "r \<in> N" and "ok w" and "\<forall>p \<in> N. sent w r p = 0 \<and> rcvd w r p = 0"
  shows "ok (ce_state_reset (E r) w) \<and> sent (ce_state_reset (E r) w) = sent w \<and> rcvd (ce_state_reset (E r) w) = rcvd w"
  using bspec [OF assms(1) [unfolded chan_promises_def] assms(2), THEN spec, of w, THEN mp, OF assms(3),
      THEN conjunct2, THEN conjunct2, THEN conjunct2, THEN conjunct1, THEN mp, OF assms(4)] .

lemma perform_counts:
  assumes "chan_promises N E tag ok sent rcvd" and "r \<in> N" and "ok w" and "peers_of [a] \<subseteq> N" and "perform (E r) tag a w = Some (st, w')"
  shows "ok w' \<and> (st = UCG_INPROGRESS \<longrightarrow> a = Wait) \<and>
    sent w' = (case a of Snd p b \<Rightarrow> if st = UCG_OK then bump r p (sent w) else sent w | _ \<Rightarrow> sent w) \<and>
    rcvd w' = (case a of Rcv p b \<Rightarrow> if st = UCG_OK then bump r p (rcvd w) else rcvd w | _ \<Rightarrow> rcvd w) \<and>
    (a = Wait \<longrightarrow> st = UCG_OK \<longrightarrow> (\<forall>p \<in> N. rcvd w r p \<le> sent w p r))"
proof -
  note c = bspec [OF assms(1) [unfolded chan_promises_def] assms(2), THEN spec, of w, THEN mp, OF assms(3)]
  show ?thesis
  proof (cases a)
    case (Snd p b)
    obtain x n d where "b = (x, n, d)" by (cases b)
    then show ?thesis using c [THEN conjunct1] assms(4,5) Snd by fastforce
  next
    case (Rcv p b)
    obtain x n d where "b = (x, n, d)" by (cases b)
    then show ?thesis using c [THEN conjunct2, THEN conjunct1] assms(4,5) Rcv by fastforce
  next
    case Wait
    then show ?thesis using c [THEN conjunct2, THEN conjunct2, THEN conjunct1] assms(5) by fastforce
  next
    case (Cpy b b')
    obtain x n d y m e where "b = (x, n, d)" "b' = (y, m, e)" by (cases b, cases b')
    then show ?thesis using c [THEN conjunct2, THEN conjunct2, THEN conjunct2, THEN conjunct2, THEN conjunct1] assms(5) Cpy
      by fastforce
  next
    case (Red f s t n d)
    then show ?thesis using c [THEN conjunct2, THEN conjunct2, THEN conjunct2, THEN conjunct2, THEN conjunct2] assms(5)
      by fastforce
  qed
qed

text \<open>What a rank does changes only its own counts, by what it has done.\<close>

lemma run_acts_counts:
  assumes "chan_promises N E tag ok sent rcvd" and "r \<in> N"
  shows "peers_of as \<subseteq> N \<Longrightarrow> ok w \<Longrightarrow> run_acts (E r) tag as w = Some (st, k, w') \<Longrightarrow>
    ok w' \<and> (st = UCG_INPROGRESS \<longrightarrow> k < length as \<and> as ! k = Wait) \<and>
    (\<forall>q p. sent w' q p = sent w q p + (if q = r then snd_count p (take k as) else 0)) \<and>
    (\<forall>q p. rcvd w' q p = rcvd w q p + (if q = r then rcv_count p (take k as) else 0)) \<and>
    (\<forall>i < k. as ! i = Wait \<longrightarrow> (\<forall>p \<in> N. rcvd w r p + rcv_count p (take i as) \<le> sent w' p r))"
proof (induction as arbitrary: w k)
  case (Cons a as)
  from Cons.prems(3) obtain st1 w1 where a: "perform (E r) tag a w = Some (st1, w1)"
    and b: "if st1 \<noteq> UCG_OK then (st, k, w') = (st1, 0, w1)
      else \<exists>j. run_acts (E r) tag as w1 = Some (st, j, w') \<and> k = Suc j"
    by (auto split: bind_splits if_splits)
  have pa: "peers_of [a] \<subseteq> N" "peers_of as \<subseteq> N" using Cons.prems(1) by (auto split: coll_act.splits)
  note pc = perform_counts [OF assms Cons.prems(2) pa(1) a]
  show ?case
  proof (cases "st1 = UCG_OK")
    case False
    then have e: "st = st1" "k = 0" "w' = w1" using b by simp_all
    then have "sent w' = sent w" "rcvd w' = rcvd w" using pc False by (cases a; simp)+
    then show ?thesis using pc e by auto
  next
    case True
    then obtain j where j: "run_acts (E r) tag as w1 = Some (st, j, w')" "k = Suc j" using b by auto
    note ih = Cons.IH [OF pa(2) pc [THEN conjunct1] j(1)]
    have s1: "sent w1 q p = sent w q p + (if q = r then snd_count p [a] else 0)" for q p
      using pc True by (cases a) (auto simp: bump_def)
    have r1: "rcvd w1 q p = rcvd w q p + (if q = r then rcv_count p [a] else 0)" for q p
      using pc True by (cases a) (auto simp: bump_def)
    have s: "sent w' q p = sent w q p + (if q = r then snd_count p (take k (a # as)) else 0)" for q p
      using ih s1 [of q p] j(2) by simp
    have rc: "rcvd w' q p = rcvd w q p + (if q = r then rcv_count p (take k (a # as)) else 0)" for q p
      using ih r1 [of q p] j(2) by simp
    have waits: "\<forall>i < k. (a # as) ! i = Wait \<longrightarrow> (\<forall>p \<in> N. rcvd w r p + rcv_count p (take i (a # as)) \<le> sent w' p r)"
    proof (intro allI impI ballI)
      fix i p assume i: "i < k" "(a # as) ! i = Wait" "p \<in> N"
      show "rcvd w r p + rcv_count p (take i (a # as)) \<le> sent w' p r"
      proof (cases i)
        case 0
        then have "rcvd w r p \<le> sent w p r" using pc True i by simp
        then show ?thesis using 0 s [of p r] by simp
      next
        case (Suc i')
        then have "rcvd w1 r p + rcv_count p (take i' as) \<le> sent w' p r"
          using ih [THEN conjunct2, THEN conjunct2, THEN conjunct2, THEN conjunct2] i j(2) by simp
        then show ?thesis using r1 [of r p] Suc by simp
      qed
    qed
    show ?thesis using ih j(2) s rc waits by auto
  qed
qed simp

subsection \<open>Runs\<close>

text \<open>
  A collective of all ranks: every rank triggers its operation once and, if the trigger has returned
  \<open>UCG_OK\<close>, progresses it as long as it is in progress, as \<open>ucg_request_start\<close> and the progress list of the context do, in any
  order; in between anything may happen that leaves alone what \<open>view\<close> shows of the world.
\<close>

record 'w coll_conf =
  cf_op :: "ucg_rank_t \<Rightarrow> ucx_op"
  cf_on :: "ucg_rank_t \<Rightarrow> ucg_status option"
  cf_world :: 'w

inductive coll_run ::
    "ucg_rank_t set \<Rightarrow> (ucg_rank_t \<Rightarrow> 'w coll_env) \<Rightarrow> ('w coll_env \<Rightarrow> 'w step) \<Rightarrow> ('w coll_env \<Rightarrow> 'w step) \<Rightarrow>
     ('w \<Rightarrow> 'x) \<Rightarrow> 'w coll_conf \<Rightarrow> 'w coll_conf \<Rightarrow> bool"
  for N E trig prog view c0 where
  start: "coll_run N E trig prog view c0 c0"
| trigger: "coll_run N E trig prog view c0 c \<Longrightarrow> r \<in> N \<Longrightarrow> cf_on c r = None \<Longrightarrow>
    trig (E r) (cf_op c r) (cf_world c) = Some (st, op', w') \<Longrightarrow>
    coll_run N E trig prog view c0 \<lparr>cf_op = (cf_op c)(r := op'), cf_on = (cf_on c)(r := Some st), cf_world = w'\<rparr>"
| progress: "coll_run N E trig prog view c0 c \<Longrightarrow> r \<in> N \<Longrightarrow> cf_on c r = Some UCG_OK \<Longrightarrow>
    op_status (cf_op c r) = UCG_INPROGRESS \<Longrightarrow> prog (E r) (cf_op c r) (cf_world c) = Some (st, op', w') \<Longrightarrow>
    coll_run N E trig prog view c0 (c\<lparr>cf_op := (cf_op c)(r := op'), cf_world := w'\<rparr>)"
| other: "coll_run N E trig prog view c0 c \<Longrightarrow> view w' = view (cf_world c) \<Longrightarrow>
    coll_run N E trig prog view c0 (c\<lparr>cf_world := w'\<rparr>)"

text \<open>A run that is played move by move: \<open>True\<close> triggers a rank, \<open>False\<close> progresses it.\<close>

fun coll_play ::
    "(ucg_rank_t \<Rightarrow> 'w coll_env) \<Rightarrow> ('w coll_env \<Rightarrow> 'w step) \<Rightarrow> ('w coll_env \<Rightarrow> 'w step) \<Rightarrow>
     (bool \<times> ucg_rank_t) list \<Rightarrow> 'w coll_conf \<Rightarrow> 'w coll_conf option" where
  "coll_play E trig prog [] c = Some c"
| "coll_play E trig prog ((True, r) # ms) c =
     (if cf_on c r \<noteq> None then None
      else do { (st, op', w') \<leftarrow> trig (E r) (cf_op c r) (cf_world c);
                coll_play E trig prog ms \<lparr>cf_op = (cf_op c)(r := op'), cf_on = (cf_on c)(r := Some st), cf_world = w'\<rparr> })"
| "coll_play E trig prog ((False, r) # ms) c =
     (if cf_on c r \<noteq> Some UCG_OK \<or> op_status (cf_op c r) \<noteq> UCG_INPROGRESS then None
      else do { (st, op', w') \<leftarrow> prog (E r) (cf_op c r) (cf_world c);
                coll_play E trig prog ms (c\<lparr>cf_op := (cf_op c)(r := op'), cf_world := w'\<rparr>) })"

lemma coll_play_run:
  "snd ` set ms \<subseteq> N \<Longrightarrow> coll_run N E trig prog view c0 c \<Longrightarrow> coll_play E trig prog ms c = Some c' \<Longrightarrow>
     coll_run N E trig prog view c0 c'"
proof (induction E trig prog ms c rule: coll_play.induct)
  case (2 E trig prog r ms c)
  then show ?case using coll_run.trigger [OF 2(3), of r] by (auto split: if_splits bind_splits)
next
  case (3 E trig prog r ms c)
  then show ?case using coll_run.progress [OF 3(3), of r] by (auto split: if_splits bind_splits)
qed simp

text \<open>A run that leaves more alone.\<close>

lemma coll_run_view:
  assumes "\<And>w w'. view w = view w' \<Longrightarrow> view' w = view' w'"
  shows "coll_run N E trig prog view c0 c \<Longrightarrow> coll_run N E trig prog view' c0 c"
proof (induction rule: coll_run.induct)
  case start
  show ?case by (rule coll_run.start)
next
  case (trigger c r st op' w')
  show ?case by (rule coll_run.trigger [OF trigger(5) trigger(2-4)])
next
  case (progress c r st op' w')
  show ?case by (rule coll_run.progress [OF progress(6) progress(2-5)])
next
  case (other c w')
  show ?case by (rule coll_run.other [OF other(3) assms [OF other(2)]])
qed

subsection \<open>Cuts\<close>

definition counts_at ::
    "ucg_rank_t set \<Rightarrow> (ucg_rank_t \<Rightarrow> coll_act list) \<Rightarrow> (ucg_rank_t \<Rightarrow> nat) \<Rightarrow> chan_count \<Rightarrow> chan_count \<Rightarrow> bool" where
  "counts_at N S pos sent rcvd \<longleftrightarrow>
     (\<forall>r \<in> N. \<forall>p \<in> N. sent r p = snd_count p (take (pos r) (S r)) \<and> rcvd r p = rcv_count p (take (pos r) (S r)))"

definition consistent_cut :: "ucg_rank_t set \<Rightarrow> (ucg_rank_t \<Rightarrow> coll_act list) \<Rightarrow> (ucg_rank_t \<Rightarrow> nat) \<Rightarrow> bool" where
  "consistent_cut N S pos \<longleftrightarrow>
     (\<forall>r \<in> N. \<forall>i < pos r. S r ! i = Wait \<longrightarrow>
        (\<forall>p \<in> N. rcv_count p (take i (S r)) \<le> snd_count r (take (pos p) (S p))))"

text \<open>
  One rank goes on: it performs \<open>ex\<close>, which may be a test, and then actions of its script.  An invariant of the
  positions and the world is kept by all such steps; a rank of which a step has failed does nothing more, and the invariant may
  exempt these ranks, \<open>D\<close>.
\<close>

definition keeps ::
    "ucg_rank_t set \<Rightarrow> (ucg_rank_t \<Rightarrow> 'w coll_env) \<Rightarrow> c_int \<Rightarrow> (ucg_rank_t \<Rightarrow> coll_act list) \<Rightarrow>
     (ucg_rank_t set \<Rightarrow> (ucg_rank_t \<Rightarrow> nat) \<Rightarrow> 'w \<Rightarrow> bool) \<Rightarrow> bool" where
  "keeps N E tag S I \<longleftrightarrow>
     (\<forall>D pos w r ex as zs st k w'.
        r \<in> N \<longrightarrow> r \<notin> D \<longrightarrow> I D pos w \<longrightarrow> pos r \<le> length (S r) \<longrightarrow> ex = [] \<or> ex = [Wait] \<and> pos r < length (S r) \<and> S r ! pos r = Wait \<longrightarrow> drop (pos r) (S r) = as @ zs \<longrightarrow>
        run_acts (E r) tag (ex @ as) w = Some (st, k, w') \<longrightarrow>
        I (if st \<in> {UCG_OK, UCG_INPROGRESS} then D else insert r D) (pos(r := pos r + (k - length ex))) w' \<and>
        (st = UCG_INPROGRESS \<longrightarrow> k < length (ex @ as) \<and> (ex @ as) ! k = Wait)) \<and>
     (\<forall>D pos w r. r \<in> N \<longrightarrow> r \<notin> D \<longrightarrow> I D pos w \<longrightarrow> pos r = 0 \<longrightarrow> I D pos (ce_state_reset (E r) w))"

lemma keepsI:
  assumes "\<And>D pos w r ex as zs st k w'. r \<in> N \<Longrightarrow> r \<notin> D \<Longrightarrow> I D pos w \<Longrightarrow> pos r \<le> length (S r) \<Longrightarrow>
      ex = [] \<or> ex = [Wait] \<and> pos r < length (S r) \<and> S r ! pos r = Wait \<Longrightarrow> drop (pos r) (S r) = as @ zs \<Longrightarrow> run_acts (E r) tag (ex @ as) w = Some (st, k, w') \<Longrightarrow>
      I (if st \<in> {UCG_OK, UCG_INPROGRESS} then D else insert r D) (pos(r := pos r + (k - length ex))) w' \<and>
      (st = UCG_INPROGRESS \<longrightarrow> k < length (ex @ as) \<and> (ex @ as) ! k = Wait)"
    and "\<And>D pos w r. r \<in> N \<Longrightarrow> r \<notin> D \<Longrightarrow> I D pos w \<Longrightarrow> pos r = 0 \<Longrightarrow> I D pos (ce_state_reset (E r) w)"
  shows "keeps N E tag S I"
  unfolding keeps_def
proof (rule conjI; intro allI impI)
  fix D pos w r ex as zs st k w'
  assume "r \<in> N" "r \<notin> D" "I D pos w" "pos r \<le> length (S r)"
    "ex = [] \<or> ex = [Wait] \<and> pos r < length (S r) \<and> S r ! pos r = Wait" "drop (pos r) (S r) = as @ zs"
    "run_acts (E r) tag (ex @ as) w = Some (st, k, w')"
  then show "I (if st \<in> {UCG_OK, UCG_INPROGRESS} then D else insert r D) (pos(r := pos r + (k - length ex))) w' \<and>
      (st = UCG_INPROGRESS \<longrightarrow> k < length (ex @ as) \<and> (ex @ as) ! k = Wait)" by (rule assms(1))
qed (rule assms(2))

lemma keepsD:
  assumes "keeps N E tag S I" and "r \<in> N" and "r \<notin> D" and "I D pos w" and "pos r \<le> length (S r)"
    and "ex = [] \<or> ex = [Wait] \<and> pos r < length (S r) \<and> S r ! pos r = Wait"
    and "drop (pos r) (S r) = as @ zs" and "run_acts (E r) tag (ex @ as) w = Some (st, k, w')"
  shows "I (if st \<in> {UCG_OK, UCG_INPROGRESS} then D else insert r D) (pos(r := pos r + (k - length ex))) w'"
    and "st = UCG_INPROGRESS \<Longrightarrow> k < length (ex @ as) \<and> (ex @ as) ! k = Wait"
proof -
  note a = assms(1) [unfolded keeps_def, THEN conjunct1, rule_format, OF assms(2-8)]
  from a show "I (if st \<in> {UCG_OK, UCG_INPROGRESS} then D else insert r D) (pos(r := pos r + (k - length ex))) w'"
    "st = UCG_INPROGRESS \<Longrightarrow> k < length (ex @ as) \<and> (ex @ as) ! k = Wait" by blast+
qed

lemma keeps_reset: "keeps N E tag S I \<Longrightarrow> r \<in> N \<Longrightarrow> r \<notin> D \<Longrightarrow> I D pos w \<Longrightarrow> pos r = 0 \<Longrightarrow> I D pos (ce_state_reset (E r) w)"
  by (simp add: keeps_def)

text \<open>The counts say where the ranks are, and the cut stays consistent.\<close>

definition cut_at ::
    "ucg_rank_t set \<Rightarrow> (ucg_rank_t \<Rightarrow> coll_act list) \<Rightarrow> ('w \<Rightarrow> bool) \<Rightarrow> ('w \<Rightarrow> chan_count) \<Rightarrow> ('w \<Rightarrow> chan_count) \<Rightarrow> (ucg_rank_t \<Rightarrow> nat) \<Rightarrow> 'w \<Rightarrow> bool" where
  "cut_at N S ok sent rcvd pos w \<longleftrightarrow> ok w \<and> counts_at N S pos (sent w) (rcvd w) \<and> consistent_cut N S pos"

lemma cut_step:
  assumes ch: "chan_promises N E tag ok sent rcvd" and r: "r \<in> N" and pe: "peers_of (S r) \<subseteq> N"
    and cut: "ok w" "counts_at N S pos (sent w) (rcvd w)" "consistent_cut N S pos"
    and ex: "ex = [] \<or> ex = [Wait]" and i: "pos r \<le> length (S r)" and as: "drop (pos r) (S r) = as @ zs"
    and run: "run_acts (E r) tag (ex @ as) w = Some (st, k, w')"
  defines "pos' \<equiv> pos(r := pos r + (k - length ex))"
  shows "ok w' \<and> counts_at N S pos' (sent w') (rcvd w') \<and> consistent_cut N S pos' \<and>
    (st = UCG_INPROGRESS \<longrightarrow> k < length (ex @ as) \<and> (ex @ as) ! k = Wait)"
proof -
  let ?as = "ex @ as"
  define d where "d = k - length ex"
  have "peers_of (as @ zs) \<subseteq> peers_of (S r)" unfolding as [symmetric] by (metis Un_upper2 append_take_drop_id peers_of_simps(2))
  then have pas: "peers_of ?as \<subseteq> N" using pe ex by auto
  note rc = run_acts_counts [OF ch r pas cut(1) run]
  note rs = run_acts_status [OF run]
  have da: "d \<le> length as" using rs ex by (auto simp: d_def)
  have tk: "take k ?as = take k ex @ take d as" by (simp add: d_def)
  have split: "take (pos r + d) (S r) = take (pos r) (S r) @ take d as" using da by (simp add: take_add as)
  have ecnt: "snd_count p (take j ex) = 0" "rcv_count p (take j ex) = 0" for p j using ex by (cases j; auto)+
  have pos': "pos' r = pos r + d" "\<And>q. q \<noteq> r \<Longrightarrow> pos' q = pos q" by (simp_all add: pos'_def d_def)
  have cnt: "counts_at N S pos' (sent w') (rcvd w')"
    unfolding counts_at_def
  proof (intro ballI)
    fix q p assume "q \<in> N" "p \<in> N"
    then have c: "sent w q p = snd_count p (take (pos q) (S q))" "rcvd w q p = rcv_count p (take (pos q) (S q))"
      using cut(2) by (simp_all add: counts_at_def)
    show "sent w' q p = snd_count p (take (pos' q) (S q)) \<and> rcvd w' q p = rcv_count p (take (pos' q) (S q))"
    proof (cases "q = r")
      case True
      then show ?thesis using c rc unfolding tk by (simp add: pos'(1) split ecnt)
    next
      case False
      then show ?thesis using c rc pos'(2) by simp
    qed
  qed
  have len: "length (S r) = pos r + (length as + length zs)" using i arg_cong [OF as, of length] by simp
  have nth: "S r ! (pos r + j) = as ! j" if "j < length as" for j
  proof -
    have "S r ! (pos r + j) = drop (pos r) (S r) ! j" using i by simp
    then show ?thesis using that unfolding as by (simp add: nth_append)
  qed
  have mono: "snd_count q (take (pos p) (S p)) \<le> snd_count q (take (pos' p) (S p))" for p q
    by (intro snd_count_take_mono) (simp add: pos'_def)
  have cons: "consistent_cut N S pos'"
    unfolding consistent_cut_def
  proof (intro ballI allI impI)
    fix q i p assume q: "q \<in> N" "i < pos' q" "S q ! i = Wait" "p \<in> N"
    show "rcv_count p (take i (S q)) \<le> snd_count q (take (pos' p) (S p))"
    proof (cases "i < pos q")
      case True
      then have "rcv_count p (take i (S q)) \<le> snd_count q (take (pos p) (S p))" using cut(3) q by (simp add: consistent_cut_def)
      then show ?thesis using mono [of q p] by linarith
    next
      case False
      then have qr: "q = r" using q(2) pos' by (cases "q = r") auto
      define j where "j = i - pos r"
      have j: "i = pos r + j" "j < d" using False q(2) pos'(1) qr by (auto simp: j_def)
      have ja: "j < length as" using j(2) da by simp
      have "length ex + j < k" using j(2) by (auto simp: d_def)
      moreover have "?as ! (length ex + j) = Wait" using q(3) nth [OF ja] unfolding qr j(1) by (simp add: nth_append)
      ultimately have "rcvd w r p + rcv_count p (take (length ex + j) ?as) \<le> sent w' p r"
        using rc q(4) by blast
      moreover have "rcv_count p (take (length ex + j) ?as) = rcv_count p (take j as)"
        using ecnt(2) [of p "length ex"] by simp
      moreover have "rcvd w r p = rcv_count p (take (pos r) (S r))" using cut(2) q r by (simp add: counts_at_def)
      moreover have "sent w' p r = snd_count r (take (pos' p) (S p))" using cnt q r by (simp add: counts_at_def)
      ultimately show ?thesis using ja unfolding qr j(1) take_add as by simp
    qed
  qed
  show ?thesis using cnt cons rc by blast
qed

lemma cut_at_kept:
  assumes ch: "chan_promises N E tag ok sent rcvd" and pe: "\<And>r. r \<in> N \<Longrightarrow> peers_of (S r) \<subseteq> N"
  shows "keeps N E tag S (\<lambda>_. cut_at N S ok sent rcvd)"
proof (rule keepsI)
  fix D pos w r ex as zs st k w'
  assume a: "r \<in> N" "r \<notin> D" "cut_at N S ok sent rcvd pos w" "pos r \<le> length (S r)"
    "ex = [] \<or> ex = [Wait] \<and> pos r < length (S r) \<and> S r ! pos r = Wait" "drop (pos r) (S r) = as @ zs"
    "run_acts (E r) tag (ex @ as) w = Some (st, k, w')"
  from cut_step [where pos = pos and S = S and ok = ok and sent = sent and rcvd = rcvd and w = w and as = as and ex = ex and k = k,
      OF ch a(1) pe [OF a(1)] _ _ _ _ a(4,6,7)] a(3,5)
  show "cut_at N S ok sent rcvd (pos(r := pos r + (k - length ex))) w' \<and> (st = UCG_INPROGRESS \<longrightarrow> k < length (ex @ as) \<and> (ex @ as) ! k = Wait)"
    by (auto simp: cut_at_def)
next
  fix D :: "ucg_rank_t set" and pos w r assume a: "r \<in> N" "cut_at N S ok sent rcvd pos w" "pos r = 0"
  then have "ok w" "\<forall>p \<in> N. sent w r p = 0 \<and> rcvd w r p = 0" by (simp_all add: cut_at_def counts_at_def)
  then show "cut_at N S ok sent rcvd pos (ce_state_reset (E r) w)"
    using chan_reset [OF ch a(1)] a(2) by (simp add: cut_at_def)
qed

end
