(* ===== verification/Coll_Iface.thy ===== *)
theory Coll_Iface
  imports Coll_Cut
begin

text \<open>The interface of an algorithm, and what it gives: no rank goes past a test whose messages have not been sent, and ranks do
  not wait for each other in a circle.\<close>

subsection \<open>Algorithms that follow a script\<close>

text \<open>
  Triggering performs the first \<open>pre\<close> actions, and then what a progress call does.  A progress call goes on in the script
  where the last one has stopped; it may test the messages once more before.
\<close>

locale scripted_coll =
  fixes valid :: "'g \<Rightarrow> bool" and ranks :: "'g \<Rightarrow> ucg_rank_t set" and env :: "'g \<Rightarrow> ucg_rank_t \<Rightarrow> 'w coll_env"
    and tag :: "'g \<Rightarrow> c_int" and script :: "'g \<Rightarrow> ucg_rank_t \<Rightarrow> coll_act list" and pre :: "'g \<Rightarrow> ucg_rank_t \<Rightarrow> nat"
    and at :: "'g \<Rightarrow> ucg_rank_t \<Rightarrow> nat \<Rightarrow> ucx_op \<Rightarrow> bool" and ready :: "'g \<Rightarrow> ucg_rank_t \<Rightarrow> ucx_op \<Rightarrow> bool"
    and trig :: "'w coll_env \<Rightarrow> 'w step" and prog :: "'w coll_env \<Rightarrow> 'w step"
  assumes peers: "valid g \<Longrightarrow> r \<in> ranks g \<Longrightarrow> peers_of (script g r) \<subseteq> ranks g"
    and pre_first: "valid g \<Longrightarrow> r \<in> ranks g \<Longrightarrow> pre g r \<le> length (script g r) \<and> Wait \<notin> set (take (pre g r) (script g r))"
    and prog_follows: "valid g \<Longrightarrow> r \<in> ranks g \<Longrightarrow> at g r i op \<Longrightarrow>
      i = pre g r \<or> i < length (script g r) \<and> script g r ! i = Wait \<Longrightarrow>
      \<exists>ex. (ex = [] \<or> ex = [Wait] \<and> pre g r < i) \<and>
        follows (env g r) (tag g) (ex @ drop i (script g r)) (\<lambda>l. at g r (i + (l - length ex))) (prog (env g r)) op"
    and prog_status: "valid g \<Longrightarrow> prog (env g r) op w = Some (st, op', w') \<Longrightarrow> op_status op' = st"
    and trig_starts: "valid g \<Longrightarrow> r \<in> ranks g \<Longrightarrow> ready g r op \<Longrightarrow>
      \<exists>op0 op1 fin. at g r (pre g r) op0 \<and> (\<forall>st. st \<noteq> UCG_INPROGRESS \<longrightarrow> fin st = st) \<and> (\<forall>w. trig (env g r) op w =
        (case run_acts (env g r) (tag g) (take (pre g r) (script g r)) (ce_state_reset (env g r) w) of
           None \<Rightarrow> None
         | Some (st, k, w') \<Rightarrow> if st \<noteq> UCG_OK then Some (fin st, op1, w') else trigger_end (prog (env g r) op0 w')))"
begin

definition rank_at :: "'g \<Rightarrow> ucg_rank_t \<Rightarrow> ucg_status option \<Rightarrow> ucx_op \<Rightarrow> nat \<Rightarrow> bool" where
  "rank_at g r on op i \<longleftrightarrow>
     (case on of
        None \<Rightarrow> i = 0 \<and> ready g r op
      | Some st \<Rightarrow> i \<le> length (script g r) \<and>
          (st = UCG_OK \<longrightarrow> (op_status op = UCG_OK \<longrightarrow> i = length (script g r)) \<and>
             (op_status op = UCG_INPROGRESS \<longrightarrow> at g r i op \<and> i < length (script g r) \<and> script g r ! i = Wait)))"

definition coll_idle :: "'g \<Rightarrow> 'w coll_conf \<Rightarrow> bool" where
  "coll_idle g c \<longleftrightarrow> (\<forall>r \<in> ranks g. cf_on c r = None \<and> ready g r (cf_op c r))"

text \<open>A rank of which a step has failed.\<close>

definition rank_dead :: "ucg_status option \<Rightarrow> ucx_op \<Rightarrow> bool" where
  "rank_dead on op \<longleftrightarrow> on \<noteq> None \<and> (on = Some UCG_OK \<longrightarrow> op_status op \<notin> {UCG_OK, UCG_INPROGRESS})"

definition conf_at :: "'g \<Rightarrow> 'w coll_conf \<Rightarrow> ucg_rank_t set \<Rightarrow> (ucg_rank_t \<Rightarrow> nat) \<Rightarrow> bool" where
  "conf_at g c D pos \<longleftrightarrow> (\<forall>r \<in> ranks g. rank_at g r (cf_on c r) (cf_op c r) (pos r)) \<and> (\<forall>r \<in> D. rank_dead (cf_on c r) (cf_op c r))"

lemma conf_at_step:
  assumes "conf_at g c D pos" and "r \<notin> D" and "rank_at g r on op' i" and "r \<in> D' \<Longrightarrow> rank_dead on op'" and "D' \<subseteq> insert r D"
  shows "conf_at g \<lparr>cf_op = (cf_op c)(r := op'), cf_on = (cf_on c)(r := on), cf_world = w'\<rparr> D' (pos(r := i))"
  unfolding conf_at_def
proof (intro conjI ballI)
  fix q assume "q \<in> ranks g"
  then have "rank_at g q (cf_on c q) (cf_op c q) (pos q)" using assms(1) by (simp add: conf_at_def)
  then show "rank_at g q (cf_on \<lparr>cf_op = (cf_op c)(r := op'), cf_on = (cf_on c)(r := on), cf_world = w'\<rparr> q)
      (cf_op \<lparr>cf_op = (cf_op c)(r := op'), cf_on = (cf_on c)(r := on), cf_world = w'\<rparr> q) ((pos(r := i)) q)"
    using assms(3) by simp
next
  fix q assume q: "q \<in> D'"
  show "rank_dead (cf_on \<lparr>cf_op = (cf_op c)(r := op'), cf_on = (cf_on c)(r := on), cf_world = w'\<rparr> q)
      (cf_op \<lparr>cf_op = (cf_op c)(r := op'), cf_on = (cf_on c)(r := on), cf_world = w'\<rparr> q)"
  proof (cases "q = r")
    case True
    then show ?thesis using assms(4) q by simp
  next
    case False
    then have "q \<in> D" using assms(5) q by blast
    then show ?thesis using assms(1) False by (simp add: conf_at_def)
  qed
qed

lemma progress_at:
  assumes v: "valid g" and K: "keeps (ranks g) (env g) (tag g) (script g) I" and r: "r \<in> ranks g" "r \<notin> D" and I: "I D pos w"
    and at: "at g r (pos r) op" and len: "pos r \<le> length (script g r)"
    and i: "pos r = pre g r \<or> pos r < length (script g r) \<and> script g r ! pos r = Wait"
    and p: "prog (env g r) op w = Some (st, op', w')"
  obtains i D' where "I D' (pos(r := i)) w'" and "rank_at g r (Some st') op' i" and "D' \<subseteq> insert r D"
    and "r \<in> D' \<Longrightarrow> op_status op' = st \<and> st \<notin> {UCG_OK, UCG_INPROGRESS}"
proof -
  obtain ex where ex: "ex = [] \<or> ex = [Wait] \<and> pre g r < pos r" and
    f: "follows (env g r) (tag g) (ex @ drop (pos r) (script g r)) (\<lambda>l. at g r (pos r + (l - length ex))) (prog (env g r)) op"
    using prog_follows [OF v r(1) at i] by blast
  let ?as = "drop (pos r) (script g r)"
  obtain k where k: "run_acts (env g r) (tag g) (ex @ ?as) w = Some (st, k, w')"
    and at': "st = UCG_OK \<or> (ex @ ?as) ! k = Wait \<Longrightarrow> at g r (pos r + (k - length ex)) op'"
  proof (cases "run_acts (env g r) (tag g) (ex @ ?as) w")
    case None
    then show ?thesis using follows_none [OF f None] p by simp
  next
    case (Some q)
    obtain st1 k w1 where q: "q = (st1, k, w1)" by (cases q)
    from followsD [OF f Some [unfolded q]] obtain op1 where o: "prog (env g r) op w = Some (st1, op1, w1)"
      "st1 = UCG_OK \<or> (ex @ ?as) ! k = Wait \<Longrightarrow> at g r (pos r + (k - length ex)) op1" by metis
    then have "st1 = st" "w1 = w'" "op1 = op'" using p by simp_all
    then show ?thesis using that [of k] Some q o(2) by simp
  qed
  have ex': "ex = [] \<or> ex = [Wait] \<and> pos r < length (script g r) \<and> script g r ! pos r = Wait" using ex i by auto
  have as: "?as = ?as @ []" by simp
  note s = keepsD [where I = I and pos = pos and D = D, OF K r I len ex' as k]
  note rs = run_acts_status [OF k]
  have st: "op_status op' = st" by (rule prog_status [OF v p])
  let ?i = "pos r + (k - length ex)"
  have "rank_at g r (Some st') op' ?i"
  proof -
    have "?i < length (script g r) \<and> script g r ! ?i = Wait" if "st = UCG_INPROGRESS"
    proof (cases "k < length ex")
      case True
      then show ?thesis using ex i by auto
    next
      case False
      then show ?thesis using s(2) [OF that] len by (auto simp: nth_append)
    qed
    moreover have "?i \<le> length (script g r)" "st = UCG_OK \<Longrightarrow> ?i = length (script g r)" using rs len by auto
    moreover have "st = UCG_INPROGRESS \<Longrightarrow> (ex @ ?as) ! k = Wait" using s(2) by blast
    ultimately show ?thesis using st at' by (auto simp: rank_at_def)
  qed
  then show ?thesis using s(1) st r(2) by (intro that [of _ ?i]) (auto split: if_splits)
qed

lemma run_keeps:
  assumes v: "valid g" and K: "keeps (ranks g) (env g) (tag g) (script g) I"
    and V: "\<And>D pos w w'. I D pos w \<Longrightarrow> view w' = view w \<Longrightarrow> I D pos w'" and idle: "coll_idle g c0" and I0: "I {} (\<lambda>_. 0) (cf_world c0)"
  shows "coll_run (ranks g) (env g) trig prog view c0 c \<Longrightarrow> \<exists>D pos. conf_at g c D pos \<and> I D pos (cf_world c)"
proof (induction rule: coll_run.induct)
  case start
  have "conf_at g c0 {} (\<lambda>_. 0)" using idle by (auto simp: conf_at_def coll_idle_def rank_at_def)
  then show ?case using I0 by blast
next
  case (trigger c r st op' w')
  then obtain D pos where c: "conf_at g c D pos" "I D pos (cf_world c)" by blast
  then have r: "pos r = 0" "ready g r (cf_op c r)" "r \<notin> D" using trigger(2,3) by (auto simp: conf_at_def rank_at_def rank_dead_def)
  let ?w0 = "ce_state_reset (env g r) (cf_world c)" and ?as = "take (pre g r) (script g r)"
  let ?c = "\<lparr>cf_op = (cf_op c)(r := op'), cf_on = (cf_on c)(r := Some st), cf_world = w'\<rparr>"
  obtain op0 op1 fin where at: "at g r (pre g r) op0" and fin: "\<forall>st. st \<noteq> UCG_INPROGRESS \<longrightarrow> fin st = st" and t: "trig (env g r) (cf_op c r) (cf_world c) =
    (case run_acts (env g r) (tag g) ?as ?w0 of None \<Rightarrow> None
     | Some (st, k, w') \<Rightarrow> if st \<noteq> UCG_OK then Some (fin st, op1, w') else trigger_end (prog (env g r) op0 w'))"
    using trig_starts [OF v trigger(2) r(2)] by blast
  note pf = pre_first [OF v trigger(2)]
  obtain st1 k w1 where run: "run_acts (env g r) (tag g) ([] @ ?as) ?w0 = Some (st1, k, w1)"
    using trigger(4) unfolding t by (auto split: option.splits)
  note rs = run_acts_status [OF run]
  have as: "drop (pos r) (script g r) = ?as @ drop (pre g r) (script g r)" using r(1) by simp
  have len: "pos r \<le> length (script g r)" using r(1) by simp
  have Iw: "I D pos ?w0" by (rule keeps_reset [OF K trigger(2) r(3) c(2) r(1)])
  note s = keepsD [where I = I and pos = pos and D = D, OF K trigger(2) r(3) Iw len disjI1 [OF refl] as run]
  have ni: "st1 \<noteq> UCG_INPROGRESS"
  proof
    assume "st1 = UCG_INPROGRESS"
    then have "Wait \<in> set ?as" using s(2) by (auto simp: in_set_conv_nth)
    then show False using pf by simp
  qed
  show ?case
  proof (cases "st1 = UCG_OK")
    case False
    then have e: "st = st1" "op' = op1" "w' = w1" using trigger(4) run fin ni unfolding t by simp_all
    have "rank_at g r (Some st) op' k" using rs pf False e by (auto simp: rank_at_def)
    then have "conf_at g ?c (insert r D) (pos(r := k))"
      by (rule conf_at_step [OF c(1) r(3)]) (use False e in \<open>simp_all add: rank_dead_def\<close>)
    moreover have "I (insert r D) (pos(r := k)) w'" using s(1) r(1) False ni e by simp
    ultimately show ?thesis unfolding coll_conf.simps by blast
  next
    case True
    have k: "k = pre g r" using rs True pf by simp
    have I1: "I D (pos(r := pre g r)) w1" using s(1) r(1) k True by simp
    obtain st' where p: "prog (env g r) op0 w1 = Some (st', op', w')" and st': "st = (if st' = UCG_INPROGRESS then UCG_OK else st')"
      using trigger(4) run True unfolding t by (auto simp: trigger_end_def split: prod.splits)
    obtain i D' where i: "I D' ((pos(r := pre g r))(r := i)) w'" "rank_at g r (Some st) op' i" "D' \<subseteq> insert r D"
      "r \<in> D' \<Longrightarrow> op_status op' = st' \<and> st' \<notin> {UCG_OK, UCG_INPROGRESS}"
      by (rule progress_at [where I = I and st' = st, OF v K trigger(2) r(3) I1 _ _ _ p]) (use at pf in simp_all)
    have "conf_at g ?c D' (pos(r := i))"
      by (rule conf_at_step [OF c(1) r(3) i(2) _ i(3)]) (use i(4) st' in \<open>auto simp: rank_dead_def\<close>)
    moreover have "I D' (pos(r := i)) w'" using i(1) by simp
    ultimately show ?thesis unfolding coll_conf.simps by blast
  qed
next
  case (progress c r st op' w')
  then obtain D pos where c: "conf_at g c D pos" "I D pos (cf_world c)" by blast
  then have r: "at g r (pos r) (cf_op c r)" "pos r < length (script g r)" "script g r ! pos r = Wait" "r \<notin> D"
    using progress(2-4) by (auto simp: conf_at_def rank_at_def rank_dead_def)
  obtain i D' where i: "I D' (pos(r := i)) w'" "rank_at g r (Some UCG_OK) op' i" "D' \<subseteq> insert r D"
    "r \<in> D' \<Longrightarrow> op_status op' = st \<and> st \<notin> {UCG_OK, UCG_INPROGRESS}"
    by (rule progress_at [where I = I and st' = UCG_OK, OF v K progress(2) r(4) c(2) r(1) _ _ progress(5)]) (use r in simp_all)
  have "conf_at g \<lparr>cf_op = (cf_op c)(r := op'), cf_on = (cf_on c)(r := Some UCG_OK), cf_world = w'\<rparr> D' (pos(r := i))"
    by (rule conf_at_step [OF c(1) r(4) i(2) _ i(3)]) (use i(4) in \<open>auto simp: rank_dead_def\<close>)
  moreover have "(cf_on c)(r := Some UCG_OK) = cf_on c" using progress(3) by (simp add: fun_upd_idem)
  ultimately have "conf_at g (c\<lparr>cf_op := (cf_op c)(r := op'), cf_world := w'\<rparr>) D' (pos(r := i))"
    by (simp add: conf_at_def del: fun_upd_apply)
  moreover have "cf_world (c\<lparr>cf_op := (cf_op c)(r := op'), cf_world := w'\<rparr>) = w'" by simp
  ultimately show ?case using i(1) by metis
next
  case (other c w')
  then obtain D pos where "conf_at g c D pos" "I D pos (cf_world c)" by blast
  moreover have "conf_at g (c\<lparr>cf_world := w'\<rparr>) D pos" using \<open>conf_at g c D pos\<close> by (simp add: conf_at_def)
  ultimately show ?case using V [of D pos "cf_world c" w'] other(2) by auto
qed

text \<open>A rank that has finished has all its script behind it, one that is in progress stands at a test.\<close>

lemma rank_atD:
  assumes "rank_at g r on op i"
  shows "i \<le> length (script g r)" and "0 < i \<Longrightarrow> on \<noteq> None"
    and "on = Some UCG_OK \<Longrightarrow> op_status op = UCG_OK \<Longrightarrow> i = length (script g r)"
    and "on = Some UCG_OK \<Longrightarrow> op_status op = UCG_INPROGRESS \<Longrightarrow> i < length (script g r) \<and> script g r ! i = Wait"
  using assms by (auto simp: rank_at_def split: option.splits)

lemma run_cut:
  assumes v: "valid g" and ch: "chan_promises (ranks g) (env g) (tag g) ok sent rcvd" and idle: "coll_idle g c0"
    and zero: "ok (cf_world c0) \<and> (\<forall>r \<in> ranks g. \<forall>p \<in> ranks g. sent (cf_world c0) r p = 0 \<and> rcvd (cf_world c0) r p = 0)"
    and run: "coll_run (ranks g) (env g) trig prog (\<lambda>w. (ok w, sent w, rcvd w)) c0 c"
  obtains pos where "\<And>r. r \<in> ranks g \<Longrightarrow> rank_at g r (cf_on c r) (cf_op c r) (pos r)"
    and "counts_at (ranks g) (script g) pos (sent (cf_world c)) (rcvd (cf_world c))" and "consistent_cut (ranks g) (script g) pos"
proof -
  have K: "keeps (ranks g) (env g) (tag g) (script g) (\<lambda>_. cut_at (ranks g) (script g) ok sent rcvd)"
    by (rule cut_at_kept [OF ch peers [OF v]])
  have I0: "cut_at (ranks g) (script g) ok sent rcvd (\<lambda>_. 0) (cf_world c0)"
    using zero by (simp add: cut_at_def counts_at_def consistent_cut_def)
  have "\<exists>D pos. conf_at g c D pos \<and> cut_at (ranks g) (script g) ok sent rcvd pos (cf_world c)"
    by (rule run_keeps [OF v K _ idle I0 run]) (simp add: cut_at_def)
  then show thesis using that by (auto simp: cut_at_def conf_at_def)
qed

lemma run_finished:
  assumes "valid g" and "chan_promises (ranks g) (env g) (tag g) ok sent rcvd" and "coll_idle g c0"
    and "ok (cf_world c0) \<and> (\<forall>r \<in> ranks g. \<forall>p \<in> ranks g. sent (cf_world c0) r p = 0 \<and> rcvd (cf_world c0) r p = 0)"
    and "coll_run (ranks g) (env g) trig prog (\<lambda>w. (ok w, sent w, rcvd w)) c0 c"
  obtains pos where "consistent_cut (ranks g) (script g) pos" and "\<And>r. r \<in> ranks g \<Longrightarrow> 0 < pos r \<Longrightarrow> cf_on c r \<noteq> None"
    and "\<And>r. r \<in> ranks g \<Longrightarrow> cf_on c r = Some UCG_OK \<Longrightarrow> op_status (cf_op c r) = UCG_OK \<Longrightarrow> pos r = length (script g r)"
  using run_cut [OF assms] that rank_atD(2,3) by metis

end

subsection \<open>No circular waiting\<close>

text \<open>
  Every test has a depth, and the message that a receive waits for is sent after tests of less depth only.
\<close>

locale timed_coll = scripted_coll valid ranks env tag script pre at ready trig prog
  for valid :: "'g \<Rightarrow> bool" and ranks and env :: "'g \<Rightarrow> ucg_rank_t \<Rightarrow> 'w coll_env" and tag script pre at ready trig prog +
  fixes depth :: "'g \<Rightarrow> ucg_rank_t \<Rightarrow> nat \<Rightarrow> nat"
  assumes sender: "valid g \<Longrightarrow> r \<in> ranks g \<Longrightarrow> i < length (script g r) \<Longrightarrow> script g r ! i = Wait \<Longrightarrow> j < i \<Longrightarrow>
      script g r ! j = Rcv p b \<Longrightarrow>
      \<exists>i'. rcv_count p (take (Suc j) (script g r)) \<le> snd_count r (take i' (script g p)) \<and>
        (\<forall>l < i'. l < length (script g p) \<longrightarrow> script g p ! l = Wait \<longrightarrow> depth g p l < depth g r i)"
begin

text \<open>As long as a rank is in progress, there is one whose receives all have their messages.\<close>

lemma no_deadlock:
  assumes "valid g" and "chan_promises (ranks g) (env g) (tag g) ok sent rcvd" and "coll_idle g c0"
    and "ok (cf_world c0) \<and> (\<forall>r \<in> ranks g. \<forall>p \<in> ranks g. sent (cf_world c0) r p = 0 \<and> rcvd (cf_world c0) r p = 0)"
    and "coll_run (ranks g) (env g) trig prog (\<lambda>w. (ok w, sent w, rcvd w)) c0 c"
    and on: "\<And>r. r \<in> ranks g \<Longrightarrow> cf_on c r = Some UCG_OK"
    and st: "\<And>r. r \<in> ranks g \<Longrightarrow> op_status (cf_op c r) = UCG_OK \<or> op_status (cf_op c r) = UCG_INPROGRESS"
    and "q \<in> ranks g" "op_status (cf_op c q) = UCG_INPROGRESS"
  obtains r where "r \<in> ranks g" and "op_status (cf_op c r) = UCG_INPROGRESS" and "\<And>p. p \<in> ranks g \<Longrightarrow> rcvd (cf_world c) r p \<le> sent (cf_world c) p r"
proof -
  obtain pos where pos: "\<And>r. r \<in> ranks g \<Longrightarrow> rank_at g r (cf_on c r) (cf_op c r) (pos r)"
    "counts_at (ranks g) (script g) pos (sent (cf_world c)) (rcvd (cf_world c))" "consistent_cut (ranks g) (script g) pos"
    by (rule run_cut [OF assms(1-5)]) blast
  define busy where "busy r \<longleftrightarrow> r \<in> ranks g \<and> op_status (cf_op c r) = UCG_INPROGRESS" for r
  have wait: "pos r < length (script g r) \<and> script g r ! pos r = Wait" if "busy r" for r
    using rank_atD(4) [OF pos(1)] on that by (simp add: busy_def)
  have ended: "pos r = length (script g r)" if "r \<in> ranks g" "\<not> busy r" for r
    using rank_atD(3) [OF pos(1)] on st that by (simp add: busy_def) blast
  have "busy q" using assms(8,9) by (simp add: busy_def)
  then obtain r where r: "busy r" "\<And>x. busy x \<Longrightarrow> depth g r (pos r) \<le> depth g x (pos x)"
    using ex_has_least_nat [of busy q "\<lambda>x. depth g x (pos x)"] by blast
  have rr: "r \<in> ranks g" using r(1) by (simp add: busy_def)
  have "rcvd (cf_world c) r p \<le> sent (cf_world c) p r" if p: "p \<in> ranks g" for p
  proof -
    have e: "rcvd (cf_world c) r p = rcv_count p (take (pos r) (script g r))" "sent (cf_world c) p r = snd_count r (take (pos p) (script g p))"
      using pos(2) rr p by (simp_all add: counts_at_def)
    have "rcv_count p (take m (script g r)) \<le> snd_count r (take (pos p) (script g p))" if "m \<le> pos r" for m
      using that
    proof (induction m)
      case (Suc m)
      then have m: "m < pos r" "m < length (script g r)" using wait [OF r(1)] by simp_all
      show ?case
      proof (cases "\<exists>b. script g r ! m = Rcv p b")
        case False
        then have "rcv_count p (take (Suc m) (script g r)) = rcv_count p (take m (script g r))"
          using m by (auto simp: take_Suc_conv_app_nth split: coll_act.splits)
        then show ?thesis using Suc by simp
      next
        case True
        then obtain b where "script g r ! m = Rcv p b" by blast
        from sender [OF assms(1) rr _ _ m(1) this] wait [OF r(1)] obtain i' where
          i': "rcv_count p (take (Suc m) (script g r)) \<le> snd_count r (take i' (script g p))"
            "\<And>l. l < i' \<Longrightarrow> l < length (script g p) \<Longrightarrow> script g p ! l = Wait \<Longrightarrow> depth g p l < depth g r (pos r)" by blast
        have "i' \<le> pos p \<or> pos p = length (script g p)"
        proof (cases "busy p")
          case True
          then show ?thesis using i'(2) [of "pos p"] wait [OF True] r(2) [OF True] by (cases "pos p < i'") simp_all
        next
          case False
          then show ?thesis using ended [OF p] by simp
        qed
        then have "snd_count r (take i' (script g p)) \<le> snd_count r (take (pos p) (script g p))"
        proof
          assume "pos p = length (script g p)"
          then have "take (pos p) (script g p) = take (max i' (pos p)) (script g p)" by simp
          then show ?thesis using snd_count_take_mono [of i' "max i' (pos p)" r "script g p"] by simp
        qed (rule snd_count_take_mono)
        then show ?thesis using i'(1) by linarith
      qed
    qed simp
    then show ?thesis unfolding e by blast
  qed
  then show thesis using that rr r(1) by (simp add: busy_def)
qed

end

end
