(* ===== verification/Coll_Data.thy ===== *)
theory Coll_Data
  imports Coll_Iface
begin

text \<open>
  What the messages of a collective carry.  A p2p layer that moves data shows a \<open>net\<close>: the messages posted between
  the ranks with the contents of their buffers, the receives and sends that have not been waited for, and the contents of buffers.
  It keeps its promises as long as no rank touches a buffer that it has lent to a message, which is \<open>race_free\<close>.
\<close>

subsection \<open>The p2p layer\<close>

record 'v net =
  nt_msgs :: "ucg_rank_t \<Rightarrow> ucg_rank_t \<Rightarrow> (c_buf \<times> 'v) list"
  nt_rcvd :: "ucg_rank_t \<Rightarrow> ucg_rank_t \<Rightarrow> nat"
  nt_pend :: "ucg_rank_t \<Rightarrow> (ucg_rank_t \<times> nat \<times> c_buf) list"
  nt_lent :: "ucg_rank_t \<Rightarrow> c_buf list"
  nt_val :: "ucg_rank_t \<Rightarrow> c_buf \<Rightarrow> 'v"
  nt_fair :: bool

text \<open>
  How buffers relate: two of a rank that do not overlap, one that can take what was sent from another (or copied, if the rank is
  the same), and what a reduction operation computes from the source and the target.
\<close>

record 'v areas =
  ar_apart :: "ucg_rank_t \<Rightarrow> c_buf \<Rightarrow> c_buf \<Rightarrow> bool"
  ar_fits :: "ucg_rank_t \<Rightarrow> c_buf \<Rightarrow> ucg_rank_t \<Rightarrow> c_buf \<Rightarrow> bool"
  ar_red :: "ucg_rank_t \<Rightarrow> c_ptr \<Rightarrow> 'v \<Rightarrow> 'v \<Rightarrow> 'v"

abbreviation apart_all :: "'v areas \<Rightarrow> ucg_rank_t \<Rightarrow> c_buf \<Rightarrow> c_buf list \<Rightarrow> bool" where
  "apart_all A r b bs \<equiv> list_all (ar_apart A r b) bs"

abbreviation pend_bufs :: "(ucg_rank_t \<times> nat \<times> c_buf) list \<Rightarrow> c_buf list" where
  "pend_bufs ps \<equiv> map (\<lambda>(p, j, b). b) ps"

fun race_free :: "'v areas \<Rightarrow> ucg_rank_t \<Rightarrow> coll_act \<Rightarrow> c_buf list \<Rightarrow> c_buf list \<Rightarrow> bool" where
  "race_free A r (Snd p b) pend lent \<longleftrightarrow> apart_all A r b pend"
| "race_free A r (Rcv p b) pend lent \<longleftrightarrow> apart_all A r b (pend @ lent)"
| "race_free A r Wait pend lent \<longleftrightarrow> True"
| "race_free A r (Cpy d s) pend lent \<longleftrightarrow> apart_all A r d (s # pend @ lent) \<and> apart_all A r s pend"
| "race_free A r (Red f s t n d) pend lent \<longleftrightarrow> apart_all A r (t, n, d) ((s, n, d) # pend @ lent) \<and> apart_all A r (s, n, d) pend"

fun written :: "coll_act \<Rightarrow> c_buf list" where
  "written (Cpy d s) = [d]"
| "written (Red f s t n d) = [(t, n, d)]"
| "written _ = []"

definition same_own :: "ucg_rank_t \<Rightarrow> 'v net \<Rightarrow> 'v net \<Rightarrow> bool" where
  "same_own r W W' \<longleftrightarrow>
     nt_msgs W' r = nt_msgs W r \<and> nt_rcvd W' r = nt_rcvd W r \<and> nt_pend W' r = nt_pend W r \<and> nt_lent W' r = nt_lent W r"

fun own_step :: "'v areas \<Rightarrow> ucg_rank_t \<Rightarrow> coll_act \<Rightarrow> 'v net \<Rightarrow> 'v net \<Rightarrow> bool" where
  "own_step A r (Snd p b) W W' \<longleftrightarrow>
     nt_msgs W' r = (nt_msgs W r)(p := nt_msgs W r p @ [(b, nt_val W r b)]) \<and> nt_lent W' r = b # nt_lent W r \<and>
     nt_rcvd W' r = nt_rcvd W r \<and> nt_pend W' r = nt_pend W r"
| "own_step A r (Rcv p b) W W' \<longleftrightarrow>
     nt_rcvd W' r = (nt_rcvd W r)(p := nt_rcvd W r p + 1) \<and> nt_pend W' r = (p, nt_rcvd W r p, b) # nt_pend W r \<and>
     nt_msgs W' r = nt_msgs W r \<and> nt_lent W' r = nt_lent W r"
| "own_step A r Wait W W' \<longleftrightarrow>
     nt_pend W' r = [] \<and> nt_lent W' r = [] \<and> nt_msgs W' r = nt_msgs W r \<and> nt_rcvd W' r = nt_rcvd W r \<and>
     list_all (\<lambda>(p, j, b). j < length (nt_msgs W p r) \<and>
       (ar_fits A p (fst (nt_msgs W p r ! j)) r b \<longrightarrow> nt_val W' r b = snd (nt_msgs W p r ! j))) (nt_pend W r)"
| "own_step A r (Cpy d s) W W' \<longleftrightarrow> same_own r W W' \<and> (ar_fits A r s r d \<longrightarrow> nt_val W' r d = nt_val W r s)"
| "own_step A r (Red f s t n d) W W' \<longleftrightarrow>
     same_own r W W' \<and> nt_val W' r (t, n, d) = ar_red A r f (nt_val W r (s, n, d)) (nt_val W r (t, n, d))"

text \<open>
  What an action of rank \<open>r\<close> that returns \<open>st\<close> may do: it keeps the contents of all buffers but those waiting for a message and the
  one it writes, and the state of the other ranks.
\<close>

definition net_step :: "'v areas \<Rightarrow> ucg_rank_t \<Rightarrow> coll_act \<Rightarrow> ucg_status \<Rightarrow> 'v net \<Rightarrow> 'v net \<Rightarrow> bool" where
  "net_step A r a st W W' \<longleftrightarrow>
     nt_fair W' \<and> (st = UCG_INPROGRESS \<longrightarrow> a = Wait) \<and>
     (\<forall>q b. apart_all A q b (pend_bufs (nt_pend W q) @ (if q = r then written a else [])) \<longrightarrow> nt_val W' q b = nt_val W q b) \<and>
     (\<forall>q. q \<noteq> r \<longrightarrow> same_own q W W') \<and> (if st = UCG_OK then own_step A r a W W' else same_own r W W')"

definition data_promises ::
    "'v areas \<Rightarrow> ucg_rank_t set \<Rightarrow> (ucg_rank_t \<Rightarrow> 'w coll_env) \<Rightarrow> c_int \<Rightarrow> ('w \<Rightarrow> 'v net) \<Rightarrow> bool" where
  "data_promises A N E tag view \<longleftrightarrow>
     (\<forall>r \<in> N. \<forall>w. nt_fair (view w) \<longrightarrow>
        (\<forall>a st w'. peers_of [a] \<subseteq> N \<longrightarrow> race_free A r a (pend_bufs (nt_pend (view w) r)) (nt_lent (view w) r) \<longrightarrow>
           perform (E r) tag a w = Some (st, w') \<longrightarrow> net_step A r a st (view w) (view w')) \<and>
        (nt_pend (view w) r = [] \<and> nt_lent (view w) r = [] \<longrightarrow> view (ce_state_reset (E r) w) = view w))"

subsection \<open>Symbolic execution of a script\<close>

text \<open>
  What is known of the contents of a rank's buffers when it follows a script, provided that the messages it gets are
  those of \<open>X\<close>.
\<close>

record 'v sym =
  sy_known :: "c_buf \<Rightarrow> 'v option"
  sy_pend :: "(ucg_rank_t \<times> nat \<times> c_buf) list"
  sy_lent :: "c_buf list"
  sy_rcvd :: "ucg_rank_t \<Rightarrow> nat"
  sy_out :: "ucg_rank_t \<Rightarrow> (c_buf \<times> 'v) list"

definition sym_start :: "(c_buf \<Rightarrow> 'v option) \<Rightarrow> 'v sym" where
  "sym_start known = \<lparr>sy_known = known, sy_pend = [], sy_lent = [], sy_rcvd = (\<lambda>_. 0), sy_out = (\<lambda>_. [])\<rparr>"

definition forget :: "'v areas \<Rightarrow> ucg_rank_t \<Rightarrow> c_buf \<Rightarrow> (c_buf \<Rightarrow> 'v option) \<Rightarrow> c_buf \<Rightarrow> 'v option" where
  "forget A r b known b' = (if ar_apart A r b' b then known b' else None)"

fun learn :: "'v areas \<Rightarrow> (ucg_rank_t \<Rightarrow> (c_buf \<times> 'v) list) \<Rightarrow> ucg_rank_t \<Rightarrow> (ucg_rank_t \<times> nat \<times> c_buf) list \<Rightarrow>
    (c_buf \<Rightarrow> 'v option) \<Rightarrow> c_buf \<Rightarrow> 'v option" where
  "learn A X r [] known = known"
| "learn A X r ((p, j, b) # ps) known =
     (if j < length (X p) \<and> ar_fits A p (fst (X p ! j)) r b then (learn A X r ps known)(b := Some (snd (X p ! j)))
      else learn A X r ps known)"

fun sym_act :: "'v areas \<Rightarrow> (ucg_rank_t \<Rightarrow> (c_buf \<times> 'v) list) \<Rightarrow> ucg_rank_t \<Rightarrow> coll_act \<Rightarrow> 'v sym \<Rightarrow> 'v sym option" where
  "sym_act A X r (Snd p b) s =
     map_option (\<lambda>v. s\<lparr>sy_lent := b # sy_lent s, sy_out := (sy_out s)(p := sy_out s p @ [(b, v)])\<rparr>) (sy_known s b)"
| "sym_act A X r (Rcv p b) s =
     Some (s\<lparr>sy_pend := (p, sy_rcvd s p, b) # sy_pend s, sy_rcvd := (sy_rcvd s)(p := sy_rcvd s p + 1),
             sy_known := forget A r b (sy_known s)\<rparr>)"
| "sym_act A X r Wait s = Some (s\<lparr>sy_pend := [], sy_lent := [], sy_known := learn A X r (sy_pend s) (sy_known s)\<rparr>)"
| "sym_act A X r (Cpy d b) s =
     Some (s\<lparr>sy_known := (forget A r d (sy_known s))(d := if ar_fits A r b r d then sy_known s b else None)\<rparr>)"
| "sym_act A X r (Red f b t n d) s =
     Some (s\<lparr>sy_known := (forget A r (t, n, d) (sy_known s))((t, n, d) :=
        (case (sy_known s (b, n, d), sy_known s (t, n, d)) of (Some u, Some v) \<Rightarrow> Some (ar_red A r f u v) | _ \<Rightarrow> None))\<rparr>)"

fun sym_run :: "'v areas \<Rightarrow> (ucg_rank_t \<Rightarrow> (c_buf \<times> 'v) list) \<Rightarrow> ucg_rank_t \<Rightarrow> coll_act list \<Rightarrow> 'v sym \<Rightarrow> 'v sym option" where
  "sym_run A X r [] s = Some s"
| "sym_run A X r (a # as) s =
     (if race_free A r a (pend_bufs (sy_pend s)) (sy_lent s) then Option.bind (sym_act A X r a s) (sym_run A X r as) else None)"

lemma sym_run_append: "sym_run A X r (as @ bs) s = Option.bind (sym_run A X r as s) (sym_run A X r bs)"
  by (induction as arbitrary: s) (auto split: Option.bind_split)

lemma sym_act_out: "sym_act A X r a s = Some s' \<Longrightarrow> \<exists>zs. sy_out s' p = sy_out s p @ zs"
  by (cases a) auto

lemma sym_run_out: "sym_run A X r as s = Some s' \<Longrightarrow> \<exists>zs. sy_out s' p = sy_out s p @ zs"
proof (induction as arbitrary: s)
  case (Cons a as)
  then obtain s1 where s1: "sym_act A X r a s = Some s1" "sym_run A X r as s1 = Some s'"
    by (auto split: if_splits bind_splits)
  from sym_act_out [OF s1(1), of p] Cons.IH [OF s1(2)] show ?case by auto
qed simp

subsection \<open>The execution is true of the ranks\<close>

definition sym_true :: "'v areas \<Rightarrow> ucg_rank_t set \<Rightarrow> ucg_rank_t \<Rightarrow> bool \<Rightarrow> 'v sym \<Rightarrow> 'v net \<Rightarrow> bool" where
  "sym_true A N r dead s W \<longleftrightarrow>
     nt_pend W r = sy_pend s \<and> nt_lent W r = sy_lent s \<and> nt_rcvd W r = sy_rcvd s \<and> nt_msgs W r = sy_out s \<and>
     (\<forall>(p, j, b) \<in> set (sy_pend s). p \<in> N) \<and>
     (\<not> dead \<longrightarrow> (\<forall>b v. sy_known s b = Some v \<longrightarrow> apart_all A r b (pend_bufs (sy_pend s)) \<and> nt_val W r b = v))"

lemma net_step_val:
  assumes "net_step A r a st W W'" and "apart_all A q b (pend_bufs (nt_pend W q))" and "q = r \<Longrightarrow> apart_all A r b (written a)"
  shows "nt_val W' q b = nt_val W q b"
  using assms unfolding net_step_def by (simp del: split_paired_All)

lemma sym_true_known:
  assumes "sym_true A N r False s W" and "sy_known s b = Some v"
  shows "apart_all A r b (pend_bufs (sy_pend s))" and "nt_val W r b = v"
  using assms unfolding sym_true_def by (simp_all del: split_paired_All)

lemma sym_trueI:
  assumes "nt_pend W r = sy_pend s" and "nt_lent W r = sy_lent s" and "nt_rcvd W r = sy_rcvd s" and "nt_msgs W r = sy_out s"
    and "\<And>p j b. (p, j, b) \<in> set (sy_pend s) \<Longrightarrow> p \<in> N"
    and "\<And>b v. \<not> dead \<Longrightarrow> sy_known s b = Some v \<Longrightarrow> apart_all A r b (pend_bufs (sy_pend s)) \<and> nt_val W r b = v"
  shows "sym_true A N r dead s W"
  using assms unfolding sym_true_def by (auto simp del: split_paired_All)

lemma sym_trueD:
  assumes "sym_true A N r dead s W"
  shows "nt_pend W r = sy_pend s" and "nt_lent W r = sy_lent s" and "nt_rcvd W r = sy_rcvd s" and "nt_msgs W r = sy_out s"
    and "(p, j, b) \<in> set (sy_pend s) \<Longrightarrow> p \<in> N"
  using assms unfolding sym_true_def by auto

lemma learn_known:
  assumes "learn A X r ps known b = Some v" and "\<And>p j b. (p, j, b) \<in> set ps \<Longrightarrow> j < length (X p) \<Longrightarrow>
      ar_fits A p (fst (X p ! j)) r b \<Longrightarrow> val b = snd (X p ! j)" and "\<And>v. known b = Some v \<Longrightarrow> val b = v"
  shows "val b = v"
  using assms(1,2)
proof (induction ps)
  case (Cons x ps)
  obtain p j c where x: "x = (p, j, c)" by (cases x)
  show ?case
  proof (cases "j < length (X p) \<and> ar_fits A p (fst (X p ! j)) r c \<and> c = b")
    case True
    then show ?thesis using Cons.prems(1) Cons.prems(2) [of p j c] x by (auto split: if_splits)
  next
    case False
    then have "learn A X r ps known b = Some v" using Cons.prems(1) x by (auto split: if_splits)
    then show ?thesis using Cons.IH Cons.prems(2) by simp
  qed
qed (use assms(3) in simp)

text \<open>A step of the rank itself, where \<open>X\<close> has at least the messages that have been posted.\<close>

lemma sym_true_own:
  assumes t: "sym_true A N r False s W" and n: "net_step A r a UCG_OK W W'" and f: "race_free A r a (pend_bufs (sy_pend s)) (sy_lent s)"
    and a: "sym_act A X r a s = Some s'" and p: "peers_of [a] \<subseteq> N"
    and X: "\<And>p. p \<in> N \<Longrightarrow> \<exists>zs. X p = nt_msgs W p r @ zs"
  shows "sym_true A N r False s' W'"
proof -
  note W = sym_trueD [OF t] and kn = sym_true_known [OF t]
  have val: "nt_val W' r b = nt_val W r b" if "apart_all A r b (pend_bufs (sy_pend s) @ written a)" for b
    by (rule net_step_val [OF n]) (use that W(1) in simp_all)
  have o: "own_step A r a W W'" using n by (simp add: net_step_def)
  show ?thesis
  proof (cases a)
    case (Snd q b)
    then obtain v where "sy_known s b = Some v" "s' = s\<lparr>sy_lent := b # sy_lent s, sy_out := (sy_out s)(q := sy_out s q @ [(b, v)])\<rparr>"
      using a by auto
    then show ?thesis using o W kn val Snd by (intro sym_trueI) auto
  next
    case (Rcv q b)
    then have s': "s' = s\<lparr>sy_pend := (q, sy_rcvd s q, b) # sy_pend s, sy_rcvd := (sy_rcvd s)(q := sy_rcvd s q + 1),
        sy_known := forget A r b (sy_known s)\<rparr>" using a by simp
    show ?thesis
    proof (rule sym_trueI)
      fix c v assume "sy_known s' c = Some v"
      then have "ar_apart A r c b" "sy_known s c = Some v" unfolding s' by (auto simp: forget_def split: if_splits)
      then show "apart_all A r c (pend_bufs (sy_pend s')) \<and> nt_val W' r c = v"
        unfolding s' using kn val [of c] Rcv by simp
    qed (use o W p Rcv in \<open>auto simp: s'\<close>)
  next
    case Wait
    have pend: "nt_val W' r b = snd (X q ! j)"
      if "(q, j, b) \<in> set (sy_pend s)" "j < length (X q)" "ar_fits A q (fst (X q ! j)) r b" for q j b
    proof -
      have l: "j < length (nt_msgs W q r) \<and> (ar_fits A q (fst (nt_msgs W q r ! j)) r b \<longrightarrow> nt_val W' r b = snd (nt_msgs W q r ! j))"
        using o that(1) W(1) unfolding Wait by (auto simp: list_all_iff)
      have "q \<in> N" by (rule W(5) [OF that(1)])
      then obtain zs where "X q = nt_msgs W q r @ zs" using X by blast
      then show ?thesis using l that(3) by (simp add: nth_append)
    qed
    have "nt_val W' r b = v" if "learn A X r (sy_pend s) (sy_known s) b = Some v" for b v
      by (rule learn_known [OF that]) (use pend val kn Wait in auto)
    then show ?thesis using o a W(4) unfolding Wait by (intro sym_trueI) (auto simp: W)
  next
    case (Cpy d b)
    have k: "sy_known s' = (forget A r d (sy_known s))(d := if ar_fits A r b r d then sy_known s b else None)" "s' = s\<lparr>sy_known := sy_known s'\<rparr>"
      using a unfolding Cpy by auto
    have "apart_all A r c (pend_bufs (sy_pend s)) \<and> nt_val W' r c = v" if kc: "sy_known s' c = Some v" for c v
    proof (cases "c = d")
      case True
      then have "ar_fits A r b r d" "sy_known s b = Some v" using kc True unfolding k(1) by (auto split: if_splits)
      then show ?thesis using o kn True f unfolding Cpy by auto
    next
      case False
      then have "ar_apart A r c d" "sy_known s c = Some v" using kc False unfolding k(1) by (auto simp: forget_def split: if_splits)
      then show ?thesis using val kn unfolding Cpy by auto
    qed
    moreover have "sy_pend s' = sy_pend s" "sy_lent s' = sy_lent s" "sy_rcvd s' = sy_rcvd s" "sy_out s' = sy_out s"
      using a unfolding Cpy by auto
    ultimately show ?thesis using o W unfolding Cpy by (intro sym_trueI) (simp_all add: same_own_def)
  next
    case (Red g b x m e)
    let ?d = "(x, m, e)"
    have k: "sy_known s' = (forget A r ?d (sy_known s))(?d :=
        (case (sy_known s (b, m, e), sy_known s ?d) of (Some u, Some v) \<Rightarrow> Some (ar_red A r g u v) | _ \<Rightarrow> None))" "s' = s\<lparr>sy_known := sy_known s'\<rparr>"
      using a unfolding Red by auto
    have "apart_all A r c (pend_bufs (sy_pend s)) \<and> nt_val W' r c = v" if kc: "sy_known s' c = Some v" for c v
    proof (cases "c = ?d")
      case True
      then obtain u u' where "sy_known s (b, m, e) = Some u" "sy_known s ?d = Some u'" "v = ar_red A r g u u'"
        using kc True unfolding k(1) by (auto split: option.splits)
      then show ?thesis using o kn True f unfolding Red by auto
    next
      case False
      then have "ar_apart A r c ?d" "sy_known s c = Some v" using kc False unfolding k(1) by (auto simp: forget_def split: if_splits)
      then show ?thesis using val kn unfolding Red by auto
    qed
    moreover have "sy_pend s' = sy_pend s" "sy_lent s' = sy_lent s" "sy_rcvd s' = sy_rcvd s" "sy_out s' = sy_out s"
      using a unfolding Red by auto
    ultimately show ?thesis using o W unfolding Red by (intro sym_trueI) (simp_all add: same_own_def)
  qed
qed

text \<open>A step that is not successful: a failed one may have spoilt the buffer it writes.\<close>

lemma sym_true_failed:
  assumes t: "sym_true A N r False s W" and n: "net_step A r a st W W'" and st: "st \<noteq> UCG_OK"
  shows "sym_true A N r (st \<noteq> UCG_INPROGRESS) s W'"
proof -
  have o: "same_own r W W'" using n st by (simp add: net_step_def)
  have "nt_val W' r b = v" if "sy_known s b = Some v" "st = UCG_INPROGRESS" for b v
  proof -
    have "a = Wait" using n that(2) by (simp add: net_step_def)
    then have "nt_val W' r b = nt_val W r b"
      using sym_true_known(1) [OF t that(1)] sym_trueD(1) [OF t] by (intro net_step_val [OF n]) simp_all
    then show ?thesis using sym_true_known(2) [OF t that(1)] by simp
  qed
  then show ?thesis using o sym_trueD [OF t] sym_true_known(1) [OF t] by (intro sym_trueI) (auto simp: same_own_def)
qed

text \<open>A step of another rank.\<close>

lemma sym_true_other:
  assumes "sym_true A N q dead s W" and "net_step A r a st W W'" and "q \<noteq> r"
  shows "sym_true A N q dead s W'"
proof -
  have o: "same_own q W W'" using assms(2,3) by (simp add: net_step_def)
  have "nt_val W' q b = v" if "\<not> dead" "sy_known s b = Some v" for b v
    using that sym_true_known [of A N q s W b v] assms(1) sym_trueD(1) [OF assms(1)] assms(3)
    by (subst net_step_val [OF assms(2)]) simp_all
  then show ?thesis using o sym_trueD [OF assms(1)] sym_true_known(1) [of A N q s W] assms(1)
    by (intro sym_trueI) (auto simp: same_own_def)
qed

end
