(* ===== verification/Coll_Sound.thy ===== *)
theory Coll_Sound
  imports Coll_Data
begin

text \<open>The symbolic execution of the scripts of all ranks is true of every run.\<close>

subsection \<open>Executions that fit together\<close>

text \<open>Every rank's execution succeeds with the messages that the others' executions send: \<open>X r p\<close> goes from \<open>p\<close> to \<open>r\<close>.\<close>

definition plays ::
    "'v areas \<Rightarrow> ucg_rank_t set \<Rightarrow> (ucg_rank_t \<Rightarrow> coll_act list) \<Rightarrow> (ucg_rank_t \<Rightarrow> c_buf \<Rightarrow> 'v option) \<Rightarrow>
     (ucg_rank_t \<Rightarrow> ucg_rank_t \<Rightarrow> (c_buf \<times> 'v) list) \<Rightarrow> (ucg_rank_t \<Rightarrow> 'v sym) \<Rightarrow> bool" where
  "plays A N S K X fin \<longleftrightarrow>
     (\<forall>r \<in> N. sym_run A (X r) r (S r) (sym_start (K r)) = Some (fin r) \<and> (\<forall>p \<in> N. X p r = sy_out (fin r) p))"

definition waited :: "'v areas \<Rightarrow> (ucg_rank_t \<Rightarrow> (c_buf \<times> 'v) list) \<Rightarrow> ucg_rank_t \<Rightarrow> 'v sym \<Rightarrow> 'v sym" where
  "waited A X r s = s\<lparr>sy_pend := [], sy_lent := [], sy_known := learn A X r (sy_pend s) (sy_known s)\<rparr>"

lemma sym_act_Wait: "sym_act A X r Wait s = Some (waited A X r s)"
  by (simp add: waited_def)

lemma waited_waited [simp]: "waited A X r (waited A X r s) = waited A X r s"
  by (simp add: waited_def)

text \<open>
  Where a rank is: it has performed the actions before its position, and may have made the test there once more than
  the script says.
\<close>

definition true_at ::
    "'v areas \<Rightarrow> ucg_rank_t set \<Rightarrow> (ucg_rank_t \<Rightarrow> coll_act list) \<Rightarrow> (ucg_rank_t \<Rightarrow> c_buf \<Rightarrow> 'v option) \<Rightarrow>
     (ucg_rank_t \<Rightarrow> ucg_rank_t \<Rightarrow> (c_buf \<times> 'v) list) \<Rightarrow> bool \<Rightarrow> nat \<Rightarrow> 'v net \<Rightarrow> ucg_rank_t \<Rightarrow> bool" where
  "true_at A N S K X dead i W r \<longleftrightarrow>
     (\<exists>s. sym_run A (X r) r (take i (S r)) (sym_start (K r)) = Some s \<and>
        (sym_true A N r dead s W \<or> i < length (S r) \<and> S r ! i = Wait \<and> sym_true A N r dead (waited A (X r) r s) W))"

definition sound_at ::
    "'v areas \<Rightarrow> ucg_rank_t set \<Rightarrow> (ucg_rank_t \<Rightarrow> coll_act list) \<Rightarrow> (ucg_rank_t \<Rightarrow> c_buf \<Rightarrow> 'v option) \<Rightarrow>
     (ucg_rank_t \<Rightarrow> ucg_rank_t \<Rightarrow> (c_buf \<times> 'v) list) \<Rightarrow> ucg_rank_t set \<Rightarrow> (ucg_rank_t \<Rightarrow> nat) \<Rightarrow> 'v net \<Rightarrow> bool" where
  "sound_at A N S K X D pos W \<longleftrightarrow> nt_fair W \<and> (\<forall>r \<in> N. true_at A N S K X (r \<in> D) (pos r) W r)"

lemma true_at_other:
  assumes "true_at A N S K X dead i W q" and "net_step A r a st W W'" and "q \<noteq> r"
  shows "true_at A N S K X dead i W' q"
  using assms sym_true_other [OF _ assms(2,3)] unfolding true_at_def by blast

lemma sound_at_others:
  assumes "sound_at A N S K X D pos W" and "net_step A r a st W W'" and "true_at A N S K X (r \<in> D') i W' r" and "D' - {r} = D - {r}"
  shows "sound_at A N S K X D' (pos(r := i)) W'"
  unfolding sound_at_def
proof (intro conjI ballI)
  show "nt_fair W'" using assms(2) by (simp add: net_step_def)
  fix q assume q: "q \<in> N"
  show "true_at A N S K X (q \<in> D') ((pos(r := i)) q) W' q"
  proof (cases "q = r")
    case True
    then show ?thesis using assms(3) by simp
  next
    case False
    then have "(q \<in> D') = (q \<in> D)" using assms(4) by blast
    moreover have "true_at A N S K X (q \<in> D) (pos q) W q" using assms(1) q by (simp add: sound_at_def)
    ultimately show ?thesis using true_at_other [OF _ assms(2) False] False by simp
  qed
qed

text \<open>The messages that have been posted are the first ones of \<open>X\<close>.\<close>

lemma posted_prefix:
  assumes "plays A N S K X fin" and "sound_at A N S K X D pos W" and "p \<in> N" and "r \<in> N"
  shows "\<exists>zs. X r p = nt_msgs W p r @ zs"
proof -
  obtain s where s: "sym_run A (X p) p (take (pos p) (S p)) (sym_start (K p)) = Some s"
    and t: "nt_msgs W p = sy_out s"
    using assms(2,3) unfolding sound_at_def true_at_def by (auto simp: sym_true_def waited_def)
  have full: "sym_run A (X p) p (S p) (sym_start (K p)) = Some (fin p)" "X r p = sy_out (fin p) r"
    using assms(1,3,4) by (simp_all add: plays_def)
  have "sym_run A (X p) p (drop (pos p) (S p)) s = Some (fin p)"
    using full(1) s sym_run_append [of A "X p" p "take (pos p) (S p)" "drop (pos p) (S p)" "sym_start (K p)"] by simp
  from sym_run_out [OF this, of r] show ?thesis using full(2) t by simp
qed

lemma next_action:
  assumes "plays A N S K X fin" and "r \<in> N" and "sym_run A (X r) r (take i (S r)) (sym_start (K r)) = Some s" and "i < length (S r)"
  obtains s' where "race_free A r (S r ! i) (pend_bufs (sy_pend s)) (sy_lent s)" and "sym_act A (X r) r (S r ! i) s = Some s'"
    and "sym_run A (X r) r (take (Suc i) (S r)) (sym_start (K r)) = Some s'"
proof -
  have full: "sym_run A (X r) r (S r) (sym_start (K r)) = Some (fin r)" using assms(1,2) by (simp add: plays_def)
  have "take i (S r) @ drop i (S r) = S r" by simp
  then have "sym_run A (X r) r (drop i (S r)) s = Some (fin r)"
    using full assms(3) sym_run_append [of A "X r" r "take i (S r)" "drop i (S r)" "sym_start (K r)"] by simp
  moreover have "drop i (S r) = S r ! i # drop (Suc i) (S r)" using assms(4) by (simp add: Cons_nth_drop_Suc)
  ultimately obtain s' where s': "race_free A r (S r ! i) (pend_bufs (sy_pend s)) (sy_lent s)" "sym_act A (X r) r (S r ! i) s = Some s'"
    by (auto split: if_splits bind_splits)
  have "sym_run A (X r) r (take (Suc i) (S r)) (sym_start (K r)) = Some s'"
    using assms(3,4) s' by (simp add: take_Suc_conv_app_nth sym_run_append)
  then show thesis using that s' by blast
qed

subsection \<open>One step\<close>

lemma sound_act:
  assumes P: "plays A N S K X fin" and V: "data_promises A N E tag view" and r: "r \<in> N" "r \<notin> D"
    and s: "sound_at A N S K X D pos (view w)" and i: "pos r < length (S r)" and pe: "peers_of [S r ! pos r] \<subseteq> N"
    and p: "perform (E r) tag (S r ! pos r) w = Some (st, w')"
  shows "sound_at A N S K X (if st \<in> {UCG_OK, UCG_INPROGRESS} then D else insert r D)
      (pos(r := if st = UCG_OK then Suc (pos r) else pos r)) (view w') \<and> (st = UCG_INPROGRESS \<longrightarrow> S r ! pos r = Wait)"
proof -
  let ?a = "S r ! pos r"
  have X: "\<And>p. p \<in> N \<Longrightarrow> \<exists>zs. X r p = nt_msgs (view w) p r @ zs" using posted_prefix [OF P s _ r(1)] .
  have fair: "nt_fair (view w)" using s by (simp add: sound_at_def)
  obtain s0 where s0: "sym_run A (X r) r (take (pos r) (S r)) (sym_start (K r)) = Some s0"
    and t: "sym_true A N r False s0 (view w) \<or> ?a = Wait \<and> sym_true A N r False (waited A (X r) r s0) (view w)"
    using s r by (auto simp: sound_at_def true_at_def)
  obtain s' where s': "race_free A r ?a (pend_bufs (sy_pend s0)) (sy_lent s0)" "sym_act A (X r) r ?a s0 = Some s'"
    "sym_run A (X r) r (take (Suc (pos r)) (S r)) (sym_start (K r)) = Some s'"
    by (rule next_action [OF P r(1) s0 i])
  define s1 where "s1 = (if sym_true A N r False s0 (view w) then s0 else waited A (X r) r s0)"
  have t1: "sym_true A N r False s1 (view w)" and w1: "s1 = s0 \<or> ?a = Wait \<and> s1 = waited A (X r) r s0" using t by (auto simp: s1_def)
  have a1: "sym_act A (X r) r ?a s1 = Some s'" "race_free A r ?a (pend_bufs (sy_pend s1)) (sy_lent s1)"
  proof -
    show "sym_act A (X r) r ?a s1 = Some s'"
    proof (cases "s1 = s0")
      case False
      then have "?a = Wait" "s1 = waited A (X r) r s0" using w1 by simp_all
      then show ?thesis using s'(2) by (simp only: sym_act_Wait waited_waited)
    qed (use s'(2) in simp)
    show "race_free A r ?a (pend_bufs (sy_pend s1)) (sy_lent s1)" using s'(1) w1 by auto
  qed
  have n: "net_step A r ?a st (view w) (view w')"
    using V r(1) fair pe a1(2) p sym_trueD(1,2) [OF t1] unfolding data_promises_def by simp
  show ?thesis
  proof (cases "st = UCG_OK")
    case True
    have "sym_true A N r False s' (view w')" by (rule sym_true_own [OF t1 n [unfolded True] a1(2,1) pe X])
    then have "true_at A N S K X (r \<in> D) (Suc (pos r)) (view w') r" using s'(3) r(2) by (auto simp: true_at_def)
    from sound_at_others [OF s n this] show ?thesis using True by simp
  next
    case False
    have "sym_true A N r (st \<noteq> UCG_INPROGRESS) s1 (view w')" by (rule sym_true_failed [OF t1 n False])
    then have "true_at A N S K X (r \<in> (if st \<in> {UCG_OK, UCG_INPROGRESS} then D else insert r D)) (pos r) (view w') r"
      using s0 w1 i r(2) False by (auto simp: true_at_def)
    from sound_at_others [OF s n this] show ?thesis using False n by (auto simp: net_step_def)
  qed
qed

text \<open>The test once more.\<close>

lemma sound_wait:
  assumes P: "plays A N S K X fin" and V: "data_promises A N E tag view" and r: "r \<in> N" "r \<notin> D"
    and s: "sound_at A N S K X D pos (view w)" and i: "pos r < length (S r)" "S r ! pos r = Wait"
    and p: "perform (E r) tag Wait w = Some (st, w')"
  shows "sound_at A N S K X (if st \<in> {UCG_OK, UCG_INPROGRESS} then D else insert r D) pos (view w')"
proof -
  have X: "\<And>p. p \<in> N \<Longrightarrow> \<exists>zs. X r p = nt_msgs (view w) p r @ zs" using posted_prefix [OF P s _ r(1)] .
  have fair: "nt_fair (view w)" using s by (simp add: sound_at_def)
  obtain s0 where s0: "sym_run A (X r) r (take (pos r) (S r)) (sym_start (K r)) = Some s0"
    and t: "sym_true A N r False s0 (view w) \<or> sym_true A N r False (waited A (X r) r s0) (view w)"
    using s r by (auto simp: sound_at_def true_at_def)
  define s1 where "s1 = (if sym_true A N r False s0 (view w) then s0 else waited A (X r) r s0)"
  have t1: "sym_true A N r False s1 (view w)" and w1: "s1 = s0 \<or> s1 = waited A (X r) r s0" using t by (auto simp: s1_def)
  have n: "net_step A r Wait st (view w) (view w')"
    using V r(1) fair p unfolding data_promises_def by simp
  have "true_at A N S K X (r \<in> (if st \<in> {UCG_OK, UCG_INPROGRESS} then D else insert r D)) (pos r) (view w') r"
  proof (cases "st = UCG_OK")
    case True
    have "sym_true A N r False (waited A (X r) r s1) (view w')"
      by (rule sym_true_own [OF t1 n [unfolded True] _ sym_act_Wait _ X]) simp_all
    then have "sym_true A N r False (waited A (X r) r s0) (view w')" using w1 by auto
    then show ?thesis using s0 i r(2) True by (auto simp: true_at_def)
  next
    case False
    have "sym_true A N r (st \<noteq> UCG_INPROGRESS) s1 (view w')" by (rule sym_true_failed [OF t1 n False])
    then show ?thesis using s0 w1 i r(2) False by (auto simp: true_at_def)
  qed
  from sound_at_others [OF s n this] show ?thesis by simp
qed

subsection \<open>All steps\<close>

lemma sound_run_acts:
  assumes P: "plays A N S K X fin" and V: "data_promises A N E tag view" and r: "r \<in> N" "r \<notin> D" and pe: "peers_of (S r) \<subseteq> N"
  shows "sound_at A N S K X D pos (view w) \<Longrightarrow> pos r \<le> length (S r) \<Longrightarrow> drop (pos r) (S r) = as @ zs \<Longrightarrow>
    run_acts (E r) tag as w = Some (st, k, w') \<Longrightarrow>
    sound_at A N S K X (if st \<in> {UCG_OK, UCG_INPROGRESS} then D else insert r D) (pos(r := pos r + k)) (view w') \<and>
    (st = UCG_INPROGRESS \<longrightarrow> k < length as \<and> as ! k = Wait)"
proof (induction as arbitrary: pos w k)
  case (Cons a as)
  have i: "pos r < length (S r)" "S r ! pos r = a" "drop (Suc (pos r)) (S r) = as @ zs"
  proof -
    show "pos r < length (S r)" using Cons.prems(3) by (cases "pos r < length (S r)") simp_all
    then have "drop (pos r) (S r) = S r ! pos r # drop (Suc (pos r)) (S r)" by (simp add: Cons_nth_drop_Suc)
    then show "S r ! pos r = a" "drop (Suc (pos r)) (S r) = as @ zs" using Cons.prems(3) by simp_all
  qed
  have pa: "peers_of [S r ! pos r] \<subseteq> N"
  proof -
    have "S r = take (pos r) (S r) @ [S r ! pos r] @ drop (Suc (pos r)) (S r)" using i(1) by (simp add: Cons_nth_drop_Suc)
    then have "peers_of [S r ! pos r] \<subseteq> peers_of (S r)" by (metis Un_upper1 Un_upper2 peers_of_simps(2) subset_trans)
    then show ?thesis using pe by blast
  qed
  from Cons.prems(4) obtain st1 w1 where a: "perform (E r) tag (S r ! pos r) w = Some (st1, w1)"
    and b: "if st1 \<noteq> UCG_OK then (st, k, w') = (st1, 0, w1)
      else \<exists>j. run_acts (E r) tag as w1 = Some (st, j, w') \<and> k = Suc j"
    unfolding i(2) by (auto split: bind_splits if_splits)
  note one = sound_act [OF P V r Cons.prems(1) i(1) pa a]
  show ?case
  proof (cases "st1 = UCG_OK")
    case False
    then show ?thesis using one b i(2) by auto
  next
    case True
    then obtain j where j: "run_acts (E r) tag as w1 = Some (st, j, w')" "k = Suc j" using b by auto
    let ?pos = "pos(r := Suc (pos r))"
    have "sound_at A N S K X D ?pos (view w1)" using one True by simp
    note rest = Cons.IH [OF this _ _ j(1)]
    have e: "?pos(r := ?pos r + j) = pos(r := pos r + k)" using j(2) by auto
    have "?pos r \<le> length (S r)" "drop (?pos r) (S r) = as @ zs" using i by simp_all
    then have "sound_at A N S K X (if st \<in> {UCG_OK, UCG_INPROGRESS} then D else insert r D) (?pos(r := ?pos r + j)) (view w') \<and>
        (st = UCG_INPROGRESS \<longrightarrow> j < length as \<and> as ! j = Wait)" by (rule rest)
    then show ?thesis unfolding e j(2) by (simp del: fun_upd_apply)
  qed
qed simp

lemma sound_kept:
  assumes P: "plays A N S K X fin" and V: "data_promises A N E tag view" and pe: "\<And>r. r \<in> N \<Longrightarrow> peers_of (S r) \<subseteq> N"
  shows "keeps N E tag S (\<lambda>D pos w. sound_at A N S K X D pos (view w))"
proof (rule keepsI)
  fix D pos w r ex as zs st k w'
  assume a: "r \<in> N" "r \<notin> D" "sound_at A N S K X D pos (view w)" "pos r \<le> length (S r)"
    "ex = [] \<or> ex = [Wait] \<and> pos r < length (S r) \<and> S r ! pos r = Wait" "drop (pos r) (S r) = as @ zs"
    "run_acts (E r) tag (ex @ as) w = Some (st, k, w')"
  show "sound_at A N S K X (if st \<in> {UCG_OK, UCG_INPROGRESS} then D else insert r D) (pos(r := pos r + (k - length ex))) (view w') \<and>
      (st = UCG_INPROGRESS \<longrightarrow> k < length (ex @ as) \<and> (ex @ as) ! k = Wait)"
  proof (cases "ex = []")
    case True
    then show ?thesis using sound_run_acts [OF P V a(1,2) pe [OF a(1)] a(3,4,6)] a(7) by simp
  next
    case False
    then have ex: "ex = [Wait]" "pos r < length (S r)" "S r ! pos r = Wait" using a(5) by simp_all
    from a(7) obtain st1 w1 where w: "perform (E r) tag Wait w = Some (st1, w1)"
      and b: "if st1 \<noteq> UCG_OK then (st, k, w') = (st1, 0, w1)
        else \<exists>j. run_acts (E r) tag as w1 = Some (st, j, w') \<and> k = Suc j"
      unfolding ex(1) by (auto split: bind_splits if_splits)
    note one = sound_wait [OF P V a(1,2,3) ex(2,3) w]
    show ?thesis
    proof (cases "st1 = UCG_OK")
      case False
      then show ?thesis using one b ex(1) by (auto simp: fun_upd_idem)
    next
      case True
      then obtain j where j: "run_acts (E r) tag as w1 = Some (st, j, w')" "k = Suc j" using b by auto
      have "sound_at A N S K X D pos (view w1)" using one True by simp
      from sound_run_acts [OF P V a(1,2) pe [OF a(1)] this a(4,6) j(1)] show ?thesis by (simp add: j(2) ex(1))
    qed
  qed
next
  fix D pos w r assume a: "r \<in> N" "r \<notin> D" "sound_at A N S K X D pos (view w)" "pos r = 0"
  then have "nt_fair (view w)" "true_at A N S K X False 0 (view w) r" by (auto simp: sound_at_def)
  then have "nt_fair (view w)" "nt_pend (view w) r = [] \<and> nt_lent (view w) r = []"
    by (auto simp: true_at_def sym_start_def waited_def sym_true_def)
  then have "view (ce_state_reset (E r) w) = view w" using V a(1) by (simp add: data_promises_def)
  then show "sound_at A N S K X D pos (view (ce_state_reset (E r) w))" using a(3) by simp
qed

text \<open>A layer on which nothing has happened yet.\<close>

definition net_idle :: "ucg_rank_t set \<Rightarrow> (ucg_rank_t \<Rightarrow> c_buf \<Rightarrow> 'v option) \<Rightarrow> 'v net \<Rightarrow> bool" where
  "net_idle N K W \<longleftrightarrow> nt_fair W \<and>
     (\<forall>r \<in> N. nt_pend W r = [] \<and> nt_lent W r = [] \<and> nt_rcvd W r = (\<lambda>_. 0) \<and> nt_msgs W r = (\<lambda>_. []) \<and>
        (\<forall>b v. K r b = Some v \<longrightarrow> nt_val W r b = v))"

lemma net_idle_sound:
  assumes "net_idle N K W"
  shows "sound_at A N S K X {} (\<lambda>_. 0) W"
proof -
  have "sym_true A N r False (sym_start (K r)) W" if "r \<in> N" for r
    using assms that unfolding net_idle_def by (intro sym_trueI) (auto simp: sym_start_def)
  then show ?thesis using assms by (auto simp: sound_at_def true_at_def net_idle_def)
qed

context scripted_coll
begin

text \<open>When a rank has finished, its buffers hold what the symbolic execution says; no rank ever touches a buffer it has lent.\<close>

lemma run_data:
  assumes v: "valid g" and V: "data_promises A (ranks g) (env g) (tag g) view" and P: "plays A (ranks g) (script g) K X fin"
    and idle: "coll_idle g c0" "net_idle (ranks g) K (view (cf_world c0))"
    and run: "coll_run (ranks g) (env g) trig prog view c0 c"
  shows "nt_fair (view (cf_world c))"
    and "r \<in> ranks g \<Longrightarrow> cf_on c r = Some UCG_OK \<Longrightarrow> op_status (cf_op c r) = UCG_OK \<Longrightarrow> sy_known (fin r) b = Some u \<Longrightarrow>
      nt_val (view (cf_world c)) r b = u"
proof -
  have K: "keeps (ranks g) (env g) (tag g) (script g) (\<lambda>D pos w. sound_at A (ranks g) (script g) K X D pos (view w))"
    by (rule sound_kept [OF P V peers [OF v]])
  have "\<exists>D pos. conf_at g c D pos \<and> sound_at A (ranks g) (script g) K X D pos (view (cf_world c))"
    by (rule run_keeps [OF v K _ idle(1) net_idle_sound [OF idle(2)] run]) simp
  then obtain D pos where c: "conf_at g c D pos" "sound_at A (ranks g) (script g) K X D pos (view (cf_world c))" by blast
  show "nt_fair (view (cf_world c))" using c(2) by (simp add: sound_at_def)
  assume r: "r \<in> ranks g" "cf_on c r = Some UCG_OK" "op_status (cf_op c r) = UCG_OK" "sy_known (fin r) b = Some u"
  have "r \<notin> D" using c(1) r(2,3) by (auto simp: conf_at_def rank_dead_def)
  moreover have "rank_at g r (cf_on c r) (cf_op c r) (pos r)" using c(1) r(1) by (simp add: conf_at_def)
  then have "pos r = length (script g r)" using rank_atD(3) r by blast
  moreover have "sym_run A (X r) r (script g r) (sym_start (K r)) = Some (fin r)" using P r(1) by (simp add: plays_def)
  ultimately have "sym_true A (ranks g) r False (fin r) (view (cf_world c))" using c(2) r(1) by (auto simp: sound_at_def true_at_def)
  from sym_true_known(2) [OF this r(4)] show "nt_val (view (cf_world c)) r b = u" .
qed

end

end
