(* ===== verification/Coll_Net.thy ===== *)
theory Coll_Net
  imports Coll_Sound Rd_Spec
begin

text \<open>Small p2p layers on which collectives can be run: they keep the promises that the theorems ask for.\<close>

subsection \<open>An operation before its fields are set\<close>

definition blank_coll :: ucx_coll where
  "blank_coll = \<lparr>uo_tag = 0, uo_flags = 0, uo_staging_area = C_NULL, uo_rd_iter = rd_blank,
     uo_kntree_iter = \<lparr>kn_size = 0, kn_degree = 0, kn_root = 0, kn_myrank = 0, kn_leftmost = False, kn_max_subsize = 0,
       kn_subsize = 0, kn_child_idx = 0, kn_parent = 0, kn_child = 0\<rparr>,
     uo_ring_iter = \<lparr>ring_left = 0, ring_right = 0, ring_idx = 0, ring_max_idx = 0\<rparr>,
     uo_staging_area_stored = C_NULL, uo_recvbuf_stored = C_NULL,
     uo_neighbor = \<lparr>an_loop_count = 0, an_loop_max = 0, an_send_data_from = 0, an_recv_data_from = (0, 0), an_neighbor = (0, 0),
       an_offset_at_step = (0, 0)\<rparr>, uo_distance = 0, uo_linear_idx = 0, uo_send_type = False\<rparr>"

subsection \<open>Counting messages\<close>

text \<open>It only counts: a test succeeds when every receive has its message.\<close>

type_synonym count_net = "chan_count \<times> chan_count"

definition count_env :: "nat \<Rightarrow> ucg_rank_t \<Rightarrow> count_net coll_env" where
  "count_env n r =
     \<lparr>ce_myrank = r, ce_size = int n,
      ce_isend = (\<lambda>b cnt d p t (s, q). Some (UCG_OK, bump r p s, q)),
      ce_irecv = (\<lambda>b cnt d p t (s, q). Some (UCG_OK, s, bump r p q)),
      ce_testall = (\<lambda>(s, q). Some (if list_all (\<lambda>p. q r p \<le> s p r) (map int [0..<n]) then UCG_OK else UCG_INPROGRESS, s, q)),
      ce_state_reset = (\<lambda>w. w),
      ce_memcpy = (\<lambda>b cnt d b' cnt' d' w. Some (UCG_OK, w)),
      ce_reduce = (\<lambda>f s t cnt d w. Some (UCG_OK, w)), ce_dt_uint8 = 64\<rparr>"

lemma count_promises: "chan_promises {0..<int n} (count_env n) tag (\<lambda>_. True) fst snd"
proof -
  have "{0..<int n} = int ` {0..<n}" by (simp add: image_int_atLeastLessThan)
  then show ?thesis by (auto simp: chan_promises_def count_env_def list_all_iff split: if_splits)
qed

subsection \<open>Carrying data\<close>

text \<open>
  Buffers are taken to be apart when they are not the same, and to fit always; a reduction adds.  A test that succeeds
  puts the contents of the messages in their buffers.  The state is lists: messages in the order of their posting, receives,
  those that have not been waited for, and contents, the last one first.
\<close>

definition plain_areas :: "int areas" where
  "plain_areas = \<lparr>ar_apart = (\<lambda>r b b'. b \<noteq> b'), ar_fits = (\<lambda>p b r b'. True), ar_red = (\<lambda>r f u v. u + v)\<rparr>"

record data_world =
  dw_msgs :: "((ucg_rank_t \<times> ucg_rank_t) \<times> c_buf \<times> int) list"
  dw_rcvd :: "(ucg_rank_t \<times> ucg_rank_t) list"
  dw_pend :: "(ucg_rank_t \<times> ucg_rank_t \<times> nat \<times> c_buf) list"
  dw_lent :: "(ucg_rank_t \<times> c_buf) list"
  dw_vals :: "((ucg_rank_t \<times> c_buf) \<times> int) list"

definition select :: "'k \<Rightarrow> ('k \<times> 'x) list \<Rightarrow> 'x list" where
  "select k xs = map snd (filter (\<lambda>x. fst x = k) xs)"

definition dw_val :: "data_world \<Rightarrow> ucg_rank_t \<Rightarrow> c_buf \<Rightarrow> int" where
  "dw_val w r b = (case map_of (dw_vals w) (r, b) of None \<Rightarrow> 0 | Some v \<Rightarrow> v)"

text \<open>The contents after the pending messages \<open>ps\<close> of rank \<open>r\<close> have come in.\<close>

definition filled :: "ucg_rank_t \<Rightarrow> (ucg_rank_t \<Rightarrow> nat \<Rightarrow> int) \<Rightarrow> (ucg_rank_t \<times> nat \<times> c_buf) list \<Rightarrow>
    ((ucg_rank_t \<times> c_buf) \<times> int) list \<Rightarrow> ((ucg_rank_t \<times> c_buf) \<times> int) list" where
  "filled r f ps vals = map (\<lambda>(p, j, b). ((r, b), f p j)) ps @ vals"

definition data_env :: "nat \<Rightarrow> ucg_rank_t \<Rightarrow> data_world coll_env" where
  "data_env n r =
     \<lparr>ce_myrank = r, ce_size = int n,
      ce_isend = (\<lambda>b cnt d p t w. Some (UCG_OK, w\<lparr>dw_msgs := dw_msgs w @ [((r, p), (b, cnt, d), dw_val w r (b, cnt, d))],
        dw_lent := (r, b, cnt, d) # dw_lent w\<rparr>)),
      ce_irecv = (\<lambda>b cnt d p t w. Some (UCG_OK, w\<lparr>dw_rcvd := (r, p) # dw_rcvd w,
        dw_pend := (r, p, length (filter (\<lambda>x. x = (r, p)) (dw_rcvd w)), (b, cnt, d)) # dw_pend w\<rparr>)),
      ce_testall = (\<lambda>w. Some
        (if list_all (\<lambda>(p, j, b). j < length (select (p, r) (dw_msgs w))) (select r (dw_pend w))
         then (UCG_OK, w\<lparr>dw_pend := filter (\<lambda>x. fst x \<noteq> r) (dw_pend w), dw_lent := filter (\<lambda>x. fst x \<noteq> r) (dw_lent w),
           dw_vals := filled r (\<lambda>p j. snd (select (p, r) (dw_msgs w) ! j)) (select r (dw_pend w)) (dw_vals w)\<rparr>)
         else (UCG_INPROGRESS, w))),
      ce_state_reset = (\<lambda>w. w),
      ce_memcpy = (\<lambda>b cnt d b' cnt' d' w. Some (UCG_OK, w\<lparr>dw_vals := ((r, b, cnt, d), dw_val w r (b', cnt', d')) # dw_vals w\<rparr>)),
      ce_reduce = (\<lambda>f s t cnt d w. Some (UCG_OK,
        w\<lparr>dw_vals := ((r, t, cnt, d), dw_val w r (s, cnt, d) + dw_val w r (t, cnt, d)) # dw_vals w\<rparr>)),
      ce_dt_uint8 = 64\<rparr>"

text \<open>It keeps its promises as long as no buffer waits for two messages.\<close>

definition data_view :: "data_world \<Rightarrow> int net" where
  "data_view w = \<lparr>nt_msgs = (\<lambda>r p. select (r, p) (dw_msgs w)), nt_rcvd = (\<lambda>r p. length (filter (\<lambda>x. x = (r, p)) (dw_rcvd w))),
     nt_pend = (\<lambda>r. select r (dw_pend w)), nt_lent = (\<lambda>r. select r (dw_lent w)), nt_val = dw_val w,
     nt_fair = (\<forall>r. distinct (pend_bufs (select r (dw_pend w))))\<rparr>"

lemma select_simps [simp]:
  "select k [] = []" "select k (x # xs) = (if fst x = k then snd x # select k xs else select k xs)"
  "select k (xs @ ys) = select k xs @ select k ys"
  "select k (filter (\<lambda>x. fst x \<noteq> k') xs) = (if k = k' then [] else select k xs)"
  by (auto simp: select_def intro!: arg_cong [where f = "map snd"] filter_cong)

lemma filled_other:
  "q \<noteq> r \<or> b \<notin> set (pend_bufs ps) \<Longrightarrow> map_of (filled r f ps vals) (q, b) = map_of vals (q, b)"
  unfolding filled_def by (induction ps) auto

lemma filled_pend:
  "distinct (pend_bufs ps) \<Longrightarrow> (p, j, b) \<in> set ps \<Longrightarrow> map_of (filled r f ps vals) (r, b) = Some (f p j)"
proof (induction ps)
  case (Cons x ps)
  obtain p' j' b' where x: "x = (p', j', b')" by (cases x)
  show ?case
  proof (cases "x = (p, j, b)")
    case True
    then show ?thesis by (simp add: filled_def)
  next
    case False
    then have m: "(p, j, b) \<in> set ps" using Cons.prems(2) by simp
    then have "b \<in> set (pend_bufs ps)" by force
    moreover have "b' \<notin> set (pend_bufs ps)" using Cons.prems(1) x by simp
    ultimately have "b' \<noteq> b" by metis
    then show ?thesis using Cons.IH [OF _ m] Cons.prems(1) by (simp add: filled_def x)
  qed
qed simp

lemma data_env_promises: "data_promises plain_areas N (data_env n) tag data_view"
  unfolding data_promises_def
proof (intro ballI allI impI conjI)
  fix r w a st w' assume r: "r \<in> N" and fair: "nt_fair (data_view w)"
    and free: "race_free plain_areas r a (pend_bufs (nt_pend (data_view w) r)) (nt_lent (data_view w) r)"
    and p: "perform (data_env n r) tag a w = Some (st, w')"
  have d: "distinct (pend_bufs (select q (dw_pend w)))" for q using fair by (simp add: data_view_def)
  have notin: "list_all (\<lambda>b'. b \<noteq> b') bs \<longleftrightarrow> b \<notin> set bs" for b and bs :: "c_buf list" by (auto simp: list_all_iff)
  note defs = net_step_def data_env_def data_view_def same_own_def plain_areas_def notin dw_val_def
  show "net_step plain_areas r a st (data_view w) (data_view w')"
  proof (cases a)
    case (Snd q b)
    then show ?thesis using p d by (cases b) (auto simp: defs)
  next
    case (Rcv q b)
    then show ?thesis using p d free by (cases b) (auto simp: defs simp del: split_paired_All)
  next
    case Wait
    let ?ps = "select r (dw_pend w)" and ?f = "\<lambda>p j. snd (select (p, r) (dw_msgs w) ! j)"
    let ?w = "w\<lparr>dw_pend := filter (\<lambda>x. fst x \<noteq> r) (dw_pend w), dw_lent := filter (\<lambda>x. fst x \<noteq> r) (dw_lent w), dw_vals := filled r ?f ?ps (dw_vals w)\<rparr>"
    consider "st = UCG_INPROGRESS" "w' = w"
      | "st = UCG_OK" "w' = ?w" "list_all (\<lambda>(p, j, b). j < length (select (p, r) (dw_msgs w))) ?ps"
      using p Wait by (auto simp: data_env_def split: if_splits)
    then show ?thesis
    proof cases
      case 1
      then show ?thesis using Wait fair by (simp add: net_step_def same_own_def)
    next
      case 2
      have own: "list_all (\<lambda>(p, j, b). j < length (select (p, r) (dw_msgs w)) \<and> dw_val w' r b = ?f p j) ?ps"
        using 2(3) filled_pend [OF d] unfolding list_all_iff by (fastforce simp: 2(2) dw_val_def)
      have keep: "dw_val w' q b = dw_val w q b" if "q \<noteq> r \<or> b \<notin> set (pend_bufs ?ps)" for q b
        using filled_other [OF that] by (simp add: 2(2) dw_val_def)
      have other: "select q (dw_pend w') = (if q = r then [] else select q (dw_pend w))"
        "select q (dw_lent w') = (if q = r then [] else select q (dw_lent w))" "dw_msgs w' = dw_msgs w" "dw_rcvd w' = dw_rcvd w" for q
        by (simp_all add: 2(2))
      show ?thesis unfolding net_step_def Wait 2(1)
      proof (intro conjI allI impI)
        show "nt_fair (data_view w')" using d by (simp add: data_view_def other)
        show "nt_val (data_view w') q b = nt_val (data_view w) q b"
          if "apart_all plain_areas q b (pend_bufs (nt_pend (data_view w) q) @ (if q = r then written Wait else []))" for q b
          using that keep [of q b] by (auto simp: data_view_def plain_areas_def notin)
        show "same_own q (data_view w) (data_view w')" if "q \<noteq> r" for q using that by (simp add: same_own_def data_view_def other)
        show "if UCG_OK = UCG_OK then own_step plain_areas r Wait (data_view w) (data_view w') else same_own r (data_view w) (data_view w')"
          using own by (simp add: data_view_def other plain_areas_def)
      qed simp
    qed
  next
    case (Cpy b c)
    then show ?thesis using p d by (cases b; cases c) (auto simp: defs)
  next
    case (Red f s t k e)
    then show ?thesis using p d by (auto simp: defs)
  qed
qed (simp add: data_env_def)

end
