(* ===== verification/Barrier_Spec.thy ===== *)
theory Barrier_Spec
  imports Barrier_Script Coll_Net
begin

text \<open>What the recursive doubling barrier guarantees to its ranks.\<close>

subsection \<open>Where the messages stand in the scripts\<close>

lemma rd_rounds_split:
  assumes "k \<le> rd_rounds n"
  shows "rd_round_acts b it0 n r 0 = concat (map (\<lambda>i. exchange_acts b (rd_peer it0 n i r)) [0..<k]) @ rd_round_acts b it0 n r k"
proof -
  have "[0..<rd_rounds n] = [0..<k] @ [k..<rd_rounds n]" using assms upt_add_eq_append [of 0 k "rd_rounds n - k"] by simp
  then show ?thesis by (simp add: rd_round_acts_def)
qed

lemma length_rounds_upto [simp]: "length (concat (map (\<lambda>i. exchange_acts b (f i)) [0..<k])) = 3 * k"
  by (induction k) (simp_all add: exchange_acts_def)

definition barrier_off :: "c_int \<Rightarrow> ucg_rank_t \<Rightarrow> nat" where
  "barrier_off n r = (if rd_proxy n r then 2 else 0)"

text \<open>The script of a rank that takes part in the rounds, cut at the beginning of a round.\<close>

lemma barrier_acts_split:
  assumes "r \<in> rd_members n" and "k \<le> rd_rounds n"
  shows "barrier_acts b it0 n r =
    (if rd_proxy n r then [Rcv (r - 1) b, Wait] else []) @ concat (map (\<lambda>i. exchange_acts b (rd_peer it0 n i r)) [0..<k]) @
    rd_round_acts b it0 n r k @ (if rd_proxy n r then [Snd (r - 1) b, Wait] else [])"
  using assms rd_rounds_split [OF assms(2), of b it0 r] by (simp add: barrier_acts_def rd_members_def)

lemma barrier_acts_round:
  assumes r: "r \<in> rd_members n" and k: "k < rd_rounds n"
  shows "barrier_acts b it0 n r ! (barrier_off n r + 3 * k + 2) = Wait"
    and "barrier_acts b it0 n r ! (barrier_off n r + 3 * k + 1) = Rcv (rd_peer it0 n k r) b"
    and "barrier_off n r + 3 * k + 2 < length (barrier_acts b it0 n r)"
proof -
  define A where "A = (if rd_proxy n r then [Rcv (r - 1) b, Wait] else []) @ concat (map (\<lambda>i. exchange_acts b (rd_peer it0 n i r)) [0..<k])"
  define Z where "Z = rd_round_acts b it0 n r (Suc k) @ (if rd_proxy n r then [Snd (r - 1) b, Wait] else [])"
  have s: "barrier_acts b it0 n r = A @ [Snd (rd_peer it0 n k r) b, Rcv (rd_peer it0 n k r) b, Wait] @ Z"
    using barrier_acts_split [OF r, of k b it0] k rd_round_acts_step [OF k, of b it0 r] by (simp add: exchange_acts_def A_def Z_def)
  have l: "length A = barrier_off n r + 3 * k" by (simp add: barrier_off_def A_def)
  show "barrier_acts b it0 n r ! (barrier_off n r + 3 * k + 2) = Wait"
    "barrier_acts b it0 n r ! (barrier_off n r + 3 * k + 1) = Rcv (rd_peer it0 n k r) b"
    "barrier_off n r + 3 * k + 2 < length (barrier_acts b it0 n r)"
    unfolding s l [symmetric] by (simp_all add: nth_append)
qed

lemma rd_peer_inj:
  assumes n: "rd_args n" and r: "r \<in> rd_members n" and i: "i < rd_rounds n" "j < rd_rounds n"
    and e: "rd_peer it0 n i r = rd_peer it0' n j r"
  shows "i = j"
proof -
  have "rd_code n (rd_peer it0 n i r) = rd_code n r XOR 2 ^ i" "rd_code n (rd_peer it0' n j r) = rd_code n r XOR 2 ^ j"
    using rd.peer_code [of "(it0, n)" i r] rd.peer_code [of "(it0', n)" j r] n r i by auto
  then have "rd_code n r XOR 2 ^ i = rd_code n r XOR 2 ^ j" using e by simp
  then have "bit (rd_code n r XOR 2 ^ i) i = bit (rd_code n r XOR 2 ^ j) i" by simp
  then show ?thesis by (simp add: bit_xor_exp split: if_splits)
qed

text \<open>A member has not sent to its peer of round \<open>k\<close> before that round.\<close>

lemma no_early_send:
  assumes n: "rd_args n" and q: "q \<in> rd_members n" and k: "k < rd_rounds n" and m: "m \<in> rd_members n" "rd_peer it0' n k q = m"
    and i: "i \<le> barrier_off n q + 3 * k"
  shows "snd_count m (take i (barrier_acts b it0 n q)) = 0"
  unfolding snd_count_0
proof (intro allI notI)
  fix c assume c: "Snd m c \<in> set (take i (barrier_acts b it0 n q))"
  let ?A = "(if rd_proxy n q then [Rcv (q - 1) b, Wait] else []) @ concat (map (\<lambda>i. exchange_acts b (rd_peer it0 n i q)) [0..<k])"
  have s: "barrier_acts b it0 n q = ?A @ rd_round_acts b it0 n q k @ (if rd_proxy n q then [Snd (q - 1) b, Wait] else [])"
    using barrier_acts_split [OF q, of k b it0] k by simp
  have "i \<le> length ?A" using i by (simp add: barrier_off_def split: if_splits)
  then have "set (take i (barrier_acts b it0 n q)) \<subseteq> set ?A" unfolding s take_append by (auto dest: in_set_takeD)
  then obtain j where "j < k" "m = rd_peer it0 n j q" using c by (auto simp: exchange_acts_def split: if_splits)
  then show False using rd_peer_inj [OF n q, of j k it0 it0'] k m(2) by simp
qed

subsection \<open>A rank that has finished knows that all have begun\<close>

definition barrier_script :: "c_int \<Rightarrow> (ucg_rank_t \<Rightarrow> c_buf) \<Rightarrow> (ucg_rank_t \<Rightarrow> ucg_algo_rd_iter) \<Rightarrow> ucg_rank_t \<Rightarrow> coll_act list" where
  "barrier_script n b it0 r = barrier_acts (b r) (it0 r) n r"

lemma take_append_le: "i \<le> length xs \<Longrightarrow> take i (xs @ ys) = take i xs"
  by simp

text \<open>A receive that has been waited for.\<close>

lemma cut_received:
  assumes "consistent_cut N S pos" and "r \<in> N" "p \<in> N" and "i < pos r" "S r ! i = Wait" and "j < i" "i < length (S r)" "S r ! j = Rcv p b"
  shows "0 < snd_count r (take (pos p) (S p))"
proof -
  have "S r ! j \<in> set (take i (S r))" using assms(6,7) by (auto simp: in_set_conv_nth intro: exI [where x = j])
  then have "rcv_count p (take i (S r)) \<noteq> 0" using assms(8) unfolding rcv_count_0 by metis
  moreover have "rcv_count p (take i (S r)) \<le> snd_count r (take (pos p) (S p))"
    using assms(1-5) by (simp add: consistent_cut_def)
  ultimately show ?thesis by linarith
qed

lemma extra_of_proxy:
  assumes "rd_args n" and "r \<in> rd_members n" and "rd_proxy n r"
  shows "r - 1 \<in> {0..<n}" and "rd_extra n (r - 1)"
  using assms by (auto simp: rd_members_def rd_proxy_def rd_extra_def elim!: oddE)

lemma proxy_of_extra:
  assumes "rd_args n" and "r \<in> {0..<n}" and "rd_extra n r"
  shows "r + 1 \<in> rd_members n" and "rd_proxy n (r + 1)"
proof -
  have "r < rd_proxies n * 2" "even r" using assms(3) by (simp_all add: rd_extra_def)
  then have "r + 1 < rd_proxies n * 2" by (auto elim!: evenE)
  then show "r + 1 \<in> rd_members n" "rd_proxy n (r + 1)"
    using rd_proxies_half [OF assms(1)] assms(2) \<open>even r\<close> by (auto simp: rd_members_def rd_extra_def rd_proxy_def)
qed

text \<open>After \<open>k\<close> rounds all members that can have contributed have begun, and so have the extra ranks behind them.\<close>

lemma rounds_begun:
  assumes n: "rd_args n" and cut: "consistent_cut {0..<n} (barrier_script n b it0) pos"
  shows "k \<le> rd_rounds n \<Longrightarrow> m \<in> rd_members n \<Longrightarrow> barrier_off n m + 3 * k \<le> pos m \<Longrightarrow>
    x \<in> rd.reached (itx, n) k m \<Longrightarrow> (x = m \<or> 0 < pos x) \<and> (rd_proxy n x \<longrightarrow> 0 < pos (x - 1))"
proof (induction k arbitrary: m)
  case 0
  have x: "x = m" using rd.reached_0 [of "(itx, n)" m] 0 n by simp
  have "0 < pos (m - 1)" if p: "rd_proxy n m"
  proof -
    have m: "\<not> rd_extra n m" "m \<in> {0..<n}" using 0(2) by (auto simp: rd_members_def)
    have e: "m - 1 \<in> {0..<n}" using extra_of_proxy [OF n 0(2) p] by simp
    have S: "barrier_script n b it0 m = Rcv (m - 1) (b m) # Wait # rd_round_acts (b m) (it0 m) n m 0 @ [Snd (m - 1) (b m), Wait]"
      using m p by (simp add: barrier_script_def barrier_acts_def)
    have "0 < snd_count m (take (pos (m - 1)) (barrier_script n b it0 (m - 1)))"
      using 0(3) p by (intro cut_received [OF cut m(2) e, where i = 1 and j = 0 and b = "b m"]) (auto simp: S barrier_off_def)
    then show ?thesis by (cases "pos (m - 1) = 0") auto
  qed
  then show ?case using x by simp
next
  case (Suc k)
  have k: "k < rd_rounds n" using Suc.prems(1) by simp
  let ?q = "rd_peer itx n k m"
  have peer: "?q = rd_peer (it0 m) n k m" using rd_peer_base [OF n Suc.prems(2) k] by simp
  have q: "?q \<in> rd_members n" using rd.peer_member [of "(itx, n)" k m] n k Suc.prems(2) by simp
  have rev: "rd_peer (it0 ?q) n k ?q = m"
    using rd.peer_symmetric(1) [of "(itx, n)" k m] rd_peer_base [OF n q k] n k Suc.prems(2) by simp
  have mem: "x \<in> {0..<n}" if "x \<in> rd_members n" for x using that by (auto simp: rd_members_def)
  let ?i = "barrier_off n m + 3 * k + 2"
  note at = barrier_acts_round [OF Suc.prems(2) k, of "b m" "it0 m", folded barrier_script_def]
  have "0 < snd_count m (take (pos ?q) (barrier_script n b it0 ?q))"
    using Suc.prems(3) at unfolding peer [symmetric]
    by (intro cut_received [OF cut mem [OF Suc.prems(2)] mem [OF q], where i = ?i and j = "barrier_off n m + 3 * k + 1" and b = "b m"]) auto
  then have "snd_count m (take (pos ?q) (barrier_acts (b ?q) (it0 ?q) n ?q)) \<noteq> 0" by (simp add: barrier_script_def)
  then have pq: "barrier_off n ?q + 3 * k < pos ?q"
  proof -
    have "\<not> pos ?q \<le> barrier_off n ?q + 3 * k"
    proof
      assume "pos ?q \<le> barrier_off n ?q + 3 * k"
      from no_early_send [OF n q k Suc.prems(2) rev this, of "b ?q" "it0 ?q"]
      show False using \<open>snd_count m (take (pos ?q) (barrier_acts (b ?q) (it0 ?q) n ?q)) \<noteq> 0\<close> by contradiction
    qed
    then show ?thesis by simp
  qed
  have "x \<in> rd.reached (itx, n) k m \<or> x \<in> rd.reached (itx, n) k ?q"
    using rd.reached_Suc(1) [of "(itx, n)" k m] n k Suc.prems(2,4) by auto
  then show ?case
  proof
    assume "x \<in> rd.reached (itx, n) k m"
    then show ?thesis using Suc.IH [of m] Suc.prems k by auto
  next
    assume "x \<in> rd.reached (itx, n) k ?q"
    then show ?thesis using Suc.IH [OF _ q] pq k by auto
  qed
qed

lemma barrier_cut:
  assumes n: "rd_args n" and cut: "consistent_cut {0..<n} (barrier_script n b it0) pos"
    and r: "r \<in> {0..<n}" "pos r = length (barrier_script n b it0 r)" and s: "s \<in> {0..<n}"
  shows "s = r \<or> 0 < pos s"
proof -
  have all: "s = m \<or> 0 < pos s" if m: "m \<in> rd_members n" "barrier_off n m + 3 * rd_rounds n \<le> pos m" for m
  proof -
    have b: "(x = m \<or> 0 < pos x) \<and> (rd_proxy n x \<longrightarrow> 0 < pos (x - 1))" if "x \<in> rd_members n" for x
      using rounds_begun [OF n cut order_refl m, of x "it0 0"] rd.reached_all [of "(it0 0, n)" m] n m(1) that by simp
    show ?thesis
    proof (cases "s \<in> rd_members n")
      case True
      then show ?thesis using b [of s] by simp
    next
      case False
      then have "rd_extra n s" using s by (simp add: rd_members_def)
      from proxy_of_extra [OF n s this] b [of "s + 1"] show ?thesis by simp
    qed
  qed
  show ?thesis
  proof (cases "rd_extra n r")
    case False
    then have m: "r \<in> rd_members n" using r(1) by (simp add: rd_members_def)
    have "barrier_off n r + 3 * rd_rounds n \<le> pos r" unfolding r(2)
      using False by (simp add: barrier_script_def barrier_acts_def length_rd_round_acts barrier_off_def)
    then show ?thesis by (rule all [OF m])
  next
    case True
    note p = proxy_of_extra [OF n r(1) True]
    have S: "barrier_script n b it0 r = [Snd (r + 1) (b r), Rcv (r + 1) (b r), Wait]"
      using True by (simp add: barrier_script_def barrier_acts_def)
    have mem: "r + 1 \<in> {0..<n}" using p by (auto simp: rd_members_def)
    have "0 < snd_count r (take (pos (r + 1)) (barrier_script n b it0 (r + 1)))"
      by (rule cut_received [OF cut r(1) mem, where i = 2 and j = 1 and b = "b r"]) (auto simp: r(2) S)
    moreover have "snd_count r (take i (barrier_script n b it0 (r + 1))) = 0" if "i \<le> 2 + 3 * rd_rounds n" for i
    proof -
      have "barrier_script n b it0 (r + 1) =
          ([Rcv r (b (r + 1)), Wait] @ rd_round_acts (b (r + 1)) (it0 (r + 1)) n (r + 1) 0) @ [Snd r (b (r + 1)), Wait]"
        using p by (simp add: barrier_script_def barrier_acts_def rd_members_def)
      moreover have "i \<le> length ([Rcv r (b (r + 1)), Wait] @ rd_round_acts (b (r + 1)) (it0 (r + 1)) n (r + 1) 0)"
        using that by (simp add: length_rd_round_acts)
      ultimately have "set (take i (barrier_script n b it0 (r + 1))) \<subseteq>
          set ([Rcv r (b (r + 1)), Wait] @ rd_round_acts (b (r + 1)) (it0 (r + 1)) n (r + 1) 0)"
        using take_append_le set_take_subset by metis
      moreover have "Snd r c \<notin> set (rd_round_acts (b (r + 1)) (it0 (r + 1)) n (r + 1) 0)" for c
      proof
        assume "Snd r c \<in> set (rd_round_acts (b (r + 1)) (it0 (r + 1)) n (r + 1) 0)"
        then obtain i where "i < rd_rounds n" "r = rd_peer (it0 (r + 1)) n i (r + 1)" by (auto simp: rd_round_acts_def exchange_acts_def)
        then have "r \<in> rd_members n" using rd.peer_member [of "(it0 (r + 1), n)" i "r + 1"] n p(1) by simp
        then show False using True by (simp add: rd_members_def)
      qed
      ultimately show ?thesis unfolding snd_count_0 by auto
    qed
    ultimately have "2 + 3 * rd_rounds n < pos (r + 1)" by (metis not_le less_irrefl)
    then show ?thesis using all [OF p(1)] p(2) mem by (cases "s = r + 1") (auto simp: barrier_off_def)
  qed
qed

subsection \<open>All ranks together\<close>


text \<open>An operation that has been made for rank \<open>r\<close> of \<open>n\<close>, or has run before, under the request id \<open>tag\<close>.\<close>

definition barrier_ready :: "c_int \<Rightarrow> c_int \<Rightarrow> ucg_algo_rd_iter \<Rightarrow> ucg_rank_t \<Rightarrow> ucx_op \<Rightarrow> bool" where
  "barrier_ready n tag it0 r op \<longleftrightarrow> op_id op = tag \<and> (\<exists>k. uo_rd_iter (op_priv op) = rd_at it0 n r k)"

lemma barrier_peers:
  assumes n: "rd_args n" and r: "r \<in> {0..<n}"
  shows "peers_of (barrier_acts b it0 n r) \<subseteq> {0..<n}"
proof -
  have rounds: "peers_of (rd_round_acts b it0 n r 0) \<subseteq> {0..<n}" if "r \<in> rd_members n"
  proof
    fix p assume "p \<in> peers_of (rd_round_acts b it0 n r 0)"
    then obtain i where "i < rd_rounds n" "p = rd_peer it0 n i r"
      by (auto simp: peers_of_def rd_round_acts_def exchange_acts_def)
    then show "p \<in> {0..<n}" using rd.peer_member [of "(it0, n)" i r] n that by (auto simp: rd_members_def)
  qed
  show ?thesis
  proof (cases "rd_extra n r")
    case True
    then show ?thesis using proxy_of_extra [OF n r True] by (auto simp: barrier_acts_def rd_members_def)
  next
    case False
    then have m: "r \<in> rd_members n" using r by (simp add: rd_members_def)
    then show ?thesis using rounds [OF m] extra_of_proxy(1) [OF n m] False by (auto simp: barrier_acts_def)
  qed
qed

interpretation barrier: scripted_coll
  "\<lambda>(n, tag, it0, E :: ucg_rank_t \<Rightarrow> 'w coll_env). rd_args n" "\<lambda>(n, tag, it0, E). {0..<n}" "\<lambda>(n, tag, it0, E). E" "\<lambda>(n, tag, it0, E). tag"
  "\<lambda>(n, tag, it0, E). barrier_script n (\<lambda>r. no_data (E r)) it0" "\<lambda>_ _. 0" "\<lambda>(n, tag, it0, E) r. barrier_at tag (it0 r) n r"
  "\<lambda>(n, tag, it0, E) r. barrier_ready n tag (it0 r) r"
  ucg_planc_ucx_barrier_rd_op_trigger ucg_planc_ucx_barrier_rd_op_progress
proof (unfold_locales, goal_cases)
  case (1 g r)
  then show ?case using barrier_peers by (auto simp: barrier_script_def split: prod.splits)
next
  case (3 g r i op)
  obtain n tag it0 E where g: "g = (n, tag, it0, E)" by (cases g)
  from 3 show ?case using barrier_progress_follows [of n r tag "it0 r" i op "E r"] unfolding g barrier_script_def by auto
next
  case (4 g r op w st op' w')
  then show ?case by (auto simp: ucg_planc_ucx_barrier_rd_op_progress_def progress_end_def split: prod.splits)
next
  case (5 g r op)
  obtain n tag it0 E where g: "g = (n, tag, it0, E)" by (cases g)
  from 5 show ?case using barrier_trigger_starts [of n r op "it0 r" _ "E r"] unfolding g by (force simp: barrier_ready_def)
qed simp

definition barrier_idle ::
    "c_int \<Rightarrow> c_int \<Rightarrow> (ucg_rank_t \<Rightarrow> ucg_algo_rd_iter) \<Rightarrow> ('w \<Rightarrow> bool) \<Rightarrow> ('w \<Rightarrow> chan_count) \<Rightarrow> ('w \<Rightarrow> chan_count) \<Rightarrow> 'w coll_conf \<Rightarrow> bool" where
  "barrier_idle n tag it0 ok sent rcvd c \<longleftrightarrow> ok (cf_world c) \<and>
     (\<forall>r \<in> {0..<n}. cf_on c r = None \<and> barrier_ready n tag (it0 r) r (cf_op c r)) \<and>
     (\<forall>r \<in> {0..<n}. \<forall>p \<in> {0..<n}. sent (cf_world c) r p = 0 \<and> rcvd (cf_world c) r p = 0)"

text \<open>
  C5: no rank leaves the recursive doubling barrier before every rank has entered it: in any run of \<open>n\<close> ranks, with
  progress calls in any order and any number and other traffic in between, over any p2p layer whose successful tests mean that the
  messages received so far have been sent, an operation with status \<open>UCG_OK\<close> implies that the operations of all ranks have
  been triggered, whatever the number of ranks is.
\<close>

theorem barrier_rd_safe:
  assumes "rd_args n" and "chan_promises {0..<n} E tag ok sent rcvd" and "barrier_idle n tag it0 ok sent rcvd c0"
    and "coll_run {0..<n} E ucg_planc_ucx_barrier_rd_op_trigger ucg_planc_ucx_barrier_rd_op_progress (\<lambda>w. (ok w, sent w, rcvd w)) c0 c"
    and "r \<in> {0..<n}" and "cf_on c r = Some UCG_OK" and "op_status (cf_op c r) = UCG_OK" and "s \<in> {0..<n}"
  shows "cf_on c s \<noteq> None"
proof -
  let ?g = "(n, tag, it0, E)"
  have idle: "barrier.coll_idle ?g c0" using assms(3) by (simp add: barrier.coll_idle_def barrier_idle_def)
  have zero: "ok (cf_world c0) \<and> (\<forall>r \<in> {0..<n}. \<forall>p \<in> {0..<n}. sent (cf_world c0) r p = 0 \<and> rcvd (cf_world c0) r p = 0)" using assms(3) by (simp add: barrier_idle_def)
  obtain pos where p: "consistent_cut {0..<n} (barrier_script n (\<lambda>r. no_data (E r)) it0) pos"
    "\<And>r. r \<in> {0..<n} \<Longrightarrow> 0 < pos r \<Longrightarrow> cf_on c r \<noteq> None"
    "\<And>r. r \<in> {0..<n} \<Longrightarrow> cf_on c r = Some UCG_OK \<Longrightarrow> op_status (cf_op c r) = UCG_OK \<Longrightarrow>
       pos r = length (barrier_script n (\<lambda>r. no_data (E r)) it0 r)"
    using barrier.run_finished [of ?g ok sent rcvd c0 c] assms(1,2,4) idle zero by auto
  from barrier_cut [OF assms(1) p(1) assms(5) p(3) [OF assms(5-7)] assms(8)] show ?thesis using p(2) assms(6,8) by auto
qed

text \<open>Three ranks: rank 0 is extra, rank 1 its proxy, rank 2 takes part in the rounds.\<close>

definition three_ops :: "ucg_rank_t \<Rightarrow> ucx_op" where
  "three_ops r = op_set_id 0x800001 (the (fst (ucg_planc_ucx_barrier_rd_op_new (count_env 3 r) 1 2 blank_coll
     (coll_args_zero UCG_COLL_TYPE_BARRIER) \<lparr>h_outcomes = [], h_live = 0\<rparr> (\<lambda>_ _. 0, \<lambda>_ _. 0))))"

definition three_start :: "count_net coll_conf" where
  "three_start = \<lparr>cf_op = three_ops, cf_on = (\<lambda>_. None), cf_world = (\<lambda>_ _. 0, \<lambda>_ _. 0)\<rparr>"

definition three_run :: "(bool \<times> ucg_rank_t) list \<Rightarrow> count_net coll_conf option" where
  "three_run ms = coll_play (count_env 3) ucg_planc_ucx_barrier_rd_op_trigger ucg_planc_ucx_barrier_rd_op_progress ms three_start"

definition three_moves :: "(bool \<times> ucg_rank_t) list" where
  "three_moves = [(True, 2), (False, 2), (True, 1), (True, 0), (False, 1), (False, 2), (False, 0)]"

declare ucg_planc_ucx_barrier_rd_op_base.simps [code]

lemma three_run_value:
  "case three_run three_moves of None \<Rightarrow> False | Some c \<Rightarrow> cf_on c 0 = Some UCG_OK \<and> op_status (cf_op c 0) = UCG_OK"
  by code_simp

lemma three_run_is_run:
  assumes "three_run ms = Some c" and "snd ` set ms \<subseteq> {0..<3}"
  shows "coll_run {0..<3} (count_env 3) ucg_planc_ucx_barrier_rd_op_trigger ucg_planc_ucx_barrier_rd_op_progress
    (\<lambda>w. (True, fst w, snd w)) three_start c"
  by (rule coll_play_run [OF assms(2) coll_run.start assms(1) [unfolded three_run_def]])

lemma three_idle: "barrier_idle 3 0x800001 (\<lambda>_. rd_blank) (\<lambda>_. True) fst snd three_start"
proof -
  have "barrier_ready 3 0x800001 rd_blank r (three_ops r)" for r
    by (auto simp: barrier_ready_def three_ops_def ucg_planc_ucx_barrier_rd_op_new_def ucx_op_new_def heap_alloc_def
      ucg_plan_op_ctor_def ucg_request_ctor_def ucg_planc_ucx_op_init_def blank_coll_def rd_at_def count_env_def op_set_id_def
      intro: exI [where x = 0])
  then show ?thesis by (simp add: barrier_idle_def three_start_def)
qed

lemma three_promises: "chan_promises {0..<3} (count_env 3) tag (\<lambda>_. True) fst snd"
  using count_promises [of 3] by simp

lemma barrier_rd_safe_witness:
  "\<exists>c. three_run three_moves = Some c \<and> op_status (cf_op c 0) = UCG_OK \<and> cf_on c 2 \<noteq> None"
proof -
  obtain c where c: "three_run three_moves = Some c" "cf_on c 0 = Some UCG_OK" "op_status (cf_op c 0) = UCG_OK"
    using three_run_value by (auto split: option.splits)
  have "cf_on c 2 \<noteq> None"
    by (rule barrier_rd_safe [OF _ three_promises three_idle three_run_is_run [OF c(1)], where r = 0 and s = 2])
      (simp_all add: rd_args_def three_moves_def c)
  then show ?thesis using c by blast
qed

end
