(* ===== verification/Barrier_Live.thy ===== *)
theory Barrier_Live
  imports Barrier_Spec
begin

text \<open>The ranks of a recursive doubling barrier do not wait for each other in a circle.\<close>

subsection \<open>Where the actions stand\<close>

lemma barrier_acts_send:
  assumes r: "r \<in> rd_members n" and k: "k < rd_rounds n"
  shows "barrier_acts b it0 n r ! (barrier_off n r + 3 * k) = Snd (rd_peer it0 n k r) b"
proof -
  define A where "A = (if rd_proxy n r then [Rcv (r - 1) b, Wait] else []) @ concat (map (\<lambda>i. exchange_acts b (rd_peer it0 n i r)) [0..<k])"
  define Z where "Z = rd_round_acts b it0 n r (Suc k) @ (if rd_proxy n r then [Snd (r - 1) b, Wait] else [])"
  have s: "barrier_acts b it0 n r = A @ [Snd (rd_peer it0 n k r) b, Rcv (rd_peer it0 n k r) b, Wait] @ Z"
    using barrier_acts_split [OF r, of k b it0] k rd_round_acts_step [OF k, of b it0 r] by (simp add: exchange_acts_def A_def Z_def)
  have l: "length A = barrier_off n r + 3 * k" by (simp add: barrier_off_def A_def)
  show ?thesis unfolding s l [symmetric] by (simp add: nth_append)
qed

lemma barrier_acts_length:
  assumes "r \<in> rd_members n"
  shows "length (barrier_acts b it0 n r) = 3 * rd_rounds n + 2 * barrier_off n r"
  using assms by (simp add: barrier_acts_def rd_members_def length_rd_round_acts barrier_off_def)

lemma barrier_acts_tail:
  assumes "r \<in> rd_members n" and "rd_proxy n r"
  shows "barrier_acts b it0 n r ! (2 + 3 * rd_rounds n) = Snd (r - 1) b"
    and "barrier_acts b it0 n r ! (2 + 3 * rd_rounds n + 1) = Wait"
proof -
  define A where "A = [Rcv (r - 1) b, Wait] @ rd_round_acts b it0 n r 0"
  have s: "barrier_acts b it0 n r = A @ [Snd (r - 1) b, Wait]" using assms by (simp add: barrier_acts_def rd_members_def A_def)
  have l: "length A = 2 + 3 * rd_rounds n" by (simp add: A_def length_rd_round_acts)
  show "barrier_acts b it0 n r ! (2 + 3 * rd_rounds n) = Snd (r - 1) b"
    "barrier_acts b it0 n r ! (2 + 3 * rd_rounds n + 1) = Wait"
    unfolding s l [symmetric] by (simp_all add: nth_append)
qed

text \<open>The receives of a member are those of the rounds and the first one of a proxy.\<close>

lemma barrier_receives:
  assumes r: "r \<in> rd_members n" and j: "j < length (barrier_acts b it0 n r)" "barrier_acts b it0 n r ! j = Rcv p c"
  obtains "rd_proxy n r" and "j = 0" and "p = r - 1"
  | k where "k < rd_rounds n" and "j = barrier_off n r + 3 * k + 1" and "p = rd_peer it0 n k r"
proof -
  consider "j < barrier_off n r" | k where "j = barrier_off n r + 3 * k" "k < rd_rounds n"
    | k where "j = barrier_off n r + 3 * k + 1" "k < rd_rounds n" | k where "j = barrier_off n r + 3 * k + 2" "k < rd_rounds n"
    | "barrier_off n r + 3 * rd_rounds n \<le> j"
  proof (cases "j < barrier_off n r \<or> barrier_off n r + 3 * rd_rounds n \<le> j")
    case False
    define i where "i = j - barrier_off n r"
    have j': "j = barrier_off n r + i" "i < 3 * rd_rounds n" using False by (auto simp: i_def)
    then have k: "i div 3 < rd_rounds n" by (simp add: less_mult_imp_div_less)
    have "i = 3 * (i div 3) \<or> i = 3 * (i div 3) + 1 \<or> i = 3 * (i div 3) + 2" by presburger
    then show thesis using that(2-4) [OF _ k] j'(1) by (elim disjE) (metis add.assoc)+
  qed (use that(1,5) in blast)
  then show thesis
  proof cases
    case 1
    then have p: "rd_proxy n r" by (simp add: barrier_off_def split: if_splits)
    have "barrier_acts b it0 n r = Rcv (r - 1) b # Wait # rd_round_acts b it0 n r 0 @ [Snd (r - 1) b, Wait]"
      using r p by (simp add: barrier_acts_def rd_members_def)
    moreover have "j = 0 \<or> j = 1" using 1 p by (simp add: barrier_off_def) linarith
    ultimately show ?thesis using that(1) p j(2) by auto
  next
    case (2 k)
    then show ?thesis using j(2) barrier_acts_send [OF r 2(2), of b it0] by simp
  next
    case (3 k)
    then show ?thesis using that(2) [OF 3(2,1)] j(2) barrier_acts_round(2) [OF r 3(2), of b it0] by simp
  next
    case (4 k)
    then show ?thesis using j(2) barrier_acts_round(1) [OF r 4(2), of b it0] by simp
  next
    case 5
    then have p: "rd_proxy n r" using j(1) barrier_acts_length [OF r, of b it0] by (simp add: barrier_off_def split: if_splits)
    then have "j = 2 + 3 * rd_rounds n \<or> j = 2 + 3 * rd_rounds n + 1"
      using 5 j(1) barrier_acts_length [OF r, of b it0] by (simp add: barrier_off_def) linarith
    then show ?thesis using barrier_acts_tail [OF r p, of b it0] j(2) by auto
  qed
qed

lemma no_early_receive:
  assumes n: "rd_args n" and q: "q \<in> rd_members n" and k: "k < rd_rounds n"
  shows "rcv_count (rd_peer it0 n k q) (take (barrier_off n q + 3 * k) (barrier_acts b it0 n q)) = 0"
  unfolding rcv_count_0
proof (intro allI notI)
  fix c assume c: "Rcv (rd_peer it0 n k q) c \<in> set (take (barrier_off n q + 3 * k) (barrier_acts b it0 n q))"
  let ?A = "(if rd_proxy n q then [Rcv (q - 1) b, Wait] else []) @ concat (map (\<lambda>i. exchange_acts b (rd_peer it0 n i q)) [0..<k])"
  have s: "barrier_acts b it0 n q = ?A @ rd_round_acts b it0 n q k @ (if rd_proxy n q then [Snd (q - 1) b, Wait] else [])"
    using barrier_acts_split [OF q, of k b it0] k by simp
  have "length ?A = barrier_off n q + 3 * k" by (simp add: barrier_off_def)
  then have "take (barrier_off n q + 3 * k) (barrier_acts b it0 n q) = ?A" unfolding s take_append by simp
  then consider "rd_proxy n q" "rd_peer it0 n k q = q - 1" | j where "j < k" "rd_peer it0 n k q = rd_peer it0 n j q"
    using c by (auto simp: exchange_acts_def split: if_splits)
  then show False
  proof cases
    case 1
    then show False using rd.peer_member [of "(it0, n)" k q] n q k extra_of_proxy(2) [OF n q 1(1)] by (simp add: rd_members_def)
  next
    case (2 j)
    then show False using rd_peer_inj [OF n q, of k j it0 it0] k by simp
  qed
qed

subsection \<open>The depth of a test\<close>

definition barrier_depth :: "c_int \<Rightarrow> ucg_rank_t \<Rightarrow> nat \<Rightarrow> nat" where
  "barrier_depth n r i =
     (if rd_extra n r then rd_rounds n + 2 else if i < barrier_off n r then 1 else 2 + (i - barrier_off n r) div 3)"

lemma barrier_depth_before:
  assumes r: "r \<in> rd_members n" and "l < barrier_off n r + 3 * k"
  shows "barrier_depth n r l < 2 + k"
  using assms by (auto simp: barrier_depth_def rd_members_def less_mult_imp_div_less)

lemma barrier_sender:
  assumes n: "rd_args n" and r: "r \<in> {0..<n}" and i: "i < length (barrier_script n b it0 r)" "barrier_script n b it0 r ! i = Wait"
    and j: "j < i" "barrier_script n b it0 r ! j = Rcv p c"
  shows "\<exists>i'. rcv_count p (take (Suc j) (barrier_script n b it0 r)) \<le> snd_count r (take i' (barrier_script n b it0 p)) \<and>
    (\<forall>l < i'. l < length (barrier_script n b it0 p) \<longrightarrow> barrier_script n b it0 p ! l = Wait \<longrightarrow> barrier_depth n p l < barrier_depth n r i)"
proof (cases "rd_extra n r")
  case True
  note p1 = proxy_of_extra [OF n r True]
  have S: "barrier_script n b it0 r = [Snd (r + 1) (b r), Rcv (r + 1) (b r), Wait]"
    using True by (simp add: barrier_script_def barrier_acts_def)
  have "i = 2" "p = r + 1" "j = 1" using i j unfolding S by (auto simp: nth_Cons split: nat.splits)
  moreover have "1 \<le> snd_count r (take (2 + 3 * rd_rounds n + 1) (barrier_script n b it0 (r + 1)))"
    using barrier_acts_tail(1) [OF p1, of "b (r + 1)" "it0 (r + 1)"] barrier_acts_length [OF p1(1), of "b (r + 1)" "it0 (r + 1)"] p1(2)
    by (intro snd_count_pos [where i = "2 + 3 * rd_rounds n"]) (simp_all add: barrier_script_def barrier_off_def)
  moreover have "barrier_depth n (r + 1) l < barrier_depth n r 2"
    if "l < 2 + 3 * rd_rounds n + 1" "barrier_script n b it0 (r + 1) ! l = Wait" for l
  proof -
    have "l \<noteq> 2 + 3 * rd_rounds n" using that(2) barrier_acts_tail(1) [OF p1, of "b (r + 1)" "it0 (r + 1)"] by (auto simp: barrier_script_def)
    then have "l < barrier_off n (r + 1) + 3 * rd_rounds n" using that(1) p1(2) by (simp add: barrier_off_def)
    from barrier_depth_before [OF p1(1) this] show ?thesis using True by (simp add: barrier_depth_def)
  qed
  ultimately show ?thesis unfolding S
    by (intro exI [where x = "2 + 3 * rd_rounds n + 1"]) (simp add: numeral_eq_Suc)
next
  case False
  then have m: "r \<in> rd_members n" using r by (simp add: rd_members_def)
  have jl: "j < length (barrier_acts (b r) (it0 r) n r)" "barrier_acts (b r) (it0 r) n r ! j = Rcv p c"
    using i j by (simp_all add: barrier_script_def)
  from m jl show ?thesis
  proof (cases rule: barrier_receives)
    case 1
    note e = extra_of_proxy [OF n m 1(1)]
    have S: "barrier_script n b it0 r = Rcv (r - 1) (b r) # Wait # rd_round_acts (b r) (it0 r) n r 0 @ [Snd (r - 1) (b r), Wait]"
      using m 1 by (simp add: barrier_script_def barrier_acts_def rd_members_def)
    have P: "barrier_script n b it0 (r - 1) = [Snd r (b (r - 1)), Rcv r (b (r - 1)), Wait]"
      using e by (simp add: barrier_script_def barrier_acts_def)
    show ?thesis using 1 P S by (intro exI [where x = 1]) simp
  next
    case (2 k)
    have pm: "p \<in> rd_members n" using rd.peer_member [of "(it0 r, n)" k r] n m 2 by simp
    have rev: "rd_peer (it0 p) n k p = r"
      using rd.peer_symmetric(1) [of "(it0 r, n)" k r] rd_peer_base [OF n pm 2(1), of "it0 p"] rd_peer_base [OF n pm 2(1), of "it0 r"] n m 2 by simp
    note at = barrier_acts_round [OF pm 2(1), of "b p" "it0 p"]
    let ?i' = "barrier_off n p + 3 * k + 1"
    have send: "barrier_acts (b p) (it0 p) n p ! (barrier_off n p + 3 * k) = Snd r (b p)"
      using barrier_acts_send [OF pm 2(1), of "b p" "it0 p"] rev by simp
    have "rcv_count p (take (Suc j) (barrier_acts (b r) (it0 r) n r)) \<le> 1"
    proof -
      let ?S = "barrier_acts (b r) (it0 r) n r" and ?m = "barrier_off n r + 3 * k"
      note at' = barrier_acts_round [OF m 2(1), of "b r" "it0 r"] barrier_acts_send [OF m 2(1), of "b r" "it0 r"]
      have "take (Suc j) ?S = take ?m ?S @ [?S ! ?m, ?S ! (?m + 1)]" using 2(2) at'(3) by (simp add: take_Suc_conv_app_nth)
      then show ?thesis using no_early_receive [OF n m 2(1), of "it0 r" "b r"] 2(3) at' by simp
    qed
    moreover have "1 \<le> snd_count r (take ?i' (barrier_acts (b p) (it0 p) n p))"
      by (rule snd_count_pos [OF _ _ send]) (use at(3) in simp_all)
    moreover have "barrier_depth n p l < barrier_depth n r i"
      if "l < ?i'" "barrier_acts (b p) (it0 p) n p ! l = Wait" for l
    proof -
      have "l \<noteq> barrier_off n p + 3 * k" using that(2) send by auto
      then have "l < barrier_off n p + 3 * k" using that(1) by simp
      from barrier_depth_before [OF pm this] have "barrier_depth n p l < 2 + k" .
      moreover have "k \<le> (i - barrier_off n r) div 3" using j(1) 2(2) by (simp add: less_eq_div_iff_mult_less_eq)
      moreover have "barrier_off n r \<le> i" using j(1) 2(2) by simp
      ultimately show ?thesis using False by (simp add: barrier_depth_def)
    qed
    ultimately show ?thesis by (intro exI [where x = ?i']) (auto simp: barrier_script_def)
  qed
qed

interpretation barrier: timed_coll
  "\<lambda>(n, tag, it0, E :: ucg_rank_t \<Rightarrow> 'w coll_env). rd_args n" "\<lambda>(n, tag, it0, E). {0..<n}" "\<lambda>(n, tag, it0, E). E" "\<lambda>(n, tag, it0, E). tag"
  "\<lambda>(n, tag, it0, E). barrier_script n (\<lambda>r. no_data (E r)) it0" "\<lambda>_ _. 0" "\<lambda>(n, tag, it0, E) r. barrier_at tag (it0 r) n r"
  "\<lambda>(n, tag, it0, E) r. barrier_ready n tag (it0 r) r"
  ucg_planc_ucx_barrier_rd_op_trigger ucg_planc_ucx_barrier_rd_op_progress "\<lambda>(n, tag, it0, E). barrier_depth n"
proof (unfold_locales, goal_cases)
  case (1 g r i j p b)
  then show ?case using barrier_sender by (auto split: prod.splits)
qed

text \<open>
  C12: the barrier does not deadlock: when all ranks have been triggered, none has failed and one is still in
  progress, then there is one in progress for which every message it has posted a receive for has been sent, so that it goes on as
  soon as the p2p layer has delivered them.
\<close>

theorem barrier_rd_no_deadlock:
  assumes "rd_args n" and "chan_promises {0..<n} E tag ok sent rcvd" and "barrier_idle n tag it0 ok sent rcvd c0"
    and "coll_run {0..<n} E ucg_planc_ucx_barrier_rd_op_trigger ucg_planc_ucx_barrier_rd_op_progress (\<lambda>w. (ok w, sent w, rcvd w)) c0 c"
    and "\<And>r. r \<in> {0..<n} \<Longrightarrow> cf_on c r = Some UCG_OK"
    and "\<And>r. r \<in> {0..<n} \<Longrightarrow> op_status (cf_op c r) = UCG_OK \<or> op_status (cf_op c r) = UCG_INPROGRESS"
    and "q \<in> {0..<n}" and "op_status (cf_op c q) = UCG_INPROGRESS"
  shows "\<exists>r \<in> {0..<n}. op_status (cf_op c r) = UCG_INPROGRESS \<and>
    (\<forall>p \<in> {0..<n}. rcvd (cf_world c) r p \<le> sent (cf_world c) p r)"
proof -
  let ?g = "(n, tag, it0, E)"
  have idle: "barrier.coll_idle ?g c0" "ok (cf_world c0) \<and> (\<forall>r \<in> {0..<n}. \<forall>p \<in> {0..<n}. sent (cf_world c0) r p = 0 \<and> rcvd (cf_world c0) r p = 0)"
    using assms(3) by (simp_all add: barrier.coll_idle_def barrier_idle_def)
  obtain r where "r \<in> {0..<n}" "op_status (cf_op c r) = UCG_INPROGRESS" "\<And>p. p \<in> {0..<n} \<Longrightarrow> rcvd (cf_world c) r p \<le> sent (cf_world c) p r"
    by (rule barrier.no_deadlock [of ?g ok sent rcvd c0 c q]) (use assms idle in simp_all)
  then show ?thesis by blast
qed

text \<open>Three ranks that have been triggered and are all in progress.\<close>

definition three_waiting :: "(bool \<times> ucg_rank_t) list" where
  "three_waiting = [(True, 1), (True, 2), (True, 0)]"

lemma three_waiting_value:
  "case three_run three_waiting of None \<Rightarrow> False
   | Some c \<Rightarrow> list_all (\<lambda>r. cf_on c r = Some UCG_OK \<and> op_status (cf_op c r) = UCG_INPROGRESS) [0, 1, 2]"
  by code_simp

lemma barrier_rd_no_deadlock_witness:
  "\<exists>c. three_run three_waiting = Some c \<and> (\<exists>r \<in> {0..<3}. op_status (cf_op c r) = UCG_INPROGRESS \<and>
     (\<forall>p \<in> {0..<3}. snd (cf_world c) r p \<le> fst (cf_world c) p r))"
proof -
  obtain c where c: "three_run three_waiting = Some c"
    "\<And>r. r \<in> {0, 1, 2} \<Longrightarrow> cf_on c r = Some UCG_OK \<and> op_status (cf_op c r) = UCG_INPROGRESS"
    using three_waiting_value by (auto split: option.splits)
  have N: "{0..<3} = {0, 1, 2::int}" by auto
  have "\<exists>r \<in> {0..<3}. op_status (cf_op c r) = UCG_INPROGRESS \<and> (\<forall>p \<in> {0..<3}. snd (cf_world c) r p \<le> fst (cf_world c) p r)"
    by (rule barrier_rd_no_deadlock [OF _ three_promises three_idle three_run_is_run [OF c(1)], where q = 0])
      (use c(2) in \<open>auto simp: rd_args_def three_waiting_def N\<close>)
  then show ?thesis using c(1) by blast
qed

end
