(* ===== verification/Bcast_Kntree.thy ===== *)
theory Bcast_Kntree
  imports Ucx_Op
begin

text \<open>
  The k-nomial tree broadcast, \<open>src/src/planc/ucx/bcast/bcast_kntree.c\<close>, and the chain broadcast,
  \<open>bcast_ring.c\<close>: a function of the same name for every function of the files.  The calls of the tree
  iterator may not return, so what calls them is an option.
\<close>

subsection \<open>Configuration\<close>

record ucg_planc_ucx_bcast_config =
  bc_kntree_degree :: c_int
  bc_root_adjust :: bool
  bc_nta_kntree_inter_degree :: c_int
  bc_nta_kntree_intra_degree :: c_int
  bc_na_kntree_inter_degree :: c_int
  bc_na_kntree_intra_degree :: c_int
  bc_min_bsend :: u64
  bc_max_bsend :: u64
  bc_policy_default :: c_int

subsection \<open>Messages\<close>

text \<open>The buffer of a broadcast goes to or comes from a peer.\<close>

definition bcast_isend :: "'w coll_env \<Rightarrow> ucg_rank_t \<Rightarrow> 'w step" where
  "bcast_isend env peer op =
     call_step (ce_isend env (ca_recvbuf (op_args op)) (ca_count (op_args op)) (dt_addr (ca_dt (op_args op))) peer (op_tag op)) op"

definition bcast_irecv :: "'w coll_env \<Rightarrow> ucg_rank_t \<Rightarrow> 'w step" where
  "bcast_irecv env peer op =
     call_step (ce_irecv env (ca_recvbuf (op_args op)) (ca_count (op_args op)) (dt_addr (ca_dt (op_args op))) peer (op_tag op)) op"

subsection \<open>K-nomial tree\<close>

definition UCG_BCAST_ADJUST_ROOT :: u64 where "UCG_BCAST_ADJUST_ROOT = 0x1"
definition UCG_BCAST_ADJUST_ROOT_SEND :: u64 where "UCG_BCAST_ADJUST_ROOT_SEND = 0x2"
definition UCG_BCAST_ADJUST_ROOT_RECV :: u64 where "UCG_BCAST_ADJUST_ROOT_RECV = 0x4"
definition UCG_BCAST_RECV_FROM_PARENT :: u64 where "UCG_BCAST_RECV_FROM_PARENT = 0x8"
definition UCG_BCAST_RECV_FROM_PARENT_RECV :: u64 where "UCG_BCAST_RECV_FROM_PARENT_RECV = 0x10"

definition UCG_BCAST_KNTREE_FLAGS :: u64 where
  "UCG_BCAST_KNTREE_FLAGS = UCG_BCAST_ADJUST_ROOT OR UCG_BCAST_ADJUST_ROOT_SEND OR UCG_BCAST_ADJUST_ROOT_RECV OR
     UCG_BCAST_RECV_FROM_PARENT OR UCG_BCAST_RECV_FROM_PARENT_RECV"

definition ucg_planc_ucx_bcast_kntree_op_adjust_root :: "'w coll_env \<Rightarrow> 'w step" where
  "ucg_planc_ucx_bcast_kntree_op_adjust_root env op w =
     (let myrank = ce_myrank env; root = ca_root (op_args op);
          iter_root = ucg_algo_kntree_iter_root_value (uo_kntree_iter (op_priv op))
      in if iter_root = root \<or> (myrank \<noteq> root \<and> myrank \<noteq> iter_root) then Some (UCG_OK, op, w)
         else steps [when_step (myrank = root) (if_flag_once UCG_BCAST_ADJUST_ROOT_SEND (bcast_isend env iter_root)),
                     when_step (myrank = iter_root) (if_flag_once UCG_BCAST_ADJUST_ROOT_RECV (bcast_irecv env root)),
                     call_step (ce_testall env)] op w)"

definition ucg_planc_ucx_bcast_kntree_op_recv_from_parent :: "'w coll_env \<Rightarrow> 'w step" where
  "ucg_planc_ucx_bcast_kntree_op_recv_from_parent env op w =
     (let peer = ucg_algo_kntree_iter_parent_value (uo_kntree_iter (op_priv op))
      in if peer = UCG_INVALID_RANK then Some (UCG_OK, op, w)
         else steps [if_flag_once UCG_BCAST_RECV_FROM_PARENT_RECV (bcast_irecv env peer), call_step (ce_testall env)] op w)"

text \<open>The loop that sends to the children.\<close>

partial_function (option) bcast_kntree_send_children :: "'w coll_env \<Rightarrow> 'w step" where
  "bcast_kntree_send_children env op w =
     (let iter = uo_kntree_iter (op_priv op); peer = ucg_algo_kntree_iter_child_value iter
      in if peer = UCG_INVALID_RANK then Some (UCG_OK, op, w)
         else do { (status, op, w) \<leftarrow> bcast_isend env peer op w;
                   if status \<noteq> UCG_OK then Some (status, op, w)
                   else do { iter \<leftarrow> ucg_algo_kntree_iter_child_inc iter;
                             bcast_kntree_send_children env (upd_priv (\<lambda>p. p\<lparr>uo_kntree_iter := iter\<rparr>) op) w } })"

definition ucg_planc_ucx_bcast_kntree_op_progress :: "'w coll_env \<Rightarrow> 'w step" where
  "ucg_planc_ucx_bcast_kntree_op_progress env op w =
     progress_end
       (steps [if_flag_until_done UCG_BCAST_ADJUST_ROOT (ucg_planc_ucx_bcast_kntree_op_adjust_root env),
               if_flag_until_done UCG_BCAST_RECV_FROM_PARENT (ucg_planc_ucx_bcast_kntree_op_recv_from_parent env),
               bcast_kntree_send_children env,
               call_step (ce_testall env)] op w)"

definition ucg_planc_ucx_bcast_kntree_op_trigger :: "'w coll_env \<Rightarrow> 'w step" where
  "ucg_planc_ucx_bcast_kntree_op_trigger env op w =
     (case ucg_planc_ucx_op_reset env op w of
        (op, w) \<Rightarrow>
          do { iter \<leftarrow> ucg_algo_kntree_iter_reset (uo_kntree_iter (op_priv op));
               trigger_end (ucg_planc_ucx_bcast_kntree_op_progress env
                 (upd_priv (\<lambda>p. p\<lparr>uo_kntree_iter := iter, uo_flags := UCG_BCAST_KNTREE_FLAGS\<rparr>) op) w) })"

definition ucg_planc_ucx_bcast_kntree_op_discard :: "ucx_op \<Rightarrow> ucg_heap \<Rightarrow> ucg_status \<times> ucg_heap" where
  "ucg_planc_ucx_bcast_kntree_op_discard op h = (UCG_OK, heap_free h)"

definition ucg_planc_ucx_bcast_kntree_op_new ::
    "'w coll_env \<Rightarrow> nat \<Rightarrow> nat \<Rightarrow> ucx_coll \<Rightarrow> ucg_coll_args \<Rightarrow> ucg_planc_ucx_bcast_config \<Rightarrow> ucg_heap \<Rightarrow> 'w \<Rightarrow>
     (ucx_op option \<times> ucg_heap \<times> 'w) option" where
  "ucg_planc_ucx_bcast_kntree_op_new env grp vgroup blank args config h w =
     (case ucx_op_new env grp vgroup blank args h w of
        (None, h, w) \<Rightarrow> Some (None, h, w)
      | (Some op, h, w) \<Rightarrow>
          do { iter \<leftarrow> ucg_algo_kntree_iter_init (ce_size env) (bc_kntree_degree config)
                         (if bc_root_adjust config then 0 else ca_root args) (ce_myrank env) True;
               Some (Some (upd_priv (\<lambda>p. p\<lparr>uo_kntree_iter := iter\<rparr>) op), h, w) })"

definition ucg_planc_ucx_bcast_kntree_prepare ::
    "bool \<Rightarrow> 'w coll_env \<Rightarrow> nat \<Rightarrow> nat \<Rightarrow> ucx_coll \<Rightarrow> ucg_planc_ucx_bcast_config \<Rightarrow> ucg_coll_args option \<Rightarrow> ucg_heap \<Rightarrow> 'w \<Rightarrow>
     ((ucg_status + ucx_op) \<times> ucg_heap \<times> 'w) option" where
  "ucg_planc_ucx_bcast_kntree_prepare chk env grp vgroup blank config args h w =
     (case args of
        None \<Rightarrow> if chk then Some (Inl UCG_ERR_INVALID_PARAM, h, w) else None
      | Some args \<Rightarrow>
          do { (op, h, w) \<leftarrow> ucg_planc_ucx_bcast_kntree_op_new env grp vgroup blank args config h w;
               Some (case op of None \<Rightarrow> (Inl UCG_ERR_NO_MEMORY, h, w) | Some op \<Rightarrow> (Inr op, h, w)) })"

subsection \<open>Chain\<close>

definition UCG_BCAST_RING_SEND :: u64 where "UCG_BCAST_RING_SEND = 0x1"
definition UCG_BCAST_RING_RECV :: u64 where "UCG_BCAST_RING_RECV = 0x2"

definition ucg_planc_ucx_bcast_ring_op_progress :: "'w coll_env \<Rightarrow> 'w step" where
  "ucg_planc_ucx_bcast_ring_op_progress env op w =
     (let iter = uo_ring_iter (op_priv op)
      in progress_end
           (steps [if_flag_once UCG_BCAST_RING_RECV (bcast_irecv env (ucg_algo_ring_iter_left_value iter)),
                   call_step (ce_testall env),
                   if_flag_once UCG_BCAST_RING_SEND (bcast_isend env (ucg_algo_ring_iter_right_value iter)),
                   call_step (ce_testall env)] op w))"

definition ucg_planc_ucx_bcast_ring_op_trigger :: "'w coll_env \<Rightarrow> 'w step" where
  "ucg_planc_ucx_bcast_ring_op_trigger env op w =
     (case ucg_planc_ucx_op_reset env op w of
        (op, w) \<Rightarrow>
          let iter = ucg_algo_ring_iter_reset (uo_ring_iter (op_priv op));
              root = ca_root (op_args op);
              flags = (if ce_myrank env = root then UCG_BCAST_RING_SEND
                       else if ucg_algo_ring_iter_right_value iter = root then UCG_BCAST_RING_RECV
                       else UCG_BCAST_RING_RECV OR UCG_BCAST_RING_SEND)
          in trigger_end (ucg_planc_ucx_bcast_ring_op_progress env
               (upd_priv (\<lambda>p. p\<lparr>uo_ring_iter := iter, uo_flags := flags\<rparr>) op) w))"

definition ucg_planc_ucx_bcast_ring_op_discard :: "ucx_op \<Rightarrow> ucg_heap \<Rightarrow> ucg_status \<times> ucg_heap" where
  "ucg_planc_ucx_bcast_ring_op_discard op h = (UCG_OK, heap_free h)"

text \<open>Here the constructor's error is passed on; a failed allocation is \<open>UCG_ERR_NO_MEMORY\<close>.\<close>

definition ucg_planc_ucx_bcast_ring_prepare ::
    "bool \<Rightarrow> 'w coll_env \<Rightarrow> nat \<Rightarrow> nat \<Rightarrow> ucx_coll \<Rightarrow> ucg_coll_args option \<Rightarrow> ucg_heap \<Rightarrow> 'w \<Rightarrow>
     ((ucg_status + ucx_op) \<times> ucg_heap \<times> 'w) option" where
  "ucg_planc_ucx_bcast_ring_prepare chk env grp vgroup blank args h w =
     (case args of
        None \<Rightarrow> if chk then Some (Inl UCG_ERR_INVALID_PARAM, h, w) else None
      | Some args \<Rightarrow>
          Some (case heap_alloc h of
             (False, h) \<Rightarrow> (Inl UCG_ERR_NO_MEMORY, h, w)
           | (True, h) \<Rightarrow>
               (case ucg_plan_op_ctor grp vgroup blank args of
                  (status, op) \<Rightarrow>
                    if status \<noteq> UCG_OK then (Inl status, heap_free h, w)
                    else case ucg_planc_ucx_op_init env op w of
                      (op, w) \<Rightarrow>
                        (Inr (upd_priv (\<lambda>p. p\<lparr>uo_ring_iter := ucg_algo_ring_iter_init (ce_size env) (ce_myrank env)\<rparr>) op), h, w))))"

end
