(* ===== verification/Bcast_Script.thy ===== *)
theory Bcast_Script
  imports Bcast_Kntree Coll_Script Kntree_Spec
begin

text \<open>The k-nomial tree broadcast follows its script.\<close>

subsection \<open>The iterator\<close>

definition kntree_iter :: "c_int \<Rightarrow> c_int \<Rightarrow> ucg_rank_t \<Rightarrow> ucg_rank_t \<Rightarrow> ucg_algo_kntree_iter" where
  "kntree_iter n degree root r = the (ucg_algo_kntree_iter_init n degree root r True)"

definition kntree_kids :: "c_int \<Rightarrow> c_int \<Rightarrow> ucg_rank_t \<Rightarrow> ucg_rank_t \<Rightarrow> ucg_rank_t list" where
  "kntree_kids n degree root r = the (kntree_children_of n degree root True r)"

definition kntree_up :: "c_int \<Rightarrow> c_int \<Rightarrow> ucg_rank_t \<Rightarrow> ucg_rank_t \<Rightarrow> ucg_rank_t" where
  "kntree_up n degree root r = the (kntree_parent_of n degree root True r)"

text \<open>A reset iterator is as good as a new one.\<close>

lemma kntree_reset_init:
  assumes "ucg_algo_kntree_iter_init n degree root r True = Some it" and "kntree_args n degree root" and "0 \<le> r" "r < n"
    and "kn_same_tree it it'"
  shows "ucg_algo_kntree_iter_reset it' = Some it"
proof -
  let ?d = "kntree_adjust_degree n degree" and ?v = "(r - root + n) smod n"
  have n: "0 < n" "2 \<le> n" and root: "0 \<le> root" "root < n" using assms(2) by (simp_all add: kntree_args_def)
  have d: "2 \<le> ?d" by (rule kntree_adjust_degree_ge [OF n(2)])
  have vm: "?v = (r - root) mod n" using root assms(3) n by (simp add: smod_nonneg)
  have v: "0 \<le> ?v" "?v < n" unfolding vm using n by simp_all
  obtain m where fp: "kntree_find_parent n ?d root ?v 1 =
      Some (if ?v = 0 then UCG_INVALID_RANK else (kt_parent ?d ?v m + root) smod n, ?d ^ m)"
    using kntree_find_parent_level [of ?d ?v n 0 root] d v by auto
  let ?p = "if ?v = 0 then UCG_INVALID_RANK else (kt_parent ?d ?v m + root) smod n"
  let ?rec = "\<lparr>kn_size = n, kn_degree = ?d, kn_root = root, kn_myrank = ?v, kn_leftmost = True, kn_max_subsize = ?d ^ m,
    kn_subsize = ?d ^ m, kn_child_idx = 1, kn_parent = ?p, kn_child = UCG_INVALID_RANK\<rparr>"
  have init: "ucg_algo_kntree_iter_update ?rec = Some it"
    using assms(1) fp by (simp add: ucg_algo_kntree_iter_init_def Let_def)
  have "kn_at ?rec (kt_kids ?d n ?v m)" using kn_left_at_full [of ?rec m] by (simp add: kn_at_def)
  from kn_update [OF _ this] d init have "kn_same_tree ?rec it" by (simp add: kn_yields_def)
  then have "kn_same_tree ?rec it'" using assms(5) kn_same_tree_trans by blast
  note f = kn_same_tree_fields [OF this]
  have "it'\<lparr>kn_subsize := (if kn_leftmost it' then kn_max_subsize it' else 1), kn_child := UCG_INVALID_RANK, kn_child_idx := 1\<rparr> = ?rec"
    using f by (cases it') simp
  then show ?thesis unfolding ucg_algo_kntree_iter_reset_def using init by simp
qed

lemma kntree_iter:
  assumes "kntree_args n degree root" and "r \<in> {0..<n}"
  shows "ucg_algo_kntree_iter_init n degree root r True = Some (kntree_iter n degree root r)"
    and "kn_same_tree (kntree_iter n degree root r) it \<Longrightarrow> ucg_algo_kntree_iter_reset it = Some (kntree_iter n degree root r)"
    and "kn_root (kntree_iter n degree root r) = root"
    and "kn_parent (kntree_iter n degree root r) = kntree_up n degree root r"
    and "kntree_children (kntree_iter n degree root r) = Some (kntree_kids n degree root r)"
proof -
  have r: "0 \<le> r" "r < n" using assms(2) by simp_all
  obtain it0 where it: "ucg_algo_kntree_iter_init n degree root r True = Some it0" "kn_root it0 = root"
    using kntree_init [OF assms(1) r, of True] by metis
  then show i: "ucg_algo_kntree_iter_init n degree root r True = Some (kntree_iter n degree root r)" "kn_root (kntree_iter n degree root r) = root"
    by (simp_all add: kntree_iter_def)
  show "kn_same_tree (kntree_iter n degree root r) it \<Longrightarrow> ucg_algo_kntree_iter_reset it = Some (kntree_iter n degree root r)"
    by (rule kntree_reset_init [OF i(1) assms(1) r])
  show "kn_parent (kntree_iter n degree root r) = kntree_up n degree root r"
    using i(1) by (simp add: kntree_up_def kntree_parent_of_def ucg_algo_kntree_iter_parent_value_def)
  have "kntree_children_of n degree root True r = kntree_children (kntree_iter n degree root r)"
    using i(1) by (simp add: kntree_children_of_def)
  moreover have "kntree_children_of n degree root True r \<noteq> None" using kntree_children_eq [OF assms(1) r, of True] by simp
  ultimately show "kntree_children (kntree_iter n degree root r) = Some (kntree_kids n degree root r)"
    by (auto simp: kntree_kids_def)
qed

lemma kntree_children_cases:
  assumes "kntree_children it = Some cs"
  shows "cs = [] \<and> kn_child it = UCG_INVALID_RANK \<or>
    (\<exists>it' cs'. cs = kn_child it # cs' \<and> kn_child it \<noteq> UCG_INVALID_RANK \<and> ucg_algo_kntree_iter_child_inc it = Some it' \<and>
       kntree_children it' = Some cs')"
  using assms by (subst (asm) kntree_children.simps)
    (auto simp: ucg_algo_kntree_iter_child_value_def split: if_splits bind_splits)

lemma kntree_kids_ranks:
  assumes "kntree_args n degree root" and "r \<in> {0..<n}"
  shows "set (kntree_kids n degree root r) \<subseteq> {0..<n}"
    and "distinct (kntree_kids n degree root r)"
    and "c \<in> {0..<n} \<Longrightarrow> c \<in> set (kntree_kids n degree root r) \<longleftrightarrow> c \<noteq> root \<and> kntree_up n degree root c = r"
    and "r \<noteq> root \<Longrightarrow> kntree_up n degree root r \<in> {0..<n}"
    and "kntree_up n degree root r = UCG_INVALID_RANK \<longleftrightarrow> r = root"
proof -
  let ?g = "(n, degree, root, True)"
  have r: "0 \<le> r" "r < n" using assms(2) by simp_all
  show "set (kntree_kids n degree root r) \<subseteq> {0..<n}" using kt.children_ranks [of ?g r] assms by (simp add: kntree_kids_def)
  show "distinct (kntree_kids n degree root r)" using kt.distinct_children [of ?g r] assms by (simp add: kntree_kids_def)
  show "c \<in> {0..<n} \<Longrightarrow> c \<in> set (kntree_kids n degree root r) \<longleftrightarrow> c \<noteq> root \<and> kntree_up n degree root c = r"
    using kt.child_iff_parent [of ?g r c] assms by (simp add: kntree_kids_def kntree_up_def)
  show up: "r \<noteq> root \<Longrightarrow> kntree_up n degree root r \<in> {0..<n}"
    using kt.parent_rank [of ?g r] assms by (simp add: kntree_up_def)
  show "kntree_up n degree root r = UCG_INVALID_RANK \<longleftrightarrow> r = root"
  proof (cases "r = root")
    case True
    then show ?thesis using kntree_parent_eq [OF assms(1) r, of True] by (simp add: kntree_up_def)
  next
    case False
    then show ?thesis using up [OF False] by auto
  qed
qed

subsection \<open>The script\<close>

definition bcast_adjust_acts :: "c_buf \<Rightarrow> ucg_rank_t \<Rightarrow> ucg_rank_t \<Rightarrow> ucg_rank_t \<Rightarrow> coll_act list" where
  "bcast_adjust_acts b hub root r =
     (if hub = root then [] else if r = root then [Snd hub b, Wait] else if r = hub then [Rcv root b, Wait] else [])"

definition bcast_parent_acts :: "c_buf \<Rightarrow> c_int \<Rightarrow> c_int \<Rightarrow> ucg_rank_t \<Rightarrow> ucg_rank_t \<Rightarrow> coll_act list" where
  "bcast_parent_acts b n degree hub r = (if r = hub then [] else [Rcv (kntree_up n degree hub r) b, Wait])"

text \<open>\<open>hub\<close> is the root of the tree, \<open>root\<close> that of the collective.\<close>

definition bcast_acts :: "c_buf \<Rightarrow> c_int \<Rightarrow> c_int \<Rightarrow> ucg_rank_t \<Rightarrow> ucg_rank_t \<Rightarrow> ucg_rank_t \<Rightarrow> coll_act list" where
  "bcast_acts b n degree hub root r =
     bcast_adjust_acts b hub root r @ bcast_parent_acts b n degree hub r @ map (\<lambda>c. Snd c b) (kntree_kids n degree hub r) @ [Wait]"

definition bcast_buf :: "ucg_coll_args \<Rightarrow> c_buf" where
  "bcast_buf args = (ca_recvbuf args, ca_count args, dt_addr (ca_dt args))"

subsection \<open>Where an operation stands\<close>

lemma kn_same_tree_refl: "kn_same_tree it it"
  by (rule kn_same_treeI) simp_all

text \<open>An iterator that has still \<open>rest\<close> before it.\<close>

definition kn_before :: "ucg_algo_kntree_iter \<Rightarrow> int list \<Rightarrow> bool" where
  "kn_before it rest \<longleftrightarrow> 2 \<le> kn_degree it \<and> 0 < kn_size it \<and> 0 \<le> kn_root it \<and> (\<forall>c \<in> set rest. 0 \<le> c) \<and> kn_yields kn_at it (Some it) rest"

lemma kn_before_step:
  assumes "kn_before it rest"
  shows "rest = [] \<and> kn_child it = UCG_INVALID_RANK \<or>
    (\<exists>c cs it'. rest = c # cs \<and> kn_child it = (c + kn_root it) mod kn_size it \<and> kn_child it \<noteq> UCG_INVALID_RANK \<and>
       ucg_algo_kntree_iter_child_inc it = Some it' \<and> kn_same_tree it it' \<and> kn_before it' cs)"
proof (cases rest)
  case Nil
  then show ?thesis using assms by (simp add: kn_before_def kn_yields_def)
next
  case (Cons c cs)
  let ?it = "it\<lparr>kn_child_idx := kn_child_idx it + 1\<rparr>"
  have d: "2 \<le> kn_degree it" "0 < kn_size it" "0 \<le> kn_root it" "0 \<le> c" "\<forall>c \<in> set cs. 0 \<le> c"
    using assms Cons by (simp_all add: kn_before_def)
  have child: "kn_child it = (c + kn_root it) mod kn_size it" and at: "kn_at ?it cs"
    using assms Cons by (auto simp: kn_before_def kn_yields_def smod_nonneg)
  have ge: "0 \<le> (c + kn_root it) mod kn_size it" using d(2) by simp
  from kn_update [OF _ at] d(1) obtain it' where it':
    "ucg_algo_kntree_iter_update ?it = Some it'" "kn_same_tree ?it it'" "kn_yields kn_at ?it (Some it') cs"
    by (auto simp: kn_yields_def)
  have s: "kn_same_tree it it'" by (rule kn_same_treeI) (use kn_same_tree_fields [OF it'(2)] in simp_all)
  have "kn_yields kn_at it' (Some it') cs"
    using it'(3) kn_same_tree_fields [OF it'(2)] by (cases cs) (auto simp: kn_yields_def intro: kn_same_treeI)
  then have "kn_before it' cs" using d kn_same_tree_fields [OF s] by (simp add: kn_before_def)
  then show ?thesis using Cons child ge it'(1) s by (auto simp: ucg_algo_kntree_iter_child_inc_def)
qed

lemma kntree_iter_before:
  assumes "kntree_args n degree root" and "r \<in> {0..<n}"
  obtains rest where "kn_before (kntree_iter n degree root r) rest" and "kntree_kids n degree root r = map (\<lambda>c. (c + root) mod n) rest"
    and "kn_size (kntree_iter n degree root r) = n"
proof -
  have r: "0 \<le> r" "r < n" using assms(2) by simp_all
  let ?d = "kntree_adjust_degree n degree" and ?kids = "kt_kids (kntree_adjust_degree n degree) n ((r - root) mod n) (kntree_level n degree root r)"
  obtain it where it: "ucg_algo_kntree_iter_init n degree root r True = Some it" "kn_size it = n" "kn_degree it = ?d" "kn_root it = root"
    "kn_yields kn_at it (Some it) ?kids"
    using kntree_init [OF assms(1) r, of True] by (metis (full_types))
  have d: "2 \<le> ?d" using assms(1) kntree_adjust_degree_ge by (simp add: kntree_args_def)
  have n: "0 < n" "0 \<le> root" using assms(1) by (simp_all add: kntree_args_def)
  have v: "0 \<le> (r - root) mod n" using n by simp
  have "0 \<le> c" if "c \<in> set ?kids" for c using kt_kids_range [OF d v that] v by linarith
  then have "kn_before it ?kids" using it d n by (simp add: kn_before_def)
  moreover have "kntree_kids n degree root r = map (\<lambda>c. (c + root) mod n) ?kids"
    by (simp add: kntree_kids_def kntree_children_eq [OF assms(1) r])
  moreover have "kntree_iter n degree root r = it" using it(1) by (simp add: kntree_iter_def)
  ultimately show thesis using that it(2) by metis
qed

subsection \<open>The loop over the children\<close>

text \<open>The parts of an operation that the broadcast does not change, and its flags.\<close>

definition bcast_frame :: "c_int \<Rightarrow> ucg_coll_args \<Rightarrow> u64 \<Rightarrow> ucg_algo_kntree_iter \<Rightarrow> ucx_op \<Rightarrow> bool" where
  "bcast_frame tag args fl it0 op \<longleftrightarrow>
     op_tag op = tag \<and> op_args op = args \<and> op_flags op = fl \<and> kn_same_tree it0 (uo_kntree_iter (op_priv op))"

definition bcast_done :: "c_int \<Rightarrow> ucg_coll_args \<Rightarrow> u64 \<Rightarrow> ucg_algo_kntree_iter \<Rightarrow> ucx_op \<Rightarrow> bool" where
  "bcast_done tag args fl it0 op \<longleftrightarrow> bcast_frame tag args fl it0 op \<and> kn_child (uo_kntree_iter (op_priv op)) = UCG_INVALID_RANK"

lemma follows_bcast_isend:
  assumes "op_tag op = tag" and "op_args op = args" and "at 1 op"
  shows "follows env tag [Snd p (bcast_buf args)] at (bcast_isend env p) op"
  unfolding bcast_isend_def by (rule follows_eq [OF refl follows_call]) (use assms in \<open>simp_all add: bcast_buf_def\<close>)

lemma follows_send_children:
  assumes "bcast_frame tag args fl it0 op" and "kn_before (uo_kntree_iter (op_priv op)) rest"
    and "kn_root it0 = root" and "kn_size it0 = n"
  shows "follows (env :: 'w coll_env) tag (map (\<lambda>c. Snd c (bcast_buf args)) (map (\<lambda>c. (c + root) mod n) rest))
    (\<lambda>k op'. k = length rest \<longrightarrow> bcast_done tag args fl it0 op') (bcast_kntree_send_children env) op"
  using assms(1,2)
proof (induction rest arbitrary: op)
  case Nil
  then have c: "kn_child (uo_kntree_iter (op_priv op)) = UCG_INVALID_RANK" using kn_before_step by blast
  then have "bcast_kntree_send_children env op w = Some (UCG_OK, op, w)" for w
    by (subst bcast_kntree_send_children.simps) (simp add: ucg_algo_kntree_iter_child_value_def)
  then show ?case using Nil(1) c by (simp add: follows_def bcast_done_def)
next
  case (Cons c cs)
  let ?it = "uo_kntree_iter (op_priv op)"
  from kn_before_step [OF Cons.prems(2)] obtain it' where it': "kn_child ?it = (c + kn_root ?it) mod kn_size ?it"
    "kn_child ?it \<noteq> UCG_INVALID_RANK" "ucg_algo_kntree_iter_child_inc ?it = Some it'" "kn_same_tree ?it it'" "kn_before it' cs"
    by auto
  have st: "kn_same_tree it0 ?it" using Cons.prems(1) by (simp add: bcast_frame_def)
  have p: "kn_child ?it = (c + root) mod n" using it'(1) kn_same_tree_fields [OF st] assms(3,4) by simp
  let ?f = "\<lambda>op. bcast_kntree_send_children env (upd_priv (\<lambda>p. p\<lparr>uo_kntree_iter := it'\<rparr>) op)"
  have one: "bcast_kntree_send_children env op w = (case bcast_isend env ((c + root) mod n) op w of None \<Rightarrow> None
      | Some (st, op', w') \<Rightarrow> if st \<noteq> UCG_OK then Some (st, op', w') else ?f op' w')" for w
  proof -
    have v: "ucg_algo_kntree_iter_child_value ?it = (c + root) mod n" "(c + root) mod n \<noteq> UCG_INVALID_RANK"
      using it'(2) p by (simp_all add: ucg_algo_kntree_iter_child_value_def)
    show ?thesis
      unfolding bcast_kntree_send_children.simps [of env op w] Let_def v(1) if_not_P [OF v(2)] it'(3) Option.bind.bind_lunit
      by (cases "bcast_isend env ((c + root) mod n) op w") (simp_all split: prod.split)
  qed
  have two: "steps [g, f] op w = (case g op w of None \<Rightarrow> None
      | Some (st, op', w') \<Rightarrow> if st \<noteq> UCG_OK then Some (st, op', w') else f op' w')" for f g :: "'w step" and op w
    unfolding steps.simps(2) [of g] steps_single by (cases "g op w") auto
  have e: "bcast_kntree_send_children env op w = steps [bcast_isend env ((c + root) mod n), ?f] op w" for w
    unfolding one two ..
  let ?at = "\<lambda>k op'. k = length (c # cs) \<longrightarrow> bcast_done tag args fl it0 op'"
  have "follows env tag ([Snd ((c + root) mod n) (bcast_buf args)] @ map (\<lambda>c. Snd c (bcast_buf args)) (map (\<lambda>c. (c + root) mod n) cs)) ?at
      (steps [bcast_isend env ((c + root) mod n), ?f]) op"
  proof (rule follows_seq [where atf = "\<lambda>k op'. k = 1 \<longrightarrow> op' = op" and
        ats = "\<lambda>k op'. k = length cs \<longrightarrow> bcast_done tag args fl it0 op'"])
    show "follows env tag [Snd ((c + root) mod n) (bcast_buf args)] (\<lambda>k op'. k = 1 \<longrightarrow> op' = op) (bcast_isend env ((c + root) mod n)) op"
      using Cons.prems(1) by (intro follows_bcast_isend) (simp_all add: bcast_frame_def)
    fix op' assume "length [Snd ((c + root) mod n) (bcast_buf args)] = 1 \<longrightarrow> op' = op"
    then have o: "op' = op" by simp
    let ?op = "upd_priv (\<lambda>p. p\<lparr>uo_kntree_iter := it'\<rparr>) op"
    have "bcast_frame tag args fl it0 ?op"
      using Cons.prems(1) it'(4) kn_same_tree_trans [OF st] by (simp add: bcast_frame_def)
    moreover have "kn_before (uo_kntree_iter (op_priv ?op)) cs" using it'(5) by simp
    ultimately have "follows env tag (map (\<lambda>c. Snd c (bcast_buf args)) (map (\<lambda>c. (c + root) mod n) cs))
      (\<lambda>k op'. k = length cs \<longrightarrow> bcast_done tag args fl it0 op') (bcast_kntree_send_children env) ?op" by (rule Cons.IH)
    then show "follows env tag (map (\<lambda>c. Snd c (bcast_buf args)) (map (\<lambda>c. (c + root) mod n) cs))
      (\<lambda>k op'. k = length cs \<longrightarrow> bcast_done tag args fl it0 op') (steps [?f]) op'"
      unfolding o by (rule follows_one [OF follows_comp [where g = "bcast_kntree_send_children env" and
            h = "upd_priv (\<lambda>p. p\<lparr>uo_kntree_iter := it'\<rparr>)"]])
  qed auto
  then have F: "follows env tag (map (\<lambda>c. Snd c (bcast_buf args)) (map (\<lambda>c. (c + root) mod n) (c # cs))) ?at
      (steps [bcast_isend env ((c + root) mod n), ?f]) op" by (simp only: list.map append.simps)
  show ?case by (rule follows_cong [OF _ F]) (rule ext, rule e)
qed

subsection \<open>The stages, from the last to the first\<close>

lemmas bcast_flag_defs = ucg_test_flags_def ucg_clear_flags_def ucg_test_and_clear_flags_def UCG_BCAST_ADJUST_ROOT_def
  UCG_BCAST_ADJUST_ROOT_SEND_def UCG_BCAST_ADJUST_ROOT_RECV_def UCG_BCAST_RECV_FROM_PARENT_def UCG_BCAST_RECV_FROM_PARENT_RECV_def

definition bcast_tail :: "'w coll_env \<Rightarrow> 'w step list" where
  "bcast_tail env = [bcast_kntree_send_children env, call_step (ce_testall env)]"

text \<open>What is still to be done, as the flags say; the last stage is the test for all messages.\<close>

abbreviation bcast_fresh :: "c_int \<Rightarrow> ucg_coll_args \<Rightarrow> u64 \<Rightarrow> ucg_algo_kntree_iter \<Rightarrow> ucx_op \<Rightarrow> bool" where
  "bcast_fresh tag args fl it0 op \<equiv> bcast_frame tag args fl it0 op \<and> uo_kntree_iter (op_priv op) = it0"

lemma follows_tail:
  assumes "bcast_frame tag args fl it0 op" and "kn_before (uo_kntree_iter (op_priv op)) rest"
    and "kn_root it0 = root" and "kn_size it0 = n"
  shows "follows env tag (map (\<lambda>c. Snd c (bcast_buf args)) (map (\<lambda>c. (c + root) mod n) rest) @ [Wait])
    (\<lambda>k op'. length rest \<le> k \<longrightarrow> bcast_done tag args fl it0 op') (steps (bcast_tail env)) op"
  unfolding bcast_tail_def
proof (rule follows_seq [OF follows_send_children [OF assms], where ats = "\<lambda>_. bcast_done tag args fl it0"])
  let ?as = "map (\<lambda>c. Snd c (bcast_buf args)) (map (\<lambda>c. (c + root) mod n) rest)"
  fix op' assume "length ?as = length rest \<longrightarrow> bcast_done tag args fl it0 op'"
  then have d: "bcast_done tag args fl it0 op'" by simp
  show "follows env tag [Wait] (\<lambda>_. bcast_done tag args fl it0) (steps [call_step (ce_testall env)]) op'"
    by (intro follows_one follows_call) (use d in simp_all)
qed auto

text \<open>The stage of the parent.\<close>

lemma kids_list:
  assumes "kntree_args n degree hub" and "r \<in> {0..<n}"
    and "bcast_frame tag args fl (kntree_iter n degree hub r) op" and "uo_kntree_iter (op_priv op) = kntree_iter n degree hub r"
  shows "follows env tag (map (\<lambda>c. Snd c (bcast_buf args)) (kntree_kids n degree hub r) @ [Wait])
    (\<lambda>k op'. length (kntree_kids n degree hub r) \<le> k \<longrightarrow> bcast_done tag args fl (kntree_iter n degree hub r) op') (steps (bcast_tail env)) op"
proof -
  obtain rest where rest: "kn_before (kntree_iter n degree hub r) rest" "kntree_kids n degree hub r = map (\<lambda>c. (c + hub) mod n) rest"
    "kn_size (kntree_iter n degree hub r) = n"
    by (rule kntree_iter_before [OF assms(1,2)])
  from follows_tail [OF assms(3) _ kntree_iter(3) [OF assms(1,2)] rest(3), of rest env] show ?thesis
    using rest(1,2) assms(4) by simp
qed

lemma follows_until_done_seq:
  assumes "ucg_test_flags (op_flags op) bits"
    and "follows env tag as at (steps (f # op_step (\<lambda>op. set_flags (ucg_clear_flags (op_flags op) bits) op) # fs)) op"
  shows "follows env tag as at (steps (if_flag_until_done bits f # fs)) op"
proof (rule follows_eq [OF _ assms(2)])
  fix w
  show "steps (if_flag_until_done bits f # fs) op w =
      steps (f # op_step (\<lambda>op. set_flags (ucg_clear_flags (op_flags op) bits) op) # fs) op w"
    using assms(1) by (auto simp: if_flag_until_done_def op_step_def split: Option.bind_split)
qed

subsection \<open>The stage of the parent\<close>

text \<open>Without the flags of the stages behind it, and at the end of the children.\<close>

definition bcast_late :: "c_int \<Rightarrow> ucg_coll_args \<Rightarrow> ucg_algo_kntree_iter \<Rightarrow> ucx_op \<Rightarrow> bool" where
  "bcast_late tag args it0 op \<longleftrightarrow>
     (\<exists>fl. bcast_done tag args fl it0 op \<and> \<not> ucg_test_flags fl UCG_BCAST_ADJUST_ROOT \<and> \<not> ucg_test_flags fl UCG_BCAST_RECV_FROM_PARENT)"

definition adjust_left :: "u64 set" where "adjust_left = {2, 4, 6}"

lemma bcast_frame_flags:
  "bcast_frame tag args fl it0 op \<Longrightarrow> bcast_frame tag args fl' it0 (set_flags fl' op)"
  by (simp add: bcast_frame_def)

definition parent_steps :: "'w coll_env \<Rightarrow> 'w step list" where
  "parent_steps env = if_flag_until_done UCG_BCAST_RECV_FROM_PARENT (ucg_planc_ucx_bcast_kntree_op_recv_from_parent env) # bcast_tail env"

lemma follows_kids_late:
  assumes n: "kntree_args n degree hub" "r \<in> {0..<n}" and op: "bcast_fresh tag args fl (kntree_iter n degree hub r) op"
    and fl: "\<not> ucg_test_flags fl UCG_BCAST_ADJUST_ROOT" "\<not> ucg_test_flags fl UCG_BCAST_RECV_FROM_PARENT"
  shows "follows env tag (map (\<lambda>c. Snd c (bcast_buf args)) (kntree_kids n degree hub r) @ [Wait])
    (\<lambda>k op'. length (kntree_kids n degree hub r) \<le> k \<longrightarrow> bcast_late tag args (kntree_iter n degree hub r) op') (steps (bcast_tail env)) op"
  by (rule follows_mono [OF kids_list [OF n]]) (use op fl in \<open>auto simp: bcast_late_def\<close>)

text \<open>Clearing the stage's flag leads to the children.\<close>

lemma follows_parent_cleared:
  assumes n: "kntree_args n degree hub" "r \<in> {0..<n}" and op: "bcast_fresh tag args (fl OR x) (kntree_iter n degree hub r) op"
    and x: "x \<in> adjust_left" "fl = 0x18 \<or> fl = 8"
  shows "follows env tag (map (\<lambda>c. Snd c (bcast_buf args)) (kntree_kids n degree hub r) @ [Wait])
    (\<lambda>k op'. length (kntree_kids n degree hub r) \<le> k \<longrightarrow> bcast_late tag args (kntree_iter n degree hub r) op')
    (steps (op_step (\<lambda>op. set_flags (ucg_clear_flags (op_flags op) UCG_BCAST_RECV_FROM_PARENT) op) # bcast_tail env)) op"
proof (rule follows_none_step)
  let ?fl = "ucg_clear_flags (fl OR x) UCG_BCAST_RECV_FROM_PARENT"
  show "op_step (\<lambda>op. set_flags (ucg_clear_flags (op_flags op) UCG_BCAST_RECV_FROM_PARENT) op) op w = Some (UCG_OK, set_flags ?fl op, w)" for w
    using op by (simp add: op_step_def bcast_frame_def)
  show "follows env tag (map (\<lambda>c. Snd c (bcast_buf args)) (kntree_kids n degree hub r) @ [Wait])
    (\<lambda>k op'. length (kntree_kids n degree hub r) \<le> k \<longrightarrow> bcast_late tag args (kntree_iter n degree hub r) op')
    (steps (bcast_tail env)) (set_flags ?fl op)"
    by (rule follows_kids_late [OF n, where fl = ?fl]) (use op x in \<open>auto simp: bcast_frame_def adjust_left_def bcast_flag_defs\<close>)
qed

lemma follows_parent_root:
  assumes n: "kntree_args n degree hub" "r \<in> {0..<n}" and op: "bcast_fresh tag args (0x18 OR x) (kntree_iter n degree hub r) op"
    and x: "x \<in> adjust_left" and r: "r = hub"
  shows "follows env tag (map (\<lambda>c. Snd c (bcast_buf args)) (kntree_kids n degree hub r) @ [Wait])
    (\<lambda>k op'. length (kntree_kids n degree hub r) \<le> k \<longrightarrow> bcast_late tag args (kntree_iter n degree hub r) op') (steps (parent_steps env)) op"
  unfolding parent_steps_def
proof (rule follows_until_done_seq)
  show "ucg_test_flags (op_flags op) UCG_BCAST_RECV_FROM_PARENT" using op x by (auto simp: bcast_frame_def adjust_left_def bcast_flag_defs)
  have p: "kn_parent (uo_kntree_iter (op_priv op)) = UCG_INVALID_RANK" using op kntree_iter(4) [OF n] kntree_kids_ranks(5) [OF n] r by simp
  show "follows env tag (map (\<lambda>c. Snd c (bcast_buf args)) (kntree_kids n degree hub r) @ [Wait])
    (\<lambda>k op'. length (kntree_kids n degree hub r) \<le> k \<longrightarrow> bcast_late tag args (kntree_iter n degree hub r) op')
    (steps (ucg_planc_ucx_bcast_kntree_op_recv_from_parent env #
       op_step (\<lambda>op. set_flags (ucg_clear_flags (op_flags op) UCG_BCAST_RECV_FROM_PARENT) op) # bcast_tail env)) op"
    by (rule follows_none_step [OF _ follows_parent_cleared [OF n op x]])
      (simp_all add: ucg_planc_ucx_bcast_kntree_op_recv_from_parent_def ucg_algo_kntree_iter_parent_value_def p)
qed

text \<open>A rank with a parent, before its receive and while it waits.\<close>

lemma follows_parent:
  assumes n: "kntree_args n degree hub" "r \<in> {0..<n}" and op: "bcast_fresh tag args (fl OR x) (kntree_iter n degree hub r) op"
    and x: "x \<in> adjust_left" "fl = 0x18 \<or> fl = 8" and r: "r \<noteq> hub"
  shows "follows env tag ((if fl = 8 then [Wait] else [Rcv (kntree_up n degree hub r) (bcast_buf args), Wait]) @
        map (\<lambda>c. Snd c (bcast_buf args)) (kntree_kids n degree hub r) @ [Wait])
    (\<lambda>k op'. (k = (if fl = 8 then 0 else 1) \<longrightarrow> bcast_fresh tag args (8 OR x) (kntree_iter n degree hub r) op') \<and>
       ((if fl = 8 then 1 else 2) + length (kntree_kids n degree hub r) \<le> k \<longrightarrow> bcast_late tag args (kntree_iter n degree hub r) op'))
    (steps (parent_steps env)) op"
  unfolding parent_steps_def
proof (rule follows_until_done_seq)
  show "ucg_test_flags (op_flags op) UCG_BCAST_RECV_FROM_PARENT" using op x by (auto simp: bcast_frame_def adjust_left_def bcast_flag_defs)
  let ?it = "kntree_iter n degree hub r" and ?kids = "kntree_kids n degree hub r" and ?p = "kntree_up n degree hub r"
  have p: "kn_parent ?it = ?p" "?p \<noteq> UCG_INVALID_RANK" using kntree_iter(4) [OF n] kntree_kids_ranks(5) [OF n] r by simp_all
  have f: "follows env tag (if fl = 8 then [Wait] else [Rcv ?p (bcast_buf args), Wait])
      (\<lambda>k op'. (if fl = 8 then 0 else 1) \<le> k \<longrightarrow> bcast_fresh tag args (8 OR x) ?it op')
      (ucg_planc_ucx_bcast_kntree_op_recv_from_parent env) op"
    using x(2)
  proof
    assume fl: "fl = 8"
    have "\<not> ucg_test_flags (op_flags op) UCG_BCAST_RECV_FROM_PARENT_RECV"
      using op x fl by (auto simp: bcast_frame_def adjust_left_def bcast_flag_defs)
    then show ?thesis using op fl p
      by (simp add: follows_def ucg_planc_ucx_bcast_kntree_op_recv_from_parent_def ucg_algo_kntree_iter_parent_value_def
        if_flag_once_def ucg_test_and_clear_flags_def call_step_def split: option.splits Option.bind_split)
  next
    assume fl: "fl = 0x18"
    have t: "ucg_test_flags (op_flags op) UCG_BCAST_RECV_FROM_PARENT_RECV"
      "ucg_clear_flags (op_flags op) UCG_BCAST_RECV_FROM_PARENT_RECV = 8 OR x"
      using op x fl by (auto simp: bcast_frame_def adjust_left_def bcast_flag_defs)
    show ?thesis using op fl p t
      by (simp add: follows_def ucg_planc_ucx_bcast_kntree_op_recv_from_parent_def ucg_algo_kntree_iter_parent_value_def
        if_flag_once_def ucg_test_and_clear_flags_def call_step_def bcast_irecv_def bcast_buf_def bcast_frame_def kn_same_tree_refl
        split: option.splits Option.bind_split)
  qed
  show "follows env tag ((if fl = 8 then [Wait] else [Rcv ?p (bcast_buf args), Wait]) @ map (\<lambda>c. Snd c (bcast_buf args)) ?kids @ [Wait])
    (\<lambda>k op'. (k = (if fl = 8 then 0 else 1) \<longrightarrow> bcast_fresh tag args (8 OR x) ?it op') \<and>
       ((if fl = 8 then 1 else 2) + length ?kids \<le> k \<longrightarrow> bcast_late tag args ?it op'))
    (steps (ucg_planc_ucx_bcast_kntree_op_recv_from_parent env #
       op_step (\<lambda>op. set_flags (ucg_clear_flags (op_flags op) UCG_BCAST_RECV_FROM_PARENT) op) # bcast_tail env)) op"
  proof (rule follows_seq [OF f, where ats = "\<lambda>k op'. length ?kids \<le> k \<longrightarrow> bcast_late tag args ?it op'"])
    fix op' assume "(if fl = 8 then 0 else 1) \<le> length (if fl = 8 then [Wait] else [Rcv ?p (bcast_buf args), Wait]) \<longrightarrow>
      bcast_fresh tag args (8 OR x) ?it op'"
    then have "bcast_fresh tag args (8 OR x) ?it op'" by (auto split: if_splits)
    then show "follows env tag (map (\<lambda>c. Snd c (bcast_buf args)) ?kids @ [Wait])
      (\<lambda>k op'. length ?kids \<le> k \<longrightarrow> bcast_late tag args ?it op')
      (steps (op_step (\<lambda>op. set_flags (ucg_clear_flags (op_flags op) UCG_BCAST_RECV_FROM_PARENT) op) # bcast_tail env)) op'"
      by (rule follows_parent_cleared [OF n _ x(1)]) simp
  qed (auto split: if_splits)
qed

subsection \<open>The stage of the root\<close>

text \<open>From the stage of the parent on.\<close>

definition bcast_rest_at :: "c_int \<Rightarrow> ucg_coll_args \<Rightarrow> c_int \<Rightarrow> c_int \<Rightarrow> ucg_rank_t \<Rightarrow> ucg_rank_t \<Rightarrow> nat \<Rightarrow> ucx_op \<Rightarrow> bool" where
  "bcast_rest_at tag args n degree hub r k op \<longleftrightarrow>
     (r \<noteq> hub \<and> k = 1 \<longrightarrow> (\<exists>x \<in> adjust_left. bcast_fresh tag args (8 OR x) (kntree_iter n degree hub r) op)) \<and>
     ((if r = hub then 0 else 2) + length (kntree_kids n degree hub r) \<le> k \<longrightarrow> bcast_late tag args (kntree_iter n degree hub r) op)"

definition bcast_rest_acts :: "c_buf \<Rightarrow> c_int \<Rightarrow> c_int \<Rightarrow> ucg_rank_t \<Rightarrow> ucg_rank_t \<Rightarrow> coll_act list" where
  "bcast_rest_acts b n degree hub r = bcast_parent_acts b n degree hub r @ map (\<lambda>c. Snd c b) (kntree_kids n degree hub r) @ [Wait]"

lemma follows_rest:
  assumes n: "kntree_args n degree hub" "r \<in> {0..<n}" and op: "bcast_fresh tag args (0x18 OR x) (kntree_iter n degree hub r) op"
    and x: "x \<in> adjust_left"
  shows "follows env tag (bcast_rest_acts (bcast_buf args) n degree hub r) (bcast_rest_at tag args n degree hub r) (steps (parent_steps env)) op"
proof (cases "r = hub")
  case True
  show ?thesis unfolding bcast_rest_acts_def
    using follows_mono [OF follows_parent_root [OF n op x True], where at' = "bcast_rest_at tag args n degree hub r"] True
    by (simp add: bcast_rest_at_def bcast_parent_acts_def)
next
  case False
  show ?thesis unfolding bcast_rest_acts_def
    using follows_mono [OF follows_parent [OF n op x _ False], where at' = "bcast_rest_at tag args n degree hub r"] False x
    by (fastforce simp: bcast_rest_at_def bcast_parent_acts_def)
qed

lemma follows_rest_waiting:
  assumes n: "kntree_args n degree hub" "r \<in> {0..<n}" and op: "bcast_fresh tag args (8 OR x) (kntree_iter n degree hub r) op"
    and x: "x \<in> adjust_left" and r: "r \<noteq> hub"
  shows "follows env tag (drop 1 (bcast_rest_acts (bcast_buf args) n degree hub r)) (\<lambda>k. bcast_rest_at tag args n degree hub r (1 + k)) (steps (parent_steps env)) op"
  unfolding bcast_rest_acts_def
  using follows_mono [OF follows_parent [OF n op x _ r], where at' = "\<lambda>k. bcast_rest_at tag args n degree hub r (1 + k)"] r x
  by (fastforce simp: bcast_rest_at_def bcast_parent_acts_def)

text \<open>The flags of a rank that waits for the root's message to the root of the tree.\<close>

definition adjust_flags :: "ucg_rank_t \<Rightarrow> ucg_rank_t \<Rightarrow> u64" where
  "adjust_flags root r = (if r = root then 0x1D else 0x1B)"

definition adjusts :: "ucg_rank_t \<Rightarrow> ucg_rank_t \<Rightarrow> ucg_rank_t \<Rightarrow> bool" where
  "adjusts hub root r \<longleftrightarrow> hub \<noteq> root \<and> (r = root \<or> r = hub)"

lemma follows_adjust_root:
  assumes n: "kntree_args n degree hub" "r \<in> {0..<n}" and args: "ca_root args = root" and env: "ce_myrank env = r"
    and op: "bcast_fresh tag args fl (kntree_iter n degree hub r) op"
    and fl: "fl = 0x1F \<or> adjusts hub root r \<and> fl = adjust_flags root r"
  shows "follows env tag (if fl = 0x1F then bcast_adjust_acts (bcast_buf args) hub root r else [Wait])
    (\<lambda>k op'. (adjusts hub root r \<and> (if fl = 0x1F then 1 else 0) \<le> k \<longrightarrow> bcast_fresh tag args (adjust_flags root r) (kntree_iter n degree hub r) op') \<and>
       (\<not> adjusts hub root r \<longrightarrow> bcast_fresh tag args 0x1F (kntree_iter n degree hub r) op'))
    (ucg_planc_ucx_bcast_kntree_op_adjust_root env) op"
proof -
  note defs = follows_def ucg_planc_ucx_bcast_kntree_op_adjust_root_def ucg_algo_kntree_iter_root_value_def
    if_flag_once_def ucg_test_and_clear_flags_def call_step_def bcast_isend_def bcast_irecv_def bcast_buf_def bcast_frame_def kn_same_tree_refl
    when_step_def bcast_adjust_acts_def adjusts_def
  have root: "kn_root (uo_kntree_iter (op_priv op)) = hub" using op kntree_iter(3) [OF n] by simp
  show ?thesis
  proof (cases "adjusts hub root r")
    case False
    then show ?thesis using fl op root args env by (auto simp: defs)
  next
    case True
    then consider "fl = 0x1F" "r = root" "hub \<noteq> root" | "fl = 0x1F" "r = hub" "hub \<noteq> root" | "fl = adjust_flags root r" "r = root" "hub \<noteq> root"
      | "fl = adjust_flags root r" "r = hub" "hub \<noteq> root"
      using fl by (auto simp: adjusts_def)
    then show ?thesis
    proof cases
      case 1
      then have t: "ucg_test_flags (op_flags op) UCG_BCAST_ADJUST_ROOT_SEND"
        "ucg_clear_flags (op_flags op) UCG_BCAST_ADJUST_ROOT_SEND = adjust_flags root r"
        using op by (auto simp: bcast_frame_def bcast_flag_defs adjust_flags_def)
      then show ?thesis using 1 op root args env by (simp add: defs split: option.splits Option.bind_split)
    next
      case 2
      then have t: "ucg_test_flags (op_flags op) UCG_BCAST_ADJUST_ROOT_RECV"
        "ucg_clear_flags (op_flags op) UCG_BCAST_ADJUST_ROOT_RECV = adjust_flags root r"
        using op by (auto simp: bcast_frame_def bcast_flag_defs adjust_flags_def)
      then show ?thesis using 2 op root args env by (simp add: defs split: option.splits Option.bind_split)
    next
      case 3
      then have t: "\<not> ucg_test_flags (op_flags op) UCG_BCAST_ADJUST_ROOT_SEND" "fl \<noteq> 0x1F"
        using op by (auto simp: bcast_frame_def bcast_flag_defs adjust_flags_def)
      then show ?thesis using 3 op root args env by (simp add: defs split: option.splits Option.bind_split)
    next
      case 4
      then have t: "\<not> ucg_test_flags (op_flags op) UCG_BCAST_ADJUST_ROOT_RECV" "fl \<noteq> 0x1F"
        using op by (auto simp: bcast_frame_def bcast_flag_defs adjust_flags_def)
      then show ?thesis using 4 op root args env by (simp add: defs split: option.splits Option.bind_split)
    qed
  qed
qed

text \<open>The whole routine: the stage of the root, clearing its flag, and the rest.\<close>

definition adjust_steps :: "'w coll_env \<Rightarrow> 'w step list" where
  "adjust_steps env = if_flag_until_done UCG_BCAST_ADJUST_ROOT (ucg_planc_ucx_bcast_kntree_op_adjust_root env) # parent_steps env"

lemma progress_steps: "ucg_planc_ucx_bcast_kntree_op_progress env = (\<lambda>op w. progress_end (steps (adjust_steps env) op w))"
  by (intro ext) (simp add: ucg_planc_ucx_bcast_kntree_op_progress_def adjust_steps_def parent_steps_def bcast_tail_def)

lemma bcast_acts_rest: "bcast_acts b n degree hub root r = bcast_adjust_acts b hub root r @ bcast_rest_acts b n degree hub r"
  by (simp add: bcast_acts_def bcast_rest_acts_def)

definition adjust_len :: "ucg_rank_t \<Rightarrow> ucg_rank_t \<Rightarrow> ucg_rank_t \<Rightarrow> nat" where
  "adjust_len hub root r = (if adjusts hub root r then 2 else 0)"

lemma length_adjust_acts: "length (bcast_adjust_acts b hub root r) = adjust_len hub root r"
  by (auto simp: bcast_adjust_acts_def adjusts_def adjust_len_def)

lemma follows_adjust:
  assumes n: "kntree_args n degree hub" "r \<in> {0..<n}" and args: "ca_root args = root" and env: "ce_myrank env = r"
    and op: "bcast_fresh tag args fl (kntree_iter n degree hub r) op"
    and fl: "fl = 0x1F \<or> adjusts hub root r \<and> fl = adjust_flags root r"
  defines "k0 \<equiv> if fl = 0x1F then 0 else 1"
  shows "follows env tag (drop k0 (bcast_acts (bcast_buf args) n degree hub root r))
    (\<lambda>k op'. k0 + k = 1 \<and> adjusts hub root r \<and> bcast_fresh tag args (adjust_flags root r) (kntree_iter n degree hub r) op' \<or>
       adjust_len hub root r \<le> k0 + k \<and> bcast_rest_at tag args n degree hub r (k0 + k - adjust_len hub root r) op' \<or>
       k < adjust_len hub root r - k0 \<and> k0 + k \<noteq> 1)
    (steps (adjust_steps env)) op"
  unfolding adjust_steps_def
proof (rule follows_until_done_seq)
  show "ucg_test_flags (op_flags op) UCG_BCAST_ADJUST_ROOT"
    using op fl by (auto simp: bcast_frame_def bcast_flag_defs adjust_flags_def)
  let ?it = "kntree_iter n degree hub r" and ?b = "bcast_buf args"
  let ?as = "if fl = 0x1F then bcast_adjust_acts ?b hub root r else [Wait]"
  have f1F: "adjust_flags root r \<noteq> 0x1F" by (simp add: adjust_flags_def)
  have acts: "drop k0 (bcast_acts ?b n degree hub root r) = ?as @ bcast_rest_acts ?b n degree hub r"
    using fl f1F by (auto simp: bcast_acts_rest k0_def bcast_adjust_acts_def adjusts_def)
  have len: "length ?as = adjust_len hub root r - k0" "k0 \<le> adjust_len hub root r"
    using fl f1F by (auto simp: length_adjust_acts k0_def adjust_len_def)
  show "follows env tag (drop k0 (bcast_acts ?b n degree hub root r))
    (\<lambda>k op'. k0 + k = 1 \<and> adjusts hub root r \<and> bcast_fresh tag args (adjust_flags root r) ?it op' \<or>
       adjust_len hub root r \<le> k0 + k \<and> bcast_rest_at tag args n degree hub r (k0 + k - adjust_len hub root r) op' \<or>
       k < adjust_len hub root r - k0 \<and> k0 + k \<noteq> 1)
    (steps (ucg_planc_ucx_bcast_kntree_op_adjust_root env #
       op_step (\<lambda>op. set_flags (ucg_clear_flags (op_flags op) UCG_BCAST_ADJUST_ROOT) op) # parent_steps env)) op"
    unfolding acts
  proof (rule follows_seq [OF follows_adjust_root [OF n args env op fl], where ats = "bcast_rest_at tag args n degree hub r"])
    fix op' assume "(adjusts hub root r \<and> (if fl = 0x1F then 1 else 0) \<le> length ?as \<longrightarrow> bcast_fresh tag args (adjust_flags root r) ?it op') \<and>
       (\<not> adjusts hub root r \<longrightarrow> bcast_fresh tag args 0x1F ?it op')"
    then have o: "bcast_fresh tag args (if adjusts hub root r then adjust_flags root r else 0x1F) ?it op'"
      by (auto simp: length_adjust_acts adjust_len_def split: if_splits)
    define x :: u64 where "x = (if adjusts hub root r then (if r = root then 4 else 2) else 6)"
    have x: "x \<in> adjust_left" by (simp add: x_def adjust_left_def)
    have c: "ucg_clear_flags (op_flags op') UCG_BCAST_ADJUST_ROOT = 0x18 OR x"
      using o by (auto simp: bcast_frame_def bcast_flag_defs adjust_flags_def x_def split: if_splits)
    show "follows env tag (bcast_rest_acts ?b n degree hub r) (bcast_rest_at tag args n degree hub r)
      (steps (op_step (\<lambda>op. set_flags (ucg_clear_flags (op_flags op) UCG_BCAST_ADJUST_ROOT) op) # parent_steps env)) op'"
    proof (rule follows_none_step)
      show "op_step (\<lambda>op. set_flags (ucg_clear_flags (op_flags op) UCG_BCAST_ADJUST_ROOT) op) op' w = Some (UCG_OK, set_flags (0x18 OR x) op', w)" for w
        by (simp add: op_step_def c)
      show "follows env tag (bcast_rest_acts ?b n degree hub r) (bcast_rest_at tag args n degree hub r) (steps (parent_steps env)) (set_flags (0x18 OR x) op')"
        by (rule follows_rest [OF n _ x]) (use o in \<open>simp add: bcast_frame_def kn_same_tree_refl split: if_splits\<close>)
    qed
  next
    fix k op' assume k: "k < length ?as" "(adjusts hub root r \<and> (if fl = 0x1F then 1 else 0) \<le> k \<longrightarrow> bcast_fresh tag args (adjust_flags root r) ?it op') \<and>
       (\<not> adjusts hub root r \<longrightarrow> bcast_fresh tag args 0x1F ?it op')"
    then have a: "adjusts hub root r" by (auto simp: adjust_len_def len length_adjust_acts fl f1F split: if_splits)
    show "k0 + k = 1 \<and> adjusts hub root r \<and> bcast_fresh tag args (adjust_flags root r) ?it op' \<or>
       adjust_len hub root r \<le> k0 + k \<and> bcast_rest_at tag args n degree hub r (k0 + k - adjust_len hub root r) op' \<or>
       k < adjust_len hub root r - k0 \<and> k0 + k \<noteq> 1"
      using k a len(1) by (auto simp: k0_def split: if_splits)
  qed (use len in auto)
qed

subsection \<open>Progress and trigger\<close>

definition bcast_at :: "c_int \<Rightarrow> ucg_coll_args \<Rightarrow> c_int \<Rightarrow> c_int \<Rightarrow> ucg_rank_t \<Rightarrow> ucg_rank_t \<Rightarrow> nat \<Rightarrow> ucx_op \<Rightarrow> bool" where
  "bcast_at tag args n degree hub r i op \<longleftrightarrow>
     (let root = ca_root args; it = kntree_iter n degree hub r; a = adjust_len hub root r;
          acts = bcast_acts (bcast_buf args) n degree hub root r
      in i = 0 \<and> bcast_fresh tag args 0x1F it op \<or>
         i = 1 \<and> adjusts hub root r \<and> bcast_fresh tag args (adjust_flags root r) it op \<or>
         a \<le> i \<and> (i < length acts \<longrightarrow> acts ! i = Wait) \<and> bcast_rest_at tag args n degree hub r (i - a) op)"

lemma follows_bcast_progress:
  assumes "follows env tag as (\<lambda>k. bcast_at tag args n degree hub r (i + k)) (steps (adjust_steps env)) op"
  shows "follows env tag as (\<lambda>k. bcast_at tag args n degree hub r (i + k)) (ucg_planc_ucx_bcast_kntree_op_progress env) op"
  unfolding progress_steps
  by (rule follows_progress_end [OF assms])
    (simp add: bcast_at_def Let_def bcast_frame_def bcast_rest_at_def bcast_late_def bcast_done_def op_set_status_def)

lemma rest_acts_wait:
  assumes "i < length (bcast_rest_acts b n degree hub r)" and "bcast_rest_acts b n degree hub r ! i = Wait"
  obtains "r \<noteq> hub" and "i = 1" | "i = (if r = hub then 0 else 2) + length (kntree_kids n degree hub r)"
    and "drop i (bcast_rest_acts b n degree hub r) = [Wait]"
proof -
  define as where "as = bcast_parent_acts b n degree hub r"
  define bs where "bs = map (\<lambda>c. Snd c b) (kntree_kids n degree hub r)"
  have e: "bcast_rest_acts b n degree hub r = as @ bs @ [Wait]" by (simp add: bcast_rest_acts_def as_def bs_def)
  have la: "length as = (if r = hub then 0 else 2)" by (simp add: as_def bcast_parent_acts_def)
  consider "i < length as" | "length as \<le> i" "i < length as + length bs" | "i = length as + length bs"
    using assms(1) unfolding e by fastforce
  then show thesis
  proof cases
    case 1
    then have "r \<noteq> hub" "i = 0 \<or> i = 1" using la by (auto split: if_splits)
    then show thesis using assms(2) 1 that(1) unfolding e by (auto simp: as_def bcast_parent_acts_def nth_append)
  next
    case 2
    then have l: "i - length as < length bs" by linarith
    then have "bs ! (i - length as) \<in> set bs" by (rule nth_mem)
    moreover have "bs ! (i - length as) = Wait" using assms(2) 2(1) l unfolding e by (simp add: nth_append)
    ultimately show thesis by (auto simp: bs_def)
  next
    case 3
    then show thesis using that(2) la unfolding e by (simp add: bs_def)
  qed
qed

lemma late_steps:
  assumes "bcast_late tag args it op"
  shows "steps (adjust_steps env) op = call_step (ce_testall env) op"
proof (rule ext)
  fix w
  have "bcast_kntree_send_children env op w = Some (UCG_OK, op, w)" for w
    using assms by (subst bcast_kntree_send_children.simps)
      (auto simp: bcast_late_def bcast_done_def bcast_frame_def ucg_algo_kntree_iter_child_value_def Let_def)
  moreover have "\<not> ucg_test_flags (op_flags op) UCG_BCAST_ADJUST_ROOT" "\<not> ucg_test_flags (op_flags op) UCG_BCAST_RECV_FROM_PARENT"
    using assms by (auto simp: bcast_late_def bcast_done_def bcast_frame_def)
  ultimately show "steps (adjust_steps env) op w = call_step (ce_testall env) op w"
    by (auto simp: adjust_steps_def parent_steps_def bcast_tail_def if_flag_until_done_def split: Option.bind_split)
qed

lemma bcast_progress_follows:
  assumes n: "kntree_args n degree hub" "r \<in> {0..<n}" and args: "ca_root args = root" and env: "ce_myrank env = r"
    and at: "bcast_at tag args n degree hub r i op"
    and w: "i = 0 \<or> i < length (bcast_acts (bcast_buf args) n degree hub root r) \<and> bcast_acts (bcast_buf args) n degree hub root r ! i = Wait"
  shows "follows env tag (drop i (bcast_acts (bcast_buf args) n degree hub root r))
    (\<lambda>k. bcast_at tag args n degree hub r (i + k)) (ucg_planc_ucx_bcast_kntree_op_progress env) op"
proof (rule follows_bcast_progress)
  let ?it = "kntree_iter n degree hub r" and ?b = "bcast_buf args" and ?a = "adjust_len hub root r"
  let ?S = "bcast_acts ?b n degree hub root r" and ?R = "bcast_rest_acts ?b n degree hub r"
  have len: "length ?S = ?a + length ?R" by (simp add: bcast_acts_rest length_adjust_acts)
  have nth: "?S ! (?a + j) = ?R ! j" for j
    unfolding bcast_acts_rest length_adjust_acts [of ?b hub root r, symmetric] by simp
  have Rne: "?R \<noteq> []" by (simp add: bcast_rest_acts_def)
  consider fl where "fl = 0x1F \<and> i = 0 \<or> i = 1 \<and> adjusts hub root r \<and> fl = adjust_flags root r" "bcast_fresh tag args fl ?it op"
    | "?a \<le> i" "i < length ?S" "?S ! i = Wait" "bcast_rest_at tag args n degree hub r (i - ?a) op"
  proof -
    have "0 < length ?R" using Rne by simp
    then have i: "i < length ?S" using w len by linarith
    from at consider "i = 0 \<and> bcast_fresh tag args 0x1F ?it op" | "i = 1 \<and> adjusts hub root r \<and> bcast_fresh tag args (adjust_flags root r) ?it op"
      | "?a \<le> i \<and> (i < length ?S \<longrightarrow> ?S ! i = Wait) \<and> bcast_rest_at tag args n degree hub r (i - ?a) op"
      unfolding bcast_at_def args Let_def by blast
    then show thesis by cases (use that i in blast)+
  qed
  then show "follows env tag (drop i ?S) (\<lambda>k. bcast_at tag args n degree hub r (i + k)) (steps (adjust_steps env)) op"
  proof cases
    case (1 fl)
    have ne: "adjust_flags root r \<noteq> 0x1F" by (simp add: adjust_flags_def)
    then have i: "i = (if fl = 0x1F then 0 else 1)" and fl: "fl = 0x1F \<or> adjusts hub root r \<and> fl = adjust_flags root r" using 1(1) by auto
    have wait0: "?S ! 0 \<noteq> Wait" if "adjusts hub root r"
      using that by (auto simp: bcast_acts_def bcast_adjust_acts_def adjusts_def)
    have il: "i \<le> length ?S" using i len Rne fl by (auto simp: adjust_len_def Suc_le_eq)
    show ?thesis
    proof (rule follows_waits [OF follows_adjust [OF n args env 1(2) fl, folded i]])
      fix k op' assume k: "k = length (drop i ?S) \<or> k < length (drop i ?S) \<and> drop i ?S ! k = Wait"
        and st: "i + k = 1 \<and> adjusts hub root r \<and> bcast_fresh tag args (adjust_flags root r) ?it op' \<or>
          ?a \<le> i + k \<and> bcast_rest_at tag args n degree hub r (i + k - ?a) op' \<or> k < ?a - i \<and> i + k \<noteq> 1"
      have "k = length ?S - i \<or> k < length ?S - i \<and> ?S ! (i + k) = Wait" using k il by auto
      moreover have "\<not> (k < ?a - i \<and> i + k \<noteq> 1)"
      proof
        assume a: "k < ?a - i \<and> i + k \<noteq> 1"
        then have "adjusts hub root r" "i + k = 0" by (auto simp: adjust_len_def split: if_splits)
        then show False using calculation wait0 a len by auto
      qed
      ultimately show "bcast_at tag args n degree hub r (i + k) op'"
        using st unfolding bcast_at_def args Let_def by auto
    qed
  next
    case 2
    define j where "j = i - ?a"
    have i: "i = ?a + j" using 2(1) by (simp add: j_def)
    have j: "j < length ?R" "?R ! j = Wait" using 2(2,3) len nth unfolding i by simp_all
    have dr: "drop i ?S = drop j ?R" by (simp add: i bcast_acts_rest length_adjust_acts)
    have at': "bcast_at tag args n degree hub r (i + k) op'"
      if "k = length (drop j ?R) \<or> k < length (drop j ?R) \<and> drop j ?R ! k = Wait" "bcast_rest_at tag args n degree hub r (j + k) op'" for k op'
    proof -
      have "i + k < length ?S \<longrightarrow> ?S ! (i + k) = Wait" using that(1) j len nth [of "j + k"] by (auto simp: i add.assoc)
      then show ?thesis using that(2) unfolding bcast_at_def args Let_def by (simp add: i)
    qed
    show ?thesis using j unfolding dr
    proof (cases rule: rest_acts_wait)
      case 1
      then obtain x where x: "x \<in> adjust_left" "bcast_fresh tag args (8 OR x) ?it op"
        using 2(4) j_def by (auto simp: bcast_rest_at_def)
      have "\<not> ucg_test_flags (op_flags op) UCG_BCAST_ADJUST_ROOT" using x by (auto simp: bcast_frame_def adjust_left_def bcast_flag_defs)
      then have e: "steps (adjust_steps env) op = steps (parent_steps env) op"
        by (intro ext) (simp add: adjust_steps_def if_flag_until_done_def)
      have "follows env tag (drop j ?R) (\<lambda>k. bcast_rest_at tag args n degree hub r (j + k)) (steps (parent_steps env)) op"
        unfolding 1(2) by (rule follows_rest_waiting [OF n x(2,1) 1(1)])
      then show "follows env tag (drop j ?R) (\<lambda>k. bcast_at tag args n degree hub r (i + k)) (steps (adjust_steps env)) op"
        by (intro follows_cong [where f = "steps (adjust_steps env)" and g = "steps (parent_steps env)", OF e]) (rule follows_waits [OF _ at'])
    next
      case last: 2
      have l: "bcast_late tag args ?it op" using 2(4) last(1) j_def by (simp add: bcast_rest_at_def)
      have r1: "bcast_rest_at tag args n degree hub r (j + k) op" for k
        using l last(1) by (auto simp: bcast_rest_at_def)
      have "follows env tag [Wait] (\<lambda>k. bcast_rest_at tag args n degree hub r (j + k)) (call_step (ce_testall env)) op"
        by (rule follows_call) (use r1 [of 0] r1 [of 1] in simp_all)
      then have "follows env tag (drop j ?R) (\<lambda>k. bcast_rest_at tag args n degree hub r (j + k)) (call_step (ce_testall env)) op"
        unfolding last(2) .
      then show "follows env tag (drop j ?R) (\<lambda>k. bcast_at tag args n degree hub r (i + k)) (steps (adjust_steps env)) op"
        by (intro follows_cong [where f = "steps (adjust_steps env)" and g = "call_step (ce_testall env)", OF late_steps [OF l]]) (rule follows_waits [OF _ at'])
    qed
  qed
qed

text \<open>An operation that has been made with \<open>args\<close>, or has run before.\<close>

definition bcast_ready :: "c_int \<Rightarrow> ucg_coll_args \<Rightarrow> c_int \<Rightarrow> c_int \<Rightarrow> ucg_rank_t \<Rightarrow> ucg_rank_t \<Rightarrow> ucx_op \<Rightarrow> bool" where
  "bcast_ready tag args n degree hub r op \<longleftrightarrow>
     op_id op = tag \<and> op_args op = args \<and> kn_same_tree (kntree_iter n degree hub r) (uo_kntree_iter (op_priv op))"

lemma bcast_trigger_starts:
  assumes n: "kntree_args n degree hub" "r \<in> {0..<n}" and op: "bcast_ready tag args n degree hub r op"
  shows "\<exists>op0. bcast_at tag args n degree hub r 0 op0 \<and> (\<forall>w. ucg_planc_ucx_bcast_kntree_op_trigger env op w =
    trigger_end (ucg_planc_ucx_bcast_kntree_op_progress env op0 (ce_state_reset env w)))"
proof -
  let ?it = "kntree_iter n degree hub r"
  define op0 where "op0 = upd_priv (\<lambda>p. p\<lparr>uo_kntree_iter := ?it, uo_flags := UCG_BCAST_KNTREE_FLAGS\<rparr>) (fst (ucg_planc_ucx_op_reset env op undefined))"
  have reset: "ucg_algo_kntree_iter_reset (uo_kntree_iter (op_priv op)) = Some ?it"
    by (rule kntree_iter(2) [OF n]) (use op in \<open>simp add: bcast_ready_def\<close>)
  have "UCG_BCAST_KNTREE_FLAGS = 0x1F" by (simp add: UCG_BCAST_KNTREE_FLAGS_def bcast_flag_defs)
  then have "bcast_at tag args n degree hub r 0 op0"
    using op by (simp add: bcast_at_def bcast_frame_def bcast_ready_def op0_def ucg_planc_ucx_op_reset_def kn_same_tree_refl op_set_status_def)
  moreover have "ucg_planc_ucx_bcast_kntree_op_trigger env op w =
      trigger_end (ucg_planc_ucx_bcast_kntree_op_progress env op0 (ce_state_reset env w))" for w
    by (simp add: op0_def ucg_planc_ucx_bcast_kntree_op_trigger_def ucg_planc_ucx_op_reset_def reset)
  ultimately show ?thesis by blast
qed

lemma bcast_new_ready:
  assumes "ucg_planc_ucx_bcast_kntree_op_new env grp vgroup blank args config h w = Some (Some op, h', w')"
    and "ce_size env = n" and "ce_myrank env = r"
    and "hub = (if bc_root_adjust config then 0 else ca_root args)" and "kntree_args n (bc_kntree_degree config) hub" and "r \<in> {0..<n}"
  shows "bcast_ready (op_id op) args n (bc_kntree_degree config) hub r op"
  using assms kntree_iter(1) [OF assms(5,6)]
  by (auto simp: ucg_planc_ucx_bcast_kntree_op_new_def ucx_op_new_def ucg_plan_op_ctor_def ucg_request_ctor_def
      ucg_planc_ucx_op_init_def bcast_ready_def kn_same_tree_refl split: prod.splits bool.splits if_splits bind_splits)

end
