(* ===== verification/Bcast_Spec.thy ===== *)
theory Bcast_Spec
  imports Bcast_Script Coll_Net
begin

text \<open>What the k-nomial tree broadcast guarantees: every rank that finishes has the root's data, and the ranks do not deadlock.\<close>

subsection \<open>All ranks together\<close>

text \<open>A collective on \<open>n\<close> ranks: the tree has degree \<open>degree\<close> and root \<open>hub\<close>, and rank \<open>r\<close> has the arguments \<open>B r\<close>.\<close>

definition bcast_valid ::
    "c_int \<Rightarrow> c_int \<Rightarrow> ucg_rank_t \<Rightarrow> ucg_rank_t \<Rightarrow> (ucg_rank_t \<Rightarrow> ucg_coll_args) \<Rightarrow> (ucg_rank_t \<Rightarrow> 'w coll_env) \<Rightarrow> bool" where
  "bcast_valid n degree hub root B E \<longleftrightarrow> kntree_args n degree hub \<and> root \<in> {0..<n} \<and>
     (\<forall>r \<in> {0..<n}. ca_root (B r) = root \<and> ce_myrank (E r) = r)"

definition bcast_script ::
    "c_int \<Rightarrow> c_int \<Rightarrow> ucg_rank_t \<Rightarrow> ucg_rank_t \<Rightarrow> (ucg_rank_t \<Rightarrow> ucg_coll_args) \<Rightarrow> ucg_rank_t \<Rightarrow> coll_act list" where
  "bcast_script n degree hub root B r = bcast_acts (bcast_buf (B r)) n degree hub root r"

lemma bcast_peers:
  assumes "kntree_args n degree hub" and "root \<in> {0..<n}" and "r \<in> {0..<n}"
  shows "peers_of (bcast_acts b n degree hub root r) \<subseteq> {0..<n}"
proof -
  have hub: "hub \<in> {0..<n}" using assms(1) by (simp add: kntree_args_def)
  have kids: "peers_of (map (\<lambda>c. Snd c b) (kntree_kids n degree hub r)) \<subseteq> {0..<n}"
    using kntree_kids_ranks(1) [OF assms(1,3)] by (auto simp: peers_of_def)
  show ?thesis using assms(2) hub kids kntree_kids_ranks(4) [OF assms(1,3)]
    by (auto simp: bcast_acts_def bcast_adjust_acts_def bcast_parent_acts_def)
qed

interpretation bcast: scripted_coll
  "\<lambda>(n, degree, hub, root, tag, B, E :: ucg_rank_t \<Rightarrow> 'w coll_env). bcast_valid n degree hub root B E"
  "\<lambda>(n, degree, hub, root, tag, B, E). {0..<n}" "\<lambda>(n, degree, hub, root, tag, B, E). E" "\<lambda>(n, degree, hub, root, tag, B, E). tag"
  "\<lambda>(n, degree, hub, root, tag, B, E). bcast_script n degree hub root B" "\<lambda>_ _. 0"
  "\<lambda>(n, degree, hub, root, tag, B, E) r. bcast_at tag (B r) n degree hub r"
  "\<lambda>(n, degree, hub, root, tag, B, E) r. bcast_ready tag (B r) n degree hub r"
  ucg_planc_ucx_bcast_kntree_op_trigger ucg_planc_ucx_bcast_kntree_op_progress
proof (unfold_locales, goal_cases)
  case (1 g r)
  then show ?case using bcast_peers by (auto simp: bcast_script_def bcast_valid_def split: prod.splits)
next
  case (3 g r i op)
  obtain n degree hub root tag B E where g: "g = (n, degree, hub, root, tag, B, E)" by (cases g)
  have a: "kntree_args n degree hub" "r \<in> {0..<n}" "ca_root (B r) = root" "ce_myrank (E r) = r"
    using 3(1,2) by (simp_all add: g bcast_valid_def)
  have "follows (E r) tag (drop i (bcast_script n degree hub root B r)) (\<lambda>k. bcast_at tag (B r) n degree hub r (i + k))
      (ucg_planc_ucx_bcast_kntree_op_progress (E r)) op"
    unfolding bcast_script_def by (rule bcast_progress_follows [OF a]) (use 3(3,4) in \<open>auto simp: g bcast_script_def\<close>)
  then show ?case by (intro exI [where x = "[]"]) (simp add: g)
next
  case (4 g r op w st op' w')
  then show ?case by (auto simp: progress_steps progress_end_def split: prod.splits)
next
  case (5 g r op)
  obtain n degree hub root tag B E where g: "g = (n, degree, hub, root, tag, B, E)" by (cases g)
  have a: "kntree_args n degree hub" "r \<in> {0..<n}" "bcast_ready tag (B r) n degree hub r op"
    using 5 by (simp_all add: g bcast_valid_def)
  from bcast_trigger_starts [OF a, of "E r"] show ?case by (auto simp: g)
qed simp

subsection \<open>The data\<close>

text \<open>What is known of a rank that uses only the buffer \<open>b\<close>: nothing is outstanding, and what it has sent.\<close>

definition calm :: "c_buf \<Rightarrow> 'v \<Rightarrow> (ucg_rank_t \<Rightarrow> nat) \<Rightarrow> 'v sym \<Rightarrow> bool" where
  "calm b v sent s \<longleftrightarrow> sy_pend s = [] \<and> sy_lent s = [] \<and> (\<forall>p. sy_out s p = replicate (sent p) (b, v))"

lemma calm_sends:
  assumes "sy_pend s = []" and "sy_known s b = Some v" and "\<And>p. sy_out s p = replicate (sent p) (b, v)"
  shows "\<exists>s'. sym_run A X r (map (\<lambda>c. Snd c b) cs @ [Wait]) s = Some s' \<and>
    calm b v (\<lambda>p. sent p + snd_count p (map (\<lambda>c. Snd c b) cs)) s' \<and> sy_known s' b = Some v \<and> sy_rcvd s' = sy_rcvd s"
  using assms
proof (induction cs arbitrary: s sent)
  case (Cons c cs)
  let ?s = "s\<lparr>sy_lent := b # sy_lent s, sy_out := (sy_out s)(c := sy_out s c @ [(b, v)])\<rparr>"
  have out: "sy_out ?s p = replicate (if p = c then sent p + 1 else sent p) (b, v)" for p
    using Cons.prems(3) by (simp add: replicate_append_same [symmetric])
  from Cons.IH [of ?s, OF _ _ out] Cons.prems(1,2) obtain s' where s':
    "sym_run A X r (map (\<lambda>c. Snd c b) cs @ [Wait]) ?s = Some s'"
    "calm b v (\<lambda>p. (if p = c then sent p + 1 else sent p) + snd_count p (map (\<lambda>c. Snd c b) cs)) s'" "sy_known s' b = Some v"
    "sy_rcvd s' = sy_rcvd s" by auto
  have "sym_run A X r (map (\<lambda>c. Snd c b) (c # cs) @ [Wait]) s = Some s'" using s'(1) Cons.prems(1,2) by simp
  moreover have "calm b v (\<lambda>p. sent p + snd_count p (map (\<lambda>c. Snd c b) (c # cs))) s'" using s'(2) by (auto simp: calm_def)
  ultimately show ?case using s'(3,4) by blast
qed (simp add: calm_def)

lemma calm_receive:
  assumes "calm b v sent s" and "sy_rcvd s p < length (X p)" and "snd (X p ! sy_rcvd s p) = v"
    and "ar_fits A p (fst (X p ! sy_rcvd s p)) r b"
  shows "\<exists>s'. sym_run A X r [Rcv p b, Wait] s = Some s' \<and> calm b v sent s' \<and> sy_known s' b = Some v \<and>
    sy_rcvd s' = (sy_rcvd s)(p := sy_rcvd s p + 1)"
  using assms by (simp add: calm_def)

text \<open>The messages from \<open>p\<close> to \<open>r\<close>, all of them with the root's data.\<close>

definition bcast_msgs ::
    "c_int \<Rightarrow> c_int \<Rightarrow> ucg_rank_t \<Rightarrow> ucg_rank_t \<Rightarrow> (ucg_rank_t \<Rightarrow> ucg_coll_args) \<Rightarrow> 'v \<Rightarrow> ucg_rank_t \<Rightarrow> ucg_rank_t \<Rightarrow> (c_buf \<times> 'v) list" where
  "bcast_msgs n degree hub root B v r p = replicate (snd_count r (bcast_script n degree hub root B p)) (bcast_buf (B p), v)"

definition bcast_known :: "ucg_rank_t \<Rightarrow> (ucg_rank_t \<Rightarrow> ucg_coll_args) \<Rightarrow> 'v \<Rightarrow> ucg_rank_t \<Rightarrow> c_buf \<Rightarrow> 'v option" where
  "bcast_known root B v r = (if r = root then [bcast_buf (B root) \<mapsto> v] else (\<lambda>_. None))"

lemma bcast_msgs_nth:
  assumes "0 < snd_count r (bcast_script n degree hub root B p)"
  shows "0 < length (bcast_msgs n degree hub root B v r p)" and "bcast_msgs n degree hub root B v r p ! 0 = (bcast_buf (B p), v)"
  using assms by (simp_all add: bcast_msgs_def)

lemma root_sends: "hub \<noteq> root \<Longrightarrow> 0 < snd_count hub (bcast_script n degree hub root B root)"
  by (simp add: bcast_script_def bcast_acts_def bcast_adjust_acts_def)

lemma parent_sends:
  assumes n: "kntree_args n degree hub" "r \<in> {0..<n}" and r: "r \<noteq> hub"
  shows "0 < snd_count r (bcast_script n degree hub root B (kntree_up n degree hub r))"
proof -
  let ?p = "kntree_up n degree hub r"
  have p: "?p \<in> {0..<n}" using kntree_kids_ranks(4) [OF n r] .
  have "r \<in> set (kntree_kids n degree hub ?p)" using kntree_kids_ranks(3) [OF n(1) p n(2)] r by simp
  then have "Snd r (bcast_buf (B ?p)) \<in> set (bcast_script n degree hub root B ?p)"
    by (simp add: bcast_script_def bcast_acts_def)
  then have "snd_count r (bcast_script n degree hub root B ?p) \<noteq> 0" unfolding snd_count_0 by blast
  then show ?thesis by simp
qed

lemma bcast_rank_plays:
  assumes v: "bcast_valid n degree hub root B E" and r: "r \<in> {0..<n}"
    and fits: "\<And>p. p \<in> {0..<n} \<Longrightarrow> ar_fits A p (bcast_buf (B p)) r (bcast_buf (B r))"
  shows "\<exists>s. sym_run A (bcast_msgs n degree hub root B v r) r (bcast_script n degree hub root B r) (sym_start (bcast_known root B v r)) = Some s \<and>
    sy_known s (bcast_buf (B r)) = Some v \<and> (\<forall>p. bcast_msgs n degree hub root B v p r = sy_out s p)"
proof -
  let ?X = "bcast_msgs n degree hub root B v r" and ?b = "bcast_buf (B r)" and ?s0 = "sym_start (bcast_known root B v r)"
  have n: "kntree_args n degree hub" and root: "root \<in> {0..<n}" using v by (simp_all add: bcast_valid_def)
  have calm0: "calm ?b v (\<lambda>_. 0) ?s0" by (simp add: calm_def sym_start_def)
  have rc0: "sy_rcvd ?s0 = (\<lambda>_. 0)" by (simp add: sym_start_def)
  let ?A = "bcast_adjust_acts ?b hub root r"
  obtain s1 where s1: "sym_run A ?X r ?A ?s0 = Some s1" "calm ?b v (\<lambda>p. snd_count p ?A) s1"
    "r = hub \<Longrightarrow> sy_known s1 ?b = Some v" "r \<noteq> hub \<Longrightarrow> sy_rcvd s1 = (\<lambda>_. 0)"
  proof -
    consider "hub = root \<or> r \<noteq> root \<and> r \<noteq> hub" | "hub \<noteq> root" "r = root" | "hub \<noteq> root" "r = hub" by blast
    then show thesis
    proof cases
      case 1
      then have "?A = []" by (auto simp: bcast_adjust_acts_def)
      then show thesis using that [of ?s0] calm0 rc0 1 by (auto simp: bcast_known_def sym_start_def)
    next
      case 2
      then have A: "?A = map (\<lambda>c. Snd c ?b) [hub] @ [Wait]" by (simp add: bcast_adjust_acts_def)
      have "\<exists>s'. sym_run A ?X r (map (\<lambda>c. Snd c ?b) [hub] @ [Wait]) ?s0 = Some s' \<and>
          calm ?b v (\<lambda>p. 0 + snd_count p (map (\<lambda>c. Snd c ?b) [hub])) s' \<and> sy_known s' ?b = Some v \<and> sy_rcvd s' = sy_rcvd ?s0"
        by (rule calm_sends) (use 2 in \<open>simp_all add: sym_start_def bcast_known_def\<close>)
      then show thesis using that 2 rc0 unfolding A by auto
    next
      case 3
      then have A: "?A = [Rcv root ?b, Wait]" by (simp add: bcast_adjust_acts_def)
      note m = bcast_msgs_nth [OF root_sends [OF 3(1), of n degree B], of v]
      have "\<exists>s'. sym_run A ?X r [Rcv root ?b, Wait] ?s0 = Some s' \<and> calm ?b v (\<lambda>_. 0) s' \<and> sy_known s' ?b = Some v \<and>
          sy_rcvd s' = (sy_rcvd ?s0)(root := sy_rcvd ?s0 root + 1)"
        by (rule calm_receive [OF calm0]) (use m 3 fits [OF root] in \<open>simp_all add: sym_start_def\<close>)
      then show thesis using that 3 unfolding A by auto
    qed
  qed
  let ?P = "bcast_parent_acts ?b n degree hub r"
  obtain s2 where s2: "sym_run A ?X r ?P s1 = Some s2" "calm ?b v (\<lambda>p. snd_count p ?A) s2" "sy_known s2 ?b = Some v"
  proof (cases "r = hub")
    case True
    then show thesis using that [of s1] s1(2,3) by (simp add: bcast_parent_acts_def)
  next
    case False
    let ?p = "kntree_up n degree hub r"
    have p: "?p \<in> {0..<n}" by (rule kntree_kids_ranks(4) [OF n r False])
    note m = bcast_msgs_nth [OF parent_sends [OF n r False, of root B], of v]
    have "\<exists>s'. sym_run A ?X r [Rcv ?p ?b, Wait] s1 = Some s' \<and> calm ?b v (\<lambda>p. snd_count p ?A) s' \<and> sy_known s' ?b = Some v \<and>
        sy_rcvd s' = (sy_rcvd s1)(?p := sy_rcvd s1 ?p + 1)"
      by (rule calm_receive [OF s1(2)]) (use m False fits [OF p] s1(4) in simp_all)
    then show thesis using that False by (auto simp: bcast_parent_acts_def)
  qed
  let ?K = "map (\<lambda>c. Snd c ?b) (kntree_kids n degree hub r)"
  have "\<exists>s'. sym_run A ?X r (?K @ [Wait]) s2 = Some s' \<and> calm ?b v (\<lambda>p. snd_count p ?A + snd_count p ?K) s' \<and>
      sy_known s' ?b = Some v \<and> sy_rcvd s' = sy_rcvd s2"
    by (rule calm_sends) (use s2 in \<open>simp_all add: calm_def\<close>)
  then obtain s3 where s3: "sym_run A ?X r (?K @ [Wait]) s2 = Some s3" "calm ?b v (\<lambda>p. snd_count p ?A + snd_count p ?K) s3"
    "sy_known s3 ?b = Some v" by blast
  have "sym_run A ?X r (bcast_script n degree hub root B r) ?s0 = Some s3"
    unfolding bcast_script_def bcast_acts_def sym_run_append s1(1) s2(1) Option.bind.bind_lunit using s3(1) by (simp add: sym_run_append)
  moreover have "bcast_msgs n degree hub root B v p r = sy_out s3 p" for p
  proof -
    have "snd_count p ?P = 0" by (simp add: bcast_parent_acts_def)
    then show ?thesis using s3(2) by (simp add: bcast_msgs_def bcast_script_def bcast_acts_def calm_def)
  qed
  ultimately show ?thesis using s3(3) by blast
qed

definition bcast_idle ::
    "c_int \<Rightarrow> c_int \<Rightarrow> ucg_rank_t \<Rightarrow> c_int \<Rightarrow> (ucg_rank_t \<Rightarrow> ucg_coll_args) \<Rightarrow> 'w coll_conf \<Rightarrow> bool" where
  "bcast_idle n degree hub tag B c \<longleftrightarrow> (\<forall>r \<in> {0..<n}. cf_on c r = None \<and> bcast_ready tag (B r) n degree hub r (cf_op c r))"

text \<open>
  C6: the k-nomial tree broadcast delivers: in any run of \<open>n\<close> ranks, over any p2p layer that delivers messages in the order of
  their posting, when the operation of a rank has status \<open>UCG_OK\<close> then its buffer holds what the root's buffer held at the
  beginning, whatever the degree and the root of the tree are, the root of the collective being the tree's root or not.
\<close>

theorem bcast_kntree_delivers:
  assumes "bcast_valid n degree hub root B E" and "data_promises A {0..<n} E tag view"
    and "\<And>p r. p \<in> {0..<n} \<Longrightarrow> r \<in> {0..<n} \<Longrightarrow> ar_fits A p (bcast_buf (B p)) r (bcast_buf (B r))"
    and "bcast_idle n degree hub tag B c0" and "net_idle {0..<n} (\<lambda>_ _. None) (view (cf_world c0))"
    and "coll_run {0..<n} E ucg_planc_ucx_bcast_kntree_op_trigger ucg_planc_ucx_bcast_kntree_op_progress view c0 c"
    and "r \<in> {0..<n}" and "cf_on c r = Some UCG_OK" and "op_status (cf_op c r) = UCG_OK"
  shows "nt_val (view (cf_world c)) r (bcast_buf (B r)) = nt_val (view (cf_world c0)) root (bcast_buf (B root))"
proof -
  let ?g = "(n, degree, hub, root, tag, B, E)" and ?S = "bcast_script n degree hub root B"
  define v where "v = nt_val (view (cf_world c0)) root (bcast_buf (B root))"
  let ?K = "bcast_known root B v" and ?X = "bcast_msgs n degree hub root B v"
  have "\<forall>r \<in> {0..<n}. \<exists>s. sym_run A (?X r) r (?S r) (sym_start (?K r)) = Some s \<and>
      sy_known s (bcast_buf (B r)) = Some v \<and> (\<forall>p. ?X p r = sy_out s p)"
    by (intro ballI bcast_rank_plays [OF assms(1)] assms(3))
  then obtain fin where fin: "\<forall>r \<in> {0..<n}. sym_run A (?X r) r (?S r) (sym_start (?K r)) = Some (fin r) \<and>
      sy_known (fin r) (bcast_buf (B r)) = Some v \<and> (\<forall>p. ?X p r = sy_out (fin r) p)" by (rule bchoice [THEN exE])
  have P: "plays A {0..<n} ?S ?K ?X fin" using fin by (simp add: plays_def)
  have net: "net_idle {0..<n} ?K (view (cf_world c0))"
    unfolding net_idle_def
  proof (intro conjI ballI allI impI)
    fix r b u assume "?K r b = Some u"
    then have "r = root \<and> b = bcast_buf (B root) \<and> u = v" by (simp add: bcast_known_def split: if_splits)
    then show "nt_val (view (cf_world c0)) r b = u" by (simp add: v_def)
  qed (use assms(5) in \<open>simp_all add: net_idle_def\<close>)
  have idle: "bcast.coll_idle ?g c0" using assms(4) by (simp add: bcast.coll_idle_def bcast_idle_def)
  have "nt_val (view (cf_world c)) r (bcast_buf (B r)) = v"
    by (rule bcast.run_data(2) [of ?g A view ?K ?X fin c0 c r])
      (use assms P net idle fin in \<open>simp_all\<close>)
  then show ?thesis by (simp add: v_def)
qed

subsection \<open>No deadlock\<close>

text \<open>The tests of the root's message come first, then those of a rank after those of its parent.\<close>

definition bcast_depth :: "c_int \<Rightarrow> ucg_rank_t \<Rightarrow> ucg_rank_t \<Rightarrow> ucg_rank_t \<Rightarrow> nat \<Rightarrow> nat" where
  "bcast_depth n hub root r i = (if i < adjust_len hub root r then 1 else 2 + nat ((r - hub) mod n))"

lemma bcast_receives:
  assumes "j < length (bcast_acts b n degree hub root r)" and "bcast_acts b n degree hub root r ! j = Rcv p c"
  obtains "hub \<noteq> root" and "r = hub" and "j = 0" and "p = root"
    | "r \<noteq> hub" and "j = adjust_len hub root r" and "p = kntree_up n degree hub r"
proof -
  let ?A = "bcast_adjust_acts b hub root r" and ?P = "bcast_parent_acts b n degree hub r" and ?K = "map (\<lambda>c. Snd c b) (kntree_kids n degree hub r)"
  have S: "bcast_acts b n degree hub root r = ?A @ ?P @ ?K @ [Wait]" by (simp add: bcast_acts_def)
  have lA: "length ?A = adjust_len hub root r" by (rule length_adjust_acts)
  consider "j < length ?A" | "length ?A \<le> j" "j - length ?A < length ?P" | "length ?A + length ?P \<le> j" by linarith
  then show thesis
  proof cases
    case 1
    then have "?A ! j = Rcv p c" using assms(2) unfolding S by (simp add: nth_append)
    then have "j = 0 \<and> hub \<noteq> root \<and> r = hub \<and> p = root"
      using 1 by (auto simp: bcast_adjust_acts_def nth_Cons split: if_splits nat.splits)
    then show thesis using that(1) by blast
  next
    case 2
    then have "?P ! (j - length ?A) = Rcv p c" using assms(2) unfolding S by (simp add: nth_append)
    then have "j - length ?A = 0 \<and> r \<noteq> hub \<and> p = kntree_up n degree hub r"
      using 2(2) by (auto simp: bcast_parent_acts_def nth_Cons split: if_splits nat.splits)
    then show thesis using that(2) 2(1) lA by simp
  next
    case 3
    have l: "j - (length ?A + length ?P) < length (?K @ [Wait])" using 3 assms(1) unfolding S by simp
    have "bcast_acts b n degree hub root r ! j = (?K @ [Wait]) ! (j - (length ?A + length ?P))"
    proof -
      have "\<not> j < length (?A @ ?P)" "length (?A @ ?P) = length ?A + length ?P" using 3 by simp_all
      then show ?thesis unfolding S append_assoc [symmetric, of ?A ?P] nth_append [of "?A @ ?P"] by simp
    qed
    then have "bcast_acts b n degree hub root r ! j \<in> set (?K @ [Wait])" using nth_mem [OF l] by (simp only:)
    then show thesis using assms(2) by auto
  qed
qed

lemma bcast_sender:
  assumes v: "bcast_valid n degree hub root B E" and r: "r \<in> {0..<n}"
    and i: "i < length (bcast_script n degree hub root B r)" "bcast_script n degree hub root B r ! i = Wait"
    and j: "j < i" "bcast_script n degree hub root B r ! j = Rcv p b"
  shows "\<exists>i'. rcv_count p (take (Suc j) (bcast_script n degree hub root B r)) \<le> snd_count r (take i' (bcast_script n degree hub root B p)) \<and>
    (\<forall>l < i'. l < length (bcast_script n degree hub root B p) \<longrightarrow> bcast_script n degree hub root B p ! l = Wait \<longrightarrow>
       bcast_depth n hub root p l < bcast_depth n hub root r i)"
proof -
  have n: "kntree_args n degree hub" and root: "root \<in> {0..<n}" using v by (simp_all add: bcast_valid_def)
  let ?S = "bcast_script n degree hub root B"
  have jl: "j < length (bcast_acts (bcast_buf (B r)) n degree hub root r)" "bcast_acts (bcast_buf (B r)) n degree hub root r ! j = Rcv p b"
    using i(1) j by (simp_all add: bcast_script_def)
  from jl show ?thesis
  proof (cases rule: bcast_receives)
    case 1
    have "?S r = Rcv root (bcast_buf (B r)) # Wait # bcast_rest_acts (bcast_buf (B r)) n degree hub r"
      using 1 by (simp add: bcast_script_def bcast_acts_rest bcast_adjust_acts_def)
    moreover have "?S root = Snd hub (bcast_buf (B root)) # Wait # bcast_rest_acts (bcast_buf (B root)) n degree hub root"
      using 1 by (simp add: bcast_script_def bcast_acts_rest bcast_adjust_acts_def)
    ultimately show ?thesis using 1 by (intro exI [where x = 1]) simp
  next
    case 2
    have p: "p \<in> {0..<n}" using kntree_kids_ranks(4) [OF n r 2(1)] 2(3) by simp
    have deep: "nat ((p - hub) mod n) < nat ((r - hub) mod n)"
      using kt.parent_depth [of "(n, degree, hub, True)" r] n r 2(1,3) by (simp add: kntree_up_def)
    have last: "?S p = butlast (?S p) @ [Wait]" by (simp add: bcast_script_def bcast_acts_def butlast_append)
    have "0 < snd_count r (?S p)" unfolding 2(3) by (rule parent_sends [OF n r 2(1)])
    then have "1 \<le> snd_count r (butlast (?S p))" by (subst (asm) last) simp
    moreover have "take (length (?S p) - 1) (?S p) = butlast (?S p)" by (simp add: butlast_conv_take)
    moreover have "rcv_count p (take (Suc j) (?S r)) \<le> 1"
    proof -
      let ?A = "bcast_adjust_acts (bcast_buf (B r)) hub root r"
      have la: "length ?A = j" using 2(2) length_adjust_acts by simp
      have s: "?S r = ?A @ Rcv p (bcast_buf (B r)) # drop (Suc j) (?S r)"
        using 2 la by (simp add: bcast_script_def bcast_acts_def bcast_parent_acts_def)
      have "take (Suc j) (?S r) = ?A @ [Rcv p (bcast_buf (B r))]" by (subst s) (simp add: la)
      moreover have "rcv_count p ?A = 0" using 2(1) by (simp add: bcast_adjust_acts_def)
      ultimately show ?thesis by simp
    qed
    moreover have "bcast_depth n hub root p l < bcast_depth n hub root r i" for l
      using deep j(1) 2(2) by (simp add: bcast_depth_def)
    ultimately show ?thesis by (intro exI [where x = "length (?S p) - 1"]) simp
  qed
qed

interpretation bcast: timed_coll
  "\<lambda>(n, degree, hub, root, tag, B, E :: ucg_rank_t \<Rightarrow> 'w coll_env). bcast_valid n degree hub root B E"
  "\<lambda>(n, degree, hub, root, tag, B, E). {0..<n}" "\<lambda>(n, degree, hub, root, tag, B, E). E" "\<lambda>(n, degree, hub, root, tag, B, E). tag"
  "\<lambda>(n, degree, hub, root, tag, B, E). bcast_script n degree hub root B" "\<lambda>_ _. 0"
  "\<lambda>(n, degree, hub, root, tag, B, E) r. bcast_at tag (B r) n degree hub r"
  "\<lambda>(n, degree, hub, root, tag, B, E) r. bcast_ready tag (B r) n degree hub r"
  ucg_planc_ucx_bcast_kntree_op_trigger ucg_planc_ucx_bcast_kntree_op_progress
  "\<lambda>(n, degree, hub, root, tag, B, E). bcast_depth n hub root"
proof (unfold_locales, goal_cases)
  case (1 g r i j p b)
  obtain n degree hub root tag B E where g: "g = (n, degree, hub, root, tag, B, E)" by (cases g)
  show ?case using bcast_sender [of n degree hub root B E r i j p b] 1 unfolding g by simp
qed

text \<open>
  C18: the broadcast does not deadlock: when all ranks have been triggered, none has failed and one is still in progress,
  then there is one in progress for which every message it has posted a receive for has been sent.
\<close>

theorem bcast_kntree_no_deadlock:
  assumes "bcast_valid n degree hub root B E" and "chan_promises {0..<n} E tag ok sent rcvd" and "bcast_idle n degree hub tag B c0"
    and "ok (cf_world c0)" and "\<And>r p. r \<in> {0..<n} \<Longrightarrow> p \<in> {0..<n} \<Longrightarrow> sent (cf_world c0) r p = 0 \<and> rcvd (cf_world c0) r p = 0"
    and "coll_run {0..<n} E ucg_planc_ucx_bcast_kntree_op_trigger ucg_planc_ucx_bcast_kntree_op_progress (\<lambda>w. (ok w, sent w, rcvd w)) c0 c"
    and "\<And>r. r \<in> {0..<n} \<Longrightarrow> cf_on c r = Some UCG_OK"
    and "\<And>r. r \<in> {0..<n} \<Longrightarrow> op_status (cf_op c r) = UCG_OK \<or> op_status (cf_op c r) = UCG_INPROGRESS"
    and "q \<in> {0..<n}" and "op_status (cf_op c q) = UCG_INPROGRESS"
  shows "\<exists>r \<in> {0..<n}. op_status (cf_op c r) = UCG_INPROGRESS \<and>
    (\<forall>p \<in> {0..<n}. rcvd (cf_world c) r p \<le> sent (cf_world c) p r)"
proof -
  let ?g = "(n, degree, hub, root, tag, B, E)"
  have idle: "bcast.coll_idle ?g c0" using assms(3) by (simp add: bcast.coll_idle_def bcast_idle_def)
  obtain r where "r \<in> {0..<n}" "op_status (cf_op c r) = UCG_INPROGRESS" "\<And>p. p \<in> {0..<n} \<Longrightarrow> rcvd (cf_world c) r p \<le> sent (cf_world c) p r"
    by (rule bcast.no_deadlock [of ?g ok sent rcvd c0 c q]) (use assms idle in simp_all)
  then show ?thesis by blast
qed

subsection \<open>Three ranks\<close>

text \<open>Rank 1 is the root, rank 0 that of the tree.\<close>

definition relay_args :: "ucg_rank_t \<Rightarrow> ucg_coll_args" where
  "relay_args r = (coll_args_zero UCG_COLL_TYPE_BCAST)\<lparr>ca_recvbuf := 0x100 * nat (r + 1), ca_count := 4, ca_root := 1\<rparr>"

definition relay_config :: ucg_planc_ucx_bcast_config where
  "relay_config = \<lparr>bc_kntree_degree = 2, bc_root_adjust = True, bc_nta_kntree_inter_degree = 8, bc_nta_kntree_intra_degree = 2,
     bc_na_kntree_inter_degree = 8, bc_na_kntree_intra_degree = 2, bc_min_bsend = 0, bc_max_bsend = 0, bc_policy_default = 0\<rparr>"

definition relay_net :: data_world where
  "relay_net = \<lparr>dw_msgs = [], dw_rcvd = [], dw_pend = [], dw_lent = [], dw_vals = [((1, 0x200, 4, C_NULL), 7)]\<rparr>"

definition relay_op :: "(ucg_rank_t \<Rightarrow> 'w coll_env) \<Rightarrow> 'w \<Rightarrow> ucg_rank_t \<Rightarrow> ucx_op" where
  "relay_op E w r = op_set_id 0x800001 (case ucg_planc_ucx_bcast_kntree_op_new (E r) 1 2 blank_coll (relay_args r) relay_config
     \<lparr>h_outcomes = [], h_live = 0\<rparr> w of Some (Some op, _) \<Rightarrow> op | _ \<Rightarrow> undefined)"

definition relay_start :: "(ucg_rank_t \<Rightarrow> 'w coll_env) \<Rightarrow> 'w \<Rightarrow> 'w coll_conf" where
  "relay_start E w = \<lparr>cf_op = relay_op E w, cf_on = (\<lambda>_. None), cf_world = w\<rparr>"

definition relay_run :: "(ucg_rank_t \<Rightarrow> 'w coll_env) \<Rightarrow> 'w \<Rightarrow> (bool \<times> ucg_rank_t) list \<Rightarrow> 'w coll_conf option" where
  "relay_run E w ms = coll_play E ucg_planc_ucx_bcast_kntree_op_trigger ucg_planc_ucx_bcast_kntree_op_progress ms (relay_start E w)"

definition relay_moves :: "(bool \<times> ucg_rank_t) list" where
  "relay_moves = [(True, 2), (True, 0), (False, 2), (True, 1), (False, 0), (False, 2), (False, 1)]"

declare kntree_leftmost_while.simps [code]
declare kntree_rightmost_while.simps [code]
declare bcast_kntree_send_children.simps [code]
declare kntree_find_parent.simps [code]








lemma relay_value:
  "case relay_run (data_env 3) relay_net relay_moves of None \<Rightarrow> False | Some c \<Rightarrow> cf_on c 2 = Some UCG_OK \<and> op_status (cf_op c 2) = UCG_OK"
  by code_simp

lemma relay_value_waiting:
  "case relay_run (count_env 3) (\<lambda>_ _. 0, \<lambda>_ _. 0) [(True, 2), (True, 0), (True, 1)] of None \<Rightarrow> False
   | Some c \<Rightarrow> list_all (\<lambda>r. cf_on c r = Some UCG_OK \<and> op_status (cf_op c r) = UCG_INPROGRESS) [0, 1, 2]"
  by code_simp

lemma relay_valid: "(\<And>r. ce_myrank (E r) = r) \<Longrightarrow> bcast_valid 3 2 0 1 relay_args E"
  by (simp add: bcast_valid_def kntree_args_def relay_args_def)

lemma relay_op_ready:
  assumes "\<And>r. ce_myrank (E r) = r \<and> ce_size (E r) = 3" and "r \<in> {0..<3}"
  shows "bcast_ready 0x800001 (relay_args r) 3 2 0 r (relay_op E w r)"
proof -
  have n: "kntree_args 3 2 0" by (simp add: kntree_args_def)
  obtain op h' w' where o: "ucg_planc_ucx_bcast_kntree_op_new (E r) 1 2 blank_coll (relay_args r) relay_config \<lparr>h_outcomes = [], h_live = 0\<rparr> w =
      Some (Some op, h', w')"
    using assms kntree_iter(1) [OF n assms(2)]
    by (auto simp: ucg_planc_ucx_bcast_kntree_op_new_def ucx_op_new_def heap_alloc_def ucg_plan_op_ctor_def ucg_request_ctor_def
      ucg_planc_ucx_op_init_def relay_config_def)
  have e: "relay_op E w r = op_set_id 0x800001 op" unfolding relay_op_def o by simp
  from bcast_new_ready [OF o, of 3 r 0] assms n
  show ?thesis by (simp add: e bcast_ready_def relay_config_def op_set_id_def)
qed

lemma relay_idle:
  assumes "\<And>r. ce_myrank (E r) = r \<and> ce_size (E r) = 3"
  shows "bcast_idle 3 2 0 0x800001 relay_args (relay_start E w)"
  using relay_op_ready [OF assms] by (simp add: bcast_idle_def relay_start_def)

lemma relay_run_is_run:
  assumes "relay_run E w ms = Some c" and "snd ` set ms \<subseteq> {0..<3}"
  shows "coll_run {0..<3} E ucg_planc_ucx_bcast_kntree_op_trigger ucg_planc_ucx_bcast_kntree_op_progress view (relay_start E w) c"
  by (rule coll_play_run [OF assms(2) coll_run.start assms(1) [unfolded relay_run_def]])

lemma bcast_kntree_delivers_witness:
  "\<exists>c. relay_run (data_env 3) relay_net relay_moves = Some c \<and> op_status (cf_op c 2) = UCG_OK \<and> dw_val (cf_world c) 2 (0x300, 4, C_NULL) = 7"
proof -
  obtain c where c: "relay_run (data_env 3) relay_net relay_moves = Some c" "cf_on c 2 = Some UCG_OK" "op_status (cf_op c 2) = UCG_OK"
    using relay_value by (auto split: option.splits)
  have E: "ce_myrank (data_env 3 r) = r \<and> ce_size (data_env 3 r) = 3" for r by (simp add: data_env_def)
  have net: "net_idle {0..<3} (\<lambda>_ _. None) (data_view (cf_world (relay_start (data_env 3) relay_net)))"
    by (simp add: net_idle_def data_view_def relay_start_def relay_net_def)
  have ms: "snd ` set relay_moves \<subseteq> {0..<3}" by (simp add: relay_moves_def)
  have b: "bcast_buf (relay_args 2) = (0x300, 4, C_NULL)" "bcast_buf (relay_args 1) = (0x200, 4, C_NULL)"
    by (simp_all add: bcast_buf_def relay_args_def coll_args_zero_def dt_addr_def)
  have "nt_val (data_view (cf_world c)) 2 (bcast_buf (relay_args 2)) =
      nt_val (data_view (cf_world (relay_start (data_env 3) relay_net))) 1 (bcast_buf (relay_args 1))"
    by (rule bcast_kntree_delivers [OF relay_valid data_env_promises _ relay_idle [OF E] net relay_run_is_run [OF c(1) ms] _ c(2,3)])
      (simp_all add: E plain_areas_def)
  also have "\<dots> = 7" unfolding b by (simp add: data_view_def relay_start_def relay_net_def dw_val_def)
  finally show ?thesis using c unfolding b by (auto simp: data_view_def)
qed

lemma bcast_kntree_no_deadlock_witness:
  "\<exists>c. relay_run (count_env 3) (\<lambda>_ _. 0, \<lambda>_ _. 0) [(True, 2), (True, 0), (True, 1)] = Some c \<and>
     (\<exists>r \<in> {0..<3}. op_status (cf_op c r) = UCG_INPROGRESS \<and> (\<forall>p \<in> {0..<3}. snd (cf_world c) r p \<le> fst (cf_world c) p r))"
proof -
  obtain c where c: "relay_run (count_env 3) (\<lambda>_ _. 0, \<lambda>_ _. 0) [(True, 2), (True, 0), (True, 1)] = Some c"
    "\<And>r. r \<in> {0, 1, 2} \<Longrightarrow> cf_on c r = Some UCG_OK \<and> op_status (cf_op c r) = UCG_INPROGRESS"
    using relay_value_waiting by (auto split: option.splits)
  have N: "{0..<3} = {0, 1, 2::int}" by auto
  have E: "ce_myrank (count_env 3 r) = r \<and> ce_size (count_env 3 r) = 3" for r by (simp add: count_env_def)
  have P: "chan_promises {0..<3} (count_env 3) 0x800001 (\<lambda>_. True) fst snd" using count_promises [of 3] by simp
  have ms: "snd ` set [(True, 2), (True, 0), (True, 1)] \<subseteq> {0..<3 :: int}" by simp
  have "\<exists>r \<in> {0..<3}. op_status (cf_op c r) = UCG_INPROGRESS \<and> (\<forall>p \<in> {0..<3}. snd (cf_world c) r p \<le> fst (cf_world c) p r)"
    by (rule bcast_kntree_no_deadlock [OF relay_valid P relay_idle [OF E] _ _ relay_run_is_run [OF c(1) ms], where q = 0])
      (use c(2) in \<open>simp_all add: E N relay_start_def\<close>)
  then show ?thesis using c(1) by blast
qed

end
