(* ===== verification/Allgatherv.thy ===== *)
theory Allgatherv
  imports Ucx_Op
begin

text \<open>
  The allgatherv algorithms on one level: ring, ring as in HPL, linear and neighbour exchange
  (\<open>src/src/planc/ucx/allgatherv/\<close>).  The send count of an allgatherv is \<open>ca_count\<close>,
  its displacements are \<open>ca_rdispls\<close>.
\<close>

subsection \<open>Blocks\<close>

text \<open>Block \<open>i\<close> of the receive buffer; without a receive type its extent cannot be read.\<close>

definition agv_block :: "ucg_coll_args \<Rightarrow> c_int \<Rightarrow> (c_ptr \<times> c_int) option" where
  "agv_block args i =
     do { recvtype \<leftarrow> ca_recvtype args; displ \<leftarrow> c_at (ca_rdispls args) i; cnt \<leftarrow> c_at (ca_recvcounts args) i;
          Some (c_offset (ca_recvbuf args) (displ * cd_extent recvtype), cnt) }"

definition agv_isend :: "'w coll_env \<Rightarrow> ucg_rank_t \<Rightarrow> c_int \<Rightarrow> 'w step" where
  "agv_isend env peer i op w =
     do { (buf, cnt) \<leftarrow> agv_block (op_args op) i;
          call_step (ce_isend env buf cnt (dt_addr (ca_recvtype (op_args op))) peer (op_tag op)) op w }"

definition agv_irecv :: "'w coll_env \<Rightarrow> ucg_rank_t \<Rightarrow> c_int \<Rightarrow> 'w step" where
  "agv_irecv env peer i op w =
     do { (buf, cnt) \<leftarrow> agv_block (op_args op) i;
          call_step (ce_irecv env buf cnt (dt_addr (ca_recvtype (op_args op))) peer (op_tag op)) op w }"

text \<open>The trigger routines copy the send buffer to the block of the rank, unless the collective is in place.\<close>

definition agv_copy_own :: "'w coll_env \<Rightarrow> 'w step" where
  "agv_copy_own env op w =
     (let args = op_args op
      in if ca_sendbuf args = UCG_IN_PLACE then Some (UCG_OK, op, w)
         else do { (buf, cnt) \<leftarrow> agv_block args (ce_myrank env);
                   call_step (ce_memcpy env buf cnt (dt_addr (ca_recvtype args))
                     (ca_sendbuf args) (ca_count args) (dt_addr (ca_sendtype args))) op w })"

text \<open>\<open>ucg_dt_extent(args->recvtype)\<close> reads through the pointer also where no block is used.\<close>

definition with_recvtype :: "'w step \<Rightarrow> 'w step" where
  "with_recvtype f op w = (case ca_recvtype (op_args op) of None \<Rightarrow> None | Some _ \<Rightarrow> f op w)"

subsection \<open>Ring\<close>

definition UCG_ALLGATHERV_RING_SEND :: u64 where "UCG_ALLGATHERV_RING_SEND = 0x1"
definition UCG_ALLGATHERV_RING_RECV :: u64 where "UCG_ALLGATHERV_RING_RECV = 0x2"
definition UCG_ALLGATHERV_RING_FLAGS :: u64 where
  "UCG_ALLGATHERV_RING_FLAGS = UCG_ALLGATHERV_RING_SEND OR UCG_ALLGATHERV_RING_RECV"

definition ring_next_step :: "u64 \<Rightarrow> ucx_op \<Rightarrow> ucx_op" where
  "ring_next_step flags =
     upd_priv (\<lambda>p. p\<lparr>uo_ring_iter := ucg_algo_ring_iter_inc (uo_ring_iter p), uo_flags := uo_flags p OR flags\<rparr>)"

partial_function (option) agv_ring_loop :: "'w coll_env \<Rightarrow> ucg_rank_t \<Rightarrow> ucg_rank_t \<Rightarrow> 'w step" where
  "agv_ring_loop env left_peer right_peer op w =
     (let iter = uo_ring_iter (op_priv op); myrank = ce_myrank env; group_size = ce_size env; step_idx = ucg_algo_ring_iter_idx iter
      in if ucg_algo_ring_iter_end iter then Some (UCG_OK, op, w)
         else do { (status, op, w) \<leftarrow>
                     steps [if_flag_once UCG_ALLGATHERV_RING_SEND
                              (agv_isend env right_peer (u32_index (myrank - step_idx + group_size) group_size)),
                            if_flag_once UCG_ALLGATHERV_RING_RECV
                              (agv_irecv env left_peer (u32_index (myrank - step_idx - 1 + group_size) group_size)),
                            call_step (ce_testall env)] op w;
                   if status \<noteq> UCG_OK then Some (status, op, w)
                   else agv_ring_loop env left_peer right_peer (ring_next_step UCG_ALLGATHERV_RING_FLAGS op) w })"

definition ucg_planc_ucx_allgatherv_ring_op_progress :: "'w coll_env \<Rightarrow> 'w step" where
  "ucg_planc_ucx_allgatherv_ring_op_progress env op w =
     (let iter = uo_ring_iter (op_priv op)
      in progress_end (with_recvtype
           (agv_ring_loop env (ucg_algo_ring_iter_left_value iter) (ucg_algo_ring_iter_right_value iter)) op w))"

definition agv_ring_start :: "ucx_op \<Rightarrow> ucx_op" where
  "agv_ring_start = upd_priv (\<lambda>p. p\<lparr>uo_flags := UCG_ALLGATHERV_RING_FLAGS, uo_ring_iter := ucg_algo_ring_iter_reset (uo_ring_iter p)\<rparr>)"

definition ucg_planc_ucx_allgatherv_ring_op_trigger :: "'w coll_env \<Rightarrow> 'w step" where
  "ucg_planc_ucx_allgatherv_ring_op_trigger env op w =
     (case ucg_planc_ucx_op_reset env op w of
        (op, w) \<Rightarrow> trigger_end (steps [agv_copy_own env, ucg_planc_ucx_allgatherv_ring_op_progress env] (agv_ring_start op) w))"

definition ucg_planc_ucx_allgatherv_ring_op_new ::
    "'w coll_env \<Rightarrow> nat \<Rightarrow> nat \<Rightarrow> ucx_coll \<Rightarrow> ucg_coll_args \<Rightarrow> ucg_heap \<Rightarrow> 'w \<Rightarrow> ucx_op option \<times> ucg_heap \<times> 'w" where
  "ucg_planc_ucx_allgatherv_ring_op_new env grp vgroup blank args h w =
     (case ucx_op_new env grp vgroup blank args h w of
        (op, h, w) \<Rightarrow> (map_option (upd_priv (\<lambda>p. p\<lparr>uo_ring_iter := ucg_algo_ring_iter_init (ce_size env) (ce_myrank env)\<rparr>)) op, h, w))"

text \<open>What the \<open>prepare\<close> routines have in common: parameters, and no operation means no memory.\<close>

definition prepare_with ::
    "bool \<Rightarrow> (ucg_coll_args \<Rightarrow> ucg_heap \<Rightarrow> 'w \<Rightarrow> ucx_op option \<times> ucg_heap \<times> 'w) \<Rightarrow> ucg_coll_args option \<Rightarrow> ucg_heap \<Rightarrow> 'w \<Rightarrow>
     ((ucg_status + ucx_op) \<times> ucg_heap \<times> 'w) option" where
  "prepare_with chk new args h w =
     (case args of
        None \<Rightarrow> if chk then Some (Inl UCG_ERR_INVALID_PARAM, h, w) else None
      | Some args \<Rightarrow>
          Some (case new args h w of (None, h, w) \<Rightarrow> (Inl UCG_ERR_NO_MEMORY, h, w) | (Some op, h, w) \<Rightarrow> (Inr op, h, w)))"

definition ucg_planc_ucx_allgatherv_ring_prepare ::
    "bool \<Rightarrow> 'w coll_env \<Rightarrow> nat \<Rightarrow> nat \<Rightarrow> ucx_coll \<Rightarrow> ucg_coll_args option \<Rightarrow> ucg_heap \<Rightarrow> 'w \<Rightarrow>
     ((ucg_status + ucx_op) \<times> ucg_heap \<times> 'w) option" where
  "ucg_planc_ucx_allgatherv_ring_prepare chk env grp vgroup blank args h w =
     prepare_with chk (ucg_planc_ucx_allgatherv_ring_op_new env grp vgroup blank) args h w"

subsection \<open>Linear\<close>

definition UCG_ALLGATHERV_LINEAR_SEND :: u64 where "UCG_ALLGATHERV_LINEAR_SEND = 0x1"
definition UCG_ALLGATHERV_LINEAR_RECV :: u64 where "UCG_ALLGATHERV_LINEAR_RECV = 0x2"
definition UCG_ALLGATHERV_LINEAR_FLAGS :: u64 where
  "UCG_ALLGATHERV_LINEAR_FLAGS = UCG_ALLGATHERV_LINEAR_SEND OR UCG_ALLGATHERV_LINEAR_RECV"

text \<open>The messages of round \<open>i\<close>.\<close>

definition agv_linear_round :: "'w coll_env \<Rightarrow> nat \<Rightarrow> 'w step list" where
  "agv_linear_round env i =
     (let myrank = ce_myrank env; group_size = ce_size env;
          speer = u32_index (myrank + int i) group_size; rpeer = u32_index (myrank - int i + group_size) group_size
      in [agv_isend env speer myrank, agv_irecv env rpeer rpeer])"

definition ucg_planc_ucx_allgatherv_linear_op_progress :: "'w coll_env \<Rightarrow> 'w step" where
  "ucg_planc_ucx_allgatherv_linear_op_progress env op w =
     progress_end (with_recvtype
       (steps [if_flag_once UCG_ALLGATHERV_LINEAR_FLAGS (err_steps (concat (map (agv_linear_round env) [1..<nat (ce_size env)]))),
               call_step (ce_testall env)]) op w)"

definition ucg_planc_ucx_allgatherv_linear_op_trigger :: "'w coll_env \<Rightarrow> 'w step" where
  "ucg_planc_ucx_allgatherv_linear_op_trigger env op w =
     (case ucg_planc_ucx_op_reset env op w of
        (op, w) \<Rightarrow> trigger_end (steps [agv_copy_own env, ucg_planc_ucx_allgatherv_linear_op_progress env]
                     (set_flags UCG_ALLGATHERV_LINEAR_FLAGS op) w))"

definition ucg_planc_ucx_allgatherv_linear_op_new ::
    "'w coll_env \<Rightarrow> nat \<Rightarrow> nat \<Rightarrow> ucx_coll \<Rightarrow> ucg_coll_args \<Rightarrow> ucg_heap \<Rightarrow> 'w \<Rightarrow> ucx_op option \<times> ucg_heap \<times> 'w" where
  "ucg_planc_ucx_allgatherv_linear_op_new = ucx_op_new"

definition ucg_planc_ucx_allgatherv_linear_prepare ::
    "bool \<Rightarrow> 'w coll_env \<Rightarrow> nat \<Rightarrow> nat \<Rightarrow> ucx_coll \<Rightarrow> ucg_coll_args option \<Rightarrow> ucg_heap \<Rightarrow> 'w \<Rightarrow>
     ((ucg_status + ucx_op) \<times> ucg_heap \<times> 'w) option" where
  "ucg_planc_ucx_allgatherv_linear_prepare chk env grp vgroup blank args h w =
     prepare_with chk (ucg_planc_ucx_allgatherv_linear_op_new env grp vgroup blank) args h w"

subsection \<open>Ring as in HPL\<close>

definition UCG_UCX_ALLGATHERV_RING_HPL_SEND :: u64 where "UCG_UCX_ALLGATHERV_RING_HPL_SEND = 0x1"
definition UCG_UCX_ALLGATHERV_RING_HPL_RECV :: u64 where "UCG_UCX_ALLGATHERV_RING_HPL_RECV = 0x2"
definition UCG_ALLGATHERV_RING_HPL_FLAGS :: u64 where
  "UCG_ALLGATHERV_RING_HPL_FLAGS = UCG_UCX_ALLGATHERV_RING_HPL_SEND OR UCG_UCX_ALLGATHERV_RING_HPL_RECV"

text \<open>Here a block is sent with the send type.\<close>

definition hpl_isend :: "'w coll_env \<Rightarrow> ucg_rank_t \<Rightarrow> c_int \<Rightarrow> 'w step" where
  "hpl_isend env peer i op w =
     do { (buf, cnt) \<leftarrow> agv_block (op_args op) i;
          call_step (ce_isend env buf cnt (dt_addr (ca_sendtype (op_args op))) peer (op_tag op)) op w }"

partial_function (option) agv_hpl_loop :: "'w coll_env \<Rightarrow> 'w step" where
  "agv_hpl_loop env op w =
     (let iter = uo_ring_iter (op_priv op); my_rank = ce_myrank env; group_size = ce_size env; step_idx = ucg_algo_ring_iter_idx iter;
          peer = (if odd (my_rank + step_idx) then ring_left iter else ring_right iter);
          half = step_idx sdiv 2; to_right = (peer = ring_right iter);
          sblock = u32_index ((if to_right then my_rank - half else my_rank + half) + group_size) group_size;
          rblock = u32_index ((if to_right then peer + half else peer - half) + group_size) group_size
      in if ucg_algo_ring_iter_end iter then Some (UCG_OK, op, w)
         else do { (status, op, w) \<leftarrow>
                     steps [if_flag_once UCG_UCX_ALLGATHERV_RING_HPL_SEND (hpl_isend env peer sblock),
                            if_flag_once UCG_UCX_ALLGATHERV_RING_HPL_RECV (agv_irecv env peer rblock),
                            call_step (ce_testall env)] op w;
                   if status \<noteq> UCG_OK then Some (status, op, w)
                   else agv_hpl_loop env (ring_next_step UCG_ALLGATHERV_RING_HPL_FLAGS op) w })"

definition ucg_planc_ucx_allgatherv_ring_hpl_op_progress :: "'w coll_env \<Rightarrow> 'w step" where
  "ucg_planc_ucx_allgatherv_ring_hpl_op_progress env op w = progress_end (with_recvtype (agv_hpl_loop env) op w)"

text \<open>An error of the copy is stored in the operation, and then the progress routine is called all the same.\<close>

definition ucg_planc_ucx_allgatherv_ring_hpl_init :: "'w coll_env \<Rightarrow> 'w step" where
  "ucg_planc_ucx_allgatherv_ring_hpl_init env op w =
     do { (status, op, w) \<leftarrow> with_recvtype (agv_copy_own env) (set_flags (op_flags op OR UCG_ALLGATHERV_RING_HPL_FLAGS) op) w;
          Some (UCG_OK, if status \<noteq> UCG_OK then op_set_status status op else op, w) }"

definition ucg_planc_ucx_allgatherv_ring_hpl_op_trigger :: "'w coll_env \<Rightarrow> 'w step" where
  "ucg_planc_ucx_allgatherv_ring_hpl_op_trigger env op w =
     (case ucg_planc_ucx_op_reset env op w of
        (op, w) \<Rightarrow>
          do { (status, op, w) \<leftarrow> ucg_planc_ucx_allgatherv_ring_hpl_init env
                 (upd_priv (\<lambda>p. p\<lparr>uo_ring_iter := ucg_algo_ring_iter_reset (uo_ring_iter p)\<rparr>) op) w;
               trigger_end (ucg_planc_ucx_allgatherv_ring_hpl_op_progress env op w) })"

text \<open>The error of the constructor is passed on; a failed allocation is \<open>UCG_ERR_NO_MEMORY\<close>.\<close>

definition ucg_planc_ucx_allgatherv_ring_hpl_prepare ::
    "bool \<Rightarrow> 'w coll_env \<Rightarrow> nat \<Rightarrow> nat \<Rightarrow> ucx_coll \<Rightarrow> ucg_coll_args option \<Rightarrow> ucg_heap \<Rightarrow> 'w \<Rightarrow>
     ((ucg_status + ucx_op) \<times> ucg_heap \<times> 'w) option" where
  "ucg_planc_ucx_allgatherv_ring_hpl_prepare chk env grp vgroup blank args h w =
     (case args of
        None \<Rightarrow> if chk then Some (Inl UCG_ERR_INVALID_PARAM, h, w) else None
      | Some args \<Rightarrow>
          Some (case heap_alloc h of
             (False, h) \<Rightarrow> (Inl UCG_ERR_NO_MEMORY, h, w)
           | (True, h) \<Rightarrow>
               (case ucg_plan_op_ctor grp vgroup blank args of
                  (status, op) \<Rightarrow>
                    if status \<noteq> UCG_OK then (Inl status, heap_free h, w)
                    else case ucg_planc_ucx_op_init env op w of
                      (op, w) \<Rightarrow>
                        (Inr (upd_priv (\<lambda>p. p\<lparr>uo_ring_iter := ucg_algo_ring_iter_init (ce_size env) (ce_myrank env)\<rparr>) op), h, w))))"

subsection \<open>Neighbour exchange\<close>

definition UCG_NEIGHBOR_INIT :: u64 where "UCG_NEIGHBOR_INIT = 0x1"
definition UCG_NEIGHBOR_INIT_SEND :: u64 where "UCG_NEIGHBOR_INIT_SEND = 0x2"
definition UCG_NEIGHBOR_INIT_RECV :: u64 where "UCG_NEIGHBOR_INIT_RECV = 0x4"
definition UCG_NEIGHBOR_LOOP :: u64 where "UCG_NEIGHBOR_LOOP = 0x8"
definition UCG_NEIGHBOR_LOOP_SEND :: u64 where "UCG_NEIGHBOR_LOOP_SEND = 0x10"
definition UCG_NEIGHBOR_LOOP_RECV :: u64 where "UCG_NEIGHBOR_LOOP_RECV = 0x20"

definition UCG_NEIGHBOR_FLAGS :: u64 where
  "UCG_NEIGHBOR_FLAGS = UCG_NEIGHBOR_INIT OR UCG_NEIGHBOR_INIT_SEND OR UCG_NEIGHBOR_INIT_RECV OR
     UCG_NEIGHBOR_LOOP OR UCG_NEIGHBOR_LOOP_SEND OR UCG_NEIGHBOR_LOOP_RECV"

definition ucg_planc_ucx_allgatherv_neighbor_check :: "u32 \<Rightarrow> ucg_status" where
  "ucg_planc_ucx_allgatherv_neighbor_check group_size = (if group_size mod 2 \<noteq> 0 then UCG_ERR_UNSUPPORTED else UCG_OK)"

definition upd_neighbor :: "(allgatherv_neighbor \<Rightarrow> allgatherv_neighbor) \<Rightarrow> ucx_op \<Rightarrow> ucx_op" where
  "upd_neighbor f = upd_priv (\<lambda>p. p\<lparr>uo_neighbor := f (uo_neighbor p)\<rparr>)"

definition ucg_planc_ucx_allgatherv_neighbor_op_init :: "'w coll_env \<Rightarrow> 'w step" where
  "ucg_planc_ucx_allgatherv_neighbor_op_init env op w =
     (let neighbor = fst (an_neighbor (uo_neighbor (op_priv op)))
      in with_recvtype
           (steps [if_flag_once UCG_NEIGHBOR_INIT_SEND (agv_isend env neighbor (ce_myrank env)),
                   if_flag_once UCG_NEIGHBOR_INIT_RECV (agv_irecv env neighbor neighbor),
                   call_step (ce_testall env)]) op w)"

text \<open>The entry of an array of two, by the parity of the loop count.\<close>

definition at_parity :: "bool \<Rightarrow> 'a \<times> 'a \<Rightarrow> 'a" where
  "at_parity second p = (if second then snd p else fst p)"

definition set_parity :: "bool \<Rightarrow> 'a \<Rightarrow> 'a \<times> 'a \<Rightarrow> 'a \<times> 'a" where
  "set_parity second x p = (if second then (fst p, x) else (x, snd p))"

text \<open>The receives of a round: the first block they are for is moved on, also if a receive then fails.\<close>

definition neighbor_recv :: "'w coll_env \<Rightarrow> bool \<Rightarrow> 'w step" where
  "neighbor_recv env i_parity op =
     (let an = uo_neighbor (op_priv op);
          from_block = u32_index (at_parity i_parity (an_recv_data_from an) + at_parity i_parity (an_offset_at_step an) + ce_size env) (ce_size env);
          peer = at_parity i_parity (an_neighbor an)
      in steps [agv_irecv env peer from_block, agv_irecv env peer (from_block + 1)]
           (upd_neighbor (\<lambda>an. an\<lparr>an_recv_data_from := set_parity i_parity from_block (an_recv_data_from an)\<rparr>) op))"

definition neighbor_next :: "bool \<Rightarrow> ucx_op \<Rightarrow> ucx_op" where
  "neighbor_next i_parity op =
     upd_neighbor (\<lambda>an. an\<lparr>an_send_data_from := at_parity i_parity (an_recv_data_from an), an_loop_count := an_loop_count an + 1\<rparr>)
       (set_flags (op_flags op OR (UCG_NEIGHBOR_LOOP_RECV OR UCG_NEIGHBOR_LOOP_SEND)) op)"

partial_function (option) ucg_planc_ucx_allgatherv_neighbor_op_loop :: "'w coll_env \<Rightarrow> 'w step" where
  "ucg_planc_ucx_allgatherv_neighbor_op_loop env op w =
     (let an = uo_neighbor (op_priv op); i_parity = odd (uint (an_loop_count an));
          peer = at_parity i_parity (an_neighbor an); from_block = an_send_data_from an
      in if \<not> an_loop_count an < an_loop_max an then Some (UCG_OK, op, w)
         else do { (status, op, w) \<leftarrow>
                     steps [if_flag_once UCG_NEIGHBOR_LOOP_SEND (steps [agv_isend env peer from_block, agv_isend env peer (from_block + 1)]),
                            if_flag_once UCG_NEIGHBOR_LOOP_RECV (neighbor_recv env i_parity),
                            call_step (ce_testall env)] op w;
                   if status \<noteq> UCG_OK then Some (status, op, w)
                   else ucg_planc_ucx_allgatherv_neighbor_op_loop env (neighbor_next i_parity op) w })"

definition ucg_planc_ucx_allgatherv_neighbor_op_progress :: "'w coll_env \<Rightarrow> 'w step" where
  "ucg_planc_ucx_allgatherv_neighbor_op_progress env op w =
     progress_end
       (steps [if_flag_until_done UCG_NEIGHBOR_INIT (ucg_planc_ucx_allgatherv_neighbor_op_init env),
               if_flag_until_done UCG_NEIGHBOR_LOOP (with_recvtype (ucg_planc_ucx_allgatherv_neighbor_op_loop env))] op w)"

definition ucg_planc_ucx_allgatherv_neighbor_op_reset :: "'w coll_env \<Rightarrow> ucx_op \<Rightarrow> 'w \<Rightarrow> ucx_op \<times> 'w" where
  "ucg_planc_ucx_allgatherv_neighbor_op_reset env op w =
     (case ucg_planc_ucx_op_reset env op w of
        (op, w) \<Rightarrow>
          let my_rank = ce_myrank env; group_size = ce_size env;
              right = u32_index (my_rank + 1) group_size; left = u32_index (my_rank - 1 + group_size) group_size;
              loop_max = (word_of_int group_size :: u32) div 2;
              an = (if even my_rank
                    then \<lparr>an_loop_count = 1, an_loop_max = loop_max, an_send_data_from = my_rank, an_recv_data_from = (my_rank, my_rank),
                           an_neighbor = (right, left), an_offset_at_step = (2, - 2)\<rparr>
                    else \<lparr>an_loop_count = 1, an_loop_max = loop_max, an_send_data_from = left, an_recv_data_from = (left, left),
                           an_neighbor = (left, right), an_offset_at_step = (- 2, 2)\<rparr>)
          in (upd_neighbor (\<lambda>_. an) (set_flags UCG_NEIGHBOR_FLAGS op), w))"

text \<open>An error of the copy is returned as it is.\<close>

definition ucg_planc_ucx_allgatherv_neighbor_op_trigger :: "'w coll_env \<Rightarrow> 'w step" where
  "ucg_planc_ucx_allgatherv_neighbor_op_trigger env op w =
     (case ucg_planc_ucx_allgatherv_neighbor_op_reset env op w of
        (op, w) \<Rightarrow>
          do { (status, op, w) \<leftarrow> agv_copy_own env op w;
               if status \<noteq> UCG_OK then Some (status, op, w)
               else trigger_end (ucg_planc_ucx_allgatherv_neighbor_op_progress env op w) })"

definition ucg_planc_ucx_allgatherv_neighbor_op_new ::
    "'w coll_env \<Rightarrow> nat \<Rightarrow> nat \<Rightarrow> ucx_coll \<Rightarrow> ucg_coll_args \<Rightarrow> ucg_heap \<Rightarrow> 'w \<Rightarrow> ucx_op option \<times> ucg_heap \<times> 'w" where
  "ucg_planc_ucx_allgatherv_neighbor_op_new = ucx_op_new"

definition ucg_planc_ucx_allgatherv_neighbor_prepare ::
    "bool \<Rightarrow> 'w coll_env \<Rightarrow> nat \<Rightarrow> nat \<Rightarrow> ucx_coll \<Rightarrow> ucg_coll_args option \<Rightarrow> ucg_heap \<Rightarrow> 'w \<Rightarrow>
     ((ucg_status + ucx_op) \<times> ucg_heap \<times> 'w) option" where
  "ucg_planc_ucx_allgatherv_neighbor_prepare chk env grp vgroup blank args h w =
     (if (args \<noteq> None \<or> \<not> chk) \<and> ucg_planc_ucx_allgatherv_neighbor_check (word_of_int (ce_size env)) \<noteq> UCG_OK
      then Some (Inl UCG_ERR_UNSUPPORTED, h, w)
      else prepare_with chk (ucg_planc_ucx_allgatherv_neighbor_op_new env grp vgroup blank) args h w)"

end
