(* ===== verification/Agv_Ring_Script.thy ===== *)
theory Agv_Ring_Script
  imports Allgatherv Coll_Script Ring_Spec
begin

text \<open>The ring allgather follows its script.\<close>

subsection \<open>The script\<close>

definition agv_buf :: "ucg_coll_args \<Rightarrow> c_int \<Rightarrow> c_buf" where
  "agv_buf args i = (case agv_block args i of None \<Rightarrow> undefined | Some (b, c) \<Rightarrow> (b, c, dt_addr (ca_recvtype args)))"

definition agv_src :: "ucg_coll_args \<Rightarrow> c_buf" where
  "agv_src args = (ca_sendbuf args, ca_count args, dt_addr (ca_sendtype args))"

definition agv_copy_acts :: "ucg_coll_args \<Rightarrow> ucg_rank_t \<Rightarrow> coll_act list" where
  "agv_copy_acts args r = (if ca_sendbuf args = UCG_IN_PLACE then [] else [Cpy (agv_buf args r) (agv_src args)])"

definition ring_round :: "ucg_coll_args \<Rightarrow> c_int \<Rightarrow> ucg_rank_t \<Rightarrow> nat \<Rightarrow> coll_act list" where
  "ring_round args n r k =
     [Snd ((r + 1) mod n) (agv_buf args ((r - int k) mod n)), Rcv ((r - 1) mod n) (agv_buf args ((r - int k - 1) mod n)), Wait]"

definition ring_rounds :: "ucg_coll_args \<Rightarrow> c_int \<Rightarrow> ucg_rank_t \<Rightarrow> nat \<Rightarrow> coll_act list" where
  "ring_rounds args n r k = concat (map (ring_round args n r) [k..<nat n - 1])"

definition ring_acts :: "ucg_coll_args \<Rightarrow> c_int \<Rightarrow> ucg_rank_t \<Rightarrow> coll_act list" where
  "ring_acts args n r = agv_copy_acts args r @ ring_rounds args n r 0"

lemma ring_rounds_step: "k < nat n - 1 \<Longrightarrow> ring_rounds args n r k = ring_round args n r k @ ring_rounds args n r (Suc k)"
  by (simp add: ring_rounds_def upt_conv_Cons)

lemma ring_rounds_end: "\<not> k < nat n - 1 \<Longrightarrow> ring_rounds args n r k = []"
  by (simp add: ring_rounds_def)

lemma length_ring_rounds: "length (ring_rounds args n r k) = 3 * (nat n - 1 - k)"
proof (induction "nat n - 1 - k" arbitrary: k)
  case (Suc m)
  then have "k < nat n - 1" by simp
  then show ?case using Suc(1) [of "Suc k"] Suc(2) by (simp add: ring_rounds_step ring_round_def)
qed (simp add: ring_rounds_end)

lemma drop_ring_rounds: "k \<le> nat n - 1 \<Longrightarrow> drop (3 * k) (ring_rounds args n r 0) = ring_rounds args n r k"
proof (induction k)
  case (Suc k)
  then have "drop 3 (drop (3 * k) (ring_rounds args n r 0)) = ring_rounds args n r (Suc k)"
    by (simp add: ring_rounds_step ring_round_def)
  then show ?case by (simp add: add.commute)
qed simp

lemma length_ring_acts: "length (agv_copy_acts args r) \<le> length (ring_acts args n r)"
  by (simp add: ring_acts_def)

subsection \<open>Where an operation stands\<close>

definition ring_state :: "c_int \<Rightarrow> ucg_coll_args \<Rightarrow> c_int \<Rightarrow> ucg_rank_t \<Rightarrow> nat \<Rightarrow> u64 \<Rightarrow> ucx_op \<Rightarrow> bool" where
  "ring_state tag args n r k fl op \<longleftrightarrow>
     op_tag op = tag \<and> op_args op = args \<and> uo_ring_iter (op_priv op) = ring_at n r k \<and> op_flags op = fl"

text \<open>In the rounds, after \<open>j\<close> actions: at a test, and at the end.\<close>

definition ring_pos :: "c_int \<Rightarrow> ucg_coll_args \<Rightarrow> c_int \<Rightarrow> ucg_rank_t \<Rightarrow> nat \<Rightarrow> ucx_op \<Rightarrow> bool" where
  "ring_pos tag args n r j op \<longleftrightarrow>
     (j mod 3 = 2 \<longrightarrow> ring_state tag args n r (j div 3) 0 op) \<and> (j = 3 * (nat n - 1) \<longrightarrow> ring_state tag args n r (nat n - 1) 3 op)"

definition agv_ok :: "ucg_coll_args \<Rightarrow> c_int \<Rightarrow> bool" where
  "agv_ok args n \<longleftrightarrow> 0 < n \<and> n < 2 ^ 31 \<and> (\<forall>i \<in> {0..<n}. agv_block args i \<noteq> None)"

lemma agv_okD:
  assumes "agv_ok args n" and "i \<in> {0..<n}"
  obtains b c where "agv_block args i = Some (b, c)" and "agv_buf args i = (b, c, dt_addr (ca_recvtype args))"
proof -
  have "agv_block args i \<noteq> None" using assms unfolding agv_ok_def by blast
  then show thesis using that by (cases "agv_block args i") (auto simp: agv_buf_def)
qed

lemma agv_ok_type: "agv_ok args n \<Longrightarrow> \<exists>ty. ca_recvtype args = Some ty"
proof -
  assume a: "agv_ok args n"
  then have "0 \<in> {0..<n}" by (simp add: agv_ok_def)
  then obtain b c where "agv_block args 0 = Some (b, c)" by (rule agv_okD [OF a])
  then show ?thesis by (auto simp: agv_block_def split: bind_splits)
qed

lemma follows_agv_isend:
  assumes "agv_ok args n" and "i \<in> {0..<n}" and "op_args op = args" and "op_tag op = tag" and "at 1 op"
  shows "follows env tag [Snd p (agv_buf args i)] at (agv_isend env p i) op"
proof -
  obtain b c where b: "agv_block args i = Some (b, c)" "agv_buf args i = (b, c, dt_addr (ca_recvtype args))" by (rule agv_okD [OF assms(1,2)])
  show ?thesis
    unfolding b(2)
  proof (rule follows_eq [where op' = op and g = "call_step (ce_isend env b c (dt_addr (ca_recvtype args)) p tag)"])
    show "agv_isend env p i op w = call_step (ce_isend env b c (dt_addr (ca_recvtype args)) p tag) op w" for w
      using assms b by (simp add: agv_isend_def)
  qed (rule follows_call, use assms(5) in simp_all)
qed

lemma follows_agv_irecv:
  assumes "agv_ok args n" and "i \<in> {0..<n}" and "op_args op = args" and "op_tag op = tag" and "at 1 op"
  shows "follows env tag [Rcv p (agv_buf args i)] at (agv_irecv env p i) op"
proof -
  obtain b c where b: "agv_block args i = Some (b, c)" "agv_buf args i = (b, c, dt_addr (ca_recvtype args))" by (rule agv_okD [OF assms(1,2)])
  show ?thesis
    unfolding b(2)
  proof (rule follows_eq [where op' = op and g = "call_step (ce_irecv env b c (dt_addr (ca_recvtype args)) p tag)"])
    show "agv_irecv env p i op w = call_step (ce_irecv env b c (dt_addr (ca_recvtype args)) p tag) op w" for w
      using assms b by (simp add: agv_irecv_def)
  qed (rule follows_call, use assms(5) in simp_all)
qed

text \<open>A loop whose body is a sequence is a longer sequence.\<close>

lemma steps_loop:
  "(do { (status, op, w) \<leftarrow> steps fs op w; if status \<noteq> UCG_OK then Some (status, op, w) else f op w }) = steps (fs @ [f]) op w"
  by (simp only: steps_append steps_single)

lemma ring_block_index:
  assumes "0 < n" "n < 2 ^ 31" "r \<in> {0..<n}" "k < nat n - 1"
  shows "u32_index (r - int k + n) n = (r - int k) mod n" and "u32_index (r - int k - 1 + n) n = (r - int k - 1) mod n"
proof -
  have k: "int k < n - 1" using assms(4) by linarith
  have "u32_index (r - int k + n) n = (r - int k + n) mod n" by (rule u32_index_mod) (use assms k in auto)
  then show "u32_index (r - int k + n) n = (r - int k) mod n" by simp
  have "u32_index (r - int k - 1 + n) n = (r - int k - 1 + n) mod n" by (rule u32_index_mod) (use assms k in auto)
  then show "u32_index (r - int k - 1 + n) n = (r - int k - 1) mod n" by simp
qed

lemma ring_at_simps:
  assumes "r \<in> {0..<n}"
  shows "ucg_algo_ring_iter_end (ring_at n r k) \<longleftrightarrow> \<not> k < nat n - 1"
    and "ucg_algo_ring_iter_idx (ring_at n r k) = int k"
    and "ucg_algo_ring_iter_inc (ring_at n r k) = ring_at n r (Suc k)"
    and "k < nat n - 1 \<Longrightarrow> ucg_algo_ring_iter_left_value (ring_at n r k) = (r - 1) mod n"
    and "k < nat n - 1 \<Longrightarrow> ucg_algo_ring_iter_right_value (ring_at n r k) = (r + 1) mod n"
    and "ucg_algo_ring_iter_reset (ring_at n r k) = ring_at n r 0"
  using assms by (auto simp: ring_at ucg_algo_ring_iter_end_def ucg_algo_ring_iter_idx_def
      ucg_algo_ring_iter_inc_def ucg_algo_ring_iter_left_value_def ucg_algo_ring_iter_right_value_def ucg_algo_ring_iter_reset_def)

subsection \<open>The loop\<close>

lemma ring_loop_step:
  assumes "agv_ok args n" and "r \<in> {0..<n}" and "k < nat n - 1" and "ring_state tag args n r k fl op"
    and "ce_myrank env = r" "ce_size env = n"
  shows "agv_ring_loop env lp rp op = steps
    [if_flag_once UCG_ALLGATHERV_RING_SEND (agv_isend env rp ((r - int k) mod n)),
     if_flag_once UCG_ALLGATHERV_RING_RECV (agv_irecv env lp ((r - int k - 1) mod n)), call_step (ce_testall env),
     \<lambda>op. agv_ring_loop env lp rp (ring_next_step UCG_ALLGATHERV_RING_FLAGS op)] op"
proof (rule ext)
  fix w
  have it: "uo_ring_iter (op_priv op) = ring_at n r k" using assms(4) by (simp add: ring_state_def)
  have n: "0 < n" "n < 2 ^ 31" using assms(1) by (simp_all add: agv_ok_def)
  show "agv_ring_loop env lp rp op w = steps
    [if_flag_once UCG_ALLGATHERV_RING_SEND (agv_isend env rp ((r - int k) mod n)),
     if_flag_once UCG_ALLGATHERV_RING_RECV (agv_irecv env lp ((r - int k - 1) mod n)), call_step (ce_testall env),
     \<lambda>op. agv_ring_loop env lp rp (ring_next_step UCG_ALLGATHERV_RING_FLAGS op)] op w"
    unfolding agv_ring_loop.simps [of env lp rp op w] Let_def it steps_loop
    using ring_at_simps [OF assms(2), of k] assms(3,5,6) ring_block_index [OF n assms(2,3)] by simp
qed

text \<open>The test at the end of a round, and what comes after.\<close>

lemma follows_ring_test:
  assumes k: "k < nat n - 1" and op: "ring_state tag args n r k 0 op"
    and rest: "\<And>op'. ring_state tag args n r (Suc k) 3 op' \<Longrightarrow>
      follows env tag (ring_rounds args n r (Suc k)) (\<lambda>j. ring_pos tag args n r (3 * Suc k + j)) (agv_ring_loop env lp rp) op'"
    and r: "r \<in> {0..<n}"
  shows "follows env tag (Wait # ring_rounds args n r (Suc k)) (\<lambda>j. ring_pos tag args n r (3 * k + 2 + j))
    (steps [call_step (ce_testall env), \<lambda>op. agv_ring_loop env lp rp (ring_next_step UCG_ALLGATHERV_RING_FLAGS op)]) op"
proof -
  have "follows env tag ([Wait] @ ring_rounds args n r (Suc k)) (\<lambda>j. ring_pos tag args n r (3 * k + 2 + j))
    (steps [call_step (ce_testall env), \<lambda>op. agv_ring_loop env lp rp (ring_next_step UCG_ALLGATHERV_RING_FLAGS op)]) op"
  proof (rule follows_seq [where atf = "\<lambda>_ op'. op' = op" and ats = "\<lambda>j. ring_pos tag args n r (3 * Suc k + j)"])
    show "follows env tag [Wait] (\<lambda>_ op'. op' = op) (call_step (ce_testall env)) op" by (rule follows_call) simp_all
    fix op' assume "op' = op"
    then have "ring_state tag args n r (Suc k) 3 (ring_next_step UCG_ALLGATHERV_RING_FLAGS op')"
      using op ring_at_simps(3) [OF r] by (simp add: ring_state_def ring_next_step_def UCG_ALLGATHERV_RING_FLAGS_def
        UCG_ALLGATHERV_RING_SEND_def UCG_ALLGATHERV_RING_RECV_def)
    from rest [OF this] show "follows env tag (ring_rounds args n r (Suc k)) (\<lambda>j. ring_pos tag args n r (3 * Suc k + j))
        (steps [\<lambda>op. agv_ring_loop env lp rp (ring_next_step UCG_ALLGATHERV_RING_FLAGS op)]) op'"
      by (intro follows_one) (rule follows_comp [where g = "agv_ring_loop env lp rp" and h = "ring_next_step UCG_ALLGATHERV_RING_FLAGS"])
  next
    fix j op' assume "j < length [Wait :: coll_act]" "op' = op"
    moreover have "3 * k + 2 \<noteq> 3 * x" for x :: nat by presburger
    moreover have "(3 * k + 2) div 3 = k" by simp
    ultimately show "ring_pos tag args n r (3 * k + 2 + j) op'" using op by (simp add: ring_pos_def del: add_2_eq_Suc add_2_eq_Suc')
  next
    fix j op' assume "ring_pos tag args n r (3 * Suc k + j) op'"
    moreover have "3 * k + 2 + (length [Wait :: coll_act] + j) = 3 * Suc k + j" by simp
    ultimately show "ring_pos tag args n r (3 * k + 2 + (length [Wait :: coll_act] + j)) op'" by (simp only:)
  qed
  then show ?thesis by simp
qed

lemma follows_ring_loop:
  assumes a: "agv_ok args n" "r \<in> {0..<n}" and env: "ce_myrank env = r" "ce_size env = n"
    and p: "1 < n \<Longrightarrow> lp = (r - 1) mod n \<and> rp = (r + 1) mod n"
  shows "k \<le> nat n - 1 \<Longrightarrow> ring_state tag args n r k 3 op \<Longrightarrow>
    follows env tag (ring_rounds args n r k) (\<lambda>j. ring_pos tag args n r (3 * k + j)) (agv_ring_loop env lp rp) op"
proof (induction "nat n - 1 - k" arbitrary: k op)
  case 0
  then have k: "k = nat n - 1" "\<not> k < nat n - 1" by simp_all
  have it: "uo_ring_iter (op_priv op) = ring_at n r k" using 0 by (simp add: ring_state_def)
  have "agv_ring_loop env lp rp op w = Some (UCG_OK, op, w)" for w
    unfolding agv_ring_loop.simps [of env lp rp op w] Let_def it using ring_at_simps(1) [OF a(2), of k] k by simp
  moreover have "(3 * k) mod 3 \<noteq> 2" by simp
  ultimately show ?case using 0(3) k by (simp add: follows_def ring_rounds_end ring_pos_def)
next
  case (Suc m)
  then have k: "k < nat n - 1" by simp
  have n: "0 < n" using a(1) by (simp add: agv_ok_def)
  let ?s = "(r - int k) mod n" and ?d = "(r - int k - 1) mod n"
  have i: "?s \<in> {0..<n}" "?d \<in> {0..<n}" using n by simp_all
  have st: "op_args op = args" "op_tag op = tag" "op_flags op = 3" using Suc.prems(2) by (simp_all add: ring_state_def)
  let ?op1 = "set_flags 2 op" and ?op2 = "set_flags 0 op"
  have fl: "ucg_test_flags (op_flags op) UCG_ALLGATHERV_RING_SEND" "ucg_clear_flags (op_flags op) UCG_ALLGATHERV_RING_SEND = 2"
    "ucg_test_flags (op_flags ?op1) UCG_ALLGATHERV_RING_RECV" "ucg_clear_flags (op_flags ?op1) UCG_ALLGATHERV_RING_RECV = 0"
    by (simp_all add: st ucg_test_flags_def ucg_clear_flags_def UCG_ALLGATHERV_RING_SEND_def UCG_ALLGATHERV_RING_RECV_def)
  have f1: "follows env tag [Snd rp (agv_buf args ?s)] (\<lambda>j op'. j = 1 \<longrightarrow> op' = ?op1)
      (if_flag_once UCG_ALLGATHERV_RING_SEND (agv_isend env rp ?s)) op"
    by (rule follows_flag_set [OF fl(1)], unfold fl(2), rule follows_agv_isend [OF a(1) i(1)]) (use st in simp_all)
  have f2: "follows env tag [Rcv lp (agv_buf args ?d)] (\<lambda>j op'. j = 1 \<longrightarrow> op' = ?op2)
      (if_flag_once UCG_ALLGATHERV_RING_RECV (agv_irecv env lp ?d)) ?op1"
  proof (rule follows_flag_set [OF fl(3)], unfold fl(4))
    have e: "set_flags 0 ?op1 = ?op2" by (simp add: set_flags_def upd_priv_def)
    show "follows env tag [Rcv lp (agv_buf args ?d)] (\<lambda>j op'. j = 1 \<longrightarrow> op' = ?op2) (agv_irecv env lp ?d) (set_flags 0 ?op1)"
      unfolding e by (rule follows_agv_irecv [OF a(1) i(2)]) (use st in simp_all)
  qed
  have s2: "ring_state tag args n r k 0 ?op2" using Suc.prems(2) by (simp add: ring_state_def)
  have IH: "follows env tag (ring_rounds args n r (Suc k)) (\<lambda>j. ring_pos tag args n r (3 * Suc k + j)) (agv_ring_loop env lp rp) op'"
    if "ring_state tag args n r (Suc k) 3 op'" for op'
    by (rule Suc.hyps(1)) (use Suc.hyps(2) k that in simp_all)
  note f3 = follows_ring_test [OF k s2 IH a(2)]
  let ?rest = "Wait # ring_rounds args n r (Suc k)" and ?tail = "[call_step (ce_testall env), \<lambda>op. agv_ring_loop env lp rp (ring_next_step UCG_ALLGATHERV_RING_FLAGS op)]"
  have m1: "\<not> (3 * k + 1) mod 3 = 2" "3 * k + 1 \<noteq> 3 * (nat n - 1)" "\<not> (3 * k) mod 3 = 2" "3 * k \<noteq> 3 * (nat n - 1)"
  proof -
    have "3 * k + 1 \<noteq> 3 * x" for x :: nat by presburger
    then show "\<not> (3 * k + 1) mod 3 = 2" "3 * k + 1 \<noteq> 3 * (nat n - 1)" "\<not> (3 * k) mod 3 = 2" "3 * k \<noteq> 3 * (nat n - 1)"
      using k by simp_all
  qed
  have f23: "follows env tag ([Rcv lp (agv_buf args ?d)] @ ?rest) (\<lambda>j. ring_pos tag args n r (3 * k + 1 + j))
      (steps (if_flag_once UCG_ALLGATHERV_RING_RECV (agv_irecv env lp ?d) # ?tail)) ?op1"
    by (rule follows_seq [OF f2, where ats = "\<lambda>j. ring_pos tag args n r (3 * k + 2 + j)"]) (use f3 m1 in \<open>auto simp: ring_pos_def\<close>)
  have "follows env tag ([Snd rp (agv_buf args ?s)] @ [Rcv lp (agv_buf args ?d)] @ ?rest) (\<lambda>j. ring_pos tag args n r (3 * k + j))
      (steps (if_flag_once UCG_ALLGATHERV_RING_SEND (agv_isend env rp ?s) # if_flag_once UCG_ALLGATHERV_RING_RECV (agv_irecv env lp ?d) # ?tail)) op"
    by (rule follows_seq [OF f1, where ats = "\<lambda>j. ring_pos tag args n r (3 * k + 1 + j)"]) (use f23 m1 in \<open>auto simp: ring_pos_def\<close>)
  then have "follows env tag (ring_rounds args n r k) (\<lambda>j. ring_pos tag args n r (3 * k + j))
      (steps (if_flag_once UCG_ALLGATHERV_RING_SEND (agv_isend env rp ?s) # if_flag_once UCG_ALLGATHERV_RING_RECV (agv_irecv env lp ?d) # ?tail)) op"
    using k p by (simp add: ring_rounds_step ring_round_def)
  then show ?case
    by (rule follows_cong [where f = "agv_ring_loop env lp rp" and op = op, rotated]) (rule ring_loop_step [OF a k Suc.prems(2) env])
qed

subsection \<open>Progress\<close>

text \<open>Where an operation stands after \<open>i\<close> actions.\<close>

definition ring_at_pos :: "c_int \<Rightarrow> ucg_coll_args \<Rightarrow> c_int \<Rightarrow> ucg_rank_t \<Rightarrow> nat \<Rightarrow> ucx_op \<Rightarrow> bool" where
  "ring_at_pos tag args n r i op \<longleftrightarrow>
     (let c = length (agv_copy_acts args r)
      in c \<le> i \<and> (i = c \<longrightarrow> ring_state tag args n r 0 3 op) \<and> ring_pos tag args n r (i - c) op)"

lemma ring_state_status [simp]: "ring_state tag args n r k fl (op_set_status st op) \<longleftrightarrow> ring_state tag args n r k fl op"
  by (simp add: ring_state_def op_set_status_def)

lemma ring_pos_status [simp]: "ring_pos tag args n r j (op_set_status st op) \<longleftrightarrow> ring_pos tag args n r j op"
  by (simp add: ring_pos_def)

lemma ring_acts_wait:
  assumes "i < length (ring_acts args n r)" and "ring_acts args n r ! i = Wait"
  obtains k where "k < nat n - 1" and "i = length (agv_copy_acts args r) + (3 * k + 2)"
proof -
  let ?c = "length (agv_copy_acts args r)"
  have ge: "?c \<le> i"
  proof (rule ccontr)
    assume "\<not> ?c \<le> i"
    then have "ring_acts args n r ! i \<in> set (agv_copy_acts args r)" by (simp add: ring_acts_def nth_append)
    then show False using assms(2) by (auto simp: agv_copy_acts_def split: if_splits)
  qed
  define j where "j = i - ?c"
  have i: "i = ?c + j" using ge by (simp add: j_def)
  have j: "j < 3 * (nat n - 1)" using assms(1) i by (simp add: ring_acts_def length_ring_rounds)
  have k: "j div 3 < nat n - 1" using j by (simp add: less_mult_imp_div_less mult.commute)
  have "ring_rounds args n r 0 ! j = Wait" using assms(2) i by (simp add: ring_acts_def nth_append)
  moreover have "ring_rounds args n r 0 ! j = ring_round args n r (j div 3) ! (j mod 3)"
  proof -
    have "ring_rounds args n r 0 ! j = drop (3 * (j div 3)) (ring_rounds args n r 0) ! (j mod 3)"
      using j by (simp add: length_ring_rounds)
    also have "\<dots> = (ring_round args n r (j div 3) @ ring_rounds args n r (Suc (j div 3))) ! (j mod 3)"
      unfolding drop_ring_rounds [OF less_imp_le [OF k]] ring_rounds_step [OF k] ..
    also have "\<dots> = ring_round args n r (j div 3) ! (j mod 3)"
    proof (rule nth_append_left)
      show "j mod 3 < length (ring_round args n r (j div 3))" by (simp add: ring_round_def)
    qed
    finally show ?thesis .
  qed
  ultimately have "ring_round args n r (j div 3) ! (j mod 3) = Wait" by simp
  moreover have "j mod 3 = 0 \<or> j mod 3 = 1 \<or> j mod 3 = 2" by presburger
  ultimately have "j mod 3 = 2" by (auto simp: ring_round_def)
  then have "j = 3 * (j div 3) + 2" using mult_div_mod_eq [of 3 j] by linarith
  then show thesis using that [OF k] i by simp
qed

lemma ring_progress_eq:
  assumes "agv_ok args n" and "op_args op = args" and "uo_ring_iter (op_priv op) = ring_at n r k"
  shows "ucg_planc_ucx_allgatherv_ring_op_progress env op = (\<lambda>op w. progress_end (agv_ring_loop env
    (ucg_algo_ring_iter_left_value (ring_at n r k)) (ucg_algo_ring_iter_right_value (ring_at n r k)) op w)) op"
proof -
  obtain ty where "ca_recvtype args = Some ty" using agv_ok_type [OF assms(1)] by blast
  then show ?thesis using assms(2,3)
    by (intro ext) (simp add: ucg_planc_ucx_allgatherv_ring_op_progress_def with_recvtype_def Let_def)
qed

lemma follows_ring_waiting:
  assumes a: "agv_ok args n" "r \<in> {0..<n}" and env: "ce_myrank env = r" "ce_size env = n"
    and k: "k < nat n - 1" and op: "ring_state tag args n r k 0 op"
    and p: "lp = (r - 1) mod n" "rp = (r + 1) mod n"
  shows "follows env tag (Wait # ring_rounds args n r (Suc k)) (\<lambda>j. ring_pos tag args n r (3 * k + 2 + j)) (agv_ring_loop env lp rp) op"
proof (rule follows_cong [where f = "agv_ring_loop env lp rp" and op = op, rotated])
  show "agv_ring_loop env lp rp op = steps
    [if_flag_once UCG_ALLGATHERV_RING_SEND (agv_isend env rp ((r - int k) mod n)),
     if_flag_once UCG_ALLGATHERV_RING_RECV (agv_irecv env lp ((r - int k - 1) mod n)), call_step (ce_testall env),
     \<lambda>op. agv_ring_loop env lp rp (ring_next_step UCG_ALLGATHERV_RING_FLAGS op)] op"
    by (rule ring_loop_step [OF a k op env])
  have skip: "if_flag_once UCG_ALLGATHERV_RING_SEND f op w = Some (UCG_OK, op, w)" "if_flag_once UCG_ALLGATHERV_RING_RECV f op w = Some (UCG_OK, op, w)" for f w
    using op by (simp_all add: ring_state_def if_flag_once_def ucg_test_and_clear_flags_def ucg_test_flags_def
      UCG_ALLGATHERV_RING_SEND_def UCG_ALLGATHERV_RING_RECV_def)
  show "follows env tag (Wait # ring_rounds args n r (Suc k)) (\<lambda>j. ring_pos tag args n r (3 * k + 2 + j)) (steps
    [if_flag_once UCG_ALLGATHERV_RING_SEND (agv_isend env rp ((r - int k) mod n)),
     if_flag_once UCG_ALLGATHERV_RING_RECV (agv_irecv env lp ((r - int k - 1) mod n)), call_step (ce_testall env),
     \<lambda>op. agv_ring_loop env lp rp (ring_next_step UCG_ALLGATHERV_RING_FLAGS op)]) op"
  proof (rule follows_none_step, rule skip(1), rule follows_none_step, rule skip(2), rule follows_ring_test [OF k op _ a(2)])
    fix op' assume "ring_state tag args n r (Suc k) 3 op'"
    then show "follows env tag (ring_rounds args n r (Suc k)) (\<lambda>j. ring_pos tag args n r (3 * Suc k + j)) (agv_ring_loop env lp rp) op'"
      by (intro follows_ring_loop [OF a env]) (use k p in simp_all)
  qed
qed

lemma ring_progress_follows:
  assumes a: "agv_ok args n" "r \<in> {0..<n}" and env: "ce_myrank env = r" "ce_size env = n"
    and at: "ring_at_pos tag args n r i op"
    and i: "i = length (agv_copy_acts args r) \<or> i < length (ring_acts args n r) \<and> ring_acts args n r ! i = Wait"
  shows "follows env tag (drop i (ring_acts args n r)) (\<lambda>l. ring_at_pos tag args n r (i + l)) (ucg_planc_ucx_allgatherv_ring_op_progress env) op"
proof -
  let ?c = "length (agv_copy_acts args r)"
  have n: "0 < n" using a(1) by (simp add: agv_ok_def)
  have vals: "ucg_algo_ring_iter_left_value (ring_at n r k) = (r - 1) mod n" "ucg_algo_ring_iter_right_value (ring_at n r k) = (r + 1) mod n"
    if "k < nat n - 1" for k using ring_at_simps(4,5) [OF a(2) that] .
  have result: "follows env tag (drop i (ring_acts args n r)) (\<lambda>l. ring_at_pos tag args n r (i + l)) (ucg_planc_ucx_allgatherv_ring_op_progress env) op"
    if st: "ring_state tag args n r k fl op" and ij: "i = ?c + j" and
      f: "follows env tag (drop i (ring_acts args n r)) (\<lambda>l. ring_pos tag args n r (j + l))
        (agv_ring_loop env (ucg_algo_ring_iter_left_value (ring_at n r k)) (ucg_algo_ring_iter_right_value (ring_at n r k))) op" for k fl j
  proof (rule follows_cong [OF ring_progress_eq [OF a(1)]])
    show "op_args op = args" "uo_ring_iter (op_priv op) = ring_at n r k" using st by (simp_all add: ring_state_def)
    show "follows env tag (drop i (ring_acts args n r)) (\<lambda>l. ring_at_pos tag args n r (i + l)) (\<lambda>op w. progress_end (agv_ring_loop env
        (ucg_algo_ring_iter_left_value (ring_at n r k)) (ucg_algo_ring_iter_right_value (ring_at n r k)) op w)) op"
    proof (rule follows_progress_end [OF follows_waits [OF f], where at = "\<lambda>l. ring_at_pos tag args n r (i + l)"])
      fix l op' assume l: "l = length (drop i (ring_acts args n r)) \<or> l < length (drop i (ring_acts args n r)) \<and> drop i (ring_acts args n r) ! l = Wait"
        and pos: "ring_pos tag args n r (j + l) op'"
      have "ring_state tag args n r 0 3 op'" if "j + l = 0"
      proof -
        have "\<not> (l < length (drop i (ring_acts args n r)) \<and> drop i (ring_acts args n r) ! l = Wait)"
        proof
          assume "l < length (drop i (ring_acts args n r)) \<and> drop i (ring_acts args n r) ! l = Wait"
          then have "i < length (ring_acts args n r)" "ring_acts args n r ! i = Wait" using that nth_drop [of i "ring_acts args n r" 0] by auto
          then show False using ring_acts_wait that ij by (metis add_0_right add_2_eq_Suc' add_left_cancel nat.distinct(1) add_is_0)
        qed
        then have "length (ring_acts args n r) = i" using l that ij length_ring_acts [of args r n] by auto
        then have "nat n - 1 = 0" using ij that by (simp add: ring_acts_def length_ring_rounds)
        then show ?thesis using pos that by (simp add: ring_pos_def)
      qed
      then show "ring_at_pos tag args n r (i + l) op'" using pos ij by (simp add: ring_at_pos_def Let_def)
    qed (simp add: ring_at_pos_def Let_def)
  qed
  show ?thesis using i
  proof
    assume ic: "i = ?c"
    then have st: "ring_state tag args n r 0 3 op" using at by (simp add: ring_at_pos_def Let_def)
    have d: "drop i (ring_acts args n r) = ring_rounds args n r 0" by (simp add: ic ring_acts_def)
    have "follows env tag (ring_rounds args n r 0) (\<lambda>j. ring_pos tag args n r (3 * 0 + j))
        (agv_ring_loop env (ucg_algo_ring_iter_left_value (ring_at n r 0)) (ucg_algo_ring_iter_right_value (ring_at n r 0))) op"
      by (rule follows_ring_loop [OF a env _ _ st]) (use vals [of 0] in simp_all)
    then show ?thesis by (intro result [OF st, of 0]) (simp_all add: ring_acts_def ic)
  next
    assume "i < length (ring_acts args n r) \<and> ring_acts args n r ! i = Wait"
    then obtain k where k: "k < nat n - 1" "i = ?c + (3 * k + 2)" using ring_acts_wait by metis
    have m: "(3 * k + 2) mod 3 = 2" "(3 * k + 2) div 3 = k" by presburger+
    then have st: "ring_state tag args n r k 0 op"
      using at by (simp add: ring_at_pos_def Let_def ring_pos_def k(2) m del: add_2_eq_Suc add_2_eq_Suc')
    have "drop i (ring_acts args n r) = drop 2 (drop (3 * k) (ring_rounds args n r 0))" by (simp add: k(2) ring_acts_def add.commute)
    also have "\<dots> = Wait # ring_rounds args n r (Suc k)"
      unfolding drop_ring_rounds [OF less_imp_le [OF k(1)]] ring_rounds_step [OF k(1)] by (simp add: ring_round_def)
    finally have d: "drop i (ring_acts args n r) = Wait # ring_rounds args n r (Suc k)" .
    show ?thesis
      by (rule result [OF st k(2)]) (unfold d, rule follows_ring_waiting [OF a env k(1) st], use vals [OF k(1)] in simp_all)
  qed
qed

subsection \<open>Trigger\<close>

definition ring_ready :: "c_int \<Rightarrow> ucg_coll_args \<Rightarrow> c_int \<Rightarrow> ucg_rank_t \<Rightarrow> ucx_op \<Rightarrow> bool" where
  "ring_ready tag args n r op \<longleftrightarrow> op_id op = tag \<and> op_args op = args \<and> (\<exists>k. uo_ring_iter (op_priv op) = ring_at n r k)"

lemma agv_copy_own_acts:
  assumes "agv_ok args n" and "r \<in> {0..<n}" and "ce_myrank env = r" and "op_args op = args"
  shows "agv_copy_own env op w = map_option (\<lambda>(st, k, w'). (st, op, w')) (run_acts env tag (agv_copy_acts args r) w)"
proof (cases "ca_sendbuf args = UCG_IN_PLACE")
  case True
  then show ?thesis using assms(4) by (simp add: agv_copy_own_def agv_copy_acts_def Let_def)
next
  case False
  obtain b c where b: "agv_block args r = Some (b, c)" "agv_buf args r = (b, c, dt_addr (ca_recvtype args))" by (rule agv_okD [OF assms(1,2)])
  then show ?thesis using assms(3,4) False
    by (cases "ce_memcpy env b c (dt_addr (ca_recvtype args)) (ca_sendbuf args) (ca_count args) (dt_addr (ca_sendtype args)) w")
      (auto simp: agv_copy_own_def agv_copy_acts_def agv_src_def Let_def call_step_def)
qed

text \<open>What a trigger routine does that copies the block of the rank first.\<close>

lemma copy_then_progress:
  assumes "agv_ok args n" and "r \<in> {0..<n}" and "ce_myrank env = r" and "op_args op = args"
  shows "trigger_end (steps [agv_copy_own env, g] op w) =
    (case run_acts env tag (agv_copy_acts args r) w of
       None \<Rightarrow> None
     | Some (st, k, w') \<Rightarrow> if st \<noteq> UCG_OK then Some (if st = UCG_INPROGRESS then UCG_OK else st, op, w') else trigger_end (g op w'))"
proof -
  have two: "steps [f, g] op w = (case f op w of None \<Rightarrow> None
      | Some (st, op', w') \<Rightarrow> if st \<noteq> UCG_OK then Some (st, op', w') else g op' w')" for f
    unfolding steps.simps(2) [of f] steps_single by (cases "f op w") auto
  show ?thesis unfolding two agv_copy_own_acts [OF assms, of w tag]
    by (cases "run_acts env tag (agv_copy_acts args r) w") (auto simp: trigger_end_def)
qed

lemma ring_trigger_starts:
  assumes a: "agv_ok args n" "r \<in> {0..<n}" and env: "ce_myrank env = r" "ce_size env = n" and op: "ring_ready tag args n r op"
  shows "\<exists>op0 op1 fin. ring_at_pos tag args n r (length (agv_copy_acts args r)) op0 \<and> (\<forall>st. st \<noteq> UCG_INPROGRESS \<longrightarrow> fin st = st) \<and>
    (\<forall>w. ucg_planc_ucx_allgatherv_ring_op_trigger env op w =
      (case run_acts env tag (agv_copy_acts args r) (ce_state_reset env w) of
         None \<Rightarrow> None
       | Some (st, k, w') \<Rightarrow> if st \<noteq> UCG_OK then Some (fin st, op1, w')
           else trigger_end (ucg_planc_ucx_allgatherv_ring_op_progress env op0 w')))"
proof -
  define op0 where "op0 = agv_ring_start (fst (ucg_planc_ucx_op_reset env op undefined))"
  obtain k where k: "uo_ring_iter (op_priv op) = ring_at n r k" using op by (auto simp: ring_ready_def)
  have st: "ring_state tag args n r 0 3 op0"
    using op k ring_at_simps(6) [OF a(2)]
    by (simp add: op0_def ring_ready_def ring_state_def agv_ring_start_def ucg_planc_ucx_op_reset_def op_set_status_def
      UCG_ALLGATHERV_RING_FLAGS_def UCG_ALLGATHERV_RING_SEND_def UCG_ALLGATHERV_RING_RECV_def)
  have args: "op_args op0 = args" using st by (simp add: ring_state_def)
  have "ucg_planc_ucx_allgatherv_ring_op_trigger env op w =
      trigger_end (steps [agv_copy_own env, ucg_planc_ucx_allgatherv_ring_op_progress env] op0 (ce_state_reset env w))" for w
    by (simp add: ucg_planc_ucx_allgatherv_ring_op_trigger_def op0_def ucg_planc_ucx_op_reset_def)
  moreover have "ring_at_pos tag args n r (length (agv_copy_acts args r)) op0"
    using st by (simp add: ring_at_pos_def Let_def ring_pos_def)
  ultimately show ?thesis unfolding copy_then_progress [OF a env(1) args, of _ _ tag]
    by (intro exI [where x = op0] exI [where x = "\<lambda>st. if st = UCG_INPROGRESS then UCG_OK else st"]) auto
qed

text \<open>A new operation, once it has its id, is ready.\<close>

lemma ring_new_ready:
  assumes "ucg_planc_ucx_allgatherv_ring_op_new env grp vgroup blank args h w = (Some op, h', w')"
    and "ce_myrank env = r" and "ce_size env = n"
  shows "ring_ready (op_id op) args n r op"
  using assms ring_at_def [of n r 0]
  by (auto simp: ucg_planc_ucx_allgatherv_ring_op_new_def ucx_op_new_def ucg_plan_op_ctor_def ucg_request_ctor_def
      ucg_planc_ucx_op_init_def ring_ready_def split: prod.splits bool.splits if_splits bind_splits intro: exI [where x = 0])

end
