(* ===== verification/Agv_Ring_Spec.thy ===== *)
theory Agv_Ring_Spec
  imports Agv_Ring_Script Coll_Net
begin

text \<open>What the ring allgather guarantees: every rank that finishes has the block of every rank.\<close>

subsection \<open>All ranks together\<close>

definition agv_valid :: "c_int \<Rightarrow> (ucg_rank_t \<Rightarrow> ucg_coll_args) \<Rightarrow> (ucg_rank_t \<Rightarrow> 'w coll_env) \<Rightarrow> bool" where
  "agv_valid n B E \<longleftrightarrow> (\<forall>r \<in> {0..<n}. agv_ok (B r) n \<and> ce_myrank (E r) = r \<and> ce_size (E r) = n)"

definition agv_ring_script :: "c_int \<Rightarrow> (ucg_rank_t \<Rightarrow> ucg_coll_args) \<Rightarrow> ucg_rank_t \<Rightarrow> coll_act list" where
  "agv_ring_script n B r = ring_acts (B r) n r"

lemma ring_rounds_peers: "0 < n \<Longrightarrow> peers_of (ring_rounds args n r k) \<subseteq> {0..<n}"
  by (auto simp: ring_rounds_def ring_round_def peers_of_def)

lemma copy_acts_peers [simp]: "peers_of (agv_copy_acts args r) = {}"
  by (simp add: agv_copy_acts_def)

interpretation agv_ring: scripted_coll
  "\<lambda>(n, tag, B, E :: ucg_rank_t \<Rightarrow> 'w coll_env). agv_valid n B E" "\<lambda>(n, tag, B, E). {0..<n}" "\<lambda>(n, tag, B, E). E" "\<lambda>(n, tag, B, E). tag"
  "\<lambda>(n, tag, B, E). agv_ring_script n B" "\<lambda>(n, tag, B, E) r. length (agv_copy_acts (B r) r)"
  "\<lambda>(n, tag, B, E) r. ring_at_pos tag (B r) n r" "\<lambda>(n, tag, B, E) r. ring_ready tag (B r) n r"
  ucg_planc_ucx_allgatherv_ring_op_trigger ucg_planc_ucx_allgatherv_ring_op_progress
proof (unfold_locales, goal_cases)
  case (1 g r)
  then show ?case using ring_rounds_peers by (auto simp: agv_ring_script_def ring_acts_def agv_valid_def split: prod.splits)
next
  case (2 g r)
  then show ?case by (auto simp: agv_ring_script_def ring_acts_def agv_copy_acts_def split: prod.splits)
next
  case (3 g r i op)
  obtain n tag B E where g: "g = (n, tag, B, E)" by (cases g)
  have a: "agv_ok (B r) n" "r \<in> {0..<n}" "ce_myrank (E r) = r" "ce_size (E r) = n" using 3(1,2) by (auto simp: g agv_valid_def)
  have "follows (E r) tag (drop i (ring_acts (B r) n r)) (\<lambda>l. ring_at_pos tag (B r) n r (i + l)) (ucg_planc_ucx_allgatherv_ring_op_progress (E r)) op"
    by (rule ring_progress_follows [OF a]) (use 3(3,4) in \<open>auto simp: g agv_ring_script_def\<close>)
  then show ?case by (intro exI [where x = "[]"]) (simp add: g agv_ring_script_def)
next
  case (4 g r op w st op' w')
  then show ?case by (auto simp: ucg_planc_ucx_allgatherv_ring_op_progress_def Let_def progress_end_def split: prod.splits)
next
  case (5 g r op)
  obtain n tag B E where g: "g = (n, tag, B, E)" by (cases g)
  have a: "agv_ok (B r) n" "r \<in> {0..<n}" "ce_myrank (E r) = r" "ce_size (E r) = n" "ring_ready tag (B r) n r op"
    using 5 by (auto simp: g agv_valid_def)
  have t: "take (length (agv_copy_acts (B r) r)) (ring_acts (B r) n r) = agv_copy_acts (B r) r" by (simp add: ring_acts_def)
  show ?case unfolding g prod.case agv_ring_script_def t by (rule ring_trigger_starts [OF a])
qed

subsection \<open>The data\<close>

text \<open>What rank \<open>r\<close> contributes, and where.\<close>

definition agv_own :: "ucg_coll_args \<Rightarrow> ucg_rank_t \<Rightarrow> c_buf" where
  "agv_own args r = (if ca_sendbuf args = UCG_IN_PLACE then agv_buf args r else agv_src args)"

text \<open>The blocks of a rank do not overlap each other or its send buffer, and corresponding blocks hold the same amount of data.\<close>

definition agv_areas :: "'v areas \<Rightarrow> c_int \<Rightarrow> (ucg_rank_t \<Rightarrow> ucg_coll_args) \<Rightarrow> bool" where
  "agv_areas A n B \<longleftrightarrow>
     (\<forall>r \<in> {0..<n}. \<forall>i \<in> {0..<n}.
        (\<forall>j \<in> {0..<n}. i \<noteq> j \<longrightarrow> agv_buf (B r) i \<noteq> agv_buf (B r) j \<and> ar_apart A r (agv_buf (B r) i) (agv_buf (B r) j)) \<and>
        (\<forall>p \<in> {0..<n}. ar_fits A p (agv_buf (B p) i) r (agv_buf (B r) i)) \<and>
        (ca_sendbuf (B r) \<noteq> UCG_IN_PLACE \<longrightarrow>
           ar_apart A r (agv_buf (B r) i) (agv_src (B r)) \<and> ar_fits A r (agv_src (B r)) r (agv_buf (B r) r)))"

definition ring_msgs ::
    "c_int \<Rightarrow> (ucg_rank_t \<Rightarrow> ucg_coll_args) \<Rightarrow> (ucg_rank_t \<Rightarrow> 'v) \<Rightarrow> ucg_rank_t \<Rightarrow> ucg_rank_t \<Rightarrow> (c_buf \<times> 'v) list" where
  "ring_msgs n B V r p =
     (if p = (r - 1) mod n then map (\<lambda>k. (agv_buf (B p) ((p - int k) mod n), V ((p - int k) mod n))) [0..<nat n - 1] else [])"

text \<open>After \<open>k\<close> rounds: the rank has its own block and those of the \<open>k\<close> ranks to its left.\<close>

definition ring_sym ::
    "c_int \<Rightarrow> (ucg_rank_t \<Rightarrow> ucg_coll_args) \<Rightarrow> (ucg_rank_t \<Rightarrow> 'v) \<Rightarrow> ucg_rank_t \<Rightarrow> nat \<Rightarrow> 'v sym \<Rightarrow> bool" where
  "ring_sym n B V r k s \<longleftrightarrow> sy_pend s = [] \<and> sy_lent s = [] \<and> (k < nat n - 1 \<longrightarrow> sy_rcvd s ((r - 1) mod n) = k) \<and>
     (\<forall>j \<le> k. sy_known s (agv_buf (B r) ((r - int j) mod n)) = Some (V ((r - int j) mod n))) \<and>
     sy_out s = (\<lambda>_. [])((r + 1) mod n := map (\<lambda>k. (agv_buf (B r) ((r - int k) mod n), V ((r - int k) mod n))) [0..<k])"

lemma mod_diff_neq:
  assumes "0 < n" and "0 < d" and "d < n"
  shows "(a - d) mod n \<noteq> a mod (n :: int)"
proof
  assume "(a - d) mod n = a mod n"
  then have "n dvd d" by (metis add_diff_cancel_left' diff_add_cancel mod_eq_dvd_iff minus_diff_eq dvd_minus_iff)
  then show False using assms zdvd_not_zless by blast
qed

lemma ring_sym_round:
  assumes A: "agv_areas A n B" and r: "r \<in> {0..<n}" and s: "ring_sym n B V r k s" and k: "k < nat n - 1"
  shows "\<exists>s'. sym_run A (ring_msgs n B V r) r (ring_round (B r) n r k) s = Some s' \<and> ring_sym n B V r (Suc k) s'"
proof -
  have n: "0 < n" "int (Suc k) < n" using r k by auto
  let ?l = "(r - 1) mod n" and ?b = "\<lambda>j :: nat. agv_buf (B r) ((r - int j) mod n)" and ?v = "\<lambda>j :: nat. V ((r - int j) mod n)"
  have idx: "(r - int j) mod n \<in> {0..<n}" for j using n by simp
  have l: "?l \<in> {0..<n}" using n by simp
  have suc: "(r - int k - 1) mod n = (r - int (Suc k)) mod n" by (simp add: algebra_simps)
  have neq: "(r - int j) mod n \<noteq> (r - int (Suc k)) mod n" if "j \<le> k" for j
  proof -
    have "(r - int j - (int (Suc k) - int j)) mod n \<noteq> (r - int j) mod n" by (rule mod_diff_neq) (use that n in auto)
    moreover have "r - int j - (int (Suc k) - int j) = r - int (Suc k)" by simp
    ultimately show ?thesis by metis
  qed
  have apart: "?b i \<noteq> ?b j \<and> ar_apart A r (?b i) (?b j)" if "(r - int i) mod n \<noteq> (r - int j) mod n" for i j
    using A r idx that unfolding agv_areas_def by blast
  have msg: "k < length (ring_msgs n B V r ?l)" "ring_msgs n B V r ?l ! k = (agv_buf (B ?l) ((r - int (Suc k)) mod n), ?v (Suc k))"
  proof -
    have "(?l - int k) mod n = (r - int (Suc k)) mod n" by (simp add: mod_diff_left_eq algebra_simps)
    then show "k < length (ring_msgs n B V r ?l)" "ring_msgs n B V r ?l ! k = (agv_buf (B ?l) ((r - int (Suc k)) mod n), ?v (Suc k))"
      using k by (simp_all add: ring_msgs_def)
  qed
  have fits: "ar_fits A ?l (agv_buf (B ?l) ((r - int (Suc k)) mod n)) r (?b (Suc k))" using A r l idx unfolding agv_areas_def by blast
  let ?X = "ring_msgs n B V r"
  let ?s1 = "s\<lparr>sy_lent := [?b k], sy_out := (sy_out s)((r + 1) mod n := sy_out s ((r + 1) mod n) @ [(?b k, ?v k)])\<rparr>"
  let ?s2 = "?s1\<lparr>sy_pend := [(?l, k, ?b (Suc k))], sy_rcvd := (sy_rcvd s)(?l := Suc k), sy_known := forget A r (?b (Suc k)) (sy_known s)\<rparr>"
  let ?s3 = "?s2\<lparr>sy_pend := [], sy_lent := [], sy_known := (forget A r (?b (Suc k)) (sy_known s))(?b (Suc k) := Some (?v (Suc k)))\<rparr>"
  have kn: "sy_known s (?b j) = Some (?v j)" if "j \<le> k" for j using s that by (simp add: ring_sym_def)
  have e: "sy_pend s = []" "sy_lent s = []" "sy_rcvd s ?l = k" using s k by (simp_all add: ring_sym_def)
  have 1: "sym_act A ?X r (Snd ((r + 1) mod n) (?b k)) s = Some ?s1" using kn [of k] e by simp
  have 2: "sym_act A ?X r (Rcv ?l (?b (Suc k))) ?s1 = Some ?s2" using e by simp
  have 3: "sym_act A ?X r Wait ?s2 = Some ?s3" using msg fits by simp
  have free: "race_free A r (Rcv ?l (?b (Suc k))) (pend_bufs (sy_pend ?s1)) (sy_lent ?s1)"
    using e apart [of "Suc k" k] neq [of k] by simp
  have run: "sym_run A ?X r (ring_round (B r) n r k) s = Some ?s3"
    unfolding ring_round_def suc sym_run.simps 1 using e free 2 3 by simp
  have "sy_known ?s3 (?b j) = Some (?v j)" if "j \<le> Suc k" for j
  proof (cases "j = Suc k")
    case False
    then have j: "j \<le> k" using that by simp
    show ?thesis using kn [OF j] apart [OF neq [OF j]] by (simp add: forget_def)
  qed simp
  moreover have "sy_out ?s3 = (\<lambda>_. [])((r + 1) mod n := map (\<lambda>k. (agv_buf (B r) ((r - int k) mod n), V ((r - int k) mod n))) [0..<Suc k])"
    using s by (simp add: ring_sym_def)
  ultimately have "ring_sym n B V r (Suc k) ?s3" by (simp add: ring_sym_def)
  then show ?thesis using run by blast
qed

lemma ring_sym_rounds:
  assumes A: "agv_areas A n B" and r: "r \<in> {0..<n}"
  shows "k \<le> nat n - 1 \<Longrightarrow> ring_sym n B V r k s \<Longrightarrow>
    \<exists>s'. sym_run A (ring_msgs n B V r) r (ring_rounds (B r) n r k) s = Some s' \<and> ring_sym n B V r (nat n - 1) s'"
proof (induction "nat n - 1 - k" arbitrary: k s)
  case 0
  then have "k = nat n - 1" by simp
  then show ?case using 0 by (simp add: ring_rounds_end)
next
  case (Suc m)
  then have k: "k < nat n - 1" by simp
  obtain s' where s': "sym_run A (ring_msgs n B V r) r (ring_round (B r) n r k) s = Some s'" "ring_sym n B V r (Suc k) s'"
    using ring_sym_round [OF A r Suc.prems(2) k] by blast
  have "\<exists>s''. sym_run A (ring_msgs n B V r) r (ring_rounds (B r) n r (Suc k)) s' = Some s'' \<and> ring_sym n B V r (nat n - 1) s''"
    by (rule Suc.hyps(1)) (use Suc.hyps(2) k s'(2) in simp_all)
  then show ?case by (simp add: ring_rounds_step [OF k] sym_run_append s'(1))
qed

text \<open>The block at distance \<open>j\<close> to the left is any block.\<close>

lemma ring_index:
  assumes "r \<in> {0..<n}" and "i \<in> {0..<n}"
  obtains j where "j \<le> nat n - 1" and "(r - int j) mod n = i"
proof (rule that [of "nat ((r - i) mod n)"])
  have n: "0 < n" using assms by simp
  have b: "0 \<le> (r - i) mod n" "(r - i) mod n < n" using n by simp_all
  then show "nat ((r - i) mod n) \<le> nat n - 1" by linarith
  have "(r - (r - i) mod n) mod n = i mod n" by (simp add: mod_diff_right_eq)
  then show "(r - int (nat ((r - i) mod n))) mod n = i" using assms(2) b by simp
qed

definition agv_known :: "(ucg_rank_t \<Rightarrow> ucg_coll_args) \<Rightarrow> (ucg_rank_t \<Rightarrow> 'v) \<Rightarrow> ucg_rank_t \<Rightarrow> c_buf \<Rightarrow> 'v option" where
  "agv_known B V r = [agv_own (B r) r \<mapsto> V r]"

lemma agv_copy_plays:
  assumes "agv_areas A n B" and "r \<in> {0..<n}"
  obtains s where "sym_run A X r (agv_copy_acts (B r) r) (sym_start (agv_known B V r)) = Some s"
    and "s = sym_start (sy_known s)" and "sy_known s (agv_buf (B r) r) = Some (V r)"
proof (cases "ca_sendbuf (B r) = UCG_IN_PLACE")
  case True
  then show thesis using that [of "sym_start (agv_known B V r)"] by (simp add: agv_copy_acts_def agv_known_def agv_own_def sym_start_def)
next
  case False
  then have "ar_apart A r (agv_buf (B r) r) (agv_src (B r))" "ar_fits A r (agv_src (B r)) r (agv_buf (B r) r)"
    using assms unfolding agv_areas_def by blast+
  then show thesis using False
    by (intro that [of "sym_start ((forget A r (agv_buf (B r) r) [agv_src (B r) \<mapsto> V r])(agv_buf (B r) r \<mapsto> V r))"])
      (simp_all add: agv_copy_acts_def agv_known_def agv_own_def sym_start_def)
qed

lemma ring_rank_plays:
  assumes A: "agv_areas A n B" and r: "r \<in> {0..<n}"
  shows "\<exists>s. sym_run A (ring_msgs n B V r) r (agv_ring_script n B r) (sym_start (agv_known B V r)) = Some s \<and>
    (\<forall>i \<in> {0..<n}. sy_known s (agv_buf (B r) i) = Some (V i)) \<and> (\<forall>p \<in> {0..<n}. ring_msgs n B V p r = sy_out s p)"
proof -
  have n: "0 < n" using r by simp
  obtain s0 where s0: "sym_run A (ring_msgs n B V r) r (agv_copy_acts (B r) r) (sym_start (agv_known B V r)) = Some s0"
    "s0 = sym_start (sy_known s0)" "sy_known s0 (agv_buf (B r) r) = Some (V r)" by (rule agv_copy_plays [OF A r])
  have "sy_pend s0 = [] \<and> sy_lent s0 = [] \<and> sy_rcvd s0 = (\<lambda>_. 0) \<and> sy_out s0 = (\<lambda>_. [])"
    by (subst s0(2), subst s0(2), subst s0(2), subst s0(2)) (simp add: sym_start_def)
  then have "ring_sym n B V r 0 s0" using s0(3) r by (simp add: ring_sym_def fun_upd_idem)
  from ring_sym_rounds [OF A r _ this] obtain s where
    s: "sym_run A (ring_msgs n B V r) r (ring_rounds (B r) n r 0) s0 = Some s" "ring_sym n B V r (nat n - 1) s" by auto
  have "sym_run A (ring_msgs n B V r) r (agv_ring_script n B r) (sym_start (agv_known B V r)) = Some s"
    by (simp add: agv_ring_script_def ring_acts_def sym_run_append s0(1) s(1))
  moreover have "sy_known s (agv_buf (B r) i) = Some (V i)" if i: "i \<in> {0..<n}" for i
  proof -
    obtain j where "j \<le> nat n - 1" "(r - int j) mod n = i" by (rule ring_index [OF r i])
    then show ?thesis using s(2) unfolding ring_sym_def by metis
  qed
  moreover have "ring_msgs n B V p r = sy_out s p" if p: "p \<in> {0..<n}" for p
  proof -
    have "r = (p - 1) mod n \<longleftrightarrow> p = (r + 1) mod n"
    proof
      assume "r = (p - 1) mod n"
      then show "p = (r + 1) mod n" using p by (simp add: mod_add_left_eq)
    next
      assume "p = (r + 1) mod n"
      then show "r = (p - 1) mod n" using r by (simp add: mod_diff_left_eq)
    qed
    then show ?thesis using s(2) by (auto simp: ring_sym_def ring_msgs_def)
  qed
  ultimately show ?thesis by blast
qed

definition agv_ring_idle :: "c_int \<Rightarrow> c_int \<Rightarrow> (ucg_rank_t \<Rightarrow> ucg_coll_args) \<Rightarrow> 'w coll_conf \<Rightarrow> bool" where
  "agv_ring_idle n tag B c \<longleftrightarrow> (\<forall>r \<in> {0..<n}. cf_on c r = None \<and> ring_ready tag (B r) n r (cf_op c r))"

text \<open>
  C7: the ring allgather gathers: in any run of \<open>n\<close> ranks, over any p2p layer that delivers messages in the order of their posting,
  when the operation of a rank has status \<open>UCG_OK\<close> then block \<open>i\<close> of its receive buffer holds what rank \<open>i\<close> had at the beginning,
  in its send buffer, or in its own block if it has called the collective in place.
\<close>

theorem allgatherv_ring_gathers:
  assumes "agv_valid n B E" and "agv_areas A n B" and "data_promises A {0..<n} E tag view"
    and "agv_ring_idle n tag B c0" and "net_idle {0..<n} (\<lambda>_ _. None) (view (cf_world c0))"
    and "coll_run {0..<n} E ucg_planc_ucx_allgatherv_ring_op_trigger ucg_planc_ucx_allgatherv_ring_op_progress view c0 c"
    and "r \<in> {0..<n}" and "i \<in> {0..<n}" and "cf_on c r = Some UCG_OK" and "op_status (cf_op c r) = UCG_OK"
  shows "nt_val (view (cf_world c)) r (agv_buf (B r) i) = nt_val (view (cf_world c0)) i (agv_own (B i) i)"
proof -
  let ?g = "(n, tag, B, E)" and ?S = "agv_ring_script n B"
  define V where "V i = nt_val (view (cf_world c0)) i (agv_own (B i) i)" for i
  let ?K = "agv_known B V" and ?X = "ring_msgs n B V"
  have "\<forall>r \<in> {0..<n}. \<exists>s. sym_run A (?X r) r (?S r) (sym_start (?K r)) = Some s \<and>
      (\<forall>i \<in> {0..<n}. sy_known s (agv_buf (B r) i) = Some (V i)) \<and> (\<forall>p \<in> {0..<n}. ?X p r = sy_out s p)"
    by (intro ballI ring_rank_plays [OF assms(2)])
  then obtain fin where fin: "\<forall>r \<in> {0..<n}. sym_run A (?X r) r (?S r) (sym_start (?K r)) = Some (fin r) \<and>
      (\<forall>i \<in> {0..<n}. sy_known (fin r) (agv_buf (B r) i) = Some (V i)) \<and> (\<forall>p \<in> {0..<n}. ?X p r = sy_out (fin r) p)"
    by (rule bchoice [THEN exE])
  have P: "plays A {0..<n} ?S ?K ?X fin" using fin by (simp add: plays_def)
  have net: "net_idle {0..<n} ?K (view (cf_world c0))"
    unfolding net_idle_def
  proof (intro conjI ballI allI impI)
    fix r b u assume "?K r b = Some u"
    then show "nt_val (view (cf_world c0)) r b = u" by (auto simp: agv_known_def V_def split: if_splits)
  qed (use assms(5) in \<open>simp_all add: net_idle_def\<close>)
  have idle: "agv_ring.coll_idle ?g c0" using assms(4) by (simp add: agv_ring.coll_idle_def agv_ring_idle_def)
  have "nt_val (view (cf_world c)) r (agv_buf (B r) i) = V i"
    by (rule agv_ring.run_data(2) [of ?g A view ?K ?X fin c0 c r]) (use assms P net idle fin in simp_all)
  then show ?thesis by (simp add: V_def)
qed

subsection \<open>Three ranks\<close>

text \<open>Rank 1 calls the collective in place.\<close>

definition trio_type :: ucg_dt_arg where
  "trio_type = \<lparr>cd_addr = 2, cd_size = 4, cd_extent = 4, cd_true_lb = 0, cd_true_extent = 4\<rparr>"

definition trio_args :: "ucg_rank_t \<Rightarrow> ucg_coll_args" where
  "trio_args r = (coll_args_zero UCG_COLL_TYPE_ALLGATHERV)
     \<lparr>ca_sendbuf := if r = 1 then UCG_IN_PLACE else 4, ca_count := 1, ca_sendtype := Some trio_type,
      ca_recvbuf := 8, ca_recvcounts := Some [1, 1, 1], ca_rdispls := Some [0, 1, 2], ca_recvtype := Some trio_type\<rparr>"

definition trio_net :: data_world where
  "trio_net = \<lparr>dw_msgs = [], dw_rcvd = [], dw_pend = [], dw_lent = [],
     dw_vals = [((0, 4, 1, 2), 5), ((1, 12, 1, 2), 7), ((2, 4, 1, 2), 9)]\<rparr>"

definition trio_op :: "ucg_rank_t \<Rightarrow> ucx_op" where
  "trio_op r = op_set_id 0x800001 (case ucg_planc_ucx_allgatherv_ring_op_new (data_env 3 r) 1 2 blank_coll (trio_args r)
     \<lparr>h_outcomes = [], h_live = 0\<rparr> trio_net of (Some op, _) \<Rightarrow> op | _ \<Rightarrow> undefined)"

definition trio_start :: "data_world coll_conf" where
  "trio_start = \<lparr>cf_op = trio_op, cf_on = (\<lambda>_. None), cf_world = trio_net\<rparr>"

definition trio_moves :: "(bool \<times> ucg_rank_t) list" where
  "trio_moves = [(True, 2), (True, 0), (False, 2), (True, 1), (False, 0), (False, 2), (False, 0)]"

definition trio_run :: "data_world coll_conf option" where
  "trio_run = coll_play (data_env 3) ucg_planc_ucx_allgatherv_ring_op_trigger ucg_planc_ucx_allgatherv_ring_op_progress trio_moves trio_start"

declare agv_ring_loop.simps [code]

lemma trio_value: "case trio_run of None \<Rightarrow> False | Some c \<Rightarrow> cf_on c 0 = Some UCG_OK \<and> op_status (cf_op c 0) = UCG_OK"
  by code_simp

lemma trio_bufs:
  "agv_buf (trio_args r) 0 = (8, 1, 2)" "agv_buf (trio_args r) 1 = (12, 1, 2)" "agv_buf (trio_args r) 2 = (16, 1, 2)"
  "agv_src (trio_args 0) = (4, 1, 2)" "agv_src (trio_args 2) = (4, 1, 2)"
  by (simp_all add: agv_buf_def agv_block_def agv_src_def trio_args_def trio_type_def coll_args_zero_def c_at_def c_read_def dt_addr_def c_offset_def)

lemma trio_sendbuf: "ca_sendbuf (trio_args r) = (if r = 1 then UCG_IN_PLACE else 4)"
  by (simp add: trio_args_def)

lemma trio_ranks: "{0..<3} = {0, 1, 2 :: int}"
  by auto

lemma trio_valid: "agv_valid 3 trio_args (data_env 3)" and trio_areas: "agv_areas plain_areas 3 trio_args"
  by (auto simp: agv_valid_def agv_ok_def agv_block_def trio_args_def trio_type_def coll_args_zero_def c_at_def c_read_def data_env_def trio_ranks)
    (auto simp: agv_areas_def trio_ranks trio_bufs plain_areas_def trio_sendbuf)

lemma trio_idle: "agv_ring_idle 3 0x800001 trio_args trio_start"
proof -
  have "ring_ready 0x800001 (trio_args r) 3 r (trio_op r)" for r
    by (auto simp: ring_ready_def trio_op_def ucg_planc_ucx_allgatherv_ring_op_new_def ucx_op_new_def heap_alloc_def
      ucg_plan_op_ctor_def ucg_request_ctor_def ucg_planc_ucx_op_init_def ring_at_def data_env_def op_set_id_def
      intro: exI [where x = 0])
  then show ?thesis by (simp add: agv_ring_idle_def trio_start_def)
qed

lemma allgatherv_ring_gathers_witness:
  "\<exists>c. trio_run = Some c \<and> op_status (cf_op c 0) = UCG_OK \<and> dw_val (cf_world c) 0 (16, 1, 2) = 9"
proof -
  obtain c where c: "trio_run = Some c" "cf_on c 0 = Some UCG_OK" "op_status (cf_op c 0) = UCG_OK"
    using trio_value by (auto split: option.splits)
  have net: "net_idle {0..<3} (\<lambda>_ _. None) (data_view (cf_world trio_start))"
    by (simp add: net_idle_def data_view_def trio_start_def trio_net_def)
  have ms: "snd ` set trio_moves \<subseteq> {0..<3}" by (simp add: trio_moves_def)
  note run = coll_play_run [OF ms coll_run.start c(1) [unfolded trio_run_def]]
  have "nt_val (data_view (cf_world c)) 0 (agv_buf (trio_args 0) 2) = nt_val (data_view (cf_world trio_start)) 2 (agv_own (trio_args 2) 2)"
    by (rule allgatherv_ring_gathers [OF trio_valid trio_areas data_env_promises trio_idle net run _ _ c(2,3)]) simp_all
  also have "\<dots> = 9"
    by (simp add: agv_own_def trio_bufs trio_sendbuf data_view_def trio_start_def trio_net_def dw_val_def)
      (simp add: UCG_IN_PLACE_def)
  finally show ?thesis using c unfolding trio_bufs by (auto simp: data_view_def)
qed

end
