(* ===== verification/Allgatherv_Bruck.thy ===== *)
theory Allgatherv_Bruck
  imports Allgatherv
begin

text \<open>
  The Bruck allgatherv (\<open>src/src/planc/ucx/allgatherv/allgatherv_bruck.c\<close>): in a step the ranks exchange all the blocks they
  have, and blocks that lie next to each other in the buffer travel in one message.
\<close>

subsection \<open>Bruck\<close>

definition UCG_ALLGATHERV_BRUCK_SEND :: u64 where "UCG_ALLGATHERV_BRUCK_SEND = 0x1"
definition UCG_ALLGATHERV_BRUCK_RECV :: u64 where "UCG_ALLGATHERV_BRUCK_RECV = 0x2"
definition UCG_ALLGATHERV_BRUCK_FLAGS :: u64 where
  "UCG_ALLGATHERV_BRUCK_FLAGS = UCG_ALLGATHERV_BRUCK_SEND OR UCG_ALLGATHERV_BRUCK_RECV"

text \<open>The displacements and counts of \<open>blockcount\<close> blocks from \<open>first\<close> on.\<close>

definition bruck_blocks :: "ucg_coll_args \<Rightarrow> c_int \<Rightarrow> c_int \<Rightarrow> nat \<Rightarrow> (c_int \<times> c_int) option list" where
  "bruck_blocks args group_size first blockcount =
     map (\<lambda>i. let r = u32_index (first + int i) group_size
              in do { d \<leftarrow> c_at (ca_rdispls args) r; c \<leftarrow> c_at (ca_recvcounts args) r; Some (d, c) }) [0..<blockcount]"

text \<open>Neighbouring blocks become one message; the last merged block comes first here.\<close>

fun bruck_merge :: "(c_int \<times> c_int) list \<Rightarrow> c_int \<times> c_int \<Rightarrow> (c_int \<times> c_int) list \<Rightarrow> (c_int \<times> c_int) list" where
  "bruck_merge ((d0, c0) # merged) prev ((d, c) # blocks) =
     (if d = fst prev + snd prev then bruck_merge ((d0, c0 + c) # merged) (d, c) blocks
      else bruck_merge ((d, c) # (d0, c0) # merged) (d, c) blocks)"
| "bruck_merge merged prev blocks = rev merged"

definition bruck_merged :: "(c_int \<times> c_int) option list \<Rightarrow> (c_int \<times> c_int) list option" where
  "bruck_merged blocks =
     (if None \<in> set blocks then None
      else case map the blocks of [] \<Rightarrow> None | b # bs \<Rightarrow> Some (bruck_merge [b] b bs))"

text \<open>A message of a merged block: both directions of a step address the receive buffer, but a send counts in the send type.\<close>

definition bruck_isend :: "'w coll_env \<Rightarrow> ucg_rank_t \<Rightarrow> c_int \<times> c_int \<Rightarrow> 'w step" where
  "bruck_isend env peer blk op w =
     do { ty \<leftarrow> ca_sendtype (op_args op);
          call_step (ce_isend env (c_offset (ca_recvbuf (op_args op)) (fst blk * cd_extent ty)) (snd blk) (cd_addr ty) peer (op_tag op)) op w }"

definition bruck_irecv :: "'w coll_env \<Rightarrow> ucg_rank_t \<Rightarrow> c_int \<times> c_int \<Rightarrow> 'w step" where
  "bruck_irecv env peer blk op w =
     do { ty \<leftarrow> ca_recvtype (op_args op);
          call_step (ce_irecv env (c_offset (ca_recvbuf (op_args op)) (fst blk * cd_extent ty)) (snd blk) (cd_addr ty) peer (op_tag op)) op w }"

definition bruck_messages :: "'w coll_env \<Rightarrow> c_int \<Rightarrow> 'w step" where
  "bruck_messages env distance op w =
     (let myrank = ce_myrank env; group_size = ce_size env; args = op_args op;
          blockcount = (if distance \<le> group_size div 2 then distance else group_size - distance);
          recvfrom = u32_index (myrank + distance) group_size; sendto = u32_index (myrank - distance + group_size) group_size
      in do { sends \<leftarrow> bruck_merged (bruck_blocks args group_size myrank (nat blockcount));
              recvs \<leftarrow> bruck_merged (bruck_blocks args group_size recvfrom (nat blockcount));
              err_steps (map (bruck_isend env sendto) sends @ map (bruck_irecv env recvfrom) recvs) op w })"

partial_function (option) agv_bruck_loop :: "'w coll_env \<Rightarrow> 'w step" where
  "agv_bruck_loop env op w =
     (let distance = uo_distance (op_priv op)
      in if \<not> distance < ce_size env then Some (UCG_OK, op, w)
         else do { (status, op, w) \<leftarrow>
                     steps [if_flag_once UCG_ALLGATHERV_BRUCK_FLAGS (bruck_messages env distance), call_step (ce_testall env)] op w;
                   if status \<noteq> UCG_OK then Some (status, op, w)
                   else agv_bruck_loop env (upd_priv (\<lambda>p. p\<lparr>uo_flags := uo_flags p OR UCG_ALLGATHERV_BRUCK_FLAGS,
                                                              uo_distance := uo_distance p * 2\<rparr>) op) w })"

definition ucg_planc_ucx_allgatherv_bruck_op_progress :: "'w coll_env \<Rightarrow> 'w step" where
  "ucg_planc_ucx_allgatherv_bruck_op_progress env op w = progress_end (agv_bruck_loop env op w)"

definition ucg_planc_ucx_allgatherv_bruck_op_reset :: "'w coll_env \<Rightarrow> ucx_op \<Rightarrow> 'w \<Rightarrow> ucx_op \<times> 'w" where
  "ucg_planc_ucx_allgatherv_bruck_op_reset env op w =
     (case ucg_planc_ucx_op_reset env op w of
        (op, w) \<Rightarrow> (upd_priv (\<lambda>p. p\<lparr>uo_flags := UCG_ALLGATHERV_BRUCK_FLAGS, uo_distance := 1\<rparr>) op, w))"

definition ucg_planc_ucx_allgatherv_bruck_op_trigger :: "'w coll_env \<Rightarrow> 'w step" where
  "ucg_planc_ucx_allgatherv_bruck_op_trigger env op w =
     (case ucg_planc_ucx_allgatherv_bruck_op_reset env op w of
        (op, w) \<Rightarrow> trigger_end (steps [agv_copy_own env, ucg_planc_ucx_allgatherv_bruck_op_progress env] op w))"

text \<open>Two arrays that only one progress call looks at; what matters of them is that they are allocated and freed.\<close>

definition ucg_planc_ucx_allgatherv_bruck_op_init :: "ucg_heap \<Rightarrow> ucg_status \<times> ucg_heap" where
  "ucg_planc_ucx_allgatherv_bruck_op_init h =
     (case heap_alloc h of
        (False, h) \<Rightarrow> (UCG_ERR_NO_MEMORY, h)
      | (True, h) \<Rightarrow> (case heap_alloc h of (False, h) \<Rightarrow> (UCG_ERR_NO_MEMORY, heap_free h) | (True, h) \<Rightarrow> (UCG_OK, h)))"

definition ucg_planc_ucx_allgatherv_bruck_op_discard :: "ucx_op \<Rightarrow> ucg_heap \<Rightarrow> ucg_status \<times> ucg_heap" where
  "ucg_planc_ucx_allgatherv_bruck_op_discard op h = (UCG_OK, heap_free (heap_free (heap_free h)))"

definition ucg_planc_ucx_allgatherv_bruck_op_new ::
    "'w coll_env \<Rightarrow> nat \<Rightarrow> nat \<Rightarrow> ucx_coll \<Rightarrow> ucg_coll_args \<Rightarrow> ucg_heap \<Rightarrow> 'w \<Rightarrow> ucx_op option \<times> ucg_heap \<times> 'w" where
  "ucg_planc_ucx_allgatherv_bruck_op_new env grp vgroup blank args h w =
     (case ucx_op_new env grp vgroup blank args h w of
        (None, h, w) \<Rightarrow> (None, h, w)
      | (Some op, h, w) \<Rightarrow>
          (case ucg_planc_ucx_allgatherv_bruck_op_init h of
             (status, h) \<Rightarrow> if status \<noteq> UCG_OK then (None, heap_free h, w) else (Some op, h, w)))"

definition ucg_planc_ucx_allgatherv_bruck_prepare ::
    "bool \<Rightarrow> 'w coll_env \<Rightarrow> nat \<Rightarrow> nat \<Rightarrow> ucx_coll \<Rightarrow> ucg_coll_args option \<Rightarrow> ucg_heap \<Rightarrow> 'w \<Rightarrow>
     ((ucg_status + ucx_op) \<times> ucg_heap \<times> 'w) option" where
  "ucg_planc_ucx_allgatherv_bruck_prepare chk env grp vgroup blank args h w =
     prepare_with chk (ucg_planc_ucx_allgatherv_bruck_op_new env grp vgroup blank) args h w"

end
