(* ===== verification/Ucx_Policy.thy ===== *)
theory Ucx_Policy
  imports Plan_Parse
begin

text \<open>
  What the default policies of the UCX plan component are made of (\<open>src/src/planc/ucx/planc_ucx_def.h\<close>,
  \<open>planc_ucx_plan.h\<close>): levels for the number of nodes and of processes per node, and scores.  A policy array ends with
  \<open>UCG_PLAN_LAST_POLICY\<close>.  The addresses of functions are a parameter, \<open>fn\<close>.
\<close>

subsection \<open>Levels\<close>

type_synonym ucg_planc_ucx_ppn_level = c_int
type_synonym ucg_planc_ucx_node_level = c_int

definition PPN_LEVEL_1 :: ucg_planc_ucx_ppn_level where "PPN_LEVEL_1 = 0"
definition PPN_LEVEL_4 :: ucg_planc_ucx_ppn_level where "PPN_LEVEL_4 = 1"
definition PPN_LEVEL_8 :: ucg_planc_ucx_ppn_level where "PPN_LEVEL_8 = 2"
definition PPN_LEVEL_16 :: ucg_planc_ucx_ppn_level where "PPN_LEVEL_16 = 3"
definition PPN_LEVEL_32 :: ucg_planc_ucx_ppn_level where "PPN_LEVEL_32 = 4"
definition PPN_LEVEL_64 :: ucg_planc_ucx_ppn_level where "PPN_LEVEL_64 = 5"
definition PPN_LEVEL_LG :: ucg_planc_ucx_ppn_level where "PPN_LEVEL_LG = 6"
definition PPN_LEVEL_NUMS :: c_int where "PPN_LEVEL_NUMS = 7"

definition NODE_LEVEL_4 :: ucg_planc_ucx_node_level where "NODE_LEVEL_4 = 0"
definition NODE_LEVEL_8 :: ucg_planc_ucx_node_level where "NODE_LEVEL_8 = 1"
definition NODE_LEVEL_16 :: ucg_planc_ucx_node_level where "NODE_LEVEL_16 = 2"
definition NODE_LEVEL_LG :: ucg_planc_ucx_node_level where "NODE_LEVEL_LG = 3"

lemmas level_defs = PPN_LEVEL_1_def PPN_LEVEL_4_def PPN_LEVEL_8_def PPN_LEVEL_16_def PPN_LEVEL_32_def PPN_LEVEL_64_def
  PPN_LEVEL_LG_def PPN_LEVEL_NUMS_def NODE_LEVEL_4_def NODE_LEVEL_8_def NODE_LEVEL_16_def NODE_LEVEL_LG_def

text \<open>For a \<open>begin\<close> that is not positive the loop need not end.\<close>

partial_function (option) log2_n :: "c_int \<Rightarrow> c_int \<Rightarrow> c_int option" where
  "log2_n n begin = (if n \<ge> begin then do { index \<leftarrow> log2_n (n div 2) begin; Some (index + 1) } else Some 0)"

definition ucg_planc_ucx_get_ppn_level :: "c_int \<Rightarrow> ucg_planc_ucx_ppn_level option" where
  "ucg_planc_ucx_get_ppn_level ppn =
     (let ppn_lev_small = 4; ppn_lev_large = 64
      in if ppn = 1 then Some PPN_LEVEL_1
         else if ppn \<le> ppn_lev_small then Some PPN_LEVEL_4
         else if ppn > ppn_lev_large then Some PPN_LEVEL_LG
         else log2_n ppn ppn_lev_small)"

definition ucg_planc_ucx_get_node_level :: "c_int \<Rightarrow> ucg_planc_ucx_node_level option" where
  "ucg_planc_ucx_get_node_level node_cnt =
     (let node_lev_small = 4; node_lev_large = 16
      in if node_cnt \<le> node_lev_small then Some NODE_LEVEL_4
         else if node_cnt > node_lev_large then Some NODE_LEVEL_LG
         else log2_n (node_cnt - 1) node_lev_small)"

subsection \<open>Policies and algorithms\<close>

definition UCG_PLAN_UCX_PLAN_SCORE_0TH :: u32 where "UCG_PLAN_UCX_PLAN_SCORE_0TH = 90"
definition UCG_PLAN_UCX_PLAN_SCORE_1ST :: u32 where "UCG_PLAN_UCX_PLAN_SCORE_1ST = UCG_PLAN_UCX_PLAN_SCORE_0TH - 1"
definition UCG_PLAN_UCX_PLAN_SCORE_2ND :: u32 where "UCG_PLAN_UCX_PLAN_SCORE_2ND = UCG_PLAN_UCX_PLAN_SCORE_1ST - 1"
definition UCG_PLAN_UCX_PLAN_SCORE_3RD :: u32 where "UCG_PLAN_UCX_PLAN_SCORE_3RD = UCG_PLAN_UCX_PLAN_SCORE_2ND - 1"

definition UCG_PLAN_INVALID_POLICY_ID :: c_int where "UCG_PLAN_INVALID_POLICY_ID = - 1"

definition UCG_PLAN_LAST_POLICY :: ucg_plan_policy where
  "UCG_PLAN_LAST_POLICY = \<lparr>po_id = UCG_PLAN_INVALID_POLICY_ID, po_range = \<lparr>rg_start = 0, rg_end = 0\<rparr>, po_score = 0\<rparr>"

definition ucx_policy :: "c_int \<Rightarrow> u64 \<Rightarrow> u64 \<Rightarrow> u32 \<Rightarrow> ucg_plan_policy" where
  "ucx_policy i a b score = \<lparr>po_id = i, po_range = \<lparr>rg_start = a, rg_end = b\<rparr>, po_score = score\<rparr>"

text \<open>An entry of a table of algorithms: \<open>prepare\<close>, \<open>id\<close>, \<open>name\<close>, \<open>domain\<close>; the other fields are zero.\<close>

definition ucx_plan_attr :: "(string \<Rightarrow> nat) \<Rightarrow> string \<Rightarrow> string \<times> c_int \<times> string \<Rightarrow> ucg_plan_attr" where
  "ucx_plan_attr fn domn entry = (case entry of (prepare, i, name) \<Rightarrow>
     \<lparr>pa_prepare = Some (fn prepare), pa_id = i, pa_name = Some name, pa_domain = Some domn, pa_deprecated = False,
      pa_range = \<lparr>rg_start = 0, rg_end = 0\<rparr>, pa_vgroup = 0, pa_score = 0\<rparr>)"

text \<open>The index of a level pair in the arrays of policies.\<close>

definition policy_idx :: "ucg_planc_ucx_node_level \<Rightarrow> ucg_planc_ucx_ppn_level \<Rightarrow> nat" where
  "policy_idx node_level ppn_level = nat (node_level * PPN_LEVEL_NUMS + ppn_level)"

end
