(* ===== verification/Policy_Barrier.thy ===== *)
theory Policy_Barrier
  imports Ucx_Policy
begin

text \<open>
  The algorithms for barrier of the UCX plan component, and which of them is taken by default
  (\<open>src/src/planc/ucx/barrier/barrier.c\<close>).  The tables go by the number of nodes and of processes per node.
\<close>

subsection \<open>Algorithms\<close>

definition ucg_planc_ucx_barrier_plan_attr :: "(string \<Rightarrow> nat) \<Rightarrow> ucg_plan_attr list" where
  "ucg_planc_ucx_barrier_plan_attr fn =
     map (ucx_plan_attr fn ''planc ucx barrier'')
       [(''ucg_planc_ucx_barrier_rd_prepare'', 1, ''Recursive doubling''),
        (''ucg_planc_ucx_barrier_na_rd_and_bntree_prepare'', 2, ''Node-aware recursive doubling and binomial tree''),
        (''ucg_planc_ucx_barrier_sa_rd_and_bntree_prepare'', 3, ''Socket-aware recursive doubling and binomial tree''),
        (''ucg_planc_ucx_barrier_na_rd_and_kntree_prepare'', 4, ''Node-aware recursive doubling and k-nomial tree''),
        (''ucg_planc_ucx_barrier_sa_rd_and_kntree_prepare'', 5, ''Socket-aware recursive doubling and k-nomial tree''),
        (''ucg_planc_ucx_barrier_na_kntree_prepare'', 6, ''Node-aware k-nomial tree''),
        (''ucg_planc_ucx_barrier_sa_kntree_prepare'', 7, ''Socket-aware k-nomial tree''),
        (''ucg_planc_ucx_barrier_na_inc_prepare'', 8, ''Node-aware in-network-computing''),
        (''ucg_planc_ucx_barrier_sa_inc_prepare'', 9, ''Socket-aware in-network-computing'')]"

subsection \<open>Policies\<close>

definition barrier_4_1 :: "ucg_plan_policy list" where
  "barrier_4_1 =
     [ucx_policy 1 0 UCG_PLAN_RANGE_MAX UCG_PLAN_UCX_PLAN_SCORE_1ST,
      UCG_PLAN_LAST_POLICY]"

definition barrier_4_4 :: "ucg_plan_policy list" where
  "barrier_4_4 =
     [ucx_policy 1 0 UCG_PLAN_RANGE_MAX UCG_PLAN_UCX_PLAN_SCORE_1ST,
      UCG_PLAN_LAST_POLICY]"

definition barrier_4_8 :: "ucg_plan_policy list" where
  "barrier_4_8 =
     [ucx_policy 1 0 UCG_PLAN_RANGE_MAX UCG_PLAN_UCX_PLAN_SCORE_1ST,
      UCG_PLAN_LAST_POLICY]"

definition barrier_4_16 :: "ucg_plan_policy list" where
  "barrier_4_16 =
     [ucx_policy 1 0 UCG_PLAN_RANGE_MAX UCG_PLAN_UCX_PLAN_SCORE_1ST,
      UCG_PLAN_LAST_POLICY]"

definition barrier_4_32 :: "ucg_plan_policy list" where
  "barrier_4_32 =
     [ucx_policy 6 0 UCG_PLAN_RANGE_MAX UCG_PLAN_UCX_PLAN_SCORE_1ST,
      ucx_policy 1 0 UCG_PLAN_RANGE_MAX UCG_PLAN_UCX_PLAN_SCORE_2ND,
      UCG_PLAN_LAST_POLICY]"

definition barrier_4_64 :: "ucg_plan_policy list" where
  "barrier_4_64 =
     [ucx_policy 7 0 UCG_PLAN_RANGE_MAX UCG_PLAN_UCX_PLAN_SCORE_1ST,
      ucx_policy 1 0 UCG_PLAN_RANGE_MAX UCG_PLAN_UCX_PLAN_SCORE_2ND,
      UCG_PLAN_LAST_POLICY]"

definition barrier_4_LG :: "ucg_plan_policy list" where
  "barrier_4_LG =
     [ucx_policy 7 0 UCG_PLAN_RANGE_MAX UCG_PLAN_UCX_PLAN_SCORE_1ST,
      ucx_policy 1 0 UCG_PLAN_RANGE_MAX UCG_PLAN_UCX_PLAN_SCORE_2ND,
      UCG_PLAN_LAST_POLICY]"

definition barrier_8_1 :: "ucg_plan_policy list" where
  "barrier_8_1 =
     [ucx_policy 6 0 UCG_PLAN_RANGE_MAX UCG_PLAN_UCX_PLAN_SCORE_1ST,
      ucx_policy 1 0 UCG_PLAN_RANGE_MAX UCG_PLAN_UCX_PLAN_SCORE_2ND,
      UCG_PLAN_LAST_POLICY]"

definition barrier_8_4 :: "ucg_plan_policy list" where
  "barrier_8_4 =
     [ucx_policy 1 0 UCG_PLAN_RANGE_MAX UCG_PLAN_UCX_PLAN_SCORE_1ST,
      UCG_PLAN_LAST_POLICY]"

definition barrier_8_8 :: "ucg_plan_policy list" where
  "barrier_8_8 =
     [ucx_policy 6 0 UCG_PLAN_RANGE_MAX UCG_PLAN_UCX_PLAN_SCORE_1ST,
      ucx_policy 1 0 UCG_PLAN_RANGE_MAX UCG_PLAN_UCX_PLAN_SCORE_2ND,
      UCG_PLAN_LAST_POLICY]"

definition barrier_8_16 :: "ucg_plan_policy list" where
  "barrier_8_16 =
     [ucx_policy 6 0 UCG_PLAN_RANGE_MAX UCG_PLAN_UCX_PLAN_SCORE_1ST,
      ucx_policy 1 0 UCG_PLAN_RANGE_MAX UCG_PLAN_UCX_PLAN_SCORE_2ND,
      UCG_PLAN_LAST_POLICY]"

definition barrier_8_32 :: "ucg_plan_policy list" where
  "barrier_8_32 =
     [ucx_policy 7 0 UCG_PLAN_RANGE_MAX UCG_PLAN_UCX_PLAN_SCORE_1ST,
      ucx_policy 1 0 UCG_PLAN_RANGE_MAX UCG_PLAN_UCX_PLAN_SCORE_2ND,
      UCG_PLAN_LAST_POLICY]"

definition barrier_8_64 :: "ucg_plan_policy list" where
  "barrier_8_64 =
     [ucx_policy 7 0 UCG_PLAN_RANGE_MAX UCG_PLAN_UCX_PLAN_SCORE_1ST,
      ucx_policy 1 0 UCG_PLAN_RANGE_MAX UCG_PLAN_UCX_PLAN_SCORE_2ND,
      UCG_PLAN_LAST_POLICY]"

definition barrier_8_LG :: "ucg_plan_policy list" where
  "barrier_8_LG =
     [ucx_policy 6 0 UCG_PLAN_RANGE_MAX UCG_PLAN_UCX_PLAN_SCORE_1ST,
      ucx_policy 1 0 UCG_PLAN_RANGE_MAX UCG_PLAN_UCX_PLAN_SCORE_2ND,
      UCG_PLAN_LAST_POLICY]"

definition barrier_16_1 :: "ucg_plan_policy list" where
  "barrier_16_1 =
     [ucx_policy 1 0 UCG_PLAN_RANGE_MAX UCG_PLAN_UCX_PLAN_SCORE_1ST,
      UCG_PLAN_LAST_POLICY]"

definition barrier_16_4 :: "ucg_plan_policy list" where
  "barrier_16_4 =
     [ucx_policy 1 0 UCG_PLAN_RANGE_MAX UCG_PLAN_UCX_PLAN_SCORE_1ST,
      UCG_PLAN_LAST_POLICY]"

definition barrier_16_8 :: "ucg_plan_policy list" where
  "barrier_16_8 =
     [ucx_policy 6 0 UCG_PLAN_RANGE_MAX UCG_PLAN_UCX_PLAN_SCORE_1ST,
      ucx_policy 1 0 UCG_PLAN_RANGE_MAX UCG_PLAN_UCX_PLAN_SCORE_2ND,
      UCG_PLAN_LAST_POLICY]"

definition barrier_16_16 :: "ucg_plan_policy list" where
  "barrier_16_16 =
     [ucx_policy 6 0 UCG_PLAN_RANGE_MAX UCG_PLAN_UCX_PLAN_SCORE_1ST,
      ucx_policy 1 0 UCG_PLAN_RANGE_MAX UCG_PLAN_UCX_PLAN_SCORE_2ND,
      UCG_PLAN_LAST_POLICY]"

definition barrier_16_32 :: "ucg_plan_policy list" where
  "barrier_16_32 =
     [ucx_policy 6 0 UCG_PLAN_RANGE_MAX UCG_PLAN_UCX_PLAN_SCORE_1ST,
      ucx_policy 1 0 UCG_PLAN_RANGE_MAX UCG_PLAN_UCX_PLAN_SCORE_2ND,
      UCG_PLAN_LAST_POLICY]"

definition barrier_16_64 :: "ucg_plan_policy list" where
  "barrier_16_64 =
     [ucx_policy 6 0 UCG_PLAN_RANGE_MAX UCG_PLAN_UCX_PLAN_SCORE_1ST,
      ucx_policy 1 0 UCG_PLAN_RANGE_MAX UCG_PLAN_UCX_PLAN_SCORE_2ND,
      UCG_PLAN_LAST_POLICY]"

definition barrier_16_LG :: "ucg_plan_policy list" where
  "barrier_16_LG =
     [ucx_policy 6 0 UCG_PLAN_RANGE_MAX UCG_PLAN_UCX_PLAN_SCORE_1ST,
      ucx_policy 1 0 UCG_PLAN_RANGE_MAX UCG_PLAN_UCX_PLAN_SCORE_2ND,
      UCG_PLAN_LAST_POLICY]"

definition barrier_LG_1 :: "ucg_plan_policy list" where
  "barrier_LG_1 =
     [ucx_policy 2 0 UCG_PLAN_RANGE_MAX UCG_PLAN_UCX_PLAN_SCORE_1ST,
      ucx_policy 1 0 UCG_PLAN_RANGE_MAX UCG_PLAN_UCX_PLAN_SCORE_2ND,
      UCG_PLAN_LAST_POLICY]"

definition barrier_LG_4 :: "ucg_plan_policy list" where
  "barrier_LG_4 =
     [ucx_policy 6 0 UCG_PLAN_RANGE_MAX UCG_PLAN_UCX_PLAN_SCORE_1ST,
      ucx_policy 1 0 UCG_PLAN_RANGE_MAX UCG_PLAN_UCX_PLAN_SCORE_2ND,
      UCG_PLAN_LAST_POLICY]"

definition barrier_LG_8 :: "ucg_plan_policy list" where
  "barrier_LG_8 =
     [ucx_policy 6 0 UCG_PLAN_RANGE_MAX UCG_PLAN_UCX_PLAN_SCORE_1ST,
      ucx_policy 1 0 UCG_PLAN_RANGE_MAX UCG_PLAN_UCX_PLAN_SCORE_2ND,
      UCG_PLAN_LAST_POLICY]"

definition barrier_LG_16 :: "ucg_plan_policy list" where
  "barrier_LG_16 =
     [ucx_policy 6 0 UCG_PLAN_RANGE_MAX UCG_PLAN_UCX_PLAN_SCORE_1ST,
      ucx_policy 1 0 UCG_PLAN_RANGE_MAX UCG_PLAN_UCX_PLAN_SCORE_2ND,
      UCG_PLAN_LAST_POLICY]"

definition barrier_LG_32 :: "ucg_plan_policy list" where
  "barrier_LG_32 =
     [ucx_policy 6 0 UCG_PLAN_RANGE_MAX UCG_PLAN_UCX_PLAN_SCORE_1ST,
      ucx_policy 1 0 UCG_PLAN_RANGE_MAX UCG_PLAN_UCX_PLAN_SCORE_2ND,
      UCG_PLAN_LAST_POLICY]"

definition barrier_LG_64 :: "ucg_plan_policy list" where
  "barrier_LG_64 =
     [ucx_policy 6 0 UCG_PLAN_RANGE_MAX UCG_PLAN_UCX_PLAN_SCORE_1ST,
      ucx_policy 1 0 UCG_PLAN_RANGE_MAX UCG_PLAN_UCX_PLAN_SCORE_2ND,
      UCG_PLAN_LAST_POLICY]"

definition barrier_LG_LG :: "ucg_plan_policy list" where
  "barrier_LG_LG =
     [ucx_policy 6 0 UCG_PLAN_RANGE_MAX UCG_PLAN_UCX_PLAN_SCORE_1ST,
      ucx_policy 1 0 UCG_PLAN_RANGE_MAX UCG_PLAN_UCX_PLAN_SCORE_2ND,
      UCG_PLAN_LAST_POLICY]"

definition barrier_plan_policy :: "ucg_plan_policy list list" where
  "barrier_plan_policy =
     [barrier_4_1, barrier_4_4, barrier_4_8, barrier_4_16, barrier_4_32, barrier_4_64, barrier_4_LG,
      barrier_8_1, barrier_8_4, barrier_8_8, barrier_8_16, barrier_8_32, barrier_8_64, barrier_8_LG,
      barrier_16_1, barrier_16_4, barrier_16_8, barrier_16_16, barrier_16_32, barrier_16_64, barrier_16_LG,
      barrier_LG_1, barrier_LG_4, barrier_LG_8, barrier_LG_16, barrier_LG_32, barrier_LG_64, barrier_LG_LG]"

definition ucg_planc_ucx_get_barrier_plan_policy :: "ucg_planc_ucx_node_level \<Rightarrow> ucg_planc_ucx_ppn_level \<Rightarrow> ucg_plan_policy list" where
  "ucg_planc_ucx_get_barrier_plan_policy node_level ppn_level = barrier_plan_policy ! policy_idx node_level ppn_level"

end
