(* ===== verification/Policy_Bcast.thy ===== *)
theory Policy_Bcast
  imports Ucx_Policy
begin

text \<open>
  The algorithms for bcast of the UCX plan component, and which of them is taken by default
  (\<open>src/src/planc/ucx/bcast/bcast.c\<close>).  The tables go by the number of nodes and of processes per node.
\<close>

subsection \<open>Algorithms\<close>

definition ucg_planc_ucx_bcast_plan_attr :: "(string \<Rightarrow> nat) \<Rightarrow> ucg_plan_attr list" where
  "ucg_planc_ucx_bcast_plan_attr fn =
     map (ucx_plan_attr fn ''planc ucx bcast'')
       [(''ucg_planc_ucx_bcast_bntree_prepare'', 1, ''Binomial tree''),
        (''ucg_planc_ucx_bcast_na_bntree_prepare'', 2, ''Node-aware binomial tree''),
        (''ucg_planc_ucx_bcast_na_kntree_and_bntree_prepare'', 3, ''Node-aware k-nomial tree and binomial tree''),
        (''ucg_planc_ucx_bcast_na_kntree_prepare'', 4, ''Node-aware k-nomial tree''),
        (''ucg_planc_ucx_bcast_na_inc_prepare'', 5, ''Node-aware in-network-computing''),
        (''ucg_planc_ucx_bcast_ring_prepare'', 6, ''Ring''),
        (''ucg_planc_ucx_bcast_van_de_geijn_prepare'', 8, ''van de Geijn(scatter+allgather)''),
        (''ucg_planc_ucx_bcast_kntree_prepare'', 10, ''K-nomial tree''),
        (''ucg_planc_ucx_bcast_long_prepare'', 11, ''Long(scatter+allgather)''),
        (''ucg_planc_ucx_bcast_inc_ring_m_prepare'', 12, ''increasing-ring(modified)''),
        (''ucg_planc_ucx_bcast_inc_2_ring_m_prepare'', 13, ''increasing-2-ring(modified)''),
        (''ucg_planc_ucx_bcast_long_m_prepare'', 14, ''Long(modified)'')]"

subsection \<open>Policies\<close>

definition bcast_4_1 :: "ucg_plan_policy list" where
  "bcast_4_1 =
     [ucx_policy 10 0 8192 UCG_PLAN_UCX_PLAN_SCORE_1ST,
      ucx_policy 4 8192 131072 UCG_PLAN_UCX_PLAN_SCORE_1ST,
      ucx_policy 2 131072 524288 UCG_PLAN_UCX_PLAN_SCORE_1ST,
      ucx_policy 8 524288 UCG_PLAN_RANGE_MAX UCG_PLAN_UCX_PLAN_SCORE_1ST,
      ucx_policy 2 524288 UCG_PLAN_RANGE_MAX UCG_PLAN_UCX_PLAN_SCORE_2ND,
      UCG_PLAN_LAST_POLICY]"

definition bcast_4_4 :: "ucg_plan_policy list" where
  "bcast_4_4 =
     [ucx_policy 4 0 64 UCG_PLAN_UCX_PLAN_SCORE_1ST,
      ucx_policy 10 64 1048576 UCG_PLAN_UCX_PLAN_SCORE_1ST,
      ucx_policy 1 1048576 UCG_PLAN_RANGE_MAX UCG_PLAN_UCX_PLAN_SCORE_1ST,
      UCG_PLAN_LAST_POLICY]"

definition bcast_4_8 :: "ucg_plan_policy list" where
  "bcast_4_8 =
     [ucx_policy 4 0 16384 UCG_PLAN_UCX_PLAN_SCORE_1ST,
      ucx_policy 10 16384 UCG_PLAN_RANGE_MAX UCG_PLAN_UCX_PLAN_SCORE_1ST,
      UCG_PLAN_LAST_POLICY]"

definition bcast_4_16 :: "ucg_plan_policy list" where
  "bcast_4_16 =
     [ucx_policy 10 0 UCG_PLAN_RANGE_MAX UCG_PLAN_UCX_PLAN_SCORE_1ST,
      UCG_PLAN_LAST_POLICY]"

definition bcast_4_16_default :: "ucg_plan_policy list" where
  "bcast_4_16_default =
     [ucx_policy 4 0 16384 UCG_PLAN_UCX_PLAN_SCORE_1ST,
      ucx_policy 10 16384 UCG_PLAN_RANGE_MAX UCG_PLAN_UCX_PLAN_SCORE_1ST,
      UCG_PLAN_LAST_POLICY]"

definition bcast_4_32 :: "ucg_plan_policy list" where
  "bcast_4_32 =
     [ucx_policy 4 0 16384 UCG_PLAN_UCX_PLAN_SCORE_1ST,
      ucx_policy 10 16384 UCG_PLAN_RANGE_MAX UCG_PLAN_UCX_PLAN_SCORE_1ST,
      UCG_PLAN_LAST_POLICY]"

definition bcast_4_64 :: "ucg_plan_policy list" where
  "bcast_4_64 =
     [ucx_policy 4 0 16384 UCG_PLAN_UCX_PLAN_SCORE_1ST,
      ucx_policy 10 16384 UCG_PLAN_RANGE_MAX UCG_PLAN_UCX_PLAN_SCORE_1ST,
      UCG_PLAN_LAST_POLICY]"

definition bcast_4_LG :: "ucg_plan_policy list" where
  "bcast_4_LG =
     [ucx_policy 10 16384 UCG_PLAN_RANGE_MAX UCG_PLAN_UCX_PLAN_SCORE_1ST,
      UCG_PLAN_LAST_POLICY]"

definition bcast_4_LG_default :: "ucg_plan_policy list" where
  "bcast_4_LG_default =
     [ucx_policy 4 0 16384 UCG_PLAN_UCX_PLAN_SCORE_1ST,
      ucx_policy 10 16384 UCG_PLAN_RANGE_MAX UCG_PLAN_UCX_PLAN_SCORE_1ST,
      UCG_PLAN_LAST_POLICY]"

definition bcast_8_1 :: "ucg_plan_policy list" where
  "bcast_8_1 =
     [ucx_policy 10 0 128 UCG_PLAN_UCX_PLAN_SCORE_1ST,
      ucx_policy 4 128 32768 UCG_PLAN_UCX_PLAN_SCORE_1ST,
      ucx_policy 2 32768 262144 UCG_PLAN_UCX_PLAN_SCORE_1ST,
      ucx_policy 8 262144 UCG_PLAN_RANGE_MAX UCG_PLAN_UCX_PLAN_SCORE_1ST,
      ucx_policy 10 262144 UCG_PLAN_RANGE_MAX UCG_PLAN_UCX_PLAN_SCORE_2ND,
      UCG_PLAN_LAST_POLICY]"

definition bcast_8_4 :: "ucg_plan_policy list" where
  "bcast_8_4 =
     [ucx_policy 4 0 32768 UCG_PLAN_UCX_PLAN_SCORE_1ST,
      ucx_policy 10 32768 262144 UCG_PLAN_UCX_PLAN_SCORE_1ST,
      ucx_policy 1 262144 UCG_PLAN_RANGE_MAX UCG_PLAN_UCX_PLAN_SCORE_1ST,
      UCG_PLAN_LAST_POLICY]"

definition bcast_8_8 :: "ucg_plan_policy list" where
  "bcast_8_8 =
     [ucx_policy 4 0 16384 UCG_PLAN_UCX_PLAN_SCORE_1ST,
      ucx_policy 10 16384 262144 UCG_PLAN_UCX_PLAN_SCORE_1ST,
      ucx_policy 8 262144 1048576 UCG_PLAN_UCX_PLAN_SCORE_1ST,
      ucx_policy 1 1048576 UCG_PLAN_RANGE_MAX UCG_PLAN_UCX_PLAN_SCORE_1ST,
      ucx_policy 10 262144 1048576 UCG_PLAN_UCX_PLAN_SCORE_2ND,
      UCG_PLAN_LAST_POLICY]"

definition bcast_8_16 :: "ucg_plan_policy list" where
  "bcast_8_16 =
     [ucx_policy 4 0 16384 UCG_PLAN_UCX_PLAN_SCORE_1ST,
      ucx_policy 10 16384 262144 UCG_PLAN_UCX_PLAN_SCORE_1ST,
      ucx_policy 1 262144 UCG_PLAN_RANGE_MAX UCG_PLAN_UCX_PLAN_SCORE_1ST,
      UCG_PLAN_LAST_POLICY]"

definition bcast_8_32 :: "ucg_plan_policy list" where
  "bcast_8_32 =
     [ucx_policy 4 0 16384 UCG_PLAN_UCX_PLAN_SCORE_1ST,
      ucx_policy 10 16384 UCG_PLAN_RANGE_MAX UCG_PLAN_UCX_PLAN_SCORE_1ST,
      UCG_PLAN_LAST_POLICY]"

definition bcast_8_64 :: "ucg_plan_policy list" where
  "bcast_8_64 =
     [ucx_policy 4 0 16384 UCG_PLAN_UCX_PLAN_SCORE_1ST,
      ucx_policy 10 16384 UCG_PLAN_RANGE_MAX UCG_PLAN_UCX_PLAN_SCORE_1ST,
      UCG_PLAN_LAST_POLICY]"

definition bcast_8_LG :: "ucg_plan_policy list" where
  "bcast_8_LG =
     [ucx_policy 4 0 32768 UCG_PLAN_UCX_PLAN_SCORE_1ST,
      ucx_policy 10 32768 UCG_PLAN_RANGE_MAX UCG_PLAN_UCX_PLAN_SCORE_1ST,
      UCG_PLAN_LAST_POLICY]"

definition bcast_16_1 :: "ucg_plan_policy list" where
  "bcast_16_1 =
     [ucx_policy 10 0 32768 UCG_PLAN_UCX_PLAN_SCORE_1ST,
      ucx_policy 2 32768 524288 UCG_PLAN_UCX_PLAN_SCORE_1ST,
      ucx_policy 8 524288 UCG_PLAN_RANGE_MAX UCG_PLAN_UCX_PLAN_SCORE_1ST,
      ucx_policy 10 524288 UCG_PLAN_RANGE_MAX UCG_PLAN_UCX_PLAN_SCORE_2ND,
      UCG_PLAN_LAST_POLICY]"

definition bcast_16_4 :: "ucg_plan_policy list" where
  "bcast_16_4 =
     [ucx_policy 4 0 16384 UCG_PLAN_UCX_PLAN_SCORE_1ST,
      ucx_policy 10 16384 262144 UCG_PLAN_UCX_PLAN_SCORE_1ST,
      ucx_policy 8 262144 1048576 UCG_PLAN_UCX_PLAN_SCORE_1ST,
      ucx_policy 1 1048576 UCG_PLAN_RANGE_MAX UCG_PLAN_UCX_PLAN_SCORE_1ST,
      ucx_policy 10 262144 1048576 UCG_PLAN_UCX_PLAN_SCORE_2ND,
      UCG_PLAN_LAST_POLICY]"

definition bcast_16_8 :: "ucg_plan_policy list" where
  "bcast_16_8 =
     [ucx_policy 4 0 16384 UCG_PLAN_UCX_PLAN_SCORE_1ST,
      ucx_policy 10 16384 262144 UCG_PLAN_UCX_PLAN_SCORE_1ST,
      ucx_policy 8 262144 UCG_PLAN_RANGE_MAX UCG_PLAN_UCX_PLAN_SCORE_1ST,
      ucx_policy 1 262144 UCG_PLAN_RANGE_MAX UCG_PLAN_UCX_PLAN_SCORE_2ND,
      UCG_PLAN_LAST_POLICY]"

definition bcast_16_16 :: "ucg_plan_policy list" where
  "bcast_16_16 =
     [ucx_policy 4 0 16384 UCG_PLAN_UCX_PLAN_SCORE_1ST,
      ucx_policy 10 16384 524288 UCG_PLAN_UCX_PLAN_SCORE_1ST,
      ucx_policy 1 524288 1048576 UCG_PLAN_UCX_PLAN_SCORE_1ST,
      ucx_policy 8 1048576 UCG_PLAN_RANGE_MAX UCG_PLAN_UCX_PLAN_SCORE_1ST,
      ucx_policy 1 1048576 UCG_PLAN_RANGE_MAX UCG_PLAN_UCX_PLAN_SCORE_2ND,
      UCG_PLAN_LAST_POLICY]"

definition bcast_16_32 :: "ucg_plan_policy list" where
  "bcast_16_32 =
     [ucx_policy 4 0 16384 UCG_PLAN_UCX_PLAN_SCORE_1ST,
      ucx_policy 10 16384 131072 UCG_PLAN_UCX_PLAN_SCORE_1ST,
      ucx_policy 1 131072 UCG_PLAN_RANGE_MAX UCG_PLAN_UCX_PLAN_SCORE_1ST,
      UCG_PLAN_LAST_POLICY]"

definition bcast_16_64 :: "ucg_plan_policy list" where
  "bcast_16_64 =
     [ucx_policy 4 0 16384 UCG_PLAN_UCX_PLAN_SCORE_1ST,
      ucx_policy 10 16384 UCG_PLAN_RANGE_MAX UCG_PLAN_UCX_PLAN_SCORE_1ST,
      UCG_PLAN_LAST_POLICY]"

definition bcast_16_LG :: "ucg_plan_policy list" where
  "bcast_16_LG =
     [ucx_policy 1 0 8 UCG_PLAN_UCX_PLAN_SCORE_1ST,
      ucx_policy 4 8 16384 UCG_PLAN_UCX_PLAN_SCORE_1ST,
      ucx_policy 10 16384 UCG_PLAN_RANGE_MAX UCG_PLAN_UCX_PLAN_SCORE_1ST,
      UCG_PLAN_LAST_POLICY]"

definition bcast_LG_1 :: "ucg_plan_policy list" where
  "bcast_LG_1 =
     [ucx_policy 4 0 32768 UCG_PLAN_UCX_PLAN_SCORE_1ST,
      ucx_policy 1 32768 65536 UCG_PLAN_UCX_PLAN_SCORE_1ST,
      ucx_policy 2 65536 524288 UCG_PLAN_UCX_PLAN_SCORE_1ST,
      ucx_policy 8 524288 UCG_PLAN_RANGE_MAX UCG_PLAN_UCX_PLAN_SCORE_1ST,
      ucx_policy 1 524288 UCG_PLAN_RANGE_MAX UCG_PLAN_UCX_PLAN_SCORE_2ND,
      UCG_PLAN_LAST_POLICY]"

definition bcast_LG_4 :: "ucg_plan_policy list" where
  "bcast_LG_4 =
     [ucx_policy 4 0 16384 UCG_PLAN_UCX_PLAN_SCORE_1ST,
      ucx_policy 10 16384 262144 UCG_PLAN_UCX_PLAN_SCORE_1ST,
      ucx_policy 8 262144 UCG_PLAN_RANGE_MAX UCG_PLAN_UCX_PLAN_SCORE_1ST,
      ucx_policy 1 262144 UCG_PLAN_RANGE_MAX UCG_PLAN_UCX_PLAN_SCORE_2ND,
      UCG_PLAN_LAST_POLICY]"

definition bcast_LG_8 :: "ucg_plan_policy list" where
  "bcast_LG_8 =
     [ucx_policy 4 0 16384 UCG_PLAN_UCX_PLAN_SCORE_1ST,
      ucx_policy 10 16384 524288 UCG_PLAN_UCX_PLAN_SCORE_1ST,
      ucx_policy 8 524288 UCG_PLAN_RANGE_MAX UCG_PLAN_UCX_PLAN_SCORE_1ST,
      ucx_policy 1 524288 UCG_PLAN_RANGE_MAX UCG_PLAN_UCX_PLAN_SCORE_2ND,
      UCG_PLAN_LAST_POLICY]"

definition bcast_LG_16 :: "ucg_plan_policy list" where
  "bcast_LG_16 =
     [ucx_policy 4 0 16384 UCG_PLAN_UCX_PLAN_SCORE_1ST,
      ucx_policy 10 16384 524288 UCG_PLAN_UCX_PLAN_SCORE_1ST,
      ucx_policy 1 524288 UCG_PLAN_RANGE_MAX UCG_PLAN_UCX_PLAN_SCORE_1ST,
      UCG_PLAN_LAST_POLICY]"

definition bcast_LG_32 :: "ucg_plan_policy list" where
  "bcast_LG_32 =
     [ucx_policy 4 0 65536 UCG_PLAN_UCX_PLAN_SCORE_1ST,
      ucx_policy 10 65536 262144 UCG_PLAN_UCX_PLAN_SCORE_1ST,
      ucx_policy 1 262144 UCG_PLAN_RANGE_MAX UCG_PLAN_UCX_PLAN_SCORE_1ST,
      UCG_PLAN_LAST_POLICY]"

definition bcast_LG_64 :: "ucg_plan_policy list" where
  "bcast_LG_64 =
     [ucx_policy 4 0 16384 UCG_PLAN_UCX_PLAN_SCORE_1ST,
      ucx_policy 10 16384 524288 UCG_PLAN_UCX_PLAN_SCORE_1ST,
      ucx_policy 1 524288 UCG_PLAN_RANGE_MAX UCG_PLAN_UCX_PLAN_SCORE_1ST,
      UCG_PLAN_LAST_POLICY]"

definition bcast_LG_LG :: "ucg_plan_policy list" where
  "bcast_LG_LG =
     [ucx_policy 4 0 16384 UCG_PLAN_UCX_PLAN_SCORE_1ST,
      ucx_policy 10 16384 262144 UCG_PLAN_UCX_PLAN_SCORE_1ST,
      ucx_policy 1 262144 UCG_PLAN_RANGE_MAX UCG_PLAN_UCX_PLAN_SCORE_1ST,
      UCG_PLAN_LAST_POLICY]"

definition bcast_plan_policy :: "ucg_plan_policy list list" where
  "bcast_plan_policy =
     [bcast_4_1, bcast_4_4, bcast_4_8, bcast_4_16, bcast_4_32, bcast_4_64, bcast_4_LG,
      bcast_8_1, bcast_8_4, bcast_8_8, bcast_8_16, bcast_8_32, bcast_8_64, bcast_8_LG,
      bcast_16_1, bcast_16_4, bcast_16_8, bcast_16_16, bcast_16_32, bcast_16_64, bcast_16_LG,
      bcast_LG_1, bcast_LG_4, bcast_LG_8, bcast_LG_16, bcast_LG_32, bcast_LG_64, bcast_LG_LG]"

definition bcast_plan_policy_default :: "ucg_plan_policy list list" where
  "bcast_plan_policy_default =
     [bcast_4_1, bcast_4_4, bcast_4_8, bcast_4_16_default, bcast_4_32, bcast_4_64, bcast_4_LG_default,
      bcast_8_1, bcast_8_4, bcast_8_8, bcast_8_16, bcast_8_32, bcast_8_64, bcast_8_LG,
      bcast_16_1, bcast_16_4, bcast_16_8, bcast_16_16, bcast_16_32, bcast_16_64, bcast_16_LG,
      bcast_LG_1, bcast_LG_4, bcast_LG_8, bcast_LG_16, bcast_LG_32, bcast_LG_64, bcast_LG_LG]"

text \<open>\<open>config\<close> is \<open>policy_default\<close> of the collective's configuration, if the context has one.\<close>

definition ucg_planc_ucx_get_bcast_plan_policy ::
    "bool option \<Rightarrow> ucg_planc_ucx_node_level \<Rightarrow> ucg_planc_ucx_ppn_level \<Rightarrow> ucg_plan_policy list" where
  "ucg_planc_ucx_get_bcast_plan_policy config node_level ppn_level =
     (case config of
        Some policy_default \<Rightarrow> (if policy_default then bcast_plan_policy_default else bcast_plan_policy) ! policy_idx node_level ppn_level
      | None \<Rightarrow> bcast_plan_policy_default ! policy_idx node_level ppn_level)"

end
