(* ===== verification/Policy_Allreduce.thy ===== *)
theory Policy_Allreduce
  imports Ucx_Policy
begin

text \<open>
  The algorithms for allreduce of the UCX plan component, and which of them is taken by default
  (\<open>src/src/planc/ucx/allreduce/allreduce.c\<close>).  The tables go by the number of nodes and of processes per node.
\<close>

subsection \<open>Algorithms\<close>

definition ucg_planc_ucx_allreduce_plan_attr :: "(string \<Rightarrow> nat) \<Rightarrow> ucg_plan_attr list" where
  "ucg_planc_ucx_allreduce_plan_attr fn =
     map (ucx_plan_attr fn ''planc ucx allreduce'')
       [(''ucg_planc_ucx_allreduce_rd_prepare'', 1, ''Recursive doubling''),
        (''ucg_planc_ucx_allreduce_na_rd_and_bntree_prepare'', 2, ''Node-aware recursive doubling and binomial tree''),
        (''ucg_planc_ucx_allreduce_sa_rd_and_bntree_prepare'', 3, ''Socket-aware recursive doubling and binomial tree''),
        (''ucg_planc_ucx_allreduce_ring_prepare'', 4, ''Ring''),
        (''ucg_planc_ucx_allreduce_na_rd_and_kntree_prepare'', 5, ''Node-aware recursive doubling and k-nomial tree''),
        (''ucg_planc_ucx_allreduce_sa_rd_and_kntree_prepare'', 6, ''Socket-aware recursive doubling and k-nomial tree''),
        (''ucg_planc_ucx_allreduce_na_kntree_prepare'', 7, ''Node-aware k-nomial tree''),
        (''ucg_planc_ucx_allreduce_sa_kntree_prepare'', 8, ''Socket-aware k-nomial tree''),
        (''ucg_planc_ucx_allreduce_na_inc_prepare'', 9, ''Node-aware in-network-computing''),
        (''ucg_planc_ucx_allreduce_sa_inc_prepare'', 10, ''Socket-aware in-network-computing''),
        (''ucg_planc_ucx_allreduce_rabenseifner_prepare'', 12, ''Rabenseifner''),
        (''ucg_planc_ucx_allreduce_na_rabenseifner_prepare'', 13, ''Node-aware rabenseifner''),
        (''ucg_planc_ucx_allreduce_sa_rabenseifner_prepare'', 14, ''Socket-aware rabenseifner'')]"

subsection \<open>Policies\<close>

definition allreduce_4_1 :: "ucg_plan_policy list" where
  "allreduce_4_1 =
     [ucx_policy 1 0 65536 UCG_PLAN_UCX_PLAN_SCORE_1ST,
      ucx_policy 12 65536 UCG_PLAN_RANGE_MAX UCG_PLAN_UCX_PLAN_SCORE_1ST,
      ucx_policy 3 1024 UCG_PLAN_RANGE_MAX UCG_PLAN_UCX_PLAN_SCORE_2ND,
      ucx_policy 1 0 UCG_PLAN_RANGE_MAX UCG_PLAN_UCX_PLAN_SCORE_3RD,
      UCG_PLAN_LAST_POLICY]"

definition allreduce_4_4 :: "ucg_plan_policy list" where
  "allreduce_4_4 =
     [ucx_policy 1 0 1024 UCG_PLAN_UCX_PLAN_SCORE_1ST,
      ucx_policy 14 1024 4096 UCG_PLAN_UCX_PLAN_SCORE_1ST,
      ucx_policy 13 4096 65536 UCG_PLAN_UCX_PLAN_SCORE_1ST,
      ucx_policy 4 65536 262144 UCG_PLAN_UCX_PLAN_SCORE_1ST,
      ucx_policy 12 262144 UCG_PLAN_RANGE_MAX UCG_PLAN_UCX_PLAN_SCORE_1ST,
      ucx_policy 3 1024 UCG_PLAN_RANGE_MAX UCG_PLAN_UCX_PLAN_SCORE_2ND,
      ucx_policy 1 0 UCG_PLAN_RANGE_MAX UCG_PLAN_UCX_PLAN_SCORE_3RD,
      UCG_PLAN_LAST_POLICY]"

definition allreduce_4_8 :: "ucg_plan_policy list" where
  "allreduce_4_8 =
     [ucx_policy 1 0 128 UCG_PLAN_UCX_PLAN_SCORE_1ST,
      ucx_policy 14 128 8192 UCG_PLAN_UCX_PLAN_SCORE_1ST,
      ucx_policy 13 8192 131072 UCG_PLAN_UCX_PLAN_SCORE_1ST,
      ucx_policy 4 131072 524288 UCG_PLAN_UCX_PLAN_SCORE_1ST,
      ucx_policy 12 524288 UCG_PLAN_RANGE_MAX UCG_PLAN_UCX_PLAN_SCORE_1ST,
      ucx_policy 3 128 UCG_PLAN_RANGE_MAX UCG_PLAN_UCX_PLAN_SCORE_2ND,
      ucx_policy 1 0 UCG_PLAN_RANGE_MAX UCG_PLAN_UCX_PLAN_SCORE_3RD,
      UCG_PLAN_LAST_POLICY]"

definition allreduce_4_16 :: "ucg_plan_policy list" where
  "allreduce_4_16 =
     [ucx_policy 1 0 128 UCG_PLAN_UCX_PLAN_SCORE_1ST,
      ucx_policy 14 128 UCG_PLAN_RANGE_MAX UCG_PLAN_UCX_PLAN_SCORE_1ST,
      ucx_policy 3 128 UCG_PLAN_RANGE_MAX UCG_PLAN_UCX_PLAN_SCORE_2ND,
      ucx_policy 1 0 UCG_PLAN_RANGE_MAX UCG_PLAN_UCX_PLAN_SCORE_3RD,
      UCG_PLAN_LAST_POLICY]"

definition allreduce_4_16_default :: "ucg_plan_policy list" where
  "allreduce_4_16_default =
     [ucx_policy 1 0 128 UCG_PLAN_UCX_PLAN_SCORE_1ST,
      ucx_policy 14 128 8192 UCG_PLAN_UCX_PLAN_SCORE_1ST,
      ucx_policy 13 8192 32768 UCG_PLAN_UCX_PLAN_SCORE_1ST,
      ucx_policy 14 32768 131072 UCG_PLAN_UCX_PLAN_SCORE_1ST,
      ucx_policy 12 131072 UCG_PLAN_RANGE_MAX UCG_PLAN_UCX_PLAN_SCORE_1ST,
      ucx_policy 3 128 UCG_PLAN_RANGE_MAX UCG_PLAN_UCX_PLAN_SCORE_2ND,
      ucx_policy 1 0 UCG_PLAN_RANGE_MAX UCG_PLAN_UCX_PLAN_SCORE_3RD,
      UCG_PLAN_LAST_POLICY]"

definition allreduce_4_32 :: "ucg_plan_policy list" where
  "allreduce_4_32 =
     [ucx_policy 1 0 64 UCG_PLAN_UCX_PLAN_SCORE_1ST,
      ucx_policy 6 64 256 UCG_PLAN_UCX_PLAN_SCORE_1ST,
      ucx_policy 14 256 4096 UCG_PLAN_UCX_PLAN_SCORE_1ST,
      ucx_policy 13 4096 524288 UCG_PLAN_UCX_PLAN_SCORE_1ST,
      ucx_policy 12 524288 UCG_PLAN_RANGE_MAX UCG_PLAN_UCX_PLAN_SCORE_1ST,
      ucx_policy 3 256 UCG_PLAN_RANGE_MAX UCG_PLAN_UCX_PLAN_SCORE_2ND,
      ucx_policy 1 0 UCG_PLAN_RANGE_MAX UCG_PLAN_UCX_PLAN_SCORE_3RD,
      UCG_PLAN_LAST_POLICY]"

definition allreduce_4_64 :: "ucg_plan_policy list" where
  "allreduce_4_64 =
     [ucx_policy 6 0 4096 UCG_PLAN_UCX_PLAN_SCORE_1ST,
      ucx_policy 14 4096 1048576 UCG_PLAN_UCX_PLAN_SCORE_1ST,
      ucx_policy 13 1048576 UCG_PLAN_RANGE_MAX UCG_PLAN_UCX_PLAN_SCORE_1ST,
      ucx_policy 3 4096 UCG_PLAN_RANGE_MAX UCG_PLAN_UCX_PLAN_SCORE_2ND,
      ucx_policy 1 0 UCG_PLAN_RANGE_MAX UCG_PLAN_UCX_PLAN_SCORE_3RD,
      UCG_PLAN_LAST_POLICY]"

definition allreduce_4_LG :: "ucg_plan_policy list" where
  "allreduce_4_LG =
     [ucx_policy 6 0 64 UCG_PLAN_UCX_PLAN_SCORE_1ST,
      ucx_policy 14 64 UCG_PLAN_RANGE_MAX UCG_PLAN_UCX_PLAN_SCORE_1ST,
      ucx_policy 3 16384 UCG_PLAN_RANGE_MAX UCG_PLAN_UCX_PLAN_SCORE_2ND,
      ucx_policy 1 0 UCG_PLAN_RANGE_MAX UCG_PLAN_UCX_PLAN_SCORE_3RD,
      UCG_PLAN_LAST_POLICY]"

definition allreduce_4_LG_default :: "ucg_plan_policy list" where
  "allreduce_4_LG_default =
     [ucx_policy 6 0 4096 UCG_PLAN_UCX_PLAN_SCORE_1ST,
      ucx_policy 3 4096 16384 UCG_PLAN_UCX_PLAN_SCORE_1ST,
      ucx_policy 14 16384 UCG_PLAN_RANGE_MAX UCG_PLAN_UCX_PLAN_SCORE_1ST,
      ucx_policy 3 16384 UCG_PLAN_RANGE_MAX UCG_PLAN_UCX_PLAN_SCORE_2ND,
      ucx_policy 1 0 UCG_PLAN_RANGE_MAX UCG_PLAN_UCX_PLAN_SCORE_3RD,
      UCG_PLAN_LAST_POLICY]"

definition allreduce_8_1 :: "ucg_plan_policy list" where
  "allreduce_8_1 =
     [ucx_policy 2 0 16 UCG_PLAN_UCX_PLAN_SCORE_1ST,
      ucx_policy 7 16 64 UCG_PLAN_UCX_PLAN_SCORE_1ST,
      ucx_policy 1 64 4096 UCG_PLAN_UCX_PLAN_SCORE_1ST,
      ucx_policy 2 4096 16384 UCG_PLAN_UCX_PLAN_SCORE_1ST,
      ucx_policy 12 16384 UCG_PLAN_RANGE_MAX UCG_PLAN_UCX_PLAN_SCORE_1ST,
      ucx_policy 2 16384 UCG_PLAN_RANGE_MAX UCG_PLAN_UCX_PLAN_SCORE_2ND,
      ucx_policy 1 0 UCG_PLAN_RANGE_MAX UCG_PLAN_UCX_PLAN_SCORE_3RD,
      UCG_PLAN_LAST_POLICY]"

definition allreduce_8_4 :: "ucg_plan_policy list" where
  "allreduce_8_4 =
     [ucx_policy 1 0 1024 UCG_PLAN_UCX_PLAN_SCORE_1ST,
      ucx_policy 14 1024 4096 UCG_PLAN_UCX_PLAN_SCORE_1ST,
      ucx_policy 13 4096 32768 UCG_PLAN_UCX_PLAN_SCORE_1ST,
      ucx_policy 12 32768 UCG_PLAN_RANGE_MAX UCG_PLAN_UCX_PLAN_SCORE_1ST,
      ucx_policy 3 1024 UCG_PLAN_RANGE_MAX UCG_PLAN_UCX_PLAN_SCORE_2ND,
      ucx_policy 1 0 UCG_PLAN_RANGE_MAX UCG_PLAN_UCX_PLAN_SCORE_3RD,
      UCG_PLAN_LAST_POLICY]"

definition allreduce_8_8 :: "ucg_plan_policy list" where
  "allreduce_8_8 =
     [ucx_policy 1 0 256 UCG_PLAN_UCX_PLAN_SCORE_1ST,
      ucx_policy 14 256 1024 UCG_PLAN_UCX_PLAN_SCORE_1ST,
      ucx_policy 13 1024 65536 UCG_PLAN_UCX_PLAN_SCORE_1ST,
      ucx_policy 12 65536 UCG_PLAN_RANGE_MAX UCG_PLAN_UCX_PLAN_SCORE_1ST,
      ucx_policy 3 256 UCG_PLAN_RANGE_MAX UCG_PLAN_UCX_PLAN_SCORE_2ND,
      ucx_policy 1 0 UCG_PLAN_RANGE_MAX UCG_PLAN_UCX_PLAN_SCORE_3RD,
      UCG_PLAN_LAST_POLICY]"

definition allreduce_8_16 :: "ucg_plan_policy list" where
  "allreduce_8_16 =
     [ucx_policy 1 0 128 UCG_PLAN_UCX_PLAN_SCORE_1ST,
      ucx_policy 14 128 2048 UCG_PLAN_UCX_PLAN_SCORE_1ST,
      ucx_policy 13 2048 131072 UCG_PLAN_UCX_PLAN_SCORE_1ST,
      ucx_policy 12 131072 UCG_PLAN_RANGE_MAX UCG_PLAN_UCX_PLAN_SCORE_1ST,
      ucx_policy 3 128 UCG_PLAN_RANGE_MAX UCG_PLAN_UCX_PLAN_SCORE_2ND,
      ucx_policy 1 0 UCG_PLAN_RANGE_MAX UCG_PLAN_UCX_PLAN_SCORE_3RD,
      UCG_PLAN_LAST_POLICY]"

definition allreduce_8_32 :: "ucg_plan_policy list" where
  "allreduce_8_32 =
     [ucx_policy 5 0 256 UCG_PLAN_UCX_PLAN_SCORE_1ST,
      ucx_policy 14 256 1024 UCG_PLAN_UCX_PLAN_SCORE_1ST,
      ucx_policy 13 1024 8192 UCG_PLAN_UCX_PLAN_SCORE_1ST,
      ucx_policy 12 8192 32768 UCG_PLAN_UCX_PLAN_SCORE_1ST,
      ucx_policy 13 32768 262144 UCG_PLAN_UCX_PLAN_SCORE_1ST,
      ucx_policy 12 262144 1048576 UCG_PLAN_UCX_PLAN_SCORE_1ST,
      ucx_policy 13 1048576 UCG_PLAN_RANGE_MAX UCG_PLAN_UCX_PLAN_SCORE_1ST,
      ucx_policy 3 256 UCG_PLAN_RANGE_MAX UCG_PLAN_UCX_PLAN_SCORE_2ND,
      ucx_policy 1 0 UCG_PLAN_RANGE_MAX UCG_PLAN_UCX_PLAN_SCORE_3RD,
      UCG_PLAN_LAST_POLICY]"

definition allreduce_8_64 :: "ucg_plan_policy list" where
  "allreduce_8_64 =
     [ucx_policy 8 0 64 UCG_PLAN_UCX_PLAN_SCORE_1ST,
      ucx_policy 6 64 8192 UCG_PLAN_UCX_PLAN_SCORE_1ST,
      ucx_policy 13 8192 16384 UCG_PLAN_UCX_PLAN_SCORE_1ST,
      ucx_policy 12 16384 32768 UCG_PLAN_UCX_PLAN_SCORE_1ST,
      ucx_policy 13 32768 65536 UCG_PLAN_UCX_PLAN_SCORE_1ST,
      ucx_policy 12 65536 262144 UCG_PLAN_UCX_PLAN_SCORE_1ST,
      ucx_policy 14 262144 1048576 UCG_PLAN_UCX_PLAN_SCORE_1ST,
      ucx_policy 12 1048576 UCG_PLAN_RANGE_MAX UCG_PLAN_UCX_PLAN_SCORE_1ST,
      ucx_policy 6 8192 UCG_PLAN_RANGE_MAX UCG_PLAN_UCX_PLAN_SCORE_2ND,
      ucx_policy 1 0 UCG_PLAN_RANGE_MAX UCG_PLAN_UCX_PLAN_SCORE_3RD,
      UCG_PLAN_LAST_POLICY]"

definition allreduce_8_LG :: "ucg_plan_policy list" where
  "allreduce_8_LG =
     [ucx_policy 2 0 16 UCG_PLAN_UCX_PLAN_SCORE_1ST,
      ucx_policy 14 16 512 UCG_PLAN_UCX_PLAN_SCORE_1ST,
      ucx_policy 6 512 4096 UCG_PLAN_UCX_PLAN_SCORE_1ST,
      ucx_policy 3 4096 16384 UCG_PLAN_UCX_PLAN_SCORE_1ST,
      ucx_policy 13 16384 131072 UCG_PLAN_UCX_PLAN_SCORE_1ST,
      ucx_policy 12 131072 UCG_PLAN_RANGE_MAX UCG_PLAN_UCX_PLAN_SCORE_1ST,
      ucx_policy 3 0 UCG_PLAN_RANGE_MAX UCG_PLAN_UCX_PLAN_SCORE_2ND,
      ucx_policy 1 0 UCG_PLAN_RANGE_MAX UCG_PLAN_UCX_PLAN_SCORE_3RD,
      UCG_PLAN_LAST_POLICY]"

definition allreduce_16_1 :: "ucg_plan_policy list" where
  "allreduce_16_1 =
     [ucx_policy 7 0 32 UCG_PLAN_UCX_PLAN_SCORE_1ST,
      ucx_policy 1 32 512 UCG_PLAN_UCX_PLAN_SCORE_1ST,
      ucx_policy 2 512 8192 UCG_PLAN_UCX_PLAN_SCORE_1ST,
      ucx_policy 12 8192 UCG_PLAN_RANGE_MAX UCG_PLAN_UCX_PLAN_SCORE_1ST,
      ucx_policy 1 0 UCG_PLAN_RANGE_MAX UCG_PLAN_UCX_PLAN_SCORE_2ND,
      UCG_PLAN_LAST_POLICY]"

definition allreduce_16_4 :: "ucg_plan_policy list" where
  "allreduce_16_4 =
     [ucx_policy 1 0 256 UCG_PLAN_UCX_PLAN_SCORE_1ST,
      ucx_policy 14 256 512 UCG_PLAN_UCX_PLAN_SCORE_1ST,
      ucx_policy 13 512 1024 UCG_PLAN_UCX_PLAN_SCORE_1ST,
      ucx_policy 14 1024 2048 UCG_PLAN_UCX_PLAN_SCORE_1ST,
      ucx_policy 13 2048 32768 UCG_PLAN_UCX_PLAN_SCORE_1ST,
      ucx_policy 12 32768 UCG_PLAN_RANGE_MAX UCG_PLAN_UCX_PLAN_SCORE_1ST,
      ucx_policy 3 256 UCG_PLAN_RANGE_MAX UCG_PLAN_UCX_PLAN_SCORE_2ND,
      ucx_policy 1 0 UCG_PLAN_RANGE_MAX UCG_PLAN_UCX_PLAN_SCORE_3RD,
      UCG_PLAN_LAST_POLICY]"

definition allreduce_16_8 :: "ucg_plan_policy list" where
  "allreduce_16_8 =
     [ucx_policy 1 0 256 UCG_PLAN_UCX_PLAN_SCORE_1ST,
      ucx_policy 7 256 512 UCG_PLAN_UCX_PLAN_SCORE_1ST,
      ucx_policy 14 512 1024 UCG_PLAN_UCX_PLAN_SCORE_1ST,
      ucx_policy 13 1024 16384 UCG_PLAN_UCX_PLAN_SCORE_1ST,
      ucx_policy 12 16384 1048576 UCG_PLAN_UCX_PLAN_SCORE_1ST,
      ucx_policy 4 1048576 UCG_PLAN_RANGE_MAX UCG_PLAN_UCX_PLAN_SCORE_1ST,
      ucx_policy 3 512 UCG_PLAN_RANGE_MAX UCG_PLAN_UCX_PLAN_SCORE_2ND,
      ucx_policy 1 0 UCG_PLAN_RANGE_MAX UCG_PLAN_UCX_PLAN_SCORE_3RD,
      UCG_PLAN_LAST_POLICY]"

definition allreduce_16_16 :: "ucg_plan_policy list" where
  "allreduce_16_16 =
     [ucx_policy 1 0 128 UCG_PLAN_UCX_PLAN_SCORE_1ST,
      ucx_policy 14 128 512 UCG_PLAN_UCX_PLAN_SCORE_1ST,
      ucx_policy 13 512 4096 UCG_PLAN_UCX_PLAN_SCORE_1ST,
      ucx_policy 12 4096 UCG_PLAN_RANGE_MAX UCG_PLAN_UCX_PLAN_SCORE_1ST,
      ucx_policy 3 128 UCG_PLAN_RANGE_MAX UCG_PLAN_UCX_PLAN_SCORE_2ND,
      ucx_policy 1 0 UCG_PLAN_RANGE_MAX UCG_PLAN_UCX_PLAN_SCORE_3RD,
      UCG_PLAN_LAST_POLICY]"

definition allreduce_16_32 :: "ucg_plan_policy list" where
  "allreduce_16_32 =
     [ucx_policy 6 0 256 UCG_PLAN_UCX_PLAN_SCORE_1ST,
      ucx_policy 14 256 1024 UCG_PLAN_UCX_PLAN_SCORE_1ST,
      ucx_policy 13 1024 2048 UCG_PLAN_UCX_PLAN_SCORE_1ST,
      ucx_policy 14 2048 4096 UCG_PLAN_UCX_PLAN_SCORE_1ST,
      ucx_policy 13 4096 8192 UCG_PLAN_UCX_PLAN_SCORE_1ST,
      ucx_policy 12 8192 UCG_PLAN_RANGE_MAX UCG_PLAN_UCX_PLAN_SCORE_1ST,
      ucx_policy 3 256 UCG_PLAN_RANGE_MAX UCG_PLAN_UCX_PLAN_SCORE_2ND,
      ucx_policy 1 0 UCG_PLAN_RANGE_MAX UCG_PLAN_UCX_PLAN_SCORE_3RD,
      UCG_PLAN_LAST_POLICY]"

definition allreduce_16_64 :: "ucg_plan_policy list" where
  "allreduce_16_64 =
     [ucx_policy 8 0 16 UCG_PLAN_UCX_PLAN_SCORE_1ST,
      ucx_policy 6 16 4096 UCG_PLAN_UCX_PLAN_SCORE_1ST,
      ucx_policy 3 4096 8192 UCG_PLAN_UCX_PLAN_SCORE_1ST,
      ucx_policy 13 8192 16384 UCG_PLAN_UCX_PLAN_SCORE_1ST,
      ucx_policy 12 16384 UCG_PLAN_RANGE_MAX UCG_PLAN_UCX_PLAN_SCORE_1ST,
      ucx_policy 3 8192 UCG_PLAN_RANGE_MAX UCG_PLAN_UCX_PLAN_SCORE_2ND,
      ucx_policy 1 0 UCG_PLAN_RANGE_MAX UCG_PLAN_UCX_PLAN_SCORE_3RD,
      UCG_PLAN_LAST_POLICY]"

definition allreduce_16_LG :: "ucg_plan_policy list" where
  "allreduce_16_LG =
     [ucx_policy 2 0 32 UCG_PLAN_UCX_PLAN_SCORE_1ST,
      ucx_policy 6 32 2048 UCG_PLAN_UCX_PLAN_SCORE_1ST,
      ucx_policy 2 2048 16384 UCG_PLAN_UCX_PLAN_SCORE_1ST,
      ucx_policy 13 16384 65536 UCG_PLAN_UCX_PLAN_SCORE_1ST,
      ucx_policy 12 65536 UCG_PLAN_RANGE_MAX UCG_PLAN_UCX_PLAN_SCORE_1ST,
      ucx_policy 3 16384 UCG_PLAN_RANGE_MAX UCG_PLAN_UCX_PLAN_SCORE_2ND,
      ucx_policy 1 0 UCG_PLAN_RANGE_MAX UCG_PLAN_UCX_PLAN_SCORE_3RD,
      UCG_PLAN_LAST_POLICY]"

definition allreduce_LG_1 :: "ucg_plan_policy list" where
  "allreduce_LG_1 =
     [ucx_policy 1 0 4096 UCG_PLAN_UCX_PLAN_SCORE_1ST,
      ucx_policy 12 4096 UCG_PLAN_RANGE_MAX UCG_PLAN_UCX_PLAN_SCORE_1ST,
      ucx_policy 1 4096 UCG_PLAN_RANGE_MAX UCG_PLAN_UCX_PLAN_SCORE_3RD,
      UCG_PLAN_LAST_POLICY]"

definition allreduce_LG_4 :: "ucg_plan_policy list" where
  "allreduce_LG_4 =
     [ucx_policy 1 0 256 UCG_PLAN_UCX_PLAN_SCORE_1ST,
      ucx_policy 13 256 1024 UCG_PLAN_UCX_PLAN_SCORE_1ST,
      ucx_policy 14 1024 4096 UCG_PLAN_UCX_PLAN_SCORE_1ST,
      ucx_policy 13 4096 16384 UCG_PLAN_UCX_PLAN_SCORE_1ST,
      ucx_policy 12 16384 UCG_PLAN_RANGE_MAX UCG_PLAN_UCX_PLAN_SCORE_1ST,
      ucx_policy 5 256 262144 UCG_PLAN_UCX_PLAN_SCORE_2ND,
      ucx_policy 4 262144 UCG_PLAN_RANGE_MAX UCG_PLAN_UCX_PLAN_SCORE_2ND,
      ucx_policy 1 0 UCG_PLAN_RANGE_MAX UCG_PLAN_UCX_PLAN_SCORE_3RD,
      UCG_PLAN_LAST_POLICY]"

definition allreduce_LG_8 :: "ucg_plan_policy list" where
  "allreduce_LG_8 =
     [ucx_policy 1 0 256 UCG_PLAN_UCX_PLAN_SCORE_1ST,
      ucx_policy 7 256 1024 UCG_PLAN_UCX_PLAN_SCORE_1ST,
      ucx_policy 13 1024 16384 UCG_PLAN_UCX_PLAN_SCORE_1ST,
      ucx_policy 12 16384 UCG_PLAN_RANGE_MAX UCG_PLAN_UCX_PLAN_SCORE_1ST,
      ucx_policy 6 1024 524288 UCG_PLAN_UCX_PLAN_SCORE_2ND,
      ucx_policy 4 524288 UCG_PLAN_RANGE_MAX UCG_PLAN_UCX_PLAN_SCORE_2ND,
      ucx_policy 1 0 UCG_PLAN_RANGE_MAX UCG_PLAN_UCX_PLAN_SCORE_3RD,
      UCG_PLAN_LAST_POLICY]"

definition allreduce_LG_16 :: "ucg_plan_policy list" where
  "allreduce_LG_16 =
     [ucx_policy 3 0 32 UCG_PLAN_UCX_PLAN_SCORE_1ST,
      ucx_policy 8 32 64 UCG_PLAN_UCX_PLAN_SCORE_1ST,
      ucx_policy 6 64 128 UCG_PLAN_UCX_PLAN_SCORE_1ST,
      ucx_policy 3 128 256 UCG_PLAN_UCX_PLAN_SCORE_1ST,
      ucx_policy 14 256 512 UCG_PLAN_UCX_PLAN_SCORE_1ST,
      ucx_policy 13 512 1024 UCG_PLAN_UCX_PLAN_SCORE_1ST,
      ucx_policy 12 1024 2048 UCG_PLAN_UCX_PLAN_SCORE_1ST,
      ucx_policy 13 2048 4096 UCG_PLAN_UCX_PLAN_SCORE_1ST,
      ucx_policy 12 4096 UCG_PLAN_RANGE_MAX UCG_PLAN_UCX_PLAN_SCORE_1ST,
      ucx_policy 3 256 524288 UCG_PLAN_UCX_PLAN_SCORE_2ND,
      ucx_policy 4 524288 UCG_PLAN_RANGE_MAX UCG_PLAN_UCX_PLAN_SCORE_2ND,
      ucx_policy 1 0 UCG_PLAN_RANGE_MAX UCG_PLAN_UCX_PLAN_SCORE_3RD,
      UCG_PLAN_LAST_POLICY]"

definition allreduce_LG_32 :: "ucg_plan_policy list" where
  "allreduce_LG_32 =
     [ucx_policy 6 0 256 UCG_PLAN_UCX_PLAN_SCORE_1ST,
      ucx_policy 14 256 1024 UCG_PLAN_UCX_PLAN_SCORE_1ST,
      ucx_policy 13 1024 2048 UCG_PLAN_UCX_PLAN_SCORE_1ST,
      ucx_policy 14 2048 4096 UCG_PLAN_UCX_PLAN_SCORE_1ST,
      ucx_policy 13 4096 8192 UCG_PLAN_UCX_PLAN_SCORE_1ST,
      ucx_policy 12 8192 524288 UCG_PLAN_UCX_PLAN_SCORE_1ST,
      ucx_policy 13 524288 1048576 UCG_PLAN_UCX_PLAN_SCORE_1ST,
      ucx_policy 12 1048576 UCG_PLAN_RANGE_MAX UCG_PLAN_UCX_PLAN_SCORE_1ST,
      ucx_policy 4 256 4096 UCG_PLAN_UCX_PLAN_SCORE_2ND,
      ucx_policy 3 4096 UCG_PLAN_RANGE_MAX UCG_PLAN_UCX_PLAN_SCORE_2ND,
      ucx_policy 1 0 UCG_PLAN_RANGE_MAX UCG_PLAN_UCX_PLAN_SCORE_3RD,
      UCG_PLAN_LAST_POLICY]"

definition allreduce_LG_64 :: "ucg_plan_policy list" where
  "allreduce_LG_64 =
     [ucx_policy 7 0 64 UCG_PLAN_UCX_PLAN_SCORE_1ST,
      ucx_policy 5 64 2048 UCG_PLAN_UCX_PLAN_SCORE_1ST,
      ucx_policy 6 2048 16384 UCG_PLAN_UCX_PLAN_SCORE_1ST,
      ucx_policy 12 16384 UCG_PLAN_RANGE_MAX UCG_PLAN_UCX_PLAN_SCORE_1ST,
      ucx_policy 3 16384 UCG_PLAN_RANGE_MAX UCG_PLAN_UCX_PLAN_SCORE_2ND,
      ucx_policy 1 0 UCG_PLAN_RANGE_MAX UCG_PLAN_UCX_PLAN_SCORE_3RD,
      UCG_PLAN_LAST_POLICY]"

definition allreduce_LG_LG :: "ucg_plan_policy list" where
  "allreduce_LG_LG =
     [ucx_policy 7 0 128 UCG_PLAN_UCX_PLAN_SCORE_1ST,
      ucx_policy 5 128 512 UCG_PLAN_UCX_PLAN_SCORE_1ST,
      ucx_policy 6 512 4096 UCG_PLAN_UCX_PLAN_SCORE_1ST,
      ucx_policy 7 4096 8192 UCG_PLAN_UCX_PLAN_SCORE_1ST,
      ucx_policy 13 8192 16384 UCG_PLAN_UCX_PLAN_SCORE_1ST,
      ucx_policy 14 16384 65536 UCG_PLAN_UCX_PLAN_SCORE_1ST,
      ucx_policy 12 65536 UCG_PLAN_RANGE_MAX UCG_PLAN_UCX_PLAN_SCORE_1ST,
      ucx_policy 3 8192 UCG_PLAN_RANGE_MAX UCG_PLAN_UCX_PLAN_SCORE_2ND,
      ucx_policy 1 0 UCG_PLAN_RANGE_MAX UCG_PLAN_UCX_PLAN_SCORE_3RD,
      UCG_PLAN_LAST_POLICY]"

definition allreduce_plan_policy :: "ucg_plan_policy list list" where
  "allreduce_plan_policy =
     [allreduce_4_1, allreduce_4_4, allreduce_4_8, allreduce_4_16, allreduce_4_32, allreduce_4_64, allreduce_4_LG,
      allreduce_8_1, allreduce_8_4, allreduce_8_8, allreduce_8_16, allreduce_8_32, allreduce_8_64, allreduce_8_LG,
      allreduce_16_1, allreduce_16_4, allreduce_16_8, allreduce_16_16, allreduce_16_32, allreduce_16_64, allreduce_16_LG,
      allreduce_LG_1, allreduce_LG_4, allreduce_LG_8, allreduce_LG_16, allreduce_LG_32, allreduce_LG_64, allreduce_LG_LG]"

definition allreduce_plan_policy_default :: "ucg_plan_policy list list" where
  "allreduce_plan_policy_default =
     [allreduce_4_1, allreduce_4_4, allreduce_4_8, allreduce_4_16_default, allreduce_4_32, allreduce_4_64, allreduce_4_LG_default,
      allreduce_8_1, allreduce_8_4, allreduce_8_8, allreduce_8_16, allreduce_8_32, allreduce_8_64, allreduce_8_LG,
      allreduce_16_1, allreduce_16_4, allreduce_16_8, allreduce_16_16, allreduce_16_32, allreduce_16_64, allreduce_16_LG,
      allreduce_LG_1, allreduce_LG_4, allreduce_LG_8, allreduce_LG_16, allreduce_LG_32, allreduce_LG_64, allreduce_LG_LG]"

text \<open>\<open>config\<close> is \<open>policy_default\<close> of the collective's configuration, if the context has one.\<close>

definition ucg_planc_ucx_get_allreduce_plan_policy ::
    "bool option \<Rightarrow> ucg_planc_ucx_node_level \<Rightarrow> ucg_planc_ucx_ppn_level \<Rightarrow> ucg_plan_policy list" where
  "ucg_planc_ucx_get_allreduce_plan_policy config node_level ppn_level =
     (case config of
        Some policy_default \<Rightarrow> (if policy_default then allreduce_plan_policy_default else allreduce_plan_policy) ! policy_idx node_level ppn_level
      | None \<Rightarrow> allreduce_plan_policy_default ! policy_idx node_level ppn_level)"

end
