(* ===== verification/Policy_Allgatherv.thy ===== *)
theory Policy_Allgatherv
  imports Ucx_Policy
begin

text \<open>
  The algorithms for allgatherv of the UCX plan component, and which of them is taken by default
  (\<open>src/src/planc/ucx/allgatherv/allgatherv.c\<close>).  The tables go by the number of nodes and of processes per node.
\<close>

subsection \<open>Algorithms\<close>

definition ucg_planc_ucx_allgatherv_plan_attr :: "(string \<Rightarrow> nat) \<Rightarrow> ucg_plan_attr list" where
  "ucg_planc_ucx_allgatherv_plan_attr fn =
     map (ucx_plan_attr fn ''planc ucx allgatherv'')
       [(''ucg_planc_ucx_allgatherv_neighbor_prepare'', 1, ''Neighbor exchange''),
        (''ucg_planc_ucx_allgatherv_ring_prepare'', 2, ''Ring''),
        (''ucg_planc_ucx_allgatherv_ring_hpl_prepare'', 3, ''Ring-HPL''),
        (''ucg_planc_ucx_allgatherv_linear_prepare'', 4, ''Linear''),
        (''ucg_planc_ucx_allgatherv_bruck_prepare'', 5, ''Bruck''),
        (''ucg_planc_ucx_allgatherv_na_rolling_prepare'', 6, ''Node-aware rolling'')]"

subsection \<open>Policies\<close>

definition allgatherv_4_1 :: "ucg_plan_policy list" where
  "allgatherv_4_1 =
     [ucx_policy 4 0 UCG_PLAN_RANGE_MAX UCG_PLAN_UCX_PLAN_SCORE_1ST,
      UCG_PLAN_LAST_POLICY]"

definition allgatherv_4_4 :: "ucg_plan_policy list" where
  "allgatherv_4_4 =
     [ucx_policy 1 0 8192 UCG_PLAN_UCX_PLAN_SCORE_1ST,
      ucx_policy 2 8192 16384 UCG_PLAN_UCX_PLAN_SCORE_1ST,
      ucx_policy 1 16384 UCG_PLAN_RANGE_MAX UCG_PLAN_UCX_PLAN_SCORE_1ST,
      ucx_policy 2 0 8192 UCG_PLAN_UCX_PLAN_SCORE_2ND,
      ucx_policy 3 16384 UCG_PLAN_RANGE_MAX UCG_PLAN_UCX_PLAN_SCORE_2ND,
      UCG_PLAN_LAST_POLICY]"

definition allgatherv_4_8 :: "ucg_plan_policy list" where
  "allgatherv_4_8 =
     [ucx_policy 1 0 4096 UCG_PLAN_UCX_PLAN_SCORE_1ST,
      ucx_policy 2 4096 16384 UCG_PLAN_UCX_PLAN_SCORE_1ST,
      ucx_policy 1 16384 UCG_PLAN_RANGE_MAX UCG_PLAN_UCX_PLAN_SCORE_1ST,
      ucx_policy 2 0 4096 UCG_PLAN_UCX_PLAN_SCORE_2ND,
      ucx_policy 3 16384 UCG_PLAN_RANGE_MAX UCG_PLAN_UCX_PLAN_SCORE_2ND,
      UCG_PLAN_LAST_POLICY]"

definition allgatherv_4_16 :: "ucg_plan_policy list" where
  "allgatherv_4_16 =
     [ucx_policy 2 8192 16384 UCG_PLAN_UCX_PLAN_SCORE_1ST,
      ucx_policy 1 16384 UCG_PLAN_RANGE_MAX UCG_PLAN_UCX_PLAN_SCORE_1ST,
      ucx_policy 3 16384 UCG_PLAN_RANGE_MAX UCG_PLAN_UCX_PLAN_SCORE_2ND,
      UCG_PLAN_LAST_POLICY]"

definition allgatherv_4_16_default :: "ucg_plan_policy list" where
  "allgatherv_4_16_default =
     [ucx_policy 1 0 2048 UCG_PLAN_UCX_PLAN_SCORE_1ST,
      ucx_policy 2 2048 16384 UCG_PLAN_UCX_PLAN_SCORE_1ST,
      ucx_policy 1 16384 UCG_PLAN_RANGE_MAX UCG_PLAN_UCX_PLAN_SCORE_1ST,
      ucx_policy 2 0 2048 UCG_PLAN_UCX_PLAN_SCORE_2ND,
      ucx_policy 3 16384 UCG_PLAN_RANGE_MAX UCG_PLAN_UCX_PLAN_SCORE_2ND,
      UCG_PLAN_LAST_POLICY]"

definition allgatherv_4_32 :: "ucg_plan_policy list" where
  "allgatherv_4_32 =
     [ucx_policy 1 0 16 UCG_PLAN_UCX_PLAN_SCORE_1ST,
      ucx_policy 2 16 16384 UCG_PLAN_UCX_PLAN_SCORE_1ST,
      ucx_policy 1 16384 262144 UCG_PLAN_UCX_PLAN_SCORE_1ST,
      ucx_policy 3 262144 UCG_PLAN_RANGE_MAX UCG_PLAN_UCX_PLAN_SCORE_1ST,
      ucx_policy 2 0 16 UCG_PLAN_UCX_PLAN_SCORE_2ND,
      ucx_policy 3 16384 262144 UCG_PLAN_UCX_PLAN_SCORE_2ND,
      UCG_PLAN_LAST_POLICY]"

definition allgatherv_4_64 :: "ucg_plan_policy list" where
  "allgatherv_4_64 =
     [ucx_policy 2 0 16384 UCG_PLAN_UCX_PLAN_SCORE_1ST,
      ucx_policy 6 16384 32768 UCG_PLAN_UCX_PLAN_SCORE_1ST,
      ucx_policy 1 32768 262144 UCG_PLAN_UCX_PLAN_SCORE_1ST,
      ucx_policy 2 262144 UCG_PLAN_RANGE_MAX UCG_PLAN_UCX_PLAN_SCORE_1ST,
      ucx_policy 1 16384 32768 UCG_PLAN_UCX_PLAN_SCORE_2ND,
      ucx_policy 3 16384 262144 UCG_PLAN_UCX_PLAN_SCORE_3RD,
      UCG_PLAN_LAST_POLICY]"

definition allgatherv_4_LG :: "ucg_plan_policy list" where
  "allgatherv_4_LG =
     [ucx_policy 2 1024 UCG_PLAN_RANGE_MAX UCG_PLAN_UCX_PLAN_SCORE_1ST,
      UCG_PLAN_LAST_POLICY]"

definition allgatherv_4_LG_default :: "ucg_plan_policy list" where
  "allgatherv_4_LG_default =
     [ucx_policy 2 0 UCG_PLAN_RANGE_MAX UCG_PLAN_UCX_PLAN_SCORE_1ST,
      UCG_PLAN_LAST_POLICY]"

definition allgatherv_8_1 :: "ucg_plan_policy list" where
  "allgatherv_8_1 =
     [ucx_policy 4 0 UCG_PLAN_RANGE_MAX UCG_PLAN_UCX_PLAN_SCORE_1ST,
      UCG_PLAN_LAST_POLICY]"

definition allgatherv_8_4 :: "ucg_plan_policy list" where
  "allgatherv_8_4 =
     [ucx_policy 5 0 512 UCG_PLAN_UCX_PLAN_SCORE_1ST,
      ucx_policy 4 512 4096 UCG_PLAN_UCX_PLAN_SCORE_1ST,
      ucx_policy 2 4096 65536 UCG_PLAN_UCX_PLAN_SCORE_1ST,
      ucx_policy 6 65536 UCG_PLAN_RANGE_MAX UCG_PLAN_UCX_PLAN_SCORE_1ST,
      ucx_policy 2 65536 1048576 UCG_PLAN_UCX_PLAN_SCORE_2ND,
      ucx_policy 1 1048576 UCG_PLAN_RANGE_MAX UCG_PLAN_UCX_PLAN_SCORE_2ND,
      ucx_policy 3 1048576 UCG_PLAN_RANGE_MAX UCG_PLAN_UCX_PLAN_SCORE_3RD,
      UCG_PLAN_LAST_POLICY]"

definition allgatherv_8_8 :: "ucg_plan_policy list" where
  "allgatherv_8_8 =
     [ucx_policy 5 0 1024 UCG_PLAN_UCX_PLAN_SCORE_1ST,
      ucx_policy 2 1024 32768 UCG_PLAN_UCX_PLAN_SCORE_1ST,
      ucx_policy 6 32768 262144 UCG_PLAN_UCX_PLAN_SCORE_1ST,
      ucx_policy 3 262144 UCG_PLAN_RANGE_MAX UCG_PLAN_UCX_PLAN_SCORE_1ST,
      ucx_policy 2 32768 262144 UCG_PLAN_UCX_PLAN_SCORE_2ND,
      UCG_PLAN_LAST_POLICY]"

definition allgatherv_8_16 :: "ucg_plan_policy list" where
  "allgatherv_8_16 =
     [ucx_policy 5 0 4096 UCG_PLAN_UCX_PLAN_SCORE_1ST,
      ucx_policy 6 4096 UCG_PLAN_RANGE_MAX UCG_PLAN_UCX_PLAN_SCORE_1ST,
      ucx_policy 2 0 2048 UCG_PLAN_UCX_PLAN_SCORE_2ND,
      ucx_policy 1 16384 65536 UCG_PLAN_UCX_PLAN_SCORE_2ND,
      ucx_policy 3 16384 1048576 UCG_PLAN_UCX_PLAN_SCORE_3RD,
      UCG_PLAN_LAST_POLICY]"

definition allgatherv_8_16_default :: "ucg_plan_policy list" where
  "allgatherv_8_16_default =
     [ucx_policy 1 0 2048 UCG_PLAN_UCX_PLAN_SCORE_1ST,
      ucx_policy 2 2048 16384 UCG_PLAN_UCX_PLAN_SCORE_1ST,
      ucx_policy 6 16384 65536 UCG_PLAN_UCX_PLAN_SCORE_1ST,
      ucx_policy 1 65536 1048576 UCG_PLAN_UCX_PLAN_SCORE_1ST,
      ucx_policy 2 1048576 UCG_PLAN_RANGE_MAX UCG_PLAN_UCX_PLAN_SCORE_1ST,
      ucx_policy 2 0 2048 UCG_PLAN_UCX_PLAN_SCORE_2ND,
      ucx_policy 1 16384 65536 UCG_PLAN_UCX_PLAN_SCORE_2ND,
      ucx_policy 3 16384 1048576 UCG_PLAN_UCX_PLAN_SCORE_3RD,
      UCG_PLAN_LAST_POLICY]"

definition allgatherv_8_32 :: "ucg_plan_policy list" where
  "allgatherv_8_32 =
     [ucx_policy 2 0 16384 UCG_PLAN_UCX_PLAN_SCORE_1ST,
      ucx_policy 6 16384 65536 UCG_PLAN_UCX_PLAN_SCORE_1ST,
      ucx_policy 3 65536 UCG_PLAN_RANGE_MAX UCG_PLAN_UCX_PLAN_SCORE_1ST,
      ucx_policy 1 16384 65536 UCG_PLAN_UCX_PLAN_SCORE_2ND,
      ucx_policy 3 16384 65536 UCG_PLAN_UCX_PLAN_SCORE_3RD,
      UCG_PLAN_LAST_POLICY]"

definition allgatherv_8_64 :: "ucg_plan_policy list" where
  "allgatherv_8_64 =
     [ucx_policy 2 0 16384 UCG_PLAN_UCX_PLAN_SCORE_1ST,
      ucx_policy 1 16384 65536 UCG_PLAN_UCX_PLAN_SCORE_1ST,
      ucx_policy 3 65536 262144 UCG_PLAN_UCX_PLAN_SCORE_1ST,
      ucx_policy 1 262144 524288 UCG_PLAN_UCX_PLAN_SCORE_1ST,
      ucx_policy 2 524288 UCG_PLAN_RANGE_MAX UCG_PLAN_UCX_PLAN_SCORE_1ST,
      ucx_policy 3 16384 65536 UCG_PLAN_UCX_PLAN_SCORE_2ND,
      ucx_policy 3 262144 524288 UCG_PLAN_UCX_PLAN_SCORE_2ND,
      UCG_PLAN_LAST_POLICY]"

definition allgatherv_8_LG :: "ucg_plan_policy list" where
  "allgatherv_8_LG =
     [ucx_policy 5 0 32 UCG_PLAN_UCX_PLAN_SCORE_1ST,
      ucx_policy 2 32 1024 UCG_PLAN_UCX_PLAN_SCORE_1ST,
      ucx_policy 1 1024 131072 UCG_PLAN_UCX_PLAN_SCORE_1ST,
      ucx_policy 2 131072 UCG_PLAN_RANGE_MAX UCG_PLAN_UCX_PLAN_SCORE_1ST,
      ucx_policy 2 1024 131072 UCG_PLAN_UCX_PLAN_SCORE_2ND,
      UCG_PLAN_LAST_POLICY]"

definition allgatherv_16_1 :: "ucg_plan_policy list" where
  "allgatherv_16_1 =
     [ucx_policy 4 0 UCG_PLAN_RANGE_MAX UCG_PLAN_UCX_PLAN_SCORE_1ST,
      UCG_PLAN_LAST_POLICY]"

definition allgatherv_16_4 :: "ucg_plan_policy list" where
  "allgatherv_16_4 =
     [ucx_policy 5 0 4096 UCG_PLAN_UCX_PLAN_SCORE_1ST,
      ucx_policy 2 4096 1048576 UCG_PLAN_UCX_PLAN_SCORE_1ST,
      ucx_policy 1 1048576 UCG_PLAN_RANGE_MAX UCG_PLAN_UCX_PLAN_SCORE_1ST,
      ucx_policy 2 1048576 UCG_PLAN_RANGE_MAX UCG_PLAN_UCX_PLAN_SCORE_2ND,
      UCG_PLAN_LAST_POLICY]"

definition allgatherv_16_8 :: "ucg_plan_policy list" where
  "allgatherv_16_8 =
     [ucx_policy 5 0 2048 UCG_PLAN_UCX_PLAN_SCORE_1ST,
      ucx_policy 2 2048 524288 UCG_PLAN_UCX_PLAN_SCORE_1ST,
      ucx_policy 1 524288 UCG_PLAN_RANGE_MAX UCG_PLAN_UCX_PLAN_SCORE_1ST,
      ucx_policy 3 524288 UCG_PLAN_RANGE_MAX UCG_PLAN_UCX_PLAN_SCORE_2ND,
      UCG_PLAN_LAST_POLICY]"

definition allgatherv_16_16 :: "ucg_plan_policy list" where
  "allgatherv_16_16 =
     [ucx_policy 1 0 4096 UCG_PLAN_UCX_PLAN_SCORE_1ST,
      ucx_policy 2 4096 16384 UCG_PLAN_UCX_PLAN_SCORE_1ST,
      ucx_policy 1 16384 131072 UCG_PLAN_UCX_PLAN_SCORE_1ST,
      ucx_policy 3 131072 1048576 UCG_PLAN_UCX_PLAN_SCORE_1ST,
      ucx_policy 2 1048576 UCG_PLAN_RANGE_MAX UCG_PLAN_UCX_PLAN_SCORE_1ST,
      ucx_policy 2 0 4096 UCG_PLAN_UCX_PLAN_SCORE_2ND,
      ucx_policy 3 16384 131072 UCG_PLAN_UCX_PLAN_SCORE_2ND,
      UCG_PLAN_LAST_POLICY]"

definition allgatherv_16_32 :: "ucg_plan_policy list" where
  "allgatherv_16_32 =
     [ucx_policy 2 0 16384 UCG_PLAN_UCX_PLAN_SCORE_1ST,
      ucx_policy 1 16384 131072 UCG_PLAN_UCX_PLAN_SCORE_1ST,
      ucx_policy 3 131072 UCG_PLAN_RANGE_MAX UCG_PLAN_UCX_PLAN_SCORE_1ST,
      ucx_policy 3 16384 131072 UCG_PLAN_UCX_PLAN_SCORE_2ND,
      UCG_PLAN_LAST_POLICY]"

definition allgatherv_16_64 :: "ucg_plan_policy list" where
  "allgatherv_16_64 =
     [ucx_policy 2 0 16384 UCG_PLAN_UCX_PLAN_SCORE_1ST,
      ucx_policy 1 16384 65536 UCG_PLAN_UCX_PLAN_SCORE_1ST,
      ucx_policy 3 65536 262144 UCG_PLAN_UCX_PLAN_SCORE_1ST,
      ucx_policy 1 262144 524288 UCG_PLAN_UCX_PLAN_SCORE_1ST,
      ucx_policy 2 524288 UCG_PLAN_RANGE_MAX UCG_PLAN_UCX_PLAN_SCORE_1ST,
      ucx_policy 3 16384 65536 UCG_PLAN_UCX_PLAN_SCORE_2ND,
      ucx_policy 3 262144 524288 UCG_PLAN_UCX_PLAN_SCORE_2ND,
      UCG_PLAN_LAST_POLICY]"

definition allgatherv_16_LG :: "ucg_plan_policy list" where
  "allgatherv_16_LG =
     [ucx_policy 5 0 16 UCG_PLAN_UCX_PLAN_SCORE_1ST,
      ucx_policy 2 16 1024 UCG_PLAN_UCX_PLAN_SCORE_1ST,
      ucx_policy 1 1024 32768 UCG_PLAN_UCX_PLAN_SCORE_1ST,
      ucx_policy 3 32768 131072 UCG_PLAN_UCX_PLAN_SCORE_1ST,
      ucx_policy 2 131072 UCG_PLAN_RANGE_MAX UCG_PLAN_UCX_PLAN_SCORE_1ST,
      ucx_policy 2 1024 32768 UCG_PLAN_UCX_PLAN_SCORE_2ND,
      UCG_PLAN_LAST_POLICY]"

definition allgatherv_LG_1 :: "ucg_plan_policy list" where
  "allgatherv_LG_1 =
     [ucx_policy 5 0 256 UCG_PLAN_UCX_PLAN_SCORE_1ST,
      ucx_policy 4 256 131072 UCG_PLAN_UCX_PLAN_SCORE_1ST,
      ucx_policy 1 131072 UCG_PLAN_RANGE_MAX UCG_PLAN_UCX_PLAN_SCORE_1ST,
      ucx_policy 2 131072 UCG_PLAN_RANGE_MAX UCG_PLAN_UCX_PLAN_SCORE_2ND,
      UCG_PLAN_LAST_POLICY]"

definition allgatherv_LG_4 :: "ucg_plan_policy list" where
  "allgatherv_LG_4 =
     [ucx_policy 5 0 2048 UCG_PLAN_UCX_PLAN_SCORE_1ST,
      ucx_policy 4 2048 4096 UCG_PLAN_UCX_PLAN_SCORE_1ST,
      ucx_policy 2 4096 262144 UCG_PLAN_UCX_PLAN_SCORE_1ST,
      ucx_policy 1 262144 UCG_PLAN_RANGE_MAX UCG_PLAN_UCX_PLAN_SCORE_1ST,
      ucx_policy 3 262144 UCG_PLAN_RANGE_MAX UCG_PLAN_UCX_PLAN_SCORE_2ND,
      UCG_PLAN_LAST_POLICY]"

definition allgatherv_LG_8 :: "ucg_plan_policy list" where
  "allgatherv_LG_8 =
     [ucx_policy 5 0 1024 UCG_PLAN_UCX_PLAN_SCORE_1ST,
      ucx_policy 2 1024 1048576 UCG_PLAN_UCX_PLAN_SCORE_1ST,
      ucx_policy 1 1048576 UCG_PLAN_RANGE_MAX UCG_PLAN_UCX_PLAN_SCORE_1ST,
      ucx_policy 3 1048576 UCG_PLAN_RANGE_MAX UCG_PLAN_UCX_PLAN_SCORE_2ND,
      UCG_PLAN_LAST_POLICY]"

definition allgatherv_plan_policy :: "ucg_plan_policy list list" where
  "allgatherv_plan_policy =
     [allgatherv_4_1, allgatherv_4_4, allgatherv_4_8, allgatherv_4_16, allgatherv_4_32, allgatherv_4_64, allgatherv_4_LG,
      allgatherv_8_1, allgatherv_8_4, allgatherv_8_8, allgatherv_8_16, allgatherv_8_32, allgatherv_8_64, allgatherv_8_LG,
      allgatherv_16_1, allgatherv_16_4, allgatherv_16_8, allgatherv_16_16, allgatherv_16_32, allgatherv_16_64, allgatherv_16_LG,
      allgatherv_LG_1, allgatherv_LG_4, allgatherv_LG_8, allgatherv_16_16, allgatherv_16_32, allgatherv_16_64, allgatherv_16_LG]"

definition allgatherv_plan_policy_default :: "ucg_plan_policy list list" where
  "allgatherv_plan_policy_default =
     [allgatherv_4_1, allgatherv_4_4, allgatherv_4_8, allgatherv_4_16_default, allgatherv_4_32, allgatherv_4_64, allgatherv_4_LG_default,
      allgatherv_8_1, allgatherv_8_4, allgatherv_8_8, allgatherv_8_16_default, allgatherv_8_32, allgatherv_8_64, allgatherv_8_LG,
      allgatherv_16_1, allgatherv_16_4, allgatherv_16_8, allgatherv_16_16, allgatherv_16_32, allgatherv_16_64, allgatherv_16_LG,
      allgatherv_LG_1, allgatherv_LG_4, allgatherv_LG_8, allgatherv_16_16, allgatherv_16_32, allgatherv_16_64, allgatherv_16_LG]"

text \<open>\<open>config\<close> is \<open>policy_default\<close> of the collective's configuration, if the context has one.\<close>

definition ucg_planc_ucx_get_allgatherv_plan_policy ::
    "bool option \<Rightarrow> ucg_planc_ucx_node_level \<Rightarrow> ucg_planc_ucx_ppn_level \<Rightarrow> ucg_plan_policy list" where
  "ucg_planc_ucx_get_allgatherv_plan_policy config node_level ppn_level =
     (case config of
        Some policy_default \<Rightarrow> (if policy_default then allgatherv_plan_policy_default else allgatherv_plan_policy) ! policy_idx node_level ppn_level
      | None \<Rightarrow> allgatherv_plan_policy_default ! policy_idx node_level ppn_level)"

end
