(* ===== verification/Policy_Rest.thy ===== *)
theory Policy_Rest
  imports Ucx_Policy
begin

text \<open>
  The algorithms for gatherv, scatterv and reduce of the UCX plan component, and which of them is taken by default
  (\<open>gatherv/gatherv.c\<close>, \<open>scatterv/scatterv.c\<close>, \<open>reduce/reduce.c\<close> under \<open>src/src/planc/ucx/\<close>).
\<close>

subsection \<open>Gatherv\<close>

definition ucg_planc_ucx_gatherv_plan_attr :: "(string \<Rightarrow> nat) \<Rightarrow> ucg_plan_attr list" where
  "ucg_planc_ucx_gatherv_plan_attr fn =
     map (ucx_plan_attr fn ''planc ucx gatherv'')
       [(''ucg_planc_ucx_gatherv_linear_prepare'', 1, ''Linear'')]"

definition gatherv_plan_policy :: "ucg_plan_policy list" where
  "gatherv_plan_policy =
     [ucx_policy 1 0 UCG_PLAN_RANGE_MAX UCG_PLAN_UCX_PLAN_SCORE_1ST,
      UCG_PLAN_LAST_POLICY]"

definition ucg_planc_ucx_get_gatherv_plan_policy :: "ucg_planc_ucx_node_level \<Rightarrow> ucg_planc_ucx_ppn_level \<Rightarrow> ucg_plan_policy list" where
  "ucg_planc_ucx_get_gatherv_plan_policy node_level ppn_level = gatherv_plan_policy"

subsection \<open>Scatterv\<close>

definition ucg_planc_ucx_scatterv_plan_attr :: "(string \<Rightarrow> nat) \<Rightarrow> ucg_plan_attr list" where
  "ucg_planc_ucx_scatterv_plan_attr fn =
     map (ucx_plan_attr fn ''planc ucx scatterv'')
       [(''ucg_planc_ucx_scatterv_linear_prepare'', 1, ''Linear''),
        (''ucg_planc_ucx_scatterv_kntree_prepare'', 2, ''Knomial tree''),
        (''ucg_planc_ucx_scatterv_na_kntree_prepare'', 3, ''Node-aware K-nomial tree'')]"

definition scatterv_plan_policy :: "ucg_plan_policy list" where
  "scatterv_plan_policy =
     [ucx_policy 1 0 UCG_PLAN_RANGE_MAX UCG_PLAN_UCX_PLAN_SCORE_1ST,
      UCG_PLAN_LAST_POLICY]"

definition ucg_planc_ucx_get_scatterv_plan_policy :: "ucg_planc_ucx_node_level \<Rightarrow> ucg_planc_ucx_ppn_level \<Rightarrow> ucg_plan_policy list" where
  "ucg_planc_ucx_get_scatterv_plan_policy node_level ppn_level = scatterv_plan_policy"

subsection \<open>Reduce\<close>

definition ucg_planc_ucx_reduce_plan_attr :: "(string \<Rightarrow> nat) \<Rightarrow> ucg_plan_attr list" where
  "ucg_planc_ucx_reduce_plan_attr fn =
     map (ucx_plan_attr fn ''planc ucx reduce'')
       [(''ucg_planc_ucx_reduce_kntree_prepare'', 1, ''K-nomial tree'')]"

definition reduce_plan_policy :: "ucg_plan_policy list" where
  "reduce_plan_policy =
     [ucx_policy 1 0 UCG_PLAN_RANGE_MAX UCG_PLAN_UCX_PLAN_SCORE_1ST,
      UCG_PLAN_LAST_POLICY]"

definition ucg_planc_ucx_get_reduce_plan_policy :: "ucg_planc_ucx_node_level \<Rightarrow> ucg_planc_ucx_ppn_level \<Rightarrow> ucg_plan_policy list" where
  "ucg_planc_ucx_get_reduce_plan_policy node_level ppn_level = reduce_plan_policy"

end
