(* ===== verification/Topo_Aux.thy ===== *)
theory Topo_Aux
  imports Rank_Map
begin

unbundle bit_operations_syntax

text \<open>
  The topology of a group, \<open>src/src/core/ucg_topo.c\<close>: the sub-groups made of the ranks of a subnet, a node or
  a socket, or of their leaders, which are created on demand and cached; where every rank is, with nodes and
  sockets numbered in the order they are met; how many processes a node and a socket have.

  The callback \<open>get_location\<close> is an argument: a rank of the group is mapped to a status and a location.  The
  hash tables are khash of UCX, used as finite maps; they are association lists in the order of insertion, and
  their memory is not counted in the heap, where every array, the filter of the leaders and the topology itself
  is one block.  \<open>None\<close> of a function is undefined behaviour (a read of an array outside it, or of a field
  that was never written).
\<close>

section \<open>Data\<close>

text \<open>A location; the fields that the mask does not name are whatever the callback left there.\<close>

record ucg_location =
  loc_field_mask :: u64
  loc_subnet_id :: c_int
  loc_node_id :: c_int
  loc_socket_id :: c_int

definition UCG_LOCATION_FIELD_SOCKET_ID :: u64 where "UCG_LOCATION_FIELD_SOCKET_ID = 1"
definition UCG_LOCATION_FIELD_NODE_ID :: u64 where "UCG_LOCATION_FIELD_NODE_ID = 2"
definition UCG_LOCATION_FIELD_SUBNET_ID :: u64 where "UCG_LOCATION_FIELD_SUBNET_ID = 4"

definition loc_has :: "ucg_location \<Rightarrow> u64 \<Rightarrow> bool" where
  "loc_has location field \<longleftrightarrow> loc_field_mask location AND field \<noteq> 0"

datatype ucg_topo_group_type =
    UCG_TOPO_GROUP_TYPE_NET
  | UCG_TOPO_GROUP_TYPE_SUBNET | UCG_TOPO_GROUP_TYPE_SUBNET_LEADER
  | UCG_TOPO_GROUP_TYPE_NODE | UCG_TOPO_GROUP_TYPE_NODE_LEADER
  | UCG_TOPO_GROUP_TYPE_SOCKET | UCG_TOPO_GROUP_TYPE_SOCKET_LEADER

definition ucg_topo_group_types :: "ucg_topo_group_type list" where
  "ucg_topo_group_types =
     [UCG_TOPO_GROUP_TYPE_NET, UCG_TOPO_GROUP_TYPE_SUBNET, UCG_TOPO_GROUP_TYPE_SUBNET_LEADER, UCG_TOPO_GROUP_TYPE_NODE,
      UCG_TOPO_GROUP_TYPE_NODE_LEADER, UCG_TOPO_GROUP_TYPE_SOCKET, UCG_TOPO_GROUP_TYPE_SOCKET_LEADER]"

datatype ucg_topo_group_state =
    UCG_TOPO_GROUP_STATE_NOT_INIT | UCG_TOPO_GROUP_STATE_ERROR
  | UCG_TOPO_GROUP_STATE_ENABLE | UCG_TOPO_GROUP_STATE_DISABLE

text \<open>A virtual group (\<open>ucg_vgroup_t\<close>, less the pointer to the owner) and its state.\<close>

record ucg_topo_group =
  tg_myrank :: ucg_rank_t
  tg_size :: u32
  tg_rank_map :: ucg_rank_map
  tg_state :: ucg_topo_group_state

text \<open>A node or socket number of \<open>detail\<close> is \<open>None\<close> until it is written.\<close>

record ucg_topo_location =
  tl_node_id :: "c_int option"
  tl_socket_id :: "c_int option"

record ucg_topo_detail =
  td_nnode :: c_int
  td_nsocket :: c_int
  td_nrank_continuous :: c_int
  td_locations :: "ucg_topo_location list option"

type_synonym ucg_topo_get_location_cb = "ucg_rank_t \<Rightarrow> ucg_status \<times> ucg_location"

text \<open>\<open>tp_group_size\<close> is the size of the owner group, \<open>topo->group->size\<close>.\<close>

record ucg_topo =
  tp_groups :: "ucg_topo_group_type \<Rightarrow> ucg_topo_group"
  tp_group_size :: u32
  tp_myrank :: ucg_rank_t
  tp_rank_map :: ucg_rank_map
  tp_get_location :: ucg_topo_get_location_cb
  tp_myloc :: ucg_location
  tp_detail :: ucg_topo_detail
  tp_ppn :: c_int
  tp_pps :: c_int

abbreviation UCG_TOPO_PPX_UNBALANCED :: c_int where "UCG_TOPO_PPX_UNBALANCED \<equiv> -1"
definition UCG_TOPO_PPX_UNKNOWN :: c_int where "UCG_TOPO_PPX_UNKNOWN = - 2"

section \<open>Rank and location\<close>

definition ucg_topo_is_self :: "bool \<Rightarrow> ucg_topo \<Rightarrow> ucg_rank_map \<Rightarrow> ucg_rank_t \<Rightarrow> bool option" where
  "ucg_topo_is_self chk topo rank_map rank =
     do { group_rank \<leftarrow> ucg_rank_map_eval chk rank_map rank;
          Some (group_rank = tp_myrank topo) }"

definition ucg_topo_get_location ::
    "bool \<Rightarrow> ucg_topo \<Rightarrow> ucg_rank_map \<Rightarrow> ucg_rank_t \<Rightarrow> (ucg_status \<times> ucg_location) option" where
  "ucg_topo_get_location chk topo rank_map rank =
     do { group_rank \<leftarrow> ucg_rank_map_eval chk rank_map rank;
          Some (tp_get_location topo group_rank) }"

section \<open>The auxiliaries for creating groups\<close>

text \<open>
  \<open>realloc\<close> keeps the number of blocks, whether it succeeds or not.
\<close>

definition heap_realloc :: "ucg_heap \<Rightarrow> bool \<times> ucg_heap" where
  "heap_realloc h = (case heap_alloc h of (True, h) \<Rightarrow> (True, heap_free h) | (False, h) \<Rightarrow> (False, h))"

text \<open>The filter of the leaders: the ids seen so far and the capacity of the array; \<open>None\<close> is NULL.\<close>

record leader_filter =
  lf_buffer :: "c_int list"
  lf_capacity :: nat

type_synonym topo_aux = "leader_filter option"

record ucg_topo_group_aux =
  aid_init :: "ucg_heap \<Rightarrow> ucg_status \<times> topo_aux \<times> ucg_heap"
  aid_cleanup :: "topo_aux \<Rightarrow> ucg_heap \<Rightarrow> ucg_heap"
  aid_check :: "ucg_location \<Rightarrow> ucg_status"
  aid_is_member :: "topo_aux \<Rightarrow> ucg_topo \<Rightarrow> ucg_location \<Rightarrow> bool option"
  aid_add_member :: "topo_aux \<Rightarrow> ucg_location \<Rightarrow> ucg_heap \<Rightarrow> (ucg_status \<times> topo_aux \<times> ucg_heap) option"

definition ucg_topo_group_aux_init_empty :: "ucg_heap \<Rightarrow> ucg_status \<times> topo_aux \<times> ucg_heap" where
  "ucg_topo_group_aux_init_empty h = (UCG_OK, None, h)"

definition ucg_topo_group_aux_cleanup_empty :: "topo_aux \<Rightarrow> ucg_heap \<Rightarrow> ucg_heap" where
  "ucg_topo_group_aux_cleanup_empty aux h = h"

definition ucg_topo_group_aux_check_empty :: "ucg_location \<Rightarrow> ucg_status" where
  "ucg_topo_group_aux_check_empty location = UCG_OK"

definition ucg_topo_group_aux_is_member_empty :: "topo_aux \<Rightarrow> ucg_topo \<Rightarrow> ucg_location \<Rightarrow> bool option" where
  "ucg_topo_group_aux_is_member_empty aux topo location = Some True"

definition ucg_topo_group_aux_add_member_empty ::
    "topo_aux \<Rightarrow> ucg_location \<Rightarrow> ucg_heap \<Rightarrow> (ucg_status \<times> topo_aux \<times> ucg_heap) option" where
  "ucg_topo_group_aux_add_member_empty aux location h = Some (UCG_OK, aux, h)"

definition ucg_topo_group_aux_init_leader_filter :: "ucg_heap \<Rightarrow> ucg_status \<times> topo_aux \<times> ucg_heap" where
  "ucg_topo_group_aux_init_leader_filter h =
     (case heap_alloc h of
        (True, h) \<Rightarrow> (UCG_OK, Some \<lparr>lf_buffer = [], lf_capacity = 1022\<rparr>, h)
      | (False, h) \<Rightarrow> (UCG_ERR_NO_MEMORY, None, h))"

definition ucg_topo_group_aux_cleanup_leader_filter :: "topo_aux \<Rightarrow> ucg_heap \<Rightarrow> ucg_heap" where
  "ucg_topo_group_aux_cleanup_leader_filter aux h = (case aux of Some buf \<Rightarrow> heap_free h | None \<Rightarrow> h)"

definition ucg_topo_group_aux_check_subnet_id :: "ucg_location \<Rightarrow> ucg_status" where
  "ucg_topo_group_aux_check_subnet_id location =
     (if \<not> loc_has location UCG_LOCATION_FIELD_SUBNET_ID then UCG_ERR_NOT_FOUND else UCG_OK)"

definition ucg_topo_group_aux_is_subnet_member :: "topo_aux \<Rightarrow> ucg_topo \<Rightarrow> ucg_location \<Rightarrow> bool option" where
  "ucg_topo_group_aux_is_subnet_member aux topo location =
     Some (loc_subnet_id location = loc_subnet_id (tp_myloc topo))"

definition ucg_topo_group_aux_check_node_id :: "ucg_location \<Rightarrow> ucg_status" where
  "ucg_topo_group_aux_check_node_id location =
     (if \<not> loc_has location UCG_LOCATION_FIELD_NODE_ID then UCG_ERR_NOT_FOUND else UCG_OK)"

definition ucg_topo_group_aux_is_node_member :: "topo_aux \<Rightarrow> ucg_topo \<Rightarrow> ucg_location \<Rightarrow> bool option" where
  "ucg_topo_group_aux_is_node_member aux topo location =
     Some (loc_node_id location = loc_node_id (tp_myloc topo))"

definition ucg_topo_group_aux_check_socket_id :: "ucg_location \<Rightarrow> ucg_status" where
  "ucg_topo_group_aux_check_socket_id location =
     (if \<not> loc_has location UCG_LOCATION_FIELD_NODE_ID \<or> \<not> loc_has location UCG_LOCATION_FIELD_SOCKET_ID
      then UCG_ERR_NOT_FOUND else UCG_OK)"

definition ucg_topo_group_aux_is_socket_member :: "topo_aux \<Rightarrow> ucg_topo \<Rightarrow> ucg_location \<Rightarrow> bool option" where
  "ucg_topo_group_aux_is_socket_member aux topo location =
     Some (loc_node_id location = loc_node_id (tp_myloc topo) \<and>
           loc_socket_id location = loc_socket_id (tp_myloc topo))"

definition ucg_topo_group_aux_is_leader :: "topo_aux \<Rightarrow> c_int \<Rightarrow> bool option" where
  "ucg_topo_group_aux_is_leader aux key =
     do { buf \<leftarrow> aux; Some (\<not> list_ex (\<lambda>criterion. key = criterion) (lf_buffer buf)) }"

text \<open>If the extension fails the auxiliary keeps the old array.\<close>

definition ucg_topo_group_aux_add_leader ::
    "topo_aux \<Rightarrow> c_int \<Rightarrow> ucg_heap \<Rightarrow> (ucg_status \<times> topo_aux \<times> ucg_heap) option" where
  "ucg_topo_group_aux_add_leader aux key h =
     do { buf \<leftarrow> aux;
          if length (lf_buffer buf) = lf_capacity buf then
            (case heap_realloc h of
               (False, h) \<Rightarrow> Some (UCG_ERR_NO_MEMORY, aux, h)
             | (True, h) \<Rightarrow>
                 Some (UCG_OK, Some \<lparr>lf_buffer = lf_buffer buf @ [key], lf_capacity = lf_capacity buf + 1024\<rparr>, h))
          else Some (UCG_OK, Some (buf\<lparr>lf_buffer := lf_buffer buf @ [key]\<rparr>), h) }"

definition ucg_topo_group_aux_is_subnet_leader :: "topo_aux \<Rightarrow> ucg_topo \<Rightarrow> ucg_location \<Rightarrow> bool option" where
  "ucg_topo_group_aux_is_subnet_leader aux topo location = ucg_topo_group_aux_is_leader aux (loc_subnet_id location)"

definition ucg_topo_group_aux_add_subnet_leader ::
    "topo_aux \<Rightarrow> ucg_location \<Rightarrow> ucg_heap \<Rightarrow> (ucg_status \<times> topo_aux \<times> ucg_heap) option" where
  "ucg_topo_group_aux_add_subnet_leader aux location = ucg_topo_group_aux_add_leader aux (loc_subnet_id location)"

definition ucg_topo_group_aux_is_node_leader :: "topo_aux \<Rightarrow> ucg_topo \<Rightarrow> ucg_location \<Rightarrow> bool option" where
  "ucg_topo_group_aux_is_node_leader aux topo location = ucg_topo_group_aux_is_leader aux (loc_node_id location)"

definition ucg_topo_group_aux_add_node_leader ::
    "topo_aux \<Rightarrow> ucg_location \<Rightarrow> ucg_heap \<Rightarrow> (ucg_status \<times> topo_aux \<times> ucg_heap) option" where
  "ucg_topo_group_aux_add_node_leader aux location = ucg_topo_group_aux_add_leader aux (loc_node_id location)"

definition ucg_topo_group_aux_is_socket_leader :: "topo_aux \<Rightarrow> ucg_topo \<Rightarrow> ucg_location \<Rightarrow> bool option" where
  "ucg_topo_group_aux_is_socket_leader aux topo location = ucg_topo_group_aux_is_leader aux (loc_socket_id location)"

definition ucg_topo_group_aux_add_socket_leader ::
    "topo_aux \<Rightarrow> ucg_location \<Rightarrow> ucg_heap \<Rightarrow> (ucg_status \<times> topo_aux \<times> ucg_heap) option" where
  "ucg_topo_group_aux_add_socket_leader aux location = ucg_topo_group_aux_add_leader aux (loc_socket_id location)"

fun ucg_topo_group_aid :: "ucg_topo_group_type \<Rightarrow> ucg_topo_group_aux" where
  "ucg_topo_group_aid UCG_TOPO_GROUP_TYPE_NET =
     \<lparr>aid_init = ucg_topo_group_aux_init_empty, aid_cleanup = ucg_topo_group_aux_cleanup_empty,
      aid_check = ucg_topo_group_aux_check_empty, aid_is_member = ucg_topo_group_aux_is_member_empty,
      aid_add_member = ucg_topo_group_aux_add_member_empty\<rparr>"
| "ucg_topo_group_aid UCG_TOPO_GROUP_TYPE_SUBNET =
     \<lparr>aid_init = ucg_topo_group_aux_init_empty, aid_cleanup = ucg_topo_group_aux_cleanup_empty,
      aid_check = ucg_topo_group_aux_check_subnet_id, aid_is_member = ucg_topo_group_aux_is_subnet_member,
      aid_add_member = ucg_topo_group_aux_add_member_empty\<rparr>"
| "ucg_topo_group_aid UCG_TOPO_GROUP_TYPE_SUBNET_LEADER =
     \<lparr>aid_init = ucg_topo_group_aux_init_leader_filter, aid_cleanup = ucg_topo_group_aux_cleanup_empty,
      aid_check = ucg_topo_group_aux_check_subnet_id, aid_is_member = ucg_topo_group_aux_is_subnet_leader,
      aid_add_member = ucg_topo_group_aux_add_subnet_leader\<rparr>"
| "ucg_topo_group_aid UCG_TOPO_GROUP_TYPE_NODE =
     \<lparr>aid_init = ucg_topo_group_aux_init_empty, aid_cleanup = ucg_topo_group_aux_cleanup_empty,
      aid_check = ucg_topo_group_aux_check_node_id, aid_is_member = ucg_topo_group_aux_is_node_member,
      aid_add_member = ucg_topo_group_aux_add_member_empty\<rparr>"
| "ucg_topo_group_aid UCG_TOPO_GROUP_TYPE_NODE_LEADER =
     \<lparr>aid_init = ucg_topo_group_aux_init_leader_filter, aid_cleanup = ucg_topo_group_aux_cleanup_leader_filter,
      aid_check = ucg_topo_group_aux_check_node_id, aid_is_member = ucg_topo_group_aux_is_node_leader,
      aid_add_member = ucg_topo_group_aux_add_node_leader\<rparr>"
| "ucg_topo_group_aid UCG_TOPO_GROUP_TYPE_SOCKET =
     \<lparr>aid_init = ucg_topo_group_aux_init_empty, aid_cleanup = ucg_topo_group_aux_cleanup_empty,
      aid_check = ucg_topo_group_aux_check_socket_id, aid_is_member = ucg_topo_group_aux_is_socket_member,
      aid_add_member = ucg_topo_group_aux_add_member_empty\<rparr>"
| "ucg_topo_group_aid UCG_TOPO_GROUP_TYPE_SOCKET_LEADER =
     \<lparr>aid_init = ucg_topo_group_aux_init_leader_filter, aid_cleanup = ucg_topo_group_aux_cleanup_leader_filter,
      aid_check = ucg_topo_group_aux_check_socket_id, aid_is_member = ucg_topo_group_aux_is_socket_leader,
      aid_add_member = ucg_topo_group_aux_add_socket_leader\<rparr>"

end
