(* ===== verification/Topo.thy ===== *)
theory Topo
  imports Topo_Aux
begin

text \<open>
  The second half of \<open>src/src/core/ucg_topo.c\<close>: the creation of a group by a walk over the ranks, the numbering of
  nodes and sockets, the processes per node and per socket, the topology's initialisation and cleanup, and the
  lookup that creates groups on demand and caches them.

  The counters of the processes per socket are as many as nodes times sockets, which C multiplies as 32-bit integers: the
  model is the code as long as that product is below \<open>2^31\<close> (with no more sockets than ranks, for at least 46340 ranks).
\<close>

section \<open>Creating a group\<close>

text \<open>
  The loop over the ranks from \<open>i\<close> with \<open>k\<close> of them left.  \<open>ranks\<close> holds the entries written so far, so that
  \<open>vrank\<close> is its length, and \<open>size_ranks\<close> is the capacity of the array.  How it ends: the loop is done, or it
  jumps to \<open>err_group\<close> or to \<open>err_cleanup_aux\<close>.
\<close>

datatype group_end = Group_Done | Err_Group ucg_status | Err_Cleanup_Aux ucg_status

record group_walk =
  gw_aux :: topo_aux
  gw_ranks :: "ucg_rank_t list"
  gw_size_ranks :: nat
  gw_myrank :: ucg_rank_t
  gw_heap :: ucg_heap

definition topo_group_add ::
    "bool \<Rightarrow> ucg_topo \<Rightarrow> ucg_rank_map \<Rightarrow> ucg_rank_t \<Rightarrow> group_walk \<Rightarrow> (group_end \<times> group_walk) option" where
  "topo_group_add chk topo rank_map i w =
     (let vrank = length (gw_ranks w);
          (status, size_ranks, h) =
            (if vrank = gw_size_ranks w then
               (case heap_realloc (gw_heap w) of
                  (True, h) \<Rightarrow> (UCG_OK, gw_size_ranks w + 128, h)
                | (False, h) \<Rightarrow> (UCG_ERR_NO_MEMORY, gw_size_ranks w, h))
             else (UCG_OK, gw_size_ranks w, gw_heap w));
          w = w\<lparr>gw_size_ranks := size_ranks, gw_heap := h\<rparr> in
      if status \<noteq> UCG_OK then Some (Err_Cleanup_Aux status, w)
      else do { group_rank \<leftarrow> ucg_rank_map_eval chk rank_map i;
                self \<leftarrow> ucg_topo_is_self chk topo rank_map i;
                Some (Group_Done, w\<lparr>gw_ranks := gw_ranks w @ [group_rank],
                                    gw_myrank := if self then int vrank else gw_myrank w\<rparr>) })"

fun topo_group_loop ::
    "bool \<Rightarrow> ucg_topo \<Rightarrow> ucg_rank_map \<Rightarrow> ucg_topo_group_aux \<Rightarrow> nat \<Rightarrow> nat \<Rightarrow> group_walk \<Rightarrow>
     (group_end \<times> group_walk) option" where
  "topo_group_loop chk topo rank_map aid i 0 w = Some (Group_Done, w)"
| "topo_group_loop chk topo rank_map aid i (Suc k) w =
     do { (status, location) \<leftarrow> ucg_topo_get_location chk topo rank_map (int i);
          if status \<noteq> UCG_OK then Some (Err_Group status, w)
          else if aid_check aid location \<noteq> UCG_OK then Some (Err_Group (aid_check aid location), w)
          else do { member \<leftarrow> aid_is_member aid (gw_aux w) topo location;
                    if \<not> member then topo_group_loop chk topo rank_map aid (i + 1) k w
                    else do { (status, aux, h) \<leftarrow> aid_add_member aid (gw_aux w) location (gw_heap w);
                              let w = w\<lparr>gw_aux := aux, gw_heap := h\<rparr>;
                              if status \<noteq> UCG_OK then Some (Err_Cleanup_Aux status, w)
                              else do { (e, w) \<leftarrow> topo_group_add chk topo rank_map (int i) w;
                                        if e \<noteq> Group_Done then Some (e, w)
                                        else topo_group_loop chk topo rank_map aid (i + 1) k w } } } }"

text \<open>
  What follows the loop: the group is disabled if this process is not in it or is alone in it, and \<open>ranks\<close>
  is freed; otherwise the group is enabled and its rank map takes \<open>ranks\<close> over.
\<close>

definition topo_group_finish ::
    "ucg_topo_group \<Rightarrow> group_walk \<Rightarrow> (ucg_status \<times> ucg_topo_group \<times> group_walk) option" where
  "topo_group_finish grp w =
     (let vrank = length (gw_ranks w);
          grp = grp\<lparr>tg_myrank := gw_myrank w, tg_size := of_nat vrank\<rparr> in
      if tg_myrank grp = UCG_INVALID_RANK \<or> vrank \<le> 1 then
        Some (UCG_OK, grp\<lparr>tg_state := UCG_TOPO_GROUP_STATE_DISABLE\<rparr>, w\<lparr>gw_heap := heap_free (gw_heap w)\<rparr>)
      else do { (status, m, ranks, h) \<leftarrow>
                  ucg_rank_map_init_by_array (Some (gw_ranks w)) (of_nat vrank) True (gw_heap w);
                Some (status, grp\<lparr>tg_state := UCG_TOPO_GROUP_STATE_ENABLE, tg_rank_map := m\<rparr>,
                      w\<lparr>gw_heap := h\<rparr>) })"

definition ucg_topo_create_group ::
    "bool \<Rightarrow> ucg_topo \<Rightarrow> ucg_rank_map \<Rightarrow> ucg_topo_group_type \<Rightarrow> ucg_heap \<Rightarrow>
     (ucg_status \<times> ucg_topo \<times> ucg_heap) option" where
  "ucg_topo_create_group chk topo rank_map type h =
     (case heap_alloc h of
        (False, h) \<Rightarrow> Some (UCG_ERR_NO_MEMORY, topo, h)
      | (True, h) \<Rightarrow>
          let aid = ucg_topo_group_aid type;
              grp = tp_groups topo type;
              put = (\<lambda>g. topo\<lparr>tp_groups := (tp_groups topo)(type := g)\<rparr>) in
          (case aid_init aid h of (status, aux, h) \<Rightarrow>
             if status \<noteq> UCG_OK then Some (status, topo, heap_free h)
             else
               do { (e, w) \<leftarrow> topo_group_loop chk topo rank_map aid 0 (unat (rm_size rank_map))
                               \<lparr>gw_aux = aux, gw_ranks = [], gw_size_ranks = 256, gw_myrank = tg_myrank grp,
                                gw_heap = h\<rparr>;
                    let free = (\<lambda>w. heap_free (aid_cleanup aid (gw_aux w) (gw_heap w)));
                    case e of
                      Err_Group status \<Rightarrow>
                        Some (status, put (grp\<lparr>tg_myrank := gw_myrank w, tg_state := UCG_TOPO_GROUP_STATE_ERROR\<rparr>), free w)
                    | Err_Cleanup_Aux status \<Rightarrow> Some (status, put (grp\<lparr>tg_myrank := gw_myrank w\<rparr>), free w)
                    | Group_Done \<Rightarrow>
                        do { (status, grp, w) \<leftarrow> topo_group_finish grp w;
                             Some (if status \<noteq> UCG_OK then (status, put grp, free w)
                                   else (UCG_OK, put grp, aid_cleanup aid (gw_aux w) (gw_heap w))) } }))"

definition ucg_topo_group_cleanup :: "ucg_topo_group \<Rightarrow> ucg_heap \<Rightarrow> ucg_topo_group \<times> ucg_heap" where
  "ucg_topo_group_cleanup grp h =
     (if tg_state grp = UCG_TOPO_GROUP_STATE_ENABLE then
        (case ucg_rank_map_cleanup (tg_rank_map grp) h of (m, h) \<Rightarrow> (grp\<lparr>tg_rank_map := m\<rparr>, h))
      else (grp, h))"

definition topo_full_map :: "ucg_topo \<Rightarrow> ucg_rank_map" where
  "topo_full_map topo = \<lparr>rm_size = rm_size (tp_rank_map topo), rm_map = Rank_Full\<rparr>"

type_synonym create_topo_group = "ucg_topo \<Rightarrow> ucg_heap \<Rightarrow> (ucg_status \<times> ucg_topo \<times> ucg_heap) option"

definition ucg_topo_create_net_group :: "bool \<Rightarrow> create_topo_group" where
  "ucg_topo_create_net_group chk topo = ucg_topo_create_group chk topo (topo_full_map topo) UCG_TOPO_GROUP_TYPE_NET"

definition ucg_topo_create_subnet_group :: "bool \<Rightarrow> create_topo_group" where
  "ucg_topo_create_subnet_group chk topo =
     ucg_topo_create_group chk topo (topo_full_map topo) UCG_TOPO_GROUP_TYPE_SUBNET"

definition ucg_topo_create_subnet_leader_group :: "bool \<Rightarrow> create_topo_group" where
  "ucg_topo_create_subnet_leader_group chk topo =
     ucg_topo_create_group chk topo (topo_full_map topo) UCG_TOPO_GROUP_TYPE_SUBNET_LEADER"

definition ucg_topo_create_node_group :: "bool \<Rightarrow> create_topo_group" where
  "ucg_topo_create_node_group chk topo =
     ucg_topo_create_group chk topo (topo_full_map topo) UCG_TOPO_GROUP_TYPE_NODE"

definition ucg_topo_create_node_leader_group :: "bool \<Rightarrow> create_topo_group" where
  "ucg_topo_create_node_leader_group chk topo =
     ucg_topo_create_group chk topo (topo_full_map topo) UCG_TOPO_GROUP_TYPE_NODE_LEADER"

definition ucg_topo_create_socket_group :: "bool \<Rightarrow> create_topo_group" where
  "ucg_topo_create_socket_group chk topo =
     ucg_topo_create_group chk topo (tg_rank_map (tp_groups topo UCG_TOPO_GROUP_TYPE_NODE)) UCG_TOPO_GROUP_TYPE_SOCKET"

definition ucg_topo_create_socket_leader_group :: "bool \<Rightarrow> create_topo_group" where
  "ucg_topo_create_socket_leader_group chk topo =
     ucg_topo_create_group chk topo (tg_rank_map (tp_groups topo UCG_TOPO_GROUP_TYPE_NODE))
       UCG_TOPO_GROUP_TYPE_SOCKET_LEADER"

section \<open>Where the ranks are\<close>

text \<open>The hash table from ids to numbers: a new key gets the next number.\<close>

type_synonym id_hash = "(c_int \<times> c_int) list"

datatype ucg_topo_loc_flag = UCG_TOPO_LOC_NODE_ID | UCG_TOPO_LOC_SOCKET_ID

definition id_hash_put :: "id_hash \<Rightarrow> c_int \<Rightarrow> id_hash" where
  "id_hash_put hash key = (if map_of hash key = None then hash @ [(key, int (length hash))] else hash)"

definition topo_loc_key :: "ucg_topo_loc_flag \<Rightarrow> ucg_location \<Rightarrow> c_int option" where
  "topo_loc_key flags location =
     (if flags = UCG_TOPO_LOC_NODE_ID \<and> loc_has location UCG_LOCATION_FIELD_NODE_ID
      then Some (loc_node_id location)
      else if flags = UCG_TOPO_LOC_SOCKET_ID \<and> loc_has location UCG_LOCATION_FIELD_SOCKET_ID
      then Some (loc_socket_id location)
      else None)"

fun fill_id_hash_loop ::
    "ucg_topo_get_location_cb \<Rightarrow> ucg_topo_loc_flag \<Rightarrow> nat \<Rightarrow> nat \<Rightarrow> id_hash \<Rightarrow> ucg_status \<times> id_hash" where
  "fill_id_hash_loop loc flags i 0 hash = (UCG_OK, hash)"
| "fill_id_hash_loop loc flags i (Suc k) hash =
     (case loc (int i) of (status, location) \<Rightarrow>
        if status \<noteq> UCG_OK then (status, hash)
        else fill_id_hash_loop loc flags (i + 1) k
               (case topo_loc_key flags location of None \<Rightarrow> hash | Some key \<Rightarrow> id_hash_put hash key))"

definition ucg_topo_fill_id_hash :: "ucg_topo \<Rightarrow> id_hash \<Rightarrow> ucg_topo_loc_flag \<Rightarrow> ucg_status \<times> id_hash" where
  "ucg_topo_fill_id_hash topo hash flags =
     fill_id_hash_loop (tp_get_location topo) flags 0 (unat (tp_group_size topo)) hash"

text \<open>The loop that fills \<open>locations\<close>; an id that the table does not have would be read past its end.\<close>

fun topo_locations ::
    "ucg_topo_get_location_cb \<Rightarrow> id_hash \<Rightarrow> id_hash \<Rightarrow> nat \<Rightarrow> nat \<Rightarrow> (ucg_status \<times> ucg_topo_location list) option" where
  "topo_locations loc node_hash socket_hash i 0 = Some (UCG_OK, [])"
| "topo_locations loc node_hash socket_hash i (Suc k) =
     (case loc (int i) of (status, location) \<Rightarrow>
        if status \<noteq> UCG_OK then Some (status, [])
        else do { node \<leftarrow> (if loc_has location UCG_LOCATION_FIELD_NODE_ID
                          then do { v \<leftarrow> map_of node_hash (loc_node_id location); Some (Some v) }
                          else Some None);
                  socket \<leftarrow> (if loc_has location UCG_LOCATION_FIELD_SOCKET_ID
                            then do { v \<leftarrow> map_of socket_hash (loc_socket_id location); Some (Some v) }
                            else Some None);
                  (status, rest) \<leftarrow> topo_locations loc node_hash socket_hash (i + 1) k;
                  Some (status, \<lparr>tl_node_id = node, tl_socket_id = socket\<rparr> # rest) })"

text \<open>
  The loop that sets \<open>nrank_continuous\<close>: \<open>seen\<close> are the keys of \<open>tmp_node_hash\<close>; the node id is read
  whatever the mask says.
\<close>

fun topo_continuous_loop ::
    "ucg_topo_get_location_cb \<Rightarrow> nat \<Rightarrow> nat \<Rightarrow> c_int list \<Rightarrow> c_int \<Rightarrow> ucg_status \<times> c_int" where
  "topo_continuous_loop loc i 0 seen last_node_id = (UCG_OK, 1)"
| "topo_continuous_loop loc i (Suc k) seen last_node_id =
     (case loc (int i) of (status, location) \<Rightarrow>
        if status \<noteq> UCG_OK then (status, 1)
        else let key = loc_node_id location in
             if \<not> List.member seen key then topo_continuous_loop loc (i + 1) k (seen @ [key]) key
             else if key \<noteq> last_node_id then (UCG_OK, 0)
             else topo_continuous_loop loc (i + 1) k seen key)"

definition ucg_topo_init_detail :: "ucg_topo \<Rightarrow> ucg_heap \<Rightarrow> (ucg_status \<times> ucg_topo \<times> ucg_heap) option" where
  "ucg_topo_init_detail topo h =
     (let loc = tp_get_location topo;
          n = unat (tp_group_size topo) in
      case ucg_topo_fill_id_hash topo [] UCG_TOPO_LOC_NODE_ID of (status, node_hash) \<Rightarrow>
      if status \<noteq> UCG_OK then Some (status, topo, h)
      else let topo = topo\<lparr>tp_detail := tp_detail topo\<lparr>td_nnode := int (length node_hash)\<rparr>\<rparr> in
      case ucg_topo_fill_id_hash topo [] UCG_TOPO_LOC_SOCKET_ID of (status, socket_hash) \<Rightarrow>
      if status \<noteq> UCG_OK then Some (status, topo, h)
      else let topo = topo\<lparr>tp_detail := tp_detail topo\<lparr>td_nsocket := int (length socket_hash)\<rparr>\<rparr> in
      case heap_alloc h of
        (False, h) \<Rightarrow> Some (UCG_ERR_NO_MEMORY, topo, h)
      | (True, h) \<Rightarrow>
          do { (status, locations) \<leftarrow> topo_locations loc node_hash socket_hash 0 n;
               if status \<noteq> UCG_OK then Some (status, topo, heap_free h)
               else let topo = topo\<lparr>tp_detail := tp_detail topo\<lparr>td_locations := Some locations\<rparr>\<rparr> in
                    case topo_continuous_loop loc 0 n [] (-1) of (status, continuous) \<Rightarrow>
                    let topo = topo\<lparr>tp_detail := tp_detail topo\<lparr>td_nrank_continuous := continuous\<rparr>\<rparr> in
                    Some (if status \<noteq> UCG_OK then (status, topo, heap_free h) else (UCG_OK, topo, h)) })"

definition ucg_topo_cleanup_detail :: "ucg_topo \<Rightarrow> ucg_heap \<Rightarrow> ucg_topo \<times> ucg_heap" where
  "ucg_topo_cleanup_detail topo h =
     (if td_locations (tp_detail topo) \<noteq> None
      then (topo\<lparr>tp_detail := tp_detail topo\<lparr>td_locations := None\<rparr>\<rparr>, heap_free h)
      else (topo, h))"

text \<open>The node or socket number of a rank; \<open>None\<close> of the inner option: not written.\<close>

definition ucg_topo_get_location_id :: "ucg_topo option \<Rightarrow> ucg_rank_t \<Rightarrow> ucg_topo_loc_flag \<Rightarrow> c_int option" where
  "ucg_topo_get_location_id topo myrank flags =
     (case topo of
        None \<Rightarrow> Some (-1)
      | Some topo \<Rightarrow>
          if myrank = UCG_INVALID_RANK then Some (-1)
          else if myrank < 0 then None
          else do { l \<leftarrow> c_read (td_locations (tp_detail topo)) (nat myrank);
                    if flags = UCG_TOPO_LOC_NODE_ID then tl_node_id l else tl_socket_id l })"

section \<open>Processes per node and per socket\<close>

text \<open>The counters: one more at every index of the list, \<open>None\<close> if an index is not in the array.\<close>

fun topo_count :: "c_int option list \<Rightarrow> c_int list \<Rightarrow> c_int list option" where
  "topo_count [] process_cnt = Some process_cnt"
| "topo_count (None # is) process_cnt = None"
| "topo_count (Some i # is) process_cnt =
     (if i < 0 \<or> int (length process_cnt) \<le> i then None
      else topo_count is (process_cnt[nat i := process_cnt ! nat i + 1]))"

fun topo_balance :: "c_int list \<Rightarrow> c_int \<Rightarrow> c_int" where
  "topo_balance [] res = res"
| "topo_balance (c # cs) res =
     (if c = 0 then topo_balance cs res
      else if res = 0 then topo_balance cs c
      else if c \<noteq> res then UCG_TOPO_PPX_UNBALANCED
      else topo_balance cs res)"

text \<open>The loop \<open>for (i = 0; i < group_size; ++i)\<close> reads the first \<open>n\<close> entries of \<open>locations\<close>.\<close>

definition topo_read_locations :: "ucg_topo \<Rightarrow> ucg_topo_location list option" where
  "topo_read_locations topo =
     (let n = unat (tp_group_size topo) in
      case td_locations (tp_detail topo) of
        None \<Rightarrow> if n = 0 then Some [] else None
      | Some ls \<Rightarrow> if n \<le> length ls then Some (take n ls) else None)"

definition ucg_topo_calc_ppn :: "ucg_topo \<Rightarrow> ucg_heap \<Rightarrow> (ucg_status \<times> ucg_topo \<times> ucg_heap) option" where
  "ucg_topo_calc_ppn topo h =
     (let nnode = td_nnode (tp_detail topo) in
      if nnode = 0 then Some (UCG_OK, topo\<lparr>tp_ppn := UCG_TOPO_PPX_UNKNOWN\<rparr>, h)
      else case heap_alloc h of
        (False, h) \<Rightarrow> Some (UCG_ERR_NO_MEMORY, topo, h)
      | (True, h) \<Rightarrow>
          do { ls \<leftarrow> topo_read_locations topo;
               process_cnt \<leftarrow> topo_count (map tl_node_id ls) (replicate (nat nnode) 0);
               Some (UCG_OK, topo\<lparr>tp_ppn := topo_balance process_cnt 0\<rparr>, heap_free h) })"

definition socket_index :: "c_int \<Rightarrow> ucg_topo_location \<Rightarrow> c_int option" where
  "socket_index nsocket l = do { node \<leftarrow> tl_node_id l; socket \<leftarrow> tl_socket_id l; Some (node * nsocket + socket) }"

definition ucg_topo_calc_pps :: "ucg_topo \<Rightarrow> ucg_heap \<Rightarrow> (ucg_status \<times> ucg_topo \<times> ucg_heap) option" where
  "ucg_topo_calc_pps topo h =
     (let nnode = td_nnode (tp_detail topo);
          nsocket = td_nsocket (tp_detail topo) in
      if nsocket = 0 then Some (UCG_OK, topo\<lparr>tp_pps := UCG_TOPO_PPX_UNKNOWN\<rparr>, h)
      else case heap_alloc h of
        (False, h) \<Rightarrow> Some (UCG_ERR_NO_MEMORY, topo, h)
      | (True, h) \<Rightarrow>
          do { ls \<leftarrow> topo_read_locations topo;
               process_cnt \<leftarrow> topo_count (map (socket_index nsocket) ls) (replicate (nat (nnode * nsocket)) 0);
               Some (UCG_OK, topo\<lparr>tp_pps := topo_balance process_cnt 0\<rparr>, heap_free h) })"

definition ucg_topo_calc_ppx :: "ucg_topo \<Rightarrow> ucg_heap \<Rightarrow> (ucg_status \<times> ucg_topo \<times> ucg_heap) option" where
  "ucg_topo_calc_ppx topo h =
     do { (status, topo, h) \<leftarrow> ucg_topo_calc_ppn topo h;
          if status \<noteq> UCG_OK then Some (status, topo, h) else ucg_topo_calc_pps topo h }"

section \<open>The topology\<close>

record ucg_topo_params =
  tpp_group_size :: u32
  tpp_myrank :: ucg_rank_t
  tpp_rank_map :: ucg_rank_map
  tpp_get_location :: ucg_topo_get_location_cb

text \<open>The zeroes of \<open>ucg_calloc\<close>.\<close>

definition empty_location :: ucg_location where
  "empty_location = \<lparr>loc_field_mask = 0, loc_subnet_id = 0, loc_node_id = 0, loc_socket_id = 0\<rparr>"

definition new_topo :: "ucg_topo_params \<Rightarrow> ucg_topo" where
  "new_topo params =
     \<lparr>tp_groups = (\<lambda>type. \<lparr>tg_myrank = UCG_INVALID_RANK, tg_size = 0, tg_rank_map = \<lparr>rm_size = 0, rm_map = Rank_Full\<rparr>,
                          tg_state = UCG_TOPO_GROUP_STATE_NOT_INIT\<rparr>),
      tp_group_size = tpp_group_size params, tp_myrank = tpp_myrank params,
      tp_rank_map = \<lparr>rm_size = 0, rm_map = Rank_Full\<rparr>, tp_get_location = tpp_get_location params,
      tp_myloc = empty_location,
      tp_detail = \<lparr>td_nnode = 0, td_nsocket = 0, td_nrank_continuous = 0, td_locations = None\<rparr>,
      tp_ppn = 0, tp_pps = 0\<rparr>"

text \<open>The result \<open>None\<close> in the middle is \<open>*topo\<close> left as it was.\<close>

definition ucg_topo_init :: "ucg_topo_params \<Rightarrow> ucg_heap \<Rightarrow> (ucg_status \<times> ucg_topo option \<times> ucg_heap) option" where
  "ucg_topo_init params h =
     (case heap_alloc h of
        (False, h) \<Rightarrow> Some (UCG_ERR_NO_MEMORY, None, h)
      | (True, h) \<Rightarrow>
          do { (status, m, h) \<leftarrow> ucg_rank_map_copy (tpp_rank_map params) h;
               if status \<noteq> UCG_OK then Some (status, None, heap_free h)
               else let topo = (new_topo params)\<lparr>tp_rank_map := m\<rparr>;
                        err_free_rank_map = (\<lambda>status h. (status, None, heap_free (snd (ucg_rank_map_cleanup m h)))) in
               case tp_get_location topo (tp_myrank topo) of (status, myloc) \<Rightarrow>
               if status \<noteq> UCG_OK then Some (err_free_rank_map status h)
               else do { (status, topo, h) \<leftarrow> ucg_topo_init_detail (topo\<lparr>tp_myloc := myloc\<rparr>) h;
                         if status \<noteq> UCG_OK then Some (err_free_rank_map status h)
                         else do { (status, topo, h) \<leftarrow> ucg_topo_calc_ppx topo h;
                                   Some (if status \<noteq> UCG_OK then err_free_rank_map status h
                                         else (UCG_OK, Some topo, h)) } } })"

definition ucg_topo_cleanup :: "ucg_topo option \<Rightarrow> ucg_heap \<Rightarrow> ucg_heap" where
  "ucg_topo_cleanup topo h =
     (case topo of
        None \<Rightarrow> h
      | Some topo \<Rightarrow>
          case ucg_topo_cleanup_detail topo h of (topo, h) \<Rightarrow>
          heap_free (fold (\<lambda>type h. snd (ucg_topo_group_cleanup (tp_groups topo type) h)) ucg_topo_group_types h))"

text \<open>
  A pointer to a cached group is its type, \<open>None\<close> the NULL pointer; a type outside the enumeration, which the
  code refuses, has no value here.
\<close>

definition topo_create_of_type :: "bool \<Rightarrow> ucg_topo_group_type \<Rightarrow> create_topo_group" where
  "topo_create_of_type chk type =
     (case type of
        UCG_TOPO_GROUP_TYPE_NET \<Rightarrow> ucg_topo_create_net_group chk
      | UCG_TOPO_GROUP_TYPE_SUBNET \<Rightarrow> ucg_topo_create_subnet_group chk
      | UCG_TOPO_GROUP_TYPE_SUBNET_LEADER \<Rightarrow> ucg_topo_create_subnet_leader_group chk
      | UCG_TOPO_GROUP_TYPE_NODE \<Rightarrow> ucg_topo_create_node_group chk
      | UCG_TOPO_GROUP_TYPE_NODE_LEADER \<Rightarrow> ucg_topo_create_node_leader_group chk
      | UCG_TOPO_GROUP_TYPE_SOCKET \<Rightarrow> ucg_topo_create_socket_group chk
      | UCG_TOPO_GROUP_TYPE_SOCKET_LEADER \<Rightarrow> ucg_topo_create_socket_leader_group chk)"

definition ucg_topo_get_group ::
    "bool \<Rightarrow> ucg_topo \<Rightarrow> ucg_topo_group_type \<Rightarrow> ucg_heap \<Rightarrow>
     (ucg_topo_group_type option \<times> ucg_topo \<times> ucg_heap) option" where
  "ucg_topo_get_group chk topo type h =
     (let grp = tp_groups topo type;
          finish = (\<lambda>(status, topo, h). Some (if status = UCG_OK then Some type else None, topo, h)) in
      if tg_state grp \<noteq> UCG_TOPO_GROUP_STATE_NOT_INIT
      then Some (if tg_state grp = UCG_TOPO_GROUP_STATE_ERROR then None else Some type, topo, h)
      else if type \<noteq> UCG_TOPO_GROUP_TYPE_SOCKET \<and> type \<noteq> UCG_TOPO_GROUP_TYPE_SOCKET_LEADER
      then do { r \<leftarrow> topo_create_of_type chk type topo h; finish r }
      else do { (status, topo, h) \<leftarrow>
                  (if tg_state (tp_groups topo UCG_TOPO_GROUP_TYPE_NODE) = UCG_TOPO_GROUP_STATE_NOT_INIT
                   then ucg_topo_create_node_group chk topo h
                   else Some (UCG_OK, topo, h));
                if status \<noteq> UCG_OK then finish (status, topo, h)
                else if tg_state (tp_groups topo UCG_TOPO_GROUP_TYPE_NODE) = UCG_TOPO_GROUP_STATE_DISABLE
                then Some (Some type,
                           topo\<lparr>tp_groups := (tp_groups topo)
                                  (type := (tp_groups topo type)\<lparr>tg_state := UCG_TOPO_GROUP_STATE_DISABLE\<rparr>)\<rparr>, h)
                else do { r \<leftarrow> topo_create_of_type chk type topo h; finish r } })"

end
