(* ===== verification/Ucx_Plans.thy ===== *)
theory Ucx_Plans
  imports Policy_Barrier Policy_Bcast Policy_Allreduce Policy_Allgatherv Policy_Rest Plan Topo
begin

text \<open>
  The plans that the UCX plan component registers for a group (\<open>src/src/planc/ucx/planc_ucx_plan.c\<close>): for every collective the
  default policies, then those of the user, then the plans of loaded modules, which are parameters.  The arguments are not NULL.
\<close>

subsection \<open>Tables\<close>

text \<open>\<open>config\<close> gives \<open>policy_default\<close> of the configuration of a collective, where the context has one.\<close>

definition ucg_planc_ucx_get_plan_policy ::
    "(ucg_coll_type \<Rightarrow> bool option) \<Rightarrow> ucg_coll_type \<Rightarrow> ucg_planc_ucx_node_level \<Rightarrow> ucg_planc_ucx_ppn_level \<Rightarrow> ucg_plan_policy list option" where
  "ucg_planc_ucx_get_plan_policy config coll_type node_level ppn_level =
     (if coll_type = UCG_COLL_TYPE_BCAST \<or> coll_type = UCG_COLL_TYPE_IBCAST
      then Some (ucg_planc_ucx_get_bcast_plan_policy (config UCG_COLL_TYPE_BCAST) node_level ppn_level)
      else if coll_type = UCG_COLL_TYPE_ALLREDUCE \<or> coll_type = UCG_COLL_TYPE_IALLREDUCE
      then Some (ucg_planc_ucx_get_allreduce_plan_policy (config UCG_COLL_TYPE_ALLREDUCE) node_level ppn_level)
      else if coll_type = UCG_COLL_TYPE_BARRIER \<or> coll_type = UCG_COLL_TYPE_IBARRIER
      then Some (ucg_planc_ucx_get_barrier_plan_policy node_level ppn_level)
      else if coll_type = UCG_COLL_TYPE_SCATTERV \<or> coll_type = UCG_COLL_TYPE_ISCATTERV
      then Some (ucg_planc_ucx_get_scatterv_plan_policy node_level ppn_level)
      else if coll_type = UCG_COLL_TYPE_GATHERV \<or> coll_type = UCG_COLL_TYPE_IGATHERV
      then Some (ucg_planc_ucx_get_gatherv_plan_policy node_level ppn_level)
      else if coll_type = UCG_COLL_TYPE_ALLGATHERV \<or> coll_type = UCG_COLL_TYPE_IALLGATHERV
      then Some (ucg_planc_ucx_get_allgatherv_plan_policy (config UCG_COLL_TYPE_ALLGATHERV) node_level ppn_level)
      else if coll_type = UCG_COLL_TYPE_REDUCE \<or> coll_type = UCG_COLL_TYPE_IREDUCE
      then Some (ucg_planc_ucx_get_reduce_plan_policy node_level ppn_level)
      else None)"

fun ucg_planc_ucx_coll_nonblock_2_block :: "ucg_coll_type \<Rightarrow> ucg_coll_type" where
  "ucg_planc_ucx_coll_nonblock_2_block UCG_COLL_TYPE_IBCAST = UCG_COLL_TYPE_BCAST"
| "ucg_planc_ucx_coll_nonblock_2_block UCG_COLL_TYPE_IALLREDUCE = UCG_COLL_TYPE_ALLREDUCE"
| "ucg_planc_ucx_coll_nonblock_2_block UCG_COLL_TYPE_IBARRIER = UCG_COLL_TYPE_BARRIER"
| "ucg_planc_ucx_coll_nonblock_2_block UCG_COLL_TYPE_ISCATTERV = UCG_COLL_TYPE_SCATTERV"
| "ucg_planc_ucx_coll_nonblock_2_block UCG_COLL_TYPE_IGATHERV = UCG_COLL_TYPE_GATHERV"
| "ucg_planc_ucx_coll_nonblock_2_block UCG_COLL_TYPE_IALLGATHERV = UCG_COLL_TYPE_ALLGATHERV"
| "ucg_planc_ucx_coll_nonblock_2_block UCG_COLL_TYPE_IREDUCE = UCG_COLL_TYPE_REDUCE"
| "ucg_planc_ucx_coll_nonblock_2_block coll = coll"

text \<open>\<open>ucg_planc_ucx_plan_attr_table\<close>, as the static initialisers of the algorithm files fill it.\<close>

definition ucg_planc_ucx_plan_attr_table :: "(string \<Rightarrow> nat) \<Rightarrow> ucg_coll_type \<Rightarrow> ucg_plan_attr list option" where
  "ucg_planc_ucx_plan_attr_table fn =
     [UCG_COLL_TYPE_BARRIER \<mapsto> ucg_planc_ucx_barrier_plan_attr fn, UCG_COLL_TYPE_BCAST \<mapsto> ucg_planc_ucx_bcast_plan_attr fn,
      UCG_COLL_TYPE_ALLREDUCE \<mapsto> ucg_planc_ucx_allreduce_plan_attr fn, UCG_COLL_TYPE_ALLGATHERV \<mapsto> ucg_planc_ucx_allgatherv_plan_attr fn,
      UCG_COLL_TYPE_GATHERV \<mapsto> ucg_planc_ucx_gatherv_plan_attr fn, UCG_COLL_TYPE_SCATTERV \<mapsto> ucg_planc_ucx_scatterv_plan_attr fn,
      UCG_COLL_TYPE_REDUCE \<mapsto> ucg_planc_ucx_reduce_plan_attr fn]"

subsection \<open>Registering\<close>

text \<open>An entry without a \<open>prepare\<close> routine ends a table.\<close>

fun plan_attr_by_id :: "c_int \<Rightarrow> ucg_plan_attr list \<Rightarrow> ucg_plan_attr option" where
  "plan_attr_by_id i [] = None"
| "plan_attr_by_id i (a # as) = (if pa_prepare a = None then None else if pa_id a = i then Some a else plan_attr_by_id i as)"

definition ucg_planc_ucx_set_plan_attr ::
    "(ucg_coll_type \<Rightarrow> ucg_plan_attr list option) \<Rightarrow> nat \<Rightarrow> ucg_coll_type \<Rightarrow> ucg_plan_policy \<Rightarrow> ucg_plan_attr \<Rightarrow> ucg_status \<times> ucg_plan_attr" where
  "ucg_planc_ucx_set_plan_attr table vgroup coll_type policy attr =
     (let attr = attr\<lparr>pa_id := po_id policy, pa_range := po_range policy, pa_score := po_score policy, pa_vgroup := vgroup\<rparr>
      in case table (ucg_planc_ucx_coll_nonblock_2_block coll_type) of
           None \<Rightarrow> (UCG_ERR_NOT_FOUND, attr)
         | Some entries \<Rightarrow>
             (case plan_attr_by_id (pa_id attr) entries of
                None \<Rightarrow> (UCG_ERR_NOT_FOUND, attr)
              | Some a \<Rightarrow>
                  (UCG_OK, attr\<lparr>pa_prepare := pa_prepare a, pa_name := pa_name a, pa_domain := pa_domain a, pa_deprecated := pa_deprecated a\<rparr>)))"

text \<open>The loop over the policies of a collective; \<open>attr\<close> is \<open>params.attr\<close>, which the iterations share.\<close>

fun ucx_add_policies ::
    "(ucg_coll_type \<Rightarrow> ucg_plan_attr list option) \<Rightarrow> nat \<Rightarrow> ucg_coll_type \<Rightarrow> ucg_plan_policy list \<Rightarrow> ucg_plan_attr \<Rightarrow> ucg_plans \<Rightarrow> ucg_heap \<Rightarrow>
     ucg_status \<times> ucg_plan_attr \<times> ucg_plans \<times> ucg_heap" where
  "ucx_add_policies table vgroup coll_type [] attr plans h = (UCG_OK, attr, plans, h)"
| "ucx_add_policies table vgroup coll_type (policy # policies) attr plans h =
     (if po_id policy = UCG_PLAN_INVALID_POLICY_ID then (UCG_OK, attr, plans, h)
      else case ucg_planc_ucx_set_plan_attr table vgroup coll_type policy attr of
        (status, attr) \<Rightarrow>
          if status \<noteq> UCG_OK then ucx_add_policies table vgroup coll_type policies attr plans h
          else case ucg_plans_add plans \<lparr>pp_mem_type = UCG_MEM_TYPE_HOST, pp_coll_type = coll_type, pp_attr = attr\<rparr> h of
            (status, plans, h) \<Rightarrow>
              if status \<noteq> UCG_OK then (status, attr, plans, h)
              else ucx_add_policies table vgroup coll_type policies attr plans h)"

text \<open>The loop over the collectives; a collective without policies is left out.\<close>

fun ucx_add_colls ::
    "(ucg_coll_type \<Rightarrow> ucg_plan_attr list option) \<Rightarrow> nat \<Rightarrow> (ucg_coll_type \<Rightarrow> ucg_plan_policy list option) \<Rightarrow> ucg_coll_type list \<Rightarrow>
     ucg_plan_attr \<Rightarrow> ucg_plans \<Rightarrow> ucg_heap \<Rightarrow> ucg_status \<times> ucg_plans \<times> ucg_heap" where
  "ucx_add_colls table vgroup policy_of [] attr plans h = (UCG_OK, plans, h)"
| "ucx_add_colls table vgroup policy_of (coll_type # rest) attr plans h =
     (case policy_of coll_type of
        None \<Rightarrow> ucx_add_colls table vgroup policy_of rest attr plans h
      | Some policies \<Rightarrow>
          (case ucx_add_policies table vgroup coll_type policies attr plans h of
             (status, attr, plans, h) \<Rightarrow>
               if status \<noteq> UCG_OK then (status, plans, h) else ucx_add_colls table vgroup policy_of rest attr plans h))"

text \<open>
  What the routines read of the group and its context: the number of nodes and the size, which C divides without sign, the
  configuration, and the policies of the user.  \<open>xg_attr\<close> is what \<open>params\<close> holds before it is set.
\<close>

record ucx_plan_group =
  xg_vgroup :: nat
  xg_nnode :: c_int
  xg_size :: u32
  xg_config :: "ucg_coll_type \<Rightarrow> bool option"
  xg_user_policy :: "ucg_coll_type \<Rightarrow> ucg_plan_policy list"
  xg_attr :: ucg_plan_attr

definition ucg_planc_ucx_add_default_plans ::
    "(string \<Rightarrow> nat) \<Rightarrow> ucx_plan_group \<Rightarrow> ucg_plans \<Rightarrow> ucg_heap \<Rightarrow> (ucg_status \<times> ucg_plans \<times> ucg_heap) option" where
  "ucg_planc_ucx_add_default_plans fn g plans h =
     (let nnode = xg_nnode g; ave_ppn = (if nnode = 0 then UCG_TOPO_PPX_UNKNOWN else sint (xg_size g div word_of_int nnode))
      in do { node_level \<leftarrow> ucg_planc_ucx_get_node_level nnode;
              ppn_level \<leftarrow> ucg_planc_ucx_get_ppn_level ave_ppn;
              Some (ucx_add_colls (ucg_planc_ucx_plan_attr_table fn) (xg_vgroup g)
                (\<lambda>coll_type. ucg_planc_ucx_get_plan_policy (xg_config g) coll_type node_level ppn_level) ucg_coll_types (xg_attr g) plans h) })"

definition ucg_planc_ucx_add_user_plans ::
    "(string \<Rightarrow> nat) \<Rightarrow> ucx_plan_group \<Rightarrow> ucg_plans \<Rightarrow> ucg_heap \<Rightarrow> ucg_status \<times> ucg_plans \<times> ucg_heap" where
  "ucg_planc_ucx_add_user_plans fn g plans h =
     ucx_add_colls (ucg_planc_ucx_plan_attr_table fn) (xg_vgroup g) (\<lambda>coll_type. Some (xg_user_policy g coll_type)) ucg_coll_types (xg_attr g) plans h"

definition ucg_planc_ucx_get_builtin_plans ::
    "(string \<Rightarrow> nat) \<Rightarrow> ucx_plan_group \<Rightarrow> ucg_plans \<Rightarrow> ucg_heap \<Rightarrow> (ucg_status \<times> ucg_plans \<times> ucg_heap) option" where
  "ucg_planc_ucx_get_builtin_plans fn g plans h =
     do { (status, plans, h) \<leftarrow> ucg_planc_ucx_add_default_plans fn g plans h;
          Some (if status \<noteq> UCG_OK then (status, plans, h) else ucg_planc_ucx_add_user_plans fn g plans h) }"

text \<open>The modules in the order of the context; the first error ends the loop.\<close>

fun planm_get_plans :: "(ucg_plans \<Rightarrow> ucg_heap \<Rightarrow> ucg_status \<times> ucg_plans \<times> ucg_heap) list \<Rightarrow> ucg_plans \<Rightarrow> ucg_heap \<Rightarrow> ucg_status \<times> ucg_plans \<times> ucg_heap" where
  "planm_get_plans [] plans h = (UCG_OK, plans, h)"
| "planm_get_plans (get_plans # planms) plans h =
     (case get_plans plans h of
        (status, plans, h) \<Rightarrow> if status \<noteq> UCG_OK then (status, plans, h) else planm_get_plans planms plans h)"

definition ucg_planc_ucx_get_plans ::
    "(string \<Rightarrow> nat) \<Rightarrow> ucx_plan_group \<Rightarrow> (ucg_plans \<Rightarrow> ucg_heap \<Rightarrow> ucg_status \<times> ucg_plans \<times> ucg_heap) list \<Rightarrow> ucg_plans \<Rightarrow> ucg_heap \<Rightarrow>
     (ucg_status \<times> ucg_plans \<times> ucg_heap) option" where
  "ucg_planc_ucx_get_plans fn g planms plans h =
     do { (status, plans, h) \<leftarrow> ucg_planc_ucx_get_builtin_plans fn g plans h;
          Some (if status \<noteq> UCG_OK then (status, plans, h) else planm_get_plans planms plans h) }"

end
