(* ===== verification/Ucx_Plans_Spec.thy ===== *)
theory Ucx_Plans_Spec
  imports Ucx_Plans Plan_Store
begin

text \<open>What the policies give: every message size of every collective the component supports has a plan.\<close>

subsection \<open>Levels\<close>

lemma log2_n_small: "n < 4 \<Longrightarrow> log2_n n 4 = Some 0"
  by (subst log2_n.simps) simp

lemma log2_n_power: "4 * 2 ^ k \<le> n \<Longrightarrow> n < 8 * 2 ^ k \<Longrightarrow> log2_n n 4 = Some (int k + 1)"
proof (induction k arbitrary: n)
  case 0
  then have "log2_n (n div 2) 4 = Some 0" by (intro log2_n_small) simp
  then show ?case using 0 by (subst log2_n.simps) simp
next
  case (Suc k)
  then have "4 * 2 ^ k \<le> n div 2" "n div 2 < 8 * 2 ^ k" by auto
  moreover have "4 \<le> n" using Suc.prems(1) one_le_power [of "2 :: int" "Suc k"] by simp
  ultimately show ?case using Suc.IH [of "n div 2"] by (subst log2_n.simps) simp
qed

lemma node_level:
  "ucg_planc_ucx_get_node_level n =
     Some (if n \<le> 4 then NODE_LEVEL_4 else if n \<le> 8 then NODE_LEVEL_8 else if n \<le> 16 then NODE_LEVEL_16 else NODE_LEVEL_LG)"
proof -
  consider "n \<le> 4" | "4 < n" "n \<le> 8" | "8 < n" "n \<le> 16" | "16 < n" by linarith
  then show ?thesis
  proof cases
    case 2
    then show ?thesis using log2_n_power [of 0 "n - 1"] by (simp add: ucg_planc_ucx_get_node_level_def level_defs)
  next
    case 3
    then show ?thesis using log2_n_power [of 1 "n - 1"] by (simp add: ucg_planc_ucx_get_node_level_def level_defs)
  qed (simp_all add: ucg_planc_ucx_get_node_level_def)
qed

lemma ppn_level:
  "ucg_planc_ucx_get_ppn_level ppn =
     Some (if ppn = 1 then PPN_LEVEL_1 else if ppn < 8 then PPN_LEVEL_4 else if ppn < 16 then PPN_LEVEL_8
           else if ppn < 32 then PPN_LEVEL_16 else if ppn < 64 then PPN_LEVEL_32 else if ppn = 64 then PPN_LEVEL_64 else PPN_LEVEL_LG)"
proof -
  consider "ppn \<le> 4" | "5 \<le> ppn" "ppn < 8" | "8 \<le> ppn" "ppn < 16" | "16 \<le> ppn" "ppn < 32" | "32 \<le> ppn" "ppn < 64" | "ppn = 64" | "64 < ppn"
    by linarith
  then show ?thesis
    using log2_n_power [of 0 ppn] log2_n_power [of 1 ppn] log2_n_power [of 2 ppn] log2_n_power [of 3 ppn] log2_n_power [of 4 64]
    by cases (simp_all add: ucg_planc_ucx_get_ppn_level_def level_defs)
qed

text \<open>
  The number of nodes gets the level its enumerator is commented with (1 to 4, 5 to 8, 9 to 16, more), but the number of
  processes per node is rounded down to a power of two: 5, 6 and 7 get the level that is commented as 2 to 4, and 33 to 63 that of
  17 to 32.
\<close>

theorem ppn_level_rounds_down:
  "ucg_planc_ucx_get_node_level n =
     Some (if n \<le> 4 then NODE_LEVEL_4 else if n \<le> 8 then NODE_LEVEL_8 else if n \<le> 16 then NODE_LEVEL_16 else NODE_LEVEL_LG) \<and>
   ucg_planc_ucx_get_ppn_level ppn =
     Some (if ppn = 1 then PPN_LEVEL_1 else if ppn < 8 then PPN_LEVEL_4 else if ppn < 16 then PPN_LEVEL_8
           else if ppn < 32 then PPN_LEVEL_16 else if ppn < 64 then PPN_LEVEL_32 else if ppn = 64 then PPN_LEVEL_64 else PPN_LEVEL_LG)"
  by (simp only: node_level ppn_level)

lemma levels_bounded:
  "ucg_planc_ucx_get_node_level n = Some a \<Longrightarrow> ucg_planc_ucx_get_ppn_level p = Some b \<Longrightarrow> policy_idx a b < 28"
  by (auto simp: node_level ppn_level policy_idx_def level_defs split: if_splits)

subsection \<open>The tables\<close>

text \<open>From size \<open>a\<close> on the policies follow each other without a gap, and their algorithms exist.\<close>

fun gapless :: "c_int list \<Rightarrow> u64 \<Rightarrow> ucg_plan_policy list \<Rightarrow> bool" where
  "gapless ids a [] \<longleftrightarrow> a = UCG_PLAN_RANGE_MAX"
| "gapless ids a (p # ps) \<longleftrightarrow>
     a = UCG_PLAN_RANGE_MAX \<or> rg_start (po_range p) = a \<and> po_id p \<in> set ids \<and> gapless ids (rg_end (po_range p)) ps"

fun policies_ok :: "ucg_plan_policy list \<Rightarrow> bool" where
  "policies_ok [] \<longleftrightarrow> False"
| "policies_ok (p # ps) \<longleftrightarrow> po_id p = UCG_PLAN_INVALID_POLICY_ID \<or> rg_start (po_range p) < rg_end (po_range p) \<and> policies_ok ps"

lemma barrier_gapless: "list_all (\<lambda>ps. gapless [1, 2, 6, 7] 0 ps \<and> policies_ok ps) barrier_plan_policy"
  by code_simp

lemma bcast_gapless: "list_all (\<lambda>ps. gapless [1, 2, 4, 8, 10] 0 ps \<and> policies_ok ps) bcast_plan_policy_default"
  by code_simp

lemma allreduce_gapless: "list_all (\<lambda>ps. gapless [1, 2, 3, 4, 5, 6, 7, 8, 12, 13, 14] 0 ps \<and> policies_ok ps) allreduce_plan_policy_default"
  by code_simp

lemma allgatherv_gapless: "list_all (\<lambda>ps. gapless [1, 2, 3, 4, 5, 6] 0 ps \<and> policies_ok ps) allgatherv_plan_policy_default"
  by code_simp

lemma rest_gapless:
  "list_all (\<lambda>ps. gapless [1] 0 ps \<and> policies_ok ps) [gatherv_plan_policy, scatterv_plan_policy, reduce_plan_policy]"
  by code_simp

lemma gapless_covers:
  assumes "gapless ids a ps" and "a \<le> m" and "m < UCG_PLAN_RANGE_MAX" and "UCG_PLAN_INVALID_POLICY_ID \<notin> set ids"
  obtains p where "p \<in> set (takeWhile (\<lambda>p. po_id p \<noteq> UCG_PLAN_INVALID_POLICY_ID) ps)" and "po_id p \<in> set ids"
    and "rg_start (po_range p) \<le> m" and "m < rg_end (po_range p)"
  using assms
proof (induction ps arbitrary: a thesis)
  case (Cons p ps)
  have p: "rg_start (po_range p) = a" "po_id p \<in> set ids" "gapless ids (rg_end (po_range p)) ps"
    using Cons.prems(2-4) by auto
  then have id: "po_id p \<noteq> UCG_PLAN_INVALID_POLICY_ID" using Cons.prems(5) by auto
  show ?case
  proof (cases "m < rg_end (po_range p)")
    case True
    show ?thesis by (rule Cons.prems(1) [of p]) (use True Cons.prems(3) p id in simp_all)
  next
    case False
    show ?thesis
      by (rule Cons.IH [OF _ p(3)]) (use Cons.prems False id in auto)
  qed
qed auto

subsection \<open>Registering\<close>

text \<open>What the policies of a collective add to the view of the container.\<close>

definition policy_contrib ::
    "(ucg_coll_type \<Rightarrow> ucg_plan_attr list option) \<Rightarrow> nat \<Rightarrow> ucg_coll_type \<Rightarrow> ucg_plan_policy \<Rightarrow> ucg_coll_type \<times> ucg_mem_type \<Rightarrow> u64 \<Rightarrow> plan_key multiset" where
  "policy_contrib table vgroup coll_type p slot m =
     (case Option.bind (table (ucg_planc_ucx_coll_nonblock_2_block coll_type)) (plan_attr_by_id (po_id p)) of
        None \<Rightarrow> {#}
      | Some a \<Rightarrow>
          if \<not> pa_deprecated a \<and> slot = (coll_type, UCG_MEM_TYPE_HOST) \<and> rg_start (po_range p) \<le> m \<and> m < rg_end (po_range p)
          then {#(pa_prepare a, vgroup, po_score p)#} else {#})"

definition policies_contrib ::
    "(ucg_coll_type \<Rightarrow> ucg_plan_attr list option) \<Rightarrow> nat \<Rightarrow> ucg_coll_type \<Rightarrow> ucg_plan_policy list \<Rightarrow> ucg_coll_type \<times> ucg_mem_type \<Rightarrow> u64 \<Rightarrow> plan_key multiset" where
  "policies_contrib table vgroup coll_type ps slot m =
     (\<Sum>p \<leftarrow> takeWhile (\<lambda>p. po_id p \<noteq> UCG_PLAN_INVALID_POLICY_ID) ps. policy_contrib table vgroup coll_type p slot m)"

definition named_table :: "(ucg_coll_type \<Rightarrow> ucg_plan_attr list option) \<Rightarrow> bool" where
  "named_table table \<longleftrightarrow> (\<forall>ct entries a. table ct = Some entries \<longrightarrow> a \<in> set entries \<longrightarrow> pa_name a \<noteq> None \<and> pa_domain a \<noteq> None)"

lemma plan_attr_by_id: "plan_attr_by_id i as = Some a \<Longrightarrow> a \<in> set as \<and> pa_prepare a \<noteq> None \<and> pa_id a = i"
  by (induction as) (auto split: if_splits)

lemma set_plan_attr_cases:
  assumes "ucg_planc_ucx_set_plan_attr table vgroup ct p attr = (st, attr')"
  obtains "st = UCG_ERR_NOT_FOUND" and "Option.bind (table (ucg_planc_ucx_coll_nonblock_2_block ct)) (plan_attr_by_id (po_id p)) = None"
    | entries a where "st = UCG_OK" and "table (ucg_planc_ucx_coll_nonblock_2_block ct) = Some entries"
      and "plan_attr_by_id (po_id p) entries = Some a"
      and "attr' = a\<lparr>pa_id := po_id p, pa_range := po_range p, pa_score := po_score p, pa_vgroup := vgroup\<rparr>"
  using assms by (auto simp: ucg_planc_ucx_set_plan_attr_def Let_def split: option.splits)

lemma add_policies_view:
  assumes "named_table table" and "ct \<noteq> UCG_COLL_TYPE_LAST"
  shows "policies_ok ps \<Longrightarrow> store_wf plans \<Longrightarrow> h_outcomes h = [] \<Longrightarrow>
    ucx_add_policies table vgroup ct ps attr plans h = (st, attr', plans', h') \<Longrightarrow>
    st = UCG_OK \<and> store_wf plans' \<and> h_outcomes h' = [] \<and>
    (\<forall>slot m. store_view plans' slot m = store_view plans slot m + policies_contrib table vgroup ct ps slot m)"
proof (induction ps arbitrary: attr plans h)
  case (Cons p ps)
  show ?case
  proof (cases "po_id p = UCG_PLAN_INVALID_POLICY_ID")
    case True
    then show ?thesis using Cons.prems by (simp add: policies_contrib_def)
  next
    case False
    then have ok: "rg_start (po_range p) < rg_end (po_range p)" "policies_ok ps" using Cons.prems(1) by simp_all
    obtain st1 attr1 where a: "ucg_planc_ucx_set_plan_attr table vgroup ct p attr = (st1, attr1)" by fastforce
    then show ?thesis
    proof (cases rule: set_plan_attr_cases)
      case 1
      then have "policies_contrib table vgroup ct (p # ps) = policies_contrib table vgroup ct ps"
        using False by (intro ext) (simp add: policies_contrib_def policy_contrib_def)
      then show ?thesis using Cons.IH [OF ok(2) Cons.prems(2,3), of attr1] Cons.prems(4) a 1 False by simp
    next
      case (2 entries e)
      let ?params = "\<lparr>pp_mem_type = UCG_MEM_TYPE_HOST, pp_coll_type = ct, pp_attr = attr1\<rparr>"
      obtain st2 plans2 h2 where b: "ucg_plans_add plans ?params h = (st2, plans2, h2)" by (rule prod_cases3)
      note e = plan_attr_by_id [OF 2(3)]
      have "pa_name e \<noteq> None \<and> pa_domain e \<noteq> None" using assms(1) 2(2) e unfolding named_table_def by blast
      then have st2: "st2 = UCG_OK" "h_outcomes h2 = []"
        using plans_add_status [OF b Cons.prems(3)] assms(2) ok(1) e 2(4) by (simp_all add: not_le)
      have view: "store_view plans2 slot m = store_view plans slot m + policy_contrib table vgroup ct p slot m" for slot m
        using registry.add_view [OF Cons.prems(2) b] st2(1) 2
        by (simp add: params_contrib_def policy_contrib_def attr_key_def)
      have "policies_contrib table vgroup ct (p # ps) slot m = policy_contrib table vgroup ct p slot m + policies_contrib table vgroup ct ps slot m" for slot m
        using False by (simp add: policies_contrib_def)
      then show ?thesis
        using Cons.IH [OF ok(2) registry.add_wf [OF Cons.prems(2) b] st2(2), of attr1] Cons.prems(4) a b 2(1) st2(1) False view
        by (simp add: add.assoc)
    qed
  qed
qed simp

lemma add_colls_view:
  assumes "named_table table" and "\<And>ct ps. policy_of ct = Some ps \<Longrightarrow> policies_ok ps"
  shows "UCG_COLL_TYPE_LAST \<notin> set cts \<Longrightarrow> store_wf plans \<Longrightarrow> h_outcomes h = [] \<Longrightarrow>
    ucx_add_colls table vgroup policy_of cts attr plans h = (st, plans', h') \<Longrightarrow>
    st = UCG_OK \<and> store_wf plans' \<and> h_outcomes h' = [] \<and>
    (\<forall>slot m. store_view plans' slot m = store_view plans slot m +
       (\<Sum>ct \<leftarrow> cts. case policy_of ct of None \<Rightarrow> {#} | Some ps \<Rightarrow> policies_contrib table vgroup ct ps slot m))"
proof (induction cts arbitrary: attr plans h)
  case (Cons ct cts)
  show ?case
  proof (cases "policy_of ct")
    case None
    then show ?thesis using Cons by simp
  next
    case (Some ps)
    obtain st1 attr1 plans1 h1 where a: "ucx_add_policies table vgroup ct ps attr plans h = (st1, attr1, plans1, h1)" by (rule prod_cases4)
    have "ct \<noteq> UCG_COLL_TYPE_LAST" using Cons.prems(1) by auto
    note v = add_policies_view [OF assms(1) this assms(2) [OF Some] Cons.prems(2,3) a]
    have "ucx_add_colls table vgroup policy_of cts attr1 plans1 h1 = (st, plans', h')" using Cons.prems(4) Some a v by simp
    from Cons.IH [OF _ _ _ this] v Cons.prems(1) Some show ?thesis by (simp add: add.assoc)
  qed
qed simp

subsection \<open>All collectives\<close>

lemma sum_list_member: "x \<in> set xs \<Longrightarrow> f x \<subseteq># (\<Sum>x \<leftarrow> xs. f x :: 'a multiset)"
  by (induction xs) (auto intro: subset_mset.add_increasing subset_mset.add_increasing2)

text \<open>The collectives the component has algorithms for, and the configurations that do not switch the default policies off.\<close>

definition ucx_supported :: "ucg_coll_type \<Rightarrow> bool" where
  "ucx_supported ct \<longleftrightarrow> ct \<notin> {UCG_COLL_TYPE_ALLTOALLV, UCG_COLL_TYPE_IALLTOALLV, UCG_COLL_TYPE_LAST}"

definition keeps_default :: "(ucg_coll_type \<Rightarrow> bool option) \<Rightarrow> bool" where
  "keeps_default config \<longleftrightarrow> (\<forall>ct. config ct \<noteq> Some False)"

lemma named_ucx_table: "named_table (ucg_planc_ucx_plan_attr_table fn)"
  by (auto simp: named_table_def ucg_planc_ucx_plan_attr_table_def ucx_plan_attr_def ucg_planc_ucx_barrier_plan_attr_def
      ucg_planc_ucx_bcast_plan_attr_def ucg_planc_ucx_allreduce_plan_attr_def ucg_planc_ucx_allgatherv_plan_attr_def
      ucg_planc_ucx_gatherv_plan_attr_def ucg_planc_ucx_scatterv_plan_attr_def ucg_planc_ucx_reduce_plan_attr_def split: if_splits)

text \<open>The algorithms that the policies name.\<close>

fun ucx_ids :: "ucg_coll_type \<Rightarrow> c_int list" where
  "ucx_ids UCG_COLL_TYPE_BARRIER = [1, 2, 6, 7]"
| "ucx_ids UCG_COLL_TYPE_BCAST = [1, 2, 4, 8, 10]"
| "ucx_ids UCG_COLL_TYPE_ALLREDUCE = [1, 2, 3, 4, 5, 6, 7, 8, 12, 13, 14]"
| "ucx_ids UCG_COLL_TYPE_ALLGATHERV = [1, 2, 3, 4, 5, 6]"
| "ucx_ids _ = [1]"

lemma ucx_ids_registered:
  assumes "ucx_supported ct" and "i \<in> set (ucx_ids (ucg_planc_ucx_coll_nonblock_2_block ct))"
  shows "\<exists>a. Option.bind (ucg_planc_ucx_plan_attr_table fn (ucg_planc_ucx_coll_nonblock_2_block ct)) (plan_attr_by_id i) = Some a \<and> \<not> pa_deprecated a"
  using assms
  by (cases ct) (auto simp: ucx_supported_def ucg_planc_ucx_plan_attr_table_def ucx_plan_attr_def ucg_planc_ucx_barrier_plan_attr_def
      ucg_planc_ucx_bcast_plan_attr_def ucg_planc_ucx_allreduce_plan_attr_def ucg_planc_ucx_allgatherv_plan_attr_def
      ucg_planc_ucx_gatherv_plan_attr_def ucg_planc_ucx_scatterv_plan_attr_def ucg_planc_ucx_reduce_plan_attr_def)

lemma tables_length:
  "length barrier_plan_policy = 28" "length bcast_plan_policy = 28" "length bcast_plan_policy_default = 28"
  "length allreduce_plan_policy = 28" "length allreduce_plan_policy_default = 28"
  "length allgatherv_plan_policy = 28" "length allgatherv_plan_policy_default = 28"
  by (simp_all add: barrier_plan_policy_def bcast_plan_policy_def bcast_plan_policy_default_def allreduce_plan_policy_def
    allreduce_plan_policy_default_def allgatherv_plan_policy_def allgatherv_plan_policy_default_def)

lemma other_policies_ok:
  "list_all policies_ok bcast_plan_policy" "list_all policies_ok allreduce_plan_policy" "list_all policies_ok allgatherv_plan_policy"
  by code_simp+

text \<open>Every policy array of the component is well-formed, and the default ones are without gaps.\<close>

lemma ucx_policy_ok:
  assumes "policy_idx a b < 28" and "ucg_planc_ucx_get_plan_policy config ct a b = Some ps"
  shows "policies_ok ps" and "keeps_default config \<Longrightarrow> gapless (ucx_ids (ucg_planc_ucx_coll_nonblock_2_block ct)) 0 ps"
proof -
  have nth: "P (xs ! policy_idx a b)" if "list_all P xs" "length xs = 28" for P and xs :: "ucg_plan_policy list list"
    using that assms(1) by (simp add: list_all_length)
  note all = nth [OF barrier_gapless tables_length(1)] nth [OF bcast_gapless tables_length(3)] nth [OF allreduce_gapless tables_length(5)]
    nth [OF allgatherv_gapless tables_length(7)] nth [OF other_policies_ok(1) tables_length(2)] nth [OF other_policies_ok(2) tables_length(4)]
    nth [OF other_policies_ok(3) tables_length(6)] rest_gapless
  note gets = ucg_planc_ucx_get_barrier_plan_policy_def ucg_planc_ucx_get_bcast_plan_policy_def ucg_planc_ucx_get_allreduce_plan_policy_def
    ucg_planc_ucx_get_allgatherv_plan_policy_def ucg_planc_ucx_get_gatherv_plan_policy_def ucg_planc_ucx_get_scatterv_plan_policy_def
    ucg_planc_ucx_get_reduce_plan_policy_def ucg_planc_ucx_get_plan_policy_def
  show "policies_ok ps" using assms(2) all by (cases ct) (auto simp: gets split: option.splits if_splits)
  assume "keeps_default config"
  then show "gapless (ucx_ids (ucg_planc_ucx_coll_nonblock_2_block ct)) 0 ps"
    using assms(2) all by (cases ct) (auto simp: gets keeps_default_def split: option.splits if_splits)
qed

lemma ucx_contrib:
  assumes "gapless (ucx_ids (ucg_planc_ucx_coll_nonblock_2_block ct)) 0 ps" and "ucx_supported ct" and "m < UCG_PLAN_RANGE_MAX"
  shows "policies_contrib (ucg_planc_ucx_plan_attr_table fn) vgroup ct ps (ct, UCG_MEM_TYPE_HOST) m \<noteq> {#}"
proof -
  let ?ids = "ucx_ids (ucg_planc_ucx_coll_nonblock_2_block ct)"
  have "UCG_PLAN_INVALID_POLICY_ID \<notin> set ?ids"
    by (cases "ucg_planc_ucx_coll_nonblock_2_block ct") (simp_all add: UCG_PLAN_INVALID_POLICY_ID_def)
  then obtain p where p: "p \<in> set (takeWhile (\<lambda>p. po_id p \<noteq> UCG_PLAN_INVALID_POLICY_ID) ps)" "po_id p \<in> set ?ids"
    "rg_start (po_range p) \<le> m" "m < rg_end (po_range p)"
    using gapless_covers [OF assms(1) _ assms(3)] by (metis word_zero_le)
  obtain a where "Option.bind (ucg_planc_ucx_plan_attr_table fn (ucg_planc_ucx_coll_nonblock_2_block ct)) (plan_attr_by_id (po_id p)) = Some a"
    "\<not> pa_deprecated a" using ucx_ids_registered [OF assms(2) p(2)] by blast
  then have "policy_contrib (ucg_planc_ucx_plan_attr_table fn) vgroup ct p (ct, UCG_MEM_TYPE_HOST) m \<noteq> {#}"
    using p(3,4) by (simp add: policy_contrib_def)
  then show ?thesis
    using sum_list_member [OF p(1), of "\<lambda>p. policy_contrib (ucg_planc_ucx_plan_attr_table fn) vgroup ct p (ct, UCG_MEM_TYPE_HOST) m"]
    by (auto simp: policies_contrib_def)
qed

text \<open>
  C10: as long as memory lasts, registering the default policies succeeds on any number of nodes and processes and keeps the plans
  that are there; and then every message size of every collective the component supports, blocking or not, has a plan, unless the
  configuration has switched the default policies off.
\<close>

theorem ucx_every_size_has_plan:
  assumes "store_wf plans" and "h_outcomes h = []"
  shows "\<exists>plans' h'. ucg_planc_ucx_add_default_plans fn g plans h = Some (UCG_OK, plans', h') \<and> store_wf plans' \<and>
    (\<forall>slot m. store_view plans slot m \<subseteq># store_view plans' slot m) \<and>
    (keeps_default (xg_config g) \<longrightarrow>
      (\<forall>ct m. ucx_supported ct \<longrightarrow> m < UCG_PLAN_RANGE_MAX \<longrightarrow> store_view plans' (ct, UCG_MEM_TYPE_HOST) m \<noteq> {#}))"
proof -
  obtain a where a: "ucg_planc_ucx_get_node_level (xg_nnode g) = Some a" using node_level by blast
  let ?ppn = "if xg_nnode g = 0 then UCG_TOPO_PPX_UNKNOWN else sint (xg_size g div word_of_int (xg_nnode g))"
  obtain b where b: "ucg_planc_ucx_get_ppn_level ?ppn = Some b" using ppn_level by blast
  have idx: "policy_idx a b < 28" by (rule levels_bounded [OF a b])
  let ?policy = "\<lambda>ct. ucg_planc_ucx_get_plan_policy (xg_config g) ct a b" and ?table = "ucg_planc_ucx_plan_attr_table fn"
  obtain st plans' h' where r: "ucx_add_colls ?table (xg_vgroup g) ?policy ucg_coll_types (xg_attr g) plans h = (st, plans', h')"
    by (rule prod_cases3)
  have eq: "ucg_planc_ucx_add_default_plans fn g plans h = Some (st, plans', h')"
    using a b r by (simp add: ucg_planc_ucx_add_default_plans_def Let_def)
  let ?contrib = "\<lambda>slot m ct. case ?policy ct of None \<Rightarrow> {#} | Some ps \<Rightarrow> policies_contrib ?table (xg_vgroup g) ct ps slot m"
  have v: "st = UCG_OK" "store_wf plans'"
    "store_view plans' slot m = store_view plans slot m + (\<Sum>ct \<leftarrow> ucg_coll_types. ?contrib slot m ct)" for slot m
  proof -
    have ok: "policies_ok ps" if "?policy ct = Some ps" for ct ps by (rule ucx_policy_ok(1) [OF idx that])
    have "UCG_COLL_TYPE_LAST \<notin> set ucg_coll_types" by (simp add: set_ucg_coll_types)
    then have "st = UCG_OK \<and> store_wf plans' \<and> h_outcomes h' = [] \<and>
        (\<forall>slot m. store_view plans' slot m = store_view plans slot m + (\<Sum>ct \<leftarrow> ucg_coll_types. ?contrib slot m ct))"
      by (rule add_colls_view [OF named_ucx_table _ _ assms r, rotated]) (rule ok)
    then show "st = UCG_OK" "store_wf plans'" "store_view plans' slot m = store_view plans slot m + (\<Sum>ct \<leftarrow> ucg_coll_types. ?contrib slot m ct)"
      by (simp_all del: split_paired_All)
  qed
  have "store_view plans' (ct, UCG_MEM_TYPE_HOST) m \<noteq> {#}"
    if d: "keeps_default (xg_config g)" "ucx_supported ct" "m < UCG_PLAN_RANGE_MAX" for ct m
  proof -
    obtain ps where ps: "?policy ct = Some ps" using d(2) by (cases ct) (auto simp: ucg_planc_ucx_get_plan_policy_def ucx_supported_def)
    have "?contrib (ct, UCG_MEM_TYPE_HOST) m ct \<noteq> {#}" using ucx_contrib [OF ucx_policy_ok(2) [OF idx ps d(1)] d(2,3)] ps by simp
    moreover have "ct \<in> set ucg_coll_types" using d(2) by (simp add: set_ucg_coll_types ucx_supported_def)
    from sum_list_member [OF this, of "?contrib (ct, UCG_MEM_TYPE_HOST) m"]
    have "?contrib (ct, UCG_MEM_TYPE_HOST) m ct \<subseteq># (\<Sum>ct' \<leftarrow> ucg_coll_types. ?contrib (ct, UCG_MEM_TYPE_HOST) m ct')" .
    ultimately show ?thesis unfolding v(3) by auto
  qed
  then show ?thesis using eq v by (intro exI [where x = plans'] exI [where x = h']) simp
qed

text \<open>One node of 65 processes, first with the default policies, then with those of the broadcast switched off.\<close>

definition wide_group :: "(ucg_coll_type \<Rightarrow> bool option) \<Rightarrow> ucx_plan_group" where
  "wide_group config = \<lparr>xg_vgroup = 1, xg_nnode = 1, xg_size = 65, xg_config = config, xg_user_policy = (\<lambda>_. [UCG_PLAN_LAST_POLICY]),
     xg_attr = ucx_plan_attr (\<lambda>_. 0) [] ([], 0, [])\<rparr>"

lemma ucx_every_size_has_plan_witness:
  "\<exists>plans' h'. ucg_planc_ucx_add_default_plans length (wide_group (\<lambda>_. None)) (\<lambda>_. []) heap_fresh = Some (UCG_OK, plans', h') \<and>
     store_view plans' (UCG_COLL_TYPE_IBCAST, UCG_MEM_TYPE_HOST) 5 \<noteq> {#}"
proof -
  have "keeps_default (xg_config (wide_group (\<lambda>_. None)))" "ucx_supported UCG_COLL_TYPE_IBCAST" "5 < UCG_PLAN_RANGE_MAX"
    by (simp_all add: keeps_default_def wide_group_def ucx_supported_def UCG_PLAN_RANGE_MAX_def)
  then show ?thesis
    using ucx_every_size_has_plan [OF store_wf_empty, of heap_fresh length "wide_group (\<lambda>_. None)"] by (auto simp: heap_fresh_def)
qed

text \<open>Then there is no plan for a broadcast of less than 16384 bytes.\<close>

lemma bcast_not_default_gap:
  assumes "ucg_planc_ucx_add_default_plans fn (wide_group [UCG_COLL_TYPE_BCAST \<mapsto> False]) (\<lambda>_. []) heap_fresh = Some (st, plans', h')"
    and "m < 16384"
  shows "store_view plans' (UCG_COLL_TYPE_BCAST, UCG_MEM_TYPE_HOST) m = {#}"
proof -
  let ?config = "[UCG_COLL_TYPE_BCAST \<mapsto> False]" and ?table = "ucg_planc_ucx_plan_attr_table fn"
  let ?policy = "\<lambda>ct. ucg_planc_ucx_get_plan_policy ?config ct NODE_LEVEL_4 PPN_LEVEL_LG"
  have idx: "policy_idx NODE_LEVEL_4 PPN_LEVEL_LG = 6" by (simp add: policy_idx_def level_defs)
  have "sint (65 div 1 :: u32) = 65" by simp
  then have r: "ucx_add_colls ?table 1 ?policy ucg_coll_types (xg_attr (wide_group ?config)) (\<lambda>_. []) heap_fresh = (st, plans', h')"
    using assms(1) by (simp add: ucg_planc_ucx_add_default_plans_def Let_def wide_group_def node_level ppn_level)
  have ok: "policies_ok ps" if "?policy ct = Some ps" for ct ps by (rule ucx_policy_ok(1) [OF _ that]) (simp add: idx)
  have "UCG_COLL_TYPE_LAST \<notin> set ucg_coll_types" by (simp add: set_ucg_coll_types)
  then have "st = UCG_OK \<and> store_wf plans' \<and> h_outcomes h' = [] \<and>
      (\<forall>slot m. store_view plans' slot m = store_view (\<lambda>_. []) slot m +
        (\<Sum>ct \<leftarrow> ucg_coll_types. case ?policy ct of None \<Rightarrow> {#} | Some ps \<Rightarrow> policies_contrib ?table 1 ct ps slot m))"
    by (rule add_colls_view [OF named_ucx_table _ _ store_wf_empty _ r, rotated]) (simp_all add: heap_fresh_def ok)
  then have v: "store_view plans' (UCG_COLL_TYPE_BCAST, UCG_MEM_TYPE_HOST) m =
      (\<Sum>ct \<leftarrow> ucg_coll_types. case ?policy ct of None \<Rightarrow> {#} | Some ps \<Rightarrow> policies_contrib ?table 1 ct ps (UCG_COLL_TYPE_BCAST, UCG_MEM_TYPE_HOST) m)"
    by (simp add: store_view_def)
  have "policy_contrib ?table 1 ct p (UCG_COLL_TYPE_BCAST, UCG_MEM_TYPE_HOST) m = {#}" if "ct \<noteq> UCG_COLL_TYPE_BCAST" for ct p
    using that by (auto simp: policy_contrib_def split: option.splits)
  then have other: "policies_contrib ?table 1 ct ps (UCG_COLL_TYPE_BCAST, UCG_MEM_TYPE_HOST) m = {#}" if "ct \<noteq> UCG_COLL_TYPE_BCAST" for ct ps
    using that by (simp add: policies_contrib_def)
  have "?policy UCG_COLL_TYPE_BCAST = Some bcast_4_LG"
    by (simp add: ucg_planc_ucx_get_plan_policy_def ucg_planc_ucx_get_bcast_plan_policy_def idx bcast_plan_policy_def)
  moreover have "policies_contrib ?table 1 UCG_COLL_TYPE_BCAST bcast_4_LG (UCG_COLL_TYPE_BCAST, UCG_MEM_TYPE_HOST) m = {#}"
    using assms(2) by (auto simp: policies_contrib_def policy_contrib_def bcast_4_LG_def ucx_policy_def UCG_PLAN_LAST_POLICY_def
      UCG_PLAN_INVALID_POLICY_ID_def not_le split: option.splits)
  ultimately have "(case ?policy ct of None \<Rightarrow> {#} | Some ps \<Rightarrow> policies_contrib ?table 1 ct ps (UCG_COLL_TYPE_BCAST, UCG_MEM_TYPE_HOST) m) = {#}" for ct
    using other by (cases "ct = UCG_COLL_TYPE_BCAST") (auto split: option.split)
  then show ?thesis unfolding v by (simp only: sum_list_0)
qed

end
