(* ===== verification/Allreduce_Rd.thy ===== *)
theory Allreduce_Rd
  imports Allgatherv Barrier_Rd
begin

text \<open>
  The recursive doubling allreduce, \<open>src/src/planc/ucx/allreduce/allreduce_rd.c\<close>: a function of the same name for every
  function of the file.  What it shares with the barrier on the same iterator, moving on to the next peer and the next round,
  is in \<open>Barrier_Rd\<close>; its flags for the rounds have the same values there.  Names that the barrier uses for other values end
  in \<open>_ar\<close>.
\<close>

definition UCG_RD_BASE_FLAGS_ar :: u64 where "UCG_RD_BASE_FLAGS_ar = UCG_RD_BASE_SEND OR UCG_RD_BASE_RECV"
definition UCG_RD_PROXY_RECV_ar :: u64 where "UCG_RD_PROXY_RECV_ar = 0x4"
definition UCG_RD_PROXY_REDUCE :: u64 where "UCG_RD_PROXY_REDUCE = 0x8"
definition UCG_RD_PROXY_BASE_ar :: u64 where "UCG_RD_PROXY_BASE_ar = 0x10"
definition UCG_RD_PROXY_SEND_ar :: u64 where "UCG_RD_PROXY_SEND_ar = 0x20"
definition UCG_RD_EXTRA_SEND_ar :: u64 where "UCG_RD_EXTRA_SEND_ar = 0x40"
definition UCG_RD_EXTRA_RECV_ar :: u64 where "UCG_RD_EXTRA_RECV_ar = 0x80"

definition UCG_RD_PROXY_FLAGS_ar :: u64 where
  "UCG_RD_PROXY_FLAGS_ar = UCG_RD_PROXY_RECV_ar OR UCG_RD_PROXY_REDUCE OR UCG_RD_PROXY_BASE_ar OR UCG_RD_PROXY_SEND_ar"

definition UCG_RD_EXTRA_FLAGS_ar :: u64 where "UCG_RD_EXTRA_FLAGS_ar = UCG_RD_EXTRA_SEND_ar OR UCG_RD_EXTRA_RECV_ar"

subsection \<open>Messages and reductions\<close>

text \<open>All buffers have the count and the datatype of the arguments.\<close>

definition ard_isend :: "'w coll_env \<Rightarrow> c_ptr \<Rightarrow> ucg_rank_t \<Rightarrow> 'w step" where
  "ard_isend env buf peer op =
     call_step (ce_isend env buf (ca_count (op_args op)) (dt_addr (ca_dt (op_args op))) peer (op_tag op)) op"

definition ard_irecv :: "'w coll_env \<Rightarrow> c_ptr \<Rightarrow> ucg_rank_t \<Rightarrow> 'w step" where
  "ard_irecv env buf peer op =
     call_step (ce_irecv env buf (ca_count (op_args op)) (dt_addr (ca_dt (op_args op))) peer (op_tag op)) op"

definition ard_reduce :: "'w coll_env \<Rightarrow> c_ptr \<Rightarrow> c_ptr \<Rightarrow> 'w step" where
  "ard_reduce env source target op =
     call_step (ce_reduce env (ca_op (op_args op)) source target (ca_count (op_args op)) (dt_addr (ca_dt (op_args op)))) op"

definition ard_memcpy :: "'w coll_env \<Rightarrow> c_ptr \<Rightarrow> c_ptr \<Rightarrow> 'w step" where
  "ard_memcpy env dst src op =
     (let cnt = ca_count (op_args op); dt = dt_addr (ca_dt (op_args op)) in call_step (ce_memcpy env dst cnt dt src cnt dt) op)"

text \<open>
  The end of a round: the contribution of the lower rank is always the source.  If that is this rank, the result comes
  to be in the staging area, and the two buffers change their roles, also if the reduction has failed.
\<close>

definition ard_round_reduce :: "'w coll_env \<Rightarrow> ucg_rank_t \<Rightarrow> 'w step" where
  "ard_round_reduce env peer op =
     (let staging = uo_staging_area_stored (op_priv op); recv = uo_recvbuf_stored (op_priv op)
      in if ce_myrank env < peer
         then ard_reduce env recv staging (upd_priv (\<lambda>p. p\<lparr>uo_staging_area_stored := recv, uo_recvbuf_stored := staging\<rparr>) op)
         else ard_reduce env staging recv op)"

text \<open>After the rounds: the result is copied to the receive buffer if it is not there.  The status of the copy is not looked at.\<close>

definition ard_rounds_end :: "'w coll_env \<Rightarrow> 'w step" where
  "ard_rounds_end env op w =
     (let recvbuf = ca_recvbuf (op_args op); recv = uo_recvbuf_stored (op_priv op)
      in if recv \<noteq> recvbuf then do { (status, op, w) \<leftarrow> ard_memcpy env recvbuf recv op w; Some (UCG_OK, op, w) }
         else Some (UCG_OK, op, w))"

subsection \<open>The three kinds of ranks\<close>

partial_function (option) ucg_planc_ucx_allreduce_rd_op_base :: "'w coll_env \<Rightarrow> 'w step" where
  "ucg_planc_ucx_allreduce_rd_op_base env op w =
     (let peer = ucg_algo_rd_iter_base_value (uo_rd_iter (op_priv op));
          recv = uo_recvbuf_stored (op_priv op); staging = uo_staging_area_stored (op_priv op)
      in if peer = UCG_INVALID_RANK then ard_rounds_end env op w
         else do { (status, op, w) \<leftarrow>
                     steps [if_flag_once UCG_RD_BASE_SEND (ard_isend env recv peer),
                            if_flag_once UCG_RD_BASE_RECV (ard_irecv env staging peer),
                            call_step (ce_testall env),
                            ard_round_reduce env peer] op w;
                   if status \<noteq> UCG_OK then Some (status, op, w)
                   else ucg_planc_ucx_allreduce_rd_op_base env (rd_next_round op) w })"

definition ucg_planc_ucx_allreduce_rd_op_proxy :: "'w coll_env \<Rightarrow> 'w step" where
  "ucg_planc_ucx_allreduce_rd_op_proxy env op =
     (let staging = uo_staging_area_stored (op_priv op); recvbuf = ca_recvbuf (op_args op)
      in steps [if_flag_once UCG_RD_PROXY_RECV_ar (with_next_peer (ard_irecv env staging)),
                call_step (ce_testall env),
                if_flag_once UCG_RD_PROXY_REDUCE (ard_reduce env staging recvbuf),
                if_flag_until_done UCG_RD_PROXY_BASE_ar (ucg_planc_ucx_allreduce_rd_op_base env),
                if_flag_once UCG_RD_PROXY_SEND_ar (with_next_peer (ard_isend env recvbuf)),
                call_step (ce_testall env)] op)"

definition ucg_planc_ucx_allreduce_rd_op_extra :: "'w coll_env \<Rightarrow> 'w step" where
  "ucg_planc_ucx_allreduce_rd_op_extra env op =
     (let args = op_args op;
          sendbuf = (if ca_sendbuf args \<noteq> UCG_IN_PLACE then ca_sendbuf args else ca_recvbuf args)
      in steps [if_flag_once UCG_RD_EXTRA_SEND_ar (with_next_peer (ard_isend env sendbuf)),
                if_flag_once UCG_RD_EXTRA_RECV_ar (with_next_peer (ard_irecv env (ca_recvbuf args))),
                call_step (ce_testall env)] op)"

definition ucg_planc_ucx_allreduce_rd_op_progress :: "'w coll_env \<Rightarrow> 'w step" where
  "ucg_planc_ucx_allreduce_rd_op_progress env op w =
     progress_end
       (case rd_type (uo_rd_iter (op_priv op)) of
          UCG_ALGO_RD_ITER_BASE \<Rightarrow> ucg_planc_ucx_allreduce_rd_op_base env op w
        | UCG_ALGO_RD_ITER_PROXY \<Rightarrow> ucg_planc_ucx_allreduce_rd_op_proxy env op w
        | UCG_ALGO_RD_ITER_EXTRA \<Rightarrow> ucg_planc_ucx_allreduce_rd_op_extra env op w)"

subsection \<open>Trigger, discard, creation\<close>

text \<open>
  A rank that reduces begins with its own contribution in the receive buffer; the staging area is moved by the true lower
  bound of the datatype.  An error of the copy is returned as it is.
\<close>

definition ard_start_buffers :: "'w coll_env \<Rightarrow> 'w step" where
  "ard_start_buffers env op w =
     (let args = op_args op; flags = (if rd_type (uo_rd_iter (op_priv op)) = UCG_ALGO_RD_ITER_PROXY
                                      then UCG_RD_BASE_FLAGS_ar OR UCG_RD_PROXY_FLAGS_ar else UCG_RD_BASE_FLAGS_ar)
      in do { dt \<leftarrow> ca_dt args;
              let op = upd_priv (\<lambda>p. p\<lparr>uo_flags := flags, uo_staging_area_stored := c_offset (uo_staging_area p) (- cd_true_lb dt),
                                       uo_recvbuf_stored := ca_recvbuf args\<rparr>) op;
              if ca_sendbuf args \<noteq> UCG_IN_PLACE then ard_memcpy env (ca_recvbuf args) (ca_sendbuf args) op w
              else Some (UCG_OK, op, w) })"

definition ucg_planc_ucx_allreduce_rd_op_trigger :: "'w coll_env \<Rightarrow> 'w step" where
  "ucg_planc_ucx_allreduce_rd_op_trigger env op w =
     (case ucg_planc_ucx_op_reset env op w of
        (op, w) \<Rightarrow>
          do { let op = upd_priv (\<lambda>p. p\<lparr>uo_rd_iter := ucg_algo_rd_iter_reset (uo_rd_iter p)\<rparr>) op;
               (status, op, w) \<leftarrow> (if rd_type (uo_rd_iter (op_priv op)) = UCG_ALGO_RD_ITER_EXTRA
                                  then Some (UCG_OK, set_flags UCG_RD_EXTRA_FLAGS_ar op, w) else ard_start_buffers env op w);
               if status \<noteq> UCG_OK then Some (status, op, w)
               else trigger_end (ucg_planc_ucx_allreduce_rd_op_progress env op w) })"

definition ucg_planc_ucx_allreduce_rd_op_discard :: "ucx_op \<Rightarrow> ucg_heap \<Rightarrow> ucg_status \<times> ucg_heap" where
  "ucg_planc_ucx_allreduce_rd_op_discard op h =
     (let h = (if uo_staging_area (op_priv op) \<noteq> C_NULL then heap_free h else h) in (UCG_OK, heap_free h))"

text \<open>
  The staging area, whose address is \<open>area\<close> if there is memory for it, is allocated for the ranks that reduce.  Its
  size is computed from the datatype, which is read through its pointer.
\<close>

definition ucg_planc_ucx_allreduce_rd_op_new ::
    "'w coll_env \<Rightarrow> nat \<Rightarrow> nat \<Rightarrow> ucx_coll \<Rightarrow> c_ptr \<Rightarrow> ucg_coll_args \<Rightarrow> ucg_heap \<Rightarrow> 'w \<Rightarrow> (ucx_op option \<times> ucg_heap \<times> 'w) option" where
  "ucg_planc_ucx_allreduce_rd_op_new env grp vgroup blank area args h w =
     (case ucx_op_new env grp vgroup blank args h w of
        (None, h, w) \<Rightarrow> Some (None, h, w)
      | (Some op, h, w) \<Rightarrow>
          let op = upd_priv (\<lambda>p. p\<lparr>uo_rd_iter := ucg_algo_rd_iter_init (uo_rd_iter p) (ce_size env) (ce_myrank env)\<rparr>) op
          in if rd_type (uo_rd_iter (op_priv op)) = UCG_ALGO_RD_ITER_EXTRA then Some (Some op, h, w)
             else if ca_dt args = None then None
             else case heap_alloc h of
               (False, h) \<Rightarrow> Some (None, heap_free h, w)
             | (True, h) \<Rightarrow> Some (Some (upd_priv (\<lambda>p. p\<lparr>uo_staging_area := area\<rparr>) op), h, w))"

definition ucg_planc_ucx_allreduce_rd_prepare ::
    "bool \<Rightarrow> 'w coll_env \<Rightarrow> nat \<Rightarrow> nat \<Rightarrow> ucx_coll \<Rightarrow> c_ptr \<Rightarrow> ucg_coll_args option \<Rightarrow> ucg_heap \<Rightarrow> 'w \<Rightarrow>
     ((ucg_status + ucx_op) \<times> ucg_heap \<times> 'w) option" where
  "ucg_planc_ucx_allreduce_rd_prepare chk env grp vgroup blank area args h w =
     (case args of
        None \<Rightarrow> if chk then Some (Inl UCG_ERR_INVALID_PARAM, h, w) else None
      | Some args \<Rightarrow>
          do { (op, h, w) \<leftarrow> ucg_planc_ucx_allreduce_rd_op_new env grp vgroup blank area args h w;
               Some (case op of None \<Rightarrow> (Inl UCG_ERR_NO_MEMORY, h, w) | Some op \<Rightarrow> (Inr op, h, w)) })"

end
