(* ===== verification/Ard_Script.thy ===== *)
theory Ard_Script
  imports Allreduce_Rd Barrier_Script
begin

text \<open>The recursive doubling allreduce follows its script.\<close>

subsection \<open>The script\<close>

abbreviation ard_buf :: "ucg_coll_args \<Rightarrow> c_ptr \<Rightarrow> c_buf" where
  "ard_buf args b \<equiv> (b, ca_count args, dt_addr (ca_dt args))"

definition ard_src :: "ucg_coll_args \<Rightarrow> c_ptr" where
  "ard_src args = (if ca_sendbuf args \<noteq> UCG_IN_PLACE then ca_sendbuf args else ca_recvbuf args)"

text \<open>Where the partial result is after \<open>k\<close> rounds, and the other buffer.\<close>

fun ard_bufs :: "ucg_algo_rd_iter \<Rightarrow> c_int \<Rightarrow> ucg_coll_args \<Rightarrow> c_ptr \<Rightarrow> ucg_rank_t \<Rightarrow> nat \<Rightarrow> c_ptr \<times> c_ptr" where
  "ard_bufs it0 n args stg r 0 = (ca_recvbuf args, stg)"
| "ard_bufs it0 n args stg r (Suc k) =
     (case ard_bufs it0 n args stg r k of (a, b) \<Rightarrow> if r < rd_peer it0 n k r then (b, a) else (a, b))"

definition ard_red :: "ucg_coll_args \<Rightarrow> c_ptr \<Rightarrow> c_ptr \<Rightarrow> coll_act" where
  "ard_red args source target = Red (ca_op args) source target (ca_count args) (dt_addr (ca_dt args))"

definition ard_round :: "ucg_algo_rd_iter \<Rightarrow> c_int \<Rightarrow> ucg_coll_args \<Rightarrow> c_ptr \<Rightarrow> ucg_rank_t \<Rightarrow> nat \<Rightarrow> coll_act list" where
  "ard_round it0 n args stg r k =
     (case ard_bufs it0 n args stg r k of
        (a, b) \<Rightarrow> let p = rd_peer it0 n k r
                  in [Snd p (ard_buf args a), Rcv p (ard_buf args b), Wait, if r < p then ard_red args a b else ard_red args b a])"

definition ard_last :: "ucg_algo_rd_iter \<Rightarrow> c_int \<Rightarrow> ucg_coll_args \<Rightarrow> c_ptr \<Rightarrow> ucg_rank_t \<Rightarrow> coll_act list" where
  "ard_last it0 n args stg r =
     (let a = fst (ard_bufs it0 n args stg r (rd_rounds n))
      in if a \<noteq> ca_recvbuf args then [Cpy (ard_buf args (ca_recvbuf args)) (ard_buf args a)] else [])"

definition ard_rounds :: "ucg_algo_rd_iter \<Rightarrow> c_int \<Rightarrow> ucg_coll_args \<Rightarrow> c_ptr \<Rightarrow> ucg_rank_t \<Rightarrow> nat \<Rightarrow> coll_act list" where
  "ard_rounds it0 n args stg r k = concat (map (ard_round it0 n args stg r) [k..<rd_rounds n]) @ ard_last it0 n args stg r"

lemma ard_rounds_step:
  "k < rd_rounds n \<Longrightarrow> ard_rounds it0 n args stg r k = ard_round it0 n args stg r k @ ard_rounds it0 n args stg r (Suc k)"
  by (simp add: ard_rounds_def upt_conv_Cons)

lemma ard_rounds_finish: "ard_rounds it0 n args stg r (rd_rounds n) = ard_last it0 n args stg r"
  by (simp add: ard_rounds_def)

lemma length_ard_last: "length (ard_last it0 n args stg r) \<le> 1"
  by (simp add: ard_last_def Let_def)

lemma length_ard_round: "length (ard_round it0 n args stg r k) = 4"
  by (simp add: ard_round_def Let_def split: prod.splits)

lemma length_ard_rounds:
  "k \<le> rd_rounds n \<Longrightarrow> length (ard_rounds it0 n args stg r k) = 4 * (rd_rounds n - k) + length (ard_last it0 n args stg r)"
proof (induction "rd_rounds n - k" arbitrary: k)
  case 0
  then show ?case by (simp add: ard_rounds_def)
next
  case (Suc d)
  then have "k < rd_rounds n" by simp
  then show ?case using Suc(1) [of "Suc k"] Suc(2) by (simp add: ard_rounds_step length_ard_round)
qed

lemma drop_ard_rounds: "k \<le> rd_rounds n \<Longrightarrow> drop (4 * k) (ard_rounds it0 n args stg r 0) = ard_rounds it0 n args stg r k"
proof (induction k)
  case (Suc k)
  then have "drop 4 (drop (4 * k) (ard_rounds it0 n args stg r 0)) = ard_rounds it0 n args stg r (Suc k)"
    by (simp add: ard_rounds_step length_ard_round)
  then show ?case by (simp add: add.commute)
qed simp

definition ard_copy_acts :: "c_int \<Rightarrow> ucg_coll_args \<Rightarrow> ucg_rank_t \<Rightarrow> coll_act list" where
  "ard_copy_acts n args r =
     (if rd_extra n r \<or> ca_sendbuf args = UCG_IN_PLACE then []
      else [Cpy (ard_buf args (ca_recvbuf args)) (ard_buf args (ca_sendbuf args))])"

definition ard_acts :: "ucg_algo_rd_iter \<Rightarrow> c_int \<Rightarrow> ucg_coll_args \<Rightarrow> c_ptr \<Rightarrow> ucg_rank_t \<Rightarrow> coll_act list" where
  "ard_acts it0 n args stg r =
     (let recv = ca_recvbuf args
      in ard_copy_acts n args r @
         (if rd_extra n r then [Snd (r + 1) (ard_buf args (ard_src args)), Rcv (r + 1) (ard_buf args recv), Wait]
          else if rd_proxy n r
          then [Rcv (r - 1) (ard_buf args stg), Wait, ard_red args stg recv] @ ard_rounds it0 n args stg r 0 @
               [Snd (r - 1) (ard_buf args recv), Wait]
          else ard_rounds it0 n args stg r 0))"

subsection \<open>Where an operation stands\<close>

definition ard_state ::
    "c_int \<Rightarrow> ucg_algo_rd_iter \<Rightarrow> c_int \<Rightarrow> ucg_coll_args \<Rightarrow> ucg_rank_t \<Rightarrow> nat \<Rightarrow> c_ptr \<times> c_ptr \<Rightarrow> u64 \<Rightarrow> ucx_op \<Rightarrow> bool" where
  "ard_state tag it0 n args r m bufs fl op \<longleftrightarrow>
     op_tag op = tag \<and> op_args op = args \<and> uo_rd_iter (op_priv op) = rd_at it0 n r m \<and> op_flags op = fl \<and>
     (uo_recvbuf_stored (op_priv op), uo_staging_area_stored (op_priv op)) = bufs"

lemma ard_state_status [simp]: "ard_state tag it0 n args r m bufs fl (op_set_status st op) \<longleftrightarrow> ard_state tag it0 n args r m bufs fl op"
  by (simp add: ard_state_def op_set_status_def)

lemma ard_state_flags [simp]: "ard_state tag it0 n args r m bufs fl' (set_flags fl op) \<longleftrightarrow> fl' = fl \<and> ard_state tag it0 n args r m bufs (op_flags op) op"
  by (auto simp: ard_state_def)

lemma ard_state_next:
  "ard_state tag it0 n args r m bufs fl op \<Longrightarrow> ard_state tag it0 n args r (Suc m) bufs (fl OR 3) (rd_next_round op)"
  by (auto simp: ard_state_def rd_next_round_def rd_at_def UCG_RD_BASE_SEND_def UCG_RD_BASE_RECV_def)

subsection \<open>Single steps\<close>

text \<open>A guarded step whose flag is set does its action and clears the flag; one whose flag is not set does nothing.\<close>

lemma flag_set_step:
  assumes "ucg_test_flags (op_flags op) bits" and "\<And>w. f (set_flags (ucg_clear_flags (op_flags op) bits) op) w = g w"
  shows "if_flag_once bits f op w = g w"
  using assms by (simp add: if_flag_once_def ucg_test_and_clear_flags_def)

lemma flag_clear_step: "\<not> ucg_test_flags (op_flags op) bits \<Longrightarrow> if_flag_once bits f op w = Some (UCG_OK, op, w)"
  by (simp add: if_flag_once_def ucg_test_and_clear_flags_def)

lemma until_done_clear_step: "\<not> ucg_test_flags (op_flags op) bits \<Longrightarrow> if_flag_until_done bits f op w = Some (UCG_OK, op, w)"
  by (simp add: if_flag_until_done_def)

lemma call_step_case: "call_step f op w = (case f w of None \<Rightarrow> None | Some (st, w') \<Rightarrow> Some (st, op, w'))"
  by (simp add: call_step_def map_option_case case_prod_unfold split: option.splits)

lemmas ard_calls = ard_isend_def ard_irecv_def ard_reduce_def ard_memcpy_def call_step_case

lemmas ard_flags = UCG_RD_BASE_SEND_def UCG_RD_BASE_RECV_def UCG_RD_PROXY_RECV_ar_def UCG_RD_PROXY_REDUCE_def UCG_RD_PROXY_BASE_ar_def
  UCG_RD_PROXY_SEND_ar_def UCG_RD_EXTRA_SEND_ar_def UCG_RD_EXTRA_RECV_ar_def

lemmas ard_tests = ucg_test_flags_def ucg_clear_flags_def ard_flags

lemma next_peer_step:
  assumes "uo_rd_iter (op_priv op) = rd_at iz n r k" and "rd_current (rd_at iz n r k) = p"
  shows "with_next_peer f op w = f p (upd_priv (\<lambda>q. q\<lparr>uo_rd_iter := rd_at iz n r (Suc k)\<rparr>) op) w"
proof -
  have "ucg_algo_rd_iter_inc (rd_at iz n r k) = rd_at iz n r (Suc k)" by (simp add: rd_at_def)
  then show ?thesis by (simp add: with_next_peer_def ucg_algo_rd_iter_value_inc_def assms)
qed

lemma ard_state_iter: "ard_state tag it0 n args r m bufs fl op \<Longrightarrow> ard_state tag it0 n args r m' bufs fl (upd_priv (\<lambda>q. q\<lparr>uo_rd_iter := rd_at it0 n r m'\<rparr>) op)"
  by (auto simp: ard_state_def)

text \<open>The copy at the end of the rounds must not fail, because its status is not looked at.\<close>

definition ard_copy_succeeds :: "'w coll_env \<Rightarrow> ucg_coll_args \<Rightarrow> c_ptr \<Rightarrow> bool" where
  "ard_copy_succeeds env args stg \<longleftrightarrow>
     (\<forall>w st w'. perform env 0 (Cpy (ard_buf args (ca_recvbuf args)) (ard_buf args stg)) w = Some (st, w') \<longrightarrow> st = UCG_OK)"

lemma ard_bufs_cases: "ard_bufs it0 n args stg r k = (ca_recvbuf args, stg) \<or> ard_bufs it0 n args stg r k = (stg, ca_recvbuf args)"
  by (induction k) auto

subsection \<open>The rounds\<close>

text \<open>
  \<open>at\<close> has to hold where the operation waits in a round, and at the end of the rounds.  The flags \<open>x\<close> are those of the proxy.
\<close>

lemma ard_loop_step:
  assumes "ucg_algo_rd_iter_base_value (uo_rd_iter (op_priv op)) = p" and "p \<noteq> UCG_INVALID_RANK"
  shows "ucg_planc_ucx_allreduce_rd_op_base env op =
     steps [if_flag_once UCG_RD_BASE_SEND (ard_isend env (uo_recvbuf_stored (op_priv op)) p),
            if_flag_once UCG_RD_BASE_RECV (ard_irecv env (uo_staging_area_stored (op_priv op)) p),
            call_step (ce_testall env), ard_round_reduce env p,
            \<lambda>op. ucg_planc_ucx_allreduce_rd_op_base env (rd_next_round op)] op"
proof (rule ext)
  fix w
  let ?fs = "[if_flag_once UCG_RD_BASE_SEND (ard_isend env (uo_recvbuf_stored (op_priv op)) p),
            if_flag_once UCG_RD_BASE_RECV (ard_irecv env (uo_staging_area_stored (op_priv op)) p),
            call_step (ce_testall env), ard_round_reduce env p]"
  let ?g = "\<lambda>op. ucg_planc_ucx_allreduce_rd_op_base env (rd_next_round op)"
  have "steps (?fs @ [?g]) op w = ucg_planc_ucx_allreduce_rd_op_base env op w"
    unfolding steps_append steps_single using assms by (subst (2) ucg_planc_ucx_allreduce_rd_op_base.simps) (simp add: Let_def)
  then show "ucg_planc_ucx_allreduce_rd_op_base env op w = steps [if_flag_once UCG_RD_BASE_SEND (ard_isend env (uo_recvbuf_stored (op_priv op)) p),
            if_flag_once UCG_RD_BASE_RECV (ard_irecv env (uo_staging_area_stored (op_priv op)) p),
            call_step (ce_testall env), ard_round_reduce env p, ?g] op w" by simp
qed

text \<open>From the test of a round to its end.\<close>

lemma follows_ard_test:
  assumes k: "k < rd_rounds n" and env: "ce_myrank env = r"
    and op: "ard_state tag it0 n args r m (ard_bufs it0 n args stg r k) x op" and at: "at 0 op"
    and rest: "\<And>op'. ard_state tag it0 n args r (Suc m) (ard_bufs it0 n args stg r (Suc k)) (x OR 3) op' \<Longrightarrow>
      follows env tag as (\<lambda>j. at (Suc (Suc j))) (ucg_planc_ucx_allreduce_rd_op_base env) op'"
  shows "follows env tag (drop 2 (ard_round it0 n args stg r k) @ as) at
    (steps [call_step (ce_testall env), ard_round_reduce env (rd_peer it0 n k r), \<lambda>op. ucg_planc_ucx_allreduce_rd_op_base env (rd_next_round op)]) op"
proof -
  obtain a b where ab: "ard_bufs it0 n args stg r k = (a, b)" by (cases "ard_bufs it0 n args stg r k")
  let ?p = "rd_peer it0 n k r"
  define op' where "op' = (if r < ?p then upd_priv (\<lambda>p. p\<lparr>uo_staging_area_stored := a, uo_recvbuf_stored := b\<rparr>) op else op)"
  have st: "op_args op = args" "uo_recvbuf_stored (op_priv op) = a" "uo_staging_area_stored (op_priv op) = b" "op_tag op = tag"
    using op ab by (simp_all add: ard_state_def)
  have d: "drop 2 (ard_round it0 n args stg r k) @ as = Wait # (if r < ?p then ard_red args a b else ard_red args b a) # as"
    by (simp add: ard_round_def ab Let_def)
  have op': "ard_state tag it0 n args r m (ard_bufs it0 n args stg r (Suc k)) x op'"
    using op ab by (auto simp: ard_state_def op'_def)
  show ?thesis unfolding d
  proof (rule follows_act)
    show "call_step (ce_testall env) op w = (case perform env tag Wait w of None \<Rightarrow> None | Some (st, w') \<Rightarrow> Some (st, op, w'))" for w
      by (simp add: call_step_case)
    show "follows env tag ((if r < ?p then ard_red args a b else ard_red args b a) # as) (\<lambda>k. at (Suc k))
        (steps [ard_round_reduce env ?p, \<lambda>op. ucg_planc_ucx_allreduce_rd_op_base env (rd_next_round op)]) op"
    proof (rule follows_act)
      show "ard_round_reduce env ?p op w =
          (case perform env tag (if r < ?p then ard_red args a b else ard_red args b a) w of None \<Rightarrow> None | Some (st, w') \<Rightarrow> Some (st, op', w'))" for w
        using st env unfolding op'_def by (simp add: ard_round_reduce_def Let_def ard_calls ard_red_def)
      show "follows env tag as (\<lambda>k. at (Suc (Suc k))) (steps [\<lambda>op. ucg_planc_ucx_allreduce_rd_op_base env (rd_next_round op)]) op'"
        by (rule follows_one, rule follows_comp, rule rest, rule ard_state_next [OF op'])
    qed (auto simp: ard_red_def split: if_splits)
  qed (rule at)
qed

lemma follows_ard_rounds:
  assumes n: "rd_args n" and r: "r \<in> rd_members n" and env: "ce_myrank env = r" and off: "off = (if rd_proxy n r then 1 else 0)"
    and ok: "ard_copy_succeeds env args stg" and x: "x \<in> {0, 0x30}"
  shows "k \<le> rd_rounds n \<Longrightarrow> ard_state tag it0 n args r (off + k) (ard_bufs it0 n args stg r k) (x OR 3) op \<Longrightarrow>
    (\<And>i op'. k \<le> i \<Longrightarrow> i < rd_rounds n \<Longrightarrow> ard_state tag it0 n args r (off + i) (ard_bufs it0 n args stg r i) x op' \<Longrightarrow>
       at (4 * (i - k) + 2) op') \<Longrightarrow>
    (\<And>op'. ard_state tag it0 n args r (off + rd_rounds n) (ard_bufs it0 n args stg r (rd_rounds n)) (x OR 3) op' \<Longrightarrow>
       at (length (ard_rounds it0 n args stg r k)) op') \<Longrightarrow>
    follows env tag (ard_rounds it0 n args stg r k) at (ucg_planc_ucx_allreduce_rd_op_base env) op"
proof (induction "rd_rounds n - k" arbitrary: k op at)
  case 0
  then have k: "k = rd_rounds n" by simp
  obtain a b where ab: "ard_bufs it0 n args stg r k = (a, b)" by (cases "ard_bufs it0 n args stg r k")
  have st: "op_args op = args" "uo_recvbuf_stored (op_priv op) = a" using 0(3) ab by (simp_all add: ard_state_def)
  have "ucg_algo_rd_iter_base_value (uo_rd_iter (op_priv op)) = UCG_INVALID_RANK"
    using 0(3) base_value_at(1) [OF n r, of k] k off by (simp add: ard_state_def)
  then have e: "ucg_planc_ucx_allreduce_rd_op_base env op w = ard_rounds_end env op w" for w
    by (subst ucg_planc_ucx_allreduce_rd_op_base.simps) (simp add: Let_def)
  have fin: "ard_rounds it0 n args stg r k = (if a \<noteq> ca_recvbuf args then [Cpy (ard_buf args (ca_recvbuf args)) (ard_buf args a)] else [])"
    using ab k by (simp add: ard_rounds_finish ard_last_def)
  have at: "at (length (ard_rounds it0 n args stg r k)) op" using 0(5) 0(3) k by simp
  show ?case
  proof (cases "a = ca_recvbuf args")
    case True
    then have "ucg_planc_ucx_allreduce_rd_op_base env op w = Some (UCG_OK, op, w)" for w
      using st by (simp add: e ard_rounds_end_def)
    then show ?thesis using at by (simp add: fin True follows_def)
  next
    case False
    then have b: "a = stg" using ard_bufs_cases [of it0 n args stg r k] ab by auto
    let ?c = "Cpy (ard_buf args (ca_recvbuf args)) (ard_buf args stg)"
    have p: "perform env tag ?c w = perform env 0 ?c w" for w by simp
    have "st' = UCG_OK" if "perform env tag ?c w = Some (st', w')" for w st' w'
      using ok that unfolding ard_copy_succeeds_def p by blast
    then have "ucg_planc_ucx_allreduce_rd_op_base env op w =
        (case perform env tag ?c w of None \<Rightarrow> None | Some (st, w') \<Rightarrow> Some (st, op, w'))" for w
      using st False by (auto simp: e ard_rounds_end_def ard_calls Let_def b split: option.splits)
    then have "follows env tag [?c] at (steps [ucg_planc_ucx_allreduce_rd_op_base env]) op"
      using at by (intro follows_act follows_nil) (simp_all add: fin False)
    then show ?thesis using False by (simp add: fin b steps_single)
  qed
next
  case (Suc d)
  then have k: "k < rd_rounds n" by simp
  obtain a b where ab: "ard_bufs it0 n args stg r k = (a, b)" by (cases "ard_bufs it0 n args stg r k")
  let ?p = "rd_peer it0 n k r"
  have st: "op_args op = args" "uo_recvbuf_stored (op_priv op) = a" "uo_staging_area_stored (op_priv op) = b" "op_tag op = tag" "op_flags op = x OR 3"
    using Suc.prems(2) ab by (simp_all add: ard_state_def)
  let ?op1 = "set_flags (x OR 2) op" and ?op2 = "set_flags x op"
  have e: "ucg_planc_ucx_allreduce_rd_op_base env op = steps [if_flag_once UCG_RD_BASE_SEND (ard_isend env a ?p),
      if_flag_once UCG_RD_BASE_RECV (ard_irecv env b ?p), call_step (ce_testall env), ard_round_reduce env ?p,
      \<lambda>op. ucg_planc_ucx_allreduce_rd_op_base env (rd_next_round op)] op"
    unfolding st(2,3) [symmetric]
  proof (rule ard_loop_step)
    show "ucg_algo_rd_iter_base_value (uo_rd_iter (op_priv op)) = ?p"
      using Suc.prems(2) base_value_at(1) [OF n r, of k it0] k off by (simp add: ard_state_def)
    show "?p \<noteq> UCG_INVALID_RANK" by (rule base_value_at(2) [OF n r less_imp_le [OF k] k])
  qed
  have op2: "ard_state tag it0 n args r (off + k) (ard_bufs it0 n args stg r k) x ?op2"
    using Suc.prems(2) by (simp add: ard_state_def)
  have F: "follows env tag (Snd ?p (ard_buf args a) # Rcv ?p (ard_buf args b) # drop 2 (ard_round it0 n args stg r k) @ ard_rounds it0 n args stg r (Suc k)) at
      (steps [if_flag_once UCG_RD_BASE_SEND (ard_isend env a ?p),
      if_flag_once UCG_RD_BASE_RECV (ard_irecv env b ?p), call_step (ce_testall env), ard_round_reduce env ?p,
      \<lambda>op. ucg_planc_ucx_allreduce_rd_op_base env (rd_next_round op)]) op"
  proof (rule follows_act [where op' = ?op1])
    show "if_flag_once UCG_RD_BASE_SEND (ard_isend env a ?p) op w =
        (case perform env tag (Snd ?p (ard_buf args a)) w of None \<Rightarrow> None | Some (st, w') \<Rightarrow> Some (st, ?op1, w'))" for w
      using x st by (intro flag_set_step) (auto simp: ard_tests ard_calls split: option.splits)
    show "follows env tag (Rcv ?p (ard_buf args b) # drop 2 (ard_round it0 n args stg r k) @ ard_rounds it0 n args stg r (Suc k)) (\<lambda>k. at (Suc k))
      (steps [if_flag_once UCG_RD_BASE_RECV (ard_irecv env b ?p), call_step (ce_testall env), ard_round_reduce env ?p,
      \<lambda>op. ucg_planc_ucx_allreduce_rd_op_base env (rd_next_round op)]) ?op1"
    proof (rule follows_act [where op' = ?op2])
      show "if_flag_once UCG_RD_BASE_RECV (ard_irecv env b ?p) ?op1 w =
          (case perform env tag (Rcv ?p (ard_buf args b)) w of None \<Rightarrow> None | Some (st, w') \<Rightarrow> Some (st, ?op2, w'))" for w
        using x st by (intro flag_set_step) (auto simp: ard_tests ard_calls set_flags_def upd_priv_def split: option.splits)
      show "follows env tag (drop 2 (ard_round it0 n args stg r k) @ ard_rounds it0 n args stg r (Suc k)) (\<lambda>k. at (Suc (Suc k)))
        (steps [call_step (ce_testall env), ard_round_reduce env ?p,
        \<lambda>op. ucg_planc_ucx_allreduce_rd_op_base env (rd_next_round op)]) ?op2"
      proof (rule follows_ard_test [OF k env op2])
        show "at (Suc (Suc 0)) ?op2" using Suc.prems(3) [OF order_refl k op2] by (simp add: numeral_2_eq_2)
        fix op' assume op': "ard_state tag it0 n args r (Suc (off + k)) (ard_bufs it0 n args stg r (Suc k)) (x OR 3) op'"
        show "follows env tag (ard_rounds it0 n args stg r (Suc k)) (\<lambda>j. at (Suc (Suc (Suc (Suc j))))) (ucg_planc_ucx_allreduce_rd_op_base env) op'"
        proof (rule Suc.hyps(1))
          show "d = rd_rounds n - Suc k" "Suc k \<le> rd_rounds n" using Suc.hyps(2) k by simp_all
          show "ard_state tag it0 n args r (off + Suc k) (ard_bufs it0 n args stg r (Suc k)) (x OR 3) op'" using op' by simp
          show "at (Suc (Suc (Suc (Suc (4 * (i - Suc k) + 2))))) op''" if "Suc k \<le> i" "i < rd_rounds n"
            "ard_state tag it0 n args r (off + i) (ard_bufs it0 n args stg r i) x op''" for i op''
          proof -
            have "4 * (i - k) + 2 = Suc (Suc (Suc (Suc (4 * (i - Suc k) + 2))))" using that(1) by simp
            then show ?thesis using Suc.prems(3) [of i op''] that by simp
          qed
          show "at (Suc (Suc (Suc (Suc (length (ard_rounds it0 n args stg r (Suc k))))))) op''"
            if "ard_state tag it0 n args r (off + rd_rounds n) (ard_bufs it0 n args stg r (rd_rounds n)) (x OR 3) op''" for op''
            using Suc.prems(4) [OF that] by (simp add: ard_rounds_step [OF k] length_ard_round eval_nat_numeral)
        qed
      qed
    qed simp
  qed simp
  have S: "ard_rounds it0 n args stg r k =
      Snd ?p (ard_buf args a) # Rcv ?p (ard_buf args b) # drop 2 (ard_round it0 n args stg r k) @ ard_rounds it0 n args stg r (Suc k)"
    by (simp add: ard_rounds_step [OF k]) (simp add: ard_round_def ab Let_def)
  show ?case using F unfolding S follows_def e .
qed

text \<open>The same by position in the rounds.\<close>

definition ard_in ::
    "c_int \<Rightarrow> ucg_algo_rd_iter \<Rightarrow> c_int \<Rightarrow> ucg_coll_args \<Rightarrow> c_ptr \<Rightarrow> ucg_rank_t \<Rightarrow> nat \<Rightarrow> u64 \<Rightarrow> nat \<Rightarrow> ucx_op \<Rightarrow> bool" where
  "ard_in tag it0 n args stg r off x j op \<longleftrightarrow>
     (\<forall>k < rd_rounds n. j = 4 * k + 2 \<longrightarrow> ard_state tag it0 n args r (off + k) (ard_bufs it0 n args stg r k) x op) \<and>
     (j = length (ard_rounds it0 n args stg r 0) \<longrightarrow>
        ard_state tag it0 n args r (off + rd_rounds n) (ard_bufs it0 n args stg r (rd_rounds n)) (x OR 3) op)"

lemma ard_in_status [simp]: "ard_in tag it0 n args stg r off x j (op_set_status st op) \<longleftrightarrow> ard_in tag it0 n args stg r off x j op"
  by (simp add: ard_in_def)

lemma ard_inI:
  assumes "k < rd_rounds n" and "ard_state tag it0 n args r (off + k) (ard_bufs it0 n args stg r k) x op"
  shows "ard_in tag it0 n args stg r off x (4 * k + 2) op"
proof -
  have "4 * k + 2 < length (ard_rounds it0 n args stg r 0)" using assms(1) by (simp add: length_ard_rounds)
  then show ?thesis using assms(2) by (auto simp: ard_in_def)
qed

lemma ard_in_end:
  assumes "ard_state tag it0 n args r (off + rd_rounds n) (ard_bufs it0 n args stg r (rd_rounds n)) (x OR 3) op"
  shows "ard_in tag it0 n args stg r off x (length (ard_rounds it0 n args stg r 0)) op"
proof -
  have "length (ard_rounds it0 n args stg r 0) \<noteq> 4 * k + 2" if "k < rd_rounds n" for k
    using that length_ard_last [of it0 n args stg r] by (simp add: length_ard_rounds)
  then show ?thesis using assms by (auto simp: ard_in_def)
qed

lemma follows_base_start:
  assumes n: "rd_args n" and r: "r \<in> rd_members n" and env: "ce_myrank env = r" and off: "off = (if rd_proxy n r then 1 else 0)"
    and ok: "ard_copy_succeeds env args stg" and x: "x \<in> {0, 0x30}"
    and st: "ard_state tag it0 n args r off (ca_recvbuf args, stg) (x OR 3) op"
  shows "follows env tag (ard_rounds it0 n args stg r 0) (ard_in tag it0 n args stg r off x) (ucg_planc_ucx_allreduce_rd_op_base env) op"
  by (rule follows_ard_rounds [OF n r env off ok x]) (use st in \<open>simp_all add: ard_inI ard_in_end del: add_2_eq_Suc add_2_eq_Suc'\<close>)

lemma follows_base_resume:
  assumes n: "rd_args n" and r: "r \<in> rd_members n" and env: "ce_myrank env = r" and off: "off = (if rd_proxy n r then 1 else 0)"
    and ok: "ard_copy_succeeds env args stg" and x: "x \<in> {0, 0x30}"
    and k: "k < rd_rounds n" and op: "ard_in tag it0 n args stg r off x (4 * k + 2) op"
  shows "follows env tag (drop (4 * k + 2) (ard_rounds it0 n args stg r 0)) (\<lambda>l. ard_in tag it0 n args stg r off x (4 * k + 2 + l))
    (ucg_planc_ucx_allreduce_rd_op_base env) op"
proof -
  have st: "ard_state tag it0 n args r (off + k) (ard_bufs it0 n args stg r k) x op" using op k by (simp add: ard_in_def)
  let ?p = "rd_peer it0 n k r" and ?R = "ard_rounds it0 n args stg r"
  have "drop (4 * k + 2) (?R 0) = drop 2 (drop (4 * k) (?R 0))" by (simp add: add.commute)
  also have "\<dots> = drop 2 (ard_round it0 n args stg r k) @ ?R (Suc k)"
    unfolding drop_ard_rounds [OF less_imp_le [OF k]] ard_rounds_step [OF k] by (simp add: length_ard_round)
  finally have d: "drop (4 * k + 2) (?R 0) = drop 2 (ard_round it0 n args stg r k) @ ?R (Suc k)" .
  let ?fs = "[if_flag_once UCG_RD_BASE_SEND (ard_isend env (uo_recvbuf_stored (op_priv op)) ?p),
      if_flag_once UCG_RD_BASE_RECV (ard_irecv env (uo_staging_area_stored (op_priv op)) ?p),
      call_step (ce_testall env), ard_round_reduce env ?p, \<lambda>op. ucg_planc_ucx_allreduce_rd_op_base env (rd_next_round op)]"
  have e: "ucg_planc_ucx_allreduce_rd_op_base env op = steps ?fs op"
  proof (rule ard_loop_step)
    show "ucg_algo_rd_iter_base_value (uo_rd_iter (op_priv op)) = ?p"
      using st base_value_at(1) [OF n r, of k it0] k off by (simp add: ard_state_def)
    show "?p \<noteq> UCG_INVALID_RANK" by (rule base_value_at(2) [OF n r less_imp_le [OF k] k])
  qed
  have skip: "if_flag_once UCG_RD_BASE_SEND f op w = Some (UCG_OK, op, w)" "if_flag_once UCG_RD_BASE_RECV f op w = Some (UCG_OK, op, w)" for f w
    using st x by (auto intro!: flag_clear_step simp: ard_state_def ard_tests)
  have F: "follows env tag (drop 2 (ard_round it0 n args stg r k) @ ?R (Suc k)) (\<lambda>l. ard_in tag it0 n args stg r off x (4 * k + 2 + l)) (steps ?fs) op"
  proof (rule follows_none_step, rule skip(1), rule follows_none_step, rule skip(2), rule follows_ard_test [OF k env st])
    show "ard_in tag it0 n args stg r off x (4 * k + 2 + 0) op" using op by simp
    fix op' assume op': "ard_state tag it0 n args r (Suc (off + k)) (ard_bufs it0 n args stg r (Suc k)) (x OR 3) op'"
    show "follows env tag (?R (Suc k)) (\<lambda>j. ard_in tag it0 n args stg r off x (4 * k + 2 + Suc (Suc j))) (ucg_planc_ucx_allreduce_rd_op_base env) op'"
    proof (rule follows_ard_rounds [OF n r env off ok x])
      show "Suc k \<le> rd_rounds n" "ard_state tag it0 n args r (off + Suc k) (ard_bufs it0 n args stg r (Suc k)) (x OR 3) op'"
        using k op' by simp_all
      show "ard_in tag it0 n args stg r off x (4 * k + 2 + Suc (Suc (4 * (i - Suc k) + 2))) op''"
        if "Suc k \<le> i" "i < rd_rounds n" "ard_state tag it0 n args r (off + i) (ard_bufs it0 n args stg r i) x op''" for i op''
      proof -
        have "4 * k + 2 + Suc (Suc (4 * (i - Suc k) + 2)) = 4 * i + 2" using that(1) by simp
        then show ?thesis using ard_inI [OF that(2,3)] by (simp only:)
      qed
      show "ard_in tag it0 n args stg r off x (4 * k + 2 + Suc (Suc (length (?R (Suc k))))) op''"
        if "ard_state tag it0 n args r (off + rd_rounds n) (ard_bufs it0 n args stg r (rd_rounds n)) (x OR 3) op''" for op''
      proof -
        have "4 * k + 2 + Suc (Suc (length (?R (Suc k)))) = length (?R 0)" using k by (simp add: length_ard_rounds)
        then show ?thesis using ard_in_end [OF that] by (simp only:)
      qed
    qed
  qed
  show ?thesis using F unfolding d follows_def e .
qed

text \<open>The tests of the rounds.\<close>

lemma ard_rounds_wait:
  assumes "j < length (ard_rounds it0 n args stg r 0)" and "ard_rounds it0 n args stg r 0 ! j = Wait"
  obtains k where "k < rd_rounds n" and "j = 4 * k + 2"
proof -
  let ?R = "ard_rounds it0 n args stg r"
  have nw: "Wait \<notin> set (ard_last it0 n args stg r)" by (simp add: ard_last_def Let_def)
  have k: "j div 4 < rd_rounds n"
  proof (rule ccontr)
    assume "\<not> j div 4 < rd_rounds n"
    then have "4 * rd_rounds n \<le> j" by linarith
    then have "?R 0 ! j \<in> set (drop (4 * rd_rounds n) (?R 0))"
      using assms(1) by (auto simp: in_set_conv_nth intro!: exI [where x = "j - 4 * rd_rounds n"])
    then show False using assms(2) nw drop_ard_rounds [of "rd_rounds n" n it0 args stg r] by (simp add: ard_rounds_finish)
  qed
  have "?R 0 ! j = drop (4 * (j div 4)) (?R 0) ! (j mod 4)" using assms(1) by simp
  also have "\<dots> = ard_round it0 n args stg r (j div 4) ! (j mod 4)"
    unfolding drop_ard_rounds [OF less_imp_le [OF k]] ard_rounds_step [OF k] by (rule nth_append_left) (simp add: length_ard_round)
  finally have "ard_round it0 n args stg r (j div 4) ! (j mod 4) = Wait" using assms(2) by simp
  moreover have "j mod 4 = 0 \<or> j mod 4 = 1 \<or> j mod 4 = 2 \<or> j mod 4 = 3" by presburger
  ultimately have "j mod 4 = 2" by (auto simp: ard_round_def Let_def ard_red_def split: prod.splits if_splits)
  then have "j = 4 * (j div 4) + 2" using mult_div_mod_eq [of 4 j] by linarith
  then show thesis using that k by blast
qed

subsection \<open>Extra ranks and proxies\<close>

definition ard_at :: "c_int \<Rightarrow> ucg_algo_rd_iter \<Rightarrow> c_int \<Rightarrow> ucg_coll_args \<Rightarrow> c_ptr \<Rightarrow> ucg_rank_t \<Rightarrow> nat \<Rightarrow> ucx_op \<Rightarrow> bool" where
  "ard_at tag it0 n args stg r i op \<longleftrightarrow>
     (let c = length (ard_copy_acts n args r); st = ard_state tag it0 n args r; start = (ca_recvbuf args, stg);
          l = length (ard_rounds it0 n args stg r 0); fin = ard_bufs it0 n args stg r (rd_rounds n)
      in if rd_extra n r then (i = 0 \<longrightarrow> (\<exists>b. st 0 b 0xC0 op)) \<and> (i = 2 \<longrightarrow> (\<exists>b. st 2 b 0 op))
         else if rd_proxy n r then
           (i = c \<longrightarrow> st 0 start 0x3F op) \<and> (i = c + 1 \<longrightarrow> st 1 start 0x3B op) \<and>
           (c + 3 \<le> i \<and> i < c + 3 + l \<longrightarrow> ard_in tag it0 n args stg r 1 0x30 (i - (c + 3)) op) \<and>
           (i = c + 4 + l \<longrightarrow> st (rd_rounds n + 2) fin 3 op)
         else (i = c \<longrightarrow> st 0 start 3 op) \<and> ard_in tag it0 n args stg r 0 0 (i - c) op)"

lemma follows_ard_extra:
  assumes n: "rd_args n" "0 \<le> r" and t: "rd_extra n r" and i: "i = 0 \<or> i = 2" and at: "ard_at tag it0 n args stg r i op"
  shows "follows env tag (drop i (ard_acts it0 n args stg r)) (\<lambda>l. ard_at tag it0 n args stg r (i + l)) (ucg_planc_ucx_allreduce_rd_op_extra env) op"
proof -
  let ?s = "ard_buf args (ard_src args)" and ?d = "ard_buf args (ca_recvbuf args)"
  have S: "ard_acts it0 n args stg r = [Snd (r + 1) ?s, Rcv (r + 1) ?d, Wait]" using t by (simp add: ard_acts_def ard_copy_acts_def Let_def)
  note c = rd_at_extra(4) [OF n t, of it0]
  have args: "op_args op = args" "op_tag op = tag" using at t i by (auto simp: ard_at_def ard_state_def)
  let ?fs = "[if_flag_once UCG_RD_EXTRA_SEND_ar (with_next_peer (ard_isend env (ard_src args))),
    if_flag_once UCG_RD_EXTRA_RECV_ar (with_next_peer (ard_irecv env (ca_recvbuf args))), call_step (ce_testall env)]"
  have e: "ucg_planc_ucx_allreduce_rd_op_extra env op = steps ?fs op"
    by (rule ext) (simp add: ucg_planc_ucx_allreduce_rd_op_extra_def args(1) ard_src_def Let_def)
  have wait: "follows env tag [Wait] (\<lambda>l. ard_at tag it0 n args stg r (Suc (Suc l))) (steps [call_step (ce_testall env)]) op'"
    if "ard_state tag it0 n args r 2 b 0 op'" for op' b
  proof (rule follows_act [where op' = op'])
    show "follows env tag [] (\<lambda>k. ard_at tag it0 n args stg r (Suc (Suc (Suc k)))) (steps []) op'"
      by (rule follows_nil) (use t in \<open>simp add: ard_at_def Let_def\<close>)
    show "ard_at tag it0 n args stg r (Suc (Suc 0)) op'" using t that by (cases b) (auto simp: ard_at_def Let_def)
  qed (simp add: call_step_case)
  have "follows env tag (drop i (ard_acts it0 n args stg r)) (\<lambda>l. ard_at tag it0 n args stg r (i + l)) (steps ?fs) op"
    using i
  proof
    assume i: "i = 2"
    then obtain b where b: "ard_state tag it0 n args r 2 b 0 op" using at t by (auto simp: ard_at_def Let_def)
    have d: "drop 2 (ard_acts it0 n args stg r) = [Wait]" by (simp add: S)
    have skip: "if_flag_once UCG_RD_EXTRA_SEND_ar f op w = Some (UCG_OK, op, w)" "if_flag_once UCG_RD_EXTRA_RECV_ar f op w = Some (UCG_OK, op, w)" for f w
      using b by (auto intro!: flag_clear_step simp: ard_state_def ard_tests)
    have "(\<lambda>l. ard_at tag it0 n args stg r (2 + l)) = (\<lambda>l. ard_at tag it0 n args stg r (Suc (Suc l)))" by simp
    then show ?thesis unfolding i d
      by (simp only:) (rule follows_none_step, rule skip(1), rule follows_none_step, rule skip(2), rule wait [OF b])
  next
    assume i: "i = 0"
    then obtain b where b: "ard_state tag it0 n args r 0 b 0xC0 op" using at t by (auto simp: ard_at_def Let_def)
    let ?it = "\<lambda>m. upd_priv (\<lambda>q. q\<lparr>uo_rd_iter := rd_at it0 n r m\<rparr>)"
    let ?op1 = "?it (Suc 0) (set_flags 0x80 op)" and ?op2 = "?it (Suc (Suc 0)) (set_flags 0 (?it (Suc 0) (set_flags 0x80 op)))"
    have b': "uo_rd_iter (op_priv op) = rd_at it0 n r 0" "op_flags op = 0xC0" using b by (simp_all add: ard_state_def)
    have d: "drop 0 (ard_acts it0 n args stg r) = [Snd (r + 1) ?s, Rcv (r + 1) ?d, Wait]" by (simp add: S)
    show ?thesis unfolding i d
    proof (rule follows_act [where op' = ?op1])
      show "if_flag_once UCG_RD_EXTRA_SEND_ar (with_next_peer (ard_isend env (ard_src args))) op w =
          (case perform env tag (Snd (r + 1) ?s) w of None \<Rightarrow> None | Some (st, w') \<Rightarrow> Some (st, ?op1, w'))" for w
        using b' args by (intro flag_set_step) (simp_all add: ard_tests ard_calls next_peer_step [where iz = it0 and n = n and r = r and k = 0] c)
      show "follows env tag [Rcv (r + 1) ?d, Wait] (\<lambda>k. ard_at tag it0 n args stg r (0 + Suc k))
          (steps [if_flag_once UCG_RD_EXTRA_RECV_ar (with_next_peer (ard_irecv env (ca_recvbuf args))), call_step (ce_testall env)]) ?op1"
      proof (rule follows_act [where op' = ?op2])
        show "if_flag_once UCG_RD_EXTRA_RECV_ar (with_next_peer (ard_irecv env (ca_recvbuf args))) ?op1 w =
            (case perform env tag (Rcv (r + 1) ?d) w of None \<Rightarrow> None | Some (st, w') \<Rightarrow> Some (st, ?op2, w'))" for w
          using b' args by (intro flag_set_step)
            (simp_all add: ard_tests ard_calls next_peer_step [where iz = it0 and n = n and r = r and k = "Suc 0"] c)
        show "follows env tag [Wait] (\<lambda>k. ard_at tag it0 n args stg r (0 + Suc (Suc k))) (steps [call_step (ce_testall env)]) ?op2"
          unfolding add_0 by (rule wait [where b = b]) (use b in \<open>simp add: ard_state_def numeral_2_eq_2\<close>)
      qed simp
    qed simp
  qed
  then show ?thesis unfolding follows_def e .
qed

text \<open>A proxy, from the end of its steps to their beginning.\<close>

definition ard_proxy_tail :: "'w coll_env \<Rightarrow> ucg_coll_args \<Rightarrow> 'w step list" where
  "ard_proxy_tail env args =
     [if_flag_once UCG_RD_PROXY_SEND_ar (with_next_peer (ard_isend env (ca_recvbuf args))), call_step (ce_testall env)]"

definition ard_proxy_steps :: "'w coll_env \<Rightarrow> ucg_coll_args \<Rightarrow> c_ptr \<Rightarrow> 'w step list" where
  "ard_proxy_steps env args staging =
     [if_flag_once UCG_RD_PROXY_RECV_ar (with_next_peer (ard_irecv env staging)), call_step (ce_testall env),
      if_flag_once UCG_RD_PROXY_REDUCE (ard_reduce env staging (ca_recvbuf args)),
      if_flag_until_done UCG_RD_PROXY_BASE_ar (ucg_planc_ucx_allreduce_rd_op_base env)] @ ard_proxy_tail env args"

lemma ard_proxy_eq:
  "op_args op = args \<Longrightarrow> ucg_planc_ucx_allreduce_rd_op_proxy env op = steps (ard_proxy_steps env args (uo_staging_area_stored (op_priv op))) op"
  by (simp add: ucg_planc_ucx_allreduce_rd_op_proxy_def ard_proxy_steps_def ard_proxy_tail_def Let_def)

lemma ard_at_proxy:
  assumes "rd_proxy n r"
  shows "ard_at tag it0 n args stg r i op \<longleftrightarrow>
    (let c = length (ard_copy_acts n args r); st = ard_state tag it0 n args r; start = (ca_recvbuf args, stg);
         l = length (ard_rounds it0 n args stg r 0); fin = ard_bufs it0 n args stg r (rd_rounds n)
     in (i = c \<longrightarrow> st 0 start 0x3F op) \<and> (i = c + 1 \<longrightarrow> st 1 start 0x3B op) \<and>
        (c + 3 \<le> i \<and> i < c + 3 + l \<longrightarrow> ard_in tag it0 n args stg r 1 0x30 (i - (c + 3)) op) \<and>
        (i = c + 4 + l \<longrightarrow> st (rd_rounds n + 2) fin 3 op))"
  using assms by (simp add: ard_at_def rd_proxy_def rd_extra_def)

lemma follows_last_test: "at 0 op \<Longrightarrow> at (Suc 0) op \<Longrightarrow> follows env tag [Wait] at (steps [call_step (ce_testall env)]) op"
  by (rule follows_act [where op' = op, OF _ follows_nil]) (simp_all add: call_step_case)

lemma follows_ard_proxy_tail:
  assumes n: "rd_args n" "0 \<le> r" and t: "rd_proxy n r" and op: "ard_state tag it0 n args r (rd_rounds n + 1) b 0x23 op"
    and at: "\<And>op'. ard_state tag it0 n args r (rd_rounds n + 2) b 3 op' \<Longrightarrow> at 1 op' \<and> at 2 op'"
  shows "follows env tag [Snd (r - 1) (ard_buf args (ca_recvbuf args)), Wait] at (steps (ard_proxy_tail env args)) op"
proof -
  have c: "rd_current (rd_at it0 n r (Suc (rd_rounds n))) = r - 1" by (simp add: rd_at_proxy(4) [OF n t])
  let ?op1 = "upd_priv (\<lambda>q. q\<lparr>uo_rd_iter := rd_at it0 n r (Suc (Suc (rd_rounds n)))\<rparr>) (set_flags 3 op)"
  have o: "op_tag op = tag" "op_args op = args" "uo_rd_iter (op_priv op) = rd_at it0 n r (Suc (rd_rounds n))" "op_flags op = 0x23"
    using op by (simp_all add: ard_state_def)
  have a: "at (Suc 0) ?op1 \<and> at (Suc (Suc 0)) ?op1"
    using at [of ?op1] op by (simp add: ard_state_def numeral_2_eq_2)
  show ?thesis unfolding ard_proxy_tail_def
  proof (rule follows_act [where op' = ?op1])
    show "if_flag_once UCG_RD_PROXY_SEND_ar (with_next_peer (ard_isend env (ca_recvbuf args))) op w =
        (case perform env tag (Snd (r - 1) (ard_buf args (ca_recvbuf args))) w of None \<Rightarrow> None | Some (st, w') \<Rightarrow> Some (st, ?op1, w'))" for w
      using o by (intro flag_set_step)
        (simp_all add: ard_tests ard_calls next_peer_step [where iz = it0 and n = n and r = r and k = "Suc (rd_rounds n)"] c)
    show "follows env tag [Wait] (\<lambda>k. at (Suc k)) (steps [call_step (ce_testall env)]) ?op1"
      by (rule follows_last_test) (use a in simp_all)
  qed simp
qed

text \<open>The rounds of a proxy, from one of their tests on or from the beginning.\<close>

lemma follows_ard_proxy_rounds:
  assumes n: "rd_args n" "r \<in> {0..<n}" and t: "rd_proxy n r" and fl: "ucg_test_flags (op_flags op) UCG_RD_PROXY_BASE_ar"
    and base: "follows env tag as (\<lambda>l. ard_in tag it0 n args stg r 1 0x30 (j + l)) (ucg_planc_ucx_allreduce_rd_op_base env) op"
    and j: "j + length as = length (ard_rounds it0 n args stg r 0)"
    and waits: "\<And>l op'. l < length as \<Longrightarrow> as ! l = Wait \<Longrightarrow> ard_in tag it0 n args stg r 1 0x30 (j + l) op' \<Longrightarrow> at l op'"
    and at: "\<And>op'. ard_state tag it0 n args r (rd_rounds n + 2) (ard_bufs it0 n args stg r (rd_rounds n)) 3 op' \<Longrightarrow>
      at (length as + 1) op' \<and> at (length as + 2) op'"
  shows "follows env tag (as @ [Snd (r - 1) (ard_buf args (ca_recvbuf args)), Wait]) at
    (steps (if_flag_until_done UCG_RD_PROXY_BASE_ar (ucg_planc_ucx_allreduce_rd_op_base env) # ard_proxy_tail env args)) op"
proof -
  let ?clear = "op_step (\<lambda>op. set_flags (ucg_clear_flags (op_flags op) UCG_RD_PROXY_BASE_ar) op)"
  have F: "follows env tag (as @ [Snd (r - 1) (ard_buf args (ca_recvbuf args)), Wait]) 
      (\<lambda>l op'. (l < length as \<longrightarrow> ard_in tag it0 n args stg r 1 0x30 (j + l) op') \<and> (length as < l \<longrightarrow> at l op'))
      (steps (ucg_planc_ucx_allreduce_rd_op_base env # ?clear # ard_proxy_tail env args)) op"
  proof (rule follows_seq [OF base, where ats = "\<lambda>l op'. 0 < l \<longrightarrow> at (length as + l) op'"])
    fix op' assume "ard_in tag it0 n args stg r 1 0x30 (j + length as) op'"
    then have st: "ard_state tag it0 n args r (1 + rd_rounds n) (ard_bufs it0 n args stg r (rd_rounds n)) 0x33 op'"
      using j by (simp add: ard_in_def)
    let ?op = "set_flags 0x23 op'"
    have st': "ard_state tag it0 n args r (rd_rounds n + 1) (ard_bufs it0 n args stg r (rd_rounds n)) 0x23 ?op"
      using st by (simp add: ard_state_def)
    have "follows env tag [Snd (r - 1) (ard_buf args (ca_recvbuf args)), Wait] (\<lambda>l op'. 0 < l \<longrightarrow> at (length as + l) op')
        (steps (ard_proxy_tail env args)) ?op"
      by (rule follows_ard_proxy_tail [OF n(1) _ t st']) (use n(2) at in auto)
    then show "follows env tag [Snd (r - 1) (ard_buf args (ca_recvbuf args)), Wait] (\<lambda>l op'. 0 < l \<longrightarrow> at (length as + l) op')
        (steps (?clear # ard_proxy_tail env args)) op'"
      by (rule follows_none_step [rotated]) (use st in \<open>simp add: op_step_def ard_state_def ard_tests\<close>)
  qed simp_all
  have G: "follows env tag (as @ [Snd (r - 1) (ard_buf args (ca_recvbuf args)), Wait]) at
      (steps (ucg_planc_ucx_allreduce_rd_op_base env # ?clear # ard_proxy_tail env args)) op"
    by (rule follows_waits [OF F]) (auto simp: nth_append less_Suc_eq intro: waits split: if_splits)
  have e: "steps (if_flag_until_done UCG_RD_PROXY_BASE_ar f # fs) op w =
      steps (f # op_step (\<lambda>op. set_flags (ucg_clear_flags (op_flags op) UCG_RD_PROXY_BASE_ar) op) # fs) op w" for f fs w
    by (rule steps_until_done [OF fl])
  show ?thesis using G unfolding follows_def e .
qed

lemma ard_proxy_acts:
  fixes args :: ucg_coll_args and n :: c_int and r :: ucg_rank_t and stg :: c_ptr and it0 :: ucg_algo_rd_iter
  assumes "rd_proxy n r"
  defines "c \<equiv> length (ard_copy_acts n args r)" and "R \<equiv> ard_rounds it0 n args stg r 0"
    and "Z \<equiv> [Snd (r - 1) (ard_buf args (ca_recvbuf args)), Wait]"
  shows "drop c (ard_acts it0 n args stg r) = Rcv (r - 1) (ard_buf args stg) # Wait # ard_red args stg (ca_recvbuf args) # R @ Z"
    and "drop (c + 1) (ard_acts it0 n args stg r) = Wait # ard_red args stg (ca_recvbuf args) # R @ Z"
    and "j \<le> length R \<Longrightarrow> drop (c + 3 + j) (ard_acts it0 n args stg r) = drop j R @ Z"
    and "drop (c + 4 + length R) (ard_acts it0 n args stg r) = [Wait]"
proof -
  have t: "\<not> rd_extra n r" using assms(1) by (simp add: rd_proxy_def rd_extra_def)
  have S: "ard_acts it0 n args stg r = ard_copy_acts n args r @ [Rcv (r - 1) (ard_buf args stg), Wait, ard_red args stg (ca_recvbuf args)] @ R @ Z"
    using assms(1) t by (simp add: ard_acts_def R_def Z_def Let_def)
  show "drop c (ard_acts it0 n args stg r) = Rcv (r - 1) (ard_buf args stg) # Wait # ard_red args stg (ca_recvbuf args) # R @ Z"
    "drop (c + 1) (ard_acts it0 n args stg r) = Wait # ard_red args stg (ca_recvbuf args) # R @ Z"
    "drop (c + 4 + length R) (ard_acts it0 n args stg r) = [Wait]"
    unfolding S by (simp_all add: c_def Z_def eval_nat_numeral)
  show "drop (c + 3 + j) (ard_acts it0 n args stg r) = drop j R @ Z" if "j \<le> length R"
    unfolding S using that by (simp add: c_def eval_nat_numeral)
qed

lemma follows_ard_proxy_mid:
  assumes n: "rd_args n" "r \<in> {0..<n}" and env: "ce_myrank env = r" and ok: "ard_copy_succeeds env args stg" and t: "rd_proxy n r"
    and op: "ard_state tag it0 n args r 1 (ca_recvbuf args, stg) 0x3B op"
  shows "follows env tag (drop (length (ard_copy_acts n args r) + 1) (ard_acts it0 n args stg r))
    (\<lambda>l. ard_at tag it0 n args stg r (length (ard_copy_acts n args r) + 1 + l))
    (steps (tl (ard_proxy_steps env args stg))) op"
proof -
  let ?c = "length (ard_copy_acts n args r)" and ?R = "ard_rounds it0 n args stg r 0"
  have r: "r \<in> rd_members n" using n(2) t by (simp add: rd_members_def rd_extra_def rd_proxy_def)
  have o: "op_tag op = tag" "op_args op = args" "op_flags op = 0x3B" using op by (simp_all add: ard_state_def)
  let ?op1 = "set_flags 0x33 op"
  have op1: "ard_state tag it0 n args r 1 (ca_recvbuf args, stg) (0x30 OR 3) ?op1" using op by (simp add: ard_state_def)
  have B: "follows env tag ?R (\<lambda>l. ard_in tag it0 n args stg r 1 0x30 (0 + l)) (ucg_planc_ucx_allreduce_rd_op_base env) ?op1"
    unfolding add_0 by (rule follows_base_start [OF n(1) r env _ ok _ op1]) (use t in simp_all)
  have fl: "ucg_test_flags (op_flags ?op1) UCG_RD_PROXY_BASE_ar" by (simp add: ard_tests)
  have rest: "follows env tag (?R @ [Snd (r - 1) (ard_buf args (ca_recvbuf args)), Wait])
      (\<lambda>k. ard_at tag it0 n args stg r (?c + 1 + Suc (Suc k)))
      (steps (if_flag_until_done UCG_RD_PROXY_BASE_ar (ucg_planc_ucx_allreduce_rd_op_base env) # ard_proxy_tail env args)) ?op1"
    by (rule follows_ard_proxy_rounds [OF n t fl B]) (auto simp: ard_at_proxy [OF t] Let_def eval_nat_numeral)
  show ?thesis unfolding ard_proxy_acts(2) [OF t] ard_proxy_steps_def append_Cons append_Nil list.sel
  proof (rule follows_act [where op' = op])
    show "follows env tag (ard_red args stg (ca_recvbuf args) # ?R @ [Snd (r - 1) (ard_buf args (ca_recvbuf args)), Wait])
      (\<lambda>k. ard_at tag it0 n args stg r (?c + 1 + Suc k))
      (steps (if_flag_once UCG_RD_PROXY_REDUCE (ard_reduce env stg (ca_recvbuf args)) #
        if_flag_until_done UCG_RD_PROXY_BASE_ar (ucg_planc_ucx_allreduce_rd_op_base env) # ard_proxy_tail env args)) op"
    proof (rule follows_act [where op' = ?op1, OF _ rest])
      show "if_flag_once UCG_RD_PROXY_REDUCE (ard_reduce env stg (ca_recvbuf args)) op w =
          (case perform env tag (ard_red args stg (ca_recvbuf args)) w of None \<Rightarrow> None | Some (st, w') \<Rightarrow> Some (st, ?op1, w'))" for w
        using o by (intro flag_set_step) (simp_all add: ard_tests ard_calls ard_red_def)
    qed (simp add: ard_red_def)
    show "ard_at tag it0 n args stg r (?c + 1 + 0) op" using op by (simp add: ard_at_proxy [OF t] Let_def)
  qed (simp add: call_step_case)
qed

lemma ard_proxy_wait:
  assumes t: "rd_proxy n r" and i: "i < length (ard_acts it0 n args stg r)" "ard_acts it0 n args stg r ! i = Wait"
  shows "i = length (ard_copy_acts n args r) + 1 \<or> i = length (ard_copy_acts n args r) + 4 + length (ard_rounds it0 n args stg r 0) \<or>
    (\<exists>k < rd_rounds n. i = length (ard_copy_acts n args r) + 3 + (4 * k + 2))"
proof -
  let ?C = "ard_copy_acts n args r" and ?R = "ard_rounds it0 n args stg r 0"
  let ?X = "[Rcv (r - 1) (ard_buf args stg), Wait, ard_red args stg (ca_recvbuf args)]"
  let ?Z = "[Snd (r - 1) (ard_buf args (ca_recvbuf args)), Wait]"
  have S: "ard_acts it0 n args stg r = ?C @ ?X @ ?R @ ?Z" using t by (simp add: ard_acts_def rd_proxy_def rd_extra_def Let_def)
  have "Wait \<notin> set ?C" by (simp add: ard_copy_acts_def)
  then have ge: "length ?C \<le> i" using i(2) unfolding S by (metis nth_append nth_mem not_less)
  define j where "j = i - length ?C"
  have ij: "i = length ?C + j" using ge by (simp add: j_def)
  have j: "j < 3 + length ?R + 2" "(?X @ ?R @ ?Z) ! j = Wait" using i unfolding S ij by simp_all
  consider "j < 3" | "3 \<le> j" "j < 3 + length ?R" | "j = 3 + length ?R" | "j = 4 + length ?R" using j(1) by linarith
  then show ?thesis
  proof cases
    case 1
    then have "?X ! j = Wait" using j(2) by (simp add: nth_append del: append_Cons append_Nil)
    moreover have "j = 0 \<or> j = 1 \<or> j = 2" using 1 by linarith
    ultimately have "j = 1" by (auto simp: ard_red_def)
    then show ?thesis using ij by simp
  next
    case 2
    then have "?R ! (j - 3) = Wait" using j(2) by (simp add: nth_append numeral_3_eq_3 del: append_Cons append_Nil split: if_splits)
    moreover have "j - 3 < length ?R" using 2 by linarith
    ultimately obtain k where "k < rd_rounds n" "j - 3 = 4 * k + 2" using ard_rounds_wait by blast
    then show ?thesis using ij 2(1) by (intro disjI2 exI [where x = k]) simp
  next
    case 3
    then have "(?X @ ?R @ ?Z) ! j = Snd (r - 1) (ard_buf args (ca_recvbuf args))" by (simp add: nth_append del: append_Cons append_Nil)
    then show ?thesis using j(2) by simp
  qed (use ij in simp)
qed

lemma follows_ard_proxy:
  assumes n: "rd_args n" "r \<in> {0..<n}" and env: "ce_myrank env = r" and ok: "ard_copy_succeeds env args stg" and t: "rd_proxy n r"
    and at: "ard_at tag it0 n args stg r i op"
    and i: "i = length (ard_copy_acts n args r) \<or> i < length (ard_acts it0 n args stg r) \<and> ard_acts it0 n args stg r ! i = Wait"
  shows "\<exists>ex. (ex = [] \<or> ex = [Wait] \<and> length (ard_copy_acts n args r) < i) \<and>
    follows env tag (ex @ drop i (ard_acts it0 n args stg r)) (\<lambda>l. ard_at tag it0 n args stg r (i + (l - length ex)))
      (ucg_planc_ucx_allreduce_rd_op_proxy env) op"
proof -
  let ?c = "length (ard_copy_acts n args r)" and ?R = "ard_rounds it0 n args stg r 0" and ?S = "ard_acts it0 n args stg r"
  let ?at = "ard_at tag it0 n args stg r" and ?K = "rd_rounds n"
  note acts = ard_proxy_acts [OF t] and atp = ard_at_proxy [OF t]
  have r: "r \<in> rd_members n" using n(2) t by (simp add: rd_members_def rd_extra_def rd_proxy_def)
  have result: ?thesis if "ex = [] \<or> ex = [Wait] \<and> ?c < i" "op_args op = args" "uo_staging_area_stored (op_priv op) = s"
    "follows env tag (ex @ drop i ?S) (\<lambda>l. ?at (i + (l - length ex))) (steps (ard_proxy_steps env args s)) op" for ex s
  proof -
    have e: "ucg_planc_ucx_allreduce_rd_op_proxy env op = steps (ard_proxy_steps env args s) op" using ard_proxy_eq [OF that(2), of env] that(3) by simp
    have "follows env tag (ex @ drop i ?S) (\<lambda>l. ?at (i + (l - length ex))) (ucg_planc_ucx_allreduce_rd_op_proxy env) op"
      using that(4) unfolding follows_def e .
    then show ?thesis using that(1) by blast
  qed
  have skip: "if_flag_once UCG_RD_PROXY_RECV_ar f op w = Some (UCG_OK, op, w)" if "op_flags op = fl" "fl \<in> {0x3B, 0x30, 3}" for fl f w
    using that by (auto intro!: flag_clear_step simp: ard_tests)
  have test: "call_step (ce_testall env) op w = (case perform env tag Wait w of None \<Rightarrow> None | Some (st, w') \<Rightarrow> Some (st, op, w'))" for w
    by (simp add: call_step_case)
  consider "i = ?c" | "i = ?c + 1" | "i = ?c + 4 + length ?R" | k where "k < ?K" "i = ?c + 3 + (4 * k + 2)"
    using i ard_proxy_wait [OF t] by blast
  then show ?thesis
  proof cases
    case 1
    then have st: "ard_state tag it0 n args r 0 (ca_recvbuf args, stg) 0x3F op" using at by (simp add: atp Let_def)
    then have o: "op_tag op = tag" "op_args op = args" "op_flags op = 0x3F" "uo_rd_iter (op_priv op) = rd_at it0 n r 0"
      "uo_staging_area_stored (op_priv op) = stg" by (simp_all add: ard_state_def)
    have c: "rd_current (rd_at it0 n r 0) = r - 1" using n by (simp add: rd_at_proxy(4) [OF n(1) _ t])
    let ?op1 = "upd_priv (\<lambda>q. q\<lparr>uo_rd_iter := rd_at it0 n r (Suc 0)\<rparr>) (set_flags 0x3B op)"
    have op1: "ard_state tag it0 n args r 1 (ca_recvbuf args, stg) 0x3B ?op1" using st by (simp add: ard_state_def)
    have tl: "ard_proxy_steps env args stg = if_flag_once UCG_RD_PROXY_RECV_ar (with_next_peer (ard_irecv env stg)) # tl (ard_proxy_steps env args stg)"
      by (simp add: ard_proxy_steps_def)
    have "follows env tag (Rcv (r - 1) (ard_buf args stg) # drop (?c + 1) ?S) (\<lambda>l. ?at (i + (l - 0)))
        (steps (if_flag_once UCG_RD_PROXY_RECV_ar (with_next_peer (ard_irecv env stg)) # tl (ard_proxy_steps env args stg))) op"
    proof (rule follows_act [where op' = ?op1])
      show "if_flag_once UCG_RD_PROXY_RECV_ar (with_next_peer (ard_irecv env stg)) op w =
          (case perform env tag (Rcv (r - 1) (ard_buf args stg)) w of None \<Rightarrow> None | Some (st, w') \<Rightarrow> Some (st, ?op1, w'))" for w
        using o by (intro flag_set_step)
          (simp_all add: ard_tests ard_calls next_peer_step [where iz = it0 and n = n and r = r and k = 0] c)
      show "follows env tag (drop (?c + 1) ?S) (\<lambda>k. ?at (i + (Suc k - 0))) (steps (tl (ard_proxy_steps env args stg))) ?op1"
        using follows_ard_proxy_mid [OF n env ok t op1] 1 by simp
    qed simp
    then show ?thesis unfolding tl [symmetric]
      by (intro result [of "[]" stg]) (use o 1 acts in simp_all)
  next
    case 2
    then have st: "ard_state tag it0 n args r 1 (ca_recvbuf args, stg) 0x3B op" using at by (simp add: atp Let_def)
    then have o: "op_args op = args" "op_flags op = 0x3B" "uo_staging_area_stored (op_priv op) = stg" by (simp_all add: ard_state_def)
    have tl: "ard_proxy_steps env args stg = if_flag_once UCG_RD_PROXY_RECV_ar (with_next_peer (ard_irecv env stg)) # tl (ard_proxy_steps env args stg)"
      by (simp add: ard_proxy_steps_def)
    have "follows env tag (drop i ?S) (\<lambda>l. ?at (i + (l - 0))) (steps (ard_proxy_steps env args stg)) op"
      by (subst tl, rule follows_none_step, rule skip [OF o(2)]) (use follows_ard_proxy_mid [OF n env ok t st] 2 in simp_all)
    then show ?thesis by (intro result [of "[]" stg]) (use o in simp_all)
  next
    case 3
    let ?s = "uo_staging_area_stored (op_priv op)"
    have st: "ard_state tag it0 n args r (?K + 2) (ard_bufs it0 n args stg r ?K) 3 op" using at 3 by (simp add: atp Let_def)
    then have o: "op_args op = args" "op_flags op = 3" by (simp_all add: ard_state_def)
    have more: "if_flag_once UCG_RD_PROXY_REDUCE f op w = Some (UCG_OK, op, w)" "if_flag_until_done UCG_RD_PROXY_BASE_ar g op w = Some (UCG_OK, op, w)"
      "if_flag_once UCG_RD_PROXY_SEND_ar h op w = Some (UCG_OK, op, w)" for f g h w
      using o by (auto intro!: flag_clear_step until_done_clear_step simp: ard_tests)
    have "follows env tag (Wait # drop i ?S) (\<lambda>l. ?at (i + (l - 1))) (steps (ard_proxy_steps env args ?s)) op"
      unfolding ard_proxy_steps_def ard_proxy_tail_def append_Cons append_Nil 3 acts(4)
    proof (rule follows_none_step, rule skip [OF o(2)], simp, rule follows_act [where op' = op], rule test)
      show "follows env tag [Wait] (\<lambda>k. ?at (?c + 4 + length ?R + (Suc k - 1)))
        (steps [if_flag_once UCG_RD_PROXY_REDUCE (ard_reduce env ?s (ca_recvbuf args)),
          if_flag_until_done UCG_RD_PROXY_BASE_ar (ucg_planc_ucx_allreduce_rd_op_base env),
          if_flag_once UCG_RD_PROXY_SEND_ar (with_next_peer (ard_isend env (ca_recvbuf args))), call_step (ce_testall env)]) op"
        by (rule follows_none_step, rule more(1), rule follows_none_step, rule more(2), rule follows_none_step, rule more(3),
          rule follows_last_test) (use at 3 in \<open>simp_all add: atp Let_def\<close>)
    qed (use at 3 in simp)
    then show ?thesis by (intro result [of "[Wait]" ?s]) (use o 3 in simp_all)
  next
    case 4
    let ?s = "uo_staging_area_stored (op_priv op)" and ?j = "4 * k + 2"
    have j: "?j < length ?R" using 4(1) by (simp add: length_ard_rounds)
    have mid: "ard_in tag it0 n args stg r 1 0x30 ?j op"
    proof -
      have "i - (?c + 3) = ?j" "?c + 3 \<le> i" "i < ?c + 3 + length ?R" using 4(2) j by simp_all
      then show ?thesis using at unfolding atp Let_def by metis
    qed
    then have st: "ard_state tag it0 n args r (1 + k) (ard_bufs it0 n args stg r k) 0x30 op" using 4(1) by (simp add: ard_in_def)
    then have o: "op_args op = args" "op_flags op = 0x30" by (simp_all add: ard_state_def)
    have red: "if_flag_once UCG_RD_PROXY_REDUCE f op w = Some (UCG_OK, op, w)" for f w
      using o by (auto intro!: flag_clear_step simp: ard_tests)
    have fl: "ucg_test_flags (op_flags op) UCG_RD_PROXY_BASE_ar" using o by (simp add: ard_tests)
    have B: "follows env tag (drop ?j ?R) (\<lambda>l. ard_in tag it0 n args stg r 1 0x30 (?j + l)) (ucg_planc_ucx_allreduce_rd_op_base env) op"
      by (rule follows_base_resume [OF n(1) r env _ ok _ 4(1) mid]) (use t in simp_all)
    have d: "drop i ?S = drop ?j ?R @ [Snd (r - 1) (ard_buf args (ca_recvbuf args)), Wait]" unfolding 4(2) by (rule acts(3)) (use j in simp)
    have rest: "follows env tag (drop ?j ?R @ [Snd (r - 1) (ard_buf args (ca_recvbuf args)), Wait]) (\<lambda>k. ?at (i + (Suc k - 1)))
        (steps (if_flag_until_done UCG_RD_PROXY_BASE_ar (ucg_planc_ucx_allreduce_rd_op_base env) # ard_proxy_tail env args)) op"
    proof (rule follows_ard_proxy_rounds [OF n t fl B])
      fix l op' assume l: "l < length (drop ?j ?R)" and a: "ard_in tag it0 n args stg r 1 0x30 (?j + l) op'"
      have e: "i + (Suc l - 1) - (?c + 3) = ?j + l" "i + (Suc l - 1) \<noteq> ?c" "i + (Suc l - 1) \<noteq> ?c + 1" "i + (Suc l - 1) \<noteq> ?c + 4 + length ?R"
        using 4(2) l by simp_all
      show "?at (i + (Suc l - 1)) op'" unfolding atp Let_def e(1) using e(2-4) a by blast
    qed (use j 4(2) in \<open>auto simp: atp Let_def\<close>)
    have "follows env tag (Wait # drop i ?S) (\<lambda>l. ?at (i + (l - 1))) (steps (ard_proxy_steps env args ?s)) op"
      unfolding ard_proxy_steps_def append_Cons append_Nil d
      by (rule follows_none_step, rule skip [OF o(2)], simp, rule follows_act [where op' = op], rule test, rule follows_none_step, rule red, rule rest) (use at in simp)
    then show ?thesis by (intro result [of "[Wait]" ?s]) (use o 4 in simp_all)
  qed
qed

subsection \<open>Progress\<close>

lemma ard_at_status [simp]: "ard_at tag it0 n args stg r i (op_set_status st op) \<longleftrightarrow> ard_at tag it0 n args stg r i op"
  by (simp add: ard_at_def Let_def)

text \<open>Where an operation may be continued.\<close>

lemma ard_stops:
  assumes i: "i = length (ard_copy_acts n args r) \<or> i < length (ard_acts it0 n args stg r) \<and> ard_acts it0 n args stg r ! i = Wait"
  shows "rd_extra n r \<Longrightarrow> i = 0 \<or> i = 2"
    and "rd_proxy n r \<Longrightarrow> i = length (ard_copy_acts n args r) \<or> i = length (ard_copy_acts n args r) + 1 \<or>
      i = length (ard_copy_acts n args r) + 4 + length (ard_rounds it0 n args stg r 0) \<or>
      (\<exists>k < rd_rounds n. i = length (ard_copy_acts n args r) + 3 + (4 * k + 2))"
    and "\<not> rd_extra n r \<Longrightarrow> \<not> rd_proxy n r \<Longrightarrow> i = length (ard_copy_acts n args r) \<or>
      (\<exists>k < rd_rounds n. i = length (ard_copy_acts n args r) + (4 * k + 2))"
proof -
  let ?C = "ard_copy_acts n args r" and ?R = "ard_rounds it0 n args stg r 0"
  show "i = 0 \<or> i = 2" if t: "rd_extra n r"
  proof (cases "i = length ?C")
    case False
    then have "i < 3" "[Snd (r + 1) (ard_buf args (ard_src args)), Rcv (r + 1) (ard_buf args (ca_recvbuf args)), Wait] ! i = Wait"
      using t i by (simp_all add: ard_acts_def ard_copy_acts_def Let_def)
    moreover have "i = 0 \<or> i = 1 \<or> i = 2" using \<open>i < 3\<close> by linarith
    ultimately show ?thesis by auto
  qed (use t in \<open>simp add: ard_copy_acts_def\<close>)
  show "i = length ?C \<or> i = length ?C + 1 \<or> i = length ?C + 4 + length ?R \<or> (\<exists>k < rd_rounds n. i = length ?C + 3 + (4 * k + 2))"
    if "rd_proxy n r" using i ard_proxy_wait [OF that] by blast
  show "i = length ?C \<or> (\<exists>k < rd_rounds n. i = length ?C + (4 * k + 2))" if t: "\<not> rd_extra n r" "\<not> rd_proxy n r"
  proof (cases "i = length ?C")
    case False
    have S: "ard_acts it0 n args stg r = ?C @ ?R" using t by (simp add: ard_acts_def Let_def)
    have w: "i < length (?C @ ?R)" "(?C @ ?R) ! i = Wait" using i False unfolding S by simp_all
    have ge: "length ?C \<le> i"
    proof (rule ccontr)
      assume "\<not> length ?C \<le> i"
      then have "i < length ?C" "?C ! i = Wait" using w(2) by (simp_all add: nth_append)
      then have "Wait \<in> set ?C" by (metis nth_mem)
      then show False by (simp add: ard_copy_acts_def split: if_splits)
    qed
    have "i - length ?C < length ?R" "?R ! (i - length ?C) = Wait" using w ge by (simp_all add: nth_append)
    then obtain k where "k < rd_rounds n" "i - length ?C = 4 * k + 2" by (rule ard_rounds_wait)
    then show ?thesis using ge by (intro disjI2 exI [where x = k]) linarith
  qed simp
qed

lemma ard_at_iter:
  assumes at: "ard_at tag it0 n args stg r i op"
    and i: "i = length (ard_copy_acts n args r) \<or> i < length (ard_acts it0 n args stg r) \<and> ard_acts it0 n args stg r ! i = Wait"
  shows "\<exists>k. uo_rd_iter (op_priv op) = rd_at it0 n r k"
proof -
  let ?C = "ard_copy_acts n args r" and ?R = "ard_rounds it0 n args stg r 0"
  have "\<exists>m b fl. ard_state tag it0 n args r m b fl op"
  proof -
    consider "rd_extra n r" | "\<not> rd_extra n r" "rd_proxy n r" | "\<not> rd_extra n r" "\<not> rd_proxy n r" by blast
    then show ?thesis
    proof cases
      case 1
      then show ?thesis using at ard_stops(1) [OF i 1] by (auto simp: ard_at_def Let_def)
    next
      case 2
      note a = at [unfolded ard_at_proxy [OF 2(2)] Let_def]
      consider "i = length ?C" | "i = length ?C + 1" | "i = length ?C + 4 + length ?R" | k where "k < rd_rounds n" "i = length ?C + 3 + (4 * k + 2)"
        using ard_stops(2) [OF i 2(2)] by blast
      then show ?thesis
      proof cases
        case 4
        have "i - (length ?C + 3) = 4 * k + 2" "length ?C + 3 \<le> i" "i < length ?C + 3 + length ?R" using 4 by (simp_all add: length_ard_rounds)
        then have "ard_in tag it0 n args stg r 1 0x30 (4 * k + 2) op" using a by metis
        then show ?thesis using 4(1) unfolding ard_in_def by blast
      qed (use a in blast)+
    next
      case 3
      have a: "i = length ?C \<longrightarrow> ard_state tag it0 n args r 0 (ca_recvbuf args, stg) 3 op" "ard_in tag it0 n args stg r 0 0 (i - length ?C) op"
        using at 3 by (simp_all add: ard_at_def Let_def)
      show ?thesis using ard_stops(3) [OF i 3]
      proof
        assume "\<exists>k < rd_rounds n. i = length ?C + (4 * k + 2)"
        then obtain k where "k < rd_rounds n" "i - length ?C = 4 * k + 2" by auto
        then show ?thesis using a(2) unfolding ard_in_def by metis
      qed (use a in blast)
    qed
  qed
  then show ?thesis by (auto simp: ard_state_def)
qed

lemma follows_ard_base:
  assumes n: "rd_args n" "r \<in> {0..<n}" and env: "ce_myrank env = r" and ok: "ard_copy_succeeds env args stg"
    and t: "\<not> rd_extra n r" "\<not> rd_proxy n r" and at: "ard_at tag it0 n args stg r i op"
    and i: "i = length (ard_copy_acts n args r) \<or> i < length (ard_acts it0 n args stg r) \<and> ard_acts it0 n args stg r ! i = Wait"
  shows "follows env tag (drop i (ard_acts it0 n args stg r)) (\<lambda>l. ard_at tag it0 n args stg r (i + l)) (ucg_planc_ucx_allreduce_rd_op_base env) op"
proof -
  let ?C = "ard_copy_acts n args r" and ?R = "ard_rounds it0 n args stg r 0"
  have r: "r \<in> rd_members n" using n(2) t by (simp add: rd_members_def)
  have S: "ard_acts it0 n args stg r = ?C @ ?R" using t by (simp add: ard_acts_def Let_def)
  have a: "ard_at tag it0 n args stg r i op \<longleftrightarrow> (i = length ?C \<longrightarrow> ard_state tag it0 n args r 0 (ca_recvbuf args, stg) 3 op) \<and>
      ard_in tag it0 n args stg r 0 0 (i - length ?C) op" for i op
    using t by (simp add: ard_at_def Let_def)
  have result: ?thesis if "i = length ?C + j" "j = 0 \<or> (\<exists>k < rd_rounds n. j = 4 * k + 2)" and
    f: "follows env tag (drop i (ard_acts it0 n args stg r)) (\<lambda>l. ard_in tag it0 n args stg r 0 0 (j + l)) (ucg_planc_ucx_allreduce_rd_op_base env) op" for j
  proof (rule follows_waits [OF f])
    fix l op' assume l: "l = length (drop i (ard_acts it0 n args stg r)) \<or>
        l < length (drop i (ard_acts it0 n args stg r)) \<and> drop i (ard_acts it0 n args stg r) ! l = Wait"
      and in': "ard_in tag it0 n args stg r 0 0 (j + l) op'"
    have "ard_state tag it0 n args r 0 (ca_recvbuf args, stg) 3 op'" if "j + l = 0"
    proof -
      have "?R \<noteq> [] \<Longrightarrow> ?R ! 0 \<noteq> Wait"
        by (cases "rd_rounds n") (auto simp: ard_rounds_def ard_last_def ard_round_def Let_def upt_conv_Cons simp del: upt_Suc split: prod.splits if_splits)
      then have "?R = []" using l that \<open>i = length ?C + j\<close> by (auto simp: S)
      then have "rd_rounds n = 0" using length_ard_rounds [of 0 n it0 args stg r] by simp
      then show ?thesis using in' that \<open>?R = []\<close> by (simp add: ard_in_def)
    qed
    then show "ard_at tag it0 n args stg r (i + l) op'" using in' that(1) by (simp add: a)
  qed
  show ?thesis
  proof (cases "i = length ?C")
    case True
    then have "ard_state tag it0 n args r 0 (ca_recvbuf args, stg) (0 OR 3) op" using at by (simp add: a)
    from follows_base_start [OF n(1) r env _ ok _ this] show ?thesis using t True by (intro result [of 0]) (simp_all add: S)
  next
    case False
    then obtain k where k: "k < rd_rounds n" "i = length ?C + (4 * k + 2)" using ard_stops(3) [OF i t] by blast
    have d: "drop i (ard_acts it0 n args stg r) = drop (4 * k + 2) ?R" using k(2) by (simp add: S)
    have "ard_in tag it0 n args stg r 0 0 (4 * k + 2) op" using at k(2) by (simp add: a)
    then have F: "follows env tag (drop i (ard_acts it0 n args stg r)) (\<lambda>l. ard_in tag it0 n args stg r 0 0 (4 * k + 2 + l))
        (ucg_planc_ucx_allreduce_rd_op_base env) op"
      unfolding d by (rule follows_base_resume [OF n(1) r env _ ok _ k(1), rotated 2]) (use t in simp_all)
    show ?thesis by (rule result [OF k(2) _ F]) (use k(1) in blast)
  qed
qed

lemma ard_progress_follows:
  assumes n: "rd_args n" "r \<in> {0..<n}" and env: "ce_myrank env = r" and ok: "ard_copy_succeeds env args stg"
    and at: "ard_at tag it0 n args stg r i op"
    and i: "i = length (ard_copy_acts n args r) \<or> i < length (ard_acts it0 n args stg r) \<and> ard_acts it0 n args stg r ! i = Wait"
  shows "\<exists>ex. (ex = [] \<or> ex = [Wait] \<and> length (ard_copy_acts n args r) < i) \<and>
    follows env tag (ex @ drop i (ard_acts it0 n args stg r)) (\<lambda>l. ard_at tag it0 n args stg r (i + (l - length ex)))
      (ucg_planc_ucx_allreduce_rd_op_progress env) op"
proof -
  have r: "0 \<le> r" using n by simp
  let ?S = "ard_acts it0 n args stg r"
  have ty: "rd_type (uo_rd_iter (op_priv op)) =
      (if rd_extra n r then UCG_ALGO_RD_ITER_EXTRA else if rd_proxy n r then UCG_ALGO_RD_ITER_PROXY else UCG_ALGO_RD_ITER_BASE)"
    using ard_at_iter [OF at i] rd_type_at [OF n(1) r, of it0] by auto
  have prog: "follows env tag as (\<lambda>l. ard_at tag it0 n args stg r (h l)) (ucg_planc_ucx_allreduce_rd_op_progress env) op"
    if f: "follows env tag as (\<lambda>l. ard_at tag it0 n args stg r (h l)) f op"
      and e: "\<And>w. ucg_planc_ucx_allreduce_rd_op_progress env op w = progress_end (f op w)" for as h f
  proof -
    have "follows env tag as (\<lambda>l. ard_at tag it0 n args stg r (h l)) (\<lambda>op w. progress_end (f op w)) op"
      by (rule follows_progress_end [OF f]) simp
    then show ?thesis unfolding follows_def e .
  qed
  consider "rd_extra n r" | "\<not> rd_extra n r" "rd_proxy n r" | "\<not> rd_extra n r" "\<not> rd_proxy n r" by blast
  then show ?thesis
  proof cases
    case 1
    have "ucg_planc_ucx_allreduce_rd_op_progress env op w = progress_end (ucg_planc_ucx_allreduce_rd_op_extra env op w)" for w
      using 1 ty by (simp add: ucg_planc_ucx_allreduce_rd_op_progress_def)
    then have "follows env tag ([] @ drop i ?S) (\<lambda>l. ard_at tag it0 n args stg r (i + (l - length []))) (ucg_planc_ucx_allreduce_rd_op_progress env) op"
      unfolding append_Nil list.size diff_zero by (rule prog [OF follows_ard_extra [OF n(1) r 1 ard_stops(1) [OF i 1] at]])
    then show ?thesis by blast
  next
    case 2
    have "ucg_planc_ucx_allreduce_rd_op_progress env op w = progress_end (ucg_planc_ucx_allreduce_rd_op_proxy env op w)" for w
      using 2 ty by (simp add: ucg_planc_ucx_allreduce_rd_op_progress_def)
    note e = this
    obtain ex where ex: "ex = [] \<or> ex = [Wait] \<and> length (ard_copy_acts n args r) < i"
      and F: "follows env tag (ex @ drop i ?S) (\<lambda>l. ard_at tag it0 n args stg r (i + (l - length ex))) (ucg_planc_ucx_allreduce_rd_op_proxy env) op"
      using follows_ard_proxy [OF n env ok 2(2) at i] by (elim exE conjE)
    have "follows env tag (ex @ drop i ?S) (\<lambda>l. ard_at tag it0 n args stg r (i + (l - length ex))) (ucg_planc_ucx_allreduce_rd_op_progress env) op"
      by (rule prog [OF F e])
    with ex show ?thesis by (intro exI conjI)
  next
    case 3
    have "ucg_planc_ucx_allreduce_rd_op_progress env op w = progress_end (ucg_planc_ucx_allreduce_rd_op_base env op w)" for w
      using 3 ty by (simp add: ucg_planc_ucx_allreduce_rd_op_progress_def)
    then have "follows env tag ([] @ drop i ?S) (\<lambda>l. ard_at tag it0 n args stg r (i + (l - length []))) (ucg_planc_ucx_allreduce_rd_op_progress env) op"
      unfolding append_Nil list.size diff_zero by (rule prog [OF follows_ard_base [OF n env ok 3 at i]])
    then show ?thesis by blast
  qed
qed

subsection \<open>Trigger\<close>

definition ard_ready :: "c_int \<Rightarrow> ucg_algo_rd_iter \<Rightarrow> c_int \<Rightarrow> ucg_coll_args \<Rightarrow> c_ptr \<Rightarrow> ucg_rank_t \<Rightarrow> ucx_op \<Rightarrow> bool" where
  "ard_ready tag it0 n args stg r op \<longleftrightarrow>
     op_id op = tag \<and> op_args op = args \<and> (\<exists>k. uo_rd_iter (op_priv op) = rd_at it0 n r k) \<and>
     (\<not> rd_extra n r \<longrightarrow> (\<exists>dt. ca_dt args = Some dt \<and> c_offset (uo_staging_area (op_priv op)) (- cd_true_lb dt) = stg))"

lemma ard_trigger_starts:
  assumes n: "rd_args n" "r \<in> {0..<n}" and op: "ard_ready tag it0 n args stg r op"
  shows "\<exists>op0 op1 fin. ard_at tag it0 n args stg r (length (ard_copy_acts n args r)) op0 \<and> (\<forall>st. st \<noteq> UCG_INPROGRESS \<longrightarrow> fin st = st) \<and>
    (\<forall>w. ucg_planc_ucx_allreduce_rd_op_trigger env op w =
      (case run_acts env tag (ard_copy_acts n args r) (ce_state_reset env w) of
         None \<Rightarrow> None
       | Some (st, k, w') \<Rightarrow> if st \<noteq> UCG_OK then Some (fin st, op1, w')
           else trigger_end (ucg_planc_ucx_allreduce_rd_op_progress env op0 w')))"
proof -
  have r: "0 \<le> r" using n by simp
  define op1 where "op1 = upd_priv (\<lambda>p. p\<lparr>uo_rd_iter := ucg_algo_rd_iter_reset (uo_rd_iter p)\<rparr>) (fst (ucg_planc_ucx_op_reset env op undefined))"
  obtain k where k: "uo_rd_iter (op_priv op) = rd_at it0 n r k" using op by (auto simp: ard_ready_def)
  have o: "op_args op1 = args" "op_tag op1 = tag" "uo_rd_iter (op_priv op1) = rd_at it0 n r 0" "uo_staging_area (op_priv op1) = uo_staging_area (op_priv op)"
    using op k rd_iter_reset_at [OF n(1) r] by (simp_all add: op1_def ard_ready_def ucg_planc_ucx_op_reset_def op_set_status_def)
  have ty: "rd_type (rd_at it0 n r 0) =
      (if rd_extra n r then UCG_ALGO_RD_ITER_EXTRA else if rd_proxy n r then UCG_ALGO_RD_ITER_PROXY else UCG_ALGO_RD_ITER_BASE)"
    by (rule rd_type_at [OF n(1) r])
  have trig: "ucg_planc_ucx_allreduce_rd_op_trigger env op w =
      do { (status, op, w) \<leftarrow> (if rd_extra n r then Some (UCG_OK, set_flags UCG_RD_EXTRA_FLAGS_ar op1, ce_state_reset env w)
             else ard_start_buffers env op1 (ce_state_reset env w));
           if status \<noteq> UCG_OK then Some (status, op, w) else trigger_end (ucg_planc_ucx_allreduce_rd_op_progress env op w) }" for w
    using ty o(3) by (simp add: ucg_planc_ucx_allreduce_rd_op_trigger_def ucg_planc_ucx_op_reset_def op1_def Let_def)
  show ?thesis
  proof (cases "rd_extra n r")
    case True
    let ?op0 = "set_flags UCG_RD_EXTRA_FLAGS_ar op1"
    have "ard_at tag it0 n args stg r (length (ard_copy_acts n args r)) ?op0"
      using o True by (simp add: ard_at_def ard_copy_acts_def ard_state_def UCG_RD_EXTRA_FLAGS_ar_def ard_flags Let_def)
    then show ?thesis using True
      by (intro exI [where x = ?op0] exI [where x = "\<lambda>st. st"]) (simp add: trig ard_copy_acts_def)
  next
    case False
    obtain dt where dt: "ca_dt args = Some dt" "c_offset (uo_staging_area (op_priv op)) (- cd_true_lb dt) = stg"
      using op False by (auto simp: ard_ready_def)
    let ?fl = "if rd_proxy n r then 0x3F else 3"
    let ?op0 = "upd_priv (\<lambda>p. p\<lparr>uo_flags := ?fl, uo_staging_area_stored := stg, uo_recvbuf_stored := ca_recvbuf args\<rparr>) op1"
    have at: "ard_at tag it0 n args stg r (length (ard_copy_acts n args r)) ?op0"
    proof (cases "rd_proxy n r")
      case True
      then show ?thesis using o by (simp add: ard_at_proxy [OF True] ard_state_def Let_def)
    next
      case F: False
      have st: "ard_state tag it0 n args r 0 (ca_recvbuf args, stg) 3 ?op0" using o F by (simp add: ard_state_def)
      have "ard_in tag it0 n args stg r 0 0 0 ?op0"
      proof (cases "rd_rounds n")
        case 0
        then show ?thesis using st by (simp add: ard_in_def)
      next
        case (Suc m)
        then show ?thesis using length_ard_rounds [of 0 n it0 args stg r] by (simp add: ard_in_def)
      qed
      then show ?thesis using F False st by (simp add: ard_at_def Let_def)
    qed
    have fl: "(if rd_proxy n r then UCG_RD_BASE_FLAGS_ar OR UCG_RD_PROXY_FLAGS_ar else UCG_RD_BASE_FLAGS_ar) = ?fl"
      by (simp add: UCG_RD_BASE_FLAGS_ar_def UCG_RD_PROXY_FLAGS_ar_def ard_flags)
    have sb: "ard_start_buffers env op1 w = (if ca_sendbuf args = UCG_IN_PLACE then Some (UCG_OK, ?op0, w)
        else ard_memcpy env (ca_recvbuf args) (ca_sendbuf args) ?op0 w)" for w
      using o dt False ty fl [symmetric] by (auto simp: ard_start_buffers_def Let_def upd_priv_def)
    show ?thesis
    proof (intro exI conjI allI)
      show "ard_at tag it0 n args stg r (length (ard_copy_acts n args r)) ?op0" by (rule at)
      show "st \<noteq> UCG_INPROGRESS \<longrightarrow> st = st" for st by simp
      show "ucg_planc_ucx_allreduce_rd_op_trigger env op w =
        (case run_acts env tag (ard_copy_acts n args r) (ce_state_reset env w) of
           None \<Rightarrow> None
         | Some (st, k, w') \<Rightarrow> if st \<noteq> UCG_OK then Some (st, ?op0, w')
             else trigger_end (ucg_planc_ucx_allreduce_rd_op_progress env ?op0 w'))" for w
      proof (cases "ca_sendbuf args = UCG_IN_PLACE")
        case True
        then show ?thesis using False by (simp add: trig sb ard_copy_acts_def)
      next
        case F: False
        let ?c = "ce_memcpy env (ca_recvbuf args) (ca_count args) (dt_addr (ca_dt args)) (ca_sendbuf args) (ca_count args) (dt_addr (ca_dt args))"
        show ?thesis using F False o(1)
          by (cases "?c (ce_state_reset env w)") (auto simp: trig sb ard_copy_acts_def ard_memcpy_def call_step_def Let_def)
      qed
    qed
  qed
qed

lemma ard_new_ready:
  assumes "ucg_planc_ucx_allreduce_rd_op_new env grp vgroup blank area args h w = Some (Some op, h', w')"
    and "ce_myrank env = r" and "ce_size env = n" and "rd_args n" and "0 \<le> r"
  shows "ard_ready (op_id op) (uo_rd_iter blank) n args (c_offset area (- (case ca_dt args of None \<Rightarrow> 0 | Some dt \<Rightarrow> cd_true_lb dt))) r op"
proof -
  have "rd_type (ucg_algo_rd_iter_init (uo_rd_iter blank) n r) = UCG_ALGO_RD_ITER_EXTRA \<longleftrightarrow> rd_extra n r"
    using rd_type_at [OF assms(4,5), of "uo_rd_iter blank" 0] by (simp add: rd_at_def)
  then show ?thesis
    using assms(1-3)
    by (auto simp: ucg_planc_ucx_allreduce_rd_op_new_def ucx_op_new_def ucg_plan_op_ctor_def ucg_request_ctor_def
        ucg_planc_ucx_op_init_def ard_ready_def rd_at_def Let_def split: prod.splits bool.splits if_splits option.splits
        intro!: exI [where x = 0])
qed

end
