(* ===== verification/Ard_Spec.thy ===== *)
theory Ard_Spec
  imports Ard_Script Barrier_Spec Coll_Net
begin

text \<open>
  What the recursive doubling allreduce computes: the reduction of the contributions of all ranks, in the order of the ranks, so the
  reduction has to be associative, but not commutative.
\<close>

subsection \<open>Reducing a range of ranks\<close>

text \<open>The reduction of the values of \<open>m + 1\<close> ranks from \<open>a\<close> on, and of the ranks from \<open>a\<close> up to \<open>b\<close>, which is left out.\<close>

fun rank_fold :: "('v \<Rightarrow> 'v \<Rightarrow> 'v) \<Rightarrow> (ucg_rank_t \<Rightarrow> 'v) \<Rightarrow> ucg_rank_t \<Rightarrow> nat \<Rightarrow> 'v" where
  "rank_fold g V a 0 = V a"
| "rank_fold g V a (Suc m) = g (rank_fold g V a m) (V (a + 1 + int m))"

definition rank_span :: "('v \<Rightarrow> 'v \<Rightarrow> 'v) \<Rightarrow> (ucg_rank_t \<Rightarrow> 'v) \<Rightarrow> ucg_rank_t \<Rightarrow> ucg_rank_t \<Rightarrow> 'v" where
  "rank_span g V a b = rank_fold g V a (nat (b - a - 1))"

definition associative :: "('v \<Rightarrow> 'v \<Rightarrow> 'v) \<Rightarrow> bool" where
  "associative g \<longleftrightarrow> (\<forall>x y z. g (g x y) z = g x (g y z))"

lemma rank_fold_append:
  assumes "associative g"
  shows "g (rank_fold g V a i) (rank_fold g V (a + 1 + int i) j) = rank_fold g V a (i + 1 + j)"
proof (induction j)
  case (Suc j)
  have "g (rank_fold g V a i) (rank_fold g V (a + 1 + int i) (Suc j)) =
      g (g (rank_fold g V a i) (rank_fold g V (a + 1 + int i) j)) (V (a + 1 + int i + 1 + int j))"
    using assms by (simp add: associative_def)
  then show ?case unfolding Suc.IH by (simp add: algebra_simps)
qed simp

lemma rank_span_append:
  assumes "associative g" and "a < b" and "b < c"
  shows "g (rank_span g V a b) (rank_span g V b c) = rank_span g V a c"
proof -
  have "a + 1 + int (nat (b - a - 1)) = b" "nat (b - a - 1) + 1 + nat (c - b - 1) = nat (c - a - 1)" using assms(2,3) by linarith+
  then show ?thesis using rank_fold_append [OF assms(1), of V a "nat (b - a - 1)" "nat (c - b - 1)"] by (simp add: rank_span_def)
qed

lemma rank_span_one: "b = a + 1 \<Longrightarrow> rank_span g V a b = V a"
  by (simp add: rank_span_def)

subsection \<open>What a rank holds after some rounds\<close>

text \<open>The first rank behind a code, and the first code of the block of \<open>2 ^ k\<close> codes around one.\<close>

definition code_low :: "c_int \<Rightarrow> int \<Rightarrow> ucg_rank_t" where
  "code_low n x = (if x < rd_proxies n then 2 * x else x + rd_proxies n)"

definition code_block :: "nat \<Rightarrow> int \<Rightarrow> int" where
  "code_block k x = 2 ^ k * (x div 2 ^ k)"

definition ard_val :: "('v \<Rightarrow> 'v \<Rightarrow> 'v) \<Rightarrow> (ucg_rank_t \<Rightarrow> 'v) \<Rightarrow> c_int \<Rightarrow> nat \<Rightarrow> ucg_rank_t \<Rightarrow> 'v" where
  "ard_val g V n k r =
     (let x = code_block k (rd_code n r) in rank_span g V (code_low n x) (code_low n (x + 2 ^ k)))"

lemma code_low_mono: "0 \<le> x \<Longrightarrow> x < y \<Longrightarrow> code_low n x < code_low n y"
  by (auto simp: code_low_def)

lemma real_rank_mono: "0 \<le> p \<Longrightarrow> 0 \<le> x \<Longrightarrow> x < y \<Longrightarrow> rd_real_rank p x < rd_real_rank p y"
  by (auto simp: rd_real_rank_def)

lemma xor_exp_eq: "x XOR 2 ^ k = (if bit (x :: int) k then x - 2 ^ k else x + 2 ^ k)"
proof -
  have "x XOR 2 ^ k = flip_bit k x" by (simp add: flip_bit_eq_xor push_bit_eq_mult)
  then show ?thesis by (simp add: flip_bit_eq_if unset_bit_eq set_bit_eq)
qed

lemma code_block_step:
  fixes x :: int and k :: nat
  defines "y \<equiv> x XOR 2 ^ k"
  shows "\<not> bit x k \<Longrightarrow> x < y \<and> code_block (Suc k) x = code_block k x \<and> code_block k y = code_block k x + 2 ^ k"
    and "bit x k \<Longrightarrow> y < x \<and> code_block (Suc k) x = code_block k y \<and> code_block k x = code_block k y + 2 ^ k"
proof -
  have s: "x div 2 ^ Suc k = x div 2 ^ k div 2" using zdiv_zmult2_eq [of 2 x "2 ^ k"] by (simp add: mult.commute)
  have b: "bit x k \<longleftrightarrow> odd (x div 2 ^ k)" by (simp add: bit_iff_odd)
  show "x < y \<and> code_block (Suc k) x = code_block k x \<and> code_block k y = code_block k x + 2 ^ k" if "\<not> bit x k"
  proof -
    have y: "y = x + 2 ^ k" using that by (simp add: y_def xor_exp_eq)
    have e: "2 * (x div 2 ^ k div 2) = x div 2 ^ k" using that b by (simp add: even_two_times_div_two)
    have "code_block (Suc k) x = 2 ^ k * (2 * (x div 2 ^ k div 2))" unfolding code_block_def s by simp
    moreover have "y div 2 ^ k = x div 2 ^ k + 1" unfolding y by (rule div_add_self2) simp
    ultimately show ?thesis unfolding e by (simp add: y code_block_def distrib_left)
  qed
  show "y < x \<and> code_block (Suc k) x = code_block k y \<and> code_block k x = code_block k y + 2 ^ k" if "bit x k"
  proof -
    have y: "y = x - 2 ^ k" using that by (simp add: y_def xor_exp_eq)
    then have d: "y div 2 ^ k = x div 2 ^ k - 1" using div_add_self2 [of "2 ^ k" y] by simp
    have e: "2 * (x div 2 ^ k div 2) = y div 2 ^ k" using odd_two_times_div_two_succ [of "x div 2 ^ k"] that b d by linarith
    have "code_block (Suc k) x = 2 ^ k * (2 * (x div 2 ^ k div 2))" unfolding code_block_def s by simp
    moreover have "code_block k x = 2 ^ k * (y div 2 ^ k + 1)" using d by (simp add: code_block_def)
    ultimately have "code_block (Suc k) x = code_block k y" "code_block k x = code_block k y + 2 ^ k"
      unfolding e by (simp_all add: code_block_def distrib_left)
    then show ?thesis using y by simp
  qed
qed

lemma member_real_rank:
  assumes "rd_args n" and "r \<in> rd_members n"
  shows "rd_real_rank (rd_proxies n) (rd_code n r) = r"
  using assms by (auto simp: rd_real_rank_def rd_members_def rd_extra_def rd_code_def elim!: oddE)

text \<open>In a round, the rank below the other one contributes the values of the lower ranks.\<close>

lemma ard_val_step:
  fixes n :: c_int and r :: ucg_rank_t and k :: nat and it0 :: ucg_algo_rd_iter
  assumes n: "rd_args n" and r: "r \<in> rd_members n" and k: "k < rd_rounds n" and g: "associative g"
  defines "p \<equiv> rd_peer it0 n k r"
  shows "ard_val g V n (Suc k) r = (if r < p then g (ard_val g V n k r) (ard_val g V n k p) else g (ard_val g V n k p) (ard_val g V n k r))"
proof -
  let ?x = "rd_code n r" and ?y = "rd_code n r XOR 2 ^ k"
  have x: "0 \<le> ?x" "?x < 2 ^ rd_rounds n" by (rule rd_code_range [OF n r])+
  have y: "0 \<le> ?y" "?y < 2 ^ rd_rounds n" by (rule xor_exp_range [OF x k])+
  have P: "0 \<le> rd_proxies n" by (rule rd_rounds_bounds(4) [OF n])
  have p: "p = rd_real_rank (rd_proxies n) ?y" unfolding p_def by (rule rd_peer_base [OF n r k])
  have cp: "rd_code n p = ?y" unfolding p using rd_code_bij(2) [OF n y] by blast
  have rr: "r = rd_real_rank (rd_proxies n) ?x" using member_real_rank [OF n r] by simp
  have pos: "0 \<le> code_block k ?x" "0 \<le> code_block k ?y" using x y by (simp_all add: code_block_def pos_imp_zdiv_nonneg_iff)
  note st = code_block_step [of ?x k]
  have span: "g (rank_span g V (code_low n a) (code_low n (a + 2 ^ k))) (rank_span g V (code_low n (a + 2 ^ k)) (code_low n (a + 2 ^ k + 2 ^ k))) =
      rank_span g V (code_low n a) (code_low n (a + 2 ^ Suc k))" if "0 \<le> a" for a
  proof -
    have "a + 2 ^ k + 2 ^ k = a + 2 ^ Suc k" by simp
    then show ?thesis using that rank_span_append [OF g, of "code_low n a" "code_low n (a + 2 ^ k)" "code_low n (a + 2 ^ k + 2 ^ k)" V]
      by (metis code_low_mono add_nonneg_nonneg less_add_same_cancel1 zero_le_power zero_le_numeral zero_less_power zero_less_numeral)
  qed
  show ?thesis
  proof (cases "bit ?x k")
    case False
    have "r < p" using real_rank_mono [OF P x(1), of ?y] st(1) [OF False] by (subst rr) (simp add: p)
    then show ?thesis using st(1) [OF False] span [OF pos(1)] by (simp add: ard_val_def cp Let_def)
  next
    case True
    have "p < r" using real_rank_mono [OF P y(1), of ?x] st(2) [OF True] by (subst rr) (simp add: p)
    then show ?thesis using st(2) [OF True] span [OF pos(2)] by (simp add: ard_val_def cp Let_def)
  qed
qed

lemma ard_val_0:
  assumes n: "rd_args n" and r: "r \<in> rd_members n"
  shows "ard_val g V n 0 r = (if rd_proxy n r then g (V (r - 1)) (V r) else V r)"
proof (cases "rd_proxy n r")
  case True
  then obtain m where m: "r = 2 * m + 1" "r < rd_proxies n * 2" by (auto simp: rd_proxy_def elim: oddE)
  have c: "rd_code n r = m" using m by (simp add: rd_code_def)
  have "code_low n m = r - 1" "code_low n (m + 1) = r + 1" using m by (auto simp: code_low_def)
  moreover have "rank_span g V (r - 1) (r + 1) = g (V (r - 1)) (V r)"
    by (simp add: rank_span_def numeral_eq_Suc flip: One_nat_def) (simp add: numeral_eq_Suc)
  ultimately show ?thesis using True by (simp add: ard_val_def code_block_def c Let_def)
next
  case False
  have c: "rd_code n r = r - rd_proxies n" "rd_proxies n \<le> rd_code n r" using r False by (auto simp: rd_code_def rd_members_def rd_extra_def rd_proxy_def)
  then have "code_low n (rd_code n r) = r" "code_low n (rd_code n r + 1) = r + 1" by (auto simp: code_low_def)
  then show ?thesis using False by (simp add: ard_val_def code_block_def Let_def rank_span_one)
qed

lemma ard_val_all:
  assumes n: "rd_args n" and r: "r \<in> rd_members n"
  shows "ard_val g V n (rd_rounds n) r = rank_fold g V 0 (nat (n - 1))"
proof -
  have x: "0 \<le> rd_code n r" "rd_code n r < 2 ^ rd_rounds n" by (rule rd_code_range [OF n r])+
  then have "code_block (rd_rounds n) (rd_code n r) = 0" by (simp add: code_block_def)
  moreover have "code_low n 0 = 0" "code_low n (2 ^ rd_rounds n) = n"
    using rd_rounds_bounds(4,5) [OF n] by (auto simp: code_low_def rd_proxies_def)
  ultimately show ?thesis by (simp add: ard_val_def Let_def rank_span_def)
qed

subsection \<open>All ranks together\<close>

definition ard_valid :: "c_int \<Rightarrow> (ucg_rank_t \<Rightarrow> ucg_coll_args) \<Rightarrow> (ucg_rank_t \<Rightarrow> c_ptr) \<Rightarrow> (ucg_rank_t \<Rightarrow> 'w coll_env) \<Rightarrow> bool" where
  "ard_valid n B stg E \<longleftrightarrow> rd_args n \<and>
     (\<forall>r \<in> {0..<n}. ce_myrank (E r) = r \<and> ce_size (E r) = n \<and> ard_copy_succeeds (E r) (B r) (stg r))"

definition ard_script ::
    "c_int \<Rightarrow> (ucg_rank_t \<Rightarrow> ucg_coll_args) \<Rightarrow> (ucg_rank_t \<Rightarrow> c_ptr) \<Rightarrow> (ucg_rank_t \<Rightarrow> ucg_algo_rd_iter) \<Rightarrow> ucg_rank_t \<Rightarrow> coll_act list" where
  "ard_script n B stg it r = ard_acts (it r) n (B r) (stg r) r"

lemma ard_rounds_peers:
  assumes "rd_args n" and "r \<in> rd_members n"
  shows "peers_of (ard_rounds it0 n args stg r k) \<subseteq> {0..<n}"
proof -
  have "rd_peer it0 n i r \<in> {0..<n}" if "i < rd_rounds n" for i
    using rd.peer_member [of "(it0, n)" i r] assms that by (simp add: rd_members_def)
  then show ?thesis
    by (auto simp: ard_rounds_def ard_round_def ard_last_def ard_red_def peers_of_def Let_def split: prod.splits if_splits)
qed

lemma ard_acts_peers:
  assumes n: "rd_args n" and r: "r \<in> {0..<n}"
  shows "peers_of (ard_acts it0 n args stg r) \<subseteq> {0..<n}"
proof -
  have c: "peers_of (ard_copy_acts n args r) = {}" by (simp add: ard_copy_acts_def)
  consider "rd_extra n r" | "\<not> rd_extra n r" "rd_proxy n r" | "\<not> rd_extra n r" "\<not> rd_proxy n r" by blast
  then show ?thesis
  proof cases
    case 1
    then show ?thesis using proxy_of_extra(1) [OF n r 1] by (simp add: ard_acts_def Let_def c rd_members_def)
  next
    case 2
    have m: "r \<in> rd_members n" using r 2 by (simp add: rd_members_def)
    show ?thesis using 2 ard_rounds_peers [OF n m] extra_of_proxy(1) [OF n m 2(2)] by (simp add: ard_acts_def Let_def c ard_red_def)
  next
    case 3
    have m: "r \<in> rd_members n" using r 3 by (simp add: rd_members_def)
    show ?thesis using 3 ard_rounds_peers [OF n m] by (simp add: ard_acts_def Let_def c)
  qed
qed

lemma take_copy_acts: "take (length (ard_copy_acts n args r)) (ard_acts it0 n args stg r) = ard_copy_acts n args r"
  by (simp add: ard_acts_def Let_def)

interpretation ard: scripted_coll
  "\<lambda>(n, tag, B, stg, it, E :: ucg_rank_t \<Rightarrow> 'w coll_env). ard_valid n B stg E" "\<lambda>(n, tag, B, stg, it, E). {0..<n}"
  "\<lambda>(n, tag, B, stg, it, E). E" "\<lambda>(n, tag, B, stg, it, E). tag" "\<lambda>(n, tag, B, stg, it, E). ard_script n B stg it"
  "\<lambda>(n, tag, B, stg, it, E) r. length (ard_copy_acts n (B r) r)"
  "\<lambda>(n, tag, B, stg, it, E) r. ard_at tag (it r) n (B r) (stg r) r" "\<lambda>(n, tag, B, stg, it, E) r. ard_ready tag (it r) n (B r) (stg r) r"
  ucg_planc_ucx_allreduce_rd_op_trigger ucg_planc_ucx_allreduce_rd_op_progress
proof (unfold_locales, goal_cases)
  case (1 g r)
  then show ?case using ard_acts_peers by (auto simp: ard_script_def ard_valid_def split: prod.splits)
next
  case (2 g r)
  then show ?case
    using take_copy_acts by (auto simp: ard_script_def ard_acts_def Let_def ard_copy_acts_def split: prod.splits)
next
  case (3 g r i op)
  obtain n tag B stg it E where g: "g = (n, tag, B, stg, it, E)" by (cases g)
  have a: "rd_args n" "r \<in> {0..<n}" "ce_myrank (E r) = r" "ard_copy_succeeds (E r) (B r) (stg r)" "ard_at tag (it r) n (B r) (stg r) r i op"
    using 3(1-3) by (auto simp: g ard_valid_def)
  show ?case using ard_progress_follows [OF a] 3(4) unfolding g prod.case ard_script_def by blast
next
  case (4 g r op w st op' w')
  then show ?case by (auto simp: ucg_planc_ucx_allreduce_rd_op_progress_def progress_end_def split: prod.splits)
next
  case (5 g r op)
  obtain n tag B stg it E where g: "g = (n, tag, B, stg, it, E)" by (cases g)
  have a: "rd_args n" "r \<in> {0..<n}" "ard_ready tag (it r) n (B r) (stg r) r op" using 5 by (auto simp: g ard_valid_def)
  show ?case unfolding g prod.case ard_script_def take_copy_acts by (rule ard_trigger_starts [OF a])
qed

subsection \<open>The data\<close>

text \<open>
  The receive buffer and the staging area of a rank do not overlap, and neither does the send buffer; all hold the same amount of data, and a
  reduction computes the same function everywhere.  An extra rank does not call the allreduce in place: it would post its
  receive buffer for sending and receiving at once.
\<close>

definition ard_areas ::
    "'v areas \<Rightarrow> c_int \<Rightarrow> (ucg_rank_t \<Rightarrow> ucg_coll_args) \<Rightarrow> (ucg_rank_t \<Rightarrow> c_ptr) \<Rightarrow> ('v \<Rightarrow> 'v \<Rightarrow> 'v) \<Rightarrow> bool" where
  "ard_areas A n B stg g \<longleftrightarrow>
     (\<forall>r \<in> {0..<n}. let recv = ard_buf (B r) (ca_recvbuf (B r)); st = ard_buf (B r) (stg r); src = ard_buf (B r) (ca_sendbuf (B r)) in
        ca_recvbuf (B r) \<noteq> stg r \<and> ar_apart A r recv st \<and> ar_apart A r st recv \<and> ar_red A r (ca_op (B r)) = g \<and>
        (ca_sendbuf (B r) \<noteq> UCG_IN_PLACE \<longrightarrow> ar_apart A r recv src) \<and> (rd_extra n r \<longrightarrow> ca_sendbuf (B r) \<noteq> UCG_IN_PLACE) \<and>
        (\<forall>p \<in> {0..<n}. \<forall>b b'. ar_fits A p (ard_buf (B p) b) r (ard_buf (B r) b')))"

definition ard_own :: "(ucg_rank_t \<Rightarrow> ucg_coll_args) \<Rightarrow> ucg_rank_t \<Rightarrow> c_buf" where
  "ard_own B r = ard_buf (B r) (ard_src (B r))"

definition ard_msg ::
    "('v \<Rightarrow> 'v \<Rightarrow> 'v) \<Rightarrow> (ucg_rank_t \<Rightarrow> 'v) \<Rightarrow> c_int \<Rightarrow> (ucg_rank_t \<Rightarrow> ucg_coll_args) \<Rightarrow> (ucg_rank_t \<Rightarrow> c_ptr) \<Rightarrow>
     (ucg_rank_t \<Rightarrow> ucg_algo_rd_iter) \<Rightarrow> ucg_rank_t \<Rightarrow> nat \<Rightarrow> c_buf \<times> 'v" where
  "ard_msg g V n B stg it r k = (ard_buf (B r) (fst (ard_bufs (it r) n (B r) (stg r) r k)), ard_val g V n k r)"

definition ard_sent ::
    "('v \<Rightarrow> 'v \<Rightarrow> 'v) \<Rightarrow> (ucg_rank_t \<Rightarrow> 'v) \<Rightarrow> c_int \<Rightarrow> (ucg_rank_t \<Rightarrow> ucg_coll_args) \<Rightarrow> (ucg_rank_t \<Rightarrow> c_ptr) \<Rightarrow>
     (ucg_rank_t \<Rightarrow> ucg_algo_rd_iter) \<Rightarrow> ucg_rank_t \<Rightarrow> nat \<Rightarrow> ucg_rank_t \<Rightarrow> (c_buf \<times> 'v) list" where
  "ard_sent g V n B stg it r k p =
     concat (map (\<lambda>i. if rd_peer (it r) n i r = p then [ard_msg g V n B stg it r i] else []) [0..<k])"

lemma ard_sent_0 [simp]: "ard_sent g V n B stg it r 0 = (\<lambda>_. [])"
  by (rule ext) (simp add: ard_sent_def)

text \<open>All messages from \<open>p\<close> to \<open>r\<close>.\<close>

definition ard_msgs ::
    "('v \<Rightarrow> 'v \<Rightarrow> 'v) \<Rightarrow> (ucg_rank_t \<Rightarrow> 'v) \<Rightarrow> c_int \<Rightarrow> (ucg_rank_t \<Rightarrow> ucg_coll_args) \<Rightarrow> (ucg_rank_t \<Rightarrow> c_ptr) \<Rightarrow>
     (ucg_rank_t \<Rightarrow> ucg_algo_rd_iter) \<Rightarrow> ucg_rank_t \<Rightarrow> ucg_rank_t \<Rightarrow> (c_buf \<times> 'v) list" where
  "ard_msgs g V n B stg it r p =
     (if rd_extra n p then if r = p + 1 then [(ard_own B p, V p)] else []
      else ard_sent g V n B stg it p (rd_rounds n) r @
        (if rd_proxy n p \<and> r = p - 1 then [(ard_buf (B p) (ca_recvbuf (B p)), ard_val g V n (rd_rounds n) p)] else []))"

lemma concat_single: "k < m \<Longrightarrow> concat (map (\<lambda>i. if i = k then [f i] else []) [0..<m]) = [f k]"
proof (induction m)
  case (Suc m)
  have "concat (map (\<lambda>i. if i = m then [f i] else []) [0..<m]) = []" by simp
  then show ?case using Suc by (cases "k = m") auto
qed simp

lemma ard_sent_peer:
  assumes n: "rd_args n" and r: "r \<in> rd_members n" and k: "k < rd_rounds n" and p: "p = rd_peer it0 n k r"
  shows "ard_sent g V n B stg it p (rd_rounds n) r = [ard_msg g V n B stg it p k]"
    and "ard_msgs g V n B stg it r p = [ard_msg g V n B stg it p k]"
proof -
  have m: "p \<in> rd_members n" using rd.peer_member [of "(it0, n)" k r] n r k p by simp
  have s: "rd_peer (it p) n k p = r"
    using rd.peer_symmetric(1) [of "(it0, n)" k r] n r k p rd_peer_base [OF n m k] by simp
  have "rd_peer (it p) n i p = r \<longleftrightarrow> i = k" if "i < rd_rounds n" for i
    using s rd_peer_inj [OF n m that k, of "it p" "it p"] by auto
  then have M: "map (\<lambda>i. if rd_peer (it p) n i p = r then [ard_msg g V n B stg it p i] else []) [0..<rd_rounds n] =
      map (\<lambda>i. if i = k then [ard_msg g V n B stg it p i] else []) [0..<rd_rounds n]" by simp
  show e: "ard_sent g V n B stg it p (rd_rounds n) r = [ard_msg g V n B stg it p k]"
    unfolding ard_sent_def M by (rule concat_single [OF k])
  have "\<not> (rd_proxy n p \<and> r = p - 1)" using extra_of_proxy(2) [OF n m] r by (auto simp: rd_members_def)
  then show "ard_msgs g V n B stg it r p = [ard_msg g V n B stg it p k]" using m e by (auto simp: ard_msgs_def rd_members_def)
qed

lemma ard_msgs_proxy:
  assumes n: "rd_args n" and p: "p \<in> rd_members n" "rd_proxy n p"
  shows "ard_msgs g V n B stg it p (p - 1) = [(ard_own B (p - 1), V (p - 1))]"
    and "ard_msgs g V n B stg it (p - 1) p = [(ard_buf (B p) (ca_recvbuf (B p)), ard_val g V n (rd_rounds n) p)]"
proof -
  note e = extra_of_proxy [OF n p]
  show "ard_msgs g V n B stg it p (p - 1) = [(ard_own B (p - 1), V (p - 1))]" using e by (simp add: ard_msgs_def)
  have "rd_peer (it p) n i p \<noteq> p - 1" if "i < rd_rounds n" for i
    using rd.peer_member [of "(it p, n)" i p] n p(1) that e(2) by (auto simp: rd_members_def)
  then have "ard_sent g V n B stg it p (rd_rounds n) (p - 1) = []" by (auto simp: ard_sent_def)
  then show "ard_msgs g V n B stg it (p - 1) p = [(ard_buf (B p) (ca_recvbuf (B p)), ard_val g V n (rd_rounds n) p)]"
    using p by (simp add: ard_msgs_def rd_members_def)
qed

text \<open>After \<open>k\<close> rounds the rank knows the reduction of its block.\<close>

definition ard_sym ::
    "('v \<Rightarrow> 'v \<Rightarrow> 'v) \<Rightarrow> (ucg_rank_t \<Rightarrow> 'v) \<Rightarrow> c_int \<Rightarrow> (ucg_rank_t \<Rightarrow> ucg_coll_args) \<Rightarrow> (ucg_rank_t \<Rightarrow> c_ptr) \<Rightarrow>
     (ucg_rank_t \<Rightarrow> ucg_algo_rd_iter) \<Rightarrow> ucg_rank_t \<Rightarrow> nat \<Rightarrow> 'v sym \<Rightarrow> bool" where
  "ard_sym g V n B stg it r k s \<longleftrightarrow> sy_pend s = [] \<and> sy_lent s = [] \<and>
     (\<forall>i < rd_rounds n. k \<le> i \<longrightarrow> sy_rcvd s (rd_peer (it r) n i r) = 0) \<and>
     sy_known s (ard_buf (B r) (fst (ard_bufs (it r) n (B r) (stg r) r k))) = Some (ard_val g V n k r) \<and>
     sy_out s = ard_sent g V n B stg it r k"

lemma ard_sym_round:
  assumes n: "rd_args n" and A: "ard_areas A n B stg g" and g: "associative g" and r: "r \<in> rd_members n"
    and s: "ard_sym g V n B stg it r k s" and k: "k < rd_rounds n"
  shows "\<exists>s'. sym_run A (ard_msgs g V n B stg it r) r (ard_round (it r) n (B r) (stg r) r k) s = Some s' \<and>
    ard_sym g V n B stg it r (Suc k) s'"
proof -
  obtain a b where ab: "ard_bufs (it r) n (B r) (stg r) r k = (a, b)" by (cases "ard_bufs (it r) n (B r) (stg r) r k")
  let ?p = "rd_peer (it r) n k r" and ?X = "ard_msgs g V n B stg it r" and ?a = "ard_buf (B r) a" and ?b = "ard_buf (B r) b"
  have rn: "r \<in> {0..<n}" using r by (simp add: rd_members_def)
  have p: "?p \<in> rd_members n" using rd.peer_member [of "(it r, n)" k r] n r k by simp
  then have pn: "?p \<in> {0..<n}" by (simp add: rd_members_def)
  have ap: "a \<noteq> b" "ar_apart A r ?a ?b" "ar_apart A r ?b ?a" "ar_red A r (ca_op (B r)) = g"
  proof -
    have "ca_recvbuf (B r) \<noteq> stg r" "ar_red A r (ca_op (B r)) = g"
      "ar_apart A r (ard_buf (B r) (ca_recvbuf (B r))) (ard_buf (B r) (stg r))" "ar_apart A r (ard_buf (B r) (stg r)) (ard_buf (B r) (ca_recvbuf (B r)))"
      using A rn unfolding ard_areas_def Let_def by blast+
    then show "a \<noteq> b" "ar_apart A r ?a ?b" "ar_apart A r ?b ?a" "ar_red A r (ca_op (B r)) = g"
      using ard_bufs_cases [of "it r" n "B r" "stg r" r k] ab by auto
  qed
  have X: "?X ?p = [ard_msg g V n B stg it ?p k]" by (rule ard_sent_peer(2) [OF n r k refl])
  have fits: "ar_fits A ?p (fst (ard_msg g V n B stg it ?p k)) r ?b"
    using A rn pn unfolding ard_areas_def Let_def ard_msg_def fst_conv by blast
  let ?u = "ard_val g V n k r" and ?v = "ard_val g V n k ?p"
  have e: "sy_pend s = []" "sy_lent s = []" "sy_rcvd s ?p = 0" "sy_known s ?a = Some ?u" "sy_out s = ard_sent g V n B stg it r k"
    using s k ab by (simp_all add: ard_sym_def)
  let ?s1 = "s\<lparr>sy_lent := [?a], sy_out := (sy_out s)(?p := sy_out s ?p @ [(?a, ?u)])\<rparr>"
  let ?s2 = "?s1\<lparr>sy_pend := [(?p, 0, ?b)], sy_rcvd := (sy_rcvd s)(?p := 1), sy_known := forget A r ?b (sy_known s)\<rparr>"
  let ?s3 = "?s2\<lparr>sy_pend := [], sy_lent := [], sy_known := (forget A r ?b (sy_known s))(?b := Some ?v)\<rparr>"
  let ?red = "if r < ?p then ard_red (B r) a b else ard_red (B r) b a" and ?t = "if r < ?p then ?b else ?a"
  let ?w = "if r < ?p then g ?u ?v else g ?v ?u"
  let ?s4 = "?s3\<lparr>sy_known := (forget A r ?t (sy_known ?s3))(?t := Some ?w)\<rparr>"
  have 1: "sym_act A ?X r (Snd ?p ?a) s = Some ?s1" using e by simp
  have 2: "sym_act A ?X r (Rcv ?p ?b) ?s1 = Some ?s2" using e by simp
  have 3: "sym_act A ?X r Wait ?s2 = Some ?s3" using X fits by (simp add: ard_msg_def)
  have 4: "sym_act A ?X r ?red ?s3 = Some ?s4" using e ap by (simp add: ard_red_def forget_def)
  have run: "sym_run A ?X r (ard_round (it r) n (B r) (stg r) r k) s = Some ?s4"
  proof -
    have "ard_round (it r) n (B r) (stg r) r k = [Snd ?p ?a, Rcv ?p ?b, Wait, ?red]" by (simp add: ard_round_def ab Let_def)
    moreover have "race_free A r ?red (pend_bufs (sy_pend ?s3)) (sy_lent ?s3)" using ap by (simp add: ard_red_def)
    moreover have "race_free A r (Rcv ?p ?b) (pend_bufs (sy_pend ?s1)) (sy_lent ?s1)" using e ap by simp
    moreover have "race_free A r (Snd ?p ?a) (pend_bufs (sy_pend s)) (sy_lent s)" "race_free A r Wait (pend_bufs (sy_pend ?s2)) (sy_lent ?s2)"
      using e by simp_all
    ultimately show ?thesis by (simp only: sym_run.simps 1 2 3 4 bind.simps if_True)
  qed
  have t: "fst (ard_bufs (it r) n (B r) (stg r) r (Suc k)) = (if r < ?p then b else a)" by (simp add: ab)
  have "ard_sym g V n B stg it r (Suc k) ?s4"
    unfolding ard_sym_def t
  proof (intro conjI allI impI)
    show "sy_known ?s4 (ard_buf (B r) (if r < ?p then b else a)) = Some (ard_val g V n (Suc k) r)"
      unfolding ard_val_step [OF n r k g, where ?it0.0 = "it r"] by simp
    show "sy_rcvd ?s4 (rd_peer (it r) n i r) = 0" if "i < rd_rounds n" "Suc k \<le> i" for i
      using s that rd_peer_inj [OF n r that(1) k, of "it r" "it r"] by (auto simp: ard_sym_def)
    show "sy_out ?s4 = ard_sent g V n B stg it r (Suc k)" using e(5) by (auto simp: ard_sent_def ard_msg_def ab)
  qed simp_all
  then show ?thesis using run by blast
qed

text \<open>All rounds, and the copy of the result to the receive buffer.\<close>

lemma ard_sym_last:
  assumes A: "ard_areas A n B stg g" and r: "r \<in> {0..<n}" and s: "ard_sym g V n B stg it r (rd_rounds n) s"
  shows "\<exists>s'. sym_run A X r (ard_last (it r) n (B r) (stg r) r) s = Some s' \<and> sy_pend s' = [] \<and> sy_lent s' = [] \<and>
    sy_known s' (ard_buf (B r) (ca_recvbuf (B r))) = Some (ard_val g V n (rd_rounds n) r) \<and> sy_out s' = sy_out s"
proof -
  let ?a = "fst (ard_bufs (it r) n (B r) (stg r) r (rd_rounds n))" and ?r = "ca_recvbuf (B r)"
  have e: "sy_pend s = []" "sy_lent s = []" "sy_known s (ard_buf (B r) ?a) = Some (ard_val g V n (rd_rounds n) r)"
    using s by (simp_all add: ard_sym_def)
  show ?thesis
  proof (cases "?a = ?r")
    case True
    then show ?thesis using e by (simp add: ard_last_def)
  next
    case False
    then have a: "?a = stg r" using ard_bufs_cases [of "it r" n "B r" "stg r" r "rd_rounds n"] by auto
    have "ar_apart A r (ard_buf (B r) ?r) (ard_buf (B r) (stg r))" "ar_fits A r (ard_buf (B r) (stg r)) r (ard_buf (B r) ?r)"
      using A r unfolding ard_areas_def Let_def by blast+
    then show ?thesis using e False by (simp add: ard_last_def a)
  qed
qed

lemma ard_sym_rounds:
  assumes n: "rd_args n" and A: "ard_areas A n B stg g" and g: "associative g" and r: "r \<in> rd_members n"
  shows "k \<le> rd_rounds n \<Longrightarrow> ard_sym g V n B stg it r k s \<Longrightarrow>
    \<exists>s'. sym_run A (ard_msgs g V n B stg it r) r (ard_rounds (it r) n (B r) (stg r) r k) s = Some s' \<and>
      sy_pend s' = [] \<and> sy_lent s' = [] \<and>
      sy_known s' (ard_buf (B r) (ca_recvbuf (B r))) = Some (ard_val g V n (rd_rounds n) r) \<and>
      sy_out s' = ard_sent g V n B stg it r (rd_rounds n)"
proof (induction "rd_rounds n - k" arbitrary: k s)
  case 0
  then have k: "k = rd_rounds n" by simp
  have "r \<in> {0..<n}" using r by (simp add: rd_members_def)
  from ard_sym_last [OF A this 0(3) [unfolded k]] show ?case using 0(3) by (auto simp: k ard_rounds_finish ard_sym_def)
next
  case (Suc d)
  then have k: "k < rd_rounds n" by simp
  obtain s' where s': "sym_run A (ard_msgs g V n B stg it r) r (ard_round (it r) n (B r) (stg r) r k) s = Some s'" "ard_sym g V n B stg it r (Suc k) s'"
    using ard_sym_round [OF n A g r Suc.prems(2) k] by blast
  have "\<exists>s''. sym_run A (ard_msgs g V n B stg it r) r (ard_rounds (it r) n (B r) (stg r) r (Suc k)) s' = Some s'' \<and>
      sy_pend s'' = [] \<and> sy_lent s'' = [] \<and>
      sy_known s'' (ard_buf (B r) (ca_recvbuf (B r))) = Some (ard_val g V n (rd_rounds n) r) \<and>
      sy_out s'' = ard_sent g V n B stg it r (rd_rounds n)"
    by (rule Suc.hyps(1)) (use Suc.hyps(2) k s'(2) in simp_all)
  then show ?case by (simp add: ard_rounds_step [OF k] sym_run_append s'(1))
qed

definition ard_known :: "(ucg_rank_t \<Rightarrow> ucg_coll_args) \<Rightarrow> (ucg_rank_t \<Rightarrow> 'v) \<Rightarrow> ucg_rank_t \<Rightarrow> c_buf \<Rightarrow> 'v option" where
  "ard_known B V r = [ard_own B r \<mapsto> V r]"

text \<open>After the copy of the contribution.\<close>

lemma ard_copy_plays:
  assumes A: "ard_areas A n B stg g" and r: "r \<in> {0..<n}" and t: "\<not> rd_extra n r"
  obtains s where "sym_run A X r (ard_copy_acts n (B r) r) (sym_start (ard_known B V r)) = Some s"
    and "sy_pend s = []" and "sy_lent s = []" and "sy_rcvd s = (\<lambda>_. 0)" and "sy_out s = (\<lambda>_. [])"
    and "sy_known s (ard_buf (B r) (ca_recvbuf (B r))) = Some (V r)"
proof (cases "ca_sendbuf (B r) = UCG_IN_PLACE")
  case True
  then show thesis using that [of "sym_start (ard_known B V r)"] by (simp add: ard_copy_acts_def ard_known_def ard_own_def ard_src_def sym_start_def)
next
  case False
  let ?d = "ard_buf (B r) (ca_recvbuf (B r))" and ?s = "ard_buf (B r) (ca_sendbuf (B r))"
  have "ar_apart A r ?d ?s" "ar_fits A r ?s r ?d" using A r False unfolding ard_areas_def Let_def by blast+
  then show thesis using False t
    by (intro that [of "sym_start ((forget A r ?d [?s \<mapsto> V r])(?d \<mapsto> V r))"])
      (simp_all add: ard_copy_acts_def ard_known_def ard_own_def ard_src_def sym_start_def)
qed

lemma ard_base_plays:
  assumes n: "rd_args n" and A: "ard_areas A n B stg g" and g: "associative g" and r: "r \<in> {0..<n}" "\<not> rd_extra n r" "\<not> rd_proxy n r"
  shows "\<exists>s. sym_run A (ard_msgs g V n B stg it r) r (ard_acts (it r) n (B r) (stg r) r) (sym_start (ard_known B V r)) = Some s \<and>
    sy_known s (ard_buf (B r) (ca_recvbuf (B r))) = Some (ard_val g V n (rd_rounds n) r) \<and> (\<forall>p \<in> {0..<n}. ard_msgs g V n B stg it p r = sy_out s p)"
proof -
  have m: "r \<in> rd_members n" using r by (simp add: rd_members_def)
  let ?X = "ard_msgs g V n B stg it r"
  obtain s where s: "sym_run A ?X r (ard_copy_acts n (B r) r) (sym_start (ard_known B V r)) = Some s"
    "sy_pend s = []" "sy_lent s = []" "sy_rcvd s = (\<lambda>_. 0)" "sy_out s = (\<lambda>_. [])" "sy_known s (ard_buf (B r) (ca_recvbuf (B r))) = Some (V r)"
    by (rule ard_copy_plays [OF A r(1,2)])
  have "ard_sym g V n B stg it r 0 s" using s(2-6) r(3) by (simp add: ard_sym_def ard_val_0 [OF n m])
  from ard_sym_rounds [OF n A g m _ this] obtain s' where
    s': "sym_run A ?X r (ard_rounds (it r) n (B r) (stg r) r 0) s = Some s'"
      "sy_known s' (ard_buf (B r) (ca_recvbuf (B r))) = Some (ard_val g V n (rd_rounds n) r)" "sy_out s' = ard_sent g V n B stg it r (rd_rounds n)"
    by auto
  then show ?thesis using r(2,3) s(1) by (simp add: ard_acts_def Let_def sym_run_append ard_msgs_def)
qed

lemma ard_proxy_plays:
  assumes n: "rd_args n" and A: "ard_areas A n B stg g" and g: "associative g" and r: "r \<in> {0..<n}" and t: "rd_proxy n r"
  shows "\<exists>s. sym_run A (ard_msgs g V n B stg it r) r (ard_acts (it r) n (B r) (stg r) r) (sym_start (ard_known B V r)) = Some s \<and>
    sy_known s (ard_buf (B r) (ca_recvbuf (B r))) = Some (ard_val g V n (rd_rounds n) r) \<and> (\<forall>p \<in> {0..<n}. ard_msgs g V n B stg it p r = sy_out s p)"
proof -
  have x: "\<not> rd_extra n r" using t by (simp add: rd_proxy_def rd_extra_def)
  then have m: "r \<in> rd_members n" using r by (simp add: rd_members_def)
  note e = extra_of_proxy [OF n m t]
  let ?X = "ard_msgs g V n B stg it r" and ?r = "ard_buf (B r) (ca_recvbuf (B r))" and ?t = "ard_buf (B r) (stg r)"
  obtain s where s: "sym_run A ?X r (ard_copy_acts n (B r) r) (sym_start (ard_known B V r)) = Some s"
    "sy_pend s = []" "sy_lent s = []" "sy_rcvd s = (\<lambda>_. 0)" "sy_out s = (\<lambda>_. [])" "sy_known s ?r = Some (V r)"
    by (rule ard_copy_plays [OF A r x])
  have ap: "ca_recvbuf (B r) \<noteq> stg r" "ar_apart A r ?r ?t" "ar_apart A r ?t ?r" "ar_red A r (ca_op (B r)) = g"
    using A r unfolding ard_areas_def Let_def by blast+
  have X: "?X (r - 1) = [(ard_own B (r - 1), V (r - 1))]" by (rule ard_msgs_proxy(1) [OF n m t])
  have fits: "ar_fits A (r - 1) (ard_own B (r - 1)) r ?t" using A r e(1) unfolding ard_areas_def Let_def ard_own_def by blast
  let ?s1 = "s\<lparr>sy_pend := [(r - 1, 0, ?t)], sy_rcvd := (sy_rcvd s)(r - 1 := 1), sy_known := forget A r ?t (sy_known s)\<rparr>"
  let ?s2 = "?s1\<lparr>sy_pend := [], sy_lent := [], sy_known := (forget A r ?t (sy_known s))(?t := Some (V (r - 1)))\<rparr>"
  let ?s3 = "?s2\<lparr>sy_known := (forget A r ?r (sy_known ?s2))(?r := Some (g (V (r - 1)) (V r)))\<rparr>"
  have 1: "sym_act A ?X r (Rcv (r - 1) ?t) s = Some ?s1" using s by simp
  have 2: "sym_act A ?X r Wait ?s1 = Some ?s2" using X fits by simp
  have 3: "sym_act A ?X r (ard_red (B r) (stg r) (ca_recvbuf (B r))) ?s2 = Some ?s3"
    using s ap by (simp add: ard_red_def forget_def)
  have pre: "sym_run A ?X r [Rcv (r - 1) ?t, Wait, ard_red (B r) (stg r) (ca_recvbuf (B r))] s = Some ?s3"
  proof -
    have "race_free A r (Rcv (r - 1) ?t) (pend_bufs (sy_pend s)) (sy_lent s)" "race_free A r Wait (pend_bufs (sy_pend ?s1)) (sy_lent ?s1)"
      "race_free A r (ard_red (B r) (stg r) (ca_recvbuf (B r))) (pend_bufs (sy_pend ?s2)) (sy_lent ?s2)"
      using s ap by (simp_all add: ard_red_def)
    then show ?thesis by (simp only: sym_run.simps 1 2 3 bind.simps if_True)
  qed
  have peer: "rd_peer (it r) n i r \<noteq> r - 1" if "i < rd_rounds n" for i
    using rd.peer_member [of "(it r, n)" i r] n m that e(2) by (auto simp: rd_members_def)
  have "ard_sym g V n B stg it r 0 ?s3" using s peer t by (simp add: ard_sym_def ard_val_0 [OF n m])
  from ard_sym_rounds [OF n A g m _ this] obtain s' where
    s': "sym_run A ?X r (ard_rounds (it r) n (B r) (stg r) r 0) ?s3 = Some s'" "sy_pend s' = []" "sy_lent s' = []"
      "sy_known s' ?r = Some (ard_val g V n (rd_rounds n) r)" "sy_out s' = ard_sent g V n B stg it r (rd_rounds n)"
    by auto
  have last: "sym_run A ?X r [Snd (r - 1) ?r, Wait] s' = Some (s'\<lparr>sy_lent := [], sy_pend := [],
      sy_out := (sy_out s')(r - 1 := sy_out s' (r - 1) @ [(?r, ard_val g V n (rd_rounds n) r)])\<rparr>)"
    using s' by simp
  have acts: "ard_acts (it r) n (B r) (stg r) r = ard_copy_acts n (B r) r @ [Rcv (r - 1) ?t, Wait, ard_red (B r) (stg r) (ca_recvbuf (B r))] @
      ard_rounds (it r) n (B r) (stg r) r 0 @ [Snd (r - 1) ?r, Wait]" using x t by (simp add: ard_acts_def Let_def)
  show ?thesis unfolding acts sym_run_append s(1) bind.simps pre s'(1) last
    using s' x t by (auto simp: ard_msgs_def)
qed

lemma ard_extra_plays:
  assumes n: "rd_args n" and A: "ard_areas A n B stg g" and r: "r \<in> {0..<n}" and t: "rd_extra n r"
  shows "\<exists>s. sym_run A (ard_msgs g V n B stg it r) r (ard_acts (it r) n (B r) (stg r) r) (sym_start (ard_known B V r)) = Some s \<and>
    sy_known s (ard_buf (B r) (ca_recvbuf (B r))) = Some (ard_val g V n (rd_rounds n) (r + 1)) \<and> (\<forall>p \<in> {0..<n}. ard_msgs g V n B stg it p r = sy_out s p)"
proof -
  note p = proxy_of_extra [OF n r t]
  have pn: "r + 1 \<in> {0..<n}" using p(1) by (simp add: rd_members_def)
  have x: "\<not> rd_proxy n r" using t by (simp add: rd_proxy_def rd_extra_def)
  let ?X = "ard_msgs g V n B stg it r" and ?r = "ard_buf (B r) (ca_recvbuf (B r))" and ?s = "ard_buf (B r) (ca_sendbuf (B r))"
  have ip: "ca_sendbuf (B r) \<noteq> UCG_IN_PLACE" "ar_apart A r ?r ?s" using A r t unfolding ard_areas_def Let_def by blast+
  have src: "ard_src (B r) = ca_sendbuf (B r)" "ard_own B r = ?s" using ip by (simp_all add: ard_src_def ard_own_def)
  have X: "?X (r + 1) = [(ard_buf (B (r + 1)) (ca_recvbuf (B (r + 1))), ard_val g V n (rd_rounds n) (r + 1))]"
    using ard_msgs_proxy(2) [OF n p] by simp
  have fits: "ar_fits A (r + 1) (ard_buf (B (r + 1)) (ca_recvbuf (B (r + 1)))) r ?r" using A r pn unfolding ard_areas_def Let_def by blast
  have acts: "ard_acts (it r) n (B r) (stg r) r = [Snd (r + 1) ?s, Rcv (r + 1) ?r, Wait]"
    using t by (simp add: ard_acts_def ard_copy_acts_def Let_def src)
  show ?thesis unfolding acts
    using ip X fits t src(2) by (simp add: sym_start_def ard_known_def ard_msgs_def)
qed

definition ard_idle ::
    "c_int \<Rightarrow> c_int \<Rightarrow> (ucg_rank_t \<Rightarrow> ucg_coll_args) \<Rightarrow> (ucg_rank_t \<Rightarrow> c_ptr) \<Rightarrow> (ucg_rank_t \<Rightarrow> ucg_algo_rd_iter) \<Rightarrow> 'w coll_conf \<Rightarrow> bool" where
  "ard_idle n tag B stg it c \<longleftrightarrow> (\<forall>r \<in> {0..<n}. cf_on c r = None \<and> ard_ready tag (it r) n (B r) (stg r) r (cf_op c r))"

text \<open>
  C4: the recursive doubling allreduce reduces: in any run of \<open>n\<close> ranks, over any p2p layer that delivers messages in the order of
  their posting, when the operation of a rank has status \<open>UCG_OK\<close> then its receive buffer holds the reduction of what all ranks had at
  the beginning, in their send buffers or, if they have called the collective in place, in their receive buffers; and the reduction is in the order of
  the ranks, so it need be associative only.
\<close>

theorem allreduce_rd_reduces:
  assumes "ard_valid n B stg E" and "ard_areas A n B stg g" and "associative g" and "data_promises A {0..<n} E tag view"
    and "ard_idle n tag B stg it c0" and "net_idle {0..<n} (\<lambda>_ _. None) (view (cf_world c0))"
    and "coll_run {0..<n} E ucg_planc_ucx_allreduce_rd_op_trigger ucg_planc_ucx_allreduce_rd_op_progress view c0 c"
    and "r \<in> {0..<n}" and "cf_on c r = Some UCG_OK" and "op_status (cf_op c r) = UCG_OK"
  shows "nt_val (view (cf_world c)) r (ard_buf (B r) (ca_recvbuf (B r))) =
    rank_fold g (\<lambda>i. nt_val (view (cf_world c0)) i (ard_buf (B i) (ard_src (B i)))) 0 (nat (n - 1))"
proof -
  let ?g = "(n, tag, B, stg, it, E)" and ?S = "ard_script n B stg it"
  define V where "V i = nt_val (view (cf_world c0)) i (ard_buf (B i) (ard_src (B i)))" for i
  let ?K = "ard_known B V" and ?X = "ard_msgs g V n B stg it" and ?T = "rank_fold g V 0 (nat (n - 1))"
  have n: "rd_args n" using assms(1) by (simp add: ard_valid_def)
  have "\<exists>s. sym_run A (?X r) r (?S r) (sym_start (?K r)) = Some s \<and> sy_known s (ard_buf (B r) (ca_recvbuf (B r))) = Some ?T \<and>
      (\<forall>p \<in> {0..<n}. ?X p r = sy_out s p)" if r: "r \<in> {0..<n}" for r
  proof -
    consider "rd_extra n r" | "\<not> rd_extra n r" "rd_proxy n r" | "\<not> rd_extra n r" "\<not> rd_proxy n r" by blast
    then show ?thesis
    proof cases
      case 1
      show ?thesis using ard_extra_plays [OF n assms(2) r 1, of V it]
        unfolding ard_script_def ard_val_all [OF n proxy_of_extra(1) [OF n r 1]] .
    next
      case 2
      have m: "r \<in> rd_members n" using r 2 by (simp add: rd_members_def)
      show ?thesis using ard_proxy_plays [OF n assms(2,3) r 2(2), of V it] unfolding ard_script_def ard_val_all [OF n m] .
    next
      case 3
      have m: "r \<in> rd_members n" using r 3 by (simp add: rd_members_def)
      show ?thesis using ard_base_plays [OF n assms(2,3) r 3, of V it] unfolding ard_script_def ard_val_all [OF n m] .
    qed
  qed
  then obtain fin where fin: "\<forall>r \<in> {0..<n}. sym_run A (?X r) r (?S r) (sym_start (?K r)) = Some (fin r) \<and>
      sy_known (fin r) (ard_buf (B r) (ca_recvbuf (B r))) = Some ?T \<and> (\<forall>p \<in> {0..<n}. ?X p r = sy_out (fin r) p)"
    by (metis (no_types, lifting))
  have P: "plays A {0..<n} ?S ?K ?X fin" using fin by (simp add: plays_def)
  have net: "net_idle {0..<n} ?K (view (cf_world c0))"
    unfolding net_idle_def
  proof (intro conjI ballI allI impI)
    fix r b u assume "?K r b = Some u"
    then show "nt_val (view (cf_world c0)) r b = u" by (auto simp: ard_known_def ard_own_def V_def split: if_splits)
  qed (use assms(6) in \<open>simp_all add: net_idle_def\<close>)
  have idle: "ard.coll_idle ?g c0" using assms(5) by (simp add: ard.coll_idle_def ard_idle_def)
  have "nt_val (view (cf_world c)) r (ard_buf (B r) (ca_recvbuf (B r))) = ?T"
    by (rule ard.run_data(2) [of ?g A view ?K ?X fin c0 c r]) (use assms P net idle fin in simp_all)
  moreover have "V = (\<lambda>i. nt_val (view (cf_world c0)) i (ard_buf (B i) (ard_src (B i))))" by (rule ext) (rule V_def)
  ultimately show ?thesis by simp
qed

subsection \<open>Three ranks\<close>

text \<open>Rank 0 is an extra rank, rank 1 its proxy; rank 1 calls the collective in place.\<close>

definition sum_type :: ucg_dt_arg where
  "sum_type = \<lparr>cd_addr = 2, cd_size = 4, cd_extent = 4, cd_true_lb = 0, cd_true_extent = 4\<rparr>"

definition sum_args :: "ucg_rank_t \<Rightarrow> ucg_coll_args" where
  "sum_args r = (coll_args_zero UCG_COLL_TYPE_ALLREDUCE)
     \<lparr>ca_sendbuf := if r = 1 then UCG_IN_PLACE else 4, ca_recvbuf := 8, ca_count := 1, ca_dt := Some sum_type, ca_op := 3\<rparr>"

definition sum_net :: data_world where
  "sum_net = \<lparr>dw_msgs = [], dw_rcvd = [], dw_pend = [], dw_lent = [],
     dw_vals = [((0, 4, 1, 2), 5), ((1, 8, 1, 2), 7), ((2, 4, 1, 2), 9)]\<rparr>"

definition sum_op :: "ucg_rank_t \<Rightarrow> ucx_op" where
  "sum_op r = op_set_id 0x800001 (case ucg_planc_ucx_allreduce_rd_op_new (data_env 3 r) 1 2 blank_coll 12 (sum_args r)
     \<lparr>h_outcomes = [], h_live = 0\<rparr> sum_net of Some (Some op, _) \<Rightarrow> op | _ \<Rightarrow> undefined)"

definition sum_start :: "data_world coll_conf" where
  "sum_start = \<lparr>cf_op = sum_op, cf_on = (\<lambda>_. None), cf_world = sum_net\<rparr>"

definition sum_moves :: "(bool \<times> ucg_rank_t) list" where
  "sum_moves = [(True, 0), (True, 1), (True, 2), (False, 1), (False, 0)]"

definition sum_run :: "data_world coll_conf option" where
  "sum_run = coll_play (data_env 3) ucg_planc_ucx_allreduce_rd_op_trigger ucg_planc_ucx_allreduce_rd_op_progress sum_moves sum_start"

declare ucg_planc_ucx_allreduce_rd_op_base.simps [code]

lemma sum_value: "case sum_run of None \<Rightarrow> False | Some c \<Rightarrow> cf_on c 0 = Some UCG_OK \<and> op_status (cf_op c 0) = UCG_OK"
  by code_simp

lemma sum_valid: "ard_valid 3 sum_args (\<lambda>_. 12) (data_env 3)" and sum_areas: "ard_areas plain_areas 3 sum_args (\<lambda>_. 12) (+)"
proof -
  have x: "\<not> rd_extra 3 1" by (simp add: rd_extra_def)
  show "ard_valid 3 sum_args (\<lambda>_. 12) (data_env 3)"
    by (simp add: ard_valid_def rd_args_def data_env_def ard_copy_succeeds_def)
  show "ard_areas plain_areas 3 sum_args (\<lambda>_. 12) (+)"
    using x by (auto simp: ard_areas_def plain_areas_def sum_args_def UCG_IN_PLACE_def)
qed

lemma sum_idle: "ard_idle 3 0x800001 sum_args (\<lambda>_. 12) (\<lambda>_. rd_blank) sum_start"
proof -
  have "ard_ready 0x800001 rd_blank 3 (sum_args r) 12 r (sum_op r)" if r: "0 \<le> r" for r
  proof -
    have a: "rd_args 3" by (simp add: rd_args_def)
    have t: "rd_type (ucg_algo_rd_iter_init rd_blank 3 r) = UCG_ALGO_RD_ITER_EXTRA \<longleftrightarrow> rd_extra 3 r"
      using rd_type_at [OF a r, of rd_blank 0] by (simp add: rd_at_def)
    have dt: "ca_dt (sum_args r) = Some sum_type" "cd_true_lb sum_type = 0" by (simp_all add: sum_args_def sum_type_def)
    show ?thesis using t dt
      by (auto simp: ard_ready_def sum_op_def ucg_planc_ucx_allreduce_rd_op_new_def ucx_op_new_def heap_alloc_def Let_def c_offset_def
        ucg_plan_op_ctor_def ucg_request_ctor_def ucg_planc_ucx_op_init_def rd_at_def data_env_def op_set_id_def blank_coll_def
        intro!: exI [where x = 0])
  qed
  then show ?thesis by (simp add: ard_idle_def sum_start_def)
qed

lemma allreduce_rd_reduces_witness:
  "\<exists>c. sum_run = Some c \<and> op_status (cf_op c 0) = UCG_OK \<and> dw_val (cf_world c) 0 (8, 1, 2) = 21"
proof -
  obtain c where c: "sum_run = Some c" "cf_on c 0 = Some UCG_OK" "op_status (cf_op c 0) = UCG_OK"
    using sum_value by (auto split: option.splits)
  have net: "net_idle {0..<3} (\<lambda>_ _. None) (data_view (cf_world sum_start))"
    by (simp add: net_idle_def data_view_def sum_start_def sum_net_def)
  have ms: "snd ` set sum_moves \<subseteq> {0..<3}" by (simp add: sum_moves_def)
  note run = coll_play_run [OF ms coll_run.start c(1) [unfolded sum_run_def]]
  have as: "associative ((+) :: int \<Rightarrow> int \<Rightarrow> int)" by (simp add: associative_def)
  have "nt_val (data_view (cf_world c)) 0 (ard_buf (sum_args 0) (ca_recvbuf (sum_args 0))) =
      rank_fold (+) (\<lambda>i. nt_val (data_view (cf_world sum_start)) i (ard_buf (sum_args i) (ard_src (sum_args i)))) 0 (nat (3 - 1))"
    by (rule allreduce_rd_reduces [OF sum_valid sum_areas as data_env_promises sum_idle net run _ c(2,3)]) simp
  also have "\<dots> = 21"
    by (simp add: numeral_2_eq_2 ard_src_def sum_args_def sum_type_def coll_args_zero_def dt_addr_def data_view_def sum_start_def
        sum_net_def dw_val_def UCG_IN_PLACE_def)
  finally show ?thesis using c by (auto simp: data_view_def sum_args_def sum_type_def coll_args_zero_def dt_addr_def)
qed

end
