(* ===== verification/Scatter_Gather_Linear.thy ===== *)
theory Scatter_Gather_Linear
  imports Allgatherv
begin

text \<open>
  The linear gatherv and scatterv (\<open>src/src/planc/ucx/gatherv/gatherv_linear.c\<close>,
  \<open>src/src/planc/ucx/scatterv/scatterv_linear.c\<close>): the root exchanges a message with every other rank.  The counts are
  \<open>ca_recvcounts\<close> and \<open>ca_count\<close> (what a rank sends) of a gatherv, and \<open>ca_sendcounts\<close> and \<open>ca_count\<close> (what a rank
  receives) of a scatterv.
\<close>

subsection \<open>Gatherv\<close>

definition UCG_GATHERV_LINEAR_RECV :: u64 where "UCG_GATHERV_LINEAR_RECV = 0x1"
definition UCG_GATHERV_LINEAR_SEND :: u64 where "UCG_GATHERV_LINEAR_SEND = 0x2"
definition UCG_GATHERV_LINEAR_FLAGS :: u64 where
  "UCG_GATHERV_LINEAR_FLAGS = UCG_GATHERV_LINEAR_RECV OR UCG_GATHERV_LINEAR_SEND"

text \<open>What the root does for rank \<open>i\<close>.\<close>

definition gatherv_linear_root_rank :: "'w coll_env \<Rightarrow> c_int \<Rightarrow> 'w step" where
  "gatherv_linear_root_rank env i op w =
     (let args = op_args op; recvtype = dt_addr (ca_recvtype args)
      in do { (rbuf, rcount) \<leftarrow> agv_block args i;
              if rcount = 0 then Some (UCG_OK, op, w)
              else if i = ca_root args then
                if ca_sendbuf args = UCG_IN_PLACE then Some (UCG_OK, op, w)
                else call_step (ce_memcpy env rbuf rcount recvtype (ca_sendbuf args) (ca_count args) (dt_addr (ca_sendtype args))) op w
              else call_step (ce_irecv env rbuf rcount recvtype i (op_tag op)) op w })"

definition ucg_planc_ucx_gatherv_linear_op_root :: "'w coll_env \<Rightarrow> 'w step" where
  "ucg_planc_ucx_gatherv_linear_op_root env =
     steps [if_flag_once UCG_GATHERV_LINEAR_RECV
              (with_recvtype (steps (map (gatherv_linear_root_rank env) [0..ce_size env - 1]))),
            call_step (ce_testall env)]"

definition ucg_planc_ucx_gatherv_linear_op_non_root :: "'w coll_env \<Rightarrow> 'w step" where
  "ucg_planc_ucx_gatherv_linear_op_non_root env op =
     (let args = op_args op
      in steps [if_flag_once UCG_GATHERV_LINEAR_SEND
                  (when_step (ca_count args \<noteq> 0)
                    (call_step (ce_isend env (ca_sendbuf args) (ca_count args) (dt_addr (ca_sendtype args)) (ca_root args) (op_tag op)))),
                call_step (ce_testall env)] op)"

definition ucg_planc_ucx_gatherv_linear_op_progress :: "'w coll_env \<Rightarrow> 'w step" where
  "ucg_planc_ucx_gatherv_linear_op_progress env op w =
     progress_end
       (if ce_myrank env = ca_root (op_args op) then ucg_planc_ucx_gatherv_linear_op_root env op w
        else ucg_planc_ucx_gatherv_linear_op_non_root env op w)"

definition ucg_planc_ucx_gatherv_linear_op_trigger :: "'w coll_env \<Rightarrow> 'w step" where
  "ucg_planc_ucx_gatherv_linear_op_trigger env op w =
     (case ucg_planc_ucx_op_reset env op w of
        (op, w) \<Rightarrow> trigger_end (ucg_planc_ucx_gatherv_linear_op_progress env (set_flags UCG_GATHERV_LINEAR_FLAGS op) w))"

definition ucg_planc_ucx_gatherv_linear_op_new ::
    "'w coll_env \<Rightarrow> nat \<Rightarrow> nat \<Rightarrow> ucx_coll \<Rightarrow> ucg_coll_args \<Rightarrow> ucg_heap \<Rightarrow> 'w \<Rightarrow> ucx_op option \<times> ucg_heap \<times> 'w" where
  "ucg_planc_ucx_gatherv_linear_op_new = ucx_op_new"

text \<open>It is for groups of 256 ranks only.\<close>

definition ucg_planc_ucx_gatherv_linear_check :: "c_int \<Rightarrow> ucg_status" where
  "ucg_planc_ucx_gatherv_linear_check group_size = (if group_size \<noteq> 256 then UCG_ERR_UNSUPPORTED else UCG_OK)"

definition ucg_planc_ucx_gatherv_linear_prepare ::
    "bool \<Rightarrow> 'w coll_env \<Rightarrow> nat \<Rightarrow> nat \<Rightarrow> ucx_coll \<Rightarrow> ucg_coll_args option \<Rightarrow> ucg_heap \<Rightarrow> 'w \<Rightarrow>
     ((ucg_status + ucx_op) \<times> ucg_heap \<times> 'w) option" where
  "ucg_planc_ucx_gatherv_linear_prepare chk env grp vgroup blank args h w =
     (if (args \<noteq> None \<or> \<not> chk) \<and> ucg_planc_ucx_gatherv_linear_check (ce_size env) \<noteq> UCG_OK
      then Some (Inl UCG_ERR_UNSUPPORTED, h, w)
      else prepare_with chk (ucg_planc_ucx_gatherv_linear_op_new env grp vgroup blank) args h w)"

subsection \<open>Scatterv: messages\<close>

definition UCG_SCATTERV_LINEAR_RECV :: u64 where "UCG_SCATTERV_LINEAR_RECV = 0x1"
definition UCG_SCATTERV_LINEAR_SEND :: u64 where "UCG_SCATTERV_LINEAR_SEND = 0x2"
definition UCG_SCATTERV_LINEAR_FLAGS :: u64 where
  "UCG_SCATTERV_LINEAR_FLAGS = UCG_SCATTERV_LINEAR_RECV OR UCG_SCATTERV_LINEAR_SEND"

text \<open>\<open>uo_send_type\<close> is true for \<open>UCG_SCATTERV_SEND_TYPE_BATCH\<close>.\<close>

definition UCG_SCATTERV_SEND_TYPE_ONE_BY_ONE :: bool where "UCG_SCATTERV_SEND_TYPE_ONE_BY_ONE = False"
definition UCG_SCATTERV_SEND_TYPE_BATCH :: bool where "UCG_SCATTERV_SEND_TYPE_BATCH = True"

text \<open>Block \<open>i\<close> of the root's send buffer.\<close>

definition scatterv_block :: "ucg_coll_args \<Rightarrow> c_int \<Rightarrow> (c_ptr \<times> c_int) option" where
  "scatterv_block args i =
     do { sendtype \<leftarrow> ca_sendtype args; displ \<leftarrow> c_at (ca_sdispls args) i; cnt \<leftarrow> c_at (ca_sendcounts args) i;
          Some (c_offset (ca_sendbuf args) (displ * cd_extent sendtype), cnt) }"

definition scatterv_linear_root_rank :: "'w coll_env \<Rightarrow> c_int \<Rightarrow> 'w step" where
  "scatterv_linear_root_rank env i op w =
     (let args = op_args op; sendtype = dt_addr (ca_sendtype args)
      in do { (sbuf, scount) \<leftarrow> scatterv_block args i;
              if i = ca_root args then
                when_step (0 < scount \<and> ca_recvbuf args \<noteq> UCG_IN_PLACE)
                  (call_step (ce_memcpy env (ca_recvbuf args) (ca_count args) (dt_addr (ca_recvtype args)) sbuf scount sendtype)) op w
              else when_step (0 < scount) (call_step (ce_isend env sbuf scount sendtype i (op_tag op))) op w })"

definition with_sendtype :: "'w step \<Rightarrow> 'w step" where
  "with_sendtype f op w = (case ca_sendtype (op_args op) of None \<Rightarrow> None | Some _ \<Rightarrow> f op w)"

definition scatterv_linear_next :: "ucx_op \<Rightarrow> ucx_op" where
  "scatterv_linear_next =
     upd_priv (\<lambda>p. p\<lparr>uo_flags := uo_flags p OR UCG_SCATTERV_LINEAR_SEND, uo_linear_idx := uo_linear_idx p + 1\<rparr>)"

partial_function (option) scatterv_linear_loop :: "'w coll_env \<Rightarrow> 'w step" where
  "scatterv_linear_loop env op w =
     (let idx = uo_linear_idx (op_priv op)
      in if \<not> idx < ce_size env then Some (UCG_OK, op, w)
         else do { (status, op, w) \<leftarrow>
                     steps [if_flag_once UCG_SCATTERV_LINEAR_SEND (scatterv_linear_root_rank env idx),
                            call_step (ce_testall env)] op w;
                   if status \<noteq> UCG_OK then Some (status, op, w)
                   else scatterv_linear_loop env (scatterv_linear_next op) w })"

definition ucg_planc_ucx_scatterv_linear_op_root_send_one_by_one :: "'w coll_env \<Rightarrow> 'w step" where
  "ucg_planc_ucx_scatterv_linear_op_root_send_one_by_one env = with_sendtype (scatterv_linear_loop env)"

definition ucg_planc_ucx_scatterv_linear_op_root_send_batch :: "'w coll_env \<Rightarrow> 'w step" where
  "ucg_planc_ucx_scatterv_linear_op_root_send_batch env =
     with_sendtype
       (steps [if_flag_once UCG_SCATTERV_LINEAR_SEND (err_steps (map (scatterv_linear_root_rank env) [0..ce_size env - 1])),
               call_step (ce_testall env)])"

definition ucg_planc_ucx_scatterv_linear_op_non_root_recv :: "'w coll_env \<Rightarrow> 'w step" where
  "ucg_planc_ucx_scatterv_linear_op_non_root_recv env op =
     (let args = op_args op
      in steps [if_flag_once UCG_SCATTERV_LINEAR_RECV
                  (when_step (0 < ca_count args)
                    (call_step (ce_irecv env (ca_recvbuf args) (ca_count args) (dt_addr (ca_recvtype args)) (ca_root args) (op_tag op)))),
                call_step (ce_testall env)] op)"

definition ucg_planc_ucx_scatterv_linear_op_progress :: "'w coll_env \<Rightarrow> 'w step" where
  "ucg_planc_ucx_scatterv_linear_op_progress env op w =
     progress_end
       (if ce_myrank env = ca_root (op_args op)
        then if uo_send_type (op_priv op) = UCG_SCATTERV_SEND_TYPE_ONE_BY_ONE
             then ucg_planc_ucx_scatterv_linear_op_root_send_one_by_one env op w
             else ucg_planc_ucx_scatterv_linear_op_root_send_batch env op w
        else ucg_planc_ucx_scatterv_linear_op_non_root_recv env op w)"

definition ucg_planc_ucx_scatterv_linear_op_trigger :: "'w coll_env \<Rightarrow> 'w step" where
  "ucg_planc_ucx_scatterv_linear_op_trigger env op w =
     (case ucg_planc_ucx_op_reset env op w of
        (op, w) \<Rightarrow> trigger_end (ucg_planc_ucx_scatterv_linear_op_progress env
                     (upd_priv (\<lambda>p. p\<lparr>uo_linear_idx := 0, uo_flags := UCG_SCATTERV_LINEAR_FLAGS\<rparr>) op) w))"

subsection \<open>Scatterv: one by one or all at once\<close>

text \<open>\<open>UCG_MEMUNITS_INF\<close> and \<open>UCG_MEMUNITS_AUTO\<close> are constants of the UCS library, for an unlimited size and for one to be chosen.\<close>

record ucs_memunits =
  UCG_MEMUNITS_INF :: u64
  UCG_MEMUNITS_AUTO :: u64

definition SINGLE_PROCESS_SEND_BATCH_LOWER_BOUND :: u64 where "SINGLE_PROCESS_SEND_BATCH_LOWER_BOUND = 4096"
definition SINGLE_PROCESS_SEND_BATCH_UPPER_BOUND :: u64 where "SINGLE_PROCESS_SEND_BATCH_UPPER_BOUND = 65536"
definition SINGLE_NODE_SEND_BATCH_LOWER_BOUND :: u64 where "SINGLE_NODE_SEND_BATCH_LOWER_BOUND = 8256"
definition SINGLE_NODE_SEND_BATCH_UPPER_BOUND :: u64 where "SINGLE_NODE_SEND_BATCH_UPPER_BOUND = - 1"

record ucg_planc_ucx_scatterv_config =
  sc_min_bsend :: u64
  sc_max_bsend :: u64
  sc_kntree_degree :: c_int

definition bsend_auto_min :: "ucs_memunits \<Rightarrow> c_int \<Rightarrow> c_int \<Rightarrow> u64" where
  "bsend_auto_min mu ppn nnode =
     (if nnode = 1 then SINGLE_NODE_SEND_BATCH_LOWER_BOUND
      else if ppn = 1 then SINGLE_PROCESS_SEND_BATCH_LOWER_BOUND
      else if 1 < ppn then
        if nnode \<le> 4 then 32768
        else if nnode \<le> 8 \<and> ppn \<le> 32 then 16384
        else if nnode \<le> 8 then 32768
        else if nnode \<le> 16 \<and> ppn \<le> 4 then 16384
        else 32768
      else UCG_MEMUNITS_INF mu)"

definition bsend_auto_max :: "ucs_memunits \<Rightarrow> c_int \<Rightarrow> c_int \<Rightarrow> u64" where
  "bsend_auto_max mu ppn nnode =
     (if nnode = 1 then SINGLE_NODE_SEND_BATCH_UPPER_BOUND
      else if ppn = 1 then SINGLE_PROCESS_SEND_BATCH_UPPER_BOUND
      else if 1 < ppn then
        if nnode \<le> 4 then UCG_MEMUNITS_INF mu
        else if nnode \<le> 8 \<and> ppn \<le> 4 then 32768
        else if nnode \<le> 8 \<and> ppn \<le> 8 then 65536
        else if nnode \<le> 8 \<and> ppn \<le> 32 then 16384
        else if nnode \<le> 8 then UCG_MEMUNITS_INF mu
        else if nnode \<le> 16 \<and> ppn \<le> 4 then 16384
        else 131072
      else UCG_MEMUNITS_INF mu)"

definition ucg_planc_ucx_scatterv_linear_bsend_threshold :: "ucs_memunits \<Rightarrow> ucg_planc_ucx_scatterv_config \<Rightarrow> c_int \<Rightarrow> c_int \<Rightarrow> u64 \<times> u64" where
  "ucg_planc_ucx_scatterv_linear_bsend_threshold mu config ppn nnode =
     (let mn = sc_min_bsend config;
          mx = (if sc_min_bsend config = UCG_MEMUNITS_INF mu then UCG_MEMUNITS_INF mu else sc_max_bsend config)
      in (if sc_min_bsend config = UCG_MEMUNITS_AUTO mu then bsend_auto_min mu ppn nnode else mn,
          if sc_max_bsend config = UCG_MEMUNITS_AUTO mu then bsend_auto_max mu ppn nnode else mx))"

text \<open>\<open>ppn\<close> and \<open>nnode\<close> are those of the topology; only the root decides.\<close>

definition ucg_planc_ucx_scatterv_linear_op_init ::
    "'w coll_env \<Rightarrow> ucs_memunits \<Rightarrow> ucg_planc_ucx_scatterv_config \<Rightarrow> c_int \<Rightarrow> c_int \<Rightarrow> ucx_op \<Rightarrow> ucx_op option" where
  "ucg_planc_ucx_scatterv_linear_op_init env mu config ppn nnode op =
     (let args = op_args op; group_size = word_of_int (ce_size env) :: u32
      in if ce_myrank env \<noteq> ca_root args then Some op
         else case ucg_planc_ucx_scatterv_linear_bsend_threshold mu config ppn nnode of
           (min_bsend, max_bsend) \<Rightarrow>
             do { sendtype \<leftarrow> ca_sendtype args;
                  total_msg_size \<leftarrow> counts_total (Some (word_of_int (cd_extent sendtype))) (ca_sendcounts args) (unat group_size);
                  if group_size = 0 then None
                  else let avg_size = total_msg_size div ucast group_size;
                           send_type = (if avg_size < min_bsend \<or> max_bsend < avg_size then UCG_SCATTERV_SEND_TYPE_ONE_BY_ONE
                                        else UCG_SCATTERV_SEND_TYPE_BATCH)
                       in Some (upd_priv (\<lambda>p. p\<lparr>uo_send_type := send_type\<rparr>) op) })"

definition ucg_planc_ucx_scatterv_linear_op_new ::
    "'w coll_env \<Rightarrow> nat \<Rightarrow> nat \<Rightarrow> ucx_coll \<Rightarrow> ucs_memunits \<Rightarrow> ucg_planc_ucx_scatterv_config \<Rightarrow> c_int \<Rightarrow> c_int \<Rightarrow> ucg_coll_args \<Rightarrow> ucg_heap \<Rightarrow> 'w \<Rightarrow>
     (ucx_op option \<times> ucg_heap \<times> 'w) option" where
  "ucg_planc_ucx_scatterv_linear_op_new env grp vgroup blank mu config ppn nnode args h w =
     (case ucx_op_new env grp vgroup blank args h w of
        (None, h, w) \<Rightarrow> Some (None, h, w)
      | (Some op, h, w) \<Rightarrow>
          map_option (\<lambda>op. (Some op, h, w)) (ucg_planc_ucx_scatterv_linear_op_init env mu config ppn nnode op))"

definition ucg_planc_ucx_scatterv_linear_prepare ::
    "bool \<Rightarrow> 'w coll_env \<Rightarrow> nat \<Rightarrow> nat \<Rightarrow> ucx_coll \<Rightarrow> ucs_memunits \<Rightarrow> ucg_planc_ucx_scatterv_config \<Rightarrow> c_int \<Rightarrow> c_int \<Rightarrow> ucg_coll_args option \<Rightarrow>
     ucg_heap \<Rightarrow> 'w \<Rightarrow> ((ucg_status + ucx_op) \<times> ucg_heap \<times> 'w) option" where
  "ucg_planc_ucx_scatterv_linear_prepare chk env grp vgroup blank mu config ppn nnode args h w =
     (case args of
        None \<Rightarrow> if chk then Some (Inl UCG_ERR_INVALID_PARAM, h, w) else None
      | Some args \<Rightarrow>
          do { (op, h, w) \<leftarrow> ucg_planc_ucx_scatterv_linear_op_new env grp vgroup blank mu config ppn nnode args h w;
               Some (case op of None \<Rightarrow> (Inl UCG_ERR_NO_MEMORY, h, w) | Some op \<Rightarrow> (Inr op, h, w)) })"

end
