(* ===== verification/Topo_Group.thy ===== *)
theory Topo_Group
  imports Topo
begin

text \<open>
  What a created topology group is made of: the members in ascending order, this process's position among them,
  and the memory the creation leaves behind.
\<close>

section \<open>The members\<close>

fun leader_key :: "ucg_topo_group_type \<Rightarrow> (ucg_location \<Rightarrow> c_int) option" where
  "leader_key UCG_TOPO_GROUP_TYPE_SUBNET_LEADER = Some loc_subnet_id"
| "leader_key UCG_TOPO_GROUP_TYPE_NODE_LEADER = Some loc_node_id"
| "leader_key UCG_TOPO_GROUP_TYPE_SOCKET_LEADER = Some loc_socket_id"
| "leader_key _ = None"

fun same_place :: "ucg_topo_group_type \<Rightarrow> ucg_location \<Rightarrow> ucg_location \<Rightarrow> bool" where
  "same_place UCG_TOPO_GROUP_TYPE_SUBNET a b = (loc_subnet_id a = loc_subnet_id b)"
| "same_place UCG_TOPO_GROUP_TYPE_NODE a b = (loc_node_id a = loc_node_id b)"
| "same_place UCG_TOPO_GROUP_TYPE_SOCKET a b = (loc_node_id a = loc_node_id b \<and> loc_socket_id a = loc_socket_id b)"
| "same_place _ a b = True"

text \<open>
  Rank \<open>i\<close> of the map, at \<open>L i\<close>, belongs to the group: a leader is the first rank with its id, a member of
  another group is where this process is.
\<close>

definition topo_member :: "ucg_topo_group_type \<Rightarrow> ucg_location \<Rightarrow> (nat \<Rightarrow> ucg_location) \<Rightarrow> nat \<Rightarrow> bool" where
  "topo_member type myloc L i =
     (case leader_key type of
        Some key \<Rightarrow> list_all (\<lambda>j. key (L j) \<noteq> key (L i)) [0..<i]
      | None \<Rightarrow> same_place type (L i) myloc)"

definition topo_members :: "ucg_topo_group_type \<Rightarrow> ucg_location \<Rightarrow> (nat \<Rightarrow> ucg_location) \<Rightarrow> nat \<Rightarrow> nat list" where
  "topo_members type myloc L n = filter (topo_member type myloc L) [0..<n]"

section \<open>The walk over the ranks\<close>

definition aux_ok :: "ucg_topo_group_type \<Rightarrow> (nat \<Rightarrow> ucg_location) \<Rightarrow> nat \<Rightarrow> topo_aux \<Rightarrow> bool" where
  "aux_ok type L i aux \<longleftrightarrow>
     (case leader_key type of
        None \<Rightarrow> True
      | Some key \<Rightarrow> (case aux of None \<Rightarrow> False | Some buf \<Rightarrow> set (lf_buffer buf) = (\<lambda>j. key (L j)) ` {..<i}))"

lemmas aux_defs = ucg_topo_group_aux_init_empty_def ucg_topo_group_aux_cleanup_empty_def
  ucg_topo_group_aux_check_empty_def ucg_topo_group_aux_is_member_empty_def ucg_topo_group_aux_add_member_empty_def
  ucg_topo_group_aux_init_leader_filter_def ucg_topo_group_aux_cleanup_leader_filter_def
  ucg_topo_group_aux_is_subnet_member_def ucg_topo_group_aux_is_node_member_def
  ucg_topo_group_aux_is_socket_member_def ucg_topo_group_aux_is_leader_def
  ucg_topo_group_aux_is_subnet_leader_def ucg_topo_group_aux_is_node_leader_def
  ucg_topo_group_aux_is_socket_leader_def ucg_topo_group_aux_add_subnet_leader_def
  ucg_topo_group_aux_add_node_leader_def ucg_topo_group_aux_add_socket_leader_def

lemma heap_realloc_ok: "h_outcomes h = [] \<Longrightarrow> heap_realloc h = (True, h)"
  by (simp add: heap_realloc_def heap_alloc_ok heap_free_def)

lemma heap_realloc_live: "heap_realloc h = (ok, h') \<Longrightarrow> h_live h' = h_live h"
  by (auto simp: heap_realloc_def dest: heap_alloc_live split: prod.splits bool.splits)

lemma aux_ok_init:
  assumes "h_outcomes h = []"
  obtains aux h' where "aid_init (ucg_topo_group_aid type) h = (UCG_OK, aux, h')"
    "h_outcomes h' = []" "aux_ok type L 0 aux"
  using assms by (cases type) (auto simp: aux_defs heap_alloc_ok aux_ok_def)

lemma key_is_new: "x \<notin> (\<lambda>j. f j) ` {..<i} \<longleftrightarrow> list_all (\<lambda>j. f j \<noteq> x) [0..<i]"
  by (auto simp: list_all_iff image_iff)

lemma aux_ok_member:
  assumes "aux_ok type L i aux"
  shows "aid_is_member (ucg_topo_group_aid type) aux topo (L i) = Some (topo_member type (tp_myloc topo) L i)"
  using assms
  by (cases type; cases aux) (auto simp: aux_defs aux_ok_def topo_member_def list_ex_iff simp flip: key_is_new)

lemma aux_ok_skip:
  assumes "aux_ok type L i aux" and "\<not> topo_member type myloc L i"
  shows "aux_ok type L (i + 1) aux"
  using assms
  by (cases type; cases aux)
    (auto simp: aux_ok_def topo_member_def lessThan_Suc simp flip: key_is_new)

lemma add_leader_ok:
  assumes "h_outcomes h = []"
  shows "\<exists>cap h'. ucg_topo_group_aux_add_leader (Some buf) key h =
      Some (UCG_OK, Some \<lparr>lf_buffer = lf_buffer buf @ [key], lf_capacity = cap\<rparr>, h') \<and> h_outcomes h' = []"
  using assms by (cases buf) (simp add: ucg_topo_group_aux_add_leader_def heap_realloc_ok)

lemma aux_ok_add:
  assumes "aux_ok type L i aux" and "h_outcomes h = []"
  obtains aux' h' where "aid_add_member (ucg_topo_group_aid type) aux (L i) h = Some (UCG_OK, aux', h')"
    "h_outcomes h' = []" "aux_ok type L (i + 1) aux'"
proof (cases "leader_key type")
  case None
  then have "aid_add_member (ucg_topo_group_aid type) aux (L i) h = Some (UCG_OK, aux, h)"
    by (cases type) (simp_all add: aux_defs)
  then show ?thesis using that assms(2) None by (simp add: aux_ok_def)
next
  case (Some key)
  obtain buf where buf: "aux = Some buf" "set (lf_buffer buf) = (\<lambda>j. key (L j)) ` {..<i}"
    using assms(1) Some by (auto simp: aux_ok_def split: option.splits)
  have e: "aid_add_member (ucg_topo_group_aid type) aux (L i) h =
      ucg_topo_group_aux_add_leader (Some buf) (key (L i)) h"
    using Some buf(1) by (cases type) (auto simp: aux_defs)
  obtain cap h' where "ucg_topo_group_aux_add_leader (Some buf) (key (L i)) h =
      Some (UCG_OK, Some \<lparr>lf_buffer = lf_buffer buf @ [key (L i)], lf_capacity = cap\<rparr>, h')" "h_outcomes h' = []"
    using add_leader_ok [OF assms(2)] by blast
  then show ?thesis using that e Some buf by (simp add: aux_ok_def lessThan_Suc)
qed

text \<open>Where this process is among the ranks found so far.\<close>

definition self_ok :: "ucg_rank_t \<Rightarrow> ucg_rank_t list \<Rightarrow> ucg_rank_t \<Rightarrow> bool" where
  "self_ok self ranks myrank \<longleftrightarrow>
     (if self \<in> set ranks then 0 \<le> myrank \<and> nat myrank < length ranks \<and> ranks ! nat myrank = self
      else myrank = UCG_INVALID_RANK)"

lemma group_add_ok:
  assumes "h_outcomes (gw_heap w) = []" and "ucg_rank_map_eval chk m i = Some r"
    and "self_ok (tp_myrank topo) (gw_ranks w) (gw_myrank w)"
  obtains w' where "topo_group_add chk topo m i w = Some (Group_Done, w')" "gw_aux w' = gw_aux w"
    "gw_ranks w' = gw_ranks w @ [r]" "h_outcomes (gw_heap w') = []"
    "self_ok (tp_myrank topo) (gw_ranks w') (gw_myrank w')"
proof -
  define mr where "mr = (if r = tp_myrank topo then int (length (gw_ranks w)) else gw_myrank w)"
  define cap where "cap = (if length (gw_ranks w) = gw_size_ranks w then gw_size_ranks w + 128 else gw_size_ranks w)"
  have "topo_group_add chk topo m i w =
      Some (Group_Done, w\<lparr>gw_size_ranks := cap, gw_ranks := gw_ranks w @ [r], gw_myrank := mr\<rparr>)"
    using assms(1,2)
    by (cases w) (simp add: topo_group_add_def ucg_topo_is_self_def heap_realloc_ok cap_def mr_def)
  then show ?thesis
  proof (rule that)
    show "self_ok (tp_myrank topo) (gw_ranks (w\<lparr>gw_size_ranks := cap, gw_ranks := gw_ranks w @ [r], gw_myrank := mr\<rparr>))
        (gw_myrank (w\<lparr>gw_size_ranks := cap, gw_ranks := gw_ranks w @ [r], gw_myrank := mr\<rparr>))"
      using assms(3) by (auto simp: self_ok_def nth_append mr_def split: if_splits)
  qed (simp_all add: assms(1))
qed

lemma group_loop_members:
  assumes "aux_ok type L i (gw_aux w)" and "h_outcomes (gw_heap w) = []"
    and "self_ok (tp_myrank topo) (gw_ranks w) (gw_myrank w)"
    and "gw_ranks w = map gr (topo_members type (tp_myloc topo) L i)"
    and "\<And>j. j < i + k \<Longrightarrow> ucg_rank_map_eval chk m (int j) = Some (gr j) \<and>
           tp_get_location topo (gr j) = (UCG_OK, L j) \<and> aid_check (ucg_topo_group_aid type) (L j) = UCG_OK"
  shows "\<exists>w'. topo_group_loop chk topo m (ucg_topo_group_aid type) i k w = Some (Group_Done, w') \<and>
     h_outcomes (gw_heap w') = [] \<and> self_ok (tp_myrank topo) (gw_ranks w') (gw_myrank w') \<and>
     gw_ranks w' = map gr (topo_members type (tp_myloc topo) L (i + k))"
  using assms
proof (induction k arbitrary: i w)
  case (Suc k)
  let ?aid = "ucg_topo_group_aid type"
  have at: "ucg_rank_map_eval chk m (int i) = Some (gr i)" "tp_get_location topo (gr i) = (UCG_OK, L i)"
    "aid_check ?aid (L i) = UCG_OK"
    using Suc.prems(5) [of i] by simp_all
  have l: "ucg_topo_get_location chk topo m (int i) = Some (UCG_OK, L i)" by (simp add: ucg_topo_get_location_def at)
  note mem = aux_ok_member [OF Suc.prems(1), of topo]
  have later: "\<And>j. j < i + 1 + k \<Longrightarrow> ucg_rank_map_eval chk m (int j) = Some (gr j) \<and>
      tp_get_location topo (gr j) = (UCG_OK, L j) \<and> aid_check ?aid (L j) = UCG_OK"
    using Suc.prems(5) by simp
  show ?case
  proof (cases "topo_member type (tp_myloc topo) L i")
    case False
    have s: "topo_group_loop chk topo m ?aid i (Suc k) w = topo_group_loop chk topo m ?aid (i + 1) k w"
      using False by (simp add: l at mem)
    have ms: "topo_members type (tp_myloc topo) L (i + 1) = topo_members type (tp_myloc topo) L i"
      using False by (simp add: topo_members_def)
    show ?thesis unfolding s
      using Suc.IH [OF aux_ok_skip [OF Suc.prems(1) False] Suc.prems(2,3) _ later] Suc.prems(4) ms by simp
  next
    case True
    obtain aux' h' where a: "aid_add_member ?aid (gw_aux w) (L i) (gw_heap w) = Some (UCG_OK, aux', h')"
      "h_outcomes h' = []" "aux_ok type L (i + 1) aux'"
      by (rule aux_ok_add [OF Suc.prems(1,2)])
    let ?w = "w\<lparr>gw_aux := aux', gw_heap := h'\<rparr>"
    obtain w' where w': "topo_group_add chk topo m (int i) ?w = Some (Group_Done, w')" "gw_aux w' = aux'"
      "gw_ranks w' = gw_ranks w @ [gr i]" "h_outcomes (gw_heap w') = []"
      "self_ok (tp_myrank topo) (gw_ranks w') (gw_myrank w')"
      by (rule group_add_ok [of ?w chk m "int i" "gr i" topo]) (use a Suc.prems at in simp_all)
    have s: "topo_group_loop chk topo m ?aid i (Suc k) w = topo_group_loop chk topo m ?aid (i + 1) k w'"
      using True by (simp add: l at mem a w')
    have ms: "topo_members type (tp_myloc topo) L (i + 1) = topo_members type (tp_myloc topo) L i @ [i]"
      using True by (simp add: topo_members_def)
    show ?thesis unfolding s
      using Suc.IH [of "i + 1" w', OF _ _ w'(5) _ later] w' a Suc.prems(4) ms by simp
  qed
qed simp

section \<open>The created group\<close>

text \<open>The map taken over from an array evaluates as the array.\<close>

lemma array_map_eval:
  assumes "1 < length ranks" and "length ranks < 2 ^ 31"
  shows "\<exists>m h'. ucg_rank_map_init_by_array (Some ranks) (of_nat (length ranks)) True h = Some (UCG_OK, m, None, h') \<and>
     (\<forall>v < length ranks. ucg_rank_map_eval chk m (int v) = Some (ranks ! v)) \<and>
     h_outcomes h' = h_outcomes h \<and> h_live h' = h_live h - 1 + rank_map_blocks m"
proof -
  let ?n = "length ranks" and ?sz = "of_nat (length ranks) :: u32"
  have n: "unat ?sz = ?n" using assms(2) by (simp add: unsigned_of_nat take_bit_nat_eq_self)
  have i: "sint ?sz = int ?n" using assms(2) by (simp add: signed_of_nat signed_take_bit_int_eq_self)
  have p: "0 < ?n" using assms(1) by linarith
  from optimize_array [OF p le_refl n [symmetric]] obtain m opt where
    o: "ucg_rank_map_optimize \<lparr>rm_size = ?sz, rm_map = Rank_Array (Some ranks)\<rparr> = Some (m, opt)" "rm_size m = ?sz"
    and c: "if opt then \<exists>a d. (rm_map m = Rank_Full \<and> a = 0 \<and> d = 1 \<or> rm_map m = Rank_Stride a d) \<and>
            (\<forall>i < ?n. ranks ! i = a + int i * d)
        else rm_map m = Rank_Array (Some ranks)"
    by (elim exE conjE) (rule that, assumption, assumption, force split: if_splits)
  have e: "ucg_rank_map_init_by_array (Some ranks) ?sz True h = Some (UCG_OK, m, None, if opt then heap_free h else h)"
    using o by (simp add: ucg_rank_map_init_by_array_def)
  have b: "rank_map_blocks m = (if opt then 0 else 1)"
    using c by (auto simp: rank_map_blocks_def split: if_splits)
  have v: "ucg_rank_map_eval chk m (int v) = Some (ranks ! v)" if "v < ?n" for v
    using c that i o(2) by (auto simp: ucg_rank_map_eval_def c_read_Some split: if_splits)
  show ?thesis
    by (intro exI [of _ m] exI [of _ "if opt then heap_free h else h"]) (use e v b in simp)
qed

definition topo_group_is ::
    "bool \<Rightarrow> ucg_topo_group \<Rightarrow> ucg_rank_t \<Rightarrow> ucg_rank_t list \<Rightarrow> bool" where
  "topo_group_is chk g self ranks \<longleftrightarrow>
     tg_size g = of_nat (length ranks) \<and> self_ok self ranks (tg_myrank g) \<and>
     tg_state g = (if self \<in> set ranks \<and> 1 < length ranks then UCG_TOPO_GROUP_STATE_ENABLE
                   else UCG_TOPO_GROUP_STATE_DISABLE) \<and>
     (tg_state g = UCG_TOPO_GROUP_STATE_ENABLE \<longrightarrow>
        (\<forall>v < length ranks. ucg_rank_map_eval chk (tg_rank_map g) (int v) = Some (ranks ! v)))"

lemma group_finish_is:
  assumes "self_ok self (gw_ranks w) (gw_myrank w)" and "length (gw_ranks w) < 2 ^ 31"
  shows "\<exists>g w'. topo_group_finish grp w = Some (UCG_OK, g, w') \<and> gw_aux w' = gw_aux w \<and>
     topo_group_is chk g self (gw_ranks w)"
proof (cases "gw_myrank w = UCG_INVALID_RANK \<or> length (gw_ranks w) \<le> 1")
  case True
  then show ?thesis
    using assms(1) by (auto simp: topo_group_finish_def topo_group_is_def self_ok_def split: if_splits)
next
  case False
  then have "1 < length (gw_ranks w)" by simp
  from array_map_eval [OF this assms(2), of "gw_heap w" chk] obtain m h' where
    m: "ucg_rank_map_init_by_array (Some (gw_ranks w)) (of_nat (length (gw_ranks w))) True (gw_heap w) = Some (UCG_OK, m, None, h')"
    "\<forall>v < length (gw_ranks w). ucg_rank_map_eval chk m (int v) = Some (gw_ranks w ! v)"
    by blast
  have "topo_group_finish grp w = Some (UCG_OK, grp\<lparr>tg_myrank := gw_myrank w, tg_size := of_nat (length (gw_ranks w)),
      tg_state := UCG_TOPO_GROUP_STATE_ENABLE, tg_rank_map := m\<rparr>, w\<lparr>gw_heap := h'\<rparr>)"
    using False m(1) by (simp add: topo_group_finish_def Let_def)
  moreover have "self \<in> set (gw_ranks w)" using assms(1) False by (simp add: self_ok_def split: if_splits)
  ultimately show ?thesis
    using False m(2) assms(1) by (simp add: topo_group_is_def)
qed

text \<open>
  C15: a created group has exactly the ranks it is meant to have: the ranks of the map that are where this process
  is, or the first one of every subnet, node or socket for a group of leaders, in ascending order; it is enabled
  if this process is one of at least two of them, and then its rank map and its own rank in it are right; the
  other groups are untouched.  The locations of all ranks have to be known, and memory has to suffice.
\<close>

theorem topo_group_has_its_members:
  assumes "tg_myrank (tp_groups topo type) = UCG_INVALID_RANK" and "h_outcomes h = []"
    and "unat (rm_size m) < 2 ^ 31"
    and "\<And>i. i < unat (rm_size m) \<Longrightarrow> ucg_rank_map_eval chk m (int i) = Some (gr i) \<and>
           tp_get_location topo (gr i) = (UCG_OK, L i) \<and> aid_check (ucg_topo_group_aid type) (L i) = UCG_OK"
  shows "\<exists>topo' h'. ucg_topo_create_group chk topo m type h = Some (UCG_OK, topo', h') \<and>
     topo_group_is chk (tp_groups topo' type) (tp_myrank topo)
       (map gr (topo_members type (tp_myloc topo) L (unat (rm_size m)))) \<and>
     (\<forall>type'. type' \<noteq> type \<longrightarrow> tp_groups topo' type' = tp_groups topo type')"
proof -
  let ?aid = "ucg_topo_group_aid type" and ?n = "unat (rm_size m)" and ?g = "tp_groups topo type"
  let ?ranks = "map gr (topo_members type (tp_myloc topo) L ?n)"
  have a: "heap_alloc h = (True, h\<lparr>h_live := h_live h + 1\<rparr>)" using assms(2) by (simp add: heap_alloc_ok)
  have o: "h_outcomes (h\<lparr>h_live := h_live h + 1\<rparr>) = []" using assms(2) by simp
  obtain aux h1 where i: "aid_init ?aid (h\<lparr>h_live := h_live h + 1\<rparr>) = (UCG_OK, aux, h1)" "h_outcomes h1 = []"
    "aux_ok type L 0 aux"
    by (rule aux_ok_init [OF o])
  let ?w = "\<lparr>gw_aux = aux, gw_ranks = [], gw_size_ranks = 256, gw_myrank = tg_myrank ?g, gw_heap = h1\<rparr>"
  have "\<exists>w'. topo_group_loop chk topo m ?aid 0 ?n ?w = Some (Group_Done, w') \<and>
     h_outcomes (gw_heap w') = [] \<and> self_ok (tp_myrank topo) (gw_ranks w') (gw_myrank w') \<and>
     gw_ranks w' = map gr (topo_members type (tp_myloc topo) L (0 + ?n))"
    by (rule group_loop_members)
      (use i assms(1,4) in \<open>simp_all add: self_ok_def topo_members_def\<close>)
  then obtain w where w: "topo_group_loop chk topo m ?aid 0 ?n ?w = Some (Group_Done, w)"
    "self_ok (tp_myrank topo) (gw_ranks w) (gw_myrank w)" "gw_ranks w = ?ranks"
    by auto
  have "length ?ranks \<le> ?n" unfolding topo_members_def using length_filter_le [of _ "[0..<?n]"] by simp
  then have "length (gw_ranks w) < 2 ^ 31" using w(3) assms(3) by simp
  from group_finish_is [OF w(2) this, of ?g chk] obtain g w' where
    f: "topo_group_finish ?g w = Some (UCG_OK, g, w')" "topo_group_is chk g (tp_myrank topo) ?ranks"
    using w(3) by auto
  show ?thesis
    by (rule exI [of _ "topo\<lparr>tp_groups := (tp_groups topo)(type := g)\<rparr>"])
      (simp add: ucg_topo_create_group_def a i(1) w(1) f Let_def)
qed

section \<open>Memory\<close>

definition topo_group_blocks :: "ucg_topo_group \<Rightarrow> int" where
  "topo_group_blocks g = (if tg_state g = UCG_TOPO_GROUP_STATE_ENABLE then rank_map_blocks (tg_rank_map g) else 0)"

lemma add_leader_live:
  "ucg_topo_group_aux_add_leader aux key h = Some (st, aux', h') \<Longrightarrow>
   h_live h' = h_live h \<and> (aux' = None \<longleftrightarrow> aux = None)"
  by (cases aux)
    (auto simp: ucg_topo_group_aux_add_leader_def dest: heap_realloc_live split: if_splits prod.splits bool.splits)

lemma add_member_live:
  "aid_add_member (ucg_topo_group_aid type) aux location h = Some (st, aux', h') \<Longrightarrow>
   h_live h' = h_live h \<and> (aux' = None \<longleftrightarrow> aux = None)"
  by (cases type) (auto simp: aux_defs dest: add_leader_live)

lemma group_add_live:
  "topo_group_add chk topo m i w = Some (e, w') \<Longrightarrow>
   h_live (gw_heap w') = h_live (gw_heap w) \<and> gw_aux w' = gw_aux w"
  by (auto simp: topo_group_add_def Let_def bind_eq_Some_conv dest: heap_realloc_live
      split: if_splits prod.splits bool.splits)

lemma group_loop_live:
  "topo_group_loop chk topo m (ucg_topo_group_aid type) i k w = Some (e, w') \<Longrightarrow>
   h_live (gw_heap w') = h_live (gw_heap w) \<and> (gw_aux w' = None \<longleftrightarrow> gw_aux w = None)"
proof (induction k arbitrary: i w)
  case (Suc k)
  let ?aid = "ucg_topo_group_aid type"
  obtain status location where l: "ucg_topo_get_location chk topo m (int i) = Some (status, location)"
    using Suc.prems by (cases "ucg_topo_get_location chk topo m (int i)") auto
  show ?case
  proof (cases "status \<noteq> UCG_OK \<or> aid_check ?aid location \<noteq> UCG_OK")
    case True
    then show ?thesis using Suc.prems l by (auto split: if_splits)
  next
    case go: False
    obtain member where mem: "aid_is_member ?aid (gw_aux w) topo location = Some member"
      using Suc.prems l go by (cases "aid_is_member ?aid (gw_aux w) topo location") auto
    show ?thesis
    proof (cases member)
      case False
      then have "topo_group_loop chk topo m ?aid (i + 1) k w = Some (e, w')" using Suc.prems l go mem by simp
      then show ?thesis by (rule Suc.IH)
    next
      case True
      obtain st aux h1 where a: "aid_add_member ?aid (gw_aux w) location (gw_heap w) = Some (st, aux, h1)"
        using Suc.prems l go mem True by (cases "aid_add_member ?aid (gw_aux w) location (gw_heap w)") auto
      note al = add_member_live [OF a]
      let ?w = "w\<lparr>gw_aux := aux, gw_heap := h1\<rparr>"
      show ?thesis
      proof (cases "st = UCG_OK")
        case False
        then show ?thesis using Suc.prems l go mem True a al by auto
      next
        case ok: True
        obtain e1 w1 where b: "topo_group_add chk topo m (int i) ?w = Some (e1, w1)"
          using Suc.prems l go mem True a ok by (cases "topo_group_add chk topo m (int i) ?w") auto
        note bl = group_add_live [OF b]
        show ?thesis
        proof (cases "e1 = Group_Done")
          case True
          then have "topo_group_loop chk topo m ?aid (i + 1) k w1 = Some (e, w')"
            using Suc.prems l go mem \<open>member\<close> a ok b by simp
          from Suc.IH [OF this] show ?thesis using al bl by simp
        next
          case False
          then have "w' = w1" using Suc.prems l go mem \<open>member\<close> a ok b by simp
          then show ?thesis using al bl by simp
        qed
      qed
    qed
  qed
qed simp

lemma optimize_array_blocks:
  "ucg_rank_map_optimize \<lparr>rm_size = sz, rm_map = Rank_Array (Some xs)\<rparr> = Some (m, opt) \<Longrightarrow>
   rank_map_blocks m = (if opt then 0 else 1)"
  by (auto simp: ucg_rank_map_optimize_def rank_map_blocks_def Let_def bind_eq_Some_conv split: if_splits)

lemma walk_heap_same [simp]: "w\<lparr>gw_heap := x\<rparr> = w \<longleftrightarrow> x = gw_heap w"
  by (cases w) auto

lemma heap_free_changes [simp]: "heap_free h \<noteq> h"
  using heap_free_live [of h] by (metis diff_add_cancel zero_neq_one add_left_cancel add.right_neutral)

lemma group_finish_live:
  assumes "topo_group_finish grp w = Some (st, g, w')"
  shows "st = UCG_OK \<and> gw_aux w' = gw_aux w \<and>
    h_live (gw_heap w') = h_live (gw_heap w) - 1 + topo_group_blocks g"
  using assms
  by (auto simp: topo_group_finish_def topo_group_blocks_def ucg_rank_map_init_by_array_def Let_def bind_eq_Some_conv
      dest!: optimize_array_blocks split: if_splits)

text \<open>What the auxiliaries take and give back: \<open>1\<close> for a filter that \<open>cleanup\<close> frees.\<close>

lemma aid_init_live:
  assumes "aid_init (ucg_topo_group_aid type) h = (st, aux, h')"
  shows "h_live h' = h_live h + (if aux = None then 0 else 1) \<and>
    (leader_key type \<noteq> None \<and> st = UCG_OK \<longrightarrow> aux \<noteq> None) \<and> (st \<noteq> UCG_OK \<longrightarrow> aux = None) \<and>
    (leader_key type = None \<longrightarrow> aux = None)"
  using assms by (cases type) (auto simp: aux_defs dest: heap_alloc_live split: prod.splits bool.splits)

lemma aid_cleanup_live:
  assumes "leader_key type = None \<longrightarrow> aux = None"
  shows "h_live (aid_cleanup (ucg_topo_group_aid type) aux h) =
    h_live h - (if aux = None \<or> type = UCG_TOPO_GROUP_TYPE_SUBNET_LEADER then 0 else 1)"
  using assms by (cases type) (auto simp: aux_defs split: option.splits)

lemma create_group_live:
  assumes "ucg_topo_create_group chk topo m type h = Some (st, topo', h')"
    and "tg_state (tp_groups topo type) = UCG_TOPO_GROUP_STATE_NOT_INIT"
    and "type \<noteq> UCG_TOPO_GROUP_TYPE_SUBNET_LEADER \<or> st = UCG_OK"
  shows "h_live h' = h_live h + topo_group_blocks (tp_groups topo' type) +
    (if type = UCG_TOPO_GROUP_TYPE_SUBNET_LEADER then 1 else 0)"
proof (cases "heap_alloc h")
  case (Pair ok h1)
  let ?aid = "ucg_topo_group_aid type" and ?g = "tp_groups topo type"
  note l1 = heap_alloc_live [OF Pair]
  have b0: "topo_group_blocks ?g = 0" by (simp add: topo_group_blocks_def assms(2))
  show ?thesis
  proof (cases ok)
    case False
    then show ?thesis using assms(1,3) Pair l1 b0 by (auto simp: ucg_topo_create_group_def)
  next
    case True
    obtain st2 aux h2 where i: "aid_init ?aid h1 = (st2, aux, h2)" by (cases "aid_init ?aid h1") auto
    note il = aid_init_live [OF i]
    show ?thesis
    proof (cases "st2 = UCG_OK")
      case False
      then show ?thesis
        using assms(1,3) Pair l1 b0 True i il by (auto simp: ucg_topo_create_group_def)
    next
      case ok2: True
      let ?w = "\<lparr>gw_aux = aux, gw_ranks = [], gw_size_ranks = 256, gw_myrank = tg_myrank ?g, gw_heap = h2\<rparr>"
      let ?loop = "topo_group_loop chk topo m ?aid 0 (unat (rm_size m)) ?w"
      obtain e w where w: "?loop = Some (e, w)"
        using assms(1) Pair True i ok2 by (cases ?loop) (auto simp: ucg_topo_create_group_def Let_def)
      have wl: "h_live (gw_heap w) = h_live h2" "gw_aux w = None \<longleftrightarrow> aux = None"
        using group_loop_live [OF w] by simp_all
      have k: "leader_key type = None \<longrightarrow> gw_aux w = None" using il wl by simp
      note c = aid_cleanup_live [OF k]
      note create = assms(1) [unfolded ucg_topo_create_group_def Pair Let_def, simplified True ok2 i w]
      show ?thesis
      proof (cases e)
        case Group_Done
        obtain st3 g w3 where f: "topo_group_finish ?g w = Some (st3, g, w3)"
          using create Group_Done by (cases "topo_group_finish ?g w") (auto simp: i ok2 w)
        note fl = group_finish_live [OF f]
        show ?thesis
          using create Group_Done f fl c wl il l1 True ok2 i w
          by (auto simp: assms(2))
      next
        case (Err_Group st3)
        then show ?thesis
          using create c wl il l1 True ok2 i w assms(3) by (auto simp: topo_group_blocks_def)
      next
        case (Err_Cleanup_Aux st3)
        then show ?thesis
          using create c wl il l1 True ok2 i w assms(2,3) by (auto simp: topo_group_blocks_def)
      qed
    qed
  qed
qed

text \<open>
  C17: creating a group leaves no memory behind but the array of its rank map, however it ends and whatever
  allocation fails; only the group of subnet leaders leaves one block more, the filter of the leaders, which its
  auxiliary forgets to free.
\<close>

theorem topo_group_memory:
  assumes "ucg_topo_create_group chk topo m type h = Some (st, topo', h')"
    and "tg_state (tp_groups topo type) = UCG_TOPO_GROUP_STATE_NOT_INIT"
    and "type \<noteq> UCG_TOPO_GROUP_TYPE_SUBNET_LEADER \<or> st = UCG_OK"
  shows "h_live h' = h_live h + topo_group_blocks (tp_groups topo' type) +
    (if type = UCG_TOPO_GROUP_TYPE_SUBNET_LEADER then 1 else 0)"
  by (rule create_group_live [OF assms])

section \<open>An example\<close>

text \<open>Four ranks, two on a node; this process is rank 2.\<close>

definition four_ranks :: ucg_topo_params where
  "four_ranks = \<lparr>tpp_group_size = 4, tpp_myrank = 2, tpp_rank_map = \<lparr>rm_size = 4, rm_map = Rank_Full\<rparr>,
     tpp_get_location = (\<lambda>r. (UCG_OK, \<lparr>loc_field_mask = 7, loc_subnet_id = r mod 2, loc_node_id = r div 2,
                                        loc_socket_id = 0\<rparr>))\<rparr>"

definition four_topo :: ucg_topo where
  "four_topo = (new_topo four_ranks)\<lparr>tp_rank_map := \<lparr>rm_size = 4, rm_map = Rank_Full\<rparr>\<rparr>"

lemma topo_group_has_its_members_witness:
  "\<exists>topo' h'. ucg_topo_create_group False four_topo (topo_full_map four_topo) UCG_TOPO_GROUP_TYPE_NODE_LEADER
       \<lparr>h_outcomes = [], h_live = 5\<rparr> = Some (UCG_OK, topo', h') \<and>
     topo_group_is False (tp_groups topo' UCG_TOPO_GROUP_TYPE_NODE_LEADER) 2 [0, 2]"
proof -
  define L where "L = (\<lambda>i. \<lparr>loc_field_mask = 7, loc_subnet_id = int i mod 2, loc_node_id = int i div 2, loc_socket_id = 0\<rparr>)"
  have m: "topo_members UCG_TOPO_GROUP_TYPE_NODE_LEADER (tp_myloc four_topo) L 4 = [0, 2]"
    by (simp add: topo_members_def topo_member_def L_def upt_rec eval_nat_numeral)
  have n: "unat (rm_size (topo_full_map four_topo)) = 4" by (simp add: topo_full_map_def four_topo_def)
  have s: "tp_myrank four_topo = 2" by (simp add: four_topo_def new_topo_def four_ranks_def)
  have "\<exists>topo' h'. ucg_topo_create_group False four_topo (topo_full_map four_topo) UCG_TOPO_GROUP_TYPE_NODE_LEADER
       \<lparr>h_outcomes = [], h_live = 5\<rparr> = Some (UCG_OK, topo', h') \<and>
     topo_group_is False (tp_groups topo' UCG_TOPO_GROUP_TYPE_NODE_LEADER) (tp_myrank four_topo)
       (map int (topo_members UCG_TOPO_GROUP_TYPE_NODE_LEADER (tp_myloc four_topo) L
          (unat (rm_size (topo_full_map four_topo))))) \<and>
     (\<forall>type'. type' \<noteq> UCG_TOPO_GROUP_TYPE_NODE_LEADER \<longrightarrow> tp_groups topo' type' = tp_groups four_topo type')"
    by (rule topo_group_has_its_members)
      (simp_all add: four_topo_def new_topo_def four_ranks_def topo_full_map_def ucg_rank_map_eval_def L_def
        ucg_topo_group_aux_check_node_id_def loc_has_def UCG_LOCATION_FIELD_NODE_ID_def)
  then show ?thesis unfolding n m s by auto
qed

lemma topo_group_memory_witness:
  "\<exists>topo' h'. ucg_topo_create_group False four_topo \<lparr>rm_size = 2, rm_map = Rank_Full\<rparr> UCG_TOPO_GROUP_TYPE_SUBNET_LEADER
       \<lparr>h_outcomes = [], h_live = 5\<rparr> = Some (UCG_OK, topo', h') \<and> h_live h' = 6"
proof -
  let ?r = "ucg_topo_create_group False four_topo \<lparr>rm_size = 2, rm_map = Rank_Full\<rparr> UCG_TOPO_GROUP_TYPE_SUBNET_LEADER
       \<lparr>h_outcomes = [], h_live = 5\<rparr>"
  have "case ?r of None \<Rightarrow> False | Some (st, t, h) \<Rightarrow>
      st = UCG_OK \<and> tg_state (tp_groups t UCG_TOPO_GROUP_TYPE_SUBNET_LEADER) \<noteq> UCG_TOPO_GROUP_STATE_ENABLE"
    by code_simp
  then obtain topo' h' where r: "?r = Some (UCG_OK, topo', h')"
    "tg_state (tp_groups topo' UCG_TOPO_GROUP_TYPE_SUBNET_LEADER) \<noteq> UCG_TOPO_GROUP_STATE_ENABLE"
    by (auto split: option.splits)
  have "h_live h' = h_live \<lparr>h_outcomes = [], h_live = 5\<rparr> +
      topo_group_blocks (tp_groups topo' UCG_TOPO_GROUP_TYPE_SUBNET_LEADER) +
      (if UCG_TOPO_GROUP_TYPE_SUBNET_LEADER = UCG_TOPO_GROUP_TYPE_SUBNET_LEADER then 1 else 0)"
    by (rule topo_group_memory [OF r(1)]) (simp_all add: four_topo_def new_topo_def)
  then have "h_live h' = 6" using r(2) by (simp add: topo_group_blocks_def)
  with r(1) show ?thesis by blast
qed

end
