(* ===== verification/Topo_Detail.thy ===== *)
theory Topo_Detail
  imports Topo
begin

text \<open>
  What the topology knows of its ranks: nodes and sockets are numbered from 0 without gaps, equal numbers mean
  the same node or socket, and the processes per node and per socket are what they are called.
\<close>

section \<open>The table of ids\<close>

definition id_hash_ok :: "id_hash \<Rightarrow> bool" where
  "id_hash_ok hash \<longleftrightarrow> distinct (map fst hash) \<and> map snd hash = map int [0..<length hash]"

lemma id_hash_ok_Nil [simp]: "id_hash_ok []"
  by (simp add: id_hash_ok_def)

lemma id_hash_put_keys: "set (map fst (id_hash_put hash key)) = insert key (set (map fst hash))"
  by (auto simp: id_hash_put_def map_of_eq_None_iff)

lemma id_hash_put_ok: "id_hash_ok hash \<Longrightarrow> id_hash_ok (id_hash_put hash key)"
  by (simp add: id_hash_put_def id_hash_ok_def map_of_eq_None_iff)

lemma id_hash_size: "id_hash_ok hash \<Longrightarrow> length hash = card (set (map fst hash))"
  unfolding id_hash_ok_def using distinct_card [of "map fst hash"] by simp

lemma id_hash_get:
  assumes "id_hash_ok hash" and "key \<in> set (map fst hash)"
  shows "\<exists>v. map_of hash key = Some v \<and> 0 \<le> v \<and> v < int (length hash)"
proof -
  obtain v where v: "map_of hash key = Some v"
    using assms(2) by (cases "map_of hash key") (auto simp: map_of_eq_None_iff)
  then have "v \<in> set (map snd hash)" using map_of_SomeD [OF v] by force
  then show ?thesis using v assms(1) unfolding id_hash_ok_def by auto
qed

lemma id_hash_inj:
  assumes ok: "id_hash_ok hash" and a: "map_of hash a = Some v" and b: "map_of hash b = Some v"
  shows "a = b"
proof -
  obtain i where i: "i < length hash" "hash ! i = (a, v)" using map_of_SomeD [OF a] by (meson in_set_conv_nth)
  obtain j where j: "j < length hash" "hash ! j = (b, v)" using map_of_SomeD [OF b] by (meson in_set_conv_nth)
  have s: "snd (hash ! m) = int m" if "m < length hash" for m
    using ok that unfolding id_hash_ok_def by (metis nth_map length_map length_upt diff_zero nth_upt add_0)
  have "int i = int j" using s [OF i(1)] s [OF j(1)] i(2) j(2) by simp
  then show ?thesis using i j by simp
qed

text \<open>Where every rank has the id, the loop leaves a table of exactly the ids of the ranks.\<close>

lemma fill_loop_ids:
  assumes "\<And>j. j < i + k \<Longrightarrow> loc (int j) = (UCG_OK, L j) \<and> topo_loc_key flags (L j) = Some (f j)"
    and "id_hash_ok hash" and "set (map fst hash) = f ` {..<i}"
  shows "\<exists>hash'. fill_id_hash_loop loc flags i k hash = (UCG_OK, hash') \<and> id_hash_ok hash' \<and>
    set (map fst hash') = f ` {..<i + k}"
  using assms
proof (induction k arbitrary: i hash)
  case (Suc k)
  have at: "loc (int i) = (UCG_OK, L i)" "topo_loc_key flags (L i) = Some (f i)" using Suc.prems(1) [of i] by simp_all
  have "\<exists>hash'. fill_id_hash_loop loc flags (i + 1) k (id_hash_put hash (f i)) = (UCG_OK, hash') \<and> id_hash_ok hash' \<and>
    set (map fst hash') = f ` {..<i + 1 + k}"
  proof (rule Suc.IH)
    show "set (map fst (id_hash_put hash (f i))) = f ` {..<i + 1}"
      unfolding id_hash_put_keys Suc.prems(3) by (simp add: lessThan_Suc)
  qed (use Suc.prems in \<open>simp_all add: id_hash_put_ok\<close>)
  then show ?case by (simp add: at)
qed auto

lemma fill_id_hash_ids:
  assumes "\<And>j. j < unat (tp_group_size topo) \<Longrightarrow>
      tp_get_location topo (int j) = (UCG_OK, L j) \<and> topo_loc_key flags (L j) = Some (f j)"
  shows "\<exists>hash. ucg_topo_fill_id_hash topo [] flags = (UCG_OK, hash) \<and> id_hash_ok hash \<and>
    set (map fst hash) = f ` {..<unat (tp_group_size topo)}"
  using fill_loop_ids [of 0 "unat (tp_group_size topo)" "tp_get_location topo" L flags f "[]"] assms
  by (simp add: ucg_topo_fill_id_hash_def)

section \<open>The numbers of the ranks\<close>

lemma topo_locations_are:
  assumes "\<And>j. j < i + k \<Longrightarrow> loc (int j) = (UCG_OK, L j) \<and>
      loc_has (L j) UCG_LOCATION_FIELD_NODE_ID \<and> loc_has (L j) UCG_LOCATION_FIELD_SOCKET_ID \<and>
      map_of nh (loc_node_id (L j)) = Some (nn j) \<and> map_of sh (loc_socket_id (L j)) = Some (sn j)"
  shows "topo_locations loc nh sh i k =
    Some (UCG_OK, map (\<lambda>j. \<lparr>tl_node_id = Some (nn j), tl_socket_id = Some (sn j)\<rparr>) [i..<i + k])"
  using assms
proof (induction k arbitrary: i)
  case (Suc k)
  have at: "loc (int i) = (UCG_OK, L i)" "loc_has (L i) UCG_LOCATION_FIELD_NODE_ID"
    "loc_has (L i) UCG_LOCATION_FIELD_SOCKET_ID" "map_of nh (loc_node_id (L i)) = Some (nn i)"
    "map_of sh (loc_socket_id (L i)) = Some (sn i)"
    using Suc.prems [of i] by simp_all
  have "topo_locations loc nh sh (i + 1) k =
      Some (UCG_OK, map (\<lambda>j. \<lparr>tl_node_id = Some (nn j), tl_socket_id = Some (sn j)\<rparr>) [i + 1..<i + 1 + k])"
    by (rule Suc.IH) (use Suc.prems in simp)
  moreover have "[i..<i + Suc k] = i # [i + 1..<i + 1 + k]" by (simp add: upt_conv_Cons)
  ultimately show ?case by (simp add: at)
qed simp

text \<open>The ranks of every node are consecutive.\<close>

definition nodes_contiguous :: "(nat \<Rightarrow> c_int) \<Rightarrow> nat \<Rightarrow> bool" where
  "nodes_contiguous f n \<longleftrightarrow> (\<forall>k < n. \<forall>i < k. f i = f k \<longrightarrow> (\<forall>j \<in> {i..k}. f j = f k))"

lemma nodes_contiguous_Suc:
  "nodes_contiguous f (Suc n) \<longleftrightarrow> nodes_contiguous f n \<and> (f n \<in> f ` {..<n} \<longrightarrow> f (n - 1) = f n)"
proof
  assume c: "nodes_contiguous f (Suc n)"
  have "f (n - 1) = f n" if "f n \<in> f ` {..<n}"
  proof -
    from that obtain i where i: "f n = f i" "i \<in> {..<n}" by (rule imageE)
    then have "i < n" "n - 1 \<in> {i..n}" by auto
    then show ?thesis using c i(1) unfolding nodes_contiguous_def by (metis lessI)
  qed
  then show "nodes_contiguous f n \<and> (f n \<in> f ` {..<n} \<longrightarrow> f (n - 1) = f n)"
    using c unfolding nodes_contiguous_def by auto
next
  assume c: "nodes_contiguous f n \<and> (f n \<in> f ` {..<n} \<longrightarrow> f (n - 1) = f n)"
  have "f j = f k" if k: "k < Suc n" "i < k" "f i = f k" "j \<in> {i..k}" for i j k
  proof (cases "k = n")
    case False
    then show ?thesis using c k unfolding nodes_contiguous_def by (meson less_SucE)
  next
    case True
    then have "f n \<in> f ` {..<n}" using k by (intro image_eqI [of _ _ i]) simp_all
    then have l: "f (n - 1) = f n" using c by simp
    show ?thesis
    proof (cases "n - 1 \<le> j")
      case True
      then have "j = n \<or> j = n - 1" using k(4) \<open>k = n\<close> by auto
      then show ?thesis using l \<open>k = n\<close> by auto
    next
      case False
      then have "n - 1 < n" "i < n - 1" "j \<in> {i..n - 1}" "f i = f (n - 1)" using k l \<open>k = n\<close> by auto
      then have "f j = f (n - 1)" using c unfolding nodes_contiguous_def by blast
      then show ?thesis using l \<open>k = n\<close> by simp
    qed
  qed
  then show "nodes_contiguous f (Suc n)" unfolding nodes_contiguous_def by blast
qed

lemma nodes_contiguous_mono: "nodes_contiguous f n \<Longrightarrow> m \<le> n \<Longrightarrow> nodes_contiguous f m"
  unfolding nodes_contiguous_def by (meson less_le_trans)

lemma continuous_loop_is:
  assumes "\<And>j. j < i + k \<Longrightarrow> loc (int j) = (UCG_OK, L j) \<and> loc_node_id (L j) = f j"
    and "set seen = f ` {..<i}" and "nodes_contiguous f i" and "0 < i \<Longrightarrow> lastid = f (i - 1)"
  shows "topo_continuous_loop loc i k seen lastid = (UCG_OK, if nodes_contiguous f (i + k) then 1 else 0)"
  using assms
proof (induction k arbitrary: i seen lastid)
  case (Suc k)
  have at: "loc (int i) = (UCG_OK, L i)" "loc_node_id (L i) = f i" using Suc.prems(1) [of i] by simp_all
  have m: "f i \<in> set seen \<longleftrightarrow> f i \<in> f ` {..<i}" by (simp only: Suc.prems(2))
  have mono: "\<not> nodes_contiguous f (i + Suc k)" if "\<not> nodes_contiguous f (Suc i)"
    using that nodes_contiguous_mono [of f "i + Suc k" "Suc i"] by auto
  show ?case
  proof (cases "f i \<in> f ` {..<i}")
    case False
    have "topo_continuous_loop loc (i + 1) k (seen @ [f i]) (f i) = (UCG_OK, if nodes_contiguous f (i + 1 + k) then 1 else 0)"
    proof (rule Suc.IH)
      show "set (seen @ [f i]) = f ` {..<i + 1}" using Suc.prems(2) by (simp add: lessThan_Suc)
      show "nodes_contiguous f (i + 1)" using Suc.prems(3) False by (simp add: nodes_contiguous_Suc)
    qed (use Suc.prems in simp_all)
    then show ?thesis using False by (simp add: at m Let_def)
  next
    case True
    then have "0 < i" by auto
    show ?thesis
    proof (cases "f i = lastid")
      case False
      then have "\<not> nodes_contiguous f (Suc i)" using True Suc.prems(4) \<open>0 < i\<close> by (simp add: nodes_contiguous_Suc)
      from mono [OF this] show ?thesis using False True by (simp add: at m Let_def)
    next
      case last: True
      have "topo_continuous_loop loc (i + 1) k seen (f i) = (UCG_OK, if nodes_contiguous f (i + 1 + k) then 1 else 0)"
      proof (rule Suc.IH)
        show "set seen = f ` {..<i + 1}" using Suc.prems(2) True by (simp add: lessThan_Suc insert_absorb)
        show "nodes_contiguous f (i + 1)"
          using Suc.prems(3,4) last \<open>0 < i\<close> by (simp add: nodes_contiguous_Suc)
      qed (use Suc.prems in simp_all)
      moreover have "f i \<in> set seen" using m True by simp
      ultimately show ?thesis using last by (simp add: at Let_def)
    qed
  qed
qed simp

section \<open>Counting\<close>

lemma topo_count_is:
  assumes "\<forall>v \<in> set vs. 0 \<le> v \<and> v < int (length cnt)"
  shows "topo_count (map Some vs) cnt = Some (map (\<lambda>i. cnt ! i + int (count_list vs (int i))) [0..<length cnt])"
  using assms
proof (induction vs arbitrary: cnt)
  case (Cons v vs)
  have l: "nat v < length cnt" and v: "\<not> v < 0" "\<not> int (length cnt) \<le> v" using Cons.prems by auto
  let ?cnt = "cnt[nat v := cnt ! nat v + 1]"
  have "topo_count (map Some vs) ?cnt = Some (map (\<lambda>i. ?cnt ! i + int (count_list vs (int i))) [0..<length ?cnt])"
    by (rule Cons.IH) (use Cons.prems in simp)
  moreover have "?cnt ! i + int (count_list vs (int i)) = cnt ! i + int (count_list (v # vs) (int i))"
    if "i < length cnt" for i
    using that v by (cases "i = nat v") (auto simp: nth_list_update)
  ultimately show ?case using v by (simp cong: map_cong)
qed (simp add: map_nth)

lemma balance_from:
  assumes "\<forall>c \<in> set cs. 0 \<le> c" and "0 < r" and "0 < p"
  shows "topo_balance cs r = p \<longleftrightarrow> r = p \<and> (\<forall>c \<in> set cs. c = 0 \<or> c = p)"
    and "topo_balance cs r = UCG_TOPO_PPX_UNBALANCED \<or> topo_balance cs r = r"
  using assms by (induction cs) auto

lemma balance_is:
  assumes "\<forall>c \<in> set cs. 0 \<le> c" and "\<exists>c \<in> set cs. c \<noteq> 0" and "0 < p"
  shows "topo_balance cs 0 = p \<longleftrightarrow> (\<forall>c \<in> set cs. c = 0 \<or> c = p)"
    and "topo_balance cs 0 = UCG_TOPO_PPX_UNBALANCED \<or> 0 < topo_balance cs 0"
  using assms
proof (induction cs)
  case (Cons c cs)
  {
    case 1
    then show ?case using Cons.IH(1) balance_from(1) [of cs c p] by (cases "c = 0") auto
  next
    case 2
    then show ?case using Cons.IH(2) balance_from(2) [of cs c p] by (cases "c = 0") auto
  }
qed simp_all

text \<open>
  Counting the ranks by a number: the counts are balanced at \<open>p\<close> when every rank shares its number with \<open>p\<close> ranks.
\<close>

definition shared_by :: "(nat \<Rightarrow> 'a) \<Rightarrow> nat \<Rightarrow> nat \<Rightarrow> nat" where
  "shared_by x n i = length (filter (\<lambda>j. x j = x i) [0..<n])"

lemma count_list_shared: "count_list (map x [0..<n]) v = length (filter (\<lambda>j. x j = v) [0..<n])"
  by (induction n) auto

lemma ppx_balance:
  assumes "\<And>j. j < n \<Longrightarrow> 0 \<le> x j \<and> x j < int N" and "0 < n"
  shows "\<exists>cnt. topo_count (map (\<lambda>j. Some (x j)) [0..<n]) (replicate N 0) = Some cnt \<and>
    (\<forall>p > 0. topo_balance cnt 0 = int p \<longleftrightarrow> (\<forall>i < n. shared_by x n i = p)) \<and>
    (topo_balance cnt 0 = UCG_TOPO_PPX_UNBALANCED \<or> 0 < topo_balance cnt 0)"
proof -
  let ?c = "\<lambda>v. length (filter (\<lambda>j. x j = int v) [0..<n])"
  define cnt where "cnt = map (\<lambda>v. int (?c v)) [0..<N]"
  have "topo_count (map Some (map x [0..<n])) (replicate N 0) =
      Some (map (\<lambda>i. replicate N 0 ! i + int (count_list (map x [0..<n]) (int i))) [0..<length (replicate N (0::int))])"
    by (rule topo_count_is) (use assms(1) in auto)
  then have c: "topo_count (map (\<lambda>j. Some (x j)) [0..<n]) (replicate N 0) = Some cnt"
    by (simp add: cnt_def count_list_shared comp_def cong: map_cong)
  have at: "?c (nat (x i)) = shared_by x n i \<and> shared_by x n i \<noteq> 0 \<and> nat (x i) < N" if "i < n" for i
  proof -
    have "i \<in> set (filter (\<lambda>j. x j = x i) [0..<n])" using that by simp
    then have "shared_by x n i \<noteq> 0" unfolding shared_by_def by (metis length_0_conv list.set(1) empty_iff)
    moreover have "int (nat (x i)) = x i" "nat (x i) < N" using assms(1) [OF that] by auto
    ultimately show ?thesis unfolding shared_by_def by simp
  qed
  have nn: "\<forall>c \<in> set cnt. 0 \<le> c" by (auto simp: cnt_def)
  have ex: "\<exists>c \<in> set cnt. c \<noteq> 0"
    using at [OF assms(2)] by (auto simp: cnt_def intro!: bexI [of _ "nat (x 0)"])
  have eq: "(\<forall>c \<in> set cnt. c = 0 \<or> c = int p) \<longleftrightarrow> (\<forall>i < n. shared_by x n i = p)" for p
  proof
    assume a: "\<forall>c \<in> set cnt. c = 0 \<or> c = int p"
    show "\<forall>i < n. shared_by x n i = p"
    proof (intro allI impI)
      fix i assume "i < n"
      note i = at [OF this]
      then have "int (?c (nat (x i))) \<in> set cnt"
        unfolding cnt_def set_map by (intro imageI) simp
      then show "shared_by x n i = p" using a i by (metis of_nat_eq_0_iff of_nat_eq_iff)
    qed
  next
    assume a: "\<forall>i < n. shared_by x n i = p"
    show "\<forall>c \<in> set cnt. c = 0 \<or> c = int p"
    proof
      fix c assume "c \<in> set cnt"
      then obtain v where v: "c = int (?c v)" by (auto simp: cnt_def)
      show "c = 0 \<or> c = int p"
      proof (cases "?c v = 0")
        case False
        then have "last (filter (\<lambda>j. x j = int v) [0..<n]) \<in> set (filter (\<lambda>j. x j = int v) [0..<n])"
          by (intro last_in_set) simp
        then obtain i where i: "i < n" "x i = int v" by auto
        have "shared_by x n i = p" using a i(1) by simp
        then show ?thesis using v i(2) by (simp add: shared_by_def)
      qed (simp add: v)
    qed
  qed
  have b: "topo_balance cnt 0 = int p \<longleftrightarrow> (\<forall>i < n. shared_by x n i = p)" if "0 < p" for p
    using balance_is(1) [OF nn ex, of "int p"] eq that by simp
  show ?thesis
    by (intro exI [of _ cnt] conjI c allI impI b balance_is(2) [OF nn ex, of 1]) simp_all
qed

section \<open>The topology of a group\<close>

text \<open>All locations are known, node and socket included, and memory suffices.\<close>

definition topo_known :: "ucg_topo_params \<Rightarrow> (nat \<Rightarrow> ucg_location) \<Rightarrow> bool" where
  "topo_known params L \<longleftrightarrow>
     0 \<le> tpp_myrank params \<and> tpp_myrank params < int (unat (tpp_group_size params)) \<and> rank_map_ok (tpp_rank_map params) \<and>
     (\<forall>j < unat (tpp_group_size params). tpp_get_location params (int j) = (UCG_OK, L j) \<and>
        loc_has (L j) UCG_LOCATION_FIELD_NODE_ID \<and> loc_has (L j) UCG_LOCATION_FIELD_SOCKET_ID)"

text \<open>The numbering of a field of the locations: in range, and equal exactly where the field is.\<close>

definition numbers :: "(nat \<Rightarrow> c_int) \<Rightarrow> nat \<Rightarrow> (nat \<Rightarrow> c_int) \<Rightarrow> bool" where
  "numbers f n x \<longleftrightarrow>
     (\<forall>i < n. 0 \<le> x i \<and> x i < int (card (f ` {..<n})) \<and> (\<forall>j < n. x i = x j \<longleftrightarrow> f i = f j))"

lemma hash_numbers:
  assumes "id_hash_ok hash" and "set (map fst hash) = f ` {..<n}"
  shows "numbers f n (\<lambda>j. the (map_of hash (f j)))"
    and "\<And>j. j < n \<Longrightarrow> map_of hash (f j) = Some (the (map_of hash (f j)))"
proof -
  have g: "\<exists>v. map_of hash (f j) = Some v \<and> 0 \<le> v \<and> v < int (card (f ` {..<n}))" if "j < n" for j
    using id_hash_get [OF assms(1), of "f j"] assms that id_hash_size [OF assms(1)] by auto
  then show s: "\<And>j. j < n \<Longrightarrow> map_of hash (f j) = Some (the (map_of hash (f j)))" by fastforce
  show "numbers f n (\<lambda>j. the (map_of hash (f j)))"
    unfolding numbers_def
  proof (intro allI impI conjI)
    fix i assume i: "i < n"
    show "0 \<le> the (map_of hash (f i))" "the (map_of hash (f i)) < int (card (f ` {..<n}))" using g [OF i] by auto
    fix j assume j: "j < n"
    show "the (map_of hash (f i)) = the (map_of hash (f j)) \<longleftrightarrow> f i = f j"
      using id_hash_inj [OF assms(1)] s [OF i] s [OF j] by metis
  qed
qed

lemma fill_id_hash_detail [simp]: "ucg_topo_fill_id_hash (topo\<lparr>tp_detail := d\<rparr>) = ucg_topo_fill_id_hash topo"
  by (simp add: ucg_topo_fill_id_hash_def fun_eq_iff)

lemma init_detail_is:
  assumes loc: "\<And>j. j < unat (tp_group_size topo) \<Longrightarrow> tp_get_location topo (int j) = (UCG_OK, L j) \<and>
        loc_has (L j) UCG_LOCATION_FIELD_NODE_ID \<and> loc_has (L j) UCG_LOCATION_FIELD_SOCKET_ID"
    and h: "h_outcomes h = []" and n: "n = unat (tp_group_size topo)"
  shows "\<exists>x y h'. numbers (\<lambda>j. loc_node_id (L j)) n x \<and> numbers (\<lambda>j. loc_socket_id (L j)) n y \<and> h_outcomes h' = [] \<and>
    ucg_topo_init_detail topo h = Some (UCG_OK, topo\<lparr>tp_detail :=
      \<lparr>td_nnode = int (card ((\<lambda>j. loc_node_id (L j)) ` {..<n})),
       td_nsocket = int (card ((\<lambda>j. loc_socket_id (L j)) ` {..<n})),
       td_nrank_continuous = (if nodes_contiguous (\<lambda>j. loc_node_id (L j)) n then 1 else 0),
       td_locations = Some (map (\<lambda>j. \<lparr>tl_node_id = Some (x j), tl_socket_id = Some (y j)\<rparr>) [0..<n])\<rparr>\<rparr>, h')"
proof -
  let ?f = "\<lambda>j. loc_node_id (L j)" and ?g = "\<lambda>j. loc_socket_id (L j)"
  obtain nh where nh: "ucg_topo_fill_id_hash topo [] UCG_TOPO_LOC_NODE_ID = (UCG_OK, nh)" "id_hash_ok nh"
    "set (map fst nh) = ?f ` {..<n}"
    using fill_id_hash_ids [of topo L UCG_TOPO_LOC_NODE_ID ?f] loc n by (auto simp: topo_loc_key_def)
  obtain sh where sh: "ucg_topo_fill_id_hash topo [] UCG_TOPO_LOC_SOCKET_ID = (UCG_OK, sh)" "id_hash_ok sh"
    "set (map fst sh) = ?g ` {..<n}"
    using fill_id_hash_ids [of topo L UCG_TOPO_LOC_SOCKET_ID ?g] loc n by (auto simp: topo_loc_key_def)
  define x where "x = (\<lambda>j. the (map_of nh (?f j)))"
  define y where "y = (\<lambda>j. the (map_of sh (?g j)))"
  have xn: "numbers ?f n x" and yn: "numbers ?g n y"
    unfolding x_def y_def using hash_numbers(1) nh sh by blast+
  have "topo_locations (tp_get_location topo) nh sh 0 n =
      Some (UCG_OK, map (\<lambda>j. \<lparr>tl_node_id = Some (x j), tl_socket_id = Some (y j)\<rparr>) [0..<0 + n])"
  proof (rule topo_locations_are)
    fix j assume "j < 0 + n"
    then have j: "j < n" by simp
    show "tp_get_location topo (int j) = (UCG_OK, L j) \<and> loc_has (L j) UCG_LOCATION_FIELD_NODE_ID \<and>
        loc_has (L j) UCG_LOCATION_FIELD_SOCKET_ID \<and> map_of nh (?f j) = Some (x j) \<and> map_of sh (?g j) = Some (y j)"
      using loc j n hash_numbers(2) [OF nh(2,3) j] hash_numbers(2) [OF sh(2,3) j] by (auto simp: x_def y_def)
  qed
  then have ls: "topo_locations (tp_get_location topo) nh sh 0 n =
      Some (UCG_OK, map (\<lambda>j. \<lparr>tl_node_id = Some (x j), tl_socket_id = Some (y j)\<rparr>) [0..<n])" by simp
  have c: "topo_continuous_loop (tp_get_location topo) 0 n [] (-1) =
      (UCG_OK, if nodes_contiguous ?f n then 1 else 0)"
    using continuous_loop_is [of 0 n "tp_get_location topo" L ?f "[]" "-1"] loc n by (simp add: nodes_contiguous_def)
  have sizes: "length nh = card (?f ` {..<n})" "length sh = card (?g ` {..<n})"
    using id_hash_size nh sh by metis+
  show ?thesis
    by (rule exI [of _ x], rule exI [of _ y], rule exI [of _ "h\<lparr>h_live := h_live h + 1\<rparr>"])
      (use xn yn h in \<open>simp add: ucg_topo_init_detail_def nh(1) sh(1) ls c heap_alloc_ok sizes n [symmetric] Let_def\<close>)
qed

lemma init_copy_ok:
  assumes "rank_map_ok src" and "h_outcomes h = []"
  shows "\<exists>m h'. ucg_rank_map_copy src h = Some (UCG_OK, m, h') \<and> h_outcomes h' = []"
proof (cases "rm_map src")
  case (Rank_Array ranks)
  then obtain xs where xs: "ranks = Some xs" "unat (rm_size src) \<le> length xs" and n: "0 < unat (rm_size src)"
    using assms(1) by (auto simp: rank_map_ok_def)
  from optimize_array [OF n xs(2) refl] obtain m' opt where
    o: "ucg_rank_map_optimize \<lparr>rm_size = rm_size src, rm_map = Rank_Array (Some xs)\<rparr> = Some (m', opt)" by blast
  show ?thesis
    using Rank_Array xs o assms(2)
    by (cases opt) (simp_all add: ucg_rank_map_copy_def ucg_rank_map_init_by_array_def heap_alloc_ok)
qed (use assms(2) in \<open>auto simp: ucg_rank_map_copy_def ucg_rank_map_optimize_def\<close>)

text \<open>The two counts, once every rank has its numbers.\<close>

lemma calc_ppx_is:
  assumes d: "tp_detail topo = \<lparr>td_nnode = int (card (f ` {..<n})), td_nsocket = int (card (g ` {..<n})),
      td_nrank_continuous = c, td_locations = Some (map (\<lambda>j. \<lparr>tl_node_id = Some (x j), tl_socket_id = Some (y j)\<rparr>) [0..<n])\<rparr>"
    and x: "numbers f n x" and y: "numbers g n y" and n: "n = unat (tp_group_size topo)" "0 < n" and h: "h_outcomes h = []"
  shows "\<exists>ppn pps h'. ucg_topo_calc_ppx topo h = Some (UCG_OK, topo\<lparr>tp_ppn := ppn, tp_pps := pps\<rparr>, h') \<and>
    (\<forall>p > 0. (ppn = int p \<longleftrightarrow> (\<forall>i < n. shared_by f n i = p)) \<and> (pps = int p \<longleftrightarrow> (\<forall>i < n. shared_by (\<lambda>j. (f j, g j)) n i = p))) \<and>
    (ppn = UCG_TOPO_PPX_UNBALANCED \<or> 0 < ppn) \<and> (pps = UCG_TOPO_PPX_UNBALANCED \<or> 0 < pps)"
proof -
  let ?N = "card (f ` {..<n})" and ?S = "card (g ` {..<n})"
  let ?z = "\<lambda>j. x j * int ?S + y j"
  have nz: "{..<n} \<noteq> {}" using n(2) by auto
  have pos: "0 < ?N" "0 < ?S" using n(2) by (auto simp: card_gt_0_iff)
  have ne: "int ?S \<noteq> 0" using pos(2) by (metis of_nat_0_less_iff less_irrefl)
  have xr: "\<And>j. j < n \<Longrightarrow> 0 \<le> x j \<and> x j < int ?N" and yr: "\<And>j. j < n \<Longrightarrow> 0 \<le> y j \<and> y j < int ?S"
    using x y unfolding numbers_def by auto
  have zr: "0 \<le> ?z j \<and> ?z j < int (?N * ?S)" if "j < n" for j
  proof -
    have "x j + 1 \<le> int ?N" using xr [OF that] by simp
    then have "(x j + 1) * int ?S \<le> int ?N * int ?S" by (intro mult_right_mono) simp_all
    then show ?thesis using xr [OF that] yr [OF that] by (simp add: algebra_simps)
  qed
  have zi: "?z i = ?z j \<longleftrightarrow> x i = x j \<and> y i = y j" if "i < n" "j < n" for i j
  proof
    assume e: "?z i = ?z j"
    have "?z i div int ?S = x i" "?z j div int ?S = x j" "?z i mod int ?S = y i" "?z j mod int ?S = y j"
      using yr [OF that(1)] yr [OF that(2)] by (simp_all add: div_mult_self3 [OF ne] div_pos_pos_trivial)
    then show "x i = x j \<and> y i = y j" using e by metis
  qed simp
  have sx: "shared_by x n i = shared_by f n i" if "i < n" for i
    unfolding shared_by_def using that x by (intro arg_cong [where f = length] filter_cong) (auto simp: numbers_def)
  have sz: "shared_by ?z n i = shared_by (\<lambda>j. (f j, g j)) n i" if "i < n" for i
    unfolding shared_by_def using that x y zi by (intro arg_cong [where f = length] filter_cong) (auto simp: numbers_def)
  obtain cx where cx: "topo_count (map (\<lambda>j. Some (x j)) [0..<n]) (replicate ?N 0) = Some cx"
    and bx: "\<And>p. 0 < p \<Longrightarrow> topo_balance cx 0 = int p \<longleftrightarrow> (\<forall>i < n. shared_by x n i = p)"
      "topo_balance cx 0 = UCG_TOPO_PPX_UNBALANCED \<or> 0 < topo_balance cx 0"
    using ppx_balance [of n x ?N, OF xr n(2)] by blast
  obtain cz where cz: "topo_count (map (\<lambda>j. Some (?z j)) [0..<n]) (replicate (?N * ?S) 0) = Some cz"
    and bz: "\<And>p. 0 < p \<Longrightarrow> topo_balance cz 0 = int p \<longleftrightarrow> (\<forall>i < n. shared_by ?z n i = p)"
      "topo_balance cz 0 = UCG_TOPO_PPX_UNBALANCED \<or> 0 < topo_balance cz 0"
    using ppx_balance [of n ?z "?N * ?S", OF zr n(2)] by blast
  have si: "nat (int ?N * int ?S) = ?N * ?S" by (simp flip: of_nat_mult)
  have a1: "heap_alloc h = (True, h\<lparr>h_live := h_live h + 1\<rparr>)" using h by (rule heap_alloc_ok)
  let ?t = "topo\<lparr>tp_ppn := topo_balance cx 0\<rparr>"
  let ?h = "heap_free (h\<lparr>h_live := h_live h + 1\<rparr>)"
  have rd: "topo_read_locations topo = Some (map (\<lambda>j. \<lparr>tl_node_id = Some (x j), tl_socket_id = Some (y j)\<rparr>) [0..<n])"
    by (simp add: topo_read_locations_def d n(1) [symmetric] Let_def)
  then have rd2: "topo_read_locations ?t = Some (map (\<lambda>j. \<lparr>tl_node_id = Some (x j), tl_socket_id = Some (y j)\<rparr>) [0..<n])"
    by (simp add: topo_read_locations_def)
  have p1: "ucg_topo_calc_ppn topo h = Some (UCG_OK, ?t, ?h)"
    using nz cx by (simp add: ucg_topo_calc_ppn_def d a1 rd comp_def)
  have a2: "heap_alloc ?h = (True, ?h\<lparr>h_live := h_live ?h + 1\<rparr>)" using h by (intro heap_alloc_ok) simp
  have p2: "ucg_topo_calc_pps ?t ?h = Some (UCG_OK, ?t\<lparr>tp_pps := topo_balance cz 0\<rparr>, heap_free (?h\<lparr>h_live := h_live ?h + 1\<rparr>))"
    using nz cz by (simp add: ucg_topo_calc_pps_def d a2 rd2 comp_def socket_index_def si)
  have e: "ucg_topo_calc_ppx topo h = Some (UCG_OK, topo\<lparr>tp_ppn := topo_balance cx 0, tp_pps := topo_balance cz 0\<rparr>,
      heap_free (?h\<lparr>h_live := h_live ?h + 1\<rparr>))"
    using p2 by (simp add: ucg_topo_calc_ppx_def p1)
  have b: "\<forall>p > 0. (topo_balance cx 0 = int p \<longleftrightarrow> (\<forall>i < n. shared_by f n i = p)) \<and>
      (topo_balance cz 0 = int p \<longleftrightarrow> (\<forall>i < n. shared_by (\<lambda>j. (f j, g j)) n i = p))"
    using bx(1) bz(1) sx sz by simp
  show ?thesis
    by (rule exI [of _ "topo_balance cx 0"], rule exI [of _ "topo_balance cz 0"],
        rule exI [of _ "heap_free (?h\<lparr>h_live := h_live ?h + 1\<rparr>)"])
      (rule conjI [OF e conjI [OF b conjI [OF bx(2) bz(2)]]])
qed

text \<open>
  C16: the topology of a group whose locations are known: the initialisation succeeds; nodes and sockets are
  numbered from 0 without gaps, two ranks having the same number exactly when they are on the same node or have
  the same socket id; \<open>nrank_continuous\<close> says whether the ranks of every node are consecutive; and \<open>ppn\<close> and \<open>pps\<close>
  are \<open>p\<close> exactly when every rank shares its node, or its node and socket, with \<open>p\<close> ranks, itself included, and
  UNBALANCED when there is no such \<open>p\<close>.
\<close>

theorem topo_init_describes_ranks:
  assumes "topo_known params L" and "h_outcomes h = []" and "n = unat (tpp_group_size params)"
  shows "\<exists>topo h' x y. ucg_topo_init params h = Some (UCG_OK, Some topo, h') \<and>
    numbers (\<lambda>j. loc_node_id (L j)) n x \<and> numbers (\<lambda>j. loc_socket_id (L j)) n y \<and>
    (\<forall>i < n. ucg_topo_get_location_id (Some topo) (int i) UCG_TOPO_LOC_NODE_ID = Some (x i) \<and>
            ucg_topo_get_location_id (Some topo) (int i) UCG_TOPO_LOC_SOCKET_ID = Some (y i)) \<and>
    td_nnode (tp_detail topo) = int (card ((\<lambda>j. loc_node_id (L j)) ` {..<n})) \<and>
    (td_nrank_continuous (tp_detail topo) = 1 \<longleftrightarrow> nodes_contiguous (\<lambda>j. loc_node_id (L j)) n) \<and>
    (\<forall>p > 0. (tp_ppn topo = int p \<longleftrightarrow> (\<forall>i < n. shared_by (\<lambda>j. loc_node_id (L j)) n i = p)) \<and>
            (tp_pps topo = int p \<longleftrightarrow> (\<forall>i < n. shared_by (\<lambda>j. (loc_node_id (L j), loc_socket_id (L j))) n i = p))) \<and>
    (tp_ppn topo = UCG_TOPO_PPX_UNBALANCED \<or> 0 < tp_ppn topo) \<and>
    (tp_pps topo = UCG_TOPO_PPX_UNBALANCED \<or> 0 < tp_pps topo)"
proof -
  let ?f = "\<lambda>j. loc_node_id (L j)" and ?g = "\<lambda>j. loc_socket_id (L j)"
  have k: "0 \<le> tpp_myrank params" "tpp_myrank params < int n" "rank_map_ok (tpp_rank_map params)"
    and l: "\<And>j. j < n \<Longrightarrow> tpp_get_location params (int j) = (UCG_OK, L j) \<and>
        loc_has (L j) UCG_LOCATION_FIELD_NODE_ID \<and> loc_has (L j) UCG_LOCATION_FIELD_SOCKET_ID"
    using assms(1,3) unfolding topo_known_def by auto
  have a: "heap_alloc h = (True, h\<lparr>h_live := h_live h + 1\<rparr>)" using assms(2) by (rule heap_alloc_ok)
  obtain m h1 where m: "ucg_rank_map_copy (tpp_rank_map params) (h\<lparr>h_live := h_live h + 1\<rparr>) = Some (UCG_OK, m, h1)"
    "h_outcomes h1 = []"
    using init_copy_ok [OF k(3), of "h\<lparr>h_live := h_live h + 1\<rparr>"] assms(2) by auto
  have my: "tpp_get_location params (tpp_myrank params) = (UCG_OK, L (nat (tpp_myrank params)))"
    using l [of "nat (tpp_myrank params)"] k by simp
  define t where "t = (new_topo params)\<lparr>tp_rank_map := m, tp_myloc := L (nat (tpp_myrank params))\<rparr>"
  have t: "tp_group_size t = tpp_group_size params" "tp_get_location t = tpp_get_location params"
    by (simp_all add: t_def new_topo_def)
  obtain x y h2 where d: "numbers ?f n x" "numbers ?g n y" "h_outcomes h2 = []"
    "ucg_topo_init_detail t h1 = Some (UCG_OK, t\<lparr>tp_detail :=
      \<lparr>td_nnode = int (card (?f ` {..<n})), td_nsocket = int (card (?g ` {..<n})),
       td_nrank_continuous = (if nodes_contiguous ?f n then 1 else 0),
       td_locations = Some (map (\<lambda>j. \<lparr>tl_node_id = Some (x j), tl_socket_id = Some (y j)\<rparr>) [0..<n])\<rparr>\<rparr>, h2)"
    using init_detail_is [of t L h1 n] l m(2) assms(3) t by auto
  define t2 where "t2 = t\<lparr>tp_detail :=
      \<lparr>td_nnode = int (card (?f ` {..<n})), td_nsocket = int (card (?g ` {..<n})),
       td_nrank_continuous = (if nodes_contiguous ?f n then 1 else 0),
       td_locations = Some (map (\<lambda>j. \<lparr>tl_node_id = Some (x j), tl_socket_id = Some (y j)\<rparr>) [0..<n])\<rparr>\<rparr>"
  have "0 < n" using k by simp
  from calc_ppx_is [of t2 ?f n ?g _ x y h2, OF _ d(1,2) _ this d(3)] obtain ppn pps h3 where
    c: "ucg_topo_calc_ppx t2 h2 = Some (UCG_OK, t2\<lparr>tp_ppn := ppn, tp_pps := pps\<rparr>, h3)"
    "\<forall>p > 0. (ppn = int p \<longleftrightarrow> (\<forall>i < n. shared_by ?f n i = p)) \<and> (pps = int p \<longleftrightarrow> (\<forall>i < n. shared_by (\<lambda>j. (?f j, ?g j)) n i = p))"
    "ppn = UCG_TOPO_PPX_UNBALANCED \<or> 0 < ppn" "pps = UCG_TOPO_PPX_UNBALANCED \<or> 0 < pps"
    using assms(3) t by (auto simp: t2_def)
  define t3 where "t3 = t2\<lparr>tp_ppn := ppn, tp_pps := pps\<rparr>"
  have init: "ucg_topo_init params h = Some (UCG_OK, Some t3, h3)"
    using d(4) c(1) my unfolding t2_def [symmetric] t3_def
    by (simp add: ucg_topo_init_def a m(1) Let_def t_def new_topo_def)
  have ids: "\<forall>i < n. ucg_topo_get_location_id (Some t3) (int i) UCG_TOPO_LOC_NODE_ID = Some (x i) \<and>
      ucg_topo_get_location_id (Some t3) (int i) UCG_TOPO_LOC_SOCKET_ID = Some (y i)"
    by (simp add: ucg_topo_get_location_id_def t3_def t2_def c_read_def)
  have td: "td_nnode (tp_detail t3) = int (card (?f ` {..<n}))"
    "td_nrank_continuous (tp_detail t3) = 1 \<longleftrightarrow> nodes_contiguous ?f n" by (simp_all add: t3_def t2_def)
  have pp: "tp_ppn t3 = ppn" "tp_pps t3 = pps" by (simp_all add: t3_def)
  show ?thesis
    by (rule exI [of _ t3], rule exI [of _ h3], rule exI [of _ x], rule exI [of _ y], unfold pp)
      (intro conjI init d(1,2) ids td c(2,3,4))
qed

text \<open>Three ranks: the nodes of 0 and 2 are the same, so the ranks are not consecutive, nor balanced.\<close>

definition three_ranks :: ucg_topo_params where
  "three_ranks = \<lparr>tpp_group_size = 3, tpp_myrank = 1, tpp_rank_map = \<lparr>rm_size = 3, rm_map = Rank_Full\<rparr>,
     tpp_get_location = (\<lambda>r. (UCG_OK, \<lparr>loc_field_mask = 7, loc_subnet_id = 0, loc_node_id = 5 + r mod 2,
                                        loc_socket_id = r\<rparr>))\<rparr>"

lemma topo_init_describes_ranks_witness:
  "\<exists>topo h'. ucg_topo_init three_ranks \<lparr>h_outcomes = [], h_live = 0\<rparr> = Some (UCG_OK, Some topo, h') \<and>
     td_nrank_continuous (tp_detail topo) \<noteq> 1 \<and> tp_ppn topo = UCG_TOPO_PPX_UNBALANCED \<and> tp_pps topo = 1"
proof -
  define L where "L = (\<lambda>j :: nat. \<lparr>loc_field_mask = 7, loc_subnet_id = 0, loc_node_id = 5 + int j mod 2, loc_socket_id = int j\<rparr>)"
  have k: "topo_known three_ranks L"
    by (simp add: topo_known_def three_ranks_def L_def rank_map_ok_def loc_has_def UCG_LOCATION_FIELD_NODE_ID_def
      UCG_LOCATION_FIELD_SOCKET_ID_def)
  have three: "[0..<3] = [0, 1, 2 :: nat]" by (simp add: upt_rec)
  have nc: "\<not> nodes_contiguous (\<lambda>j. loc_node_id (L j)) 3"
  proof
    assume "nodes_contiguous (\<lambda>j. loc_node_id (L j)) 3"
    moreover have "(2::nat) < 3" "(0::nat) < 2" "loc_node_id (L 0) = loc_node_id (L 2)" "(1::nat) \<in> {0..2}"
      by (simp_all add: L_def)
    ultimately have "loc_node_id (L 1) = loc_node_id (L 2)" unfolding nodes_contiguous_def by blast
    then show False by (simp add: L_def)
  qed
  have s: "shared_by (\<lambda>j. loc_node_id (L j)) 3 0 = 2" "shared_by (\<lambda>j. loc_node_id (L j)) 3 1 = 1"
    by (simp_all add: shared_by_def three L_def)
  have s1: "shared_by (\<lambda>j. (loc_node_id (L j), loc_socket_id (L j))) 3 i = 1" if "i < 3" for i
    using that by (auto simp: shared_by_def three L_def numeral_3_eq_3 less_Suc_eq)
  have n: "3 = unat (tpp_group_size three_ranks)" by (simp add: three_ranks_def)
  have o: "h_outcomes \<lparr>h_outcomes = [], h_live = 0\<rparr> = []" by simp
  from topo_init_describes_ranks [OF k o n] obtain topo h' where
    t: "ucg_topo_init three_ranks \<lparr>h_outcomes = [], h_live = 0\<rparr> = Some (UCG_OK, Some topo, h')"
    and c: "td_nrank_continuous (tp_detail topo) = 1 \<longleftrightarrow> nodes_contiguous (\<lambda>j. loc_node_id (L j)) 3"
    and p: "\<And>p. 0 < p \<Longrightarrow> tp_ppn topo = int p \<longleftrightarrow> (\<forall>i < 3. shared_by (\<lambda>j. loc_node_id (L j)) 3 i = p)"
      "\<And>p. 0 < p \<Longrightarrow> tp_pps topo = int p \<longleftrightarrow> (\<forall>i < 3. shared_by (\<lambda>j. (loc_node_id (L j), loc_socket_id (L j))) 3 i = p)"
    and u: "tp_ppn topo = UCG_TOPO_PPX_UNBALANCED \<or> 0 < tp_ppn topo"
    by blast
  have "tp_ppn topo \<noteq> int p" if "0 < p" for p
    using p(1) [OF that] s by (metis zero_less_numeral one_less_numeral_iff semiring_norm(77) numeral_eq_one_iff semiring_norm(85))
  then have "\<not> 0 < tp_ppn topo" by (metis zero_less_imp_eq_int)
  then have "tp_ppn topo = UCG_TOPO_PPX_UNBALANCED" using u by blast
  moreover have "tp_pps topo = 1" using p(2) [of 1] s1 by simp
  ultimately show ?thesis using t c nc by blast
qed

end
