(* ===== verification/Meta_Parts.thy ===== *)
theory Meta_Parts
  imports Barrier_Rd Bcast_Kntree
begin

text \<open>
  The operations that exist only as parts of a meta operation: the empty operation of
  \<open>src/src/planc/ucx/planc_ucx_meta.c\<close>, the fan-in of \<open>barrier/barrier_meta.c\<close>, in which every rank waits for
  its children in a k-nomial tree and then tells its parent, and the operation of \<open>bcast/bcast_meta.c\<close> that moves
  the data from the root to rank 0.
\<close>

section \<open>The empty operation\<close>

definition ucg_planc_ucx_empty_op_trigger :: "'w coll_env \<Rightarrow> 'w step" where
  "ucg_planc_ucx_empty_op_trigger env op w =
     (case ucg_planc_ucx_op_reset env op w of (op, w) \<Rightarrow> Some (UCG_OK, op_set_status UCG_OK op, w))"

definition ucg_planc_ucx_empty_op_progress :: "'w coll_env \<Rightarrow> 'w step" where
  "ucg_planc_ucx_empty_op_progress env op w = Some (UCG_OK, op_set_status UCG_OK op, w)"

definition ucg_planc_ucx_empty_op_discard :: "ucx_op \<Rightarrow> ucg_heap \<Rightarrow> ucg_status \<times> ucg_heap" where
  "ucg_planc_ucx_empty_op_discard op h = (UCG_OK, heap_free h)"

definition ucg_planc_ucx_empty_op_new ::
    "'w coll_env \<Rightarrow> nat \<Rightarrow> nat \<Rightarrow> ucx_coll \<Rightarrow> ucg_coll_args \<Rightarrow> ucg_heap \<Rightarrow> 'w \<Rightarrow> ucx_op option \<times> ucg_heap \<times> 'w" where
  "ucg_planc_ucx_empty_op_new env grp vgroup blank args h w = ucx_op_new env grp vgroup blank args h w"

section \<open>Fan-in\<close>

definition UCG_FANIN_RECV_FROM_CHILD :: u64 where "UCG_FANIN_RECV_FROM_CHILD = 0x1"
definition UCG_FANIN_RECV_FROM_CHILD_RECV :: u64 where "UCG_FANIN_RECV_FROM_CHILD_RECV = 0x2"
definition UCG_FANIN_SEND_TO_PARENT :: u64 where "UCG_FANIN_SEND_TO_PARENT = 0x4"
definition UCG_FANIN_SEND_TO_PARENT_SEND :: u64 where "UCG_FANIN_SEND_TO_PARENT_SEND = 0x8"

definition UCG_FANIN_KNTREE_FLAGS :: u64 where
  "UCG_FANIN_KNTREE_FLAGS = UCG_FANIN_RECV_FROM_CHILD OR UCG_FANIN_RECV_FROM_CHILD_RECV OR
     UCG_FANIN_SEND_TO_PARENT OR UCG_FANIN_SEND_TO_PARENT_SEND"

text \<open>The loop that posts the receives from the children.\<close>

partial_function (option) fanin_kntree_recv_children :: "'w coll_env \<Rightarrow> 'w step" where
  "fanin_kntree_recv_children env op w =
     (let iter = uo_kntree_iter (op_priv op); peer = ucg_algo_kntree_iter_child_value iter
      in if peer = UCG_INVALID_RANK then Some (UCG_OK, op, w)
         else do { (status, op, w) \<leftarrow> if_flag_once UCG_FANIN_RECV_FROM_CHILD_RECV (barrier_irecv env peer) op w;
                   if status \<noteq> UCG_OK then Some (status, op, w)
                   else do { iter \<leftarrow> ucg_algo_kntree_iter_child_inc (uo_kntree_iter (op_priv op));
                             fanin_kntree_recv_children env
                               (upd_priv (\<lambda>p. p\<lparr>uo_kntree_iter := iter,
                                                uo_flags := uo_flags p OR UCG_FANIN_RECV_FROM_CHILD_RECV\<rparr>) op) w } })"

definition ucg_planc_ucx_fanin_kntree_op_recv :: "'w coll_env \<Rightarrow> 'w step" where
  "ucg_planc_ucx_fanin_kntree_op_recv env = steps [fanin_kntree_recv_children env, call_step (ce_testall env)]"

definition ucg_planc_ucx_fanin_kntree_op_send :: "'w coll_env \<Rightarrow> 'w step" where
  "ucg_planc_ucx_fanin_kntree_op_send env op w =
     (let peer = ucg_algo_kntree_iter_parent_value (uo_kntree_iter (op_priv op))
      in if peer = UCG_INVALID_RANK then Some (UCG_OK, op, w)
         else steps [if_flag_once UCG_FANIN_SEND_TO_PARENT_SEND (barrier_isend env peer), call_step (ce_testall env)] op w)"

definition ucg_planc_ucx_fanin_kntree_op_progress :: "'w coll_env \<Rightarrow> 'w step" where
  "ucg_planc_ucx_fanin_kntree_op_progress env op w =
     progress_end
       (steps [if_flag_until_done UCG_FANIN_RECV_FROM_CHILD (ucg_planc_ucx_fanin_kntree_op_recv env),
               if_flag_until_done UCG_FANIN_SEND_TO_PARENT (ucg_planc_ucx_fanin_kntree_op_send env)] op w)"

definition ucg_planc_ucx_fanin_kntree_op_trigger :: "'w coll_env \<Rightarrow> 'w step" where
  "ucg_planc_ucx_fanin_kntree_op_trigger env op w =
     (case ucg_planc_ucx_op_reset env op w of
        (op, w) \<Rightarrow>
          do { iter \<leftarrow> ucg_algo_kntree_iter_reset (uo_kntree_iter (op_priv op));
               trigger_end (ucg_planc_ucx_fanin_kntree_op_progress env
                 (upd_priv (\<lambda>p. p\<lparr>uo_kntree_iter := iter, uo_flags := UCG_FANIN_KNTREE_FLAGS\<rparr>) op) w) })"

text \<open>The configuration of a fan-in is its degree.\<close>

definition ucg_planc_ucx_fanin_kntree_op_new ::
    "'w coll_env \<Rightarrow> nat \<Rightarrow> nat \<Rightarrow> ucx_coll \<Rightarrow> ucg_coll_args \<Rightarrow> c_int \<Rightarrow> ucg_heap \<Rightarrow> 'w \<Rightarrow>
     (ucx_op option \<times> ucg_heap \<times> 'w) option" where
  "ucg_planc_ucx_fanin_kntree_op_new env grp vgroup blank args kntree_degree h w =
     (case ucx_op_new env grp vgroup blank args h w of
        (None, h, w) \<Rightarrow> Some (None, h, w)
      | (Some op, h, w) \<Rightarrow>
          do { iter \<leftarrow> ucg_algo_kntree_iter_init (ce_size env) kntree_degree 0 (ce_myrank env) False;
               Some (Some (upd_priv (\<lambda>p. p\<lparr>uo_kntree_iter := iter\<rparr>) op), h, w) })"

section \<open>Moving the data to rank 0\<close>

definition UCG_BCAST_META_ADJUST_ROOT_SEND :: u64 where "UCG_BCAST_META_ADJUST_ROOT_SEND = 0x1"
definition UCG_BCAST_META_ADJUST_ROOT_RECV :: u64 where "UCG_BCAST_META_ADJUST_ROOT_RECV = 0x2"

text \<open>The status of the send or receive is overwritten by that of the test.\<close>

definition ucg_planc_ucx_bcast_adjust_root_op_progress :: "'w coll_env \<Rightarrow> 'w step" where
  "ucg_planc_ucx_bcast_adjust_root_op_progress env op w =
     progress_end
       (do { (status, op, w) \<leftarrow>
               (if ucg_test_flags (op_flags op) UCG_BCAST_META_ADJUST_ROOT_SEND
                then if_flag_once UCG_BCAST_META_ADJUST_ROOT_SEND (bcast_isend env 0) op w
                else if_flag_once UCG_BCAST_META_ADJUST_ROOT_RECV (bcast_irecv env (ca_root (op_args op))) op w);
             call_step (ce_testall env) op w })"

definition ucg_planc_ucx_bcast_adjust_root_op_trigger :: "'w coll_env \<Rightarrow> 'w step" where
  "ucg_planc_ucx_bcast_adjust_root_op_trigger env op w =
     (case ucg_planc_ucx_op_reset env op w of
        (op, w) \<Rightarrow>
          let myrank = ce_myrank env;
              op = (if myrank = 0 then set_flags UCG_BCAST_META_ADJUST_ROOT_RECV op
                    else if myrank = ca_root (op_args op) then set_flags UCG_BCAST_META_ADJUST_ROOT_SEND op
                    else op)
          in trigger_end (ucg_planc_ucx_bcast_adjust_root_op_progress env op w))"

definition ucg_planc_ucx_bcast_adjust_root_op_discard :: "ucx_op \<Rightarrow> ucg_heap \<Rightarrow> ucg_status \<times> ucg_heap" where
  "ucg_planc_ucx_bcast_adjust_root_op_discard op h = (UCG_OK, heap_free h)"

definition ucg_planc_ucx_bcast_adjust_root_op_new ::
    "'w coll_env \<Rightarrow> nat \<Rightarrow> nat \<Rightarrow> ucx_coll \<Rightarrow> ucg_coll_args \<Rightarrow> ucg_heap \<Rightarrow> 'w \<Rightarrow> ucx_op option \<times> ucg_heap \<times> 'w" where
  "ucg_planc_ucx_bcast_adjust_root_op_new env grp vgroup blank args h w = ucx_op_new env grp vgroup blank args h w"

end
