(* ===== verification/Ucx_Meta.thy ===== *)
theory Ucx_Meta
  imports Meta_Parts Topo Meta_Op
begin

text \<open>
  How the UCX plan component composes collectives from operations on the groups of the topology:
  \<open>src/src/planc/ucx/planc_ucx_meta.c\<close>, \<open>barrier/barrier_meta.c\<close>, \<open>bcast/bcast_meta.c\<close>.  A rank that is not in
  a group adds an empty operation in its place, so that the n-th operations of all ranks belong together.

  The parts of a meta operation are the operations of the components below, each with the routine that it runs.
  Their world is what the p2p functions act on, \<open>None\<close> after undefined behaviour or a loop that does not end, and
  the heap, to which discarding gives memory back.
\<close>

section \<open>The parts of a meta operation\<close>

datatype ucx_routine = Empty_Op | Fanin_Kntree_Op | Barrier_Rd_Op | Bcast_Kntree_Op | Bcast_Adjust_Root_Op

record ucx_part =
  pt_routine :: ucx_routine
  pt_coll :: ucx_coll

type_synonym 'w part_world = "'w option \<times> ucg_heap"

definition part_of :: "ucx_routine \<Rightarrow> ucx_op \<Rightarrow> ucx_part ucg_plan_op" where
  "part_of routine op =
     \<lparr>op_super = op_super op, op_vgroup = op_vgroup op, op_priv = \<lparr>pt_routine = routine, pt_coll = op_priv op\<rparr>\<rparr>"

definition op_of_part :: "ucx_part ucg_plan_op \<Rightarrow> ucx_op" where
  "op_of_part part = \<lparr>op_super = op_super part, op_vgroup = op_vgroup part, op_priv = pt_coll (op_priv part)\<rparr>"

definition part_trigger :: "ucx_routine \<Rightarrow> 'w coll_env \<Rightarrow> 'w step" where
  "part_trigger routine =
     (case routine of
        Empty_Op \<Rightarrow> ucg_planc_ucx_empty_op_trigger
      | Fanin_Kntree_Op \<Rightarrow> ucg_planc_ucx_fanin_kntree_op_trigger
      | Barrier_Rd_Op \<Rightarrow> ucg_planc_ucx_barrier_rd_op_trigger
      | Bcast_Kntree_Op \<Rightarrow> ucg_planc_ucx_bcast_kntree_op_trigger
      | Bcast_Adjust_Root_Op \<Rightarrow> ucg_planc_ucx_bcast_adjust_root_op_trigger)"

definition part_progress :: "ucx_routine \<Rightarrow> 'w coll_env \<Rightarrow> 'w step" where
  "part_progress routine =
     (case routine of
        Empty_Op \<Rightarrow> ucg_planc_ucx_empty_op_progress
      | Fanin_Kntree_Op \<Rightarrow> ucg_planc_ucx_fanin_kntree_op_progress
      | Barrier_Rd_Op \<Rightarrow> ucg_planc_ucx_barrier_rd_op_progress
      | Bcast_Kntree_Op \<Rightarrow> ucg_planc_ucx_bcast_kntree_op_progress
      | Bcast_Adjust_Root_Op \<Rightarrow> ucg_planc_ucx_bcast_adjust_root_op_progress)"

definition part_discard :: "ucx_routine \<Rightarrow> ucx_op \<Rightarrow> ucg_heap \<Rightarrow> ucg_status \<times> ucg_heap" where
  "part_discard routine =
     (case routine of
        Empty_Op \<Rightarrow> ucg_planc_ucx_empty_op_discard
      | Fanin_Kntree_Op \<Rightarrow> ucg_planc_ucx_op_discard
      | Barrier_Rd_Op \<Rightarrow> ucg_planc_ucx_barrier_rd_op_discard
      | Bcast_Kntree_Op \<Rightarrow> ucg_planc_ucx_bcast_kntree_op_discard
      | Bcast_Adjust_Root_Op \<Rightarrow> ucg_planc_ucx_bcast_adjust_root_op_discard)"

text \<open>A step of a part, and the record of routines that the meta operation calls; \<open>envs\<close> has the functions for every group.\<close>

definition part_step ::
    "(ucx_routine \<Rightarrow> 'w coll_env \<Rightarrow> 'w step) \<Rightarrow> (nat \<Rightarrow> 'w coll_env) \<Rightarrow> ucx_part ucg_plan_op \<Rightarrow> 'w part_world \<Rightarrow>
     ucg_status \<times> ucx_part ucg_plan_op \<times> 'w part_world" where
  "part_step f envs part wh =
     (let routine = pt_routine (op_priv part) in
      case wh of
        (None, h) \<Rightarrow> (UCG_OK, part, None, h)
      | (Some w, h) \<Rightarrow>
          (case f routine (envs (op_vgroup part)) (op_of_part part) w of
             None \<Rightarrow> (UCG_OK, part, None, h)
           | Some (status, op, w) \<Rightarrow> (status, part_of routine op, Some w, h)))"

definition part_funcs :: "(nat \<Rightarrow> 'w coll_env) \<Rightarrow> (ucx_part, 'w part_world) op_funcs" where
  "part_funcs envs =
     \<lparr>fn_trigger = part_step part_trigger envs, fn_progress = part_step part_progress envs,
      fn_discard = (\<lambda>part (w, h). case part_discard (pt_routine (op_priv part)) (op_of_part part) h of
                                    (status, h) \<Rightarrow> (status, w, h))\<rparr>"

section \<open>Adding operations\<close>

text \<open>
  What the functions that add operations know: the group (\<open>grp\<close>), its vgroup, what the p2p functions are for the
  group and for a group of the topology, and what an element of the pool holds.
\<close>

record 'w meta_env =
  me_chk :: bool
  me_grp :: nat
  me_vgroup :: nat
  me_env :: "'w coll_env"
  me_topo_vgroup :: "ucg_topo_group_type \<Rightarrow> nat"
  me_topo_env :: "ucg_topo_group \<Rightarrow> 'w coll_env"
  me_blank :: ucx_coll

record 'w meta_state =
  ms_op :: "ucx_part meta_op"
  ms_topo :: ucg_topo
  ms_heap :: ucg_heap
  ms_world :: 'w

type_synonym 'w meta_add = "'w meta_env \<Rightarrow> 'w meta_state \<Rightarrow> (ucg_status \<times> 'w meta_state) option"

text \<open>The end of these functions: no memory, or the operation is added.\<close>

definition meta_add_part ::
    "ucx_routine \<Rightarrow> ucx_op option \<times> ucg_heap \<times> 'w \<Rightarrow> 'w meta_state \<Rightarrow> ucg_status \<times> 'w meta_state" where
  "meta_add_part routine r s =
     (case r of
        (None, h, w) \<Rightarrow> (UCG_ERR_NO_MEMORY, s\<lparr>ms_heap := h, ms_world := w\<rparr>)
      | (Some op, h, w) \<Rightarrow>
          (case ucg_plan_meta_op_add (ms_op s) (part_of routine op) of
             (status, meta_op) \<Rightarrow> (status, s\<lparr>ms_op := meta_op, ms_heap := h, ms_world := w\<rparr>)))"

definition ucg_planc_ucx_add_empty_op :: "'w meta_add" where
  "ucg_planc_ucx_add_empty_op e s =
     Some (meta_add_part Empty_Op
       (ucg_planc_ucx_empty_op_new (me_env e) (me_grp e) (me_vgroup e) (me_blank e) (coll_args_zero UCG_COLL_TYPE_BARRIER)
          (ms_heap s) (ms_world s)) s)"

text \<open>
  Their beginning: the group of the topology is looked up; \<open>new\<close> makes the operation if this process is in it.
\<close>

definition add_topo_group_op ::
    "ucg_topo_group_type \<Rightarrow> ucx_routine \<Rightarrow>
     ('w coll_env \<Rightarrow> nat \<Rightarrow> ucg_heap \<Rightarrow> 'w \<Rightarrow> (ucx_op option \<times> ucg_heap \<times> 'w) option) \<Rightarrow> 'w meta_add" where
  "add_topo_group_op type routine new e s =
     do { (topo_group, topo, h) \<leftarrow> ucg_topo_get_group (me_chk e) (ms_topo s) type (ms_heap s);
          let s = s\<lparr>ms_topo := topo, ms_heap := h\<rparr>;
          case topo_group of
            None \<Rightarrow> Some (UCG_ERR_UNSUPPORTED, s)
          | Some type \<Rightarrow>
              let state = tg_state (tp_groups topo type) in
              if state = UCG_TOPO_GROUP_STATE_DISABLE then ucg_planc_ucx_add_empty_op e s
              else if state \<noteq> UCG_TOPO_GROUP_STATE_ENABLE then Some (UCG_ERR_NO_RESOURCE, s)
              else do { r \<leftarrow> new (me_topo_env e (tp_groups topo type)) (me_topo_vgroup e type) (ms_heap s) (ms_world s);
                        Some (meta_add_part routine r s) } }"

text \<open>Calls each followed by \<open>UCG_CHECK_GOTO\<close>.\<close>

fun meta_adds :: "'w meta_add list \<Rightarrow> 'w meta_add" where
  "meta_adds [] e s = Some (UCG_OK, s)"
| "meta_adds (f # fs) e s =
     do { (status, s) \<leftarrow> f e s; if status \<noteq> UCG_OK then Some (status, s) else meta_adds fs e s }"

text \<open>
  The frame of every \<open>op_new\<close>: a new meta operation, the calls that fill it, and \<open>err_free_meta_op\<close>.  The calls get
  the arguments of the meta operation.
\<close>

definition meta_op_build ::
    "(nat \<Rightarrow> 'w coll_env) \<Rightarrow> 'w meta_env \<Rightarrow> ucg_coll_args \<Rightarrow> (ucg_coll_args \<Rightarrow> 'w meta_add list) \<Rightarrow> ucg_topo \<Rightarrow> ucg_heap \<Rightarrow> 'w \<Rightarrow>
     (ucx_part meta_op option \<times> ucg_topo \<times> ucg_heap \<times> 'w) option" where
  "meta_op_build envs e args adds topo h w =
     (case ucg_plan_meta_op_new (me_grp e) (me_vgroup e) args h of
        (None, h) \<Rightarrow> Some (None, topo, h, w)
      | (Some op, h) \<Rightarrow>
          do { (status, s) \<leftarrow> meta_adds (adds (op_args op)) e \<lparr>ms_op = op, ms_topo = topo, ms_heap = h, ms_world = w\<rparr>;
               Some (if status = UCG_OK then (Some (ms_op s), ms_topo s, ms_heap s, ms_world s)
                     else (None, ms_topo s,
                           heap_free (snd (discard_ops (part_funcs envs) (mo_ops (op_priv (ms_op s))) (Some (ms_world s), ms_heap s))),
                           ms_world s)) })"

text \<open>And of every \<open>prepare\<close> behind its check of the topology.\<close>

definition meta_prepared ::
    "(ucx_part meta_op option \<times> ucg_topo \<times> ucg_heap \<times> 'w) option \<Rightarrow> ((ucg_status + ucx_part meta_op) \<times> ucg_topo \<times> ucg_heap \<times> 'w) option" where
  "meta_prepared r =
     map_option (\<lambda>(op, rest). (case op of None \<Rightarrow> Inl UCG_ERR_NO_MEMORY | Some op \<Rightarrow> Inr op, rest)) r"

definition is_intra :: "ucg_topo_group_type \<Rightarrow> bool" where
  "is_intra type \<longleftrightarrow>
     type = UCG_TOPO_GROUP_TYPE_NODE \<or> type = UCG_TOPO_GROUP_TYPE_SOCKET \<or> type = UCG_TOPO_GROUP_TYPE_SOCKET_LEADER"

definition topo_knows_ppn :: "ucg_topo \<Rightarrow> bool" where
  "topo_knows_ppn topo \<longleftrightarrow> tp_ppn topo \<noteq> UCG_TOPO_PPX_UNKNOWN"

definition topo_knows_pps :: "ucg_topo \<Rightarrow> bool" where
  "topo_knows_pps topo \<longleftrightarrow> tp_pps topo \<noteq> UCG_TOPO_PPX_UNKNOWN"

end
