(* ===== verification/Meta_Build.thy ===== *)
theory Meta_Build
  imports Ucx_Meta Topo_Group
begin

text \<open>
  What the functions that add operations to a meta operation do, stage by stage: which operation they add, and what they
  leave in the topology and on the heap.
\<close>

section \<open>Looking up groups\<close>

text \<open>What a lookup leaves alone: a group that is enabled or disabled stays as it is.\<close>

definition group_known :: "ucg_topo_group \<Rightarrow> bool" where
  "group_known g \<longleftrightarrow> tg_state g = UCG_TOPO_GROUP_STATE_ENABLE \<or> tg_state g = UCG_TOPO_GROUP_STATE_DISABLE"

definition groups_kept :: "ucg_topo \<Rightarrow> ucg_topo \<Rightarrow> bool" where
  "groups_kept topo topo' \<longleftrightarrow> (\<forall>t. group_known (tp_groups topo t) \<longrightarrow> tp_groups topo' t = tp_groups topo t)"

lemma groups_kept_refl [simp]: "groups_kept topo topo"
  by (simp add: groups_kept_def)

lemma groups_kept_trans: "groups_kept a b \<Longrightarrow> groups_kept b c \<Longrightarrow> groups_kept a c"
  by (simp add: groups_kept_def)

text \<open>The blocks that the rank maps of the cached groups own.\<close>

definition topo_blocks :: "ucg_topo \<Rightarrow> int" where
  "topo_blocks topo = (\<Sum>t \<leftarrow> ucg_topo_group_types. topo_group_blocks (tp_groups topo t))"

lemma topo_blocks_upd:
  "topo_blocks (topo\<lparr>tp_groups := (tp_groups topo)(type := g)\<rparr>) =
     topo_blocks topo - topo_group_blocks (tp_groups topo type) + topo_group_blocks g"
  by (cases type) (simp_all add: topo_blocks_def ucg_topo_group_types_def)

lemma create_group_frame:
  assumes "ucg_topo_create_group chk topo m type h = Some (st, topo', h')"
  obtains g where "topo' = topo\<lparr>tp_groups := (tp_groups topo)(type := g)\<rparr>"
proof -
  have same: "\<exists>g. topo = topo\<lparr>tp_groups := (tp_groups topo)(type := g)\<rparr>"
    by (rule exI [of _ "tp_groups topo type"]) simp
  let ?aid = "ucg_topo_group_aid type"
  obtain ok h1 where a: "heap_alloc h = (ok, h1)" by fastforce
  obtain st1 aux h2 where i: "aid_init ?aid h1 = (st1, aux, h2)" by (rule prod_cases3)
  have "\<exists>g. topo' = topo\<lparr>tp_groups := (tp_groups topo)(type := g)\<rparr>"
  proof (cases "ok \<and> st1 = UCG_OK")
    case False
    then have "topo' = topo" using assms by (auto simp: ucg_topo_create_group_def a i split: bool.splits if_splits)
    then show ?thesis using same by simp
  next
    case True
    let ?w = "\<lparr>gw_aux = aux, gw_ranks = [], gw_size_ranks = 256, gw_myrank = tg_myrank (tp_groups topo type), gw_heap = h2\<rparr>"
    let ?loop = "topo_group_loop chk topo m ?aid 0 (unat (rm_size m)) ?w"
    obtain e w where w: "?loop = Some (e, w)"
      using assms True by (cases ?loop) (auto simp: ucg_topo_create_group_def a i Let_def)
    note create = assms [unfolded ucg_topo_create_group_def a Let_def, simplified True i w]
    show ?thesis using create True i w by (cases e) (auto simp: bind_eq_Some_conv split: if_splits)
  qed
  then show thesis using that by blast
qed

lemma create_group_kept:
  assumes "ucg_topo_create_group chk topo m type h = Some (st, topo', h')"
    and "tg_state (tp_groups topo type) = UCG_TOPO_GROUP_STATE_NOT_INIT"
  shows "groups_kept topo topo'" and "\<And>t. t \<noteq> type \<Longrightarrow> tp_groups topo' t = tp_groups topo t"
    and "type \<noteq> UCG_TOPO_GROUP_TYPE_SUBNET_LEADER \<Longrightarrow> h_live h' = h_live h + (topo_blocks topo' - topo_blocks topo)"
proof -
  obtain g where g: "topo' = topo\<lparr>tp_groups := (tp_groups topo)(type := g)\<rparr>" by (rule create_group_frame [OF assms(1)])
  show "groups_kept topo topo'" using assms(2) by (auto simp: g groups_kept_def group_known_def)
  show "\<And>t. t \<noteq> type \<Longrightarrow> tp_groups topo' t = tp_groups topo t" by (simp add: g)
  have b0: "topo_group_blocks (tp_groups topo type) = 0" using assms(2) by (simp add: topo_group_blocks_def)
  show "h_live h' = h_live h + (topo_blocks topo' - topo_blocks topo)" if "type \<noteq> UCG_TOPO_GROUP_TYPE_SUBNET_LEADER"
    using create_group_live [OF assms disjI1 [OF that]] that b0 by (simp add: g topo_blocks_upd)
qed

lemmas create_defs = topo_create_of_type_def ucg_topo_create_net_group_def ucg_topo_create_subnet_group_def
  ucg_topo_create_subnet_leader_group_def ucg_topo_create_node_group_def ucg_topo_create_node_leader_group_def
  ucg_topo_create_socket_group_def ucg_topo_create_socket_leader_group_def

lemma create_of_type:
  obtains m where "topo_create_of_type chk type topo h = ucg_topo_create_group chk topo m type h"
  by (cases type) (simp_all add: create_defs)

lemma get_group_kept:
  assumes "ucg_topo_get_group chk topo type h = Some (r, topo', h')"
  shows "groups_kept topo topo' \<and> (r = None \<or> r = Some type) \<and>
    (type \<noteq> UCG_TOPO_GROUP_TYPE_SUBNET_LEADER \<longrightarrow> h_live h' = h_live h + (topo_blocks topo' - topo_blocks topo))"
proof (cases "tg_state (tp_groups topo type) = UCG_TOPO_GROUP_STATE_NOT_INIT")
  case False
  then show ?thesis using assms by (auto simp: ucg_topo_get_group_def split: if_splits)
next
  case new: True
  show ?thesis
  proof (cases "type \<noteq> UCG_TOPO_GROUP_TYPE_SOCKET \<and> type \<noteq> UCG_TOPO_GROUP_TYPE_SOCKET_LEADER")
    case True
    obtain m where m: "topo_create_of_type chk type topo h = ucg_topo_create_group chk topo m type h" by (rule create_of_type)
    obtain st where c: "ucg_topo_create_group chk topo m type h = Some (st, topo', h')" "r = (if st = UCG_OK then Some type else None)"
      using assms new True unfolding ucg_topo_get_group_def Let_def m by (auto simp: bind_eq_Some_conv)
    show ?thesis using create_group_kept [OF c(1) new] c(2) by auto
  next
    case False
    let ?node = "UCG_TOPO_GROUP_TYPE_NODE"
    have ne: "type \<noteq> ?node" "type \<noteq> UCG_TOPO_GROUP_TYPE_SUBNET_LEADER" using False by auto
    obtain st topo1 h1 where n: "(if tg_state (tp_groups topo ?node) = UCG_TOPO_GROUP_STATE_NOT_INIT
        then ucg_topo_create_node_group chk topo h else Some (UCG_OK, topo, h)) = Some (st, topo1, h1)"
      and rest: "if st \<noteq> UCG_OK then r = None \<and> topo' = topo1 \<and> h' = h1
        else if tg_state (tp_groups topo1 ?node) = UCG_TOPO_GROUP_STATE_DISABLE
        then r = Some type \<and> h' = h1 \<and> topo' = topo1\<lparr>tp_groups := (tp_groups topo1)(type := (tp_groups topo1 type)\<lparr>tg_state := UCG_TOPO_GROUP_STATE_DISABLE\<rparr>)\<rparr>
        else \<exists>st'. topo_create_of_type chk type topo1 h1 = Some (st', topo', h') \<and> r = (if st' = UCG_OK then Some type else None)"
      using assms new False unfolding ucg_topo_get_group_def Let_def
      by (auto simp: bind_eq_Some_conv split: if_splits)
    have k1: "groups_kept topo topo1 \<and> tp_groups topo1 type = tp_groups topo type \<and>
        h_live h1 = h_live h + (topo_blocks topo1 - topo_blocks topo)"
    proof (cases "tg_state (tp_groups topo ?node) = UCG_TOPO_GROUP_STATE_NOT_INIT")
      case True
      then have "ucg_topo_create_group chk topo (topo_full_map topo) ?node h = Some (st, topo1, h1)"
        using n by (simp add: ucg_topo_create_node_group_def)
      from create_group_kept [OF this True] show ?thesis using ne by simp
    qed (use n in simp)
    then have new1: "tg_state (tp_groups topo1 type) = UCG_TOPO_GROUP_STATE_NOT_INIT" using new by simp
    show ?thesis
    proof (cases "st = UCG_OK \<and> tg_state (tp_groups topo1 ?node) \<noteq> UCG_TOPO_GROUP_STATE_DISABLE")
      case True
      obtain m where m: "topo_create_of_type chk type topo1 h1 = ucg_topo_create_group chk topo1 m type h1" by (rule create_of_type)
      obtain st' where c: "ucg_topo_create_group chk topo1 m type h1 = Some (st', topo', h')" "r = (if st' = UCG_OK then Some type else None)"
        using rest True m by auto
      show ?thesis using create_group_kept [OF c(1) new1] c(2) k1 ne groups_kept_trans by auto
    next
      case False
      have "topo_group_blocks (tp_groups topo1 type) = 0" using new1 by (simp add: topo_group_blocks_def)
      moreover have "topo_group_blocks ((tp_groups topo1 type)\<lparr>tg_state := UCG_TOPO_GROUP_STATE_DISABLE\<rparr>) = 0"
        by (simp add: topo_group_blocks_def)
      moreover have "groups_kept topo1 (topo1\<lparr>tp_groups := (tp_groups topo1)(type := g)\<rparr>)" for g
        using new1 by (auto simp: groups_kept_def group_known_def)
      ultimately show ?thesis using rest False k1 groups_kept_trans by (auto simp: topo_blocks_upd split: if_splits)
    qed
  qed
qed

section \<open>Stages\<close>

text \<open>
  What a function adds for a process: an operation on a group of the topology, or the empty operation if the process is
  not in it; or the operation that moves the data of the root to rank 0, or the empty one.
\<close>

datatype meta_stage = On_Group ucg_topo_group_type ucx_routine | Root_To_Leader ucg_rank_t

fun part_fits :: "'w meta_env \<Rightarrow> ucg_topo \<Rightarrow> meta_stage \<Rightarrow> ucx_part ucg_plan_op \<Rightarrow> bool" where
  "part_fits e topo (On_Group type routine) part \<longleftrightarrow>
     (if tg_state (tp_groups topo type) = UCG_TOPO_GROUP_STATE_ENABLE
      then pt_routine (op_priv part) = routine \<and> op_vgroup part = me_topo_vgroup e type
      else tg_state (tp_groups topo type) = UCG_TOPO_GROUP_STATE_DISABLE \<and>
        pt_routine (op_priv part) = Empty_Op \<and> op_vgroup part = me_vgroup e)"
| "part_fits e topo (Root_To_Leader root) part \<longleftrightarrow>
     pt_routine (op_priv part) = (if ce_myrank (me_env e) = 0 \<or> ce_myrank (me_env e) = root then Bcast_Adjust_Root_Op else Empty_Op) \<and>
     op_vgroup part = me_vgroup e"

lemma part_fits_kept:
  assumes "part_fits e topo stage part" and "groups_kept topo topo'"
  shows "part_fits e topo' stage part"
proof (cases stage)
  case (On_Group type routine)
  then have "group_known (tp_groups topo type)" using assms(1) by (auto simp: group_known_def split: if_splits)
  then show ?thesis using assms On_Group by (simp add: groups_kept_def)
qed (use assms in simp)

text \<open>The blocks that discarding a part gives back.\<close>

definition part_blocks :: "ucx_part ucg_plan_op \<Rightarrow> int" where
  "part_blocks part = - h_live (snd (part_discard (pt_routine (op_priv part)) (op_of_part part) \<lparr>h_outcomes = [], h_live = 0\<rparr>))"

lemmas part_discard_defs = part_discard_def ucg_planc_ucx_empty_op_discard_def ucg_planc_ucx_op_discard_def
  ucg_planc_ucx_barrier_rd_op_discard_def ucg_planc_ucx_bcast_kntree_op_discard_def ucg_planc_ucx_bcast_adjust_root_op_discard_def

lemma part_discard_live:
  "h_live (snd (part_discard (pt_routine (op_priv part)) (op_of_part part) h)) = h_live h - part_blocks part"
  by (cases "pt_routine (op_priv part)") (simp_all add: part_blocks_def part_discard_defs Let_def)

lemma discard_ops_live:
  "discard_ops (part_funcs envs) ps (w, h) = (w', h') \<Longrightarrow> w' = w \<and> h_live h' = h_live h - sum_list (map part_blocks ps)"
proof (induction ps arbitrary: w h)
  case (Cons p ps)
  have e: "fn_discard (part_funcs envs) p (w, h) =
      (fst (part_discard (pt_routine (op_priv p)) (op_of_part p) h), w, snd (part_discard (pt_routine (op_priv p)) (op_of_part p) h))"
    by (simp add: part_funcs_def split: prod.splits)
  show ?case using Cons part_discard_live [of p h] by (fastforce simp: e)
qed simp

text \<open>A function adds the operation of a stage, or nothing and returns an error.\<close>

definition stage_frees :: "meta_stage \<Rightarrow> bool" where
  "stage_frees stage \<longleftrightarrow> (case stage of On_Group type _ \<Rightarrow> type \<noteq> UCG_TOPO_GROUP_TYPE_SUBNET_LEADER | Root_To_Leader _ \<Rightarrow> True)"

definition meta_ops_added :: "'w meta_state \<Rightarrow> 'w meta_state \<Rightarrow> ucx_part ucg_plan_op list \<Rightarrow> bool" where
  "meta_ops_added s s' ps \<longleftrightarrow>
     ms_op s' = (ms_op s)\<lparr>op_priv := (op_priv (ms_op s))\<lparr>mo_ops := mo_ops (op_priv (ms_op s)) @ ps\<rparr>\<rparr> \<and> groups_kept (ms_topo s) (ms_topo s')"

definition meta_live :: "'w meta_state \<Rightarrow> int" where
  "meta_live s = h_live (ms_heap s) - topo_blocks (ms_topo s) - sum_list (map part_blocks (mo_ops (op_priv (ms_op s))))"

definition adds_stage :: "'w meta_env \<Rightarrow> 'w meta_add \<Rightarrow> meta_stage \<Rightarrow> bool" where
  "adds_stage e f stage \<longleftrightarrow>
     (\<forall>s st s'. f e s = Some (st, s') \<longrightarrow> mo_n_ops (op_priv (ms_op s)) < UCG_PLAN_OPS_MAX \<longrightarrow>
        (\<exists>ps. meta_ops_added s s' ps \<and>
           (if st = UCG_OK then \<exists>p. ps = [p] \<and> part_fits e (ms_topo s') stage p else ps = [])) \<and>
        (stage_frees stage \<longrightarrow> meta_live s' = meta_live s))"

text \<open>What is asked of the functions that make the operations.\<close>

definition new_part :: "ucx_routine \<Rightarrow> nat \<Rightarrow> ucg_heap \<Rightarrow> ucx_op option \<times> ucg_heap \<times> 'w \<Rightarrow> bool" where
  "new_part routine vgroup h r \<longleftrightarrow>
     (case r of
        (None, h', w') \<Rightarrow> h_live h' = h_live h
      | (Some op, h', w') \<Rightarrow> op_vgroup op = vgroup \<and> h_live h' = h_live h + part_blocks (part_of routine op))"

lemma ucx_op_new_vgroup:
  assumes "ucx_op_new env grp vgroup blank args h w = (r, h', w')"
  shows "(case r of None \<Rightarrow> h_live h' = h_live h
    | Some op \<Rightarrow> op_vgroup op = vgroup \<and> uo_staging_area (op_priv op) = C_NULL \<and> h_live h' = h_live h + 1)"
  using assms
  by (auto simp: ucx_op_new_def ucg_plan_op_ctor_def ucg_planc_ucx_op_init_def dest: heap_alloc_live split: prod.splits bool.splits if_splits)

lemma new_partI:
  assumes "ucx_op_new env grp vgroup blank args h w = r"
  shows "new_part routine vgroup h r"
proof -
  obtain op h' w' where r: "r = (op, h', w')" by (rule prod_cases3)
  show ?thesis using ucx_op_new_vgroup [OF assms [unfolded r]] unfolding r
    by (cases routine) (auto simp: new_part_def part_blocks_def part_of_def op_of_part_def part_discard_defs Let_def split: option.splits)
qed

lemma meta_add_part_stage:
  assumes "new_part routine vgroup (ms_heap s) r" and "meta_add_part routine r s = (st, s')"
    and "mo_n_ops (op_priv (ms_op s)) < UCG_PLAN_OPS_MAX"
  shows "ms_topo s' = ms_topo s \<and> meta_live s' = meta_live s \<and>
    (\<exists>ps. meta_ops_added s s' ps \<and>
       (if st = UCG_OK then \<exists>p. ps = [p] \<and> pt_routine (op_priv p) = routine \<and> op_vgroup p = vgroup else ps = []))"
proof -
  obtain op h' w' where r: "r = (op, h', w')" by (rule prod_cases3)
  show ?thesis
  proof (cases op)
    case None
    then have "meta_ops_added s s' []" "st \<noteq> UCG_OK" "ms_topo s' = ms_topo s" "meta_live s' = meta_live s"
      using assms(1,2) by (auto simp: r meta_add_part_def new_part_def meta_ops_added_def meta_live_def)
    then show ?thesis by auto
  next
    case (Some o1)
    let ?p = "part_of routine o1"
    have "meta_ops_added s s' [?p]" "st = UCG_OK" "ms_topo s' = ms_topo s" "meta_live s' = meta_live s" "op_vgroup ?p = vgroup"
        "pt_routine (op_priv ?p) = routine"
      using assms Some by (auto simp: r meta_add_part_def new_part_def meta_ops_added_def meta_live_def ucg_plan_meta_op_add_def Let_def part_of_def)
    then show ?thesis by auto
  qed
qed

lemma add_empty_stage:
  assumes "ucg_planc_ucx_add_empty_op e s = Some (st, s')" and "mo_n_ops (op_priv (ms_op s)) < UCG_PLAN_OPS_MAX"
  shows "ms_topo s' = ms_topo s \<and> meta_live s' = meta_live s \<and>
    (\<exists>ps. meta_ops_added s s' ps \<and>
       (if st = UCG_OK then \<exists>p. ps = [p] \<and> pt_routine (op_priv p) = Empty_Op \<and> op_vgroup p = me_vgroup e else ps = []))"
proof (rule meta_add_part_stage)
  show "new_part Empty_Op (me_vgroup e) (ms_heap s) (ucg_planc_ucx_empty_op_new (me_env e) (me_grp e) (me_vgroup e) (me_blank e)
      (coll_args_zero UCG_COLL_TYPE_BARRIER) (ms_heap s) (ms_world s))"
    by (rule new_partI) (simp add: ucg_planc_ucx_empty_op_new_def)
qed (use assms in \<open>simp_all add: ucg_planc_ucx_add_empty_op_def\<close>)

lemma add_topo_group_stage:
  assumes new: "\<And>env vgroup h w r. new env vgroup h w = Some r \<Longrightarrow> new_part routine vgroup h r"
  shows "adds_stage e (add_topo_group_op type routine new) (On_Group type routine)"
  unfolding adds_stage_def
proof (intro allI impI)
  fix s st s' assume run: "add_topo_group_op type routine new e s = Some (st, s')" and room: "mo_n_ops (op_priv (ms_op s)) < UCG_PLAN_OPS_MAX"
  obtain r topo h where g: "ucg_topo_get_group (me_chk e) (ms_topo s) type (ms_heap s) = Some (r, topo, h)"
    using run by (auto simp: add_topo_group_op_def bind_eq_Some_conv)
  note k = get_group_kept [OF g]
  let ?s = "s\<lparr>ms_topo := topo, ms_heap := h\<rparr>"
  let ?state = "tg_state (tp_groups topo type)"
  have live: "meta_live ?s = meta_live s" if "type \<noteq> UCG_TOPO_GROUP_TYPE_SUBNET_LEADER" using k that by (simp add: meta_live_def)
  have room': "mo_n_ops (op_priv (ms_op ?s)) < UCG_PLAN_OPS_MAX" using room by simp
  have added: "meta_ops_added s s' ps" if "meta_ops_added ?s s' ps" for ps
    using that k groups_kept_trans by (auto simp: meta_ops_added_def)
  have none: "meta_ops_added s ?s []" using k by (simp add: meta_ops_added_def)
  from run have "if r = None then st = UCG_ERR_UNSUPPORTED \<and> s' = ?s
    else if ?state = UCG_TOPO_GROUP_STATE_DISABLE then ucg_planc_ucx_add_empty_op e ?s = Some (st, s')
    else if ?state \<noteq> UCG_TOPO_GROUP_STATE_ENABLE then st = UCG_ERR_NO_RESOURCE \<and> s' = ?s
    else \<exists>r. new (me_topo_env e (tp_groups topo type)) (me_topo_vgroup e type) h (ms_world s) = Some r \<and>
      meta_add_part routine r ?s = (st, s')"
    using g k by (auto simp: add_topo_group_op_def Let_def bind_eq_Some_conv split: if_splits)
  then consider "st \<noteq> UCG_OK" "s' = ?s"
    | "?state = UCG_TOPO_GROUP_STATE_DISABLE" "ucg_planc_ucx_add_empty_op e ?s = Some (st, s')"
    | r where "?state = UCG_TOPO_GROUP_STATE_ENABLE" "new (me_topo_env e (tp_groups topo type)) (me_topo_vgroup e type) h (ms_world s) = Some r"
      "meta_add_part routine r ?s = (st, s')"
    by (auto split: if_splits)
  then show "(\<exists>ps. meta_ops_added s s' ps \<and>
        (if st = UCG_OK then \<exists>p. ps = [p] \<and> part_fits e (ms_topo s') (On_Group type routine) p else ps = [])) \<and>
      (stage_frees (On_Group type routine) \<longrightarrow> meta_live s' = meta_live s)"
  proof cases
    case 1
    then show ?thesis using none live by (auto simp: stage_frees_def)
  next
    case 2
    from add_empty_stage [OF 2(2) room'] show ?thesis using 2(1) live added by (fastforce simp: stage_frees_def)
  next
    case 3
    have "new_part routine (me_topo_vgroup e type) (ms_heap ?s) r" using new [OF 3(2)] by simp
    from meta_add_part_stage [OF this 3(3) room'] show ?thesis using 3(1) live added by (fastforce simp: stage_frees_def)
  qed
qed

section \<open>The whole operation\<close>

lemma meta_ops_added_simps:
  assumes "meta_ops_added s s' ps"
  shows "mo_ops (op_priv (ms_op s')) = mo_ops (op_priv (ms_op s)) @ ps" and "groups_kept (ms_topo s) (ms_topo s')"
    and "op_args (ms_op s') = op_args (ms_op s)" and "mo_triggered (op_priv (ms_op s')) = mo_triggered (op_priv (ms_op s))"
  using assms by (auto simp: meta_ops_added_def)

lemma meta_ops_added_trans:
  "meta_ops_added a b ps \<Longrightarrow> meta_ops_added b c qs \<Longrightarrow> meta_ops_added a c (ps @ qs)"
  by (auto simp: meta_ops_added_def intro: groups_kept_trans)

lemma meta_adds_stages:
  assumes "list_all2 (adds_stage e) fs stages" and "meta_adds fs e s = Some (st, s')"
    and "mo_n_ops (op_priv (ms_op s)) + length fs \<le> UCG_PLAN_OPS_MAX"
  shows "(\<exists>ps. meta_ops_added s s' ps \<and> (st = UCG_OK \<longrightarrow> list_all2 (part_fits e (ms_topo s')) stages ps)) \<and>
    (list_all stage_frees stages \<longrightarrow> meta_live s' = meta_live s)"
  using assms
proof (induction fs stages arbitrary: s rule: list_all2_induct)
  case Nil
  then have "s' = s" by simp
  then show ?case by (auto simp: meta_ops_added_def intro!: exI [of _ "[]"])
next
  case (Cons f fs stage stages)
  from Cons.prems(1) obtain st1 s1 where f: "f e s = Some (st1, s1)"
    and rest: "if st1 \<noteq> UCG_OK then st = st1 \<and> s' = s1 else meta_adds fs e s1 = Some (st, s')"
    by (auto simp: bind_eq_Some_conv split: if_splits)
  have room: "mo_n_ops (op_priv (ms_op s)) < UCG_PLAN_OPS_MAX" using Cons.prems(2) by simp
  from Cons.hyps(1) f room obtain ps where ps: "meta_ops_added s s1 ps"
    "if st1 = UCG_OK then \<exists>p. ps = [p] \<and> part_fits e (ms_topo s1) stage p else ps = []"
    "stage_frees stage \<longrightarrow> meta_live s1 = meta_live s" unfolding adds_stage_def by blast
  show ?case
  proof (cases "st1 = UCG_OK")
    case False
    then show ?thesis using rest ps by auto
  next
    case True
    then obtain p where p: "ps = [p]" "part_fits e (ms_topo s1) stage p" using ps(2) by auto
    have "mo_n_ops (op_priv (ms_op s1)) + length fs \<le> UCG_PLAN_OPS_MAX"
      using Cons.prems(2) meta_ops_added_simps(1) [OF ps(1)] p(1) by simp
    from Cons.IH [OF _ this] rest True obtain qs where qs: "meta_ops_added s1 s' qs"
      "st = UCG_OK \<longrightarrow> list_all2 (part_fits e (ms_topo s')) stages qs" "list_all stage_frees stages \<longrightarrow> meta_live s' = meta_live s1"
      by auto
    have "part_fits e (ms_topo s') stage p" by (rule part_fits_kept [OF p(2) meta_ops_added_simps(2) [OF qs(1)]])
    then show ?thesis using meta_ops_added_trans [OF ps(1) qs(1)] qs(2,3) ps(3) p(1) by auto
  qed
qed

lemma meta_op_build_stages:
  assumes run: "meta_op_build envs e args adds topo h w = Some (r, topo', h', w')"
    and fs: "list_all2 (adds_stage e) (adds args) stages" and room: "length stages \<le> UCG_PLAN_OPS_MAX"
  shows "groups_kept topo topo'"
    and "r = Some op \<Longrightarrow> list_all2 (part_fits e topo') stages (mo_ops (op_priv op)) \<and> op_args op = args \<and> \<not> mo_triggered (op_priv op)"
    and "list_all stage_frees stages \<Longrightarrow> h_live h' = h_live h + (topo_blocks topo' - topo_blocks topo) +
      (case r of None \<Rightarrow> 0 | Some op \<Rightarrow> 1 + sum_list (map part_blocks (mo_ops (op_priv op))))"
proof -
  obtain o1 :: "ucx_part meta_op option" and h1 where new: "ucg_plan_meta_op_new (me_grp e) (me_vgroup e) args h = (o1, h1)" by fastforce
  have "groups_kept topo topo' \<and>
    (\<forall>op. r = Some op \<longrightarrow> list_all2 (part_fits e topo') stages (mo_ops (op_priv op)) \<and> op_args op = args \<and> \<not> mo_triggered (op_priv op)) \<and>
    (list_all stage_frees stages \<longrightarrow> h_live h' = h_live h + (topo_blocks topo' - topo_blocks topo) +
      (case r of None \<Rightarrow> 0 | Some op \<Rightarrow> 1 + sum_list (map part_blocks (mo_ops (op_priv op)))))"
  proof (cases o1)
    case None
    then have "h_live h1 = h_live h" using new
      by (auto simp: ucg_plan_meta_op_new_def ucg_plan_op_ctor_def ucg_request_ctor_def dest: heap_alloc_live split: prod.splits bool.splits)
    then show ?thesis using run None new by (auto simp: meta_op_build_def)
  next
    case (Some o2)
    have o2: "mo_ops (op_priv o2) = []" "op_args o2 = args" "\<not> mo_triggered (op_priv o2)" "h_live h1 = h_live h + 1"
      using new Some
      by (auto simp: ucg_plan_meta_op_new_def ucg_plan_op_ctor_def ucg_request_ctor_def dest: heap_alloc_live split: prod.splits bool.splits if_splits)
    let ?s0 = "\<lparr>ms_op = o2, ms_topo = topo, ms_heap = h1, ms_world = w\<rparr>"
    obtain st s where s: "meta_adds (adds args) e ?s0 = Some (st, s)"
      and res: "if st = UCG_OK then r = Some (ms_op s) \<and> topo' = ms_topo s \<and> h' = ms_heap s
        else r = None \<and> topo' = ms_topo s \<and>
          h' = heap_free (snd (discard_ops (part_funcs envs) (mo_ops (op_priv (ms_op s))) (Some (ms_world s), ms_heap s)))"
      using run Some new o2(2) by (auto simp: meta_op_build_def bind_eq_Some_conv split: if_splits)
    have "mo_n_ops (op_priv (ms_op ?s0)) + length (adds args) \<le> UCG_PLAN_OPS_MAX"
      using o2(1) room list_all2_lengthD [OF fs] by simp
    from meta_adds_stages [OF fs s this] obtain ps where ps: "meta_ops_added ?s0 s ps"
      "st = UCG_OK \<longrightarrow> list_all2 (part_fits e (ms_topo s)) stages ps" "list_all stage_frees stages \<longrightarrow> meta_live s = meta_live ?s0" by blast
    note a = meta_ops_added_simps [OF ps(1)]
    obtain wd hd where d: "discard_ops (part_funcs envs) (mo_ops (op_priv (ms_op s))) (Some (ms_world s), ms_heap s) = (wd, hd)" by fastforce
    have hd: "h_live hd = h_live (ms_heap s) - sum_list (map part_blocks (mo_ops (op_priv (ms_op s))))"
      using discard_ops_live [OF d] by simp
    show ?thesis using res a o2 ps(2,3) d hd by (auto simp: meta_live_def split: if_splits)
  qed
  then show "groups_kept topo topo'"
    "r = Some op \<Longrightarrow> list_all2 (part_fits e topo') stages (mo_ops (op_priv op)) \<and> op_args op = args \<and> \<not> mo_triggered (op_priv op)"
    "list_all stage_frees stages \<Longrightarrow> h_live h' = h_live h + (topo_blocks topo' - topo_blocks topo) +
      (case r of None \<Rightarrow> 0 | Some op \<Rightarrow> 1 + sum_list (map part_blocks (mo_ops (op_priv op))))" by blast+
qed

end
