(* ===== verification/Meta_Colls.thy ===== *)
theory Meta_Colls
  imports Ucx_Meta
begin

text \<open>
  The node-aware and socket-aware barriers (\<open>src/src/planc/ucx/barrier/barrier_meta.c\<close> and
  \<open>barrier_{na,sa}_*.c\<close>) and the node-aware and net-aware broadcasts (\<open>bcast/bcast_meta.c\<close>, \<open>bcast_na_*.c\<close>,
  \<open>bcast_nta_kntree.c\<close>, \<open>bcast_bntree.c\<close>): a function of the same name for every function of the files.  The
  configuration of the context is an argument; one that lives on the stack is given as what the stack holds
  (\<open>stack\<close>).
\<close>

section \<open>Barrier\<close>

record ucg_planc_ucx_barrier_config =
  bar_fanin_inter_degree :: c_int
  bar_fanout_inter_degree :: c_int
  bar_fanin_intra_degree :: c_int
  bar_fanout_intra_degree :: c_int

definition ucg_planc_ucx_barrier_add_bcast_topo_group_op ::
    "ucg_coll_args \<Rightarrow> ucg_planc_ucx_bcast_config \<Rightarrow> ucg_topo_group_type \<Rightarrow> 'w meta_add" where
  "ucg_planc_ucx_barrier_add_bcast_topo_group_op args config type e =
     add_topo_group_op type Bcast_Kntree_Op
       (\<lambda>env vgroup. ucg_planc_ucx_bcast_kntree_op_new env (me_grp e) vgroup (me_blank e) args config) e"

definition ucg_planc_ucx_barrier_add_fanin_topo_group_op ::
    "ucg_coll_args \<Rightarrow> c_int \<Rightarrow> ucg_topo_group_type \<Rightarrow> 'w meta_add" where
  "ucg_planc_ucx_barrier_add_fanin_topo_group_op args kntree_degree type e =
     add_topo_group_op type Fanin_Kntree_Op
       (\<lambda>env vgroup. ucg_planc_ucx_fanin_kntree_op_new env (me_grp e) vgroup (me_blank e) args kntree_degree) e"

definition ucg_planc_ucx_barrier_add_fanin_kntree_op ::
    "ucg_planc_ucx_barrier_config \<Rightarrow> ucg_topo_group_type \<Rightarrow> 'w meta_add" where
  "ucg_planc_ucx_barrier_add_fanin_kntree_op config group_type =
     ucg_planc_ucx_barrier_add_fanin_topo_group_op (coll_args_zero UCG_COLL_TYPE_REDUCE)
       (if is_intra group_type then bar_fanin_intra_degree config else bar_fanin_inter_degree config) group_type"

definition ucg_planc_ucx_barrier_add_barrier_rd_op :: "ucg_coll_args \<Rightarrow> ucg_topo_group_type \<Rightarrow> 'w meta_add" where
  "ucg_planc_ucx_barrier_add_barrier_rd_op args group_type e =
     add_topo_group_op group_type Barrier_Rd_Op
       (\<lambda>env vgroup h w. Some (ucg_planc_ucx_barrier_rd_op_new env (me_grp e) vgroup (me_blank e) args h w)) e"

text \<open>A broadcast of nothing from rank 0; \<open>uint8\<close> is the predefined datatype.\<close>

definition fanout_args :: "ucg_dt_arg \<Rightarrow> ucg_coll_args" where
  "fanout_args uint8 =
     (coll_args_zero UCG_COLL_TYPE_BCAST)\<lparr>ca_recvbuf := C_NULL, ca_count := 0, ca_dt := Some uint8, ca_root := 0\<rparr>"

definition fanout_config :: "c_int \<Rightarrow> ucg_planc_ucx_bcast_config \<Rightarrow> ucg_planc_ucx_bcast_config" where
  "fanout_config degree stack = stack\<lparr>bc_kntree_degree := degree\<rparr>"

definition ucg_planc_ucx_barrier_add_fanout_kntree_op ::
    "ucg_dt_arg \<Rightarrow> ucg_planc_ucx_bcast_config \<Rightarrow> ucg_planc_ucx_barrier_config \<Rightarrow> ucg_topo_group_type \<Rightarrow> 'w meta_add" where
  "ucg_planc_ucx_barrier_add_fanout_kntree_op uint8 stack config group_type =
     ucg_planc_ucx_barrier_add_bcast_topo_group_op (fanout_args uint8)
       (fanout_config (if is_intra group_type then bar_fanout_intra_degree config else bar_fanout_inter_degree config) stack)
       group_type"

text \<open>What the barriers take from around them: the datatype, what the stack of the fan-out holds.\<close>

record barrier_env =
  be_uint8 :: ucg_dt_arg
  be_stack :: ucg_planc_ucx_bcast_config

type_synonym 'w meta_new =
  "(nat \<Rightarrow> 'w coll_env) \<Rightarrow> 'w meta_env \<Rightarrow> ucg_coll_args \<Rightarrow> ucg_topo \<Rightarrow> ucg_heap \<Rightarrow> 'w \<Rightarrow>
     (ucx_part meta_op option \<times> ucg_topo \<times> ucg_heap \<times> 'w) option"

type_synonym 'w meta_prepare =
  "(nat \<Rightarrow> 'w coll_env) \<Rightarrow> 'w meta_env \<Rightarrow> ucg_coll_args \<Rightarrow> ucg_topo \<Rightarrow> ucg_heap \<Rightarrow> 'w \<Rightarrow>
     ((ucg_status + ucx_part meta_op) \<times> ucg_topo \<times> ucg_heap \<times> 'w) option"

definition na_kntree_adds :: "barrier_env \<Rightarrow> ucg_planc_ucx_barrier_config \<Rightarrow> 'w meta_add list" where
  "na_kntree_adds b config =
     [ucg_planc_ucx_barrier_add_fanin_kntree_op config UCG_TOPO_GROUP_TYPE_NODE,
      ucg_planc_ucx_barrier_add_fanin_kntree_op config UCG_TOPO_GROUP_TYPE_NODE_LEADER,
      ucg_planc_ucx_barrier_add_fanout_kntree_op (be_uint8 b) (be_stack b) config UCG_TOPO_GROUP_TYPE_NODE_LEADER,
      ucg_planc_ucx_barrier_add_fanout_kntree_op (be_uint8 b) (be_stack b) config UCG_TOPO_GROUP_TYPE_NODE]"

definition ucg_planc_ucx_barrier_na_kntree_op_new :: "barrier_env \<Rightarrow> ucg_planc_ucx_barrier_config \<Rightarrow> 'w meta_new" where
  "ucg_planc_ucx_barrier_na_kntree_op_new b config envs e args = meta_op_build envs e args (\<lambda>_. na_kntree_adds b config)"

definition na_rd_adds :: "barrier_env \<Rightarrow> ucg_planc_ucx_barrier_config \<Rightarrow> ucg_coll_args \<Rightarrow> 'w meta_add list" where
  "na_rd_adds b config meta_args =
     [ucg_planc_ucx_barrier_add_fanin_kntree_op config UCG_TOPO_GROUP_TYPE_NODE,
      ucg_planc_ucx_barrier_add_barrier_rd_op meta_args UCG_TOPO_GROUP_TYPE_NODE_LEADER,
      ucg_planc_ucx_barrier_add_fanout_kntree_op (be_uint8 b) (be_stack b) config UCG_TOPO_GROUP_TYPE_NODE]"

definition ucg_planc_ucx_barrier_na_rd_and_kntree_op_new :: "barrier_env \<Rightarrow> ucg_planc_ucx_barrier_config \<Rightarrow> 'w meta_new" where
  "ucg_planc_ucx_barrier_na_rd_and_kntree_op_new b config envs e args = meta_op_build envs e args (na_rd_adds b config)"

definition ucg_planc_ucx_barrier_na_rd_and_bntree_op_new :: "barrier_env \<Rightarrow> ucg_planc_ucx_barrier_config \<Rightarrow> 'w meta_new" where
  "ucg_planc_ucx_barrier_na_rd_and_bntree_op_new b config envs e args = meta_op_build envs e args (na_rd_adds b config)"

definition sa_kntree_adds :: "barrier_env \<Rightarrow> ucg_planc_ucx_barrier_config \<Rightarrow> 'w meta_add list" where
  "sa_kntree_adds b config =
     [ucg_planc_ucx_barrier_add_fanin_kntree_op config UCG_TOPO_GROUP_TYPE_SOCKET,
      ucg_planc_ucx_barrier_add_fanin_kntree_op config UCG_TOPO_GROUP_TYPE_SOCKET_LEADER,
      ucg_planc_ucx_barrier_add_fanin_kntree_op config UCG_TOPO_GROUP_TYPE_NODE_LEADER,
      ucg_planc_ucx_barrier_add_fanout_kntree_op (be_uint8 b) (be_stack b) config UCG_TOPO_GROUP_TYPE_NODE_LEADER,
      ucg_planc_ucx_barrier_add_fanout_kntree_op (be_uint8 b) (be_stack b) config UCG_TOPO_GROUP_TYPE_SOCKET_LEADER,
      ucg_planc_ucx_barrier_add_fanout_kntree_op (be_uint8 b) (be_stack b) config UCG_TOPO_GROUP_TYPE_SOCKET]"

definition ucg_planc_ucx_barrier_sa_kntree_op_new :: "barrier_env \<Rightarrow> ucg_planc_ucx_barrier_config \<Rightarrow> 'w meta_new" where
  "ucg_planc_ucx_barrier_sa_kntree_op_new b config envs e args = meta_op_build envs e args (\<lambda>_. sa_kntree_adds b config)"

definition sa_rd_adds :: "barrier_env \<Rightarrow> ucg_planc_ucx_barrier_config \<Rightarrow> ucg_coll_args \<Rightarrow> 'w meta_add list" where
  "sa_rd_adds b config meta_args =
     [ucg_planc_ucx_barrier_add_fanin_kntree_op config UCG_TOPO_GROUP_TYPE_SOCKET,
      ucg_planc_ucx_barrier_add_fanin_kntree_op config UCG_TOPO_GROUP_TYPE_SOCKET_LEADER,
      ucg_planc_ucx_barrier_add_barrier_rd_op meta_args UCG_TOPO_GROUP_TYPE_NODE_LEADER,
      ucg_planc_ucx_barrier_add_fanout_kntree_op (be_uint8 b) (be_stack b) config UCG_TOPO_GROUP_TYPE_SOCKET_LEADER,
      ucg_planc_ucx_barrier_add_fanout_kntree_op (be_uint8 b) (be_stack b) config UCG_TOPO_GROUP_TYPE_SOCKET]"

definition ucg_planc_ucx_barrier_sa_rd_and_kntree_op_new :: "barrier_env \<Rightarrow> ucg_planc_ucx_barrier_config \<Rightarrow> 'w meta_new" where
  "ucg_planc_ucx_barrier_sa_rd_and_kntree_op_new b config envs e args = meta_op_build envs e args (sa_rd_adds b config)"

definition ucg_planc_ucx_barrier_sa_rd_and_bntree_op_new :: "barrier_env \<Rightarrow> ucg_planc_ucx_barrier_config \<Rightarrow> 'w meta_new" where
  "ucg_planc_ucx_barrier_sa_rd_and_bntree_op_new b config envs e args = meta_op_build envs e args (sa_rd_adds b config)"

text \<open>The checks: processes per node, and for the socket-aware ones also per socket, have to be known.\<close>

definition na_check :: "ucg_topo \<Rightarrow> ucg_status" where
  "na_check topo = (if \<not> topo_knows_ppn topo then UCG_ERR_UNSUPPORTED else UCG_OK)"

definition sa_check :: "ucg_topo \<Rightarrow> ucg_status" where
  "sa_check topo =
     (if \<not> topo_knows_ppn topo then UCG_ERR_UNSUPPORTED
      else if \<not> topo_knows_pps topo then UCG_ERR_UNSUPPORTED else UCG_OK)"

definition checked_prepare ::
    "(ucg_topo \<Rightarrow> ucg_status) \<Rightarrow> 'w meta_new \<Rightarrow> 'w meta_prepare" where
  "checked_prepare check new envs e args topo h w =
     (if check topo \<noteq> UCG_OK then Some (Inl UCG_ERR_UNSUPPORTED, topo, h, w)
      else meta_prepared (new envs e args topo h w))"

definition binary_config :: "ucg_planc_ucx_barrier_config \<Rightarrow> ucg_planc_ucx_barrier_config" where
  "binary_config stack = stack\<lparr>bar_fanin_intra_degree := 2, bar_fanout_intra_degree := 2\<rparr>"

definition ucg_planc_ucx_barrier_na_kntree_prepare :: "barrier_env \<Rightarrow> ucg_planc_ucx_barrier_config \<Rightarrow> 'w meta_prepare" where
  "ucg_planc_ucx_barrier_na_kntree_prepare b config =
     checked_prepare na_check (ucg_planc_ucx_barrier_na_kntree_op_new b config)"

definition ucg_planc_ucx_barrier_na_rd_and_kntree_prepare :: "barrier_env \<Rightarrow> ucg_planc_ucx_barrier_config \<Rightarrow> 'w meta_prepare" where
  "ucg_planc_ucx_barrier_na_rd_and_kntree_prepare b config =
     checked_prepare na_check (ucg_planc_ucx_barrier_na_rd_and_kntree_op_new b config)"

definition ucg_planc_ucx_barrier_na_rd_and_bntree_prepare :: "barrier_env \<Rightarrow> ucg_planc_ucx_barrier_config \<Rightarrow> 'w meta_prepare" where
  "ucg_planc_ucx_barrier_na_rd_and_bntree_prepare b stack =
     checked_prepare na_check (ucg_planc_ucx_barrier_na_rd_and_bntree_op_new b (binary_config stack))"

definition ucg_planc_ucx_barrier_sa_kntree_prepare :: "barrier_env \<Rightarrow> ucg_planc_ucx_barrier_config \<Rightarrow> 'w meta_prepare" where
  "ucg_planc_ucx_barrier_sa_kntree_prepare b config =
     checked_prepare sa_check (ucg_planc_ucx_barrier_sa_kntree_op_new b config)"

definition ucg_planc_ucx_barrier_sa_rd_and_kntree_prepare :: "barrier_env \<Rightarrow> ucg_planc_ucx_barrier_config \<Rightarrow> 'w meta_prepare" where
  "ucg_planc_ucx_barrier_sa_rd_and_kntree_prepare b config =
     checked_prepare sa_check (ucg_planc_ucx_barrier_sa_rd_and_kntree_op_new b config)"

definition ucg_planc_ucx_barrier_sa_rd_and_bntree_prepare :: "barrier_env \<Rightarrow> ucg_planc_ucx_barrier_config \<Rightarrow> 'w meta_prepare" where
  "ucg_planc_ucx_barrier_sa_rd_and_bntree_prepare b stack =
     checked_prepare sa_check (ucg_planc_ucx_barrier_sa_rd_and_bntree_op_new b (binary_config stack))"

section \<open>Broadcast\<close>

definition ucg_planc_ucx_bcast_add_adjust_root_op :: "ucg_coll_args \<Rightarrow> ucg_planc_ucx_bcast_config \<Rightarrow> 'w meta_add" where
  "ucg_planc_ucx_bcast_add_adjust_root_op args config e s =
     (let root = ca_root args; myrank = ce_myrank (me_env e) in
      if root = 0 \<or> \<not> bc_root_adjust config then Some (UCG_OK, s)
      else if myrank \<noteq> 0 \<and> myrank \<noteq> root then ucg_planc_ucx_add_empty_op e s
      else Some (meta_add_part Bcast_Adjust_Root_Op
             (ucg_planc_ucx_bcast_adjust_root_op_new (me_env e) (me_grp e) (me_vgroup e) (me_blank e) args (ms_heap s) (ms_world s)) s))"

text \<open>The arguments are changed for the call of \<open>op_new\<close> and changed back.\<close>

definition ucg_planc_ucx_bcast_add_topo_group_kntree_op ::
    "ucg_coll_args \<Rightarrow> ucg_planc_ucx_bcast_config \<Rightarrow> ucg_topo_group_type \<Rightarrow> 'w meta_add" where
  "ucg_planc_ucx_bcast_add_topo_group_kntree_op args config type e =
     (let adjust_args = (if ca_root args \<noteq> 0 \<and> bc_root_adjust config then args\<lparr>ca_root := 0\<rparr> else args) in
      add_topo_group_op type Bcast_Kntree_Op
        (\<lambda>env vgroup. ucg_planc_ucx_bcast_kntree_op_new env (me_grp e) vgroup (me_blank e) adjust_args config) e)"

definition kntree_config :: "c_int \<Rightarrow> ucg_planc_ucx_bcast_config \<Rightarrow> ucg_planc_ucx_bcast_config \<Rightarrow> ucg_planc_ucx_bcast_config" where
  "kntree_config degree config stack = stack\<lparr>bc_root_adjust := bc_root_adjust config, bc_kntree_degree := degree\<rparr>"

definition ucg_planc_ucx_bcast_add_inter_node_op ::
    "ucg_planc_ucx_bcast_config \<Rightarrow> ucg_coll_args \<Rightarrow> ucg_planc_ucx_bcast_config \<Rightarrow> 'w meta_add" where
  "ucg_planc_ucx_bcast_add_inter_node_op stack args config =
     ucg_planc_ucx_bcast_add_topo_group_kntree_op args (kntree_config (bc_na_kntree_inter_degree config) config stack)
       UCG_TOPO_GROUP_TYPE_NODE_LEADER"

definition ucg_planc_ucx_bcast_add_intra_node_op ::
    "ucg_planc_ucx_bcast_config \<Rightarrow> ucg_coll_args \<Rightarrow> ucg_planc_ucx_bcast_config \<Rightarrow> 'w meta_add" where
  "ucg_planc_ucx_bcast_add_intra_node_op stack args config =
     ucg_planc_ucx_bcast_add_topo_group_kntree_op args (kntree_config (bc_na_kntree_intra_degree config) config stack)
       UCG_TOPO_GROUP_TYPE_NODE"

definition ucg_planc_ucx_bcast_add_inter_subnet_op ::
    "ucg_planc_ucx_bcast_config \<Rightarrow> ucg_coll_args \<Rightarrow> ucg_planc_ucx_bcast_config \<Rightarrow> 'w meta_add" where
  "ucg_planc_ucx_bcast_add_inter_subnet_op stack args config =
     ucg_planc_ucx_bcast_add_topo_group_kntree_op args (kntree_config (bc_nta_kntree_inter_degree config) config stack)
       UCG_TOPO_GROUP_TYPE_SUBNET_LEADER"

definition ucg_planc_ucx_bcast_add_intra_subnet_op ::
    "ucg_planc_ucx_bcast_config \<Rightarrow> ucg_coll_args \<Rightarrow> ucg_planc_ucx_bcast_config \<Rightarrow> 'w meta_add" where
  "ucg_planc_ucx_bcast_add_intra_subnet_op stack args config =
     ucg_planc_ucx_bcast_add_topo_group_kntree_op args (kntree_config (bc_nta_kntree_intra_degree config) config stack)
       UCG_TOPO_GROUP_TYPE_SUBNET"

text \<open>
  The configuration is changed for the time of the calls.  It is part of the result: it is changed back on
  success only, and left alone if there is no memory for the meta operation.
\<close>

definition adjusted_build ::
    "(ucg_planc_ucx_bcast_config \<Rightarrow> 'w meta_add list) \<Rightarrow> ucg_planc_ucx_bcast_config \<Rightarrow> (nat \<Rightarrow> 'w coll_env) \<Rightarrow> 'w meta_env \<Rightarrow>
     ucg_coll_args \<Rightarrow> ucg_topo \<Rightarrow> ucg_heap \<Rightarrow> 'w \<Rightarrow>
     ((ucx_part meta_op option \<times> ucg_topo \<times> ucg_heap \<times> 'w) \<times> ucg_planc_ucx_bcast_config) option" where
  "adjusted_build adds config envs e args topo h w =
     (let adjust_config = config\<lparr>bc_root_adjust := True\<rparr> in
      if \<not> fst (heap_alloc h) then Some ((None, topo, snd (heap_alloc h), w), config)
      else do { r \<leftarrow> meta_op_build envs e args (\<lambda>_. adds adjust_config) topo h w;
                Some (r, if fst r \<noteq> None then config else adjust_config) })"

definition na_bcast_adds ::
    "ucg_planc_ucx_bcast_config \<Rightarrow> ucg_coll_args \<Rightarrow> ucg_planc_ucx_bcast_config \<Rightarrow> 'w meta_add list" where
  "na_bcast_adds stack args config =
     [ucg_planc_ucx_bcast_add_adjust_root_op args config,
      ucg_planc_ucx_bcast_add_inter_node_op stack args config,
      ucg_planc_ucx_bcast_add_intra_node_op stack args config]"

definition ucg_planc_ucx_bcast_na_kntree_op_new ::
    "ucg_planc_ucx_bcast_config \<Rightarrow> ucg_planc_ucx_bcast_config \<Rightarrow> (nat \<Rightarrow> 'w coll_env) \<Rightarrow> 'w meta_env \<Rightarrow>
     ucg_coll_args \<Rightarrow> ucg_topo \<Rightarrow> ucg_heap \<Rightarrow> 'w \<Rightarrow>
     ((ucx_part meta_op option \<times> ucg_topo \<times> ucg_heap \<times> 'w) \<times> ucg_planc_ucx_bcast_config) option" where
  "ucg_planc_ucx_bcast_na_kntree_op_new stack config envs e args =
     adjusted_build (na_bcast_adds stack args) config envs e args"

definition nta_bcast_adds ::
    "ucg_planc_ucx_bcast_config \<Rightarrow> ucg_coll_args \<Rightarrow> ucg_planc_ucx_bcast_config \<Rightarrow> 'w meta_add list" where
  "nta_bcast_adds stack args config =
     [ucg_planc_ucx_bcast_add_adjust_root_op args config,
      ucg_planc_ucx_bcast_add_inter_subnet_op stack args config,
      ucg_planc_ucx_bcast_add_intra_subnet_op stack args config]"

definition ucg_planc_ucx_bcast_nta_kntree_op_new ::
    "ucg_planc_ucx_bcast_config \<Rightarrow> ucg_planc_ucx_bcast_config \<Rightarrow> (nat \<Rightarrow> 'w coll_env) \<Rightarrow> 'w meta_env \<Rightarrow>
     ucg_coll_args \<Rightarrow> ucg_topo \<Rightarrow> ucg_heap \<Rightarrow> 'w \<Rightarrow>
     ((ucx_part meta_op option \<times> ucg_topo \<times> ucg_heap \<times> 'w) \<times> ucg_planc_ucx_bcast_config) option" where
  "ucg_planc_ucx_bcast_nta_kntree_op_new stack config envs e args =
     adjusted_build (nta_bcast_adds stack args) config envs e args"

text \<open>The first two hand on the configuration of the context, which is part of the result; the others have one of their own.\<close>

type_synonym 'w bcast_prepare =
  "(nat \<Rightarrow> 'w coll_env) \<Rightarrow> 'w meta_env \<Rightarrow> ucg_coll_args \<Rightarrow> ucg_topo \<Rightarrow> ucg_heap \<Rightarrow> 'w \<Rightarrow>
     (((ucg_status + ucx_part meta_op) \<times> ucg_topo \<times> ucg_heap \<times> 'w) \<times> ucg_planc_ucx_bcast_config) option"

definition bcast_prepared ::
    "((ucx_part meta_op option \<times> ucg_topo \<times> ucg_heap \<times> 'w) \<times> ucg_planc_ucx_bcast_config) option \<Rightarrow>
     (((ucg_status + ucx_part meta_op) \<times> ucg_topo \<times> ucg_heap \<times> 'w) \<times> ucg_planc_ucx_bcast_config) option" where
  "bcast_prepared r =
     do { (r, config) \<leftarrow> r; r \<leftarrow> meta_prepared (Some r); Some (r, config) }"

definition ucg_planc_ucx_bcast_na_kntree_prepare ::
    "ucg_planc_ucx_bcast_config \<Rightarrow> ucg_planc_ucx_bcast_config \<Rightarrow> 'w bcast_prepare" where
  "ucg_planc_ucx_bcast_na_kntree_prepare stack config envs e args topo h w =
     (if na_check topo \<noteq> UCG_OK then Some ((Inl UCG_ERR_UNSUPPORTED, topo, h, w), config)
      else bcast_prepared (ucg_planc_ucx_bcast_na_kntree_op_new stack config envs e args topo h w))"

definition ucg_planc_ucx_bcast_nta_kntree_prepare ::
    "ucg_planc_ucx_bcast_config \<Rightarrow> ucg_planc_ucx_bcast_config \<Rightarrow> 'w bcast_prepare" where
  "ucg_planc_ucx_bcast_nta_kntree_prepare stack config envs e args topo h w =
     bcast_prepared (ucg_planc_ucx_bcast_nta_kntree_op_new stack config envs e args topo h w)"

definition ucg_planc_ucx_bcast_na_bntree_prepare ::
    "ucg_planc_ucx_bcast_config \<Rightarrow> ucg_planc_ucx_bcast_config \<Rightarrow> ucg_planc_ucx_bcast_config \<Rightarrow> 'w meta_prepare" where
  "ucg_planc_ucx_bcast_na_bntree_prepare stack stack2 bcast_config envs e args topo h w =
     (if na_check topo \<noteq> UCG_OK then Some (Inl UCG_ERR_UNSUPPORTED, topo, h, w)
      else let config = stack2\<lparr>bc_na_kntree_inter_degree := 2, bc_na_kntree_intra_degree := 2,
                               bc_root_adjust := bc_root_adjust bcast_config\<rparr>
           in map_option fst (bcast_prepared (ucg_planc_ucx_bcast_na_kntree_op_new stack config envs e args topo h w)))"

definition ucg_planc_ucx_bcast_na_kntree_and_bntree_prepare ::
    "ucg_planc_ucx_bcast_config \<Rightarrow> ucg_planc_ucx_bcast_config \<Rightarrow> ucg_planc_ucx_bcast_config \<Rightarrow> 'w meta_prepare" where
  "ucg_planc_ucx_bcast_na_kntree_and_bntree_prepare stack stack2 bcast_config envs e args topo h w =
     (if na_check topo \<noteq> UCG_OK then Some (Inl UCG_ERR_UNSUPPORTED, topo, h, w)
      else let config = stack2\<lparr>bc_na_kntree_inter_degree := bc_na_kntree_inter_degree bcast_config,
                               bc_na_kntree_intra_degree := 2, bc_root_adjust := bc_root_adjust bcast_config\<rparr>
           in map_option fst (bcast_prepared (ucg_planc_ucx_bcast_na_kntree_op_new stack config envs e args topo h w)))"

definition ucg_planc_ucx_bcast_bntree_prepare ::
    "'w coll_env \<Rightarrow> nat \<Rightarrow> nat \<Rightarrow> ucx_coll \<Rightarrow> ucg_planc_ucx_bcast_config \<Rightarrow> ucg_planc_ucx_bcast_config \<Rightarrow> ucg_coll_args \<Rightarrow>
     ucg_heap \<Rightarrow> 'w \<Rightarrow> ((ucg_status + ucx_op) \<times> ucg_heap \<times> 'w) option" where
  "ucg_planc_ucx_bcast_bntree_prepare env grp vgroup blank stack bcast_config args h w =
     do { (op, h, w) \<leftarrow> ucg_planc_ucx_bcast_kntree_op_new env grp vgroup blank args
            (stack\<lparr>bc_kntree_degree := 2, bc_root_adjust := bc_root_adjust bcast_config\<rparr>) h w;
          Some (case op of None \<Rightarrow> (Inl UCG_ERR_NO_MEMORY, h, w) | Some op \<Rightarrow> (Inr op, h, w)) }"

end
