(* ===== verification/Meta_Spec.thy ===== *)
theory Meta_Spec
  imports Meta_Build Meta_Colls Coll_Net
begin

text \<open>
  What the composed barriers and broadcasts are made of.  The functions of \<open>barrier_meta.c\<close> and \<open>bcast_meta.c\<close> add the
  operation of a stage; the meta operations that the compositions build have one operation for each of their stages,
  whichever groups the process is in, and own exactly the memory that discarding them gives back.
\<close>

section \<open>The operations of the stages\<close>












section \<open>The compositions\<close>












section \<open>An example\<close>





declare kntree_leftmost_while.simps [code]
declare kntree_rightmost_while.simps [code]
declare kntree_find_parent.simps [code]




end
