(* ===== verification/Fanin_Script.thy ===== *)
theory Fanin_Script
  imports Meta_Parts Barrier_Script Bcast_Script
begin

text \<open>The fan-in follows its script: a message from every child, and then one to the parent.\<close>

subsection \<open>The iterator\<close>

definition fanin_iter :: "c_int \<Rightarrow> c_int \<Rightarrow> ucg_rank_t \<Rightarrow> ucg_algo_kntree_iter" where
  "fanin_iter n degree r = the (ucg_algo_kntree_iter_init n degree 0 r False)"

definition fanin_kids :: "c_int \<Rightarrow> c_int \<Rightarrow> ucg_rank_t \<Rightarrow> ucg_rank_t list" where
  "fanin_kids n degree r = the (kntree_children_of n degree 0 False r)"

definition fanin_up :: "c_int \<Rightarrow> c_int \<Rightarrow> ucg_rank_t \<Rightarrow> ucg_rank_t" where
  "fanin_up n degree r = the (kntree_parent_of n degree 0 False r)"

text \<open>A reset iterator is as good as a new one, and walks over the children.\<close>

lemma fanin_iter:
  assumes args: "kntree_args n degree 0" and r: "r \<in> {0..<n}"
  shows "ucg_algo_kntree_iter_init n degree 0 r False = Some (fanin_iter n degree r)"
    and "kn_same_tree (fanin_iter n degree r) it \<Longrightarrow> ucg_algo_kntree_iter_reset it = Some (fanin_iter n degree r)"
    and "kn_parent (fanin_iter n degree r) = fanin_up n degree r"
    and "kn_before (fanin_iter n degree r) (fanin_kids n degree r)"
    and "kn_root (fanin_iter n degree r) = 0" and "kn_size (fanin_iter n degree r) = n"
proof -
  have r': "0 \<le> r" "r < n" using r by simp_all
  let ?d = "kntree_adjust_degree n degree" and ?m = "kntree_level n degree 0 r"
  let ?kids = "kt_kids ?d n r ?m"
  have n: "0 < n" "2 \<le> n" using args by (simp_all add: kntree_args_def)
  have d: "2 \<le> ?d" by (rule kntree_adjust_degree_ge [OF n(2)])
  have vm: "(r - 0 + n) smod n = r" "(r - 0) mod n = r" using r' n by (simp_all add: smod_nonneg)
  obtain it0 where it0: "ucg_algo_kntree_iter_init n degree 0 r False = Some it0" "kt_is_level ?d n r ?m"
    "kn_size it0 = n" "kn_degree it0 = ?d" "kn_root it0 = 0"
    using kntree_init [OF args r', of False] unfolding vm by metis
  have e: "fanin_iter n degree r = it0" by (simp add: fanin_iter_def it0(1))
  show "ucg_algo_kntree_iter_init n degree 0 r False = Some (fanin_iter n degree r)" "kn_root (fanin_iter n degree r) = 0"
    "kn_size (fanin_iter n degree r) = n" unfolding e by (fact it0)+
  show "kn_parent (fanin_iter n degree r) = fanin_up n degree r"
    unfolding e by (simp add: fanin_up_def kntree_parent_of_def ucg_algo_kntree_iter_parent_value_def it0(1))
  obtain m p where fp: "kntree_find_parent n ?d 0 r 1 = Some (p, ?d ^ m)" and lv: "kt_is_level ?d n r m"
    using kntree_find_parent_level [of ?d r n 0 0] d r' by auto
  have m: "m = ?m" using lv it0(2) by (rule kt_level_unique)
  let ?rec = "\<lparr>kn_size = n, kn_degree = ?d, kn_root = 0, kn_myrank = r, kn_leftmost = False, kn_max_subsize = ?d ^ m,
    kn_subsize = 1, kn_child_idx = 1, kn_parent = p, kn_child = UCG_INVALID_RANK\<rparr>"
  have init: "ucg_algo_kntree_iter_update ?rec = Some it0"
    using it0(1) fp vm(1) by (simp add: ucg_algo_kntree_iter_init_def Let_def)
  have "kn_at ?rec (rev ?kids)" using kn_right_at_full [of ?rec m] m by (simp add: kn_at_def)
  from kn_update [OF _ this] d init have y: "kn_yields kn_at ?rec (Some it0) (rev ?kids)" by simp
  have st: "kn_same_tree ?rec it0" using y by (simp add: kn_yields_def)
  show "ucg_algo_kntree_iter_reset it = Some (fanin_iter n degree r)" if it: "kn_same_tree (fanin_iter n degree r) it"
  proof -
    have "kn_same_tree ?rec it" using st it unfolding e by (rule kn_same_tree_trans)
    note f = kn_same_tree_fields [OF this]
    have "it\<lparr>kn_subsize := (if kn_leftmost it then kn_max_subsize it else 1), kn_child := UCG_INVALID_RANK, kn_child_idx := 1\<rparr> = ?rec"
      using f by (cases it) simp
    then show ?thesis unfolding ucg_algo_kntree_iter_reset_def using init e by simp
  qed
  have range: "0 \<le> c \<and> c < n" if "c \<in> set ?kids" for c using kt_kids_range [OF d r'(1) that] r' by linarith
  have kids: "fanin_kids n degree r = rev ?kids"
  proof -
    have "map (\<lambda>c. (c + 0) mod n) (rev ?kids) = rev ?kids" by (rule map_idI) (use range in simp)
    then show ?thesis by (simp add: fanin_kids_def kntree_children_eq [OF args r'] vm(2) [simplified] Let_def)
  qed
  have "kn_yields kn_at it0 (Some it0) (rev ?kids)"
    using y kn_same_tree_fields [OF st] by (cases "rev ?kids") (auto simp: kn_yields_def intro: kn_same_treeI)
  then show "kn_before (fanin_iter n degree r) (fanin_kids n degree r)"
    unfolding e kids using it0(3-5) d n range by (simp add: kn_before_def)
qed

lemma fanin_kids_ranks:
  assumes "kntree_args n degree 0" and "r \<in> {0..<n}"
  shows "set (fanin_kids n degree r) \<subseteq> {0..<n}"
    and "c \<in> {0..<n} \<Longrightarrow> c \<in> set (fanin_kids n degree r) \<longleftrightarrow> c \<noteq> 0 \<and> fanin_up n degree c = r"
    and "r \<noteq> 0 \<Longrightarrow> fanin_up n degree r \<in> {0..<n}"
    and "fanin_up n degree r = UCG_INVALID_RANK \<longleftrightarrow> r = 0"
proof -
  let ?g = "(n, degree, 0, False)"
  have r: "0 \<le> r" "r < n" using assms(2) by simp_all
  show "set (fanin_kids n degree r) \<subseteq> {0..<n}" using kt.children_ranks [of ?g r] assms by (simp add: fanin_kids_def)
  show "c \<in> {0..<n} \<Longrightarrow> c \<in> set (fanin_kids n degree r) \<longleftrightarrow> c \<noteq> 0 \<and> fanin_up n degree c = r"
    using kt.child_iff_parent [of ?g r c] assms by (simp add: fanin_kids_def fanin_up_def)
  show up: "r \<noteq> 0 \<Longrightarrow> fanin_up n degree r \<in> {0..<n}" using kt.parent_rank [of ?g r] assms by (simp add: fanin_up_def)
  show "fanin_up n degree r = UCG_INVALID_RANK \<longleftrightarrow> r = 0"
  proof (cases "r = 0")
    case True
    then show ?thesis using kntree_parent_eq [OF assms(1) r, of False] by (simp add: fanin_up_def)
  qed (use up in auto)
qed

subsection \<open>The script\<close>

definition fanin_acts :: "c_buf \<Rightarrow> c_int \<Rightarrow> c_int \<Rightarrow> ucg_rank_t \<Rightarrow> coll_act list" where
  "fanin_acts b n degree r =
     map (\<lambda>c. Rcv c b) (fanin_kids n degree r) @ Wait # (if r = 0 then [] else [Snd (fanin_up n degree r) b, Wait])"

lemma fanin_acts_wait:
  assumes "i < length (fanin_acts b n degree r)"
  shows "fanin_acts b n degree r ! i = Wait \<longleftrightarrow> i = length (fanin_kids n degree r) \<or> r \<noteq> 0 \<and> i = length (fanin_kids n degree r) + 2"
proof (cases "i < length (fanin_kids n degree r)")
  case True
  then show ?thesis by (simp add: fanin_acts_def nth_append)
next
  case False
  then obtain j where "i = length (fanin_kids n degree r) + j" by (metis le_add_diff_inverse not_less)
  then show ?thesis using assms by (auto simp: fanin_acts_def nth_append nth_Cons less_Suc_eq numeral_2_eq_2 split: nat.splits if_splits)
qed

subsection \<open>Where an operation stands\<close>

definition fanin_frame :: "c_int \<Rightarrow> u64 \<Rightarrow> ucg_algo_kntree_iter \<Rightarrow> ucx_op \<Rightarrow> bool" where
  "fanin_frame tag fl it0 op \<longleftrightarrow> op_tag op = tag \<and> op_flags op = fl \<and> kn_same_tree it0 (uo_kntree_iter (op_priv op))"

lemmas fanin_flag_defs = ucg_test_flags_def ucg_clear_flags_def ucg_test_and_clear_flags_def UCG_FANIN_RECV_FROM_CHILD_def
  UCG_FANIN_RECV_FROM_CHILD_RECV_def UCG_FANIN_SEND_TO_PARENT_def UCG_FANIN_SEND_TO_PARENT_SEND_def

text \<open>The receives of all children have been posted.\<close>

definition fanin_posted :: "c_int \<Rightarrow> u64 \<Rightarrow> ucg_algo_kntree_iter \<Rightarrow> ucx_op \<Rightarrow> bool" where
  "fanin_posted tag fl it0 op \<longleftrightarrow> fanin_frame tag fl it0 op \<and> kn_child (uo_kntree_iter (op_priv op)) = UCG_INVALID_RANK"

lemma fanin_recv_step:
  assumes "ucg_algo_kntree_iter_child_value (uo_kntree_iter (op_priv op)) = p" and "p \<noteq> UCG_INVALID_RANK"
    and "ucg_test_flags (op_flags op) UCG_FANIN_RECV_FROM_CHILD_RECV"
    and "ucg_algo_kntree_iter_child_inc (uo_kntree_iter (op_priv op)) = Some it'"
  shows "fanin_kntree_recv_children env op w =
    steps [\<lambda>_. barrier_irecv env p (set_flags (ucg_clear_flags (op_flags op) UCG_FANIN_RECV_FROM_CHILD_RECV) op),
      \<lambda>op. fanin_kntree_recv_children env
        (upd_priv (\<lambda>p. p\<lparr>uo_kntree_iter := it', uo_flags := uo_flags p OR UCG_FANIN_RECV_FROM_CHILD_RECV\<rparr>) op)] op w"
  using assms unfolding steps.simps(2) [of _ "[_]"] steps_single
  by (subst fanin_kntree_recv_children.simps)
    (simp add: Let_def if_flag_once_def ucg_test_and_clear_flags_def barrier_irecv_def call_step_def split: option.split Option.bind_split)

lemma follows_recv_children:
  assumes "fanin_frame tag 0xF it0 op" and "kn_before (uo_kntree_iter (op_priv op)) rest"
    and "kn_root it0 = 0" and "kn_size it0 = n" and "set rest \<subseteq> {0..<n}"
  shows "follows env tag (map (\<lambda>c. Rcv c (no_data env)) rest)
    (\<lambda>k op'. k = length rest \<longrightarrow> fanin_posted tag 0xF it0 op') (fanin_kntree_recv_children env) op"
  using assms(1,2,5)
proof (induction rest arbitrary: op)
  case Nil
  then have c: "kn_child (uo_kntree_iter (op_priv op)) = UCG_INVALID_RANK" using kn_before_step by blast
  then have "fanin_kntree_recv_children env op w = Some (UCG_OK, op, w)" for w
    by (subst fanin_kntree_recv_children.simps) (simp add: ucg_algo_kntree_iter_child_value_def)
  then show ?case using Nil(1) c by (simp add: follows_def fanin_posted_def)
next
  case (Cons c cs)
  let ?it = "uo_kntree_iter (op_priv op)"
  from kn_before_step [OF Cons.prems(2)] obtain it' where it': "kn_child ?it = (c + kn_root ?it) mod kn_size ?it"
    "kn_child ?it \<noteq> UCG_INVALID_RANK" "ucg_algo_kntree_iter_child_inc ?it = Some it'" "kn_same_tree ?it it'" "kn_before it' cs"
    by auto
  have st: "kn_same_tree it0 ?it" and fl: "op_flags op = 0xF" and tg: "op_tag op = tag" using Cons.prems(1) by (simp_all add: fanin_frame_def)
  have p: "kn_child ?it = c" using it'(1) kn_same_tree_fields [OF st] assms(3,4) Cons.prems(3) by simp
  have v: "ucg_algo_kntree_iter_child_value ?it = c" "c \<noteq> UCG_INVALID_RANK"
    using it'(2) p by (simp_all add: ucg_algo_kntree_iter_child_value_def)
  have t: "ucg_test_flags (op_flags op) UCG_FANIN_RECV_FROM_CHILD_RECV" by (simp add: fl fanin_flag_defs)
  let ?op1 = "set_flags (ucg_clear_flags (op_flags op) UCG_FANIN_RECV_FROM_CHILD_RECV) op"
  let ?next = "upd_priv (\<lambda>p. p\<lparr>uo_kntree_iter := it', uo_flags := uo_flags p OR UCG_FANIN_RECV_FROM_CHILD_RECV\<rparr>)"
  have f: "follows env tag (Rcv c (no_data env) # map (\<lambda>c. Rcv c (no_data env)) cs)
      (\<lambda>k op'. k = length (c # cs) \<longrightarrow> fanin_posted tag 0xF it0 op')
      (steps [\<lambda>_. barrier_irecv env c ?op1, \<lambda>op. fanin_kntree_recv_children env (?next op)]) op"
  proof (rule follows_act [where op' = ?op1])
    show "barrier_irecv env c ?op1 w = (case perform env tag (Rcv c (no_data env)) w of None \<Rightarrow> None | Some (st, w') \<Rightarrow> Some (st, ?op1, w'))" for w
      by (simp add: barrier_irecv_def call_step_def tg split: option.split)
    have "follows env tag (map (\<lambda>c. Rcv c (no_data env)) cs) (\<lambda>k op'. k = length cs \<longrightarrow> fanin_posted tag 0xF it0 op')
        (fanin_kntree_recv_children env) (?next ?op1)"
    proof (rule Cons.IH)
      show "fanin_frame tag 0xF it0 (?next ?op1)"
        using tg fl kn_same_tree_trans [OF st it'(4)] by (simp add: fanin_frame_def fanin_flag_defs)
    qed (use it'(5) Cons.prems(3) in simp_all)
    then show "follows env tag (map (\<lambda>c. Rcv c (no_data env)) cs) (\<lambda>k op'. Suc k = length (c # cs) \<longrightarrow> fanin_posted tag 0xF it0 op')
        (steps [\<lambda>op. fanin_kntree_recv_children env (?next op)]) ?op1"
      by (intro follows_one follows_comp [where g = "fanin_kntree_recv_children env" and h = ?next]) simp
  qed simp
  show ?case unfolding list.map by (rule follows_cong [OF _ f]) (rule ext, rule fanin_recv_step [OF v t it'(3)])
qed

subsection \<open>The stages\<close>

lemma fanin_frame_parent: "fanin_frame tag fl it0 op \<Longrightarrow> kn_parent (uo_kntree_iter (op_priv op)) = kn_parent it0"
  by (auto simp: fanin_frame_def dest: kn_same_tree_fields)

lemma fanin_posted_before:
  assumes "fanin_posted tag fl it0 op" and "kn_before it0 kids"
  shows "kn_before (uo_kntree_iter (op_priv op)) []"
  using assms kn_same_tree_fields [of it0 "uo_kntree_iter (op_priv op)"]
  by (auto simp: fanin_posted_def fanin_frame_def kn_before_def kn_yields_def kn_same_tree_refl)

lemma follows_fanin_recv:
  assumes "fanin_frame tag 0xF it0 op" and "kn_before (uo_kntree_iter (op_priv op)) rest"
    and "kn_root it0 = 0" and "kn_size it0 = n" and "set rest \<subseteq> {0..<n}"
  shows "follows env tag (map (\<lambda>c. Rcv c (no_data env)) rest @ [Wait]) (\<lambda>k op'. length rest \<le> k \<longrightarrow> fanin_posted tag 0xF it0 op')
    (ucg_planc_ucx_fanin_kntree_op_recv env) op"
  unfolding ucg_planc_ucx_fanin_kntree_op_recv_def
proof (rule follows_seq [OF follows_recv_children [OF assms], where ats = "\<lambda>_. fanin_posted tag 0xF it0"])
  fix op' assume "length (map (\<lambda>c. Rcv c (no_data env)) rest) = length rest \<longrightarrow> fanin_posted tag 0xF it0 op'"
  then have d: "fanin_posted tag 0xF it0 op'" by simp
  show "follows env tag [Wait] (\<lambda>_. fanin_posted tag 0xF it0) (steps [call_step (ce_testall env)]) op'"
    by (intro follows_one follows_call) (use d in simp_all)
qed auto

lemma follows_fanin_wait:
  assumes "fanin_frame tag 0x6 it0 op" and "kn_parent it0 = p" and "p \<noteq> UCG_INVALID_RANK"
  shows "follows env tag [Wait] (\<lambda>_. fanin_frame tag 0x6 it0) (ucg_planc_ucx_fanin_kntree_op_send env) op"
proof -
  have p: "kn_parent (uo_kntree_iter (op_priv op)) = p" using fanin_frame_parent [OF assms(1)] assms(2) by simp
  have "\<not> ucg_test_flags (op_flags op) UCG_FANIN_SEND_TO_PARENT_SEND" using assms(1) by (simp add: fanin_frame_def fanin_flag_defs)
  then show ?thesis using assms(1,3) p
    by (simp add: follows_def ucg_planc_ucx_fanin_kntree_op_send_def ucg_algo_kntree_iter_parent_value_def if_flag_once_def
      ucg_test_and_clear_flags_def call_step_def split: option.splits Option.bind_split)
qed

lemma follows_fanin_send:
  assumes "fanin_frame tag 0xE it0 op" and "kn_parent it0 = p" and "p \<noteq> UCG_INVALID_RANK"
  shows "follows env tag [Snd p (no_data env), Wait] (\<lambda>k op'. 1 \<le> k \<longrightarrow> fanin_frame tag 0x6 it0 op') (ucg_planc_ucx_fanin_kntree_op_send env) op"
proof -
  have p: "kn_parent (uo_kntree_iter (op_priv op)) = p" using fanin_frame_parent [OF assms(1)] assms(2) by simp
  have t: "ucg_test_flags (op_flags op) UCG_FANIN_SEND_TO_PARENT_SEND" "ucg_clear_flags (op_flags op) UCG_FANIN_SEND_TO_PARENT_SEND = 0x6"
    using assms(1) by (simp_all add: fanin_frame_def fanin_flag_defs)
  show ?thesis using assms(1,3) p t
    by (simp add: follows_def ucg_planc_ucx_fanin_kntree_op_send_def ucg_algo_kntree_iter_parent_value_def if_flag_once_def
      ucg_test_and_clear_flags_def call_step_def barrier_isend_def fanin_frame_def split: option.splits Option.bind_split)
qed

text \<open>The last stage, with what it leaves at its test.\<close>

abbreviation fanin_send_steps :: "'w coll_env \<Rightarrow> 'w step list" where
  "fanin_send_steps env \<equiv> [if_flag_until_done UCG_FANIN_SEND_TO_PARENT (ucg_planc_ucx_fanin_kntree_op_send env)]"

lemma follows_fanin_send_stage:
  assumes "follows env tag as (\<lambda>k op'. j \<le> k \<longrightarrow> fanin_frame tag 0x6 it0 op') (ucg_planc_ucx_fanin_kntree_op_send env) op"
    and "ucg_test_flags (op_flags op) UCG_FANIN_SEND_TO_PARENT"
  shows "follows env tag as (\<lambda>k op'. j \<le> k \<and> k < length as \<longrightarrow> fanin_frame tag 0x6 it0 op') (steps (fanin_send_steps env)) op"
proof (rule follows_until_done_seq [OF assms(2)])
  let ?clear = "op_step (\<lambda>op. set_flags (ucg_clear_flags (op_flags op) UCG_FANIN_SEND_TO_PARENT) op)"
  have "follows env tag (as @ []) (\<lambda>k op'. j \<le> k \<and> k < length as \<longrightarrow> fanin_frame tag 0x6 it0 op')
      (steps [ucg_planc_ucx_fanin_kntree_op_send env, ?clear]) op"
    by (rule follows_seq [OF assms(1), where ats = "\<lambda>_ _. True"]) (auto intro: follows_one follows_op_step)
  then show "follows env tag as (\<lambda>k op'. j \<le> k \<and> k < length as \<longrightarrow> fanin_frame tag 0x6 it0 op')
      (steps [ucg_planc_ucx_fanin_kntree_op_send env, ?clear]) op" by simp
qed

subsection \<open>Progress and trigger\<close>

definition fanin_at :: "c_int \<Rightarrow> c_int \<Rightarrow> c_int \<Rightarrow> ucg_rank_t \<Rightarrow> nat \<Rightarrow> ucx_op \<Rightarrow> bool" where
  "fanin_at tag n degree r i op \<longleftrightarrow>
     (let it = fanin_iter n degree r; m = length (fanin_kids n degree r)
      in i = 0 \<and> fanin_frame tag 0xF it op \<and> uo_kntree_iter (op_priv op) = it \<or>
         i = m \<and> fanin_posted tag 0xF it op \<or>
         r \<noteq> 0 \<and> i = m + 2 \<and> fanin_frame tag 0x6 it op \<or>
         i = m + (if r = 0 then 1 else 3))"

abbreviation fanin_steps :: "'w coll_env \<Rightarrow> 'w step list" where
  "fanin_steps env \<equiv> if_flag_until_done UCG_FANIN_RECV_FROM_CHILD (ucg_planc_ucx_fanin_kntree_op_recv env) # fanin_send_steps env"

text \<open>From the receives on; \<open>rest\<close> are the children whose receives have still to be posted.\<close>

lemma follows_fanin:
  assumes n: "kntree_args n degree 0" "r \<in> {0..<n}" and op: "fanin_frame tag 0xF (fanin_iter n degree r) op"
    and rest: "kn_before (uo_kntree_iter (op_priv op)) rest" "set rest \<subseteq> {0..<n}" "i + length rest = length (fanin_kids n degree r)"
  shows "follows env tag (map (\<lambda>c. Rcv c (no_data env)) rest @ Wait # (if r = 0 then [] else [Snd (fanin_up n degree r) (no_data env), Wait]))
    (\<lambda>k op'. fanin_at tag n degree r (i + k) op' \<or> k < length rest \<or> k = length rest + 1 \<and> r \<noteq> 0) (steps (fanin_steps env)) op"
proof (rule follows_until_done_seq)
  let ?it = "fanin_iter n degree r" and ?m = "length (fanin_kids n degree r)" and ?p = "fanin_up n degree r"
  let ?clear = "\<lambda>op. set_flags (ucg_clear_flags (op_flags op) UCG_FANIN_RECV_FROM_CHILD) op"
  show "ucg_test_flags (op_flags op) UCG_FANIN_RECV_FROM_CHILD" using op by (simp add: fanin_frame_def fanin_flag_defs)
  have p: "kn_parent ?it = ?p" by (rule fanin_iter(3) [OF n])
  let ?R = "if r = 0 then [] else [Snd ?p (no_data env), Wait]"
  have send: "follows env tag ?R (\<lambda>k op'. 1 \<le> k \<and> k < length ?R \<longrightarrow> fanin_frame tag 0x6 ?it op') (steps (fanin_send_steps env)) op'"
    if o: "fanin_frame tag 0xE ?it op'" for op'
  proof (rule follows_fanin_send_stage)
    show "ucg_test_flags (op_flags op') UCG_FANIN_SEND_TO_PARENT" using o by (simp add: fanin_frame_def fanin_flag_defs)
    show "follows env tag ?R (\<lambda>k op'. 1 \<le> k \<longrightarrow> fanin_frame tag 0x6 ?it op') (ucg_planc_ucx_fanin_kntree_op_send env) op'"
    proof (cases "r = 0")
      case True
      then have "kn_parent (uo_kntree_iter (op_priv op')) = UCG_INVALID_RANK"
        using fanin_frame_parent [OF o] p fanin_kids_ranks(4) [OF n] by simp
      then show ?thesis using True
        by (simp add: follows_def ucg_planc_ucx_fanin_kntree_op_send_def ucg_algo_kntree_iter_parent_value_def)
    next
      case False
      then show ?thesis using follows_fanin_send [OF o p] fanin_kids_ranks(4) [OF n] by simp
    qed
  qed
  have send': "follows env tag ?R (\<lambda>k op'. k \<le> length ?R \<and> (1 \<le> k \<and> k < length ?R \<longrightarrow> fanin_frame tag 0x6 ?it op')) (steps (fanin_send_steps env)) op'"
    if o: "fanin_frame tag 0xE ?it op'" for op'
    by (rule follows_waits [OF send [OF o]]) auto
  have "follows env tag ((map (\<lambda>c. Rcv c (no_data env)) rest @ [Wait]) @ ?R)
    (\<lambda>k op'. fanin_at tag n degree r (i + k) op' \<or> k < length rest \<or> k = length rest + 1 \<and> r \<noteq> 0)
    (steps (ucg_planc_ucx_fanin_kntree_op_recv env # op_step ?clear # fanin_send_steps env)) op"
  proof (rule follows_seq [OF follows_fanin_recv [OF op rest(1) fanin_iter(5,6) [OF n] rest(2)],
        where ats = "\<lambda>k op'. k \<le> length ?R \<and> (1 \<le> k \<and> k < length ?R \<longrightarrow> fanin_frame tag 0x6 ?it op')"])
    fix op' assume "length rest \<le> length (map (\<lambda>c. Rcv c (no_data env)) rest @ [Wait]) \<longrightarrow> fanin_posted tag 0xF ?it op'"
    then have o: "fanin_frame tag 0xE ?it (?clear op')" by (simp add: fanin_posted_def fanin_frame_def fanin_flag_defs)
    show "follows env tag ?R (\<lambda>k op'. k \<le> length ?R \<and> (1 \<le> k \<and> k < length ?R \<longrightarrow> fanin_frame tag 0x6 ?it op'))
        (steps (op_step ?clear # fanin_send_steps env)) op'"
      by (rule follows_none_step [OF _ send' [OF o]]) (simp add: op_step_def)
  next
    fix k op' assume "k < length (map (\<lambda>c. Rcv c (no_data env)) rest @ [Wait])" "length rest \<le> k \<longrightarrow> fanin_posted tag 0xF ?it op'"
    then show "fanin_at tag n degree r (i + k) op' \<or> k < length rest \<or> k = length rest + 1 \<and> r \<noteq> 0"
      using rest(3) by (auto simp: fanin_at_def Let_def)
  next
    fix k op' assume k: "k \<le> length ?R \<and> (1 \<le> k \<and> k < length ?R \<longrightarrow> fanin_frame tag 0x6 ?it op')"
    let ?k = "length (map (\<lambda>c. Rcv c (no_data env)) rest @ [Wait]) + k"
    show "fanin_at tag n degree r (i + ?k) op' \<or> ?k < length rest \<or> ?k = length rest + 1 \<and> r \<noteq> 0"
      using rest(3) k by (cases "r = 0") (auto simp: fanin_at_def Let_def le_Suc_eq numeral_2_eq_2)
  qed
  then show "follows env tag (map (\<lambda>c. Rcv c (no_data env)) rest @ Wait # ?R)
    (\<lambda>k op'. fanin_at tag n degree r (i + k) op' \<or> k < length rest \<or> k = length rest + 1 \<and> r \<noteq> 0)
    (steps (ucg_planc_ucx_fanin_kntree_op_recv env # op_step ?clear # fanin_send_steps env)) op" by simp
qed

lemma follows_fanin_progress:
  assumes "follows env tag as (\<lambda>k. fanin_at tag n degree r (i + k)) (steps (fanin_steps env)) op"
  shows "follows env tag as (\<lambda>k. fanin_at tag n degree r (i + k)) (ucg_planc_ucx_fanin_kntree_op_progress env) op"
proof -
  have e: "ucg_planc_ucx_fanin_kntree_op_progress env = (\<lambda>op w. progress_end (steps (fanin_steps env) op w))"
    by (intro ext) (simp add: ucg_planc_ucx_fanin_kntree_op_progress_def)
  show ?thesis unfolding e
    by (rule follows_progress_end [OF assms]) (simp add: fanin_at_def Let_def fanin_frame_def fanin_posted_def op_set_status_def)
qed

lemma fanin_progress_follows:
  assumes n: "kntree_args n degree 0" "r \<in> {0..<n}" and at: "fanin_at tag n degree r i op"
    and w: "i = 0 \<or> i < length (fanin_acts (no_data env) n degree r) \<and> fanin_acts (no_data env) n degree r ! i = Wait"
  shows "follows env tag (drop i (fanin_acts (no_data env) n degree r)) (\<lambda>k. fanin_at tag n degree r (i + k))
    (ucg_planc_ucx_fanin_kntree_op_progress env) op"
proof (rule follows_fanin_progress)
  let ?it = "fanin_iter n degree r" and ?m = "length (fanin_kids n degree r)" and ?p = "fanin_up n degree r" and ?b = "no_data env"
  let ?R = "if r = 0 then [] else [Snd ?p ?b, Wait]" and ?S = "fanin_acts (no_data env) n degree r"
  have len: "length ?S = ?m + (if r = 0 then 1 else 3)" by (simp add: fanin_acts_def)
  have il: "i < length ?S" using w len by (auto split: if_splits)
  have kids: "set (fanin_kids n degree r) \<subseteq> {0..<n}" by (rule fanin_kids_ranks(1) [OF n])
  have post: "follows env tag (drop i ?S) (\<lambda>k. fanin_at tag n degree r (i + k)) (steps (fanin_steps env)) op"
    if o: "fanin_frame tag 0xF ?it op" "kn_before (uo_kntree_iter (op_priv op)) rest" "set rest \<subseteq> {0..<n}" "i + length rest = ?m"
      and d: "drop i ?S = map (\<lambda>c. Rcv c ?b) rest @ Wait # ?R" for rest
    unfolding d
  proof (rule follows_waits [OF follows_fanin [OF n o]])
    let ?as = "map (\<lambda>c. Rcv c ?b) rest @ Wait # ?R"
    fix k op' assume k: "k = length ?as \<or> k < length ?as \<and> ?as ! k = Wait"
      "fanin_at tag n degree r (i + k) op' \<or> k < length rest \<or> k = length rest + 1 \<and> r \<noteq> 0"
    moreover have "?as ! k \<noteq> Wait" if "k < length rest" using that by (simp add: nth_append)
    moreover have "?as ! k \<noteq> Wait" if "k = length rest + 1 \<and> r \<noteq> 0" using that by (simp add: nth_append)
    ultimately show "fanin_at tag n degree r (i + k) op'" by auto
  qed
  from at consider "i = 0" "fanin_frame tag 0xF ?it op" "uo_kntree_iter (op_priv op) = ?it" | "i = ?m" "fanin_posted tag 0xF ?it op"
    | "r \<noteq> 0" "i = ?m + 2" "fanin_frame tag 0x6 ?it op"
    using il len unfolding fanin_at_def Let_def by fastforce
  then show "follows env tag (drop i ?S) (\<lambda>k. fanin_at tag n degree r (i + k)) (steps (fanin_steps env)) op"
  proof cases
    case 1
    then show ?thesis using fanin_iter(4) [OF n] kids by (intro post [of "fanin_kids n degree r"]) (simp_all add: fanin_acts_def)
  next
    case 2
    show ?thesis
      by (rule post [of "[]"]) (use 2 fanin_posted_before [OF 2(2) fanin_iter(4) [OF n]] in \<open>simp_all add: fanin_posted_def fanin_acts_def\<close>)
  next
    case 3
    have d: "drop i ?S = [Wait]" using 3 by (simp add: fanin_acts_def)
    have skip: "steps (fanin_steps env) op = steps (fanin_send_steps env) op"
      using 3(3) by (intro ext) (simp add: fanin_frame_def fanin_flag_defs if_flag_until_done_def)
    have "follows env tag [Wait] (\<lambda>k op'. 0 \<le> k \<and> k < length [Wait] \<longrightarrow> fanin_frame tag 0x6 ?it op') (steps (fanin_send_steps env)) op"
    proof (rule follows_fanin_send_stage)
      show "follows env tag [Wait] (\<lambda>k op'. 0 \<le> k \<longrightarrow> fanin_frame tag 0x6 ?it op') (ucg_planc_ucx_fanin_kntree_op_send env) op"
        using follows_fanin_wait [OF 3(3) fanin_iter(3) [OF n]] fanin_kids_ranks(4) [OF n] 3(1) by simp
    qed (use 3(3) in \<open>simp add: fanin_frame_def fanin_flag_defs\<close>)
    then have "follows env tag [Wait] (\<lambda>k. fanin_at tag n degree r (i + k)) (steps (fanin_send_steps env)) op"
      by (rule follows_waits) (use 3(1,2) in \<open>auto simp: fanin_at_def Let_def\<close>)
    then show ?thesis unfolding d by (intro follows_cong [where f = "steps (fanin_steps env)" and g = "steps (fanin_send_steps env)", OF skip])
  qed
qed

text \<open>An operation that has been made, or has run before.\<close>

definition fanin_ready :: "c_int \<Rightarrow> c_int \<Rightarrow> c_int \<Rightarrow> ucg_rank_t \<Rightarrow> ucx_op \<Rightarrow> bool" where
  "fanin_ready tag n degree r op \<longleftrightarrow> op_id op = tag \<and> kn_same_tree (fanin_iter n degree r) (uo_kntree_iter (op_priv op))"

lemma fanin_trigger_starts:
  assumes n: "kntree_args n degree 0" "r \<in> {0..<n}" and op: "fanin_ready tag n degree r op"
  shows "\<exists>op0. fanin_at tag n degree r 0 op0 \<and> (\<forall>w. ucg_planc_ucx_fanin_kntree_op_trigger env op w =
    trigger_end (ucg_planc_ucx_fanin_kntree_op_progress env op0 (ce_state_reset env w)))"
proof -
  let ?it = "fanin_iter n degree r"
  define op0 where "op0 = upd_priv (\<lambda>p. p\<lparr>uo_kntree_iter := ?it, uo_flags := UCG_FANIN_KNTREE_FLAGS\<rparr>) (fst (ucg_planc_ucx_op_reset env op undefined))"
  have reset: "ucg_algo_kntree_iter_reset (uo_kntree_iter (op_priv op)) = Some ?it"
    by (rule fanin_iter(2) [OF n]) (use op in \<open>simp add: fanin_ready_def\<close>)
  have "UCG_FANIN_KNTREE_FLAGS = 0xF" by (simp add: UCG_FANIN_KNTREE_FLAGS_def fanin_flag_defs)
  then have "fanin_at tag n degree r 0 op0"
    using op by (simp add: fanin_at_def fanin_frame_def fanin_ready_def op0_def ucg_planc_ucx_op_reset_def kn_same_tree_refl op_set_status_def)
  moreover have "ucg_planc_ucx_fanin_kntree_op_trigger env op w =
      trigger_end (ucg_planc_ucx_fanin_kntree_op_progress env op0 (ce_state_reset env w))" for w
    by (simp add: op0_def ucg_planc_ucx_fanin_kntree_op_trigger_def ucg_planc_ucx_op_reset_def reset)
  ultimately show ?thesis by blast
qed

lemma fanin_new_ready:
  assumes "ucg_planc_ucx_fanin_kntree_op_new env grp vgroup blank args degree h w = Some (Some op, h', w')"
    and "ce_size env = n" and "ce_myrank env = r" and "kntree_args n degree 0" and "r \<in> {0..<n}"
  shows "fanin_ready (op_id op) n degree r op"
  using assms fanin_iter(1) [OF assms(4,5)]
  by (auto simp: ucg_planc_ucx_fanin_kntree_op_new_def ucx_op_new_def ucg_plan_op_ctor_def ucg_request_ctor_def
      ucg_planc_ucx_op_init_def fanin_ready_def kn_same_tree_refl split: prod.splits bool.splits if_splits bind_splits)

end
