(* ===== verification/Fanin_Spec.thy ===== *)
theory Fanin_Spec
  imports Fanin_Script Barrier_Spec Bcast_Spec
begin

text \<open>What the fan-in guarantees: who has finished knows that all ranks below it in the tree have begun.\<close>

definition fanin_script :: "c_int \<Rightarrow> c_int \<Rightarrow> (ucg_rank_t \<Rightarrow> c_buf) \<Rightarrow> ucg_rank_t \<Rightarrow> coll_act list" where
  "fanin_script n degree b r = fanin_acts (b r) n degree r"

lemma fanin_peers:
  assumes "kntree_args n degree 0" and "r \<in> {0..<n}"
  shows "peers_of (fanin_acts b n degree r) \<subseteq> {0..<n}"
proof -
  have "peers_of (map (\<lambda>c. Rcv c b) (fanin_kids n degree r)) \<subseteq> {0..<n}"
    using fanin_kids_ranks(1) [OF assms] by (auto simp: peers_of_def)
  then show ?thesis using fanin_kids_ranks(3) [OF assms] by (auto simp: fanin_acts_def)
qed

interpretation fanin: scripted_coll
  "\<lambda>(n, degree, tag, E :: ucg_rank_t \<Rightarrow> 'w coll_env). kntree_args n degree 0" "\<lambda>(n, degree, tag, E). {0..<n}"
  "\<lambda>(n, degree, tag, E). E" "\<lambda>(n, degree, tag, E). tag"
  "\<lambda>(n, degree, tag, E). fanin_script n degree (\<lambda>r. no_data (E r))" "\<lambda>_ _. 0"
  "\<lambda>(n, degree, tag, E) r. fanin_at tag n degree r" "\<lambda>(n, degree, tag, E) r. fanin_ready tag n degree r"
  ucg_planc_ucx_fanin_kntree_op_trigger ucg_planc_ucx_fanin_kntree_op_progress
proof (unfold_locales, goal_cases)
  case (1 g r)
  then show ?case using fanin_peers by (auto simp: fanin_script_def split: prod.splits)
next
  case (3 g r i op)
  obtain n degree tag E where g: "g = (n, degree, tag, E)" by (cases g)
  have "follows (E r) tag (drop i (fanin_acts (no_data (E r)) n degree r)) (\<lambda>k. fanin_at tag n degree r (i + k))
      (ucg_planc_ucx_fanin_kntree_op_progress (E r)) op"
    by (rule fanin_progress_follows) (use 3 in \<open>auto simp: g fanin_script_def\<close>)
  then show ?case by (intro exI [where x = "[]"]) (simp add: g fanin_script_def)
next
  case (4 g r op w st op' w')
  then show ?case by (auto simp: ucg_planc_ucx_fanin_kntree_op_progress_def progress_end_def split: prod.splits)
next
  case (5 g r op)
  obtain n degree tag E where g: "g = (n, degree, tag, E)" by (cases g)
  from 5 show ?case using fanin_trigger_starts [of n degree r tag op "E r"] by (auto simp: g)
qed simp

text \<open>A rank that is behind the test of its receives: so are all ranks below it, and they have gone on to their parents.\<close>

lemma fanin_cut:
  assumes n: "kntree_args n degree 0" and cut: "consistent_cut {0..<n} (fanin_script n degree b) pos"
    and "(r, s) \<in> (kntree_edges n degree 0 False)\<^sup>*"
  shows "r \<in> {0..<n} \<Longrightarrow> length (fanin_kids n degree r) < pos r \<Longrightarrow> s \<in> {0..<n} \<and> length (fanin_kids n degree s) < pos s"
  using assms(3)
proof (induction rule: rtrancl_induct)
  case (step x c)
  then have x: "x \<in> {0..<n}" "length (fanin_kids n degree x) < pos x" by simp_all
  have kid: "c \<in> set (fanin_kids n degree x)" using step.hyps(2) by (auto simp: kntree_edges_def fanin_kids_def)
  then have c: "c \<in> {0..<n}" "c \<noteq> 0" "fanin_up n degree c = x"
    using fanin_kids_ranks(1,2) [OF n x(1)] by blast+
  let ?m = "length (fanin_kids n degree x)" and ?k = "length (fanin_kids n degree c)"
  have S: "fanin_script n degree b x ! ?m = Wait" "take ?m (fanin_script n degree b x) = map (\<lambda>c. Rcv c (b x)) (fanin_kids n degree x)"
    by (simp_all add: fanin_script_def fanin_acts_def nth_append)
  have "rcv_count c (take ?m (fanin_script n degree b x)) \<le> snd_count x (take (pos c) (fanin_script n degree b c))"
    using cut x(1,2) c(1) S(1) unfolding consistent_cut_def by blast
  moreover have "rcv_count c (take ?m (fanin_script n degree b x)) \<noteq> 0" unfolding S(2) rcv_count_0 using kid by (cases "b x") auto
  ultimately have "snd_count x (take (pos c) (fanin_script n degree b c)) \<noteq> 0" by simp
  moreover have "snd_count x (take (pos c) (fanin_script n degree b c)) = 0" if "pos c \<le> ?k"
    using that unfolding snd_count_0 by (auto simp: fanin_script_def fanin_acts_def dest: in_set_takeD)
  ultimately show ?case using c(1) by (metis not_le)
qed simp

definition fanin_idle ::
    "c_int \<Rightarrow> c_int \<Rightarrow> c_int \<Rightarrow> ('w \<Rightarrow> bool) \<Rightarrow> ('w \<Rightarrow> chan_count) \<Rightarrow> ('w \<Rightarrow> chan_count) \<Rightarrow> 'w coll_conf \<Rightarrow> bool" where
  "fanin_idle n degree tag ok sent rcvd c \<longleftrightarrow> ok (cf_world c) \<and>
     (\<forall>r \<in> {0..<n}. cf_on c r = None \<and> fanin_ready tag n degree r (cf_op c r)) \<and>
     (\<forall>r \<in> {0..<n}. \<forall>p \<in> {0..<n}. sent (cf_world c) r p = 0 \<and> rcvd (cf_world c) r p = 0)"

text \<open>
  C13: a rank does not finish the fan-in before every rank below it in the k-nomial tree has entered it, in any
  interleaving of the ranks and over any p2p layer whose successful tests mean that the messages received so far have
  been sent; so rank 0, which all are below, finishes after all have entered.
\<close>

theorem fanin_kntree_safe:
  assumes "kntree_args n degree 0" and "chan_promises {0..<n} E tag ok sent rcvd" and "fanin_idle n degree tag ok sent rcvd c0"
    and "coll_run {0..<n} E ucg_planc_ucx_fanin_kntree_op_trigger ucg_planc_ucx_fanin_kntree_op_progress (\<lambda>w. (ok w, sent w, rcvd w)) c0 c"
    and "r \<in> {0..<n}" and "cf_on c r = Some UCG_OK" and "op_status (cf_op c r) = UCG_OK"
    and "s \<in> {0..<n}" and "r = 0 \<or> (r, s) \<in> (kntree_edges n degree 0 False)\<^sup>*"
  shows "cf_on c s \<noteq> None"
proof -
  let ?g = "(n, degree, tag, E)" and ?S = "fanin_script n degree (\<lambda>r. no_data (E r))"
  have idle: "fanin.coll_idle ?g c0" using assms(3) by (simp add: fanin.coll_idle_def fanin_idle_def)
  have zero: "ok (cf_world c0) \<and> (\<forall>r \<in> {0..<n}. \<forall>p \<in> {0..<n}. sent (cf_world c0) r p = 0 \<and> rcvd (cf_world c0) r p = 0)"
    using assms(3) by (simp add: fanin_idle_def)
  obtain pos where p: "consistent_cut {0..<n} ?S pos" "\<And>r. r \<in> {0..<n} \<Longrightarrow> 0 < pos r \<Longrightarrow> cf_on c r \<noteq> None"
    "\<And>r. r \<in> {0..<n} \<Longrightarrow> cf_on c r = Some UCG_OK \<Longrightarrow> op_status (cf_op c r) = UCG_OK \<Longrightarrow> pos r = length (?S r)"
    using fanin.run_finished [of ?g ok sent rcvd c0 c] assms(1,2,4) idle zero by auto
  have "(r, s) \<in> (kntree_edges n degree 0 False)\<^sup>*"
    using assms(1,8,9) kt.root_reaches [of "(n, degree, 0, False)" s] by (auto simp: kntree_edges_kt)
  from fanin_cut [OF assms(1) p(1) this assms(5)] have "length (fanin_kids n degree s) < pos s"
    using p(3) [OF assms(5-7)] by (simp add: fanin_script_def fanin_acts_def)
  then show ?thesis using p(2) [OF assms(8)] by simp
qed

subsection \<open>Four ranks\<close>

text \<open>In the binary tree of four ranks, rank 0 has the children 1 and 2, rank 2 has the child 3.\<close>

definition gather_op :: "ucg_rank_t \<Rightarrow> ucx_op" where
  "gather_op r = op_set_id 0x800001 (case ucg_planc_ucx_fanin_kntree_op_new (count_env 4 r) 1 2 blank_coll (coll_args_zero UCG_COLL_TYPE_REDUCE) 2
     \<lparr>h_outcomes = [], h_live = 0\<rparr> (\<lambda>_ _. 0, \<lambda>_ _. 0) of Some (Some op, _) \<Rightarrow> op | _ \<Rightarrow> undefined)"

definition gather_start :: "count_net coll_conf" where
  "gather_start = \<lparr>cf_op = gather_op, cf_on = (\<lambda>_. None), cf_world = (\<lambda>_ _. 0, \<lambda>_ _. 0)\<rparr>"

definition gather_run :: "(bool \<times> ucg_rank_t) list \<Rightarrow> count_net coll_conf option" where
  "gather_run ms = coll_play (count_env 4) ucg_planc_ucx_fanin_kntree_op_trigger ucg_planc_ucx_fanin_kntree_op_progress ms gather_start"

definition gather_moves :: "(bool \<times> ucg_rank_t) list" where
  "gather_moves = [(True, 0), (True, 2), (False, 0), (True, 3), (False, 2), (True, 1), (False, 0)]"

declare fanin_kntree_recv_children.simps [code]

lemma gather_value:
  "case gather_run gather_moves of None \<Rightarrow> False | Some c \<Rightarrow> cf_on c 0 = Some UCG_OK \<and> op_status (cf_op c 0) = UCG_OK"
  by code_simp

lemma gather_run_is_run:
  assumes "gather_run ms = Some c" and "snd ` set ms \<subseteq> {0..<4}"
  shows "coll_run {0..<4} (count_env 4) ucg_planc_ucx_fanin_kntree_op_trigger ucg_planc_ucx_fanin_kntree_op_progress
    (\<lambda>w. (True, fst w, snd w)) gather_start c"
  by (rule coll_play_run [OF assms(2) coll_run.start assms(1) [unfolded gather_run_def]])

lemma gather_args: "kntree_args 4 2 0" by (simp add: kntree_args_def)

lemma gather_idle: "fanin_idle 4 2 0x800001 (\<lambda>_. True) fst snd gather_start"
proof -
  have "fanin_ready 0x800001 4 2 r (gather_op r)" if r: "r \<in> {0..<4}" for r
  proof -
    obtain op h' w' where o: "ucg_planc_ucx_fanin_kntree_op_new (count_env 4 r) 1 2 blank_coll (coll_args_zero UCG_COLL_TYPE_REDUCE) 2
        \<lparr>h_outcomes = [], h_live = 0\<rparr> (\<lambda>_ _. 0, \<lambda>_ _. 0) = Some (Some op, h', w')"
      using fanin_iter(1) [OF gather_args r]
      by (auto simp: ucg_planc_ucx_fanin_kntree_op_new_def ucx_op_new_def heap_alloc_def ucg_plan_op_ctor_def ucg_request_ctor_def
        ucg_planc_ucx_op_init_def count_env_def)
    then have e: "gather_op r = op_set_id 0x800001 op" by (simp add: gather_op_def)
    from fanin_new_ready [OF o _ _ gather_args r] show ?thesis
      by (simp add: e fanin_ready_def op_set_id_def count_env_def)
  qed
  then show ?thesis by (simp add: fanin_idle_def gather_start_def)
qed

lemma fanin_kntree_safe_witness:
  "\<exists>c. gather_run gather_moves = Some c \<and> op_status (cf_op c 0) = UCG_OK \<and> cf_on c 3 \<noteq> None"
proof -
  obtain c where c: "gather_run gather_moves = Some c" "cf_on c 0 = Some UCG_OK" "op_status (cf_op c 0) = UCG_OK"
    using gather_value by (auto split: option.splits)
  have P: "chan_promises {0..<4} (count_env 4) 0x800001 (\<lambda>_. True) fst snd" using count_promises [of 4] by simp
  have "cf_on c 3 \<noteq> None"
    by (rule fanin_kntree_safe [OF gather_args P gather_idle gather_run_is_run [OF c(1)], where r = 0])
      (simp_all add: gather_moves_def c)
  then show ?thesis using c by blast
qed

end
