(* ===== verification/Spec2Isabelle.thy ===== *)
theory Spec2Isabelle
  imports Kntree_Spec Rd_Spec Ring_Spec Plan_Store Request_Init Request Parse_Spec Rank_Map Dt_Copy P2p_Spec Barrier_Live Bcast_Spec Agv_Ring_Spec Allgatherv_Bruck Ucx_Plans_Spec Ard_Spec Scatter_Gather_Linear Topo_Group Topo_Detail Meta_Spec Fanin_Spec
begin

text \<open>
  A verification library for the collective communication library kucg.  File names below are
  relative to \<open>src/src/\<close> of the repository; functions and types have the names of the source.

  \<^bold>\<open>The program.\<close>  A user creates contexts and groups and starts collective operations
  (\<open>core/\<close>).  Plan components (\<open>planc/\<close>) register \<^emph>\<open>plans\<close>, ways of performing a
  collective for a range of message sizes, in the plan container of a group; a request selects a plan
  by its message size, the plan creates an operation, and the operation is a state machine that moves
  messages between ranks along one of the communication patterns of \<open>util/algo/\<close>.  The UCX component
  (\<open>planc/ucx/\<close>) sends them as tagged point-to-point messages, picks algorithms from tables by the number of nodes and of
  processes per node, which the topology of the group knows, and composes operations on the groups of the topology.

  \<^bold>\<open>Shared.\<close>
  \<^item> \<open>Kucg_Prelude\<close>: status codes, machine integers, the heap as an input (\<open>ucg_heap\<close>: which
    allocations succeed, how many blocks are live), C division.

  \<^bold>\<open>Communication patterns.\<close>
  \<^item> \<open>Algo_Kntree\<close>: \<open>util/algo/ucg_kntree.c\<close>.  \<open>Kntree_Tree\<close> is the
    k-nomial tree as mathematics, \<open>Kntree_Walk\<close> proves that both iterators walk it, \<open>Kntree_Spec\<close> has the
    properties of the iterators (parents and children agree, every rank is reached once, subtrees are counted), through the
    locale of \<open>Rank_Tree\<close> (any parent and child relation on ranks).
  \<^item> \<open>Algo_Rd\<close>: \<open>ucg_rd.c\<close>, \<open>ucg_rh.c\<close> and \<open>ucg_ilog2\<close>; \<open>Exchange\<close> is the interface of pairwise exchange
    rounds, \<open>Rd_Spec\<close> interprets it on both and proves that an allreduce is exact.
  \<^item> \<open>Algo_Ring\<close>, \<open>Ring_Spec\<close>: \<open>ucg_ring.c\<close>, \<open>ucg_rolling.c\<close>.

  \<^bold>\<open>Plans and requests.\<close>
  \<^item> \<open>Coll_Args\<close>: collective arguments and message sizes (\<open>core/ucg_request.c\<close>); \<open>Request_Init\<close>: the functions that
    create requests, with the memory type found out and the plan selected.
  \<^item> \<open>Plan\<close>: the plan container of \<open>core/ucg_plan.c\<close>.  \<open>Plan_Spec\<close> has its invariant, the candidates of
    a message size and the accounting of memory blocks; \<open>Plan_Store\<close> the refinement of the container by a
    multiset of candidates per message size, what holds of every container that comes about, and the registration interface
    that plan components use.  \<open>Plan_Parse\<close>, \<open>Parse_Spec\<close>: the attributes and policies that a user writes as text.
  \<^item> \<open>Plan_Op\<close>, \<open>Meta_Op\<close>: operations and meta operations (\<open>core/ucg_plan.c\<close>): a meta operation runs its operations in order,
    whatever they do, and finishes if they do.
  \<^item> \<open>Request\<close>: start, test, completion and cleanup of requests and the progress loop of a context, over the locale of operations
    that keep their contract, interpreted on the meta operations.
  \<^item> \<open>Rank_Map\<close>: \<open>core/ucg_rank_map.c\<close>.

  \<^bold>\<open>Datatypes.\<close>
  \<^item> \<open>C_Memory\<close>, \<open>Dt\<close>, \<open>Dt_Op\<close>: bytes at addresses, datatypes with a user's convertors, and reduction operations
    (\<open>core/ucg_dt.c\<close>).  \<open>Dt_Spec\<close> states the contracts of packing and unpacking as locales, \<open>Dt_Copy\<close> proves what
    \<open>ucg_dt_memcpy\<close> copies under them, and that an unpacker that takes less than it is offered loses data.

  \<^bold>\<open>Topology.\<close>
  \<^item> \<open>Topo_Aux\<close>, \<open>Topo\<close>: \<open>core/ucg_topo.c\<close>.  \<open>Topo_Group\<close>: which ranks a created group has and what memory it owns;
    \<open>Topo_Detail\<close>: nodes and sockets are numbered without gaps, and what the processes per node and socket say.

  \<^bold>\<open>The UCX component.\<close>
  \<^item> \<open>P2p\<close>, \<open>P2p_Spec\<close>: \<open>planc_ucx_p2p.c\<close>, over the functions of UCX, which are parameters; tags, and what a test that succeeds
    means.  \<open>Ucx_Op\<close>: operations of the component and the p2p functions as a record, so that an algorithm can be run
    over any layer that promises what \<open>P2p_Spec\<close> proves.
  \<^item> \<open>Coll_Script\<close>, \<open>Coll_Cut\<close>, \<open>Coll_Iface\<close>, \<open>Coll_Data\<close>, \<open>Coll_Sound\<close>, \<open>Coll_Net\<close>: how the algorithms are proved.  A rank's
    state machine follows a \<^emph>\<open>script\<close> of sends, receives and waits (locale \<open>scripted_coll\<close>); all interleavings of the
    ranks are \<open>coll_run\<close>; positions of the ranks in their scripts form a consistent cut, from which safety and the absence
    of deadlocks follow, and with symbolic buffers also what data arrives.  \<open>Coll_Net\<close> has concrete networks for the examples.
  \<^item> \<open>Barrier_Rd\<close> with \<open>Barrier_Script\<close>, \<open>Barrier_Spec\<close> (safe) and \<open>Barrier_Live\<close> (no deadlock): \<open>barrier/barrier_rd.c\<close>.
    \<open>Bcast_Kntree\<close> with \<open>Bcast_Script\<close>, \<open>Bcast_Spec\<close> (delivers, no deadlock): \<open>bcast/bcast_kntree.c\<close>, \<open>bcast_ring.c\<close>.
    \<open>Allgatherv\<close>, \<open>Allgatherv_Bruck\<close> with \<open>Agv_Ring_Script\<close>, \<open>Agv_Ring_Spec\<close> (the ring gathers): the allgathervs on one level.
    \<open>Allreduce_Rd\<close> with \<open>Ard_Script\<close>, \<open>Ard_Spec\<close> (the reduction in the order of the ranks): \<open>allreduce/allreduce_rd.c\<close>.
    \<open>Scatter_Gather_Linear\<close>: \<open>gatherv/gatherv_linear.c\<close>, \<open>scatterv/scatterv_linear.c\<close>.
  \<^item> \<open>Ucx_Policy\<close>, \<open>Policy_Allgatherv\<close>, \<open>Policy_Allreduce\<close>, \<open>Policy_Barrier\<close>, \<open>Policy_Bcast\<close>, \<open>Policy_Rest\<close>: the tables of algorithms and of
    default policies.  \<open>Ucx_Plans\<close>, \<open>Ucx_Plans_Spec\<close>: their registration; every message size has a plan.
  \<^item> \<open>Meta_Parts\<close>, \<open>Ucx_Meta\<close>, \<open>Meta_Colls\<close>: the composed barriers and broadcasts (\<open>planc_ucx_meta.c\<close>, \<open>barrier/barrier_meta.c\<close>,
    \<open>bcast/bcast_meta.c\<close> and the files of the compositions).  \<open>Fanin_Script\<close>, \<open>Fanin_Spec\<close>: the fan-in is safe.  \<open>Meta_Build\<close>,
    \<open>Meta_Spec\<close>: the operation that a composition builds has a part for every stage, the same stages for all processes, and owns
    the memory it should.

  \<^bold>\<open>Conventions.\<close>  C \<open>int\<close>s are integers, as far as their values fit (\<open>Kucg_Prelude\<close> says where that matters); message sizes,
  scores and counts are words at their width.  Pointers that are only compared are numbers, pointers
  that may be NULL are options.  Errors are the status codes of the source.  Loops that may not end are partial functions in
  the option monad; \<open>None\<close> means that the C function does not return or reads what it may not, and the properties
  that a function returns say that it is \<open>Some\<close>.  No fuel is used.  Logging is not modelled, and
  assertions (\<open>ucg_assert\<close>) are disabled as in a release build.

  \<^bold>\<open>Not modelled.\<close>  Logging, profiling, memory pools and the wrappers around libucs; the component loader; configuration tables;
  the HCCL and STARS components, which drive hardware through libraries that are not in the repository; the life cycle of
  groups and contexts beyond requests and progress; and of the UCX component the remaining algorithms (van de Geijn and
  long broadcasts, Rabenseifner and ring allreduce, tree reduce and scatterv) and the compositions of
  allreduce, allgatherv and scatterv.
\<close>

end
